(* ===== verification/Prelude.thy ===== *)
theory Prelude
  imports Main
begin

text \<open>
  The shared base of the development: the result type of fallible Python code, the
  collections the component proofs draw on, and generic facts on lists, options and
  association lists.

  A Python call that may raise is a value of \<open>'e + 'a\<close>: \<open>Inl e\<close> is the raised
  exception, \<open>Inr x\<close> the returned value. Python's unbounded integers are
  \<open>int\<close>, an instant (a timezone-aware \<open>datetime\<close>) is an \<open>int\<close> of
  microseconds, the resolution of \<open>datetime\<close>, and a byte string is a list of
  \<open>char\<close>.
\<close>

named_theorems table_simps \<open>how a statement changes the tables it does not name\<close>
named_theorems inv_intros \<open>operations keep their component's invariant\<close>

type_synonym instant = int
type_synonym bytes = "char list"

subsection \<open>Results of fallible calls\<close>

definition bindr :: "'e + 'a \<Rightarrow> ('a \<Rightarrow> 'e + 'b) \<Rightarrow> 'e + 'b" where
  "bindr r f = (case r of Inl e \<Rightarrow> Inl e | Inr x \<Rightarrow> f x)"

lemma bindr_simps [simp]:
  "bindr (Inl e) f = Inl e"
  "bindr (Inr x) f = f x"
  by (simp_all add: bindr_def)

lemma bindr_Inr_iff: "bindr r f = Inr y \<longleftrightarrow> (\<exists>x. r = Inr x \<and> f x = Inr y)"
  by (cases r) auto

lemma bindr_Inl_iff: "bindr r f = Inl e \<longleftrightarrow> r = Inl e \<or> (\<exists>x. r = Inr x \<and> f x = Inl e)"
  by (cases r) auto

definition is_ok :: "'e + 'a \<Rightarrow> bool" where
  "is_ok r = (case r of Inl _ \<Rightarrow> False | Inr _ \<Rightarrow> True)"

lemma is_ok_simps [simp]: "\<not> is_ok (Inl e)" "is_ok (Inr x)"
  by (simp_all add: is_ok_def)

subsection \<open>Python's truthiness of an optional integer\<close>

text \<open>\<open>x or d\<close> for an \<open>x\<close> that is \<open>None\<close> or an integer: \<open>None\<close> and \<open>0\<close> are falsy.\<close>

definition int_or :: "int option \<Rightarrow> int \<Rightarrow> int" where
  "int_or x d = (case x of None \<Rightarrow> d | Some v \<Rightarrow> if v = 0 then d else v)"

lemma int_or_simps [simp]:
  "int_or None d = d"
  "int_or (Some 0) d = d"
  "v \<noteq> 0 \<Longrightarrow> int_or (Some v) d = v"
  by (simp_all add: int_or_def)

subsection \<open>Lists\<close>

text \<open>\<open>_batches(items, size)\<close>-style slicing: consecutive slices of \<open>size\<close> elements.\<close>

function batches :: "nat \<Rightarrow> 'a list \<Rightarrow> 'a list list" where
  "batches n xs = (if xs = [] \<or> n = 0 then [] else take n xs # batches n (drop n xs))"
  by pat_completeness auto
termination
  by (relation "measure (\<lambda>(n, xs). length xs)") auto

declare batches.simps [simp del]

lemma batches_Nil [simp]: "batches n [] = []"
  by (simp add: batches.simps)

lemma concat_batches: "0 < n \<Longrightarrow> concat (batches n xs) = xs"
proof (induction n xs rule: batches.induct)
  case (1 n xs)
  then show ?case
    by (cases "xs = []") (simp_all add: batches.simps [of n xs])
qed

lemma batches_nonempty: "b \<in> set (batches n xs) \<Longrightarrow> b \<noteq> [] \<and> length b \<le> n"
proof (induction n xs rule: batches.induct)
  case (1 n xs)
  show ?case
  proof (cases "xs = [] \<or> n = 0")
    case True
    with "1.prems" show ?thesis by (simp add: batches.simps [of n xs])
  next
    case False
    with "1.prems" have "b = take n xs \<or> b \<in> set (batches n (drop n xs))"
      by (simp add: batches.simps [of n xs])
    with False "1.IH" show ?thesis by auto
  qed
qed

lemma find_None_conv: "find P xs = None \<longleftrightarrow> (\<forall>x \<in> set xs. \<not> P x)"
  by (induction xs) auto

lemma find_SomeD: "find P xs = Some x \<Longrightarrow> x \<in> set xs \<and> P x"
  by (induction xs) (auto split: if_splits)

lemma find_unique:
  assumes "find P xs = Some x" "y \<in> set xs" "P y"
    and "\<And>a b. a \<in> set xs \<Longrightarrow> b \<in> set xs \<Longrightarrow> P a \<Longrightarrow> P b \<Longrightarrow> a = b"
  shows "x = y"
  using find_SomeD [OF assms(1)] assms(2-4) by blast

lemma sum_list_strict_mono_ex:
  fixes f g :: "'a \<Rightarrow> nat"
  shows "x \<in> set xs \<Longrightarrow> f x < g x \<Longrightarrow> (\<And>y. y \<in> set xs \<Longrightarrow> f y \<le> g y) \<Longrightarrow>
    sum_list (map f xs) < sum_list (map g xs)"
proof (induction xs)
  case (Cons a xs)
  have "f a \<le> g a" "sum_list (map f xs) \<le> sum_list (map g xs)"
    using Cons.prems(3) by (auto intro: sum_list_mono)
  with Cons show ?case by (auto intro: add_less_le_mono add_le_less_mono)
qed simp

text \<open>Updating the rows a predicate selects, the shape of an SQL \<open>UPDATE ... WHERE\<close>.\<close>

definition update_where :: "('a \<Rightarrow> bool) \<Rightarrow> ('a \<Rightarrow> 'a) \<Rightarrow> 'a list \<Rightarrow> 'a list" where
  "update_where P f xs = map (\<lambda>x. if P x then f x else x) xs"

lemma update_where_simps [simp]:
  "update_where P f [] = []"
  "update_where P f (x # xs) = (if P x then f x else x) # update_where P f xs"
  by (simp_all add: update_where_def)

lemma length_update_where [simp]: "length (update_where P f xs) = length xs"
  by (simp add: update_where_def)

lemma set_update_where: "set (update_where P f xs) = (\<lambda>x. if P x then f x else x) ` set xs"
  by (simp add: update_where_def)

lemma map_update_where:
  "(\<And>x. P x \<Longrightarrow> g (f x) = g x) \<Longrightarrow> map g (update_where P f xs) = map g xs"
  by (simp add: update_where_def)

lemma update_where_none: "(\<And>x. x \<in> set xs \<Longrightarrow> \<not> P x) \<Longrightarrow> update_where P f xs = xs"
  by (induction xs) auto

lemma ex_update_where:
  "(\<exists>y \<in> set (update_where P f xs). Q y) \<longleftrightarrow> (\<exists>x \<in> set xs. if P x then Q (f x) else Q x)"
  by (auto simp: set_update_where)

text \<open>Association lists as Python dictionaries.\<close>

definition dict_pop :: "'k \<Rightarrow> ('k \<times> 'v) list \<Rightarrow> ('k \<times> 'v) list" where
  "dict_pop k d = filter (\<lambda>kv. fst kv \<noteq> k) d"

definition dict_set :: "'k \<Rightarrow> 'v \<Rightarrow> ('k \<times> 'v) list \<Rightarrow> ('k \<times> 'v) list" where
  "dict_set k v d =
     (if k \<in> fst ` set d then map (\<lambda>kv. if fst kv = k then (k, v) else kv) d else d @ [(k, v)])"

lemma map_of_dict_pop [simp]: "map_of (dict_pop k d) = (map_of d)(k := None)"
  by (induction d) (auto simp: dict_pop_def fun_eq_iff)

lemma map_of_dict_set [simp]: "map_of (dict_set k v d) = (map_of d)(k \<mapsto> v)"
proof (cases "k \<in> fst ` set d")
  case True
  have "map_of (map (\<lambda>kv. if fst kv = k then (k, v) else kv) xs) =
      (\<lambda>j. if j = k then (if k \<in> fst ` set xs then Some v else None) else map_of xs j)" for xs
    by (induction xs) (auto simp: fun_eq_iff)
  with True show ?thesis by (auto simp: dict_set_def fun_eq_iff)
next
  case False
  then have "map_of d k = None" by (simp add: map_of_eq_None_iff)
  then show ?thesis
    using False by (auto simp: dict_set_def fun_eq_iff map_add_def split: option.splits)
qed

lemma keys_dict_set: "map fst (dict_set k v d) =
    (if k \<in> fst ` set d then map fst d else map fst d @ [k])"
  by (auto simp: dict_set_def)

lemma keys_dict_pop: "map fst (dict_pop k d) = filter (\<lambda>j. j \<noteq> k) (map fst d)"
  by (induction d) (auto simp: dict_pop_def)

lemma distinct_dict_set: "distinct (map fst d) \<Longrightarrow> distinct (map fst (dict_set k v d))"
  by (auto simp: keys_dict_set)

lemma distinct_dict_pop: "distinct (map fst d) \<Longrightarrow> distinct (map fst (dict_pop k d))"
  by (simp add: keys_dict_pop)

end
