(* ===== verification/SyncStore.thy ===== *)
theory SyncStore
  imports Prelude
begin

text \<open>
  The PostgreSQL tables the sync path reads and writes (migrations 0001, 0003, 0033, 0034)
  and the connection it runs on.

  A table is the list of its rows. A connection carries the tables as this session sees them
  (\<open>work\<close>), the tables as of its last commit (\<open>committed\<close>), and what a rollback does not undo:
  the message rows other sessions have committed meanwhile (visible to every later statement
  under READ COMMITTED), the id sequences, the attachment blob tree and the number of
  finished transactions, which indexes the clock behind SQL \<open>now()\<close>.
\<close>

subsection \<open>Rows\<close>

text \<open>\<open>parser.ParsedMessage\<close> and its attachments: what \<open>INSERT INTO messages\<close> stores.\<close>

record attachment =
  att_filename :: string
  att_mime :: string
  att_payload :: bytes
  att_content_id :: "string option"

record parsed_message =
  p_message_id :: "string option"
  p_raw_sha256 :: bytes
  p_in_reply_to :: "string option"
  p_refs :: "string list"
  p_subject :: "string option"
  p_from_addr :: "string option"
  p_from_name :: "string option"
  p_to_addrs :: "string list"
  p_cc_addrs :: "string list"
  p_bcc_addrs :: "string list"
  p_date_sent :: "instant option"
  p_headers :: "(string \<times> string list) list"
  p_body_text :: "string option"
  p_body_html :: "string option"
  p_raw_bytes :: bytes
  p_size_bytes :: int
  p_attachments :: "attachment list"

text \<open>One entry of the \<open>messages.attachments\<close> JSONB column.\<close>

record attachment_entry =
  ae_filename :: string
  ae_sha256 :: string
  ae_content_id :: "string option"

record message_row =
  m_id :: int
  m_account :: int
  m_parsed :: parsed_message
  m_internal_date :: "instant option"
  m_attachments :: "attachment_entry list"

record mailbox_row =
  mb_id :: int
  mb_account :: int
  mb_name :: string
  mb_delimiter :: "string option"
  mb_flags :: "string list"
  mb_uidvalidity :: "int option"
  mb_uidnext :: "int option"
  mb_last_sync_at :: "instant option"

record label_row =
  l_message :: int
  l_mailbox :: int
  l_uid :: int
  l_flags :: "string list"

record failed_row =
  f_id :: int
  f_account :: int
  f_mailbox :: int
  f_uid :: int
  f_raw :: bytes
  f_sha256 :: bytes
  f_error :: string
  f_failed_at :: instant
  f_retry_count :: int
  f_last_retry_at :: "instant option"

record fetch_row =
  t_mailbox :: int
  t_uid :: int
  t_attempt_count :: int
  t_first_seen_at :: instant
  t_last_seen_at :: instant
  t_gave_up_at :: "instant option"

record account_row =
  a_id :: int
  a_name :: string
  a_auth_method :: string

record blob_row =
  b_sha256 :: bytes
  b_path :: string
  b_mime :: string
  b_size :: int

record db =
  accounts :: "account_row list"
  mailboxes :: "mailbox_row list"
  messages :: "message_row list"
  labels :: "label_row list"
  failed :: "failed_row list"
  fetches :: "fetch_row list"
  blobs :: "blob_row list"

record conn =
  work :: db
  committed :: db
  others :: "message_row list"
  msg_seq :: int
  failed_seq :: int
  mailbox_seq :: int
  blob_tree :: "(string \<times> bytes) list"
  txn :: nat

subsection \<open>Exceptions\<close>

text \<open>
  \<open>Contention\<close> is the family \<open>db.DB_CONTENTION_ERRORS\<close> (QueryCanceled, DeadlockDetected,
  LockNotAvailable); \<open>UniqueViolation\<close> the \<open>UNIQUE (mailbox_id, uid)\<close> constraint of
  \<open>message_labels\<close>; \<open>DedupConflict\<close> the \<open>RuntimeError\<close> of \<open>upsert_message\<close>; \<open>Raised s\<close> any
  other exception, with its class and message.
\<close>

datatype exn = Contention | UniqueViolation | DedupConflict | Raised string

fun exn_text :: "exn \<Rightarrow> string" where
  "exn_text Contention = ''contention''"
| "exn_text UniqueViolation = ''UniqueViolation''"
| "exn_text DedupConflict = ''RuntimeError''"
| "exn_text (Raised s) = s"

subsection \<open>Transactions\<close>

definition commit :: "conn \<Rightarrow> conn" where
  "commit c = c\<lparr>committed := work c, txn := Suc (txn c)\<rparr>"

definition rollback :: "conn \<Rightarrow> conn" where
  "rollback c = c\<lparr>work := committed c, txn := Suc (txn c)\<rparr>"

text \<open>\<open>ROLLBACK TO SAVEPOINT\<close>: the tables go back to the savepoint's, nothing else does.\<close>

definition rollback_to :: "db \<Rightarrow> conn \<Rightarrow> conn" where
  "rollback_to d c = c\<lparr>work := d\<rparr>"

definition with_work :: "(db \<Rightarrow> db) \<Rightarrow> conn \<Rightarrow> conn" where
  "with_work f c = c\<lparr>work := f (work c)\<rparr>"

lemma work_with_work [simp]: "work (with_work f c) = f (work c)"
  by (simp add: with_work_def)

lemma rest_with_work [simp]:
  "committed (with_work f c) = committed c" "others (with_work f c) = others c"
  "mailbox_seq (with_work f c) = mailbox_seq c"
  "msg_seq (with_work f c) = msg_seq c" "failed_seq (with_work f c) = failed_seq c"
  "blob_tree (with_work f c) = blob_tree c" "txn (with_work f c) = txn c"
  by (simp_all add: with_work_def)

lemma commit_simps [simp]:
  "work (commit c) = work c" "committed (commit c) = work c" "others (commit c) = others c"
  "mailbox_seq (commit c) = mailbox_seq c" "msg_seq (commit c) = msg_seq c" "failed_seq (commit c) = failed_seq c"
  "blob_tree (commit c) = blob_tree c" "txn (commit c) = Suc (txn c)"
  by (simp_all add: commit_def)

lemma rollback_to_simps [simp]:
  "work (rollback_to d c) = d" "committed (rollback_to d c) = committed c"
  "others (rollback_to d c) = others c" "msg_seq (rollback_to d c) = msg_seq c"
  "mailbox_seq (rollback_to d c) = mailbox_seq c"
  "failed_seq (rollback_to d c) = failed_seq c" "blob_tree (rollback_to d c) = blob_tree c"
  "txn (rollback_to d c) = txn c"
  by (simp_all add: rollback_to_def)

text \<open>The message rows a statement of this session can see.\<close>

definition visible_messages :: "conn \<Rightarrow> message_row list" where
  "visible_messages c = messages (work c) @ others c"

subsection \<open>The per-account dedup key\<close>

text \<open>
  The two partial unique indexes of \<open>messages\<close>: \<open>(account_id, message_id)\<close> where there is a
  Message-Id, \<open>(account_id, raw_sha256)\<close> where there is none.
\<close>

definition same_key :: "int \<Rightarrow> string option \<Rightarrow> bytes \<Rightarrow> message_row \<Rightarrow> bool" where
  "same_key acct mid sha r \<longleftrightarrow> m_account r = acct \<and>
     (case mid of
        Some i \<Rightarrow> p_message_id (m_parsed r) = Some i
      | None \<Rightarrow> p_message_id (m_parsed r) = None \<and> p_raw_sha256 (m_parsed r) = sha)"

definition row_same_key :: "message_row \<Rightarrow> message_row \<Rightarrow> bool" where
  "row_same_key a b \<longleftrightarrow>
     same_key (m_account a) (p_message_id (m_parsed a)) (p_raw_sha256 (m_parsed a)) b"

lemma row_same_key_refl [simp]: "row_same_key r r"
  by (auto simp: row_same_key_def same_key_def split: option.splits)

lemma row_same_key_sym: "row_same_key a b \<Longrightarrow> row_same_key b a"
  by (auto simp: row_same_key_def same_key_def split: option.splits)

text \<open>The constraints PostgreSQL enforces on these tables.\<close>

definition unique_by :: "('a \<Rightarrow> 'k) \<Rightarrow> 'a list \<Rightarrow> bool" where
  "unique_by f xs = distinct (map f xs)"

fun unique_keys :: "message_row list \<Rightarrow> bool" where
  "unique_keys [] = True"
| "unique_keys (r # rs) = ((\<forall>s \<in> set rs. \<not> row_same_key r s) \<and> unique_keys rs)"

definition label_key :: "label_row \<Rightarrow> int \<times> int" where
  "label_key l = (l_message l, l_mailbox l)"

definition label_uid_key :: "label_row \<Rightarrow> int \<times> int" where
  "label_uid_key l = (l_mailbox l, l_uid l)"

definition failed_key :: "failed_row \<Rightarrow> int \<times> int \<times> int" where
  "failed_key f = (f_account f, f_mailbox f, f_uid f)"

definition fetch_key :: "fetch_row \<Rightarrow> int \<times> int" where
  "fetch_key t = (t_mailbox t, t_uid t)"

text \<open>
  Well-formedness of a session's view: the unique constraints hold and both sequences are past
  every id they have handed out.
\<close>

definition wf_conn :: "conn \<Rightarrow> bool" where
  "wf_conn c \<longleftrightarrow>
     unique_by m_id (visible_messages c) \<and> unique_keys (visible_messages c) \<and>
     unique_by label_key (labels (work c)) \<and> unique_by label_uid_key (labels (work c)) \<and>
     unique_by failed_key (failed (work c)) \<and> unique_by fetch_key (fetches (work c)) \<and>
     unique_by mb_id (mailboxes (work c))"

lemma unique_byD: "unique_by f xs \<Longrightarrow> x \<in> set xs \<Longrightarrow> y \<in> set xs \<Longrightarrow> f x = f y \<Longrightarrow> x = y"
  by (auto simp: unique_by_def distinct_map dest: inj_onD)

lemma unique_by_append_iff:
  "unique_by f (xs @ [y]) \<longleftrightarrow> unique_by f xs \<and> (\<forall>x \<in> set xs. f x \<noteq> f y)"
  by (auto simp: unique_by_def) (metis imageI)

lemma unique_by_filter: "unique_by f xs \<Longrightarrow> unique_by f (filter P xs)"
  by (simp add: unique_by_def distinct_map_filter)

lemma unique_by_update_where:
  "(\<And>x. P x \<Longrightarrow> f (g x) = f x) \<Longrightarrow> unique_by f (update_where P g xs) = unique_by f xs"
  by (simp add: unique_by_def map_update_where)

lemma unique_keys_append:
  "unique_keys (xs @ ys) \<longleftrightarrow>
     unique_keys xs \<and> unique_keys ys \<and> (\<forall>x \<in> set xs. \<forall>y \<in> set ys. \<not> row_same_key x y)"
  by (induction xs) auto

end
