(* ===== verification/FetchRetry.thy ===== *)
theory FetchRetry
  imports SyncStore "HOL-Library.Product_Lexorder"
begin

text \<open>
  UID arithmetic (\<open>uids.py\<close>) and the bookkeeping of bodies the server will not hand over
  (\<open>fetch_retry.py\<close>): the bounded hold, the give-up tombstone, and the \<open>retry-failed-fetches\<close>
  command of \<open>cli.py\<close> that re-drives tombstones. Every statement is a function on the tables;
  \<open>now\<close> is SQL \<open>now()\<close>, the start of the statement's transaction.
\<close>

subsection \<open>UID arithmetic\<close>

definition archive_auth_method :: string where
  "archive_auth_method = ''archive''"

definition next_uid_after :: "int option \<Rightarrow> int" where
  "next_uid_after max_uid = int_or max_uid 0 + 1"

definition should_reallocate_uid :: "string \<Rightarrow> bool" where
  "should_reallocate_uid auth_method \<longleftrightarrow> auth_method = archive_auth_method"

definition checkpoint_uidnext :: "int \<Rightarrow> int option \<Rightarrow> int" where
  "checkpoint_uidnext highest_seen hold_at =
     (let resume = highest_seen + 1
      in case hold_at of None \<Rightarrow> resume | Some h \<Rightarrow> min resume h)"

text \<open>\<open>COALESCE(MAX(x), 0)\<close> over a column.\<close>

definition max_or_zero :: "int list \<Rightarrow> int" where
  "max_or_zero xs = (case xs of [] \<Rightarrow> 0 | y # ys \<Rightarrow> fold max ys y)"

definition max_label_uid :: "db \<Rightarrow> int \<Rightarrow> int" where
  "max_label_uid d mailbox_id =
     max_or_zero (map l_uid (filter (\<lambda>l. l_mailbox l = mailbox_id) (labels d)))"

definition max_reserved_uid :: "db \<Rightarrow> int \<Rightarrow> int \<Rightarrow> int" where
  "max_reserved_uid d account_id mailbox_id =
     max (max_label_uid d mailbox_id)
         (max_or_zero (map f_uid
            (filter (\<lambda>f. f_account f = account_id \<and> f_mailbox f = mailbox_id) (failed d))))"

subsection \<open>The hold\<close>

record hold_state =
  attempt_count :: int
  first_seen_at :: instant

definition hold_expired :: "instant \<Rightarrow> instant \<Rightarrow> int \<Rightarrow> bool" where
  "hold_expired first_seen now max_hold_s =
     (if max_hold_s \<le> 0 then True else now - first_seen \<ge> max_hold_s)"

definition load_attempts :: "db \<Rightarrow> int \<Rightarrow> (int \<times> hold_state) list" where
  "load_attempts d mailbox_id =
     map (\<lambda>t. (t_uid t, \<lparr>attempt_count = t_attempt_count t, first_seen_at = t_first_seen_at t\<rparr>))
       (filter (\<lambda>t. t_mailbox t = mailbox_id) (fetches d))"

definition is_fetch :: "int \<Rightarrow> int \<Rightarrow> fetch_row \<Rightarrow> bool" where
  "is_fetch mailbox_id uid t \<longleftrightarrow> t_mailbox t = mailbox_id \<and> t_uid t = uid"

text \<open>
  \<open>record_attempt\<close>: the upsert under its savepoint. A failing statement (\<open>fault\<close>) is rolled
  back to the savepoint and reported as a fresh hold starting now.
\<close>

definition record_attempt ::
  "exn option \<Rightarrow> instant \<Rightarrow> int \<Rightarrow> int \<Rightarrow> db \<Rightarrow> hold_state \<times> db" where
  "record_attempt fault now mailbox_id uid d =
     (case fault of
        Some _ \<Rightarrow> (\<lparr>attempt_count = 1, first_seen_at = now\<rparr>, d)
      | None \<Rightarrow>
         (case find (is_fetch mailbox_id uid) (fetches d) of
            Some t \<Rightarrow>
              (\<lparr>attempt_count = t_attempt_count t + 1, first_seen_at = t_first_seen_at t\<rparr>,
               d\<lparr>fetches := update_where (is_fetch mailbox_id uid)
                   (\<lambda>t. t\<lparr>t_attempt_count := t_attempt_count t + 1, t_last_seen_at := now\<rparr>)
                   (fetches d)\<rparr>)
          | None \<Rightarrow>
              (\<lparr>attempt_count = 1, first_seen_at = now\<rparr>,
               d\<lparr>fetches := fetches d @
                   [\<lparr>t_mailbox = mailbox_id, t_uid = uid, t_attempt_count = 1,
                     t_first_seen_at = now, t_last_seen_at = now, t_gave_up_at = None\<rparr>]\<rparr>)))"

definition clear_attempts :: "int \<Rightarrow> int \<Rightarrow> db \<Rightarrow> db" where
  "clear_attempts mailbox_id uid d =
     d\<lparr>fetches := filter (\<lambda>t. \<not> is_fetch mailbox_id uid t) (fetches d)\<rparr>"

definition reclaim_below :: "int \<Rightarrow> int \<Rightarrow> db \<Rightarrow> db" where
  "reclaim_below mailbox_id uid d =
     d\<lparr>fetches := filter (\<lambda>t. \<not> (t_mailbox t = mailbox_id \<and> t_uid t < uid \<and> t_gave_up_at t = None))
                   (fetches d)\<rparr>"

definition clear_mailbox :: "int \<Rightarrow> db \<Rightarrow> db" where
  "clear_mailbox mailbox_id d =
     d\<lparr>fetches := filter (\<lambda>t. t_mailbox t \<noteq> mailbox_id) (fetches d)\<rparr>"

subsection \<open>Give-up tombstones\<close>

definition mark_gave_up :: "exn option \<Rightarrow> instant \<Rightarrow> int \<Rightarrow> int \<Rightarrow> db \<Rightarrow> db" where
  "mark_gave_up fault now mailbox_id uid d =
     (case fault of
        Some _ \<Rightarrow> d
      | None \<Rightarrow>
         d\<lparr>fetches := update_where (is_fetch mailbox_id uid)
             (\<lambda>t. t\<lparr>t_gave_up_at := Some (case t_gave_up_at t of None \<Rightarrow> now | Some g \<Rightarrow> g)\<rparr>)
             (fetches d)\<rparr>)"

text \<open>
  \<open>plan_uidnext_rewind\<close>: the lowest tombstoned UID per mailbox with a known watermark, kept
  only where it lies below that watermark.
\<close>

fun lowest_uids :: "(int \<times> int) list \<Rightarrow> (int \<times> int) list \<Rightarrow> (int \<times> int) list \<Rightarrow> (int \<times> int) list" where
  "lowest_uids current [] lowest = lowest"
| "lowest_uids current ((mb, uid) # ts) lowest =
     (if map_of current mb = None then lowest_uids current ts lowest
      else lowest_uids current ts
        (dict_set mb (min uid (case map_of lowest mb of None \<Rightarrow> uid | Some v \<Rightarrow> v)) lowest))"

definition plan_uidnext_rewind ::
  "(int \<times> int) list \<Rightarrow> (int \<times> int) list \<Rightarrow> (int \<times> int) list" where
  "plan_uidnext_rewind tombstones current =
     filter (\<lambda>(mb, uid). case map_of current mb of None \<Rightarrow> False | Some n \<Rightarrow> uid < n)
       (lowest_uids current tombstones [])"

text \<open>
  \<open>_gave_up_scope\<close> with the joins to \<open>mailboxes\<close> and \<open>accounts\<close> every caller puts around it: the
  one predicate behind listing, arming and purging.
\<close>

definition gave_up_scope :: "db \<Rightarrow> instant \<Rightarrow> string option \<Rightarrow> int option \<Rightarrow> fetch_row \<Rightarrow> bool" where
  "gave_up_scope d now account_name older_than_s t \<longleftrightarrow>
     t_gave_up_at t \<noteq> None \<and>
     (\<exists>m \<in> set (mailboxes d). mb_id m = t_mailbox t \<and>
        (\<exists>a \<in> set (accounts d). a_id a = mb_account m \<and>
           (case account_name of None \<Rightarrow> True | Some n \<Rightarrow> a_name a = n))) \<and>
     (case older_than_s of None \<Rightarrow> True
      | Some s \<Rightarrow> (case t_gave_up_at t of None \<Rightarrow> False | Some g \<Rightarrow> g < now - s))"

definition arm_for_retry :: "instant \<Rightarrow> string option \<Rightarrow> db \<Rightarrow> int \<times> db" where
  "arm_for_retry now account_name d =
     (int (length (filter (gave_up_scope d now account_name None) (fetches d))),
      d\<lparr>fetches := update_where (gave_up_scope d now account_name None)
          (\<lambda>t. t\<lparr>t_attempt_count := 0, t_first_seen_at := now, t_last_seen_at := now\<rparr>)
          (fetches d)\<rparr>)"

text \<open>\<open>_GAVE_UP_SELECT\<close>: the join, one result row per matching mailbox and account.\<close>

record gave_up_fetch =
  g_account_name :: string
  g_mailbox_name :: string
  g_mailbox_id :: int
  g_uid :: int
  g_attempt_count :: int
  g_first_seen_at :: instant
  g_gave_up_at :: instant

definition gave_up_join :: "db \<Rightarrow> string option \<Rightarrow> fetch_row \<Rightarrow> gave_up_fetch list" where
  "gave_up_join d account_name t =
     concat (map (\<lambda>m. map (\<lambda>a.
         \<lparr>g_account_name = a_name a, g_mailbox_name = mb_name m, g_mailbox_id = t_mailbox t,
          g_uid = t_uid t, g_attempt_count = t_attempt_count t,
          g_first_seen_at = t_first_seen_at t, g_gave_up_at = the (t_gave_up_at t)\<rparr>)
       (filter (\<lambda>a. a_id a = mb_account m \<and>
                     (case account_name of None \<Rightarrow> True | Some n \<Rightarrow> a_name a = n)) (accounts d)))
       (filter (\<lambda>m. mb_id m = t_mailbox t) (mailboxes d)))"

definition gave_up_order :: "gave_up_fetch \<Rightarrow> int \<times> int \<times> int" where
  "gave_up_order g = (- g_gave_up_at g, g_mailbox_id g, g_uid g)"

definition list_gave_up ::
  "db \<Rightarrow> instant \<Rightarrow> string option \<Rightarrow> int option \<Rightarrow> nat option \<Rightarrow> gave_up_fetch list" where
  "list_gave_up d now account_name older_than_s limit =
     (let rows = sort_key gave_up_order
                   (concat (map (gave_up_join d account_name)
                     (filter (gave_up_scope d now account_name older_than_s) (fetches d))))
      in case limit of None \<Rightarrow> rows | Some k \<Rightarrow> take k rows)"

definition purge_gave_up :: "instant \<Rightarrow> string option \<Rightarrow> int option \<Rightarrow> db \<Rightarrow> int \<times> db" where
  "purge_gave_up now account_name older_than_s d =
     (int (length (filter (gave_up_scope d now account_name older_than_s) (fetches d))),
      d\<lparr>fetches := filter (\<lambda>t. \<not> gave_up_scope d now account_name older_than_s t) (fetches d)\<rparr>)"

subsection \<open>The retry-failed-fetches command\<close>

text \<open>What the command prints, one constructor per \<open>return\<close> or raise.\<close>

datatype retry_outcome =
    UsageError
  | UnknownAccount
  | WouldForget int
  | Forgotten int
  | NothingGivenUp
  | WouldRewind "(int \<times> int) list" int
  | Rewound "(int \<times> int) list" int

definition apply_rewind :: "(int \<times> int) list \<Rightarrow> db \<Rightarrow> db" where
  "apply_rewind plan d =
     d\<lparr>mailboxes := map (\<lambda>m. case map_of plan (mb_id m) of
                              None \<Rightarrow> m | Some r \<Rightarrow> m\<lparr>mb_uidnext := Some r\<rparr>) (mailboxes d)\<rparr>"

definition current_uidnext :: "db \<Rightarrow> gave_up_fetch list \<Rightarrow> (int \<times> int) list" where
  "current_uidnext d rows =
     concat (map (\<lambda>m. case mb_uidnext m of None \<Rightarrow> [] | Some n \<Rightarrow> [(mb_id m, n)])
       (filter (\<lambda>m. mb_id m \<in> set (map g_mailbox_id rows)) (mailboxes d)))"

definition retry_failed_fetches ::
  "instant \<Rightarrow> string option \<Rightarrow> bool \<Rightarrow> int option \<Rightarrow> bool \<Rightarrow> db \<Rightarrow> retry_outcome \<times> db" where
  "retry_failed_fetches now account_name forget older_than_s dry_run d =
     (if older_than_s \<noteq> None \<and> \<not> forget then (UsageError, d)
      else if (case account_name of None \<Rightarrow> False
               | Some n \<Rightarrow> n \<noteq> [] \<and> n \<notin> set (map a_name (accounts d)))
      then (UnknownAccount, d)
      else if forget then
        (if dry_run
         then (WouldForget (int (length (list_gave_up d now account_name older_than_s None))), d)
         else (let (n, d') = purge_gave_up now account_name older_than_s d in (Forgotten n, d')))
      else
        (let rows = list_gave_up d now account_name None None
         in if rows = [] then (NothingGivenUp, d)
            else
              (let plan = plan_uidnext_rewind (map (\<lambda>g. (g_mailbox_id g, g_uid g)) rows)
                            (current_uidnext d rows)
               in if dry_run then (WouldRewind plan (int (length rows)), d)
                  else (let (n, d') = arm_for_retry now account_name (apply_rewind plan d)
                        in (Rewound plan n, d')))))"


subsection \<open>Watermark arithmetic\<close>

lemma checkpoint_le_hold: "checkpoint_uidnext h (Some u) \<le> u"
  by (simp add: checkpoint_uidnext_def)

lemma checkpoint_le: "checkpoint_uidnext h hold \<le> h + 1"
  by (simp add: checkpoint_uidnext_def Let_def split: option.splits)

lemma checkpoint_ge:
  "a \<le> h + 1 \<Longrightarrow> (\<And>u. hold = Some u \<Longrightarrow> a \<le> u) \<Longrightarrow> a \<le> checkpoint_uidnext h hold"
  by (auto simp: checkpoint_uidnext_def Let_def split: option.splits)

lemma fold_max_ge: "(x :: int) \<le> y \<Longrightarrow> x \<le> fold max zs y"
  by (induction zs arbitrary: y) (auto simp: le_max_iff_disj)

lemma max_or_zero_ge: "x \<in> set xs \<Longrightarrow> x \<le> max_or_zero xs"
proof (cases xs)
  case (Cons y ys)
  have "x \<le> fold max zs w" if "x \<in> set zs" for zs w
    using that by (induction zs arbitrary: w) (auto intro: fold_max_ge)
  with Cons show "x \<in> set xs \<Longrightarrow> x \<le> max_or_zero xs"
    by (auto simp: max_or_zero_def intro: fold_max_ge)
qed (simp add: max_or_zero_def)

lemma max_label_uid_ge: "l \<in> set (labels d) \<Longrightarrow> l_mailbox l = mb \<Longrightarrow> l_uid l \<le> max_label_uid d mb"
  by (auto simp: max_label_uid_def intro: max_or_zero_ge)

lemma next_uid_after_gt: "u \<le> m \<Longrightarrow> u < next_uid_after (Some m)"
  by (cases "m = 0") (auto simp: next_uid_after_def)

subsection \<open>What each statement leaves alone\<close>

lemma fetch_statements_frame [table_simps]:
  "accounts (clear_attempts mb u d) = accounts d" "accounts (reclaim_below mb u d) = accounts d"
  "labels (clear_attempts mb u d) = labels d" "labels (reclaim_below mb u d) = labels d"
  "labels (clear_mailbox mb d) = labels d" "labels (mark_gave_up f n mb u d) = labels d"
  "labels (snd (record_attempt f n mb u d)) = labels d"
  "messages (clear_attempts mb u d) = messages d" "messages (reclaim_below mb u d) = messages d"
  "messages (clear_mailbox mb d) = messages d" "messages (mark_gave_up f n mb u d) = messages d"
  "messages (snd (record_attempt f n mb u d)) = messages d"
  "failed (clear_attempts mb u d) = failed d" "failed (reclaim_below mb u d) = failed d"
  "failed (clear_mailbox mb d) = failed d" "failed (mark_gave_up f n mb u d) = failed d"
  "failed (snd (record_attempt f n mb u d)) = failed d"
  "mailboxes (clear_attempts mb u d) = mailboxes d" "mailboxes (reclaim_below mb u d) = mailboxes d"
  "mailboxes (clear_mailbox mb d) = mailboxes d" "mailboxes (mark_gave_up f n mb u d) = mailboxes d"
  "mailboxes (snd (record_attempt f n mb u d)) = mailboxes d"
  by (simp_all add: clear_attempts_def reclaim_below_def clear_mailbox_def mark_gave_up_def
      record_attempt_def split: option.splits)

lemma reclaim_below_keeps:
  "t \<in> set (fetches d) \<Longrightarrow> t_gave_up_at t \<noteq> None \<or> u \<le> t_uid t \<Longrightarrow>
   t \<in> set (fetches (reclaim_below mb u d))"
  by (auto simp: reclaim_below_def)

lemma record_attempt_row:
  "\<exists>t \<in> set (fetches (snd (record_attempt None n mb u d))). is_fetch mb u t"
  by (cases "find (is_fetch mb u) (fetches d)")
     (auto simp: record_attempt_def ex_update_where is_fetch_def dest!: find_SomeD)

lemma find_fetch_first_seen:
  assumes "t \<in> set (fetches d)" and "is_fetch mb u t" and "unique_by fetch_key (fetches d)"
  shows "first_seen_at (fst (record_attempt None n mb u d)) = t_first_seen_at t"
proof -
  obtain t' where t': "find (is_fetch mb u) (fetches d) = Some t'"
    using assms(1,2) by (cases "find (is_fetch mb u) (fetches d)") (auto simp: find_None_conv)
  have "t' = t"
    by (rule find_unique [OF t' assms(1,2)])
       (rule unique_byD [OF assms(3)], auto simp: fetch_key_def is_fetch_def)
  with t' show ?thesis by (simp add: record_attempt_def)
qed


subsection \<open>The rewind plan\<close>

lemma lowest_uids_le:
  assumes "(mb, u) \<in> set ts" and "map_of current mb \<noteq> None"
  shows "\<exists>v. map_of (lowest_uids current ts lowest) mb = Some v \<and> v \<le> u"
proof -
  have keep: "\<exists>v. map_of (lowest_uids current ts lowest) mb = Some v \<and> v \<le> w"
    if "map_of lowest mb = Some w" for ts lowest w
    using that
  proof (induction current ts lowest arbitrary: w rule: lowest_uids.induct)
    case (2 current mb' uid ts lowest)
    show ?case
    proof (cases "map_of current mb' = None")
      case True
      with 2 show ?thesis by simp
    next
      case False
      let ?low = "dict_set mb' (min uid (case map_of lowest mb' of None \<Rightarrow> uid | Some v \<Rightarrow> v)) lowest"
      obtain w' where "map_of ?low mb = Some w'" "w' \<le> w"
        using "2.prems" by (cases "mb' = mb") auto
      with "2.IH"(2) [OF False] False show ?thesis by fastforce
    qed
  qed simp
  show ?thesis
    using assms
  proof (induction ts arbitrary: lowest)
    case (Cons t ts)
    show ?case
    proof (cases "t = (mb, u)")
      case True
      have "map_of (dict_set mb (min u (case map_of lowest mb of None \<Rightarrow> u | Some v \<Rightarrow> v)) lowest) mb
          = Some (min u (case map_of lowest mb of None \<Rightarrow> u | Some v \<Rightarrow> v))" by simp
      from keep [OF this, of ts] Cons.prems(2) True show ?thesis by fastforce
    next
      case False
      with Cons show ?thesis by (cases t) auto
    qed
  qed simp
qed

lemma lowest_uids_from:
  "map_of (lowest_uids current ts lowest) mb = Some v \<Longrightarrow>
   map_of lowest mb = Some v \<or> (mb, v) \<in> set ts"
proof (induction current ts lowest rule: lowest_uids.induct)
  case (2 current mb' uid ts lowest)
  then show ?case
    by (cases "map_of current mb' = None"; cases "mb' = mb")
       (auto simp: min_def split: if_splits option.splits)
qed simp

lemma lowest_uids_distinct:
  "distinct (map fst lowest) \<Longrightarrow> distinct (map fst (lowest_uids current ts lowest))"
  by (induction current ts lowest rule: lowest_uids.induct) (auto simp: distinct_dict_set)

lemma map_of_filter_distinct:
  "distinct (map fst xs) \<Longrightarrow>
   map_of (filter (\<lambda>(k, v). P k v) xs) k =
     (case map_of xs k of None \<Rightarrow> None | Some v \<Rightarrow> if P k v then Some v else None)"
proof (induction xs)
  case (Cons x xs)
  then show ?case
    by (cases x) (auto split: option.splits simp: map_of_eq_None_iff rev_image_eqI)
qed simp

lemma plan_uidnext_rewind_map:
  "map_of (plan_uidnext_rewind ts current) mb =
     (case map_of (lowest_uids current ts []) mb of None \<Rightarrow> None
      | Some v \<Rightarrow> (case map_of current mb of None \<Rightarrow> None
                     | Some n \<Rightarrow> if v < n then Some v else None))"
  unfolding plan_uidnext_rewind_def
  by (subst map_of_filter_distinct) (auto simp: lowest_uids_distinct split: option.splits)

text \<open>After the plan is applied, a watermark is at or below every tombstoned UID of its mailbox.\<close>

lemma plan_reaches:
  assumes "(mb, u) \<in> set ts" and "map_of current mb = Some n"
  shows "(case map_of (plan_uidnext_rewind ts current) mb of None \<Rightarrow> n | Some r \<Rightarrow> r) \<le> u"
proof -
  obtain v where "map_of (lowest_uids current ts []) mb = Some v" "v \<le> u"
    using lowest_uids_le assms by (metis option.distinct(1))
  with assms(2) show ?thesis by (auto simp: plan_uidnext_rewind_map)
qed

lemma plan_backwards:
  "map_of (plan_uidnext_rewind ts current) mb = Some r \<Longrightarrow>
   \<exists>n. map_of current mb = Some n \<and> r < n \<and> (mb, r) \<in> set ts"
  by (auto simp: plan_uidnext_rewind_map split: option.splits if_splits
      dest: lowest_uids_from)


subsection \<open>Listing, arming and purging agree\<close>

lemma set_gave_up_join:
  "g \<in> set (gave_up_join d acct t) \<Longrightarrow> g_mailbox_id g = t_mailbox t \<and> g_uid g = t_uid t"
  by (auto simp: gave_up_join_def)

lemma gave_up_join_nonempty:
  "gave_up_scope d now acct old t \<Longrightarrow> gave_up_join d acct t \<noteq> []"
  by (auto simp: gave_up_scope_def gave_up_join_def filter_empty_conv)

lemma listed_keys:
  "(\<lambda>g. (g_mailbox_id g, g_uid g)) ` set (list_gave_up d now acct old None) =
   (\<lambda>t. (t_mailbox t, t_uid t)) ` {t \<in> set (fetches d). gave_up_scope d now acct old t}"
proof -
  have "(\<lambda>g. (g_mailbox_id g, g_uid g)) ` set (gave_up_join d acct t) = {(t_mailbox t, t_uid t)}"
    if "gave_up_scope d now acct old t" for t
    using gave_up_join_nonempty [OF that] set_gave_up_join [of _ d acct t]
    by (cases "gave_up_join d acct t") force+
  then show ?thesis
    by (auto simp: list_gave_up_def Let_def image_UN)
qed

lemma length_filter_unique:
  assumes "distinct (map f xs)" and "x \<in> set xs" and "P x"
    and "\<And>y. y \<in> set xs \<Longrightarrow> P y \<Longrightarrow> f y = f x"
  shows "filter P xs = [x]"
  using assms
proof (induction xs)
  case (Cons y ys)
  show ?case
  proof (cases "y = x")
    case True
    have "\<not> P z" if "z \<in> set ys" for z
      using Cons.prems(1) Cons.prems(4) [of z] True that by auto (metis imageI)
    then have "filter P ys = []"
      by (simp add: filter_empty_conv)
    with True Cons.prems(3) show ?thesis by simp
  next
    case False
    with Cons.prems(2) have x: "x \<in> set ys" by simp
    then have "f x \<in> f ` set ys" by (rule imageI)
    with Cons.prems(1) Cons.prems(4) [of y] have "\<not> P y" by auto
    moreover have "filter P ys = [x]"
    proof (rule Cons.IH [OF _ x Cons.prems(3)])
      show "distinct (map f ys)" using Cons.prems(1) by simp
      show "f z = f x" if "z \<in> set ys" "P z" for z
        using Cons.prems(4) [of z] that by simp
    qed
    ultimately show ?thesis by simp
  qed
qed simp

lemma gave_up_join_length:
  assumes "unique_by mb_id (mailboxes d)" and "unique_by a_id (accounts d)"
    and "gave_up_scope d now acct old t"
  shows "length (gave_up_join d acct t) = 1"
proof -
  from assms(3) obtain m a where m: "m \<in> set (mailboxes d)" "mb_id m = t_mailbox t"
    and a: "a \<in> set (accounts d)" "a_id a = mb_account m"
      "case acct of None \<Rightarrow> True | Some n \<Rightarrow> a_name a = n"
    by (auto simp: gave_up_scope_def)
  have "filter (\<lambda>m. mb_id m = t_mailbox t) (mailboxes d) = [m]"
    using assms(1) m by (intro length_filter_unique [where f = mb_id]) (auto simp: unique_by_def)
  moreover have "filter (\<lambda>a. a_id a = mb_account m \<and>
      (case acct of None \<Rightarrow> True | Some n \<Rightarrow> a_name a = n)) (accounts d) = [a]"
    using assms(2) a by (intro length_filter_unique [where f = a_id]) (auto simp: unique_by_def)
  ultimately show ?thesis by (simp add: gave_up_join_def)
qed

lemma length_concat_ones:
  "(\<And>x. x \<in> set xs \<Longrightarrow> length (f x) = 1) \<Longrightarrow> length (concat (map f xs)) = length xs"
  by (induction xs) auto

lemma length_list_gave_up:
  assumes "unique_by mb_id (mailboxes d)" and "unique_by a_id (accounts d)"
  shows "length (list_gave_up d now acct old None) =
    length (filter (gave_up_scope d now acct old) (fetches d))"
proof -
  have "length (concat (map (gave_up_join d acct) (filter (gave_up_scope d now acct old) (fetches d))))
      = length (filter (gave_up_scope d now acct old) (fetches d))"
    using gave_up_join_length [OF assms] by (intro length_concat_ones) auto
  then show ?thesis by (simp add: list_gave_up_def Let_def)
qed

text \<open>
  \<open>retry-failed-fetches --forget\<close>: the dry run announces exactly the number of records the
  real run deletes, the real run deletes exactly the tombstones in scope, and no live hold
  (a record with no give-up moment) is ever touched.
\<close>

theorem forget_preview_exact:
  assumes "unique_by mb_id (mailboxes d)" and "unique_by a_id (accounts d)"
    and "retry_failed_fetches now acct True old True d = (WouldForget n, d1)"
    and "retry_failed_fetches now acct True old False d = (Forgotten k, d2)"
  shows "n = k \<and> d1 = d \<and> int (length (fetches d)) - int (length (fetches d2)) = k \<and>
    set (fetches d2) = {t \<in> set (fetches d). \<not> gave_up_scope d now acct old t} \<and>
    (\<forall>t. t_gave_up_at t = None \<longrightarrow> (t \<in> set (fetches d2) \<longleftrightarrow> t \<in> set (fetches d)))"
proof -
  have n: "n = int (length (list_gave_up d now acct old None))" "d1 = d"
    using assms(3) by (auto simp: retry_failed_fetches_def split: if_splits)
  have k: "k = int (length (filter (gave_up_scope d now acct old) (fetches d)))"
    and d2: "fetches d2 = filter (\<lambda>t. \<not> gave_up_scope d now acct old t) (fetches d)"
    using assms(4)
    by (auto simp: retry_failed_fetches_def purge_gave_up_def split: if_splits)
  have "length (fetches d) =
      length (filter (gave_up_scope d now acct old) (fetches d)) + length (fetches d2)"
    using sum_length_filter_compl [of "gave_up_scope d now acct old" "fetches d"] d2 by simp
  then show ?thesis
    using n k d2 length_list_gave_up [OF assms(1,2), of now acct old]
    by (auto simp: gave_up_scope_def)
qed

lemma retry_rewound:
  assumes "retry_failed_fetches now acct False None False d = (Rewound plan n, d')"
  defines "rows \<equiv> list_gave_up d now acct None None"
  shows "plan = plan_uidnext_rewind (map (\<lambda>g. (g_mailbox_id g, g_uid g)) rows) (current_uidnext d rows)
    \<and> (n, d') = arm_for_retry now acct (apply_rewind plan d)"
  using assms by (auto simp: retry_failed_fetches_def Let_def split: if_splits prod.splits)

lemma current_uidnext_map:
  assumes "unique_by mb_id (mailboxes d)" and "m \<in> set (mailboxes d)" and "mb_uidnext m = Some w"
    and "mb_id m \<in> g_mailbox_id ` set rows"
  shows "map_of (current_uidnext d rows) (mb_id m) = Some w"
proof -
  have gen: "map_of (concat (map (\<lambda>m. case mb_uidnext m of None \<Rightarrow> [] | Some n \<Rightarrow> [(mb_id m, n)]) ms))
        (mb_id m) = Some w"
    if "distinct (map mb_id ms)" "m \<in> set ms" for ms
    using that
  proof (induction ms)
    case (Cons x ms)
    then show ?case
      using assms(3) by (cases "x = m") (auto split: option.splits simp: rev_image_eqI)
  qed simp
  show ?thesis
    unfolding current_uidnext_def
    using assms(1,2,4) by (intro gen) (auto simp: unique_by_def distinct_map_filter)
qed

lemma current_uidnext_None:
  assumes "unique_by mb_id (mailboxes d)" and "m \<in> set (mailboxes d)" and "mb_uidnext m = None"
  shows "map_of (current_uidnext d rows) (mb_id m) = None"
proof -
  have "x = m" if "x \<in> set (mailboxes d)" "mb_id x = mb_id m" for x
    using unique_byD [OF assms(1) that(1) assms(2) that(2)] .
  then show ?thesis
    using assms(3) by (fastforce simp: map_of_eq_None_iff current_uidnext_def split: option.splits)
qed

lemma apply_rewind_frame [table_simps]:
  "accounts (apply_rewind plan d) = accounts d" "fetches (apply_rewind plan d) = fetches d"
  by (simp_all add: apply_rewind_def)

lemma gave_up_scope_rewind:
  "gave_up_scope (apply_rewind plan d) now acct old t = gave_up_scope d now acct old t"
proof -
  have "mb_id (case map_of plan (mb_id m) of None \<Rightarrow> m | Some r \<Rightarrow> m\<lparr>mb_uidnext := Some r\<rparr>) = mb_id m"
    "mb_account (case map_of plan (mb_id m) of None \<Rightarrow> m | Some r \<Rightarrow> m\<lparr>mb_uidnext := Some r\<rparr>)
       = mb_account m" for m :: mailbox_row
    by (auto split: option.splits)
  then show ?thesis
    by (simp add: gave_up_scope_def apply_rewind_def)
qed

text \<open>
  \<open>retry-failed-fetches\<close> re-drives every record it reports: afterwards the watermark of a
  tombstoned message's mailbox, if it has one, is at or below that message's UID (so the next
  pass asks for it again), the record is still there with its original give-up moment, and its
  hold window is open again, so the next empty body holds rather than giving up on sight.
\<close>

theorem retry_redrives_tombstones:
  assumes "unique_by mb_id (mailboxes d)"
    and run: "retry_failed_fetches now acct False None False d = (Rewound plan n, d')"
    and t: "t \<in> set (fetches d)" "gave_up_scope d now acct None t"
    and m': "m' \<in> set (mailboxes d')" "mb_id m' = t_mailbox t" "mb_uidnext m' = Some w"
    and "0 < max_hold"
  shows "w \<le> t_uid t \<and>
    (\<exists>t' \<in> set (fetches d'). is_fetch (t_mailbox t) (t_uid t) t' \<and>
       t_gave_up_at t' = t_gave_up_at t \<and> \<not> hold_expired (t_first_seen_at t') now max_hold)"
proof
  define rows where "rows = list_gave_up d now acct None None"
  have plan: "plan = plan_uidnext_rewind (map (\<lambda>g. (g_mailbox_id g, g_uid g)) rows) (current_uidnext d rows)"
    and d': "d' = snd (arm_for_retry now acct (apply_rewind plan d))"
    using retry_rewound [OF run] by (auto simp: rows_def dest: arg_cong [where f = snd])
  have key: "(t_mailbox t, t_uid t) \<in> (\<lambda>g. (g_mailbox_id g, g_uid g)) ` set rows"
    unfolding rows_def listed_keys using t by auto
  obtain m where m: "m \<in> set (mailboxes d)" "mb_id m = t_mailbox t"
    and w: "mb_uidnext m' = (case map_of plan (mb_id m) of None \<Rightarrow> mb_uidnext m | Some r \<Rightarrow> Some r)"
    using m' d' by (auto simp: arm_for_retry_def apply_rewind_def split: option.splits)
  show "w \<le> t_uid t"
  proof (cases "mb_uidnext m")
    case None
    have "map_of (current_uidnext d rows) (mb_id m) = None"
      by (rule current_uidnext_None [OF assms(1) m(1) None])
    then have "map_of plan (mb_id m) = None"
      using plan by (simp add: plan_uidnext_rewind_map split: option.splits)
    with None w m'(3) show ?thesis by simp
  next
    case (Some n0)
    have "map_of (current_uidnext d rows) (mb_id m) = Some n0"
      using assms(1) m(1) Some key m(2) by (intro current_uidnext_map) force+
    then have "(case map_of plan (mb_id m) of None \<Rightarrow> n0 | Some r \<Rightarrow> r) \<le> t_uid t"
      using plan_reaches [of "mb_id m" "t_uid t" "map (\<lambda>g. (g_mailbox_id g, g_uid g)) rows"] key m(2) plan
      by auto
    with w Some m'(3) show ?thesis by (auto split: option.splits)
  qed
  show "\<exists>t' \<in> set (fetches d'). is_fetch (t_mailbox t) (t_uid t) t' \<and>
       t_gave_up_at t' = t_gave_up_at t \<and> \<not> hold_expired (t_first_seen_at t') now max_hold"
    unfolding d' arm_for_retry_def
    using t \<open>0 < max_hold\<close>
    by (auto simp: ex_update_where apply_rewind_frame gave_up_scope_rewind is_fetch_def
        hold_expired_def intro!: bexI [of _ t])
qed

text \<open>One account with one mailbox whose UIDs 4 and 9 were given up on at instants 10 and 20.\<close>

definition sample_gave_up :: db where
  "sample_gave_up =
     \<lparr>accounts = [\<lparr>a_id = 1, a_name = ''me'', a_auth_method = ''password''\<rparr>],
      mailboxes = [\<lparr>mb_id = 1, mb_account = 1, mb_name = ''INBOX'', mb_delimiter = None, mb_flags = [],
        mb_uidvalidity = Some 7, mb_uidnext = Some 12, mb_last_sync_at = None\<rparr>],
      messages = [], labels = [], failed = [],
      fetches = [\<lparr>t_mailbox = 1, t_uid = 4, t_attempt_count = 3, t_first_seen_at = 0, t_last_seen_at = 10,
                   t_gave_up_at = Some 10\<rparr>,
                 \<lparr>t_mailbox = 1, t_uid = 9, t_attempt_count = 3, t_first_seen_at = 0, t_last_seen_at = 20,
                   t_gave_up_at = Some 20\<rparr>],
      blobs = []\<rparr>"

theorem forget_preview_exact_witness:
  "set (fetches (snd (retry_failed_fetches 100 None True (Some 85) False sample_gave_up))) =
     {t \<in> set (fetches sample_gave_up). \<not> gave_up_scope sample_gave_up 100 None (Some 85) t}"
proof -
  let ?d1 = "snd (retry_failed_fetches 100 None True (Some 85) True sample_gave_up)"
  let ?d2 = "snd (retry_failed_fetches 100 None True (Some 85) False sample_gave_up)"
  have "fst (retry_failed_fetches 100 None True (Some 85) True sample_gave_up) = WouldForget 1"
    "fst (retry_failed_fetches 100 None True (Some 85) False sample_gave_up) = Forgotten 1" by code_simp+
  then have "retry_failed_fetches 100 None True (Some 85) True sample_gave_up = (WouldForget 1, ?d1)"
    "retry_failed_fetches 100 None True (Some 85) False sample_gave_up = (Forgotten 1, ?d2)"
    by (metis prod.collapse)+
  with forget_preview_exact [of sample_gave_up 100 None "Some 85" 1 ?d1 1 ?d2] show ?thesis
    by (simp add: sample_gave_up_def unique_by_def)
qed

theorem retry_redrives_tombstones_witness:
  "(4 :: int) \<le> t_uid (fetches sample_gave_up ! 1) \<and>
    (\<exists>t' \<in> set (fetches (snd (retry_failed_fetches 100 None False None False sample_gave_up))).
       is_fetch 1 9 t' \<and> t_gave_up_at t' = Some 20 \<and> \<not> hold_expired (t_first_seen_at t') 100 50)"
proof -
  let ?run = "retry_failed_fetches 100 None False None False sample_gave_up"
  let ?t = "fetches sample_gave_up ! 1"
  let ?m = "hd (mailboxes (snd ?run))"
  have run: "?run = (Rewound [(1, 4)] 2, snd ?run)"
    by (rule prod_eqI) (code_simp, simp)
  have m: "?m \<in> set (mailboxes (snd ?run))" "mb_id ?m = t_mailbox ?t" "mb_uidnext ?m = Some 4" by code_simp+
  have "4 \<le> t_uid ?t \<and> (\<exists>t' \<in> set (fetches (snd ?run)). is_fetch (t_mailbox ?t) (t_uid ?t) t' \<and>
       t_gave_up_at t' = t_gave_up_at ?t \<and> \<not> hold_expired (t_first_seen_at t') 100 50)"
    by (rule retry_redrives_tombstones [OF _ run _ _ m])
       (simp_all add: sample_gave_up_def unique_by_def gave_up_scope_def)
  then show ?thesis by (simp add: sample_gave_up_def)
qed

end
