(* ===== verification/PyStr.thy ===== *)
theory PyStr
  imports Prelude
begin

text \<open>
  The \<open>str\<close> methods the modelled code calls, over the characters U+0000 to U+00FF. Request
  headers reach the server as Latin-1, so this alphabet is exactly theirs; the query language,
  which must speak of surrogates and of Unicode white space, has its own code-point strings in
  \<open>QueryLang\<close>.
\<close>

abbreviation ord :: "char \<Rightarrow> nat" where
  "ord c \<equiv> of_char c"

definition is_space :: "char \<Rightarrow> bool" where
  "is_space c = (let n = ord c in 9 \<le> n \<and> n \<le> 13 \<or> 28 \<le> n \<and> n \<le> 32 \<or> n = 133 \<or> n = 160)"

text \<open>\<open>c in "0123456789"\<close>, and \<open>str.isdigit\<close>, which also accepts the Latin-1 superscripts.\<close>

definition is_decimal :: "char \<Rightarrow> bool" where
  "is_decimal c = (48 \<le> ord c \<and> ord c \<le> 57)"

definition isdigit_char :: "char \<Rightarrow> bool" where
  "isdigit_char c \<longleftrightarrow> is_decimal c \<or> ord c \<in> {178, 179, 185}"

definition str_isdigit :: "string \<Rightarrow> bool" where
  "str_isdigit s \<longleftrightarrow> s \<noteq> [] \<and> list_all isdigit_char s"

definition isascii :: "string \<Rightarrow> bool" where
  "isascii s \<longleftrightarrow> list_all (\<lambda>c. ord c < 128) s"

definition lower_char :: "char \<Rightarrow> char" where
  "lower_char c =
     (if 65 \<le> ord c \<and> ord c \<le> 90 \<or> 192 \<le> ord c \<and> ord c \<le> 222 \<and> ord c \<noteq> 215
      then char_of (ord c + 32) else c)"

definition lower :: "string \<Rightarrow> string" where
  "lower s = map lower_char s"

definition lstrip :: "string \<Rightarrow> string" where
  "lstrip s = dropWhile is_space s"

definition rstrip :: "string \<Rightarrow> string" where
  "rstrip s = rev (dropWhile is_space (rev s))"

definition strip :: "string \<Rightarrow> string" where
  "strip s = rstrip (lstrip s)"

definition startswith :: "string \<Rightarrow> string \<Rightarrow> bool" where
  "startswith s p \<longleftrightarrow> take (length p) s = p"

text \<open>\<open>s.split(sep)\<close> for a one-character separator: never empty.\<close>

fun split_on :: "char \<Rightarrow> string \<Rightarrow> string list" where
  "split_on sep [] = [[]]"
| "split_on sep (c # cs) =
     (if c = sep then [] # split_on sep cs
      else (case split_on sep cs of [] \<Rightarrow> [[c]] | w # ws \<Rightarrow> (c # w) # ws))"

text \<open>\<open>s.split(sep, 1)\<close> and \<open>s.partition(sep)\<close> for a separator that occurs.\<close>

definition before_first :: "char \<Rightarrow> string \<Rightarrow> string" where
  "before_first sep s = takeWhile (\<lambda>c. c \<noteq> sep) s"

definition after_first :: "char \<Rightarrow> string \<Rightarrow> string" where
  "after_first sep s = drop 1 (dropWhile (\<lambda>c. c \<noteq> sep) s)"

definition count_char :: "char \<Rightarrow> string \<Rightarrow> nat" where
  "count_char x s = length (filter (\<lambda>c. c = x) s)"

subsection \<open>int(s)\<close>

text \<open>
  Python's \<open>int\<close> on a string: surrounding white space, one optional sign, then decimal digits
  with single underscores between digits, at most 4300 of them (the interpreter's
  \<open>sys.get_int_max_str_digits\<close>). \<open>None\<close> is \<open>ValueError\<close>.
\<close>

definition digit_val :: "char \<Rightarrow> int" where
  "digit_val c = int (ord c) - 48"

fun digits_val :: "int \<Rightarrow> string \<Rightarrow> int option" where
  "digits_val acc [] = Some acc"
| "digits_val acc (c # cs) =
     (if is_decimal c then digits_val (acc * 10 + digit_val c) cs
      else if c = CHR ''_'' then
        (case cs of [] \<Rightarrow> None
         | d # ds \<Rightarrow> if is_decimal d then digits_val (acc * 10 + digit_val d) ds else None)
      else None)"

definition unsigned_val :: "string \<Rightarrow> int option" where
  "unsigned_val s = (case s of [] \<Rightarrow> None | c # cs \<Rightarrow> if is_decimal c then digits_val 0 s else None)"

definition max_str_digits :: nat where "max_str_digits = 4300"

definition py_int :: "string \<Rightarrow> int option" where
  "py_int s =
     (if max_str_digits < length (filter is_decimal s) then None
      else case strip s of
        [] \<Rightarrow> None
      | c # cs \<Rightarrow>
          if c = CHR ''-'' then map_option uminus (unsigned_val cs)
          else if c = CHR ''+'' then unsigned_val cs
          else unsigned_val (c # cs))"

text \<open>\<open>str(n)\<close> for an integer.\<close>

fun nat_str :: "nat \<Rightarrow> string" where
  "nat_str n = (if n < 10 then [char_of (48 + n)] else nat_str (n div 10) @ [char_of (48 + n mod 10)])"

declare nat_str.simps [simp del]

definition int_str :: "int \<Rightarrow> string" where
  "int_str i = (if i < 0 then CHR ''-'' # nat_str (nat (- i)) else nat_str (nat i))"

subsection \<open>Facts\<close>

lemma is_decimal_digit: "(n :: nat) < 10 \<Longrightarrow> is_decimal (char_of (48 + n))"
  by (simp add: is_decimal_def)

lemma digit_val_digit: "(n :: nat) < 10 \<Longrightarrow> digit_val (char_of (48 + n)) = int n"
  by (simp add: digit_val_def)

lemma digits_val_append_digit:
  "list_all is_decimal s \<Longrightarrow> is_decimal c \<Longrightarrow>
   digits_val acc (s @ [c]) = map_option (\<lambda>v. v * 10 + digit_val c) (digits_val acc s)"
  by (induction s arbitrary: acc) auto

lemma nat_str_decimal: "list_all is_decimal (nat_str n)"
proof (induction n rule: nat_str.induct)
  case (1 n)
  then show ?case
    by (subst nat_str.simps) (auto simp: is_decimal_digit)
qed

lemma nat_str_nonempty: "nat_str n \<noteq> []"
  by (subst nat_str.simps) simp

lemma length_nat_str: "0 < k \<Longrightarrow> n < 10 ^ k \<Longrightarrow> length (nat_str n) \<le> k"
proof (induction k arbitrary: n)
  case (Suc k)
  show ?case
  proof (cases "n < 10")
    case True
    then show ?thesis by (simp add: nat_str.simps [of n])
  next
    case False
    with Suc.prems have "0 < k" "n div 10 < 10 ^ k" by (cases k, auto simp: less_mult_imp_div_less)
    with Suc.IH False show ?thesis by (simp add: nat_str.simps [of n])
  qed
qed simp

lemma digits_val_nat_str: "digits_val 0 (nat_str n) = Some (int n)"
proof (induction n rule: nat_str.induct)
  case (1 n)
  show ?case
  proof (cases "n < 10")
    case True
    then show ?thesis
      by (simp add: nat_str.simps [of n] is_decimal_digit digit_val_digit)
  next
    case False
    with "1.IH" have "digits_val 0 (nat_str (n div 10)) = Some (int (n div 10))" by simp
    then have "digits_val 0 (nat_str n) = Some (int (n div 10) * 10 + int (n mod 10))"
      using False nat_str_decimal [of "n div 10"]
      by (simp add: nat_str.simps [of n] digits_val_append_digit is_decimal_digit digit_val_digit)
    also have "int (n div 10) * 10 + int (n mod 10) = int n"
      by presburger
    finally show ?thesis .
  qed
qed

lemma unsigned_val_nat_str: "unsigned_val (nat_str n) = Some (int n)"
  using nat_str_decimal [of n] nat_str_nonempty [of n] digits_val_nat_str [of n]
  by (auto simp: unsigned_val_def split: list.splits)

lemma digit_val_nonneg: "is_decimal c \<Longrightarrow> 0 \<le> digit_val c"
  by (simp add: digit_val_def is_decimal_def)

lemma digits_val_nonneg: "0 \<le> acc \<Longrightarrow> digits_val acc s = Some v \<Longrightarrow> 0 \<le> v"
proof (induction acc s arbitrary: v rule: digits_val.induct)
  case (2 acc c cs)
  then show ?case
    by (auto split: if_splits list.splits simp: digit_val_nonneg)
qed simp

lemma unsigned_val_nonneg: "unsigned_val s = Some v \<Longrightarrow> 0 \<le> v"
  by (auto simp: unsigned_val_def simp del: digits_val.simps split: list.splits if_splits
      dest: digits_val_nonneg [of 0, simplified])

lemma split_on_nonempty [simp]: "split_on sep s \<noteq> []"
  by (cases s) (auto split: list.splits)

lemma split_on_no_sep: "w \<in> set (split_on sep s) \<Longrightarrow> sep \<notin> set w"
proof (induction s arbitrary: w)
  case (Cons c cs)
  show ?case
  proof (cases "split_on sep cs")
    case Nil
    then show ?thesis by simp
  next
    case (Cons v vs)
    with Cons.prems Cons.IH show ?thesis by (auto split: if_splits)
  qed
qed simp

lemma split_on_append:
  "split_on sep (s @ sep # t) = split_on sep s @ split_on sep t"
proof (induction s)
  case (Cons c cs)
  then show ?case by (cases "split_on sep cs") auto
qed simp

lemma rstrip_no_space: "s \<noteq> [] \<Longrightarrow> \<not> is_space (last s) \<Longrightarrow> rstrip s = s"
  by (cases s rule: rev_cases) (auto simp: rstrip_def)

lemma strip_no_space: "s \<noteq> [] \<Longrightarrow> \<not> is_space (hd s) \<Longrightarrow> \<not> is_space (last s) \<Longrightarrow> strip s = s"
  by (cases s) (auto simp: strip_def lstrip_def rstrip_no_space)

lemma decimal_not_space: "is_decimal c \<Longrightarrow> \<not> is_space c"
  by (auto simp: is_decimal_def is_space_def Let_def)

lemma strip_decimal: "list_all is_decimal s \<Longrightarrow> strip s = s"
proof (cases "s = []")
  case False
  assume "list_all is_decimal s"
  with False have "is_decimal (hd s)" "is_decimal (last s)"
    by (auto simp: list_all_iff)
  with False show ?thesis by (simp add: strip_no_space decimal_not_space)
qed (simp add: strip_def lstrip_def rstrip_def)

lemma decimal_not_sign: "is_decimal c \<Longrightarrow> c \<noteq> CHR ''-'' \<and> c \<noteq> CHR ''+''"
  by (auto simp: is_decimal_def)

lemma filter_decimal: "list_all is_decimal s \<Longrightarrow> filter is_decimal s = s"
  by (induction s) auto

lemma py_int_nat_str:
  assumes "length (nat_str n) \<le> max_str_digits"
  shows "py_int (nat_str n) = Some (int n)"
proof -
  obtain c cs where s: "nat_str n = c # cs"
    using nat_str_nonempty [of n] by (cases "nat_str n") auto
  moreover have "is_decimal c" using nat_str_decimal [of n] s by simp
  ultimately show ?thesis
    using strip_decimal [OF nat_str_decimal [of n]] unsigned_val_nat_str [of n] decimal_not_sign [of c]
      filter_decimal [OF nat_str_decimal [of n]] assms
    by (simp add: py_int_def)
qed

end
