(* ===== verification/Attachments.thy ===== *)
theory Attachments
  imports SyncStore PyStr
begin

text \<open>
  Content-addressed attachment storage (\<open>attachments.py\<close>). The blob tree is the list of its
  files, path to bytes; the hash is a parameter of type \<open>bytes => bytes\<close>, and a path is taken
  relative to the attachments root. A file reaches its path by an atomic rename, so a failing
  write (\<open>write_fault\<close>) leaves the tree as it was.
\<close>

subsection \<open>Definitions\<close>

definition is_unsafe :: "char \<Rightarrow> bool" where
  "is_unsafe c \<longleftrightarrow> c = CHR ''/'' \<or> ord c = 92 \<or> ord c \<le> 31 \<or> ord c = 127"

definition sanitize_filename :: "string \<Rightarrow> string" where
  "sanitize_filename name =
     (if name = [] \<or> strip name = [] then ''attachment''
      else
        (let cleaned = dropWhile (\<lambda>c. c = CHR ''.'' \<or> c = CHR ''_'')
                         (map (\<lambda>c. if is_unsafe c then CHR ''_'' else c) name)
         in if cleaned = [] then ''attachment'' else cleaned))"

definition hex_digit :: "nat \<Rightarrow> char" where
  "hex_digit n = (if n < 10 then char_of (48 + n) else char_of (87 + n))"

definition hex :: "bytes \<Rightarrow> string" where
  "hex bs = concat (map (\<lambda>b. [hex_digit (ord b div 16), hex_digit (ord b mod 16)]) bs)"

definition blob_path :: "string \<Rightarrow> string" where
  "blob_path sha = ''blobs/'' @ take 2 sha @ ''/'' @ take 2 (drop 2 sha) @ ''/'' @ sha"

record blob_store =
  bs_tree :: "(string \<times> bytes) list"
  bs_rows :: "blob_row list"

definition store_file ::
  "(string \<Rightarrow> exn option) \<Rightarrow> string \<Rightarrow> bytes \<Rightarrow> blob_store \<Rightarrow> exn + blob_store" where
  "store_file write_fault path payload st =
     (if map_of (bs_tree st) path \<noteq> None then Inr st
      else (case write_fault path of
              Some e \<Rightarrow> Inl e
            | None \<Rightarrow> Inr (st\<lparr>bs_tree := bs_tree st @ [(path, payload)]\<rparr>)))"

definition insert_blob_row :: "blob_row \<Rightarrow> blob_store \<Rightarrow> blob_store" where
  "insert_blob_row r st =
     (if \<exists>b \<in> set (bs_rows st). b_sha256 b = b_sha256 r then st
      else st\<lparr>bs_rows := bs_rows st @ [r]\<rparr>)"

definition attachment_row :: "(bytes \<Rightarrow> bytes) \<Rightarrow> attachment \<Rightarrow> attachment_entry" where
  "attachment_row sha256 att =
     \<lparr>ae_filename = sanitize_filename (att_filename att),
      ae_sha256 = hex (sha256 (att_payload att)),
      ae_content_id = (case att_content_id att of None \<Rightarrow> None
                       | Some cid \<Rightarrow> if cid = [] then None else Some cid)\<rparr>"

fun write_attachments ::
  "(bytes \<Rightarrow> bytes) \<Rightarrow> (string \<Rightarrow> exn option) \<Rightarrow> attachment list \<Rightarrow> blob_store \<Rightarrow>
   (exn + attachment_entry list) \<times> blob_store" where
  "write_attachments sha256 write_fault [] st = (Inr [], st)"
| "write_attachments sha256 write_fault (att # atts) st =
     (let digest = sha256 (att_payload att);
          path = blob_path (hex digest)
      in case store_file write_fault path (att_payload att) st of
           Inl e \<Rightarrow> (Inl e, st)
         | Inr st1 \<Rightarrow>
             (let st2 = insert_blob_row \<lparr>b_sha256 = digest, b_path = path, b_mime = att_mime att,
                                         b_size = int (length (att_payload att))\<rparr> st1
              in case write_attachments sha256 write_fault atts st2 of
                   (Inl e, st3) \<Rightarrow> (Inl e, st3)
                 | (Inr rows, st3) \<Rightarrow> (Inr (attachment_row sha256 att # rows), st3)))"

text \<open>Every file's name is the hash of its bytes.\<close>

definition content_addressed :: "(bytes \<Rightarrow> bytes) \<Rightarrow> (string \<times> bytes) list \<Rightarrow> bool" where
  "content_addressed sha256 tree \<longleftrightarrow>
     (\<forall>(path, payload) \<in> set tree. path = blob_path (hex (sha256 payload)))"

subsection \<open>Names\<close>

lemma dropWhile_all_not: "dropWhile P xs \<noteq> [] \<Longrightarrow> \<not> P (hd (dropWhile P xs))"
  by (induction xs) auto

lemma sanitize_chars: "list_all (\<lambda>c. \<not> is_unsafe c) (sanitize_filename name)"
proof -
  have lit: "list_all (\<lambda>c. \<not> is_unsafe c) ''attachment''" by (simp add: is_unsafe_def)
  have us: "\<not> is_unsafe (CHR ''_'')" by (simp add: is_unsafe_def)
  have "list_all (\<lambda>c. \<not> is_unsafe c) (dropWhile P (map (\<lambda>c. if is_unsafe c then CHR ''_'' else c) name))" for P
    using us by (auto simp: list_all_iff dest!: set_dropWhileD)
  with lit show ?thesis
    unfolding sanitize_filename_def Let_def by (simp del: dropWhile_eq_Nil_conv)
qed

lemma sanitize_nonempty: "sanitize_filename name \<noteq> []"
  by (simp add: sanitize_filename_def Let_def)

lemma sanitize_head: "hd (sanitize_filename name) \<noteq> CHR ''.'' \<and> hd (sanitize_filename name) \<noteq> CHR ''_''"
proof -
  have "P \<noteq> CHR ''.'' \<and> P \<noteq> CHR ''_''" if "xs = dropWhile (\<lambda>c. c = CHR ''.'' \<or> c = CHR ''_'') ys"
    "xs \<noteq> []" "P = hd xs" for P xs ys
    using that dropWhile_all_not [of "\<lambda>c. c = CHR ''.'' \<or> c = CHR ''_''" ys] by auto
  then show ?thesis
    unfolding sanitize_filename_def Let_def by (auto simp del: dropWhile_eq_Nil_conv)
qed

lemma hex_digit_inj: "m < 16 \<Longrightarrow> n < 16 \<Longrightarrow> hex_digit m = hex_digit n \<Longrightarrow> m = n"
  by (auto simp: hex_digit_def of_char_eq_iff dest!: arg_cong [where f = ord] split: if_splits)

lemma hex_inj: "hex xs = hex ys \<Longrightarrow> xs = ys"
proof (induction xs arbitrary: ys)
  case Nil
  then show ?case by (cases ys) (auto simp: hex_def)
next
  case (Cons x xs)
  then obtain y ys' where ys: "ys = y # ys'" by (cases ys) (auto simp: hex_def)
  with Cons.prems have hd: "hex_digit (ord x div 16) = hex_digit (ord y div 16)"
      "hex_digit (ord x mod 16) = hex_digit (ord y mod 16)" and tl: "hex xs = hex ys'"
    by (auto simp: hex_def)
  have lt: "ord c div 16 < 16" for c
    using nat_of_char_less_256 [of c] by (auto simp: div_less_iff_less_mult)
  from hd have "ord x div 16 = ord y div 16" "ord x mod 16 = ord y mod 16"
    using lt by (auto intro: hex_digit_inj)
  then have "ord x = ord y" by (metis div_mult_mod_eq)
  with tl Cons.IH ys show ?case by (auto simp: of_char_eq_iff)
qed

lemma blob_path_inj: "length a = length b \<Longrightarrow> blob_path a = blob_path b \<Longrightarrow> a = b"
  by (auto simp: blob_path_def)

subsection \<open>The store\<close>

lemma store_file_addressed:
  "store_file flt path payload st = Inr st' \<Longrightarrow> content_addressed sha (bs_tree st) \<Longrightarrow>
   path = blob_path (hex (sha payload)) \<Longrightarrow>
   content_addressed sha (bs_tree st') \<and> map_of (bs_tree st') path \<noteq> None"
  by (auto simp: store_file_def content_addressed_def map_add_def split: if_splits option.splits)

lemma insert_blob_row_frame [simp]: "bs_tree (insert_blob_row r st) = bs_tree st"
  by (simp add: insert_blob_row_def)

lemma insert_blob_row_has: "\<exists>b \<in> set (bs_rows (insert_blob_row r st)). b_sha256 b = b_sha256 r"
  by (auto simp: insert_blob_row_def)

lemma insert_blob_row_unique:
  "unique_by b_sha256 (bs_rows st) \<Longrightarrow> unique_by b_sha256 (bs_rows (insert_blob_row r st))"
  by (auto simp: insert_blob_row_def unique_by_append_iff)

lemma insert_blob_row_mono: "set (bs_rows st) \<subseteq> set (bs_rows (insert_blob_row r st))"
  by (auto simp: insert_blob_row_def)

lemma store_file_mono:
  "store_file flt path payload st = Inr st' \<Longrightarrow>
   bs_rows st' = bs_rows st \<and> map_of (bs_tree st) \<subseteq>\<^sub>m map_of (bs_tree st')"
  by (auto simp: store_file_def map_le_def map_add_def split: if_splits option.splits)

text \<open>One round of the loop: a failing file write stops it, otherwise the rest follows.\<close>

lemma write_attachments_step:
  assumes "write_attachments sha flt (att # atts) st = (r, st')"
  obtains (stopped) e where "r = Inl e" "st' = st"
  | (stored) st1 row r1 where
      "store_file flt (blob_path (hex (sha (att_payload att)))) (att_payload att) st = Inr st1"
      "b_sha256 row = sha (att_payload att)"
      "write_attachments sha flt atts (insert_blob_row row st1) = (r1, st')"
      "\<And>rows. r = Inr rows \<Longrightarrow> \<exists>rows1. r1 = Inr rows1 \<and> rows = attachment_row sha att # rows1"
proof -
  define row where "row = \<lparr>b_sha256 = sha (att_payload att),
    b_path = blob_path (hex (sha (att_payload att))), b_mime = att_mime att,
    b_size = int (length (att_payload att))\<rparr>"
  show thesis
  proof (cases "store_file flt (blob_path (hex (sha (att_payload att)))) (att_payload att) st")
    case (Inl e)
    with assms stopped show thesis by auto
  next
    case (Inr st1)
    obtain r1 st3 where rec: "write_attachments sha flt atts (insert_blob_row row st1) = (r1, st3)"
      by fastforce
    have "st3 = st'" and "r = map_sum id (\<lambda>rs. attachment_row sha att # rs) r1"
      using assms Inr rec by (auto simp: Let_def row_def split: sum.splits)
    with Inr rec show thesis
      by (intro stored [of st1 row r1]) (auto simp: row_def map_sum_def split: sum.splits)
  qed
qed

text \<open>Files and rows only ever grow, whether the call succeeds or raises.\<close>

lemma write_attachments_mono:
  "write_attachments sha flt atts st = (r, st') \<Longrightarrow>
   set (bs_rows st) \<subseteq> set (bs_rows st') \<and> map_of (bs_tree st) \<subseteq>\<^sub>m map_of (bs_tree st')"
proof (induction atts arbitrary: st r st')
  case (Cons att atts)
  from Cons.prems show ?case
  proof (cases rule: write_attachments_step)
    case (stored st1 row r1)
    with Cons.IH [OF stored(3)] store_file_mono [OF stored(1)] insert_blob_row_mono [of st1 row]
    show ?thesis by (auto intro: map_le_trans)
  qed simp
qed simp

lemma write_attachments_addressed:
  "write_attachments sha flt atts st = (r, st') \<Longrightarrow> content_addressed sha (bs_tree st) \<Longrightarrow>
   content_addressed sha (bs_tree st')"
proof (induction atts arbitrary: st r st')
  case (Cons att atts)
  from Cons.prems(1) show ?case
  proof (cases rule: write_attachments_step)
    case (stored st1 row r1)
    with Cons.IH [OF stored(3)] store_file_addressed [OF stored(1) Cons.prems(2)] show ?thesis by simp
  qed (simp add: Cons.prems)
qed simp

lemma write_attachments_unique:
  "write_attachments sha flt atts st = (r, st') \<Longrightarrow> unique_by b_sha256 (bs_rows st) \<Longrightarrow>
   unique_by b_sha256 (bs_rows st')"
proof (induction atts arbitrary: st r st')
  case (Cons att atts)
  from Cons.prems(1) show ?case
  proof (cases rule: write_attachments_step)
    case (stored st1 row r1)
    with Cons.IH [OF stored(3)] store_file_mono [OF stored(1)] Cons.prems(2)
    show ?thesis by (simp add: insert_blob_row_unique)
  qed (simp add: Cons.prems)
qed simp

lemma write_attachments_stores:
  "write_attachments sha flt atts st = (Inr rows, st') \<Longrightarrow>
   rows = map (attachment_row sha) atts \<and>
   (\<forall>att \<in> set atts. map_of (bs_tree st') (blob_path (hex (sha (att_payload att)))) \<noteq> None \<and>
      (\<exists>b \<in> set (bs_rows st'). b_sha256 b = sha (att_payload att)))"
proof (induction atts arbitrary: st rows st')
  case (Cons att atts)
  from Cons.prems show ?case
  proof (cases rule: write_attachments_step)
    case (stored st1 row r1)
    let ?path = "blob_path (hex (sha (att_payload att)))"
    from stored(4) obtain rows1 where r1: "r1 = Inr rows1" and rows: "rows = attachment_row sha att # rows1"
      by auto
    have "map_of (bs_tree st1) ?path \<noteq> None"
      using stored(1) by (auto simp: store_file_def map_add_def split: if_splits option.splits)
    then have "map_of (bs_tree st') ?path \<noteq> None"
      using write_attachments_mono [OF stored(3)] by (auto simp: map_le_def dom_def)
    moreover have "\<exists>b \<in> set (bs_rows st'). b_sha256 b = sha (att_payload att)"
      using write_attachments_mono [OF stored(3)] insert_blob_row_has [of row st1] stored(2) by auto
    ultimately show ?thesis
      using Cons.IH [OF stored(3) [unfolded r1]] rows by simp
  qed simp
qed simp

text \<open>
  Every attachment of a stored message can be read back: after \<open>write_attachments\<close> returns,
  each returned entry names, in the order of the message's attachments, a file of the blob tree
  whose bytes hash to that entry's digest, with a row in \<open>attachment_blobs\<close>, and its recorded
  filename carries no path separator or control character and does not start with a dot.
\<close>

theorem attachments_readable:
  assumes "write_attachments sha256 write_fault atts st = (Inr rows, st')"
    and "content_addressed sha256 (bs_tree st)"
    and "\<And>bs. length (sha256 bs) = 32"
    and "i < length atts"
  shows "length rows = length atts \<and>
    (\<exists>payload. map_of (bs_tree st') (blob_path (ae_sha256 (rows ! i))) = Some payload \<and>
       sha256 payload = sha256 (att_payload (atts ! i)) \<and>
       ae_sha256 (rows ! i) = hex (sha256 payload)) \<and>
    (\<exists>b \<in> set (bs_rows st'). b_sha256 b = sha256 (att_payload (atts ! i))) \<and>
    hd (ae_filename (rows ! i)) \<noteq> CHR ''.'' \<and> ae_filename (rows ! i) \<noteq> [] \<and>
    list_all (\<lambda>c. \<not> is_unsafe c) (ae_filename (rows ! i))"
proof -
  have rows: "rows = map (attachment_row sha256) atts"
    and stored: "map_of (bs_tree st') (blob_path (hex (sha256 (att_payload (atts ! i))))) \<noteq> None"
    and blob: "\<exists>b \<in> set (bs_rows st'). b_sha256 b = sha256 (att_payload (atts ! i))"
    using write_attachments_stores [OF assms(1)] assms(4) by auto
  from stored obtain payload where
    p: "map_of (bs_tree st') (blob_path (hex (sha256 (att_payload (atts ! i))))) = Some payload" by auto
  have "content_addressed sha256 (bs_tree st')"
    by (rule write_attachments_addressed [OF assms(1,2)])
  with p have "blob_path (hex (sha256 (att_payload (atts ! i)))) = blob_path (hex (sha256 payload))"
    by (auto simp: content_addressed_def dest!: map_of_SomeD)
  moreover have "length (hex (sha256 bs)) = 64" for bs
    using assms(3) [of bs] by (simp add: hex_def length_concat comp_def sum_list_triv)
  ultimately have "sha256 payload = sha256 (att_payload (atts ! i))"
    by (metis blob_path_inj hex_inj)
  with p blob rows assms(4) show ?thesis
    using sanitize_nonempty sanitize_head sanitize_chars
    by (simp add: attachment_row_def)
qed

text \<open>An attachment with an unsafe name, stored in an empty tree under a toy 32-byte digest.\<close>

definition sample_digest :: "bytes \<Rightarrow> bytes" where
  "sample_digest bs = take 32 (bs @ replicate 32 (CHR ''0''))"

definition sample_attachment :: attachment where
  "sample_attachment = \<lparr>att_filename = ''../a'', att_mime = ''text/plain'', att_payload = ''hi'',
     att_content_id = Some []\<rparr>"

theorem attachments_readable_witness:
  "\<exists>payload rows st'. write_attachments sample_digest (\<lambda>_. None) [sample_attachment] \<lparr>bs_tree = [], bs_rows = []\<rparr>
       = (Inr rows, st') \<and>
     map_of (bs_tree st') (blob_path (ae_sha256 (rows ! 0))) = Some payload \<and>
     sample_digest payload = sample_digest ''hi''"
proof -
  let ?st = "\<lparr>bs_tree = [], bs_rows = []\<rparr>"
  obtain rows st' where run: "write_attachments sample_digest (\<lambda>_. None) [sample_attachment] ?st = (Inr rows, st')"
    by (simp add: store_file_def Let_def)
  have "content_addressed sample_digest (bs_tree ?st)" by (simp add: content_addressed_def)
  moreover have "length (sample_digest bs) = 32" for bs by (simp add: sample_digest_def)
  ultimately show ?thesis
    using attachments_readable [OF run, of 0] run by (auto simp: sample_attachment_def)
qed

end
