(* ===== verification/Sync.thy ===== *)
theory Sync
  imports FetchRetry Attachments
begin

text \<open>
  The sync path (\<open>sync.py\<close>): one IMAP account into the tables of \<open>SyncStore\<close>.

  The IMAP server is the record \<open>imap_like\<close>, one field per command \<open>sync.py\<close> issues, each
  answering or raising. What else decides the course of a pass is in \<open>sync_env\<close>: the parser and
  the hash (parameters), which database statement fails and how (\<open>e_fault\<close>), the rows a
  concurrent session commits between the existence check and the insert (\<open>e_race\<close>), the server
  clock per transaction and the wall clock. An exception that leaves a function is the \<open>Inl\<close> of
  its result; the connection is then as the exception left it, and only \<open>committed\<close> survives.
\<close>

subsection \<open>The surroundings of a pass\<close>

datatype imap_date = Aware instant | Naive | NotDatetime

definition aware_internal_date :: "imap_date \<Rightarrow> instant option" where
  "aware_internal_date v = (case v of Aware t \<Rightarrow> Some t | Naive \<Rightarrow> None | NotDatetime \<Rightarrow> None)"

record fetch_item =
  fi_body :: "bytes option"
  fi_flags :: "string list"
  fi_internaldate :: imap_date

record imap_like =
  im_list_folders :: "exn + (string list \<times> string option \<times> string) list"
  im_select :: "string \<Rightarrow> exn + (int option \<times> int option)"
  im_search_all :: "string \<Rightarrow> exn + int list"
  im_search_from :: "string \<Rightarrow> int \<Rightarrow> exn + int list"
  im_search_uid :: "string \<Rightarrow> int \<Rightarrow> exn + int list"
  im_fetch :: "string \<Rightarrow> int list \<Rightarrow> exn + (int \<times> fetch_item) list"

datatype site = Process int | FailLog int | Hold int | GaveUp int | Clear int | Checkpoint int
  | WriteBlob string

record sync_env =
  e_parse :: "bytes \<Rightarrow> exn + parsed_message"
  e_sha256 :: "bytes \<Rightarrow> bytes"
  e_fault :: "site \<Rightarrow> exn option"
  e_race :: "int \<Rightarrow> message_row list \<Rightarrow> message_row list"
  e_clock :: "nat \<Rightarrow> instant"
  e_wall :: "nat \<Rightarrow> instant"
  e_max_hold :: int

subsection \<open>Database helpers\<close>

definition upsert_mailbox ::
  "int \<Rightarrow> string \<Rightarrow> string option \<Rightarrow> string list \<Rightarrow> conn \<Rightarrow> (exn + mailbox_row) \<times> conn" where
  "upsert_mailbox acct name delim flags c =
     (let c1 = c\<lparr>mailbox_seq := mailbox_seq c + 1\<rparr>;
          hit = (\<lambda>m. mb_account m = acct \<and> mb_name m = name)
      in case find hit (mailboxes (work c)) of
           Some m \<Rightarrow>
             (Inr (m\<lparr>mb_delimiter := delim, mb_flags := flags\<rparr>),
              with_work (\<lambda>d. d\<lparr>mailboxes := update_where hit
                (\<lambda>m. m\<lparr>mb_delimiter := delim, mb_flags := flags\<rparr>) (mailboxes d)\<rparr>) c1)
         | None \<Rightarrow>
             (let m = \<lparr>mb_id = mailbox_seq c, mb_account = acct, mb_name = name,
                       mb_delimiter = delim, mb_flags = flags, mb_uidvalidity = None,
                       mb_uidnext = None, mb_last_sync_at = None\<rparr>
              in if mb_id m \<in> set (map mb_id (mailboxes (work c))) then (Inl UniqueViolation, c1)
                 else (Inr m, with_work (\<lambda>d. d\<lparr>mailboxes := mailboxes d @ [m]\<rparr>) c1)))"

definition existing_message_id ::
  "conn \<Rightarrow> int \<Rightarrow> string option \<Rightarrow> bytes \<Rightarrow> int option" where
  "existing_message_id c acct message_id raw_sha256 =
     map_option m_id (find (same_key acct message_id raw_sha256) (visible_messages c))"

definition conflicts :: "message_row list \<Rightarrow> message_row \<Rightarrow> bool" where
  "conflicts rows r \<longleftrightarrow> (\<exists>s \<in> set rows. m_id s = m_id r \<or> row_same_key r s)"

text \<open>Rows a concurrent session commits: the unique indexes admit them one by one.\<close>

fun admit_rows :: "message_row list \<Rightarrow> message_row list \<Rightarrow> message_row list \<Rightarrow> message_row list" where
  "admit_rows mine theirs [] = theirs"
| "admit_rows mine theirs (r # rs) =
     (if conflicts (mine @ theirs) r then admit_rows mine theirs rs
      else admit_rows mine (theirs @ [r]) rs)"

definition others_commit :: "message_row list \<Rightarrow> conn \<Rightarrow> conn" where
  "others_commit rs c = c\<lparr>others := admit_rows (messages (work c)) (others c) rs\<rparr>"

definition upsert_message ::
  "sync_env \<Rightarrow> int \<Rightarrow> int \<Rightarrow> parsed_message \<Rightarrow> instant option \<Rightarrow> conn \<Rightarrow>
   (exn + (int \<times> bool)) \<times> conn" where
  "upsert_message env acct uid parsed internal_date c =
     (case existing_message_id c acct (p_message_id parsed) (p_raw_sha256 parsed) of
        Some existing \<Rightarrow> (Inr (existing, False), c)
      | None \<Rightarrow>
         (let c1 = others_commit (e_race env uid (visible_messages c)) c;
              r = \<lparr>m_id = msg_seq c1, m_account = acct, m_parsed = parsed,
                   m_internal_date = internal_date, m_attachments = []\<rparr>;
              c2 = c1\<lparr>msg_seq := msg_seq c1 + 1\<rparr>
          in if conflicts (visible_messages c1) r
             then (case existing_message_id c2 acct (p_message_id parsed) (p_raw_sha256 parsed) of
                     Some existing \<Rightarrow> (Inr (existing, False), c2)
                   | None \<Rightarrow> (Inl DedupConflict, c2))
             else (Inr (m_id r, True), with_work (\<lambda>d. d\<lparr>messages := messages d @ [r]\<rparr>) c2)))"

definition upsert_label :: "int \<Rightarrow> int \<Rightarrow> int \<Rightarrow> string list \<Rightarrow> conn \<Rightarrow> (exn + unit) \<times> conn" where
  "upsert_label msg mailbox uid flags c =
     (let hit = (\<lambda>l. l_message l = msg \<and> l_mailbox l = mailbox)
      in if \<exists>l \<in> set (labels (work c)). l_mailbox l = mailbox \<and> l_uid l = uid \<and> l_message l \<noteq> msg
         then (Inl UniqueViolation, c)
         else if \<exists>l \<in> set (labels (work c)). hit l
         then (Inr (), with_work (\<lambda>d. d\<lparr>labels := update_where hit
                 (\<lambda>l. l\<lparr>l_uid := uid, l_flags := flags\<rparr>) (labels d)\<rparr>) c)
         else (Inr (), with_work (\<lambda>d. d\<lparr>labels := labels d @
                 [\<lparr>l_message = msg, l_mailbox = mailbox, l_uid = uid, l_flags = flags\<rparr>]\<rparr>) c))"

definition set_message_attachments :: "int \<Rightarrow> attachment_entry list \<Rightarrow> conn \<Rightarrow> conn" where
  "set_message_attachments msg rows c =
     with_work (\<lambda>d. d\<lparr>messages := update_where (\<lambda>m. m_id m = msg)
       (\<lambda>m. m\<lparr>m_attachments := rows\<rparr>) (messages d)\<rparr>) c"

definition update_mailbox_progress ::
  "int \<Rightarrow> int \<Rightarrow> int \<Rightarrow> instant option \<Rightarrow> db \<Rightarrow> db" where
  "update_mailbox_progress mailbox uidvalidity uidnext last_sync_at d =
     d\<lparr>mailboxes := update_where (\<lambda>m. mb_id m = mailbox)
         (\<lambda>m. m\<lparr>mb_uidvalidity := Some uidvalidity, mb_uidnext := Some uidnext,
                mb_last_sync_at := (case last_sync_at of None \<Rightarrow> mb_last_sync_at m | t \<Rightarrow> t)\<rparr>)
         (mailboxes d)\<rparr>"

definition clear_mailbox_labels :: "int \<Rightarrow> db \<Rightarrow> db" where
  "clear_mailbox_labels mailbox d =
     d\<lparr>labels := filter (\<lambda>l. l_mailbox l \<noteq> mailbox) (labels d)\<rparr>"

subsection \<open>One message\<close>

definition store_attachments ::
  "sync_env \<Rightarrow> int \<Rightarrow> attachment list \<Rightarrow> conn \<Rightarrow> (exn + unit) \<times> conn" where
  "store_attachments env msg atts c =
     (case write_attachments (e_sha256 env) (\<lambda>path. e_fault env (WriteBlob path)) atts
             \<lparr>bs_tree = blob_tree c, bs_rows = blobs (work c)\<rparr> of
        (r, st) \<Rightarrow>
          (let c1 = with_work (\<lambda>d. d\<lparr>blobs := bs_rows st\<rparr>) (c\<lparr>blob_tree := bs_tree st\<rparr>)
           in case r of Inl e \<Rightarrow> (Inl e, c1)
              | Inr rows \<Rightarrow> (Inr (), set_message_attachments msg rows c1)))"

definition process_one_message ::
  "sync_env \<Rightarrow> int \<Rightarrow> int \<Rightarrow> int \<Rightarrow> bytes \<Rightarrow> string list \<Rightarrow> instant option \<Rightarrow> conn \<Rightarrow>
   (exn + (int \<times> bool)) \<times> conn" where
  "process_one_message env acct mailbox uid raw flags internal_date c =
     (case e_parse env raw of
        Inl e \<Rightarrow> (Inl e, c)
      | Inr parsed \<Rightarrow>
         (case upsert_message env acct uid parsed internal_date c of
            (Inl e, c1) \<Rightarrow> (Inl e, c1)
          | (Inr (db_id, did_insert), c1) \<Rightarrow>
             (case upsert_label db_id mailbox uid flags c1 of
                (Inl e, c2) \<Rightarrow> (Inl e, c2)
              | (Inr _, c2) \<Rightarrow>
                 (case e_fault env (Process uid) of
                    Some e \<Rightarrow> (Inl e, c2)
                  | None \<Rightarrow>
                     if did_insert \<and> p_attachments parsed \<noteq> [] then
                       (case store_attachments env db_id (p_attachments parsed) c2 of
                          (Inl e, c3) \<Rightarrow> (Inl e, c3)
                        | (Inr _, c3) \<Rightarrow> (Inr (db_id, did_insert), c3))
                     else (Inr (db_id, did_insert), c2)))))"

text \<open>The exception that leaves \<open>record_failed_message\<close>, if any, and the connection.\<close>

definition record_failed_message ::
  "sync_env \<Rightarrow> int \<Rightarrow> int \<Rightarrow> int \<Rightarrow> bytes \<Rightarrow> exn \<Rightarrow> conn \<Rightarrow> exn option \<times> conn" where
  "record_failed_message env acct mailbox uid raw exc c =
     (case e_fault env (FailLog uid) of
        Some e \<Rightarrow> (if e = Contention then Some e else None, c)
      | None \<Rightarrow>
         (let now = e_clock env (txn c);
              hit = (\<lambda>f. f_account f = acct \<and> f_mailbox f = mailbox \<and> f_uid f = uid);
              c1 = c\<lparr>failed_seq := failed_seq c + 1\<rparr>
          in (None,
              if \<exists>f \<in> set (failed (work c)). hit f
              then with_work (\<lambda>d. d\<lparr>failed := update_where hit
                     (\<lambda>f. f\<lparr>f_raw := raw, f_sha256 := e_sha256 env raw, f_error := exn_text exc,
                            f_failed_at := now, f_retry_count := f_retry_count f + 1,
                            f_last_retry_at := Some now\<rparr>) (failed d)\<rparr>) c1
              else with_work (\<lambda>d. d\<lparr>failed := failed d @
                     [\<lparr>f_id = failed_seq c, f_account = acct, f_mailbox = mailbox, f_uid = uid,
                       f_raw = raw, f_sha256 = e_sha256 env raw, f_error = exn_text exc,
                       f_failed_at = now, f_retry_count = 0, f_last_retry_at = None\<rparr>]\<rparr>) c1)))"

subsection \<open>retry-failed\<close>

definition failed_scope :: "int option \<Rightarrow> db \<Rightarrow> (failed_row \<times> string) list" where
  "failed_scope account_id d =
     concat (map (\<lambda>f. map (\<lambda>a. (f, a_auth_method a)) (filter (\<lambda>a. a_id a = f_account f) (accounts d)))
       (sort_key f_id
         (filter (\<lambda>f. case account_id of None \<Rightarrow> True | Some i \<Rightarrow> f_account f = i) (failed d))))"

definition retry_one ::
  "sync_env \<Rightarrow> failed_row \<times> string \<Rightarrow> int \<times> int \<Rightarrow> conn \<Rightarrow> (exn + (int \<times> int)) \<times> conn" where
  "retry_one env row counts c =
     (case row of (f, auth_method) \<Rightarrow> case counts of (succeeded, still_failing) \<Rightarrow>
       (let attempt_uid = (if should_reallocate_uid auth_method
                           then next_uid_after (Some (max_label_uid (work c) (f_mailbox f)))
                           else f_uid f)
        in case process_one_message env (f_account f) (f_mailbox f) attempt_uid (f_raw f) [] None c of
             (Inr _, c1) \<Rightarrow>
               (Inr (succeeded + 1, still_failing),
                commit (with_work (\<lambda>d. d\<lparr>failed := filter (\<lambda>g. f_id g \<noteq> f_id f) (failed d)\<rparr>) c1))
           | (Inl e, c1) \<Rightarrow>
               (let c2 = rollback_to (work c) c1
                in if e = Contention then (Inl e, c2)
                   else (case record_failed_message env (f_account f) (f_mailbox f) (f_uid f) (f_raw f) e c2 of
                           (Some e', c3) \<Rightarrow> (Inl e', c3)
                         | (None, c3) \<Rightarrow> (Inr (succeeded, still_failing + 1), commit c3)))))"

fun retry_rows ::
  "sync_env \<Rightarrow> (failed_row \<times> string) list \<Rightarrow> int \<times> int \<Rightarrow> conn \<Rightarrow> (exn + (int \<times> int)) \<times> conn" where
  "retry_rows env [] counts c = (Inr counts, c)"
| "retry_rows env (row # rows) counts c =
     (case retry_one env row counts c of
        (Inl e, c1) \<Rightarrow> (Inl e, c1)
      | (Inr counts1, c1) \<Rightarrow> retry_rows env rows counts1 c1)"

definition retry_failed_messages ::
  "sync_env \<Rightarrow> int option \<Rightarrow> conn \<Rightarrow> (exn + (int \<times> int)) \<times> conn" where
  "retry_failed_messages env account_id c =
     retry_rows env (failed_scope account_id (work c)) (0, 0) c"

subsection \<open>Folders and UIDs\<close>

definition folders_to_sync ::
  "(string list \<times> string option \<times> string) list \<Rightarrow> string list \<Rightarrow> string list \<Rightarrow> string list \<Rightarrow>
   (string \<times> string option \<times> string list) list" where
  "folders_to_sync folders allow deny deny_flags =
     map (\<lambda>(flags, delim, name). (name, delim, flags))
       (filter (\<lambda>(flags, delim, name).
           char_of (92 :: nat) # ''Noselect'' \<notin> set flags \<and>
           \<not> (deny_flags \<noteq> [] \<and> (\<exists>f \<in> set flags. f \<in> set deny_flags)) \<and>
           \<not> (allow \<noteq> [] \<and> name \<notin> set allow) \<and>
           name \<notin> set deny) folders)"

definition filter_new_uids :: "int list \<Rightarrow> int option \<Rightarrow> int list" where
  "filter_new_uids uids known_uidnext =
     (case known_uidnext of None \<Rightarrow> sort uids | Some n \<Rightarrow> sort (filter (\<lambda>u. n \<le> u) uids))"

definition uid_still_on_server :: "imap_like \<Rightarrow> int \<Rightarrow> string \<Rightarrow> bool" where
  "uid_still_on_server im uid name = (case im_search_uid im name uid of Inl _ \<Rightarrow> True | Inr us \<Rightarrow> us \<noteq> [])"

subsection \<open>One mailbox\<close>

definition batch_size :: nat where "batch_size = 50"

record pass_state =
  inserted :: int
  skipped :: int
  seen :: int
  highest_seen :: int
  hold_at :: "int option"
  emptying :: bool
  held_attempts :: "(int \<times> hold_state) list"
  naive_date_reported :: bool

definition body_of :: "(int \<times> fetch_item) list \<Rightarrow> int \<Rightarrow> bytes option" where
  "body_of fetched uid =
     (case map_of fetched uid of
        None \<Rightarrow> None
      | Some it \<Rightarrow> (case fi_body it of None \<Rightarrow> None | Some b \<Rightarrow> if b = [] then None else Some b))"

definition saw :: "int \<Rightarrow> pass_state \<Rightarrow> pass_state" where
  "saw uid ps = ps\<lparr>highest_seen := max (highest_seen ps) uid\<rparr>"

text \<open>\<open>sync_mailbox\<close>'s branch for a UID without a body: expunged, held, or given up on.\<close>

definition no_body_step ::
  "sync_env \<Rightarrow> imap_like \<Rightarrow> mailbox_row \<Rightarrow> instant \<Rightarrow> int \<Rightarrow> pass_state \<Rightarrow> conn \<Rightarrow> pass_state \<times> conn" where
  "no_body_step env im mailbox now uid ps c =
     (if emptying ps \<or> uid_still_on_server im uid (mb_name mailbox) then
        (case record_attempt (e_fault env (Hold uid)) (e_clock env (txn c)) (mb_id mailbox) uid (work c) of
           (hold, d) \<Rightarrow>
             if hold_expired (first_seen_at hold) now (e_max_hold env)
             then (saw uid (ps\<lparr>emptying := True, seen := seen ps + 1\<rparr>),
                   c\<lparr>work := mark_gave_up (e_fault env (GaveUp uid)) (e_clock env (txn c))
                              (mb_id mailbox) uid d\<rparr>)
             else (ps\<lparr>emptying := True, seen := seen ps + 1,
                      held_attempts := dict_set uid hold (held_attempts ps),
                      hold_at := Some (case hold_at ps of None \<Rightarrow> uid | Some h \<Rightarrow> min h uid)\<rparr>,
                   c\<lparr>work := d\<rparr>))
      else (saw uid (ps\<lparr>seen := seen ps + 1\<rparr>), c))"

text \<open>\<open>sync_mailbox\<close>'s branch for a UID with a body, its per-message savepoint included.\<close>

definition body_step ::
  "sync_env \<Rightarrow> int \<Rightarrow> mailbox_row \<Rightarrow> int \<Rightarrow> bytes \<Rightarrow> fetch_item \<Rightarrow> pass_state \<Rightarrow> conn \<Rightarrow>
   (exn + pass_state) \<times> conn" where
  "body_step env acct mailbox uid raw it ps c =
     (if uid \<in> fst ` set (held_attempts ps) \<and> e_fault env (Clear uid) \<noteq> None
      then (Inl (the (e_fault env (Clear uid))), c)
      else
        (let recovered = uid \<in> fst ` set (held_attempts ps);
             c0 = (if recovered then with_work (clear_attempts (mb_id mailbox) uid) c else c);
             ps0 = ps\<lparr>held_attempts := (if recovered then dict_pop uid (held_attempts ps)
                                        else held_attempts ps),
                      naive_date_reported := naive_date_reported ps \<or> fi_internaldate it = Naive\<rparr>
         in case process_one_message env acct (mb_id mailbox) uid raw (fi_flags it)
                   (aware_internal_date (fi_internaldate it)) c0 of
              (Inr (_, did_insert), c1) \<Rightarrow>
                (Inr (saw uid (ps0\<lparr>inserted := inserted ps0 + (if did_insert then 1 else 0),
                                   seen := seen ps0 + 1\<rparr>)), c1)
            | (Inl e, c1) \<Rightarrow>
                (let c2 = rollback_to (work c0) c1
                 in if e = Contention then (Inl e, c2)
                    else (case record_failed_message env acct (mb_id mailbox) uid raw e c2 of
                            (Some e', c3) \<Rightarrow> (Inl e', c3)
                          | (None, c3) \<Rightarrow>
                              (Inr (saw uid (ps0\<lparr>skipped := skipped ps0 + 1, seen := seen ps0 + 1\<rparr>)), c3)))))"

definition uid_step ::
  "sync_env \<Rightarrow> imap_like \<Rightarrow> int \<Rightarrow> mailbox_row \<Rightarrow> instant \<Rightarrow> (int \<times> fetch_item) list \<Rightarrow> int \<Rightarrow>
   pass_state \<Rightarrow> conn \<Rightarrow> (exn + pass_state) \<times> conn" where
  "uid_step env im acct mailbox now fetched uid ps c =
     (case body_of fetched uid of
        None \<Rightarrow> (case no_body_step env im mailbox now uid ps c of (ps1, c1) \<Rightarrow> (Inr ps1, c1))
      | Some raw \<Rightarrow> body_step env acct mailbox uid raw (the (map_of fetched uid)) ps c)"

fun sync_uids ::
  "sync_env \<Rightarrow> imap_like \<Rightarrow> int \<Rightarrow> mailbox_row \<Rightarrow> instant \<Rightarrow> (int \<times> fetch_item) list \<Rightarrow> int list \<Rightarrow>
   pass_state \<Rightarrow> conn \<Rightarrow> (exn + pass_state) \<times> conn" where
  "sync_uids env im acct mailbox now fetched [] ps c = (Inr ps, c)"
| "sync_uids env im acct mailbox now fetched (u # us) ps c =
     (case uid_step env im acct mailbox now fetched u ps c of
        (Inl e, c1) \<Rightarrow> (Inl e, c1)
      | (Inr ps1, c1) \<Rightarrow> sync_uids env im acct mailbox now fetched us ps1 c1)"

definition checkpoint_chunk ::
  "sync_env \<Rightarrow> mailbox_row \<Rightarrow> int \<Rightarrow> pass_state \<Rightarrow> conn \<Rightarrow> (exn + pass_state) \<times> conn" where
  "checkpoint_chunk env mailbox server_uidvalidity ps c =
     (let resume_at = checkpoint_uidnext (highest_seen ps) (hold_at ps)
      in case e_fault env (Checkpoint resume_at) of
           Some e \<Rightarrow> (Inl e, c)
         | None \<Rightarrow>
             (Inr ps,
              commit (with_work (\<lambda>d. reclaim_below (mb_id mailbox) resume_at
                (update_mailbox_progress (mb_id mailbox) server_uidvalidity resume_at
                  (Some (e_wall env (txn c))) d)) c)))"

definition sync_chunk ::
  "sync_env \<Rightarrow> imap_like \<Rightarrow> int \<Rightarrow> mailbox_row \<Rightarrow> instant \<Rightarrow> int \<Rightarrow> int list \<Rightarrow>
   pass_state \<Rightarrow> conn \<Rightarrow> (exn + pass_state) \<times> conn" where
  "sync_chunk env im acct mailbox now server_uidvalidity chunk ps c =
     (case im_fetch im (mb_name mailbox) chunk of
        Inl e \<Rightarrow> (Inl e, c)
      | Inr fetched \<Rightarrow>
         (case sync_uids env im acct mailbox now fetched chunk ps c of
            (Inl e, c1) \<Rightarrow> (Inl e, c1)
          | (Inr ps1, c1) \<Rightarrow> checkpoint_chunk env mailbox server_uidvalidity ps1 c1))"

fun sync_chunks ::
  "sync_env \<Rightarrow> imap_like \<Rightarrow> int \<Rightarrow> mailbox_row \<Rightarrow> instant \<Rightarrow> int \<Rightarrow> int list list \<Rightarrow>
   pass_state \<Rightarrow> conn \<Rightarrow> (exn + pass_state) \<times> conn" where
  "sync_chunks env im acct mailbox now uv [] ps c = (Inr ps, c)"
| "sync_chunks env im acct mailbox now uv (chunk # chunks) ps c =
     (case sync_chunk env im acct mailbox now uv chunk ps c of
        (Inl e, c1) \<Rightarrow> (Inl e, c1)
      | (Inr ps1, c1) \<Rightarrow> sync_chunks env im acct mailbox now uv chunks ps1 c1)"

text \<open>\<open>uids[:max_messages]\<close> when there are more than that; a negative bound slices from the end.\<close>

definition limit_uids :: "int option \<Rightarrow> int list \<Rightarrow> int list" where
  "limit_uids max_messages uids =
     (case max_messages of None \<Rightarrow> uids
      | Some k \<Rightarrow> if k < int (length uids)
                  then take (nat (if 0 \<le> k then k else int (length uids) + k)) uids else uids)"

definition candidate_uids :: "imap_like \<Rightarrow> mailbox_row \<Rightarrow> bool \<Rightarrow> exn + int list" where
  "candidate_uids im mailbox full_sync =
     (if full_sync then map_sum id sort (im_search_all im (mb_name mailbox))
      else
        (let last = int_or (mb_uidnext mailbox) 1
         in map_sum id (\<lambda>us. filter_new_uids us (Some last)) (im_search_from im (mb_name mailbox) last)))"

definition start_state :: "mailbox_row \<Rightarrow> db \<Rightarrow> pass_state" where
  "start_state mailbox d =
     \<lparr>inserted = 0, skipped = 0, seen = 0, highest_seen = int_or (mb_uidnext mailbox) 1 - 1,
      hold_at = None, emptying = False, held_attempts = load_attempts d (mb_id mailbox),
      naive_date_reported = False\<rparr>"

definition begin_resync :: "mailbox_row \<Rightarrow> bool \<Rightarrow> conn \<Rightarrow> conn" where
  "begin_resync mailbox full_sync c =
     (if full_sync \<and> mb_uidvalidity mailbox \<noteq> None
      then commit (with_work (\<lambda>d. clear_mailbox (mb_id mailbox) (clear_mailbox_labels (mb_id mailbox) d)) c)
      else c)"

definition sync_mailbox ::
  "sync_env \<Rightarrow> imap_like \<Rightarrow> int \<Rightarrow> mailbox_row \<Rightarrow> int option \<Rightarrow> conn \<Rightarrow> (exn + int) \<times> conn" where
  "sync_mailbox env im acct mailbox max_messages c =
     (case im_select im (mb_name mailbox) of
        Inl e \<Rightarrow> (Inl e, c)
      | Inr (status_uidvalidity, status_uidnext) \<Rightarrow>
         (let server_uidvalidity = int_or status_uidvalidity 0;
              server_uidnext = int_or status_uidnext 0;
              full_sync = (mb_uidvalidity mailbox \<noteq> Some server_uidvalidity);
              c1 = begin_resync mailbox full_sync c
          in case candidate_uids im mailbox full_sync of
               Inl e \<Rightarrow> (Inl e, c1)
             | Inr all_uids \<Rightarrow>
                (let uids = limit_uids max_messages all_uids
                 in if uids = [] then
                      (Inr 0, commit (with_work (update_mailbox_progress (mb_id mailbox) server_uidvalidity
                         (int_or (Some server_uidnext) (int_or (mb_uidnext mailbox) 1))
                         (Some (e_wall env (txn c1)))) c1))
                    else
                      (case sync_chunks env im acct mailbox (e_clock env (txn c1)) server_uidvalidity
                              (batches batch_size uids) (start_state mailbox (work c1)) c1 of
                         (Inl e, c2) \<Rightarrow> (Inl e, c2)
                       | (Inr ps, c2) \<Rightarrow> (Inr (inserted ps), c2)))))"

subsection \<open>One account\<close>

record account_config =
  folder_allow :: "string list"
  folder_deny :: "string list"
  folder_deny_flags :: "string list"

fun sync_folders ::
  "sync_env \<Rightarrow> imap_like \<Rightarrow> int \<Rightarrow> int option \<Rightarrow> (string \<times> string option \<times> string list) list \<Rightarrow>
   (string \<times> int) list \<Rightarrow> conn \<Rightarrow> (exn + (string \<times> int) list) \<times> conn" where
  "sync_folders env im acct max_messages [] results c = (Inr results, c)"
| "sync_folders env im acct max_messages ((name, delim, flags) # fs) results c =
     (case upsert_mailbox acct name delim flags c of
        (Inl e, c1) \<Rightarrow> (Inl e, c1)
      | (Inr mailbox, c1) \<Rightarrow>
         (case sync_mailbox env im acct mailbox max_messages (commit c1) of
            (Inl e, c2) \<Rightarrow> (Inl e, c2)
          | (Inr n, c2) \<Rightarrow> sync_folders env im acct max_messages fs (dict_set name n results) c2))"

definition sync_account ::
  "sync_env \<Rightarrow> imap_like \<Rightarrow> account_config \<Rightarrow> int \<Rightarrow> int option \<Rightarrow> conn \<Rightarrow>
   (exn + (string \<times> int) list) \<times> conn" where
  "sync_account env im cfg acct max_messages c =
     (case im_list_folders im of
        Inl e \<Rightarrow> (Inl e, c)
      | Inr folders \<Rightarrow>
          sync_folders env im acct max_messages
            (folders_to_sync folders (folder_allow cfg) (folder_deny cfg) (folder_deny_flags cfg)) [] c)"

subsection \<open>The mail a session holds only grows\<close>

definition mail_ident :: "message_row \<Rightarrow> int \<times> int \<times> parsed_message" where
  "mail_ident r = (m_id r, m_account r, m_parsed r)"

definition keeps_mail :: "conn \<Rightarrow> conn \<Rightarrow> bool" where
  "keeps_mail c c' \<longleftrightarrow>
     mail_ident ` set (messages (work c)) \<subseteq> mail_ident ` set (messages (work c')) \<and>
     set (others c) \<subseteq> set (others c') \<and>
     label_key ` set (labels (work c)) \<subseteq> label_key ` set (labels (work c'))"

text \<open>Everything but mail: what \<open>process_one_message\<close> never touches.\<close>

definition same_books :: "conn \<Rightarrow> conn \<Rightarrow> bool" where
  "same_books c c' \<longleftrightarrow>
     mailboxes (work c') = mailboxes (work c) \<and> fetches (work c') = fetches (work c) \<and>
     failed (work c') = failed (work c) \<and> accounts (work c') = accounts (work c) \<and>
     committed c' = committed c \<and> txn c' = txn c"

lemma keeps_mail_refl [simp]: "keeps_mail c c"
  by (simp add: keeps_mail_def)

lemma keeps_mail_trans: "keeps_mail a b \<Longrightarrow> keeps_mail b c \<Longrightarrow> keeps_mail a c"
  unfolding keeps_mail_def by (meson subset_trans)

lemma same_books_refl [simp]: "same_books c c"
  by (simp add: same_books_def)

lemma same_books_trans: "same_books a b \<Longrightarrow> same_books b c \<Longrightarrow> same_books a c"
  by (auto simp: same_books_def)

lemma same_key_ident: "mail_ident r = mail_ident s \<Longrightarrow> same_key a i h r = same_key a i h s"
  by (auto simp: mail_ident_def same_key_def split: option.splits)

lemma row_same_key_ident:
  "mail_ident r = mail_ident r' \<Longrightarrow> mail_ident s = mail_ident s' \<Longrightarrow> row_same_key r s = row_same_key r' s'"
  by (auto simp: mail_ident_def row_same_key_def same_key_def split: option.splits)

lemma unique_keys_ident:
  assumes "map mail_ident xs = map mail_ident ys"
  shows "unique_keys xs = unique_keys ys"
proof -
  define bare where "bare = (\<lambda>(i, a, p).
    \<lparr>m_id = i, m_account = a, m_parsed = p, m_internal_date = None, m_attachments = []\<rparr>)"
  have id: "mail_ident (bare (mail_ident r)) = mail_ident r" for r
    by (simp add: bare_def mail_ident_def)
  have key: "row_same_key (bare (mail_ident r)) (bare (mail_ident s)) = row_same_key r s" for r s
    by (rule row_same_key_ident) (simp_all add: id)
  have "unique_keys zs = unique_keys (map bare (map mail_ident zs))" for zs
    by (induction zs) (simp_all add: key)
  with assms show ?thesis by metis
qed

lemma unique_ident_m_id:
  "map mail_ident xs = map mail_ident ys \<Longrightarrow> unique_by m_id xs = unique_by m_id ys"
proof -
  have "m_id = fst \<circ> mail_ident" by (simp add: fun_eq_iff mail_ident_def)
  then show "map mail_ident xs = map mail_ident ys \<Longrightarrow> unique_by m_id xs = unique_by m_id ys"
    unfolding unique_by_def by (metis list.map_comp)
qed

subsection \<open>The dedup key\<close>

lemma find_ident:
  "existing_message_id c acct i h = Some k \<Longrightarrow>
   \<exists>r \<in> set (visible_messages c). m_id r = k \<and> same_key acct i h r"
  by (auto simp: existing_message_id_def dest: find_SomeD)

lemma existing_None:
  "existing_message_id c acct i h = None \<Longrightarrow> r \<in> set (visible_messages c) \<Longrightarrow> \<not> same_key acct i h r"
  by (simp add: existing_message_id_def find_None_conv)

lemma admit_rows_mono: "set theirs \<subseteq> set (admit_rows mine theirs rs)"
  by (induction mine theirs rs rule: admit_rows.induct) auto

lemma admit_rows_unique:
  "unique_by m_id (mine @ theirs) \<Longrightarrow> unique_keys (mine @ theirs) \<Longrightarrow>
   unique_by m_id (mine @ admit_rows mine theirs rs) \<and> unique_keys (mine @ admit_rows mine theirs rs)"
proof (induction mine theirs rs rule: admit_rows.induct)
  case (2 mine theirs r rs)
  have "unique_by m_id (mine @ theirs @ [r])" "unique_keys (mine @ theirs @ [r])"
    if "\<not> conflicts (mine @ theirs) r"
    using that "2.prems" unique_by_append_iff [of m_id "mine @ theirs" r] row_same_key_sym
    by (auto simp: conflicts_def unique_keys_append)
  with 2 show ?case by auto
qed simp

lemma conflicts_snoc:
  assumes "unique_by m_id (xs @ ys)" "unique_keys (xs @ ys)" "\<not> conflicts (xs @ ys) r"
  shows "unique_by m_id ((xs @ [r]) @ ys)" "unique_keys ((xs @ [r]) @ ys)"
  using assms row_same_key_sym
  by (fastforce simp: conflicts_def unique_by_def unique_keys_append)+

lemma wf_others_commit: "wf_conn c \<Longrightarrow> wf_conn (others_commit rs c)"
  using admit_rows_unique [of "messages (work c)" "others c" rs]
  by (simp add: wf_conn_def others_commit_def visible_messages_def)

lemma keeps_others_commit: "keeps_mail c (others_commit rs c) \<and> same_books c (others_commit rs c)"
  using admit_rows_mono by (auto simp: keeps_mail_def same_books_def others_commit_def)

lemma wf_insert_message:
  assumes "wf_conn c" "\<not> conflicts (visible_messages c) r"
  shows "wf_conn (with_work (\<lambda>d. d\<lparr>messages := messages d @ [r]\<rparr>) (c\<lparr>msg_seq := n\<rparr>))"
  using assms conflicts_snoc [of "messages (work c)" "others c" r]
  by (simp add: wf_conn_def visible_messages_def)

lemma wf_msg_seq: "wf_conn c \<Longrightarrow> wf_conn (c\<lparr>msg_seq := n\<rparr>)"
  by (simp add: wf_conn_def visible_messages_def)

lemma upsert_message_frame:
  assumes "upsert_message env acct uid p idate c = (res, c')"
  shows "keeps_mail c c'" "same_books c c'" "labels (work c') = labels (work c)"
    "wf_conn c \<Longrightarrow> wf_conn c'"
proof -
  define c1 where "c1 = others_commit (e_race env uid (visible_messages c)) c"
  have k: "keeps_mail c c1" "same_books c c1" "labels (work c1) = labels (work c)"
    "wf_conn c \<Longrightarrow> wf_conn c1"
    using keeps_others_commit wf_others_commit
    by (auto simp: c1_def others_commit_def)
  show "keeps_mail c c'" "same_books c c'" "labels (work c') = labels (work c)"
    using assms k
    by (auto simp: upsert_message_def Let_def keeps_mail_def same_books_def simp flip: c1_def
        split: option.splits if_splits)
  show "wf_conn c'" if "wf_conn c"
    using assms that k(4) wf_insert_message [of c1] wf_msg_seq [of c1]
    by (auto simp: upsert_message_def Let_def simp flip: c1_def split: option.splits if_splits)
qed

lemma upsert_message_key:
  assumes "upsert_message env acct uid p idate c = (Inr (k, ins), c')"
  shows "\<exists>r \<in> set (visible_messages c'). m_id r = k \<and> same_key acct (p_message_id p) (p_raw_sha256 p) r"
proof -
  have self: "same_key acct (p_message_id p) (p_raw_sha256 p)
     \<lparr>m_id = i, m_account = acct, m_parsed = p, m_internal_date = d, m_attachments = []\<rparr>" for i d
    by (auto simp: same_key_def split: option.splits)
  show ?thesis
    using assms self find_ident
    by (fastforce simp: upsert_message_def Let_def visible_messages_def
        split: option.splits if_splits)
qed

subsection \<open>Labels and attachments\<close>

lemma unique_uid_moved:
  assumes "unique_by label_key ls" "unique_by label_uid_key ls"
    and "\<forall>l \<in> set ls. l_mailbox l = mb \<and> l_uid l = uid \<longrightarrow> l_message l = k"
  shows "unique_by label_uid_key (update_where (\<lambda>l. l_message l = k \<and> l_mailbox l = mb)
           (\<lambda>l. l\<lparr>l_uid := uid, l_flags := flags\<rparr>) ls)"
proof -
  let ?hit = "\<lambda>l. l_message l = k \<and> l_mailbox l = mb"
  let ?h = "\<lambda>l. if ?hit l then l\<lparr>l_uid := uid, l_flags := flags\<rparr> else l"
  have "inj_on (\<lambda>l. label_uid_key (?h l)) (set ls)"
  proof (rule inj_onI)
    fix a b assume ab: "a \<in> set ls" "b \<in> set ls" and eq: "label_uid_key (?h a) = label_uid_key (?h b)"
    consider "?hit a" "?hit b" | "?hit a" "\<not> ?hit b" | "\<not> ?hit a" "?hit b" | "\<not> ?hit a" "\<not> ?hit b"
      by blast
    then show "a = b"
    proof cases
      case 1
      then show ?thesis using unique_byD [OF assms(1) ab] by (simp add: label_key_def)
    next
      case 2
      have "label_uid_key b = (mb, uid)" using eq 2 by (simp only: if_P if_not_P) (simp add: label_uid_key_def)
      with assms(3) ab(2) 2(2) show ?thesis unfolding label_uid_key_def by blast
    next
      case 3
      have "label_uid_key a = (mb, uid)" using eq 3 by (simp only: if_P if_not_P) (simp add: label_uid_key_def)
      with assms(3) ab(1) 3(1) show ?thesis unfolding label_uid_key_def by blast
    next
      case 4
      then show ?thesis using unique_byD [OF assms(2) ab] eq by (simp only: if_not_P if_False)
    qed
  qed
  moreover have "distinct ls" using assms(1) by (simp add: unique_by_def distinct_map)
  ultimately show ?thesis by (simp add: unique_by_def update_where_def distinct_map comp_def)
qed

lemma upsert_label_frame:
  assumes "upsert_label k mb uid flags c = (res, c')"
  shows "keeps_mail c c'" "same_books c c'" "visible_messages c' = visible_messages c"
    "wf_conn c \<Longrightarrow> wf_conn c'"
    "res = Inr () \<Longrightarrow> \<exists>l \<in> set (labels (work c')). l_message l = k \<and> l_mailbox l = mb \<and> l_uid l = uid"
proof -
  let ?hit = "\<lambda>l. l_message l = k \<and> l_mailbox l = mb"
  let ?up = "\<lambda>l. l\<lparr>l_uid := uid, l_flags := flags\<rparr>"
  let ?new = "\<lparr>l_message = k, l_mailbox = mb, l_uid = uid, l_flags = flags\<rparr>"
  let ?old = "labels (work c)"
  consider (refused) "res = Inl UniqueViolation" "c' = c"
    | (moved) "res = Inr ()" "c' = with_work (\<lambda>d. d\<lparr>labels := update_where ?hit ?up (labels d)\<rparr>) c"
        "\<exists>l \<in> set ?old. ?hit l" "\<forall>l \<in> set ?old. l_mailbox l = mb \<and> l_uid l = uid \<longrightarrow> l_message l = k"
    | (added) "res = Inr ()" "c' = with_work (\<lambda>d. d\<lparr>labels := labels d @ [?new]\<rparr>) c"
        "\<forall>l \<in> set ?old. \<not> ?hit l" "\<forall>l \<in> set ?old. l_mailbox l = mb \<and> l_uid l = uid \<longrightarrow> l_message l = k"
  proof (cases "\<exists>l \<in> set ?old. l_mailbox l = mb \<and> l_uid l = uid \<and> l_message l \<noteq> k")
    case True
    from assms [unfolded upsert_label_def Let_def if_P [OF True]] show thesis
      by (intro refused) simp_all
  next
    case clear: False
    show thesis
    proof (cases "\<exists>l \<in> set ?old. ?hit l")
      case True
      from assms [unfolded upsert_label_def Let_def if_not_P [OF clear] if_P [OF True]] show thesis
        using True clear by (intro moved) auto
    next
      case False
      from assms [unfolded upsert_label_def Let_def if_not_P [OF clear] if_not_P [OF False]] show thesis
        using False clear by (intro added) auto
    qed
  qed
  note cs = this
  show "same_books c c'"
    using cs by cases (simp_all add: same_books_def)
  show "visible_messages c' = visible_messages c"
    using cs by cases (simp_all add: visible_messages_def)
  have keys: "map label_key (update_where ?hit ?up ?old) = map label_key ?old"
    by (rule map_update_where) (simp add: label_key_def)
  show "keeps_mail c c'"
    using cs
  proof cases
    case moved
    with arg_cong [OF keys, of set] show ?thesis by (simp add: keeps_mail_def)
  next
    case added
    then show ?thesis by (simp add: keeps_mail_def subset_insertI)
  qed simp
  show "\<exists>l \<in> set (labels (work c')). l_message l = k \<and> l_mailbox l = mb \<and> l_uid l = uid" if "res = Inr ()"
    using cs
  proof cases
    case moved
    then show ?thesis by (simp add: ex_update_where) blast
  next
    case added
    then show ?thesis by simp
  qed (use that in simp)
  show "wf_conn c'" if w: "wf_conn c"
    using cs
  proof cases
    case refused
    with w show ?thesis by simp
  next
    case moved
    have lk: "unique_by label_key (update_where ?hit ?up ?old)"
      using w keys by (simp add: wf_conn_def unique_by_def)
    have "unique_by label_uid_key (update_where ?hit ?up ?old)"
      by (rule unique_uid_moved) (use w moved(4) in \<open>auto simp: wf_conn_def\<close>)
    with lk w moved show ?thesis by (simp add: wf_conn_def visible_messages_def)
  next
    case added
    with w show ?thesis
      by (auto simp: wf_conn_def visible_messages_def unique_by_append_iff label_key_def label_uid_key_def)
  qed
qed

lemma set_attachments_ident:
  "map mail_ident (messages (work (set_message_attachments k rows c))) = map mail_ident (messages (work c))"
  by (simp add: set_message_attachments_def map_update_where mail_ident_def)

lemma set_attachments_frame:
  "keeps_mail c (set_message_attachments k rows c)" "same_books c (set_message_attachments k rows c)"
  "wf_conn c \<Longrightarrow> wf_conn (set_message_attachments k rows c)"
proof -
  note id = set_attachments_ident [of k rows c]
  show "keeps_mail c (set_message_attachments k rows c)"
    using arg_cong [OF id, of set] by (simp add: keeps_mail_def) (simp add: set_message_attachments_def)
  show "same_books c (set_message_attachments k rows c)"
    by (simp add: same_books_def set_message_attachments_def)
  have vis: "map mail_ident (visible_messages (set_message_attachments k rows c)) = map mail_ident (visible_messages c)"
    using id by (simp add: visible_messages_def) (simp add: set_message_attachments_def)
  show "wf_conn (set_message_attachments k rows c)" if "wf_conn c"
    using that unique_keys_ident [OF vis] unique_ident_m_id [OF vis]
    by (simp add: wf_conn_def) (simp add: set_message_attachments_def)
qed

lemma store_attachments_frame:
  assumes "store_attachments env k atts c = (res, c')"
  shows "keeps_mail c c'" "same_books c c'" "wf_conn c \<Longrightarrow> wf_conn c'"
proof -
  obtain r st where w: "write_attachments (e_sha256 env) (\<lambda>path. e_fault env (WriteBlob path)) atts
      \<lparr>bs_tree = blob_tree c, bs_rows = blobs (work c)\<rparr> = (r, st)" by fastforce
  define c1 where "c1 = with_work (\<lambda>d. d\<lparr>blobs := bs_rows st\<rparr>) (c\<lparr>blob_tree := bs_tree st\<rparr>)"
  have c1: "keeps_mail c c1" "same_books c c1" "wf_conn c \<Longrightarrow> wf_conn c1"
    by (simp_all add: c1_def keeps_mail_def same_books_def wf_conn_def visible_messages_def)
  have "c' = c1 \<or> (\<exists>rows. c' = set_message_attachments k rows c1)"
    using assms w by (auto simp: store_attachments_def Let_def c1_def split: sum.splits)
  then show "keeps_mail c c'" "same_books c c'" "wf_conn c \<Longrightarrow> wf_conn c'"
    using c1 set_attachments_frame keeps_mail_trans same_books_trans by blast+
qed

lemmas message_frames = upsert_message_frame upsert_label_frame store_attachments_frame

lemma process_frame:
  assumes "process_one_message env acct mb uid raw flags idate c = (res, c')"
  shows "keeps_mail c c' \<and> same_books c c' \<and> (wf_conn c \<longrightarrow> wf_conn c')"
proof (cases "e_parse env raw")
  case (Inl e)
  with assms show ?thesis by (simp add: process_one_message_def)
next
  case (Inr p)
  obtain r1 c1 where u: "upsert_message env acct uid p idate c = (r1, c1)" by fastforce
  note f1 = upsert_message_frame [OF u]
  show ?thesis
  proof (cases r1)
    case (Inl e)
    with assms Inr u f1 show ?thesis by (simp add: process_one_message_def)
  next
    case r1: (Inr ki)
    obtain k ins where ki: "ki = (k, ins)" by fastforce
    obtain r2 c2 where l: "upsert_label k mb uid flags c1 = (r2, c2)" by fastforce
    obtain r3 c3 where s: "store_attachments env k (p_attachments p) c2 = (r3, c3)" by fastforce
    have "c' = c2 \<or> c' = c3"
      using assms Inr u r1 ki l s
      by (auto simp: process_one_message_def split: sum.splits option.splits if_splits)
    then show ?thesis
      using f1 upsert_label_frame [OF l] store_attachments_frame [OF s] keeps_mail_trans same_books_trans
      by blast
  qed
qed

subsection \<open>Archived mail\<close>

text \<open>
  \<open>raw\<close> is archived in a mailbox: it parses, and the row carrying its dedup key is among the
  visible messages and labelled in that mailbox.
\<close>

definition archived ::
  "sync_env \<Rightarrow> int \<Rightarrow> int \<Rightarrow> bytes \<Rightarrow> message_row list \<Rightarrow> label_row list \<Rightarrow> bool" where
  "archived env acct mb raw rows ls \<longleftrightarrow>
     (case e_parse env raw of
        Inl _ \<Rightarrow> False
      | Inr p \<Rightarrow> \<exists>r \<in> set rows. same_key acct (p_message_id p) (p_raw_sha256 p) r \<and>
                  (m_id r, mb) \<in> label_key ` set ls)"

lemma archived_mono:
  assumes "archived env acct mb raw rows ls"
    and "mail_ident ` set rows \<subseteq> mail_ident ` set rows'" "label_key ` set ls \<subseteq> label_key ` set ls'"
  shows "archived env acct mb raw rows' ls'"
proof (cases "e_parse env raw")
  case (Inr p)
  with assms(1) obtain r where r: "r \<in> set rows" "same_key acct (p_message_id p) (p_raw_sha256 p) r"
      "(m_id r, mb) \<in> label_key ` set ls"
    by (auto simp: archived_def)
  from r(1) assms(2) obtain r' where r': "r' \<in> set rows'" "mail_ident r' = mail_ident r"
    by (metis imageE imageI subsetD)
  then have "same_key acct (p_message_id p) (p_raw_sha256 p) r'" "m_id r' = m_id r"
    using r(2) same_key_ident [OF r'(2)] by (auto simp: mail_ident_def)
  with r r' assms(3) Inr show ?thesis
    unfolding archived_def by (auto intro!: bexI [of _ r'])
qed (use assms in \<open>simp add: archived_def\<close>)

lemma process_archives:
  assumes "process_one_message env acct mb uid raw flags idate c = (Inr ki, c')"
  shows "archived env acct mb raw (visible_messages c') (labels (work c'))"
proof -
  from assms obtain p where p: "e_parse env raw = Inr p"
    by (cases "e_parse env raw") (auto simp: process_one_message_def)
  obtain r1 c1 where u: "upsert_message env acct uid p idate c = (r1, c1)" by fastforce
  with assms p obtain k ins where r1: "r1 = Inr (k, ins)"
    by (cases r1) (auto simp: process_one_message_def)
  obtain r2 c2 where l: "upsert_label k mb uid flags c1 = (r2, c2)" by fastforce
  with assms p u r1 have r2: "r2 = Inr ()"
    by (cases r2) (auto simp: process_one_message_def)
  obtain r3 c3 where s: "store_attachments env k (p_attachments p) c2 = (r3, c3)" by fastforce
  have c': "c' = c2 \<or> c' = c3"
    using assms p u r1 l s by (auto simp: process_one_message_def split: sum.splits option.splits if_splits)
  from upsert_message_key [OF u [unfolded r1]] upsert_label_frame(3,5) [OF l] r2
  have "archived env acct mb raw (visible_messages c2) (labels (work c2))"
    using p by (force simp: archived_def label_key_def)
  moreover have "keeps_mail c2 c'"
    using c' store_attachments_frame(1) [OF s] by auto
  then have "mail_ident ` set (visible_messages c2) \<subseteq> mail_ident ` set (visible_messages c')"
    "label_key ` set (labels (work c2)) \<subseteq> label_key ` set (labels (work c'))"
    by (auto simp: keeps_mail_def visible_messages_def image_Un)
  ultimately show ?thesis by (rule archived_mono)
qed

lemma keeps_archived:
  assumes "keeps_mail c c'" "archived env acct mb raw (visible_messages c) (labels (work c))"
  shows "archived env acct mb raw (visible_messages c') (labels (work c'))"
  using assms(2) by (rule archived_mono) (use assms(1) in \<open>auto simp: keeps_mail_def visible_messages_def image_Un\<close>)
end
