(* ===== verification/SyncSafety.thy ===== *)
theory SyncSafety
  imports Sync
begin

text \<open>
  What a sync pass guarantees: no message is silently skipped. Every UID the server listed
  that lies below the committed watermark is accounted for, whatever interrupts the pass. The
  accounting is kept per UID (\<open>uid_step\<close>), per chunk and per commit, and holds for the
  committed tables at every moment, which is what survives a crash.
\<close>

subsection \<open>Accounting\<close>

definition served :: "imap_like \<Rightarrow> string \<Rightarrow> int \<Rightarrow> bytes \<Rightarrow> bool" where
  "served im name u raw \<longleftrightarrow>
     (\<exists>chunk fetched. im_fetch im name chunk = Inr fetched \<and> body_of fetched u = Some raw)"

definition tombstone :: "db \<Rightarrow> int \<Rightarrow> int \<Rightarrow> bool" where
  "tombstone d mb u \<longleftrightarrow> (\<exists>t \<in> set (fetches d). is_fetch mb u t \<and> t_gave_up_at t \<noteq> None)"

text \<open>
  Where a UID may have gone: archived, kept raw in \<open>failed_messages\<close>, recorded as given up on,
  or gone from the server when asked.
\<close>

definition accounted ::
  "sync_env \<Rightarrow> imap_like \<Rightarrow> int \<Rightarrow> mailbox_row \<Rightarrow> message_row list \<Rightarrow> db \<Rightarrow> int \<Rightarrow> bool" where
  "accounted env im acct mailbox rows d u \<longleftrightarrow>
     (\<exists>raw. served im (mb_name mailbox) u raw \<and>
            archived env acct (mb_id mailbox) raw rows (labels d)) \<or>
     (\<exists>f \<in> set (failed d). f_account f = acct \<and> f_mailbox f = mb_id mailbox \<and> f_uid f = u \<and>
            served im (mb_name mailbox) u (f_raw f)) \<or>
     tombstone d (mb_id mailbox) u \<or>
     im_search_uid im (mb_name mailbox) u = Inr []"

text \<open>
  The UIDs whose own record could not be written: the statement for \<open>failed_messages\<close> failed for another reason
  than contention, which \<open>sync.py\<close> logs and swallows, or one of the two statements on \<open>failed_fetches\<close> failed.
\<close>

definition record_lost :: "sync_env \<Rightarrow> int \<Rightarrow> bool" where
  "record_lost env u \<longleftrightarrow>
     e_fault env (Hold u) \<noteq> None \<or> e_fault env (GaveUp u) \<noteq> None \<or> e_fault env (FailLog u) \<notin> {None, Some Contention}"

subsection \<open>Tombstones survive\<close>

lemma tombstone_record: "tombstone d mb v \<Longrightarrow> tombstone (snd (record_attempt f n mb u d)) mb v"
  by (auto simp: tombstone_def record_attempt_def ex_update_where is_fetch_def split: option.splits)

lemma tombstone_mark: "tombstone d mb v \<Longrightarrow> tombstone (mark_gave_up f n mb u d) mb v"
  by (auto simp: tombstone_def mark_gave_up_def ex_update_where is_fetch_def split: option.splits)

lemma tombstone_clear: "u \<noteq> v \<Longrightarrow> tombstone d mb v \<Longrightarrow> tombstone (clear_attempts mb u d) mb v"
  by (auto simp: tombstone_def clear_attempts_def is_fetch_def)

lemma tombstone_reclaim: "tombstone d mb v \<Longrightarrow> tombstone (reclaim_below mb u d) mb v"
  by (auto simp: tombstone_def reclaim_below_def is_fetch_def)

lemma tombstone_made:
  "tombstone (mark_gave_up None n mb u (snd (record_attempt None n' mb u d))) mb u"
  using record_attempt_row [where mb = mb and u = u and n = n' and d = d]
  by (auto simp: tombstone_def mark_gave_up_def ex_update_where is_fetch_def)

lemma fetches_tombstone: "fetches d = fetches d' \<Longrightarrow> tombstone d mb u = tombstone d' mb u"
  by (simp add: tombstone_def)

subsection \<open>One UID\<close>

lemma accounted_keeps:
  assumes "accounted env im acct m (visible_messages c) (work c) v" "keeps_mail c c'" "same_books c c'"
  shows "accounted env im acct m (visible_messages c') (work c') v"
  using assms keeps_archived [OF assms(2)]
  by (auto simp: accounted_def same_books_def tombstone_def)

lemma accounted_fetches:
  assumes "accounted env im acct m (visible_messages c) (work c) v"
    and "labels d = labels (work c)" "messages d = messages (work c)" "failed d = failed (work c)"
    and "tombstone (work c) (mb_id m) v \<Longrightarrow> tombstone d (mb_id m) v"
  shows "accounted env im acct m (visible_messages (c\<lparr>work := d\<rparr>)) d v"
  using assms by (auto simp: accounted_def visible_messages_def)

definition held_by :: "pass_state \<Rightarrow> int \<Rightarrow> bool" where
  "held_by ps u \<longleftrightarrow> (\<exists>h. hold_at ps = Some h \<and> h \<le> u)"

lemma saw_simps [simp]:
  "hold_at (saw u ps) = hold_at ps" "held_attempts (saw u ps) = held_attempts ps"
  "highest_seen (saw u ps) = max (highest_seen ps) u"
  by (simp_all add: saw_def)

text \<open>What a step at \<open>u\<close> does to the accounting, in one predicate.\<close>

definition step_ok ::
  "sync_env \<Rightarrow> imap_like \<Rightarrow> int \<Rightarrow> mailbox_row \<Rightarrow> int \<Rightarrow> pass_state \<Rightarrow> conn \<Rightarrow> pass_state \<Rightarrow> conn \<Rightarrow> bool" where
  "step_ok env im acct m u ps c ps' c' \<longleftrightarrow>
     (\<forall>v. v \<noteq> u \<longrightarrow> accounted env im acct m (visible_messages c) (work c) v \<longrightarrow>
          accounted env im acct m (visible_messages c') (work c') v) \<and>
     (accounted env im acct m (visible_messages c') (work c') u \<or> record_lost env u \<or> held_by ps' u) \<and>
     (\<forall>v. held_by ps v \<longrightarrow> held_by ps' v) \<and>
     (highest_seen ps' = highest_seen ps \<or> highest_seen ps' = u)"

definition conn_frame :: "conn \<Rightarrow> conn \<Rightarrow> bool" where
  "conn_frame c c' \<longleftrightarrow> committed c' = committed c \<and> set (others c) \<subseteq> set (others c') \<and>
     mailboxes (work c') = mailboxes (work c) \<and> txn c' = txn c"

lemma conn_frame_refl [simp]: "conn_frame c c"
  by (simp add: conn_frame_def)

lemma conn_frame_trans: "conn_frame a b \<Longrightarrow> conn_frame b c \<Longrightarrow> conn_frame a c"
  by (auto simp: conn_frame_def)

lemma no_body_frame: "no_body_step env im m now u ps c = (ps', c') \<Longrightarrow> conn_frame c c'"
  by (auto simp: no_body_step_def conn_frame_def split: if_splits prod.splits
      dest!: arg_cong [where f = "\<lambda>p. mailboxes (snd p)"] simp: table_simps)

lemma no_body_ok:
  assumes "no_body_step env im m now u ps c = (ps', c')"
  shows "step_ok env im acct m u ps c ps' c'"
proof -
  let ?n = "e_clock env (txn c)"
  obtain hold d where rec: "record_attempt (e_fault env (Hold u)) ?n (mb_id m) u (work c) = (hold, d)"
    by fastforce
  then have d: "d = snd (record_attempt (e_fault env (Hold u)) ?n (mb_id m) u (work c))" by simp
  let ?d' = "mark_gave_up (e_fault env (GaveUp u)) ?n (mb_id m) u d"
  have same: "labels d = labels (work c)" "messages d = messages (work c)" "failed d = failed (work c)"
    by (simp_all add: d table_simps)
  consider (gone) "\<not> uid_still_on_server im u (mb_name m)" "ps' = saw u (ps\<lparr>seen := seen ps + 1\<rparr>)" "c' = c"
    | (gave_up) "c' = c\<lparr>work := ?d'\<rparr>" "ps' = saw u (ps\<lparr>emptying := True, seen := seen ps + 1\<rparr>)"
    | (held) "c' = c\<lparr>work := d\<rparr>" "highest_seen ps' = highest_seen ps"
        "hold_at ps' = Some (case hold_at ps of None \<Rightarrow> u | Some h \<Rightarrow> min h u)"
    using assms(1) rec by (auto simp: no_body_step_def split: if_splits)
  then show ?thesis
  proof cases
    case gone
    then have "im_search_uid im (mb_name m) u = Inr []"
      by (simp add: uid_still_on_server_def split: sum.splits)
    with gone show ?thesis by (auto simp: step_ok_def accounted_def held_by_def)
  next
    case gave_up
    have keep: "accounted env im acct m (visible_messages c') (work c') v"
      if "accounted env im acct m (visible_messages c) (work c) v" for v
      using accounted_fetches [OF that, of ?d'] gave_up(1) tombstone_mark tombstone_record same
      by (simp add: d table_simps)
    have "accounted env im acct m (visible_messages c') (work c') u \<or> record_lost env u"
    proof (cases "e_fault env (Hold u) = None \<and> e_fault env (GaveUp u) = None")
      case True
      then show ?thesis using gave_up(1) tombstone_made by (simp add: accounted_def d)
    qed (auto simp: record_lost_def)
    with keep gave_up(2) show ?thesis by (auto simp: step_ok_def held_by_def)
  next
    case held
    have keep: "accounted env im acct m (visible_messages c') (work c') v"
      if "accounted env im acct m (visible_messages c) (work c) v" for v
      using accounted_fetches [OF that, of d] held(1) tombstone_record same
      by (simp add: d table_simps)
    with held show ?thesis by (auto simp: step_ok_def held_by_def split: option.splits)
  qed
qed

lemma record_failed_cases:
  assumes "record_failed_message env acct mb u raw exc c = (r, c')"
  obtains (logged) "e_fault env (FailLog u) = None" "r = None"
      "\<exists>f \<in> set (failed (work c')). f_account f = acct \<and> f_mailbox f = mb \<and> f_uid f = u \<and> f_raw f = raw"
      "\<And>f. f \<in> set (failed (work c)) \<Longrightarrow> f_account f = acct \<and> f_mailbox f = mb \<longrightarrow> f_uid f \<noteq> u \<Longrightarrow>
         f \<in> set (failed (work c'))"
  | (contended) "r = Some Contention" "c' = c"
  | (swallowed) e where "e_fault env (FailLog u) = Some e" "e \<noteq> Contention" "r = None" "c' = c"
proof (cases "e_fault env (FailLog u)")
  case (Some e)
  with assms contended swallowed show thesis
    by (cases "e = Contention") (simp_all add: record_failed_message_def)
next
  case None
  have "r = None"
    "\<exists>f \<in> set (failed (work c')). f_account f = acct \<and> f_mailbox f = mb \<and> f_uid f = u \<and> f_raw f = raw"
    using assms None by (auto simp: record_failed_message_def Let_def ex_update_where split: if_splits)
  moreover have "f \<in> set (failed (work c'))"
    if "f \<in> set (failed (work c))" "f_account f = acct \<and> f_mailbox f = mb \<longrightarrow> f_uid f \<noteq> u" for f
    using assms None that
    by (auto simp: record_failed_message_def Let_def set_update_where image_iff intro!: bexI [of _ f] split: if_splits)
  ultimately show thesis by (intro logged [OF None]) auto
qed

lemma record_failed_frame:
  "record_failed_message env acct mb u raw exc c = (r, c') \<Longrightarrow>
   conn_frame c c' \<and> keeps_mail c c' \<and> fetches (work c') = fetches (work c)"
  by (auto simp: record_failed_message_def Let_def conn_frame_def keeps_mail_def split: option.splits if_splits)

lemma record_failed_accounts:
  assumes "record_failed_message env acct (mb_id m) u raw exc c = (None, c')" "served im (mb_name m) u raw"
  shows "accounted env im acct m (visible_messages c') (work c') u \<or> record_lost env u"
    "v \<noteq> u \<Longrightarrow> accounted env im acct m (visible_messages c) (work c) v \<Longrightarrow>
     accounted env im acct m (visible_messages c') (work c') v"
proof -
  from assms(1) have logged:
      "(\<exists>f \<in> set (failed (work c')). f_account f = acct \<and> f_mailbox f = mb_id m \<and> f_uid f = u \<and> f_raw f = raw) \<or>
       record_lost env u"
    and kept: "f \<in> set (failed (work c))\<Longrightarrow> f_account f = acct \<and> f_mailbox f = mb_id m \<longrightarrow> f_uid f \<noteq> u \<Longrightarrow>
         f \<in> set (failed (work c'))" for f
    by (cases rule: record_failed_cases; auto simp: record_lost_def)+
  from logged assms(2) show "accounted env im acct m (visible_messages c') (work c') u \<or> record_lost env u"
    by (auto simp: accounted_def)
  note fr = record_failed_frame [OF assms(1)]
  have tomb: "tombstone (work c') mb v = tombstone (work c) mb v" for mb
    using fr by (simp add: tombstone_def)
  show "accounted env im acct m (visible_messages c') (work c') v"
    if "v \<noteq> u" "accounted env im acct m (visible_messages c) (work c) v"
    using that(2) unfolding accounted_def tomb
    using keeps_archived [of c c' env acct "mb_id m"] fr kept that(1) by blast
qed

lemma body_frame:
  assumes "body_step env acct m u raw it ps c = (r, c')"
  shows "conn_frame c c'"
proof -
  define c0 where "c0 = (if u \<in> fst ` set (held_attempts ps) then with_work (clear_attempts (mb_id m) u) c else c)"
  have c0: "conn_frame c c0" by (simp add: c0_def conn_frame_def table_simps)
  obtain r1 c1 where p: "process_one_message env acct (mb_id m) u raw (fi_flags it)
      (aware_internal_date (fi_internaldate it)) c0 = (r1, c1)" by fastforce
  from process_frame [OF p] have c1: "conn_frame c0 c1" "conn_frame c0 (rollback_to (work c0) c1)"
    by (auto simp: conn_frame_def same_books_def keeps_mail_def)
  have "c' = c \<or> c' = c1 \<or> c' = rollback_to (work c0) c1 \<or>
      (\<exists>e r. record_failed_message env acct (mb_id m) u raw e (rollback_to (work c0) c1) = (r, c'))"
    using assms p unfolding body_step_def Let_def c0_def [symmetric]
    by (cases r1) (fastforce split: if_splits prod.splits option.splits)+
  then show ?thesis
    using c0 c1 record_failed_frame conn_frame_trans conn_frame_refl by metis
qed

lemma body_ok:
  assumes run: "body_step env acct m u raw it ps c = (Inr ps', c')"
    and "served im (mb_name m) u raw"
  shows "step_ok env im acct m u ps c ps' c'"
proof -
  define c0 where "c0 = (if u \<in> fst ` set (held_attempts ps) then with_work (clear_attempts (mb_id m) u) c else c)"
  have c0: "accounted env im acct m (visible_messages c0) (work c0) v"
    if "v \<noteq> u" "accounted env im acct m (visible_messages c) (work c) v" for v
    using that accounted_fetches [OF that(2), of "clear_attempts (mb_id m) u (work c)"] tombstone_clear [of u v]
    by (simp add: c0_def table_simps with_work_def)
  obtain r1 c1 where p: "process_one_message env acct (mb_id m) u raw (fi_flags it)
      (aware_internal_date (fi_internaldate it)) c0 = (r1, c1)" by fastforce
  let ?c2 = "rollback_to (work c0) c1"
  note fr = process_frame [OF p]
  have ps': "hold_at ps' = hold_at ps" "highest_seen ps' = highest_seen ps \<or> highest_seen ps' = u"
    using run p unfolding body_step_def Let_def c0_def [symmetric]
    by (cases r1; auto split: if_splits prod.splits option.splits)+
  consider (stored) ki where "r1 = Inr ki" "c' = c1"
    | (poison) e where "record_failed_message env acct (mb_id m) u raw e ?c2 = (None, c')"
    using run p unfolding body_step_def Let_def c0_def [symmetric]
    by (cases r1) (auto split: if_splits prod.splits option.splits)
  then show ?thesis
  proof cases
    case stored
    have "accounted env im acct m (visible_messages c') (work c') u"
      using process_archives [OF p [unfolded stored(1)]] stored(2) assms(2) by (auto simp: accounted_def)
    moreover have "accounted env im acct m (visible_messages c') (work c') v"
      if "v \<noteq> u" "accounted env im acct m (visible_messages c) (work c) v" for v
      using accounted_keeps [OF c0 [OF that]] fr stored(2) by simp
    ultimately show ?thesis using ps' by (auto simp: step_ok_def held_by_def)
  next
    case poison
    have c2: "keeps_mail c0 ?c2" "same_books c0 ?c2"
      using fr by (auto simp: keeps_mail_def same_books_def)
    note rf = record_failed_accounts [OF poison assms(2)]
    have "accounted env im acct m (visible_messages c') (work c') v"
      if "v \<noteq> u" "accounted env im acct m (visible_messages c) (work c) v" for v
      using rf(2) [OF that(1)] accounted_keeps [OF c0 [OF that] c2] by simp
    with rf(1) show ?thesis using ps' by (auto simp: step_ok_def held_by_def)
  qed
qed

lemma uid_step_frame: "uid_step env im acct m now fetched u ps c = (r, c') \<Longrightarrow> conn_frame c c'"
  by (auto simp: uid_step_def split: option.splits prod.splits intro: body_frame no_body_frame)

lemma uid_step_ok:
  assumes "uid_step env im acct m now fetched u ps c = (Inr ps', c')"
    and "im_fetch im (mb_name m) chunk = Inr fetched"
  shows "step_ok env im acct m u ps c ps' c'"
proof (cases "body_of fetched u")
  case None
  with assms show ?thesis by (auto simp: uid_step_def split: prod.splits intro: no_body_ok)
next
  case (Some raw)
  then have "served im (mb_name m) u raw" using assms(2) by (auto simp: served_def)
  with Some assms show ?thesis by (auto simp: uid_step_def intro: body_ok)
qed

subsection \<open>A chunk and its checkpoint\<close>

definition pass_inv ::
  "sync_env \<Rightarrow> imap_like \<Rightarrow> int \<Rightarrow> mailbox_row \<Rightarrow> int \<Rightarrow> int set \<Rightarrow> pass_state \<Rightarrow> conn \<Rightarrow> bool" where
  "pass_inv env im acct m start done ps c \<longleftrightarrow>
     (\<forall>v \<in> done. accounted env im acct m (visible_messages c) (work c) v \<or> record_lost env v \<or> held_by ps v) \<and>
     (highest_seen ps = start - 1 \<or> highest_seen ps \<in> done)"

definition committed_safe ::
  "sync_env \<Rightarrow> imap_like \<Rightarrow> int \<Rightarrow> mailbox_row \<Rightarrow> int set \<Rightarrow> conn \<Rightarrow> bool" where
  "committed_safe env im acct m candidates c \<longleftrightarrow>
     (\<forall>m' \<in> set (mailboxes (committed c)). \<forall>w. mb_id m' = mb_id m \<longrightarrow> mb_uidnext m' = Some w \<longrightarrow>
        (\<forall>u \<in> candidates. u < w \<longrightarrow>
           accounted env im acct m (messages (committed c) @ others c) (committed c) u \<or> record_lost env u))"

lemma accounted_more_rows:
  "accounted env im acct m rows d u \<Longrightarrow> set rows \<subseteq> set rows' \<Longrightarrow> accounted env im acct m rows' d u"
  using archived_mono [of env acct "mb_id m" _ rows "labels d" rows' "labels d"]
    image_mono [of "set rows" "set rows'" mail_ident]
  unfolding accounted_def by blast

lemma committed_safe_frame:
  "committed_safe env im acct m cs c \<Longrightarrow> conn_frame c c' \<Longrightarrow> committed_safe env im acct m cs c'"
  unfolding committed_safe_def conn_frame_def
  by (metis accounted_more_rows set_append Un_mono subset_refl)

lemma pass_inv_step:
  assumes "pass_inv env im acct m start done ps c" "step_ok env im acct m u ps c ps' c'"
  shows "pass_inv env im acct m start (insert u done) ps' c'"
  using assms unfolding pass_inv_def step_ok_def by (metis insert_iff)

lemma sync_uids_frame: "sync_uids env im acct m now fetched us ps c = (r, c') \<Longrightarrow> conn_frame c c'"
proof (induction us arbitrary: ps c)
  case (Cons u us)
  obtain r1 c1 where s: "uid_step env im acct m now fetched u ps c = (r1, c1)" by fastforce
  with Cons show ?case
    using uid_step_frame [OF s] by (cases r1) (auto intro: conn_frame_trans)
qed simp

lemma sync_uids_inv:
  assumes "im_fetch im (mb_name m) chunk = Inr fetched"
    and "sync_uids env im acct m now fetched us ps c = (Inr ps', c')"
    and "pass_inv env im acct m start done ps c"
  shows "pass_inv env im acct m start (done \<union> set us) ps' c'"
  using assms(2,3)
proof (induction us arbitrary: ps c "done")
  case (Cons u us)
  obtain r1 c1 where s: "uid_step env im acct m now fetched u ps c = (r1, c1)" by fastforce
  with Cons.prems obtain ps1 where r1: "r1 = Inr ps1"
    and rest: "sync_uids env im acct m now fetched us ps1 c1 = (Inr ps', c')"
    by (cases r1) auto
  have "pass_inv env im acct m start (insert u done) ps1 c1"
    by (rule pass_inv_step [OF Cons.prems(2) uid_step_ok [OF s [unfolded r1] assms(1)]])
  from Cons.IH [OF rest this] show ?case by simp
qed simp

lemma checkpoint_chunk_inv:
  assumes "checkpoint_chunk env m uv ps c = (r, c')"
    and inv: "pass_inv env im acct m start done ps c"
    and cands: "\<And>u. u \<in> cs \<Longrightarrow> start \<le> u \<and> (u \<in> done \<or> (\<forall>p \<in> done. p \<le> u))"
    and safe: "committed_safe env im acct m cs c"
  shows "committed_safe env im acct m cs c'" "r = Inr ps' \<Longrightarrow> pass_inv env im acct m start done ps' c'"
proof -
  let ?w = "checkpoint_uidnext (highest_seen ps) (hold_at ps)"
  let ?f = "\<lambda>d. reclaim_below (mb_id m) ?w (update_mailbox_progress (mb_id m) uv ?w (Some (e_wall env (txn c))) d)"
  have acc: "accounted env im acct m (visible_messages c) (?f (work c)) v"
    if "accounted env im acct m (visible_messages c) (work c) v" for v
    using that tombstone_reclaim [of "work c" "mb_id m" v ?w]
    by (auto simp: accounted_def table_simps update_mailbox_progress_def tombstone_def reclaim_below_def)
  have vis: "messages (?f (work c)) = messages (work c)"
    by (simp add: table_simps update_mailbox_progress_def)
  have row: "w = ?w" if "m' \<in> set (mailboxes (?f (work c)))" "mb_id m' = mb_id m" "mb_uidnext m' = Some w" for m' w
    using that by (auto simp: table_simps update_mailbox_progress_def set_update_where)
  have below: "accounted env im acct m (visible_messages c) (work c) u \<or> record_lost env u" if "u \<in> cs" "u < ?w" for u
  proof -
    have "u \<le> highest_seen ps" using that(2) checkpoint_le [of "highest_seen ps" "hold_at ps"] by simp
    with cands [OF that(1)] inv have "u \<in> done" by (force simp: pass_inv_def)
    moreover have "\<not> held_by ps u"
    proof
      assume "held_by ps u"
      then obtain h where "hold_at ps = Some h" "h \<le> u" by (auto simp: held_by_def)
      with that(2) checkpoint_le_hold [of "highest_seen ps" h] show False by simp
    qed
    ultimately show ?thesis using inv by (auto simp: pass_inv_def)
  qed
  show "committed_safe env im acct m cs c'"
  proof (cases "e_fault env (Checkpoint ?w)")
    case None
    with assms(1) have c': "c' = commit (with_work ?f c)" by (simp add: checkpoint_chunk_def Let_def)
    show ?thesis
      unfolding committed_safe_def c' using row below acc vis
      by (auto simp: visible_messages_def)
  next
    case (Some e)
    with assms(1) safe show ?thesis by (simp add: checkpoint_chunk_def Let_def)
  qed
  show "pass_inv env im acct m start done ps' c'" if "r = Inr ps'"
    using assms(1) that inv acc vis
    by (auto simp: checkpoint_chunk_def Let_def pass_inv_def visible_messages_def split: option.splits)
qed

lemma sync_chunks_safe:
  assumes "sorted all" and "\<And>u. u \<in> set all \<Longrightarrow> start \<le> u"
    and "sync_chunks env im acct m now uv chunks ps c = (r, c')"
    and "all = done @ concat chunks @ rest"
    and "pass_inv env im acct m start (set done) ps c"
    and "committed_safe env im acct m (set all) c"
  shows "committed_safe env im acct m (set all) c'"
  using assms(3-6)
proof (induction chunks arbitrary: ps c "done")
  case (Cons chunk chunks)
  obtain r1 c1 where s: "sync_chunk env im acct m now uv chunk ps c = (r1, c1)" by fastforce
  show ?case
  proof (cases "im_fetch im (mb_name m) chunk")
    case (Inl e)
    with Cons.prems s show ?thesis by (auto simp: sync_chunk_def)
  next
    case (Inr fetched)
    obtain r2 c2 where u: "sync_uids env im acct m now fetched chunk ps c = (r2, c2)" by fastforce
    have safe2: "committed_safe env im acct m (set all) c2"
      using committed_safe_frame [OF Cons.prems(4) sync_uids_frame [OF u]] .
    show ?thesis
    proof (cases r2)
      case (Inl e)
      with Cons.prems(1) s u Inr safe2 show ?thesis by (auto simp: sync_chunk_def)
    next
      case r2: (Inr ps2)
      have inv2: "pass_inv env im acct m start (set (done @ chunk)) ps2 c2"
        using sync_uids_inv [OF Inr u [unfolded r2] Cons.prems(3)] by simp
      have ck: "checkpoint_chunk env m uv ps2 c2 = (r1, c1)"
        using s Inr u r2 by (simp add: sync_chunk_def)
      have all: "all = (done @ chunk) @ concat chunks @ rest" using Cons.prems(2) by simp
      have cands: "start \<le> v \<and> (v \<in> set (done @ chunk) \<or> (\<forall>p \<in> set (done @ chunk). p \<le> v))" if "v \<in> set all" for v
      proof (cases "v \<in> set (done @ chunk)")
        case False
        with that all have "v \<in> set (concat chunks @ rest)" by auto
        with assms(1) [unfolded all sorted_append [of "done @ chunk"]] assms(2) [OF that] show ?thesis by blast
      qed (use assms(2) [OF that] in simp)
      have ck': "committed_safe env im acct m (set all) c1"
        "r1 = Inr ps1 \<Longrightarrow> pass_inv env im acct m start (set (done @ chunk)) ps1 c1" for ps1
        using checkpoint_chunk_inv [OF ck inv2 _ safe2] cands by blast+
      show ?thesis
      proof (cases r1)
        case (Inl e)
        with Cons.prems(1) s ck'(1) show ?thesis by simp
      next
        case (Inr ps1)
        with Cons.prems(1) s have "sync_chunks env im acct m now uv chunks ps1 c1 = (r, c')" by simp
        from Cons.IH [OF this all ck'(2) [OF Inr] ck'(1)] show ?thesis .
      qed
    qed
  qed
qed simp

subsection \<open>A pass\<close>

lemma candidates_sorted: "candidate_uids im m full = Inr uids \<Longrightarrow> sorted uids"
  by (auto simp: candidate_uids_def filter_new_uids_def Let_def map_sum_def split: if_splits sum.splits)

lemma candidates_from: "candidate_uids im m False = Inr uids \<Longrightarrow> u \<in> set uids \<Longrightarrow> int_or (mb_uidnext m) 1 \<le> u"
  by (auto simp: candidate_uids_def filter_new_uids_def Let_def map_sum_def split: sum.splits)

lemma limit_uids_take: "\<exists>n. limit_uids k uids = take n uids"
proof (cases k)
  case None
  then show ?thesis by (intro exI [of _ "length uids"]) (simp add: limit_uids_def)
next
  case (Some i)
  then show ?thesis
    by (cases "i < int (length uids)")
       (auto simp: limit_uids_def intro: exI [of _ "length uids"])
qed

lemma limit_uids_nonempty: "(\<And>n. k = Some n \<Longrightarrow> 0 < n) \<Longrightarrow> uids \<noteq> [] \<Longrightarrow> limit_uids k uids \<noteq> []"
  by (auto simp: limit_uids_def split: option.splits)

lemma int_or_one_ge: "w \<le> int_or (Some w) 1"
  by (simp add: int_or_def)

lemma start_inv: "pass_inv env im acct m (int_or (mb_uidnext m) 1) {} (start_state m d) c"
  by (simp add: pass_inv_def start_state_def)

text \<open>
  C1. No message is silently skipped. Whatever way a sync pass ends (it returns, the server
  refuses a command, a statement fails, another session holds a lock), in the committed
  tables every UID the server listed for the pass that lies below the committed watermark is
  archived and labelled in the mailbox, or kept raw in \<open>failed_messages\<close>, or recorded as given
  up on, or was gone from the server when it was asked for; the one exception is a UID whose own entry in
  \<open>failed_messages\<close> or \<open>failed_fetches\<close> could not be written, a failure the code logs and goes on from. This is for a
  mailbox whose UIDVALIDITY the pass finds unchanged, or that was never synced, and for a positive per-folder limit.
\<close>

theorem sync_no_silent_loss:
  assumes run: "sync_mailbox env im acct m max_messages c = (r, c')"
    and fresh: "committed c = work c" "unique_by mb_id (mailboxes (work c))" "m \<in> set (mailboxes (work c))"
    and sel: "im_select im (mb_name m) = Inr (uv, next)"
    and cand: "candidate_uids im m (mb_uidvalidity m \<noteq> Some (int_or uv 0)) = Inr uids"
    and stable: "mb_uidvalidity m = Some (int_or uv 0) \<or> mb_uidvalidity m = None \<and> mb_uidnext m = None"
    and pos: "\<And>v. v \<in> set uids \<Longrightarrow> 0 < v"
    and limit: "\<And>n. max_messages = Some n \<Longrightarrow> 0 < n"
    and u: "u \<in> set uids" "m' \<in> set (mailboxes (committed c'))" "mb_id m' = mb_id m"
      "mb_uidnext m' = Some w" "u < w"
  shows "accounted env im acct m (messages (committed c') @ others c') (committed c') u \<or> record_lost env u"
proof -
  let ?start = "int_or (mb_uidnext m) 1"
  have resync: "begin_resync m (mb_uidvalidity m \<noteq> Some (int_or uv 0)) c = c"
    using stable by (auto simp: begin_resync_def)
  have start: "?start \<le> v" if "v \<in> set uids" for v
    using stable pos [OF that] candidates_from [of im m uids v] cand that by auto
  have safe: "committed_safe env im acct m (set uids) c"
  proof -
    have "\<not> v < x" if "m1 \<in> set (mailboxes (committed c))" "mb_id m1 = mb_id m" "mb_uidnext m1 = Some x"
      "v \<in> set uids" for m1 x v
    proof -
      have "m1 = m" using unique_byD [OF fresh(2) _ fresh(3)] that(1,2) fresh(1) by simp
      with that(3) start [OF that(4)] int_or_one_ge [of x] show ?thesis by simp
    qed
    then show ?thesis by (auto simp: committed_safe_def)
  qed
  obtain k where k: "limit_uids max_messages uids = take k uids" using limit_uids_take by blast
  from u(1) have "uids \<noteq> []" by auto
  with limit have ne: "limit_uids max_messages uids \<noteq> []" by (intro limit_uids_nonempty)
  obtain r2 c2 where ch: "sync_chunks env im acct m (e_clock env (txn c)) (int_or uv 0)
      (batches batch_size (limit_uids max_messages uids)) (start_state m (work c)) c = (r2, c2)" by fastforce
  have c': "c' = c2"
    using run sel cand ne ch by (auto simp: sync_mailbox_def resync Let_def split: sum.splits)
  have split: "uids = [] @ concat (batches batch_size (limit_uids max_messages uids)) @ drop k uids"
    by (simp add: concat_batches k batch_size_def)
  have "committed_safe env im acct m (set uids) c'"
    unfolding c' using start start_inv
    by (intro sync_chunks_safe [OF candidates_sorted [OF cand] _ ch split _ safe]) auto
  then show ?thesis using u by (auto simp: committed_safe_def)
qed

subsection \<open>A small mailbox\<close>

text \<open>
  A concrete mailbox for the witnesses: messages are their own Message-Id, the server holds
  UIDs 3 and 4 of an INBOX last synced up to UID 2, and UID 4 has no body.
\<close>

definition sample_parsed :: "bytes \<Rightarrow> parsed_message" where
  "sample_parsed raw =
     \<lparr>p_message_id = Some raw, p_raw_sha256 = raw, p_in_reply_to = None, p_refs = [], p_subject = None,
      p_from_addr = None, p_from_name = None, p_to_addrs = [], p_cc_addrs = [], p_bcc_addrs = [],
      p_date_sent = None, p_headers = [], p_body_text = None, p_body_html = None, p_raw_bytes = raw,
      p_size_bytes = int (length raw), p_attachments = []\<rparr>"

definition sample_env :: sync_env where
  "sample_env = \<lparr>e_parse = (\<lambda>raw. Inr (sample_parsed raw)), e_sha256 = (\<lambda>raw. raw),
     e_fault = (\<lambda>_. None), e_race = (\<lambda>_ _. []), e_clock = (\<lambda>n. int n), e_wall = (\<lambda>n. int n),
     e_max_hold = 100\<rparr>"

definition sample_item :: "bytes option \<Rightarrow> fetch_item" where
  "sample_item body = \<lparr>fi_body = body, fi_flags = [], fi_internaldate = Aware 0\<rparr>"

definition sample_imap :: imap_like where
  "sample_imap = \<lparr>im_list_folders = Inr [([], None, ''INBOX'')],
     im_select = (\<lambda>_. Inr (Some 7, Some 5)), im_search_all = (\<lambda>_. Inr [3, 4]),
     im_search_from = (\<lambda>_ _. Inr [4, 3]), im_search_uid = (\<lambda>_ u. Inr (if u = 4 then [4] else [])),
     im_fetch = (\<lambda>_ us. Inr (map (\<lambda>u. (u, sample_item (if u = 3 then Some ''m3'' else None))) us))\<rparr>"

definition sample_mailbox :: mailbox_row where
  "sample_mailbox = \<lparr>mb_id = 1, mb_account = 1, mb_name = ''INBOX'', mb_delimiter = None, mb_flags = [],
     mb_uidvalidity = Some 7, mb_uidnext = Some 3, mb_last_sync_at = None\<rparr>"

definition sample_db :: db where
  "sample_db = \<lparr>accounts = [\<lparr>a_id = 1, a_name = ''me'', a_auth_method = ''password''\<rparr>],
     mailboxes = [sample_mailbox], messages = [], labels = [], failed = [], fetches = [], blobs = []\<rparr>"

definition sample_conn :: conn where
  "sample_conn = \<lparr>work = sample_db, committed = sample_db, others = [], msg_seq = 1, failed_seq = 1,
     mailbox_seq = 2, blob_tree = [], txn = 0\<rparr>"

lemmas sample_defs = sample_parsed_def sample_env_def sample_item_def sample_imap_def sample_mailbox_def
  sample_db_def sample_conn_def

lemma sample_run:
  "map (\<lambda>m. (mb_id m, mb_uidnext m))
     (mailboxes (committed (snd (sync_mailbox sample_env sample_imap 1 sample_mailbox None sample_conn)))) =
   [(1, Some 4)]"
  by code_simp

abbreviation sample_end :: conn where
  "sample_end \<equiv> snd (sync_mailbox sample_env sample_imap 1 sample_mailbox None sample_conn)"

theorem sync_no_silent_loss_witness:
  "accounted sample_env sample_imap 1 sample_mailbox (messages (committed sample_end) @ others sample_end)
     (committed sample_end) 3"
proof -
  obtain m' where m': "m' \<in> set (mailboxes (committed sample_end))" "mb_id m' = 1" "mb_uidnext m' = Some 4"
    using sample_run by (auto simp: map_eq_Cons_conv)
  have "accounted sample_env sample_imap 1 sample_mailbox (messages (committed sample_end) @ others sample_end)
      (committed sample_end) 3 \<or> record_lost sample_env 3"
  proof (rule sync_no_silent_loss)
    show "sync_mailbox sample_env sample_imap 1 sample_mailbox None sample_conn =
        (fst (sync_mailbox sample_env sample_imap 1 sample_mailbox None sample_conn), sample_end)" by simp
    show "im_select sample_imap (mb_name sample_mailbox) = Inr (Some 7, Some 5)" by (simp add: sample_defs)
    show "candidate_uids sample_imap sample_mailbox (mb_uidvalidity sample_mailbox \<noteq> Some (int_or (Some 7) 0))
        = Inr [3, 4]" by code_simp
    show "m' \<in> set (mailboxes (committed sample_end))" by (rule m')
    show "mb_uidnext m' = Some 4" by (rule m')
  qed (use m' in \<open>auto simp: sample_defs unique_by_def\<close>)
  then show ?thesis by (simp add: record_lost_def sample_env_def)
qed

subsection \<open>The hold is bounded\<close>

lemma find_fetch_row:
  assumes "t \<in> set (fetches d)" "is_fetch mb u t" "unique_by fetch_key (fetches d)"
  shows "find (is_fetch mb u) (fetches d) = Some t"
proof -
  obtain t' where t': "find (is_fetch mb u) (fetches d) = Some t'"
    using assms(1,2) by (cases "find (is_fetch mb u) (fetches d)") (auto simp: find_None_conv)
  have "t' = t"
    by (rule find_unique [OF t' assms(1,2)])
       (rule unique_byD [OF assms(3)], auto simp: fetch_key_def is_fetch_def)
  with t' show ?thesis by simp
qed

text \<open>
  C4. The resume point cannot be pinned forever. When a message that keeps coming back without
  a body was first seen without one at least the hold window ago, the step at its UID completes
  without holding, if the statement that counts the attempt succeeds (the code holds once more when it fails):
  the pass moves past it, and the server says it is gone, or it is recorded as given up on, where
  \<open>list-failed-fetches\<close> finds it, or writing that stamp failed, which the code only logs; its row of attempts
  is then left as it was counted. Only the statements of that UID matter, whatever else fails.
\<close>

theorem hold_is_bounded:
  assumes "uid_step env im acct m now fetched u ps c = (r, c')" "body_of fetched u = None"
    and "e_fault env (Hold u) = None"
    and "t \<in> set (fetches (work c))" "is_fetch (mb_id m) u t" "unique_by fetch_key (fetches (work c))"
    and "t_first_seen_at t + e_max_hold env \<le> now"
  shows "\<exists>ps'. r = Inr ps' \<and> hold_at ps' = hold_at ps \<and> u \<le> highest_seen ps' \<and>
    (tombstone (work c') (mb_id m) u \<or> im_search_uid im (mb_name m) u = Inr [] \<or>
     e_fault env (GaveUp u) \<noteq> None \<and> (\<exists>t' \<in> set (fetches (work c')). is_fetch (mb_id m) u t' \<and> t_attempt_count t' = t_attempt_count t + 1))"
proof -
  let ?n = "e_clock env (txn c)"
  obtain hold d where rec: "record_attempt None ?n (mb_id m) u (work c) = (hold, d)" by fastforce
  have found: "find (is_fetch (mb_id m) u) (fetches (work c)) = Some t"
    by (rule find_fetch_row [OF assms(4-6)])
  have "first_seen_at hold = t_first_seen_at t" using rec found by (auto simp: record_attempt_def)
  with assms(7) have exp: "hold_expired (first_seen_at hold) now (e_max_hold env)"
    by (simp add: hold_expired_def)
  have made: "tombstone (mark_gave_up None n (mb_id m) u d) (mb_id m) u" for n
    using tombstone_made [where d = "work c" and n' = ?n] rec by (metis snd_conv)
  have counted: "\<exists>t' \<in> set (fetches d). is_fetch (mb_id m) u t' \<and> t_attempt_count t' = t_attempt_count t + 1"
    using rec found assms(4,5) by (auto simp: record_attempt_def ex_update_where is_fetch_def)
  show ?thesis
  proof (cases "e_fault env (GaveUp u)")
    case None
    then show ?thesis using assms(1-3) rec exp made
      by (auto simp: uid_step_def no_body_step_def uid_still_on_server_def split: if_splits sum.splits)
  next
    case (Some e)
    then show ?thesis using assms(1-3) rec exp counted
      by (auto simp: uid_step_def no_body_step_def uid_still_on_server_def mark_gave_up_def split: if_splits sum.splits)
  qed
qed

text \<open>A UID held since instant 0, looked at again after the window of 100.\<close>

definition sample_held :: conn where
  "sample_held = sample_conn\<lparr>work := sample_db\<lparr>fetches :=
     [\<lparr>t_mailbox = 1, t_uid = 4, t_attempt_count = 3, t_first_seen_at = 0, t_last_seen_at = 50,
       t_gave_up_at = None\<rparr>]\<rparr>\<rparr>"

theorem hold_is_bounded_witness:
  "\<exists>ps'. fst (uid_step sample_env sample_imap 1 sample_mailbox 100 [] 4
             (start_state sample_mailbox (work sample_held)) sample_held) = Inr ps' \<and>
     hold_at ps' = None \<and> 4 \<le> highest_seen ps' \<and>
     (tombstone (work (snd (uid_step sample_env sample_imap 1 sample_mailbox 100 [] 4
             (start_state sample_mailbox (work sample_held)) sample_held))) 1 4 \<or>
      im_search_uid sample_imap ''INBOX'' 4 = Inr [])"
proof -
  let ?run = "uid_step sample_env sample_imap 1 sample_mailbox 100 [] 4
             (start_state sample_mailbox (work sample_held)) sample_held"
  have "\<exists>ps'. fst ?run = Inr ps' \<and> hold_at ps' = hold_at (start_state sample_mailbox (work sample_held)) \<and>
     4 \<le> highest_seen ps' \<and> (tombstone (work (snd ?run)) (mb_id sample_mailbox) 4 \<or>
       im_search_uid sample_imap (mb_name sample_mailbox) 4 = Inr [] \<or>
       e_fault sample_env (GaveUp 4) \<noteq> None \<and> (\<exists>t' \<in> set (fetches (work (snd ?run))). is_fetch (mb_id sample_mailbox) 4 t' \<and>
         t_attempt_count t' = t_attempt_count (hd (fetches (work sample_held))) + 1))"
    by (rule hold_is_bounded [where t = "hd (fetches (work sample_held))"])
       (auto simp: body_of_def sample_held_def sample_defs is_fetch_def unique_by_def fetch_key_def)
  then show ?thesis by (simp add: start_state_def sample_mailbox_def sample_env_def)
qed

subsection \<open>Two ways past unread mail\<close>

text \<open>
  The bound on the limit is needed: with a per-folder limit of 0 a pass that the server
  answers fetches nothing and still moves the committed watermark to the server's UIDNEXT, so
  every message that was waiting lies below it and is never asked for again.
\<close>

theorem zero_limit_skips_waiting_mail:
  assumes "im_select im (mb_name m) = Inr (Some v, Some n)" "mb_uidvalidity m = Some v" "v \<noteq> 0" "0 < n"
    and "candidate_uids im m False = Inr uids"
  shows "\<exists>c'. sync_mailbox env im acct m (Some 0) c = (Inr 0, c') \<and>
    messages (committed c') = messages (work c) \<and> failed (committed c') = failed (work c) \<and>
    (\<forall>m' \<in> set (mailboxes (committed c')). mb_id m' = mb_id m \<longrightarrow> mb_uidnext m' = Some n)"
proof -
  have "limit_uids (Some 0) uids = []" by (simp add: limit_uids_def)
  with assms show ?thesis
    by (auto simp: sync_mailbox_def begin_resync_def update_mailbox_progress_def set_update_where Let_def)
qed

theorem zero_limit_skips_waiting_mail_witness:
  "\<exists>c'. sync_mailbox sample_env sample_imap 1 sample_mailbox (Some 0) sample_conn = (Inr 0, c') \<and>
    messages (committed c') = messages (work sample_conn) \<and> failed (committed c') = failed (work sample_conn) \<and>
    (\<forall>m' \<in> set (mailboxes (committed c')). mb_id m' = mb_id sample_mailbox \<longrightarrow> mb_uidnext m' = Some 5)"
proof (rule zero_limit_skips_waiting_mail)
  show "candidate_uids sample_imap sample_mailbox False = Inr [3, 4]" by code_simp
  show "im_select sample_imap (mb_name sample_mailbox) = Inr (Some 7, Some 5)" by (simp add: sample_defs)
qed (simp_all add: sample_defs)

lemma body_step_mark:
  assumes "body_step env acct m u raw it ps c = (Inr ps', c')"
  shows "hold_at ps' = hold_at ps \<and> highest_seen ps \<le> highest_seen ps'"
proof -
  define c0 where "c0 = (if u \<in> fst ` set (held_attempts ps) then with_work (clear_attempts (mb_id m) u) c else c)"
  obtain r1 c1 where p: "process_one_message env acct (mb_id m) u raw (fi_flags it)
      (aware_internal_date (fi_internaldate it)) c0 = (r1, c1)" by fastforce
  with assms show ?thesis unfolding body_step_def Let_def c0_def [symmetric]
    by (cases r1) (auto split: if_splits prod.splits option.splits)
qed

lemma sync_uids_mark:
  assumes "\<And>u. u \<in> set us \<Longrightarrow> body_of fetched u \<noteq> None"
    and "sync_uids env im acct m now fetched us ps c = (Inr ps', c')" "hold_at ps = None" "n \<le> highest_seen ps"
  shows "hold_at ps' = None \<and> n \<le> highest_seen ps'"
  using assms
proof (induction us arbitrary: ps c)
  case (Cons u us)
  obtain raw where raw: "body_of fetched u = Some raw" using Cons.prems(1) [of u] by auto
  obtain r1 c1 where s: "uid_step env im acct m now fetched u ps c = (r1, c1)" by fastforce
  with Cons.prems obtain ps1 where r1: "r1 = Inr ps1"
    and rest: "sync_uids env im acct m now fetched us ps1 c1 = (Inr ps', c')"
    by (cases r1) auto
  have "hold_at ps1 = hold_at ps \<and> highest_seen ps \<le> highest_seen ps1"
    using s r1 raw by (intro body_step_mark) (simp add: uid_step_def)
  with Cons.prems show ?case by (intro Cons.IH [OF _ rest]) auto
qed simp

lemma sync_chunks_mark:
  assumes bodies: "\<And>chunk fetched u. im_fetch im (mb_name m) chunk = Inr fetched \<Longrightarrow>
      u \<in> set chunk \<Longrightarrow> body_of fetched u \<noteq> None"
    and "sync_chunks env im acct m now uv chunks ps c = (Inr ps', c')" "hold_at ps = None" "n \<le> highest_seen ps"
    and "chunks \<noteq> []" and "m' \<in> set (mailboxes (committed c'))" "mb_id m' = mb_id m"
  shows "\<exists>w. mb_uidnext m' = Some w \<and> n < w \<and> mb_uidvalidity m' = Some uv"
  using assms(2-)
proof (induction chunks arbitrary: ps c)
  case (Cons chunk chunks)
  obtain fetched where f: "im_fetch im (mb_name m) chunk = Inr fetched"
    using Cons.prems(1) by (cases "im_fetch im (mb_name m) chunk") (auto simp: sync_chunk_def)
  obtain r2 c2 where u: "sync_uids env im acct m now fetched chunk ps c = (r2, c2)" by fastforce
  with Cons.prems(1) f obtain ps2 where r2: "r2 = Inr ps2" by (cases r2) (auto simp: sync_chunk_def)
  have mark: "hold_at ps2 = None" "n \<le> highest_seen ps2"
    using sync_uids_mark [OF bodies [OF f] u [unfolded r2] Cons.prems(2,3)] by auto
  obtain c3 where ck: "checkpoint_chunk env m uv ps2 c2 = (Inr ps2, c3)"
    and rest: "sync_chunks env im acct m now uv chunks ps2 c3 = (Inr ps', c')"
    using Cons.prems(1) f u r2
    by (auto simp: sync_chunk_def checkpoint_chunk_def Let_def split: option.splits)
  show ?case
  proof (cases "chunks = []")
    case True
    with rest have "c' = c3" by simp
    with ck Cons.prems(5,6) mark show ?thesis
      by (auto simp: checkpoint_chunk_def Let_def checkpoint_uidnext_def update_mailbox_progress_def
          table_simps set_update_where split: option.splits)
  next
    case False
    from Cons.IH [OF rest mark False Cons.prems(5,6)] show ?thesis .
  qed
qed simp

text \<open>
  The unchanged UIDVALIDITY is needed as well. When the server has renumbered a mailbox, a
  complete pass relinks what is there now, but the watermark it commits under the new
  UIDVALIDITY never drops below the old space's one: a later message whose new UID is smaller
  than the old watermark is no candidate of any following pass.
\<close>

theorem uidvalidity_reset_keeps_old_watermark:
  assumes run: "sync_mailbox env im acct m None c = (Inr k, c')"
    and sel: "im_select im (mb_name m) = Inr (Some v', next)" "v' \<noteq> 0" "mb_uidvalidity m = Some v" "v \<noteq> v'"
    and "mb_uidnext m = Some n" "0 < n"
    and uids: "im_search_all im (mb_name m) = Inr uids" "uids \<noteq> []"
    and bodies: "\<And>chunk fetched u. im_fetch im (mb_name m) chunk = Inr fetched \<Longrightarrow>
      u \<in> set chunk \<Longrightarrow> body_of fetched u \<noteq> None"
    and m': "m' \<in> set (mailboxes (committed c'))" "mb_id m' = mb_id m"
    and later: "candidate_uids im' m' False = Inr us" "u \<in> set us"
  shows "mb_uidvalidity m' = Some v' \<and> n \<le> u"
proof -
  define c1 where "c1 = begin_resync m True c"
  have "candidate_uids im m True = Inr (sort uids)" using uids by (simp add: candidate_uids_def)
  moreover have "limit_uids None (sort uids) = sort uids" by (simp add: limit_uids_def)
  moreover have "sort uids \<noteq> []" using uids(2) by (metis length_0_conv length_sort)
  ultimately obtain ps where "sync_chunks env im acct m (e_clock env (txn c1)) v' (batches batch_size (sort uids))
      (start_state m (work c1)) c1 = (Inr ps, c')"
    using run sel by (auto simp: sync_mailbox_def Let_def simp flip: c1_def split: sum.splits prod.splits)
  moreover have "batches batch_size (sort uids) \<noteq> []"
    using \<open>sort uids \<noteq> []\<close> concat_batches [of batch_size "sort uids"] by (auto simp: batch_size_def)
  ultimately have "\<exists>w. mb_uidnext m' = Some w \<and> n - 1 < w \<and> mb_uidvalidity m' = Some v'"
    using assms(6,7) bodies m'
    by (intro sync_chunks_mark [of im m env acct _ v' _ "start_state m (work c1)"]) (auto simp: start_state_def)
  then obtain w where w: "mb_uidnext m' = Some w" "n \<le> w" "mb_uidvalidity m' = Some v'" by auto
  have "w \<le> int_or (mb_uidnext m') 1" using w(1) int_or_one_ge by simp
  with w candidates_from [OF later] show ?thesis by simp
qed

text \<open>
  An INBOX synced up to UID 9 under UIDVALIDITY 6, renumbered by the server to UIDVALIDITY 7
  with one message at UID 1. Of two later messages at UIDs 2 and 10 only the second is asked for.
\<close>

definition renumbered_mailbox :: mailbox_row where
  "renumbered_mailbox = sample_mailbox\<lparr>mb_uidvalidity := Some 6, mb_uidnext := Some 10\<rparr>"

definition renumbered_conn :: conn where
  "renumbered_conn = sample_conn\<lparr>work := sample_db\<lparr>mailboxes := [renumbered_mailbox]\<rparr>,
     committed := sample_db\<lparr>mailboxes := [renumbered_mailbox]\<rparr>\<rparr>"

definition renumbered_imap :: imap_like where
  "renumbered_imap = sample_imap\<lparr>im_search_all := (\<lambda>_. Inr [1]), im_search_from := (\<lambda>_ _. Inr [2, 10]),
     im_fetch := (\<lambda>_ us. Inr (map (\<lambda>u. (u, sample_item (Some ''m''))) us))\<rparr>"

definition renumbered_row :: mailbox_row where
  "renumbered_row = renumbered_mailbox\<lparr>mb_uidvalidity := Some 7, mb_uidnext := Some 10,
     mb_last_sync_at := Some 1\<rparr>"

lemma renumbered_run:
  "fst (sync_mailbox sample_env renumbered_imap 1 renumbered_mailbox None renumbered_conn) = Inr 1"
  "mailboxes (committed (snd (sync_mailbox sample_env renumbered_imap 1 renumbered_mailbox None renumbered_conn)))
     = [renumbered_row]"
  by code_simp+

lemma map_of_const: "u \<in> set us \<Longrightarrow> map_of (map (\<lambda>u. (u, x)) us) u = Some x"
  by (induction us) auto

theorem uidvalidity_reset_keeps_old_watermark_witness:
  "mb_uidvalidity renumbered_row = Some 7 \<and> (10 :: int) \<le> 10"
proof (rule uidvalidity_reset_keeps_old_watermark)
  let ?run = "sync_mailbox sample_env renumbered_imap 1 renumbered_mailbox None renumbered_conn"
  show "?run = (Inr 1, snd ?run)" using renumbered_run(1) by (metis prod.collapse)
  show "renumbered_row \<in> set (mailboxes (committed (snd ?run)))" using renumbered_run(2) by simp
  show "im_select renumbered_imap (mb_name renumbered_mailbox) = Inr (Some 7, Some 5)"
    by (simp add: renumbered_imap_def sample_imap_def)
  show "mb_uidvalidity renumbered_mailbox = Some 6" by (simp add: renumbered_mailbox_def)
  show "im_search_all renumbered_imap (mb_name renumbered_mailbox) = Inr [1]"
    by (simp add: renumbered_imap_def)
  show "candidate_uids renumbered_imap renumbered_row False = Inr [10]" by code_simp
  show "body_of fetched u \<noteq> None"
    if "im_fetch renumbered_imap (mb_name renumbered_mailbox) chunk = Inr fetched" "u \<in> set chunk" for chunk fetched u
    using that by (auto simp: renumbered_imap_def body_of_def map_of_const sample_item_def)
qed (simp_all add: renumbered_mailbox_def renumbered_row_def)

end
