(* ===== verification/SyncInvariants.thy ===== *)
theory SyncInvariants
  imports SyncSafety
begin

text \<open>
  The unique constraints of the sync tables hold at every step of a pass and of \<open>retry-failed\<close>
  (\<open>wf_conn\<close>), so per-account deduplication is exact, and \<open>retry-failed\<close> never discards a
  message it did not archive.
\<close>

subsection \<open>Constraints are kept\<close>

lemma wf_with_fetches:
  "wf_conn c \<Longrightarrow> messages d = messages (work c) \<Longrightarrow> labels d = labels (work c) \<Longrightarrow>
   failed d = failed (work c) \<Longrightarrow> map mb_id (mailboxes d) = map mb_id (mailboxes (work c)) \<Longrightarrow>
   unique_by fetch_key (fetches d) \<Longrightarrow> wf_conn (c\<lparr>work := d\<rparr>)"
  by (simp add: wf_conn_def visible_messages_def unique_by_def)

lemma unique_record_attempt:
  "unique_by fetch_key (fetches d) \<Longrightarrow> unique_by fetch_key (fetches (snd (record_attempt f n mb u d)))"
  by (auto simp: record_attempt_def unique_by_append_iff find_None_conv is_fetch_def fetch_key_def
      unique_by_update_where split: option.splits)

lemma unique_mark_gave_up:
  "unique_by fetch_key (fetches d) \<Longrightarrow> unique_by fetch_key (fetches (mark_gave_up f n mb u d))"
  by (auto simp: mark_gave_up_def fetch_key_def unique_by_update_where split: option.splits)

lemma unique_filter_fetches:
  "unique_by fetch_key (fetches d) \<Longrightarrow> unique_by fetch_key (fetches (clear_attempts mb u d))"
  "unique_by fetch_key (fetches d) \<Longrightarrow> unique_by fetch_key (fetches (reclaim_below mb u d))"
  "unique_by fetch_key (fetches d) \<Longrightarrow> unique_by fetch_key (fetches (clear_mailbox mb d))"
  by (simp_all add: clear_attempts_def reclaim_below_def clear_mailbox_def unique_by_filter)

lemma wf_no_body [inv_intros]:
  assumes "wf_conn c" "no_body_step env im m now u ps c = (ps', c')"
  shows "wf_conn c'"
proof -
  obtain hold d where rec: "record_attempt (e_fault env (Hold u)) (e_clock env (txn c)) (mb_id m) u (work c) = (hold, d)"
    by fastforce
  then have d: "d = snd (record_attempt (e_fault env (Hold u)) (e_clock env (txn c)) (mb_id m) u (work c))" by simp
  have uf: "unique_by fetch_key (fetches d)"
    unfolding d using assms(1) by (intro unique_record_attempt) (simp add: wf_conn_def)
  have "wf_conn (c\<lparr>work := d\<rparr>)" "wf_conn (c\<lparr>work := mark_gave_up f n (mb_id m) u d\<rparr>)" for f n
    using uf unique_mark_gave_up [OF uf] by (intro wf_with_fetches [OF assms(1)]; simp add: d table_simps)+
  with assms rec show ?thesis by (auto simp: no_body_step_def split: if_splits)
qed

lemma unique_failed_upsert:
  "unique_by failed_key fs \<Longrightarrow> (\<forall>f \<in> set fs. failed_key f \<noteq> (a, m, u)) \<Longrightarrow> f_account f = a \<Longrightarrow>
   f_mailbox f = m \<Longrightarrow> f_uid f = u \<Longrightarrow> unique_by failed_key (fs @ [f])"
  by (auto simp: unique_by_append_iff failed_key_def)

lemma wf_record_failed [inv_intros]:
  assumes "wf_conn c" "record_failed_message env acct mb u raw exc c = (r, c')"
  shows "wf_conn c'"
  using assms
  by (auto simp: record_failed_message_def Let_def wf_conn_def visible_messages_def failed_key_def
      unique_by_update_where unique_by_append_iff split: option.splits if_splits)

lemma wf_clear [inv_intros]: "wf_conn c \<Longrightarrow> wf_conn (with_work (clear_attempts mb u) c)"
  unfolding with_work_def
  by (intro wf_with_fetches) (auto simp: table_simps wf_conn_def unique_filter_fetches)

lemma upsert_label_messages: "messages (work (snd (upsert_label k mb uid flags c))) = messages (work c)"
  unfolding upsert_label_def Let_def by (simp only: if_distrib [of snd] snd_conv split: if_split) simp

lemma process_prefix:
  assumes "process_one_message env acct mb uid raw flags idate c = (res, c')"
  shows "\<exists>rs. map mail_ident (messages (work c')) = map mail_ident (messages (work c)) @ rs"
proof (cases "e_parse env raw")
  case (Inl e)
  with assms show ?thesis by (simp add: process_one_message_def)
next
  case (Inr p)
  obtain r1 c1 where u: "upsert_message env acct uid p idate c = (r1, c1)" by fastforce
  then have c1: "\<exists>rs. messages (work c1) = messages (work c) @ rs"
    by (auto simp: upsert_message_def Let_def others_commit_def split: option.splits if_splits)
  show ?thesis
  proof (cases r1)
    case (Inl e)
    with assms Inr u c1 show ?thesis by (auto simp: process_one_message_def)
  next
    case r1: (Inr ki)
    obtain k ins where ki: "ki = (k, ins)" by fastforce
    obtain r2 c2 where l: "upsert_label k mb uid flags c1 = (r2, c2)" by fastforce
    then have c2: "messages (work c2) = messages (work c1)"
      using upsert_label_messages [of k mb uid flags c1] by simp
    obtain r3 c3 where s: "store_attachments env k (p_attachments p) c2 = (r3, c3)" by fastforce
    then have c3: "map mail_ident (messages (work c3)) = map mail_ident (messages (work c2))"
      by (auto simp: store_attachments_def Let_def set_attachments_ident split: prod.splits sum.splits)
    have "c' = c2 \<or> c' = c3"
      using assms Inr u r1 ki l s
      by (auto simp: process_one_message_def split: sum.splits option.splits if_splits)
    with c1 c2 c3 show ?thesis by auto
  qed
qed

text \<open>Rolling a message back keeps the constraints, although other sessions' rows stay.\<close>

lemma wf_rolled_back:
  assumes "process_one_message env acct mb uid raw flags idate c = (res, c')" "wf_conn c"
  shows "wf_conn (rollback_to (work c) c')"
proof -
  obtain rs where rs: "map mail_ident (messages (work c')) = map mail_ident (messages (work c)) @ rs"
    using process_prefix [OF assms(1)] by blast
  define n where "n = length (messages (work c))"
  let ?xs = "take n (messages (work c'))" and ?ys = "drop n (messages (work c'))"
  have vis: "map mail_ident (?xs @ others c') = map mail_ident (messages (work c) @ others c')"
    using arg_cong [OF rs, of "take n"] by (simp add: take_map n_def)
  have "wf_conn c'" using process_frame [OF assms(1)] assms(2) by blast
  then have "unique_by m_id ((?xs @ ?ys) @ others c')" "unique_keys ((?xs @ ?ys) @ others c')"
    by (simp_all add: wf_conn_def visible_messages_def)
  then have "unique_by m_id (?xs @ others c')" "unique_keys (?xs @ others c')"
    unfolding unique_keys_append by (auto simp: unique_by_def simp del: append_take_drop_id)
  with unique_keys_ident [OF vis] unique_ident_m_id [OF vis] assms(2) show ?thesis
    by (simp add: wf_conn_def visible_messages_def)
qed

lemma wf_body [inv_intros]:
  assumes "wf_conn c" "body_step env acct m u raw it ps c = (r, c')"
  shows "wf_conn c'"
proof -
  define c0 where "c0 = (if u \<in> fst ` set (held_attempts ps) then with_work (clear_attempts (mb_id m) u) c else c)"
  have c0: "wf_conn c0" using assms(1) by (simp add: c0_def wf_clear)
  obtain r1 c1 where p: "process_one_message env acct (mb_id m) u raw (fi_flags it)
      (aware_internal_date (fi_internaldate it)) c0 = (r1, c1)" by fastforce
  have c1: "wf_conn c1" using process_frame [OF p] c0 by blast
  have c2: "wf_conn (rollback_to (work c0) c1)"
    by (rule wf_rolled_back [OF p c0])
  have "c' = c \<or> c' = c1 \<or> c' = rollback_to (work c0) c1 \<or>
      (\<exists>e r. record_failed_message env acct (mb_id m) u raw e (rollback_to (work c0) c1) = (r, c'))"
    using assms(2) p unfolding body_step_def Let_def c0_def [symmetric]
    by (cases r1) (fastforce split: if_splits prod.splits option.splits)+
  then show ?thesis using assms(1) c1 c2 wf_record_failed by metis
qed

lemma wf_uid_step [inv_intros]:
  "wf_conn c \<Longrightarrow> uid_step env im acct m now fetched u ps c = (r, c') \<Longrightarrow> wf_conn c'"
  by (auto simp: uid_step_def split: option.splits prod.splits intro: wf_body wf_no_body)

lemma wf_sync_uids [inv_intros]:
  "wf_conn c \<Longrightarrow> sync_uids env im acct m now fetched us ps c = (r, c') \<Longrightarrow> wf_conn c'"
proof (induction us arbitrary: ps c)
  case (Cons u us)
  obtain r1 c1 where s: "uid_step env im acct m now fetched u ps c = (r1, c1)" by fastforce
  with Cons wf_uid_step [OF Cons.prems(1) s] show ?case by (cases r1) auto
qed simp

lemma mailbox_progress_ids:
  "map mb_id (mailboxes (update_mailbox_progress mb uv n t d)) = map mb_id (mailboxes d)"
  by (simp add: update_mailbox_progress_def map_update_where)

lemma progress_frame [table_simps]:
  "labels (update_mailbox_progress mb uv n t d) = labels d"
  "messages (update_mailbox_progress mb uv n t d) = messages d"
  "failed (update_mailbox_progress mb uv n t d) = failed d"
  "fetches (update_mailbox_progress mb uv n t d) = fetches d"
  by (simp_all add: update_mailbox_progress_def)

lemma wf_commit [inv_intros]: "wf_conn (commit c) = wf_conn c"
  by (simp add: wf_conn_def visible_messages_def)

lemma wf_checkpoint [inv_intros]:
  "wf_conn c \<Longrightarrow> checkpoint_chunk env m uv ps c = (r, c') \<Longrightarrow> wf_conn c'"
  by (auto simp: checkpoint_chunk_def Let_def wf_commit with_work_def table_simps mailbox_progress_ids
      split: option.splits intro!: wf_with_fetches unique_filter_fetches)
     (simp add: wf_conn_def)

lemma wf_sync_chunk [inv_intros]:
  "wf_conn c \<Longrightarrow> sync_chunk env im acct m now uv chunk ps c = (r, c') \<Longrightarrow> wf_conn c'"
  by (auto simp: sync_chunk_def split: sum.splits prod.splits intro: wf_sync_uids wf_checkpoint)

lemma wf_sync_chunks [inv_intros]:
  "wf_conn c \<Longrightarrow> sync_chunks env im acct m now uv chunks ps c = (r, c') \<Longrightarrow> wf_conn c'"
proof (induction chunks arbitrary: ps c)
  case (Cons chunk chunks)
  obtain r1 c1 where s: "sync_chunk env im acct m now uv chunk ps c = (r1, c1)" by fastforce
  with Cons wf_sync_chunk [OF Cons.prems(1) s] show ?case by (cases r1) auto
qed simp

lemma wf_begin_resync [inv_intros]: "wf_conn c \<Longrightarrow> wf_conn (begin_resync m full c)"
  by (auto simp: begin_resync_def wf_commit wf_conn_def visible_messages_def clear_mailbox_labels_def
      clear_mailbox_def unique_by_filter)

lemma wf_progress [inv_intros]:
  "wf_conn c \<Longrightarrow> wf_conn (commit (with_work (update_mailbox_progress mb uv n t) c))"
  unfolding wf_commit with_work_def
  by (intro wf_with_fetches) (auto simp: table_simps mailbox_progress_ids wf_conn_def)

lemma wf_sync_mailbox [inv_intros]:
  "wf_conn c \<Longrightarrow> sync_mailbox env im acct m k c = (r, c') \<Longrightarrow> wf_conn c'"
  by (auto simp: sync_mailbox_def Let_def split: sum.splits prod.splits if_splits
      intro: wf_begin_resync wf_progress wf_sync_chunks)

lemma wf_upsert_mailbox [inv_intros]:
  assumes "wf_conn c" "upsert_mailbox acct name delim flags c = (r, c')"
  shows "wf_conn c'"
proof (cases "find (\<lambda>m. mb_account m = acct \<and> mb_name m = name) (mailboxes (work c))")
  case None
  with assms show ?thesis
    by (auto simp: upsert_mailbox_def Let_def wf_conn_def visible_messages_def unique_by_append_iff
        split: if_splits) (metis imageI)+
next
  case (Some m)
  with assms show ?thesis
    by (auto simp: upsert_mailbox_def Let_def wf_conn_def visible_messages_def unique_by_update_where)
qed

lemma wf_sync_folders [inv_intros]:
  "wf_conn c \<Longrightarrow> sync_folders env im acct k fs results c = (r, c') \<Longrightarrow> wf_conn c'"
proof (induction env im acct k fs results c rule: sync_folders.induct)
  case (2 env im acct k name delim flags fs results c)
  obtain r1 c1 where u: "upsert_mailbox acct name delim flags c = (r1, c1)" by fastforce
  note w1 = wf_upsert_mailbox [OF "2.prems"(1) u]
  show ?case
  proof (cases r1)
    case (Inl e)
    with 2 u w1 show ?thesis by simp
  next
    case (Inr m)
    obtain r2 c2 where s: "sync_mailbox env im acct m k (commit c1) = (r2, c2)" by fastforce
    have "wf_conn c2" using wf_sync_mailbox [OF _ s] w1 by (simp add: wf_commit)
    with "2.prems"(2) "2.IH" [OF u [symmetric] Inr s [symmetric]] u Inr s show ?thesis
      by (cases r2) auto
  qed
qed simp

text \<open>
  C2. Deduplication is exact. After any sync of an account, finished or interrupted and
  whatever other sessions committed meanwhile, no two visible messages of one account carry the
  same dedup key (the Message-Id, or the raw hash where there is none), and within a mailbox a
  UID labels at most one message and a message has at most one label.
\<close>

theorem sync_account_dedup:
  assumes "sync_account env im cfg acct k c = (r, c')" "wf_conn c"
  shows "(\<forall>a \<in> set (visible_messages c'). \<forall>b \<in> set (visible_messages c'). row_same_key a b \<longrightarrow> m_id a = m_id b) \<and>
    unique_by m_id (visible_messages c') \<and>
    unique_by label_uid_key (labels (work c')) \<and> unique_by label_key (labels (work c'))"
proof -
  have "wf_conn c'"
    using assms by (auto simp: sync_account_def split: sum.splits intro: wf_sync_folders)
  moreover have "a = b" if "unique_keys rows" "a \<in> set rows" "b \<in> set rows" "row_same_key a b" for a b rows
    using that by (induction rows) (auto dest: row_same_key_sym)
  ultimately show ?thesis by (auto simp: wf_conn_def)
qed

theorem sync_account_dedup_witness:
  "unique_by m_id (visible_messages (snd (sync_account sample_env sample_imap
     \<lparr>folder_allow = [], folder_deny = [], folder_deny_flags = []\<rparr> 1 None sample_conn)))"
  using sync_account_dedup [of sample_env sample_imap "\<lparr>folder_allow = [], folder_deny = [], folder_deny_flags = []\<rparr>"
      1 None sample_conn]
  by (simp add: wf_conn_def sample_conn_def sample_db_def visible_messages_def unique_by_def
      prod_eq_iff split_paired_all)

subsection \<open>retry-failed discards nothing\<close>

definition failed_ident :: "failed_row \<Rightarrow> int \<times> (int \<times> int \<times> int) \<times> bytes" where
  "failed_ident f = (f_id f, failed_key f, f_raw f)"

lemma unique_failed_ident: "map failed_ident xs = map failed_ident ys \<Longrightarrow> unique_by f_id xs = unique_by f_id ys"
proof -
  have "f_id = fst \<circ> failed_ident" by (simp add: fun_eq_iff failed_ident_def)
  then show "map failed_ident xs = map failed_ident ys \<Longrightarrow> unique_by f_id xs = unique_by f_id ys"
    unfolding unique_by_def by (metis list.map_comp)
qed

lemma record_failed_same_rows:
  assumes "record_failed_message env (f_account f) (f_mailbox f) (f_uid f) (f_raw f) e c = (r, c')"
    and "failed_ident f \<in> failed_ident ` set (failed (work c))" "unique_by failed_key (failed (work c))"
  shows "map failed_ident (failed (work c')) = map failed_ident (failed (work c))"
proof -
  from assms(2) obtain g where g: "g \<in> set (failed (work c))" "failed_ident g = failed_ident f"
    by (metis imageE)
  have raw: "f_raw h = f_raw f" if "h \<in> set (failed (work c))" "failed_key h = failed_key f" for h
    using unique_byD [OF assms(3) that(1) g(1)] that(2) g(2) by (auto simp: failed_ident_def)
  have "map failed_ident (update_where (\<lambda>h. f_account h = f_account f \<and> f_mailbox h = f_mailbox f \<and> f_uid h = f_uid f)
      (\<lambda>h. h\<lparr>f_raw := f_raw f, f_sha256 := x, f_error := y, f_failed_at := z,
              f_retry_count := f_retry_count h + 1, f_last_retry_at := Some z\<rparr>) (failed (work c))) =
     map failed_ident (failed (work c))" for x y z
    using raw by (auto simp: update_where_def failed_ident_def failed_key_def)
  moreover have "\<exists>h \<in> set (failed (work c)). f_account h = f_account f \<and> f_mailbox h = f_mailbox f \<and> f_uid h = f_uid f"
    using g by (auto simp: failed_ident_def failed_key_def)
  ultimately show ?thesis
    using assms(1) by (auto simp: record_failed_message_def Let_def split: option.splits if_splits)
qed

text \<open>One row: it stays as it was, or it is archived and then deleted, alone.\<close>

lemma retry_one_cases:
  assumes "retry_one env (f, am) (s, n) c = (r, c')" "wf_conn c"
    and "failed_ident f \<in> failed_ident ` set (failed (work c))"
  obtains (recovered) "r = Inr (s + 1, n)" "keeps_mail c c'" "wf_conn c'"
      "failed (work c') = filter (\<lambda>g. f_id g \<noteq> f_id f) (failed (work c))"
      "archived env (f_account f) (f_mailbox f) (f_raw f) (visible_messages c') (labels (work c'))"
  | (kept) "r = Inr (s, n + 1) \<or> (\<exists>e. r = Inl e)" "keeps_mail c c'" "wf_conn c'"
      "map failed_ident (failed (work c')) = map failed_ident (failed (work c))"
proof -
  define uid where "uid = (if should_reallocate_uid am
    then next_uid_after (Some (max_label_uid (work c) (f_mailbox f))) else f_uid f)"
  obtain r1 c1 where p: "process_one_message env (f_account f) (f_mailbox f) uid (f_raw f) [] None c = (r1, c1)"
    by fastforce
  note fr = process_frame [OF p]
  let ?c2 = "rollback_to (work c) c1"
  have k2: "keeps_mail c ?c2" using fr by (auto simp: keeps_mail_def)
  have w2: "wf_conn ?c2" by (rule wf_rolled_back [OF p assms(2)])
  show thesis
  proof (cases r1)
    case (Inr ki)
    let ?c' = "commit (with_work (\<lambda>d. d\<lparr>failed := filter (\<lambda>g. f_id g \<noteq> f_id f) (failed d)\<rparr>) c1)"
    have run: "r = Inr (s + 1, n)" "c' = ?c'"
      using assms(1) p Inr by (auto simp: retry_one_def Let_def simp flip: uid_def)
    have "archived env (f_account f) (f_mailbox f) (f_raw f) (visible_messages c1) (labels (work c1))"
      using process_archives [OF p [unfolded Inr]] .
    moreover have "wf_conn c1" using fr assms(2) by blast
    ultimately show thesis
      using fr by (intro recovered) (auto simp: run wf_conn_def visible_messages_def unique_by_filter
          keeps_mail_def same_books_def)
  next
    case (Inl e)
    show thesis
    proof (cases "e = Contention")
      case True
      with assms(1) p Inl have "r = Inl e" "c' = ?c2" by (auto simp: retry_one_def Let_def simp flip: uid_def)
      with k2 w2 show thesis by (intro kept) auto
    next
      case False
      obtain r3 c3 where rf: "record_failed_message env (f_account f) (f_mailbox f) (f_uid f) (f_raw f) e ?c2 = (r3, c3)"
        by fastforce
      have "(r = Inr (s, n + 1) \<or> (\<exists>e. r = Inl e)) \<and> (c' = c3 \<or> c' = commit c3)"
        using assms(1) p Inl False rf by (auto simp: retry_one_def Let_def simp flip: uid_def split: option.splits)
      moreover have "map failed_ident (failed (work c3)) = map failed_ident (failed (work c))"
        using record_failed_same_rows [OF rf] assms(2,3) by (simp add: wf_conn_def)
      moreover have "keeps_mail c c3" "wf_conn c3"
        using record_failed_frame [OF rf] k2 keeps_mail_trans wf_record_failed [OF w2 rf] by blast+
      ultimately show thesis
        by (intro kept) (auto simp: wf_commit keeps_mail_def)
    qed
  qed
qed

definition retry_kept :: "sync_env \<Rightarrow> failed_row \<Rightarrow> conn \<Rightarrow> bool" where
  "retry_kept env g c \<longleftrightarrow> failed_ident g \<in> failed_ident ` set (failed (work c)) \<or>
     archived env (f_account g) (f_mailbox g) (f_raw g) (visible_messages c) (labels (work c))"

lemma retry_kept_ident:
  "retry_kept env g c \<Longrightarrow> failed_ident g = failed_ident h \<Longrightarrow> retry_kept env h c"
  by (auto simp: retry_kept_def failed_ident_def failed_key_def)

lemma length_filter_id:
  assumes "unique_by f_id fs" "failed_ident f \<in> failed_ident ` set fs"
  shows "Suc (length (filter (\<lambda>g. f_id g \<noteq> f_id f) fs)) = length fs"
  using assms
proof (induction fs)
  case (Cons g fs)
  show ?case
  proof (cases "f_id g = f_id f")
    case True
    with Cons.prems(1) have "filter (\<lambda>g. f_id g \<noteq> f_id f) fs = fs"
      by (auto simp: unique_by_def filter_id_conv image_iff)
    with True show ?thesis by simp
  next
    case False
    with Cons.prems(2) have "failed_ident f \<in> failed_ident ` set fs" by (auto simp: failed_ident_def)
    with Cons False show ?thesis by (simp add: unique_by_def)
  qed
qed simp

lemma recovered_kept:
  assumes "retry_kept env g c" "unique_by f_id (failed (work c))"
    and "failed_ident f \<in> failed_ident ` set (failed (work c))"
    and "failed (work c') = filter (\<lambda>g. f_id g \<noteq> f_id f) (failed (work c))"
    and "archived env (f_account f) (f_mailbox f) (f_raw f) (visible_messages c') (labels (work c'))"
    and "keeps_mail c c'"
  shows "retry_kept env g c'"
proof (cases "archived env (f_account g) (f_mailbox g) (f_raw g) (visible_messages c) (labels (work c))")
  case True
  then show ?thesis using keeps_archived [OF assms(6)] by (simp add: retry_kept_def)
next
  case arch: False
  show ?thesis
  proof (cases "failed_ident g = failed_ident f")
    case True
    with assms(5) show ?thesis by (auto simp: retry_kept_def failed_ident_def failed_key_def)
  next
    case False
    from arch assms(1) obtain h where h: "h \<in> set (failed (work c))" "failed_ident h = failed_ident g"
      by (auto simp: retry_kept_def)
    obtain f' where f': "f' \<in> set (failed (work c))" "failed_ident f' = failed_ident f"
      using assms(3) by (metis imageE)
    have "f_id h \<noteq> f_id f"
      using unique_byD [OF assms(2) h(1) f'(1)] False h(2) f'(2) by (auto simp: failed_ident_def)
    then have "h \<in> set (failed (work c'))" using h(1) assms(4) by simp
    then show ?thesis using h(2) unfolding retry_kept_def by (metis imageI)
  qed
qed

lemma retry_rows_kept:
  assumes "retry_rows env rows (s, n) c = (r, c')" "wf_conn c" "unique_by f_id (failed (work c))"
    and "distinct (map (\<lambda>(f, _). f_id f) rows)"
    and "\<And>f am. (f, am) \<in> set rows \<Longrightarrow> failed_ident f \<in> failed_ident ` set (failed (work c))"
  shows "(\<forall>g. retry_kept env g c \<longrightarrow> retry_kept env g c') \<and> keeps_mail c c' \<and>
    (\<forall>s' n'. r = Inr (s', n') \<longrightarrow> s' + n' = s + n + int (length rows) \<and>
       int (length (failed (work c))) - int (length (failed (work c'))) = s' - s)"
  using assms
proof (induction rows arbitrary: s n c)
  case (Cons row rows)
  obtain f am where row: "row = (f, am)" by fastforce
  have f: "failed_ident f \<in> failed_ident ` set (failed (work c))" using Cons.prems(5) row by auto
  obtain r1 c1 where one: "retry_one env (f, am) (s, n) c = (r1, c1)" by fastforce
  from one Cons.prems(2) f show ?case
  proof (cases rule: retry_one_cases)
    case recovered
    have rest: "retry_rows env rows (s + 1, n) c1 = (r, c')"
      using Cons.prems(1) row one recovered(1) by simp
    have u1: "unique_by f_id (failed (work c1))"
      using Cons.prems(3) recovered(4) by (simp add: unique_by_filter)
    have still: "failed_ident g \<in> failed_ident ` set (failed (work c1))" if "(g, am') \<in> set rows" for g am'
    proof -
      have "f_id g \<noteq> f_id f" using Cons.prems(4) row that by force
      moreover have "failed_ident g \<in> failed_ident ` set (failed (work c))" using Cons.prems(5) that by auto
      ultimately show ?thesis unfolding recovered(4) by (auto simp: failed_ident_def)
    qed
    note keep1 = recovered_kept [OF _ Cons.prems(3) f recovered(4,5,2)]
    have "int (length (failed (work c))) - int (length (failed (work c1))) = 1"
      using length_filter_id [OF Cons.prems(3) f] unfolding recovered(4) by simp
    moreover have "(\<forall>g. retry_kept env g c1 \<longrightarrow> retry_kept env g c') \<and> keeps_mail c1 c' \<and>
      (\<forall>s' n'. r = Inr (s', n') \<longrightarrow> s' + n' = s + 1 + n + int (length rows) \<and>
         int (length (failed (work c1))) - int (length (failed (work c'))) = s' - (s + 1))"
      using Cons.prems(4) row still by (intro Cons.IH [OF rest recovered(3) u1]) auto
    ultimately show ?thesis using keep1 keeps_mail_trans [OF recovered(2)] by fastforce
  next
    case kept
    have idents: "failed_ident ` set (failed (work c1)) = failed_ident ` set (failed (work c))"
      using arg_cong [OF kept(4), of set] by simp
    have keep1: "retry_kept env g c1" if "retry_kept env g c" for g
      using that keeps_archived [OF kept(2)] by (auto simp: retry_kept_def idents)
    have len: "length (failed (work c1)) = length (failed (work c))"
      using arg_cong [OF kept(4), of length] by simp
    show ?thesis
    proof (cases r1)
      case (Inl e)
      with Cons.prems(1) row one kept keep1 show ?thesis by auto
    next
      case (Inr sn)
      with kept(1) have rest: "retry_rows env rows (s, n + 1) c1 = (r, c')"
        using Cons.prems(1) row one by auto
      have u1: "unique_by f_id (failed (work c1))" using unique_failed_ident [OF kept(4)] Cons.prems(3) by simp
      have "(\<forall>g. retry_kept env g c1 \<longrightarrow> retry_kept env g c') \<and> keeps_mail c1 c' \<and>
        (\<forall>s' n'. r = Inr (s', n') \<longrightarrow> s' + n' = s + (n + 1) + int (length rows) \<and>
           int (length (failed (work c1))) - int (length (failed (work c'))) = s' - s)"
        using Cons.prems(4,5) row unfolding idents [symmetric] by (intro Cons.IH [OF rest kept(3) u1]) auto
      then show ?thesis using keep1 keeps_mail_trans [OF kept(2)] by (fastforce simp: len)
    qed
  qed
qed auto

lemma failed_scope_rows:
  assumes "unique_by a_id (accounts d)" "unique_by f_id (failed d)"
  shows "distinct (map (\<lambda>(f, _). f_id f) (failed_scope aid d))"
    "(f, am) \<in> set (failed_scope aid d) \<Longrightarrow> f \<in> set (failed d)"
proof -
  let ?fs = "sort_key f_id (filter (\<lambda>f. case aid of None \<Rightarrow> True | Some i \<Rightarrow> f_account f = i) (failed d))"
  let ?row = "\<lambda>f. map (\<lambda>a. (f, a_auth_method a)) (filter (\<lambda>a. a_id a = f_account f) (accounts d))"
  have le1: "length (filter (\<lambda>a. a_id a = k) xs) \<le> 1" if "unique_by a_id xs" for k xs
    using that
  proof (induction xs)
    case (Cons a xs)
    then show ?case
      by (cases "a_id a = k") (auto simp: unique_by_def filter_empty_conv, metis imageI)
  qed simp
  have ids: "map (\<lambda>(f, _). f_id f) (concat (map ?row fs)) =
      concat (map (\<lambda>f. replicate (length (filter (\<lambda>a. a_id a = f_account f) (accounts d))) (f_id f)) fs)" for fs
    by (induction fs) (simp_all add: comp_def map_replicate_const)
  have sub: "distinct (concat (map (\<lambda>f. replicate (k f) (f_id f)) fs))"
    if "distinct (map f_id fs)" "\<And>f. k f \<le> 1" for fs and k :: "failed_row \<Rightarrow> nat"
    using that(1)
  proof (induction fs)
    case (Cons f fs)
    have "k f = 0 \<or> k f = 1" using that(2) [of f] by linarith
    with Cons show ?case by auto
  qed simp
  have "distinct (map f_id ?fs)"
    using assms(2) by (auto simp: unique_by_def distinct_map intro: inj_on_subset)
  then show "distinct (map (\<lambda>(f, _). f_id f) (failed_scope aid d))"
    unfolding failed_scope_def ids using le1 [OF assms(1)] by (intro sub) auto
  show "f \<in> set (failed d)" if "(f, am) \<in> set (failed_scope aid d)"
    using that by (auto simp: failed_scope_def)
qed

text \<open>
  C3. \<open>retry-failed\<close> discards nothing: whether the run completes or stops on contention, every
  message that was in \<open>failed_messages\<close> is still there with its identity and raw bytes, or is
  archived and labelled in its mailbox. When it completes, the two counts it reports add up to
  the rows it looked at, and the first is the number of rows that left the table.
\<close>

theorem retry_failed_discards_nothing:
  assumes "retry_failed_messages env aid c = (r, c')" "wf_conn c"
    and "unique_by f_id (failed (work c))" "unique_by a_id (accounts (work c))"
    and "g \<in> set (failed (work c))"
  shows "((\<exists>g' \<in> set (failed (work c')). f_id g' = f_id g \<and> failed_key g' = failed_key g \<and> f_raw g' = f_raw g) \<or>
      archived env (f_account g) (f_mailbox g) (f_raw g) (visible_messages c') (labels (work c'))) \<and>
    (\<forall>s n. r = Inr (s, n) \<longrightarrow> s + n = int (length (failed_scope aid (work c))) \<and>
       int (length (failed (work c))) - int (length (failed (work c'))) = s)"
proof -
  have "failed_ident f \<in> failed_ident ` set (failed (work c))" if "(f, am) \<in> set (failed_scope aid (work c))" for f am
    using failed_scope_rows(2) [OF assms(4,3) that] by simp
  from retry_rows_kept [OF assms(1) [unfolded retry_failed_messages_def] assms(2,3)
      failed_scope_rows(1) [OF assms(4,3)] this]
  have "retry_kept env g c'" and "\<forall>s n. r = Inr (s, n) \<longrightarrow> s + n = int (length (failed_scope aid (work c))) \<and>
       int (length (failed (work c))) - int (length (failed (work c'))) = s"
    using assms(5) by (auto simp: retry_kept_def)
  then show ?thesis by (auto simp: retry_kept_def failed_ident_def)
qed

definition sample_failed :: failed_row where
  "sample_failed = \<lparr>f_id = 1, f_account = 1, f_mailbox = 1, f_uid = 2, f_raw = ''m2'', f_sha256 = ''m2'',
     f_error = ''ValueError'', f_failed_at = 0, f_retry_count = 0, f_last_retry_at = None\<rparr>"

definition sample_retry :: conn where
  "sample_retry = sample_conn\<lparr>work := sample_db\<lparr>failed := [sample_failed]\<rparr>\<rparr>"

theorem retry_failed_discards_nothing_witness:
  "((\<exists>g' \<in> set (failed (work (snd (retry_failed_messages sample_env None sample_retry)))).
        f_id g' = f_id sample_failed \<and> failed_key g' = failed_key sample_failed \<and> f_raw g' = f_raw sample_failed) \<or>
      archived sample_env 1 1 ''m2'' (visible_messages (snd (retry_failed_messages sample_env None sample_retry)))
        (labels (work (snd (retry_failed_messages sample_env None sample_retry)))))"
  using retry_failed_discards_nothing [of sample_env None sample_retry
      "fst (retry_failed_messages sample_env None sample_retry)"
      "snd (retry_failed_messages sample_env None sample_retry)" sample_failed]
  by (simp add: wf_conn_def sample_retry_def sample_conn_def sample_db_def sample_failed_def
      visible_messages_def unique_by_def)

end
