(* ===== verification/Importer.thy ===== *)
theory Importer
  imports SyncInvariants
begin

text \<open>
  Archive imports: the job table and its guards (\<open>api/admin/imports.py\<close>,
  \<open>importer/job_state.py\<close>, \<open>importer/ownership.py\<close>) and the worker
  (\<open>importer/runner.py\<close>), which stores every message with \<open>process_one_message\<close> of \<open>Sync\<close>.

  The \<open>import_jobs\<close> rows are a list beside the worker's connection: each statement on them
  commits at once. What an mbox or maildir yields, and whether reading it fails, is
  \<open>ie_source\<close>; \<open>ie_cancel n\<close> says whether somebody asked for cancellation before the \<open>n\<close>-th
  poll; the fault fields say which statement raises.
\<close>

subsection \<open>Jobs\<close>

datatype job_status = Pending | JobRunning | Completed | JobFailed | Cancelled

record counters =
  n_processed :: int
  n_inserted :: int
  n_skipped_dup :: int
  n_failed :: int

record import_job =
  j_id :: int
  j_account :: int
  j_source_kind :: string
  j_source_path :: string
  j_status :: job_status
  j_counters :: counters
  j_error_msg :: "string option"
  j_cancel_requested :: bool
  j_last_progress_at :: "instant option"
  j_started_at :: "instant option"
  j_finished_at :: "instant option"
  j_owner_host :: "string option"
  j_owner_pid :: "int option"

datatype import_error = ImportFieldError | JobNotFound | ImportBusy

definition zero_counters :: counters where
  "zero_counters = \<lparr>n_processed = 0, n_inserted = 0, n_skipped_dup = 0, n_failed = 0\<rparr>"

definition is_active :: "job_status \<Rightarrow> bool" where
  "is_active s \<longleftrightarrow> s \<in> {Pending, JobRunning}"

definition is_terminal :: "job_status \<Rightarrow> bool" where
  "is_terminal s \<longleftrightarrow> s \<in> {Completed, JobFailed, Cancelled}"

definition is_stale :: "job_status \<Rightarrow> instant option \<Rightarrow> instant \<Rightarrow> int \<Rightarrow> bool" where
  "is_stale s last_progress_at now stale_seconds =
     (case last_progress_at of
        None \<Rightarrow> False
      | Some t \<Rightarrow> s = JobRunning \<and> now - t > stale_seconds)"

definition should_checkpoint :: "int \<Rightarrow> int \<Rightarrow> int \<Rightarrow> int \<Rightarrow> int \<Rightarrow> bool" where
  "should_checkpoint processed at_last seconds_since every seconds =
     (let unflushed = processed - at_last
      in if unflushed \<le> 0 then False
         else if at_last = 0 then True
         else if every > 0 \<and> unflushed \<ge> every then True
         else if seconds > 0 \<and> seconds_since \<ge> seconds then True
         else False)"

definition should_reap :: "string option \<Rightarrow> int option \<Rightarrow> string \<Rightarrow> bool \<Rightarrow> bool" where
  "should_reap owner_host owner_pid current_host pid_alive =
     (if owner_pid = None then True
      else if owner_host \<noteq> Some current_host then False
      else \<not> pid_alive)"

definition valid_kinds :: "string list" where "valid_kinds = [''mbox'', ''maildir'']"

text \<open>
  \<open>create_job\<close>; \<open>racer\<close> is what other sessions commit between the busy check and the insert,
  which the partial unique index over active rows then sees.
\<close>

definition create_job ::
  "db \<Rightarrow> string \<Rightarrow> int \<Rightarrow> (import_job list \<Rightarrow> import_job list) \<Rightarrow> int \<Rightarrow> int \<Rightarrow> string \<Rightarrow> string \<Rightarrow> import_job list \<Rightarrow>
   (import_error + int) \<times> import_job list" where
  "create_job d host pid racer new_id account_id kind path jobs =
     (if kind \<notin> set valid_kinds then (Inl ImportFieldError, jobs)
      else case find (\<lambda>a. a_id a = account_id) (accounts d) of
             None \<Rightarrow> (Inl JobNotFound, jobs)
           | Some a \<Rightarrow>
               if a_auth_method a \<noteq> archive_auth_method then (Inl ImportFieldError, jobs)
               else if \<exists>j \<in> set jobs. is_active (j_status j) then (Inl ImportBusy, jobs)
               else
                 (let jobs1 = racer jobs
                  in if \<exists>j \<in> set jobs1. is_active (j_status j) then (Inl ImportBusy, jobs1)
                     else (Inr new_id, jobs1 @
                       [\<lparr>j_id = new_id, j_account = account_id, j_source_kind = kind, j_source_path = path,
                         j_status = Pending, j_counters = zero_counters, j_error_msg = None,
                         j_cancel_requested = False, j_last_progress_at = None, j_started_at = None,
                         j_finished_at = None, j_owner_host = Some host, j_owner_pid = Some pid\<rparr>])))"

definition cancel_job :: "int \<Rightarrow> import_job list \<Rightarrow> (import_error + unit) \<times> import_job list" where
  "cancel_job job_id jobs =
     (if \<exists>j \<in> set jobs. j_id j = job_id
      then (Inr (), update_where (\<lambda>j. j_id j = job_id) (\<lambda>j. j\<lparr>j_cancel_requested := True\<rparr>) jobs)
      else (Inl JobNotFound, jobs))"

definition reap :: "string \<Rightarrow> (int \<Rightarrow> bool) \<Rightarrow> import_job \<Rightarrow> bool" where
  "reap host pid_alive j \<longleftrightarrow> is_active (j_status j) \<and>
     should_reap (j_owner_host j) (j_owner_pid j) host
       (case j_owner_pid j of None \<Rightarrow> False | Some p \<Rightarrow> pid_alive p)"

definition reconcile_orphaned_jobs ::
  "instant \<Rightarrow> string \<Rightarrow> (int \<Rightarrow> bool) \<Rightarrow> import_job list \<Rightarrow> int \<times> import_job list" where
  "reconcile_orphaned_jobs now host pid_alive jobs =
     (let reap_ids = map j_id (filter (reap host pid_alive) jobs)
      in if reap_ids = [] then (0, jobs)
         else (int (length reap_ids),
               update_where (\<lambda>j. j_id j \<in> set reap_ids)
                 (\<lambda>j. j\<lparr>j_status := JobFailed,
                        j_error_msg := Some ''interrupted: owning process is no longer running'',
                        j_finished_at := Some now\<rparr>) jobs))"

subsection \<open>The worker\<close>

record imported_message =
  im_mailbox_name :: string
  im_raw :: bytes
  im_received_date :: "instant option"

record import_env =
  ie_sync :: sync_env
  ie_connect :: "exn option"
  ie_source :: "string \<Rightarrow> string \<Rightarrow> imported_message list \<times> exn option"
  ie_mailbox_fault :: "string \<Rightarrow> exn option"
  ie_flush_fault :: "nat \<Rightarrow> exn option"
  ie_commit_fault :: "exn option"
  ie_terminal_fault :: "nat \<Rightarrow> exn option"
  ie_cancel :: "nat \<Rightarrow> bool"
  ie_clock :: "nat \<Rightarrow> int"
  ie_now :: "nat \<Rightarrow> instant"

record import_config =
  checkpoint_every :: int
  checkpoint_seconds :: int
  terminal_write_attempts :: int

record import_state =
  is_c :: counters
  is_committed :: counters
  is_mailbox_ids :: "(string \<times> int) list"
  is_uid_counters :: "(string \<times> int) list"
  is_at_last :: int
  is_last_at :: int
  is_polls :: nat
  is_ticks :: nat

definition load_job :: "int \<Rightarrow> import_job list \<Rightarrow> import_job option" where
  "load_job job_id jobs = find (\<lambda>j. j_id j = job_id) jobs"

definition mark_running :: "instant \<Rightarrow> int \<Rightarrow> import_job list \<Rightarrow> bool \<times> import_job list" where
  "mark_running now job_id jobs =
     (let hit = (\<lambda>j. j_id j = job_id \<and> j_status j = Pending)
      in (\<exists>j \<in> set jobs. hit j,
          update_where hit (\<lambda>j. j\<lparr>j_status := JobRunning, j_started_at := Some now, j_last_progress_at := Some now\<rparr>) jobs))"

definition flush_job :: "instant \<Rightarrow> int \<Rightarrow> counters \<Rightarrow> import_job list \<Rightarrow> import_job list" where
  "flush_job now job_id c jobs =
     update_where (\<lambda>j. j_id j = job_id) (\<lambda>j. j\<lparr>j_counters := c, j_last_progress_at := Some now\<rparr>) jobs"

definition cancel_requested :: "int \<Rightarrow> import_job list \<Rightarrow> bool" where
  "cancel_requested job_id jobs =
     (case find (\<lambda>j. j_id j = job_id) jobs of None \<Rightarrow> False | Some j \<Rightarrow> j_cancel_requested j)"

definition failed_uid :: "sync_env \<Rightarrow> db \<Rightarrow> int \<Rightarrow> int \<Rightarrow> bytes \<Rightarrow> int option" where
  "failed_uid env d acct mb raw =
     (let rows = filter (\<lambda>f. f_account f = acct \<and> f_mailbox f = mb \<and> f_sha256 f = e_sha256 env raw) (failed d)
      in case sort (map f_uid rows) of [] \<Rightarrow> None | u # _ \<Rightarrow> Some u)"

definition write_terminal ::
  "instant \<Rightarrow> int \<Rightarrow> job_status \<Rightarrow> counters \<Rightarrow> string option \<Rightarrow> import_job list \<Rightarrow> import_job list" where
  "write_terminal now job_id s c error_msg jobs =
     update_where (\<lambda>j. j_id j = job_id)
       (\<lambda>j. j\<lparr>j_status := s, j_counters := c, j_error_msg := error_msg, j_finished_at := Some now\<rparr>) jobs"

text \<open>\<open>_mark_terminal\<close>: \<open>left\<close> attempts remain, the next one being number \<open>k\<close>.\<close>

fun mark_terminal ::
  "import_env \<Rightarrow> nat \<Rightarrow> nat \<Rightarrow> int \<Rightarrow> job_status \<Rightarrow> counters \<Rightarrow> string option \<Rightarrow> import_job list \<Rightarrow>
   exn option \<times> import_job list" where
  "mark_terminal env 0 k job_id s c error_msg jobs = (None, jobs)"
| "mark_terminal env (Suc left) k job_id s c error_msg jobs =
     (case ie_terminal_fault env k of
        None \<Rightarrow> (None, write_terminal (ie_now env k) job_id s c error_msg jobs)
      | Some e \<Rightarrow> if left = 0 then (Some e, jobs)
                  else mark_terminal env left (Suc k) job_id s c error_msg jobs)"

subsection \<open>One message\<close>

definition enter_mailbox ::
  "import_env \<Rightarrow> int \<Rightarrow> string \<Rightarrow> import_state \<Rightarrow> conn \<Rightarrow> (exn + import_state) \<times> conn" where
  "enter_mailbox env acct name st c =
     (if map_of (is_mailbox_ids st) name \<noteq> None then (Inr st, c)
      else case ie_mailbox_fault env name of
             Some e \<Rightarrow> (Inl e, c)
           | None \<Rightarrow>
               (case upsert_mailbox acct name None [] c of
                  (Inl e, c1) \<Rightarrow> (Inl e, c1)
                | (Inr mb, c1) \<Rightarrow>
                    (let c2 = commit c1
                     in (Inr (st\<lparr>is_committed := is_c st,
                                is_mailbox_ids := dict_set name (mb_id mb) (is_mailbox_ids st),
                                is_uid_counters := dict_set name (max_reserved_uid (work c2) acct (mb_id mb))
                                                     (is_uid_counters st)\<rparr>), c2))))"

definition count_stored :: "bool \<Rightarrow> counters \<Rightarrow> counters" where
  "count_stored did_insert c =
     c\<lparr>n_processed := n_processed c + 1, n_inserted := n_inserted c + (if did_insert then 1 else 0),
       n_skipped_dup := n_skipped_dup c + (if did_insert then 0 else 1)\<rparr>"

definition count_failed :: "counters \<Rightarrow> counters" where
  "count_failed c = c\<lparr>n_processed := n_processed c + 1, n_failed := n_failed c + 1\<rparr>"

definition store_message ::
  "import_env \<Rightarrow> int \<Rightarrow> imported_message \<Rightarrow> import_state \<Rightarrow> conn \<Rightarrow> (exn + import_state) \<times> conn" where
  "store_message env acct msg st c =
     (let name = im_mailbox_name msg;
          uid = the (map_of (is_uid_counters st) name) + 1;
          mb = the (map_of (is_mailbox_ids st) name);
          st1 = st\<lparr>is_uid_counters := dict_set name uid (is_uid_counters st)\<rparr>
      in case process_one_message (ie_sync env) acct mb uid (im_raw msg) [] (im_received_date msg) c of
           (Inr (_, did_insert), c1) \<Rightarrow> (Inr (st1\<lparr>is_c := count_stored did_insert (is_c st)\<rparr>), c1)
         | (Inl e, c1) \<Rightarrow>
             if e = Contention then (Inl e, c1)
             else
               (let c2 = rollback_to (work c) c1;
                    at = (case failed_uid (ie_sync env) (work c2) acct mb (im_raw msg) of
                            None \<Rightarrow> uid | Some prior \<Rightarrow> prior)
                in case record_failed_message (ie_sync env) acct mb at (im_raw msg) e c2 of
                     (Some e', c3) \<Rightarrow> (Inl e', c3)
                   | (None, c3) \<Rightarrow> (Inr (st1\<lparr>is_c := count_failed (is_c st)\<rparr>), c3)))"

text \<open>The checkpoint after a message: flush and commit, then poll for cancellation.\<close>

definition checkpoint_job ::
  "import_env \<Rightarrow> import_config \<Rightarrow> int \<Rightarrow> import_state \<Rightarrow> conn \<Rightarrow> import_job list \<Rightarrow>
   (exn + bool) \<times> import_state \<times> conn \<times> import_job list" where
  "checkpoint_job env cfg job_id st c jobs =
     (let now = ie_clock env (is_ticks st);
          st1 = st\<lparr>is_ticks := Suc (is_ticks st)\<rparr>
      in if should_checkpoint (n_processed (is_c st)) (is_at_last st) (now - is_last_at st)
              (checkpoint_every cfg) (checkpoint_seconds cfg)
         then (case ie_flush_fault env (is_polls st) of
                 Some e \<Rightarrow> (Inl e, st1, c, jobs)
               | None \<Rightarrow>
                   (let jobs1 = flush_job (ie_now env (txn c)) job_id (is_c st) jobs;
                        jobs2 = (if ie_cancel env (is_polls st) then snd (cancel_job job_id jobs1) else jobs1)
                    in (Inr (cancel_requested job_id jobs2),
                        st1\<lparr>is_committed := is_c st, is_at_last := n_processed (is_c st), is_last_at := now,
                            is_polls := Suc (is_polls st)\<rparr>,
                        commit c, jobs2)))
         else (Inr False, st1, c, jobs))"

fun import_loop ::
  "import_env \<Rightarrow> import_config \<Rightarrow> int \<Rightarrow> int \<Rightarrow> imported_message list \<Rightarrow> exn option \<Rightarrow> import_state \<Rightarrow> conn \<Rightarrow> import_job list \<Rightarrow>
   (exn + bool) \<times> import_state \<times> conn \<times> import_job list" where
  "import_loop env cfg job_id acct [] raised st c jobs =
     ((case raised of None \<Rightarrow> Inr False | Some e \<Rightarrow> Inl e), st, c, jobs)"
| "import_loop env cfg job_id acct (msg # msgs) raised st c jobs =
     (case enter_mailbox env acct (im_mailbox_name msg) st c of
        (Inl e, c1) \<Rightarrow> (Inl e, st, c1, jobs)
      | (Inr st1, c1) \<Rightarrow>
         (case store_message env acct msg st1 c1 of
            (Inl e, c2) \<Rightarrow> (Inl e, st1, c2, jobs)
          | (Inr st2, c2) \<Rightarrow>
             (case checkpoint_job env cfg job_id st2 c2 jobs of
                (Inr False, st3, c3, jobs3) \<Rightarrow> import_loop env cfg job_id acct msgs raised st3 c3 jobs3
              | stop \<Rightarrow> stop)))"

datatype import_outcome = BadAttempts | NotRun | Reported | TerminalStatusUnwritten exn

definition report :: "exn option \<Rightarrow> import_outcome" where
  "report r = (case r of None \<Rightarrow> Reported | Some e \<Rightarrow> TerminalStatusUnwritten e)"

definition failure_msg :: "exn \<Rightarrow> string" where
  "failure_msg e = (if e = Contention then ''database contention; re-run the import (idempotent): '' @ exn_text e
                    else exn_text e)"

definition fresh_state :: "import_env \<Rightarrow> import_state" where
  "fresh_state env = \<lparr>is_c = zero_counters, is_committed = zero_counters, is_mailbox_ids = [], is_uid_counters = [],
     is_at_last = 0, is_last_at = ie_clock env 0, is_polls = 0, is_ticks = 1\<rparr>"

text \<open>
  The two halves of \<open>run_import\<close>: what the \<open>try\<close> block ends with, that is the status, counters
  and message to report and the connection once closed, and the report itself.
\<close>

definition import_body ::
  "import_env \<Rightarrow> import_config \<Rightarrow> int \<Rightarrow> import_job \<Rightarrow> conn \<Rightarrow> import_job list \<Rightarrow>
   job_status \<times> counters \<times> string option \<times> conn \<times> import_job list" where
  "import_body env cfg job_id job c jobs =
     (case ie_source env (j_source_kind job) (j_source_path job) of
        (msgs, raised) \<Rightarrow>
          (case import_loop env cfg job_id (j_account job) msgs raised (fresh_state env) c jobs of
             (Inl e, st, c1, jobs1) \<Rightarrow> (JobFailed, is_committed st, Some (failure_msg e), rollback c1, jobs1)
           | (Inr cancelled, st, c1, jobs1) \<Rightarrow>
               (case ie_commit_fault env of
                  Some e \<Rightarrow> (JobFailed, is_committed st, Some (failure_msg e), rollback c1, jobs1)
                | None \<Rightarrow> (if cancelled then Cancelled else Completed, is_c st, None, commit c1, jobs1))))"

definition finish_import ::
  "import_env \<Rightarrow> import_config \<Rightarrow> int \<Rightarrow> job_status \<times> counters \<times> string option \<times> conn \<times> import_job list \<Rightarrow>
   import_outcome \<times> conn \<times> import_job list" where
  "finish_import env cfg job_id res =
     (case res of (s, cs, m, c, jobs) \<Rightarrow>
        (case mark_terminal env (nat (terminal_write_attempts cfg)) 0 job_id s cs m jobs of
           (r, jobs') \<Rightarrow> (report r, c, jobs')))"

definition run_import ::
  "import_env \<Rightarrow> import_config \<Rightarrow> int \<Rightarrow> conn \<Rightarrow> import_job list \<Rightarrow> import_outcome \<times> conn \<times> import_job list" where
  "run_import env cfg job_id c jobs =
     (if terminal_write_attempts cfg < 1 then (BadAttempts, c, jobs)
      else case ie_connect env of
             Some e \<Rightarrow> finish_import env cfg job_id (JobFailed, zero_counters, Some (exn_text e), c, jobs)
           | None \<Rightarrow>
              (case load_job job_id jobs of
                 None \<Rightarrow> (NotRun, c, jobs)
               | Some job \<Rightarrow>
                  (case mark_running (ie_now env (txn c)) job_id jobs of
                     (False, jobs1) \<Rightarrow> (NotRun, commit c, jobs1)
                   | (True, jobs1) \<Rightarrow> finish_import env cfg job_id (import_body env cfg job_id job (commit c) jobs1))))"

subsection \<open>Where an imported message is kept\<close>

definition mb_ident :: "mailbox_row \<Rightarrow> int \<times> int \<times> string" where
  "mb_ident m = (mb_id m, mb_account m, mb_name m)"

definition failed_hash :: "sync_env \<Rightarrow> failed_row \<Rightarrow> int \<times> int \<times> bytes" where
  "failed_hash env f = (f_account f, f_mailbox f, e_sha256 env (f_raw f))"

text \<open>
  A message is kept in the mailbox of its name: archived there, or its bytes are in
  \<open>failed_messages\<close>, where equal hashes count as equal bytes.
\<close>

definition kept :: "sync_env \<Rightarrow> int \<Rightarrow> message_row list \<Rightarrow> db \<Rightarrow> imported_message \<Rightarrow> bool" where
  "kept env acct rows d msg \<longleftrightarrow>
     (\<exists>i. (i, acct, im_mailbox_name msg) \<in> mb_ident ` set (mailboxes d) \<and>
          (archived env acct i (im_raw msg) rows (labels d) \<or>
           (acct, i, e_sha256 env (im_raw msg)) \<in> failed_hash env ` set (failed d)))"

definition grows :: "sync_env \<Rightarrow> message_row list \<Rightarrow> db \<Rightarrow> message_row list \<Rightarrow> db \<Rightarrow> bool" where
  "grows env rows d rows' d' \<longleftrightarrow>
     mail_ident ` set rows \<subseteq> mail_ident ` set rows' \<and>
     label_key ` set (labels d) \<subseteq> label_key ` set (labels d') \<and>
     mb_ident ` set (mailboxes d) \<subseteq> mb_ident ` set (mailboxes d') \<and>
     failed_hash env ` set (failed d) \<subseteq> failed_hash env ` set (failed d')"

lemma grows_kept: "grows env rows d rows' d' \<Longrightarrow> kept env acct rows d msg \<Longrightarrow> kept env acct rows' d' msg"
proof -
  assume g: "grows env rows d rows' d'" and "kept env acct rows d msg"
  then obtain i where i: "(i, acct, im_mailbox_name msg) \<in> mb_ident ` set (mailboxes d)"
    and k: "archived env acct i (im_raw msg) rows (labels d) \<or>
      (acct, i, e_sha256 env (im_raw msg)) \<in> failed_hash env ` set (failed d)"
    unfolding kept_def by meson
  note g = g [unfolded grows_def]
  from k have "archived env acct i (im_raw msg) rows' (labels d') \<or>
      (acct, i, e_sha256 env (im_raw msg)) \<in> failed_hash env ` set (failed d')"
  proof
    assume "archived env acct i (im_raw msg) rows (labels d)"
    from archived_mono [OF this] g show ?thesis by simp
  next
    assume "(acct, i, e_sha256 env (im_raw msg)) \<in> failed_hash env ` set (failed d)"
    with g show ?thesis by (meson subsetD)
  qed
  moreover from i g have "(i, acct, im_mailbox_name msg) \<in> mb_ident ` set (mailboxes d')" by (meson subsetD)
  ultimately show ?thesis unfolding kept_def by meson
qed

lemma grows_refl [simp]: "grows env rows d rows d"
  by (simp add: grows_def)

lemma grows_trans: "grows env a d b e \<Longrightarrow> grows env b e c f \<Longrightarrow> grows env a d c f"
  unfolding grows_def by (meson subset_trans)

lemma grows_process:
  assumes "process_one_message env acct mb uid raw flags idate c = (res, c')"
  shows "grows env' (visible_messages c) (work c) (visible_messages c') (work c')"
    "grows env' (visible_messages c) (work c) (visible_messages (rollback_to (work c) c')) (work c)"
proof -
  have k: "mail_ident ` set (messages (work c)) \<subseteq> mail_ident ` set (messages (work c'))" "set (others c) \<subseteq> set (others c')"
      "label_key ` set (labels (work c)) \<subseteq> label_key ` set (labels (work c'))"
    and b: "mailboxes (work c') = mailboxes (work c)" "failed (work c') = failed (work c)"
    using process_frame [OF assms] by (simp_all add: keeps_mail_def same_books_def)
  from k(2) have "mail_ident ` set (others c) \<subseteq> mail_ident ` set (others c')" by (rule image_mono)
  note parts = this k(1,3) b
  show "grows env' (visible_messages c) (work c) (visible_messages c') (work c')"
    using parts by (simp add: grows_def visible_messages_def image_Un le_supI1 le_supI2)
  show "grows env' (visible_messages c) (work c) (visible_messages (rollback_to (work c) c')) (work c)"
    using parts by (simp add: grows_def visible_messages_def image_Un le_supI2)
qed

subsection \<open>The books of an import\<close>

definition hashes_ok :: "sync_env \<Rightarrow> db \<Rightarrow> bool" where
  "hashes_ok env d \<longleftrightarrow> (\<forall>f \<in> set (failed d). f_sha256 f = e_sha256 env (f_raw f))"

definition uid_ceiling :: "db \<Rightarrow> int \<Rightarrow> int \<Rightarrow> int \<Rightarrow> bool" where
  "uid_ceiling d acct mb u \<longleftrightarrow> (\<forall>f \<in> set (failed d). f_account f = acct \<and> f_mailbox f = mb \<longrightarrow> f_uid f \<le> u)"

definition books :: "sync_env \<Rightarrow> int \<Rightarrow> import_state \<Rightarrow> conn \<Rightarrow> bool" where
  "books env acct st c \<longleftrightarrow> wf_conn c \<and> hashes_ok env (work c) \<and>
     (\<forall>name i. map_of (is_mailbox_ids st) name = Some i \<longrightarrow>
        (i, acct, name) \<in> mb_ident ` set (mailboxes (work c)) \<and>
        (\<exists>u. map_of (is_uid_counters st) name = Some u \<and> uid_ceiling (work c) acct i u))"

lemma failed_uid_Some:
  assumes "failed_uid env d acct mb raw = Some u"
  shows "\<exists>f \<in> set (failed d). f_account f = acct \<and> f_mailbox f = mb \<and> f_uid f = u \<and> f_sha256 f = e_sha256 env raw"
proof -
  let ?rows = "filter (\<lambda>f. f_account f = acct \<and> f_mailbox f = mb \<and> f_sha256 f = e_sha256 env raw) (failed d)"
  from assms obtain us where "sort (map f_uid ?rows) = u # us"
    by (auto simp: failed_uid_def Let_def split: list.splits)
  then have "u \<in> set (sort (map f_uid ?rows))" by simp
  then show ?thesis by auto
qed

text \<open>
  Recording a poison message under the uid the importer chooses overwrites no other message's
  bytes: the uid is fresh, or it is that of a row for the same bytes.
\<close>

definition uid_safe :: "sync_env \<Rightarrow> db \<Rightarrow> int \<Rightarrow> int \<Rightarrow> int \<Rightarrow> bytes \<Rightarrow> bool" where
  "uid_safe env d acct mb u raw \<longleftrightarrow>
     (\<forall>f \<in> set (failed d). f_account f = acct \<and> f_mailbox f = mb \<and> f_uid f = u \<longrightarrow> f_sha256 f = e_sha256 env raw)"

lemma chosen_uid_safe:
  assumes "failed_uid env d acct mb raw = Some w \<or> w = u + 1" "uid_ceiling d acct mb u" "unique_by failed_key (failed d)"
  shows "uid_safe env d acct mb w raw \<and> w \<le> u + 1"
  using assms(1)
proof
  assume "failed_uid env d acct mb raw = Some w"
  then obtain h where h: "h \<in> set (failed d)" "f_account h = acct" "f_mailbox h = mb" "f_uid h = w"
    "f_sha256 h = e_sha256 env raw" using failed_uid_Some by blast
  have "g = h" if "g \<in> set (failed d)" "f_account g = acct" "f_mailbox g = mb" "f_uid g = w" for g
    using assms(3) that(1) h(1) by (rule unique_byD) (use that h in \<open>simp add: failed_key_def\<close>)
  moreover have "w \<le> u" using h assms(2) by (simp add: uid_ceiling_def) blast
  ultimately show ?thesis using h(5) by (force simp: uid_safe_def)
next
  assume "w = u + 1"
  with assms(2) show ?thesis by (force simp: uid_ceiling_def uid_safe_def)
qed

lemma failed_uid_hash:
  "failed_uid env d acct mb raw = Some u \<Longrightarrow> hashes_ok env d \<Longrightarrow>
   (acct, mb, e_sha256 env raw) \<in> failed_hash env ` set (failed d)"
  using failed_uid_Some [of env d acct mb raw u] by (force simp: failed_hash_def hashes_ok_def failed_key_def)

lemma record_failed_grows:
  assumes run: "record_failed_message env acct mb u raw exc c = (None, c')"
    and "wf_conn c" "hashes_ok env (work c)"
    and u: "uid_safe env (work c) acct mb u raw"
    and fault: "e_fault env (FailLog u) = None \<or> e_fault env (FailLog u) = Some Contention"
  shows "grows env (visible_messages c) (work c) (visible_messages c') (work c')"
    "(acct, mb, e_sha256 env raw) \<in> failed_hash env ` set (failed (work c'))"
    "committed c' = committed c" "others c' = others c" "mailboxes (work c') = mailboxes (work c)"
    "hashes_ok env (work c')" "wf_conn c'"
    "uid_ceiling (work c) a m k \<Longrightarrow> a = acct \<and> m = mb \<longrightarrow> u \<le> k \<Longrightarrow> uid_ceiling (work c') a m k"
proof -
  have none: "e_fault env (FailLog u) = None" using run fault by (auto simp: record_failed_message_def)
  let ?hit = "\<lambda>f. f_account f = acct \<and> f_mailbox f = mb \<and> f_uid f = u"
  define now where "now = e_clock env (txn c)"
  define g where "g f = (f :: failed_row)\<lparr>f_raw := raw, f_sha256 := e_sha256 env raw, f_error := exn_text exc, f_failed_at := now,
    f_retry_count := f_retry_count f + 1, f_last_retry_at := Some now\<rparr>" for f
  define new where "new = \<lparr>f_id = failed_seq c, f_account = acct, f_mailbox = mb, f_uid = u, f_raw = raw,
    f_sha256 = e_sha256 env raw, f_error = exn_text exc, f_failed_at = now, f_retry_count = 0, f_last_retry_at = None\<rparr>"
  define known where "known \<longleftrightarrow> (\<exists>f \<in> set (failed (work c)). ?hit f)"
  have eq: "c' = with_work (\<lambda>d. d\<lparr>failed := if known then update_where ?hit g (failed d) else failed d @ [new]\<rparr>)
      (c\<lparr>failed_seq := failed_seq c + 1\<rparr>)"
    using run none unfolding record_failed_message_def Let_def known_def [symmetric] g_def [abs_def] new_def now_def
    by (cases known) simp_all
  then have c': "labels (work c') = labels (work c)" "messages (work c') = messages (work c)"
      "mailboxes (work c') = mailboxes (work c)" "committed c' = committed c" "others c' = others c"
    and fl: "failed (work c') = (if known then update_where ?hit g (failed (work c)) else failed (work c) @ [new])"
    by simp_all
  have g: "\<And>f. f_raw (g f) = raw \<and> f_sha256 (g f) = e_sha256 env raw \<and> failed_key (g f) = failed_key f"
    and new: "f_raw new = raw" "f_sha256 new = e_sha256 env raw" "failed_key new = (acct, mb, u)"
    by (simp_all add: g_def new_def failed_key_def)
  have hash: "failed_hash env (g f) = failed_hash env f" if "f \<in> set (failed (work c))" "?hit f" for f
    using that u assms(3) g [of f] by (simp add: failed_hash_def hashes_ok_def failed_key_def uid_safe_def)
  have sub: "failed_hash env ` set (failed (work c)) \<subseteq> failed_hash env ` set (failed (work c'))"
  proof
    fix x assume "x \<in> failed_hash env ` set (failed (work c))"
    then obtain f where f: "f \<in> set (failed (work c))" "x = failed_hash env f" by blast
    let ?y = "if known \<and> ?hit f then g f else f"
    have "failed_hash env ?y = x" using hash [OF f(1)] f(2) by simp
    moreover have "?y \<in> set (failed (work c'))" using f(1) fl by (auto simp: set_update_where)
    ultimately show "x \<in> failed_hash env ` set (failed (work c'))" by blast
  qed
  then show "grows env (visible_messages c) (work c) (visible_messages c') (work c')"
    by (simp add: grows_def visible_messages_def c')
  show "(acct, mb, e_sha256 env raw) \<in> failed_hash env ` set (failed (work c'))"
  proof (cases known)
    case True
    then obtain f where f: "f \<in> set (failed (work c))" "?hit f" unfolding known_def by blast
    then have "g f \<in> set (failed (work c'))" using fl True by (auto simp: set_update_where image_iff intro!: bexI [of _ f])
    moreover have "failed_hash env (g f) = (acct, mb, e_sha256 env raw)"
      using g [of f] f(2) by (simp add: failed_hash_def failed_key_def)
    ultimately show ?thesis by (metis imageI)
  next
    case False
    with fl new show ?thesis by (simp add: failed_hash_def failed_key_def)
  qed
  show "committed c' = committed c" "others c' = others c" "mailboxes (work c') = mailboxes (work c)" by (fact c')+
  show "hashes_ok env (work c')" using assms(3) fl g new by (auto simp: hashes_ok_def set_update_where split: if_splits)
  show "wf_conn c'" by (rule wf_record_failed [OF assms(2) run])
  show "uid_ceiling (work c') a m k" if "uid_ceiling (work c) a m k" "a = acct \<and> m = mb \<longrightarrow> u \<le> k"
    using that fl g new
    by (fastforce simp: uid_ceiling_def set_update_where failed_key_def split: if_splits)
qed


text \<open>
  The statement that should keep the bytes of a poison message under UID \<open>u\<close> fails, and not by
  contention: \<open>_record_failed_message\<close> logs the error and goes on (contention it raises again).
\<close>

definition unlogged :: "sync_env \<Rightarrow> int \<Rightarrow> bool" where
  "unlogged env u \<longleftrightarrow> e_fault env (FailLog u) \<notin> {None, Some Contention}"

lemma record_failed_unlogged:
  "record_failed_message env acct mb u raw exc c = (None, c') \<Longrightarrow> unlogged env u \<Longrightarrow> c' = c"
  by (auto simp: record_failed_message_def unlogged_def split: option.splits if_splits)

lemma record_failed_outcome:
  assumes run: "record_failed_message env acct mb u raw exc c = (None, c')"
    and c: "wf_conn c" "hashes_ok env (work c)" and u: "uid_safe env (work c) acct mb u raw"
  shows "grows env (visible_messages c) (work c) (visible_messages c') (work c') \<and> committed c' = committed c \<and>
      others c' = others c \<and> mailboxes (work c') = mailboxes (work c) \<and> hashes_ok env (work c') \<and> wf_conn c'"
    "(acct, mb, e_sha256 env raw) \<in> failed_hash env ` set (failed (work c')) \<or> unlogged env u \<and> work c' = work c"
    "uid_ceiling (work c) a m k \<Longrightarrow> a = acct \<and> m = mb \<longrightarrow> u \<le> k \<Longrightarrow> uid_ceiling (work c') a m k"
proof (atomize (full), cases "unlogged env u")
  case True
  then show "(grows env (visible_messages c) (work c) (visible_messages c') (work c') \<and> committed c' = committed c \<and>
      others c' = others c \<and> mailboxes (work c') = mailboxes (work c) \<and> hashes_ok env (work c') \<and> wf_conn c') \<and>
    ((acct, mb, e_sha256 env raw) \<in> failed_hash env ` set (failed (work c')) \<or> unlogged env u \<and> work c' = work c) \<and>
    (uid_ceiling (work c) a m k \<longrightarrow> (a = acct \<and> m = mb \<longrightarrow> u \<le> k) \<longrightarrow> uid_ceiling (work c') a m k)"
    using record_failed_unlogged [OF run] c by (auto simp: grows_def)
next
  case False
  then have "e_fault env (FailLog u) = None \<or> e_fault env (FailLog u) = Some Contention" by (simp add: unlogged_def)
  note rf = record_failed_grows [OF run c u this]
  show "(grows env (visible_messages c) (work c) (visible_messages c') (work c') \<and> committed c' = committed c \<and>
      others c' = others c \<and> mailboxes (work c') = mailboxes (work c) \<and> hashes_ok env (work c') \<and> wf_conn c') \<and>
    ((acct, mb, e_sha256 env raw) \<in> failed_hash env ` set (failed (work c')) \<or> unlogged env u \<and> work c' = work c) \<and>
    (uid_ceiling (work c) a m k \<longrightarrow> (a = acct \<and> m = mb \<longrightarrow> u \<le> k) \<longrightarrow> uid_ceiling (work c') a m k)"
    using rf by blast
qed

lemma reserved_ceiling: "uid_ceiling d acct mb (max_reserved_uid d acct mb)"
  by (auto simp: uid_ceiling_def max_reserved_uid_def le_max_iff_disj intro!: disjI2 max_or_zero_ge)

lemma upsert_mailbox_grows:
  assumes "upsert_mailbox acct name delim flags c = (Inr m, c')"
  shows "grows env (visible_messages c) (work c) (visible_messages c') (work c')"
    "(mb_id m, acct, name) \<in> mb_ident ` set (mailboxes (work c'))"
    "failed (work c') = failed (work c)" "committed c' = committed c" "others c' = others c"
proof -
  let ?hit = "\<lambda>m. mb_account m = acct \<and> mb_name m = name"
  let ?new = "\<lambda>m. m\<lparr>mb_delimiter := delim, mb_flags := flags\<rparr>"
  have id: "map mb_ident (update_where ?hit ?new ms) = map mb_ident ms" for ms
    by (rule map_update_where) (simp add: mb_ident_def)
  have "failed (work c') = failed (work c) \<and> committed c' = committed c \<and> others c' = others c \<and>
      labels (work c') = labels (work c) \<and> messages (work c') = messages (work c) \<and>
      mb_ident ` set (mailboxes (work c)) \<subseteq> mb_ident ` set (mailboxes (work c')) \<and>
      (mb_id m, acct, name) \<in> mb_ident ` set (mailboxes (work c'))"
  proof (cases "find ?hit (mailboxes (work c))")
    case None
    with assms show ?thesis by (auto simp: upsert_mailbox_def Let_def mb_ident_def split: if_splits)
  next
    case (Some k)
    with assms have c': "c' = with_work (\<lambda>d. d\<lparr>mailboxes := update_where ?hit ?new (mailboxes d)\<rparr>)
        (c\<lparr>mailbox_seq := mailbox_seq c + 1\<rparr>)" "m = ?new k"
      by (simp_all add: upsert_mailbox_def Let_def)
    have "k \<in> set (mailboxes (work c))" "?hit k" using find_SomeD [OF Some] by simp_all
    then have "(mb_id m, acct, name) \<in> set (map mb_ident (mailboxes (work c)))"
      using c'(2) by (auto simp: mb_ident_def image_iff)
    moreover have "mb_ident ` set (mailboxes (work c')) = mb_ident ` set (mailboxes (work c))"
      using arg_cong [OF id, of set] c'(1) by simp
    ultimately show ?thesis by (simp add: c'(1))
  qed
  then show "grows env (visible_messages c) (work c) (visible_messages c') (work c')"
    "(mb_id m, acct, name) \<in> mb_ident ` set (mailboxes (work c'))"
    "failed (work c') = failed (work c)" "committed c' = committed c" "others c' = others c"
    by (simp_all add: grows_def visible_messages_def)
qed

lemma books_frame:
  assumes "books env acct st c" "wf_conn c'" "hashes_ok env (work c')"
    and "mb_ident ` set (mailboxes (work c)) \<subseteq> mb_ident ` set (mailboxes (work c'))"
    and "\<And>name i. map_of (is_mailbox_ids st') name = Some i \<Longrightarrow>
       map_of (is_mailbox_ids st) name = Some i \<or> (i, acct, name) \<in> mb_ident ` set (mailboxes (work c'))"
    and "\<And>name i. map_of (is_mailbox_ids st') name = Some i \<Longrightarrow>
       \<exists>u. map_of (is_uid_counters st') name = Some u \<and> uid_ceiling (work c') acct i u"
  shows "books env acct st' c'"
  using assms unfolding books_def by (meson subsetD)

lemma enter_mailbox_ok:
  assumes run: "enter_mailbox env acct name st c = (Inr st', c')" and b: "books (ie_sync env) acct st c"
  shows "grows (ie_sync env) (visible_messages c) (work c) (visible_messages c') (work c')"
    "books (ie_sync env) acct st' c'" "map_of (is_mailbox_ids st') name \<noteq> None" "is_c st' = is_c st" "others c' = others c"
    "committed c' = committed c \<and> is_committed st' = is_committed st \<or> committed c' = work c' \<and> is_committed st' = is_c st"
proof -
  have "(grows (ie_sync env) (visible_messages c) (work c) (visible_messages c') (work c') \<and>
    books (ie_sync env) acct st' c' \<and> map_of (is_mailbox_ids st') name \<noteq> None \<and> is_c st' = is_c st \<and> others c' = others c) \<and>
    (committed c' = committed c \<and> is_committed st' = is_committed st \<or> committed c' = work c' \<and> is_committed st' = is_c st)"
  proof (cases "map_of (is_mailbox_ids st) name")
    case (Some i)
    with run b show ?thesis by (simp add: enter_mailbox_def)
  next
    case None
    obtain mb c1 where u: "upsert_mailbox acct name None [] c = (Inr mb, c1)" and c': "c' = commit c1"
      and st': "st' = st\<lparr>is_committed := is_c st, is_mailbox_ids := dict_set name (mb_id mb) (is_mailbox_ids st),
        is_uid_counters := dict_set name (max_reserved_uid (work (commit c1)) acct (mb_id mb)) (is_uid_counters st)\<rparr>"
      using run None unfolding enter_mailbox_def Let_def
      by (fastforce split: option.splits prod.splits sum.splits)
    note g = upsert_mailbox_grows [OF u]
    have "books (ie_sync env) acct st' (commit c1)"
    proof (rule books_frame [OF b])
      show "wf_conn (commit c1)" using wf_upsert_mailbox [OF _ u] b by (simp add: books_def wf_commit)
      show "hashes_ok (ie_sync env) (work (commit c1))" using b g(3) by (simp add: books_def hashes_ok_def)
      show "mb_ident ` set (mailboxes (work c)) \<subseteq> mb_ident ` set (mailboxes (work (commit c1)))"
        using g(1) by (simp add: grows_def)
      fix n i assume i: "map_of (is_mailbox_ids st') n = Some i"
      then show "map_of (is_mailbox_ids st) n = Some i \<or> (i, acct, n) \<in> mb_ident ` set (mailboxes (work (commit c1)))"
        using g(2) by (auto simp: st' split: if_splits)
      show "\<exists>u. map_of (is_uid_counters st') n = Some u \<and> uid_ceiling (work (commit c1)) acct i u"
      proof (cases "n = name")
        case True
        with i show ?thesis by (simp add: st' reserved_ceiling)
      next
        case False
        with i have "map_of (is_mailbox_ids st) n = Some i" by (simp add: st')
        with b False g(3) show ?thesis by (simp add: books_def st' uid_ceiling_def)
      qed
    qed
    then show ?thesis using g by (simp add: c' st' visible_messages_def)
  qed
  then show "grows (ie_sync env) (visible_messages c) (work c) (visible_messages c') (work c')"
    "books (ie_sync env) acct st' c'" "map_of (is_mailbox_ids st') name \<noteq> None" "is_c st' = is_c st" "others c' = others c"
    "committed c' = committed c \<and> is_committed st' = is_committed st \<or> committed c' = work c' \<and> is_committed st' = is_c st"
    by blast+
qed


lemma store_message_cases:
  assumes "store_message env acct msg st c = (Inr st', c')"
  obtains (stored) ki did where "process_one_message (ie_sync env) acct (the (map_of (is_mailbox_ids st) (im_mailbox_name msg)))
        (the (map_of (is_uid_counters st) (im_mailbox_name msg)) + 1) (im_raw msg) [] (im_received_date msg) c = (Inr (ki, did), c')"
      "is_c st' = count_stored did (is_c st)"
  | (poison) e c1 u where "process_one_message (ie_sync env) acct (the (map_of (is_mailbox_ids st) (im_mailbox_name msg)))
        (the (map_of (is_uid_counters st) (im_mailbox_name msg)) + 1) (im_raw msg) [] (im_received_date msg) c = (Inl e, c1)"
      "failed_uid (ie_sync env) (work c) acct (the (map_of (is_mailbox_ids st) (im_mailbox_name msg))) (im_raw msg) = Some u \<or>
       u = the (map_of (is_uid_counters st) (im_mailbox_name msg)) + 1"
      "record_failed_message (ie_sync env) acct (the (map_of (is_mailbox_ids st) (im_mailbox_name msg))) u (im_raw msg) e
        (rollback_to (work c) c1) = (None, c')"
      "is_c st' = count_failed (is_c st)"
  using assms unfolding store_message_def Let_def
  by (fastforce split: prod.splits sum.splits if_splits option.splits)

lemma store_message_state:
  "store_message env acct msg st c = (Inr st', c') \<Longrightarrow> is_mailbox_ids st' = is_mailbox_ids st \<and>
   is_committed st' = is_committed st \<and>
   is_uid_counters st' = dict_set (im_mailbox_name msg) (the (map_of (is_uid_counters st) (im_mailbox_name msg)) + 1) (is_uid_counters st)"
  unfolding store_message_def Let_def by (auto split: prod.splits sum.splits if_splits option.splits)

lemma ceiling_mono: "uid_ceiling d a m u \<Longrightarrow> u \<le> v \<Longrightarrow> uid_ceiling d a m v"
  by (force simp: uid_ceiling_def)

lemma same_failed_ceiling: "failed d' = failed d \<Longrightarrow> uid_ceiling d' a m u = uid_ceiling d a m u"
  by (simp add: uid_ceiling_def)

text \<open>Two mailboxes of the books are the same only if their names are.\<close>

lemma books_injective:
  assumes "books env acct st c" "map_of (is_mailbox_ids st) a = Some i" "map_of (is_mailbox_ids st) b = Some i"
  shows "a = b"
proof -
  have "unique_by mb_id (mailboxes (work c))" using assms(1) by (simp add: books_def wf_conn_def)
  have "(i, acct, a) \<in> mb_ident ` set (mailboxes (work c))" "(i, acct, b) \<in> mb_ident ` set (mailboxes (work c))"
    using assms unfolding books_def by blast+
  then obtain m n where m: "m \<in> set (mailboxes (work c))" "(i, acct, a) = mb_ident m"
    and n: "n \<in> set (mailboxes (work c))" "(i, acct, b) = mb_ident n" by blast
  have "m = n" using \<open>unique_by mb_id (mailboxes (work c))\<close> m(1) n(1) by (rule unique_byD) (use m n in \<open>simp add: mb_ident_def\<close>)
  then show ?thesis using m(2) n(2) by (metis prod.inject)
qed

text \<open>The counters after a message still bound the failed rows of every mailbox.\<close>

lemma ceilings_kept:
  assumes b: "books env acct st c" and known: "map_of (is_mailbox_ids st) name = Some i"
    and u: "map_of (is_uid_counters st) name = Some u" "uid_ceiling (work c) acct i u"
    and st': "is_mailbox_ids st' = is_mailbox_ids st" "is_uid_counters st' = dict_set name (u + 1) (is_uid_counters st)"
    and n: "map_of (is_mailbox_ids st') n = Some j"
    and d: "\<And>k. uid_ceiling (work c) acct j k \<Longrightarrow> j = i \<longrightarrow> u + 1 \<le> k \<Longrightarrow> uid_ceiling d acct j k"
  shows "\<exists>v. map_of (is_uid_counters st') n = Some v \<and> uid_ceiling d acct j v"
proof (cases "n = name")
  case True
  with n known st'(1) have "j = i" by simp
  with d [of "u + 1"] ceiling_mono [OF u(2), of "u + 1"] True show ?thesis by (simp add: st'(2))
next
  case False
  then have "j \<noteq> i" using books_injective [OF b, of n i name] n known st'(1) by auto
  moreover obtain v where "map_of (is_uid_counters st) n = Some v" "uid_ceiling (work c) acct j v"
    using b n unfolding books_def st'(1) by blast
  ultimately show ?thesis using False d [of v] by (simp add: st'(2))
qed

definition stored_ok :: "sync_env \<Rightarrow> int \<Rightarrow> imported_message \<Rightarrow> int \<Rightarrow> import_state \<Rightarrow> conn \<Rightarrow> conn \<Rightarrow> bool" where
  "stored_ok env acct msg u st' c c' \<longleftrightarrow> grows env (visible_messages c) (work c) (visible_messages c') (work c') \<and>
     (kept env acct (visible_messages c') (work c') msg \<or> unlogged env (u + 1)) \<and> books env acct st' c' \<and>
     committed c' = committed c \<and> set (others c) \<subseteq> set (others c')"

lemma stored_case:
  assumes b: "books env acct st c" and known: "map_of (is_mailbox_ids st) (im_mailbox_name msg) = Some i"
    and mb: "(i, acct, im_mailbox_name msg) \<in> mb_ident ` set (mailboxes (work c))"
    and u: "map_of (is_uid_counters st) (im_mailbox_name msg) = Some u" "uid_ceiling (work c) acct i u"
    and st': "is_mailbox_ids st' = is_mailbox_ids st" "is_uid_counters st' = dict_set (im_mailbox_name msg) (u + 1) (is_uid_counters st)"
    and p: "process_one_message env acct i w (im_raw msg) [] idate c = (Inr ki, c')"
  shows "stored_ok env acct msg u st' c c' \<and> kept env acct (visible_messages c') (work c') msg"
proof -
  have wf: "wf_conn c" "hashes_ok env (work c)" using b by (simp_all add: books_def)
  have sb: "mailboxes (work c') = mailboxes (work c)" "failed (work c') = failed (work c)" "committed c' = committed c"
    "set (others c) \<subseteq> set (others c')" "wf_conn c'"
    using process_frame [OF p] wf(1) by (simp_all add: same_books_def keeps_mail_def)
  have "kept env acct (visible_messages c') (work c') msg"
    unfolding kept_def sb(1) using process_archives [OF p] mb by blast
  moreover have "books env acct st' c'"
  proof (rule books_frame [OF b sb(5)])
    show "hashes_ok env (work c')" using wf(2) sb(2) by (simp add: hashes_ok_def)
    show "\<exists>v. map_of (is_uid_counters st') n = Some v \<and> uid_ceiling (work c') acct j v"
      if "map_of (is_mailbox_ids st') n = Some j" for n j
      by (rule ceilings_kept [OF b known u st' that]) (simp add: same_failed_ceiling [OF sb(2)])
  qed (simp_all add: sb st')
  ultimately show ?thesis using grows_process(1) [OF p] sb by (simp add: stored_ok_def)
qed

lemma poison_case:
  assumes b: "books env acct st c" and known: "map_of (is_mailbox_ids st) (im_mailbox_name msg) = Some i"
    and mb: "(i, acct, im_mailbox_name msg) \<in> mb_ident ` set (mailboxes (work c))"
    and u: "map_of (is_uid_counters st) (im_mailbox_name msg) = Some u" "uid_ceiling (work c) acct i u"
    and st': "is_mailbox_ids st' = is_mailbox_ids st" "is_uid_counters st' = dict_set (im_mailbox_name msg) (u + 1) (is_uid_counters st)"
    and p: "process_one_message env acct i v (im_raw msg) [] idate c = (Inl e, c1)"
    and r: "record_failed_message env acct i w (im_raw msg) e (rollback_to (work c) c1) = (None, c')"
    and w: "failed_uid env (work c) acct i (im_raw msg) = Some w \<or> w = u + 1"
  shows "stored_ok env acct msg u st' c c'"
proof -
  have wf: "wf_conn c" "hashes_ok env (work c)" using b by (simp_all add: books_def)
  have "unique_by failed_key (failed (work c))" using wf(1) by (simp add: wf_conn_def)
  with chosen_uid_safe [OF w u(2)] have safe: "uid_safe env (work c) acct i w (im_raw msg)" "w \<le> u + 1" by simp_all
  have cm: "committed c1 = committed c" "set (others c) \<subseteq> set (others c1)"
    using process_frame [OF p] by (simp_all add: same_books_def keeps_mail_def)
  note rf = record_failed_outcome [OF r wf_rolled_back [OF p wf(1)], unfolded rollback_to_simps, OF wf(2) safe(1)]
  have "w = u + 1 \<or> (acct, i, e_sha256 env (im_raw msg)) \<in> failed_hash env ` set (failed (work c))"
    using w failed_uid_hash [OF _ wf(2)] by blast
  then have row: "(acct, i, e_sha256 env (im_raw msg)) \<in> failed_hash env ` set (failed (work c')) \<or> unlogged env (u + 1)"
    using rf(2) by auto
  have "kept env acct (visible_messages c') (work c') msg \<or> unlogged env (u + 1)"
    unfolding kept_def using rf(1) row mb by auto
  moreover have "books env acct st' c'"
  proof (rule books_frame [OF b])
    show "\<exists>v. map_of (is_uid_counters st') n = Some v \<and> uid_ceiling (work c') acct j v"
      if "map_of (is_mailbox_ids st') n = Some j" for n j
      by (rule ceilings_kept [OF b known u st' that]) (use rf(3) safe(2) in force)
  qed (use rf(1) in \<open>simp_all add: st'\<close>)
  moreover have "grows env (visible_messages c) (work c) (visible_messages c') (work c')"
    using grows_trans [OF grows_process(2) [OF p]] rf(1) by blast
  ultimately show ?thesis using rf(1) cm by (simp add: stored_ok_def)
qed

lemma store_message_ok:
  assumes run: "store_message env acct msg st c = (Inr st', c')" and b: "books (ie_sync env) acct st c"
    and known: "map_of (is_mailbox_ids st) (im_mailbox_name msg) = Some i"
  shows "\<exists>u. map_of (is_uid_counters st) (im_mailbox_name msg) = Some u \<and> stored_ok (ie_sync env) acct msg u st' c c' \<and>
    (kept (ie_sync env) acct (visible_messages c') (work c') msg \<or> is_c st' = count_failed (is_c st))"
proof -
  let ?name = "im_mailbox_name msg"
  obtain u where u: "map_of (is_uid_counters st) ?name = Some u" "uid_ceiling (work c) acct i u"
    and mb: "(i, acct, ?name) \<in> mb_ident ` set (mailboxes (work c))"
    using b known unfolding books_def by blast
  have st': "is_mailbox_ids st' = is_mailbox_ids st" "is_uid_counters st' = dict_set ?name (u + 1) (is_uid_counters st)"
    using store_message_state [OF run] u(1) by simp_all
  from run show ?thesis
  proof (cases rule: store_message_cases)
    case (stored ki did)
    then show ?thesis using stored_case [OF b known mb u st'] known u(1) by simp
  next
    case (poison e c1 w)
    then show ?thesis using poison_case [OF b known mb u st'] known u(1) by simp
  qed
qed


subsection \<open>The import loop\<close>

definition counted :: "counters \<Rightarrow> nat \<Rightarrow> bool" where
  "counted c k \<longleftrightarrow> n_processed c = int k \<and> n_processed c = n_inserted c + n_skipped_dup c + n_failed c"

text \<open>
  All of \<open>msgs\<close> are kept but for the ones that are \<open>lost\<close>: at most one message for each of a
  list of different failing statements (the mailbox's name and the UID), and all of them counted
  as failed.
\<close>

definition kept_but ::
  "sync_env \<Rightarrow> int \<Rightarrow> (string \<times> int) list \<Rightarrow> int \<Rightarrow> message_row list \<Rightarrow> db \<Rightarrow> imported_message list \<Rightarrow> bool" where
  "kept_but env acct lost n rows d msgs \<longleftrightarrow>
     distinct lost \<and> int (length lost) \<le> n \<and> (\<forall>(name, u) \<in> set lost. unlogged env u) \<and>
     length (filter (\<lambda>msg. \<not> kept env acct rows d msg) msgs) \<le> length lost"

lemma fewer_filtered: "(\<And>x. P x \<Longrightarrow> Q x) \<Longrightarrow> length (filter P xs) \<le> length (filter Q xs)"
  by (induction xs) auto

lemma kept_but_grows:
  assumes "kept_but env acct lost n rows d msgs" "grows env rows d rows' d'"
  shows "kept_but env acct lost n rows' d' msgs"
proof -
  have "length (filter (\<lambda>msg. \<not> kept env acct rows' d' msg) msgs) \<le> length (filter (\<lambda>msg. \<not> kept env acct rows d msg) msgs)"
    by (rule fewer_filtered) (use grows_kept [OF assms(2)] in blast)
  with assms(1) show ?thesis unfolding kept_but_def by linarith
qed

lemma kept_but_Nil [simp]: "kept_but env acct [] 0 rows d []"
  by (simp add: kept_but_def)

lemma kept_but_all:
  "kept_but env acct lost n rows d msgs \<Longrightarrow> (\<And>u. \<not> unlogged env u) \<Longrightarrow> \<forall>msg \<in> set msgs. kept env acct rows d msg"
  by (cases lost) (auto simp: kept_but_def filter_empty_conv)

lemma kept_but_snoc:
  assumes "kept_but env acct lost n rows d msgs" "n \<le> n'" "kept env acct rows d msg"
  shows "kept_but env acct lost n' rows d (msgs @ [msg])"
  using assms by (auto simp: kept_but_def)

lemma kept_but_lose:
  assumes "kept_but env acct lost n rows d msgs" "unlogged env u" "(name, u) \<notin> set lost"
  shows "kept_but env acct ((name, u) # lost) (n + 1) rows d (msgs @ [msg])"
  using assms by (auto simp: kept_but_def)

text \<open>The UIDs blamed so far have been used up.\<close>

definition used_up :: "(string \<times> int) list \<Rightarrow> import_state \<Rightarrow> bool" where
  "used_up lost st \<longleftrightarrow> (\<forall>(name, u) \<in> set lost. map_of (is_mailbox_ids st) name \<noteq> None \<and>
     (\<exists>v. map_of (is_uid_counters st) name = Some v \<and> u \<le> v))"

lemma used_up_fresh: "used_up lost st \<Longrightarrow> map_of (is_uid_counters st) name = Some u \<Longrightarrow> (name, u + 1) \<notin> set lost"
  by (fastforce simp: used_up_def)

lemma used_up_next:
  assumes "used_up lost st" "map_of (is_uid_counters st) name = Some u" "map_of (is_mailbox_ids st) name \<noteq> None"
    and "is_mailbox_ids st' = is_mailbox_ids st" "is_uid_counters st' = dict_set name (u + 1) (is_uid_counters st)"
  shows "used_up lost st'" "used_up ((name, u + 1) # lost) st'"
  using assms by (fastforce simp: used_up_def)+

lemma used_up_enter: "enter_mailbox env acct name st c = (Inr st', c') \<Longrightarrow> used_up lost st \<Longrightarrow> used_up lost st'"
  unfolding enter_mailbox_def Let_def used_up_def
  by (fastforce split: if_splits option.splits prod.splits sum.splits)

definition committed_prefix ::
  "sync_env \<Rightarrow> int \<Rightarrow> imported_message list \<Rightarrow> import_state \<Rightarrow> conn \<Rightarrow> bool" where
  "committed_prefix env acct dn st c \<longleftrightarrow> (\<exists>k \<le> length dn. counted (is_committed st) k \<and>
     (\<exists>lost. kept_but env acct lost (n_failed (is_committed st)) (messages (committed c) @ others c) (committed c) (take k dn)))"

text \<open>
  After \<open>dn\<close> messages: all of them but the lost ones are kept in the session's tables, and as
  many of them as the committed counters say are kept in the committed tables. The UIDs of the
  lost ones are below the counter of their mailbox, so that no statement is blamed twice.
\<close>

definition import_inv ::
  "sync_env \<Rightarrow> int \<Rightarrow> imported_message list \<Rightarrow> import_state \<Rightarrow> conn \<Rightarrow> bool" where
  "import_inv env acct dn st c \<longleftrightarrow> books env acct st c \<and>
     (\<exists>lost. kept_but env acct lost (n_failed (is_c st)) (visible_messages c) (work c) dn \<and> used_up lost st) \<and>
     counted (is_c st) (length dn) \<and> committed_prefix env acct dn st c"

lemma kept_more_rows: "kept_but env acct lost n rows d msgs \<Longrightarrow> set rows \<subseteq> set rows' \<Longrightarrow> kept_but env acct lost n rows' d msgs"
  by (rule kept_but_grows [of env acct lost n rows d]) (auto simp: grows_def)

lemma import_inv_commit:
  assumes "import_inv env acct dn st c"
  shows "import_inv env acct dn (st\<lparr>is_committed := is_c st\<rparr>) (commit c)"
proof -
  have "\<exists>k \<le> length dn. counted (is_c st) k \<and>
      (\<exists>lost. kept_but env acct lost (n_failed (is_c st)) (messages (work c) @ others c) (work c) (take k dn))"
    using assms by (intro exI [of _ "length dn"]) (auto simp: import_inv_def visible_messages_def)
  with assms show ?thesis
    by (auto simp: import_inv_def committed_prefix_def books_def wf_commit visible_messages_def used_up_def)
qed

lemma import_inv_enter:
  assumes run: "enter_mailbox env acct name st c = (Inr st', c')" and inv: "import_inv (ie_sync env) acct dn st c"
  shows "import_inv (ie_sync env) acct dn st' c' \<and> map_of (is_mailbox_ids st') name \<noteq> None"
proof -
  have b: "books (ie_sync env) acct st c" using inv by (simp add: import_inv_def)
  note e = enter_mailbox_ok [OF run b]
  obtain lost where lost: "kept_but (ie_sync env) acct lost (n_failed (is_c st)) (visible_messages c) (work c) dn" "used_up lost st"
    using inv by (auto simp: import_inv_def)
  have all: "kept_but (ie_sync env) acct lost (n_failed (is_c st')) (visible_messages c') (work c') dn"
    using kept_but_grows [OF lost(1) e(1)] e(4) by simp
  have n: "counted (is_c st') (length dn)" using inv e(4) by (simp add: import_inv_def)
  from e(6) have "committed_prefix (ie_sync env) acct dn st' c'"
  proof
    assume "committed c' = committed c \<and> is_committed st' = is_committed st"
    with inv e(5) show ?thesis by (simp add: import_inv_def committed_prefix_def)
  next
    assume "committed c' = work c' \<and> is_committed st' = is_c st"
    with all n e(4) show ?thesis
      unfolding committed_prefix_def by (intro exI [of _ "length dn"]) (auto simp: visible_messages_def)
  qed
  with all n e(2,3) used_up_enter [OF run lost(2)] show ?thesis by (auto simp: import_inv_def)
qed

lemma committed_prefix_more:
  assumes "committed_prefix env acct dn st c" "committed c' = committed c" "set (others c) \<subseteq> set (others c')"
    and "is_committed st' = is_committed st"
  shows "committed_prefix env acct (dn @ ms) st' c'"
proof -
  obtain k lost where k: "k \<le> length dn" "counted (is_committed st) k"
    "kept_but env acct lost (n_failed (is_committed st)) (messages (committed c) @ others c) (committed c) (take k dn)"
    using assms(1) by (auto simp: committed_prefix_def)
  have sub: "set (messages (committed c) @ others c) \<subseteq> set (messages (committed c) @ others c')" using assms(3) by auto
  have "kept_but env acct lost (n_failed (is_committed st)) (messages (committed c') @ others c') (committed c') (take k dn)"
    unfolding assms(2) by (rule kept_more_rows [OF k(3) sub])
  with k(1,2) assms(4) show ?thesis unfolding committed_prefix_def by (intro exI [of _ k]) auto
qed

lemma import_inv_store:
  assumes run: "store_message env acct msg st c = (Inr st', c')" and inv: "import_inv (ie_sync env) acct dn st c"
    and known: "map_of (is_mailbox_ids st) (im_mailbox_name msg) \<noteq> None"
  shows "import_inv (ie_sync env) acct (dn @ [msg]) st' c'"
proof -
  have b: "books (ie_sync env) acct st c" using inv by (simp add: import_inv_def)
  obtain i where "map_of (is_mailbox_ids st) (im_mailbox_name msg) = Some i" using known by blast
  from store_message_ok [OF run b this] obtain u where u: "map_of (is_uid_counters st) (im_mailbox_name msg) = Some u"
    and ok: "stored_ok (ie_sync env) acct msg u st' c c'"
    and failed: "kept (ie_sync env) acct (visible_messages c') (work c') msg \<or> is_c st' = count_failed (is_c st)" by blast
  note s = ok [unfolded stored_ok_def]
  obtain lost where lost: "kept_but (ie_sync env) acct lost (n_failed (is_c st)) (visible_messages c) (work c) dn" "used_up lost st"
    using inv by (auto simp: import_inv_def)
  note next_up = used_up_next [OF lost(2) u known, of st'] store_message_state [OF run]
  have more: "kept_but (ie_sync env) acct lost (n_failed (is_c st)) (visible_messages c') (work c') dn"
    using kept_but_grows [OF lost(1)] s by blast
  have n: "n_failed (is_c st) \<le> n_failed (is_c st')"
    using run by (cases rule: store_message_cases) (auto simp: count_stored_def count_failed_def)
  have "\<exists>lost. kept_but (ie_sync env) acct lost (n_failed (is_c st')) (visible_messages c') (work c') (dn @ [msg]) \<and> used_up lost st'"
  proof (cases "kept (ie_sync env) acct (visible_messages c') (work c') msg")
    case True
    with kept_but_snoc [OF more n] next_up u show ?thesis by auto
  next
    case False
    with s failed have "unlogged (ie_sync env) (u + 1)" "n_failed (is_c st') = n_failed (is_c st) + 1"
      by (simp_all add: count_failed_def)
    with kept_but_lose [OF more _ used_up_fresh [OF lost(2) u]] next_up u show ?thesis by auto
  qed
  moreover have "counted (is_c st') (length (dn @ [msg]))"
    using run inv by (cases rule: store_message_cases) (auto simp: import_inv_def counted_def count_stored_def count_failed_def)
  moreover have "committed_prefix (ie_sync env) acct (dn @ [msg]) st' c'"
    by (rule committed_prefix_more [of _ _ dn st c])
      (use inv s store_message_state [OF run] in \<open>simp_all add: import_inv_def\<close>)
  ultimately show ?thesis using s by (simp add: import_inv_def)
qed

lemma books_ignore: "books env acct (st\<lparr>is_ticks := t\<rparr>) c = books env acct st c"
  "books env acct (st\<lparr>is_committed := q, is_at_last := a, is_last_at := l, is_polls := p\<rparr>) c = books env acct st c"
  "used_up lost (st\<lparr>is_ticks := t\<rparr>) = used_up lost st"
  "used_up lost (st\<lparr>is_committed := q, is_at_last := a, is_last_at := l, is_polls := p\<rparr>) = used_up lost st"
  by (simp_all add: books_def used_up_def)

lemma import_inv_checkpoint:
  assumes run: "checkpoint_job env cfg jid st c jobs = (r, st', c', jobs')" and inv: "import_inv (ie_sync env) acct dn st c"
  shows "import_inv (ie_sync env) acct dn st' c'"
proof -
  consider t where "st' = st\<lparr>is_ticks := t\<rparr>" "c' = c"
    | t a l p where "st' = st\<lparr>is_ticks := t, is_committed := is_c st, is_at_last := a, is_last_at := l, is_polls := p\<rparr>" "c' = commit c"
    using run unfolding checkpoint_job_def Let_def by (auto split: if_splits option.splits)
  then show ?thesis
  proof cases
    case 1
    with inv show ?thesis by (simp add: import_inv_def committed_prefix_def books_ignore)
  next
    case 2
    with import_inv_commit [OF inv] show ?thesis by (simp add: import_inv_def committed_prefix_def books_def used_up_def)
  qed
qed

lemma enter_mailbox_frame:
  "enter_mailbox env acct name st c = (Inl e, c') \<Longrightarrow> committed c' = committed c \<and> others c' = others c"
  unfolding enter_mailbox_def Let_def
  by (auto simp: upsert_mailbox_def Let_def split: if_splits option.splits prod.splits sum.splits)

lemma store_message_frame:
  assumes "store_message env acct msg st c = (r, c')"
  shows "committed c' = committed c \<and> set (others c) \<subseteq> set (others c')"
proof -
  let ?i = "the (map_of (is_mailbox_ids st) (im_mailbox_name msg))"
  let ?u = "the (map_of (is_uid_counters st) (im_mailbox_name msg)) + 1"
  obtain r1 c1 where p: "process_one_message (ie_sync env) acct ?i ?u (im_raw msg) [] (im_received_date msg) c = (r1, c1)"
    by fastforce
  then have c1: "committed c1 = committed c" "set (others c) \<subseteq> set (others c1)"
    using process_frame [OF p] by (simp_all add: same_books_def keeps_mail_def)
  have "c' = c1 \<or> (\<exists>w e r. record_failed_message (ie_sync env) acct ?i w (im_raw msg) e (rollback_to (work c) c1) = (r, c'))"
    using assms p unfolding store_message_def Let_def by (cases r1) (fastforce split: if_splits prod.splits option.splits)+
  with c1 record_failed_frame show ?thesis by (fastforce simp: conn_frame_def)
qed

lemma import_loop_inv:
  assumes "import_loop env cfg jid acct msgs raised st c jobs = (r, st', c', jobs')"
    and "import_inv (ie_sync env) acct dn st c"
  shows "committed_prefix (ie_sync env) acct (dn @ msgs) st' c' \<and>
    (\<forall>cancelled. r = Inr cancelled \<longrightarrow> (\<exists>n \<le> length msgs. import_inv (ie_sync env) acct (dn @ take n msgs) st' c' \<and>
       (\<not> cancelled \<longrightarrow> n = length msgs \<and> raised = None)))"
  using assms
proof (induction msgs arbitrary: dn st c jobs)
  case Nil
  then show ?case by (auto simp: import_inv_def split: option.splits)
next
  case (Cons msg msgs)
  obtain r1 c1 where e: "enter_mailbox env acct (im_mailbox_name msg) st c = (r1, c1)" by fastforce
  have pre: "committed_prefix (ie_sync env) acct dn st c" using Cons.prems(2) by (simp add: import_inv_def)
  show ?case
  proof (cases r1)
    case (Inl x)
    with Cons.prems(1) e have "r = Inl x" "st' = st" "c' = c1" by simp_all
    with committed_prefix_more [OF pre] enter_mailbox_frame [OF e [unfolded Inl]] show ?thesis by simp
  next
    case (Inr st1)
    note i1 = import_inv_enter [OF e [unfolded Inr] Cons.prems(2)]
    then have pre1: "committed_prefix (ie_sync env) acct dn st1 c1" by (simp add: import_inv_def)
    obtain r2 c2 where s: "store_message env acct msg st1 c1 = (r2, c2)" by fastforce
    show ?thesis
    proof (cases r2)
      case (Inl x)
      with Cons.prems(1) e Inr s have "r = Inl x" "st' = st1" "c' = c2" by simp_all
      with committed_prefix_more [OF pre1] store_message_frame [OF s] show ?thesis by simp
    next
      case r2: (Inr st2)
      obtain r3 st3 c3 jobs3 where ch: "checkpoint_job env cfg jid st2 c2 jobs = (r3, st3, c3, jobs3)"
        by (cases "checkpoint_job env cfg jid st2 c2 jobs") auto
      have i3: "import_inv (ie_sync env) acct (dn @ [msg]) st3 c3"
        using import_inv_checkpoint [OF ch] import_inv_store [OF s [unfolded r2]] i1 by blast
      show ?thesis
      proof (cases "r3 = Inr False")
        case True
        with Cons.prems(1) e Inr s r2 ch
        have "import_loop env cfg jid acct msgs raised st3 c3 jobs3 = (r, st', c', jobs')" by simp
        note ih = Cons.IH [OF this i3]
        show ?thesis
        proof (intro conjI allI impI)
          show "committed_prefix (ie_sync env) acct (dn @ msg # msgs) st' c'" using ih by simp
          fix cancelled assume "r = Inr cancelled"
          with ih obtain n where "n \<le> length msgs" "import_inv (ie_sync env) acct ((dn @ [msg]) @ take n msgs) st' c'"
            "\<not> cancelled \<longrightarrow> n = length msgs \<and> raised = None" by blast
          then show "\<exists>n \<le> length (msg # msgs). import_inv (ie_sync env) acct (dn @ take n (msg # msgs)) st' c' \<and>
              (\<not> cancelled \<longrightarrow> n = length (msg # msgs) \<and> raised = None)"
            by (intro exI [of _ "Suc n"]) simp
        qed
      next
        case False
        with Cons.prems(1) e Inr s r2 ch have "r = r3" "st' = st3" "c' = c3"
          by (cases r3; auto split: bool.splits)+
        moreover have "committed_prefix (ie_sync env) acct ((dn @ [msg]) @ msgs) st3 c3"
          using committed_prefix_more [of "ie_sync env" acct "dn @ [msg]" st3 c3] i3 by (simp add: import_inv_def)
        moreover have "\<exists>n \<le> length (msg # msgs). import_inv (ie_sync env) acct (dn @ take n (msg # msgs)) st3 c3"
          using i3 by (intro exI [of _ 1]) simp
        ultimately show ?thesis using False by auto
      qed
    qed
  qed
qed


subsection \<open>The job row\<close>

lemma mark_terminal_written:
  "mark_terminal env left k jid s cs m jobs = (None, jobs') \<Longrightarrow> 0 < left \<Longrightarrow> \<exists>t. jobs' = write_terminal t jid s cs m jobs"
  by (induction env left k jid s cs m jobs rule: mark_terminal.induct) (auto split: option.splits if_splits)

lemma mark_terminal_writes:
  "i < left \<Longrightarrow> ie_terminal_fault env (k + i) = None \<Longrightarrow>
   \<exists>t. mark_terminal env left k jid s cs m jobs = (None, write_terminal t jid s cs m jobs)"
proof (induction left arbitrary: k i)
  case (Suc left)
  show ?case
  proof (cases "ie_terminal_fault env k")
    case (Some e)
    with Suc.prems obtain j where "i = Suc j" by (cases i) auto
    with Suc.IH [of j "Suc k"] Suc.prems Some show ?thesis by auto
  qed auto
qed simp

lemma mark_terminal_gives_up:
  "0 < left \<Longrightarrow> (\<And>i. i < left \<Longrightarrow> ie_terminal_fault env (k + i) \<noteq> None) \<Longrightarrow>
   \<exists>e. mark_terminal env left k jid s cs m jobs = (Some e, jobs)"
proof (induction left arbitrary: k)
  case (Suc left)
  from Suc.prems(2) [of 0] obtain e where "ie_terminal_fault env k = Some e" by auto
  moreover have "ie_terminal_fault env (Suc k + i) \<noteq> None" if "i < left" for i
    using Suc.prems(2) [of "Suc i"] that by simp
  ultimately show ?case using Suc.IH [of "Suc k"] by (cases left) auto
qed simp

lemma write_terminal_row:
  "j \<in> set (write_terminal t jid s cs m jobs) \<Longrightarrow> j_id j = jid \<Longrightarrow> j_status j = s \<and> j_counters j = cs"
proof -
  assume "j \<in> set (write_terminal t jid s cs m jobs)" and j: "j_id j = jid"
  then obtain x where "j = (if j_id x = jid then x\<lparr>j_status := s, j_counters := cs, j_error_msg := m, j_finished_at := Some t\<rparr> else x)"
    unfolding write_terminal_def set_update_where by blast
  with j show "j_status j = s \<and> j_counters j = cs" by (cases "j_id x = jid") simp_all
qed

definition job_states :: "import_job list \<Rightarrow> (int \<times> job_status) list" where
  "job_states jobs = map (\<lambda>j. (j_id j, j_status j)) jobs"

lemma job_states_keep [simp]:
  "job_states (flush_job t jid cs jobs) = job_states jobs" "job_states (snd (cancel_job jid jobs)) = job_states jobs"
  by (auto simp: job_states_def flush_job_def cancel_job_def intro!: map_update_where)

lemma checkpoint_job_states: "checkpoint_job env cfg jid st c jobs = (r, st', c', jobs') \<Longrightarrow> job_states jobs' = job_states jobs"
  unfolding checkpoint_job_def Let_def by (auto split: if_splits option.splits)

lemma import_loop_states:
  "import_loop env cfg jid acct msgs raised st c jobs = (r, st', c', jobs') \<Longrightarrow> job_states jobs' = job_states jobs"
proof (induction msgs arbitrary: st c jobs)
  case (Cons msg msgs)
  obtain r1 c1 where e: "enter_mailbox env acct (im_mailbox_name msg) st c = (r1, c1)" by fastforce
  show ?case
  proof (cases r1)
    case (Inr st1)
    obtain r2 c2 where s: "store_message env acct msg st1 c1 = (r2, c2)" by fastforce
    show ?thesis
    proof (cases r2)
      case r2: (Inr st2)
      obtain r3 st3 c3 jobs3 where ch: "checkpoint_job env cfg jid st2 c2 jobs = (r3, st3, c3, jobs3)"
        by (cases "checkpoint_job env cfg jid st2 c2 jobs") auto
      from Cons.prems e Inr s r2 ch
      have "jobs' = jobs3 \<or> import_loop env cfg jid acct msgs raised st3 c3 jobs3 = (r, st', c', jobs')"
        by (cases "r3 = Inr False") (auto split: sum.splits bool.splits)
      with Cons.IH checkpoint_job_states [OF ch] show ?thesis by auto
    qed (use Cons.prems e Inr s in simp)
  qed (use Cons.prems e in simp)
qed simp

text \<open>What the \<open>try\<close> block of an import reports is what it has committed.\<close>

lemma import_body_truth:
  assumes "import_body env cfg jid job c jobs = (s, cs, m, c', jobs')"
    and "ie_source env (j_source_kind job) (j_source_path job) = (msgs, raised)"
    and "import_inv (ie_sync env) (j_account job) [] (fresh_state env) c"
  shows "\<exists>k lost. k \<le> length msgs \<and> counted cs k \<and> (s = Completed \<longrightarrow> k = length msgs \<and> raised = None) \<and> is_terminal s \<and>
    kept_but (ie_sync env) (j_account job) lost (n_failed cs) (messages (committed c') @ others c') (committed c') (take k msgs)"
proof -
  obtain r st c1 jobs1 where lp: "import_loop env cfg jid (j_account job) msgs raised (fresh_state env) c jobs = (r, st, c1, jobs1)"
    by (metis prod_cases4)
  note inv = import_loop_inv [OF lp assms(3)]
  show ?thesis
  proof (cases "\<exists>cancelled. r = Inr cancelled \<and> ie_commit_fault env = None")
    case True
    then obtain cancelled where r: "r = Inr cancelled" "ie_commit_fault env = None" by blast
    with inv obtain n where n: "n \<le> length msgs" "import_inv (ie_sync env) (j_account job) (take n msgs) st c1"
      "\<not> cancelled \<longrightarrow> n = length msgs \<and> raised = None" by auto
    have "s = (if cancelled then Cancelled else Completed)" "cs = is_c st" "c' = commit c1"
      using assms(1,2) lp r by (simp_all add: import_body_def)
    with n show ?thesis by (intro exI [of _ n]) (auto simp: import_inv_def visible_messages_def is_terminal_def)
  next
    case False
    then have "s = JobFailed" "cs = is_committed st" "c' = rollback c1"
      using assms(1,2) lp by (auto simp: import_body_def split: sum.splits option.splits)
    with inv show ?thesis by (auto simp: committed_prefix_def is_terminal_def rollback_def)
  qed
qed

lemma import_body_states:
  assumes "import_body env cfg jid job c jobs = (s, cs, m, c', jobs')"
  shows "job_states jobs' = job_states jobs \<and> is_terminal s"
proof -
  obtain msgs raised where src: "ie_source env (j_source_kind job) (j_source_path job) = (msgs, raised)" by fastforce
  obtain r st c1 jobs1 where lp: "import_loop env cfg jid (j_account job) msgs raised (fresh_state env) c jobs = (r, st, c1, jobs1)"
    by (metis prod_cases4)
  from assms src lp have "jobs' = jobs1 \<and> is_terminal s"
    by (auto simp: import_body_def is_terminal_def split: sum.splits option.splits if_splits)
  with import_loop_states [OF lp] show ?thesis by simp
qed

lemma fresh_inv: "wf_conn c \<Longrightarrow> hashes_ok env (work c) \<Longrightarrow> import_inv env acct [] (fresh_state e) (commit c)"
  by (simp add: import_inv_def books_def wf_commit fresh_state_def counted_def zero_counters_def committed_prefix_def
      used_up_def kept_but_def)



text \<open>
  A job that starts reaches a terminal status, whatever goes wrong while it runs, as long as
  one of the attempts to write it succeeds. When all of them fail, the run raises and the row
  stays active, so that the next start of the server can reap it.
\<close>

theorem import_reaches_terminal:
  assumes at: "0 < terminal_write_attempts cfg" and job: "load_job jid jobs = Some job" "j_status job = Pending"
    and uniq: "distinct (map j_id jobs)" and run: "run_import env cfg jid c jobs = (out, c', jobs')"
  shows "((\<exists>k. int k < terminal_write_attempts cfg \<and> ie_terminal_fault env k = None) \<longrightarrow>
      out = Reported \<and> (\<forall>j \<in> set jobs'. j_id j = jid \<longrightarrow> is_terminal (j_status j))) \<and>
    ((\<forall>k. int k < terminal_write_attempts cfg \<longrightarrow> ie_terminal_fault env k \<noteq> None) \<longrightarrow>
      (\<exists>e. out = TerminalStatusUnwritten e) \<and> (\<forall>j \<in> set jobs'. j_id j = jid \<longrightarrow> is_active (j_status j)))"
proof -
  have found: "job \<in> set jobs" "j_id job = jid" using find_SomeD [OF job(1) [unfolded load_job_def]] by simp_all
  then have one: "i \<in> set jobs \<Longrightarrow> j_id i = jid \<Longrightarrow> i = job" for i using uniq by (auto simp: distinct_map dest: inj_onD)
  obtain s cs m c1 jobs2 where fin: "finish_import env cfg jid (s, cs, m, c1, jobs2) = (out, c', jobs')" and s: "is_terminal s"
    and act: "\<And>st. (jid, st) \<in> set (job_states jobs2) \<Longrightarrow> is_active st"
  proof (cases "ie_connect env")
    case (Some e)
    show thesis
    proof (rule that)
      show "finish_import env cfg jid (JobFailed, zero_counters, Some (exn_text e), c, jobs) = (out, c', jobs')"
        using run at Some by (simp add: run_import_def)
      show "(jid, st) \<in> set (job_states jobs) \<Longrightarrow> is_active st" for st
        using one job(2) by (auto simp: job_states_def is_active_def)
    qed (simp add: is_terminal_def)
  next
    case None
    obtain jobs1 where mr: "mark_running (ie_now env (txn c)) jid jobs = (True, jobs1)"
      using found job(2) by (auto simp: mark_running_def Let_def)
    then have jobs1: "jobs1 = update_where (\<lambda>j. j_id j = jid \<and> j_status j = Pending)
        (\<lambda>j. j\<lparr>j_status := JobRunning, j_started_at := Some (ie_now env (txn c)), j_last_progress_at := Some (ie_now env (txn c))\<rparr>) jobs"
      by (simp add: mark_running_def Let_def)
    have a1: "(jid, st) \<in> set (job_states jobs1) \<Longrightarrow> is_active st" for st
      unfolding jobs1 job_states_def set_map set_update_where using one job(2) found(2)
      by (fastforce simp: is_active_def)
    obtain s cs m c1 jobs2 where b: "import_body env cfg jid job (commit c) jobs1 = (s, cs, m, c1, jobs2)"
      by (metis prod_cases5)
    show thesis
    proof (rule that)
      show "finish_import env cfg jid (s, cs, m, c1, jobs2) = (out, c', jobs')"
        using run at None job(1) mr b by (simp add: run_import_def)
    qed (use import_body_states [OF b] a1 in auto)
  qed
  let ?n = "nat (terminal_write_attempts cfg)"
  obtain r where m: "mark_terminal env ?n 0 jid s cs m jobs2 = (r, jobs')" and out: "out = report r"
    using fin by (auto simp: finish_import_def split: prod.splits)
  have "out = Reported \<and> (\<forall>j \<in> set jobs'. j_id j = jid \<longrightarrow> is_terminal (j_status j))"
    if "int k < terminal_write_attempts cfg" "ie_terminal_fault env k = None" for k
  proof -
    have "k < ?n" using that(1) by (simp add: zless_nat_eq_int_zless)
    from mark_terminal_writes [OF this, of env 0 jid s cs m jobs2] that(2) m
    obtain t where "r = None" "jobs' = write_terminal t jid s cs m jobs2" by auto
    with out write_terminal_row s show ?thesis by (auto simp: report_def)
  qed
  moreover have "(\<exists>e. out = TerminalStatusUnwritten e) \<and> (\<forall>j \<in> set jobs'. j_id j = jid \<longrightarrow> is_active (j_status j))"
    if "\<forall>k. int k < terminal_write_attempts cfg \<longrightarrow> ie_terminal_fault env k \<noteq> None"
  proof -
    from that at mark_terminal_gives_up [of ?n env 0 jid s cs m jobs2] m obtain e where "r = Some e" "jobs' = jobs2" by auto
    with out act show ?thesis by (force simp: report_def job_states_def)
  qed
  ultimately show ?thesis by blast
qed

subsection \<open>The busy guard\<close>

definition active :: "import_job list \<Rightarrow> import_job list" where
  "active jobs = filter (\<lambda>j. is_active (j_status j)) jobs"

definition reaped :: "instant \<Rightarrow> import_job \<Rightarrow> import_job" where
  "reaped now j = j\<lparr>j_status := JobFailed,
     j_error_msg := Some ''interrupted: owning process is no longer running'', j_finished_at := Some now\<rparr>"

lemma reconcile_rows:
  assumes "distinct (map j_id jobs)"
  shows "snd (reconcile_orphaned_jobs now host alive jobs) = map (\<lambda>j. if reap host alive j then reaped now j else j) jobs"
proof -
  have eq: "j_id j \<in> set (map j_id (filter (reap host alive) jobs)) \<longleftrightarrow> reap host alive j" if "j \<in> set jobs" for j
    using that assms by (auto simp: distinct_map dest: inj_onD)
  show ?thesis
  proof (cases "map j_id (filter (reap host alive) jobs) = []")
    case True
    then have "\<And>j. j \<in> set jobs \<Longrightarrow> \<not> reap host alive j" by (simp add: filter_empty_conv)
    with True show ?thesis by (simp add: reconcile_orphaned_jobs_def map_idI)
  next
    case False
    then have "snd (reconcile_orphaned_jobs now host alive jobs) =
        map (\<lambda>j. if j_id j \<in> set (map j_id (filter (reap host alive) jobs)) then reaped now j else j) jobs"
      by (simp add: reconcile_orphaned_jobs_def Let_def update_where_def reaped_def)
    also have "\<dots> = map (\<lambda>j. if reap host alive j then reaped now j else j) jobs"
      using eq by (intro map_cong) simp_all
    finally show ?thesis .
  qed
qed

text \<open>
  Reaping at server start is exact: a row is marked failed just when it is active and its
  owning process is known to be gone (none recorded, or dead on this host), every other row is
  untouched, and the active rows that remain belong to another host or to a live process.
\<close>

theorem reconcile_reaps_exactly_orphans:
  assumes "distinct (map j_id jobs)" "i < length jobs"
    and "reconcile_orphaned_jobs now host alive jobs = (n, jobs')"
  shows "length jobs' = length jobs \<and> n = int (length (filter (reap host alive) jobs)) \<and>
    jobs' ! i = (if is_active (j_status (jobs ! i)) \<and> (case j_owner_pid (jobs ! i) of None \<Rightarrow> True
        | Some p \<Rightarrow> j_owner_host (jobs ! i) = Some host \<and> \<not> alive p) then reaped now (jobs ! i) else jobs ! i) \<and>
    (is_active (j_status (jobs' ! i)) \<longrightarrow>
       (\<exists>p. j_owner_pid (jobs' ! i) = Some p \<and> (j_owner_host (jobs' ! i) = Some host \<longrightarrow> alive p)))"
proof -
  have jobs': "jobs' = map (\<lambda>j. if reap host alive j then reaped now j else j) jobs"
    using reconcile_rows [OF assms(1), of now host alive] assms(3) by simp
  have "n = int (length (filter (reap host alive) jobs))"
    using assms(3) by (auto simp: reconcile_orphaned_jobs_def Let_def split: if_splits)
  moreover have "reap host alive j \<longleftrightarrow> is_active (j_status j) \<and> (case j_owner_pid j of None \<Rightarrow> True
      | Some p \<Rightarrow> j_owner_host j = Some host \<and> \<not> alive p)" for j
    by (auto simp: reap_def should_reap_def split: option.splits)
  ultimately show ?thesis
    using assms(2) by (auto simp: jobs' reaped_def is_active_def split: option.splits)
qed


lemma active_states: "length (active jobs) = length (filter (\<lambda>x. is_active (snd x)) (job_states jobs))"
  by (induction jobs) (simp_all add: active_def job_states_def)

lemma active_fewer:
  assumes "\<And>j. is_active (j_status (f j)) \<Longrightarrow> is_active (j_status j)"
  shows "length (active (map f jobs)) \<le> length (active jobs)"
  using assms by (induction jobs) (auto simp: active_def le_SucI)

lemma active_run:
  assumes "run_import env cfg jid c jobs = (out, c', jobs')"
  shows "length (active jobs') \<le> length (active jobs)"
proof -
  have ended: "length (active (write_terminal t jid s cs m js)) \<le> length (active js)" if "is_terminal s" for t s cs m js
    unfolding write_terminal_def update_where_def
    by (rule active_fewer) (use that in \<open>auto simp: is_terminal_def is_active_def split: if_splits\<close>)
  have fin: "length (active jobs') \<le> length (active js)"
    if f: "finish_import env cfg jid (s, cs, m, cx, js) = (out, c', jobs')" "is_terminal s" for s cs m cx js
  proof -
    have "jobs' = js \<or> (\<exists>t. jobs' = write_terminal t jid s cs m js)" if "mark_terminal env l k jid s cs m js = (r, jobs')" for l k r
      using that by (induction env l k jid s cs m js rule: mark_terminal.induct) (auto split: option.splits if_splits)
    moreover from f(1) obtain r where "mark_terminal env (nat (terminal_write_attempts cfg)) 0 jid s cs m js = (r, jobs')"
      by (auto simp: finish_import_def split: prod.splits)
    ultimately have "jobs' = js \<or> (\<exists>t. jobs' = write_terminal t jid s cs m js)" by blast
    with ended [OF f(2)] show ?thesis by auto
  qed
  have mark: "length (active jobs1) \<le> length (active jobs)" if "mark_running t jid jobs = (ok, jobs1)" for t ok jobs1
    using that unfolding mark_running_def Let_def update_where_def
    by (auto intro!: active_fewer simp: is_active_def split: if_splits)
  have body: "length (active js') \<le> length (active js) \<and> is_terminal s"
    if "import_body env cfg jid job cc js = (s, cs, m, cx, js')" for job cc js s cs m cx js'
    using import_body_states [OF that] by (simp add: active_states)
  show ?thesis
  proof (cases "terminal_write_attempts cfg < 1 \<or> ie_connect env = None \<and> load_job jid jobs = None")
    case True
    with assms show ?thesis by (auto simp: run_import_def split: if_splits)
  next
    case at: False
    show ?thesis
    proof (cases "ie_connect env")
      case (Some e)
      with assms at fin [of JobFailed] show ?thesis by (simp add: run_import_def is_terminal_def)
    next
      case None
      with at obtain job where job: "load_job jid jobs = Some job" by (cases "load_job jid jobs") auto
      obtain ok jobs1 where mr: "mark_running (ie_now env (txn c)) jid jobs = (ok, jobs1)" by fastforce
      obtain s cs m c1 jobs2 where b: "import_body env cfg jid job (commit c) jobs1 = (s, cs, m, c1, jobs2)" by (metis prod_cases5)
      show ?thesis
      proof (cases ok)
        case True
        with assms at None job mr b have "finish_import env cfg jid (s, cs, m, c1, jobs2) = (out, c', jobs')"
          by (simp add: run_import_def)
        with fin body [OF b] mark [OF mr] show ?thesis by fastforce
      next
        case False
        with assms at None job mr mark [OF mr] show ?thesis by (simp add: run_import_def)
      qed
    qed
  qed
qed

text \<open>
  At most one import is active: no operation on the job table (creating, also when another
  session inserts in between, cancelling, reaping, running) makes two rows active.
\<close>

theorem single_active_import:
  assumes "length (active jobs) \<le> 1" "\<And>js. length (active js) \<le> 1 \<Longrightarrow> length (active (racer js)) \<le> 1"
  shows "length (active (snd (create_job d host pid racer new acct kind path jobs))) \<le> 1 \<and>
    length (active (snd (cancel_job jid jobs))) \<le> 1 \<and>
    length (active (snd (reconcile_orphaned_jobs now host alive jobs))) \<le> 1 \<and>
    length (active (snd (snd (run_import env cfg jid c jobs)))) \<le> 1"
proof (intro conjI)
  show "length (active (snd (create_job d host pid racer new acct kind path jobs))) \<le> 1"
    using assms(1) assms(2) [OF assms(1)]
    by (auto simp: create_job_def Let_def active_def filter_empty_conv split: option.split)
  show "length (active (snd (cancel_job jid jobs))) \<le> 1" using assms(1) by (simp add: active_states)
  have "length (active (snd (reconcile_orphaned_jobs now host alive jobs))) \<le> length (active jobs)"
    unfolding reconcile_orphaned_jobs_def Let_def update_where_def
    by (auto intro!: active_fewer simp: is_active_def split: if_splits)
  with assms(1) show "length (active (snd (reconcile_orphaned_jobs now host alive jobs))) \<le> 1" by simp
  show "length (active (snd (snd (run_import env cfg jid c jobs)))) \<le> 1"
    using active_run [of env cfg jid c jobs] assms(1) by (metis le_trans prod.collapse)
qed

subsection \<open>A small import\<close>

text \<open>Three messages, the second of which does not parse.\<close>

definition sample_archive :: "imported_message list" where
  "sample_archive = map (\<lambda>r. \<lparr>im_mailbox_name = ''old'', im_raw = r, im_received_date = None\<rparr>) [''a'', ''bad'', ''b'']"

definition sample_import :: import_env where
  "sample_import = \<lparr>ie_sync = sample_env\<lparr>e_parse := (\<lambda>raw. if raw = ''bad'' then Inl (Raised ''ValueError'') else Inr (sample_parsed raw))\<rparr>,
     ie_connect = None,
     ie_source = (\<lambda>_ _. (sample_archive, None)),
     ie_mailbox_fault = (\<lambda>_. None), ie_flush_fault = (\<lambda>_. None), ie_commit_fault = None,
     ie_terminal_fault = (\<lambda>k. if k = 0 then Some (Raised ''OperationalError'') else None), ie_cancel = (\<lambda>_. False),
     ie_clock = int, ie_now = int\<rparr>"

definition sample_import_cfg :: import_config where
  "sample_import_cfg = \<lparr>checkpoint_every = 2, checkpoint_seconds = 0, terminal_write_attempts = 3\<rparr>"

definition sample_job :: import_job where
  "sample_job = \<lparr>j_id = 1, j_account = 1, j_source_kind = ''mbox'', j_source_path = ''old'', j_status = Pending,
     j_counters = zero_counters, j_error_msg = None, j_cancel_requested = False, j_last_progress_at = None,
     j_started_at = None, j_finished_at = None, j_owner_host = Some ''here'', j_owner_pid = Some 42\<rparr>"

definition sample_import_end :: "import_outcome \<times> conn \<times> import_job list" where
  "sample_import_end = run_import sample_import sample_import_cfg 1 sample_conn [sample_job]"

lemma sample_facts:
  "load_job 1 [sample_job] = Some sample_job" "wf_conn sample_conn" "hashes_ok (ie_sync sample_import) (work sample_conn)"
  "\<not> unlogged (ie_sync sample_import) u" "ie_source sample_import (j_source_kind sample_job) (j_source_path sample_job) = (sample_archive, None)"
  by (simp_all add: load_job_def sample_job_def wf_conn_def hashes_ok_def unlogged_def sample_conn_def sample_db_def
      sample_import_def sample_env_def visible_messages_def unique_by_def)


theorem import_reaches_terminal_witness:
  "fst sample_import_end = Reported \<and>
   list_all (\<lambda>j. is_terminal (j_status j)) (filter (\<lambda>j. j_id j = 1) (snd (snd sample_import_end)))"
proof -
  have "int 1 < terminal_write_attempts sample_import_cfg \<and> ie_terminal_fault sample_import 1 = None"
    by (simp add: sample_import_cfg_def sample_import_def)
  moreover have "0 < terminal_write_attempts sample_import_cfg" "j_status sample_job = Pending" "distinct (map j_id [sample_job])"
    by (simp_all add: sample_import_cfg_def sample_job_def)
  moreover have "run_import sample_import sample_import_cfg 1 sample_conn [sample_job] =
      (fst sample_import_end, fst (snd sample_import_end), snd (snd sample_import_end))"
    by (simp add: sample_import_end_def)
  ultimately show ?thesis unfolding list_all_iff set_filter using import_reaches_terminal [OF _ sample_facts(1)] by blast
qed

theorem reconcile_reaps_exactly_orphans_witness:
  "snd (reconcile_orphaned_jobs 9 ''here'' (\<lambda>p. p = 7) [sample_job]) ! 0 = reaped 9 sample_job"
proof -
  have "distinct (map j_id [sample_job])" "0 < length [sample_job]" by simp_all
  from reconcile_reaps_exactly_orphans [OF this prod.collapse [symmetric], of 9 "''here''" "\<lambda>p. p = 7"]
  show ?thesis by (simp add: is_active_def sample_job_def)
qed

theorem single_active_import_witness:
  "length (active (snd (create_job sample_db ''here'' 42 id 2 1 ''mbox'' ''new'' [sample_job]))) \<le> 1"
proof -
  have "length (active [sample_job]) \<le> 1" by (simp add: active_def)
  from single_active_import [OF this, of id] show ?thesis by simp
qed

end
