(* ===== verification/Auth.thy ===== *)
theory Auth
  imports Prelude
begin

text \<open>
  Credentials of the HTTP and MCP front ends: \<open>api/auth.py\<close>, \<open>api/acl.py\<close>,
  \<open>api/revocation_sql.py\<close> and \<open>api/login_eligible_sql.py\<close>.

  \<open>auth_db\<close> holds the tables these modules read and write, with the process-local sweep stamp;
  a UUID is an \<open>int\<close>. The hash, the password hasher, both clocks, a freshly generated token and
  whether the audit table and the sweep lock are available are fields of \<open>auth_env\<close>. Durations
  are in the unit of instants.
\<close>

subsection \<open>Tables\<close>

record api_user =
  u_id :: int
  u_username :: string
  u_password_hash :: string
  u_is_admin :: bool
  u_is_service :: bool
  u_disabled_at :: "instant option"
  u_sessions_invalidated_at :: "instant option"

record api_token =
  k_hash :: bytes
  k_user :: int
  k_created_at :: instant
  k_expires_at :: "instant option"
  k_last_used_at :: "instant option"
  k_api_key_name :: "string option"
  k_client :: "string option"
  k_family :: "int option"
  k_resource :: "string option"

record refresh_row =
  r_hash :: bytes
  r_client :: string
  r_user :: int
  r_scopes :: "string list"
  r_expires_at :: instant
  r_family :: int
  r_resource :: "string option"
  r_created_at :: instant
  r_consumed_at :: "instant option"

record code_row =
  c_hash :: bytes
  c_client :: string
  c_user :: int
  c_redirect_uri :: string
  c_redirect_explicit :: bool
  c_challenge :: string
  c_scopes :: "string list"
  c_created_at :: instant
  c_expires_at :: instant
  c_resource :: "string option"

record client_row =
  o_client_id :: string
  o_redirect_uris :: "string list"
  o_name :: "string option"
  o_grant_types :: "string list option"
  o_response_types :: "string list option"
  o_auth_method :: "string option"
  o_scope :: "string option"
  o_created_at :: instant
  o_last_used_at :: "instant option"

datatype login_outcome = Success | Failure

record login_attempt =
  la_username :: string
  la_ip :: "string option"
  la_outcome :: login_outcome
  la_ts :: instant

record auth_db =
  users :: "api_user list"
  tokens :: "api_token list"
  refreshes :: "refresh_row list"
  codes :: "code_row list"
  clients :: "client_row list"
  attempts :: "login_attempt list"
  grants :: "(int \<times> int) list"
  last_sweep :: instant

datatype rate_cap = GlobalCap | IpCap | UserCap

datatype auth_error =
    RateLimited rate_cap int
  | AuthenticationFailed
  | InvalidToken
  | SessionCredentialRefused
  | ValidationFailed
  | InvalidGrant string
  | AssertionFailed
  | KeyViolation
  | UserNotFound

record auth_env =
  hash_token :: "string \<Rightarrow> bytes"
  verify_password :: "string \<Rightarrow> string \<Rightarrow> bool"
  hash_password :: "string \<Rightarrow> string"
  now :: instant
  wall :: instant
  mono :: instant
  fresh_token :: string
  audit_ok :: bool
  sweep_lock :: bool

record auth_config =
  login_global_max :: int
  login_global_window_s :: int
  login_per_ip_max :: int
  login_per_ip_window_s :: int
  login_per_user_max :: int
  login_per_user_window_s :: int
  login_cleanup_interval_s :: int
  login_attempt_retention_s :: int

subsection \<open>The two shared predicates\<close>

definition credential_valid :: "api_user \<Rightarrow> instant \<Rightarrow> bool" where
  "credential_valid u created_at \<longleftrightarrow> u_disabled_at u = None \<and>
     (case u_sessions_invalidated_at u of None \<Rightarrow> True | Some cutoff \<Rightarrow> created_at \<ge> cutoff)"

definition login_eligible :: "api_user \<Rightarrow> bool" where
  "login_eligible u \<longleftrightarrow> u_disabled_at u = None \<and> \<not> u_is_service u"

text \<open>The join \<open>JOIN api_users u ON u.id = ...\<close> on a primary key.\<close>

definition user_of :: "auth_db \<Rightarrow> int \<Rightarrow> api_user option" where
  "user_of d uid = find (\<lambda>u. u_id u = uid) (users d)"

definition owner_valid :: "auth_db \<Rightarrow> int \<Rightarrow> instant \<Rightarrow> bool" where
  "owner_valid d uid created_at =
     (case user_of d uid of None \<Rightarrow> False | Some u \<Rightarrow> credential_valid u created_at)"

subsection \<open>Login rate limits\<close>

definition record_login_attempt ::
  "auth_env \<Rightarrow> string \<Rightarrow> string option \<Rightarrow> login_outcome \<Rightarrow> auth_db \<Rightarrow> auth_db" where
  "record_login_attempt env username ip outcome d =
     (if audit_ok env
      then d\<lparr>attempts := attempts d @
              [\<lparr>la_username = username, la_ip = ip, la_outcome = outcome, la_ts = now env\<rparr>]\<rparr>
      else d)"

definition sweep_login_attempts :: "auth_env \<Rightarrow> int \<Rightarrow> auth_db \<Rightarrow> auth_db" where
  "sweep_login_attempts env retention_s d =
     (if sweep_lock env
      then d\<lparr>attempts := filter (\<lambda>a. \<not> la_ts a < now env - retention_s) (attempts d)\<rparr> else d)"

definition maybe_sweep :: "auth_env \<Rightarrow> auth_config \<Rightarrow> auth_db \<Rightarrow> auth_db" where
  "maybe_sweep env cfg d =
     (if mono env - last_sweep d < login_cleanup_interval_s cfg then d
      else sweep_login_attempts env (login_attempt_retention_s cfg) (d\<lparr>last_sweep := mono env\<rparr>))"

definition count_if :: "('a \<Rightarrow> bool) \<Rightarrow> 'a list \<Rightarrow> int" where
  "count_if P xs = int (length (filter P xs))"

definition after_last_success :: "auth_db \<Rightarrow> string \<Rightarrow> instant \<Rightarrow> bool" where
  "after_last_success d username ts \<longleftrightarrow>
     list_all (\<lambda>a. la_username a = username \<and> la_outcome a = Success \<longrightarrow> la_ts a < ts) (attempts d)"

definition user_failures :: "auth_env \<Rightarrow> auth_config \<Rightarrow> string \<Rightarrow> auth_db \<Rightarrow> int" where
  "user_failures env cfg username d =
     count_if (\<lambda>a. la_username a = username \<and> la_outcome a = Failure \<and>
                   la_ts a > now env - login_per_user_window_s cfg \<and>
                   after_last_success d username (la_ts a)) (attempts d)"

definition check_login_rate_limits ::
  "auth_env \<Rightarrow> auth_config \<Rightarrow> string \<Rightarrow> string option \<Rightarrow> auth_db \<Rightarrow> auth_error + unit" where
  "check_login_rate_limits env cfg username ip d =
     (let widest = max (login_global_window_s cfg)
                     (max (login_per_ip_window_s cfg) (login_per_user_window_s cfg));
          recent = filter (\<lambda>a. la_ts a > now env - widest) (attempts d);
          global_attempts = count_if (\<lambda>a. la_ts a > now env - login_global_window_s cfg) recent;
          ip_failures = count_if (\<lambda>a. la_ip a \<noteq> None \<and> la_ip a = ip \<and> la_outcome a = Failure \<and>
                           la_ts a > now env - login_per_ip_window_s cfg) recent;
          u_failures = count_if (\<lambda>a. la_username a = username \<and> la_outcome a = Failure \<and>
                           la_ts a > now env - login_per_user_window_s cfg \<and>
                           after_last_success d username (la_ts a)) recent
      in if global_attempts \<ge> login_global_max cfg
         then Inl (RateLimited GlobalCap (login_global_window_s cfg))
         else if ip \<noteq> None \<and> ip_failures \<ge> login_per_ip_max cfg
         then Inl (RateLimited IpCap (login_per_ip_window_s cfg))
         else if u_failures \<ge> login_per_user_max cfg
         then Inl (RateLimited UserCap (login_per_user_window_s cfg))
         else Inr ())"

subsection \<open>Session tokens\<close>

record authenticated_user =
  au_id :: int
  au_username :: string
  au_is_admin :: bool
  au_is_api_key :: bool

definition token_ttl :: int where "token_ttl = 30 * 24 * 3600 * 1000000"

definition last_used_refresh :: int where "last_used_refresh = 60 * 1000000"

definition insert_token :: "api_token \<Rightarrow> auth_db \<Rightarrow> auth_error + auth_db" where
  "insert_token t d =
     (if \<exists>s \<in> set (tokens d). k_hash s = k_hash t then Inl KeyViolation
      else Inr (d\<lparr>tokens := tokens d @ [t]\<rparr>))"

text \<open>The \<open>INSERT ... SELECT ... WHERE is_service IS FALSE\<close> both session-token writers share.\<close>

definition insert_session_token ::
  "auth_env \<Rightarrow> int \<Rightarrow> instant \<Rightarrow> string option \<Rightarrow> int option \<Rightarrow> string option \<Rightarrow> auth_db \<Rightarrow>
   auth_error + auth_db" where
  "insert_session_token env uid expires_at client family resource d =
     (case user_of d uid of
        None \<Rightarrow> Inl SessionCredentialRefused
      | Some u \<Rightarrow>
          if u_is_service u then Inl SessionCredentialRefused
          else insert_token
            \<lparr>k_hash = hash_token env (fresh_token env), k_user = uid, k_created_at = now env,
             k_expires_at = Some expires_at, k_last_used_at = None, k_api_key_name = None,
             k_client = client, k_family = family, k_resource = resource\<rparr> d)"

definition issue_token :: "auth_env \<Rightarrow> int \<Rightarrow> auth_db \<Rightarrow> auth_error + (string \<times> instant) \<times> auth_db" where
  "issue_token env uid d =
     bindr (insert_session_token env uid (wall env + token_ttl) None None None d)
       (\<lambda>d1. Inr ((fresh_token env, wall env + token_ttl), d1))"

definition token_row :: "auth_env \<Rightarrow> auth_db \<Rightarrow> string \<Rightarrow> api_token option" where
  "token_row env d token =
     (case find (\<lambda>t. k_hash t = hash_token env token) (tokens d) of
        None \<Rightarrow> None
      | Some t \<Rightarrow>
          if (case k_expires_at t of None \<Rightarrow> True | Some e \<Rightarrow> e > now env) \<and>
             owner_valid d (k_user t) (k_created_at t)
          then Some t else None)"

definition verify_token :: "auth_env \<Rightarrow> string \<Rightarrow> auth_db \<Rightarrow> authenticated_user option \<times> auth_db" where
  "verify_token env token d =
     (case token_row env d token of
        None \<Rightarrow> (None, d)
      | Some t \<Rightarrow>
          (map_option (\<lambda>u. \<lparr>au_id = u_id u, au_username = u_username u, au_is_admin = u_is_admin u,
                            au_is_api_key = (k_api_key_name t \<noteq> None)\<rparr>) (user_of d (k_user t)),
           d\<lparr>tokens := update_where
               (\<lambda>s. k_hash s = hash_token env token \<and>
                    (case k_last_used_at s of None \<Rightarrow> True | Some l \<Rightarrow> l < now env - last_used_refresh))
               (\<lambda>s. s\<lparr>k_last_used_at := Some (now env)\<rparr>) (tokens d)\<rparr>))"

definition login ::
  "auth_env \<Rightarrow> auth_config \<Rightarrow> string \<Rightarrow> string \<Rightarrow> string option \<Rightarrow> auth_db \<Rightarrow>
   (auth_error + (string \<times> instant)) \<times> auth_db" where
  "login env cfg username password ip d =
     (case check_login_rate_limits env cfg username ip d of
        Inl e \<Rightarrow> (Inl e, d)
      | Inr _ \<Rightarrow>
         (let refuse = (Inl AuthenticationFailed,
                        maybe_sweep env cfg (record_login_attempt env username ip Failure d))
          in case find (\<lambda>u. u_username u = username \<and> login_eligible u) (users d) of
               None \<Rightarrow> refuse
             | Some u \<Rightarrow>
                 if \<not> verify_password env password (u_password_hash u) then refuse
                 else
                   (let d1 = maybe_sweep env cfg (record_login_attempt env username ip Success d)
                    in case issue_token env (u_id u) d1 of
                         Inl e \<Rightarrow> (Inl e, d1)
                       | Inr (tok, d2) \<Rightarrow> (Inr tok, d2))))"

definition whoami :: "auth_env \<Rightarrow> string \<Rightarrow> auth_db \<Rightarrow> (auth_error + authenticated_user) \<times> auth_db" where
  "whoami env token d =
     (case verify_token env token d of (None, d1) \<Rightarrow> (Inl InvalidToken, d1) | (Some u, d1) \<Rightarrow> (Inr u, d1))"

definition logout :: "auth_env \<Rightarrow> string \<Rightarrow> auth_db \<Rightarrow> (auth_error + unit) \<times> auth_db" where
  "logout env token d =
     (let h = hash_token env token;
          hit = (\<lambda>t. k_hash t = h \<and> k_api_key_name t = None)
      in if \<exists>t \<in> set (tokens d). hit t
         then (Inr (), d\<lparr>tokens := filter (\<lambda>t. \<not> hit t) (tokens d)\<rparr>)
         else if \<exists>t \<in> set (tokens d). k_hash t = h \<and> k_api_key_name t \<noteq> None
         then (Inl SessionCredentialRefused, d)
         else (Inr (), d))"

definition refresh_token ::
  "auth_env \<Rightarrow> string \<Rightarrow> auth_db \<Rightarrow> (auth_error + (string \<times> instant)) \<times> auth_db" where
  "refresh_token env token d =
     (case verify_token env token d of
        (None, d1) \<Rightarrow> (Inl InvalidToken, d1)
      | (Some u, d1) \<Rightarrow>
          if au_is_api_key u then (Inl SessionCredentialRefused, d1)
          else
            (case issue_token env (au_id u) d1 of
               Inl e \<Rightarrow> (Inl e, d1)
             | Inr (tok, d2) \<Rightarrow>
                 (Inr tok, d2\<lparr>tokens := filter (\<lambda>t. k_hash t \<noteq> hash_token env token) (tokens d2)\<rparr>)))"

definition change_password ::
  "auth_env \<Rightarrow> string \<Rightarrow> int \<Rightarrow> string \<Rightarrow> string \<Rightarrow> auth_db \<Rightarrow> auth_error + auth_db" where
  "change_password env dummy_hash uid old_password new_password d =
     (if new_password = [] then Inl ValidationFailed
      else
        (let row = find (\<lambda>u. u_id u = uid \<and> login_eligible u) (users d);
             stored = (case row of None \<Rightarrow> dummy_hash | Some u \<Rightarrow> u_password_hash u)
         in if \<not> verify_password env old_password stored \<or> row = None then Inl AuthenticationFailed
            else Inr (d\<lparr>users := update_where (\<lambda>u. u_id u = uid)
                   (\<lambda>u. u\<lparr>u_password_hash := hash_password env new_password\<rparr>) (users d)\<rparr>)))"

subsection \<open>Account grants\<close>

definition allowed_account_ids :: "auth_db \<Rightarrow> int \<Rightarrow> int list" where
  "allowed_account_ids d uid = sort (map snd (filter (\<lambda>g. fst g = uid) (grants d)))"

definition grant_account :: "int \<Rightarrow> int \<Rightarrow> auth_db \<Rightarrow> auth_db" where
  "grant_account uid acct d =
     (if (uid, acct) \<in> set (grants d) then d else d\<lparr>grants := grants d @ [(uid, acct)]\<rparr>)"

definition revoke_account :: "int \<Rightarrow> int \<Rightarrow> auth_db \<Rightarrow> int \<times> auth_db" where
  "revoke_account uid acct d =
     (count_if (\<lambda>g. g = (uid, acct)) (grants d),
      d\<lparr>grants := filter (\<lambda>g. g \<noteq> (uid, acct)) (grants d)\<rparr>)"

definition user_has_account :: "auth_db \<Rightarrow> int \<Rightarrow> int \<Rightarrow> bool" where
  "user_has_account d uid acct \<longleftrightarrow> (uid, acct) \<in> set (grants d)"

definition revoke_sessions :: "auth_env \<Rightarrow> int \<Rightarrow> auth_db \<Rightarrow> auth_error + auth_db" where
  "revoke_sessions env uid d =
     (if \<exists>u \<in> set (users d). u_id u = uid
      then Inr (d\<lparr>users := update_where (\<lambda>u. u_id u = uid)
                  (\<lambda>u. u\<lparr>u_sessions_invalidated_at := Some (now env)\<rparr>) (users d)\<rparr>)
      else Inl UserNotFound)"

subsection \<open>The contract of a credential lookup\<close>

text \<open>
  Bearer tokens, refresh tokens and authorization codes are looked up by different statements
  with the same promise: a hit is a credential whose owner exists and passes
  \<open>credential_valid\<close> at the time of the lookup. What follows about disabled and revoked users
  is proved here once.
\<close>

locale revocable =
  fixes lookup :: "auth_env \<Rightarrow> auth_db \<Rightarrow> string \<Rightarrow> 'c option"
    and owner :: "'c \<Rightarrow> int"
    and created_at :: "'c \<Rightarrow> instant"
  assumes lookup_honoured: "lookup env d raw = Some c \<Longrightarrow> owner_valid d (owner c) (created_at c)"
begin

lemma disabled_owner:
  assumes "\<And>u. user_of d (owner c) = Some u \<Longrightarrow> u_disabled_at u \<noteq> None"
  shows "lookup env d raw \<noteq> Some c"
  using assms lookup_honoured [of env d raw c]
  by (auto simp: owner_valid_def credential_valid_def split: option.splits)

lemma revoked_owner:
  assumes "user_of d (owner c) = Some u" "u_sessions_invalidated_at u = Some t" "created_at c < t"
  shows "lookup env d raw \<noteq> Some c"
  using assms lookup_honoured [of env d raw c]
  by (auto simp: owner_valid_def credential_valid_def)

lemma orphan: "user_of d (owner c) = None \<Longrightarrow> lookup env d raw \<noteq> Some c"
  using lookup_honoured [of env d raw c] by (auto simp: owner_valid_def)

end

interpretation bearer: revocable token_row k_user k_created_at
  by unfold_locales (auto simp: token_row_def split: option.splits if_splits)

lemma user_of_update:
  "user_of (d\<lparr>users := update_where (\<lambda>u. u_id u = uid) f (users d)\<rparr>) uid = map_option f (user_of d uid)"
  if "\<And>u. u_id (f u) = u_id u"
proof -
  have "find (\<lambda>u. u_id u = uid) (update_where (\<lambda>u. u_id u = uid) f xs) =
      map_option f (find (\<lambda>u. u_id u = uid) xs)" for xs
    by (induction xs) (auto simp: that)
  then show ?thesis by (simp add: user_of_def)
qed

lemma revoke_sessions_user:
  assumes "revoke_sessions env uid d = Inr d'"
  shows "\<exists>u. user_of d' uid = Some u \<and> u_sessions_invalidated_at u = Some (now env)"
proof -
  from assms obtain u where "u \<in> set (users d)" "u_id u = uid"
    by (auto simp: revoke_sessions_def split: if_splits)
  then have "user_of d uid \<noteq> None" by (auto simp: user_of_def find_None_conv)
  with assms show ?thesis
    by (auto simp: revoke_sessions_def user_of_update split: if_splits)
qed

subsection \<open>Login\<close>

lemma count_if_ge_filter: "count_if P (filter Q xs) = count_if (\<lambda>x. Q x \<and> P x) xs"
  by (simp add: count_if_def conj_commute)

lemma check_user_cap:
  assumes "user_failures env cfg username d \<ge> login_per_user_max cfg"
  shows "\<exists>cap retry. check_login_rate_limits env cfg username ip d = Inl (RateLimited cap retry)"
proof -
  let ?w = "max (login_global_window_s cfg) (max (login_per_ip_window_s cfg) (login_per_user_window_s cfg))"
  have "count_if (\<lambda>a. la_username a = username \<and> la_outcome a = Failure \<and>
      la_ts a > now env - login_per_user_window_s cfg \<and> after_last_success d username (la_ts a))
      (filter (\<lambda>a. la_ts a > now env - ?w) (attempts d)) = user_failures env cfg username d"
    unfolding user_failures_def count_if_ge_filter
    by (rule arg_cong [of _ _ "\<lambda>P. count_if P (attempts d)"]) (auto simp: fun_eq_iff)
  with assms show ?thesis by (auto simp: check_login_rate_limits_def Let_def)
qed

text \<open>
  C8. Brute force is bounded: once a user name has collected the per-user number of failures
  within the window since its last success, a login under that name is refused with a rate
  limit whatever the password and the address, and mints nothing; and every login that does
  mint a token is for an enabled user who is not a service principal and whose password
  verified.
\<close>

theorem login_lockout:
  assumes "login env cfg username password ip d = (r, d')"
  shows "(user_failures env cfg username d \<ge> login_per_user_max cfg \<longrightarrow>
      d' = d \<and> (\<exists>cap retry. r = Inl (RateLimited cap retry))) \<and>
    (\<forall>tok. r = Inr tok \<longrightarrow> (\<exists>u \<in> set (users d). u_username u = username \<and> u_disabled_at u = None \<and>
        \<not> u_is_service u \<and> verify_password env password (u_password_hash u)))"
proof (intro conjI impI allI)
  assume "user_failures env cfg username d \<ge> login_per_user_max cfg"
  from check_user_cap [OF this, of ip] obtain cap retry
    where "check_login_rate_limits env cfg username ip d = Inl (RateLimited cap retry)" by blast
  with assms show "d' = d" "\<exists>cap retry. r = Inl (RateLimited cap retry)" by (auto simp: login_def)
next
  fix tok assume "r = Inr tok"
  with assms obtain u where "find (\<lambda>u. u_username u = username \<and> login_eligible u) (users d) = Some u"
      "verify_password env password (u_password_hash u)"
    by (auto simp: login_def Let_def split: sum.splits option.splits if_splits)
  with find_SomeD [OF this(1)] show "\<exists>u \<in> set (users d). u_username u = username \<and> u_disabled_at u = None \<and>
        \<not> u_is_service u \<and> verify_password env password (u_password_hash u)"
    by (auto simp: login_eligible_def)
qed

text \<open>A failed login is counted: the failures grow by one, if no older rows are swept.\<close>

lemma failure_counted:
  assumes "audit_ok env" "0 < login_per_user_window_s cfg" "\<And>a. a \<in> set (attempts d) \<Longrightarrow> la_ts a < now env"
  shows "user_failures env cfg username (record_login_attempt env username ip Failure d) =
    user_failures env cfg username d + 1"
proof -
  let ?d = "record_login_attempt env username ip Failure d"
  have al: "after_last_success ?d username ts = after_last_success d username ts" for ts
    using assms(1) by (simp add: after_last_success_def record_login_attempt_def)
  have "after_last_success d username (now env)"
    using assms(3) by (auto simp: after_last_success_def list_all_iff)
  with assms(1,2) show ?thesis
    unfolding user_failures_def al by (simp add: record_login_attempt_def count_if_def)
qed

subsection \<open>Service principals hold API keys only\<close>

definition service_keys_only :: "auth_db \<Rightarrow> bool" where
  "service_keys_only d \<longleftrightarrow>
     (\<forall>t \<in> set (tokens d). \<forall>u. user_of d (k_user t) = Some u \<longrightarrow> u_is_service u \<longrightarrow> k_api_key_name t \<noteq> None)"

lemma insert_session_keys:
  "service_keys_only d \<Longrightarrow> insert_session_token env uid ex cl fam res d = Inr d' \<Longrightarrow>
   service_keys_only d' \<and> users d' = users d"
  by (auto simp: insert_session_token_def insert_token_def service_keys_only_def user_of_def
      split: option.splits if_splits)

lemma filter_keys: "service_keys_only d \<Longrightarrow> service_keys_only (d\<lparr>tokens := filter P (tokens d)\<rparr>)"
  by (auto simp: service_keys_only_def user_of_def)

lemma verify_token_frame:
  "verify_token env token d = (u, d') \<Longrightarrow> users d' = users d \<and> (service_keys_only d \<longrightarrow> service_keys_only d')"
  by (auto simp: verify_token_def service_keys_only_def user_of_def set_update_where split: option.splits)

lemma sweep_keys [simp]: "tokens (maybe_sweep env cfg d) = tokens d" "users (maybe_sweep env cfg d) = users d"
  "tokens (record_login_attempt env n ip out d) = tokens d" "users (record_login_attempt env n ip out d) = users d"
  by (simp_all add: maybe_sweep_def sweep_login_attempts_def record_login_attempt_def)

lemma keys_cong: "tokens d = tokens e \<Longrightarrow> users d = users e \<Longrightarrow> service_keys_only d = service_keys_only e"
  by (simp add: service_keys_only_def user_of_def)

lemma issue_token_keys:
  "service_keys_only d \<Longrightarrow> issue_token env uid d = Inr (tok, d') \<Longrightarrow> service_keys_only d'"
  by (auto simp: issue_token_def bindr_Inr_iff dest: insert_session_keys)

text \<open>
  An API key cannot be laundered into a session: logging in, refreshing a token and logging
  out all keep that a service principal, the identity behind an API key, owns API keys only, so
  no later request authenticates as it without reporting \<open>is_api_key\<close>; and presenting a
  key to refresh or logout is refused and leaves the key in place.
\<close>

theorem service_keys_kept:
  assumes "service_keys_only d"
  shows "service_keys_only (snd (login env cfg username password ip d)) \<and>
    service_keys_only (snd (refresh_token env token d)) \<and> service_keys_only (snd (logout env token d)) \<and>
    (\<forall>t. token_row env d token = Some t \<longrightarrow> k_api_key_name t \<noteq> None \<longrightarrow>
       fst (refresh_token env token d) = Inl SessionCredentialRefused \<and>
       map k_hash (tokens (snd (refresh_token env token d))) = map k_hash (tokens d))"
proof (intro conjI allI impI)
  let ?d1 = "\<lambda>out. maybe_sweep env cfg (record_login_attempt env username ip out d)"
  have d1: "service_keys_only (?d1 out)" for out
    using assms keys_cong [of "?d1 out" d] by simp
  then show "service_keys_only (snd (login env cfg username password ip d))"
    using assms issue_token_keys [OF d1]
    by (auto simp: login_def Let_def split: sum.splits option.splits)
  obtain u d2 where v: "verify_token env token d = (u, d2)" by fastforce
  have "service_keys_only d2" using verify_token_frame [OF v] assms by blast
  then show "service_keys_only (snd (refresh_token env token d))"
    using v issue_token_keys filter_keys
    by (auto simp: refresh_token_def split: option.splits sum.splits)
  show "service_keys_only (snd (logout env token d))"
    using assms filter_keys by (auto simp: logout_def Let_def)
  fix t assume t: "token_row env d token = Some t" "k_api_key_name t \<noteq> None"
  have "owner_valid d (k_user t) (k_created_at t)" by (rule bearer.lookup_honoured [OF t(1)])
  then obtain w where w: "user_of d (k_user t) = Some w" by (auto simp: owner_valid_def split: option.splits)
  with t show "fst (refresh_token env token d) = Inl SessionCredentialRefused"
    by (simp add: refresh_token_def verify_token_def)
  from t w show "map k_hash (tokens (snd (refresh_token env token d))) = map k_hash (tokens d)"
    by (simp add: refresh_token_def verify_token_def map_update_where)
qed

subsection \<open>Worked examples\<close>

text \<open>A bot principal 2 holding the API key \<open>key\<close>, a user 1, and three fresh failures of \<open>me\<close>.\<close>

definition bot_env :: auth_env where
  "bot_env = \<lparr>hash_token = (\<lambda>s. s), verify_password = (\<lambda>p h. p = h), hash_password = (\<lambda>p. p),
     now = 100, wall = 100, mono = 100, fresh_token = ''new'', audit_ok = True, sweep_lock = True\<rparr>"

definition bot_cfg :: auth_config where
  "bot_cfg = \<lparr>login_global_max = 100, login_global_window_s = 60, login_per_ip_max = 50,
     login_per_ip_window_s = 60, login_per_user_max = 3, login_per_user_window_s = 60,
     login_cleanup_interval_s = 1000, login_attempt_retention_s = 1000\<rparr>"

definition bot_user :: "int \<Rightarrow> string \<Rightarrow> bool \<Rightarrow> api_user" where
  "bot_user i name service = \<lparr>u_id = i, u_username = name, u_password_hash = ''pw'', u_is_admin = False,
     u_is_service = service, u_disabled_at = None, u_sessions_invalidated_at = None\<rparr>"

definition bot_key :: api_token where
  "bot_key = \<lparr>k_hash = ''key'', k_user = 2, k_created_at = 50, k_expires_at = None, k_last_used_at = None,
     k_api_key_name = Some ''bot'', k_client = None, k_family = None, k_resource = None\<rparr>"

definition bot_db :: auth_db where
  "bot_db = \<lparr>users = [bot_user 1 ''me'' False, bot_user 2 ''bot'' True], tokens = [bot_key], refreshes = [],
     codes = [], clients = [],
     attempts = map (\<lambda>t. \<lparr>la_username = ''me'', la_ip = None, la_outcome = Failure, la_ts = t\<rparr>) [70, 80, 90],
     grants = [], last_sweep = 0\<rparr>"

theorem login_lockout_witness:
  "\<exists>cap retry. fst (login bot_env bot_cfg ''me'' ''pw'' None bot_db) = Inl (RateLimited cap retry)"
proof -
  have "user_failures bot_env bot_cfg ''me'' bot_db \<ge> login_per_user_max bot_cfg" by code_simp
  with login_lockout [where env = bot_env and cfg = bot_cfg and username = "''me''" and password = "''pw''" and
      ip = None and d = bot_db, OF prod.collapse [symmetric]]
  show ?thesis by blast
qed

theorem service_keys_kept_witness:
  "fst (refresh_token bot_env ''key'' bot_db) = Inl SessionCredentialRefused \<and>
   service_keys_only (snd (login bot_env bot_cfg ''bot'' ''pw'' None bot_db))"
proof -
  have "token_row bot_env bot_db ''key'' = Some bot_key" "k_api_key_name bot_key \<noteq> None" by code_simp+
  moreover have "service_keys_only bot_db"
    by (auto simp: service_keys_only_def bot_db_def bot_key_def)
  ultimately show ?thesis
    using service_keys_kept [of bot_db bot_env bot_cfg "''bot''" "''pw''" None "''key''"] by blast
qed

end
