(* ===== verification/OAuth.thy ===== *)
theory OAuth
  imports Auth
begin

text \<open>
  The OAuth authorization server: \<open>mcp/oauth/codes.py\<close>, \<open>refresh.py\<close>, \<open>access.py\<close>,
  \<open>clients.py\<close>, \<open>resource_indicator.py\<close> and the provider's two exchanges (\<open>provider.py\<close>).

  An exchange is several statements, and under READ COMMITTED other sessions may commit before
  each of them: \<open>others n\<close> is what they commit just before statement \<open>n\<close>, and for the
  family deletion what they commit while it waits on a row lock. \<open>others_only\<close> is the state
  when this session's own writes are rolled back.
\<close>

subsection \<open>Authorization codes\<close>

record consume_result =
  burned :: bool
  still_valid :: bool

definition mint_code ::
  "auth_env \<Rightarrow> string \<Rightarrow> int \<Rightarrow> string \<Rightarrow> bool \<Rightarrow> string \<Rightarrow> string list \<Rightarrow> int \<Rightarrow> string option \<Rightarrow>
   auth_db \<Rightarrow> auth_error + string \<times> auth_db" where
  "mint_code env client uid redirect_uri explicit challenge scopes ttl resource d =
     (let h = hash_token env (fresh_token env)
      in if \<exists>c \<in> set (codes d). c_hash c = h then Inl KeyViolation
         else Inr (fresh_token env, d\<lparr>codes := codes d @
           [\<lparr>c_hash = h, c_client = client, c_user = uid, c_redirect_uri = redirect_uri,
             c_redirect_explicit = explicit, c_challenge = challenge, c_scopes = scopes,
             c_created_at = now env, c_expires_at = now env + ttl, c_resource = resource\<rparr>]\<rparr>))"

definition load_code :: "auth_env \<Rightarrow> auth_db \<Rightarrow> string \<Rightarrow> code_row option" where
  "load_code env d raw =
     (case find (\<lambda>c. c_hash c = hash_token env raw) (codes d) of
        None \<Rightarrow> None
      | Some c \<Rightarrow> if c_expires_at c > now env \<and> owner_valid d (c_user c) (c_created_at c)
                   then Some c else None)"

definition consume_code :: "auth_env \<Rightarrow> string \<Rightarrow> auth_db \<Rightarrow> consume_result \<times> auth_db" where
  "consume_code env raw d =
     (case find (\<lambda>c. c_hash c = hash_token env raw) (codes d) of
        None \<Rightarrow> (\<lparr>burned = False, still_valid = False\<rparr>, d)
      | Some c \<Rightarrow>
          (\<lparr>burned = True,
            still_valid = (c_expires_at c > now env \<and> owner_valid d (c_user c) (c_created_at c))\<rparr>,
           d\<lparr>codes := filter (\<lambda>c. c_hash c \<noteq> hash_token env raw) (codes d)\<rparr>))"

subsection \<open>Refresh tokens\<close>

datatype rotate_result = Rotated string | Reuse int | Unknown

definition mint_refresh ::
  "auth_env \<Rightarrow> string \<Rightarrow> int \<Rightarrow> string list \<Rightarrow> int \<Rightarrow> int \<Rightarrow> string option \<Rightarrow> auth_db \<Rightarrow>
   auth_error + string \<times> auth_db" where
  "mint_refresh env client uid scopes ttl family resource d =
     (let h = hash_token env (fresh_token env)
      in if \<exists>r \<in> set (refreshes d). r_hash r = h then Inl KeyViolation
         else Inr (fresh_token env, d\<lparr>refreshes := refreshes d @
           [\<lparr>r_hash = h, r_client = client, r_user = uid, r_scopes = scopes,
             r_expires_at = now env + ttl, r_family = family, r_resource = resource,
             r_created_at = now env, r_consumed_at = None\<rparr>]\<rparr>))"

definition load_refresh :: "auth_env \<Rightarrow> auth_db \<Rightarrow> string \<Rightarrow> refresh_row option" where
  "load_refresh env d raw =
     (case find (\<lambda>r. r_hash r = hash_token env raw) (refreshes d) of
        None \<Rightarrow> None
      | Some r \<Rightarrow>
          if r_expires_at r > now env \<and> r_consumed_at r = None \<and> owner_valid d (r_user r) (r_created_at r)
          then Some r else None)"

definition revoke_refresh :: "auth_env \<Rightarrow> string \<Rightarrow> auth_db \<Rightarrow> bool \<times> auth_db" where
  "revoke_refresh env raw d =
     (\<exists>r \<in> set (refreshes d). r_hash r = hash_token env raw,
      d\<lparr>refreshes := filter (\<lambda>r. r_hash r \<noteq> hash_token env raw) (refreshes d)\<rparr>)"

definition raw_state :: "auth_env \<Rightarrow> auth_db \<Rightarrow> string \<Rightarrow> (int \<times> bool) option" where
  "raw_state env d raw =
     map_option (\<lambda>r. (r_family r, r_consumed_at r \<noteq> None))
       (find (\<lambda>r. r_hash r = hash_token env raw) (refreshes d))"

text \<open>
  The \<open>DELETE\<close> sees the rows of its own snapshot; rows committed while it waits on a lock
  (\<open>wait\<close>) are not among them.
\<close>

definition delete_family :: "int \<Rightarrow> (auth_db \<Rightarrow> auth_db) \<Rightarrow> auth_db \<Rightarrow> auth_db" where
  "delete_family family wait d =
     (let snapshot = map r_hash (refreshes d); d1 = wait d
      in d1\<lparr>refreshes := filter (\<lambda>r. \<not> (r_family r = family \<and> r_hash r \<in> set snapshot)) (refreshes d1)\<rparr>)"

definition sweep_consumed :: "auth_env \<Rightarrow> auth_db \<Rightarrow> auth_db" where
  "sweep_consumed env d =
     d\<lparr>refreshes := filter (\<lambda>r. \<not> (r_consumed_at r \<noteq> None \<and> r_expires_at r < now env)) (refreshes d)\<rparr>"

definition claimable :: "auth_env \<Rightarrow> auth_db \<Rightarrow> string \<Rightarrow> refresh_row \<Rightarrow> bool" where
  "claimable env d raw r \<longleftrightarrow> r_hash r = hash_token env raw \<and> r_consumed_at r = None \<and>
     owner_valid d (r_user r) (r_created_at r)"

definition claim_refresh :: "auth_env \<Rightarrow> string \<Rightarrow> auth_db \<Rightarrow> bool \<times> auth_db" where
  "claim_refresh env raw d =
     (length (filter (claimable env d raw) (refreshes d)) = 1,
      d\<lparr>refreshes := update_where (claimable env d raw)
          (\<lambda>r. r\<lparr>r_consumed_at := Some (now env)\<rparr>) (refreshes d)\<rparr>)"

definition rotate_refresh ::
  "auth_env \<Rightarrow> (nat \<Rightarrow> auth_db \<Rightarrow> auth_db) \<Rightarrow> int \<Rightarrow> string \<Rightarrow> auth_db \<Rightarrow>
   (auth_error + rotate_result) \<times> auth_db" where
  "rotate_refresh env others ttl raw d =
     (let d0 = others 0 d
      in case raw_state env d0 raw of
           None \<Rightarrow> (Inr Unknown, d0)
         | Some (family, is_consumed) \<Rightarrow>
             if is_consumed then (Inr (Reuse family), delete_family family (others 1) d0)
             else
               (let d1 = others 1 d0
                in case load_refresh env d1 raw of
                     None \<Rightarrow> (Inr Unknown, d1)
                   | Some row \<Rightarrow>
                      (case claim_refresh env raw (others 2 d1) of
                         (claimed, d2) \<Rightarrow>
                          (let d3 = others 3 d2
                           in if \<not> claimed then
                                (case raw_state env d3 raw of
                                   Some (_, True) \<Rightarrow>
                                     (Inr (Reuse (r_family row)), delete_family (r_family row) (others 4) d3)
                                 | _ \<Rightarrow> (Inr Unknown, d3))
                              else
                                (case mint_refresh env (r_client row) (r_user row) (r_scopes row) ttl
                                        (r_family row) (r_resource row) d3 of
                                   Inl e \<Rightarrow> (Inl e, d3)
                                 | Inr (new, d4) \<Rightarrow> (Inr (Rotated new), sweep_consumed env (others 4 d4)))))))"

subsection \<open>Access tokens\<close>

definition mint_access ::
  "auth_env \<Rightarrow> int \<Rightarrow> string \<Rightarrow> int \<Rightarrow> int option \<Rightarrow> string option \<Rightarrow> auth_db \<Rightarrow>
   auth_error + string \<times> auth_db" where
  "mint_access env uid client ttl family resource d =
     bindr (insert_session_token env uid (now env + ttl) (Some client) family resource d)
       (\<lambda>d1. Inr (fresh_token env, d1))"

record access_token =
  at_token :: string
  at_client :: string
  at_subject :: int

definition load_access ::
  "auth_env \<Rightarrow> (string \<Rightarrow> string option) \<Rightarrow> (auth_db \<Rightarrow> auth_db) \<Rightarrow> string list option \<Rightarrow> string \<Rightarrow> auth_db \<Rightarrow>
   access_token option \<times> auth_db" where
  "load_access env canon between accepted raw d =
     (case verify_token env raw d of
        (None, d1) \<Rightarrow> (None, d1)
      | (Some u, d1) \<Rightarrow>
         (let d2 = between d1
          in (case find (\<lambda>t. k_hash t = hash_token env raw) (tokens d2) of
                None \<Rightarrow> None
              | Some t \<Rightarrow>
                  if (case (accepted, k_resource t) of
                        (Some acc, Some res) \<Rightarrow>
                          (case canon res of None \<Rightarrow> True | Some c \<Rightarrow> c \<notin> set acc)
                      | _ \<Rightarrow> False)
                  then None
                  else Some \<lparr>at_token = raw,
                             at_client = (case k_client t of None \<Rightarrow> ''localmail'' | Some c \<Rightarrow> c),
                             at_subject = au_id u\<rparr>, d2)))"

definition revoke_access :: "auth_env \<Rightarrow> string \<Rightarrow> auth_db \<Rightarrow> bool \<times> auth_db" where
  "revoke_access env raw d =
     (let hit = (\<lambda>t. k_hash t = hash_token env raw \<and> k_api_key_name t = None)
      in (\<exists>t \<in> set (tokens d). hit t, d\<lparr>tokens := filter (\<lambda>t. \<not> hit t) (tokens d)\<rparr>))"

definition revoke_access_family :: "int \<Rightarrow> auth_db \<Rightarrow> auth_db" where
  "revoke_access_family family d = d\<lparr>tokens := filter (\<lambda>t. k_family t \<noteq> Some family) (tokens d)\<rparr>"

subsection \<open>Clients\<close>

definition register_client :: "auth_env \<Rightarrow> client_row \<Rightarrow> auth_db \<Rightarrow> auth_error + auth_db" where
  "register_client env c d =
     (if o_client_id c \<in> set (map o_client_id (clients d)) then Inl KeyViolation
      else Inr (d\<lparr>clients := clients d @ [c\<lparr>o_created_at := now env, o_last_used_at := None\<rparr>]\<rparr>))"

definition get_client :: "auth_db \<Rightarrow> string \<Rightarrow> client_row option" where
  "get_client d cid = find (\<lambda>c. o_client_id c = cid) (clients d)"

definition touch_last_used :: "auth_env \<Rightarrow> string \<Rightarrow> auth_db \<Rightarrow> auth_db" where
  "touch_last_used env cid d =
     d\<lparr>clients := update_where (\<lambda>c. o_client_id c = cid) (\<lambda>c. c\<lparr>o_last_used_at := Some (now env)\<rparr>) (clients d)\<rparr>"

definition abandoned :: "auth_env \<Rightarrow> int \<Rightarrow> auth_db \<Rightarrow> client_row \<Rightarrow> bool" where
  "abandoned env retention d c \<longleftrightarrow>
     (case o_last_used_at c of None \<Rightarrow> o_created_at c | Some t \<Rightarrow> t) < now env - retention \<and>
     \<not> (\<exists>r \<in> set (refreshes d). r_client r = o_client_id c \<and> r_expires_at r > now env \<and> r_consumed_at r = None)"

text \<open>Deleting a client cascades to its codes, refresh tokens and access tokens.\<close>

definition cleanup_unused :: "auth_env \<Rightarrow> int \<Rightarrow> auth_db \<Rightarrow> int \<times> auth_db" where
  "cleanup_unused env retention d =
     (let gone = map o_client_id (filter (abandoned env retention d) (clients d))
      in (int (length gone),
          d\<lparr>clients := filter (\<lambda>c. \<not> abandoned env retention d c) (clients d),
            codes := filter (\<lambda>c. c_client c \<notin> set gone) (codes d),
            refreshes := filter (\<lambda>r. r_client r \<notin> set gone) (refreshes d),
            tokens := filter (\<lambda>t. case k_client t of None \<Rightarrow> True | Some c \<Rightarrow> c \<notin> set gone) (tokens d)\<rparr>))"

subsection \<open>The resource decision\<close>

datatype resource_decision = Bound string | Rejected string | IndexFault

definition decide_resource ::
  "(string \<Rightarrow> string option) \<Rightarrow> string option \<Rightarrow> string list \<Rightarrow> bool \<Rightarrow> resource_decision" where
  "decide_resource canon requested accepted require =
     (case requested of
        None \<Rightarrow>
          if require then Rejected ''resource indicator is required''
          else (case accepted of [] \<Rightarrow> IndexFault | a # _ \<Rightarrow> Bound a)
      | Some req \<Rightarrow>
          (case canon req of
             Some c \<Rightarrow> if c \<in> set accepted then Bound c
                        else Rejected ''invalid or unknown resource indicator''
           | None \<Rightarrow> Rejected ''invalid or unknown resource indicator''))"

subsection \<open>The provider's exchanges\<close>

record oauth_config =
  refresh_ttl :: int
  access_ttl :: int

record oauth_token =
  ot_access :: string
  ot_refresh :: string
  ot_expires_in :: int

fun others_only :: "(nat \<Rightarrow> auth_db \<Rightarrow> auth_db) \<Rightarrow> nat \<Rightarrow> auth_db \<Rightarrow> auth_db" where
  "others_only others 0 d = d"
| "others_only others (Suc n) d = others n (others_only others n d)"

text \<open>
  \<open>_load_code_sync\<close> and \<open>_load_refresh_sync\<close>: the SDK loads before it exchanges, for the
  presenting client only.
\<close>

definition provider_load_code :: "auth_env \<Rightarrow> string \<Rightarrow> string \<Rightarrow> auth_db \<Rightarrow> code_row option" where
  "provider_load_code env client raw d =
     (case load_code env d raw of None \<Rightarrow> None | Some c \<Rightarrow> if c_client c \<noteq> client then None else Some c)"

definition provider_load_refresh :: "auth_env \<Rightarrow> string \<Rightarrow> string \<Rightarrow> auth_db \<Rightarrow> refresh_row option" where
  "provider_load_refresh env client raw d =
     (case load_refresh env d raw of None \<Rightarrow> None | Some r \<Rightarrow> if r_client r \<noteq> client then None else Some r)"

text \<open>
  \<open>_exchange_code_sync\<close>. The burn commits on its own; what follows is a second transaction,
  so a failure there rolls back to \<open>d1\<close> with the others' commits. The two raw tokens and the
  fresh family come from the environments \<open>env\<close> (refresh), \<open>env'\<close> (access) and \<open>fresh_family\<close>.
\<close>

definition exchange_code ::
  "auth_env \<Rightarrow> auth_env \<Rightarrow> oauth_config \<Rightarrow> (nat \<Rightarrow> auth_db \<Rightarrow> auth_db) \<Rightarrow> int \<Rightarrow> string \<Rightarrow> string \<Rightarrow> code_row \<Rightarrow>
   auth_db \<Rightarrow> (auth_error + oauth_token) \<times> auth_db" where
  "exchange_code env env' cfg others fresh_family client raw auth_code d =
     (case consume_code env raw (others 0 d) of
        (burn, d1) \<Rightarrow>
          if \<not> burned burn then (Inl (InvalidGrant ''authorization code already used or unknown''), d1)
          else if \<not> still_valid burn then (Inl (InvalidGrant ''authorization code is no longer valid''), d1)
          else
            (let rolled_back = others 2 (others 1 d1)
             in case mint_refresh env client (c_user auth_code) (c_scopes auth_code) (refresh_ttl cfg)
                       fresh_family (c_resource auth_code) (others 1 d1) of
                  Inl e \<Rightarrow> (Inl e, others 1 d1)
                | Inr (refresh_raw, d2) \<Rightarrow>
                   (case load_refresh env (others 2 d2) refresh_raw of
                      None \<Rightarrow> (Inl (InvalidGrant ''authorization code is no longer valid''), rolled_back)
                    | Some new_row \<Rightarrow>
                       (case mint_access env' (c_user auth_code) client (access_ttl cfg)
                               (Some (r_family new_row)) (c_resource auth_code) (others 2 d2) of
                          Inl e \<Rightarrow> (Inl e, rolled_back)
                        | Inr (access_raw, d3) \<Rightarrow>
                            (Inr \<lparr>ot_access = access_raw, ot_refresh = refresh_raw, ot_expires_in = access_ttl cfg\<rparr>,
                             touch_last_used env client d3)))))"

definition exchange_refresh ::
  "auth_env \<Rightarrow> auth_env \<Rightarrow> oauth_config \<Rightarrow> (nat \<Rightarrow> auth_db \<Rightarrow> auth_db) \<Rightarrow> string \<Rightarrow> string \<Rightarrow> auth_db \<Rightarrow>
   (auth_error + oauth_token) \<times> auth_db" where
  "exchange_refresh env env' cfg others client raw d =
     (case rotate_refresh env others (refresh_ttl cfg) raw d of
        (Inl e, _) \<Rightarrow> (Inl e, others_only others 4 d)
      | (Inr (Rotated new), d1) \<Rightarrow>
          (let d2 = others 5 d1
           in case load_refresh env d2 new of
                None \<Rightarrow> (Inl AssertionFailed, others_only others 6 d)
              | Some row \<Rightarrow>
                 (case mint_access env' (r_user row) client (access_ttl cfg) (Some (r_family row)) (r_resource row) d2 of
                    Inl e \<Rightarrow> (Inl e, others_only others 6 d)
                  | Inr (access_raw, d3) \<Rightarrow>
                      (Inr \<lparr>ot_access = access_raw, ot_refresh = new, ot_expires_in = access_ttl cfg\<rparr>,
                       touch_last_used env client d3)))
      | (Inr (Reuse family), d1) \<Rightarrow>
          (Inl (InvalidGrant ''refresh token reuse detected''), revoke_access_family family (others 5 d1))
      | (Inr Unknown, d1) \<Rightarrow> (Inl (InvalidGrant ''refresh token is no longer valid''), d1))"

definition revoke_token :: "auth_env \<Rightarrow> string \<Rightarrow> auth_db \<Rightarrow> auth_db" where
  "revoke_token env raw d =
     (case revoke_access env raw d of (True, d1) \<Rightarrow> d1 | (False, d1) \<Rightarrow> snd (revoke_refresh env raw d1))"

subsection \<open>Revocation reaches every credential\<close>

interpretation refresh_store: revocable load_refresh r_user r_created_at
  by unfold_locales (auto simp: load_refresh_def split: option.splits if_splits)

interpretation code_store: revocable load_code c_user c_created_at
  by unfold_locales (auto simp: load_code_def split: option.splits if_splits)

text \<open>
  C5. Session revocation is terminal for all three credential kinds: once an operator has
  revoked a user's sessions, no bearer token, refresh token or authorization code of that user
  created before that moment is honoured, at any later time, until the cutoff itself is moved.
\<close>

theorem revocation_terminal:
  assumes "revoke_sessions env uid d = Inr d'"
  shows "\<not> (\<exists>t. token_row env' d' raw = Some t \<and> k_user t = uid \<and> k_created_at t < now env) \<and>
    \<not> (\<exists>r. load_refresh env' d' raw = Some r \<and> r_user r = uid \<and> r_created_at r < now env) \<and>
    \<not> (\<exists>c. load_code env' d' raw = Some c \<and> c_user c = uid \<and> c_created_at c < now env)"
  using revoke_sessions_user [OF assms] bearer.revoked_owner refresh_store.revoked_owner code_store.revoked_owner
  by metis

text \<open>The quiet case: no other session commits at the given statements.\<close>

definition quiet_from :: "nat \<Rightarrow> (nat \<Rightarrow> auth_db \<Rightarrow> auth_db) \<Rightarrow> bool" where
  "quiet_from n others \<longleftrightarrow> (\<forall>m \<ge> n. \<forall>d. others m d = d)"

lemma quiet_fromD: "quiet_from n others \<Longrightarrow> n \<le> m \<Longrightarrow> others m d = d"
  by (simp add: quiet_from_def)

lemma rotate_unclaimed:
  assumes claim: "claim_refresh env raw (revocation d) = (False, revocation d)"
  obtains x e where "rotate_refresh env (\<lambda>n. if n = 2 then revocation else id) ttl raw d = (Inr x, e)"
    "x = Unknown \<or> (\<exists>f. x = Reuse f)"
    "set (refreshes e) \<subseteq> set (refreshes d) \<and> tokens e = tokens d \<or>
      set (refreshes e) \<subseteq> set (refreshes (revocation d)) \<and> tokens e = tokens (revocation d)"
proof -
  have del: "set (refreshes (delete_family f id x)) \<subseteq> set (refreshes x) \<and> tokens (delete_family f id x) = tokens x" for f x
    by (auto simp: delete_family_def)
  show thesis
  proof (cases "raw_state env d raw")
    case None
    then show thesis by (intro that [of Unknown d]) (simp_all add: rotate_refresh_def)
  next
    case (Some fc)
    obtain f cons where fc: "fc = (f, cons)" by fastforce
    show thesis
    proof (cases "cons \<or> load_refresh env d raw = None")
      case True
      with Some fc del show thesis
        by (intro that [of "if cons then Reuse f else Unknown" "if cons then delete_family f id d else d"])
           (auto simp: rotate_refresh_def Let_def)
    next
      case False
      then obtain row where row: "load_refresh env d raw = Some row" by auto
      let ?gone = "case raw_state env (revocation d) raw of Some (_, True) \<Rightarrow> True | _ \<Rightarrow> False"
      from Some fc False row claim del show thesis
        by (intro that [of "if ?gone then Reuse (r_family row) else Unknown"
              "if ?gone then delete_family (r_family row) id (revocation d) else revocation d"])
           (auto simp: rotate_refresh_def Let_def split: option.splits bool.splits)
    qed
  qed
qed

text \<open>
  A revocation that commits between loading a credential and consuming it still wins: when
  at the moment of the claim (for a refresh token) or of the burn (for a code) the owner is
  disabled, gone or revoked past the credential's creation, the exchange is refused and mints
  no token of either kind.
\<close>

theorem late_revocation_wins:
  assumes "\<And>r. r \<in> set (refreshes (revocation d)) \<Longrightarrow> r_hash r = hash_token env raw \<Longrightarrow>
      \<not> owner_valid (revocation d) (r_user r) (r_created_at r)"
    and "\<And>c. c \<in> set (codes (revocation d)) \<Longrightarrow> c_hash c = hash_token env raw_code \<Longrightarrow>
      \<not> owner_valid (revocation d) (c_user c) (c_created_at c)"
    and "exchange_refresh env env' cfg (\<lambda>n. if n = 2 then revocation else id) client raw d = (r, d')"
    and "exchange_code env env' cfg (\<lambda>n. if n = 0 then revocation else id) fam client raw_code ac d = (r2, d2)"
  shows "(\<exists>e. r = Inl e) \<and> (set (refreshes d') \<subseteq> set (refreshes d) \<or> set (refreshes d') \<subseteq> set (refreshes (revocation d))) \<and>
      (set (tokens d') \<subseteq> set (tokens d) \<or> set (tokens d') \<subseteq> set (tokens (revocation d))) \<and>
    (\<exists>e. r2 = Inl e) \<and> refreshes d2 = refreshes (revocation d) \<and> tokens d2 = tokens (revocation d)"
proof -
  have none: "filter (claimable env (revocation d) raw) (refreshes (revocation d)) = []"
    using assms(1) by (auto simp: filter_empty_conv claimable_def)
  then have upd: "update_where (claimable env (revocation d) raw) f (refreshes (revocation d)) = refreshes (revocation d)" for f
    by (intro update_where_none) (auto simp: filter_empty_conv)
  have claim: "claim_refresh env raw (revocation d) = (False, revocation d)"
    by (simp add: claim_refresh_def none upd)
  obtain x e where rot: "rotate_refresh env (\<lambda>n. if n = 2 then revocation else id) (refresh_ttl cfg) raw d = (Inr x, e)"
    and x: "x = Unknown \<or> (\<exists>f. x = Reuse f)"
    and e: "set (refreshes e) \<subseteq> set (refreshes d) \<and> tokens e = tokens d \<or>
      set (refreshes e) \<subseteq> set (refreshes (revocation d)) \<and> tokens e = tokens (revocation d)"
    by (rule rotate_unclaimed [where revocation = revocation and d = d and ttl = "refresh_ttl cfg", OF claim])
  have "(\<exists>e. r = Inl e) \<and> refreshes d' = refreshes e \<and> set (tokens d') \<subseteq> set (tokens e)"
    using assms(3) rot x by (auto simp: exchange_refresh_def revoke_access_family_def)
  with e have "(\<exists>e. r = Inl e) \<and> (set (refreshes d') \<subseteq> set (refreshes d) \<or> set (refreshes d') \<subseteq> set (refreshes (revocation d))) \<and>
      (set (tokens d') \<subseteq> set (tokens d) \<or> set (tokens d') \<subseteq> set (tokens (revocation d)))" by auto
  moreover have "(\<exists>e. r2 = Inl e) \<and> refreshes d2 = refreshes (revocation d) \<and> tokens d2 = tokens (revocation d)"
    using assms(2,4)
    by (auto simp: exchange_code_def consume_code_def Let_def split: option.splits if_splits dest!: find_SomeD)
  ultimately show ?thesis by blast
qed

subsection \<open>Single use\<close>

definition never_restores :: "bytes \<Rightarrow> (nat \<Rightarrow> auth_db \<Rightarrow> auth_db) \<Rightarrow> bool" where
  "never_restores h others \<longleftrightarrow>
     (\<forall>n d. h \<notin> set (map c_hash (codes d)) \<longrightarrow> h \<notin> set (map c_hash (codes (others n d))))"

lemma mint_refresh_frame:
  "mint_refresh env cl u sc ttl fam res d = Inr (tok, d') \<Longrightarrow>
   codes d' = codes d \<and> users d' = users d \<and> tokens d' = tokens d \<and> tok = fresh_token env"
  by (auto simp: mint_refresh_def Let_def split: if_splits)

lemma mint_access_frame:
  "mint_access env u cl ttl fam res d = Inr (tok, d') \<Longrightarrow>
   codes d' = codes d \<and> users d' = users d \<and> refreshes d' = refreshes d \<and> tok = fresh_token env"
  by (auto simp: mint_access_def bindr_Inr_iff insert_session_token_def insert_token_def
      split: option.splits if_splits)

lemma touch_frame [simp]:
  "codes (touch_last_used env c d) = codes d" "refreshes (touch_last_used env c d) = refreshes d"
  "tokens (touch_last_used env c d) = tokens d" "users (touch_last_used env c d) = users d"
  by (simp_all add: touch_last_used_def)

lemma consume_burns:
  "consume_code env raw d = (b, d') \<Longrightarrow> hash_token env raw \<notin> set (map c_hash (codes d'))"
  by (auto simp: consume_code_def find_None_conv split: option.splits)

text \<open>
  C6. An authorization code works once. Whatever the first exchange of a code does, succeed, be
  refused or fail after the burn, a second exchange of the same code by anyone is refused as
  already used, as long as no other session stores that very code again.
\<close>

theorem code_single_use:
  assumes "exchange_code env1 env1' cfg others1 fam1 client1 raw ac1 d = (r1, d1)"
    and "exchange_code env2 env2' cfg others2 fam2 client2 raw ac2 d1 = (r2, d2)"
    and "hash_token env2 = hash_token env1"
    and "never_restores (hash_token env1 raw) others1" "never_restores (hash_token env1 raw) others2"
  shows "r2 = Inl (InvalidGrant ''authorization code already used or unknown'')"
proof -
  obtain b e1 where c: "consume_code env1 raw (others1 0 d) = (b, e1)" by fastforce
  define gone where "gone x \<longleftrightarrow> hash_token env1 raw \<notin> set (map c_hash (codes x))" for x :: auth_db
  have e1: "gone e1" using consume_burns [OF c] by (simp add: gone_def)
  have keep: "gone (others1 n x)" if "gone x" for n x
    using assms(4) that by (auto simp: never_restores_def gone_def)
  have mint: "gone x' = gone x" if "mint_refresh e cl u sc ttl fm rs x = Inr (tok, x')" for e cl u sc ttl fm rs x tok x'
    using mint_refresh_frame [OF that] by (simp add: gone_def)
  have acc: "gone x' = gone x" if "mint_access e u cl ttl fm rs x = Inr (tok, x')" for e u cl ttl fm rs x tok x'
    using mint_access_frame [OF that] by (simp add: gone_def)
  have touch: "gone (touch_last_used e cl x) = gone x" for e cl x by (simp add: gone_def)
  have "gone d1"
    using assms(1) c e1 keep mint acc touch
    unfolding exchange_code_def Let_def
    by (auto split: if_splits sum.splits prod.splits option.splits)
  then have "hash_token env1 raw \<notin> set (map c_hash (codes (others2 0 d1)))"
    using assms(5) by (auto simp: never_restores_def gone_def)
  then have "find (\<lambda>c. c_hash c = hash_token env2 raw) (codes (others2 0 d1)) = None"
    using assms(3) by (auto simp: find_None_conv image_iff)
  then show ?thesis using assms(2) by (simp add: exchange_code_def consume_code_def)
qed

subsection \<open>Reuse of a refresh token\<close>

text \<open>
  Reuse detection contains a stolen refresh token: presenting a token that was already
  rotated away is refused, and afterwards neither a refresh token nor an access token of its
  family is left, provided no other session commits to that family meanwhile.
\<close>

theorem reuse_purges_family:
  assumes "quiet_from 1 others" "raw_state env (others 0 d) raw = Some (family, True)"
    and "exchange_refresh env env' cfg others client raw d = (r, d')"
  shows "r = Inl (InvalidGrant ''refresh token reuse detected'') \<and>
    (\<forall>x \<in> set (refreshes d'). r_family x \<noteq> family) \<and> (\<forall>t \<in> set (tokens d'). k_family t \<noteq> Some family)"
  using assms
  by (auto simp: exchange_refresh_def rotate_refresh_def Let_def delete_family_def revoke_access_family_def
      quiet_fromD)

text \<open>The number of tokens of a family that could still be rotated.\<close>

definition live :: "int \<Rightarrow> auth_db \<Rightarrow> nat" where
  "live f d = length (filter (\<lambda>r. r_family r = f \<and> r_consumed_at r = None) (refreshes d))"

definition keeps_families :: "int \<Rightarrow> (nat \<Rightarrow> auth_db \<Rightarrow> auth_db) \<Rightarrow> bool" where
  "keeps_families f others \<longleftrightarrow>
     (\<forall>n d. live f (others n d) \<le> live f d \<and>
        (distinct (map r_hash (refreshes d)) \<longrightarrow> distinct (map r_hash (refreshes (others n d))) \<and>
          (\<forall>r \<in> set (refreshes d). \<forall>r' \<in> set (refreshes (others n d)).
             r_hash r' = r_hash r \<longrightarrow> r_family r' = r_family r)))"

lemma keeps_distinct:
  "keeps_families f others \<Longrightarrow> distinct (map r_hash (refreshes d)) \<Longrightarrow>
   distinct (map r_hash (refreshes (others n d)))"
  by (simp add: keeps_families_def)

lemma keeps_live: "keeps_families f others \<Longrightarrow> live f (others n d) \<le> live f d"
  by (simp add: keeps_families_def)

lemma length_filter_filter: "length (filter P (filter Q xs)) \<le> length (filter P xs)"
  by (induction xs) auto

lemma live_delete: "keeps_families f others \<Longrightarrow> live f (delete_family g (others n) d) \<le> live f d"
proof -
  assume k: "keeps_families f others"
  have "live f (delete_family g (others n) d) \<le> live f (others n d)"
    using length_filter_filter [of "\<lambda>r. r_family r = f \<and> r_consumed_at r = None"
        "\<lambda>r. \<not> (r_family r = g \<and> r_hash r \<in> set (map r_hash (refreshes d)))" "refreshes (others n d)"]
    by (simp add: delete_family_def live_def Let_def del: filter_filter)
  with keeps_live [OF k, of n d] show ?thesis by linarith
qed

lemma live_sweep: "live f (sweep_consumed env d) = live f d"
  by (auto simp: live_def sweep_consumed_def intro!: arg_cong [of _ _ length] filter_cong)

lemma live_mint:
  "mint_refresh env cl u sc ttl g res d = Inr (tok, d') \<Longrightarrow> live f d' = live f d + (if f = g then 1 else 0)"
  by (auto simp: mint_refresh_def Let_def live_def split: if_splits)

lemma live_frame: "refreshes d' = refreshes d \<Longrightarrow> live f d' = live f d"
  by (simp add: live_def)

lemma live_claim:
  assumes "length (filter P xs) = 1" "\<And>r. P r \<Longrightarrow> r_consumed_at r = None"
    and "\<And>r. r \<in> set xs \<Longrightarrow> P r \<Longrightarrow> r_family r = g"
  shows "length (filter (\<lambda>r. r_family r = f \<and> r_consumed_at r = None)
      (update_where P (\<lambda>r. r\<lparr>r_consumed_at := Some t\<rparr>) xs)) + (if f = g then 1 else 0) =
    length (filter (\<lambda>r. r_family r = f \<and> r_consumed_at r = None) xs)"
  using assms(1,3)
proof (induction xs)
  case (Cons x xs)
  show ?case
  proof (cases "P x")
    case True
    then have "filter P xs = []" using Cons.prems(1) by simp
    then have "update_where P h xs = xs" for h by (intro update_where_none) (auto simp: filter_empty_conv)
    with True assms(2) [OF True] Cons.prems(2) [of x] show ?thesis by auto
  next
    case False
    with Cons show ?thesis by auto
  qed
qed simp

lemma live_update_le:
  "length (filter (\<lambda>r. r_family r = f \<and> r_consumed_at r = None)
      (update_where P (\<lambda>r. r\<lparr>r_consumed_at := Some t\<rparr>) xs)) \<le>
   length (filter (\<lambda>r. r_family r = f \<and> r_consumed_at r = None) xs)"
  by (induction xs) auto

lemma claim_live:
  assumes k: "keeps_families f others" and row: "load_refresh env d1 raw = Some row"
    and cl: "claim_refresh env raw (others n d1) = (True, d2)" and "distinct (map r_hash (refreshes d1))"
  shows "live f d2 + (if f = r_family row then 1 else 0) = live f (others n d1)"
proof -
  have r: "row \<in> set (refreshes d1)" "r_hash row = hash_token env raw"
    using row by (auto simp: load_refresh_def split: option.splits if_splits dest: find_SomeD)
  have fam: "r_family x = r_family row" if "x \<in> set (refreshes (others n d1))" "claimable env (others n d1) raw x" for x
    using k r that assms(4) by (auto simp: keeps_families_def claimable_def)
  have d2: "refreshes d2 = update_where (claimable env (others n d1) raw)
      (\<lambda>r. r\<lparr>r_consumed_at := Some (now env)\<rparr>) (refreshes (others n d1))"
    and one: "length (filter (claimable env (others n d1) raw) (refreshes (others n d1))) = 1"
    using cl by (auto simp: claim_refresh_def)
  show ?thesis
    unfolding live_def d2 by (rule live_claim [OF one]) (auto simp: claimable_def fam)
qed

lemma rotate_live:
  assumes k: "keeps_families f others"
    and run: "rotate_refresh env others ttl raw d = (Inr res, d')"
    and "distinct (map r_hash (refreshes d))"
  shows "live f d' \<le> live f d"
proof -
  let ?d0 = "others 0 d"
  let ?d1 = "others 1 ?d0"
  have k01: "live f ?d0 \<le> live f d" "live f ?d1 \<le> live f ?d0" using keeps_live [OF k] by auto
  show ?thesis
  proof (cases "raw_state env ?d0 raw")
    case None
    with run k01 show ?thesis by (simp add: rotate_refresh_def)
  next
    case (Some fc)
    obtain fam cons where fc: "fc = (fam, cons)" by fastforce
    show ?thesis
    proof (cases "cons \<or> load_refresh env ?d1 raw = None")
      case True
      have "live f (delete_family fam (others 1) ?d0) \<le> live f ?d0" by (rule live_delete [OF k])
      with True run Some fc k01 show ?thesis by (auto simp: rotate_refresh_def Let_def split: if_splits)
    next
      case False
      then obtain row where row: "load_refresh env ?d1 raw = Some row" by auto
      obtain claimed d2 where cl: "claim_refresh env raw (others 2 ?d1) = (claimed, d2)" by fastforce
      have tail: "d' = delete_family (r_family row) (others 4) (others 3 d2) \<or> d' = others 3 d2" if "\<not> claimed"
        using run Some fc False row cl that
        by (auto simp: rotate_refresh_def Let_def split: option.splits bool.splits)
      show ?thesis
      proof (cases claimed)
        case False
        have "live f d2 \<le> live f (others 2 ?d1)"
          using cl by (auto simp: claim_refresh_def live_def live_update_le)
        moreover have "live f d' \<le> live f (others 3 d2)"
          using tail [OF False] live_delete [OF k] by auto
        ultimately show ?thesis using k01 keeps_live [OF k, of 3 d2] keeps_live [OF k, of 2 ?d1] by linarith
      next
        case True
        obtain new d4 where m: "mint_refresh env (r_client row) (r_user row) (r_scopes row) ttl (r_family row)
            (r_resource row) (others 3 d2) = Inr (new, d4)" and d': "d' = sweep_consumed env (others 4 d4)"
          using run Some fc False row cl True
          by (auto simp: rotate_refresh_def Let_def split: sum.splits prod.splits)
        have cl': "claim_refresh env raw (others 2 ?d1) = (True, d2)" using cl True by simp
        have "live f d2 + (if f = r_family row then 1 else 0) = live f (others 2 ?d1)"
          by (rule claim_live [OF k row cl' keeps_distinct [OF k keeps_distinct [OF k assms(3)]]])
        with live_mint [OF m, of f] keeps_live [OF k, of 3 d2] keeps_live [OF k, of 4 d4]
          keeps_live [OF k, of 2 ?d1] k01 show ?thesis
          unfolding d' live_sweep by (auto split: if_splits)
      qed
    qed
  qed
qed

text \<open>
  C7. A refresh-token family never has more than one usable token: an exchange, whatever it
  answers, never increases the number of unconsumed tokens of any family, provided the other
  sessions do not either and leave a row's family alone. So concurrent presentations of one
  token cannot fork the family.
\<close>

theorem refresh_family_never_forks:
  assumes "keeps_families f others"
    and "exchange_refresh env env' cfg others client raw d = (r, d')"
    and "distinct (map r_hash (refreshes d))"
  shows "live f d' \<le> live f d"
proof -
  have only: "live f (others_only others n d) \<le> live f d" for n
    by (induction n) (auto intro: le_trans [OF keeps_live [OF assms(1)]])
  obtain x e where rot: "rotate_refresh env others (refresh_ttl cfg) raw d = (x, e)" by fastforce
  show ?thesis
  proof (cases x)
    case (Inl err)
    with assms(2) rot only show ?thesis by (auto simp: exchange_refresh_def)
  next
    case (Inr res)
    have e: "live f e \<le> live f d" "live f (others 5 e) \<le> live f e"
      using rotate_live [OF assms(1) rot [unfolded Inr] assms(3)] keeps_live [OF assms(1)] by auto
    have acc: "live f d3 = live f (others 5 e)"
      if "mint_access env' u client ttl fam res' (others 5 e) = Inr (tok, d3)" for u ttl fam res' tok d3
      using mint_access_frame [OF that] by (simp add: live_def)
    have fam: "live f (revoke_access_family g x) = live f x" "live f (touch_last_used env client x) = live f x" for g x
      by (simp_all add: live_def revoke_access_family_def)
    have "live f d' \<le> live f (others 5 e) \<or> live f d' \<le> live f d"
      using assms(2) rot Inr only acc fam e
      by (auto simp: exchange_refresh_def Let_def split: rotate_result.splits option.splits sum.splits prod.splits)
    with e show ?thesis by linarith
  qed
qed

subsection \<open>The audience is carried and enforced\<close>

lemma mint_access_row:
  assumes "mint_access env u cl ttl fam res d = Inr (tok, d')"
  shows "\<exists>t \<in> set (tokens d'). k_hash t = hash_token env tok \<and> k_user t = u \<and> k_client t = Some cl \<and>
    k_family t = fam \<and> k_resource t = res \<and> k_expires_at t = Some (now env + ttl)"
  using assms
  by (auto simp: mint_access_def bindr_Inr_iff insert_session_token_def insert_token_def
      split: option.splits if_splits)

lemma load_refresh_cong:
  assumes "refreshes d = refreshes e" "users d = users e"
  shows "load_refresh env d x = load_refresh env e x"
proof -
  have ov: "owner_valid d = owner_valid e" using assms(2) by (simp add: fun_eq_iff owner_valid_def user_of_def)
  show ?thesis unfolding load_refresh_def assms(1) ov by (rule refl)
qed

lemma quiet_rotation:
  assumes "rotate_refresh env (\<lambda>_. id) ttl raw d = (Inr (Rotated new), d')"
  obtains row d2 d4 where "load_refresh env d raw = Some row" "claim_refresh env raw d = (True, d2)"
    "mint_refresh env (r_client row) (r_user row) (r_scopes row) ttl (r_family row) (r_resource row) d2 = Inr (new, d4)"
    "d' = sweep_consumed env d4"
  using assms
  by (auto simp: rotate_refresh_def Let_def split: option.splits prod.splits if_splits sum.splits bool.splits)

lemma consumed_not_loaded:
  assumes "load_refresh env d raw = Some row" "claim_refresh env raw d = (True, d2)"
    and "mint_refresh env cl u sc ttl fam res d2 = Inr (new, d4)"
  shows "load_refresh env (sweep_consumed env d4) raw = None"
proof -
  let ?hit = "\<lambda>r. r_hash r = hash_token env raw"
  have row: "find ?hit (refreshes d) = Some row" "r_expires_at row > now env" "claimable env d raw row"
    using assms(1) by (auto simp: load_refresh_def claimable_def split: option.splits if_splits dest: find_SomeD)
  let ?up = "update_where (claimable env d raw) (\<lambda>r. r\<lparr>r_consumed_at := Some (now env)\<rparr>)"
  let ?keep = "\<lambda>r. \<not> (r_consumed_at r \<noteq> None \<and> r_expires_at r < now env)"
  have first: "find ?hit (filter ?keep (?up xs @ ys)) = Some (row\<lparr>r_consumed_at := Some (now env)\<rparr>)"
    if "find ?hit xs = Some row" for xs ys
    using that row(2,3) by (induction xs) (auto split: if_splits)
  have "refreshes d4 = ?up (refreshes d) @ drop (length (refreshes d)) (refreshes d4)"
    using assms(2,3) by (auto simp: claim_refresh_def mint_refresh_def Let_def split: if_splits)
  then have "find ?hit (refreshes (sweep_consumed env d4)) = Some (row\<lparr>r_consumed_at := Some (now env)\<rparr>)"
    using first [OF row(1), of "drop (length (refreshes d)) (refreshes d4)"] by (simp add: sweep_consumed_def)
  then show ?thesis by (simp add: load_refresh_def)
qed

text \<open>
  Rotation carries the grant unchanged: a successful refresh issues a refresh token and an
  access token for the same user, family and resource (audience) as the presented token, and
  the presented token is no longer accepted.
\<close>

theorem rotation_carries_grant:
  assumes "exchange_refresh env env' cfg (\<lambda>_. id) client raw d = (Inr tok, d')"
  shows "\<exists>row. load_refresh env d raw = Some row \<and> load_refresh env d' raw = None \<and>
      (\<exists>r. load_refresh env d' (ot_refresh tok) = Some r \<and> r_user r = r_user row \<and>
         r_family r = r_family row \<and> r_resource r = r_resource row) \<and>
      (\<exists>t \<in> set (tokens d'). k_hash t = hash_token env' (ot_access tok) \<and> k_user t = r_user row \<and>
         k_family t = Some (r_family row) \<and> k_resource t = r_resource row)"
proof -
  obtain e row2 d3 where rot: "rotate_refresh env (\<lambda>_. id) (refresh_ttl cfg) raw d = (Inr (Rotated (ot_refresh tok)), e)"
    and new: "load_refresh env e (ot_refresh tok) = Some row2"
    and acc: "mint_access env' (r_user row2) client (access_ttl cfg) (Some (r_family row2)) (r_resource row2) e
        = Inr (ot_access tok, d3)" and d': "d' = touch_last_used env client d3"
    using assms by (auto simp: exchange_refresh_def Let_def split: sum.splits rotate_result.splits option.splits prod.splits)
  from rot obtain row d2 d4 where row: "load_refresh env d raw = Some row"
    and cl: "claim_refresh env raw d = (True, d2)"
    and mint: "mint_refresh env (r_client row) (r_user row) (r_scopes row) (refresh_ttl cfg) (r_family row)
        (r_resource row) d2 = Inr (ot_refresh tok, d4)" and e: "e = sweep_consumed env d4"
    by (rule quiet_rotation)
  have same: "load_refresh env d' x = load_refresh env e x" for x
    using mint_access_frame [OF acc] by (intro load_refresh_cong) (simp_all add: d')
  have "row2 \<in> set (refreshes d4)" "r_hash row2 = hash_token env (ot_refresh tok)"
    using new by (auto simp: e load_refresh_def sweep_consumed_def split: option.splits if_splits dest: find_SomeD)
  then have "r_user row2 = r_user row" "r_family row2 = r_family row" "r_resource row2 = r_resource row"
    using mint by (auto simp: mint_refresh_def Let_def split: if_splits)
  with row new same consumed_not_loaded [OF row cl mint] mint_access_row [OF acc] show ?thesis
    by (auto simp: d' e)
qed

text \<open>
  The audience is enforced: with an accepted set configured, a bearer token that is bound
  to a resource authenticates at the MCP endpoint only when its canonical resource is in that
  set, also when other sessions commit between verification and the audience check.
\<close>

theorem audience_enforced:
  assumes "load_access env canon between (Some accepted) raw d = (Some at, d')"
  shows "\<exists>t \<in> set (tokens d'). k_hash t = hash_token env raw \<and>
    (\<forall>res. k_resource t = Some res \<longrightarrow> (\<exists>c. canon res = Some c \<and> c \<in> set accepted))"
proof -
  from assms obtain u d1 where "verify_token env raw d = (Some u, d1)" and d': "d' = between d1"
    by (auto simp: load_access_def Let_def split: option.splits prod.splits)
  with assms obtain t where t: "find (\<lambda>t. k_hash t = hash_token env raw) (tokens d') = Some t"
    "\<And>res. k_resource t = Some res \<Longrightarrow> \<exists>c. canon res = Some c \<and> c \<in> set accepted"
    by (auto simp: load_access_def Let_def split: option.splits if_splits)
  with find_SomeD [OF t(1)] show ?thesis by auto
qed

subsection \<open>Worked examples\<close>

text \<open>
  User 1 with a family 7 whose token \<open>r1\<close> was rotated into the live \<open>r2\<close>, an access token \<open>a2\<close>
  bound to a resource, and an authorization code \<open>c1\<close>; tokens hash to themselves.
\<close>

definition ex_env :: "string \<Rightarrow> auth_env" where
  "ex_env fresh = \<lparr>hash_token = (\<lambda>s. s), verify_password = (\<lambda>p h. p = h), hash_password = (\<lambda>p. p),
     now = 100, wall = 100, mono = 100, fresh_token = fresh, audit_ok = True, sweep_lock = True\<rparr>"

definition ex_cfg :: oauth_config where
  "ex_cfg = \<lparr>refresh_ttl = 1000, access_ttl = 10\<rparr>"

definition ex_user :: api_user where
  "ex_user = \<lparr>u_id = 1, u_username = ''me'', u_password_hash = ''pw'', u_is_admin = False,
     u_is_service = False, u_disabled_at = None, u_sessions_invalidated_at = None\<rparr>"

definition ex_refresh :: "string \<Rightarrow> instant option \<Rightarrow> refresh_row" where
  "ex_refresh raw consumed = \<lparr>r_hash = raw, r_client = ''cl'', r_user = 1, r_scopes = [], r_expires_at = 500,
     r_family = 7, r_resource = Some ''res'', r_created_at = 50, r_consumed_at = consumed\<rparr>"

definition ex_token :: api_token where
  "ex_token = \<lparr>k_hash = ''a2'', k_user = 1, k_created_at = 50, k_expires_at = Some 500, k_last_used_at = None,
     k_api_key_name = None, k_client = Some ''cl'', k_family = Some 7, k_resource = Some ''res''\<rparr>"

definition ex_code :: code_row where
  "ex_code = \<lparr>c_hash = ''c1'', c_client = ''cl'', c_user = 1, c_redirect_uri = ''u'', c_redirect_explicit = True,
     c_challenge = ''x'', c_scopes = [], c_created_at = 90, c_expires_at = 150, c_resource = None\<rparr>"

definition ex_db :: auth_db where
  "ex_db = \<lparr>users = [ex_user], tokens = [ex_token],
     refreshes = [ex_refresh ''r1'' (Some 60), ex_refresh ''r2'' None], codes = [ex_code],
     clients = [], attempts = [], grants = [], last_sweep = 0\<rparr>"

definition ex_revoked :: auth_db where
  "ex_revoked = ex_db\<lparr>users := [ex_user\<lparr>u_sessions_invalidated_at := Some 95\<rparr>]\<rparr>"

lemmas ex_defs = ex_env_def ex_cfg_def ex_user_def ex_refresh_def ex_token_def ex_code_def ex_db_def ex_revoked_def

theorem revocation_terminal_witness:
  "\<not> (\<exists>t. token_row (ex_env ''x'') (projr (revoke_sessions (ex_env ''x'') 1 ex_db)) ''a2'' = Some t \<and>
      k_user t = 1 \<and> k_created_at t < 100)"
proof -
  have "revoke_sessions (ex_env ''x'') 1 ex_db = Inr (projr (revoke_sessions (ex_env ''x'') 1 ex_db))"
    by (simp add: revoke_sessions_def ex_defs)
  from revocation_terminal [OF this] show ?thesis by (simp add: ex_env_def)
qed

theorem late_revocation_wins_witness:
  "\<exists>e. fst (exchange_refresh (ex_env ''r3'') (ex_env ''a3'') ex_cfg (\<lambda>n. if n = 2 then (\<lambda>_. ex_revoked) else id)
      ''cl'' ''r2'' ex_db) = Inl e"
proof -
  have "\<not> owner_valid ex_revoked (r_user r) (r_created_at r)" if "r \<in> set (refreshes ex_revoked)" for r
    using that by (auto simp: ex_defs owner_valid_def user_of_def credential_valid_def)
  moreover have "\<not> owner_valid ex_revoked (c_user c) (c_created_at c)" if "c \<in> set (codes ex_revoked)" for c
    using that by (auto simp: ex_defs owner_valid_def user_of_def credential_valid_def)
  ultimately show ?thesis
    using late_revocation_wins [where revocation = "\<lambda>_. ex_revoked" and d = ex_db and raw_code = "''c1''",
        OF _ _ prod.collapse [symmetric] prod.collapse [symmetric]] by blast
qed

theorem code_single_use_witness:
  "fst (exchange_code (ex_env ''r9'') (ex_env ''a9'') ex_cfg (\<lambda>_. id) 9 ''cl'' ''c1'' ex_code
     (snd (exchange_code (ex_env ''r3'') (ex_env ''a3'') ex_cfg (\<lambda>_. id) 8 ''cl'' ''c1'' ex_code ex_db))) =
   Inl (InvalidGrant ''authorization code already used or unknown'')"
  by (rule code_single_use [OF prod.collapse [symmetric] prod.collapse [symmetric]])
     (simp_all add: ex_env_def never_restores_def)

theorem reuse_purges_family_witness:
  "fst (exchange_refresh (ex_env ''r3'') (ex_env ''a3'') ex_cfg (\<lambda>_. id) ''cl'' ''r1'' ex_db) =
     Inl (InvalidGrant ''refresh token reuse detected'')"
  using reuse_purges_family [OF _ _ prod.collapse [symmetric],
      of "\<lambda>_. id" "ex_env ''r3''" ex_db "''r1''" 7 "ex_env ''a3''" ex_cfg "''cl''"]
  by (simp add: quiet_from_def raw_state_def ex_defs)

theorem refresh_family_never_forks_witness:
  "live 7 (snd (exchange_refresh (ex_env ''r3'') (ex_env ''a3'') ex_cfg (\<lambda>_. id) ''cl'' ''r2'' ex_db)) \<le> live 7 ex_db"
proof (rule refresh_family_never_forks [OF _ prod.collapse [symmetric]])
  show "keeps_families 7 (\<lambda>_. id)"
    by (auto simp: keeps_families_def distinct_map dest: inj_onD)
  show "distinct (map r_hash (refreshes ex_db))" by (simp add: ex_defs)
qed

theorem rotation_carries_grant_witness:
  "\<exists>row. load_refresh (ex_env ''r3'') ex_db ''r2'' = Some row \<and>
     load_refresh (ex_env ''r3'') (snd (exchange_refresh (ex_env ''r3'') (ex_env ''a3'') ex_cfg (\<lambda>_. id) ''cl'' ''r2'' ex_db)) ''r2'' = None"
proof -
  let ?run = "exchange_refresh (ex_env ''r3'') (ex_env ''a3'') ex_cfg (\<lambda>_. id) ''cl'' ''r2'' ex_db"
  have "fst ?run = Inr \<lparr>ot_access = ''a3'', ot_refresh = ''r3'', ot_expires_in = 10\<rparr>" by code_simp
  then have "?run = (Inr \<lparr>ot_access = ''a3'', ot_refresh = ''r3'', ot_expires_in = 10\<rparr>, snd ?run)"
    by (metis prod.collapse)
  from rotation_carries_grant [OF this] show ?thesis by blast
qed

theorem audience_enforced_witness:
  "\<exists>t \<in> set (tokens (snd (load_access (ex_env ''x'') Some id (Some [''res'']) ''a2'' ex_db))). k_hash t = ''a2'' \<and>
    (\<forall>res. k_resource t = Some res \<longrightarrow> (\<exists>c. Some res = Some c \<and> c \<in> set [''res'']))"
proof -
  let ?run = "load_access (ex_env ''x'') Some id (Some [''res'']) ''a2'' ex_db"
  have "fst ?run = Some \<lparr>at_token = ''a2'', at_client = ''cl'', at_subject = 1\<rparr>" by code_simp
  then have "?run = (Some \<lparr>at_token = ''a2'', at_client = ''cl'', at_subject = 1\<rparr>, snd ?run)"
    by (metis prod.collapse)
  from audience_enforced [OF this] show ?thesis by (simp add: ex_env_def)
qed

subsection \<open>Two gaps\<close>

text \<open>
  The commit of a concurrent rotation of \<open>r2\<close> that lands while the family deletion waits on
  the row lock of \<open>r2\<close>.
\<close>

definition ex_rotation_commits :: "auth_db \<Rightarrow> auth_db" where
  "ex_rotation_commits d = d\<lparr>refreshes := [ex_refresh ''r1'' (Some 60), ex_refresh ''r2'' (Some 100), ex_refresh ''r3'' None]\<rparr>"

text \<open>
  The quiet condition on reuse detection is needed: when a rotation of the family's live
  token commits while the deletion of the family waits for its row lock, the deletion does not
  see the successor, and after the reuse of \<open>r1\<close> was detected and reported the successor \<open>r3\<close>
  of the same family is still accepted.
\<close>

theorem reuse_can_miss_concurrent_successor:
  "fst (exchange_refresh (ex_env ''x'') (ex_env ''y'') ex_cfg (\<lambda>n. if n = 1 then ex_rotation_commits else id)
       ''cl'' ''r1'' ex_db) = Inl (InvalidGrant ''refresh token reuse detected'') \<and>
   map_option r_family (load_refresh (ex_env ''x'')
     (snd (exchange_refresh (ex_env ''x'') (ex_env ''y'') ex_cfg (\<lambda>n. if n = 1 then ex_rotation_commits else id)
       ''cl'' ''r1'' ex_db)) ''r3'') = Some 7"
  by code_simp

text \<open>
  A revocation that commits between a rotation and the provider's own read-back of the
  successor ends the refresh exchange in a failed assertion, not in the \<open>invalid_grant\<close> the
  code exchange answers in the same situation; the rotation is rolled back.
\<close>

theorem revocation_during_refresh_asserts:
  assumes "rotate_refresh env others (refresh_ttl cfg) raw d = (Inr (Rotated new), d1)"
    and "\<And>r. r \<in> set (refreshes (others 5 d1)) \<Longrightarrow> \<not> owner_valid (others 5 d1) (r_user r) (r_created_at r)"
  shows "exchange_refresh env env' cfg others client raw d = (Inl AssertionFailed, others_only others 6 d)"
proof -
  have "load_refresh env (others 5 d1) new = None"
    using assms(2) by (auto simp: load_refresh_def split: option.splits dest: find_SomeD)
  with assms(1) show ?thesis by (simp add: exchange_refresh_def Let_def)
qed

definition ex_disable :: "auth_db \<Rightarrow> auth_db" where
  "ex_disable d = d\<lparr>users := [ex_user\<lparr>u_disabled_at := Some 100\<rparr>]\<rparr>"

theorem revocation_during_refresh_asserts_witness:
  "fst (exchange_refresh (ex_env ''r3'') (ex_env ''a3'') ex_cfg (\<lambda>n. if n = 5 then ex_disable else id)
     ''cl'' ''r2'' ex_db) = Inl AssertionFailed"
proof -
  let ?oth = "\<lambda>n :: nat. if n = 5 then ex_disable else id"
  let ?rot = "rotate_refresh (ex_env ''r3'') ?oth (refresh_ttl ex_cfg) ''r2'' ex_db"
  have "fst ?rot = Inr (Rotated ''r3'')" by code_simp
  then have rot: "?rot = (Inr (Rotated ''r3''), snd ?rot)" by (metis prod.collapse)
  have "\<not> owner_valid (ex_disable x) u t" for x u t
    by (auto simp: ex_disable_def owner_valid_def user_of_def credential_valid_def split: option.splits)
  with revocation_during_refresh_asserts [OF rot] show ?thesis by simp
qed

end
