(* ===== verification/HttpBlob.thy ===== *)
theory HttpBlob
  imports PyStr
begin

text \<open>
  Serving a blob over HTTP: the Range header (\<open>api/range_requests.py\<close>), conditional requests
  (\<open>api/conditional.py\<close>), wire ids (\<open>api/ids.py\<close>) and the response itself with its streaming
  loops (\<open>serve/routes/blob_response.py\<close>). A file is the list of its bytes, which may be
  shorter or longer than the recorded size.
\<close>

subsection \<open>Range headers\<close>

record byte_range =
  br_start :: int
  br_end :: int

definition br_length :: "byte_range \<Rightarrow> int" where
  "br_length r = br_end r - br_start r + 1"

datatype range_result = NoRange | Range byte_range | Unsatisfiable

definition range_prefix :: string where "range_prefix = ''bytes=''"

definition suffix_range :: "string \<Rightarrow> int \<Rightarrow> range_result" where
  "suffix_range end_str total_size =
     (case py_int end_str of
        None \<Rightarrow> NoRange
      | Some suffix \<Rightarrow>
          if suffix \<le> 0 then Unsatisfiable
          else Range \<lparr>br_start = max 0 (total_size - suffix), br_end = total_size - 1\<rparr>)"

definition open_ended_range :: "string \<Rightarrow> int \<Rightarrow> range_result" where
  "open_ended_range start_str total_size =
     (case py_int start_str of
        None \<Rightarrow> NoRange
      | Some start \<Rightarrow>
          if start < 0 then NoRange
          else if start \<ge> total_size then Unsatisfiable
          else Range \<lparr>br_start = start, br_end = total_size - 1\<rparr>)"

definition closed_range :: "string \<Rightarrow> string \<Rightarrow> int \<Rightarrow> range_result" where
  "closed_range start_str end_str total_size =
     (case (py_int start_str, py_int end_str) of
        (Some start, Some e) \<Rightarrow>
          if start < 0 \<or> e < 0 \<or> e < start then NoRange
          else if start \<ge> total_size then Unsatisfiable
          else Range \<lparr>br_start = start, br_end = min e (total_size - 1)\<rparr>
      | _ \<Rightarrow> NoRange)"

definition parse_byte_range :: "string option \<Rightarrow> int \<Rightarrow> range_result" where
  "parse_byte_range header total_size =
     (case header of
        None \<Rightarrow> NoRange
      | Some h \<Rightarrow>
          if \<not> startswith h range_prefix then NoRange
          else
            (let spec = strip (drop (length range_prefix) h)
             in if spec = [] \<or> CHR '','' \<in> set spec \<or> CHR ''-'' \<notin> set spec then NoRange
                else
                  (let start_str = strip (before_first (CHR ''-'') spec);
                       end_str = strip (after_first (CHR ''-'') spec)
                   in if start_str = [] \<and> end_str = [] then NoRange
                      else if total_size \<le> 0 then Unsatisfiable
                      else if start_str = [] then suffix_range end_str total_size
                      else if end_str = [] then open_ended_range start_str total_size
                      else closed_range start_str end_str total_size)))"

definition content_range_header :: "byte_range \<Rightarrow> int \<Rightarrow> string" where
  "content_range_header r total_size =
     ''bytes '' @ int_str (br_start r) @ ''-'' @ int_str (br_end r) @ ''/'' @ int_str total_size"

definition unsatisfiable_content_range :: "int \<Rightarrow> string" where
  "unsatisfiable_content_range total_size = ''bytes */'' @ int_str total_size"

subsection \<open>Conditional requests\<close>

definition dquote :: char where "dquote = char_of (34 :: nat)"

definition etag_for_sha256 :: "string \<Rightarrow> string" where
  "etag_for_sha256 sha = dquote # sha @ [dquote]"

definition strip_weak :: "string \<Rightarrow> string" where
  "strip_weak token = (if startswith token ''W/'' then drop 2 token else token)"

definition split_etag_list :: "string \<Rightarrow> string list" where
  "split_etag_list header = filter (\<lambda>t. t \<noteq> []) (map strip (split_on (CHR '','') header))"

definition if_none_match_satisfies :: "string option \<Rightarrow> string \<Rightarrow> bool" where
  "if_none_match_satisfies header etag =
     (case header of
        None \<Rightarrow> False
      | Some h \<Rightarrow>
          h \<noteq> [] \<and>
          list_ex (\<lambda>t. t = ''*'' \<or> strip_weak t = strip_weak etag) (split_etag_list h))"

definition if_range_allows_partial :: "string option \<Rightarrow> string \<Rightarrow> bool" where
  "if_range_allows_partial header etag =
     (case header of
        None \<Rightarrow> True
      | Some h \<Rightarrow> (let c = strip h in startswith c [dquote] \<and> c = etag))"

subsection \<open>Wire ids\<close>

definition parse_int_id :: "string \<Rightarrow> int option" where
  "parse_int_id value =
     (if value = [] \<or> \<not> isascii value \<or> \<not> str_isdigit value then None else py_int value)"

subsection \<open>The response\<close>

definition chunk_size :: nat where "chunk_size = 64 * 1024"

text \<open>The chunks a slice yields, and whether the file ended before the slice did.\<close>

function stream_slice :: "bytes \<Rightarrow> nat \<Rightarrow> nat \<Rightarrow> nat \<Rightarrow> bytes list \<times> bool" where
  "stream_slice file start len sent =
     (if sent < len then
        (let chunk = take (min chunk_size (len - sent)) (drop (start + sent) file)
         in if chunk = [] then ([], True)
            else (case stream_slice file start len (sent + length chunk) of
                    (chunks, truncated) \<Rightarrow> (chunk # chunks, truncated)))
      else ([], False))"
  by pat_completeness auto
termination
  by (relation "measure (\<lambda>(file, start, len, sent). len - sent)") (auto simp: chunk_size_def)

declare stream_slice.simps [simp del]

definition inline_risky_mimes :: "string list" where
  "inline_risky_mimes =
     [''text/html'', ''application/xhtml+xml'', ''image/svg+xml'', ''text/xml'', ''application/xml'']"

definition safe_response_mime :: "string option \<Rightarrow> string" where
  "safe_response_mime stored =
     (case stored of
        None \<Rightarrow> ''application/octet-stream''
      | Some m \<Rightarrow> if m = [] \<or> lower m \<in> set inline_risky_mimes then ''application/octet-stream'' else m)"

definition quoted_string_unsafe :: "char \<Rightarrow> bool" where
  "quoted_string_unsafe c \<longleftrightarrow> ord c \<in> {34, 92, 13, 10, 59, 44}"

definition ascii_fallback_name :: "string \<Rightarrow> string" where
  "ascii_fallback_name name =
     (let out = strip (map (\<lambda>c. if ord c < 32 \<or> ord c > 126 \<or> quoted_string_unsafe c then CHR ''_'' else c) name)
      in if out = [] then ''attachment'' else out)"

definition fallback_filename :: "string \<Rightarrow> string" where
  "fallback_filename sha = ''attachment-'' @ take 16 sha @ ''.bin''"

record request_headers =
  h_range :: "string option"
  h_if_range :: "string option"
  h_if_none_match :: "string option"

record response =
  status :: nat
  media_type :: string
  download_name :: string
  content_length :: "int option"
  content_range :: "string option"
  etag :: string
  body :: bytes

definition not_modified :: "request_headers \<Rightarrow> string \<Rightarrow> bool" where
  "not_modified req sha = if_none_match_satisfies (h_if_none_match req) (etag_for_sha256 sha)"

definition stream_body :: "bytes \<Rightarrow> nat \<Rightarrow> nat \<Rightarrow> bytes" where
  "stream_body file start len = concat (fst (stream_slice file start len 0))"

text \<open>The Range header that is honoured: dropped when If-Range does not match.\<close>

definition effective_range :: "request_headers \<Rightarrow> string \<Rightarrow> string option" where
  "effective_range req tag =
     (if h_range req \<noteq> None \<and> \<not> if_range_allows_partial (h_if_range req) tag then None else h_range req)"

definition response_name :: "string \<Rightarrow> string option \<Rightarrow> string" where
  "response_name sha filename =
     (let given = strip (case filename of None \<Rightarrow> [] | Some f \<Rightarrow> f)
      in ascii_fallback_name (if given = [] then fallback_filename sha else given))"

definition blob_response ::
  "request_headers \<Rightarrow> string \<Rightarrow> string option \<Rightarrow> int \<Rightarrow> bytes \<Rightarrow> string option \<Rightarrow> response" where
  "blob_response req sha mime sz file filename =
     (let tag = etag_for_sha256 sha;
          name = response_name sha filename;
          m = safe_response_mime mime
      in case parse_byte_range (effective_range req tag) sz of
           Unsatisfiable \<Rightarrow>
             \<lparr>status = 416, media_type = m, download_name = name, content_length = None,
              content_range = Some (unsatisfiable_content_range sz), etag = tag, body = []\<rparr>
         | NoRange \<Rightarrow>
             \<lparr>status = 200, media_type = m, download_name = name, content_length = Some sz,
              content_range = None, etag = tag, body = stream_body file 0 (nat sz)\<rparr>
         | Range r \<Rightarrow>
             \<lparr>status = 206, media_type = m, download_name = name, content_length = Some (br_length r),
              content_range = Some (content_range_header r sz), etag = tag,
              body = stream_body file (nat (br_start r)) (nat (br_length r))\<rparr>)"

subsection \<open>Ranges are in bounds\<close>

lemma parse_byte_range_bounds:
  "parse_byte_range h total_size = Range r \<Longrightarrow> 0 \<le> br_start r \<and> br_start r \<le> br_end r \<and> br_end r < total_size"
  by (auto simp: parse_byte_range_def suffix_range_def open_ended_range_def closed_range_def Let_def
      split: option.splits if_splits)

lemma stream_slice_concat:
  "sent \<le> len \<Longrightarrow> concat (fst (stream_slice file start len sent)) = take (len - sent) (drop (start + sent) file)"
proof (induction "file" start len sent rule: stream_slice.induct)
  case (1 "file" start len sent)
  let ?chunk = "take (min chunk_size (len - sent)) (drop (start + sent) file)"
  show ?case
  proof (cases "sent < len \<and> ?chunk \<noteq> []")
    case True
    have len: "length ?chunk = min (min chunk_size (len - sent)) (length file - (start + sent))" by simp
    have "length ?chunk \<le> len - sent" by simp
    then have le: "sent + length ?chunk \<le> len" using True by linarith
    have "drop (start + (sent + length ?chunk)) file = drop (length ?chunk) (drop (start + sent) file)"
      by (simp only: drop_drop ac_simps)
    moreover have "concat (fst (stream_slice file start len (sent + length ?chunk))) =
        take (len - (sent + length ?chunk)) (drop (start + (sent + length ?chunk)) file)"
      using True le by (intro "1.IH") auto
    ultimately have IH: "concat (fst (stream_slice file start len (sent + length ?chunk))) =
        take (len - sent - length ?chunk) (drop (length ?chunk) (drop (start + sent) file))"
      by (simp only: diff_diff_left)
    have "?chunk = take (length ?chunk) (drop (start + sent) file)" by (simp add: min_def)
    moreover have "len - sent = length ?chunk + (len - sent - length ?chunk)" using le by linarith
    ultimately have "take (len - sent) (drop (start + sent) file) =
        ?chunk @ take (len - sent - length ?chunk) (drop (length ?chunk) (drop (start + sent) file))"
      by (metis take_add)
    moreover have "stream_slice file start len sent =
        (?chunk # fst (stream_slice file start len (sent + length ?chunk)),
         snd (stream_slice file start len (sent + length ?chunk)))"
      using True unfolding stream_slice.simps [of "file" start len sent] Let_def
      by (simp only: if_True if_False simp_thms case_prod_beta)
    ultimately show ?thesis using IH by (simp only: fst_conv concat.simps)
  next
    case False
    then show ?thesis
      using "1.prems" by (subst stream_slice.simps) (auto simp: Let_def chunk_size_def)
  qed
qed

lemma stream_body_slice: "stream_body file start len = take len (drop start file)"
  by (simp add: stream_body_def stream_slice_concat)

text \<open>
  C9. A ranged download is exact. For a blob whose file has the recorded size, a 206 response
  carries precisely the bytes \<open>start\<close> to \<open>end\<close> its \<open>Content-Range\<close> names, within the file, a
  200 carries the whole file, \<open>Content-Length\<close> is the number of bytes sent in both, a 416 has no
  body, no other status occurs, and an If-Range that is not exactly the blob's own tag never
  gets a part. The 64 KiB streaming loop terminates and loses and repeats nothing.
\<close>

theorem blob_response_exact:
  assumes "int (length file) = sz" and resp_def: "resp = blob_response req sha mime sz file filename"
  shows "(status resp = 206 \<and> (\<exists>r. content_range resp = Some (content_range_header r sz) \<and>
        0 \<le> br_start r \<and> br_start r \<le> br_end r \<and> br_end r < sz \<and>
        body resp = take (nat (br_length r)) (drop (nat (br_start r)) file) \<and>
        content_length resp = Some (int (length (body resp)))) \<and>
      (\<forall>h. h_if_range req = Some h \<longrightarrow> strip h = etag resp)) \<or>
    (status resp = 200 \<and> body resp = file \<and> content_length resp = Some (int (length (body resp)))) \<or>
    (status resp = 416 \<and> body resp = [] \<and> content_range resp = Some (unsatisfiable_content_range sz))"
proof -
  let ?tag = "etag_for_sha256 sha"
  define rh where "rh = effective_range req ?tag"
  show ?thesis
  proof (cases "parse_byte_range rh sz")
    case (Range r)
    note b = parse_byte_range_bounds [OF Range]
    have "rh \<noteq> None" using Range by (cases rh) (auto simp: parse_byte_range_def)
    then have "if_range_allows_partial (h_if_range req) ?tag" by (auto simp: rh_def effective_range_def split: if_splits)
    then have ifr: "h_if_range req = Some h \<longrightarrow> strip h = ?tag" for h
      by (auto simp: if_range_allows_partial_def Let_def)
    have "nat (br_start r) \<le> length file" using b assms(1) by linarith
    then have "int (length file - nat (br_start r)) = sz - br_start r" using b assms(1) by (simp add: of_nat_diff)
    then have len: "int (length (take (nat (br_length r)) (drop (nat (br_start r)) file))) = br_length r"
      using b unfolding length_take length_drop br_length_def by linarith
    have "status resp = 206" "content_range resp = Some (content_range_header r sz)" "etag resp = ?tag"
      "body resp = take (nat (br_length r)) (drop (nat (br_start r)) file)" "content_length resp = Some (br_length r)"
      using Range by (simp_all add: resp_def blob_response_def Let_def stream_body_slice flip: rh_def)
    with b len ifr show ?thesis by (intro disjI1 conjI exI [of _ r] allI) simp_all
  next
    case NoRange
    then show ?thesis
      using assms(1) by (auto simp: resp_def blob_response_def Let_def stream_body_slice simp flip: rh_def)
  next
    case Unsatisfiable
    then show ?thesis by (simp add: resp_def blob_response_def Let_def flip: rh_def)
  qed
qed

subsection \<open>Round trips\<close>

lemma strip_append_no_space:
  "s \<noteq> [] \<Longrightarrow> t \<noteq> [] \<Longrightarrow> \<not> is_space (hd s) \<Longrightarrow> \<not> is_space (last t) \<Longrightarrow> strip (s @ u @ t) = s @ u @ t"
  by (intro strip_no_space) (auto simp: hd_append)

lemma nat_str_hd: "is_decimal (hd (nat_str n))" "is_decimal (last (nat_str n))"
  using nat_str_decimal [of n] nat_str_nonempty [of n] by (auto simp: list_all_iff)

lemma nat_str_no_char: "\<not> is_decimal c \<Longrightarrow> c \<notin> set (nat_str n)"
  using nat_str_decimal [of n] by (auto simp: list_all_iff)

lemma first_split:
  "c \<notin> set s \<Longrightarrow> before_first c (s @ c # t) = s \<and> after_first c (s @ c # t) = t"
  by (induction s) (auto simp: before_first_def after_first_def)

text \<open>
  A client gets the range it asks for: the header \<open>bytes=a-b\<close> written in plain decimal is
  understood as \<open>a\<close> to \<open>b\<close>, cut at the end of the file, whenever \<open>a\<close> is inside the file and not
  after \<open>b\<close>; and an entity id written by the server as plain decimal is read back as itself.
\<close>

theorem decimal_requests_round_trip:
  assumes "a \<le> b" "int a < sz" "length (nat_str a) \<le> max_str_digits" "length (nat_str b) \<le> max_str_digits"
  shows "parse_byte_range (Some (''bytes='' @ nat_str a @ ''-'' @ nat_str b)) sz =
      Range \<lparr>br_start = int a, br_end = min (int b) (sz - 1)\<rparr> \<and>
    parse_int_id (nat_str a) = Some (int a)"
proof
  let ?spec = "nat_str a @ ''-'' @ nat_str b"
  have spec: "strip ?spec = ?spec"
    by (rule strip_append_no_space) (simp_all add: nat_str_nonempty nat_str_hd decimal_not_space)
  have noc: "CHR '','' \<notin> set ?spec" "CHR ''-'' \<in> set ?spec"
    using nat_str_no_char [of "CHR '',''"] by (auto simp: is_decimal_def)
  have "CHR ''-'' \<notin> set (nat_str a)" by (rule nat_str_no_char) (simp add: is_decimal_def)
  then have parts: "before_first (CHR ''-'') ?spec = nat_str a" "after_first (CHR ''-'') ?spec = nat_str b"
    using first_split [of "CHR ''-''" "nat_str a" "nat_str b"] by auto
  have pre: "drop (length range_prefix) (''bytes='' @ ?spec) = ?spec" "startswith (''bytes='' @ ?spec) range_prefix"
    by (simp_all add: range_prefix_def startswith_def)
  have "closed_range (nat_str a) (nat_str b) sz = Range \<lparr>br_start = int a, br_end = min (int b) (sz - 1)\<rparr>"
    using assms by (simp add: closed_range_def py_int_nat_str)
  then show "parse_byte_range (Some (''bytes='' @ ?spec)) sz =
      Range \<lparr>br_start = int a, br_end = min (int b) (sz - 1)\<rparr>"
    using noc assms(2) nat_str_nonempty
    unfolding parse_byte_range_def option.case pre(1) Let_def spec parts
    by (simp add: pre(2) [simplified] strip_decimal nat_str_decimal)
  have "is_decimal c \<Longrightarrow> ord c < 128 \<and> isdigit_char c" for c by (auto simp: is_decimal_def isdigit_char_def)
  then have "isascii (nat_str a)" "str_isdigit (nat_str a)"
    using nat_str_decimal [of a] nat_str_nonempty [of a] by (auto simp: isascii_def str_isdigit_def list_all_iff)
  then show "parse_int_id (nat_str a) = Some (int a)"
    using assms(3) by (simp add: parse_int_id_def py_int_nat_str nat_str_nonempty)
qed

text \<open>
  Two headers that are not ranges at all and are still answered with 416 rather than with the
  whole resource: any two words around a dash on an empty resource, and a negative suffix.
\<close>

lemma malformed_range_is_unsatisfiable:
  "parse_byte_range (Some ''bytes=x-y'') 0 = Unsatisfiable \<and>
   parse_byte_range (Some ''bytes=x-y'') 10 = NoRange \<and>
   parse_byte_range (Some ''bytes=--5'') 10 = Unsatisfiable"
  by code_simp

definition sample_request :: request_headers where
  "sample_request = \<lparr>h_range = Some ''bytes=1-2'', h_if_range = None, h_if_none_match = None\<rparr>"

theorem blob_response_exact_witness:
  "body (blob_response sample_request ''ab'' None 4 ''wxyz'' None) \<in> {''wxyz'', []} \<or>
   (\<exists>r. body (blob_response sample_request ''ab'' None 4 ''wxyz'' None) =
      take (nat (br_length r)) (drop (nat (br_start r)) ''wxyz''))"
proof -
  have "int (length ''wxyz'') = 4" by simp
  from blob_response_exact [OF this refl, of sample_request "''ab''" None None] show ?thesis by blast
qed

theorem decimal_requests_round_trip_witness:
  "parse_byte_range (Some (''bytes='' @ nat_str 1 @ ''-'' @ nat_str 9)) 4 = Range \<lparr>br_start = 1, br_end = 3\<rparr>"
  using decimal_requests_round_trip [of 1 9 4]
  by (simp add: nat_str.simps max_str_digits_def)

end
