(* ===== verification/TextWindow.thy ===== *)
theory TextWindow
  imports Prelude
begin

text \<open>
  Paging a stored text by characters (\<open>text_window.py\<close>). A text is a list of code points;
  \<open>substring\<close> is the SQL function with its 1-based position, over which both text routes build
  a page. \<open>read_all\<close> is the client that loops on \<open>next_offset\<close>.
\<close>

subsection \<open>Definitions\<close>

definition max_text_chars :: int where "max_text_chars = 2 ^ 30"

definition text_window_error :: "int \<Rightarrow> int option \<Rightarrow> string option" where
  "text_window_error offset limit =
     (if offset < 0 then Some ''offset must be >= 0''
      else case limit of Some l \<Rightarrow> if l < 1 then Some ''limit must be >= 1'' else None | None \<Rightarrow> None)"

record text_window =
  w_offset :: int
  w_limit :: "int option"

record 'c text_page =
  pg_text :: "'c list"
  pg_offset :: int
  pg_limit :: "int option"
  pg_total :: int
  pg_next_offset :: "int option"

definition make_window :: "int \<Rightarrow> int option \<Rightarrow> string + text_window" where
  "make_window offset limit =
     (case text_window_error offset limit of
        Some problem \<Rightarrow> Inl problem
      | None \<Rightarrow> Inr \<lparr>w_offset = offset, w_limit = limit\<rparr>)"

definition sql_from :: "text_window \<Rightarrow> int" where
  "sql_from w = min (w_offset w) max_text_chars + 1"

definition sql_for :: "text_window \<Rightarrow> int option" where
  "sql_for w = map_option (\<lambda>l. min l max_text_chars) (w_limit w)"

text \<open>\<open>TextPage.__post_init__\<close>: what a page must satisfy to exist.\<close>

definition page_ok :: "'c text_page \<Rightarrow> bool" where
  "page_ok p \<longleftrightarrow>
     (case pg_limit p of None \<Rightarrow> True | Some l \<Rightarrow> int (length (pg_text p)) \<le> l) \<and>
     (let e = pg_offset p + int (length (pg_text p))
      in pg_next_offset p = (if e < pg_total p then Some e else None)) \<and>
     (case pg_next_offset p of None \<Rightarrow> True | Some n \<Rightarrow> n > pg_offset p)"

definition window_page :: "text_window \<Rightarrow> 'c list \<Rightarrow> int \<Rightarrow> string + 'c text_page" where
  "window_page w txt total_len =
     (let e = w_offset w + int (length txt);
          p = \<lparr>pg_text = txt, pg_offset = w_offset w, pg_limit = w_limit w, pg_total = total_len,
               pg_next_offset = (if e < total_len then Some e else None)\<rparr>
      in if page_ok p then Inr p else Inl ''inconsistent page'')"

text \<open>SQL \<open>substring(t from p for n)\<close> at a position \<open>p\<close> of at least 1.\<close>

definition substring :: "'c list \<Rightarrow> int \<Rightarrow> int option \<Rightarrow> 'c list" where
  "substring t p n =
     (case n of None \<Rightarrow> drop (nat (p - 1)) t | Some k \<Rightarrow> take (nat k) (drop (nat (p - 1)) t))"

definition serve_page :: "'c list \<Rightarrow> int \<Rightarrow> int option \<Rightarrow> string + 'c text_page" where
  "serve_page t offset limit =
     bindr (make_window offset limit)
       (\<lambda>w. window_page w (substring t (sql_from w) (sql_for w)) (int (length t)))"

text \<open>The client's loop, \<open>fuel\<close> bounding the requests; \<open>None\<close> is running out or an error.\<close>

fun read_all :: "nat \<Rightarrow> 'c list \<Rightarrow> int option \<Rightarrow> int \<Rightarrow> 'c list option" where
  "read_all 0 t limit offset = None"
| "read_all (Suc fuel) t limit offset =
     (case serve_page t offset limit of
        Inl _ \<Rightarrow> None
      | Inr p \<Rightarrow>
          (case pg_next_offset p of
             None \<Rightarrow> Some (pg_text p)
           | Some n \<Rightarrow> map_option (\<lambda>rest. pg_text p @ rest) (read_all fuel t limit n)))"

subsection \<open>Facts\<close>

definition window_slice :: "int option \<Rightarrow> nat \<Rightarrow> 'c list \<Rightarrow> 'c list" where
  "window_slice limit k t = (case limit of None \<Rightarrow> drop k t | Some l \<Rightarrow> take (nat l) (drop k t))"

lemma window_slice_prefix: "window_slice limit k t = take (length (window_slice limit k t)) (drop k t)"
  by (auto simp: window_slice_def min_def split: option.splits)

lemma window_slice_advances:
  "(\<And>l. limit = Some l \<Longrightarrow> 1 \<le> l) \<Longrightarrow> k + length (window_slice limit k t) < length t \<Longrightarrow>
   0 < length (window_slice limit k t)"
  by (cases limit) (auto simp: window_slice_def)

lemma window_text:
  assumes "int (length t) \<le> max_text_chars" "k \<le> length t"
  shows "substring t (sql_from \<lparr>w_offset = int k, w_limit = limit\<rparr>) (sql_for \<lparr>w_offset = int k, w_limit = limit\<rparr>)
    = window_slice limit k t"
proof -
  have "sql_from \<lparr>w_offset = int k, w_limit = limit\<rparr> - 1 = int k" using assms by (simp add: sql_from_def)
  moreover have "take (nat (min l max_text_chars)) (drop k t) = take (nat l) (drop k t)" for l
    using assms(1) by (cases "l \<le> max_text_chars") (auto simp: min_def)
  ultimately show ?thesis by (auto simp: substring_def sql_for_def window_slice_def split: option.splits)
qed

lemma serve_page_ok:
  assumes "int (length t) \<le> max_text_chars" "k \<le> length t" "\<And>l. limit = Some l \<Longrightarrow> 1 \<le> l"
  shows "serve_page t (int k) limit = Inr \<lparr>pg_text = window_slice limit k t, pg_offset = int k, pg_limit = limit,
      pg_total = int (length t), pg_next_offset =
        (if k + length (window_slice limit k t) < length t then Some (int (k + length (window_slice limit k t))) else None)\<rparr>"
proof -
  have w: "make_window (int k) limit = Inr \<lparr>w_offset = int k, w_limit = limit\<rparr>"
    using assms(3) by (cases limit) (simp_all add: make_window_def text_window_error_def)
  have lim: "int (length (window_slice limit k t)) \<le> l" if "limit = Some l" for l
    using that assms(3) [OF that] by (simp add: window_slice_def)
  show ?thesis
    using window_slice_advances [where limit = limit and k = k and t = t, OF assms(3)] lim
    by (auto simp: serve_page_def w window_page_def window_text [OF assms(1,2)] page_ok_def Let_def split: option.splits)
qed

text \<open>
  Paging loses and repeats nothing and ends: for any text Postgres can hold and any page
  limit of at least 1, a client that starts at offset 0 and follows \<open>next_offset\<close> reads exactly
  the text, in at most one request per character and one more.
\<close>

theorem paging_reads_everything:
  assumes "int (length t) \<le> max_text_chars" and "\<And>l. limit = Some l \<Longrightarrow> 1 \<le> l"
  shows "read_all (Suc (length t)) t limit 0 = Some t"
proof -
  have "read_all fuel t limit (int k) = Some (drop k t)" if "k \<le> length t" "length t - k < fuel" for fuel k
    using that
  proof (induction fuel arbitrary: k)
    case (Suc fuel)
    let ?n = "length (window_slice limit k t)"
    note page = serve_page_ok [OF assms(1) Suc.prems(1) assms(2)]
    show ?case
    proof (cases "k + ?n < length t")
      case True
      then have "0 < ?n" using window_slice_advances [OF assms(2)] by blast
      then have "read_all fuel t limit (int (k + ?n)) = Some (drop (k + ?n) t)"
        using True Suc.prems by (intro Suc.IH) linarith+
      moreover have "window_slice limit k t @ drop (k + ?n) t = drop k t"
        using window_slice_prefix [of limit k t] by (metis append_take_drop_id drop_drop add.commute)
      ultimately show ?thesis using page True by simp
    next
      case False
      then have "window_slice limit k t = drop k t"
        using window_slice_prefix [of limit k t] by simp
      with False page show ?thesis by simp
    qed
  qed simp
  from this [of 0 "Suc (length t)"] show ?thesis by simp
qed

theorem paging_reads_everything_witness: "read_all 6 ''hello'' (Some 2) 0 = Some ''hello''"
  using paging_reads_everything [of "''hello''" "Some 2"] by (simp add: max_text_chars_def eval_nat_numeral)

end
