(* ===== verification/ClientIp.thy ===== *)
theory ClientIp
  imports PyStr
begin

text \<open>
  The originating client address behind trusted proxies (\<open>api/client_ip.py\<close>). Addresses are
  any type with a parser (\<open>ipaddress.ip_address\<close>), a printer (\<open>str\<close>) and the membership test
  in the configured networks; the walk over \<open>X-Forwarded-For\<close> is the module's own.
\<close>

subsection \<open>Definitions\<close>

record 'ip address_lib =
  ip_address :: "string \<Rightarrow> 'ip option"
  ip_str :: "'ip \<Rightarrow> string"
  in_trusted :: "'ip \<Rightarrow> bool"

definition normalise_xff_entry :: "string \<Rightarrow> string option" where
  "normalise_xff_entry raw =
     (let s = strip raw
      in if s = [] then None
         else if startswith s ''['' \<and> CHR '']'' \<notin> set s then None
         else
           (let s1 = (if startswith s ''['' then tl (before_first (CHR '']'') s)
                      else if count_char (CHR '':'') s = 1 \<and> str_isdigit (after_first (CHR '':'') s) \<and>
                              before_first (CHR '':'') s \<noteq> []
                      then before_first (CHR '':'') s
                      else s);
                s2 = (if CHR ''%'' \<in> set s1 then before_first (CHR ''%'') s1 else s1)
            in if s2 = [] then None else Some s2))"

definition xff_entries :: "string \<Rightarrow> string list" where
  "xff_entries header = filter (\<lambda>e. e \<noteq> []) (map strip (split_on (CHR '','') header))"

definition entry_ip :: "'ip address_lib \<Rightarrow> string \<Rightarrow> 'ip option" where
  "entry_ip lib raw = (case normalise_xff_entry raw of None \<Rightarrow> None | Some s \<Rightarrow> ip_address lib s)"

fun walk_entries :: "'ip address_lib \<Rightarrow> string \<Rightarrow> int \<Rightarrow> int \<Rightarrow> string list \<Rightarrow> string" where
  "walk_entries lib peer max_hops walked [] = peer"
| "walk_entries lib peer max_hops walked (raw # es) =
     (if walked \<ge> max_hops then peer
      else case entry_ip lib raw of
             None \<Rightarrow> peer
           | Some ip \<Rightarrow> if in_trusted lib ip then walk_entries lib peer max_hops (walked + 1) es
                        else ip_str lib ip)"

definition resolve_client_ip ::
  "'ip address_lib \<Rightarrow> bool \<Rightarrow> int \<Rightarrow> string option \<Rightarrow> string option \<Rightarrow> string option" where
  "resolve_client_ip lib any_trusted max_hops socket_peer xff_header =
     (case socket_peer of
        None \<Rightarrow> None
      | Some peer \<Rightarrow>
          Some (if \<not> any_trusted then peer
                else case ip_address lib peer of
                       None \<Rightarrow> peer
                     | Some peer_ip \<Rightarrow>
                         if \<not> in_trusted lib peer_ip then peer
                         else case xff_header of
                                None \<Rightarrow> peer
                              | Some h \<Rightarrow> walk_entries lib peer max_hops 0 (rev (xff_entries h))))"

subsection \<open>Facts\<close>

lemma xff_entries_append: "xff_entries (p @ CHR '','' # s) = xff_entries p @ xff_entries s"
  by (simp add: xff_entries_def split_on_append)

definition stops_walk :: "'ip address_lib \<Rightarrow> string \<Rightarrow> bool" where
  "stops_walk lib e \<longleftrightarrow> (case entry_ip lib e of None \<Rightarrow> True | Some ip \<Rightarrow> \<not> in_trusted lib ip)"

lemma walk_prefix:
  "e \<in> set es \<Longrightarrow> stops_walk lib e \<Longrightarrow>
   walk_entries lib peer hops n (es @ fs) = walk_entries lib peer hops n es"
  by (induction es arbitrary: n) (auto simp: stops_walk_def split: option.splits)

lemma walk_result:
  "walk_entries lib peer hops n es = r \<Longrightarrow>
   r = peer \<or> (\<exists>e \<in> set es. \<exists>ip. entry_ip lib e = Some ip \<and> \<not> in_trusted lib ip \<and> r = ip_str lib ip)"
  by (induction es arbitrary: n) (auto split: option.splits if_splits)

text \<open>
  The client address cannot be spoofed through \<open>X-Forwarded-For\<close>. A peer that is not a
  trusted proxy is its own address whatever the header says; behind trusted proxies, whatever a
  client puts in front of what the proxies appended changes nothing, as soon as the appended
  part holds an entry that is not itself a trusted proxy; and an address taken from the header
  is never a trusted proxy's.
\<close>

theorem client_ip_not_spoofable:
  shows "(\<forall>ip. ip_address lib peer = Some ip \<longrightarrow> \<not> in_trusted lib ip \<longrightarrow>
      resolve_client_ip lib trusted hops (Some peer) h = Some peer) \<and>
    (\<forall>e \<in> set (xff_entries appended). stops_walk lib e \<longrightarrow>
      resolve_client_ip lib trusted hops (Some peer) (Some (forged @ CHR '','' # appended)) =
      resolve_client_ip lib trusted hops (Some peer) (Some appended)) \<and>
    (\<forall>r. resolve_client_ip lib trusted hops (Some peer) (Some appended) = Some r \<longrightarrow> r \<noteq> peer \<longrightarrow>
      (\<exists>ip. r = ip_str lib ip \<and> \<not> in_trusted lib ip))"
proof (intro conjI allI impI ballI)
  show "resolve_client_ip lib trusted hops (Some peer) h = Some peer"
    if "ip_address lib peer = Some ip" "\<not> in_trusted lib ip" for ip
    using that by (simp add: resolve_client_ip_def)
  show "resolve_client_ip lib trusted hops (Some peer) (Some (forged @ CHR '','' # appended)) =
      resolve_client_ip lib trusted hops (Some peer) (Some appended)"
    if "e \<in> set (xff_entries appended)" "stops_walk lib e" for e
    using walk_prefix [of e "rev (xff_entries appended)" lib peer hops 0 "rev (xff_entries forged)"] that
    by (simp add: resolve_client_ip_def xff_entries_append split: option.splits)
  show "\<exists>ip. r = ip_str lib ip \<and> \<not> in_trusted lib ip"
    if "resolve_client_ip lib trusted hops (Some peer) (Some appended) = Some r" "r \<noteq> peer" for r
    using that walk_result [of lib peer hops 0 "rev (xff_entries appended)" r]
    by (auto simp: resolve_client_ip_def split: if_splits option.splits)
qed

text \<open>Addresses named by themselves, with the proxy \<open>p\<close>; a client claims to be \<open>a\<close>.\<close>

definition sample_lib :: "string address_lib" where
  "sample_lib = \<lparr>ip_address = Some, ip_str = (\<lambda>s. s), in_trusted = (\<lambda>s. s = ''p'')\<rparr>"

theorem client_ip_not_spoofable_witness:
  "resolve_client_ip sample_lib True 5 (Some ''p'') (Some (''a'' @ CHR '','' # ''c, p'')) =
   resolve_client_ip sample_lib True 5 (Some ''p'') (Some ''c, p'')"
proof -
  have "''c'' \<in> set (xff_entries ''c, p'')" "stops_walk sample_lib ''c''" by code_simp+
  then show ?thesis
    using client_ip_not_spoofable [where lib = sample_lib and peer = "''p''" and trusted = True and hops = 5
        and h = None and appended = "''c, p''" and forged = "''a''"] by blast
qed

end
