(* ===== verification/Caches.thy ===== *)
theory Caches
  imports Prelude
begin

text \<open>
  The two bounded LRU caches with a time to live: \<open>search/page_cache.py\<close> for paginated results
  and \<open>search/rewrite_cache.py\<close> for query rewrites. An \<open>OrderedDict\<close> is the list of its items,
  oldest first. What both promise is the locale \<open>ttl_cache\<close>; each is shown to provide it.
\<close>

subsection \<open>OrderedDict\<close>

type_synonym ('k, 'v) odict = "('k \<times> (instant \<times> 'v)) list"

definition move_to_end :: "'k \<Rightarrow> ('k, 'v) odict \<Rightarrow> ('k, 'v) odict" where
  "move_to_end k d = dict_pop k d @ filter (\<lambda>kv. fst kv = k) d"

definition trim :: "int \<Rightarrow> ('k, 'v) odict \<Rightarrow> ('k, 'v) odict" where
  "trim maxsize d = drop (length d - nat maxsize) d"

subsection \<open>PageCache\<close>

record ('k, 'v) page_cache =
  pc_maxsize :: int
  pc_ttl :: int
  pc_data :: "('k, 'v) odict"

datatype 'v lookup = Hit 'v | CacheMiss

text \<open>\<open>put\<close> with its type check; \<open>False\<close> is the \<open>TypeError\<close>.\<close>

definition pc_put ::
  "('v \<Rightarrow> bool) \<Rightarrow> instant \<Rightarrow> 'k \<Rightarrow> 'v \<Rightarrow> ('k, 'v) page_cache \<Rightarrow> bool \<times> ('k, 'v) page_cache" where
  "pc_put of_type clock key value c =
     (if \<not> of_type value then (False, c)
      else
        (let d = (if map_of (pc_data c) key \<noteq> None then move_to_end key (pc_data c) else pc_data c)
         in (True, c\<lparr>pc_data := trim (pc_maxsize c) (dict_set key (clock, value) d)\<rparr>)))"

definition pc_get :: "instant \<Rightarrow> 'k \<Rightarrow> ('k, 'v) page_cache \<Rightarrow> 'v lookup \<times> ('k, 'v) page_cache" where
  "pc_get clock key c =
     (case map_of (pc_data c) key of
        None \<Rightarrow> (CacheMiss, c)
      | Some (stamp, value) \<Rightarrow>
          if clock - stamp > pc_ttl c then (CacheMiss, c\<lparr>pc_data := dict_pop key (pc_data c)\<rparr>)
          else (Hit value, c\<lparr>pc_data := move_to_end key (pc_data c)\<rparr>))"

definition pc_invalidate :: "'k \<Rightarrow> ('k, 'v) page_cache \<Rightarrow> ('k, 'v) page_cache" where
  "pc_invalidate key c = c\<lparr>pc_data := dict_pop key (pc_data c)\<rparr>"

subsection \<open>CachingRewriter\<close>

record ('k, 'v) rewrite_cache =
  rc_maxsize :: int
  rc_ttl :: int
  rc_data :: "('k, 'v) odict"

definition rc_get :: "instant \<Rightarrow> 'k \<Rightarrow> ('k, 'v) rewrite_cache \<Rightarrow> 'v option \<times> ('k, 'v) rewrite_cache" where
  "rc_get clock key c =
     (case map_of (rc_data c) key of
        None \<Rightarrow> (None, c)
      | Some (stamp, value) \<Rightarrow>
          if clock - stamp > rc_ttl c then (None, c\<lparr>rc_data := dict_pop key (rc_data c)\<rparr>)
          else (Some value, c\<lparr>rc_data := move_to_end key (rc_data c)\<rparr>))"

definition rc_put :: "instant \<Rightarrow> 'k \<Rightarrow> 'v \<Rightarrow> ('k, 'v) rewrite_cache \<Rightarrow> ('k, 'v) rewrite_cache" where
  "rc_put clock key value c =
     (let d = (if map_of (rc_data c) key \<noteq> None then move_to_end key (rc_data c) else rc_data c)
      in c\<lparr>rc_data := trim (rc_maxsize c) (dict_set key (clock, value) d)\<rparr>)"

text \<open>
  \<open>rewrite\<close>: the inner call runs outside the lock, so \<open>others\<close> is what concurrent calls do to
  the cache meanwhile; the clock is read again for the insertion. The key pairs the day with the
  text, which the separator keeps apart.
\<close>

definition rewrite ::
  "('t \<Rightarrow> 'e + 'v) \<Rightarrow> 'd \<Rightarrow> instant \<Rightarrow> instant \<Rightarrow> (('d \<times> 't, 'v) rewrite_cache \<Rightarrow> ('d \<times> 't, 'v) rewrite_cache) \<Rightarrow>
   't \<Rightarrow> ('d \<times> 't, 'v) rewrite_cache \<Rightarrow> ('e + 'v) \<times> ('d \<times> 't, 'v) rewrite_cache" where
  "rewrite inner today clock clock' others free_text c =
     (if rc_maxsize c \<le> 0 then (inner free_text, c)
      else
        (case rc_get clock (today, free_text) c of
           (Some hit, c1) \<Rightarrow> (Inr hit, c1)
         | (None, c1) \<Rightarrow>
             (case inner free_text of
                Inl e \<Rightarrow> (Inl e, others c1)
              | Inr v \<Rightarrow> (Inr v, rc_put clock' (today, free_text) v (others c1)))))"

subsection \<open>The contract\<close>

datatype ('k, 'v) cache_op = Get instant 'k | Put instant 'k 'v

text \<open>The last value put under a key by a history of operations, with its time.\<close>

fun last_put :: "('k, 'v) cache_op list \<Rightarrow> 'k \<Rightarrow> (instant \<times> 'v) option" where
  "last_put [] k = None"
| "last_put (op # ops) k =
     (case last_put ops k of
        Some x \<Rightarrow> Some x
      | None \<Rightarrow> (case op of Put t j v \<Rightarrow> if j = k then Some (t, v) else None | Get _ _ \<Rightarrow> None))"

locale ttl_cache =
  fixes get :: "instant \<Rightarrow> 'k \<Rightarrow> 'c \<Rightarrow> 'v option \<times> 'c"
    and put :: "instant \<Rightarrow> 'k \<Rightarrow> 'v \<Rightarrow> 'c \<Rightarrow> 'c"
    and entry :: "'c \<Rightarrow> 'k \<Rightarrow> (instant \<times> 'v) option"
    and ttl :: "'c \<Rightarrow> int"
    and held :: "'c \<Rightarrow> nat"
    and cap :: "'c \<Rightarrow> int"
    and inv :: "'c \<Rightarrow> bool"
  assumes get_fresh: "inv c \<Longrightarrow> fst (get t k c) = Some v \<Longrightarrow> \<exists>s. entry c k = Some (s, v) \<and> t - s \<le> ttl c"
    and get_hit: "inv c \<Longrightarrow> entry c k = Some (s, v) \<Longrightarrow> t - s \<le> ttl c \<Longrightarrow> fst (get t k c) = Some v"
    and get_keeps: "inv c \<Longrightarrow> inv (snd (get t k c)) \<and> ttl (snd (get t k c)) = ttl c \<and> cap (snd (get t k c)) = cap c"
    and get_entry: "inv c \<Longrightarrow> entry (snd (get t k c)) j = Some x \<Longrightarrow> entry c j = Some x"
    and put_keeps: "inv c \<Longrightarrow> inv (put t k v c) \<and> ttl (put t k v c) = ttl c \<and> cap (put t k v c) = cap c"
    and put_entry: "inv c \<Longrightarrow> 0 < cap c \<Longrightarrow> entry (put t k v c) k = Some (t, v)"
    and put_source: "inv c \<Longrightarrow> entry (put t k v c) j = Some x \<Longrightarrow> if j = k then x = (t, v) else entry c j = Some x"
    and bounded: "inv c \<Longrightarrow> int (held c) \<le> cap c"
begin

definition step :: "('k, 'v) cache_op \<Rightarrow> 'c \<Rightarrow> 'c" where
  "step op c = (case op of Get t k \<Rightarrow> snd (get t k c) | Put t k v \<Rightarrow> put t k v c)"

lemma step_keeps: "inv c \<Longrightarrow> inv (step op c) \<and> ttl (step op c) = ttl c \<and> cap (step op c) = cap c"
  by (cases op) (auto simp: step_def get_keeps put_keeps)

lemma fold_keeps: "inv c \<Longrightarrow> inv (fold step ops c) \<and> ttl (fold step ops c) = ttl c \<and> cap (fold step ops c) = cap c"
  by (induction ops arbitrary: c) (auto simp: step_keeps)

lemma step_source:
  assumes "inv c" "entry (step op c) k = Some x"
  shows "(case op of Put t j v \<Rightarrow> j = k \<and> x = (t, v) | Get _ _ \<Rightarrow> False) \<or>
    (entry c k = Some x \<and> (case op of Put t j v \<Rightarrow> j \<noteq> k | Get _ _ \<Rightarrow> True))"
proof (cases op)
  case (Get t j)
  with assms get_entry [OF assms(1), of t j k x] show ?thesis by (simp add: step_def)
next
  case (Put t j v)
  with assms put_source [OF assms(1), of t j v k x] show ?thesis by (auto simp: step_def split: if_splits)
qed

lemma fold_source:
  "inv c \<Longrightarrow> entry (fold step ops c) k = Some x \<Longrightarrow>
   last_put ops k = Some x \<or> last_put ops k = None \<and> entry c k = Some x"
proof (induction ops arbitrary: c)
  case (Cons op ops)
  have "inv (step op c)" using step_keeps Cons.prems(1) by blast
  with Cons have "last_put ops k = Some x \<or> last_put ops k = None \<and> entry (step op c) k = Some x" by simp
  with step_source [OF Cons.prems(1), of op k x] show ?case
    by (auto split: cache_op.splits)
qed simp

lemma hits_are_current:
  assumes "inv c" "\<And>j. entry c j = None" "fst (get t k (fold step ops c)) = Some v"
  shows "\<exists>s. last_put ops k = Some (s, v) \<and> t - s \<le> ttl c"
  using get_fresh [OF _ assms(3)] fold_keeps [OF assms(1), of ops] fold_source [OF assms(1), of ops k] assms(2) by fastforce

lemma fresh_put_is_hit:
  assumes "inv c" "0 < cap c" "t' - t \<le> ttl c"
  shows "fst (get t' k (put t k v c)) = Some v"
  using get_hit [OF _ put_entry [OF assms(1,2)]] put_keeps [OF assms(1)] assms(3) by simp

end

subsection \<open>Both caches provide it\<close>

lemma map_of_move_to_end: "distinct (map fst d) \<Longrightarrow> map_of (move_to_end k d) = map_of d"
proof -
  have "map_of (filter (\<lambda>kv. fst kv = k) d) = (\<lambda>j. if j = k then map_of d j else None)"
    by (induction d) (auto simp: fun_eq_iff)
  then show ?thesis
    by (auto simp: move_to_end_def fun_eq_iff map_add_def split: option.splits)
qed

lemma filter_key_one: "distinct (map fst d) \<Longrightarrow> length (filter (\<lambda>kv. fst kv = k) d) \<le> 1"
  by (induction d) (force simp: filter_empty_conv)+

lemma move_to_end_wf:
  assumes "distinct (map fst d)"
  shows "distinct (map fst (move_to_end k d))" "length (move_to_end k d) = length d"
proof -
  show len: "length (move_to_end k d) = length d"
    using sum_length_filter_compl [of "\<lambda>kv. fst kv = k" d] by (simp add: move_to_end_def dict_pop_def)
  have "set (map fst (move_to_end k d)) = set (map fst d)"
    by (auto simp: move_to_end_def dict_pop_def)
  then show "distinct (map fst (move_to_end k d))"
    using len assms by (metis card_distinct distinct_card length_map)
qed

lemma put_last:
  assumes "distinct (map fst d)"
  shows "dict_set k x (if map_of d k \<noteq> None then move_to_end k d else d) = dict_pop k d @ [(k, x)]"
proof (cases "map_of d k")
  case None
  then have "k \<notin> fst ` set d" by (simp add: map_of_eq_None_iff)
  moreover from this have "dict_pop k d = d" by (force simp: dict_pop_def filter_id_conv)
  ultimately show ?thesis using None by (simp add: dict_set_def)
next
  case (Some y)
  then have "(k, y) \<in> set d" by (rule map_of_SomeD)
  then have "filter (\<lambda>kv. fst kv = k) d \<noteq> []" by (force simp: filter_empty_conv)
  with filter_key_one [OF assms, of k] obtain z where z: "filter (\<lambda>kv. fst kv = k) d = [z]"
    by (cases "filter (\<lambda>kv. fst kv = k) d") auto
  then have "z \<in> set (filter (\<lambda>kv. fst kv = k) d)" by simp
  then have "fst z = k" by simp
  then have "move_to_end k d = dict_pop k d @ [z]" by (simp add: move_to_end_def z)
  moreover have "map (\<lambda>kv. if fst kv = k then (k, x) else kv) (dict_pop k d) = dict_pop k d"
    by (induction d) (auto simp: dict_pop_def)
  ultimately show ?thesis using Some \<open>fst z = k\<close> by (simp add: dict_set_def)
qed

definition odict_wf :: "int \<Rightarrow> ('k, 'v) odict \<Rightarrow> bool" where
  "odict_wf cap d \<longleftrightarrow> 0 \<le> cap \<and> distinct (map fst d) \<and> int (length d) \<le> cap"

lemma odict_wf_pop: "odict_wf cap d \<Longrightarrow> odict_wf cap (dict_pop k d)"
proof -
  have "length (dict_pop k d) \<le> length d" by (simp add: dict_pop_def)
  then show "odict_wf cap d \<Longrightarrow> odict_wf cap (dict_pop k d)"
    by (auto simp: odict_wf_def distinct_dict_pop)
qed

lemma odict_wf_move: "odict_wf cap d \<Longrightarrow> odict_wf cap (move_to_end k d)"
  by (simp add: odict_wf_def move_to_end_wf)

lemma odict_put:
  assumes "odict_wf cap d"
    and d'_def: "d' = trim cap (dict_set k x (if map_of d k \<noteq> None then move_to_end k d else d))"
  shows "odict_wf cap d'" "0 < cap \<Longrightarrow> map_of d' k = Some x"
    "map_of d' j = Some y \<Longrightarrow> if j = k then y = x else map_of d j = Some y"
proof -
  let ?full = "dict_pop k d @ [(k, x)]"
  have d': "d' = drop (length ?full - nat cap) ?full"
    using assms(1) unfolding d'_def trim_def odict_wf_def by (simp only: put_last)
  have dist: "distinct (map fst ?full)"
    using assms(1) distinct_dict_pop [of d k] by (auto simp: odict_wf_def dict_pop_def)
  then have dist': "distinct (map fst d')" unfolding d' by (metis distinct_drop drop_map)
  then show "odict_wf cap d'" using assms(1) by (auto simp: odict_wf_def d')
  have sub: "set d' \<subseteq> set ?full" unfolding d' by (rule set_drop_subset)
  show "map_of d' k = Some x" if "0 < cap"
  proof -
    have "(k, x) \<in> set d'" unfolding d' using that by (cases "nat cap") (auto simp: drop_append)
    with dist' show ?thesis by (simp add: map_of_eq_Some_iff)
  qed
  show "if j = k then y = x else map_of d j = Some y" if "map_of d' j = Some y"
  proof -
    have "(j, y) \<in> set ?full" using that sub by (auto dest!: map_of_SomeD)
    then show ?thesis using assms(1) by (auto simp: dict_pop_def odict_wf_def map_of_eq_Some_iff)
  qed
qed

text \<open>\<open>PageCache.get\<close> with a miss as \<open>None\<close>, and \<open>put\<close> of a value of the declared type.\<close>

definition pc_lookup :: "instant \<Rightarrow> 'k \<Rightarrow> ('k, 'v) page_cache \<Rightarrow> 'v option \<times> ('k, 'v) page_cache" where
  "pc_lookup t k c = (case pc_get t k c of (Hit v, c1) \<Rightarrow> (Some v, c1) | (CacheMiss, c1) \<Rightarrow> (None, c1))"

definition pc_store :: "instant \<Rightarrow> 'k \<Rightarrow> 'v \<Rightarrow> ('k, 'v) page_cache \<Rightarrow> ('k, 'v) page_cache" where
  "pc_store t k v c = snd (pc_put (\<lambda>_. True) t k v c)"

interpretation pages: ttl_cache pc_lookup pc_store "\<lambda>c. map_of (pc_data c)" pc_ttl
  "\<lambda>c. length (pc_data c)" pc_maxsize "\<lambda>c. odict_wf (pc_maxsize c) (pc_data c)"
proof unfold_locales
  fix c :: "('k, 'v) page_cache" and t k v
  assume w: "odict_wf (pc_maxsize c) (pc_data c)"
  then have dist: "distinct (map fst (pc_data c))" by (simp add: odict_wf_def)
  show "\<exists>s. map_of (pc_data c) k = Some (s, v) \<and> t - s \<le> pc_ttl c" if "fst (pc_lookup t k c) = Some v"
    using that by (auto simp: pc_lookup_def pc_get_def split: option.splits if_splits)
  show "odict_wf (pc_maxsize (snd (pc_lookup t k c))) (pc_data (snd (pc_lookup t k c))) \<and>
      pc_ttl (snd (pc_lookup t k c)) = pc_ttl c \<and> pc_maxsize (snd (pc_lookup t k c)) = pc_maxsize c"
    using w by (auto simp: pc_lookup_def pc_get_def odict_wf_pop odict_wf_move split: option.splits)
  show "map_of (pc_data c) j = Some x" if "map_of (pc_data (snd (pc_lookup t k c))) j = Some x" for j x
    using that dist by (auto simp: pc_lookup_def pc_get_def map_of_move_to_end split: option.splits if_splits)
  have eq: "pc_data (pc_store t k v c) = trim (pc_maxsize c) (dict_set k (t, v)
      (if map_of (pc_data c) k \<noteq> None then move_to_end k (pc_data c) else pc_data c))"
    by (simp add: pc_store_def pc_put_def Let_def)
  show "odict_wf (pc_maxsize (pc_store t k v c)) (pc_data (pc_store t k v c)) \<and>
      pc_ttl (pc_store t k v c) = pc_ttl c \<and> pc_maxsize (pc_store t k v c) = pc_maxsize c"
    using odict_put(1) [OF w eq] by (simp add: pc_store_def pc_put_def Let_def)
  show "map_of (pc_data (pc_store t k v c)) k = Some (t, v)" if "0 < pc_maxsize c"
    by (rule odict_put(2) [OF w eq that])
  show "if j = k then x = (t, v) else map_of (pc_data c) j = Some x"
    if "map_of (pc_data (pc_store t k v c)) j = Some x" for j x
    by (rule odict_put(3) [OF w eq that])
  show "int (length (pc_data c)) \<le> pc_maxsize c" using w by (simp add: odict_wf_def)
qed (auto simp: pc_lookup_def pc_get_def)

interpretation rewriting: ttl_cache rc_get rc_put "\<lambda>c. map_of (rc_data c)" rc_ttl
  "\<lambda>c. length (rc_data c)" rc_maxsize "\<lambda>c. odict_wf (rc_maxsize c) (rc_data c)"
proof unfold_locales
  fix c :: "('k, 'v) rewrite_cache" and t k v
  assume w: "odict_wf (rc_maxsize c) (rc_data c)"
  then have dist: "distinct (map fst (rc_data c))" by (simp add: odict_wf_def)
  show "\<exists>s. map_of (rc_data c) k = Some (s, v) \<and> t - s \<le> rc_ttl c" if "fst (rc_get t k c) = Some v"
    using that by (auto simp: rc_get_def split: option.splits if_splits)
  show "odict_wf (rc_maxsize (snd (rc_get t k c))) (rc_data (snd (rc_get t k c))) \<and>
      rc_ttl (snd (rc_get t k c)) = rc_ttl c \<and> rc_maxsize (snd (rc_get t k c)) = rc_maxsize c"
    using w by (auto simp: rc_get_def odict_wf_pop odict_wf_move split: option.splits)
  show "map_of (rc_data c) j = Some x" if "map_of (rc_data (snd (rc_get t k c))) j = Some x" for j x
    using that dist by (auto simp: rc_get_def map_of_move_to_end split: option.splits if_splits)
  have eq: "rc_data (rc_put t k v c) = trim (rc_maxsize c) (dict_set k (t, v)
      (if map_of (rc_data c) k \<noteq> None then move_to_end k (rc_data c) else rc_data c))"
    by (simp add: rc_put_def Let_def)
  show "odict_wf (rc_maxsize (rc_put t k v c)) (rc_data (rc_put t k v c)) \<and>
      rc_ttl (rc_put t k v c) = rc_ttl c \<and> rc_maxsize (rc_put t k v c) = rc_maxsize c"
    using odict_put(1) [OF w eq] by (simp add: rc_put_def Let_def)
  show "map_of (rc_data (rc_put t k v c)) k = Some (t, v)" if "0 < rc_maxsize c"
    by (rule odict_put(2) [OF w eq that])
  show "if j = k then x = (t, v) else map_of (rc_data c) j = Some x"
    if "map_of (rc_data (rc_put t k v c)) j = Some x" for j x
    by (rule odict_put(3) [OF w eq that])
  show "int (length (rc_data c)) \<le> rc_maxsize c" using w by (simp add: odict_wf_def)
qed (auto simp: rc_get_def)

subsection \<open>Properties\<close>

text \<open>A page cache and a rewrite cache as constructed, empty.\<close>

definition pc_new :: "int \<Rightarrow> int \<Rightarrow> ('k, 'v) page_cache" where
  "pc_new maxsize ttl = \<lparr>pc_maxsize = maxsize, pc_ttl = ttl, pc_data = []\<rparr>"

definition pc_apply :: "('k, 'v) cache_op \<Rightarrow> ('k, 'v) page_cache \<Rightarrow> ('k, 'v) page_cache" where
  "pc_apply op c = (case op of Get t k \<Rightarrow> snd (pc_get t k c) | Put t k v \<Rightarrow> snd (pc_put (\<lambda>_. True) t k v c))"

lemma pc_apply_step: "pc_apply = pages.step"
  by (auto simp: fun_eq_iff pc_apply_def pages.step_def pc_store_def pc_lookup_def
      split: cache_op.splits prod.splits lookup.splits)

text \<open>
  The page cache never answers with a wrong or stale page and never outgrows its bound:
  after any sequence of puts and gets on a new cache, a hit is the last value put under that
  key, put no longer ago than the time to live, a value just put is hit within its time to
  live, and at most \<open>maxsize\<close> entries are held.
\<close>

theorem page_cache_correct:
  assumes "0 \<le> maxsize" and c_def: "c = fold pc_apply ops (pc_new maxsize ttl)"
  shows "(\<forall>t k v. fst (pc_get t k c) = Hit v \<longrightarrow> (\<exists>s. last_put ops k = Some (s, v) \<and> t - s \<le> ttl)) \<and>
    (\<forall>t t' k v. 0 < maxsize \<longrightarrow> t' - t \<le> ttl \<longrightarrow> fst (pc_get t' k (snd (pc_put (\<lambda>_. True) t k v c))) = Hit v) \<and>
    int (length (pc_data c)) \<le> maxsize"
proof -
  let ?new = "pc_new maxsize ttl"
  have inv: "odict_wf (pc_maxsize ?new) (pc_data ?new)" using assms(1) by (simp add: pc_new_def odict_wf_def)
  have hit: "fst (pc_lookup t k x) = Some v \<longleftrightarrow> fst (pc_get t k x) = Hit v" for t k v and x :: "('a, 'b) page_cache"
    by (auto simp: pc_lookup_def split: prod.splits lookup.splits)
  have keeps: "odict_wf (pc_maxsize c) (pc_data c)" "pc_ttl c = ttl" "pc_maxsize c = maxsize"
    using pages.fold_keeps [OF inv, of ops] by (auto simp: c_def pc_apply_step pc_new_def)
  have "fst (pc_get t k c) = Hit v \<Longrightarrow> \<exists>s. last_put ops k = Some (s, v) \<and> t - s \<le> ttl" for t k v
    using pages.hits_are_current [OF inv, of t k ops v] hit
    by (simp add: c_def pc_apply_step pc_new_def)
  moreover have "0 < maxsize \<Longrightarrow> t' - t \<le> ttl \<Longrightarrow> fst (pc_get t' k (snd (pc_put (\<lambda>_. True) t k v c))) = Hit v" for t t' k v
    using pages.fresh_put_is_hit [OF keeps(1), of t' t k v] keeps(2,3) by (simp add: hit pc_store_def)
  moreover have "int (length (pc_data c)) \<le> maxsize" using keeps by (simp add: odict_wf_def)
  ultimately show ?thesis by blast
qed

theorem page_cache_correct_witness:
  "\<exists>s. last_put [Put 0 ''a'' (1 :: nat), Put 5 ''a'' 2, Get 6 ''a''] ''a'' = Some (s, 2) \<and> 7 - s \<le> 10"
proof -
  have "fst (pc_get 7 ''a'' (fold pc_apply [Put 0 ''a'' (1 :: nat), Put 5 ''a'' 2, Get 6 ''a''] (pc_new 3 10))) = Hit 2"
    by code_simp
  moreover have "(0 :: int) \<le> 3" by simp
  ultimately show ?thesis
    using page_cache_correct [OF _ refl, of 3 "[Put 0 ''a'' (1 :: nat), Put 5 ''a'' 2, Get 6 ''a'']" 10]
    by blast
qed

text \<open>
  Every entry was answered by the inner rewriter for its own text on its own day;
  \<open>answered d t v\<close> says that it gave \<open>v\<close> for \<open>t\<close> on day \<open>d\<close>.
\<close>

definition rc_from :: "('d \<Rightarrow> 't \<Rightarrow> 'v \<Rightarrow> bool) \<Rightarrow> ('d \<times> 't, 'v) rewrite_cache \<Rightarrow> bool" where
  "rc_from answered c \<longleftrightarrow> odict_wf (max 0 (rc_maxsize c)) (rc_data c) \<and>
     (\<forall>d t s v. map_of (rc_data c) (d, t) = Some (s, v) \<longrightarrow> answered d t v)"

text \<open>
  Caching rewrites is transparent: a rewrite on one day answers either what the inner rewriter
  answers now or something it answered for the same text on the same day (never another day's
  dates), an error is exactly the inner rewriter's and adds nothing to the cache, a cache of size
  zero always asks, and every entry still comes from the inner rewriter afterwards, also when
  concurrent calls change the cache while the inner call runs.
\<close>

theorem rewrite_transparent:
  assumes "rc_from answered c" "\<And>v. inner txt = Inr v \<Longrightarrow> answered today txt v"
    and "\<And>x. rc_from answered x \<Longrightarrow> rc_from answered (others x)"
    and "\<And>x. rc_maxsize (others x) = rc_maxsize x"
    and "rewrite inner today clock clock' others txt c = (r, c')"
  shows "(case r of Inl e \<Rightarrow> inner txt = Inl e \<and> c' \<in> {c, others (snd (rc_get clock (today, txt) c))}
      | Inr v \<Rightarrow> answered today txt v) \<and> (rc_maxsize c \<le> 0 \<longrightarrow> r = inner txt) \<and> rc_from answered c'"
proof (cases "rc_maxsize c \<le> 0")
  case True
  with assms show ?thesis by (auto simp: rewrite_def split: sum.split)
next
  case False
  obtain g c1 where g: "rc_get clock (today, txt) c = (g, c1)" by fastforce
  have w: "odict_wf (rc_maxsize c) (rc_data c)" using assms(1) False by (simp add: rc_from_def)
  have keeps: "odict_wf (rc_maxsize c1) (rc_data c1)" "rc_maxsize c1 = rc_maxsize c"
    using rewriting.get_keeps [OF w, of clock "(today, txt)"] g by auto
  have c1: "rc_from answered c1"
    using rewriting.get_entry [OF w, of clock "(today, txt)"] g assms(1) keeps False
    by (fastforce simp: rc_from_def)
  show ?thesis
  proof (cases g)
    case (Some v)
    with rewriting.get_fresh [OF w, of clock "(today, txt)" v] g assms(1) have "answered today txt v"
      by (auto simp: rc_from_def)
    with Some g False assms(5) c1 show ?thesis by (auto simp: rewrite_def)
  next
    case None
    have o: "rc_from answered (others c1)" using assms(3) c1 by blast
    then have wo: "odict_wf (rc_maxsize (others c1)) (rc_data (others c1))"
      using False keeps(2) assms(4) by (simp add: rc_from_def)
    show ?thesis
    proof (cases "inner txt")
      case (Inl e)
      with None g False assms(5) have "r = Inl e \<and> c' = others c1" by (simp add: rewrite_def)
      with Inl g o False show ?thesis by simp
    next
      case (Inr v)
      have "rc_from answered (rc_put clock' (today, txt) v (others c1))"
        using rewriting.put_source [OF wo, of clock' "(today, txt)" v] rewriting.put_keeps [OF wo, of clock' "(today, txt)" v]
          o assms(2) [OF Inr] False keeps(2) assms(4)
        by (fastforce simp: rc_from_def split: if_splits)
      moreover from Inr None g False assms(5)
      have "r = Inr v \<and> c' = rc_put clock' (today, txt) v (others c1)" by (simp add: rewrite_def)
      ultimately show ?thesis using assms(2) [OF Inr] False by simp
    qed
  qed
qed

theorem rewrite_transparent_witness:
  "rc_from (\<lambda>d t v. v = d + t) (snd (rewrite (\<lambda>t :: nat. if t = 0 then Inl ''down'' else Inr (1 + t)) (1 :: nat) 5 6 id 7
      \<lparr>rc_maxsize = 2, rc_ttl = 10, rc_data = [((1, 3), (0, 4))]\<rparr>))"
proof -
  let ?inner = "\<lambda>t :: nat. if t = 0 then Inl ''down'' else Inr (1 + t)"
  let ?c = "\<lparr>rc_maxsize = 2, rc_ttl = 10, rc_data = [((1 :: nat, 3), (0, 4))]\<rparr>"
  have "rc_from (\<lambda>d t v. v = d + t) ?c" by (simp add: rc_from_def odict_wf_def)
  from rewrite_transparent [OF this _ _ _ prod.collapse [symmetric], of ?inner 7 1 id] show ?thesis by simp
qed

end
