(* ===== verification/Supervisor.thy ===== *)
theory Supervisor
  imports Prelude
begin

text \<open>
  The process supervisor of the sync daemon (\<open>serve/daemon_supervisor.py\<close>).

  Every section the code runs under \<open>_lock\<close> is one atomic step. What a thread does between two
  such sections is a list of tasks: \<open>sv_lifecycle\<close> holds those of the single background thread
  the \<open>request_*\<close> operations spawn, \<open>sv_closer\<close> those of the thread in \<open>close()\<close>. Children are
  numbered in spawn order, a \<open>Popen\<close> object being its number, and every child has a reader
  thread that fills the log buffer bound at its start. A child may exit, and its output may end,
  at any moment.
\<close>

subsection \<open>State\<close>

datatype supervisor_state = Stopped | Starting | Running | Stopping | Crashed | External

record child =
  ch_pid :: int
  ch_exited :: bool
  ch_reader_done :: bool
  ch_log :: nat

datatype task = TStart | TStop | TTerm nat | TWait nat | TKill nat | TReap nat | TStopEnd | TReturn

record supervisor =
  sv_children :: "child list"
  sv_logs :: "string list list"
  sv_log :: nat
  sv_proc :: "nat option"
  sv_state :: supervisor_state
  sv_started_at :: "instant option"
  sv_closing :: bool
  sv_lifecycle :: "task list"
  sv_closer :: "task list"

record supervisor_status =
  ss_state :: supervisor_state
  ss_pid :: "int option"
  ss_started_at :: "instant option"

datatype supervisor_error = ShuttingDown | LifecycleInProgress | SupervisedExternally

definition new_supervisor :: supervisor where
  "new_supervisor = \<lparr>sv_children = [], sv_logs = [[]], sv_log = 0, sv_proc = None, sv_state = Stopped,
     sv_started_at = None, sv_closing = False, sv_lifecycle = [], sv_closer = []\<rparr>"

definition exited :: "supervisor \<Rightarrow> nat \<Rightarrow> bool" where
  "exited s h \<longleftrightarrow> ch_exited (sv_children s ! h)"

text \<open>\<open>self._proc is not None and self._proc.poll() is None\<close>.\<close>

definition proc_live :: "supervisor \<Rightarrow> bool" where
  "proc_live s \<longleftrightarrow> (case sv_proc s of None \<Rightarrow> False | Some h \<Rightarrow> \<not> exited s h)"

subsection \<open>The locked sections\<close>

definition clear_proc :: "supervisor \<Rightarrow> supervisor" where
  "clear_proc s = s\<lparr>sv_proc := None, sv_started_at := None, sv_state := Stopped\<rparr>"

text \<open>\<open>start\<close>; \<open>spawn\<close> is what \<open>Popen\<close> answers, \<open>None\<close> when it raises.\<close>

definition start_section :: "(int \<times> instant) option \<Rightarrow> supervisor \<Rightarrow> supervisor" where
  "start_section spawn s =
     (if sv_closing s then s
      else if proc_live s then s
      else
        (let s1 = s\<lparr>sv_state := Starting, sv_logs := sv_logs s @ [[]], sv_log := length (sv_logs s)\<rparr>
         in case spawn of
              None \<Rightarrow> s1
            | Some (pid, t) \<Rightarrow>
                s1\<lparr>sv_children := sv_children s @
                      [\<lparr>ch_pid = pid, ch_exited = False, ch_reader_done = False, ch_log = length (sv_logs s)\<rparr>],
                   sv_proc := Some (length (sv_children s)), sv_started_at := Some t, sv_state := Running\<rparr>))"

text \<open>The first section of \<open>stop\<close>, with the tasks left to its thread.\<close>

definition stop_section :: "supervisor \<Rightarrow> task list \<times> supervisor" where
  "stop_section s =
     (case sv_proc s of
        None \<Rightarrow> ([], clear_proc s)
      | Some h \<Rightarrow>
          if exited s h then ([], clear_proc s)
          else ([TTerm h, TWait h, TStopEnd], s\<lparr>sv_state := Stopping\<rparr>))"

text \<open>
  One task of a thread: the tasks it leaves behind and the state after. \<open>None\<close> is a task that
  has to wait. \<open>timed_out\<close> tells whether the grace period ends before the child does.
\<close>

fun run_task :: "(int \<times> instant) option \<Rightarrow> bool \<Rightarrow> task \<Rightarrow> supervisor \<Rightarrow> (task list \<times> supervisor) option" where
  "run_task spawn timed_out TStart s = Some ([], start_section spawn s)"
| "run_task spawn timed_out TStop s = Some (stop_section s)"
| "run_task spawn timed_out (TTerm h) s = Some ([], s)"
| "run_task spawn timed_out (TWait h) s =
     (if exited s h then Some ([], s) else if timed_out then Some ([TKill h, TReap h], s) else None)"
| "run_task spawn timed_out (TKill h) s = Some ([], s)"
| "run_task spawn timed_out (TReap h) s = (if exited s h then Some ([], s) else None)"
| "run_task spawn timed_out TStopEnd s = Some ([], clear_proc s)"
| "run_task spawn timed_out TReturn s = Some ([], s)"

definition admit_lifecycle_request :: "supervisor \<Rightarrow> supervisor_error option" where
  "admit_lifecycle_request s =
     (if sv_closing s then Some ShuttingDown
      else if sv_lifecycle s \<noteq> [] then Some LifecycleInProgress
      else None)"

definition request_start :: "supervisor \<Rightarrow> supervisor_error + supervisor" where
  "request_start s =
     (case admit_lifecycle_request s of
        Some e \<Rightarrow> Inl e
      | None \<Rightarrow> if proc_live s then Inr s
                else Inr (s\<lparr>sv_state := Starting, sv_lifecycle := [TStart, TReturn]\<rparr>))"

definition request_stop :: "supervisor \<Rightarrow> supervisor_error + supervisor" where
  "request_stop s =
     (case admit_lifecycle_request s of
        Some e \<Rightarrow> Inl e
      | None \<Rightarrow> if \<not> proc_live s then Inr (clear_proc s)
                else Inr (s\<lparr>sv_state := Stopping, sv_lifecycle := [TStop, TReturn]\<rparr>))"

definition request_restart :: "supervisor \<Rightarrow> supervisor_error + supervisor" where
  "request_restart s =
     (case admit_lifecycle_request s of
        Some e \<Rightarrow> Inl e
      | None \<Rightarrow> Inr (s\<lparr>sv_state := Stopping, sv_lifecycle := [TStop, TStart, TReturn]\<rparr>))"

definition refresh_crash :: "supervisor \<Rightarrow> supervisor" where
  "refresh_crash s =
     (if sv_state s = Running \<and> sv_proc s \<noteq> None \<and> \<not> proc_live s then s\<lparr>sv_state := Crashed\<rparr> else s)"

definition status :: "supervisor \<Rightarrow> supervisor_status \<times> supervisor" where
  "status s =
     (let s1 = refresh_crash s
      in (\<lparr>ss_state = sv_state s1,
           ss_pid = (case sv_proc s1 of
                       None \<Rightarrow> None
                     | Some h \<Rightarrow> if sv_state s1 \<noteq> Stopped then Some (ch_pid (sv_children s1 ! h)) else None),
           ss_started_at = sv_started_at s1\<rparr>, s1))"

definition recent_log_lines :: "supervisor \<Rightarrow> string list" where
  "recent_log_lines s = sv_logs s ! sv_log s"

text \<open>The first section of \<open>close\<close>; its \<open>stop\<close> is left to the closing thread.\<close>

definition close_section :: "supervisor \<Rightarrow> supervisor" where
  "close_section s = s\<lparr>sv_closing := True, sv_closer := [TStop, TReturn]\<rparr>"

text \<open>The reader thread: \<open>deque(maxlen)\<close> drops from the front; the end of output may be a crash.\<close>

definition deque_append :: "nat \<Rightarrow> 'a \<Rightarrow> 'a list \<Rightarrow> 'a list" where
  "deque_append maxlen x q = drop (Suc (length q) - maxlen) (q @ [x])"

definition reader_line :: "nat \<Rightarrow> nat \<Rightarrow> string \<Rightarrow> supervisor \<Rightarrow> supervisor" where
  "reader_line maxlen h line s =
     (let l = ch_log (sv_children s ! h)
      in s\<lparr>sv_logs := (sv_logs s)[l := deque_append maxlen line (sv_logs s ! l)]\<rparr>)"

definition reader_eof :: "nat \<Rightarrow> supervisor \<Rightarrow> supervisor" where
  "reader_eof h s =
     (let s1 = s\<lparr>sv_children := (sv_children s)[h := (sv_children s ! h)\<lparr>ch_reader_done := True\<rparr>]\<rparr>
      in if sv_state s = Running \<and> sv_proc s = Some h then s1\<lparr>sv_state := Crashed\<rparr> else s1)"

definition child_exit :: "nat \<Rightarrow> supervisor \<Rightarrow> supervisor" where
  "child_exit h s = s\<lparr>sv_children := (sv_children s)[h := (sv_children s ! h)\<lparr>ch_exited := True\<rparr>]\<rparr>"

text \<open>The externally supervised stub.\<close>

definition external_request :: "supervisor_error + supervisor" where
  "external_request = Inl SupervisedExternally"

definition external_status :: supervisor_status where
  "external_status = \<lparr>ss_state = External, ss_pid = None, ss_started_at = None\<rparr>"

subsection \<open>Interleavings\<close>

text \<open>\<open>fails\<close> tells whether \<open>Popen\<close> may raise; \<open>n\<close> is the log buffer's length.\<close>

inductive sup_step :: "bool \<Rightarrow> nat \<Rightarrow> supervisor \<Rightarrow> supervisor \<Rightarrow> bool" for fails :: bool and n :: nat where
  req_start: "request_start s = Inr s' \<Longrightarrow> sup_step fails n s s'"
| req_stop: "request_stop s = Inr s' \<Longrightarrow> sup_step fails n s s'"
| req_restart: "request_restart s = Inr s' \<Longrightarrow> sup_step fails n s s'"
| ask_status: "sup_step fails n s (snd (status s))"
| start_close: "\<not> sv_closing s \<Longrightarrow> sup_step fails n s (close_section s)"
| lifecycle: "sv_lifecycle s = t # ts \<Longrightarrow> run_task spawn timed_out t s = Some (ts', s') \<Longrightarrow>
    spawn = None \<longrightarrow> fails \<Longrightarrow> sup_step fails n s (s'\<lparr>sv_lifecycle := ts' @ ts\<rparr>)"
| closer: "sv_closer s = t # ts \<Longrightarrow> run_task None timed_out t s = Some (ts', s') \<Longrightarrow>
    sup_step fails n s (s'\<lparr>sv_closer := ts' @ ts\<rparr>)"
| exits: "h < length (sv_children s) \<Longrightarrow> sup_step fails n s (child_exit h s)"
| line: "h < length (sv_children s) \<Longrightarrow> \<not> ch_reader_done (sv_children s ! h) \<Longrightarrow>
    sup_step fails n s (reader_line n h l s)"
| eof: "h < length (sv_children s) \<Longrightarrow> \<not> ch_reader_done (sv_children s ! h) \<Longrightarrow>
    sup_step fails n s (reader_eof h s)"

inductive reachable :: "bool \<Rightarrow> nat \<Rightarrow> supervisor \<Rightarrow> bool" for fails :: bool and n :: nat where
  init: "reachable fails n new_supervisor"
| step: "reachable fails n s \<Longrightarrow> sup_step fails n s s' \<Longrightarrow> reachable fails n s'"


subsection \<open>Which children are alive\<close>

definition live :: "supervisor \<Rightarrow> nat \<Rightarrow> bool" where
  "live s h \<longleftrightarrow> h < length (sv_children s) \<and> \<not> exited s h"

definition none_live :: "supervisor \<Rightarrow> bool" where "none_live s \<longleftrightarrow> (\<forall>g. \<not> live s g)"

definition only_live :: "supervisor \<Rightarrow> nat \<Rightarrow> bool" where "only_live s h \<longleftrightarrow> (\<forall>g. live s g \<longrightarrow> g = h)"

lemma child_frame [simp]:
  "live (s\<lparr>sv_lifecycle := a\<rparr>) g = live s g" "live (s\<lparr>sv_closer := a\<rparr>) g = live s g"
  "live (s\<lparr>sv_state := st\<rparr>) g = live s g" "live (s\<lparr>sv_closing := b\<rparr>) g = live s g"
  "live (s\<lparr>sv_logs := ls\<rparr>) g = live s g" "live (clear_proc s) g = live s g"
  by (simp_all add: live_def exited_def clear_proc_def)

lemma refresh_crash_frame [simp]:
  "sv_children (refresh_crash s) = sv_children s" "sv_proc (refresh_crash s) = sv_proc s"
  "sv_lifecycle (refresh_crash s) = sv_lifecycle s" "sv_closer (refresh_crash s) = sv_closer s"
  "sv_closing (refresh_crash s) = sv_closing s" "sv_logs (refresh_crash s) = sv_logs s"
  "sv_log (refresh_crash s) = sv_log s"
  by (simp_all add: refresh_crash_def)

lemma refresh_crash_state:
  "sv_state (refresh_crash s) = (if sv_state s = Running \<and> sv_proc s \<noteq> None \<and> \<not> proc_live s then Crashed else sv_state s)"
  by (simp add: refresh_crash_def)

lemma snd_status [simp]: "snd (status s) = refresh_crash s"
  by (simp add: status_def Let_def)

lemma live_status [simp]: "live (refresh_crash s) g = live s g"
  by (simp add: live_def exited_def)

lemma live_reader_line [simp]: "live (reader_line n h l s) g = live s g"
  by (simp add: reader_line_def Let_def)

lemma live_reader_eof [simp]: "live (reader_eof h s) g = live s g"
  by (cases "h < length (sv_children s)")
    (auto simp: reader_eof_def live_def exited_def nth_list_update Let_def)

lemma live_child_exit [simp]: "live (child_exit h s) g \<longleftrightarrow> live s g \<and> g \<noteq> h"
  by (cases "h < length (sv_children s)")
    (auto simp: child_exit_def live_def exited_def nth_list_update)

lemma live_start:
  "live (start_section spawn s) g \<Longrightarrow> live s g \<or>
     \<not> sv_closing s \<and> \<not> proc_live s \<and> spawn \<noteq> None \<and> g = length (sv_children s) \<and>
     sv_proc (start_section spawn s) = Some g"
  by (auto simp: start_section_def live_def exited_def nth_append Let_def split: if_splits option.splits)

lemma live_stop [simp]: "live (snd (stop_section s)) g = live s g"
  by (simp add: stop_section_def split: option.split)

subsection \<open>The thread invariant\<close>

abbreviation rests :: "task list set" where "rests \<equiv> {[TReturn], [TStart, TReturn]}"

text \<open>A thread that has to wait for a child waits for the only one there is.\<close>

fun thread_ok :: "supervisor \<Rightarrow> task list \<Rightarrow> bool" where
  "thread_ok s [] = True"
| "thread_ok s (TReturn # ts) = (ts = [])"
| "thread_ok s (TStart # ts) = (ts = [TReturn])"
| "thread_ok s (TStop # ts) = (ts \<in> rests)"
| "thread_ok s (TStopEnd # ts) = (none_live s \<and> ts \<in> rests)"
| "thread_ok s (TReap h # ts) = (only_live s h \<and> (\<exists>r \<in> rests. ts = TStopEnd # r))"
| "thread_ok s (TKill h # ts) = (only_live s h \<and> (\<exists>r \<in> rests. ts = TReap h # TStopEnd # r))"
| "thread_ok s (TWait h # ts) = (only_live s h \<and> (\<exists>r \<in> rests. ts = TStopEnd # r))"
| "thread_ok s (TTerm h # ts) = (only_live s h \<and> (\<exists>r \<in> rests. ts = TWait h # TStopEnd # r))"

lemma thread_ok_rests [simp]: "ts \<in> rests \<Longrightarrow> thread_ok s ts"
  by auto

lemma thread_ok_mono:
  "thread_ok s ts \<Longrightarrow> (\<And>g. live s' g \<Longrightarrow> live s g) \<Longrightarrow> thread_ok s' ts"
  by (induction s ts rule: thread_ok.induct) (auto simp: none_live_def only_live_def)

definition sup_inv :: "supervisor \<Rightarrow> bool" where
  "sup_inv s \<longleftrightarrow> (\<forall>h. live s h \<longrightarrow> sv_proc s = Some h) \<and>
     (\<forall>h. sv_proc s = Some h \<longrightarrow> h < length (sv_children s)) \<and>
     thread_ok s (sv_lifecycle s) \<and> thread_ok s (sv_closer s) \<and> TStart \<notin> set (sv_closer s) \<and>
     (sv_closer s \<noteq> [] \<longrightarrow> sv_closing s) \<and>
     (sv_closing s \<and> sv_closer s \<in> {[], [TReturn]} \<longrightarrow> none_live s) \<and>
     (sv_state s = Running \<longrightarrow> sv_proc s \<noteq> None) \<and> (sv_state s = Stopped \<longrightarrow> none_live s) \<and>
     sv_state s \<noteq> External"

lemma sup_invD:
  assumes "sup_inv s"
  shows inv_proc: "live s h \<Longrightarrow> sv_proc s = Some h"
    and inv_handle: "sv_proc s = Some h \<Longrightarrow> h < length (sv_children s)"
    and inv_lifecycle: "thread_ok s (sv_lifecycle s)"
    and inv_closer: "thread_ok s (sv_closer s)"
    and inv_closer_start: "TStart \<notin> set (sv_closer s)"
    and inv_closing: "sv_closer s \<noteq> [] \<Longrightarrow> sv_closing s"
    and inv_closed: "sv_closing s \<Longrightarrow> sv_closer s \<in> {[], [TReturn]} \<Longrightarrow> none_live s"
    and inv_running: "sv_state s = Running \<Longrightarrow> sv_proc s \<noteq> None"
    and inv_stopped: "sv_state s = Stopped \<Longrightarrow> none_live s"
    and inv_internal: "sv_state s \<noteq> External"
  using assms unfolding sup_inv_def by blast+

lemma only_live_exited: "only_live s h \<Longrightarrow> exited s h \<Longrightarrow> none_live s"
  by (auto simp: only_live_def none_live_def live_def)

lemma sup_inv_not_live: "sup_inv s \<Longrightarrow> \<not> proc_live s \<Longrightarrow> none_live s"
  using inv_proc [of s] by (fastforce simp: none_live_def proc_live_def live_def)

text \<open>What one task of a thread does to everything but its own list of tasks.\<close>

lemma run_task_thread:
  assumes "sup_inv s" "thread_ok s (t # ts)" "run_task spawn timed_out t s = Some (ts', s')"
  shows "thread_ok s' (ts' @ ts)"
proof (cases t)
  case TStop
  show ?thesis
  proof (cases "proc_live s")
    case True
    then obtain h where h: "sv_proc s = Some h" "\<not> exited s h" by (auto simp: proc_live_def split: option.splits)
    with assms TStop have "ts' = [TTerm h, TWait h, TStopEnd]" "s' = s\<lparr>sv_state := Stopping\<rparr>" "ts \<in> rests"
      by (simp_all add: stop_section_def)
    moreover have "only_live s h" using inv_proc [OF assms(1)] h(1) by (auto simp: only_live_def)
    ultimately show ?thesis by (simp add: only_live_def)
  next
    case False
    with assms TStop have "ts' = []" "ts \<in> rests"
      by (simp_all add: stop_section_def proc_live_def split: option.splits)
    then show ?thesis by simp
  qed
next
  case (TWait h)
  with assms only_live_exited [of s h] show ?thesis by (auto split: if_splits)
next
  case (TReap h)
  with assms only_live_exited [of s h] show ?thesis by (auto split: if_splits)
qed (use assms in \<open>auto simp: none_live_def split: if_splits\<close>)

definition settles :: "supervisor \<Rightarrow> supervisor \<Rightarrow> bool" where
  "settles s s' \<longleftrightarrow> length (sv_children s') = length (sv_children s) \<and> (\<forall>g. live s' g \<longrightarrow> live s g) \<and>
     (sv_proc s' = sv_proc s \<and> sv_state s' \<in> {sv_state s, Stopping, Starting, Crashed} \<or>
      sv_proc s' = None \<and> sv_state s' = Stopped \<and> none_live s) \<and> sv_closing s' = sv_closing s"

lemma settles_inv:
  assumes "sup_inv s" "settles s s'" "thread_ok s' (sv_lifecycle s')" "thread_ok s' (sv_closer s')"
    and "TStart \<notin> set (sv_closer s')" "sv_closer s' \<noteq> [] \<Longrightarrow> sv_closing s"
    and "sv_closing s \<Longrightarrow> sv_closer s' \<in> {[], [TReturn]} \<Longrightarrow> none_live s"
  shows "sup_inv s'"
proof -
  have down: "live s' g \<Longrightarrow> live s g" for g using assms(2) by (auto simp: settles_def)
  have none: "none_live s \<Longrightarrow> none_live s'" using down by (auto simp: none_live_def)
  have p: "sv_proc s' = sv_proc s \<and> sv_state s' \<in> {sv_state s, Stopping, Starting, Crashed} \<or>
      sv_proc s' = None \<and> sv_state s' = Stopped \<and> none_live s"
    and "length (sv_children s') = length (sv_children s)" "sv_closing s' = sv_closing s"
    using assms(2) by (simp_all only: settles_def)
  moreover have "\<forall>h. live s' h \<longrightarrow> sv_proc s' = Some h"
    using p down inv_proc [OF assms(1)] by (auto simp: none_live_def)
  moreover have "sv_state s' = Running \<longrightarrow> sv_proc s' \<noteq> None" "sv_state s' \<noteq> External"
    using p inv_running [OF assms(1)] inv_internal [OF assms(1)] by auto
  moreover have "sv_state s' = Stopped \<longrightarrow> none_live s'"
    using p none inv_stopped [OF assms(1)] by auto
  moreover have "sv_proc s' = Some h \<Longrightarrow> h < length (sv_children s)" for h
    using p inv_handle [OF assms(1)] by auto
  ultimately show ?thesis unfolding sup_inv_def using assms(3-7) none by simp
qed

lemma settles_down: "settles s s' \<Longrightarrow> live s' g \<Longrightarrow> live s g"
  by (simp add: settles_def)

lemma settles_same_closer:
  assumes "sup_inv s" "settles s s'" "thread_ok s' (sv_lifecycle s')" "sv_closer s' = sv_closer s"
  shows "sup_inv s'"
  by (rule settles_inv [OF assms(1-3)])
    (use assms(4) sup_invD(5-7) [OF assms(1)] thread_ok_mono [OF inv_closer [OF assms(1)] settles_down [OF assms(2)]] in auto)

lemma settles_same_threads:
  assumes "sup_inv s" "settles s s'" "sv_lifecycle s' = sv_lifecycle s" "sv_closer s' = sv_closer s"
  shows "sup_inv s'"
  using settles_same_closer [OF assms(1,2) _ assms(4)] assms(3)
    thread_ok_mono [OF inv_lifecycle [OF assms(1)] settles_down [OF assms(2)]] by simp

lemma run_task_settles:
  assumes "sup_inv s" "thread_ok s (t # ts)" "t \<noteq> TStart" "run_task spawn timed_out t s = Some (ts', s')"
  shows "settles s s' \<and> sv_lifecycle s' = sv_lifecycle s \<and> sv_closer s' = sv_closer s"
proof (cases t)
  case TStop
  show ?thesis
  proof (cases "proc_live s")
    case True
    then obtain h where h: "sv_proc s = Some h" "\<not> exited s h" by (auto simp: proc_live_def split: option.splits)
    with assms TStop have "s' = s\<lparr>sv_state := Stopping\<rparr>" by (simp add: stop_section_def)
    then show ?thesis by (simp add: settles_def)
  next
    case False
    with assms TStop have "s' = clear_proc s" by (auto simp: stop_section_def proc_live_def split: option.splits)
    with False sup_inv_not_live [OF assms(1)] show ?thesis by (simp add: settles_def) (simp add: clear_proc_def)
  qed
next
  case TStopEnd
  with assms have "s' = clear_proc s" "none_live s" by simp_all
  then show ?thesis by (simp add: settles_def) (simp add: clear_proc_def)
qed (use assms in \<open>auto simp: settles_def split: if_splits\<close>)

lemma start_section_inv:
  assumes "sup_inv s" "sv_lifecycle s = [TStart, TReturn]"
  shows "sup_inv ((start_section spawn s)\<lparr>sv_lifecycle := [TReturn]\<rparr>)"
proof (cases "sv_closing s \<or> proc_live s")
  case True
  then have "start_section spawn s = s" by (auto simp: start_section_def)
  moreover have "settles s (s\<lparr>sv_lifecycle := [TReturn]\<rparr>)" by (simp add: settles_def)
  ultimately show ?thesis using settles_same_closer [OF assms(1)] by simp
next
  case False
  then have closer: "sv_closer s = []" and none: "none_live s"
    using inv_closing [OF assms(1)] sup_inv_not_live [OF assms(1)] by auto
  let ?s = "(start_section spawn s)\<lparr>sv_lifecycle := [TReturn]\<rparr>"
  show ?thesis
  proof (cases spawn)
    case None
    with False have s: "sv_children ?s = sv_children s" "sv_proc ?s = sv_proc s" "sv_state ?s = Starting"
      "sv_closing ?s = sv_closing s" "sv_closer ?s = []"
      using closer by (simp_all add: start_section_def Let_def)
    then have "settles s ?s" by (simp add: settles_def live_def exited_def)
    with settles_same_closer [OF assms(1), of ?s] s closer show ?thesis by simp
  next
    case (Some x)
    then obtain pid time where x: "spawn = Some (pid, time)" by (cases x) simp
    have "live ?s g \<Longrightarrow> g = length (sv_children s)" for g
      using live_start [of spawn s g] none by (auto simp: none_live_def)
    moreover have "sv_proc ?s = Some (length (sv_children s))" "sv_closing ?s = False" "sv_closer ?s = []"
      "sv_state ?s = Running" "length (sv_children ?s) = Suc (length (sv_children s))"
      using False x closer by (simp_all add: start_section_def Let_def)
    ultimately show ?thesis unfolding sup_inv_def by auto
  qed
qed


subsection \<open>Every step keeps the invariant\<close>

lemma lifecycle_step_inv:
  assumes "sup_inv s" "sv_lifecycle s = t # ts" "run_task spawn timed_out t s = Some (ts', s')"
  shows "sup_inv (s'\<lparr>sv_lifecycle := ts' @ ts\<rparr>)"
proof (cases "t = TStart")
  case True
  moreover from this have "ts = [TReturn]" using inv_lifecycle [OF assms(1)] assms(2) by simp
  ultimately show ?thesis using start_section_inv [OF assms(1)] assms by auto
next
  case False
  have ok: "thread_ok s (t # ts)" using inv_lifecycle [OF assms(1)] assms(2) by simp
  have r: "settles s s'" "sv_closer s' = sv_closer s" using run_task_settles [OF assms(1) ok False assms(3)] by simp_all
  then have "settles s (s'\<lparr>sv_lifecycle := ts' @ ts\<rparr>)" by (simp add: settles_def)
  moreover have "thread_ok (s'\<lparr>sv_lifecycle := ts' @ ts\<rparr>) (ts' @ ts)"
    by (rule thread_ok_mono [OF run_task_thread [OF assms(1) ok assms(3)]]) simp
  ultimately show ?thesis using settles_same_closer [OF assms(1)] r by simp
qed

text \<open>When the closing thread's \<open>stop\<close> is over, no child is left.\<close>

lemma closer_done_none_live:
  assumes "sup_inv s" "sv_closer s = t # ts" "run_task None timed_out t s = Some (ts', s')"
    and "ts' @ ts \<in> {[], [TReturn]}"
  shows "none_live s"
proof (cases t)
  case TStop
  have "\<not> proc_live s"
  proof
    assume "proc_live s"
    with TStop assms(3) have "TStopEnd \<in> set ts'" by (auto simp: stop_section_def proc_live_def split: option.splits if_splits)
    with assms(4) show False by (auto simp: append_eq_Cons_conv)
  qed
  then show ?thesis by (rule sup_inv_not_live [OF assms(1)])
next
  case TReturn
  then have "sv_closer s = [TReturn]" using inv_closer [OF assms(1)] assms(2) by simp
  with inv_closed [OF assms(1)] inv_closing [OF assms(1)] show ?thesis by simp
next
  case TStart
  with assms(2) inv_closer_start [OF assms(1)] show ?thesis by simp
qed (use inv_closer [OF assms(1)] assms(2-4) in \<open>auto split: if_splits\<close>)

lemma closer_step_inv:
  assumes "sup_inv s" "sv_closer s = t # ts" "run_task None timed_out t s = Some (ts', s')"
  shows "sup_inv (s'\<lparr>sv_closer := ts' @ ts\<rparr>)"
proof -
  let ?s = "s'\<lparr>sv_closer := ts' @ ts\<rparr>"
  have ok: "thread_ok s (t # ts)" and t: "t \<noteq> TStart" "TStart \<notin> set ts"
    using inv_closer [OF assms(1)] inv_closer_start [OF assms(1)] assms(2) by auto
  have r: "settles s s'" "sv_lifecycle s' = sv_lifecycle s" using run_task_settles [OF assms(1) ok t(1) assms(3)] by simp_all
  then have set: "settles s ?s" by (simp add: settles_def)
  show ?thesis
  proof (rule settles_inv [OF assms(1) set])
    have "sv_lifecycle ?s = sv_lifecycle s" using r(2) by simp
    then show "thread_ok ?s (sv_lifecycle ?s)"
      by (simp only:) (rule thread_ok_mono [OF inv_lifecycle [OF assms(1)] settles_down [OF set]])
    show "thread_ok ?s (sv_closer ?s)"
      using thread_ok_mono [OF run_task_thread [OF assms(1) ok assms(3)], of ?s] by simp
    show "TStart \<notin> set (sv_closer ?s)"
      using t assms(3) by (cases t) (auto simp: stop_section_def split: if_splits option.splits)
    show "sv_closing s" using inv_closing [OF assms(1)] assms(2) by simp
    show "sv_closer ?s \<in> {[], [TReturn]} \<Longrightarrow> none_live s"
      using closer_done_none_live [OF assms] by simp
  qed
qed

lemma request_inv:
  assumes "sup_inv s" "request_start s = Inr s' \<or> request_stop s = Inr s' \<or> request_restart s = Inr s'"
  shows "sup_inv s'"
proof -
  have same: "sup_inv (clear_proc s)" if "\<not> proc_live s"
    using settles_same_threads [OF assms(1), of "clear_proc s"] sup_inv_not_live [OF assms(1) that]
    by (simp add: settles_def) (simp add: clear_proc_def)
  have go: "sup_inv (s\<lparr>sv_state := st, sv_lifecycle := ts\<rparr>)"
    if "st \<in> {Starting, Stopping}" "ts \<in> rests \<union> {TStop # r | r. r \<in> rests}" for st ts
  proof (rule settles_same_closer [OF assms(1)])
    show "settles s (s\<lparr>sv_state := st, sv_lifecycle := ts\<rparr>)" using that by (auto simp: settles_def)
    show "thread_ok (s\<lparr>sv_state := st, sv_lifecycle := ts\<rparr>) (sv_lifecycle (s\<lparr>sv_state := st, sv_lifecycle := ts\<rparr>))"
      using that by auto
  qed simp
  from assms(2) show ?thesis
    using go same assms(1)
    by (elim disjE) (auto simp: request_start_def request_stop_def request_restart_def split: option.splits if_splits)
qed


lemma quiet_settles:
  shows "settles s (snd (status s))" and "settles s (reader_line n h l s)"
    and "settles s (reader_eof h s)" and "settles s (child_exit h s)"
proof -
  show "settles s (snd (status s))" by (simp add: settles_def refresh_crash_state)
  show "settles s (reader_line n h l s)" by (simp add: settles_def) (simp add: reader_line_def Let_def)
  show "settles s (reader_eof h s)" by (simp add: settles_def) (simp add: reader_eof_def Let_def)
  show "settles s (child_exit h s)" by (simp add: settles_def) (simp add: child_exit_def)
qed

lemma close_section_inv:
  assumes "sup_inv s" "\<not> sv_closing s"
  shows "sup_inv (close_section s)"
proof -
  have "thread_ok (close_section s) (sv_lifecycle s)"
    by (rule thread_ok_mono [OF inv_lifecycle [OF assms(1)]]) (simp add: close_section_def)
  moreover have "live (close_section s) h = live s h" "none_live (close_section s) = none_live s" for h
    by (simp_all add: close_section_def none_live_def)
  ultimately show ?thesis
    unfolding sup_inv_def using sup_invD [OF assms(1)]
    by (auto simp: close_section_def)
qed

lemma sup_step_inv: "sup_step fails n s s' \<Longrightarrow> sup_inv s \<Longrightarrow> sup_inv s'"
proof (induction rule: sup_step.induct)
  case (ask_status s)
  then show ?case using settles_same_threads [OF _ quiet_settles(1)] by simp
next
  case (exits h s)
  then show ?case using settles_same_threads [OF _ quiet_settles(4)] by (simp add: child_exit_def)
next
  case (line h s l)
  then show ?case using settles_same_threads [OF _ quiet_settles(2)] by (simp add: reader_line_def Let_def)
next
  case (eof h s)
  then show ?case using settles_same_threads [OF _ quiet_settles(3)] by (simp add: reader_eof_def Let_def)
qed (use request_inv close_section_inv lifecycle_step_inv closer_step_inv in blast)+

lemma reachable_inv: "reachable fails n s \<Longrightarrow> sup_inv s"
proof (induction rule: reachable.induct)
  case init
  show ?case by (simp add: sup_inv_def new_supervisor_def live_def none_live_def)
qed (rule sup_step_inv)


subsection \<open>Transient states are backed by a thread\<close>

definition stops :: "task list \<Rightarrow> bool" where
  "stops ts \<longleftrightarrow> TStop \<in> set ts \<or> TStopEnd \<in> set ts"

definition backed :: "supervisor \<Rightarrow> bool" where
  "backed s \<longleftrightarrow>
     (sv_state s = Starting \<longrightarrow> TStart \<in> set (sv_lifecycle s) \<and> \<not> sv_closing s \<or> TStop \<in> set (sv_closer s)) \<and>
     (sv_state s = Stopping \<longrightarrow> stops (sv_lifecycle s) \<or> stops (sv_closer s)) \<and>
     (stops (sv_lifecycle s) \<or> TStopEnd \<in> set (sv_closer s) \<longrightarrow> sv_state s \<in> {Stopping, Stopped}) \<and>
     (sv_lifecycle s = [TStart, TReturn] \<longrightarrow> none_live s)"

lemma stop_section_cases:
  obtains h where "proc_live s" "sv_proc s = Some h" "stop_section s = ([TTerm h, TWait h, TStopEnd], s\<lparr>sv_state := Stopping\<rparr>)"
  | "\<not> proc_live s" "stop_section s = ([], clear_proc s)"
  by (cases "sv_proc s") (auto simp: stop_section_def proc_live_def split: if_splits)

text \<open>Tasks other than \<open>start\<close> and the two that change the state leave the supervisor alone.\<close>

lemma run_task_quiet:
  assumes "t \<notin> {TStart, TStop, TStopEnd}" "run_task spawn timed_out t s = Some (ts', s')" "thread_ok s (t # ts)"
  shows "s' = s \<and> (TStop \<in> set (ts' @ ts) \<longleftrightarrow> TStop \<in> set (t # ts)) \<and> (TStopEnd \<in> set (ts' @ ts) \<longleftrightarrow> TStopEnd \<in> set (t # ts)) \<and>
    (TStart \<in> set (ts' @ ts) \<longleftrightarrow> TStart \<in> set (t # ts)) \<and> ts' @ ts \<noteq> [TStart, TReturn]"
  using assms by (cases t) (auto split: if_splits)

lemma backed_lifecycle:
  assumes inv: "sup_inv s" and b: "backed s" and L: "sv_lifecycle s = t # ts"
    and run: "run_task spawn timed_out t s = Some (ts', s')" and spawn: "spawn \<noteq> None"
  shows "backed (s'\<lparr>sv_lifecycle := ts' @ ts\<rparr>)"
proof -
  have ok: "thread_ok s (t # ts)" using inv_lifecycle [OF inv] L by simp
  consider "t = TStart" | "t = TStop" | "t = TStopEnd" | "t \<notin> {TStart, TStop, TStopEnd}" by blast
  then show ?thesis
  proof cases
    case 1
    then have "ts = [TReturn]" "ts' = []" "s' = start_section spawn s" using ok run by simp_all
    moreover have "none_live s" using b L 1 \<open>ts = [TReturn]\<close> by (simp add: backed_def)
    then have "\<not> proc_live s"
      using inv_handle [OF inv] by (auto simp: proc_live_def none_live_def live_def split: option.splits)
    moreover obtain x where "spawn = Some x" using spawn by blast
    moreover have "\<not> sv_closing s \<Longrightarrow> sv_closer s = []" using inv_closing [OF inv] by blast
    ultimately show ?thesis
      using b L 1
      by (cases "sv_closing s"; cases x) (simp_all add: backed_def start_section_def stops_def none_live_def Let_def)
  next
    case 2
    then have ts: "ts \<in> rests" using ok by simp
    show ?thesis
    proof (cases rule: stop_section_cases [of s])
      case (1 h)
      then have "ts' = [TTerm h, TWait h, TStopEnd]" "s' = s\<lparr>sv_state := Stopping\<rparr>" using run 2 by simp_all
      then show ?thesis using b by (simp add: backed_def stops_def)
    next
      case 3: 2
      then have "ts' = []" "s' = clear_proc s" using run 2 by simp_all
      moreover have "none_live s" by (rule sup_inv_not_live [OF inv 3(1)])
      ultimately show ?thesis by (simp add: backed_def none_live_def) (simp add: clear_proc_def)
    qed
  next
    case 3
    then have ts: "ts \<in> rests" "none_live s" using ok by simp_all
    moreover have "ts' = []" "s' = clear_proc s" using run 3 by simp_all
    ultimately show ?thesis by (simp add: backed_def none_live_def) (simp add: clear_proc_def)
  next
    case 4
    from run_task_quiet [OF this run ok] b L show ?thesis by (simp add: backed_def stops_def)
  qed
qed

lemma backed_closer:
  assumes inv: "sup_inv s" and b: "backed s" and C: "sv_closer s = t # ts"
    and run: "run_task None timed_out t s = Some (ts', s')"
  shows "backed (s'\<lparr>sv_closer := ts' @ ts\<rparr>)"
proof -
  have ok: "thread_ok s (t # ts)" and t: "t \<noteq> TStart" "TStart \<notin> set ts" and cl: "sv_closing s"
    using inv_closer [OF inv] inv_closer_start [OF inv] inv_closing [OF inv] C by auto
  consider "t = TStop" | "t = TStopEnd" | "t \<notin> {TStart, TStop, TStopEnd}" using t by blast
  then show ?thesis
  proof cases
    case 1
    then have ts: "ts \<in> rests" using ok by simp
    show ?thesis
    proof (cases rule: stop_section_cases [of s])
      case (1 h)
      then have "ts' = [TTerm h, TWait h, TStopEnd]" "s' = s\<lparr>sv_state := Stopping\<rparr>" using run \<open>t = TStop\<close> by simp_all
      then show ?thesis using b by (simp add: backed_def stops_def none_live_def)
    next
      case 2
      then have "ts' = []" "s' = clear_proc s" using run \<open>t = TStop\<close> by simp_all
      then show ?thesis using sup_inv_not_live [OF inv 2(1)] by (simp add: backed_def none_live_def) (simp add: clear_proc_def)
    qed
  next
    case 2
    then have "none_live s" "ts' = []" "s' = clear_proc s" using ok run by simp_all
    then show ?thesis by (simp add: backed_def none_live_def) (simp add: clear_proc_def)
  next
    case 3
    from run_task_quiet [OF this run ok] b C cl show ?thesis by (simp add: backed_def stops_def none_live_def)
  qed
qed


lemma backed_request:
  assumes inv: "sup_inv s" and b: "backed s"
    and r: "request_start s = Inr s' \<or> request_stop s = Inr s' \<or> request_restart s = Inr s'"
  shows "backed s'"
proof -
  have idle: "sv_lifecycle s = []" "\<not> sv_closing s" "sv_closer s = []"
    using r inv_closing [OF inv]
    by (auto simp: request_start_def request_stop_def request_restart_def admit_lifecycle_request_def split: if_splits)
  then have admit: "admit_lifecycle_request s = None" by (simp add: admit_lifecycle_request_def)
  consider "s' = s" | "\<not> proc_live s" "s' = s\<lparr>sv_state := Starting, sv_lifecycle := [TStart, TReturn]\<rparr>"
    | "s' = clear_proc s" | ts where "s' = s\<lparr>sv_state := Stopping, sv_lifecycle := TStop # ts\<rparr>"
    using r by (auto simp: request_start_def request_stop_def request_restart_def admit split: if_splits)
  then show ?thesis
  proof cases
    case 2
    with sup_inv_not_live [OF inv] idle show ?thesis by (simp add: backed_def stops_def none_live_def)
  qed (use b idle in \<open>simp_all add: backed_def stops_def clear_proc_def\<close>)
qed

lemma backed_quiet:
  assumes "backed s" "sv_lifecycle s' = sv_lifecycle s" "sv_closer s' = sv_closer s" "sv_closing s' = sv_closing s"
    and "\<And>g. live s' g \<Longrightarrow> live s g" "sv_state s' = sv_state s \<or> sv_state s = Running \<and> sv_state s' = Crashed"
  shows "backed s'"
proof -
  have none: "none_live s \<Longrightarrow> none_live s'" using assms(5) by (auto simp: none_live_def)
  show ?thesis
    using assms(6)
  proof
    assume "sv_state s' = sv_state s"
    with assms(1) none show ?thesis unfolding backed_def assms(2-4) by simp
  next
    assume "sv_state s = Running \<and> sv_state s' = Crashed"
    with assms(1) none show ?thesis unfolding backed_def assms(2-4) by simp
  qed
qed

lemma backed_close:
  assumes "sup_inv s" "backed s" "\<not> sv_closing s"
  shows "backed (close_section s)"
proof -
  have "sv_closer s = []" using inv_closing [OF assms(1)] assms(3) by blast
  then show ?thesis using assms(2) by (simp add: backed_def close_section_def none_live_def stops_def)
qed

lemma backed_step: "sup_step fails n s s' \<Longrightarrow> \<not> fails \<Longrightarrow> sup_inv s \<Longrightarrow> backed s \<Longrightarrow> backed s'"
proof (induction rule: sup_step.induct)
  case (ask_status s)
  have "sv_state (refresh_crash s) = sv_state s \<or> sv_state s = Running \<and> sv_state (refresh_crash s) = Crashed"
    by (simp add: refresh_crash_state)
  then show ?case using backed_quiet [OF ask_status(3), of "refresh_crash s"] by simp
next
  case (exits h s)
  from exits(4) show ?case by (rule backed_quiet) (simp_all, simp_all add: child_exit_def)
next
  case (line h s l)
  from line(5) show ?case by (rule backed_quiet) (simp_all, simp_all add: reader_line_def Let_def)
next
  case (eof h s)
  from eof(5) show ?case by (rule backed_quiet) (simp_all, simp_all add: reader_eof_def Let_def)
qed (use backed_request backed_close backed_lifecycle backed_closer in blast)+

lemma reachable_backed: "reachable False n s \<Longrightarrow> backed s"
proof (induction rule: reachable.induct)
  case init
  show ?case by (simp add: backed_def new_supervisor_def stops_def)
next
  case (step s s')
  then show ?case using backed_step reachable_inv by blast
qed


subsection \<open>Closing makes progress\<close>

fun weight :: "task \<Rightarrow> nat" where
  "weight TStop = 7"
| "weight (TWait h) = 4"
| "weight t = 1"

definition close_work :: "supervisor \<Rightarrow> nat" where
  "close_work s = sum_list (map weight (sv_closer s)) + length (filter (\<lambda>c. \<not> ch_exited c) (sv_children s))"

lemma weight_pos: "0 < weight t"
  by (cases t) auto

lemma run_task_weight:
  assumes "t \<noteq> TStart" "run_task spawn timed_out t s = Some (ts', s')"
  shows "sum_list (map weight ts') < weight t \<and> sv_children s' = sv_children s \<and> sv_closer s' = sv_closer s"
  using assms
  by (cases t) (auto simp: stop_section_def clear_proc_def split: if_splits option.splits)

lemma filter_update_less:
  "h < length xs \<Longrightarrow> P (xs ! h) \<Longrightarrow> \<not> P y \<Longrightarrow> length (filter P (xs[h := y])) < length (filter P xs)"
proof (induction xs arbitrary: h)
  case (Cons x xs)
  then show ?case
  proof (cases h)
    case (Suc k)
    with Cons.IH [of k] Cons.prems show ?thesis by simp
  qed simp
qed simp

lemma filter_update_le:
  "\<not> P y \<or> P (xs ! h) \<Longrightarrow> length (filter P (xs[h := y])) \<le> length (filter P xs)"
proof (induction xs arbitrary: h)
  case (Cons x xs)
  from Cons.IH [of "h - 1"] Cons.prems show ?case by (cases h) (auto split: if_splits)
qed simp


lemma close_work_step:
  assumes "sup_step fails n s s'" "sup_inv s" "sv_closing s"
  shows "close_work s' \<le> close_work s"
  using assms
proof (induction rule: sup_step.induct)
  case (lifecycle s t ts spawn timed_out ts' s')
  have "sv_children s' = sv_children s \<and> sv_closer s' = sv_closer s"
  proof (cases "t = TStart")
    case True
    with lifecycle show ?thesis by (auto simp: start_section_def)
  next
    case False
    with run_task_weight lifecycle(2) show ?thesis by blast
  qed
  then show ?case by (simp add: close_work_def)
next
  case (closer s t ts timed_out ts' s')
  then have "t \<noteq> TStart" using inv_closer_start by fastforce
  with run_task_weight [OF _ closer(2)] closer(1) show ?case by (fastforce simp: close_work_def)
next
  case (exits h s)
  then show ?case
    using filter_update_le [of "\<lambda>c. \<not> ch_exited c" "(sv_children s ! h)\<lparr>ch_exited := True\<rparr>" "sv_children s" h]
    by (simp add: close_work_def child_exit_def)
next
  case (eof h s)
  then show ?case
    using filter_update_le [of "\<lambda>c. \<not> ch_exited c" "(sv_children s ! h)\<lparr>ch_reader_done := True\<rparr>" "sv_children s" h]
    by (simp add: close_work_def reader_eof_def Let_def)
qed (auto simp: close_work_def request_start_def request_stop_def request_restart_def admit_lifecycle_request_def
    status_def reader_line_def Let_def)

lemma close_work_progress:
  assumes "sup_inv s" "sv_closer s = t # ts" "\<And>h. t = TReap h \<Longrightarrow> h < length (sv_children s)"
  shows "\<exists>s'. sup_step fails n s s' \<and> close_work s' < close_work s"
proof (cases "run_task None True t s")
  case None
  then obtain h where h: "t = TReap h" "\<not> exited s h" by (cases t) (auto split: if_splits)
  with assms(3) have "close_work (child_exit h s) < close_work s"
    using filter_update_less [of h "sv_children s" "\<lambda>c. \<not> ch_exited c"]
    by (simp add: close_work_def child_exit_def exited_def)
  with h(1) assms(3) sup_step.exits show ?thesis by blast
next
  case (Some r)
  then obtain ts' s' where r: "run_task None True t s = Some (ts', s')" by (cases r) simp
  have "t \<noteq> TStart" using inv_closer_start [OF assms(1)] assms(2) by auto
  from run_task_weight [OF this r] assms(2)
  have "close_work (s'\<lparr>sv_closer := ts' @ ts\<rparr>) < close_work s" by (simp add: close_work_def)
  with sup_step.closer [OF assms(2) r] show ?thesis by blast
qed


fun handle :: "task \<Rightarrow> nat set" where
  "handle (TTerm h) = {h}"
| "handle (TWait h) = {h}"
| "handle (TKill h) = {h}"
| "handle (TReap h) = {h}"
| "handle t = {}"

definition handles_ok :: "supervisor \<Rightarrow> bool" where
  "handles_ok s \<longleftrightarrow> (\<forall>t \<in> set (sv_closer s). \<forall>h \<in> handle t. h < length (sv_children s))"

lemma run_task_handles:
  assumes "run_task spawn timed_out t s = Some (ts', s')" "sup_inv s"
  shows "length (sv_children s) \<le> length (sv_children s') \<and> sv_closer s' = sv_closer s \<and>
    (\<forall>t' \<in> set ts'. \<forall>h \<in> handle t'. h \<in> handle t \<or> h < length (sv_children s))"
proof (cases t)
  case TStop
  show ?thesis
    by (cases rule: stop_section_cases [of s])
      (use assms TStop inv_handle [OF assms(2)] in \<open>auto simp: clear_proc_def\<close>)
qed (use assms in \<open>auto simp: start_section_def clear_proc_def Let_def split: if_splits option.splits\<close>)

lemma handles_step: "sup_step fails n s s' \<Longrightarrow> sup_inv s \<Longrightarrow> handles_ok s \<Longrightarrow> handles_ok s'"
proof (induction rule: sup_step.induct)
  case (lifecycle s t ts spawn timed_out ts' s')
  with run_task_handles [OF lifecycle(2,4)] show ?case by (fastforce simp: handles_ok_def)
next
  case (closer s t ts timed_out ts' s')
  with run_task_handles [OF closer(2,3)] show ?case by (fastforce simp: handles_ok_def)
next
  case (req_start s s')
  then show ?case by (auto simp: request_start_def handles_ok_def split: option.splits if_splits)
next
  case (req_stop s s')
  then show ?case by (auto simp: request_stop_def clear_proc_def handles_ok_def split: option.splits if_splits)
next
  case (req_restart s s')
  then show ?case by (auto simp: request_restart_def handles_ok_def split: option.splits)
next
  case (eof h s)
  then show ?case by (simp add: reader_eof_def Let_def handles_ok_def)
qed (simp_all add: handles_ok_def close_section_def child_exit_def reader_line_def Let_def)

lemma reachable_handles: "reachable fails n s \<Longrightarrow> handles_ok s"
proof (induction rule: reachable.induct)
  case init
  show ?case by (simp add: handles_ok_def new_supervisor_def)
qed (use handles_step reachable_inv in blast)


subsection \<open>The log buffers\<close>

definition log_inv :: "nat \<Rightarrow> supervisor \<Rightarrow> bool" where
  "log_inv n s \<longleftrightarrow> length (sv_logs s) = Suc (sv_log s) \<and> (\<forall>q \<in> set (sv_logs s). length q \<le> n) \<and>
     (\<forall>i < length (sv_children s). ch_log (sv_children s ! i) \<le> sv_log s \<and>
        (Suc i < length (sv_children s) \<longrightarrow> ch_log (sv_children s ! i) < sv_log s))"

lemma log_inv_frame:
  assumes "log_inv n s" "sv_logs s' = sv_logs s" "sv_log s' = sv_log s" "map ch_log (sv_children s') = map ch_log (sv_children s)"
  shows "log_inv n s'"
proof -
  have "length (sv_children s') = length (sv_children s)" using assms(4) by (metis length_map)
  moreover from this have "i < length (sv_children s) \<Longrightarrow> ch_log (sv_children s' ! i) = ch_log (sv_children s ! i)" for i
    using assms(4) by (metis nth_map)
  ultimately show ?thesis using assms(1) unfolding log_inv_def assms(2,3) by simp
qed

lemma map_update_same: "h < length xs \<Longrightarrow> f y = f (xs ! h) \<Longrightarrow> map f (xs[h := y]) = map f xs"
  by (simp add: map_update list_update_same_conv)

lemma log_inv_start: "log_inv n s \<Longrightarrow> log_inv n (start_section spawn s)"
  by (auto simp: start_section_def log_inv_def nth_append less_Suc_eq Let_def split: option.split)

lemma log_inv_line:
  assumes "log_inv n s" "h < length (sv_children s)"
  shows "log_inv n (reader_line n h l s)"
proof -
  have "length (deque_append n l q) \<le> n" for q by (simp add: deque_append_def)
  then have "\<forall>q \<in> set (sv_logs (reader_line n h l s)). length q \<le> n"
    using assms(1) set_update_subset_insert [of "sv_logs s"]
    by (fastforce simp: log_inv_def reader_line_def Let_def)
  then show ?thesis using assms(1) by (simp add: log_inv_def) (simp add: reader_line_def Let_def)
qed

lemma run_task_logs:
  assumes "run_task spawn timed_out t s = Some (ts', s')" "log_inv n s"
  shows "log_inv n s'"
proof (cases "t = TStart")
  case False
  then have "sv_logs s' = sv_logs s" "sv_log s' = sv_log s" "sv_children s' = sv_children s"
    using assms(1) by (cases t; auto simp: stop_section_def clear_proc_def split: if_splits option.splits)+
  with log_inv_frame [OF assms(2)] show ?thesis by simp
qed (use assms log_inv_start in auto)

lemma reachable_log: "reachable fails n s \<Longrightarrow> log_inv n s"
proof (induction rule: reachable.induct)
  case init
  show ?case by (simp add: log_inv_def new_supervisor_def)
next
  case (step s s')
  from step(2,3) show ?case
  proof (induction rule: sup_step.induct)
    case (lifecycle s t ts spawn timed_out ts' s')
    from log_inv_frame [OF run_task_logs [OF lifecycle(2,4)]] show ?case by simp
  next
    case (closer s t ts timed_out ts' s')
    from log_inv_frame [OF run_task_logs [OF closer(2,3)]] show ?case by simp
  next
    case (exits h s)
    from log_inv_frame [OF exits(2)] exits(1) show ?case by (simp add: child_exit_def map_update_same)
  next
    case (eof h s)
    from log_inv_frame [OF eof(3)] eof(1) show ?case by (simp add: reader_eof_def map_update_same Let_def)
  next
    case (req_stop s s')
    then show ?case by (intro log_inv_frame [OF req_stop(2)]) (auto simp: request_stop_def clear_proc_def split: option.splits if_splits)
  next
    case (req_start s s')
    then show ?case by (intro log_inv_frame [OF req_start(2)]) (auto simp: request_start_def split: option.splits if_splits)
  next
    case (req_restart s s')
    then show ?case by (intro log_inv_frame [OF req_restart(2)]) (auto simp: request_restart_def split: option.splits)
  next
    case (start_close s)
    from log_inv_frame [OF start_close(2)] show ?case by (simp add: close_section_def)
  next
    case (ask_status s)
    from log_inv_frame [OF ask_status] show ?case by simp
  qed (simp_all add: log_inv_line)
qed

subsection \<open>Executing schedules\<close>

datatype move = ReqStart | ReqStop | ReqRestart | AskStatus | Close | Life "(int \<times> instant) option" bool
  | Closer bool | Exit nat | Line nat string | Eof nat

definition move_step :: "nat \<Rightarrow> move \<Rightarrow> supervisor \<Rightarrow> supervisor option" where
  "move_step n m s =
     (case m of
        ReqStart \<Rightarrow> (case request_start s of Inl _ \<Rightarrow> None | Inr s' \<Rightarrow> Some s')
      | ReqStop \<Rightarrow> (case request_stop s of Inl _ \<Rightarrow> None | Inr s' \<Rightarrow> Some s')
      | ReqRestart \<Rightarrow> (case request_restart s of Inl _ \<Rightarrow> None | Inr s' \<Rightarrow> Some s')
      | AskStatus \<Rightarrow> Some (snd (status s))
      | Close \<Rightarrow> if sv_closing s then None else Some (close_section s)
      | Life spawn timed_out \<Rightarrow>
          (case sv_lifecycle s of
             [] \<Rightarrow> None
           | t # ts \<Rightarrow> map_option (\<lambda>(ts', s'). s'\<lparr>sv_lifecycle := ts' @ ts\<rparr>) (run_task spawn timed_out t s))
      | Closer timed_out \<Rightarrow>
          (case sv_closer s of
             [] \<Rightarrow> None
           | t # ts \<Rightarrow> map_option (\<lambda>(ts', s'). s'\<lparr>sv_closer := ts' @ ts\<rparr>) (run_task None timed_out t s))
      | Exit h \<Rightarrow> if h < length (sv_children s) then Some (child_exit h s) else None
      | Line h l \<Rightarrow> if h < length (sv_children s) \<and> \<not> ch_reader_done (sv_children s ! h)
                    then Some (reader_line n h l s) else None
      | Eof h \<Rightarrow> if h < length (sv_children s) \<and> \<not> ch_reader_done (sv_children s ! h)
                 then Some (reader_eof h s) else None)"

fun run_moves :: "nat \<Rightarrow> move list \<Rightarrow> supervisor \<Rightarrow> supervisor option" where
  "run_moves n [] s = Some s"
| "run_moves n (m # ms) s = (case move_step n m s of None \<Rightarrow> None | Some s' \<Rightarrow> run_moves n ms s')"

definition spawns :: "move \<Rightarrow> bool" where
  "spawns m \<longleftrightarrow> (case m of Life None _ \<Rightarrow> False | _ \<Rightarrow> True)"

lemma move_step_sound: "move_step n m s = Some s' \<Longrightarrow> spawns m \<or> fails \<Longrightarrow> sup_step fails n s s'"
  by (cases m) (auto simp: move_step_def spawns_def simp del: snd_status
      intro: sup_step.intros split: sum.splits if_splits list.splits option.splits)

lemma run_moves_reachable:
  "run_moves n ms s = Some s' \<Longrightarrow> reachable fails n s \<Longrightarrow> list_all (\<lambda>m. spawns m \<or> fails) ms \<Longrightarrow> reachable fails n s'"
proof (induction ms arbitrary: s)
  case (Cons m ms)
  then obtain s1 where "move_step n m s = Some s1" "run_moves n ms s1 = Some s'" by (auto split: option.splits)
  with Cons reachable.step [OF Cons.prems(2) move_step_sound] show ?case by simp
qed simp

subsection \<open>What the supervisor guarantees\<close>

text \<open>
  C11. No child outlives the supervisor and none is lost track of: in every state any interleaving
  of requests, crashes and reader threads can reach, at most one child is alive and it is the one
  the supervisor would stop; once \<open>close()\<close> has returned none is alive, also when a restart was
  between its two halves.
\<close>

theorem no_orphaned_child:
  assumes "reachable fails n s"
  shows "(\<forall>g h. live s g \<and> live s h \<longrightarrow> g = h) \<and> (\<forall>h. live s h \<longrightarrow> sv_proc s = Some h) \<and>
    (sv_closing s \<and> sv_closer s = [] \<longrightarrow> none_live s)"
  using sup_invD(1,7) [OF reachable_inv [OF assms]] by (metis insertI1 option.inject)

text \<open>
  The reported status is honest: \<open>running\<close> names the process id of a child that is alive,
  \<open>stopped\<close> means that none is alive and reports no process id, and as long as spawning does not
  fail, \<open>starting\<close> and \<open>stopping\<close> are reported only while a thread is at work; while a stop is
  under way the child's exit is never taken for a crash.
\<close>

theorem status_is_honest:
  assumes "reachable fails n s" "status s = (st, s')"
  shows "(ss_state st = Running \<longrightarrow> (\<exists>h. live s h \<and> ss_pid st = Some (ch_pid (sv_children s ! h)))) \<and>
    (ss_state st = Stopped \<longrightarrow> none_live s \<and> ss_pid st = None) \<and>
    (\<not> fails \<and> ss_state st \<in> {Starting, Stopping} \<longrightarrow> sv_lifecycle s \<noteq> [] \<or> sv_closer s \<noteq> []) \<and>
    (\<not> fails \<and> (stops (sv_lifecycle s) \<or> TStopEnd \<in> set (sv_closer s)) \<longrightarrow> ss_state st \<in> {Stopping, Stopped})"
proof -
  note inv = reachable_inv [OF assms(1)]
  have st: "ss_state st = (if sv_state s = Running \<and> sv_proc s \<noteq> None \<and> \<not> proc_live s then Crashed else sv_state s)"
    "ss_pid st = (case sv_proc s of None \<Rightarrow> None
       | Some h \<Rightarrow> if ss_state st \<noteq> Stopped then Some (ch_pid (sv_children s ! h)) else None)"
    using assms(2) by (auto simp: status_def Let_def refresh_crash_state split: option.split)
  have "\<exists>h. live s h \<and> ss_pid st = Some (ch_pid (sv_children s ! h))" if "ss_state st = Running"
  proof -
    from that st(1) inv_running [OF inv] have "proc_live s" by (auto split: if_splits)
    then obtain h where "sv_proc s = Some h" "\<not> exited s h" by (auto simp: proc_live_def split: option.splits)
    with inv_handle [OF inv] that st(2) show ?thesis by (auto simp: live_def)
  qed
  moreover have "none_live s \<and> ss_pid st = None" if "ss_state st = Stopped"
    using that st inv_stopped [OF inv] by (auto split: if_splits option.splits)
  moreover have "sv_lifecycle s \<noteq> [] \<or> sv_closer s \<noteq> []" if "\<not> fails" "ss_state st \<in> {Starting, Stopping}"
  proof -
    have "backed s" using reachable_backed [of n s] assms(1) that(1) by simp
    moreover have "sv_state s \<in> {Starting, Stopping}" using that(2) st(1) by (simp split: if_splits)
    ultimately show ?thesis unfolding backed_def stops_def by fastforce
  qed
  moreover have "ss_state st \<in> {Stopping, Stopped}" if "\<not> fails" "stops (sv_lifecycle s) \<or> TStopEnd \<in> set (sv_closer s)"
  proof -
    have "backed s" using reachable_backed [of n s] assms(1) that(1) by simp
    then have "sv_state s \<in> {Stopping, Stopped}" using that(2) unfolding backed_def by blast
    then show ?thesis using st(1) by auto
  qed
  ultimately show ?thesis by blast
qed

text \<open>
  Closing ends: after \<open>close()\<close> has begun no step of any thread adds to the work it still has
  (its remaining tasks and the children alive), and as long as it has not returned some step is
  possible that reduces it; a child that ignores \<open>SIGTERM\<close> is killed.
\<close>

theorem close_terminates:
  assumes "reachable fails n s" "sv_closing s"
  shows "(\<forall>s'. sup_step fails n s s' \<longrightarrow> close_work s' \<le> close_work s) \<and>
    (sv_closer s \<noteq> [] \<longrightarrow> (\<exists>s'. sup_step fails n s s' \<and> close_work s' < close_work s))"
proof -
  note inv = reachable_inv [OF assms(1)]
  have "\<exists>s'. sup_step fails n s s' \<and> close_work s' < close_work s" if "sv_closer s \<noteq> []"
  proof -
    from that obtain t ts where c: "sv_closer s = t # ts" by (cases "sv_closer s") auto
    have "h < length (sv_children s)" if "t = TReap h" for h
      using reachable_handles [OF assms(1)] c that by (simp add: handles_ok_def)
    from close_work_progress [OF inv c this] show ?thesis by blast
  qed
  with close_work_step [OF _ inv assms(2)] show ?thesis by blast
qed


text \<open>
  The log an operator reads is the current run's: it never holds more than the configured
  number of lines, and a reader thread still draining an earlier child cannot add to it.
\<close>

theorem log_is_of_current_run:
  assumes "reachable fails n s"
  shows "length (recent_log_lines s) \<le> n \<and>
    (\<forall>h l. Suc h < length (sv_children s) \<longrightarrow> recent_log_lines (reader_line n h l s) = recent_log_lines s)"
proof -
  have inv: "length (sv_logs s) = Suc (sv_log s)" "\<forall>q \<in> set (sv_logs s). length q \<le> n"
    and older: "\<And>h. Suc h < length (sv_children s) \<Longrightarrow> ch_log (sv_children s ! h) < sv_log s"
    using reachable_log [OF assms] unfolding log_inv_def by auto
  have "recent_log_lines s \<in> set (sv_logs s)" using inv(1) by (simp add: recent_log_lines_def)
  moreover have "recent_log_lines (reader_line n h l s) = recent_log_lines s" if "Suc h < length (sv_children s)" for h l
    using older [OF that] by (simp add: recent_log_lines_def reader_line_def Let_def)
  ultimately show ?thesis using inv(2) by blast
qed

text \<open>
  A failed spawn is not reported: when \<open>Popen\<close> raises, the background thread dies with the
  state still \<open>starting\<close>, and the status says \<open>starting\<close> although no thread is at work and no
  child exists.
\<close>

theorem failed_spawn_reports_starting:
  "\<exists>s. reachable True n s \<and> sv_lifecycle s = [] \<and> sv_closer s = [] \<and> none_live s \<and> ss_state (fst (status s)) = Starting"
proof -
  let ?s = "new_supervisor\<lparr>sv_state := Starting, sv_logs := [[], []], sv_log := 1\<rparr>"
  have "run_moves n [ReqStart, Life None False, Life None False] new_supervisor = Some ?s"
    by (simp add: move_step_def request_start_def admit_lifecycle_request_def new_supervisor_def proc_live_def start_section_def)
  from run_moves_reachable [OF this reachable.init, of True] have "reachable True n ?s" by simp
  moreover have "none_live ?s" "ss_state (fst (status ?s)) = Starting"
    by (simp_all add: none_live_def live_def new_supervisor_def status_def refresh_crash_def)
  ultimately show ?thesis by (auto simp: new_supervisor_def)
qed

subsection \<open>Schedules the properties apply to\<close>

text \<open>Two restarts' worth of children: the first crashes, the second runs and is being closed.\<close>

definition sample_moves :: "move list" where
  "sample_moves = [ReqStart, Life (Some (41, 5)) False, Life (Some (0, 0)) False, Line 0 ''up'', Exit 0, AskStatus,
     ReqStart, Life (Some (42, 9)) False, Life (Some (0, 0)) False, Line 1 ''again'']"

definition sample_sup :: supervisor where
  "sample_sup = (case run_moves 2 sample_moves new_supervisor of Some s \<Rightarrow> s | None \<Rightarrow> new_supervisor)"

definition sample_closed :: supervisor where
  "sample_closed = (case run_moves 2 (sample_moves @ [ReqRestart, Close, Closer False, Closer False, Closer True]) new_supervisor of
     Some s \<Rightarrow> s | None \<Rightarrow> new_supervisor)"

lemma sample_reachable: "reachable False 2 sample_sup" "reachable False 2 sample_closed"
proof -
  have "run_moves 2 sample_moves new_supervisor = Some sample_sup" by code_simp
  then show "reachable False 2 sample_sup"
    by (rule run_moves_reachable [OF _ reachable.init]) code_simp
  have "run_moves 2 (sample_moves @ [ReqRestart, Close, Closer False, Closer False, Closer True]) new_supervisor = Some sample_closed"
    by code_simp
  then show "reachable False 2 sample_closed"
    by (rule run_moves_reachable [OF _ reachable.init]) code_simp
qed

theorem no_orphaned_child_witness: "sv_proc sample_sup = Some 1"
proof -
  have "live sample_sup 1" by code_simp
  with no_orphaned_child [OF sample_reachable(1)] show ?thesis by blast
qed

theorem status_is_honest_witness:
  "\<exists>h. live sample_sup h \<and> ss_pid (fst (status sample_sup)) = Some (ch_pid (sv_children sample_sup ! h))"
proof -
  have "ss_state (fst (status sample_sup)) = Running" by code_simp
  with status_is_honest [OF sample_reachable(1) prod.collapse [symmetric]] show ?thesis by blast
qed

theorem close_terminates_witness:
  "\<exists>s'. sup_step False 2 sample_closed s' \<and> close_work s' < close_work sample_closed"
proof -
  have "sv_closing sample_closed" "sv_closer sample_closed \<noteq> []" by code_simp+
  with close_terminates [OF sample_reachable(2)] show ?thesis by blast
qed

theorem log_is_of_current_run_witness:
  "recent_log_lines (reader_line 2 0 ''late'' sample_sup) = recent_log_lines sample_sup"
proof -
  have "Suc 0 < length (sv_children sample_sup)" by code_simp
  with log_is_of_current_run [OF sample_reachable(1)] show ?thesis by blast
qed

end
