(* ===== verification/QueryLang.thy ===== *)
theory QueryLang
  imports PyStr
begin

text \<open>
  The search query language (\<open>search/query.py\<close>), the two composers that write it
  (\<open>api/search.py\<close>, \<open>cli_search_query.py\<close>), the ACL clamp of \<open>search/searcher.py\<close> and the SQL
  filter of \<open>search/arms.py\<close>.

  A Python string is the list of its code points, surrogates included. What needs the Unicode
  database (\<open>lower\<close>, \<open>isalnum\<close>, the decimal digits) is the record \<open>unidata\<close>; PostgreSQL's
  \<open>ILIKE\<close> and the file-name match are parameters of the filter.
\<close>

subsection \<open>Code-point strings\<close>

type_synonym utext = "nat list"

definition lit :: "string \<Rightarrow> utext" where "lit s = map of_char s"

record unidata =
  u_lower :: "utext \<Rightarrow> utext"
  u_alnum :: "nat \<Rightarrow> bool"
  u_digit :: "nat \<Rightarrow> nat option"

definition dq :: nat where "dq = 34"
definition colon :: nat where "colon = 58"
definition dash :: nat where "dash = 45"

text \<open>\<open>str.isspace\<close>.\<close>

definition uspace :: "nat \<Rightarrow> bool" where
  "uspace c \<longleftrightarrow> 9 \<le> c \<and> c \<le> 13 \<or> 28 \<le> c \<and> c \<le> 32 \<or> c = 133 \<or> c = 160 \<or> c = 5760 \<or>
     8192 \<le> c \<and> c \<le> 8202 \<or> c = 8232 \<or> c = 8233 \<or> c = 8239 \<or> c = 8287 \<or> c = 12288"

definition ustrip :: "utext \<Rightarrow> utext" where
  "ustrip s = rev (dropWhile uspace (rev (dropWhile uspace s)))"

definition strip_dashes :: "utext \<Rightarrow> utext" where
  "strip_dashes s = rev (dropWhile (\<lambda>c. c = dash) (rev (dropWhile (\<lambda>c. c = dash) s)))"

definition surrogate :: "nat \<Rightarrow> bool" where "surrogate c \<longleftrightarrow> 55296 \<le> c \<and> c \<le> 57343"

fun join :: "utext list \<Rightarrow> utext" where
  "join [] = []"
| "join [w] = w"
| "join (w # ws) = w @ 32 # join ws"

definition ascii_digit :: "nat \<Rightarrow> bool" where "ascii_digit c \<longleftrightarrow> 48 \<le> c \<and> c \<le> 57"

definition digits_int :: "utext \<Rightarrow> int option" where
  "digits_int s =
     (if s = [] \<or> \<not> list_all ascii_digit s \<or> max_str_digits < length s then None
      else Some (fold (\<lambda>c n. n * 10 + (int c - 48)) s 0))"

subsection \<open>Parsed queries\<close>

type_synonym date = "nat \<times> nat \<times> nat"

record search_filters =
  account_names :: "utext list"
  sf_accounts :: "int list"
  account_ids :: "int list"
  folders :: "utext list"
  folder_ids :: "int list"
  from_substr :: "utext option"
  to_substr :: "utext option"
  subject_substr :: "utext option"
  after :: "date option"
  before :: "date option"
  has_attachment :: "bool option"
  label :: "utext option"
  languages :: "utext list"
  attachment_name_substr :: "utext option"

record parsed_query =
  pq_free_text :: utext
  pq_filters :: search_filters

datatype query_error = EmptyValue utext | BadId utext | BadDate utext | BadHas utext | HasConflict | Unstorable utext

definition empty_filters :: search_filters where
  "empty_filters = \<lparr>account_names = [], sf_accounts = [], account_ids = [], folders = [], folder_ids = [],
     from_substr = None, to_substr = None, subject_substr = None, after = None, before = None,
     has_attachment = None, label = None, languages = [], attachment_name_substr = None\<rparr>"

subsection \<open>The tokenizer\<close>

text \<open>\<open>_tokenize\<close>: inside a quote or not, the token so far without and with its quotes, the rest.\<close>

definition emit :: "utext \<Rightarrow> utext \<Rightarrow> (utext \<times> utext) list" where
  "emit buf raw = (if buf = [] then [] else [(buf, raw)])"

fun tokens :: "bool \<Rightarrow> utext \<Rightarrow> utext \<Rightarrow> utext \<Rightarrow> (utext \<times> utext) list" where
  "tokens quoted buf raw [] = emit buf raw"
| "tokens quoted buf raw (c # cs) =
     (if quoted then
        if c = dq then tokens False buf (raw @ [c]) cs
        else tokens True (buf @ [c]) (raw @ [c]) cs
      else if c = dq then tokens True buf (raw @ [c]) cs
      else if uspace c then emit buf raw @ tokens False [] [] cs
      else tokens False (buf @ [c]) (raw @ [c]) cs)"

definition tokenize :: "utext \<Rightarrow> (utext \<times> utext) list" where
  "tokenize s = tokens False [] [] s"

definition is_or :: "unidata \<Rightarrow> utext \<Rightarrow> bool" where
  "is_or u raw \<longleftrightarrow> u_lower u raw = lit ''or''"

definition is_exclusion :: "utext \<Rightarrow> bool" where
  "is_exclusion raw \<longleftrightarrow> take 1 raw = [dash] \<and> take 2 raw \<noteq> [dash, dash]"

definition semantic_text :: "unidata \<Rightarrow> utext \<Rightarrow> utext" where
  "semantic_text u free_text =
     join (map fst (filter (\<lambda>(t, raw). t \<noteq> [] \<and> \<not> is_or u raw \<and> \<not> is_exclusion raw) (tokenize free_text)))"

definition excluded_text :: "unidata \<Rightarrow> utext \<Rightarrow> utext" where
  "excluded_text u free_text =
     (let ts = tokenize free_text; raws = map snd ts
      in join (map (\<lambda>i. raws ! i)
           (filter (\<lambda>i. is_exclusion (raws ! i) \<and> list_ex (u_alnum u) (fst (ts ! i)) \<and>
                        \<not> (i > 0 \<and> is_or u (raws ! (i - 1))) \<and>
                        \<not> (i + 1 < length raws \<and> is_or u (raws ! (i + 1)))) [0..<length ts])))"

subsection \<open>Operators\<close>

definition operators :: "utext list" where
  "operators = map lit [''from'', ''to'', ''subject'', ''after'', ''before'', ''has'', ''label'', ''account'', ''folder'',
     ''account_id'', ''folder_id'', ''lang'', ''attachment_name'']"

definition fixed_shape_operators :: "utext list" where
  "fixed_shape_operators = map lit [''after'', ''before'', ''has'', ''account_id'', ''folder_id'']"

definition quoted_filter_value :: "utext \<Rightarrow> utext option" where
  "quoted_filter_value v =
     (let s = map (\<lambda>c. if c = 10 \<or> c = 13 then 32 else c) (filter (\<lambda>c. c \<noteq> dq) v)
      in if s = [] then None else Some (dq # s @ [dq]))"

definition parse_id :: "utext \<Rightarrow> utext \<Rightarrow> query_error + int" where
  "parse_id value field = (case digits_int value of Some n \<Rightarrow> Inr n | None \<Rightarrow> Inl (BadId field))"

text \<open>
  \<open>strptime(value, "%Y-%m-%d").date()\<close>: four decimal digits, then the month and day spellings
  of the directives, then the calendar.
\<close>

definition days_in_month :: "nat \<Rightarrow> nat \<Rightarrow> nat" where
  "days_in_month y m =
     (if m = 2 then (if y mod 4 = 0 \<and> (y mod 100 \<noteq> 0 \<or> y mod 400 = 0) then 29 else 28)
      else if m \<in> {4, 6, 9, 11} then 30 else 31)"

definition nonzero_digit :: "nat \<Rightarrow> bool" where "nonzero_digit c \<longleftrightarrow> 49 \<le> c \<and> c \<le> 57"

definition month_directive :: "utext \<Rightarrow> nat option" where
  "month_directive s =
     (case s of
        [a] \<Rightarrow> if nonzero_digit a then Some (a - 48) else None
      | [a, b] \<Rightarrow> if a = 49 \<and> 48 \<le> b \<and> b \<le> 50 then Some (10 + (b - 48))
                  else if a = 48 \<and> nonzero_digit b then Some (b - 48) else None
      | _ \<Rightarrow> None)"

definition day_directive :: "unidata \<Rightarrow> utext \<Rightarrow> nat option" where
  "day_directive u s =
     (case s of
        [a] \<Rightarrow> if nonzero_digit a then Some (a - 48) else None
      | [a, b] \<Rightarrow> if a = 51 \<and> (b = 48 \<or> b = 49) then Some (30 + (b - 48))
                  else if a = 49 \<or> a = 50 then map_option (\<lambda>v. 10 * (a - 48) + v) (u_digit u b)
                  else if (a = 48 \<or> a = 32) \<and> nonzero_digit b then Some (b - 48) else None
      | _ \<Rightarrow> None)"

definition year_directive :: "unidata \<Rightarrow> utext \<Rightarrow> nat option" where
  "year_directive u s =
     (case map (u_digit u) s of
        [Some a, Some b, Some c, Some d] \<Rightarrow> Some (1000 * a + 100 * b + 10 * c + d)
      | _ \<Rightarrow> None)"

definition strptime_date :: "unidata \<Rightarrow> utext \<Rightarrow> date option" where
  "strptime_date u s =
     (let y = take 4 s; rest = drop 4 s;
          m = takeWhile (\<lambda>c. c \<noteq> dash) (drop 1 rest);
          d = drop (Suc (length m)) (drop 1 rest)
      in if take 1 rest \<noteq> [dash] \<or> dash \<notin> set (drop 1 rest) then None
         else case (year_directive u y, month_directive m, day_directive u d) of
                (Some y, Some m, Some d) \<Rightarrow> if 1 \<le> y \<and> d \<le> days_in_month y m then Some (y, m, d) else None
              | _ \<Rightarrow> None)"

definition parse_date :: "unidata \<Rightarrow> utext \<Rightarrow> utext \<Rightarrow> query_error + date" where
  "parse_date u value field = (case strptime_date u value of Some d \<Rightarrow> Inr d | None \<Rightarrow> Inl (BadDate field))"

definition parse_has :: "unidata \<Rightarrow> utext \<Rightarrow> bool option \<Rightarrow> query_error + bool" where
  "parse_has u value current =
     (let key = u_lower u value
      in if key \<noteq> lit ''attachment'' \<and> key \<noteq> lit ''no-attachment'' then Inl (BadHas value)
         else let wanted = (key = lit ''attachment'')
              in if current \<noteq> None \<and> current \<noteq> Some wanted then Inl HasConflict else Inr wanted)"

definition op_of :: "utext \<Rightarrow> utext" where "op_of tok = takeWhile (\<lambda>c. c \<noteq> colon) tok"
definition value_of :: "utext \<Rightarrow> utext" where "value_of tok = drop 1 (dropWhile (\<lambda>c. c \<noteq> colon) tok)"

definition reject_unstorable :: "unidata \<Rightarrow> utext \<Rightarrow> query_error option" where
  "reject_unstorable u tok =
     (if 0 \<in> set tok \<or> list_ex surrogate tok then
        (let op = (if colon \<in> set tok then u_lower u (op_of tok) else [])
         in Some (Unstorable (if op \<in> set operators then op else lit ''query'')))
      else None)"

text \<open>The branch of \<open>parse_query\<close> for an operator with a value.\<close>

definition apply_operator :: "unidata \<Rightarrow> utext \<Rightarrow> utext \<Rightarrow> search_filters \<Rightarrow> query_error + search_filters" where
  "apply_operator u op v f =
     (if op = lit ''from'' then Inr (f\<lparr>from_substr := Some v\<rparr>)
      else if op = lit ''to'' then Inr (f\<lparr>to_substr := Some v\<rparr>)
      else if op = lit ''subject'' then Inr (f\<lparr>subject_substr := Some v\<rparr>)
      else if op = lit ''label'' then Inr (f\<lparr>label := Some v\<rparr>)
      else if op = lit ''attachment_name'' then Inr (f\<lparr>attachment_name_substr := Some v\<rparr>)
      else if op = lit ''account'' then Inr (f\<lparr>account_names := account_names f @ [v]\<rparr>)
      else if op = lit ''folder'' then Inr (f\<lparr>folders := folders f @ [v]\<rparr>)
      else if op = lit ''account_id'' then bindr (parse_id v op) (\<lambda>i. Inr (f\<lparr>account_ids := account_ids f @ [i]\<rparr>))
      else if op = lit ''folder_id'' then bindr (parse_id v op) (\<lambda>i. Inr (f\<lparr>folder_ids := folder_ids f @ [i]\<rparr>))
      else if op = lit ''after'' then bindr (parse_date u v op) (\<lambda>d. Inr (f\<lparr>after := Some d\<rparr>))
      else if op = lit ''before'' then bindr (parse_date u v op) (\<lambda>d. Inr (f\<lparr>before := Some d\<rparr>))
      else if op = lit ''has'' then bindr (parse_has u v (has_attachment f)) (\<lambda>b. Inr (f\<lparr>has_attachment := Some b\<rparr>))
      else Inr f)"

definition keep_text :: "utext \<Rightarrow> utext list \<Rightarrow> utext list" where
  "keep_text raw parts = (if strip_dashes raw = [] then parts else parts @ [raw])"

definition parse_token ::
  "unidata \<Rightarrow> utext \<times> utext \<Rightarrow> utext list \<times> search_filters \<Rightarrow> query_error + (utext list \<times> search_filters)" where
  "parse_token u tr st =
     (case tr of (tok, raw) \<Rightarrow> case st of (parts, f) \<Rightarrow>
       (case reject_unstorable u tok of
          Some e \<Rightarrow> Inl e
        | None \<Rightarrow>
            if colon \<notin> set tok then Inr (keep_text raw parts, f)
            else
              (let op = u_lower u (op_of tok); v = value_of tok
               in if op = lit ''lang'' then
                    (let n = u_lower u (ustrip v)
                     in if n = [] then Inl (EmptyValue op) else Inr (parts, f\<lparr>languages := languages f @ [n]\<rparr>))
                  else if op \<in> set fixed_shape_operators \<and> v = [] then Inl (EmptyValue op)
                  else if op \<in> set operators \<and> v \<noteq> [] then bindr (apply_operator u op v f) (\<lambda>f'. Inr (parts, f'))
                  else Inr (keep_text raw parts, f))))"

fun parse_tokens ::
  "unidata \<Rightarrow> (utext \<times> utext) list \<Rightarrow> utext list \<times> search_filters \<Rightarrow> query_error + (utext list \<times> search_filters)" where
  "parse_tokens u [] st = Inr st"
| "parse_tokens u (t # ts) st = bindr (parse_token u t st) (parse_tokens u ts)"

definition parse_query :: "unidata \<Rightarrow> utext \<Rightarrow> query_error + parsed_query" where
  "parse_query u query =
     bindr (parse_tokens u (tokenize query) ([], empty_filters))
       (\<lambda>(parts, f). Inr \<lparr>pq_free_text = join parts, pq_filters = f\<rparr>)"

subsection \<open>Structured filters and the composers\<close>

text \<open>
  A filter value of the request: its truth value, whether it is a string, and its \<open>str()\<close>.
  The ids arrive as strings; \<open>lang\<close> is absent, null, one value or a list; \<open>has_attachment\<close> is
  true, false, absent or null, or something else.
\<close>

record pyval =
  pv_truthy :: bool
  pv_is_str :: bool
  pv_str :: utext

datatype lang_value = NoLang | OneLang utext | Langs "utext list"
datatype has_value = HasNull | HasBool bool | HasOther

record api_filters =
  af_unknown :: "utext list"
  af_account_ids :: "utext list"
  af_folder_ids :: "utext list"
  af_from :: "pyval option"
  af_to :: "pyval option"
  af_subject :: "pyval option"
  af_attachment_name :: "pyval option"
  af_after :: "pyval option"
  af_before :: "pyval option"
  af_date_from :: "pyval option"
  af_date_to :: "pyval option"
  af_lang :: lang_value
  af_has_attachment :: has_value

datatype validation_failed = UnknownKeys "utext list" | BadFilterValue utext

definition present :: "pyval option \<Rightarrow> pyval option" where
  "present v = (case v of Some p \<Rightarrow> if pv_truthy p then Some p else None | None \<Rightarrow> None)"

definition key_token :: "string \<Rightarrow> utext \<Rightarrow> utext" where
  "key_token key v = lit key @ colon # v"

text \<open>\<open>parse_int_id\<close> of \<open>api/ids.py\<close> accepts what \<open>digits_int\<close> does.\<close>

fun id_tokens :: "string \<Rightarrow> utext list \<Rightarrow> validation_failed + utext list" where
  "id_tokens key [] = Inr []"
| "id_tokens key (v # vs) =
     (case digits_int v of
        None \<Rightarrow> Inl (BadFilterValue (lit key))
      | Some n \<Rightarrow> bindr (id_tokens key vs) (\<lambda>ts. Inr (key_token key (lit (nat_str (nat n))) # ts)))"

definition quoted_token :: "string \<Rightarrow> pyval option \<Rightarrow> validation_failed + utext list" where
  "quoted_token key v =
     (case present v of
        None \<Rightarrow> Inr []
      | Some p \<Rightarrow> (case quoted_filter_value (pv_str p) of
                     None \<Rightarrow> Inl (BadFilterValue (lit key))
                   | Some q \<Rightarrow> Inr [key_token key q]))"

text \<open>The shape \<open>\d{4}-\d{1,2}-\d{1,2}\<close> of ASCII digits, then \<open>strptime\<close>.\<close>

definition date_shape :: "utext \<Rightarrow> bool" where
  "date_shape s =
     (let rest = drop 5 s; m = takeWhile (\<lambda>c. c \<noteq> dash) rest; d = drop (Suc (length m)) rest
      in length (take 4 s) = 4 \<and> list_all ascii_digit (take 4 s) \<and> take 1 (drop 4 s) = [dash] \<and>
         dash \<in> set rest \<and> list_all ascii_digit m \<and> list_all ascii_digit d \<and>
         length m \<in> {1, 2} \<and> length d \<in> {1, 2})"

definition date_token :: "unidata \<Rightarrow> string \<Rightarrow> string \<Rightarrow> pyval option \<Rightarrow> validation_failed + utext list" where
  "date_token u key op v =
     (case present v of
        None \<Rightarrow> Inr []
      | Some p \<Rightarrow> if pv_is_str p \<and> date_shape (pv_str p) \<and> strptime_date u (pv_str p) \<noteq> None
                  then Inr [key_token op (pv_str p)] else Inl (BadFilterValue (lit key)))"

fun lang_list :: "unidata \<Rightarrow> utext list \<Rightarrow> validation_failed + utext list" where
  "lang_list u [] = Inr []"
| "lang_list u (v # vs) =
     (let s = u_lower u (ustrip v)
      in if s = [] \<or> list_ex (\<lambda>c. uspace c \<or> c = dq \<or> c = 39) s then Inl (BadFilterValue (lit ''lang''))
         else bindr (lang_list u vs) (\<lambda>ts. Inr (key_token ''lang'' s # ts)))"

definition lang_tokens :: "unidata \<Rightarrow> lang_value \<Rightarrow> validation_failed + utext list" where
  "lang_tokens u l =
     (case l of
        NoLang \<Rightarrow> Inr []
      | OneLang v \<Rightarrow> lang_list u [v]
      | Langs vs \<Rightarrow> if vs = [] then Inl (BadFilterValue (lit ''lang'')) else lang_list u vs)"

definition has_tokens :: "has_value \<Rightarrow> validation_failed + utext list" where
  "has_tokens h =
     (case h of
        HasBool True \<Rightarrow> Inr [key_token ''has'' (lit ''attachment'')]
      | HasBool False \<Rightarrow> Inr [key_token ''has'' (lit ''no-attachment'')]
      | HasNull \<Rightarrow> Inr []
      | HasOther \<Rightarrow> Inl (BadFilterValue (lit ''has_attachment'')))"

fun concat_r :: "('e + 'a list) list \<Rightarrow> 'e + 'a list" where
  "concat_r [] = Inr []"
| "concat_r (r # rs) = bindr r (\<lambda>xs. bindr (concat_r rs) (\<lambda>ys. Inr (xs @ ys)))"

definition filter_tokens :: "unidata \<Rightarrow> api_filters \<Rightarrow> validation_failed + utext list" where
  "filter_tokens u fl =
     concat_r [id_tokens ''account_id'' (af_account_ids fl), id_tokens ''folder_id'' (af_folder_ids fl),
       quoted_token ''from'' (af_from fl), quoted_token ''to'' (af_to fl), quoted_token ''subject'' (af_subject fl),
       quoted_token ''attachment_name'' (af_attachment_name fl),
       date_token u ''after'' ''after'' (af_after fl), date_token u ''before'' ''before'' (af_before fl),
       date_token u ''date_from'' ''after'' (af_date_from fl), date_token u ''date_to'' ''before'' (af_date_to fl),
       lang_tokens u (af_lang fl), has_tokens (af_has_attachment fl)]"

definition build_query_string :: "unidata \<Rightarrow> utext \<Rightarrow> api_filters \<Rightarrow> validation_failed + utext" where
  "build_query_string u free_text fl =
     (if af_unknown fl \<noteq> [] then Inl (UnknownKeys (af_unknown fl))
      else bindr (filter_tokens u fl) (\<lambda>parts. Inr (join (parts @ (if free_text = [] then [] else [free_text])))))"

text \<open>The command line's composer; the dates arrive parsed and are written in ISO form.\<close>

record cli_filters =
  cl_accounts :: "utext list"
  cl_folders :: "utext list"
  cl_after :: "date option"
  cl_before :: "date option"
  cl_from :: utext
  cl_to :: utext
  cl_subject :: utext
  cl_has_attachment :: bool
  cl_label :: utext

definition pad :: "nat \<Rightarrow> nat \<Rightarrow> utext" where
  "pad n k = (let s = lit (nat_str k) in replicate (n - length s) 48 @ s)"

definition isoformat_date :: "date \<Rightarrow> utext" where
  "isoformat_date d = (case d of (y, m, k) \<Rightarrow> pad 4 y @ dash # pad 2 m @ dash # pad 2 k)"

fun cli_quoted :: "string \<Rightarrow> utext list \<Rightarrow> validation_failed + utext list" where
  "cli_quoted key [] = Inr []"
| "cli_quoted key (v # vs) =
     (case quoted_filter_value v of
        None \<Rightarrow> Inl (BadFilterValue (lit key))
      | Some q \<Rightarrow> bindr (cli_quoted key vs) (\<lambda>ts. Inr (key_token key q # ts)))"

definition opt_list :: "utext \<Rightarrow> utext list" where "opt_list v = (if v = [] then [] else [v])"

definition cli_tokens :: "cli_filters \<Rightarrow> validation_failed + utext list" where
  "cli_tokens cl =
     concat_r [cli_quoted ''account'' (cl_accounts cl), cli_quoted ''folder'' (cl_folders cl),
       cli_quoted ''from'' (opt_list (cl_from cl)), cli_quoted ''to'' (opt_list (cl_to cl)),
       cli_quoted ''subject'' (opt_list (cl_subject cl)),
       Inr (case cl_after cl of None \<Rightarrow> [] | Some d \<Rightarrow> [key_token ''after'' (isoformat_date d)]),
       Inr (case cl_before cl of None \<Rightarrow> [] | Some d \<Rightarrow> [key_token ''before'' (isoformat_date d)]),
       Inr (if cl_has_attachment cl then [key_token ''has'' (lit ''attachment'')] else []),
       cli_quoted ''label'' (opt_list (cl_label cl))]"

definition compose_cli_query :: "utext \<Rightarrow> cli_filters \<Rightarrow> validation_failed + utext" where
  "compose_cli_query free_text cl =
     bindr (cli_tokens cl) (\<lambda>parts. Inr (join (parts @ (if free_text = [] then [] else [free_text]))))"

subsection \<open>The access list\<close>

definition scope_filters_by_acl :: "api_filters \<Rightarrow> int list \<Rightarrow> validation_failed + api_filters option" where
  "scope_filters_by_acl fl allowed =
     (if allowed = [] then Inr None
      else if af_account_ids fl = [] then
        Inr (Some (fl\<lparr>af_account_ids := map (\<lambda>a. lit (int_str a)) (sort allowed)\<rparr>))
      else if list_ex (\<lambda>v. digits_int v = None) (af_account_ids fl) then Inl (BadFilterValue (lit ''account_id''))
      else
        (let caller = map (\<lambda>v. the (digits_int v)) (af_account_ids fl);
             both = sort (remdups (filter (\<lambda>a. a \<in> set allowed) caller))
         in if both = [] then Inr None else Inr (Some (fl\<lparr>af_account_ids := map (\<lambda>a. lit (int_str a)) both\<rparr>))))"

definition no_account_sentinel :: int where "no_account_sentinel = -1"

definition clamp_account_ids_to_acl :: "parsed_query \<Rightarrow> int list option \<Rightarrow> parsed_query" where
  "clamp_account_ids_to_acl p allowed =
     (case allowed of
        None \<Rightarrow> p
      | Some ids \<Rightarrow>
          (let current = account_ids (pq_filters p);
               clamped = (if current \<noteq> [] then sort (remdups (filter (\<lambda>a. a \<in> set ids) current))
                          else sort (remdups ids))
           in p\<lparr>pq_filters := (pq_filters p)\<lparr>account_ids := if clamped = [] then [no_account_sentinel] else clamped\<rparr>\<rparr>))"

definition resolve_account_names :: "(utext \<times> int) list \<Rightarrow> parsed_query \<Rightarrow> parsed_query" where
  "resolve_account_names accts p =
     (if account_names (pq_filters p) = [] then p
      else
        (let ids = map snd (filter (\<lambda>(n, i). n \<in> set (account_names (pq_filters p))) accts)
         in p\<lparr>pq_filters := (pq_filters p)\<lparr>sf_accounts := if ids = [] then [no_account_sentinel] else ids\<rparr>\<rparr>))"

record search_row =
  sr_account :: int
  sr_from_addr :: "utext option"
  sr_from_name :: "utext option"
  sr_to_addrs :: "utext list"
  sr_subject :: "utext option"
  sr_date_sent :: "instant option"
  sr_has_attachment :: bool
  sr_attachment_names :: "utext list"
  sr_labels :: "(int \<times> utext) list"
  sr_body_lang :: "utext option"

record filter_env =
  fe_ilike :: "utext \<Rightarrow> utext \<Rightarrow> bool"
  fe_name_contains :: "utext list \<Rightarrow> utext \<Rightarrow> bool"
  fe_midnight :: "date \<Rightarrow> instant"

text \<open>\<open>_filter_sql\<close>: which rows the composed clause admits; a NULL operand admits none.\<close>

definition ilike_opt :: "filter_env \<Rightarrow> utext option \<Rightarrow> utext \<Rightarrow> bool" where
  "ilike_opt fe col v = (case col of None \<Rightarrow> False | Some s \<Rightarrow> fe_ilike fe s (37 # v @ [37]))"

definition if_set :: "utext option \<Rightarrow> (utext \<Rightarrow> bool) \<Rightarrow> bool" where
  "if_set v P = (case v of None \<Rightarrow> True | Some s \<Rightarrow> s = [] \<or> P s)"

definition filter_sql :: "filter_env \<Rightarrow> search_filters \<Rightarrow> search_row \<Rightarrow> bool" where
  "filter_sql fe f r \<longleftrightarrow>
     (sf_accounts f \<noteq> [] \<longrightarrow> sr_account r \<in> set (sf_accounts f)) \<and>
     (account_ids f \<noteq> [] \<longrightarrow> sr_account r \<in> set (account_ids f)) \<and>
     if_set (from_substr f) (\<lambda>v. ilike_opt fe (sr_from_addr r) v \<or> ilike_opt fe (sr_from_name r) v) \<and>
     if_set (to_substr f) (\<lambda>v. list_ex (\<lambda>t. fe_ilike fe t (37 # v @ [37])) (sr_to_addrs r)) \<and>
     if_set (subject_substr f) (ilike_opt fe (sr_subject r)) \<and>
     if_set (attachment_name_substr f) (fe_name_contains fe (sr_attachment_names r)) \<and>
     (case after f of None \<Rightarrow> True | Some d \<Rightarrow> (case sr_date_sent r of None \<Rightarrow> False | Some t \<Rightarrow> t \<ge> fe_midnight fe d)) \<and>
     (case before f of None \<Rightarrow> True | Some d \<Rightarrow> (case sr_date_sent r of None \<Rightarrow> False | Some t \<Rightarrow> t < fe_midnight fe d)) \<and>
     (case has_attachment f of None \<Rightarrow> True | Some b \<Rightarrow> sr_has_attachment r = b) \<and>
     (folders f \<noteq> [] \<longrightarrow> list_ex (\<lambda>(i, n). n \<in> set (folders f)) (sr_labels r)) \<and>
     (folder_ids f \<noteq> [] \<longrightarrow> list_ex (\<lambda>(i, n). i \<in> set (folder_ids f)) (sr_labels r)) \<and>
     if_set (label f) (\<lambda>v. list_ex (\<lambda>(i, n). fe_ilike fe n v) (sr_labels r)) \<and>
     (languages f \<noteq> [] \<longrightarrow> (case sr_body_lang r of None \<Rightarrow> False | Some l \<Rightarrow> l \<in> set (languages f)))"


end
