(* ===== verification/QuerySafety.thy ===== *)
theory QuerySafety
  imports QueryLang
begin

text \<open>
  What the query language promises its composers and its callers: a composed query carries
  exactly its structured filters and the free text's own meaning, whatever the text contains,
  and no text widens the access list.

  The locale \<open>composer\<close> is the contract of a composer's parts (each is self-contained, and
  together they mean a filter record); it is interpreted on the HTTP composer and on the
  command line's.
\<close>

subsection \<open>Self-contained parts\<close>

text \<open>Read from the tokenizer's initial state, a part ends in it with no white space outside quotes.\<close>

fun closed_part :: "bool \<Rightarrow> utext \<Rightarrow> bool" where
  "closed_part q [] = (\<not> q)"
| "closed_part q (c # cs) =
     (if q then closed_part (c \<noteq> dq) cs
      else if c = dq then closed_part True cs else \<not> uspace c \<and> closed_part False cs)"

definition unquote :: "utext \<Rightarrow> utext" where "unquote p = filter (\<lambda>c. c \<noteq> dq) p"

definition part_token :: "utext \<Rightarrow> utext \<times> utext" where "part_token p = (unquote p, p)"

definition composed :: "utext list \<Rightarrow> utext \<Rightarrow> utext" where
  "composed ps ft = join (ps @ (if ft = [] then [] else [ft]))"

text \<open>What a later text adds to filters already read: lists are appended, a scalar is replaced.\<close>

definition or_else :: "'a option \<Rightarrow> 'a option \<Rightarrow> 'a option" where
  "or_else x y = (case x of None \<Rightarrow> y | Some v \<Rightarrow> Some v)"

definition overlay :: "search_filters \<Rightarrow> search_filters \<Rightarrow> search_filters" where
  "overlay f g = \<lparr>account_names = account_names f @ account_names g, sf_accounts = sf_accounts f @ sf_accounts g,
     account_ids = account_ids f @ account_ids g, folders = folders f @ folders g, folder_ids = folder_ids f @ folder_ids g,
     from_substr = or_else (from_substr g) (from_substr f), to_substr = or_else (to_substr g) (to_substr f),
     subject_substr = or_else (subject_substr g) (subject_substr f), after = or_else (after g) (after f),
     before = or_else (before g) (before f), has_attachment = or_else (has_attachment g) (has_attachment f),
     label = or_else (label g) (label f), languages = languages f @ languages g,
     attachment_name_substr = or_else (attachment_name_substr g) (attachment_name_substr f)\<rparr>"

text \<open>
  What the code relies on of the Unicode database: lowering acts on ASCII text letter by letter
  and is idempotent, and the ASCII digits have their values.
\<close>

definition ascii_lower :: "nat \<Rightarrow> nat" where "ascii_lower c = (if 65 \<le> c \<and> c \<le> 90 then c + 32 else c)"

definition unicode_laws :: "unidata \<Rightarrow> bool" where
  "unicode_laws u \<longleftrightarrow> (\<forall>s. list_all (\<lambda>c. c < 128) s \<longrightarrow> u_lower u s = map ascii_lower s) \<and>
     (\<forall>s. u_lower u (u_lower u s) = u_lower u s) \<and>
     (\<forall>c < 128. u_digit u c = (if ascii_digit c then Some (c - 48) else None))"

text \<open>Parts that are self-contained and that, read after any other, add exactly these filters.\<close>

definition reads_as :: "unidata \<Rightarrow> utext list \<Rightarrow> search_filters \<Rightarrow> bool" where
  "reads_as u ps f \<longleftrightarrow> (\<forall>p \<in> set ps. closed_part False p \<and> unquote p \<noteq> []) \<and>
     (\<forall>parts g st. parse_tokens u (map part_token ps) (parts, g) = Inr st \<longrightarrow> st = (parts, overlay g f))"

text \<open>The meaning of the structured filters.\<close>

definition clean :: "utext \<Rightarrow> utext" where
  "clean v = map (\<lambda>c. if c = 10 \<or> c = 13 then 32 else c) (unquote v)"

definition text_meaning :: "pyval option \<Rightarrow> utext option" where
  "text_meaning v = map_option (\<lambda>p. clean (pv_str p)) (present v)"

definition date_meaning :: "unidata \<Rightarrow> pyval option \<Rightarrow> date option" where
  "date_meaning u v = (case present v of None \<Rightarrow> None | Some p \<Rightarrow> strptime_date u (pv_str p))"

definition lang_meaning :: "unidata \<Rightarrow> lang_value \<Rightarrow> utext list" where
  "lang_meaning u l = map (\<lambda>v. u_lower u (ustrip v)) (case l of NoLang \<Rightarrow> [] | OneLang v \<Rightarrow> [v] | Langs vs \<Rightarrow> vs)"

definition has_meaning :: "has_value \<Rightarrow> bool option" where
  "has_meaning h = (case h of HasBool b \<Rightarrow> Some b | _ \<Rightarrow> None)"

definition api_meaning :: "unidata \<Rightarrow> api_filters \<Rightarrow> search_filters" where
  "api_meaning u fl = empty_filters\<lparr>account_ids := map (\<lambda>v. the (digits_int v)) (af_account_ids fl),
     folder_ids := map (\<lambda>v. the (digits_int v)) (af_folder_ids fl),
     from_substr := text_meaning (af_from fl), to_substr := text_meaning (af_to fl),
     subject_substr := text_meaning (af_subject fl), attachment_name_substr := text_meaning (af_attachment_name fl),
     after := or_else (date_meaning u (af_date_from fl)) (date_meaning u (af_after fl)),
     before := or_else (date_meaning u (af_date_to fl)) (date_meaning u (af_before fl)),
     languages := lang_meaning u (af_lang fl), has_attachment := has_meaning (af_has_attachment fl)\<rparr>"

definition opt_meaning :: "utext \<Rightarrow> utext option" where "opt_meaning v = (if v = [] then None else Some (clean v))"

definition cli_meaning :: "unidata \<Rightarrow> cli_filters \<Rightarrow> search_filters" where
  "cli_meaning u cl = empty_filters\<lparr>account_names := map clean (cl_accounts cl), folders := map clean (cl_folders cl),
     from_substr := opt_meaning (cl_from cl), to_substr := opt_meaning (cl_to cl), subject_substr := opt_meaning (cl_subject cl),
     after := cl_after cl, before := cl_before cl,
     has_attachment := (if cl_has_attachment cl then Some True else None), label := opt_meaning (cl_label cl)\<rparr>"

lemma or_else_simps [simp]: "or_else None y = y" "or_else (Some v) y = Some v" "or_else x None = x"
  by (simp_all add: or_else_def split: option.splits)

lemma overlay_empty [simp]: "overlay f empty_filters = f" "overlay empty_filters f = f"
  by (simp_all add: overlay_def empty_filters_def)

lemma tokens_closed_part:
  "closed_part q p \<Longrightarrow> tokens q buf raw (p @ rest) = tokens False (buf @ unquote p) (raw @ p) rest"
  by (induction q p arbitrary: buf raw rule: closed_part.induct) (auto simp: unquote_def split: if_splits)

lemma tokenize_part:
  assumes "closed_part False p" "unquote p \<noteq> []"
  shows "tokenize (p @ 32 # rest) = part_token p # tokenize rest" "tokenize p = [part_token p]"
  using tokens_closed_part [OF assms(1), of "[]" "[]" "32 # rest"] tokens_closed_part [OF assms(1), of "[]" "[]" "[]"] assms(2)
  by (simp_all add: tokenize_def part_token_def emit_def uspace_def dq_def)

lemma tokenize_composed:
  assumes "\<And>p. p \<in> set ps \<Longrightarrow> closed_part False p \<and> unquote p \<noteq> []"
  shows "tokenize (composed ps ft) = map part_token ps @ tokenize ft"
  using assms
proof (induction ps)
  case Nil
  then show ?case by (simp add: composed_def tokenize_def emit_def)
next
  case (Cons p ps)
  then have p: "closed_part False p" "unquote p \<noteq> []" by auto
  show ?case
  proof (cases "ps = [] \<and> ft = []")
    case True
    then show ?thesis using tokenize_part(2) [OF p] by (simp add: composed_def tokenize_def [of "[]"] emit_def)
  next
    case False
    then have "composed (p # ps) ft = p @ 32 # composed ps ft"
      by (cases ps) (auto simp: composed_def)
    then show ?thesis using Cons tokenize_part(1) [OF p] by simp
  qed
qed

lemma tokens_unquote: "(t, raw) \<in> set (tokens q buf r s) \<Longrightarrow> buf = unquote r \<Longrightarrow> t = unquote raw"
  by (induction q buf r s rule: tokens.induct) (auto simp: emit_def unquote_def split: if_splits)

subsection \<open>Reading from a non-empty filter record\<close>

lemma has_from_overlay:
  "parse_has u v (or_else h2 h1) = Inr b \<Longrightarrow> parse_has u v h2 = Inr b"
  by (cases h2; cases h1) (auto simp: parse_has_def Let_def split: if_splits)

lemma lit_inj [simp]: "lit a = lit b \<longleftrightarrow> a = b"
  by (auto simp: lit_def inj_map_eq_map inj_of_char)

lemma apply_other:
  "op \<notin> set (map lit [''from'', ''to'', ''subject'', ''label'', ''attachment_name'', ''account'', ''folder'',
      ''account_id'', ''folder_id'', ''after'', ''before'', ''has'']) \<Longrightarrow> apply_operator u op v f = Inr f"
  by (simp add: apply_operator_def)

lemma apply_from_overlay:
  assumes "apply_operator u op v (overlay f1 f2) = Inr g"
  shows "\<exists>g2. apply_operator u op v f2 = Inr g2 \<and> g = overlay f1 g2"
proof (cases "op \<in> set (map lit [''from'', ''to'', ''subject'', ''label'', ''attachment_name'', ''account'', ''folder'',
      ''account_id'', ''folder_id'', ''after'', ''before'', ''has''])")
  case True
  then consider (textual) "op \<in> set (map lit [''from'', ''to'', ''subject'', ''label'', ''attachment_name'', ''account'', ''folder''])"
    | (fixed) "op \<in> set (map lit [''account_id'', ''folder_id'', ''after'', ''before''])" | (has) "op = lit ''has''"
    by (simp only: list.map set_simps insert_iff empty_iff) blast
  then show ?thesis
  proof cases
    case textual
    then show ?thesis using assms
      by (simp only: list.map set_simps insert_iff empty_iff) (elim disjE; simp add: apply_operator_def; simp add: overlay_def)
  next
    case fixed
    then show ?thesis using assms
      by (simp only: list.map set_simps insert_iff empty_iff)
        (elim disjE; simp add: apply_operator_def bindr_Inr_iff; elim exE conjE; simp add: overlay_def)
  next
    case has
    from assms have "bindr (parse_has u v (or_else (has_attachment f2) (has_attachment f1)))
        (\<lambda>b. Inr (overlay f1 f2\<lparr>has_attachment := Some b\<rparr>)) = Inr g"
      by (simp add: has apply_operator_def) (simp add: overlay_def)
    then obtain b where "parse_has u v (has_attachment f2) = Inr b" "g = overlay f1 f2\<lparr>has_attachment := Some b\<rparr>"
      using has_from_overlay [of u v "has_attachment f2" "has_attachment f1"] by (auto simp: bindr_Inr_iff)
    then show ?thesis by (simp add: has apply_operator_def) (simp add: overlay_def)
  qed
next
  case False
  then show ?thesis using assms apply_other [OF False, of u v f2] apply_other [OF False, of u v "overlay f1 f2"] by auto
qed

lemma token_from_overlay:
  assumes "parse_token u t (parts, overlay f1 f2) = Inr (parts', g)"
  shows "\<exists>g2. parse_token u t (parts, f2) = Inr (parts', g2) \<and> g = overlay f1 g2"
proof (cases t)
  case [simp]: (Pair tok raw)
  consider (lang) n where "g = (overlay f1 f2)\<lparr>languages := languages (overlay f1 f2) @ [n]\<rparr>"
      "parse_token u t (parts, f2) = Inr (parts', f2\<lparr>languages := languages f2 @ [n]\<rparr>)"
    | (op) "apply_operator u (u_lower u (op_of tok)) (value_of tok) (overlay f1 f2) = Inr g"
      "\<And>g2. apply_operator u (u_lower u (op_of tok)) (value_of tok) f2 = Inr g2 \<Longrightarrow>
        parse_token u t (parts, f2) = Inr (parts', g2)"
    | (keep) "g = overlay f1 f2" "parse_token u t (parts, f2) = Inr (parts', f2)"
    using assms by (simp add: parse_token_def Let_def bindr_Inr_iff split: if_splits option.splits) blast+
  then show ?thesis
  proof cases
    case lang
    then show ?thesis by (simp add: overlay_def)
  next
    case op
    then show ?thesis using apply_from_overlay [OF op(1)] by blast
  next
    case keep
    then show ?thesis by blast
  qed
qed

lemma tokens_from_overlay:
  assumes "parse_tokens u ts (parts, overlay f1 f2) = Inr (parts', g)"
  shows "\<exists>g2. parse_tokens u ts (parts, f2) = Inr (parts', g2) \<and> g = overlay f1 g2"
  using assms
proof (induction ts arbitrary: parts f2)
  case (Cons t ts)
  then obtain parts1 g1 where 1: "parse_token u t (parts, overlay f1 f2) = Inr (parts1, g1)"
      "parse_tokens u ts (parts1, g1) = Inr (parts', g)"
    by (auto simp: bindr_Inr_iff)
  from token_from_overlay [OF 1(1)] obtain g2 where "parse_token u t (parts, f2) = Inr (parts1, g2)" "g1 = overlay f1 g2" by blast
  with Cons.IH 1(2) show ?case by auto
qed simp

lemma parse_tokens_append:
  "parse_tokens u (ts @ ts') st = bindr (parse_tokens u ts st) (parse_tokens u ts')"
  by (induction ts arbitrary: st) (auto simp: bindr_def split: sum.splits)

subsection \<open>What each kind of part adds\<close>

lemma or_else_assoc: "or_else (or_else x y) z = or_else x (or_else y z)"
  by (cases x) simp_all

lemma overlay_assoc: "overlay (overlay f g) h = overlay f (overlay g h)"
  by (simp add: overlay_def or_else_assoc)

lemma reads_as_Nil: "reads_as u [] empty_filters"
  by (simp add: reads_as_def)

lemma reads_as_append:
  assumes "reads_as u ps f" "reads_as u qs g"
  shows "reads_as u (ps @ qs) (overlay f g)"
  unfolding reads_as_def
proof (intro conjI allI impI)
  show "\<forall>p \<in> set (ps @ qs). closed_part False p \<and> unquote p \<noteq> []" using assms by (auto simp: reads_as_def)
  fix parts h st
  assume "parse_tokens u (map part_token (ps @ qs)) (parts, h) = Inr st"
  then obtain st1 where 1: "parse_tokens u (map part_token ps) (parts, h) = Inr st1" "parse_tokens u (map part_token qs) st1 = Inr st"
    by (auto simp: parse_tokens_append bindr_Inr_iff)
  then have "st1 = (parts, overlay h f)" using assms(1) unfolding reads_as_def by blast
  with 1(2) assms(2) show "st = (parts, overlay h (overlay f g))" unfolding reads_as_def overlay_assoc [symmetric] by blast
qed

lemma reads_as_Cons: "reads_as u [p] f \<Longrightarrow> reads_as u ps g \<Longrightarrow> reads_as u (p # ps) (overlay f g)"
  using reads_as_append [of u "[p]"] by simp

text \<open>The keys the composers write.\<close>

definition plain_key :: "string \<Rightarrow> bool" where
  "plain_key key \<longleftrightarrow> list_all (\<lambda>c. c < 128 \<and> ascii_lower c = c \<and> c \<noteq> dq \<and> c \<noteq> colon \<and> \<not> uspace c) (lit key)"

lemma plain_keys:
  "list_all plain_key [''from'', ''to'', ''subject'', ''after'', ''before'', ''has'', ''label'', ''account'', ''folder'',
     ''account_id'', ''folder_id'', ''lang'', ''attachment_name'', ''attachment'', ''no-attachment'']"
  by (simp add: plain_key_def lit_def ascii_lower_def dq_def colon_def uspace_def)

lemmas plain_key_simps [simp] = plain_keys [simplified]

lemma operator_keys [simp]:
  "lit ''from'' \<in> set operators" "lit ''to'' \<in> set operators" "lit ''subject'' \<in> set operators" "lit ''label'' \<in> set operators"
  "lit ''attachment_name'' \<in> set operators" "lit ''account'' \<in> set operators" "lit ''folder'' \<in> set operators"
  "lit ''account_id'' \<in> set operators" "lit ''folder_id'' \<in> set operators" "lit ''after'' \<in> set operators"
  "lit ''before'' \<in> set operators" "lit ''has'' \<in> set operators"
  by (simp_all add: operators_def)

lemma closed_part_append: "list_all (\<lambda>c. c \<noteq> dq \<and> \<not> uspace c) p \<Longrightarrow> closed_part False (p @ v) = closed_part False v"
  by (induction p) auto

lemma colon_plain: "colon \<noteq> dq" "\<not> uspace colon"
  by (simp_all add: colon_def dq_def uspace_def)

lemma key_token_closed:
  assumes "plain_key key"
  shows "closed_part False (key_token key v) = closed_part False v" "unquote (key_token key v) = key_token key (unquote v)"
proof -
  have "list_all (\<lambda>c. c \<noteq> dq \<and> \<not> uspace c) (lit key @ [colon])" "\<forall>c \<in> set (lit key). c \<noteq> dq"
    using assms colon_plain by (auto simp: plain_key_def list_all_iff)
  from closed_part_append [OF this(1), of v] this(2)
  show "closed_part False (key_token key v) = closed_part False v" "unquote (key_token key v) = key_token key (unquote v)"
    using colon_plain by (simp_all add: key_token_def unquote_def filter_id_conv)
qed

lemma key_token_split:
  assumes "plain_key key"
  shows "op_of (key_token key v) = lit key" "value_of (key_token key v) = v" "colon \<in> set (key_token key v)"
proof -
  have "\<forall>c \<in> set (lit key). c \<noteq> colon" using assms by (auto simp: plain_key_def list_all_iff)
  then show "op_of (key_token key v) = lit key" "value_of (key_token key v) = v" "colon \<in> set (key_token key v)"
    by (auto simp: op_of_def value_of_def key_token_def takeWhile_append dropWhile_append)
qed

lemma lower_plain: "unicode_laws u \<Longrightarrow> plain_key key \<Longrightarrow> u_lower u (lit key) = lit key"
  by (auto simp: unicode_laws_def plain_key_def list_all_iff intro!: map_idI)

lemma reads_as_operator:
  assumes u: "unicode_laws u" "plain_key key" and op: "key \<noteq> ''lang''" "lit key \<in> set operators"
    and v: "closed_part False v" "unquote v \<noteq> []"
    and adds: "\<And>g h. apply_operator u (lit key) (unquote v) g = Inr h \<Longrightarrow> h = overlay g f"
  shows "reads_as u [key_token key v] f"
  unfolding reads_as_def
proof (intro conjI allI impI)
  show "\<forall>p \<in> set [key_token key v]. closed_part False p \<and> unquote p \<noteq> []"
    using v(1) by (simp add: key_token_closed [OF u(2)]) (simp add: key_token_def)
  fix parts g st
  assume "parse_tokens u (map part_token [key_token key v]) (parts, g) = Inr st"
  then have "parse_token u (key_token key (unquote v), key_token key v) (parts, g) = Inr st"
    by (auto simp: part_token_def key_token_closed [OF u(2)] bindr_Inr_iff)
  then have "bindr (apply_operator u (lit key) (unquote v) g) (\<lambda>f'. Inr (parts, f')) = Inr st"
    using op v(2) by (simp add: parse_token_def Let_def key_token_split [OF u(2)] lower_plain [OF u] split: option.splits)
  then show "st = (parts, overlay g f)" using adds by (auto simp: bindr_Inr_iff)
qed

lemma bare_part: "list_all (\<lambda>c. c \<noteq> dq \<and> \<not> uspace c) v \<Longrightarrow> closed_part False v \<and> unquote v = v"
  using closed_part_append [of v "[]"] by (auto simp: unquote_def list_all_iff filter_id_conv)

lemma quoted_part:
  assumes "quoted_filter_value v = Some q"
  shows "closed_part False q" "unquote q = clean v" "clean v \<noteq> []"
proof -
  have q: "q = dq # clean v @ [dq]" "clean v \<noteq> []"
    using assms by (auto simp: quoted_filter_value_def clean_def unquote_def Let_def split: if_splits)
  have free: "dq \<notin> set (clean v)" by (auto simp: clean_def unquote_def dq_def)
  moreover have "dq \<notin> set s \<Longrightarrow> closed_part True (s @ [dq])" for s by (induction s) auto
  ultimately have "closed_part True (clean v @ [dq])" by blast
  then show "closed_part False q" "unquote q = clean v" "clean v \<noteq> []"
    using q free by (auto simp: unquote_def filter_id_conv)
qed

lemma concat_r_reads:
  "list_all2 (\<lambda>r f. \<forall>ps. r = Inr ps \<longrightarrow> reads_as u ps f) rs fs \<Longrightarrow> concat_r rs = Inr ps \<Longrightarrow>
   reads_as u ps (foldr overlay fs empty_filters)"
  by (induction rs fs arbitrary: ps rule: list_all2_induct) (auto simp: bindr_Inr_iff reads_as_Nil reads_as_append)

lemma quoted_token_reads:
  assumes "unicode_laws u" "plain_key key" "key \<noteq> ''lang''" "lit key \<in> set operators"
    and "\<And>s g. apply_operator u (lit key) s g = Inr (overlay g (F (Some s)))" "F None = empty_filters"
    and "quoted_token key v = Inr ps"
  shows "reads_as u ps (F (text_meaning v))"
proof (cases "present v")
  case None
  with assms(6,7) show ?thesis by (auto simp: quoted_token_def text_meaning_def reads_as_Nil)
next
  case (Some p)
  with assms(7) obtain q where q: "quoted_filter_value (pv_str p) = Some q" "ps = [key_token key q]"
    by (auto simp: quoted_token_def split: option.splits)
  show ?thesis using assms(5) quoted_part [OF q(1)]
    by (simp add: q(2) text_meaning_def Some) (rule reads_as_operator [OF assms(1-4)], auto)
qed

lemma cli_quoted_reads:
  assumes "unicode_laws u" "plain_key key" "key \<noteq> ''lang''" "lit key \<in> set operators"
    and "\<And>s g. apply_operator u (lit key) s g = Inr (overlay g (F s))"
    and "cli_quoted key vs = Inr ps"
  shows "reads_as u ps (foldr overlay (map (\<lambda>v. F (clean v)) vs) empty_filters)"
  using assms(6)
proof (induction vs arbitrary: ps)
  case (Cons v vs)
  then obtain q qs where q: "quoted_filter_value v = Some q" "cli_quoted key vs = Inr qs" "ps = key_token key q # qs"
    by (auto simp: bindr_Inr_iff split: option.splits)
  have "reads_as u [key_token key q] (F (clean v))"
    using assms(5) quoted_part [OF q(1)] by (intro reads_as_operator [OF assms(1-4)]) auto
  with Cons.IH [OF q(2)] show ?case by (simp add: q(3) reads_as_Cons)
qed (simp add: reads_as_Nil)

lemma lit_nat_str: "list_all ascii_digit (lit (nat_str n))" "lit (nat_str n) \<noteq> []"
    "fold (\<lambda>c n. n * 10 + (int c - 48)) (lit (nat_str n)) 0 = int n"
proof -
  show "list_all ascii_digit (lit (nat_str n))" "lit (nat_str n) \<noteq> []"
    using nat_str_decimal [of n] nat_str_nonempty [of n] by (auto simp: list_all_iff lit_def ascii_digit_def is_decimal_def)
  show "fold (\<lambda>c n. n * 10 + (int c - 48)) (lit (nat_str n)) 0 = int n"
  proof (induction n rule: nat_str.induct)
    case (1 n)
    show ?case
    proof (cases "n < 10")
      case True
      then show ?thesis by (simp add: nat_str.simps [of n] lit_def)
    next
      case False
      have "int (n div 10) * 10 + int (n mod 10) = int n" by presburger
      with "1.IH" [OF False] False show ?thesis by (simp add: nat_str.simps [of n] lit_def)
    qed
  qed
qed

lemma digits_int_nonneg: "digits_int s = Some n \<Longrightarrow> 0 \<le> n"
proof -
  have "list_all ascii_digit s \<Longrightarrow> 0 \<le> acc \<Longrightarrow> 0 \<le> fold (\<lambda>c n. n * 10 + (int c - 48)) s acc" for acc
    by (induction s arbitrary: acc) (auto simp: ascii_digit_def)
  then show "digits_int s = Some n \<Longrightarrow> 0 \<le> n" by (auto simp: digits_int_def split: if_splits)
qed

lemma digits_int_lit: "digits_int (lit (nat_str n)) = Some m \<Longrightarrow> m = int n"
  using lit_nat_str [of n] by (auto simp: digits_int_def split: if_splits)

lemma digits_bare: "list_all ascii_digit s \<Longrightarrow> closed_part False s \<and> unquote s = s"
  by (rule bare_part) (auto simp: list_all_iff ascii_digit_def dq_def uspace_def)

lemma id_tokens_read:
  assumes "unicode_laws u" "plain_key key" "key \<noteq> ''lang''" "lit key \<in> set operators"
    and "\<And>s g h. apply_operator u (lit key) s g = Inr h \<Longrightarrow> \<exists>i. digits_int s = Some i \<and> h = overlay g (F [i])"
    and "F [] = empty_filters" "\<And>i is. overlay (F [i]) (F is) = F (i # is)"
    and "id_tokens key vs = Inr ps"
  shows "reads_as u ps (F (map (\<lambda>v. the (digits_int v)) vs))"
  using assms(8)
proof (induction vs arbitrary: ps)
  case (Cons v vs)
  then obtain n qs where q: "digits_int v = Some n" "id_tokens key vs = Inr qs" "ps = key_token key (lit (nat_str (nat n))) # qs"
    by (auto simp: bindr_Inr_iff split: option.splits)
  let ?s = "lit (nat_str (nat n))"
  have "reads_as u [key_token key ?s] (F [n])"
  proof (rule reads_as_operator [OF assms(1-4)])
    show "closed_part False ?s" "unquote ?s \<noteq> []" using digits_bare [OF lit_nat_str(1)] lit_nat_str(2) by simp_all
    show "apply_operator u (lit key) (unquote ?s) g = Inr h \<Longrightarrow> h = overlay g (F [n])" for g h
      using assms(5) [of ?s g h] digits_bare [OF lit_nat_str(1)] digits_int_lit [of "nat n"] digits_int_nonneg [OF q(1)] by auto
  qed
  with Cons.IH [OF q(2)] have "reads_as u ps (overlay (F [n]) (F (map (\<lambda>v. the (digits_int v)) vs)))" by (simp add: q(3) reads_as_Cons)
  then show ?case by (simp add: assms(7) q(1))
qed (simp add: reads_as_Nil assms(6))

lemma first_split_at:
  assumes "x \<in> set s"
  shows "s = takeWhile (\<lambda>c. c \<noteq> x) s @ x # drop (Suc (length (takeWhile (\<lambda>c. c \<noteq> x) s))) s"
proof -
  obtain ys zs where s: "s = ys @ x # zs" "x \<notin> set ys" using split_list_first [OF assms] by blast
  then have "takeWhile (\<lambda>c. c \<noteq> x) s = ys" by (simp add: takeWhile_append)
  with s show ?thesis by simp
qed

lemma date_shape_bare: "date_shape s \<Longrightarrow> closed_part False s \<and> unquote s = s \<and> s \<noteq> []"
proof -
  assume sh: "date_shape s"
  define rest where "rest = drop 5 s"
  define m where "m = takeWhile (\<lambda>c. c \<noteq> dash) rest"
  have d: "list_all ascii_digit (take 4 s)" "take 1 (drop 4 s) = [dash]" "list_all ascii_digit m"
      "list_all ascii_digit (drop (Suc (length m)) rest)" "dash \<in> set rest" "s \<noteq> []"
    using sh by (auto simp: date_shape_def Let_def rest_def m_def)
  have "s = take 4 s @ take 1 (drop 4 s) @ rest" 
    using append_take_drop_id [of 4 s] append_take_drop_id [of 1 "drop 4 s"] by (simp add: rest_def)
  moreover have "rest = m @ dash # drop (Suc (length m)) rest"
    using first_split_at [OF d(5)] by (simp add: m_def)
  ultimately have "s = take 4 s @ [dash] @ m @ dash # drop (Suc (length m)) rest" using d(2) by simp
  from arg_cong [OF this, of set]
  have "set s \<subseteq> set (take 4 s) \<union> {dash} \<union> set m \<union> set (drop (Suc (length m)) rest)" by auto
  then have "list_all (\<lambda>c. c \<noteq> dq \<and> \<not> uspace c) s"
    using d(1,3,4) by (fastforce simp: list_all_iff ascii_digit_def dq_def uspace_def dash_def)
  with d(6) bare_part show ?thesis by blast
qed

lemma date_token_reads:
  assumes "unicode_laws u" "plain_key op" "op \<noteq> ''lang''" "lit op \<in> set operators"
    and "\<And>s g h. apply_operator u (lit op) s g = Inr h \<Longrightarrow> \<exists>d. strptime_date u s = Some d \<and> h = overlay g (F (Some d))"
    and "F None = empty_filters" "date_token u key op v = Inr ps"
  shows "reads_as u ps (F (date_meaning u v))"
proof (cases "present v")
  case None
  with assms(6,7) show ?thesis by (auto simp: date_token_def date_meaning_def reads_as_Nil)
next
  case (Some p)
  with assms(7) have p: "date_shape (pv_str p)" "ps = [key_token op (pv_str p)]"
    by (auto simp: date_token_def split: if_splits)
  show ?thesis unfolding p(2)
  proof (rule reads_as_operator [OF assms(1-4)])
    show "closed_part False (pv_str p)" "unquote (pv_str p) \<noteq> []" using date_shape_bare [OF p(1)] by simp_all
    show "apply_operator u (lit op) (unquote (pv_str p)) g = Inr h \<Longrightarrow> h = overlay g (F (date_meaning u v))" for g h
      using assms(5) [of "pv_str p" g h] date_shape_bare [OF p(1)] by (auto simp: date_meaning_def Some)
  qed
qed

lemma ustrip_bare: "list_all (\<lambda>c. \<not> uspace c) s \<Longrightarrow> ustrip s = s"
proof -
  assume "list_all (\<lambda>c. \<not> uspace c) s"
  then have "dropWhile uspace s = s" "dropWhile uspace (rev s) = rev s"
    by (auto simp: list_all_iff dropWhile_eq_self_iff)
      (metis hd_in_set set_rev rev.simps(1) rev_is_Nil_conv)
  then show ?thesis by (simp add: ustrip_def)
qed

lemma lang_list_reads:
  assumes "unicode_laws u" "lang_list u vs = Inr ps"
  shows "reads_as u ps (empty_filters\<lparr>languages := map (\<lambda>v. u_lower u (ustrip v)) vs\<rparr>)"
  using assms(2)
proof (induction vs arbitrary: ps)
  case Nil
  have "empty_filters\<lparr>languages := []\<rparr> = empty_filters" by (simp add: empty_filters_def)
  with Nil show ?case by (simp add: reads_as_Nil)
next
  case (Cons v vs)
  let ?s = "u_lower u (ustrip v)"
  from Cons.prems obtain qs where q: "?s \<noteq> []" "list_all (\<lambda>c. c \<noteq> dq \<and> \<not> uspace c) ?s" "lang_list u vs = Inr qs"
      "ps = key_token ''lang'' ?s # qs"
    by (auto simp: bindr_Inr_iff Let_def list_ex_iff list_all_iff split: if_splits)
  have k: "plain_key ''lang''" by simp
  have strip: "ustrip ?s = ?s" using q(2) by (intro ustrip_bare) (auto simp: list_all_iff)
  have idem: "u_lower u ?s = ?s" using assms(1) by (simp add: unicode_laws_def)
  have one: "reads_as u [key_token ''lang'' ?s] (empty_filters\<lparr>languages := [?s]\<rparr>)"
    unfolding reads_as_def
  proof (intro conjI allI impI)
    show "\<forall>p \<in> set [key_token ''lang'' ?s]. closed_part False p \<and> unquote p \<noteq> []"
      using bare_part [OF q(2)] by (simp add: key_token_closed [OF k]) (simp add: key_token_def)
    fix parts g st
    assume "parse_tokens u (map part_token [key_token ''lang'' ?s]) (parts, g) = Inr st"
    then have "parse_token u (key_token ''lang'' ?s, key_token ''lang'' ?s) (parts, g) = Inr st"
      using bare_part [OF q(2)] by (auto simp: part_token_def key_token_closed [OF k] bindr_Inr_iff)
    then have "st = (parts, g\<lparr>languages := languages g @ [?s]\<rparr>)"
      using q(1) by (simp add: parse_token_def Let_def key_token_split [OF k] lower_plain [OF assms(1) k] strip idem split: option.splits)
    then show "st = (parts, overlay g (empty_filters\<lparr>languages := [?s]\<rparr>))" by (simp add: overlay_def empty_filters_def)
  qed
  have "overlay (empty_filters\<lparr>languages := [?s]\<rparr>) (empty_filters\<lparr>languages := map (\<lambda>v. u_lower u (ustrip v)) vs\<rparr>) =
      empty_filters\<lparr>languages := map (\<lambda>v. u_lower u (ustrip v)) (v # vs)\<rparr>"
    by (simp add: overlay_def empty_filters_def)
  with reads_as_Cons [OF one Cons.IH [OF q(3)]] q(4) show ?case by simp
qed

lemma lang_tokens_read:
  assumes "unicode_laws u" "lang_tokens u l = Inr ps"
  shows "reads_as u ps (empty_filters\<lparr>languages := lang_meaning u l\<rparr>)"
proof -
  let ?vs = "case l of NoLang \<Rightarrow> [] | OneLang v \<Rightarrow> [v] | Langs vs \<Rightarrow> vs"
  have "lang_list u ?vs = Inr ps"
    using assms(2) by (cases l) (auto simp: lang_tokens_def simp del: lang_list.simps(2) split: if_splits)
  from lang_list_reads [OF assms(1) this] show ?thesis by (simp only: lang_meaning_def)
qed

lemma has_reads:
  assumes "unicode_laws u"
  shows "reads_as u [key_token ''has'' (lit (if b then ''attachment'' else ''no-attachment''))] (empty_filters\<lparr>has_attachment := Some b\<rparr>)"
proof -
  let ?w = "if b then ''attachment'' else ''no-attachment''"
  have k: "plain_key ''has''" "lit ''has'' \<in> set operators" "plain_key ''attachment''" "plain_key ''no-attachment''"
    by simp_all
  then have w: "plain_key ?w" by simp
  then have bare: "closed_part False (lit ?w) \<and> unquote (lit ?w) = lit ?w"
    by (intro bare_part) (auto simp: plain_key_def list_all_iff)
  show ?thesis
  proof (rule reads_as_operator [OF assms k(1) _ k(2)])
    show "closed_part False (lit ?w)" "unquote (lit ?w) \<noteq> []" using bare by (auto simp: lit_def)
    show "apply_operator u (lit ''has'') (unquote (lit ?w)) g = Inr h \<Longrightarrow>
        h = overlay g (empty_filters\<lparr>has_attachment := Some b\<rparr>)" for g h
      using bare lower_plain [OF assms w]
      by (auto simp: apply_operator_def parse_has_def Let_def overlay_def empty_filters_def bindr_Inr_iff split: if_splits)
  qed simp
qed

lemma has_tokens_read:
  "unicode_laws u \<Longrightarrow> has_tokens h = Inr ps \<Longrightarrow> reads_as u ps (empty_filters\<lparr>has_attachment := has_meaning h\<rparr>)"
  using has_reads [of u True] has_reads [of u False] reads_as_Nil [of u]
  by (cases h) (auto simp: has_tokens_def has_meaning_def empty_filters_def split: bool.splits)

text \<open>The dates the command line writes.\<close>

lemma pad_digits: "list_all ascii_digit (pad n k)"
  using lit_nat_str(1) [of k] by (auto simp: pad_def Let_def list_all_iff ascii_digit_def)

lemma digit_or_dash_bare: "ascii_digit c \<or> c = dash \<Longrightarrow> c \<noteq> dq \<and> \<not> uspace c"
  by (auto simp: ascii_digit_def dq_def uspace_def dash_def)

lemma isoformat_bare: "closed_part False (isoformat_date d) \<and> unquote (isoformat_date d) = isoformat_date d"
proof (rule bare_part)
  have "list_all (\<lambda>c. ascii_digit c \<or> c = dash) (isoformat_date d)"
    using pad_digits [of 4] pad_digits [of 2] by (cases d) (auto simp: isoformat_date_def list_all_iff)
  then show "list_all (\<lambda>c. c \<noteq> dq \<and> \<not> uspace c) (isoformat_date d)"
    using digit_or_dash_bare by (simp add: list_all_iff)
qed

lemma lit_nat_str_rec: "lit (nat_str n) = (if n < 10 then [48 + n] else lit (nat_str (n div 10)) @ [48 + n mod 10])"
  by (subst nat_str.simps) (simp add: lit_def)

lemma lit_digits:
  "k < 10 \<Longrightarrow> lit (nat_str k) = [48 + k]"
  "10 \<le> k \<Longrightarrow> k < 100 \<Longrightarrow> lit (nat_str k) = [48 + k div 10, 48 + k mod 10]"
  "100 \<le> k \<Longrightarrow> k < 1000 \<Longrightarrow> lit (nat_str k) = [48 + k div 100, 48 + k div 10 mod 10, 48 + k mod 10]"
  "1000 \<le> k \<Longrightarrow> k < 10000 \<Longrightarrow> lit (nat_str k) = [48 + k div 1000, 48 + k div 100 mod 10, 48 + k div 10 mod 10, 48 + k mod 10]"
  by (simp_all add: lit_nat_str_rec [of k] lit_nat_str_rec [of "k div 10"] lit_nat_str_rec [of "k div 100"]
      lit_nat_str_rec [of "k div 1000"] div_less_iff_less_mult flip: div_mult2_eq)

lemma lit_length:
  "100 \<le> k \<Longrightarrow> 2 < length (lit (nat_str k))"
  "10000 \<le> k \<Longrightarrow> 4 < length (lit (nat_str k))"
  using lit_nat_str(2) [of "k div 100"] lit_nat_str(2) [of "k div 10000"]
  by (simp_all add: lit_nat_str_rec [of k] lit_nat_str_rec [of "k div 10"] lit_nat_str_rec [of "k div 100"]
      lit_nat_str_rec [of "k div 1000"] div_less_iff_less_mult flip: div_mult2_eq)

lemma pad2:
  "k < 100 \<Longrightarrow> pad 2 k = [48 + k div 10, 48 + k mod 10]"
  "100 \<le> k \<Longrightarrow> 2 < length (pad 2 k)"
  using lit_length(1) [of k] by (cases "k < 10"; simp add: pad_def lit_digits Let_def numeral_2_eq_2)+

lemma pad4:
  "k < 10000 \<Longrightarrow> pad 4 k = [48 + k div 1000, 48 + k div 100 mod 10, 48 + k div 10 mod 10, 48 + k mod 10]"
  "10000 \<le> k \<Longrightarrow> 4 < length (pad 4 k)"
proof -
  assume k: "k < 10000"
  have four: "4 = Suc (Suc (Suc (Suc 0)))" by simp
  consider "k < 10" | "10 \<le> k" "k < 100" | "100 \<le> k" "k < 1000" | "1000 \<le> k" by linarith
  then show "pad 4 k = [48 + k div 1000, 48 + k div 100 mod 10, 48 + k div 10 mod 10, 48 + k mod 10]"
    using k by cases (simp_all add: pad_def Let_def lit_digits four)
next
  assume "10000 \<le> k"
  then show "4 < length (pad 4 k)" using lit_length(2) [of k] by (simp add: pad_def Let_def)
qed

lemma ascii_digit_value: "unicode_laws u \<Longrightarrow> n < 10 \<Longrightarrow> u_digit u (48 + n) = Some n"
  by (simp add: unicode_laws_def ascii_digit_def)

lemma div_mod_ten: "(k :: nat) div 10 = q \<Longrightarrow> k = 10 * q + k mod 10"
  by presburger

lemma month_of_pad: "month_directive (pad 2 m) = Some a \<Longrightarrow> a = m"
proof (cases "m < 100")
  case True
  assume "month_directive (pad 2 m) = Some a"
  with True show ?thesis using div_mod_ten [of m 1] div_mod_ten [of m 0]
    by (auto simp: month_directive_def pad2 nonzero_digit_def split: if_splits)
next
  case False
  assume "month_directive (pad 2 m) = Some a"
  with False pad2(2) [of m] show ?thesis by (auto simp: month_directive_def split: list.splits)
qed

lemma day_of_pad:
  assumes "unicode_laws u" "day_directive u (pad 2 k) = Some a"
  shows "a = k"
proof (cases "k < 100")
  case True
  have "u_digit u (48 + k mod 10) = Some (k mod 10)" by (rule ascii_digit_value [OF assms(1)]) simp
  with True assms(2) show ?thesis using div_mod_ten [of k 3] div_mod_ten [of k 2] div_mod_ten [of k 1] div_mod_ten [of k 0]
    by (auto simp: day_directive_def pad2 nonzero_digit_def split: if_splits)
next
  case False
  with pad2(2) [of k] assms(2) show ?thesis by (auto simp: day_directive_def split: list.splits)
qed

lemma year_of_pad: "unicode_laws u \<Longrightarrow> y < 10000 \<Longrightarrow> year_directive u (pad 4 y) = Some y"
proof -
  assume u: "unicode_laws u" and y: "y < 10000"
  have "y div 10 div 10 = y div 100" "y div 100 div 10 = y div 1000" by (simp_all flip: div_mult2_eq)
  then have "1000 * (y div 1000) + 100 * (y div 100 mod 10) + 10 * (y div 10 mod 10) + y mod 10 = y"
    using div_mult_mod_eq [of y 10] div_mult_mod_eq [of "y div 10" 10] div_mult_mod_eq [of "y div 100" 10] by linarith
  with u y show ?thesis
    by (simp add: year_directive_def pad4 ascii_digit_value div_less_iff_less_mult)
qed

lemma strptime_isoformat:
  assumes "unicode_laws u" "strptime_date u (isoformat_date d) = Some e"
  shows "e = d"
proof -
  obtain y m k where d: "d = (y, m, k)" by (cases d)
  have nodash: "c \<in> set (pad n i) \<Longrightarrow> c \<noteq> dash" for c n i
    using pad_digits [of n i] by (auto simp: list_all_iff ascii_digit_def dash_def)
  have "y < 10000"
  proof (rule ccontr)
    assume "\<not> y < 10000"
    then have "4 < length (pad 4 y)" using pad4(2) by simp
    then have "take 1 (drop 4 (isoformat_date d)) = [pad 4 y ! 4]"
      by (simp add: isoformat_date_def d nth_append Cons_nth_drop_Suc [symmetric])
    moreover have "pad 4 y ! 4 \<noteq> dash" using nodash [of "pad 4 y ! 4" 4 y] \<open>4 < length (pad 4 y)\<close> by simp
    ultimately show False using assms(2) by (simp add: strptime_date_def Let_def)
  qed
  then have len: "length (pad 4 y) = 4" by (simp add: pad4)
  define rest where "rest = pad 2 m @ dash # pad 2 k"
  have iso: "take 4 (isoformat_date d) = pad 4 y" "drop 4 (isoformat_date d) = dash # rest"
    using len by (simp_all add: isoformat_date_def d rest_def)
  have "drop (Suc (length (pad 2 m))) rest = pad 2 k" by (simp add: rest_def)
  moreover have "takeWhile (\<lambda>c. c \<noteq> dash) rest = pad 2 m" using nodash [of _ 2 m] by (simp add: rest_def takeWhile_append)
  ultimately have "(case (Some y, month_directive (pad 2 m), day_directive u (pad 2 k)) of
      (Some y, Some m, Some d) \<Rightarrow> if 1 \<le> y \<and> d \<le> days_in_month y m then Some (y, m, d) else None | _ \<Rightarrow> None) = Some e"
    using year_of_pad [OF assms(1) \<open>y < 10000\<close>] assms(2) by (simp add: strptime_date_def Let_def iso split: if_splits)
  then show ?thesis using month_of_pad [of m] day_of_pad [OF assms(1), of k]
    by (auto simp: d split: option.splits if_splits)
qed

lemma apply_text:
  "apply_operator u (lit ''from'') s g = Inr (overlay g (empty_filters\<lparr>from_substr := Some s\<rparr>))"
  "apply_operator u (lit ''to'') s g = Inr (overlay g (empty_filters\<lparr>to_substr := Some s\<rparr>))"
  "apply_operator u (lit ''subject'') s g = Inr (overlay g (empty_filters\<lparr>subject_substr := Some s\<rparr>))"
  "apply_operator u (lit ''label'') s g = Inr (overlay g (empty_filters\<lparr>label := Some s\<rparr>))"
  "apply_operator u (lit ''attachment_name'') s g = Inr (overlay g (empty_filters\<lparr>attachment_name_substr := Some s\<rparr>))"
  "apply_operator u (lit ''account'') s g = Inr (overlay g (empty_filters\<lparr>account_names := [s]\<rparr>))"
  "apply_operator u (lit ''folder'') s g = Inr (overlay g (empty_filters\<lparr>folders := [s]\<rparr>))"
  by (simp_all add: apply_operator_def) (simp_all add: overlay_def empty_filters_def)

lemma overlay_one:
  "overlay g (empty_filters\<lparr>account_ids := is\<rparr>) = g\<lparr>account_ids := account_ids g @ is\<rparr>"
  "overlay g (empty_filters\<lparr>folder_ids := is\<rparr>) = g\<lparr>folder_ids := folder_ids g @ is\<rparr>"
  "overlay g (empty_filters\<lparr>after := Some d\<rparr>) = g\<lparr>after := Some d\<rparr>"
  "overlay g (empty_filters\<lparr>before := Some d\<rparr>) = g\<lparr>before := Some d\<rparr>"
  by (simp_all add: overlay_def empty_filters_def)

lemma apply_id:
  "apply_operator u (lit ''account_id'') s g = Inr h \<Longrightarrow> \<exists>i. digits_int s = Some i \<and> h = overlay g (empty_filters\<lparr>account_ids := [i]\<rparr>)"
  "apply_operator u (lit ''folder_id'') s g = Inr h \<Longrightarrow> \<exists>i. digits_int s = Some i \<and> h = overlay g (empty_filters\<lparr>folder_ids := [i]\<rparr>)"
  by (simp_all add: apply_operator_def parse_id_def bindr_Inr_iff overlay_one split: option.splits)

lemma apply_date:
  "apply_operator u (lit ''after'') s g = Inr h \<Longrightarrow> \<exists>d. strptime_date u s = Some d \<and> h = overlay g (empty_filters\<lparr>after := Some d\<rparr>)"
  "apply_operator u (lit ''before'') s g = Inr h \<Longrightarrow> \<exists>d. strptime_date u s = Some d \<and> h = overlay g (empty_filters\<lparr>before := Some d\<rparr>)"
  by (simp_all add: apply_operator_def parse_date_def bindr_Inr_iff overlay_one del: split_paired_Ex split: option.splits)

lemma set_nothing:
  "empty_filters\<lparr>from_substr := None\<rparr> = empty_filters" "empty_filters\<lparr>to_substr := None\<rparr> = empty_filters"
  "empty_filters\<lparr>subject_substr := None\<rparr> = empty_filters" "empty_filters\<lparr>attachment_name_substr := None\<rparr> = empty_filters"
  "empty_filters\<lparr>after := None\<rparr> = empty_filters" "empty_filters\<lparr>before := None\<rparr> = empty_filters"
  "empty_filters\<lparr>account_ids := []\<rparr> = empty_filters" "empty_filters\<lparr>folder_ids := []\<rparr> = empty_filters"
  "empty_filters\<lparr>account_names := []\<rparr> = empty_filters" "empty_filters\<lparr>folders := []\<rparr> = empty_filters"
  "empty_filters\<lparr>label := None\<rparr> = empty_filters" "empty_filters\<lparr>has_attachment := None\<rparr> = empty_filters"
  by (simp_all add: empty_filters_def)

lemma overlay_lists:
  "overlay (empty_filters\<lparr>account_ids := is\<rparr>) (empty_filters\<lparr>account_ids := js\<rparr>) = empty_filters\<lparr>account_ids := is @ js\<rparr>"
  "overlay (empty_filters\<lparr>folder_ids := is\<rparr>) (empty_filters\<lparr>folder_ids := js\<rparr>) = empty_filters\<lparr>folder_ids := is @ js\<rparr>"
  "overlay (empty_filters\<lparr>account_names := ns\<rparr>) (empty_filters\<lparr>account_names := ms\<rparr>) = empty_filters\<lparr>account_names := ns @ ms\<rparr>"
  "overlay (empty_filters\<lparr>folders := ns\<rparr>) (empty_filters\<lparr>folders := ms\<rparr>) = empty_filters\<lparr>folders := ns @ ms\<rparr>"
  by (simp_all add: overlay_def empty_filters_def)

definition api_pieces :: "unidata \<Rightarrow> api_filters \<Rightarrow> search_filters list" where
  "api_pieces u fl =
     [empty_filters\<lparr>account_ids := map (\<lambda>v. the (digits_int v)) (af_account_ids fl)\<rparr>,
      empty_filters\<lparr>folder_ids := map (\<lambda>v. the (digits_int v)) (af_folder_ids fl)\<rparr>,
      empty_filters\<lparr>from_substr := text_meaning (af_from fl)\<rparr>, empty_filters\<lparr>to_substr := text_meaning (af_to fl)\<rparr>,
      empty_filters\<lparr>subject_substr := text_meaning (af_subject fl)\<rparr>,
      empty_filters\<lparr>attachment_name_substr := text_meaning (af_attachment_name fl)\<rparr>,
      empty_filters\<lparr>after := date_meaning u (af_after fl)\<rparr>, empty_filters\<lparr>before := date_meaning u (af_before fl)\<rparr>,
      empty_filters\<lparr>after := date_meaning u (af_date_from fl)\<rparr>, empty_filters\<lparr>before := date_meaning u (af_date_to fl)\<rparr>,
      empty_filters\<lparr>languages := lang_meaning u (af_lang fl)\<rparr>,
      empty_filters\<lparr>has_attachment := has_meaning (af_has_attachment fl)\<rparr>]"

lemma api_pieces_meaning: "foldr overlay (api_pieces u fl) empty_filters = api_meaning u fl"
  by (simp add: api_pieces_def overlay_def empty_filters_def api_meaning_def)

lemma filter_tokens_read:
  assumes u: "unicode_laws u" and "filter_tokens u fl = Inr ps"
  shows "reads_as u ps (api_meaning u fl)"
proof -
  note ids = id_tokens_read [OF u _ _ _ _ _ overlay_lists(1) [of "[_]", simplified], of "''account_id''"]
    id_tokens_read [OF u _ _ _ _ _ overlay_lists(2) [of "[_]", simplified], of "''folder_id''"]
  note texts = quoted_token_reads [OF u, of "''from''" "\<lambda>v. empty_filters\<lparr>from_substr := v\<rparr>"]
    quoted_token_reads [OF u, of "''to''" "\<lambda>v. empty_filters\<lparr>to_substr := v\<rparr>"]
    quoted_token_reads [OF u, of "''subject''" "\<lambda>v. empty_filters\<lparr>subject_substr := v\<rparr>"]
    quoted_token_reads [OF u, of "''attachment_name''" "\<lambda>v. empty_filters\<lparr>attachment_name_substr := v\<rparr>"]
  have dates: "date_token u key ''after'' v = Inr qs \<Longrightarrow> reads_as u qs (empty_filters\<lparr>after := date_meaning u v\<rparr>)"
      "date_token u key ''before'' v = Inr qs \<Longrightarrow> reads_as u qs (empty_filters\<lparr>before := date_meaning u v\<rparr>)" for key v qs
    using date_token_reads [OF u, of "''after''" "\<lambda>v. empty_filters\<lparr>after := v\<rparr>" key v qs]
      date_token_reads [OF u, of "''before''" "\<lambda>v. empty_filters\<lparr>before := v\<rparr>" key v qs] apply_date [of u]
    by (simp_all add: set_nothing del: split_paired_Ex)
  have "list_all2 (\<lambda>r f. \<forall>ps. r = Inr ps \<longrightarrow> reads_as u ps f)
      [id_tokens ''account_id'' (af_account_ids fl), id_tokens ''folder_id'' (af_folder_ids fl),
       quoted_token ''from'' (af_from fl), quoted_token ''to'' (af_to fl), quoted_token ''subject'' (af_subject fl),
       quoted_token ''attachment_name'' (af_attachment_name fl),
       date_token u ''after'' ''after'' (af_after fl), date_token u ''before'' ''before'' (af_before fl),
       date_token u ''date_from'' ''after'' (af_date_from fl), date_token u ''date_to'' ''before'' (af_date_to fl),
       lang_tokens u (af_lang fl), has_tokens (af_has_attachment fl)] (api_pieces u fl)"
    using ids texts dates lang_tokens_read [OF u] has_tokens_read [OF u]
    by (simp add: api_pieces_def apply_text set_nothing apply_id apply_date)
  from concat_r_reads [OF this assms(2) [unfolded filter_tokens_def]] show ?thesis by (simp only: api_pieces_meaning)
qed

lemma iso_reads:
  assumes u: "unicode_laws u"
  shows "reads_as u (case d of None \<Rightarrow> [] | Some d \<Rightarrow> [key_token ''after'' (isoformat_date d)]) (empty_filters\<lparr>after := d\<rparr>)"
    "reads_as u (case d of None \<Rightarrow> [] | Some d \<Rightarrow> [key_token ''before'' (isoformat_date d)]) (empty_filters\<lparr>before := d\<rparr>)"
proof -
  have ne: "isoformat_date k \<noteq> []" for k by (cases k) (simp add: isoformat_date_def)
  have "reads_as u [key_token ''after'' (isoformat_date k)] (empty_filters\<lparr>after := Some k\<rparr>)"
    "reads_as u [key_token ''before'' (isoformat_date k)] (empty_filters\<lparr>before := Some k\<rparr>)" for k
    using isoformat_bare [of k] ne [of k] apply_date [of u "isoformat_date k"] strptime_isoformat [OF u, of k]
    by - (rule reads_as_operator [OF u]; fastforce)+
  then show "reads_as u (case d of None \<Rightarrow> [] | Some d \<Rightarrow> [key_token ''after'' (isoformat_date d)]) (empty_filters\<lparr>after := d\<rparr>)"
    "reads_as u (case d of None \<Rightarrow> [] | Some d \<Rightarrow> [key_token ''before'' (isoformat_date d)]) (empty_filters\<lparr>before := d\<rparr>)"
    by (cases d; simp add: set_nothing reads_as_Nil)+
qed

lemma foldr_names:
  "foldr overlay (map (\<lambda>v. empty_filters\<lparr>account_names := [clean v]\<rparr>) vs) empty_filters = empty_filters\<lparr>account_names := map clean vs\<rparr>"
  "foldr overlay (map (\<lambda>v. empty_filters\<lparr>folders := [clean v]\<rparr>) vs) empty_filters = empty_filters\<lparr>folders := map clean vs\<rparr>"
  by (induction vs) (simp_all add: set_nothing overlay_lists)

lemma foldr_opt:
  assumes "F None = empty_filters"
  shows "foldr overlay (map (\<lambda>v. F (Some (clean v))) (opt_list v)) empty_filters = F (opt_meaning v)"
  using assms by (simp add: opt_list_def opt_meaning_def)

definition cli_pieces :: "cli_filters \<Rightarrow> search_filters list" where
  "cli_pieces cl =
     [empty_filters\<lparr>account_names := map clean (cl_accounts cl)\<rparr>, empty_filters\<lparr>folders := map clean (cl_folders cl)\<rparr>,
      empty_filters\<lparr>from_substr := opt_meaning (cl_from cl)\<rparr>, empty_filters\<lparr>to_substr := opt_meaning (cl_to cl)\<rparr>,
      empty_filters\<lparr>subject_substr := opt_meaning (cl_subject cl)\<rparr>, empty_filters\<lparr>after := cl_after cl\<rparr>,
      empty_filters\<lparr>before := cl_before cl\<rparr>, empty_filters\<lparr>has_attachment := if cl_has_attachment cl then Some True else None\<rparr>,
      empty_filters\<lparr>label := opt_meaning (cl_label cl)\<rparr>]"

lemma cli_pieces_meaning: "foldr overlay (cli_pieces cl) empty_filters = cli_meaning u cl"
  by (simp add: cli_pieces_def overlay_def empty_filters_def cli_meaning_def)

lemma cli_tokens_read:
  assumes u: "unicode_laws u" and "cli_tokens cl = Inr ps"
  shows "reads_as u ps (cli_meaning u cl)"
proof -
  note names = cli_quoted_reads [OF u, of "''account''" "\<lambda>v. empty_filters\<lparr>account_names := [v]\<rparr>"]
    cli_quoted_reads [OF u, of "''folder''" "\<lambda>v. empty_filters\<lparr>folders := [v]\<rparr>"]
  note texts = cli_quoted_reads [OF u, of "''from''" "\<lambda>v. empty_filters\<lparr>from_substr := Some v\<rparr>" "opt_list v" for v]
    cli_quoted_reads [OF u, of "''to''" "\<lambda>v. empty_filters\<lparr>to_substr := Some v\<rparr>" "opt_list v" for v]
    cli_quoted_reads [OF u, of "''subject''" "\<lambda>v. empty_filters\<lparr>subject_substr := Some v\<rparr>" "opt_list v" for v]
    cli_quoted_reads [OF u, of "''label''" "\<lambda>v. empty_filters\<lparr>label := Some v\<rparr>" "opt_list v" for v]
  note opts = foldr_opt [of "\<lambda>v. empty_filters\<lparr>from_substr := v\<rparr>"] foldr_opt [of "\<lambda>v. empty_filters\<lparr>to_substr := v\<rparr>"]
    foldr_opt [of "\<lambda>v. empty_filters\<lparr>subject_substr := v\<rparr>"] foldr_opt [of "\<lambda>v. empty_filters\<lparr>label := v\<rparr>"]
  have "list_all2 (\<lambda>r f. \<forall>ps. r = Inr ps \<longrightarrow> reads_as u ps f)
      [cli_quoted ''account'' (cl_accounts cl), cli_quoted ''folder'' (cl_folders cl),
       cli_quoted ''from'' (opt_list (cl_from cl)), cli_quoted ''to'' (opt_list (cl_to cl)),
       cli_quoted ''subject'' (opt_list (cl_subject cl)),
       Inr (case cl_after cl of None \<Rightarrow> [] | Some d \<Rightarrow> [key_token ''after'' (isoformat_date d)]),
       Inr (case cl_before cl of None \<Rightarrow> [] | Some d \<Rightarrow> [key_token ''before'' (isoformat_date d)]),
       Inr (if cl_has_attachment cl then [key_token ''has'' (lit ''attachment'')] else []),
       cli_quoted ''label'' (opt_list (cl_label cl))] (cli_pieces cl)"
    using names texts iso_reads [OF u, of "cl_after cl"] iso_reads [OF u, of "cl_before cl"] has_reads [OF u, of True] reads_as_Nil [of u]
    by (simp add: cli_pieces_def apply_text set_nothing foldr_names opts)
  from concat_r_reads [OF this assms(2) [unfolded cli_tokens_def]] show ?thesis by (simp only: cli_pieces_meaning [of cl u])
qed

subsection \<open>The contract of a composer\<close>

locale composer =
  fixes parts_of :: "unidata \<Rightarrow> 'f \<Rightarrow> 'e + utext list"
    and meaning :: "unidata \<Rightarrow> 'f \<Rightarrow> search_filters"
  assumes parts_read: "unicode_laws u \<Longrightarrow> parts_of u fl = Inr ps \<Longrightarrow> reads_as u ps (meaning u fl)"
begin

lemma composition:
  assumes "unicode_laws u" "parts_of u fl = Inr ps" "parse_query u (composed ps ft) = Inr p"
  shows "\<exists>p0. parse_query u ft = Inr p0 \<and> pq_free_text p = pq_free_text p0 \<and>
    pq_filters p = overlay (meaning u fl) (pq_filters p0)"
proof -
  note reads = parts_read [OF assms(1,2)]
  obtain parts g st where st: "parse_tokens u (map part_token ps) ([], empty_filters) = Inr st"
    and rest: "parse_tokens u (tokenize ft) st = Inr (parts, g)"
    and p: "p = \<lparr>pq_free_text = join parts, pq_filters = g\<rparr>"
    using assms(3) tokenize_composed [of ps ft] reads
    by (auto simp: parse_query_def parse_tokens_append bindr_Inr_iff reads_as_def)
  have "st = ([], overlay empty_filters (meaning u fl))" using reads st unfolding reads_as_def by blast
  with rest have "parse_tokens u (tokenize ft) ([], overlay (meaning u fl) empty_filters) = Inr (parts, g)"
    by simp
  from tokens_from_overlay [OF this] p show ?thesis by (auto simp: parse_query_def)
qed

end

interpretation api: composer filter_tokens api_meaning
  by unfold_locales (rule filter_tokens_read)

interpretation cli: composer "\<lambda>u. cli_tokens" cli_meaning
  by unfold_locales (rule cli_tokens_read)

text \<open>
  C12. A search request's structured filters reach the search whatever its text: if the composed
  query parses, the text alone parses, the ranked free text is the text's own, and the filters
  are exactly the structured ones overlaid by the operators the text itself spells: a scalar
  operator of the text (\<open>from:\<close>, \<open>after:\<close>) replaces the structured filter of its kind, as
  \<open>build_query_string\<close> documents, and lists are united. Nothing else in the text, neither a quote
  nor white space, touches a structured filter, and no structured filter changes the free text.
\<close>

theorem structured_filters_survive:
  assumes "unicode_laws u" "build_query_string u free_text fl = Inr q" "parse_query u q = Inr p"
  shows "\<exists>p0. parse_query u free_text = Inr p0 \<and> pq_free_text p = pq_free_text p0 \<and>
    pq_filters p = overlay (api_meaning u fl) (pq_filters p0)"
proof -
  obtain ps where "filter_tokens u fl = Inr ps" "q = composed ps free_text"
    using assms(2) by (auto simp: build_query_string_def composed_def bindr_Inr_iff split: if_splits)
  with api.composition assms(1,3) show ?thesis by blast
qed

text \<open>
  The same for the command line's composer: its flags reach the search as given, dates
  included, whatever the positional text contains.
\<close>

theorem cli_flags_survive:
  assumes "unicode_laws u" "compose_cli_query free_text cl = Inr q" "parse_query u q = Inr p"
  shows "\<exists>p0. parse_query u free_text = Inr p0 \<and> pq_free_text p = pq_free_text p0 \<and>
    pq_filters p = overlay (cli_meaning u cl) (pq_filters p0)"
proof -
  obtain ps where "cli_tokens cl = Inr ps" "q = composed ps free_text"
    using assms(2) by (auto simp: compose_cli_query_def composed_def bindr_Inr_iff)
  with cli.composition assms(1,3) show ?thesis by blast
qed

subsection \<open>The access list\<close>

lemma filter_sql_accounts:
  "filter_sql fe (f\<lparr>account_ids := is\<rparr>) r \<longleftrightarrow>
   filter_sql fe (f\<lparr>account_ids := []\<rparr>) r \<and> (is \<noteq> [] \<longrightarrow> sr_account r \<in> set is)"
  by (simp add: filter_sql_def conj_ac cong: option.case_cong)

lemma clamp_admits:
  assumes "0 < sr_account r"
  shows "filter_sql fe (pq_filters (clamp_account_ids_to_acl (resolve_account_names accts p) (Some allowed))) r \<longleftrightarrow>
    filter_sql fe (pq_filters (resolve_account_names accts p)) r \<and> sr_account r \<in> set allowed"
proof -
  define f where "f = pq_filters (resolve_account_names accts p)"
  define ids where "ids = (if account_ids f \<noteq> [] then sort (remdups (filter (\<lambda>a. a \<in> set allowed) (account_ids f))) else sort (remdups allowed))"
  have "pq_filters (clamp_account_ids_to_acl (resolve_account_names accts p) (Some allowed)) =
      f\<lparr>account_ids := if ids = [] then [no_account_sentinel] else ids\<rparr>"
    by (simp add: clamp_account_ids_to_acl_def Let_def f_def ids_def)
  moreover have "set ids = (if account_ids f \<noteq> [] then set (account_ids f) \<inter> set allowed else set allowed)"
    by (auto simp: ids_def)
  moreover have "f = f\<lparr>account_ids := account_ids f\<rparr>" by simp
  ultimately show ?thesis
    using assms filter_sql_accounts [of fe "account_ids f" f r] filter_sql_accounts [of fe ids f r]
      filter_sql_accounts [of fe "[no_account_sentinel]" f r]
    by (auto simp: f_def [symmetric] no_account_sentinel_def split: if_splits)
qed

text \<open>
  The access list is a hard bound: whatever query was parsed, the rows the clamped filter
  admits are exactly the rows the query admits that belong to an allowed account. An empty list
  admits nothing, and an allowed account's row is never lost.
\<close>

theorem acl_clamp_exact:
  assumes "0 < sr_account r"
  shows "filter_sql fe (pq_filters (clamp_account_ids_to_acl (resolve_account_names accts p) (Some allowed))) r \<longleftrightarrow>
    filter_sql fe (pq_filters (resolve_account_names accts p)) r \<and> sr_account r \<in> set allowed"
  using assms by (rule clamp_admits)

subsection \<open>What a parsed query holds\<close>

text \<open>Text PostgreSQL can hold, and the laws of the Unicode database this needs.\<close>

definition storable :: "utext \<Rightarrow> bool" where
  "storable s \<longleftrightarrow> list_all (\<lambda>c. c \<noteq> 0 \<and> \<not> surrogate c) s"

definition storage_laws :: "unidata \<Rightarrow> bool" where
  "storage_laws u \<longleftrightarrow> (\<forall>s. storable s \<longrightarrow> storable (u_lower u s)) \<and> (\<forall>c v. u_digit u c = Some v \<longrightarrow> v < 10)"

definition valid_date :: "date \<Rightarrow> bool" where
  "valid_date d \<longleftrightarrow> (case d of (y, m, k) \<Rightarrow> 1 \<le> y \<and> y \<le> 9999 \<and> 1 \<le> m \<and> m \<le> 12 \<and> 1 \<le> k \<and> k \<le> days_in_month y m)"

definition good_text :: "utext \<Rightarrow> bool" where "good_text s \<longleftrightarrow> s \<noteq> [] \<and> storable s"

definition well_formed :: "search_filters \<Rightarrow> bool" where
  "well_formed f \<longleftrightarrow>
     list_all good_text (account_names f) \<and> list_all good_text (folders f) \<and> list_all good_text (languages f) \<and>
     list_all (\<lambda>i. 0 \<le> i) (account_ids f) \<and> list_all (\<lambda>i. 0 \<le> i) (folder_ids f) \<and> sf_accounts f = [] \<and>
     pred_option good_text (from_substr f) \<and> pred_option good_text (to_substr f) \<and> pred_option good_text (subject_substr f) \<and>
     pred_option good_text (label f) \<and> pred_option good_text (attachment_name_substr f) \<and>
     pred_option valid_date (after f) \<and> pred_option valid_date (before f)"

lemma strptime_valid:
  assumes "storage_laws u" "strptime_date u s = Some d"
  shows "valid_date d"
proof -
  obtain ys ms ds y m k where d: "d = (y, m, k)" "year_directive u ys = Some y" "month_directive ms = Some m"
      "day_directive u ds = Some k" "1 \<le> y" "k \<le> days_in_month y m"
    using assms(2) by (auto simp: strptime_date_def Let_def split: if_splits option.splits prod.splits)
  have "y \<le> 9999"
  proof -
    obtain a b c e where "[u_digit u a, u_digit u b, u_digit u c, u_digit u e] = map (u_digit u) ys"
      and y: "\<exists>a' b' c' e'. u_digit u a = Some a' \<and> u_digit u b = Some b' \<and> u_digit u c = Some c' \<and> u_digit u e = Some e' \<and>
        y = 1000 * a' + 100 * b' + 10 * c' + e'"
      using d(2) by (auto simp: year_directive_def map_eq_Cons_conv split: list.splits option.splits)
    have "u_digit u c = Some v \<Longrightarrow> v \<le> 9" for c v using assms(1) by (fastforce simp: storage_laws_def)
    with y obtain a' b' c' e' where "y = 1000 * a' + 100 * b' + 10 * c' + e'" "a' \<le> 9" "b' \<le> 9" "c' \<le> 9" "e' \<le> 9" by blast
    then show ?thesis by linarith
  qed
  moreover have "1 \<le> m \<and> m \<le> 12"
    using d(3) by (auto simp: month_directive_def nonzero_digit_def split: list.splits if_splits)
  moreover have "1 \<le> k"
    using d(4) by (auto simp: day_directive_def nonzero_digit_def split: list.splits if_splits option.splits)
  ultimately show ?thesis using d by (simp add: valid_date_def)
qed

lemma pred_or_else: "pred_option P x \<Longrightarrow> pred_option P y \<Longrightarrow> pred_option P (or_else x y)"
  by (cases x) auto

lemma well_formed_overlay: "well_formed f \<Longrightarrow> well_formed g \<Longrightarrow> well_formed (overlay f g)"
  by (simp add: well_formed_def overlay_def pred_or_else)

lemma text_pieces:
  assumes "good_text v"
  shows "well_formed (empty_filters\<lparr>from_substr := Some v\<rparr>)" "well_formed (empty_filters\<lparr>to_substr := Some v\<rparr>)"
    "well_formed (empty_filters\<lparr>subject_substr := Some v\<rparr>)" "well_formed (empty_filters\<lparr>label := Some v\<rparr>)"
    "well_formed (empty_filters\<lparr>attachment_name_substr := Some v\<rparr>)" "well_formed (empty_filters\<lparr>account_names := [v]\<rparr>)"
    "well_formed (empty_filters\<lparr>folders := [v]\<rparr>)" "well_formed (empty_filters\<lparr>languages := [v]\<rparr>)"
  using assms by (simp_all add: well_formed_def empty_filters_def)

lemma apply_well_formed:
  assumes "storage_laws u" "well_formed f" "good_text v" "apply_operator u op v f = Inr g"
  shows "well_formed g"
proof -
  have piece: "g = overlay f h \<Longrightarrow> well_formed h \<Longrightarrow> ?thesis" for h using well_formed_overlay [OF assms(2)] by simp
  consider (textual) "op \<in> set (map lit [''from'', ''to'', ''subject'', ''label'', ''attachment_name'', ''account'', ''folder''])"
    | (ids) "op = lit ''account_id'' \<or> op = lit ''folder_id''" | (date) "op = lit ''after'' \<or> op = lit ''before''"
    | (has) "op = lit ''has''"
    | (other) "op \<notin> set (map lit [''from'', ''to'', ''subject'', ''label'', ''attachment_name'', ''account'', ''folder'',
      ''account_id'', ''folder_id'', ''after'', ''before'', ''has''])"
    by (simp only: list.map set_simps insert_iff empty_iff) blast
  then show ?thesis
  proof cases
    case textual
    then obtain h where "g = overlay f h" "well_formed h"
      using assms(4) text_pieces [OF assms(3)]
      by (simp only: list.map set_simps insert_iff empty_iff) (elim disjE; simp add: apply_text; blast)
    then show ?thesis by (rule piece)
  next
    case ids
    then obtain i where "digits_int v = Some i"
      "g = overlay f (empty_filters\<lparr>account_ids := [i]\<rparr>) \<or> g = overlay f (empty_filters\<lparr>folder_ids := [i]\<rparr>)"
      using assms(4) apply_id [of u v f g] by blast
    then show ?thesis using digits_int_nonneg [of v i]
      by (elim disjE; elim piece; simp add: well_formed_def empty_filters_def)
  next
    case date
    then obtain d where "strptime_date u v = Some d"
      "g = overlay f (empty_filters\<lparr>after := Some d\<rparr>) \<or> g = overlay f (empty_filters\<lparr>before := Some d\<rparr>)"
      using assms(4) apply_date [of u v f g] by blast
    then show ?thesis using strptime_valid [OF assms(1), of v d]
      by (elim disjE; elim piece; simp add: well_formed_def empty_filters_def)
  next
    case has
    then obtain b where "g = f\<lparr>has_attachment := Some b\<rparr>" using assms(4) by (auto simp: apply_operator_def bindr_Inr_iff)
    then show ?thesis using assms(2) by (simp add: well_formed_def)
  next
    case other
    then show ?thesis using assms(2,4) apply_other [OF other, of u v f] by simp
  qed
qed

lemma not_rejected: "reject_unstorable u tok = None \<Longrightarrow> storable tok"
  by (auto simp: reject_unstorable_def storable_def list_all_iff list_ex_iff Let_def split: if_splits) (metis gr0I)

lemma storable_subset: "storable s \<Longrightarrow> set t \<subseteq> set s \<Longrightarrow> storable t"
  by (auto simp: storable_def list_all_iff)

lemma storable_raw: "storable (unquote raw) \<Longrightarrow> storable raw"
  by (auto simp: storable_def unquote_def list_all_iff surrogate_def dq_def)

lemma storable_join: "(\<And>w. w \<in> set ws \<Longrightarrow> storable w) \<Longrightarrow> storable (join ws)"
  by (induction ws rule: join.induct) (auto simp: storable_def surrogate_def)

lemma set_value_of: "set (value_of tok) \<subseteq> set tok" "set (ustrip s) \<subseteq> set s"
  by (auto simp: value_of_def ustrip_def dest!: in_set_dropD set_dropWhileD)

lemma token_well_formed:
  assumes laws: "storage_laws u" and tok: "tok = unquote raw" and parts: "\<forall>w \<in> set parts. storable w" and f: "well_formed f"
    and step: "parse_token u (tok, raw) (parts, f) = Inr (parts', g)"
  shows "(\<forall>w \<in> set parts'. storable w) \<and> well_formed g"
proof -
  have st: "storable tok" using step not_rejected [of u tok] by (auto simp: parse_token_def split: option.splits)
  then have raw: "storable raw" using storable_raw tok by simp
  have v: "storable (value_of tok)" "storable (ustrip (value_of tok))"
    using storable_subset [OF st] set_value_of by (meson order_trans)+
  let ?n = "u_lower u (ustrip (value_of tok))"
  have n: "storable ?n" using laws v(2) by (simp add: storage_laws_def)
  consider (keep) "parts' = keep_text raw parts" "g = f"
    | (lang) "parts' = parts" "?n \<noteq> []" "g = f\<lparr>languages := languages f @ [?n]\<rparr>"
    | (op) "parts' = parts" "value_of tok \<noteq> []" "apply_operator u (u_lower u (op_of tok)) (value_of tok) f = Inr g"
    using step by (simp add: parse_token_def Let_def bindr_Inr_iff split: if_splits option.splits)
  then show ?thesis
  proof cases
    case keep
    then show ?thesis using parts f raw by (auto simp: keep_text_def)
  next
    case lang
    then show ?thesis using parts f n by (simp add: well_formed_def good_text_def)
  next
    case op
    then show ?thesis using parts apply_well_formed [OF laws f _ op(3)] v(1) by (simp add: good_text_def)
  qed
qed

lemma tokens_well_formed:
  assumes "storage_laws u" "\<forall>(t, raw) \<in> set ts. t = unquote raw" "\<forall>w \<in> set parts. storable w" "well_formed f"
    and "parse_tokens u ts (parts, f) = Inr (parts', g)"
  shows "(\<forall>w \<in> set parts'. storable w) \<and> well_formed g"
  using assms(2-5)
proof (induction ts arbitrary: parts f)
  case (Cons t ts)
  obtain tok raw where t: "t = (tok, raw)" by (cases t)
  with Cons.prems obtain parts1 f1 where 1: "parse_token u (tok, raw) (parts, f) = Inr (parts1, f1)"
      "parse_tokens u ts (parts1, f1) = Inr (parts', g)"
    by (auto simp: bindr_Inr_iff)
  have "tok = unquote raw" using Cons.prems(1) t by simp
  from token_well_formed [OF assms(1) this Cons.prems(2,3) 1(1)] Cons.IH [of parts1 f1] Cons.prems(1) 1(2)
  show ?case by auto
qed auto

text \<open>
  C14. A query that parses is well formed: its free text and every text in its filters can be
  stored by PostgreSQL (no NUL, no surrogate) and, in the filters, is not empty; its ids are not
  negative and its dates are dates of the calendar. This is about the values as parameters, not
  about what an operator of the statement makes of them: the label is used as an ILIKE pattern as
  it stands, and PostgreSQL refuses some patterns, such as one that ends in its escape character.
\<close>

theorem parsed_query_well_formed:
  assumes "storage_laws u" "parse_query u q = Inr p"
  shows "storable (pq_free_text p) \<and> well_formed (pq_filters p)"
proof -
  obtain parts g where "parse_tokens u (tokenize q) ([], empty_filters) = Inr (parts, g)"
      and p: "p = \<lparr>pq_free_text = join parts, pq_filters = g\<rparr>"
    using assms(2) by (auto simp: parse_query_def bindr_Inr_iff)
  moreover have "\<forall>(t, raw) \<in> set (tokenize q). t = unquote raw"
    using tokens_unquote by (fastforce simp: tokenize_def unquote_def)
  moreover have "well_formed empty_filters" by (simp add: well_formed_def empty_filters_def)
  ultimately have "(\<forall>w \<in> set parts. storable w) \<and> well_formed g"
    using tokens_well_formed [OF assms(1), of "tokenize q" "[]" empty_filters parts g] by simp
  with p show ?thesis by (simp add: storable_join)
qed

subsection \<open>Witnesses\<close>

definition ascii_unidata :: unidata where
  "ascii_unidata = \<lparr>u_lower = map ascii_lower, u_alnum = (\<lambda>c. ascii_digit c \<or> 97 \<le> ascii_lower c \<and> ascii_lower c \<le> 122),
     u_digit = (\<lambda>c. if ascii_digit c then Some (c - 48) else None)\<rparr>"

lemma ascii_laws: "unicode_laws ascii_unidata" "storage_laws ascii_unidata"
  by (auto simp: unicode_laws_def storage_laws_def ascii_unidata_def ascii_lower_def ascii_digit_def storable_def list_all_iff surrogate_def)

definition sample_filters :: api_filters where
  "sample_filters = \<lparr>af_unknown = [], af_account_ids = [[55]], af_folder_ids = [],
     af_from = Some \<lparr>pv_truthy = True, pv_is_str = True, pv_str = [97, 34, 32, 98]\<rparr>, af_to = None, af_subject = None,
     af_attachment_name = None, af_after = Some \<lparr>pv_truthy = True, pv_is_str = True, pv_str = [50, 48, 50, 48, 45, 49, 45, 49]\<rparr>,
     af_before = None, af_date_from = None, af_date_to = None, af_lang = NoLang, af_has_attachment = HasBool True\<rparr>"

definition sample_cli :: cli_filters where
  "sample_cli = \<lparr>cl_accounts = [[119]], cl_folders = [], cl_after = Some (2020, 2, 29), cl_before = None, cl_from = [97, 32, 98],
     cl_to = [], cl_subject = [], cl_has_attachment = True, cl_label = []\<rparr>"

text \<open>An apostrophe, an unclosed quote and an operator of the caller's own.\<close>

definition sample_text :: utext where "sample_text = [79, 39, 66, 32, 34, 97, 32, 116, 111, 58, 98]"

lemma ok_projr: "is_ok r \<Longrightarrow> r = Inr (projr r)"
  by (cases r) auto

lemmas parser_defs = parse_query_def tokenize_def emit_def uspace_def dq_def colon_def dash_def parse_token_def reject_unstorable_def
  surrogate_def op_of_def value_of_def operators_def fixed_shape_operators_def keep_text_def strip_dashes_def apply_operator_def
  parse_id_def digits_int_def ascii_digit_def max_str_digits_def parse_has_def lit_def ascii_unidata_def ascii_lower_def
  parse_date_def strptime_date_def year_directive_def month_directive_def day_directive_def nonzero_digit_def days_in_month_def

lemma sample_parses: "is_ok (parse_query ascii_unidata sample_text)"
  by (simp add: parser_defs sample_text_def Let_def)

lemma sample_composed:
  "build_query_string ascii_unidata sample_text sample_filters =
     Inr (join [key_token ''account_id'' [55], key_token ''from'' [34, 97, 32, 98, 34],
       key_token ''after'' [50, 48, 50, 48, 45, 49, 45, 49], key_token ''has'' (lit ''attachment''), sample_text])"
  by (simp add: build_query_string_def sample_filters_def filter_tokens_def quoted_token_def present_def quoted_filter_value_def
      date_token_def date_shape_def lang_tokens_def has_tokens_def nat_str.simps Let_def parser_defs sample_text_def)

lemma sample_query_parses:
  "is_ok (parse_query ascii_unidata (projr (build_query_string ascii_unidata sample_text sample_filters)))"
  unfolding sample_composed sum.sel by (simp add: key_token_def parser_defs sample_text_def empty_filters_def Let_def)

lemma sample_cli_composed:
  "compose_cli_query sample_text sample_cli =
     Inr (join [key_token ''account'' [34, 119, 34], key_token ''from'' [34, 97, 32, 98, 34],
       key_token ''after'' [50, 48, 50, 48, 45, 48, 50, 45, 50, 57], key_token ''has'' (lit ''attachment''), sample_text])"
  by (simp add: compose_cli_query_def sample_cli_def cli_tokens_def opt_list_def quoted_filter_value_def isoformat_date_def pad2
      pad4 Let_def parser_defs sample_text_def)

lemma sample_cli_parses: "is_ok (parse_query ascii_unidata (projr (compose_cli_query sample_text sample_cli)))"
  unfolding sample_cli_composed sum.sel by (simp add: key_token_def parser_defs sample_text_def empty_filters_def Let_def)

theorem structured_filters_survive_witness:
  "\<exists>p0. parse_query ascii_unidata sample_text = Inr p0 \<and>
     pq_filters (projr (parse_query ascii_unidata (projr (build_query_string ascii_unidata sample_text sample_filters)))) =
       overlay (api_meaning ascii_unidata sample_filters) (pq_filters p0)"
proof -
  have "is_ok (build_query_string ascii_unidata sample_text sample_filters)" by (simp add: sample_composed)
  from structured_filters_survive [OF ascii_laws(1) ok_projr [OF this] ok_projr [OF sample_query_parses]] show ?thesis by blast
qed

theorem cli_flags_survive_witness:
  "\<exists>p0. parse_query ascii_unidata sample_text = Inr p0 \<and>
     pq_filters (projr (parse_query ascii_unidata (projr (compose_cli_query sample_text sample_cli)))) =
       overlay (cli_meaning ascii_unidata sample_cli) (pq_filters p0)"
proof -
  have "is_ok (compose_cli_query sample_text sample_cli)" by (simp add: sample_cli_composed)
  from cli_flags_survive [OF ascii_laws(1) ok_projr [OF this] ok_projr [OF sample_cli_parses]] show ?thesis by blast
qed

theorem acl_clamp_exact_witness:
  "\<not> filter_sql \<lparr>fe_ilike = (\<lambda>s p. False), fe_name_contains = (\<lambda>ns v. False), fe_midnight = (\<lambda>d. 0)\<rparr>
      (pq_filters (clamp_account_ids_to_acl (resolve_account_names []
        \<lparr>pq_free_text = [], pq_filters = empty_filters\<lparr>account_ids := [1, 2]\<rparr>\<rparr>) (Some [1])))
      \<lparr>sr_account = 2, sr_from_addr = None, sr_from_name = None, sr_to_addrs = [], sr_subject = None, sr_date_sent = None,
       sr_has_attachment = False, sr_attachment_names = [], sr_labels = [], sr_body_lang = None\<rparr>"
  by (subst acl_clamp_exact) simp_all

theorem parsed_query_well_formed_witness:
  "storable (pq_free_text (projr (parse_query ascii_unidata sample_text))) \<and>
   well_formed (pq_filters (projr (parse_query ascii_unidata sample_text)))"
  using parsed_query_well_formed [OF ascii_laws(2) ok_projr [OF sample_parses]] .

end
