(* ===== verification/Keyset.thy ===== *)
theory Keyset
  imports QueryLang "HOL-Library.Product_Lexorder"
begin

text \<open>
  Keyset pagination: the browse list (\<open>api/browse.py\<close>) and the date-ordered search walk
  (\<open>search/date_keyset.py\<close>, \<open>Searcher._date_keyset_search\<close>), and the rules that decide how a
  cursor is continued (\<open>search/sort_axes.py\<close>, \<open>search/keyset_walk.py\<close>,
  \<open>api/search_cursor.py\<close>).

  A table is the list of its rows; a statement's rows are the rows its WHERE clause admits, sorted
  by its ORDER BY and cut at its LIMIT. A comparison with NULL admits no row. The base64 payload
  of a wire cursor is not modelled: a cursor is its decoded value. What a page promises is the
  locale \<open>keyset_pager\<close>, provided by both walks; its client is the caller that follows
  \<open>next_cursor\<close> to the end.
\<close>

subsection \<open>Rows and order\<close>

record mail_row =
  mr_id :: int
  mr_account :: int
  mr_folders :: "int list"
  mr_internal_date :: "instant option"
  mr_date_sent :: "instant option"

datatype sort_order = Asc | Desc

text \<open>\<open>COALESCE(internal_date, date_sent)\<close>, the expression \<open>DATE_EXPR_SQL\<close>.\<close>

definition date_expr :: "mail_row \<Rightarrow> instant option" where
  "date_expr r = (case mr_internal_date r of Some t \<Rightarrow> Some t | None \<Rightarrow> mr_date_sent r)"

text \<open>The two ORDER BYs: \<open>DESC NULLS LAST, id DESC\<close> and \<open>ASC NULLS FIRST, id ASC\<close>.\<close>

definition position_key :: "sort_order \<Rightarrow> instant option \<Rightarrow> int \<Rightarrow> int \<times> int \<times> int" where
  "position_key dir ts i =
     (case dir of
        Desc \<Rightarrow> (case ts of Some t \<Rightarrow> (0, - t, - i) | None \<Rightarrow> (1, 0, - i))
      | Asc \<Rightarrow> (case ts of None \<Rightarrow> (0, 0, i) | Some t \<Rightarrow> (1, t, i)))"

definition row_key :: "sort_order \<Rightarrow> mail_row \<Rightarrow> int \<times> int \<times> int" where
  "row_key dir r = position_key dir (date_expr r) (mr_id r)"

definition select_rows :: "sort_order \<Rightarrow> (mail_row \<Rightarrow> bool) \<Rightarrow> nat \<Rightarrow> mail_row list \<Rightarrow> mail_row list" where
  "select_rows dir cond limit tbl = take limit (sort_key (row_key dir) (filter cond tbl))"

subsection \<open>The browse list\<close>

record browse_cursor =
  bc_ts :: "instant option"
  bc_id :: int

definition intersect_account_ids :: "int list \<Rightarrow> int list option \<Rightarrow> int list" where
  "intersect_account_ids allowed requested =
     (case requested of
        None \<Rightarrow> allowed
      | Some ids \<Rightarrow> if ids = [] then allowed else sort (remdups (filter (\<lambda>a. a \<in> set ids) allowed)))"

definition row_before :: "instant option \<Rightarrow> int \<Rightarrow> instant \<Rightarrow> int \<Rightarrow> bool" where
  "row_before ts i t j = (case ts of None \<Rightarrow> False | Some s \<Rightarrow> s < t \<or> s = t \<and> i < j)"

datatype browse_fault = TopUpWithCursor

definition build_where ::
  "int list \<Rightarrow> int list option \<Rightarrow> browse_cursor option \<Rightarrow> bool \<Rightarrow> browse_fault + (mail_row \<Rightarrow> bool)" where
  "build_where accounts folder_filter cursor null_tail_only =
     (let base = (\<lambda>r. mr_account r \<in> set accounts \<and>
            (case folder_filter of None \<Rightarrow> True | Some fs \<Rightarrow> fs = [] \<or> list_ex (\<lambda>f. f \<in> set fs) (mr_folders r)))
      in if null_tail_only then
           (if cursor \<noteq> None then Inl TopUpWithCursor else Inr (\<lambda>r. base r \<and> date_expr r = None))
         else Inr (case cursor of
             None \<Rightarrow> base
           | Some c \<Rightarrow> (case bc_ts c of
                 None \<Rightarrow> (\<lambda>r. base r \<and> date_expr r = None \<and> mr_id r < bc_id c)
               | Some t \<Rightarrow> (\<lambda>r. base r \<and> row_before (date_expr r) (mr_id r) t (bc_id c)))))"

definition fetch_rows ::
  "mail_row list \<Rightarrow> int list \<Rightarrow> int list option \<Rightarrow> browse_cursor option \<Rightarrow> nat \<Rightarrow> bool \<Rightarrow> browse_fault + mail_row list" where
  "fetch_rows tbl accounts folder_filter cursor limit null_tail_only =
     bindr (build_where accounts folder_filter cursor null_tail_only) (\<lambda>cond. Inr (select_rows Desc cond limit tbl))"

text \<open>The page's rows and the next cursor.\<close>

definition list_messages ::
  "int list \<Rightarrow> int list option \<Rightarrow> int list option \<Rightarrow> nat \<Rightarrow> mail_row list \<Rightarrow> browse_cursor option \<Rightarrow>
   browse_fault + (mail_row list \<times> browse_cursor option)" where
  "list_messages allowed requested_ids folder_filter limit tbl cursor =
     (let accounts = intersect_account_ids allowed requested_ids
      in if allowed = [] \<or> accounts = [] then Inr ([], None)
         else
           bindr (fetch_rows tbl accounts folder_filter cursor (limit + 1) False) (\<lambda>rows.
           bindr (if cursor \<noteq> None \<and> bc_ts (the cursor) \<noteq> None \<and> length rows < limit + 1
                  then bindr (fetch_rows tbl accounts folder_filter None (limit + 1 - length rows) True) (\<lambda>more. Inr (rows @ more))
                  else Inr rows) (\<lambda>rows.
           let page = take limit rows
           in Inr (page, if length rows > limit \<and> page \<noteq> []
                         then Some \<lparr>bc_ts = date_expr (last page), bc_id = mr_id (last page)\<rparr> else None))))"

subsection \<open>The sort axes\<close>

datatype sort_mode = Rank | Date
datatype keyset_walk = TextWalk | ArchiveWalk

definition default_sort_mode :: sort_mode where "default_sort_mode = Rank"
definition textless_sort :: sort_mode where "textless_sort = Date"
definition default_sort_order :: sort_order where "default_sort_order = Desc"

definition is_rankable :: "unidata \<Rightarrow> utext \<Rightarrow> bool" where
  "is_rankable u free_text \<longleftrightarrow> semantic_text u free_text \<noteq> []"

definition resolve_sort :: "unidata \<Rightarrow> sort_mode option \<Rightarrow> utext \<Rightarrow> sort_mode" where
  "resolve_sort u requested free_text =
     (if \<not> is_rankable u free_text then textless_sort
      else case requested of None \<Rightarrow> default_sort_mode | Some s \<Rightarrow> s)"

definition sort_applicability_error :: "unidata \<Rightarrow> sort_mode option \<Rightarrow> utext \<Rightarrow> bool" where
  "sort_applicability_error u requested free_text \<longleftrightarrow>
     requested \<noteq> None \<and> \<not> is_rankable u free_text \<and> requested \<noteq> Some textless_sort"

definition sort_order_applicability_error :: "sort_mode \<Rightarrow> sort_order \<Rightarrow> bool" where
  "sort_order_applicability_error mode order \<longleftrightarrow> mode = Rank \<and> order = Asc"

definition ordering_pair_error :: "sort_mode \<Rightarrow> bool \<Rightarrow> bool" where
  "ordering_pair_error mode rankable \<longleftrightarrow> mode = Rank \<and> \<not> rankable"

definition walk_for_text :: "utext \<Rightarrow> keyset_walk" where
  "walk_for_text free_text = (if ustrip free_text \<noteq> [] then TextWalk else ArchiveWalk)"

definition keyset_walk_error :: "keyset_walk \<Rightarrow> utext \<Rightarrow> bool" where
  "keyset_walk_error cursor_walk free_text \<longleftrightarrow> cursor_walk = TextWalk \<and> walk_for_text free_text = ArchiveWalk"

subsection \<open>The date-ordered walk\<close>

record keyset_cursor =
  kc_ts :: "instant option"
  kc_id :: int
  kc_order :: sort_order
  kc_walk :: keyset_walk

definition row_after :: "instant option \<Rightarrow> int \<Rightarrow> instant \<Rightarrow> int \<Rightarrow> bool" where
  "row_after ts i t j = (case ts of None \<Rightarrow> False | Some s \<Rightarrow> t < s \<or> s = t \<and> j < i)"

definition keyset_clause :: "keyset_cursor \<Rightarrow> mail_row \<Rightarrow> bool" where
  "keyset_clause k r =
     (case kc_order k of
        Desc \<Rightarrow> (case kc_ts k of
            None \<Rightarrow> date_expr r = None \<and> mr_id r < kc_id k
          | Some t \<Rightarrow> row_before (date_expr r) (mr_id r) t (kc_id k))
      | Asc \<Rightarrow> (case kc_ts k of
            None \<Rightarrow> date_expr r = None \<and> mr_id r > kc_id k \<or> date_expr r \<noteq> None
          | Some t \<Rightarrow> row_after (date_expr r) (mr_id r) t (kc_id k)))"

definition needs_undated_top_up :: "keyset_cursor option \<Rightarrow> nat \<Rightarrow> nat \<Rightarrow> bool" where
  "needs_undated_top_up keyset rows_returned fetch_limit \<longleftrightarrow>
     (case keyset of None \<Rightarrow> False | Some k \<Rightarrow> kc_order k = Desc \<and> kc_ts k \<noteq> None \<and> rows_returned < fetch_limit)"

text \<open>
  \<open>cond\<close> is the match clause and the structured filters of the query; \<open>free_text\<close> is what the
  cursor's walk is stamped from.
\<close>

definition date_keyset_search ::
  "(mail_row \<Rightarrow> bool) \<Rightarrow> utext \<Rightarrow> nat \<Rightarrow> sort_order \<Rightarrow> mail_row list \<Rightarrow> keyset_cursor option \<Rightarrow> mail_row list \<times> keyset_cursor option" where
  "date_keyset_search cond free_text page_size order tbl keyset =
     (let fetch_limit = page_size + 1;
          rows = select_rows order (\<lambda>r. cond r \<and> (case keyset of None \<Rightarrow> True | Some k \<Rightarrow> keyset_clause k r)) fetch_limit tbl;
          rows = (if needs_undated_top_up keyset (length rows) fetch_limit
                  then rows @ select_rows order (\<lambda>r. cond r \<and> date_expr r = None) (fetch_limit - length rows) tbl
                  else rows);
          page = take page_size rows
      in (page, if length rows > page_size \<and> page \<noteq> []
                then Some \<lparr>kc_ts = date_expr (last page), kc_id = mr_id (last page), kc_order = order,
                           kc_walk = walk_for_text free_text\<rparr>
                else None))"

subsection \<open>How a cursor is continued\<close>

text \<open>The wire cursor, its prefix and payload read: a keyset position or a pool token and page.\<close>

datatype 'tok wire_cursor = KeysetWire keyset_cursor | PoolWire 'tok nat

datatype 'tok cursor_plan =
    FreshPlan sort_mode sort_order
  | KeysetPlan keyset_cursor
  | PoolPlan 'tok nat "sort_mode option" "sort_order option"

datatype plan_error = SortNotApplicable | SortOrderNotApplicable | SortMismatch | OrderMismatch | WalkNeedsQuery

definition keyset_sort :: sort_mode where "keyset_sort = textless_sort"

definition reject_sort_mismatch :: "sort_mode option \<Rightarrow> sort_mode \<Rightarrow> plan_error option" where
  "reject_sort_mismatch requested cursor_sort =
     (if requested \<noteq> None \<and> requested \<noteq> Some cursor_sort then Some SortMismatch else None)"

definition reject_order_mismatch :: "sort_order option \<Rightarrow> sort_order \<Rightarrow> plan_error option" where
  "reject_order_mismatch requested cursor_order =
     (if requested \<noteq> None \<and> requested \<noteq> Some cursor_order then Some OrderMismatch else None)"

definition reject_pool_sort_mismatch ::
  "sort_mode option \<Rightarrow> sort_order option \<Rightarrow> sort_mode \<Rightarrow> sort_order \<Rightarrow> plan_error option" where
  "reject_pool_sort_mismatch rs ro pool_sort pool_order =
     (case reject_sort_mismatch rs pool_sort of Some e \<Rightarrow> Some e | None \<Rightarrow> reject_order_mismatch ro pool_order)"

definition resolve_cursor_plan ::
  "unidata \<Rightarrow> 'tok wire_cursor option \<Rightarrow> sort_mode option \<Rightarrow> sort_order option \<Rightarrow> utext \<Rightarrow> plan_error + 'tok cursor_plan" where
  "resolve_cursor_plan u cursor rs ro free_text =
     (case cursor of
        None \<Rightarrow>
          if sort_applicability_error u rs free_text then Inl SortNotApplicable
          else
            (let mode = resolve_sort u rs free_text; order = (case ro of None \<Rightarrow> default_sort_order | Some r \<Rightarrow> r)
             in if sort_order_applicability_error mode order then Inl SortOrderNotApplicable
                else Inr (FreshPlan mode order))
      | Some (KeysetWire ks) \<Rightarrow>
          (case reject_sort_mismatch rs keyset_sort of Some e \<Rightarrow> Inl e
           | None \<Rightarrow>
             (case reject_order_mismatch ro (kc_order ks) of Some e \<Rightarrow> Inl e
              | None \<Rightarrow> if keyset_walk_error (kc_walk ks) free_text then Inl WalkNeedsQuery else Inr (KeysetPlan ks)))
      | Some (PoolWire tok page) \<Rightarrow>
          if rs \<noteq> None \<and> ro \<noteq> None \<and> sort_order_applicability_error (the rs) (the ro) then Inl SortOrderNotApplicable
          else Inr (PoolPlan tok page rs ro))"

subsection \<open>The contract of a pager\<close>

text \<open>A caller that follows the next cursor; each page reads the table as it then is. The flag says it reached the end.\<close>

fun follow :: "('r list \<Rightarrow> 'c option \<Rightarrow> 'r list \<times> 'c option) \<Rightarrow> 'r list list \<Rightarrow> 'c option \<Rightarrow> 'r list \<times> bool" where
  "follow page [] c = ([], False)"
| "follow page (t # ts) c =
     (case page t c of
        (rows, None) \<Rightarrow> (rows, True)
      | (rows, Some k) \<Rightarrow> (case follow page ts (Some k) of (rs, fin) \<Rightarrow> (rows @ rs, fin)))"

definition beyond :: "('c \<Rightarrow> 'k :: linorder) \<Rightarrow> 'c option \<Rightarrow> 'k \<Rightarrow> bool" where
  "beyond pos c x = (case c of None \<Rightarrow> True | Some k \<Rightarrow> pos k < x)"

lemma beyond_Some [simp]: "beyond pos (Some k) x \<longleftrightarrow> pos k < x"
  by (simp add: beyond_def)

lemma beyond_trans: "beyond pos c y \<Longrightarrow> y < x \<Longrightarrow> beyond pos c x"
  by (auto simp: beyond_def split: option.splits)

definition matching :: "('r \<Rightarrow> 'k :: linorder) \<Rightarrow> ('r \<Rightarrow> bool) \<Rightarrow> 'r list \<Rightarrow> 'r list" where
  "matching key admits t = sort_key key (filter admits t)"

definition remaining :: "('r \<Rightarrow> 'k :: linorder) \<Rightarrow> ('r \<Rightarrow> bool) \<Rightarrow> ('c \<Rightarrow> 'k) \<Rightarrow> 'r list \<Rightarrow> 'c option \<Rightarrow> 'r list" where
  "remaining key admits pos t c = filter (\<lambda>r. beyond pos c (key r)) (matching key admits t)"

abbreviation strictly :: "('r \<Rightarrow> 'k :: linorder) \<Rightarrow> 'r list \<Rightarrow> bool" where
  "strictly key xs \<equiv> sorted_wrt (\<lambda>a b. key a < key b) xs"

lemma strictly_matching:
  assumes "distinct (map key t)"
  shows "strictly key (matching key admits t)"
proof -
  have "distinct (map key (matching key admits t))"
    using assms by (auto simp: matching_def distinct_map intro: inj_on_subset)
  moreover have "sorted (map key (matching key admits t))" by (simp add: matching_def)
  ultimately have "sorted_wrt (<) (map key (matching key admits t))" by (simp add: strict_sorted_iff)
  then show ?thesis by (simp add: sorted_wrt_map)
qed

lemma strictly_remaining: "distinct (map key t) \<Longrightarrow> strictly key (remaining key admits pos t c)"
  by (simp add: remaining_def strictly_matching sorted_wrt_filter)

lemma strictly_filter_last:
  assumes "strictly key xs" "0 < n" "n < length xs"
  shows "filter (\<lambda>r. key (last (take n xs)) < key r) xs = drop n xs"
proof -
  define pre where "pre = take n xs"
  define suf where "suf = drop n xs"
  have xs: "xs = pre @ suf" "pre \<noteq> []" using assms by (auto simp: pre_def suf_def)
  then have ord: "strictly key pre" "strictly key suf" "\<And>a b. a \<in> set pre \<Longrightarrow> b \<in> set suf \<Longrightarrow> key a < key b"
    using assms(1) by (auto simp: sorted_wrt_append)
  obtain ys y where pre: "pre = ys @ [y]" using xs(2) by (cases pre rule: rev_cases) auto
  have "filter (\<lambda>r. key y < key r) pre = []"
    using ord(1) by (auto simp: pre filter_empty_conv sorted_wrt_append dest: less_asym)
  moreover have "filter (\<lambda>r. key y < key r) suf = suf" using ord(3) by (simp add: pre filter_id_conv)
  ultimately have "filter (\<lambda>r. key (last pre) < key r) (pre @ suf) = suf" by (simp add: pre)
  with xs(1) show ?thesis by (simp add: pre_def suf_def)
qed

locale keyset_pager =
  fixes key :: "'p \<Rightarrow> 'r \<Rightarrow> 'k :: linorder"
    and admits :: "'p \<Rightarrow> 'r \<Rightarrow> bool"
    and pos :: "'p \<Rightarrow> 'c \<Rightarrow> 'k"
    and minted :: "'p \<Rightarrow> 'c \<Rightarrow> bool"
    and page :: "'p \<Rightarrow> nat \<Rightarrow> 'r list \<Rightarrow> 'c option \<Rightarrow> 'r list \<times> 'c option"
  assumes page_rows: "pred_option (minted p) c \<Longrightarrow>
      fst (page p n t c) = take n (remaining (key p) (admits p) (pos p) t c)"
    and page_end: "pred_option (minted p) c \<Longrightarrow> 0 < n \<Longrightarrow> snd (page p n t c) = None \<longleftrightarrow>
      length (remaining (key p) (admits p) (pos p) t c) \<le> n"
    and page_next: "pred_option (minted p) c \<Longrightarrow> 0 < n \<Longrightarrow> snd (page p n t c) = Some k \<Longrightarrow>
      minted p k \<and> pos p k = key p (last (fst (page p n t c)))"
begin

lemma follow_next:
  assumes "pred_option (minted p) c" "0 < n" "snd (page p n t c) = Some k" "distinct (map (key p) t)"
  shows "minted p k" "fst (page p n t c) \<noteq> []"
    and "beyond (pos p) c (pos p k)"
    and "r \<in> set (remaining (key p) (admits p) (pos p) t c) \<Longrightarrow> r \<in> set (fst (page p n t c)) \<or> pos p k < key p r"
    and "r \<in> set (fst (page p n t c)) \<Longrightarrow> key p r \<le> pos p k"
    and "remaining (key p) (admits p) (pos p) t (Some k) = drop n (remaining (key p) (admits p) (pos p) t c)"
proof -
  define xs where "xs = remaining (key p) (admits p) (pos p) t c"
  have st: "strictly (key p) xs" unfolding xs_def by (rule strictly_remaining [OF assms(4)])
  have rows: "fst (page p n t c) = take n xs" using page_rows [OF assms(1)] by (simp add: xs_def)
  have long: "n < length xs" using page_end [OF assms(1,2), of t] assms(3) by (simp add: xs_def)
  have k: "minted p k" "pos p k = key p (last (take n xs))" using page_next [OF assms(1-3)] rows by auto
  have ne: "take n xs \<noteq> []" using long assms(2) by auto
  note split = strictly_filter_last [OF st assms(2) long]
  show "minted p k" by (rule k(1))
  show "fst (page p n t c) \<noteq> []" using ne rows by simp
  have last: "last (take n xs) \<in> set xs" using last_in_set [OF ne] by (rule in_set_takeD)
  then show bey: "beyond (pos p) c (pos p k)" by (simp add: xs_def remaining_def k(2))
  have parts: "r \<in> set xs \<longleftrightarrow> r \<in> set (take n xs) \<or> r \<in> set (drop n xs)" for r
    by (metis Un_iff append_take_drop_id set_append)
  show "r \<in> set (remaining (key p) (admits p) (pos p) t c) \<Longrightarrow> r \<in> set (fst (page p n t c)) \<or> pos p k < key p r"
  proof -
    assume "r \<in> set (remaining (key p) (admits p) (pos p) t c)"
    then have "r \<in> set (take n xs) \<or> r \<in> set (drop n xs)" using parts xs_def by blast
    moreover have "r \<in> set (drop n xs) \<Longrightarrow> pos p k < key p r" unfolding split [symmetric] k(2) by simp
    ultimately show ?thesis using rows by auto
  qed
  show "r \<in> set (fst (page p n t c)) \<Longrightarrow> key p r \<le> pos p k"
  proof -
    assume "r \<in> set (fst (page p n t c))"
    then have r: "r \<in> set (take n xs)" by (simp add: rows)
    obtain ys y where tk: "take n xs = ys @ [y]" using ne by (cases "take n xs" rule: rev_cases) auto
    have "strictly (key p) (take n xs)" using st by (rule sorted_wrt_take)
    with r tk show ?thesis by (auto simp: k(2) sorted_wrt_append)
  qed
  have "remaining (key p) (admits p) (pos p) t (Some k) = filter (\<lambda>r. pos p k < key p r) xs"
    using beyond_trans [OF bey] by (auto simp: xs_def remaining_def intro!: filter_cong)
  with split k(2) show "remaining (key p) (admits p) (pos p) t (Some k) = drop n (remaining (key p) (admits p) (pos p) t c)"
    by (simp add: xs_def)
qed

lemma follow_robust:
  assumes "0 < n" "pred_option (minted p) c" "\<forall>t \<in> set ts. distinct (map (key p) t)" "follow (page p n) ts c = (rows, fin)"
  shows "strictly (key p) rows \<and> (\<forall>r \<in> set rows. beyond (pos p) c (key p r) \<and> admits p r \<and> (\<exists>t \<in> set ts. r \<in> set t)) \<and>
    (fin \<longrightarrow> (\<forall>r. admits p r \<and> beyond (pos p) c (key p r) \<and> (\<forall>t \<in> set ts. r \<in> set t) \<longrightarrow> r \<in> set rows))"
  using assms(2-4)
proof (induction ts arbitrary: c rows)
  case (Cons t ts)
  let ?rest = "remaining (key p) (admits p) (pos p) t c"
  have dt: "distinct (map (key p) t)" using Cons.prems(2) by simp
  have pg: "fst (page p n t c) = take n ?rest" by (rule page_rows [OF Cons.prems(1)])
  have st: "strictly (key p) (take n ?rest)" by (rule sorted_wrt_take [OF strictly_remaining [OF dt]])
  have mem: "r \<in> set ?rest \<longleftrightarrow> r \<in> set t \<and> admits p r \<and> beyond (pos p) c (key p r)" for r
    by (auto simp: remaining_def matching_def)
  have sub: "r \<in> set (take n ?rest) \<Longrightarrow> r \<in> set t \<and> admits p r \<and> beyond (pos p) c (key p r)" for r
    using in_set_takeD [of r n ?rest] mem by blast
  show ?case
  proof (cases "snd (page p n t c)")
    case None
    then have "rows = take n ?rest" "take n ?rest = ?rest"
      using Cons.prems(3) pg page_end [OF Cons.prems(1) assms(1), of t] by (auto split: prod.splits)
    then show ?thesis using st sub mem by auto
  next
    case (Some k)
    note nx = follow_next [OF Cons.prems(1) assms(1) Some dt]
    obtain rs where rs: "follow (page p n) ts (Some k) = (rs, fin)" "rows = take n ?rest @ rs"
      using Cons.prems(3) Some pg by (auto split: prod.splits)
    have IH: "strictly (key p) rs" "\<And>r. r \<in> set rs \<Longrightarrow> pos p k < key p r \<and> admits p r \<and> (\<exists>t \<in> set ts. r \<in> set t)"
        "fin \<Longrightarrow> admits p r \<Longrightarrow> pos p k < key p r \<Longrightarrow> \<forall>t \<in> set ts. r \<in> set t \<Longrightarrow> r \<in> set rs" for r
      using Cons.IH [of "Some k" rs] nx(1) Cons.prems(2) rs(1) by auto
    have "strictly (key p) rows"
      using st IH(1,2) nx(5) by (fastforce simp: rs(2) sorted_wrt_append pg dest: order_le_less_trans)
    moreover have "r \<in> set rs \<Longrightarrow> beyond (pos p) c (key p r)" for r using IH(2) beyond_trans [OF nx(3)] by blast
    moreover have "fin \<Longrightarrow> admits p r \<Longrightarrow> beyond (pos p) c (key p r) \<Longrightarrow> \<forall>t \<in> set (t # ts). r \<in> set t \<Longrightarrow> r \<in> set rows" for r
      using nx(4) [of r] mem [of r] IH(3) [of r] by (auto simp: rs(2) pg)
    ultimately show ?thesis using sub IH(2) by (auto simp: rs(2))
  qed
qed simp

lemma follow_static:
  assumes "0 < n" "distinct (map (key p) t)" "pred_option (minted p) c"
    and "length (remaining (key p) (admits p) (pos p) t c) < m"
  shows "follow (page p n) (replicate m t) c = (remaining (key p) (admits p) (pos p) t c, True)"
  using assms(3,4)
proof (induction m arbitrary: c)
  case (Suc m)
  let ?rest = "remaining (key p) (admits p) (pos p) t c"
  have pg: "fst (page p n t c) = take n ?rest" by (rule page_rows [OF Suc.prems(1)])
  show ?case
  proof (cases "snd (page p n t c)")
    case None
    then show ?thesis using pg page_end [OF Suc.prems(1) assms(1), of t] by (auto split: prod.splits)
  next
    case (Some k)
    note nx = follow_next [OF Suc.prems(1) assms(1) Some assms(2)]
    have "length ?rest \<noteq> 0" using nx(2) pg by auto
    then have "length (drop n ?rest) < m" using Suc.prems(2) assms(1) by (simp only: length_drop)
    with Suc.IH [of "Some k"] nx(1,6) have "follow (page p n) (replicate m t) (Some k) = (drop n ?rest, True)" by simp
    then show ?thesis using Some pg append_take_drop_id [of n ?rest] by (auto split: prod.splits)
  qed
qed simp

end

subsection \<open>Both walks are pagers\<close>

lemma bindr_assoc: "bindr (bindr r f) g = bindr r (\<lambda>x. bindr (f x) g)"
  by (cases r) simp_all

lemma insort_append_left: "\<forall>b \<in> set B. key x < key b \<Longrightarrow> insort_key key x (A @ B) = insort_key key x A @ B"
  by (induction A) (cases B, auto)

lemma insort_append_right: "\<forall>a \<in> set A. key a < key x \<Longrightarrow> insort_key key x (A @ B) = A @ insort_key key x B"
  by (induction A) auto

lemma sort_key_split:
  assumes "\<And>a b. P a \<Longrightarrow> Q b \<Longrightarrow> key a < key b"
  shows "sort_key key (filter (\<lambda>r. P r \<or> Q r) t) = sort_key key (filter P t) @ sort_key key (filter Q t)"
proof (induction t)
  case (Cons x t)
  have "P x \<Longrightarrow> \<not> Q x" using assms by blast
  with Cons assms show ?case by (auto simp: insort_append_left insort_append_right)
qed simp

lemma remaining_sorted:
  "remaining key admits pos t c = sort_key key (filter (\<lambda>r. admits r \<and> beyond pos c (key r)) t)"
  by (simp add: remaining_def matching_def filter_sort conj_commute)

lemma position_key_less:
  "position_key Desc (Some t) j < position_key Desc ts i \<longleftrightarrow> ts = None \<or> row_before ts i t j"
  "position_key Desc None j < position_key Desc ts i \<longleftrightarrow> ts = None \<and> i < j"
  "position_key Asc (Some t) j < position_key Asc ts i \<longleftrightarrow> row_after ts i t j"
  "position_key Asc None j < position_key Asc ts i \<longleftrightarrow> ts = None \<and> j < i \<or> ts \<noteq> None"
  by (auto simp: position_key_def row_before_def row_after_def split: option.splits)

lemma dated_before_undated:
  "row_before (date_expr a) i t j \<Longrightarrow> date_expr b = None \<Longrightarrow> row_key Desc a < row_key Desc b"
  by (auto simp: row_key_def position_key_def row_before_def split: option.splits)

lemma top_up_take:
  "(let rows = take m A in if length rows < m then rows @ take (m - length rows) B else rows) = take m (A @ B)"
  by (auto simp: Let_def)

text \<open>The rows of a dated descending page and its top-up are those of one statement over the rows beyond the cursor.\<close>

lemma top_up_rows:
  "(let rows = select_rows Desc (\<lambda>r. cond r \<and> row_before (date_expr r) (mr_id r) t j) m tbl
    in if length rows < m then rows @ select_rows Desc (\<lambda>r. cond r \<and> date_expr r = None) (m - length rows) tbl else rows) =
   take m (sort_key (row_key Desc) (filter (\<lambda>r. cond r \<and> (date_expr r = None \<or> row_before (date_expr r) (mr_id r) t j)) tbl))"
proof -
  let ?dated = "\<lambda>r. cond r \<and> row_before (date_expr r) (mr_id r) t j" and ?undated = "\<lambda>r. cond r \<and> date_expr r = None"
  have "sort_key (row_key Desc) (filter (\<lambda>r. ?dated r \<or> ?undated r) tbl) =
      sort_key (row_key Desc) (filter ?dated tbl) @ sort_key (row_key Desc) (filter ?undated tbl)"
    by (rule sort_key_split) (auto intro: dated_before_undated)
  moreover have "(\<lambda>r. ?dated r \<or> ?undated r) =
      (\<lambda>r. cond r \<and> (date_expr r = None \<or> row_before (date_expr r) (mr_id r) t j))"
    by auto
  ultimately show ?thesis by (simp only: select_rows_def top_up_take)
qed

definition browse_admits :: "int list \<times> int list option \<times> int list option \<Rightarrow> mail_row \<Rightarrow> bool" where
  "browse_admits p r = (case p of (allowed, requested, folder_filter) \<Rightarrow>
     mr_account r \<in> set allowed \<and> (case requested of None \<Rightarrow> True | Some ids \<Rightarrow> ids = [] \<or> mr_account r \<in> set ids) \<and>
     (case folder_filter of None \<Rightarrow> True | Some fs \<Rightarrow> fs = [] \<or> list_ex (\<lambda>f. f \<in> set fs) (mr_folders r)))"

definition browse_position :: "browse_cursor \<Rightarrow> int \<times> int \<times> int" where
  "browse_position c = position_key Desc (bc_ts c) (bc_id c)"

abbreviation browse_remaining where
  "browse_remaining p t c \<equiv> remaining (row_key Desc) (browse_admits p) browse_position t c"

lemma intersect_mem: "a \<in> set (intersect_account_ids allowed requested) \<longleftrightarrow>
    a \<in> set allowed \<and> (case requested of None \<Rightarrow> True | Some ids \<Rightarrow> ids = [] \<or> a \<in> set ids)"
  by (auto simp: intersect_account_ids_def split: option.splits)

lemma list_messages_rows:
  "list_messages allowed requested fs n t c =
     (let rest = browse_remaining (allowed, requested, fs) t c
      in Inr (take n rest, if n < length rest \<and> take n rest \<noteq> []
            then Some \<lparr>bc_ts = date_expr (last (take n rest)), bc_id = mr_id (last (take n rest))\<rparr> else None))"
proof (cases "intersect_account_ids allowed requested = []")
  case True
  then have "\<not> browse_admits (allowed, requested, fs) r" for r
    using intersect_mem [of "mr_account r" allowed requested] by (auto simp: browse_admits_def)
  then have "browse_remaining (allowed, requested, fs) t c = []" by (simp add: remaining_sorted)
  with True show ?thesis by (simp add: list_messages_def)
next
  case False
  define cond where "cond = browse_admits (allowed, requested, fs)"
  define rest where "rest = browse_remaining (allowed, requested, fs) t c"
  have base: "(\<lambda>r. mr_account r \<in> set (intersect_account_ids allowed requested) \<and>
      (case fs of None \<Rightarrow> True | Some fs \<Rightarrow> fs = [] \<or> list_ex (\<lambda>f. f \<in> set fs) (mr_folders r))) = cond"
    by (auto simp: cond_def browse_admits_def intersect_mem fun_eq_iff)
  have ne: "allowed \<noteq> []" using False by (auto simp: intersect_account_ids_def split: option.splits if_splits)
  have rest: "rest = sort_key (row_key Desc) (filter (\<lambda>r. cond r \<and> beyond browse_position c (row_key Desc r)) t)"
    by (simp add: rest_def remaining_sorted cond_def)
  have "bindr (fetch_rows t (intersect_account_ids allowed requested) fs c (n + 1) False) (\<lambda>rows.
      if c \<noteq> None \<and> bc_ts (the c) \<noteq> None \<and> length rows < n + 1
      then bindr (fetch_rows t (intersect_account_ids allowed requested) fs None (n + 1 - length rows) True) (\<lambda>more. Inr (rows @ more))
      else Inr rows) = Inr (take (n + 1) rest)"
  proof -
    consider "c = None" | k where "c = Some k" "bc_ts k = None" | k ts where "c = Some k" "bc_ts k = Some ts"
      by (metis not_None_eq)
    then show ?thesis
    proof cases
      case 1
      then show ?thesis by (simp add: fetch_rows_def build_where_def base Let_def select_rows_def rest beyond_def)
    next
      case 2
      then show ?thesis
        by (simp add: fetch_rows_def build_where_def base Let_def select_rows_def rest browse_position_def row_key_def position_key_less conj_ac)
    next
      case 3
      with top_up_rows [of cond ts "bc_id k" "n + 1" t] show ?thesis
        by (auto simp: fetch_rows_def build_where_def base Let_def rest browse_position_def row_key_def position_key_less split: if_splits)
    qed
  qed
  then have "list_messages allowed requested fs n t c =
      (let rows = take (n + 1) rest; page = take n rows
       in Inr (page, if length rows > n \<and> page \<noteq> []
            then Some \<lparr>bc_ts = date_expr (last page), bc_id = mr_id (last page)\<rparr> else None))"
    using False ne by (simp add: list_messages_def bindr_assoc [symmetric] Let_def)
  then show ?thesis by (simp add: Let_def rest_def min_def)
qed

definition keyset_position :: "keyset_cursor \<Rightarrow> int \<times> int \<times> int" where
  "keyset_position k = position_key (kc_order k) (kc_ts k) (kc_id k)"

abbreviation walk_remaining where
  "walk_remaining cond order t c \<equiv> remaining (row_key order) cond keyset_position t c"

lemma keyset_clause_beyond:
  "kc_order k = Asc \<or> kc_ts k = None \<Longrightarrow> keyset_clause k r \<longleftrightarrow> keyset_position k < row_key (kc_order k) r"
  by (cases "kc_ts k"; cases "kc_order k")
    (auto simp: keyset_clause_def keyset_position_def row_key_def position_key_less)

lemma date_keyset_rows:
  assumes "pred_option (\<lambda>k. kc_order k = order) c"
  shows "date_keyset_search cond ft n order t c =
     (let rest = walk_remaining cond order t c
      in (take n rest, if n < length rest \<and> take n rest \<noteq> []
            then Some \<lparr>kc_ts = date_expr (last (take n rest)), kc_id = mr_id (last (take n rest)), kc_order = order,
                       kc_walk = walk_for_text ft\<rparr> else None))"
proof -
  define rest where "rest = walk_remaining cond order t c"
  define rows where "rows = select_rows order (\<lambda>r. cond r \<and> (case c of None \<Rightarrow> True | Some k \<Rightarrow> keyset_clause k r)) (n + 1) t"
  have "(if needs_undated_top_up c (length rows) (n + 1)
      then rows @ select_rows order (\<lambda>r. cond r \<and> date_expr r = None) (n + 1 - length rows) t else rows) = take (n + 1) rest"
  proof -
    consider "c = None" | k where "c = Some k" "kc_order k = order" "order = Asc \<or> kc_ts k = None"
      | k ts where "c = Some k" "kc_order k = Desc" "order = Desc" "kc_ts k = Some ts"
      using assms by (cases c; cases order) (auto simp: option.pred_set)
    then show ?thesis
    proof cases
      case 1
      then show ?thesis by (simp add: rows_def rest_def remaining_sorted select_rows_def needs_undated_top_up_def beyond_def)
    next
      case 2
      then show ?thesis using keyset_clause_beyond [of k]
        by (auto simp: rows_def rest_def remaining_sorted select_rows_def needs_undated_top_up_def)
    next
      case 3
      then show ?thesis using top_up_rows [of cond ts "kc_id k" "n + 1" t]
        by (auto simp: rows_def rest_def remaining_sorted needs_undated_top_up_def keyset_clause_def keyset_position_def row_key_def
            position_key_less Let_def split: if_splits)
    qed
  qed
  then have "date_keyset_search cond ft n order t c =
      (let rows = take (n + 1) rest; page = take n rows
       in (page, if length rows > n \<and> page \<noteq> []
            then Some \<lparr>kc_ts = date_expr (last page), kc_id = mr_id (last page), kc_order = order, kc_walk = walk_for_text ft\<rparr> else None))"
    by (simp only: date_keyset_search_def rows_def Let_def)
  then show ?thesis by (simp add: Let_def rest_def min_def)
qed

interpretation browse: keyset_pager "\<lambda>p. row_key Desc" browse_admits "\<lambda>p. browse_position" "\<lambda>p c. True"
    "\<lambda>(allowed, requested, fs) n t c. projr (list_messages allowed requested fs n t c)"
  by unfold_locales
    (auto simp: list_messages_rows Let_def browse_position_def row_key_def split: if_splits)

lemma walk_next_position:
  assumes "pred_option (\<lambda>k. kc_order k = order) c" "snd (date_keyset_search cond ft n order t c) = Some k"
  shows "kc_order k = order \<and> keyset_position k = row_key order (last (fst (date_keyset_search cond ft n order t c)))"
  using assms(2) by (simp add: date_keyset_rows [OF assms(1)] Let_def split: if_splits) (auto simp: keyset_position_def row_key_def)

interpretation walk: keyset_pager "\<lambda>(cond, ft, order). row_key order" "\<lambda>(cond, ft, order). cond" "\<lambda>p. keyset_position"
    "\<lambda>(cond, ft, order) k. kc_order k = order" "\<lambda>(cond, ft, order) n t c. date_keyset_search cond ft n order t c"
proof unfold_locales
  fix p :: "(mail_row \<Rightarrow> bool) \<times> utext \<times> sort_order" and c :: "keyset_cursor option" and n t k
  obtain cond ft order where p: "p = (cond, ft, order)" by (cases p)
  assume "pred_option ((\<lambda>(cond, ft, order) k. kc_order k = order) p) c"
  then have c: "pred_option (\<lambda>k. kc_order k = order) c" by (simp add: p)
  note rows = date_keyset_rows [OF c, of cond ft n t]
  show "fst ((\<lambda>(cond, ft, order) n t c. date_keyset_search cond ft n order t c) p n t c) =
      take n (remaining ((\<lambda>(cond, ft, order). row_key order) p) ((\<lambda>(cond, ft, order). cond) p) keyset_position t c)"
    by (simp add: p rows Let_def)
  assume "0 < n"
  then show "snd ((\<lambda>(cond, ft, order) n t c. date_keyset_search cond ft n order t c) p n t c) = None \<longleftrightarrow>
      length (remaining ((\<lambda>(cond, ft, order). row_key order) p) ((\<lambda>(cond, ft, order). cond) p) keyset_position t c) \<le> n"
    by (auto simp: p rows Let_def)
  assume "snd ((\<lambda>(cond, ft, order) n t c. date_keyset_search cond ft n order t c) p n t c) = Some k"
  then show "(\<lambda>(cond, ft, order) k. kc_order k = order) p k \<and> keyset_position k = (\<lambda>(cond, ft, order). row_key order) p
      (last (fst ((\<lambda>(cond, ft, order) n t c. date_keyset_search cond ft n order t c) p n t c)))"
    using walk_next_position [OF c, of cond ft n t k] by (simp add: p)
qed

lemma distinct_row_keys: "distinct (map mr_id t) \<Longrightarrow> distinct (map (row_key order) t)"
proof -
  have "row_key order a = row_key order b \<Longrightarrow> mr_id a = mr_id b" for a b
    by (auto simp: row_key_def position_key_def split: option.splits sort_order.splits)
  then have "inj_on mr_id (set t) \<Longrightarrow> inj_on (row_key order) (set t)" by (meson inj_onD inj_onI)
  then show "distinct (map mr_id t) \<Longrightarrow> distinct (map (row_key order) t)" by (simp add: distinct_map)
qed

text \<open>
  C15. Following the browse list's cursor to its end serves every message the request may see
  exactly once, newest first and undated last: on a table that does not change the pages,
  concatenated, are the sorted list of the admitted rows, and at most one page per row and one
  more are needed; while other sessions insert and delete rows, the served rows are still
  strictly ordered, admitted by the access list, and include every admitted row that was there
  all along.
\<close>

theorem browse_serves_everything_once:
  assumes "0 < limit" "\<forall>t \<in> set (tbl # tbls). distinct (map mr_id t)"
    and "follow (\<lambda>t c. projr (list_messages allowed requested fs limit t c)) tbls None = (rows, fin)"
  shows "follow (\<lambda>t c. projr (list_messages allowed requested fs limit t c)) (replicate (length tbl + 1) tbl) None =
      (sort_key (row_key Desc) (filter (browse_admits (allowed, requested, fs)) tbl), True) \<and>
    strictly (row_key Desc) rows \<and> (\<forall>r \<in> set rows. browse_admits (allowed, requested, fs) r) \<and>
    (fin \<longrightarrow> (\<forall>r. browse_admits (allowed, requested, fs) r \<and> (\<forall>t \<in> set tbls. r \<in> set t) \<longrightarrow> r \<in> set rows))"
proof (intro conjI)
  let ?p = "(allowed, requested, fs)"
  have d: "\<forall>t \<in> set (tbl # tbls). distinct (map (row_key Desc) t)" using assms(2) distinct_row_keys by blast
  have "length (browse_remaining ?p tbl None) < length tbl + 1"
    by (simp add: remaining_def matching_def beyond_def less_Suc_eq_le)
  from browse.follow_static [OF assms(1), of tbl None ?p "length tbl + 1"] d this
  show "follow (\<lambda>t c. projr (list_messages allowed requested fs limit t c)) (replicate (length tbl + 1) tbl) None =
      (sort_key (row_key Desc) (filter (browse_admits ?p) tbl), True)"
    by (simp add: remaining_def matching_def beyond_def)
  from browse.follow_robust [OF assms(1), of None tbls ?p rows fin] d assms(3)
  have all: "strictly (row_key Desc) rows \<and> (\<forall>r \<in> set rows. browse_admits ?p r) \<and>
      (fin \<longrightarrow> (\<forall>r. browse_admits ?p r \<and> (\<forall>t \<in> set tbls. r \<in> set t) \<longrightarrow> r \<in> set rows))"
    by (simp add: beyond_def)
  then show "strictly (row_key Desc) rows" "\<forall>r \<in> set rows. browse_admits ?p r"
    "fin \<longrightarrow> (\<forall>r. browse_admits ?p r \<and> (\<forall>t \<in> set tbls. r \<in> set t) \<longrightarrow> r \<in> set rows)"
    by blast+
qed

lemma walk_exhausts:
  assumes "0 < page_size" "distinct (map mr_id tbl)"
  shows "follow (date_keyset_search cond ft page_size order) (replicate (length tbl + 1) tbl) None =
    (sort_key (row_key order) (filter cond tbl), True)"
proof -
  have "length (walk_remaining cond order tbl None) < length tbl + 1"
    by (simp add: remaining_def matching_def beyond_def less_Suc_eq_le)
  from walk.follow_static [OF assms(1), of "(cond, ft, order)" tbl None "length tbl + 1"] distinct_row_keys [OF assms(2)] this
  show ?thesis by (simp add: remaining_def matching_def beyond_def)
qed

text \<open>
  C16. The same for the date-ordered search walk, in both directions: newest first with the
  undated mail last, oldest first with the undated mail first.
\<close>

theorem search_walk_serves_everything_once:
  assumes "0 < page_size" "\<forall>t \<in> set (tbl # tbls). distinct (map mr_id t)"
    and "follow (date_keyset_search cond ft page_size order) tbls None = (rows, fin)"
  shows "follow (date_keyset_search cond ft page_size order) (replicate (length tbl + 1) tbl) None =
      (sort_key (row_key order) (filter cond tbl), True) \<and>
    strictly (row_key order) rows \<and> (\<forall>r \<in> set rows. cond r) \<and>
    (fin \<longrightarrow> (\<forall>r. cond r \<and> (\<forall>t \<in> set tbls. r \<in> set t) \<longrightarrow> r \<in> set rows))"
proof (intro conjI)
  let ?p = "(cond, ft, order)"
  have d: "\<forall>t \<in> set (tbl # tbls). distinct (map (row_key order) t)" using assms(2) distinct_row_keys by blast
  show "follow (date_keyset_search cond ft page_size order) (replicate (length tbl + 1) tbl) None =
      (sort_key (row_key order) (filter cond tbl), True)"
    using walk_exhausts [OF assms(1)] assms(2) by simp
  from walk.follow_robust [OF assms(1), of ?p None tbls rows fin] d assms(3)
  have all: "strictly (row_key order) rows \<and> (\<forall>r \<in> set rows. cond r) \<and>
      (fin \<longrightarrow> (\<forall>r. cond r \<and> (\<forall>t \<in> set tbls. r \<in> set t) \<longrightarrow> r \<in> set rows))"
    by (simp add: beyond_def)
  then show "strictly (row_key order) rows" "\<forall>r \<in> set rows. cond r"
    "fin \<longrightarrow> (\<forall>r. cond r \<and> (\<forall>t \<in> set tbls. r \<in> set t) \<longrightarrow> r \<in> set rows)"
    by blast+
qed

text \<open>
  A cursor the date walk mints continues that walk: re-sent with the same text and nothing
  else stated it resumes in the walk's direction; stating a sort or a direction that contradicts
  it is refused rather than ignored, and so is a text cursor sent without its text. A plan that
  is accepted honours every axis the caller stated.
\<close>

theorem minted_cursor_continues:
  assumes "snd (date_keyset_search cond ft n order tbl keyset) = Some k"
  shows "resolve_cursor_plan u (Some (KeysetWire k)) None None ft = (Inr (KeysetPlan k) :: plan_error + int cursor_plan) \<and>
    kc_order k = order \<and>
    (ustrip ft \<noteq> [] \<and> ustrip ft' = [] \<longrightarrow>
       \<not> is_ok (resolve_cursor_plan u (Some (KeysetWire k)) rs ro ft' :: plan_error + int cursor_plan)) \<and>
    (\<forall>plan. resolve_cursor_plan u c rs ro ft' = (Inr plan :: plan_error + int cursor_plan) \<longrightarrow>
       (case plan of
          FreshPlan mode dir \<Rightarrow> (rs = None \<or> rs = Some mode) \<and> (ro = None \<or> ro = Some dir) \<and> \<not> (mode = Rank \<and> dir = Asc) \<and>
            \<not> ordering_pair_error mode (is_rankable u ft')
        | KeysetPlan ks \<Rightarrow> (rs = None \<or> rs = Some Date) \<and> (ro = None \<or> ro = Some (kc_order ks))
        | PoolPlan tok page rs' ro' \<Rightarrow> rs' = rs \<and> ro' = ro \<and> \<not> (rs = Some Rank \<and> ro = Some Asc)))"
proof (intro conjI allI impI)
  have k: "kc_order k = order" "kc_walk k = walk_for_text ft"
    using assms by (auto simp: date_keyset_search_def Let_def split: if_splits)
  show "kc_order k = order" by (rule k(1))
  show "resolve_cursor_plan u (Some (KeysetWire k)) None None ft = (Inr (KeysetPlan k) :: plan_error + int cursor_plan)"
    by (simp add: resolve_cursor_plan_def reject_sort_mismatch_def reject_order_mismatch_def keyset_walk_error_def k(2))
  show "\<not> is_ok (resolve_cursor_plan u (Some (KeysetWire k)) rs ro ft' :: plan_error + int cursor_plan)"
    if "ustrip ft \<noteq> [] \<and> ustrip ft' = []"
    using that by (simp add: resolve_cursor_plan_def keyset_walk_error_def k(2) walk_for_text_def split: option.splits)
  show "case plan of FreshPlan mode dir \<Rightarrow> (rs = None \<or> rs = Some mode) \<and> (ro = None \<or> ro = Some dir) \<and> \<not> (mode = Rank \<and> dir = Asc) \<and>
            \<not> ordering_pair_error mode (is_rankable u ft')
      | KeysetPlan ks \<Rightarrow> (rs = None \<or> rs = Some Date) \<and> (ro = None \<or> ro = Some (kc_order ks))
      | PoolPlan tok page rs' ro' \<Rightarrow> rs' = rs \<and> ro' = ro \<and> \<not> (rs = Some Rank \<and> ro = Some Asc)"
    if "resolve_cursor_plan u c rs ro ft' = (Inr plan :: plan_error + int cursor_plan)" for plan
    using that unfolding resolve_cursor_plan_def
    by (auto simp: Let_def sort_applicability_error_def resolve_sort_def sort_order_applicability_error_def ordering_pair_error_def
        textless_sort_def keyset_sort_def reject_sort_mismatch_def reject_order_mismatch_def
        split: option.splits wire_cursor.splits if_splits)
qed

subsection \<open>Witnesses\<close>

definition sample_row :: "int \<Rightarrow> instant option \<Rightarrow> mail_row" where
  "sample_row i t = \<lparr>mr_id = i, mr_account = 1, mr_folders = [4], mr_internal_date = None, mr_date_sent = t\<rparr>"

definition sample_table :: "mail_row list" where
  "sample_table = [sample_row 1 (Some 50), sample_row 2 None, sample_row 3 (Some 70), sample_row 4 (Some 50), sample_row 5 None]"

theorem browse_serves_everything_once_witness:
  "follow (\<lambda>t c. projr (list_messages [1, 9] (Some [1]) (Some [4]) 2 t c)) (replicate (length sample_table + 1) sample_table) None =
     (sort_key (row_key Desc) (filter (browse_admits ([1, 9], Some [1], Some [4])) sample_table), True) \<and>
   map mr_id (sort_key (row_key Desc) (filter (browse_admits ([1, 9], Some [1], Some [4])) sample_table)) = [3, 4, 1, 5, 2]"
proof -
  have "\<forall>t \<in> set (sample_table # []). distinct (map mr_id t)" by (simp add: sample_table_def sample_row_def)
  moreover have "map mr_id (sort_key (row_key Desc) (filter (browse_admits ([1, 9], Some [1], Some [4])) sample_table)) = [3, 4, 1, 5, 2]"
    by code_simp
  ultimately show ?thesis
    using browse_serves_everything_once [of 2 sample_table "[]" "[1, 9]" "Some [1]" "Some [4]" "[]" False] by simp
qed

theorem search_walk_serves_everything_once_witness:
  "follow (date_keyset_search (\<lambda>r. True) [97] 2 Asc) (replicate (length sample_table + 1) sample_table) None =
     (sort_key (row_key Asc) (filter (\<lambda>r. True) sample_table), True) \<and>
   map mr_id (sort_key (row_key Asc) (filter (\<lambda>r. True) sample_table)) = [2, 5, 1, 4, 3]"
proof -
  have "\<forall>t \<in> set (sample_table # []). distinct (map mr_id t)" by (simp add: sample_table_def sample_row_def)
  moreover have "map mr_id (sort_key (row_key Asc) (filter (\<lambda>r. True) sample_table)) = [2, 5, 1, 4, 3]" by code_simp
  ultimately show ?thesis
    using search_walk_serves_everything_once [of 2 sample_table "[]" "\<lambda>r. True" "[97]" Asc "[]" False] by simp
qed

definition no_unidata :: unidata where
  "no_unidata = \<lparr>u_lower = (\<lambda>s. s), u_alnum = (\<lambda>c. True), u_digit = (\<lambda>c. None)\<rparr>"

theorem minted_cursor_continues_witness:
  "resolve_cursor_plan no_unidata (Some (KeysetWire \<lparr>kc_ts = Some 50, kc_id = 4, kc_order = Desc, kc_walk = TextWalk\<rparr>)) None None [97] =
     (Inr (KeysetPlan \<lparr>kc_ts = Some 50, kc_id = 4, kc_order = Desc, kc_walk = TextWalk\<rparr>) :: plan_error + int cursor_plan)"
proof -
  have "snd (date_keyset_search (\<lambda>r. True) [97] 2 Desc sample_table None) =
      Some \<lparr>kc_ts = Some 50, kc_id = 4, kc_order = Desc, kc_walk = TextWalk\<rparr>"
    by code_simp
  from minted_cursor_continues [OF this] show ?thesis by blast
qed

end
