(* ===== verification/RankPool.thy ===== *)
theory RankPool
  imports Keyset
begin

text \<open>
  The relevance path of \<open>search/searcher.py\<close> and \<open>search/relevance_order.py\<close>: fusion of the
  retrieval arms, the pool cut, reranking, the cached pool and its growth, and the loop of
  \<open>api/search.py\<close> that continues or grows it.

  A finite double is its ordinal: the doubles in increasing order, \<open>0\<close> for zero, so that
  \<open>nextafter\<close> towards minus infinity is the predecessor. Rounding is a parameter
  (\<open>float_ops\<close>): nothing here depends on it. The four arms, the reranker and the message
  table at the time of a request are the record \<open>search_env\<close>.
\<close>

subsection \<open>Scores\<close>

datatype score = Finite int | PosInf | NegInf | NotANumber

text \<open>The largest finite double.\<close>

definition max_float :: int where "max_float = 9218868437227405311"

datatype search_error = CacheMissError | PageOutOfPoolError | SearchCursorExpired | FuseRaised | ScoreLengthMismatch

definition usable_scores :: "score list \<Rightarrow> int list" where
  "usable_scores scores = concat (map (\<lambda>s. case s of Finite v \<Rightarrow> [v] | _ \<Rightarrow> []) scores)"

definition next_below :: "int \<Rightarrow> int option" where
  "next_below v = (if v \<le> - max_float then None else Some (v - 1))"

definition finite_scores :: "score list \<Rightarrow> int list \<Rightarrow> search_error + (int list \<times> nat)" where
  "finite_scores scores fallback =
     (if length scores \<noteq> length fallback then Inl ScoreLengthMismatch
      else
        (let usable = usable_scores scores
         in case (case usable of [] \<Rightarrow> None | v # vs \<Rightarrow> next_below (fold min vs v)) of
              None \<Rightarrow> Inr (fallback, length scores)
            | Some unscored \<Rightarrow>
                Inr (map (\<lambda>s. case s of Finite v \<Rightarrow> v | _ \<Rightarrow> unscored) scores, length scores - length usable)))"

text \<open>\<open>_safe_rerank\<close>: \<open>None\<close> is a reranker that raised.\<close>

definition safe_rerank :: "score list option \<Rightarrow> int list \<Rightarrow> search_error + int list" where
  "safe_rerank raw fallback =
     (case raw of None \<Rightarrow> Inr fallback | Some scores \<Rightarrow> bindr (finite_scores scores fallback) (\<lambda>(s, n). Inr s))"

subsection \<open>Relevance order\<close>

text \<open>\<open>sorted(..., reverse=True)\<close>: stable.\<close>

definition sorted_reverse :: "('a \<Rightarrow> 'k :: linorder) \<Rightarrow> 'a list \<Rightarrow> 'a list" where
  "sorted_reverse key xs = rev (sort_key key (rev xs))"

definition date_key :: "instant option \<Rightarrow> int \<times> int" where
  "date_key t = (case t of Some t \<Rightarrow> (1, t) | None \<Rightarrow> (0, 0))"

definition relevance_key :: "int \<Rightarrow> instant option \<Rightarrow> int \<Rightarrow> int \<times> (int \<times> int) \<times> int" where
  "relevance_key score t message_id = (score, date_key t, message_id)"

subsection \<open>Fusion\<close>

datatype chunk_table = MessageTable | MessageChunks | AttachmentChunks

record arm_hit =
  ah_message :: int
  ah_chunk :: "int option"
  ah_table :: chunk_table
  ah_rank :: int

record fused_hit =
  fh_message :: int
  fh_chunk :: "int option"
  fh_table :: chunk_table
  fh_rrf :: int
  fh_arms :: "nat list"

record float_ops =
  fl_recip :: "int \<Rightarrow> int"
  fl_add :: "int \<Rightarrow> int \<Rightarrow> int"

record agg_entry =
  ag_score :: int
  ag_arms :: "nat list"
  ag_chunks :: "((int option \<times> chunk_table) \<times> int) list"

definition fuse_hit :: "float_ops \<Rightarrow> int \<Rightarrow> nat \<Rightarrow> arm_hit \<Rightarrow> (int \<times> agg_entry) list \<Rightarrow> (int \<times> agg_entry) list option" where
  "fuse_hit fl k arm hit agg =
     (if k + ah_rank hit = 0 then None
      else
        (let e = (case map_of agg (ah_message hit) of None \<Rightarrow> \<lparr>ag_score = 0, ag_arms = [], ag_chunks = []\<rparr> | Some e \<Rightarrow> e);
             contrib = fl_recip fl (k + ah_rank hit);
             chkey = (ah_chunk hit, ah_table hit);
             best = (case map_of (ag_chunks e) chkey of None \<Rightarrow> 0 | Some v \<Rightarrow> v)
         in Some (dict_set (ah_message hit)
              \<lparr>ag_score = fl_add fl (ag_score e) contrib, ag_arms = List.insert arm (ag_arms e),
               ag_chunks = (if contrib > best then dict_set chkey contrib (ag_chunks e) else ag_chunks e)\<rparr> agg)))"

fun fuse_hits :: "float_ops \<Rightarrow> int \<Rightarrow> (nat \<times> arm_hit) list \<Rightarrow> (int \<times> agg_entry) list \<Rightarrow> (int \<times> agg_entry) list option" where
  "fuse_hits fl k [] agg = Some agg"
| "fuse_hits fl k ((arm, hit) # hits) agg =
     (case fuse_hit fl k arm hit agg of None \<Rightarrow> None | Some agg' \<Rightarrow> fuse_hits fl k hits agg')"

text \<open>\<open>max(items, key=...)\<close>: the first maximal item; \<open>None\<close> for no items.\<close>

fun best_chunk :: "('c \<times> int) list \<Rightarrow> ('c \<times> int) option" where
  "best_chunk [] = None"
| "best_chunk (x # xs) = (case best_chunk xs of None \<Rightarrow> Some x | Some y \<Rightarrow> if snd x \<ge> snd y then Some x else Some y)"

fun fused_list :: "(int \<times> agg_entry) list \<Rightarrow> fused_hit list option" where
  "fused_list [] = Some []"
| "fused_list ((mid, e) # rest) =
     (case (best_chunk (ag_chunks e), fused_list rest) of
        (Some ((c, tab), v), Some hs) \<Rightarrow>
          Some (\<lparr>fh_message = mid, fh_chunk = c, fh_table = tab, fh_rrf = ag_score e, fh_arms = sort (ag_arms e)\<rparr> # hs)
      | _ \<Rightarrow> None)"

definition arm_hits :: "arm_hit list list \<Rightarrow> (nat \<times> arm_hit) list" where
  "arm_hits arms = concat (map (\<lambda>i. map (\<lambda>h. (i, h)) (arms ! i)) [0..<length arms])"

definition rrf_fuse :: "float_ops \<Rightarrow> int \<Rightarrow> arm_hit list list \<Rightarrow> search_error + fused_hit list" where
  "rrf_fuse fl k arms =
     (case fuse_hits fl k (arm_hits arms) [] of
        None \<Rightarrow> Inl FuseRaised
      | Some agg \<Rightarrow> (case fused_list agg of
            None \<Rightarrow> Inl FuseRaised
          | Some hs \<Rightarrow> Inr (sorted_reverse (\<lambda>h. (fh_rrf h, fh_message h)) hs)))"

subsection \<open>The pool\<close>

text \<open>What one request sees: the arms, the message table (an id's date, if the message exists), the reranker, the cache.\<close>

record search_env =
  en_float :: float_ops
  en_rrf_k :: int
  en_arms :: "int \<Rightarrow> arm_hit list list"
  en_message :: "int \<Rightarrow> instant option option"
  en_rerank :: "(fused_hit \<times> instant option) list \<Rightarrow> score list option"
  en_has_reranker :: bool
  en_evicted :: bool
  en_evicted_late :: bool

type_synonym hydrated = "fused_hit \<times> instant option"

definition fetch_sort_date :: "search_env \<Rightarrow> int \<Rightarrow> instant option" where
  "fetch_sort_date env mid = (case en_message env mid of None \<Rightarrow> None | Some t \<Rightarrow> t)"

definition cut_pool :: "search_env \<Rightarrow> fused_hit list \<Rightarrow> int \<Rightarrow> fused_hit list" where
  "cut_pool env fused limit =
     (if int (length fused) \<le> limit then fused
      else take (nat limit)
        (sorted_reverse (\<lambda>h. relevance_key (fh_rrf h) (fetch_sort_date env (fh_message h)) (fh_message h)) fused))"

definition retrieve_pool :: "search_env \<Rightarrow> int \<Rightarrow> int \<Rightarrow> int list \<Rightarrow> search_error + fused_hit list" where
  "retrieve_pool env cpa rps exclude =
     bindr (rrf_fuse (en_float env) (en_rrf_k env) (en_arms env cpa)) (\<lambda>fused.
       Inr (cut_pool env (filter (\<lambda>h. fh_message h \<notin> set exclude) fused) rps))"

text \<open>\<open>_hydrate\<close>: a hit whose message is gone is dropped.\<close>

definition hydrate :: "search_env \<Rightarrow> fused_hit list \<Rightarrow> hydrated list" where
  "hydrate env fused = concat (map (\<lambda>h. case en_message env (fh_message h) of None \<Rightarrow> [] | Some t \<Rightarrow> [(h, t)]) fused)"

definition score_pool :: "search_env \<Rightarrow> hydrated list \<Rightarrow> search_error + int list" where
  "score_pool env hs =
     (let fallback = map (\<lambda>h. fh_rrf (fst h)) hs
      in if en_has_reranker env \<and> hs \<noteq> [] then safe_rerank (en_rerank env hs) fallback else Inr fallback)"

record pool_entry =
  pe_hydrated :: "hydrated list"
  pe_scores :: "int list"
  pe_cpa :: int
  pe_rps :: int
  pe_page_size :: int
  pe_user :: "int option"
  pe_sort :: sort_mode
  pe_sort_order :: sort_order
  pe_first_page :: int
  pe_excluded :: "int list"

definition ordered_pool :: "hydrated list \<Rightarrow> int list \<Rightarrow> sort_mode \<Rightarrow> (hydrated \<times> int) list" where
  "ordered_pool hs scores mode =
     (case mode of
        Date \<Rightarrow> sorted_reverse (\<lambda>x. date_key (snd (fst x))) (zip hs scores)
      | Rank \<Rightarrow> sorted_reverse (\<lambda>x. relevance_key (snd x) (snd (fst x)) (fh_message (fst (fst x)))) (zip hs scores))"

definition build_results :: "hydrated list \<Rightarrow> int list \<Rightarrow> int \<Rightarrow> int \<Rightarrow> sort_mode \<Rightarrow> int list" where
  "build_results hs scores page page_size mode =
     map (\<lambda>x. fh_message (fst (fst x))) (take (nat page_size) (drop (nat ((page - 1) * page_size)) (ordered_pool hs scores mode)))"

record search_page =
  sp_rows :: "int list"
  sp_page :: int
  sp_page_size :: int
  sp_pool_size :: int
  sp_cpa :: int
  sp_has_more :: bool
  sp_can_grow :: bool
  sp_token :: bool

text \<open>Page 1, and the entry it caches.\<close>

definition first_page_search ::
  "search_env \<Rightarrow> int \<Rightarrow> int \<Rightarrow> int \<Rightarrow> int option \<Rightarrow> sort_order \<Rightarrow> search_error + (search_page \<times> pool_entry)" where
  "first_page_search env cpa rps page_size user order =
     bindr (retrieve_pool env cpa rps []) (\<lambda>fused.
     let hs = hydrate env fused in
     bindr (score_pool env hs) (\<lambda>scores.
       Inr (\<lparr>sp_rows = build_results hs scores 1 page_size Rank, sp_page = 1, sp_page_size = page_size,
             sp_pool_size = int (length hs), sp_cpa = cpa, sp_has_more = int (length hs) > page_size,
             sp_can_grow = True, sp_token = True\<rparr>,
            \<lparr>pe_hydrated = hs, pe_scores = scores, pe_cpa = cpa, pe_rps = rps, pe_page_size = page_size, pe_user = user,
             pe_sort = Rank, pe_sort_order = order, pe_first_page = 1, pe_excluded = []\<rparr>)))"

definition foreign :: "int option \<Rightarrow> pool_entry \<Rightarrow> bool" where
  "foreign user e \<longleftrightarrow> user \<noteq> None \<and> pe_user e \<noteq> user"

definition continue_page :: "pool_entry option \<Rightarrow> int \<Rightarrow> int option \<Rightarrow> search_error + search_page" where
  "continue_page slot page user =
     (case slot of
        None \<Rightarrow> Inl CacheMissError
      | Some e \<Rightarrow>
          if foreign user e then Inl CacheMissError
          else if 1 \<le> page \<and> page < pe_first_page e then Inl CacheMissError
          else
            (let pool_size = int (length (pe_hydrated e));
                 local_page = page - pe_first_page e + 1;
                 max_page = max 1 (- ((- pool_size) div pe_page_size e))
             in if page < 1 \<or> local_page > max_page then Inl PageOutOfPoolError
                else Inr \<lparr>sp_rows = build_results (pe_hydrated e) (pe_scores e) local_page (pe_page_size e) (pe_sort e),
                      sp_page = page, sp_page_size = pe_page_size e, sp_pool_size = pool_size, sp_cpa = pe_cpa e,
                      sp_has_more = pool_size > local_page * pe_page_size e, sp_can_grow = True, sp_token = True\<rparr>))"

definition grown_entry :: "search_env \<Rightarrow> int \<Rightarrow> int \<Rightarrow> pool_entry \<Rightarrow> search_error + pool_entry" where
  "grown_entry env cpa page e =
     (let served = ordered_pool (pe_hydrated e) (pe_scores e) (pe_sort e);
          excluded = remdups (pe_excluded e @
            map (\<lambda>x. fh_message (fst (fst x))) (take (nat ((page - pe_first_page e) * pe_page_size e)) served));
          rps = max cpa (pe_rps e)
      in bindr (retrieve_pool env cpa rps excluded) (\<lambda>fused.
         let hs = hydrate env fused in
         bindr (score_pool env hs) (\<lambda>scores.
           Inr (e\<lparr>pe_hydrated := hs, pe_scores := scores, pe_cpa := cpa, pe_rps := rps, pe_first_page := page,
                 pe_excluded := excluded\<rparr>))))"

definition grow_pool ::
  "search_env \<Rightarrow> int \<Rightarrow> int \<Rightarrow> int option \<Rightarrow> pool_entry option \<Rightarrow> (search_error + search_page) \<times> pool_entry option" where
  "grow_pool env cpa page user slot =
     (case (if en_evicted_late env then None else slot) of
        None \<Rightarrow> (Inl CacheMissError, None)
      | Some e \<Rightarrow>
          if foreign user e \<or> page < pe_first_page e then (Inl CacheMissError, slot)
          else (case grown_entry env cpa page e of
                  Inl err \<Rightarrow> (Inl err, slot)
                | Inr e' \<Rightarrow> (continue_page (Some e') page user, Some e')))"

subsection \<open>Continue or grow\<close>

definition empty_grown_page :: "int \<Rightarrow> search_page" where
  "empty_grown_page page_size = \<lparr>sp_rows = [], sp_page = 1, sp_page_size = page_size, sp_pool_size = 0, sp_cpa = 0,
     sp_has_more = False, sp_can_grow = False, sp_token = True\<rparr>"

lemma grow_pool_cpa: "grow_pool env cpa page user slot = (Inr g, slot') \<Longrightarrow> \<exists>e. slot' = Some e \<and> pe_cpa e = cpa"
  by (auto simp: grow_pool_def grown_entry_def Let_def bindr_Inr_iff split: option.splits if_splits sum.splits)

text \<open>The loop; the environment of its \<open>i\<close>-th turn is \<open>envs i\<close>.\<close>

function grow_loop ::
  "int \<Rightarrow> (nat \<Rightarrow> search_env) \<Rightarrow> nat \<Rightarrow> int \<Rightarrow> int option \<Rightarrow> pool_entry option \<Rightarrow> (search_error + search_page) \<times> pool_entry option" where
  "grow_loop cpa_max envs i page user slot =
     (case (if en_evicted (envs i) then None else slot) of
        None \<Rightarrow> (Inl SearchCursorExpired, None)
      | Some e \<Rightarrow>
          if foreign user e then (Inl SearchCursorExpired, slot)
          else if pe_cpa e \<ge> cpa_max then (Inr (empty_grown_page (pe_page_size e)), slot)
          else
            (let new_cpa = min (pe_cpa e * 2) cpa_max
             in case grow_pool (envs i) new_cpa page user slot of
                  (Inl err, slot') \<Rightarrow> (Inl (if err = CacheMissError then SearchCursorExpired else err), slot')
                | (Inr grown, slot') \<Rightarrow>
                    if sp_rows grown \<noteq> [] \<or> new_cpa \<ge> cpa_max \<or> new_cpa \<le> pe_cpa e then (Inr grown, slot')
                    else grow_loop cpa_max envs (Suc i) page user slot'))"
  by pat_completeness auto
termination
proof (relation "measure (\<lambda>(cpa_max, envs, i, page, user, slot). case slot of None \<Rightarrow> 0 | Some e \<Rightarrow> nat (cpa_max - pe_cpa e))")
  show "wf (measure (\<lambda>(cpa_max, envs, i, page, user, slot). case slot of None \<Rightarrow> 0 | Some e \<Rightarrow> nat (cpa_max - pe_cpa e)))"
    by simp
qed (auto dest!: sym [of _ "grow_pool _ _ _ _ _"] grow_pool_cpa split: if_splits)

declare grow_loop.simps [simp del]

definition continue_or_grow ::
  "int \<Rightarrow> (nat \<Rightarrow> search_env) \<Rightarrow> int \<Rightarrow> int option \<Rightarrow> pool_entry option \<Rightarrow> (search_error + search_page) \<times> pool_entry option" where
  "continue_or_grow cpa_max envs page user slot =
     (case continue_page slot page user of
        Inr p \<Rightarrow> (Inr p, slot)
      | Inl e \<Rightarrow> if e = CacheMissError then (Inl SearchCursorExpired, slot)
                 else if e = PageOutOfPoolError then grow_loop cpa_max envs 0 page user slot
                 else (Inl e, slot))"

definition next_cursor :: "int \<Rightarrow> search_page \<Rightarrow> int option" where
  "next_cursor cpa_max p =
     (if \<not> sp_token p then None
      else if sp_has_more p \<or> sp_can_grow p \<and> sp_cpa p < cpa_max then Some (sp_page p + 1) else None)"

text \<open>
  A caller that follows the cursor from page to page; before each page the pool may have been
  evicted, and each page has its own environments.
\<close>

fun pool_walk :: "int \<Rightarrow> int option \<Rightarrow> (bool \<times> (nat \<Rightarrow> search_env)) list \<Rightarrow> int \<Rightarrow> pool_entry option \<Rightarrow> int list" where
  "pool_walk cpa_max user [] page slot = []"
| "pool_walk cpa_max user ((gone, envs) # rs) page slot =
     (case continue_or_grow cpa_max envs page user (if gone then None else slot) of
        (Inl err, slot') \<Rightarrow> []
      | (Inr g, slot') \<Rightarrow>
          sp_rows g @ (case next_cursor cpa_max g of None \<Rightarrow> [] | Some page' \<Rightarrow> pool_walk cpa_max user rs page' slot'))"

subsection \<open>One hit per message\<close>

lemma set_sorted_reverse [simp]: "set (sorted_reverse key xs) = set xs"
  by (simp add: sorted_reverse_def)

lemma length_sorted_reverse [simp]: "length (sorted_reverse key xs) = length xs"
  by (simp add: sorted_reverse_def)

lemma distinct_map_sorted_reverse [simp]: "distinct (map f (sorted_reverse key xs)) = distinct (map f xs)"
  by (simp add: sorted_reverse_def distinct_map flip: rev_map)

lemma fuse_hits_keys:
  "fuse_hits fl k hits agg = Some agg' \<Longrightarrow> distinct (map fst agg) \<Longrightarrow>
   distinct (map fst agg') \<and> set (map fst agg') = set (map fst agg) \<union> (\<lambda>x. ah_message (snd x)) ` set hits"
proof (induction fl k hits agg rule: fuse_hits.induct)
  case (2 fl k arm hit hits agg)
  then obtain agg1 where 1: "fuse_hit fl k arm hit agg = Some agg1" "fuse_hits fl k hits agg1 = Some agg'"
    by (auto split: option.splits)
  then obtain e where "agg1 = dict_set (ah_message hit) e agg" by (auto simp: fuse_hit_def Let_def split: if_splits)
  then have "distinct (map fst agg1)" "set (map fst agg1) = insert (ah_message hit) (set (map fst agg))"
    using distinct_dict_set [OF "2.prems"(2)] by (auto simp: keys_dict_set)
  with "2.IH" 1 show ?case by auto
qed simp

lemma fused_list_ids: "fused_list agg = Some hs \<Longrightarrow> map fh_message hs = map fst agg"
  by (induction agg arbitrary: hs rule: fused_list.induct) (auto split: option.splits prod.splits)

lemma arm_hits_messages: "(\<lambda>x. ah_message (snd x)) ` set (arm_hits arms) = ah_message ` set (concat arms)"
proof -
  have "snd ` set (arm_hits arms) = set (concat arms)"
  proof (intro set_eqI iffI)
    fix h
    assume "h \<in> set (concat arms)"
    then obtain i where "i < length arms" "h \<in> set (arms ! i)" unfolding set_concat by (metis UN_E in_set_conv_nth)
    then have "(i, h) \<in> set (arm_hits arms)" by (auto simp: arm_hits_def)
    then show "h \<in> snd ` set (arm_hits arms)" by (force intro: rev_image_eqI)
  qed (auto simp: arm_hits_def)
  then show ?thesis by (metis image_image)
qed

lemma rrf_fuse_ids:
  assumes "rrf_fuse fl k arms = Inr hs"
  shows "distinct (map fh_message hs)" "set (map fh_message hs) = ah_message ` set (concat arms)"
proof -
  obtain agg hs' where a: "fuse_hits fl k (arm_hits arms) [] = Some agg" "fused_list agg = Some hs'"
      "hs = sorted_reverse (\<lambda>h. (fh_rrf h, fh_message h)) hs'"
    using assms by (auto simp: rrf_fuse_def split: option.splits)
  note k = fuse_hits_keys [OF a(1)] and i = fused_list_ids [OF a(2)]
  show "distinct (map fh_message hs)" using k i by (simp add: a(3))
  have "set (map fh_message hs) = set (map fh_message hs')" by (simp add: a(3))
  also have "\<dots> = ah_message ` set (concat arms)" using k arm_hits_messages [of arms] unfolding i by simp
  finally show "set (map fh_message hs) = ah_message ` set (concat arms)" .
qed

lemma distinct_map_take: "distinct (map f xs) \<Longrightarrow> distinct (map f (take n xs))"
  by (simp add: take_map [symmetric])

lemma retrieve_pool_ids:
  assumes "retrieve_pool env cpa rps exclude = Inr hs"
  shows "distinct (map fh_message hs)" "set (map fh_message hs) \<inter> set exclude = {}"
proof -
  obtain fused where f: "rrf_fuse (en_float env) (en_rrf_k env) (en_arms env cpa) = Inr fused"
      "hs = cut_pool env (filter (\<lambda>h. fh_message h \<notin> set exclude) fused) rps"
    using assms by (auto simp: retrieve_pool_def bindr_Inr_iff)
  have d: "distinct (map fh_message (filter (\<lambda>h. fh_message h \<notin> set exclude) fused))"
    using rrf_fuse_ids(1) [OF f(1)] by (auto simp: distinct_map intro: inj_on_subset)
  have "set (cut_pool env xs n) \<subseteq> set xs" for xs n by (auto simp: cut_pool_def dest: in_set_takeD)
  then show "set (map fh_message hs) \<inter> set exclude = {}" by (fastforce simp: f(2))
  show "distinct (map fh_message hs)" using d by (simp add: f(2) cut_pool_def distinct_map_take)
qed

lemma hydrate_ids:
  "map (\<lambda>x. fh_message (fst x)) (hydrate env hs) = filter (\<lambda>m. en_message env m \<noteq> None) (map fh_message hs)"
  by (induction hs) (auto simp: hydrate_def split: option.splits)

lemma finite_scores_length: "finite_scores scores fallback = Inr (s, n) \<Longrightarrow> length s = length fallback"
  by (auto simp: finite_scores_def Let_def split: if_splits option.splits)

lemma score_pool_length: "score_pool env hs = Inr scores \<Longrightarrow> length scores = length hs"
  by (auto simp: score_pool_def safe_rerank_def Let_def bindr_Inr_iff dest: finite_scores_length split: if_splits option.splits)

subsection \<open>No message twice\<close>

definition entry_ids :: "pool_entry \<Rightarrow> int list" where
  "entry_ids e = map (\<lambda>x. fh_message (fst (fst x))) (ordered_pool (pe_hydrated e) (pe_scores e) (pe_sort e))"

definition pool_ok :: "pool_entry \<Rightarrow> bool" where
  "pool_ok e \<longleftrightarrow> distinct (map (\<lambda>x. fh_message (fst x)) (pe_hydrated e)) \<and> length (pe_scores e) = length (pe_hydrated e) \<and>
     (\<lambda>x. fh_message (fst x)) ` set (pe_hydrated e) \<inter> set (pe_excluded e) = {} \<and> 0 < pe_page_size e"

text \<open>What the pages before this one served.\<close>

definition served :: "pool_entry \<Rightarrow> int \<Rightarrow> int set" where
  "served e page = set (pe_excluded e) \<union> set (take (nat ((page - pe_first_page e) * pe_page_size e)) (entry_ids e))"

lemma entry_ids_perm:
  assumes "length (pe_scores e) = length (pe_hydrated e)"
  shows "set (entry_ids e) = (\<lambda>x. fh_message (fst x)) ` set (pe_hydrated e)"
    "distinct (entry_ids e) = distinct (map (\<lambda>x. fh_message (fst x)) (pe_hydrated e))"
    "length (entry_ids e) = length (pe_hydrated e)"
proof -
  have z: "map (\<lambda>x. fh_message (fst (fst x))) (zip (pe_hydrated e) (pe_scores e)) = map (\<lambda>x. fh_message (fst x)) (pe_hydrated e)"
    using map_fst_zip [of "pe_hydrated e" "pe_scores e"] assms
      map_map [of "\<lambda>x. fh_message (fst x)" fst "zip (pe_hydrated e) (pe_scores e)"] by (simp add: comp_def)
  have "(\<lambda>x. fh_message (fst (fst x))) ` set (zip (pe_hydrated e) (pe_scores e)) = (\<lambda>x. fh_message (fst x)) ` set (pe_hydrated e)"
    using arg_cong [OF z, of set] by (simp only: set_map)
  then show "set (entry_ids e) = (\<lambda>x. fh_message (fst x)) ` set (pe_hydrated e)"
    by (simp add: entry_ids_def ordered_pool_def split: sort_mode.splits)
  show "distinct (entry_ids e) = distinct (map (\<lambda>x. fh_message (fst x)) (pe_hydrated e))"
    by (simp add: entry_ids_def ordered_pool_def z split: sort_mode.splits)
  show "length (entry_ids e) = length (pe_hydrated e)"
    using assms by (simp add: entry_ids_def ordered_pool_def split: sort_mode.splits)
qed

lemma page_slice:
  "0 < ps \<Longrightarrow> 1 \<le> k \<Longrightarrow> take (nat (k * ps)) xs = take (nat ((k - 1) * ps)) xs @ take (nat ps) (drop (nat ((k - 1) * ps)) xs)"
proof -
  assume "0 < ps" "1 \<le> k"
  then have "nat (k * ps) = nat ((k - 1) * ps) + nat ps" by (simp add: left_diff_distrib flip: nat_add_distrib)
  then show ?thesis by (simp add: take_add)
qed

lemma build_results_ids:
  "build_results (pe_hydrated e) (pe_scores e) k (pe_page_size e) (pe_sort e) =
   take (nat (pe_page_size e)) (drop (nat ((k - 1) * pe_page_size e)) (entry_ids e))"
  by (simp add: build_results_def entry_ids_def take_map drop_map)

text \<open>What a page of a pool serves is new, and the next page knows it.\<close>

definition fresh_page :: "pool_entry \<Rightarrow> int \<Rightarrow> int list \<Rightarrow> bool" where
  "fresh_page e page rows \<longleftrightarrow> distinct rows \<and> set rows \<inter> served e page = {} \<and> served e (page + 1) = served e page \<union> set rows"

lemma slice_fresh:
  assumes "pool_ok e" "pe_first_page e \<le> page"
  shows "fresh_page e page (take (nat (pe_page_size e)) (drop (nat ((page - pe_first_page e) * pe_page_size e)) (entry_ids e)))"
proof -
  define a where "a = take (nat ((page - pe_first_page e) * pe_page_size e)) (entry_ids e)"
  define b where "b = take (nat (pe_page_size e)) (drop (nat ((page - pe_first_page e) * pe_page_size e)) (entry_ids e))"
  have ab: "take (nat ((page + 1 - pe_first_page e) * pe_page_size e)) (entry_ids e) = a @ b"
    using page_slice [of "pe_page_size e" "page + 1 - pe_first_page e" "entry_ids e"] assms
    by (simp add: a_def b_def pool_ok_def algebra_simps)
  have ids: "distinct (entry_ids e)" "set (entry_ids e) \<inter> set (pe_excluded e) = {}"
    using assms(1) entry_ids_perm [of e] by (simp_all add: pool_ok_def)
  have "distinct (a @ b)" using distinct_take [OF ids(1)] by (simp add: ab [symmetric])
  moreover have "set (a @ b) \<subseteq> set (entry_ids e)" unfolding ab [symmetric] by (rule set_take_subset)
  ultimately show ?thesis using ids(2) by (auto simp: fresh_page_def served_def ab a_def [symmetric] b_def [symmetric])
qed

lemma continue_page_fresh:
  assumes "continue_page (Some e) page user = Inr p" "pool_ok e"
  shows "pe_first_page e \<le> page \<and> fresh_page e page (sp_rows p) \<and> sp_page p = page"
proof -
  have p: "pe_first_page e \<le> page" "sp_rows p = build_results (pe_hydrated e) (pe_scores e) (page - pe_first_page e + 1) (pe_page_size e) (pe_sort e)"
      "sp_page p = page"
    using assms(1) by (auto simp: continue_page_def Let_def split: if_splits)
  with slice_fresh [OF assms(2) p(1)] show ?thesis by (simp add: build_results_ids)
qed

lemma pool_ok_built:
  assumes "retrieve_pool env cpa rps excluded = Inr fused" "score_pool env (hydrate env fused) = Inr scores" "0 < ps"
    and "pe_hydrated e = hydrate env fused" "pe_scores e = scores" "pe_excluded e = excluded" "pe_page_size e = ps"
  shows "pool_ok e"
proof -
  have d: "distinct (map fh_message fused)" "set (map fh_message fused) \<inter> set excluded = {}"
    using retrieve_pool_ids [OF assms(1)] by auto
  have h: "map (\<lambda>x. fh_message (fst x)) (hydrate env fused) = filter (\<lambda>m. en_message env m \<noteq> None) (map fh_message fused)"
    by (rule hydrate_ids)
  have "(\<lambda>x. fh_message (fst x)) ` set (hydrate env fused) \<subseteq> set (map fh_message fused)"
    using arg_cong [OF h, of set] by (auto simp del: set_map simp flip: set_map)
  then show ?thesis
    using d h score_pool_length [OF assms(2)] assms(3-7) distinct_filter [OF d(1)] by (auto simp: pool_ok_def)
qed

lemma grown_fresh:
  assumes "grown_entry env cpa page e = Inr e'" "pool_ok e" "pe_first_page e \<le> page"
  shows "pool_ok e' \<and> pe_first_page e' = page \<and> served e' page = served e page"
proof -
  define excluded where "excluded = remdups (pe_excluded e @ take (nat ((page - pe_first_page e) * pe_page_size e)) (entry_ids e))"
  obtain fused scores where f: "retrieve_pool env cpa (max cpa (pe_rps e)) excluded = Inr fused"
      "score_pool env (hydrate env fused) = Inr scores"
      "e' = e\<lparr>pe_hydrated := hydrate env fused, pe_scores := scores, pe_cpa := cpa, pe_rps := max cpa (pe_rps e),
        pe_first_page := page, pe_excluded := excluded\<rparr>"
    using assms(1) by (auto simp: grown_entry_def Let_def bindr_Inr_iff excluded_def entry_ids_def take_map)
  have "pool_ok e'" by (rule pool_ok_built [OF f(1,2), of "pe_page_size e"]) (use assms(2) f(3) in \<open>simp_all add: pool_ok_def\<close>)
  then show ?thesis by (simp add: f(3) served_def excluded_def Un_commute)
qed

lemma grow_loop_fresh:
  assumes "grow_loop cpa_max envs i page user (Some e) = (Inr g, slot')" "pool_ok e" "pe_first_page e \<le> page"
  shows "\<exists>e'. slot' = Some e' \<and> pool_ok e' \<and> served e' page = served e page \<and>
    (sp_rows g = [] \<and> next_cursor cpa_max g = None \<or> pe_first_page e' = page \<and> continue_page slot' page user = Inr g)"
  using assms
proof (induction cpa_max envs i page user "Some e" arbitrary: e rule: grow_loop.induct)
  case (1 cpa_max envs i page user)
  let ?new = "min (pe_cpa e * 2) cpa_max"
  have live: "\<not> en_evicted (envs i)" "\<not> foreign user e"
    using "1.prems"(1) by (auto simp: grow_loop.simps [of _ _ _ _ _ "Some e"] split: if_splits)
  show ?case
  proof (cases "cpa_max \<le> pe_cpa e")
    case True
    then have "g = empty_grown_page (pe_page_size e)" "slot' = Some e"
      using "1.prems"(1) live by (simp_all add: grow_loop.simps [of _ _ _ _ _ "Some e"])
    then show ?thesis using "1.prems" by (simp add: empty_grown_page_def next_cursor_def)
  next
    case False
    obtain r slot1 where gr: "grow_pool (envs i) ?new page user (Some e) = (r, slot1)" by fastforce
    with "1.prems"(1) live False obtain g1 where r: "r = Inr g1"
      by (cases r) (auto simp: grow_loop.simps [of _ _ _ _ _ "Some e"] Let_def split: if_splits)
    then obtain e1 where e1: "grown_entry (envs i) ?new page e = Inr e1" "slot1 = Some e1" "continue_page slot1 page user = Inr g1"
      using gr by (auto simp: grow_pool_def split: if_splits sum.splits)
    note ok = grown_fresh [OF e1(1) "1.prems"(2,3)]
    show ?thesis
    proof (cases "sp_rows g1 \<noteq> [] \<or> ?new \<ge> cpa_max \<or> ?new \<le> pe_cpa e")
      case True
      then have "g = g1" "slot' = slot1"
        using "1.prems"(1) live False gr r by (simp_all add: grow_loop.simps [of _ _ _ _ _ "Some e"] Let_def)
      then show ?thesis using ok e1 by auto
    next
      case again: False
      then have "grow_loop cpa_max envs (Suc i) page user (Some e1) = (Inr g, slot')"
        using "1.prems"(1) live False gr r e1(2) by (simp add: grow_loop.simps [of _ _ i _ _ "Some e"] Let_def split: if_splits)
      with "1.hyps" [OF _ _ _ refl gr [symmetric, unfolded r e1(2)]] live False again ok e1(2) show ?thesis by auto
    qed
  qed
qed

lemma continue_or_grow_fresh:
  assumes "continue_or_grow cpa_max envs page user (Some e) = (Inr g, slot')" "pool_ok e" "pe_first_page e \<le> page"
  shows "\<exists>e'. slot' = Some e' \<and> pool_ok e' \<and> distinct (sp_rows g) \<and> set (sp_rows g) \<inter> served e page = {} \<and>
    (next_cursor cpa_max g \<noteq> None \<longrightarrow>
       pe_first_page e' \<le> page \<and> sp_page g = page \<and> served e' (page + 1) = served e page \<union> set (sp_rows g))"
proof -
  have step: ?thesis if "slot' = Some e'" "pool_ok e'" "served e' page = served e page" "continue_page slot' page user = Inr g" for e'
    using continue_page_fresh [of e' page user g] that by (auto simp: fresh_page_def)
  show ?thesis
  proof (cases "continue_page (Some e) page user")
    case (Inl err)
    then have "grow_loop cpa_max envs 0 page user (Some e) = (Inr g, slot')"
      using assms(1) by (auto simp: continue_or_grow_def split: if_splits)
    from grow_loop_fresh [OF this assms(2,3)] step show ?thesis by auto
  next
    case (Inr g')
    with assms(1) have "g' = g" "slot' = Some e" by (auto simp: continue_or_grow_def)
    with Inr step [of e] assms(2) show ?thesis by simp
  qed
qed

lemma pool_walk_fresh:
  assumes "pool_ok e" "pe_first_page e \<le> page"
  shows "distinct (pool_walk cpa_max user rs page (Some e)) \<and> set (pool_walk cpa_max user rs page (Some e)) \<inter> served e page = {}"
  using assms
proof (induction rs arbitrary: e page)
  case (Cons req rs)
  obtain gone envs where req: "req = (gone, envs)" by (cases req)
  show ?case
  proof (cases "gone")
    case True
    then show ?thesis by (simp add: req continue_or_grow_def continue_page_def)
  next
    case False
    obtain r slot' where cg: "continue_or_grow cpa_max envs page user (Some e) = (r, slot')" by fastforce
    show ?thesis
    proof (cases r)
      case (Inl err)
      with cg False show ?thesis by (simp add: req)
    next
      case (Inr g)
      from continue_or_grow_fresh [OF cg [unfolded Inr] Cons.prems] obtain e' where e': "slot' = Some e'" "pool_ok e'"
          "distinct (sp_rows g)" "set (sp_rows g) \<inter> served e page = {}"
          "next_cursor cpa_max g \<noteq> None \<Longrightarrow> pe_first_page e' \<le> page \<and> sp_page g = page \<and>
             served e' (page + 1) = served e page \<union> set (sp_rows g)"
        by blast
      have walk: "pool_walk cpa_max user (req # rs) page (Some e) =
          sp_rows g @ (case next_cursor cpa_max g of None \<Rightarrow> [] | Some page' \<Rightarrow> pool_walk cpa_max user rs page' (Some e'))"
        using cg False by (simp add: req Inr e'(1))
      show ?thesis
      proof (cases "next_cursor cpa_max g")
        case None
        then show ?thesis using e' by (simp add: walk)
      next
        case (Some page')
        with e'(5) have nx: "pe_first_page e' \<le> page + 1" "page' = page + 1" "served e' (page + 1) = served e page \<union> set (sp_rows g)"
          by (auto simp: next_cursor_def split: if_splits)
        from Cons.IH [OF e'(2) nx(1)] e'(3,4) show ?thesis by (auto simp: walk Some nx)
      qed
    qed
  qed
qed simp

text \<open>
  C17. A relevance-ranked search never serves a message twice: page 1 and every page reached by
  following the cursor, across any number of pool growths, with mail arriving and leaving and the
  reranker failing in between, list distinct messages.
\<close>

theorem pool_pages_never_repeat:
  assumes "first_page_search env cpa rps page_size user order = Inr (p, e)" "0 < page_size"
  shows "distinct (sp_rows p @ (case next_cursor cpa_max p of None \<Rightarrow> [] | Some page \<Rightarrow> pool_walk cpa_max user rs page (Some e)))"
proof -
  obtain fused scores where f: "retrieve_pool env cpa rps [] = Inr fused" "score_pool env (hydrate env fused) = Inr scores"
      "pe_hydrated e = hydrate env fused" "pe_scores e = scores" "pe_excluded e = []" "pe_page_size e = page_size"
      "pe_first_page e = 1" "pe_sort e = Rank"
    and p: "sp_rows p = build_results (pe_hydrated e) (pe_scores e) 1 (pe_page_size e) (pe_sort e)" "sp_page p = 1"
    using assms(1) by (auto simp: first_page_search_def Let_def bindr_Inr_iff)
  have ok: "pool_ok e" by (rule pool_ok_built [OF f(1,2) assms(2)]) (simp_all add: f)
  have fresh: "fresh_page e 1 (sp_rows p)" using slice_fresh [OF ok, of 1] by (simp add: p(1) build_results_ids f(7))
  have walk: "distinct (pool_walk cpa_max user rs 2 (Some e)) \<and> set (pool_walk cpa_max user rs 2 (Some e)) \<inter> served e 2 = {}"
    by (rule pool_walk_fresh [OF ok]) (simp add: f(7))
  have "next_cursor cpa_max p = Some page \<Longrightarrow> page = 2" for page by (auto simp: next_cursor_def p(2) split: if_splits)
  then show ?thesis using fresh walk by (auto simp: fresh_page_def split: option.splits)
qed

subsection \<open>Scores the reranker could not give\<close>

lemma fold_min: "fold min vs v \<le> (v :: int)" "x \<in> set vs \<Longrightarrow> fold min vs v \<le> x"
proof -
  have "fold min vs v \<le> v \<and> (\<forall>x \<in> set vs. fold min vs v \<le> x)"
  proof (induction vs arbitrary: v)
    case (Cons a vs)
    from Cons [of "min a v"] show ?case by auto
  qed simp
  then show "fold min vs v \<le> v" "x \<in> set vs \<Longrightarrow> fold min vs v \<le> x" by auto
qed

lemma usable_mem: "v \<in> set (usable_scores scores) \<longleftrightarrow> Finite v \<in> set scores"
  by (force simp: usable_scores_def split: score.splits)

text \<open>
  A reranker's NaN or infinity never reaches the sort key: every returned score is a finite
  double, and either the whole batch falls back to the fused scores or every score the reranker
  gave is kept and the rows it did not score rank strictly below all of those.
\<close>

theorem unscored_rows_rank_last:
  assumes "finite_scores scores fallback = Inr (s, n)"
    and "\<forall>v \<in> set fallback. \<bar>v\<bar> \<le> max_float" "\<forall>v. Finite v \<in> set scores \<longrightarrow> \<bar>v\<bar> \<le> max_float"
  shows "length s = length scores \<and> (\<forall>v \<in> set s. \<bar>v\<bar> \<le> max_float) \<and>
    (s = fallback \<or>
     (\<forall>i < length scores. \<forall>v. scores ! i = Finite v \<longrightarrow> s ! i = v) \<and>
     (\<forall>i < length scores. \<forall>j < length scores. (\<forall>v. scores ! i \<noteq> Finite v) \<longrightarrow> (\<exists>v. scores ! j = Finite v) \<longrightarrow> s ! i < s ! j))"
proof (cases "s = fallback")
  case True
  with assms show ?thesis by (auto simp: finite_scores_def Let_def split: if_splits option.splits)
next
  case False
  then obtain w ws x where u: "usable_scores scores = w # ws" "next_below (fold min ws w) = Some x"
      and s: "s = map (\<lambda>s. case s of Finite v \<Rightarrow> v | _ \<Rightarrow> x) scores"
    using assms(1) by (auto simp: finite_scores_def Let_def split: if_splits option.splits list.splits)
  have x: "x = fold min ws w - 1" "- max_float < fold min ws w" using u(2) by (auto simp: next_below_def split: if_splits)
  have below: "Finite v \<in> set scores \<Longrightarrow> x < v" for v
    using usable_mem [of v scores] fold_min(1) [of ws w] fold_min(2) [of v ws w] by (auto simp: u(1) x(1))
  have "Finite w \<in> set scores" using usable_mem [of w scores] by (simp add: u(1))
  then have "w \<le> max_float" using assms(3) by auto
  then have fin: "\<bar>x\<bar> \<le> max_float" using x fold_min(1) [of ws w] by (auto simp: abs_le_iff)
  have "v \<in> set s \<Longrightarrow> \<bar>v\<bar> \<le> max_float" for v using assms(3) fin by (auto simp: s split: score.splits)
  moreover have "\<forall>v. scores ! i \<noteq> Finite v \<Longrightarrow> i < length scores \<Longrightarrow> s ! i = x" for i by (auto simp: s split: score.splits)
  moreover have "scores ! j = Finite v \<Longrightarrow> j < length scores \<Longrightarrow> s ! j = v \<and> x < v" for j v
    using below nth_mem [of j scores] by (auto simp: s)
  ultimately show ?thesis by (auto simp: s)
qed

subsection \<open>Witnesses\<close>

text \<open>Two hits per arm at first, a third message once the pool has grown; page size one.\<close>

definition sample_hit :: "int \<Rightarrow> int \<Rightarrow> arm_hit" where
  "sample_hit mid rank = \<lparr>ah_message = mid, ah_chunk = None, ah_table = MessageTable, ah_rank = rank\<rparr>"

definition sample_env :: search_env where
  "sample_env = \<lparr>en_float = \<lparr>fl_recip = (\<lambda>n. 1000 - n), fl_add = (\<lambda>a b. a + b)\<rparr>, en_rrf_k = 60,
     en_arms = (\<lambda>cpa. [[sample_hit 7 1, sample_hit 8 2], (if cpa > 1 then [sample_hit 8 1, sample_hit 9 2] else [])]),
     en_message = (\<lambda>m. Some (Some m)), en_rerank = (\<lambda>hs. Some (map (\<lambda>h. NotANumber) hs)), en_has_reranker = True,
     en_evicted = False, en_evicted_late = False\<rparr>"

definition sample_first :: "search_error + (search_page \<times> pool_entry)" where
  "sample_first = first_page_search sample_env 1 5 1 (Some 3) Desc"

definition sample_pages :: "int list" where
  "sample_pages = sp_rows (fst (projr sample_first)) @
     (case next_cursor 2 (fst (projr sample_first)) of None \<Rightarrow> []
      | Some page \<Rightarrow> pool_walk 2 (Some 3) (replicate 4 (False, \<lambda>i. sample_env)) page (Some (snd (projr sample_first))))"

theorem pool_pages_never_repeat_witness: "distinct sample_pages \<and> length sample_pages = 3"
proof -
  have "is_ok sample_first" by code_simp
  then have "first_page_search sample_env 1 5 1 (Some 3) Desc = Inr (fst (projr sample_first), snd (projr sample_first))"
    by (cases sample_first) (simp_all add: sample_first_def)
  from pool_pages_never_repeat [OF this zero_less_one, of 2 "replicate 4 (False, \<lambda>i. sample_env)"] have "distinct sample_pages"
    by (simp only: sample_pages_def)
  moreover have "length sample_pages = 3" by code_simp
  ultimately show ?thesis ..
qed

theorem unscored_rows_rank_last_witness:
  "projr (finite_scores [Finite 5, NotANumber, Finite (- 2)] [1, 2, 3]) = ([5, - 3, - 2], 1) \<and>
   fst (projr (finite_scores [Finite 5, NotANumber, Finite (- 2)] [1, 2, 3])) ! 1 <
   fst (projr (finite_scores [Finite 5, NotANumber, Finite (- 2)] [1, 2, 3])) ! 2"
proof -
  have e: "finite_scores [Finite 5, NotANumber, Finite (- 2)] [1, 2, 3] = Inr ([5, - 3, - 2], 1)" by code_simp
  from unscored_rows_rank_last [OF e] show ?thesis by (simp add: e max_float_def)
qed

end
