(* ===== verification/Extract.thy ===== *)
theory Extract
  imports Attachments
begin

text \<open>
  Attachment text extraction: what a blob is (\<open>search/attachment_kind.py\<close>), which exceptions
  are the blob's fault (\<open>iter_exc_chain\<close>, \<open>_is_transient\<close>), the two extractors' dispatch
  (\<open>search/extractor.py\<close>), the queue's predicates and counters (\<open>search/extract_queue.py\<close>)
  and the worker (\<open>search/extract_worker.py\<close>).

  The third-party parsers, docling and the statements of the database that may raise are
  parameters: a \<open>blob_world\<close> says what each of them does while one blob is processed, a
  \<open>sweep_world\<close> what happens during one sweep. \<open>blob_world\<close> may answer differently on every
  sweep. Tables keyed on \<open>sha256 PRIMARY KEY\<close> are maps; a row keeps the columns the code
  reads back, so timestamps and tracebacks are left out.
\<close>

subsection \<open>What a blob is\<close>

text \<open>
  \<open>Path(filename).suffix\<close> on a POSIX system: the last component that is neither empty nor a
  dot, from its last dot on, unless that dot is the first or the last character.
\<close>

definition path_name :: "string \<Rightarrow> string" where
  "path_name s =
     (case rev (filter (\<lambda>p. p \<noteq> [] \<and> p \<noteq> ''.'') (split_on (CHR ''/'') s)) of [] \<Rightarrow> [] | p # _ \<Rightarrow> p)"

definition path_suffix :: "string \<Rightarrow> string" where
  "path_suffix s =
     (let name = path_name s;
          ext = rev (takeWhile (\<lambda>c. c \<noteq> CHR ''.'') (rev name));
          i = length name - length ext
      in if CHR ''.'' \<in> set name \<and> 1 < i \<and> ext \<noteq> [] then CHR ''.'' # ext else [])"

definition extension_of :: "string option \<Rightarrow> string" where
  "extension_of filename =
     (case filename of None \<Rightarrow> [] | Some f \<Rightarrow> if f = [] then [] else lower (path_suffix f))"

definition or_empty :: "string option \<Rightarrow> string" where
  "or_empty s = (case s of None \<Rightarrow> [] | Some t \<Rightarrow> t)"

definition is_allowlisted ::
  "string option \<Rightarrow> string list \<Rightarrow> string list \<Rightarrow> string list \<Rightarrow> bool" where
  "is_allowlisted mime_type filenames mime_allowlist extension_allowlist =
     (if lower (or_empty mime_type) \<in> set (map lower mime_allowlist) then True
      else list_ex (\<lambda>name. extension_of (Some name) \<in> set (map lower extension_allowlist))
             filenames)"

definition preferred_filename :: "string list \<Rightarrow> string list \<Rightarrow> string option" where
  "preferred_filename filenames extension_allowlist =
     (case find (\<lambda>name. extension_of (Some name) \<in> set (map lower extension_allowlist)) filenames of
        Some name \<Rightarrow> Some name
      | None \<Rightarrow> (case filenames of [] \<Rightarrow> None | f # _ \<Rightarrow> Some f))"

definition is_pdf :: "string option \<Rightarrow> string option \<Rightarrow> bool" where
  "is_pdf mime_type filename \<longleftrightarrow>
     lower (or_empty mime_type) = ''application/pdf'' \<or> extension_of filename = ''.pdf''"

subsection \<open>Exceptions and their chains\<close>

text \<open>
  An exception with the named classes its type derives from, the module of that type, its
  message, and the exceptions it was raised from or while handling. The code's \<open>seen\<close> set
  guards against reference cycles, which a finite value cannot have.
\<close>

datatype pyclass =
    ExtractorErr | TransientExtractorErr | ExtractorConfigurationErr
  | ConnectionErr | TimeoutErr | MemoryErr | ImportErr
  | QueryCanceled | DeadlockDetected | LockNotAvailable | DataErr

datatype exc = Exc (exc_classes: "pyclass list") (exc_module: string) (exc_message: string)
  (exc_cause: "exc option") (exc_context: "exc option") (exc_suppress: bool)

fun iter_exc_chain :: "exc \<Rightarrow> exc list" where
  "iter_exc_chain (Exc cs m s cause context suppress) =
     Exc cs m s cause context suppress #
       (case cause of
          Some e \<Rightarrow> iter_exc_chain e
        | None \<Rightarrow> (if suppress then [] else case context of None \<Rightarrow> [] | Some e \<Rightarrow> iter_exc_chain e))"

fun class_bases :: "pyclass \<Rightarrow> pyclass list" where
  "class_bases ExtractorConfigurationErr = [ExtractorConfigurationErr, TransientExtractorErr, ExtractorErr]"
| "class_bases TransientExtractorErr = [TransientExtractorErr, ExtractorErr]"
| "class_bases c = [c]"

definition is_instance :: "exc \<Rightarrow> pyclass list \<Rightarrow> bool" where
  "is_instance e cs \<longleftrightarrow> list_ex (\<lambda>c. c \<in> set cs) (concat (map class_bases (exc_classes e)))"

definition db_contention_errors :: "pyclass list" where
  "db_contention_errors = [QueryCanceled, DeadlockDetected, LockNotAvailable]"

definition transient_exc_types :: "pyclass list" where
  "transient_exc_types = [ConnectionErr, TimeoutErr, MemoryErr]"

definition is_transient :: "exc \<Rightarrow> bool" where
  "is_transient e \<longleftrightarrow>
     list_ex (\<lambda>x. is_instance x (TransientExtractorErr # transient_exc_types @ db_contention_errors))
       (iter_exc_chain e)"

definition exc_chain_has_import_error :: "exc \<Rightarrow> bool" where
  "exc_chain_has_import_error e \<longleftrightarrow> list_ex (\<lambda>x. is_instance x [ImportErr]) (iter_exc_chain e)"

definition transient_third_party_modules :: "string list" where
  "transient_third_party_modules = [''requests'', ''httpx'', ''huggingface_hub'', ''urllib3'', ''aiohttp'']"

definition exc_chain_has_transient_module :: "exc \<Rightarrow> bool" where
  "exc_chain_has_transient_module e \<longleftrightarrow>
     list_ex (\<lambda>x. hd (split_on (CHR ''.'') (exc_module x)) \<in> set transient_third_party_modules)
       (iter_exc_chain e)"

text \<open>\<open>raise C(...) from cause\<close>: an explicit cause suppresses the context.\<close>

definition raise_from :: "pyclass list \<Rightarrow> string \<Rightarrow> exc option \<Rightarrow> exc" where
  "raise_from cs msg cause = Exc cs ''localmail.search.extractor'' msg cause None (cause \<noteq> None)"

abbreviation "extractor_error \<equiv> raise_from [ExtractorErr]"
abbreviation "transient_extractor_error \<equiv> raise_from [TransientExtractorErr]"
abbreviation "extractor_configuration_error \<equiv>
  raise_from [ExtractorConfigurationErr]"

subsection \<open>Extracted text\<close>

definition strip_nuls :: "string \<Rightarrow> string" where
  "strip_nuls s = filter (\<lambda>c. ord c \<noteq> 0) s"

definition is_blank :: "string \<Rightarrow> bool" where
  "is_blank s \<longleftrightarrow> s = [] \<or> list_all is_space s"

record extracted_text =
  et_text :: string
  et_page_count :: "int option"
  et_extractor :: string

definition new_extracted_text :: "string \<Rightarrow> int option \<Rightarrow> string \<Rightarrow> extracted_text" where
  "new_extracted_text t pages name =
     (let t1 = strip_nuls t
      in \<lparr>et_text = (if is_blank t1 then [] else t1), et_page_count = pages, et_extractor = name\<rparr>)"

subsection \<open>The two extractors\<close>

datatype lw_format =
  Pdf | Docx | Xlsx | Pptx | Txt | Md | Html | Csv | Rtf | Odt | Ics

datatype docling_install = DoclingMissing | DoclingBroken exc | DoclingPresent

record blob_world =
  bw_names_fault :: "exc option"
  bw_insert_fault :: "exc option"
  bw_clear_fault :: "exc option"
  bw_fail_log_ok :: bool
  bw_transient_log_ok :: bool
  bw_parse :: "lw_format \<Rightarrow> exc + (string \<times> int option)"
  bw_docling :: docling_install
  bw_docling_version :: "string option"
  bw_converter :: "exc + unit"
  bw_convert :: "exc + unit"
  bw_export :: "exc + string"
  bw_pages :: "int option"

fun str_in :: "string \<Rightarrow> string \<Rightarrow> bool" where
  "str_in p [] \<longleftrightarrow> p = []"
| "str_in p (c # cs) \<longleftrightarrow> startswith (c # cs) p \<or> str_in p cs"

definition lw_dispatch :: "string option \<Rightarrow> string option \<Rightarrow> lw_format option" where
  "lw_dispatch mime_type filename =
     (let ext = extension_of filename; mt = lower (or_empty mime_type) in
      if mt = ''application/pdf'' \<or> ext = ''.pdf'' then Some Pdf
      else if str_in ''wordprocessingml'' mt \<or> ext = ''.docx'' then Some Docx
      else if str_in ''spreadsheetml'' mt \<or> ext = ''.xlsx'' then Some Xlsx
      else if str_in ''presentationml'' mt \<or> ext = ''.pptx'' then Some Pptx
      else if mt = ''text/plain'' \<or> ext = ''.txt'' then Some Txt
      else if mt = ''text/markdown'' \<or> ext = ''.md'' then Some Md
      else if mt = ''text/html'' \<or> ext = ''.html'' \<or> ext = ''.htm'' then Some Html
      else if mt = ''text/csv'' \<or> ext = ''.csv'' then Some Csv
      else if mt = ''application/rtf'' \<or> ext = ''.rtf'' then Some Rtf
      else if str_in ''opendocument.text'' mt \<or> ext = ''.odt'' then Some Odt
      else if mt = ''text/calendar'' \<or> ext = ''.ics'' then Some Ics
      else None)"

definition lightweight_extract ::
  "blob_world \<Rightarrow> string option \<Rightarrow> string option \<Rightarrow> exc + extracted_text" where
  "lightweight_extract w mime_type filename =
     (case lw_dispatch mime_type filename of
        None \<Rightarrow> Inl (extractor_error ''no extractor'' None)
      | Some fmt \<Rightarrow>
          bindr (bw_parse w fmt)
            (\<lambda>(t, pages). Inr (new_extracted_text t pages ''lightweight@1.0'')))"

definition try_import_docling :: "blob_world \<Rightarrow> exc + bool" where
  "try_import_docling w =
     (case bw_docling w of
        DoclingMissing \<Rightarrow> Inr False
      | DoclingBroken e \<Rightarrow>
          Inl (extractor_configuration_error ''docling is installed but cannot be imported'' (Some e))
      | DoclingPresent \<Rightarrow> Inr True)"

definition docling_convert :: "blob_world \<Rightarrow> exc + unit" where
  "docling_convert w =
     (case bw_convert w of
        Inr _ \<Rightarrow> Inr ()
      | Inl e \<Rightarrow>
          if exc_chain_has_import_error e
          then Inl (extractor_configuration_error ''docling could not import a module it needs'' (Some e))
          else if exc_chain_has_transient_module e
          then Inl (transient_extractor_error ''docling.convert transient failure'' (Some e))
          else Inl (extractor_error ''docling.convert failed'' (Some e)))"

text \<open>
  \<open>_converter_kwargs\<close> raises \<open>ExtractorConfigurationError\<close> itself or another exception, which
  the caller wraps; both arrive as a configuration error.
\<close>

definition build_converter :: "blob_world \<Rightarrow> exc + unit" where
  "build_converter w =
     (case bw_converter w of
        Inr _ \<Rightarrow> Inr ()
      | Inl e \<Rightarrow>
          if is_instance e [ExtractorConfigurationErr] then Inl e
          else Inl (extractor_configuration_error
                 ''docling DocumentConverter could not be built with the configured options'' (Some e)))"

definition docling_extract :: "blob_world \<Rightarrow> exc + extracted_text" where
  "docling_extract w =
     bindr (try_import_docling w) (\<lambda>installed.
       if \<not> installed then Inl (extractor_error ''docling not installed'' None)
       else bindr (build_converter w) (\<lambda>_.
         bindr (docling_convert w) (\<lambda>_.
           case bw_export w of
             Inl e \<Rightarrow> Inl (extractor_error ''docling export_to_markdown failed'' (Some e))
           | Inr t \<Rightarrow> Inr (new_extracted_text (strip t) (bw_pages w)
                 (''docling@'' @ (case bw_docling_version w of None \<Rightarrow> ''1.0'' | Some v \<Rightarrow> v))))))"

subsection \<open>Tables and configuration\<close>

record queue_blob =
  qb_sha256 :: bytes
  qb_path :: string
  qb_mime :: "string option"
  qb_size :: int
  qb_first_seen :: instant

record failed_extraction =
  fx_extractor :: string
  fx_error :: string
  fx_retry_count :: int

record transient_extraction =
  tx_count :: int
  tx_error :: string

text \<open>\<open>xd_entries\<close> holds the \<open>messages.attachments\<close> arrays: filename and hexadecimal hash.\<close>

record extract_db =
  xd_blobs :: "queue_blob list"
  xd_entries :: "(string option \<times> string) list list"
  xd_text :: "bytes \<Rightarrow> extracted_text option"
  xd_failed :: "bytes \<Rightarrow> failed_extraction option"
  xd_transient :: "bytes \<Rightarrow> transient_extraction option"

record extract_cfg =
  xc_run :: bool
  xc_batch_size :: nat
  xc_max_retries :: int
  xc_max_transient_retries :: int
  xc_mime_allowlist :: "string list"
  xc_extension_allowlist :: "string list"
  xc_max_blob_bytes :: int

definition default_mime_allowlist :: "string list" where
  "default_mime_allowlist =
     [''application/pdf'',
      ''application/vnd.openxmlformats-officedocument.wordprocessingml.document'',
      ''application/vnd.openxmlformats-officedocument.spreadsheetml.sheet'',
      ''application/vnd.openxmlformats-officedocument.presentationml.presentation'',
      ''application/vnd.oasis.opendocument.text'', ''application/rtf'', ''text/plain'',
      ''text/markdown'', ''text/html'', ''text/csv'', ''text/calendar'']"

definition default_extension_allowlist :: "string list" where
  "default_extension_allowlist =
     [''.pdf'', ''.docx'', ''.xlsx'', ''.pptx'', ''.odt'', ''.rtf'', ''.txt'', ''.md'', ''.html'',
      ''.htm'', ''.csv'', ''.ics'']"

subsection \<open>The queue's predicates\<close>

definition under_retry_caps :: "extract_cfg \<Rightarrow> extract_db \<Rightarrow> bytes \<Rightarrow> bool" where
  "under_retry_caps cfg d sha \<longleftrightarrow>
     (case xd_failed d sha of None \<Rightarrow> True | Some f \<Rightarrow> fx_retry_count f < xc_max_retries cfg) \<and>
     (case xd_transient d sha of None \<Rightarrow> True | Some t \<Rightarrow> tx_count t < xc_max_transient_retries cfg)"

definition claimable_where :: "extract_cfg \<Rightarrow> extract_db \<Rightarrow> bytes \<Rightarrow> bool" where
  "claimable_where cfg d sha \<longleftrightarrow> xd_text d sha = None \<and> under_retry_caps cfg d sha"

definition gave_up_where :: "extract_cfg \<Rightarrow> extract_db \<Rightarrow> bytes \<Rightarrow> bool" where
  "gave_up_where cfg d sha \<longleftrightarrow> xd_text d sha = None \<and> \<not> under_retry_caps cfg d sha"

definition extracted_where :: "extract_cfg \<Rightarrow> extract_db \<Rightarrow> bytes \<Rightarrow> bool" where
  "extracted_where cfg d sha \<longleftrightarrow>
     (case xd_text d sha of None \<Rightarrow> False | Some t \<Rightarrow> et_text t \<noteq> [])"

definition no_text_where :: "extract_cfg \<Rightarrow> extract_db \<Rightarrow> bytes \<Rightarrow> bool" where
  "no_text_where cfg d sha \<longleftrightarrow>
     (case xd_text d sha of None \<Rightarrow> False | Some t \<Rightarrow> et_text t = [])"

definition bucket_where :: "(extract_cfg \<Rightarrow> extract_db \<Rightarrow> bytes \<Rightarrow> bool) list" where
  "bucket_where = [extracted_where, no_text_where, gave_up_where, claimable_where]"

text \<open>
  \<open>substring(filename FROM '.(\\.[^.]+)$')\<close>: the leftmost position with any character, a dot
  and at least one more character, none of them a dot, up to the end.
\<close>

fun sql_extension :: "string \<Rightarrow> string option" where
  "sql_extension (c # d # rest) =
     (if d = CHR ''.'' \<and> rest \<noteq> [] \<and> CHR ''.'' \<notin> set rest then Some (d # rest)
      else sql_extension (d # rest))"
| "sql_extension _ = None"

text \<open>The hashes \<open>EXTENSION_MATCH_JOIN_SQL\<close> selects; a \<open>NULL\<close> filename or substring matches nothing.\<close>

definition extension_match :: "string list \<Rightarrow> extract_db \<Rightarrow> bytes \<Rightarrow> bool" where
  "extension_match allow d sha \<longleftrightarrow>
     list_ex (\<lambda>(filename, sha_hex).
        sha_hex = hex sha \<and>
        (case filename of None \<Rightarrow> False
         | Some f \<Rightarrow> (case sql_extension f of None \<Rightarrow> False | Some e \<Rightarrow> lower e \<in> set allow)))
       (concat (xd_entries d))"

definition allowlist_params :: "extract_cfg \<Rightarrow> string list \<times> string list" where
  "allowlist_params cfg =
     (map lower (xc_mime_allowlist cfg), map lower (xc_extension_allowlist cfg))"

text \<open>
  \<open>allowlisted_where\<close> of \<open>extract_queue.py\<close>. The code lowers the allowlists with Python's \<open>str.lower\<close> and
  the columns with PostgreSQL's \<open>lower()\<close>; one function stands for both here. They agree on ASCII;
  beyond it PostgreSQL's depends on the collation of the database, which is a simplification of the model.
\<close>

definition allowlisted_where :: "extract_cfg \<Rightarrow> extract_db \<Rightarrow> queue_blob \<Rightarrow> bool" where
  "allowlisted_where cfg d b \<longleftrightarrow>
     (case qb_mime b of None \<Rightarrow> False | Some m \<Rightarrow> lower m \<in> set (fst (allowlist_params cfg))) \<or>
     extension_match (snd (allowlist_params cfg)) d (qb_sha256 b)"

subsection \<open>The queue's counters\<close>

record queue_counts =
  qc_eligible :: int
  qc_extracted :: int
  qc_no_text :: int
  qc_gave_up :: int
  qc_pending :: int
  qc_claimable :: int
  qc_misfiled :: int

definition count_rows :: "(queue_blob \<Rightarrow> bool) \<Rightarrow> queue_blob list \<Rightarrow> int" where
  "count_rows P bs = int (length (filter P bs))"

definition bucket_total :: "extract_cfg \<Rightarrow> extract_db \<Rightarrow> queue_blob \<Rightarrow> int" where
  "bucket_total cfg d b = sum_list (map (\<lambda>P. if P cfg d (qb_sha256 b) then 1 else 0) bucket_where)"

definition queue_counts_row :: "extract_cfg \<Rightarrow> extract_db \<Rightarrow> queue_counts" where
  "queue_counts_row cfg d =
     (let bs = filter (allowlisted_where cfg d) (xd_blobs d);
          n = (\<lambda>P. count_rows (\<lambda>b. P cfg d (qb_sha256 b)) bs)
      in \<lparr>qc_eligible = int (length bs), qc_extracted = n extracted_where, qc_no_text = n no_text_where,
          qc_gave_up = n gave_up_where, qc_pending = n claimable_where, qc_claimable = 0,
          qc_misfiled = count_rows (\<lambda>b. bucket_total cfg d b \<noteq> 1) bs\<rparr>)"

datatype counts_error = Misfiled int | BucketsDoNotSum int int

definition post_init :: "queue_counts \<Rightarrow> counts_error + queue_counts" where
  "post_init q =
     (if qc_misfiled q \<noteq> 0 then Inl (Misfiled (qc_misfiled q))
      else
        (let total = qc_extracted q + qc_no_text q + qc_gave_up q + qc_pending q
         in if total \<noteq> qc_eligible q then Inl (BucketsDoNotSum total (qc_eligible q)) else Inr q))"

text \<open>
  Two statements, hence two snapshots under READ COMMITTED: \<open>d1\<close> for the partition, \<open>d2\<close> for
  the total. \<open>replace\<close> constructs a second instance, which is validated again.
\<close>

definition fetch_queue_counts ::
  "extract_cfg \<Rightarrow> extract_db \<Rightarrow> extract_db \<Rightarrow> counts_error + queue_counts" where
  "fetch_queue_counts cfg d1 d2 =
     bindr (post_init (queue_counts_row cfg d1)) (\<lambda>partition.
       post_init (partition\<lparr>qc_claimable :=
         count_rows (\<lambda>b. claimable_where cfg d2 (qb_sha256 b)) (xd_blobs d2)\<rparr>))"

subsection \<open>The worker\<close>

text \<open>
  \<open>ORDER BY first_seen_at LIMIT n FOR UPDATE OF b SKIP LOCKED\<close>: a row another session holds
  is passed over before the limit counts. Ties keep the table's order.
\<close>

record sweep_world =
  sw_locked :: "bytes \<Rightarrow> bool"
  sw_blob :: "bytes \<Rightarrow> blob_world"
  sw_commit_fault :: "exc option"

definition claim_batch ::
  "extract_cfg \<Rightarrow> (bytes \<Rightarrow> bool) \<Rightarrow> extract_db \<Rightarrow> (queue_blob \<times> int option) list" where
  "claim_batch cfg locked d =
     map (\<lambda>b. (b, map_option tx_count (xd_transient d (qb_sha256 b))))
       (take (xc_batch_size cfg)
         (sort_key qb_first_seen
           (filter (\<lambda>b. claimable_where cfg d (qb_sha256 b) \<and> \<not> locked (qb_sha256 b)) (xd_blobs d))))"

text \<open>\<open>SELECT DISTINCT\<close>: the order of the names is the tables' order.\<close>

definition blob_filenames :: "extract_db \<Rightarrow> bytes \<Rightarrow> string list" where
  "blob_filenames d sha =
     remdups (List.map_filter (\<lambda>(filename, sha_hex). if sha_hex = hex sha then filename else None)
       (concat (xd_entries d)))"

definition record_failure :: "bytes \<Rightarrow> string \<Rightarrow> exc \<Rightarrow> extract_db \<Rightarrow> extract_db" where
  "record_failure sha extractor_name e d =
     d\<lparr>xd_failed := (xd_failed d)(sha \<mapsto>
         \<lparr>fx_extractor = extractor_name, fx_error = strip_nuls (exc_message e),
          fx_retry_count = (case xd_failed d sha of None \<Rightarrow> 1 | Some f \<Rightarrow> fx_retry_count f + 1)\<rparr>)\<rparr>"

definition record_failure_safely ::
  "blob_world \<Rightarrow> bytes \<Rightarrow> string \<Rightarrow> exc \<Rightarrow> extract_db \<Rightarrow> bool \<times> extract_db" where
  "record_failure_safely w sha extractor_name e d =
     (if bw_fail_log_ok w then (True, record_failure sha extractor_name e d) else (False, d))"

definition record_transient :: "bytes \<Rightarrow> exc \<Rightarrow> extract_db \<Rightarrow> int \<times> extract_db" where
  "record_transient sha e d =
     (let n = (case xd_transient d sha of None \<Rightarrow> 1 | Some t \<Rightarrow> tx_count t + 1)
      in (n, d\<lparr>xd_transient := (xd_transient d)(sha \<mapsto>
                \<lparr>tx_count = n, tx_error = strip_nuls (exc_message e)\<rparr>)\<rparr>))"

definition record_transient_safely ::
  "blob_world \<Rightarrow> bytes \<Rightarrow> exc \<Rightarrow> extract_db \<Rightarrow> int option \<times> extract_db" where
  "record_transient_safely w sha e d =
     (if bw_transient_log_ok w then (case record_transient sha e d of (n, d') \<Rightarrow> (Some n, d'))
      else (None, d))"

definition clear_transient :: "bytes \<Rightarrow> extract_db \<Rightarrow> extract_db" where
  "clear_transient sha d = d\<lparr>xd_transient := (xd_transient d)(sha := None)\<rparr>"

definition transient_budget_exhausted :: "int \<Rightarrow> int \<Rightarrow> bool" where
  "transient_budget_exhausted transient_count max_transient_retries \<longleftrightarrow>
     max_transient_retries \<le> transient_count"

text \<open>PostgreSQL refuses a NUL in a \<open>TEXT\<close> column; an existing row wins the conflict.\<close>

definition insert_attachment_text ::
  "blob_world \<Rightarrow> bytes \<Rightarrow> extracted_text \<Rightarrow> extract_db \<Rightarrow> (exc + unit) \<times> extract_db" where
  "insert_attachment_text w sha et d =
     (case bw_insert_fault w of
        Some e \<Rightarrow> (Inl e, d)
      | None \<Rightarrow>
          if list_ex (\<lambda>c. ord c = 0) (et_text et)
          then (Inl (Exc [DataErr] ''psycopg.errors'' ''NUL'' None None False), d)
          else (Inr (), if xd_text d sha = None then d\<lparr>xd_text := (xd_text d)(sha \<mapsto> et)\<rparr> else d))"

definition insert_result ::
  "blob_world \<Rightarrow> bytes \<Rightarrow> extracted_text \<Rightarrow> extract_db \<Rightarrow> (exc + bool) \<times> extract_db" where
  "insert_result w sha et d =
     (case insert_attachment_text w sha et d of (Inl e, d') \<Rightarrow> (Inl e, d') | (Inr _, d') \<Rightarrow> (Inr True, d'))"

text \<open>
  The tail both branches of step 4 share: the lightweight extractor's own verdict, once
  docling has nothing to add.
\<close>

definition lightweight_verdict ::
  "blob_world \<Rightarrow> bytes \<Rightarrow> exc + extracted_text \<Rightarrow> extract_db \<Rightarrow> (exc + bool) \<times> extract_db" where
  "lightweight_verdict w sha lw d =
     (case lw of
        Inl e \<Rightarrow>
          if is_transient e then (Inl e, d)
          else (Inr False, snd (record_failure_safely w sha ''lightweight'' e d))
      | Inr _ \<Rightarrow> insert_result w sha (new_extracted_text [] None ''lightweight-empty'') d)"

definition process_blob ::
  "extract_cfg \<Rightarrow> blob_world \<Rightarrow> queue_blob \<Rightarrow> string option \<Rightarrow> extract_db \<Rightarrow> (exc + bool) \<times> extract_db" where
  "process_blob cfg w b filename d =
     (let sha = qb_sha256 b in
      if xc_max_blob_bytes cfg < qb_size b
      then insert_result w sha (new_extracted_text [] None ''size-skipped'') d
      else
        (let lw = lightweight_extract w (qb_mime b) filename in
         if (case lw of Inl _ \<Rightarrow> False | Inr et \<Rightarrow> et_text et \<noteq> [])
         then insert_result w sha (projr lw) d
         else if is_pdf (qb_mime b) filename
         then
           (case try_import_docling w of
              Inl e \<Rightarrow> (Inl e, d)
            | Inr False \<Rightarrow> lightweight_verdict w sha lw d
            | Inr True \<Rightarrow>
                (case docling_extract w of
                   Inl e \<Rightarrow>
                     if is_transient e then (Inl e, d)
                     else (Inr False, snd (record_failure_safely w sha ''docling'' e d))
                 | Inr et \<Rightarrow>
                     if et_text et \<noteq> [] then insert_result w sha et d
                     else lightweight_verdict w sha lw d))
         else lightweight_verdict w sha lw d))"

text \<open>The handler of an exception that reached the per-blob savepoint, after the rollback to it.\<close>

definition blob_failed ::
  "blob_world \<Rightarrow> bytes \<Rightarrow> exc \<Rightarrow> extract_db \<Rightarrow> nat \<times> extract_db" where
  "blob_failed w sha e d =
     (if is_transient e then (0, snd (record_transient_safely w sha e d))
      else (case record_failure_safely w sha ''unexpected'' e d of
              (logged, d') \<Rightarrow> (if logged then 1 else 0, d')))"

definition blob_step ::
  "extract_cfg \<Rightarrow> blob_world \<Rightarrow> queue_blob \<times> int option \<Rightarrow> extract_db \<Rightarrow> (exc + nat) \<times> extract_db" where
  "blob_step cfg w claim d =
     (case claim of (b, transient_count) \<Rightarrow>
        let sha = qb_sha256 b in
        case bw_names_fault w of
          Some e \<Rightarrow> (Inl e, d)
        | None \<Rightarrow>
            let filenames = blob_filenames d sha in
            if \<not> is_allowlisted (qb_mime b) filenames (xc_mime_allowlist cfg) (xc_extension_allowlist cfg)
            then (case insert_attachment_text w sha (new_extracted_text [] None ''type-skipped'') d of
                    (Inl e, d') \<Rightarrow> (Inl e, d')
                  | (Inr _, d') \<Rightarrow> (Inr 1, d'))
            else
              (case process_blob cfg w b (preferred_filename filenames (xc_extension_allowlist cfg)) d of
                 (Inl e, _) \<Rightarrow> (case blob_failed w sha e d of (n, d') \<Rightarrow> (Inr n, d'))
               | (Inr wrote, d1) \<Rightarrow>
                   if wrote \<and> transient_count \<noteq> None
                   then (case bw_clear_fault w of
                           Some e \<Rightarrow> (case blob_failed w sha e d of (n, d') \<Rightarrow> (Inr n, d'))
                         | None \<Rightarrow> (Inr 1, clear_transient sha d1))
                   else (Inr 1, d1)))"

fun batch_loop ::
  "extract_cfg \<Rightarrow> (bytes \<Rightarrow> blob_world) \<Rightarrow> (queue_blob \<times> int option) list \<Rightarrow> nat \<Rightarrow> extract_db \<Rightarrow>
   (exc + nat) \<times> extract_db" where
  "batch_loop cfg w [] touched d = (Inr touched, d)"
| "batch_loop cfg w (c # cs) touched d =
     (case blob_step cfg (w (qb_sha256 (fst c))) c d of
        (Inl e, d') \<Rightarrow> (Inl e, d')
      | (Inr n, d') \<Rightarrow> batch_loop cfg w cs (touched + n) d')"

text \<open>One transaction: an exception, at the commit too, leaves the tables as they were.\<close>

definition run_extract_worker_once ::
  "extract_cfg \<Rightarrow> sweep_world \<Rightarrow> extract_db \<Rightarrow> (exc + nat) \<times> extract_db" where
  "run_extract_worker_once cfg w d =
     (if \<not> xc_run cfg then (Inr 0, d)
      else
        (let batch = claim_batch cfg (sw_locked w) d in
         case (if batch = [] then (Inr 0, d) else batch_loop cfg (sw_blob w) batch 0 d) of
           (Inl e, _) \<Rightarrow> (Inl e, d)
         | (Inr touched, d') \<Rightarrow>
             (case sw_commit_fault w of None \<Rightarrow> (Inr touched, d') | Some e \<Rightarrow> (Inl e, d))))"

text \<open>
  The drain of one pool connection, \<open>while not stop: if sweep() == 0: break\<close>. The \<open>i\<close>-th sweep
  runs in world \<open>ws i\<close>, and \<open>stop i\<close> is what the event says before it. The loop has no bound of
  its own: \<open>n\<close> is the fuel, and \<open>None\<close> says that it did not suffice.
\<close>

fun drain ::
  "extract_cfg \<Rightarrow> (nat \<Rightarrow> sweep_world) \<Rightarrow> (nat \<Rightarrow> bool) \<Rightarrow> nat \<Rightarrow> nat \<Rightarrow> extract_db \<Rightarrow>
   ((exc option \<times> nat) \<times> extract_db) option" where
  "drain cfg ws stop i 0 d = None"
| "drain cfg ws stop i (Suc n) d =
     (if stop i then Some ((None, i), d)
      else (case run_extract_worker_once cfg (ws i) d of
              (Inl e, d') \<Rightarrow> Some ((Some e, Suc i), d')
            | (Inr touched, d') \<Rightarrow>
                if touched = 0 then Some ((None, Suc i), d') else drain cfg ws stop (Suc i) n d'))"

text \<open>
  What the loop does after a drain: the backoff it carries, and how long it waits for the stop
  event (in seconds; the poll interval is the configuration's).
\<close>

definition after_drain :: "int \<Rightarrow> exc option \<Rightarrow> int \<Rightarrow> int \<times> int" where
  "after_drain poll_interval failure backoff =
     (case failure of
        Some _ \<Rightarrow> (min (backoff * 2) 60, backoff)
      | None \<Rightarrow> (1, poll_interval))"

text \<open>
  \<open>localmail retry-failed-extractions\<close>: an absent or an empty \<open>--sha256\<close> clears both tables.
  \<open>decode\<close> is PostgreSQL's \<open>decode(_, 'hex')\<close>.
\<close>

definition retry_failed_extractions ::
  "(string \<Rightarrow> exc + bytes) \<Rightarrow> string option \<Rightarrow> extract_db \<Rightarrow> exc + extract_db" where
  "retry_failed_extractions decode sha256_hex d =
     (if or_empty sha256_hex = []
      then Inr (d\<lparr>xd_failed := (\<lambda>_. None), xd_transient := (\<lambda>_. None)\<rparr>)
      else bindr (decode (or_empty sha256_hex)) (\<lambda>sha.
             Inr (d\<lparr>xd_failed := (xd_failed d)(sha := None),
                    xd_transient := (xd_transient d)(sha := None)\<rparr>)))"

end
