(* ===== verification/ExtractSafety.thy ===== *)
theory ExtractSafety
  imports Extract
begin

text \<open>
  What the extraction queue and its worker promise: the four buckets partition the eligible
  blobs and the report never fails, the SQL allowlist decides what the Python one decides, a
  sweep touches only what it claimed and never a stored text, and every blob is settled after
  finitely many sweeps whatever the extractors do.
\<close>

subsection \<open>A queue whose work is finite\<close>

text \<open>
  The contract of a polling worker: an invariant every sweep keeps, a budget that each sweep
  in a fair world spends while there is work, and an idle queue that stays idle.
\<close>

fun run_sweeps :: "('w \<Rightarrow> 'd \<Rightarrow> 'd) \<Rightarrow> (nat \<Rightarrow> 'w) \<Rightarrow> nat \<Rightarrow> 'd \<Rightarrow> 'd" where
  "run_sweeps sweep ws 0 d = d"
| "run_sweeps sweep ws (Suc n) d = run_sweeps sweep (\<lambda>i. ws (Suc i)) n (sweep (ws 0) d)"

locale work_queue =
  fixes sweep :: "'w \<Rightarrow> 'd \<Rightarrow> 'd"
    and budget :: "'d \<Rightarrow> nat"
    and inv :: "'d \<Rightarrow> bool"
    and fair :: "'w \<Rightarrow> bool"
    and idle :: "'d \<Rightarrow> bool"
  assumes sweep_inv: "inv d \<Longrightarrow> inv (sweep w d)"
    and sweep_spends: "inv d \<Longrightarrow> fair w \<Longrightarrow> \<not> idle d \<Longrightarrow> budget (sweep w d) < budget d"
    and idle_stays: "inv d \<Longrightarrow> idle d \<Longrightarrow> idle (sweep w d)"
begin

lemma idle_sweeps: "inv d \<Longrightarrow> idle d \<Longrightarrow> idle (run_sweeps sweep ws n d)"
  by (induction n arbitrary: d ws) (auto intro: sweep_inv idle_stays)

lemma sweeps_reach_idle:
  "inv d \<Longrightarrow> (\<And>i. fair (ws i)) \<Longrightarrow> budget d \<le> n \<Longrightarrow> idle (run_sweeps sweep ws n d)"
proof (induction n arbitrary: d ws)
  case 0
  then show ?case using sweep_spends [of d "ws 0"] by fastforce
next
  case (Suc n)
  show ?case
  proof (cases "idle d")
    case True
    with Suc.prems show ?thesis by (simp only: idle_sweeps)
  next
    case False
    with Suc.prems sweep_spends [of d "ws 0"] have "budget (sweep (ws 0) d) \<le> n"
      by fastforce
    with Suc.IH [of "sweep (ws 0) d" "\<lambda>i. ws (Suc i)"] Suc.prems show ?thesis
      by (simp add: sweep_inv)
  qed
qed

lemma sweeps_inv: "inv d \<Longrightarrow> inv (run_sweeps sweep ws n d)"
  by (induction n arbitrary: d ws) (auto intro: sweep_inv)

end

subsection \<open>What one blob's step may change\<close>

text \<open>Text fit for the column and for the chunker: no NUL, and blank only as the sentinel.\<close>

definition storable_text :: "extracted_text \<Rightarrow> bool" where
  "storable_text et \<longleftrightarrow> \<not> list_ex (\<lambda>c. ord c = 0) (et_text et) \<and> (et_text et = [] \<or> \<not> is_blank (et_text et))"

lemma new_extracted_text_storable [simp]: "storable_text (new_extracted_text t pages name)"
  by (auto simp: storable_text_def new_extracted_text_def strip_nuls_def Let_def list_ex_iff)

lemma lightweight_extract_storable: "lightweight_extract w m f = Inr et \<Longrightarrow> storable_text et"
  by (auto simp: lightweight_extract_def bindr_Inr_iff split: option.splits)

lemma docling_extract_storable: "docling_extract w = Inr et \<Longrightarrow> storable_text et"
  by (auto simp: docling_extract_def bindr_Inr_iff split: if_splits sum.splits)

definition touches_only :: "bytes \<Rightarrow> extract_db \<Rightarrow> extract_db \<Rightarrow> bool" where
  "touches_only sha d d' \<longleftrightarrow>
     xd_blobs d' = xd_blobs d \<and> xd_entries d' = xd_entries d \<and>
     (\<forall>s. s \<noteq> sha \<longrightarrow> xd_text d' s = xd_text d s \<and> xd_failed d' s = xd_failed d s \<and>
        xd_transient d' s = xd_transient d s) \<and>
     (xd_text d sha \<noteq> None \<longrightarrow> xd_text d' sha = xd_text d sha) \<and>
     (\<forall>et. xd_text d sha = None \<longrightarrow> xd_text d' sha = Some et \<longrightarrow> storable_text et)"

lemma touches_only_refl [simp]: "touches_only sha d d"
  by (simp add: touches_only_def)

lemma touches_only_trans: "touches_only sha d d1 \<Longrightarrow> touches_only sha d1 d2 \<Longrightarrow> touches_only sha d d2"
  by (auto simp: touches_only_def)

lemma record_failure_touches [simp]: "touches_only sha d (record_failure sha name e d)"
  by (simp add: touches_only_def record_failure_def)

lemma record_failure_safely_touches [simp]: "touches_only sha d (snd (record_failure_safely w sha name e d))"
  by (simp add: record_failure_safely_def)

lemma record_transient_safely_touches [simp]:
  "touches_only sha d (snd (record_transient_safely w sha e d))"
  by (simp add: record_transient_safely_def record_transient_def touches_only_def Let_def)

lemma clear_transient_touches [simp]: "touches_only sha d (clear_transient sha d)"
  by (simp add: clear_transient_def touches_only_def)

lemma insert_attachment_text_touches [simp]:
  "storable_text et \<Longrightarrow> touches_only sha d (snd (insert_attachment_text w sha et d))"
  by (auto simp: insert_attachment_text_def touches_only_def split: option.split)

lemma snd_insert_result [simp]:
  "snd (insert_result w sha et d) = snd (insert_attachment_text w sha et d)"
  by (simp add: insert_result_def split: prod.split sum.split)

lemma lightweight_verdict_touches [simp]: "touches_only sha d (snd (lightweight_verdict w sha lw d))"
  by (simp add: lightweight_verdict_def split: sum.split)

lemma process_blob_touches: "touches_only (qb_sha256 b) d (snd (process_blob cfg w b f d))"
  using lightweight_extract_storable [of w "qb_mime b" f] docling_extract_storable [of w]
  by (simp add: process_blob_def Let_def split: sum.split bool.split)

lemma blob_failed_touches: "touches_only sha d (snd (blob_failed w sha e d))"
proof -
  have "snd (blob_failed w sha e d) =
      (if is_transient e then snd (record_transient_safely w sha e d)
       else snd (record_failure_safely w sha ''unexpected'' e d))"
    by (simp add: blob_failed_def split: prod.split)
  then show ?thesis by simp
qed

text \<open>The three ways out of a step: the type skip, a handled exception, a verdict.\<close>

lemma blob_step_snd:
  fixes cfg :: extract_cfg and w :: blob_world and d :: extract_db
  assumes "fst c = b"
  defines "sha \<equiv> qb_sha256 b"
    and "f \<equiv> preferred_filename (blob_filenames d (qb_sha256 b)) (xc_extension_allowlist cfg)"
  obtains "snd (blob_step cfg w c d) = d"
  | "snd (blob_step cfg w c d) =
       snd (insert_attachment_text w sha (new_extracted_text [] None ''type-skipped'') d)"
  | e where "snd (blob_step cfg w c d) = snd (blob_failed w sha e d)"
  | "snd (blob_step cfg w c d) = snd (process_blob cfg w b f d)"
  | "snd (blob_step cfg w c d) = clear_transient sha (snd (process_blob cfg w b f d))"
proof -
  obtain tc where c: "c = (b, tc)" using assms(1) by (cases c) simp
  obtain r d1 where pb: "process_blob cfg w b f d = (r, d1)" by (cases "process_blob cfg w b f d")
  obtain i di where ins: "insert_attachment_text w sha (new_extracted_text [] None ''type-skipped'') d = (i, di)"
    by (cases "insert_attachment_text w sha (new_extracted_text [] None ''type-skipped'') d")
  note step = blob_step_def c Let_def pb [unfolded f_def sha_def] ins [unfolded sha_def]
  show thesis
  proof (cases "bw_names_fault w")
    case (Some e)
    then show ?thesis by (intro that(1)) (simp add: step)
  next
    case None
    show ?thesis
    proof (cases "is_allowlisted (qb_mime b) (blob_filenames d sha) (xc_mime_allowlist cfg) (xc_extension_allowlist cfg)")
      case False
      with None show ?thesis
        by (intro that(2)) (simp add: step sha_def ins [unfolded sha_def] split: sum.split)
    next
      case True
      show ?thesis
      proof (cases r)
        case (Inl e)
        with None True show ?thesis
          by (intro that(3) [of e]) (simp add: step sha_def split: prod.split)
      next
        case (Inr wrote)
        show ?thesis
        proof (cases "wrote \<and> tc \<noteq> None")
          case False
          with Inr None True show ?thesis by (intro that(4)) (auto simp: step sha_def f_def pb [unfolded f_def])
        next
          case clear: True
          show ?thesis
          proof (cases "bw_clear_fault w")
            case None
            with \<open>bw_names_fault w = None\<close> Inr True clear show ?thesis
              by (intro that(5)) (auto simp: step sha_def f_def pb [unfolded f_def])
          next
            case (Some e)
            with None Inr True clear show ?thesis
              by (intro that(3) [of e]) (auto simp: step sha_def split: prod.split)
          qed
        qed
      qed
    qed
  qed
qed

lemma blob_step_touches: "touches_only (qb_sha256 (fst c)) d (snd (blob_step cfg w c d))"
  by (rule blob_step_snd [OF refl, where c = c and cfg = cfg and w = w and d = d])
    (auto intro: blob_failed_touches process_blob_touches
       touches_only_trans [OF process_blob_touches clear_transient_touches])

subsection \<open>What one blob's step achieves when the database answers\<close>

text \<open>A world in which every statement succeeds; the extractors may still do anything.\<close>

definition db_quiet :: "blob_world \<Rightarrow> bool" where
  "db_quiet w \<longleftrightarrow> bw_names_fault w = None \<and> bw_insert_fault w = None \<and> bw_clear_fault w = None \<and>
     bw_fail_log_ok w \<and> bw_transient_log_ok w"

lemma insert_result_quiet:
  "db_quiet w \<Longrightarrow> storable_text et \<Longrightarrow> xd_text d sha = None \<Longrightarrow>
   insert_result w sha et d = (Inr True, d\<lparr>xd_text := (xd_text d)(sha \<mapsto> et)\<rparr>)"
  by (simp add: insert_result_def insert_attachment_text_def db_quiet_def storable_text_def)

lemma import_error_transient: "try_import_docling w = Inl e \<Longrightarrow> is_transient e"
  by (auto simp: try_import_docling_def raise_from_def is_transient_def is_instance_def
      split: docling_install.splits)

definition verdict :: "bytes \<Rightarrow> extract_db \<Rightarrow> (exc + bool) \<times> extract_db \<Rightarrow> bool" where
  "verdict sha d r \<longleftrightarrow>
     (\<exists>et. storable_text et \<and> r = (Inr True, d\<lparr>xd_text := (xd_text d)(sha \<mapsto> et)\<rparr>)) \<or>
     (\<exists>name e. r = (Inr False, record_failure sha name e d)) \<or>
     (\<exists>e. is_transient e \<and> r = (Inl e, d))"

lemma verdict_intros:
  "storable_text et \<Longrightarrow> db_quiet w \<Longrightarrow> xd_text d sha = None \<Longrightarrow> verdict sha d (insert_result w sha et d)"
  "db_quiet w \<Longrightarrow> verdict sha d (Inr False, snd (record_failure_safely w sha name e d))"
  "is_transient e \<Longrightarrow> verdict sha d (Inl e, d)"
  by (auto simp: verdict_def insert_result_quiet record_failure_safely_def db_quiet_def)

lemma lightweight_verdict_verdict:
  "db_quiet w \<Longrightarrow> xd_text d sha = None \<Longrightarrow> verdict sha d (lightweight_verdict w sha lw d)"
  by (simp add: lightweight_verdict_def verdict_intros split: sum.split)

lemma process_blob_verdict:
  assumes "db_quiet w" "xd_text d (qb_sha256 b) = None"
  shows "verdict (qb_sha256 b) d (process_blob cfg w b f d)"
proof -
  note rules = verdict_intros lightweight_verdict_verdict assms import_error_transient
    lightweight_extract_storable docling_extract_storable
  show ?thesis
    by (auto simp: process_blob_def Let_def rules split: sum.split bool.split intro: rules)
qed

lemma blob_failed_transient:
  "db_quiet w \<Longrightarrow> is_transient e \<Longrightarrow> blob_failed w sha e d = (0, snd (record_transient sha e d))"
  by (simp add: blob_failed_def record_transient_safely_def db_quiet_def split: prod.split)

definition step_result :: "bytes \<Rightarrow> extract_db \<Rightarrow> (exc + nat) \<times> extract_db \<Rightarrow> bool" where
  "step_result sha d r \<longleftrightarrow>
     fst r = Inr 1 \<and> (\<exists>et. storable_text et \<and> xd_text (snd r) sha = Some et) \<or>
     fst r = Inr 1 \<and> (\<exists>name e. snd r = record_failure sha name e d) \<or>
     fst r = Inr 0 \<and> (\<exists>e. is_transient e \<and> snd r = snd (record_transient sha e d))"

lemma blob_step_result:
  assumes quiet: "db_quiet w" and fresh: "xd_text d (qb_sha256 (fst c)) = None"
  shows "step_result (qb_sha256 (fst c)) d (blob_step cfg w c d)"
proof -
  obtain b tc where c: "c = (b, tc)" by (cases c)
  let ?f = "preferred_filename (blob_filenames d (qb_sha256 b)) (xc_extension_allowlist cfg)"
  let ?pb = "process_blob cfg w b ?f d"
  note step = blob_step_def c Let_def
  have q: "bw_names_fault w = None" "bw_clear_fault w = None" using quiet by (auto simp: db_quiet_def)
  show ?thesis
  proof (cases "is_allowlisted (qb_mime b) (blob_filenames d (qb_sha256 b)) (xc_mime_allowlist cfg)
      (xc_extension_allowlist cfg)")
    case False
    with q quiet fresh new_extracted_text_storable [of "[]" None "''type-skipped''"] show ?thesis
      by (auto simp: step step_result_def insert_attachment_text_def db_quiet_def storable_text_def)
  next
    case True
    from process_blob_verdict [OF quiet, of d b cfg ?f] fresh c
    have "verdict (qb_sha256 b) d ?pb" by simp
    then consider (stored) et where "storable_text et" "?pb = (Inr True, d\<lparr>xd_text := (xd_text d)(qb_sha256 b \<mapsto> et)\<rparr>)"
      | (failed) name e where "?pb = (Inr False, record_failure (qb_sha256 b) name e d)"
      | (transient) e where "is_transient e" "?pb = (Inl e, d)"
      unfolding verdict_def by blast
    then show ?thesis
    proof cases
      case stored
      with True q show ?thesis
        by (auto simp: step step_result_def clear_transient_def)
    next
      case failed
      with True q show ?thesis by (auto simp: step step_result_def)
    next
      case transient
      with True q quiet show ?thesis by (auto simp: step step_result_def blob_failed_transient)
    qed
  qed
qed

subsection \<open>The work left in the queue\<close>

definition retries :: "extract_db \<Rightarrow> bytes \<Rightarrow> int" where
  "retries d sha = (case xd_failed d sha of None \<Rightarrow> 0 | Some f \<Rightarrow> fx_retry_count f)"

definition transients :: "extract_db \<Rightarrow> bytes \<Rightarrow> int" where
  "transients d sha = (case xd_transient d sha of None \<Rightarrow> 0 | Some t \<Rightarrow> tx_count t)"

definition attempts_left :: "extract_cfg \<Rightarrow> extract_db \<Rightarrow> bytes \<Rightarrow> nat" where
  "attempts_left cfg d sha =
     (if claimable_where cfg d sha
      then nat (xc_max_retries cfg - retries d sha) +
        nat (xc_max_transient_retries cfg - transients d sha) + 1
      else 0)"

definition queue_budget :: "extract_cfg \<Rightarrow> extract_db \<Rightarrow> nat" where
  "queue_budget cfg d = sum_list (map (\<lambda>b. attempts_left cfg d (qb_sha256 b)) (xd_blobs d))"

definition queue_idle :: "extract_cfg \<Rightarrow> extract_db \<Rightarrow> bool" where
  "queue_idle cfg d \<longleftrightarrow> list_all (\<lambda>b. \<not> claimable_where cfg d (qb_sha256 b)) (xd_blobs d)"

definition blob_keys_unique :: "extract_db \<Rightarrow> bool" where
  "blob_keys_unique d \<longleftrightarrow> distinct (map qb_sha256 (xd_blobs d))"

lemma touched_attempts:
  "touches_only sha d d' \<Longrightarrow> s \<noteq> sha \<Longrightarrow> attempts_left cfg d' s = attempts_left cfg d s"
  by (simp add: touches_only_def attempts_left_def claimable_where_def under_retry_caps_def
      retries_def transients_def)

lemma touched_claimable:
  "touches_only sha d d' \<Longrightarrow> s \<noteq> sha \<Longrightarrow> claimable_where cfg d' s = claimable_where cfg d s"
  by (simp add: touches_only_def claimable_where_def under_retry_caps_def)

lemma step_spends_attempt:
  assumes "claimable_where cfg d sha" and "step_result sha d r"
  shows "attempts_left cfg (snd r) sha < attempts_left cfg d sha"
proof -
  note defs = attempts_left_def claimable_where_def under_retry_caps_def retries_def transients_def
  from assms(2) consider et where "xd_text (snd r) sha = Some et"
    | name e where "snd r = record_failure sha name e d"
    | e where "snd r = snd (record_transient sha e d)"
    unfolding step_result_def by blast
  then show ?thesis
  proof cases
    case 1
    with assms(1) show ?thesis by (simp add: attempts_left_def claimable_where_def)
  next
    case 2
    with assms(1) show ?thesis
      by (auto simp: defs record_failure_def split: option.splits)
  next
    case 3
    with assms(1) show ?thesis
      by (auto simp: defs record_transient_def Let_def split: option.splits)
  qed
qed

subsection \<open>A batch and a sweep\<close>

definition touches_among :: "bytes set \<Rightarrow> extract_db \<Rightarrow> extract_db \<Rightarrow> bool" where
  "touches_among S d d' \<longleftrightarrow>
     xd_blobs d' = xd_blobs d \<and> xd_entries d' = xd_entries d \<and>
     (\<forall>s. s \<notin> S \<longrightarrow> xd_text d' s = xd_text d s \<and> xd_failed d' s = xd_failed d s \<and>
        xd_transient d' s = xd_transient d s) \<and>
     (\<forall>s. xd_text d s \<noteq> None \<longrightarrow> xd_text d' s = xd_text d s) \<and>
     (\<forall>s et. xd_text d s = None \<longrightarrow> xd_text d' s = Some et \<longrightarrow> storable_text et)"

lemma touches_only_among: "touches_only sha d d' \<Longrightarrow> sha \<in> S \<Longrightarrow> touches_among S d d'"
  unfolding touches_only_def touches_among_def by (intro conjI allI impI) (metis option.discI)+

lemma touches_among_refl [simp]: "touches_among S d d"
  by (simp add: touches_among_def)

lemma touches_among_trans: "touches_among S d d1 \<Longrightarrow> touches_among S d1 d2 \<Longrightarrow> touches_among S d d2"
  unfolding touches_among_def by metis

lemma touches_among_mono: "touches_among S d d' \<Longrightarrow> S \<subseteq> T \<Longrightarrow> touches_among T d d'"
  unfolding touches_among_def by blast

lemma among_attempts: "touches_among S d d' \<Longrightarrow> s \<notin> S \<Longrightarrow> attempts_left cfg d' s = attempts_left cfg d s"
  by (simp add: touches_among_def attempts_left_def claimable_where_def under_retry_caps_def
      retries_def transients_def)

abbreviation claim_keys :: "(queue_blob \<times> int option) list \<Rightarrow> bytes set" where
  "claim_keys cs \<equiv> (\<lambda>c. qb_sha256 (fst c)) ` set cs"

lemma batch_loop_touches: "touches_among (claim_keys cs) d (snd (batch_loop cfg w cs n d))"
proof (induction cs arbitrary: n d)
  case Nil
  then show ?case by simp
next
  case (Cons c cs)
  obtain r d1 where step: "blob_step cfg (w (qb_sha256 (fst c))) c d = (r, d1)" by fastforce
  have first: "touches_among (claim_keys (c # cs)) d d1"
    using blob_step_touches [of c d cfg "w (qb_sha256 (fst c))"] step touches_only_among by simp
  have rest: "touches_among (claim_keys (c # cs)) d1 (snd (batch_loop cfg w cs (n + k) d1))" for k
    by (rule touches_among_mono [OF Cons.IH]) auto
  show ?case
    using first touches_among_trans [OF first rest] by (auto simp: step split: sum.split)
qed

lemma claim_batch_keys:
  "c \<in> set (claim_batch cfg locked d) \<Longrightarrow>
   fst c \<in> set (xd_blobs d) \<and> claimable_where cfg d (qb_sha256 (fst c)) \<and> \<not> locked (qb_sha256 (fst c))"
  by (auto simp: claim_batch_def dest!: in_set_takeD)

lemma claim_batch_distinct:
  "blob_keys_unique d \<Longrightarrow> distinct (map (\<lambda>c. qb_sha256 (fst c)) (claim_batch cfg locked d))"
proof -
  assume "blob_keys_unique d"
  then have "distinct (map qb_sha256 (filter P (xd_blobs d)))" for P
    by (simp add: blob_keys_unique_def distinct_map_filter)
  then have "distinct (map qb_sha256 (sort_key qb_first_seen (filter P (xd_blobs d))))" for P
    by (simp add: distinct_map)
  then show ?thesis
    by (simp add: claim_batch_def comp_def take_map [symmetric] distinct_take)
qed

lemma sweep_touches:
  "touches_among (claim_keys (claim_batch cfg (sw_locked w) d)) d (snd (run_extract_worker_once cfg w d))"
  using batch_loop_touches [of "claim_batch cfg (sw_locked w) d" d cfg "sw_blob w" 0]
  by (auto simp: run_extract_worker_once_def Let_def split: prod.split sum.split option.split)

text \<open>A batch in a quiet world spends an attempt of every blob it claimed.\<close>

lemma batch_loop_spends:
  assumes "\<And>sha. db_quiet (w sha)"
    and "distinct (map (\<lambda>c. qb_sha256 (fst c)) cs)"
    and "\<And>c. c \<in> set cs \<Longrightarrow> claimable_where cfg d (qb_sha256 (fst c))"
  shows "(\<exists>m. fst (batch_loop cfg w cs n d) = Inr m) \<and>
    (\<forall>c \<in> set cs. attempts_left cfg (snd (batch_loop cfg w cs n d)) (qb_sha256 (fst c)) <
       attempts_left cfg d (qb_sha256 (fst c)))"
  using assms(2,3)
proof (induction cs arbitrary: n d)
  case Nil
  then show ?case by simp
next
  case (Cons c cs)
  let ?sha = "qb_sha256 (fst c)"
  obtain r d1 where step: "blob_step cfg (w ?sha) c d = (r, d1)" by fastforce
  have claim: "claimable_where cfg d ?sha" using Cons.prems by simp
  then have res: "step_result ?sha d (r, d1)"
    using blob_step_result [OF assms(1) [of ?sha], of d c cfg] step by (simp add: claimable_where_def)
  then obtain k where r: "r = Inr k" by (auto simp: step_result_def)
  have only: "touches_only ?sha d d1"
    using blob_step_touches [of c d cfg "w ?sha"] step by simp
  have less: "attempts_left cfg d1 ?sha < attempts_left cfg d ?sha"
    using step_spends_attempt [OF claim res] by simp
  let ?d2 = "snd (batch_loop cfg w cs (n + k) d1)"
  have fresh: "qb_sha256 (fst c') \<noteq> ?sha" if "c' \<in> set cs" for c'
    using Cons.prems(1) that by (metis (mono_tags, lifting) distinct.simps(2) image_eqI list.simps(9) list.set_map)
  have IH: "(\<exists>m. fst (batch_loop cfg w cs (n + k) d1) = Inr m) \<and>
    (\<forall>c \<in> set cs. attempts_left cfg ?d2 (qb_sha256 (fst c)) < attempts_left cfg d1 (qb_sha256 (fst c)))"
    using Cons.prems fresh touched_claimable [OF only] by (intro Cons.IH) auto
  have "touches_among (claim_keys cs) d1 ?d2" by (rule batch_loop_touches)
  moreover have "?sha \<notin> claim_keys cs" using fresh by (metis (mono_tags, lifting) imageE)
  ultimately have "attempts_left cfg ?d2 ?sha = attempts_left cfg d1 ?sha"
    by (rule among_attempts)
  then show ?case
    using IH less fresh touched_attempts [OF only] by (auto simp: step r)
qed

text \<open>A fair sweep: nobody holds a lock, the statements and the commit succeed.\<close>

definition fair_sweep :: "sweep_world \<Rightarrow> bool" where
  "fair_sweep w \<longleftrightarrow> (\<forall>sha. \<not> sw_locked w sha \<and> db_quiet (sw_blob w sha)) \<and> sw_commit_fault w = None"

definition worker_on :: "extract_cfg \<Rightarrow> extract_db \<Rightarrow> bool" where
  "worker_on cfg d \<longleftrightarrow> xc_run cfg \<and> 0 < xc_batch_size cfg \<and> blob_keys_unique d"

lemma sort_key_Nil_iff: "sort_key f xs = [] \<longleftrightarrow> xs = []"
  by (metis length_0_conv length_sort)

lemma fair_claims_something:
  assumes "worker_on cfg d" "fair_sweep w" "\<not> queue_idle cfg d"
  shows "claim_batch cfg (sw_locked w) d \<noteq> []"
  using assms by (auto simp: claim_batch_def worker_on_def fair_sweep_def queue_idle_def list_all_iff
      sort_key_Nil_iff filter_empty_conv)

lemma fair_sweep_spends:
  assumes on: "worker_on cfg d" and fair: "fair_sweep w" and busy: "\<not> queue_idle cfg d"
  shows "queue_budget cfg (snd (run_extract_worker_once cfg w d)) < queue_budget cfg d"
proof -
  let ?cs = "claim_batch cfg (sw_locked w) d"
  let ?r = "batch_loop cfg (sw_blob w) ?cs 0 d"
  have cs: "?cs \<noteq> []" by (rule fair_claims_something [OF assms])
  have spends: "(\<exists>m. fst ?r = Inr m) \<and>
      (\<forall>c \<in> set ?cs. attempts_left cfg (snd ?r) (qb_sha256 (fst c)) < attempts_left cfg d (qb_sha256 (fst c)))"
    using on fair claim_batch_distinct claim_batch_keys
    by (intro batch_loop_spends) (auto simp: fair_sweep_def worker_on_def)
  then have sweep: "snd (run_extract_worker_once cfg w d) = snd ?r"
    using on fair cs by (auto simp: run_extract_worker_once_def worker_on_def fair_sweep_def Let_def split: prod.split)
  have among: "touches_among (claim_keys ?cs) d (snd ?r)" by (rule batch_loop_touches)
  have le: "attempts_left cfg (snd ?r) s \<le> attempts_left cfg d s" for s
  proof (cases "s \<in> claim_keys ?cs")
    case True
    with spends show ?thesis by (blast intro: less_imp_le)
  next
    case False
    from among_attempts [OF among this] show ?thesis by simp
  qed
  obtain c where c: "c \<in> set ?cs" using cs by (cases ?cs) auto
  then have "fst c \<in> set (xd_blobs d)" using claim_batch_keys by blast
  moreover have "attempts_left cfg (snd ?r) (qb_sha256 (fst c)) < attempts_left cfg d (qb_sha256 (fst c))"
    using spends c by blast
  ultimately have "sum_list (map (\<lambda>b. attempts_left cfg (snd ?r) (qb_sha256 b)) (xd_blobs d)) < queue_budget cfg d"
    unfolding queue_budget_def using le by (intro sum_list_strict_mono_ex) auto
  with sweep among show ?thesis by (simp add: queue_budget_def touches_among_def)
qed

lemma sweep_keeps_worker_on: "worker_on cfg d \<Longrightarrow> worker_on cfg (snd (run_extract_worker_once cfg w d))"
  using sweep_touches [of cfg w d] by (simp add: worker_on_def blob_keys_unique_def touches_among_def)

lemma idle_claims_nothing: "queue_idle cfg d \<Longrightarrow> claim_batch cfg locked d = []"
  by (auto simp: claim_batch_def queue_idle_def list_all_iff filter_empty_conv)

lemma idle_sweep: "queue_idle cfg d \<Longrightarrow> snd (run_extract_worker_once cfg w d) = d"
  by (auto simp: run_extract_worker_once_def idle_claims_nothing Let_def split: option.split)

interpretation extraction: work_queue
  "\<lambda>w d. snd (run_extract_worker_once cfg w d)" "queue_budget cfg" "worker_on cfg" fair_sweep "queue_idle cfg"
  for cfg
  by unfold_locales (auto simp: sweep_keeps_worker_on fair_sweep_spends idle_sweep)

subsection \<open>The buckets\<close>

lemma buckets_partition: "bucket_total cfg d b = 1"
  by (simp add: bucket_total_def bucket_where_def extracted_where_def no_text_where_def
      gave_up_where_def claimable_where_def split: option.split)

lemma count_rows_partition:
  "int (length bs) =
     count_rows (\<lambda>b. extracted_where cfg d (qb_sha256 b)) bs + count_rows (\<lambda>b. no_text_where cfg d (qb_sha256 b)) bs +
     count_rows (\<lambda>b. gave_up_where cfg d (qb_sha256 b)) bs + count_rows (\<lambda>b. claimable_where cfg d (qb_sha256 b)) bs"
proof (induction bs)
  case (Cons b bs)
  have "(if extracted_where cfg d (qb_sha256 b) then 1 else 0) + (if no_text_where cfg d (qb_sha256 b) then 1 else 0) +
      (if gave_up_where cfg d (qb_sha256 b) then 1 else 0) + (if claimable_where cfg d (qb_sha256 b) then 1 else 0) = (1 :: int)"
    using buckets_partition [of cfg d b] by (simp add: bucket_total_def bucket_where_def)
  with Cons.IH show ?case by (auto simp: count_rows_def split: if_splits)
qed (simp add: count_rows_def)

lemma filter_commute: "filter P (filter Q xs) = filter Q (filter P xs)"
  by (induction xs) auto

lemma queue_counts_row_ok:
  "post_init ((queue_counts_row cfg d)\<lparr>qc_claimable := n\<rparr>) = Inr ((queue_counts_row cfg d)\<lparr>qc_claimable := n\<rparr>)"
  using count_rows_partition [of "filter (allowlisted_where cfg d) (xd_blobs d)" cfg d]
  by (simp add: post_init_def queue_counts_row_def Let_def buckets_partition count_rows_def)

lemma qc_claimable_zero: "(queue_counts_row cfg d)\<lparr>qc_claimable := 0\<rparr> = queue_counts_row cfg d"
  by (simp add: queue_counts_row_def Let_def)

lemma fetch_queue_counts_eq:
  "fetch_queue_counts cfg d1 d2 = Inr ((queue_counts_row cfg d1)\<lparr>qc_claimable :=
     count_rows (\<lambda>b. claimable_where cfg d2 (qb_sha256 b)) (xd_blobs d2)\<rparr>)"
  using queue_counts_row_ok [where cfg = cfg and d = d1 and n = 0]
  by (simp add: fetch_queue_counts_def qc_claimable_zero queue_counts_row_ok)

subsection \<open>The SQL allowlist\<close>

text \<open>A name as \<open>sanitize_filename\<close> leaves it: not empty, and without a slash.\<close>

definition stored_name :: "string \<Rightarrow> bool" where
  "stored_name n \<longleftrightarrow> n \<noteq> [] \<and> CHR ''/'' \<notin> set n"

lemma sanitize_stored_name: "stored_name (sanitize_filename name)"
  using sanitize_chars [of name] sanitize_nonempty [of name]
  by (auto simp: stored_name_def list_all_iff is_unsafe_def)

lemma split_on_absent: "sep \<notin> set s \<Longrightarrow> split_on sep s = [s]"
  by (induction s) auto

lemma path_name_stored: "stored_name n \<Longrightarrow> n \<noteq> ''.'' \<Longrightarrow> path_name n = n"
  by (simp add: stored_name_def path_name_def split_on_absent)

lemma sql_extension_no_dot: "CHR ''.'' \<notin> set (tl s) \<Longrightarrow> sql_extension s = None"
  by (induction s rule: sql_extension.induct) auto

lemma sql_extension_last_dot:
  "CHR ''.'' \<notin> set e \<Longrightarrow>
   sql_extension (p @ CHR ''.'' # e) = (if p = [] \<or> e = [] then None else Some (CHR ''.'' # e))"
proof (induction p)
  case Nil
  then show ?case by (simp add: sql_extension_no_dot)
next
  case (Cons c p)
  show ?case
  proof (cases p)
    case Nil
    with Cons.prems show ?thesis by (cases e) (auto simp: sql_extension_no_dot)
  next
    case (Cons d ds)
    with Cons.IH Cons.prems show ?thesis by simp
  qed
qed

lemma last_dot_split:
  assumes "CHR ''.'' \<in> set n"
  obtains p e where "n = p @ CHR ''.'' # e" "CHR ''.'' \<notin> set e"
  using split_list_last [OF assms] by blast

lemma path_suffix_last_dot:
  assumes "CHR ''.'' \<notin> set e" and "path_name n = p @ CHR ''.'' # e"
  shows "path_suffix n = (if p = [] \<or> e = [] then [] else CHR ''.'' # e)"
proof -
  have "takeWhile (\<lambda>c. c \<noteq> CHR ''.'') (rev (p @ CHR ''.'' # e)) = rev e"
    using assms(1) by (auto simp: takeWhile_append2 takeWhile_append)
  then show ?thesis
    using assms(2) by (cases p) (auto simp: path_suffix_def Let_def)
qed

lemma sql_extension_is_suffix:
  assumes "stored_name n"
  shows "sql_extension n = (if path_suffix n = [] then None else Some (path_suffix n))"
proof (cases "CHR ''.'' \<in> set n")
  case False
  then have "path_suffix n = []"
    using assms by (cases "n = ''.''") (auto simp: path_suffix_def path_name_stored Let_def)
  moreover have "CHR ''.'' \<notin> set (tl n)" using False by (cases n) auto
  ultimately show ?thesis by (simp add: sql_extension_no_dot)
next
  case True
  then obtain p e where n: "n = p @ CHR ''.'' # e" and e: "CHR ''.'' \<notin> set e" by (rule last_dot_split)
  show ?thesis
  proof (cases "n = ''.''")
    case True
    then show ?thesis by (simp add: path_suffix_def path_name_def)
  next
    case False
    with assms n have "path_name n = p @ CHR ''.'' # e" by (simp add: path_name_stored)
    from path_suffix_last_dot [OF e this] show ?thesis
      using sql_extension_last_dot [OF e, of p] n by simp
  qed
qed

lemma set_blob_filenames:
  "f \<in> set (blob_filenames d sha) \<longleftrightarrow> (Some f, hex sha) \<in> set (concat (xd_entries d))"
proof -
  have "f \<in> set (List.map_filter (\<lambda>(filename, sha_hex). if sha_hex = h then filename else None) xs) \<longleftrightarrow>
      (Some f, h) \<in> set xs" for h and xs :: "(string option \<times> string) list"
    by (auto simp: List.map_filter_def split: if_splits) force+
  then show ?thesis by (simp only: blob_filenames_def set_remdups)
qed

lemma lower_Nil_iff [simp]: "lower s = [] \<longleftrightarrow> s = []" "[] = lower s \<longleftrightarrow> s = []" "lower [] = []"
  by (auto simp: lower_def)

definition names_stored :: "extract_db \<Rightarrow> bool" where
  "names_stored d \<longleftrightarrow>
     list_all (\<lambda>(filename, sha_hex). case filename of None \<Rightarrow> True | Some f \<Rightarrow> stored_name f)
       (concat (xd_entries d))"

lemma list_ex_named:
  "list_ex (\<lambda>(filename, h'). h' = h \<and> (case filename of None \<Rightarrow> False | Some f \<Rightarrow> P f)) xs \<longleftrightarrow>
   (\<exists>f. (Some f, h) \<in> set xs \<and> P f)"
  by (induction xs) (auto split: option.splits)

lemma extension_match_iff:
  assumes "names_stored d" and "[] \<notin> set allow"
  shows "extension_match (map lower allow) d sha \<longleftrightarrow>
    list_ex (\<lambda>f. extension_of (Some f) \<in> set (map lower allow)) (blob_filenames d sha)"
proof -
  have nempty: "[] \<notin> set (map lower allow)" using assms(2) by auto
  have one: "(case sql_extension f of None \<Rightarrow> False | Some e \<Rightarrow> lower e \<in> set (map lower allow)) \<longleftrightarrow>
      extension_of (Some f) \<in> set (map lower allow)" if "(Some f, h) \<in> set (concat (xd_entries d))" for f h
  proof -
    have st: "stored_name f" using assms(1) that by (fastforce simp: names_stored_def list_all_iff)
    then have "f \<noteq> []" by (simp add: stored_name_def)
    then show ?thesis
      using nempty by (cases "path_suffix f = []") (simp_all add: sql_extension_is_suffix [OF st] extension_of_def)
  qed
  have "extension_match (map lower allow) d sha \<longleftrightarrow>
      (\<exists>f. (Some f, hex sha) \<in> set (concat (xd_entries d)) \<and>
        (case sql_extension f of None \<Rightarrow> False | Some e \<Rightarrow> lower e \<in> set (map lower allow)))"
    unfolding extension_match_def by (rule list_ex_named)
  also have "\<dots> \<longleftrightarrow> (\<exists>f. (Some f, hex sha) \<in> set (concat (xd_entries d)) \<and>
      extension_of (Some f) \<in> set (map lower allow))"
    using one by blast
  also have "\<dots> \<longleftrightarrow> list_ex (\<lambda>f. extension_of (Some f) \<in> set (map lower allow)) (blob_filenames d sha)"
    unfolding list_ex_iff using set_blob_filenames by blast
  finally show ?thesis .
qed

lemma sql_allowlist_eq:
  assumes "names_stored d" "[] \<notin> set (xc_mime_allowlist cfg)" "[] \<notin> set (xc_extension_allowlist cfg)"
  shows "allowlisted_where cfg d b \<longleftrightarrow>
    is_allowlisted (qb_mime b) (blob_filenames d (qb_sha256 b)) (xc_mime_allowlist cfg) (xc_extension_allowlist cfg)"
  using assms(2) extension_match_iff [OF assms(1,3), of "qb_sha256 b"]
  by (auto simp: allowlisted_where_def allowlist_params_def is_allowlisted_def or_empty_def split: option.split)

subsection \<open>Ends of the loops\<close>

lemma fair_sweep_returns:
  assumes "worker_on cfg d" "fair_sweep w"
  shows "\<exists>n. run_extract_worker_once cfg w d = (Inr n, snd (run_extract_worker_once cfg w d))"
proof (cases "claim_batch cfg (sw_locked w) d = []")
  case True
  with assms show ?thesis
    by (simp add: run_extract_worker_once_def worker_on_def fair_sweep_def)
next
  case False
  have "\<exists>m. fst (batch_loop cfg (sw_blob w) (claim_batch cfg (sw_locked w) d) 0 d) = Inr m"
    using assms claim_batch_distinct claim_batch_keys
      batch_loop_spends [of "sw_blob w" "claim_batch cfg (sw_locked w) d" cfg d 0]
    by (auto simp: fair_sweep_def worker_on_def)
  with assms False show ?thesis
    by (auto simp: run_extract_worker_once_def worker_on_def fair_sweep_def Let_def split: prod.split)
qed

lemma drain_returns:
  "worker_on cfg d \<Longrightarrow> (\<And>i. fair_sweep (ws i)) \<Longrightarrow> queue_budget cfg d < n \<Longrightarrow>
   \<exists>k d'. drain cfg ws stop i n d = Some ((None, k), d')"
proof (induction n arbitrary: i d)
  case (Suc n)
  obtain t d' where sweep: "run_extract_worker_once cfg (ws i) d = (Inr t, d')"
    using fair_sweep_returns Suc.prems by blast
  consider "stop i" | "t = 0" | "\<not> stop i" "t \<noteq> 0" by blast
  then show ?case
  proof cases
    case 3
    have "\<not> queue_idle cfg d"
    proof
      assume "queue_idle cfg d"
      then have "run_extract_worker_once cfg (ws i) d = (Inr 0, d)"
        using Suc.prems by (simp add: run_extract_worker_once_def idle_claims_nothing fair_sweep_def)
      with sweep 3 show False by simp
    qed
    with Suc.prems have "queue_budget cfg d' < n"
      using fair_sweep_spends [of cfg d "ws i"] sweep by simp
    moreover have "worker_on cfg d'"
      using sweep_keeps_worker_on [of cfg d "ws i"] Suc.prems sweep by simp
    ultimately show ?thesis using 3 Suc.IH [of d' "Suc i"] Suc.prems sweep by simp
  qed (use sweep in \<open>simp_all\<close>)
qed simp

subsection \<open>Properties\<close>

lemma settled_iff:
  "extracted_where cfg d sha \<or> no_text_where cfg d sha \<or> gave_up_where cfg d sha \<longleftrightarrow> \<not> claimable_where cfg d sha"
  by (auto simp: extracted_where_def no_text_where_def gave_up_where_def claimable_where_def split: option.split)

text \<open>
  C18. Whatever the extractors do on each attempt, once the database answers every blob is settled:
  after as many sweeps as the queue has attempts left, each stored blob has its text, a sentinel
  saying that there is none, or has exhausted a retry budget, and nothing is claimable.
\<close>

theorem extraction_settles_every_blob:
  assumes "worker_on cfg d" and "\<And>i. fair_sweep (ws i)"
  shows "list_all (\<lambda>b. extracted_where cfg (run_sweeps (\<lambda>w d. snd (run_extract_worker_once cfg w d)) ws (queue_budget cfg d) d) (qb_sha256 b) \<or>
      no_text_where cfg (run_sweeps (\<lambda>w d. snd (run_extract_worker_once cfg w d)) ws (queue_budget cfg d) d) (qb_sha256 b) \<or>
      gave_up_where cfg (run_sweeps (\<lambda>w d. snd (run_extract_worker_once cfg w d)) ws (queue_budget cfg d) d) (qb_sha256 b))
    (xd_blobs (run_sweeps (\<lambda>w d. snd (run_extract_worker_once cfg w d)) ws (queue_budget cfg d) d))"
  using extraction.sweeps_reach_idle [OF assms order_refl]
  by (simp only: settled_iff queue_idle_def)

definition broken_pdf :: exc where
  "broken_pdf = Exc [ExtractorErr] ''localmail.search.extractor'' ''pypdf failed to open'' None None False"

definition sample_world :: "bool \<Rightarrow> blob_world" where
  "sample_world log_ok =
     \<lparr>bw_names_fault = None, bw_insert_fault = None, bw_clear_fault = None, bw_fail_log_ok = log_ok,
      bw_transient_log_ok = True, bw_parse = (\<lambda>_. Inl broken_pdf), bw_docling = DoclingMissing,
      bw_docling_version = None, bw_converter = Inr (), bw_convert = Inr (), bw_export = Inr [], bw_pages = None\<rparr>"

definition sample_sweep :: "bool \<Rightarrow> sweep_world" where
  "sample_sweep log_ok = \<lparr>sw_locked = (\<lambda>_. False), sw_blob = (\<lambda>_. sample_world log_ok), sw_commit_fault = None\<rparr>"

definition sample_cfg :: extract_cfg where
  "sample_cfg = \<lparr>xc_run = True, xc_batch_size = 20, xc_max_retries = 3, xc_max_transient_retries = 5,
     xc_mime_allowlist = [''a/p''], xc_extension_allowlist = [''.t''], xc_max_blob_bytes = 100\<rparr>"

definition sample_queue :: extract_db where
  "sample_queue = \<lparr>xd_blobs = [\<lparr>qb_sha256 = ''s'', qb_path = ''p'', qb_mime = Some ''a/p'', qb_size = 1, qb_first_seen = 0\<rparr>],
     xd_entries = [[(Some ''n.T'', ''73'')]], xd_text = (\<lambda>_. None), xd_failed = (\<lambda>_. None), xd_transient = (\<lambda>_. None)\<rparr>"

lemma sample_worker_on: "worker_on sample_cfg sample_queue"
  by (simp add: worker_on_def sample_cfg_def sample_queue_def blob_keys_unique_def)

lemma sample_fair: "fair_sweep (sample_sweep True)"
  by (simp add: fair_sweep_def sample_sweep_def db_quiet_def sample_world_def)

theorem extraction_settles_every_blob_witness:
  "worker_on sample_cfg sample_queue \<and> fair_sweep (sample_sweep True) \<and>
   list_all (\<lambda>b. extracted_where sample_cfg (run_sweeps (\<lambda>w d. snd (run_extract_worker_once sample_cfg w d)) (\<lambda>_. sample_sweep True) (queue_budget sample_cfg sample_queue) sample_queue) (qb_sha256 b) \<or>
      no_text_where sample_cfg (run_sweeps (\<lambda>w d. snd (run_extract_worker_once sample_cfg w d)) (\<lambda>_. sample_sweep True) (queue_budget sample_cfg sample_queue) sample_queue) (qb_sha256 b) \<or>
      gave_up_where sample_cfg (run_sweeps (\<lambda>w d. snd (run_extract_worker_once sample_cfg w d)) (\<lambda>_. sample_sweep True) (queue_budget sample_cfg sample_queue) sample_queue) (qb_sha256 b))
    (xd_blobs (run_sweeps (\<lambda>w d. snd (run_extract_worker_once sample_cfg w d)) (\<lambda>_. sample_sweep True) (queue_budget sample_cfg sample_queue) sample_queue))"
  using extraction_settles_every_blob [of sample_cfg sample_queue "\<lambda>_. sample_sweep True"] sample_worker_on sample_fair
  by simp

text \<open>
  C20. The drain of a pool connection ends when the database answers: with extraction switched on and
  a positive batch size, if in every sweep no blob is
  locked by another session and every statement, the ones that record a failure and the commit
  included, succeeds, then with one more sweep than the attempts left in the queue the loop has
  left, without an error, whatever the extractors do and whenever the stop event is set. The
  condition on the record of a failure is needed: without it one blob can keep the drain going
  (\<open>unlogged_failure_spins\<close>).
\<close>

theorem drain_terminates:
  assumes "worker_on cfg d" and "\<And>i. fair_sweep (ws i)"
  shows "\<exists>k d'. drain cfg ws stop 0 (Suc (queue_budget cfg d)) d = Some ((None, k), d')"
  by (rule drain_returns) (use assms in auto)

theorem drain_terminates_witness:
  "\<exists>k d'. drain sample_cfg (\<lambda>_. sample_sweep True) (\<lambda>_. False) 0 (Suc (queue_budget sample_cfg sample_queue)) sample_queue =
     Some ((None, k), d')"
  using drain_terminates [of sample_cfg sample_queue "\<lambda>_. sample_sweep True" "\<lambda>_. False"] sample_worker_on sample_fair
  by simp

lemma spinning_sweep: "run_extract_worker_once sample_cfg (sample_sweep False) sample_queue = (Inr 1, sample_queue)"
proof -
  have mime: "lower ''a/p'' = ''a/p''" by code_simp
  have ext: "extension_of (Some ''n.T'') = ''.t''" by code_simp
  have hx: "hex ''s'' = ''73''" by code_simp
  have disp: "lw_dispatch (Some ''a/p'') (Some ''n.T'') = None" by code_simp
  have pdf: "\<not> is_pdf (Some ''a/p'') (Some ''n.T'')" by code_simp
  let ?b = "\<lparr>qb_sha256 = ''s'', qb_path = ''p'', qb_mime = Some ''a/p'', qb_size = 1, qb_first_seen = 0\<rparr>"
  have batch: "claim_batch sample_cfg (sw_locked (sample_sweep False)) sample_queue = [(?b, None)]"
    by (simp add: claim_batch_def sample_cfg_def sample_sweep_def sample_queue_def claimable_where_def under_retry_caps_def)
  have tr2: "\<not> is_transient (extractor_error m None)" for m
    by (simp add: is_transient_def raise_from_def is_instance_def transient_exc_types_def db_contention_errors_def)
  have names: "blob_filenames sample_queue ''s'' = [''n.T'']"
    by (simp add: blob_filenames_def sample_queue_def hx List.map_filter_def)
  have step: "blob_step sample_cfg (sample_world False) (?b, None) sample_queue = (Inr 1, sample_queue)"
    by (simp add: blob_step_def names is_allowlisted_def sample_cfg_def or_empty_def mime process_blob_def
        preferred_filename_def ext lightweight_extract_def disp pdf lightweight_verdict_def tr2
        record_failure_safely_def sample_world_def)
  show ?thesis
    using batch step by (simp add: run_extract_worker_once_def sample_cfg_def sample_sweep_def)
qed

text \<open>
  The drain of a sweep that cannot write its failure log never ends: a blob whose planned
  failure is not recorded still counts as touched, so it is claimed again at once, without a pause.
\<close>

theorem unlogged_failure_spins:
  "drain sample_cfg (\<lambda>_. sample_sweep False) (\<lambda>_. False) i n sample_queue = None"
  by (induction n arbitrary: i) (simp_all add: spinning_sweep)

text \<open>
  The status report never fails, even when its two statements see different states; on one
  state the four buckets sum to the eligible blobs, and the claimable total is exactly
  what an unlimited claim would hand the worker, of which the pending blobs are a part.
\<close>

theorem queue_report_consistent:
  "is_ok (fetch_queue_counts cfg d d2) \<and>
   (\<exists>q. fetch_queue_counts cfg d d = Inr q \<and>
      qc_eligible q = qc_extracted q + qc_no_text q + qc_gave_up q + qc_pending q \<and>
      qc_claimable q = int (length (claim_batch (cfg\<lparr>xc_batch_size := length (xd_blobs d)\<rparr>) (\<lambda>_. False) d)) \<and>
      qc_pending q \<le> qc_claimable q)"
proof -
  have caps: "claimable_where (cfg\<lparr>xc_batch_size := n\<rparr>) d' s = claimable_where cfg d' s" for n d' s
    by (simp add: claimable_where_def under_retry_caps_def split: option.split)
  let ?bs = "filter (\<lambda>b. claimable_where cfg d (qb_sha256 b)) (xd_blobs d)"
  have n: "length (claim_batch (cfg\<lparr>xc_batch_size := length (xd_blobs d)\<rparr>) (\<lambda>_. False) d) = length ?bs"
    using length_filter_le [of "\<lambda>b. claimable_where cfg d (qb_sha256 b)" "xd_blobs d"]
    by (simp add: claim_batch_def caps)
  have "length (filter (\<lambda>b. claimable_where cfg d (qb_sha256 b)) (filter (allowlisted_where cfg d) (xd_blobs d))) \<le> length ?bs"
    unfolding filter_commute [of _ "allowlisted_where cfg d"] by (rule length_filter_le)
  then show ?thesis
    using count_rows_partition [of "filter (allowlisted_where cfg d) (xd_blobs d)" cfg d] n
    by (simp add: fetch_queue_counts_eq queue_counts_row_def Let_def count_rows_def)
qed

text \<open>
  C19. The report's SQL allowlist decides what the worker's Python one decides, on every blob whose
  recorded names went through \<open>sanitize_filename\<close>, as long as neither configured list contains the
  empty string.
\<close>

theorem sql_allowlist_agrees:
  assumes "names_stored d" "[] \<notin> set (xc_mime_allowlist cfg)" "[] \<notin> set (xc_extension_allowlist cfg)"
  shows "allowlisted_where cfg d b \<longleftrightarrow>
    is_allowlisted (qb_mime b) (blob_filenames d (qb_sha256 b)) (xc_mime_allowlist cfg) (xc_extension_allowlist cfg)"
  by (rule sql_allowlist_eq [OF assms])

theorem sql_allowlist_agrees_witness:
  "names_stored sample_queue \<and>
   allowlisted_where sample_cfg sample_queue (hd (xd_blobs sample_queue)) =
   is_allowlisted (Some ''a/p'') (blob_filenames sample_queue ''s'') [''a/p''] [''.t'']"
proof -
  have n: "names_stored sample_queue"
    by (simp add: names_stored_def sample_queue_def stored_name_def)
  have "[] \<notin> set (xc_mime_allowlist sample_cfg)" "[] \<notin> set (xc_extension_allowlist sample_cfg)"
    by (simp_all add: sample_cfg_def)
  from sql_allowlist_agrees [OF n this, of "hd (xd_blobs sample_queue)"] n show ?thesis
    by (simp add: sample_queue_def sample_cfg_def)
qed

text \<open>
  A sweep, whatever raises in it, touches the rows of the blobs it claimed and no others, leaves
  every text that is already stored as it is, and stores no text with a NUL or of white space only.
\<close>

theorem sweep_frame:
  assumes "snd (run_extract_worker_once cfg w d) = d'"
  shows "xd_blobs d' = xd_blobs d \<and> xd_entries d' = xd_entries d \<and>
    (s \<notin> claim_keys (claim_batch cfg (sw_locked w) d) \<longrightarrow>
       xd_text d' s = xd_text d s \<and> xd_failed d' s = xd_failed d s \<and> xd_transient d' s = xd_transient d s) \<and>
    (xd_text d s \<noteq> None \<longrightarrow> xd_text d' s = xd_text d s) \<and>
    (xd_text d s = None \<longrightarrow> xd_text d' s = Some et \<longrightarrow> storable_text et)"
  using sweep_touches [of cfg w d] unfolding assms touches_among_def by simp

theorem sweep_frame_witness:
  "xd_blobs (snd (run_extract_worker_once sample_cfg (sample_sweep True) sample_queue)) = xd_blobs sample_queue \<and>
   xd_failed (snd (run_extract_worker_once sample_cfg (sample_sweep True) sample_queue)) ''t'' = None"
proof -
  have "''t'' \<notin> claim_keys (claim_batch sample_cfg (sw_locked (sample_sweep True)) sample_queue)"
    by (auto dest!: claim_batch_keys simp: sample_queue_def)
  with sweep_frame [where cfg = sample_cfg and w = "sample_sweep True" and d = sample_queue and s = "''t''", OF refl]
  show ?thesis by (simp add: sample_queue_def)
qed

definition docling_unusable :: "blob_world \<Rightarrow> bool" where
  "docling_unusable w \<longleftrightarrow>
     (case bw_docling w of
        DoclingMissing \<Rightarrow> False
      | DoclingBroken e \<Rightarrow> True
      | DoclingPresent \<Rightarrow>
          (case bw_converter w of
             Inl e \<Rightarrow> True
           | Inr _ \<Rightarrow> (case bw_convert w of Inl e \<Rightarrow> exc_chain_has_import_error e | Inr _ \<Rightarrow> False)))"

lemma configuration_is_transient_class:
  "ExtractorConfigurationErr \<in> set (class_bases c) \<Longrightarrow> TransientExtractorErr \<in> set (class_bases c)"
  by (cases c) simp_all

lemma head_of_chain: "e \<in> set (iter_exc_chain e)"
  by (cases e) simp

lemma configuration_error_transient:
  assumes "is_instance e [ExtractorConfigurationErr]"
  shows "is_transient e"
proof -
  have "is_instance e (TransientExtractorErr # cs)" for cs
    using assms configuration_is_transient_class unfolding is_instance_def list_ex_iff by auto
  then show ?thesis
    using head_of_chain unfolding is_transient_def list_ex_iff by blast
qed

lemma raised_configuration_transient: "is_transient (extractor_configuration_error m c)"
  by (rule configuration_error_transient) (simp add: raise_from_def is_instance_def)

lemma unusable_docling_raises:
  "docling_unusable w \<Longrightarrow> bw_docling w = DoclingPresent \<Longrightarrow> \<exists>e. docling_extract w = Inl e \<and> is_transient e"
  by (auto simp: docling_unusable_def docling_extract_def try_import_docling_def build_converter_def docling_convert_def
      raised_configuration_transient configuration_error_transient split: sum.splits)

lemma unusable_docling_processes:
  assumes "docling_unusable w" "qb_size b \<le> xc_max_blob_bytes cfg" "is_pdf (qb_mime b) f"
    and "(case lightweight_extract w (qb_mime b) f of Inl e \<Rightarrow> True | Inr et \<Rightarrow> et_text et = [])"
  shows "\<exists>e. process_blob cfg w b f d = (Inl e, d) \<and> is_transient e"
proof (cases "bw_docling w")
  case DoclingMissing
  with assms(1) show ?thesis by (simp add: docling_unusable_def)
next
  case (DoclingBroken e)
  with assms(2-4) show ?thesis
    by (auto simp: process_blob_def try_import_docling_def raised_configuration_transient Let_def split: sum.splits)
next
  case DoclingPresent
  from unusable_docling_raises [OF assms(1) this] obtain e where "docling_extract w = Inl e" "is_transient e" by blast
  with assms(2-4) DoclingPresent show ?thesis
    by (auto simp: process_blob_def try_import_docling_def Let_def split: sum.splits)
qed

text \<open>
  A document is never charged for a docling that cannot run: when docling is installed but does
  not import, cannot be configured, or fails on a missing module while converting, a PDF without
  readable text is held on the transient budget, its retry count untouched and no sentinel stored.
\<close>

theorem unusable_docling_holds_blob:
  assumes "db_quiet w" "docling_unusable w" "xd_text d (qb_sha256 b) = None"
    and "is_allowlisted (qb_mime b) (blob_filenames d (qb_sha256 b)) (xc_mime_allowlist cfg) (xc_extension_allowlist cfg)"
    and "preferred_filename (blob_filenames d (qb_sha256 b)) (xc_extension_allowlist cfg) = f"
    and "qb_size b \<le> xc_max_blob_bytes cfg" "is_pdf (qb_mime b) f"
    and "(case lightweight_extract w (qb_mime b) f of Inl e \<Rightarrow> True | Inr et \<Rightarrow> et_text et = [])"
    and "blob_step cfg w (b, tc) d = (r, d')"
  shows "r = Inr 0 \<and> xd_text d' = xd_text d \<and> xd_failed d' = xd_failed d \<and>
    transients d' (qb_sha256 b) = transients d (qb_sha256 b) + 1"
proof -
  from unusable_docling_processes [OF assms(2,6-8)] obtain e where
    e: "process_blob cfg w b f d = (Inl e, d)" "is_transient e" by blast
  have "blob_step cfg w (b, tc) d = (Inr 0, snd (record_transient (qb_sha256 b) e d))"
    using assms(1,4,5) e by (simp add: blob_step_def Let_def db_quiet_def [of w] blob_failed_transient [OF assms(1)])
  with assms(9) show ?thesis
    by (auto simp: record_transient_def Let_def transients_def split: option.split)
qed

definition broken_install :: exc where
  "broken_install = Exc [ImportErr] ''builtins'' ''No module named torch'' None None False"

definition scanned_pdf_world :: blob_world where
  "scanned_pdf_world = (sample_world True)\<lparr>bw_parse := (\<lambda>_. Inr ([], Some 1)), bw_docling := DoclingPresent,
     bw_convert := Inl broken_install\<rparr>"

definition pdf_blob :: queue_blob where
  "pdf_blob = \<lparr>qb_sha256 = ''s'', qb_path = ''p'', qb_mime = Some ''application/pdf'', qb_size = 1, qb_first_seen = 0\<rparr>"

definition pdf_cfg :: extract_cfg where
  "pdf_cfg = sample_cfg\<lparr>xc_mime_allowlist := [''application/pdf'']\<rparr>"

theorem unusable_docling_holds_blob_witness:
  "fst (blob_step pdf_cfg scanned_pdf_world (pdf_blob, None) sample_queue) = Inr 0 \<and>
   transients (snd (blob_step pdf_cfg scanned_pdf_world (pdf_blob, None) sample_queue)) ''s'' = 1"
proof -
  obtain r d' where step: "blob_step pdf_cfg scanned_pdf_world (pdf_blob, None) sample_queue = (r, d')" by fastforce
  have hx: "hex ''s'' = ''73''" by code_simp
  have names: "blob_filenames sample_queue ''s'' = [''n.T'']"
    by (simp add: blob_filenames_def sample_queue_def hx List.map_filter_def)
  have pref: "preferred_filename [''n.T''] [''.t''] = Some ''n.T''" by code_simp
  have pdf: "is_pdf (Some ''application/pdf'') (Some ''n.T'')" by code_simp
  have allow: "is_allowlisted (Some ''application/pdf'') [''n.T''] [''application/pdf''] [''.t'']" by code_simp
  have disp: "lw_dispatch (Some ''application/pdf'') (Some ''n.T'') = Some Pdf" by code_simp
  have "r = Inr 0 \<and> xd_text d' = xd_text sample_queue \<and> xd_failed d' = xd_failed sample_queue \<and>
      transients d' (qb_sha256 pdf_blob) = transients sample_queue (qb_sha256 pdf_blob) + 1"
  proof (rule unusable_docling_holds_blob [where w = scanned_pdf_world and cfg = pdf_cfg and f = "Some ''n.T''" and tc = None])
    show "db_quiet scanned_pdf_world" "docling_unusable scanned_pdf_world"
      by (simp_all add: db_quiet_def docling_unusable_def scanned_pdf_world_def sample_world_def
          exc_chain_has_import_error_def broken_install_def is_instance_def)
    show "(case lightweight_extract scanned_pdf_world (qb_mime pdf_blob) (Some ''n.T'') of Inl e \<Rightarrow> True
        | Inr et \<Rightarrow> et_text et = [])"
      by (simp add: lightweight_extract_def pdf_blob_def disp scanned_pdf_world_def new_extracted_text_def
          strip_nuls_def is_blank_def)
  qed (simp_all add: pdf_blob_def pdf_cfg_def sample_cfg_def names pref pdf allow step [unfolded pdf_blob_def pdf_cfg_def sample_cfg_def, simplified],
      simp_all add: sample_queue_def)
  moreover have "qb_sha256 pdf_blob = ''s''" "transients sample_queue ''s'' = 0"
    by (simp_all add: pdf_blob_def transients_def sample_queue_def)
  ultimately show ?thesis by (simp add: step)
qed

subsection \<open>Every admitted blob has a parser\<close>

lemma lw_dispatch_mime:
  assumes "lower (or_empty m) \<in> set (map lower default_mime_allowlist)"
  shows "lw_dispatch m f \<noteq> None"
proof -
  let ?P = "\<lambda>mt. mt = ''application/pdf'' \<or> str_in ''wordprocessingml'' mt \<or> str_in ''spreadsheetml'' mt \<or>
      str_in ''presentationml'' mt \<or> mt = ''text/plain'' \<or> mt = ''text/markdown'' \<or> mt = ''text/html'' \<or>
      mt = ''text/csv'' \<or> mt = ''application/rtf'' \<or> str_in ''opendocument.text'' mt \<or> mt = ''text/calendar''"
  have "list_all ?P (map lower default_mime_allowlist)" by code_simp
  with assms have "?P (lower (or_empty m))" unfolding list_all_iff by blast
  then show ?thesis by (auto simp: lw_dispatch_def Let_def)
qed

lemma lw_dispatch_extension:
  assumes "extension_of f \<in> set (map lower default_extension_allowlist)"
  shows "lw_dispatch m f \<noteq> None"
proof -
  have low: "map lower default_extension_allowlist = default_extension_allowlist" by code_simp
  from assms have "extension_of f \<in> set default_extension_allowlist" by (simp only: low)
  then show ?thesis by (auto simp: lw_dispatch_def Let_def default_extension_allowlist_def)
qed

text \<open>
  With the default allowlists, a blob the worker admits is never refused by the lightweight extractor for
  want of a parser: whichever of its names or its type admitted it, the name handed on selects a format.
\<close>

theorem admitted_blob_has_parser:
  assumes "is_allowlisted m names default_mime_allowlist default_extension_allowlist"
  shows "\<exists>fmt. lw_dispatch m (preferred_filename names default_extension_allowlist) = Some fmt"
proof (cases "lower (or_empty m) \<in> set (map lower default_mime_allowlist)")
  case True
  then show ?thesis using lw_dispatch_mime by blast
next
  case False
  let ?P = "\<lambda>name. extension_of (Some name) \<in> set (map lower default_extension_allowlist)"
  from False assms obtain n where "n \<in> set names" "?P n"
    unfolding is_allowlisted_def by (auto simp: list_ex_iff)
  then obtain n' where "find ?P names = Some n'" "?P n'"
    by (cases "find ?P names") (auto simp: find_None_conv dest: find_SomeD)
  then show ?thesis
    using lw_dispatch_extension [of "Some n'" m] by (simp add: preferred_filename_def)
qed

theorem admitted_blob_has_parser_witness:
  "is_allowlisted (Some ''application/octet-stream'') [''a.b'', ''Scan.PDF''] default_mime_allowlist default_extension_allowlist \<and>
   (\<exists>fmt. lw_dispatch (Some ''application/octet-stream'')
      (preferred_filename [''a.b'', ''Scan.PDF''] default_extension_allowlist) = Some fmt)"
proof -
  have a: "is_allowlisted (Some ''application/octet-stream'') [''a.b'', ''Scan.PDF''] default_mime_allowlist default_extension_allowlist"
    by code_simp
  from a admitted_blob_has_parser [OF a] show ?thesis by blast
qed

text \<open>
  Clearing both tables re-opens exactly the blobs without a text row: every blob that was given up is
  claimable again, and a sentinel is not.
\<close>

theorem retry_reopens_given_up:
  "\<exists>d'. retry_failed_extractions decode None d = Inr d' \<and>
     (claimable_where cfg d' sha \<longleftrightarrow> claimable_where cfg d sha \<or> gave_up_where cfg d sha) \<and> xd_text d' = xd_text d"
  by (auto simp: retry_failed_extractions_def or_empty_def claimable_where_def gave_up_where_def under_retry_caps_def)

end
