(* ===== verification/Daemon.thy ===== *)
theory Daemon
  imports Sync
begin

text \<open>
  The sync daemon (\<open>daemon.py\<close>) and the modules it is made of: the startup retry (\<open>retry.py\<close>), the
  shutdown budget (\<open>shutdown_budget.py\<close>), the reconcile plan (\<open>daemon_reconcile.py\<close>), the account adapter
  (\<open>daemon_accounts.py\<close>), heartbeats (\<open>heartbeat.py\<close>), the command queue (\<open>api/admin/daemon.py\<close>) and the
  two worker loops (\<open>idle.py\<close>, \<open>poller.py\<close>).

  Times and durations are integers of one unit, a microsecond. A thread is identified by the stop
  event it was started with and its kind: the code starts two threads per event and never shares one
  between accounts. What may raise (connecting, reading the accounts, writing a mark) is an
  argument.
\<close>

subsection \<open>Retrying at startup\<close>

definition next_backoff :: "int \<Rightarrow> int \<Rightarrow> int \<Rightarrow> int" where
  "next_backoff current_s factor max_s = min (current_s * factor) max_s"

datatype op_error = RetryAborted | OtherError

text \<open>
  The loop of \<open>retry_with_backoff\<close>. \<open>op i\<close> is what the \<open>i\<close>-th attempt does, \<open>is_set i\<close> the stop event before
  it, \<open>wait i s\<close> whether it was set while waiting \<open>s\<close> after it; the waits made so far are collected. The loop is
  unbounded: \<open>n\<close> is the fuel.
\<close>

fun retry_with_backoff ::
  "(nat \<Rightarrow> op_error + 'a) \<Rightarrow> (nat \<Rightarrow> bool) \<Rightarrow> (nat \<Rightarrow> int \<Rightarrow> bool) \<Rightarrow> int \<Rightarrow> int \<Rightarrow> nat \<Rightarrow> nat \<Rightarrow> int \<Rightarrow> int list \<Rightarrow>
   ((op_error + 'a) \<times> int list) option" where
  "retry_with_backoff op is_set wait factor max_s 0 i backoff waits = None"
| "retry_with_backoff op is_set wait factor max_s (Suc n) i backoff waits =
     (if is_set i then Some (Inl RetryAborted, waits)
      else (case op i of
              Inr x \<Rightarrow> Some (Inr x, waits)
            | Inl RetryAborted \<Rightarrow> Some (Inl RetryAborted, waits)
            | Inl OtherError \<Rightarrow>
                if wait i backoff then Some (Inl RetryAborted, waits @ [backoff])
                else retry_with_backoff op is_set wait factor max_s n (Suc i)
                       (next_backoff backoff factor max_s) (waits @ [backoff])))"

subsection \<open>The shutdown budget\<close>

definition supervisor_kill_margin :: int where "supervisor_kill_margin = 5000000"

definition remaining_seconds :: "int \<Rightarrow> int \<Rightarrow> int" where
  "remaining_seconds deadline now = max 0 (deadline - now)"

definition supervisor_kill_after :: "int \<Rightarrow> int" where
  "supervisor_kill_after child_grace_seconds = child_grace_seconds + supervisor_kill_margin"

text \<open>
  \<open>thread.join(timeout)\<close> entered at \<open>now\<close>: it returns when the thread has ended (at \<open>Some t\<close>, or never)
  or when the timeout has passed.
\<close>

definition join :: "int option \<Rightarrow> int \<Rightarrow> int \<Rightarrow> int" where
  "join ends timeout now = (case ends of None \<Rightarrow> now + timeout | Some t \<Rightarrow> min (max now t) (now + timeout))"

fun join_all :: "int \<Rightarrow> int option list \<Rightarrow> int \<Rightarrow> int" where
  "join_all deadline [] now = now"
| "join_all deadline (t # ts) now = join_all deadline ts (join t (remaining_seconds deadline now) now)"

text \<open>The instant the last join returned and the unspent remainder.\<close>

definition wind_down_threads :: "int option list \<Rightarrow> int \<Rightarrow> int \<Rightarrow> int \<times> int" where
  "wind_down_threads threads grace_seconds now =
     (let deadline = now + grace_seconds; end_time = join_all deadline threads now
      in (end_time, remaining_seconds deadline end_time))"

subsection \<open>Accounts\<close>

record account =
  acc_id :: int
  acc_name :: string
  acc_email :: string
  acc_auth_method :: string
  acc_oauth_provider :: "string option"
  acc_imap_host :: "string option"
  acc_imap_port :: "int option"
  acc_folder_allow :: "string list option"
  acc_folder_deny :: "string list option"
  acc_folder_deny_flags :: "string list option"
  acc_sync_enabled :: bool
  acc_updated_at :: instant

record worker_account =
  wa_name :: string
  wa_email :: string
  wa_imap_host :: string
  wa_imap_port :: int
  wa_auth_method :: string
  wa_oauth_provider :: "string option"
  wa_folders :: account_config

datatype account_error = ArchiveAccount | MissingHost | InvalidConfig

definition list_syncable_accounts :: "account list \<Rightarrow> account list" where
  "list_syncable_accounts rows =
     sort_key acc_id (filter (\<lambda>a. acc_auth_method a \<in> {''password'', ''oauth2''} \<and> acc_sync_enabled a) rows)"

definition list_or_empty :: "string list option \<Rightarrow> string list" where
  "list_or_empty v = (case v of None \<Rightarrow> [] | Some xs \<Rightarrow> xs)"

text \<open>\<open>AccountConfig\<close> itself admits two authentication methods and one provider.\<close>

definition account_config_from_row :: "account \<Rightarrow> account_error + worker_account" where
  "account_config_from_row a =
     (if acc_auth_method a = ''archive'' then Inl ArchiveAccount
      else (case (acc_imap_host a, acc_imap_port a) of
              (Some host, Some port) \<Rightarrow>
                if acc_auth_method a \<notin> {''password'', ''oauth2''} \<or>
                   acc_oauth_provider a \<notin> {None, Some ''gmail''} then Inl InvalidConfig
                else Inr \<lparr>wa_name = acc_name a, wa_email = acc_email a, wa_imap_host = host, wa_imap_port = port,
                          wa_auth_method = acc_auth_method a, wa_oauth_provider = acc_oauth_provider a,
                          wa_folders = \<lparr>folder_allow = list_or_empty (acc_folder_allow a),
                                        folder_deny = list_or_empty (acc_folder_deny a),
                                        folder_deny_flags = list_or_empty (acc_folder_deny_flags a)\<rparr>\<rparr>
            | _ \<Rightarrow> Inl MissingHost))"

subsection \<open>The reconcile plan\<close>

record reconcile_plan =
  to_spawn :: "int list"
  to_teardown :: "int list"
  to_respawn :: "int list"

definition plan_is_empty :: "reconcile_plan \<Rightarrow> bool" where
  "plan_is_empty p \<longleftrightarrow> \<not> (to_spawn p \<noteq> [] \<or> to_teardown p \<noteq> [] \<or> to_respawn p \<noteq> [])"

definition plan_reconcile :: "(int \<times> instant) list \<Rightarrow> (int \<times> instant) list \<Rightarrow> reconcile_plan" where
  "plan_reconcile running desired =
     (let running_ids = set (map fst running); desired_ids = set (map fst desired)
      in \<lparr>to_spawn = sorted_list_of_set (desired_ids - running_ids),
          to_teardown = sorted_list_of_set (running_ids - desired_ids),
          to_respawn = sorted_list_of_set
            (Set.filter (\<lambda>aid. map_of running aid \<noteq> map_of desired aid) (running_ids \<inter> desired_ids))\<rparr>)"

subsection \<open>Heartbeats\<close>

datatype worker_kind = KIdle | KPoll | KEmbed | KExtract | KReconcile

datatype worker_state = WStarting | WConnecting | WIdle | WPolling | WSyncing | WError | WReconnecting | WStopped

record heartbeat =
  hb_kind :: worker_kind
  hb_account :: "int option"
  hb_state :: worker_state
  hb_folder :: "string option"
  hb_error :: "string option"
  hb_started_at :: instant
  hb_last_at :: instant

text \<open>
  Both upserts: the partial indexes are unique on (kind, account) for account rows and on the kind for
  process rows, so either statement hits the one row with the same kind and the same account, null
  included.
\<close>

definition record_heartbeat ::
  "instant \<Rightarrow> worker_kind \<Rightarrow> int option \<Rightarrow> worker_state \<Rightarrow> string option \<Rightarrow> string option \<Rightarrow> heartbeat list \<Rightarrow> heartbeat list" where
  "record_heartbeat now kind acct st folder err hs =
     (let hit = (\<lambda>h. hb_kind h = kind \<and> hb_account h = acct)
      in if list_ex hit hs
         then update_where hit (\<lambda>h. h\<lparr>hb_state := st, hb_folder := folder, hb_error := err, hb_last_at := now\<rparr>) hs
         else hs @ [\<lparr>hb_kind = kind, hb_account = acct, hb_state = st, hb_folder = folder, hb_error = err,
                     hb_started_at = now, hb_last_at = now\<rparr>])"

definition clear_all_heartbeats :: "heartbeat list \<Rightarrow> heartbeat list" where
  "clear_all_heartbeats hs = []"

definition clear_account_heartbeats :: "int \<Rightarrow> heartbeat list \<Rightarrow> heartbeat list" where
  "clear_account_heartbeats acct hs = filter (\<lambda>h. hb_account h \<noteq> Some acct) hs"

text \<open>\<open>safe_heartbeat\<close>: a write that fails is logged and leaves the table as it was.\<close>

definition safe_heartbeat ::
  "bool \<Rightarrow> instant \<Rightarrow> worker_kind \<Rightarrow> int option \<Rightarrow> worker_state \<Rightarrow> string option \<Rightarrow> string option \<Rightarrow> heartbeat list \<Rightarrow> heartbeat list" where
  "safe_heartbeat ok now kind acct st folder err hs =
     (if ok then record_heartbeat now kind acct st folder err hs else hs)"

fun kind_rank :: "worker_kind \<Rightarrow> nat" where
  "kind_rank KEmbed = 0" | "kind_rank KExtract = 1" | "kind_rank KIdle = 2" | "kind_rank KPoll = 3"
| "kind_rank KReconcile = 4"

definition get_daemon_status :: "instant \<Rightarrow> int \<Rightarrow> heartbeat list \<Rightarrow> (heartbeat \<times> bool) list" where
  "get_daemon_status now stale_after hs =
     map (\<lambda>h. (h, stale_after < now - hb_last_at h))
       (sort_key (\<lambda>h. case hb_account h of None \<Rightarrow> 0 | Some a \<Rightarrow> a)
         (sort_key (\<lambda>h. kind_rank (hb_kind h)) (filter (\<lambda>h. hb_account h \<noteq> None) hs)) @
        sort_key (\<lambda>h. kind_rank (hb_kind h)) (filter (\<lambda>h. hb_account h = None) hs))"

subsection \<open>The command queue\<close>

datatype command_state = Queued | CmdDone | CmdFailed

record command_row =
  cm_id :: int
  cm_command :: string
  cm_account :: "int option"
  cm_state :: command_state
  cm_requested_at :: instant
  cm_picked_at :: "instant option"
  cm_done_at :: "instant option"
  cm_result :: "string option"

text \<open>The \<open>CHECK\<close> constraints of migration 0024 are the authority on what may be queued.\<close>

definition command_check :: "string \<Rightarrow> int option \<Rightarrow> bool" where
  "command_check command acct \<longleftrightarrow>
     command \<in> {''reload-now'', ''restart-account'', ''drain-stop''} \<and>
     (command = ''restart-account'') = (acct \<noteq> None)"

definition enqueue_command ::
  "instant \<Rightarrow> int \<Rightarrow> string \<Rightarrow> int option \<Rightarrow> command_row list \<Rightarrow> string + command_row list" where
  "enqueue_command now new_id command acct cs =
     (if command_check command acct
      then Inr (cs @ [\<lparr>cm_id = new_id, cm_command = command, cm_account = acct, cm_state = Queued, cm_requested_at = now,
                       cm_picked_at = None, cm_done_at = None, cm_result = None\<rparr>])
      else Inl ''CheckViolation'')"

text \<open>\<open>ORDER BY requested_at, id\<close>; another session's locked rows are passed over.\<close>

definition claim_commands ::
  "instant \<Rightarrow> (int \<Rightarrow> bool) \<Rightarrow> command_row list \<Rightarrow> command_row list \<times> command_row list" where
  "claim_commands now locked cs =
     (let claimed = sort_key cm_requested_at (sort_key cm_id
            (filter (\<lambda>c. cm_state c = Queued \<and> \<not> locked (cm_id c)) cs))
      in (claimed,
          if claimed \<noteq> []
          then update_where (\<lambda>c. cm_id c \<in> set (map cm_id claimed)) (\<lambda>c. c\<lparr>cm_picked_at := Some now\<rparr>) cs
          else cs))"

definition mark_command ::
  "instant \<Rightarrow> int \<Rightarrow> command_state \<Rightarrow> string option \<Rightarrow> command_row list \<Rightarrow> command_row list" where
  "mark_command now cid st msg cs =
     update_where (\<lambda>c. cm_id c = cid) (\<lambda>c. c\<lparr>cm_state := st, cm_result := msg, cm_done_at := Some now\<rparr>) cs"

subsection \<open>The daemon\<close>

record account_threads =
  at_account :: int
  at_updated_at :: instant
  at_event :: nat

text \<open>
  \<open>dm_threads\<close> is the dictionary \<open>_account_threads\<close>; \<open>dm_started\<close> records the stop event and the account of every
  pair of threads ever started, \<open>dm_set\<close> the events that have been set. The command and heartbeat tables are the
  committed ones.
\<close>

record daemon =
  dm_threads :: "(int \<times> account_threads) list"
  dm_started :: "(nat \<times> int) list"
  dm_set :: "nat set"
  dm_next :: nat
  dm_workers_started :: bool
  dm_stop :: bool
  dm_wake :: bool
  dm_pool_max :: int
  dm_commands :: "command_row list"
  dm_heartbeats :: "heartbeat list"

record daemon_cfg =
  dc_pool_max_size :: "int option"
  dc_run_embed :: bool
  dc_run_extract :: bool

definition pool_baseline_min :: int where "pool_baseline_min = 4"
definition pool_headroom :: int where "pool_headroom = 2"
definition slots_per_account :: int where "slots_per_account = 2"

definition compute_daemon_pool_size :: "int \<Rightarrow> bool \<Rightarrow> bool \<Rightarrow> int" where
  "compute_daemon_pool_size n_accounts run_embed run_extract =
     (let workers = (if run_embed then 1 else 0) + (if run_extract then 1 else 0)
      in max pool_baseline_min (slots_per_account * n_accounts + workers + pool_headroom))"

definition pool_sizes :: "daemon_cfg \<Rightarrow> int \<Rightarrow> int \<times> int" where
  "pool_sizes cfg n_accounts =
     (let max_size = (case dc_pool_max_size cfg of
            None \<Rightarrow> compute_daemon_pool_size n_accounts (dc_run_embed cfg) (dc_run_extract cfg)
          | Some configured \<Rightarrow> configured);
          wanted = n_accounts * 2 + (if dc_run_embed cfg then 1 else 0) + (if dc_run_extract cfg then 1 else 0)
      in (min (if wanted = 0 then 1 else wanted) max_size, max_size))"

definition resize_pool :: "daemon_cfg \<Rightarrow> daemon \<Rightarrow> daemon" where
  "resize_pool cfg d =
     (if dc_pool_max_size cfg \<noteq> None then d
      else (case pool_sizes cfg (int (length (dm_threads d))) of
              (min_size, max_size) \<Rightarrow>
                if max_size \<noteq> dm_pool_max d then d\<lparr>dm_pool_max := max_size\<rparr> else d))"

text \<open>Starting the two threads of an account: a row that cannot be mapped raises before anything is started.\<close>

definition spawn_account :: "account \<Rightarrow> daemon \<Rightarrow> (account_error + unit) \<times> daemon" where
  "spawn_account a d =
     (case account_config_from_row a of
        Inl e \<Rightarrow> (Inl e, d)
      | Inr _ \<Rightarrow>
          (Inr (),
           d\<lparr>dm_threads := dict_set (acc_id a)
               \<lparr>at_account = acc_id a, at_updated_at = acc_updated_at a, at_event = dm_next d\<rparr> (dm_threads d),
             dm_started := dm_started d @ [(dm_next d, acc_id a)], dm_next := dm_next d + 1\<rparr>))"

definition clear_heartbeats_of :: "bool \<Rightarrow> int \<Rightarrow> daemon \<Rightarrow> daemon" where
  "clear_heartbeats_of ok acct d =
     (if ok then d\<lparr>dm_heartbeats := clear_account_heartbeats acct (dm_heartbeats d)\<rparr> else d)"

text \<open>
  \<open>_teardown_account\<close>. Both joins have a timeout, so a thread may outlive them; it has been told to stop.
\<close>

definition teardown_account :: "bool \<Rightarrow> int \<Rightarrow> daemon \<Rightarrow> daemon" where
  "teardown_account hb_ok acct d =
     (case map_of (dm_threads d) acct of
        None \<Rightarrow> d
      | Some b \<Rightarrow>
          clear_heartbeats_of hb_ok acct
            (d\<lparr>dm_threads := dict_pop acct (dm_threads d), dm_set := insert (at_event b) (dm_set d)\<rparr>))"

datatype command_error = UnknownCommand | NoAccount

definition apply_command ::
  "bool \<Rightarrow> command_row \<Rightarrow> daemon \<Rightarrow> (command_error + string) \<times> daemon" where
  "apply_command hb_ok cmd d =
     (if cm_command cmd = ''reload-now'' then (Inr ''reconcile triggered'', d)
      else if cm_command cmd = ''drain-stop''
      then (Inr ''daemon stopping'', d\<lparr>dm_stop := True, dm_wake := True\<rparr>)
      else if cm_command cmd = ''restart-account''
      then (case cm_account cmd of
              None \<Rightarrow> (Inl NoAccount, d)
            | Some a \<Rightarrow> (Inr ''account torn down for restart'', teardown_account hb_ok a d))
      else (Inl UnknownCommand, d))"

text \<open>
  What the drain's own connection does: whether it opens, which rows others hold, whether a mark of a command can
  be written, whether the commit succeeds, and the clock.
\<close>

record drain_world =
  dw_connect :: bool
  dw_locked :: "int \<Rightarrow> bool"
  dw_mark :: "int \<Rightarrow> command_state \<Rightarrow> bool"
  dw_commit :: bool
  dw_now :: instant
  dw_hb_ok :: bool

text \<open>The loop over the claimed commands on the transaction's view of the table; \<open>None\<close> is an exception that leaves it.\<close>

fun apply_commands ::
  "drain_world \<Rightarrow> command_row list \<Rightarrow> command_row list \<Rightarrow> daemon \<Rightarrow> command_row list option \<times> daemon" where
  "apply_commands w [] view d = (Some view, d)"
| "apply_commands w (cmd # cmds) view d =
     (case apply_command (dw_hb_ok w) cmd d of (r, d1) \<Rightarrow>
        if is_ok r \<and> dw_mark w (cm_id cmd) CmdDone
        then apply_commands w cmds (mark_command (dw_now w) (cm_id cmd) CmdDone (Some (projr r)) view) d1
        else if dw_mark w (cm_id cmd) CmdFailed
        then apply_commands w cmds (mark_command (dw_now w) (cm_id cmd) CmdFailed (Some ''error'') view) d1
        else (None, d1))"

definition drain_commands :: "drain_world \<Rightarrow> daemon \<Rightarrow> daemon" where
  "drain_commands w d =
     (if \<not> dw_connect w then d
      else (case claim_commands (dw_now w) (dw_locked w) (dm_commands d) of (claimed, view) \<Rightarrow>
              (case apply_commands w claimed view d of
                 (Some view', d1) \<Rightarrow> if dw_commit w then d1\<lparr>dm_commands := view'\<rparr> else d1
               | (None, d1) \<Rightarrow> d1)))"

definition running_fingerprints :: "daemon \<Rightarrow> (int \<times> instant) list" where
  "running_fingerprints d = map (\<lambda>(aid, b). (aid, at_updated_at b)) (dm_threads d)"

fun teardown_all :: "bool \<Rightarrow> int list \<Rightarrow> daemon \<Rightarrow> daemon" where
  "teardown_all hb_ok [] d = d"
| "teardown_all hb_ok (a # as) d = teardown_all hb_ok as (teardown_account hb_ok a d)"

text \<open>\<open>rows_by_id[account_id]\<close>: the plan only names ids of the rows read.\<close>

fun spawn_all :: "(int \<Rightarrow> account option) \<Rightarrow> int list \<Rightarrow> daemon \<Rightarrow> (account_error + unit) \<times> daemon" where
  "spawn_all rows [] d = (Inr (), d)"
| "spawn_all rows (a # as) d =
     (case rows a of
        None \<Rightarrow> (Inl InvalidConfig, d)
      | Some r \<Rightarrow> (case spawn_account r d of (Inl e, d1) \<Rightarrow> (Inl e, d1) | (Inr _, d1) \<Rightarrow> spawn_all rows as d1))"

fun respawn_all ::
  "bool \<Rightarrow> (int \<Rightarrow> account option) \<Rightarrow> int list \<Rightarrow> daemon \<Rightarrow> (account_error + unit) \<times> daemon" where
  "respawn_all hb_ok rows [] d = (Inr (), d)"
| "respawn_all hb_ok rows (a # as) d =
     (case spawn_all rows [a] (teardown_account hb_ok a d) of
        (Inl e, d1) \<Rightarrow> (Inl e, d1)
      | (Inr _, d1) \<Rightarrow> respawn_all hb_ok rows as d1)"

record tick_world =
  tw_drain :: drain_world
  tw_accounts :: "account list option"
  tw_now :: instant
  tw_hb_ok :: bool

definition reconcile :: "daemon_cfg \<Rightarrow> tick_world \<Rightarrow> daemon \<Rightarrow> (account_error + unit) \<times> daemon" where
  "reconcile cfg w d =
     (let d1 = drain_commands (tw_drain w) d in
      if dm_stop d1 then (Inr (), d1)
      else (case tw_accounts w of
              None \<Rightarrow> (Inr (), d1)
            | Some table \<Rightarrow>
                (let desired_rows = list_syncable_accounts table;
                     d2 = d1\<lparr>dm_heartbeats := safe_heartbeat (tw_hb_ok w) (tw_now w) KReconcile None WIdle None None (dm_heartbeats d1)\<rparr>;
                     rows_by_id = map_of (rev (map (\<lambda>r. (acc_id r, r)) desired_rows));
                     plan = plan_reconcile (running_fingerprints d2) (map (\<lambda>r. (acc_id r, acc_updated_at r)) desired_rows)
                 in if plan_is_empty plan then (Inr (), d2)
                    else
                      (let d3 = teardown_all (tw_hb_ok w) (to_teardown plan) d2 in
                       case respawn_all (tw_hb_ok w) rows_by_id (to_respawn plan) d3 of
                         (Inl e, d4) \<Rightarrow> (Inl e, d4)
                       | (Inr _, d4) \<Rightarrow>
                           (case spawn_all rows_by_id (to_spawn plan) d4 of
                              (Inl e, d5) \<Rightarrow> (Inl e, d5)
                            | (Inr _, d5) \<Rightarrow> (Inr (), resize_pool cfg d5))))))"

definition stop_daemon :: "daemon \<Rightarrow> daemon" where
  "stop_daemon d = d\<lparr>dm_stop := True, dm_wake := True, dm_set := dm_set d \<union> (at_event ` snd ` set (dm_threads d))\<rparr>"

fun clear_heartbeats_all :: "bool \<Rightarrow> int list \<Rightarrow> daemon \<Rightarrow> daemon" where
  "clear_heartbeats_all ok [] d = d"
| "clear_heartbeats_all ok (a # as) d = clear_heartbeats_all ok as (clear_heartbeats_of ok a d)"

text \<open>\<open>_shutdown_all_threads\<close>: every event is set before the first join, and the bundles leave the dictionary.\<close>

definition shutdown_all_threads :: "bool \<Rightarrow> daemon \<Rightarrow> daemon" where
  "shutdown_all_threads hb_ok d =
     clear_heartbeats_all hb_ok (map (\<lambda>(_, b). at_account b) (dm_threads d))
       (d\<lparr>dm_stop := True, dm_threads := [], dm_set := dm_set d \<union> (at_event ` snd ` set (dm_threads d))\<rparr>)"

text \<open>
  \<open>start_workers\<close> on a fresh daemon, then the loop of \<open>run_forever\<close>. A tick is a wake-up of the loop: whether a signal
  or \<open>stop()\<close> arrived since the last one, and what the reconcile finds. The result says whether the loop has left.
\<close>

record tick =
  tk_stop :: bool
  tk_world :: tick_world

fun spawn_rows :: "account list \<Rightarrow> daemon \<Rightarrow> (account_error + unit) \<times> daemon" where
  "spawn_rows [] d = (Inr (), d)"
| "spawn_rows (r # rs) d =
     (case spawn_account r d of (Inl e, d1) \<Rightarrow> (Inl e, d1) | (Inr _, d1) \<Rightarrow> spawn_rows rs d1)"

definition start_workers :: "bool \<Rightarrow> account list \<Rightarrow> daemon \<Rightarrow> (account_error + unit) \<times> daemon" where
  "start_workers clear_ok syncable d =
     (if dm_workers_started d then (Inr (), d)
      else
        (let d1 = d\<lparr>dm_workers_started := True\<rparr>
         in spawn_rows syncable
              (if clear_ok then d1\<lparr>dm_heartbeats := clear_all_heartbeats (dm_heartbeats d1)\<rparr> else d1)))"

fun run_loop :: "daemon_cfg \<Rightarrow> tick list \<Rightarrow> daemon \<Rightarrow> bool \<times> daemon" where
  "run_loop cfg [] d = (False, d)"
| "run_loop cfg (t # ts) d =
     (let d0 = (if tk_stop t then stop_daemon d else d)\<lparr>dm_wake := False\<rparr> in
      if dm_stop d0 then (True, shutdown_all_threads (tw_hb_ok (tk_world t)) d0)
      else (case reconcile cfg (tk_world t) d0 of (r, d1) \<Rightarrow>
              if \<not> is_ok r \<or> dm_stop d1 then (True, shutdown_all_threads (tw_hb_ok (tk_world t)) d1)
              else run_loop cfg ts d1))"

subsection \<open>The worker loops\<close>

definition inbox :: string where "inbox = ''INBOX''"

text \<open>
  One folder on a pool connection: its context manager commits on the way out and rolls back an exception. The poll
  thread passes the folder's delimiter and flags, the IDLE thread none.
\<close>

definition sync_folder ::
  "sync_env \<Rightarrow> imap_like \<Rightarrow> int \<Rightarrow> string \<Rightarrow> string option \<Rightarrow> string list \<Rightarrow> conn \<Rightarrow> (exn + int) \<times> conn" where
  "sync_folder env im acct name delim flags c =
     (case upsert_mailbox acct name delim flags c of
        (Inl e, c1) \<Rightarrow> (Inl e, rollback c1)
      | (Inr mailbox, c1) \<Rightarrow>
          (case sync_mailbox env im acct mailbox None (commit c1) of
             (Inl e, c2) \<Rightarrow> (Inl e, rollback c2)
           | (Inr n, c2) \<Rightarrow> (Inr n, commit c2)))"

definition sync_inbox :: "sync_env \<Rightarrow> imap_like \<Rightarrow> int \<Rightarrow> conn \<Rightarrow> (exn + int) \<times> conn" where
  "sync_inbox env im acct c = sync_folder env im acct inbox None [] c"

text \<open>The poll pass; \<open>stop i\<close> is the stop event before the \<open>i\<close>-th selectable folder. It also returns the folders it entered.\<close>

fun poll_folders ::
  "sync_env \<Rightarrow> imap_like \<Rightarrow> int \<Rightarrow> (nat \<Rightarrow> bool) \<Rightarrow> nat \<Rightarrow> (string \<times> string option \<times> string list) list \<Rightarrow>
   string list \<Rightarrow> conn \<Rightarrow> (exn + unit) \<times> string list \<times> conn" where
  "poll_folders env im acct stop i [] visited c = (Inr (), visited, c)"
| "poll_folders env im acct stop i ((name, delim, flags) # fs) visited c =
     (if stop i then (Inr (), visited, c)
      else if name = inbox then poll_folders env im acct stop (Suc i) fs visited c
      else (case sync_folder env im acct name delim flags c of
              (Inl e, c1) \<Rightarrow> (Inl e, visited @ [name], c1)
            | (Inr _, c1) \<Rightarrow> poll_folders env im acct stop (Suc i) fs (visited @ [name]) c1))"

definition one_poll_pass ::
  "sync_env \<Rightarrow> exn + imap_like \<Rightarrow> account_config \<Rightarrow> int \<Rightarrow> (nat \<Rightarrow> bool) \<Rightarrow> conn \<Rightarrow> (exn + unit) \<times> string list \<times> conn" where
  "one_poll_pass env opened cfg acct stop c =
     (case opened of
        Inl e \<Rightarrow> (Inl e, [], c)
      | Inr im \<Rightarrow>
          (case im_list_folders im of
             Inl e \<Rightarrow> (Inl e, [], c)
           | Inr folders \<Rightarrow>
               poll_folders env im acct stop 0
                 (folders_to_sync folders (folder_allow cfg) (folder_deny cfg) (folder_deny_flags cfg)) [] c))"

definition heartbeat_seconds :: int where "heartbeat_seconds = 30000000"
definition renew_guard_seconds :: int where "renew_guard_seconds = 5000000"
definition one_second :: int where "one_second = 1000000"
definition rfc2177_idle_limit :: int where "rfc2177_idle_limit = 29 * 60 * one_second"

text \<open>
  \<open>_wait_between_passes\<close>: the instants it beats at and whether the stop event ended it (\<open>stop_at\<close> is when the event is
  set, if ever).
\<close>

function wait_between_passes :: "int \<Rightarrow> int option \<Rightarrow> int \<Rightarrow> int list \<times> bool" where
  "wait_between_passes deadline stop_at now =
     (let remaining = deadline - now in
      if remaining \<le> 0 then ([now], False)
      else
        (let next = now + min heartbeat_seconds remaining in
         if (case stop_at of None \<Rightarrow> False | Some t \<Rightarrow> t \<le> next) then ([now], True)
         else (case wait_between_passes deadline stop_at next of (beats, stopped) \<Rightarrow> (now # beats, stopped))))"
  by pat_completeness auto
termination
  by (relation "measure (\<lambda>(deadline, stop_at, now). nat (deadline - now))") (auto simp: heartbeat_seconds_def)

declare wait_between_passes.simps [simp del]

text \<open>
  One turn of the IDLE loop. \<open>iw_pause\<close> is what the heartbeat write before the wait costs, \<open>iw_wait\<close> how long
  \<open>idle_check\<close> would wait for a response without its timeout, \<open>iw_work\<close> the time a sync takes. The state is the
  clock, when the running IDLE was issued and its renewal deadline; \<open>at_check\<close> is the clock when \<open>idle_check\<close>
  returns.
\<close>

record idle_world =
  iw_pause :: int
  iw_wait :: int
  iw_stop :: bool
  iw_responses :: bool
  iw_work :: int

record idle_state =
  is_now :: int
  is_issued :: int
  is_renew_at :: int

definition idle_check_timeout :: "int \<Rightarrow> int \<Rightarrow> int" where
  "idle_check_timeout renew_at now = min heartbeat_seconds (max one_second (renew_at - now))"

definition at_check :: "idle_world \<Rightarrow> idle_state \<Rightarrow> int" where
  "at_check w s =
     (let now = is_now s + iw_pause w in now + min (iw_wait w) (idle_check_timeout (is_renew_at s) now))"

definition idle_step :: "int \<Rightarrow> idle_world \<Rightarrow> idle_state \<Rightarrow> idle_state" where
  "idle_step idle_renew_seconds w s =
     (let now = at_check w s in
      if iw_stop w then s\<lparr>is_now := now\<rparr>
      else if iw_responses w
      then (let t = now + iw_work w in \<lparr>is_now = t, is_issued = t, is_renew_at = t + idle_renew_seconds\<rparr>)
      else if is_renew_at s - renew_guard_seconds \<le> now
      then \<lparr>is_now = now, is_issued = now, is_renew_at = now + idle_renew_seconds\<rparr>
      else s\<lparr>is_now := now\<rparr>)"

text \<open>The backoff of both loops after a pass: the next backoff and how long the loop waits first.\<close>

definition loop_backoff :: "bool \<Rightarrow> int \<Rightarrow> int \<times> int" where
  "loop_backoff crashed backoff =
     (if crashed then (min (backoff * 2) (60 * one_second), backoff) else (one_second, 0))"

end
