(* ===== verification/DaemonSafety.thy ===== *)
theory DaemonSafety
  imports Daemon
begin

text \<open>
  What the daemon promises: every reconcile makes the running threads those of the accounts table, no account
  ever has two pairs of threads that were not told to stop, no command is lost, the shutdown keeps its
  budget, heartbeats are one row per worker, an IDLE is renewed in time.
\<close>

subsection \<open>Threads and the dictionary\<close>

definition unsignalled :: "daemon \<Rightarrow> (nat \<times> int) set" where
  "unsignalled d = {(e, a) \<in> set (dm_started d). e \<notin> dm_set d}"

definition workers_ok :: "daemon \<Rightarrow> bool" where
  "workers_ok d \<longleftrightarrow>
     distinct (map fst (dm_threads d)) \<and> distinct (map fst (dm_started d)) \<and>
     (\<forall>(e, a) \<in> set (dm_started d). e < dm_next d) \<and> (\<forall>e \<in> dm_set d. e < dm_next d) \<and>
     (\<forall>(a, b) \<in> set (dm_threads d). at_account b = a \<and> (at_event b, a) \<in> set (dm_started d)) \<and>
     (\<forall>(e, a) \<in> unsignalled d. \<exists>b. map_of (dm_threads d) a = Some b \<and> at_event b = e)"

lemma set_dict_pop: "set (dict_pop k d) = {x \<in> set d. fst x \<noteq> k}"
  by (auto simp: dict_pop_def)

lemma workers_ok_books:
  "workers_ok (d\<lparr>dm_heartbeats := hs\<rparr>) = workers_ok d" "workers_ok (d\<lparr>dm_commands := cs\<rparr>) = workers_ok d"
  "workers_ok (d\<lparr>dm_stop := b\<rparr>) = workers_ok d" "workers_ok (d\<lparr>dm_wake := b\<rparr>) = workers_ok d"
  "workers_ok (d\<lparr>dm_pool_max := n\<rparr>) = workers_ok d" "workers_ok (d\<lparr>dm_workers_started := b\<rparr>) = workers_ok d"
  by (simp_all add: workers_ok_def unsignalled_def)

lemma workers_okD:
  "workers_ok d \<Longrightarrow> (e, a) \<in> unsignalled d \<Longrightarrow> \<exists>b. map_of (dm_threads d) a = Some b \<and> at_event b = e"
  unfolding workers_ok_def by blast

lemma workers_ok_spawn:
  assumes ok: "workers_ok d" and new: "map_of (dm_threads d) (acc_id a) = None"
  shows "workers_ok (snd (spawn_account a d))"
proof (cases "account_config_from_row a")
  case (Inl e)
  with assms show ?thesis by (simp add: spawn_account_def)
next
  case (Inr c)
  let ?b = "\<lparr>at_account = acc_id a, at_updated_at = acc_updated_at a, at_event = dm_next d\<rparr>"
  let ?d = "snd (spawn_account a d)"
  have d: "dm_threads ?d = dict_set (acc_id a) ?b (dm_threads d)" "dm_started ?d = dm_started d @ [(dm_next d, acc_id a)]"
    "dm_set ?d = dm_set d" "dm_next ?d = dm_next d + 1"
    using Inr by (simp_all add: spawn_account_def)
  have fresh: "acc_id a \<notin> fst ` set (dm_threads d)" using new by (simp add: map_of_eq_None_iff)
  have ids: "dm_next d \<notin> fst ` set (dm_started d)" using ok by (fastforce simp: workers_ok_def)
  show ?thesis
    unfolding workers_ok_def
  proof (intro conjI)
    show "\<forall>(e, a') \<in> unsignalled ?d. \<exists>b'. map_of (dm_threads ?d) a' = Some b' \<and> at_event b' = e"
    proof clarify
      fix e a' assume u: "(e, a') \<in> unsignalled ?d"
      show "\<exists>b'. map_of (dm_threads ?d) a' = Some b' \<and> at_event b' = e"
      proof (cases "(e, a') = (dm_next d, acc_id a)")
        case True
        then show ?thesis by (simp add: d)
      next
        case False
        with u have "(e, a') \<in> unsignalled d" by (auto simp: unsignalled_def d)
        from workers_okD [OF ok this] new show ?thesis by (auto simp: d)
      qed
    qed
    show "distinct (map fst (dm_threads ?d))" using ok by (simp add: d workers_ok_def distinct_dict_set)
    show "distinct (map fst (dm_started ?d))" using ok ids by (simp add: d workers_ok_def)
    show "\<forall>(e, a) \<in> set (dm_started ?d). e < dm_next ?d" "\<forall>e \<in> dm_set ?d. e < dm_next ?d"
      using ok by (auto simp: d workers_ok_def less_Suc_eq)
    show "\<forall>(a, b) \<in> set (dm_threads ?d). at_account b = a \<and> (at_event b, a) \<in> set (dm_started ?d)"
      using ok fresh by (auto simp: d workers_ok_def dict_set_def)
  qed
qed

lemma teardown_threads: "dm_threads (teardown_account ok a d) = dict_pop a (dm_threads d)"
proof (cases "map_of (dm_threads d) a")
  case None
  then have "a \<notin> fst ` set (dm_threads d)" by (simp add: map_of_eq_None_iff)
  then have "dict_pop a (dm_threads d) = dm_threads d"
    unfolding dict_pop_def by (intro filter_True) auto
  with None show ?thesis by (simp add: teardown_account_def)
qed (simp add: teardown_account_def clear_heartbeats_of_def)

lemma workers_ok_teardown:
  assumes "workers_ok d"
  shows "workers_ok (teardown_account ok a d)"
proof (cases "map_of (dm_threads d) a")
  case None
  with assms show ?thesis by (simp add: teardown_account_def)
next
  case (Some b)
  let ?d = "d\<lparr>dm_threads := dict_pop a (dm_threads d), dm_set := insert (at_event b) (dm_set d)\<rparr>"
  have b: "(a, b) \<in> set (dm_threads d)" using Some by (rule map_of_SomeD)
  have "workers_ok ?d"
    unfolding workers_ok_def
  proof (intro conjI)
    show "\<forall>(e, a') \<in> unsignalled ?d. \<exists>b'. map_of (dm_threads ?d) a' = Some b' \<and> at_event b' = e"
    proof clarify
      fix e a' assume u: "(e, a') \<in> unsignalled ?d"
      then have "(e, a') \<in> unsignalled d" by (auto simp: unsignalled_def)
      then obtain b' where "map_of (dm_threads d) a' = Some b'" "at_event b' = e"
        using workers_okD [OF assms] by blast
      with u Some show "\<exists>b'. map_of (dm_threads ?d) a' = Some b' \<and> at_event b' = e"
        by (cases "a' = a") (auto simp: unsignalled_def)
    qed
  qed (use assms b in \<open>auto simp: workers_ok_def set_dict_pop distinct_dict_pop\<close>)
  with Some show ?thesis by (simp add: teardown_account_def clear_heartbeats_of_def workers_ok_books)
qed

lemma unsignalled_unique:
  "workers_ok d \<Longrightarrow> (e1, a) \<in> unsignalled d \<Longrightarrow> (e2, a) \<in> unsignalled d \<Longrightarrow> e1 = e2"
  using workers_okD [of d e1 a] workers_okD [of d e2 a] by auto

subsection \<open>What the loops over a plan do\<close>

abbreviation bundle_of :: "daemon \<Rightarrow> int \<Rightarrow> account_threads option" where
  "bundle_of d \<equiv> map_of (dm_threads d)"

definition fingerprint :: "daemon \<Rightarrow> int \<Rightarrow> instant option" where
  "fingerprint d a = map_option at_updated_at (bundle_of d a)"

lemma running_fingerprints_map: "map_of (running_fingerprints d) = fingerprint d"
proof -
  have "map_of (map (\<lambda>(aid, b). (aid, at_updated_at b)) xs) = (\<lambda>a. map_option at_updated_at (map_of xs a))" for xs
    by (induction xs) auto
  then show ?thesis by (simp add: running_fingerprints_def fingerprint_def fun_eq_iff)
qed

lemma running_fingerprints_keys: "set (map fst (running_fingerprints d)) = dom (bundle_of d)"
  by (force simp: running_fingerprints_def dom_map_of_conv_image_fst)

lemma teardown_bundle: "bundle_of (teardown_account ok a d) = (bundle_of d)(a := None)"
  by (simp add: teardown_threads)

lemma teardown_all_bundle:
  "bundle_of (teardown_all ok as d) = (\<lambda>a. if a \<in> set as then None else bundle_of d a)"
  by (induction as arbitrary: d) (auto simp: teardown_bundle fun_eq_iff)

lemma workers_ok_teardown_all: "workers_ok d \<Longrightarrow> workers_ok (teardown_all ok as d)"
  by (induction as arbitrary: d) (auto intro: workers_ok_teardown)

definition spawnable :: "(int \<Rightarrow> account option) \<Rightarrow> int \<Rightarrow> bool" where
  "spawnable rows a \<longleftrightarrow> (case rows a of None \<Rightarrow> False | Some r \<Rightarrow> acc_id r = a \<and> is_ok (account_config_from_row r))"

lemma spawn_one:
  assumes "spawnable rows a"
  obtains r d1 where "rows a = Some r" "spawn_account r d = (Inr (), d1)" "acc_id r = a"
    "fingerprint d1 = (fingerprint d)(a \<mapsto> acc_updated_at r)" "\<And>b. b \<noteq> a \<Longrightarrow> bundle_of d1 b = bundle_of d b"
proof -
  from assms obtain r c where "rows a = Some r" "acc_id r = a" "account_config_from_row r = Inr c"
    by (auto simp: spawnable_def is_ok_def split: option.splits sum.splits)
  then show thesis
    by (intro that [of r "snd (spawn_account r d)"]) (auto simp: spawn_account_def fingerprint_def fun_eq_iff)
qed

text \<open>Both loops over a list of spawnable accounts succeed, and the accounts named get the fingerprint of their row.\<close>

definition spawned :: "(int \<Rightarrow> account option) \<Rightarrow> int list \<Rightarrow> daemon \<Rightarrow> (account_error + unit) \<times> daemon \<Rightarrow> bool" where
  "spawned rows as d r \<longleftrightarrow> fst r = Inr () \<and>
     fingerprint (snd r) = (\<lambda>a. if a \<in> set as then map_option acc_updated_at (rows a) else fingerprint d a) \<and>
     (\<forall>b. b \<notin> set as \<longrightarrow> bundle_of (snd r) b = bundle_of d b)"

lemma spawned_ok: "spawned rows as d r \<Longrightarrow> r = (Inr (), snd r)"
  by (simp add: spawned_def prod_eq_iff)

lemma spawn_all_spawned: "list_all (spawnable rows) as \<Longrightarrow> spawned rows as d (spawn_all rows as d)"
proof (induction as arbitrary: d)
  case (Cons a as)
  then have a: "spawnable rows a" by simp
  obtain r d1 where r: "rows a = Some r" "spawn_account r d = (Inr (), d1)" "acc_id r = a"
    "fingerprint d1 = (fingerprint d)(a \<mapsto> acc_updated_at r)" "\<And>b. b \<noteq> a \<Longrightarrow> bundle_of d1 b = bundle_of d b"
    using spawn_one [OF a, where d = d] by blast
  from Cons.IH [of d1] Cons.prems r show ?case
    by (auto simp: spawned_def fun_eq_iff)
qed (simp add: spawned_def)

lemma respawn_all_spawned: "list_all (spawnable rows) as \<Longrightarrow> spawned rows as d (respawn_all ok rows as d)"
proof (induction as arbitrary: d)
  case (Cons a as)
  let ?d0 = "teardown_account ok a d"
  have one: "spawned rows [a] ?d0 (spawn_all rows [a] ?d0)"
    using Cons.prems by (intro spawn_all_spawned) simp
  obtain d1 where d1: "spawn_all rows [a] ?d0 = (Inr (), d1)"
    using spawned_ok [OF one] by blast
  from Cons.IH [of d1] Cons.prems one show ?case
    unfolding respawn_all.simps d1
    by (auto simp: spawned_def fun_eq_iff teardown_bundle fingerprint_def)
qed (simp add: spawned_def)

definition keyed :: "(int \<Rightarrow> account option) \<Rightarrow> bool" where
  "keyed rows \<longleftrightarrow> (\<forall>a r. rows a = Some r \<longrightarrow> acc_id r = a)"

lemma keyed_rows_by_id: "keyed (map_of (rev (map (\<lambda>r. (acc_id r, r)) rs)))"
  by (auto simp: keyed_def dest!: map_of_SomeD)

lemma spawn_bundle_other: "b \<noteq> acc_id r \<Longrightarrow> bundle_of (snd (spawn_account r d)) b = bundle_of d b"
  by (simp add: spawn_account_def split: sum.split)

lemma workers_ok_spawn_all:
  "workers_ok d \<Longrightarrow> keyed rows \<Longrightarrow> distinct as \<Longrightarrow> (\<And>a. a \<in> set as \<Longrightarrow> bundle_of d a = None) \<Longrightarrow>
   workers_ok (snd (spawn_all rows as d))"
proof (induction as arbitrary: d)
  case (Cons a as)
  show ?case
  proof (cases "rows a")
    case (Some r)
    then have id: "acc_id r = a" using Cons.prems by (simp add: keyed_def)
    obtain x d1 where sp: "spawn_account r d = (x, d1)" by fastforce
    have d1: "workers_ok d1" using workers_ok_spawn [of d r] Cons.prems id sp by simp
    have "bundle_of d1 b = None" if "b \<in> set as" for b
      using Cons.prems that id spawn_bundle_other [of b r d] sp by force
    with Cons.IH [of d1] Cons.prems d1 Some sp show ?thesis by (cases x) auto
  qed (use Cons.prems in simp)
qed simp

lemma spawn_single_other: "keyed rows \<Longrightarrow> b \<noteq> a \<Longrightarrow> bundle_of (snd (spawn_all rows [a] d)) b = bundle_of d b"
proof (cases "rows a")
  case (Some r)
  assume "keyed rows" "b \<noteq> a"
  then have "b \<noteq> acc_id r" using Some by (simp add: keyed_def)
  moreover have "snd (spawn_all rows [a] d) = snd (spawn_account r d)"
    by (simp add: Some split: prod.split sum.split)
  ultimately show ?thesis using spawn_bundle_other [of b r d] by simp
qed simp

lemma respawn_all_other:
  "keyed rows \<Longrightarrow> b \<notin> set as \<Longrightarrow> bundle_of (snd (respawn_all ok rows as d)) b = bundle_of d b"
proof (induction as arbitrary: d)
  case (Cons a as)
  obtain x d1 where sp: "spawn_all rows [a] (teardown_account ok a d) = (x, d1)" by fastforce
  have "bundle_of d1 b = bundle_of d b"
    using spawn_single_other [of rows b a "teardown_account ok a d"] Cons.prems sp by (simp add: teardown_bundle)
  with Cons sp show ?case by (cases x) (auto simp del: spawn_all.simps)
qed simp

lemma workers_ok_respawn_all:
  "workers_ok d \<Longrightarrow> keyed rows \<Longrightarrow> workers_ok (snd (respawn_all ok rows as d))"
proof (induction as arbitrary: d)
  case (Cons a as)
  obtain x d1 where sp: "spawn_all rows [a] (teardown_account ok a d) = (x, d1)" by fastforce
  have "workers_ok d1"
    using workers_ok_spawn_all [of "teardown_account ok a d" rows "[a]"] workers_ok_teardown Cons.prems sp
    by (simp add: teardown_bundle del: spawn_all.simps)
  with Cons sp show ?case by (cases x) (auto simp del: spawn_all.simps)
qed simp

subsection \<open>Commands\<close>

lemma apply_command_ok: "workers_ok d \<Longrightarrow> workers_ok (snd (apply_command ok cmd d))"
  by (auto simp: apply_command_def workers_ok_books workers_ok_teardown split: option.split)

lemma apply_commands_ok: "workers_ok d \<Longrightarrow> workers_ok (snd (apply_commands w cmds view d))"
proof (induction cmds arbitrary: view d)
  case (Cons cmd cmds)
  obtain r d1 where "apply_command (dw_hb_ok w) cmd d = (r, d1)" by fastforce
  with Cons apply_command_ok [of d "dw_hb_ok w" cmd] show ?case by simp
qed simp

lemma workers_ok_drain: "workers_ok d \<Longrightarrow> workers_ok (drain_commands w d)"
  using apply_commands_ok [of d w]
  by (auto simp: drain_commands_def workers_ok_books split: prod.split option.split) (metis snd_conv)+

subsection \<open>Reconciling\<close>

lemma plan_disjoint:
  assumes "plan_reconcile running desired = p"
  shows "set (to_spawn p) = fst ` set desired - fst ` set running"
    and "set (to_teardown p) = fst ` set running - fst ` set desired"
    and "set (to_respawn p) = {a \<in> fst ` set running \<inter> fst ` set desired. map_of running a \<noteq> map_of desired a}"
    and "distinct (to_spawn p)" "distinct (to_teardown p)" "distinct (to_respawn p)"
  unfolding assms [symmetric] plan_reconcile_def Let_def by simp_all

lemma workers_ok_reconcile:
  assumes "workers_ok d"
  shows "workers_ok (snd (reconcile cfg w d))"
proof (cases "dm_stop (drain_commands (tw_drain w) d) \<or> tw_accounts w = None")
  case True
  with workers_ok_drain [OF assms, of "tw_drain w"] show ?thesis by (auto simp: reconcile_def Let_def)
next
  case False
  then obtain table where table: "tw_accounts w = Some table" by blast
  let ?d1 = "drain_commands (tw_drain w) d"
  let ?d2 = "?d1\<lparr>dm_heartbeats := safe_heartbeat (tw_hb_ok w) (tw_now w) KReconcile None WIdle None None (dm_heartbeats ?d1)\<rparr>"
  let ?ds = "list_syncable_accounts table"
  let ?rows = "map_of (rev (map (\<lambda>r. (acc_id r, r)) ?ds))"
  obtain p where plan: "plan_reconcile (running_fingerprints ?d2) (map (\<lambda>r. (acc_id r, acc_updated_at r)) ?ds) = p" by simp
  note pl = plan_disjoint [OF plan]
  let ?d3 = "teardown_all (tw_hb_ok w) (to_teardown p) ?d2"
  obtain x4 d4 where r4: "respawn_all (tw_hb_ok w) ?rows (to_respawn p) ?d3 = (x4, d4)" by fastforce
  obtain x5 d5 where r5: "spawn_all ?rows (to_spawn p) d4 = (x5, d5)" by fastforce
  have k: "keyed ?rows" by (rule keyed_rows_by_id)
  have w2: "workers_ok ?d2" using workers_ok_drain [OF assms] by (simp add: workers_ok_books)
  then have w4: "workers_ok d4"
    using workers_ok_respawn_all [OF workers_ok_teardown_all [OF w2, of "tw_hb_ok w" "to_teardown p"] k, of "tw_hb_ok w" "to_respawn p"]
    unfolding r4 by simp
  have new: "bundle_of d4 a = None" if "a \<in> set (to_spawn p)" for a
  proof -
    have "a \<notin> dom (bundle_of ?d2)" "a \<notin> set (to_respawn p)"
      using that pl(1,3) running_fingerprints_keys [of ?d2] by auto
    with respawn_all_other [OF k, of a "to_respawn p" "tw_hb_ok w" ?d3] r4 show ?thesis
      by (auto simp: teardown_all_bundle)
  qed
  have w5: "workers_ok d5"
    using workers_ok_spawn_all [OF w4 k pl(4) new] r5 by simp
  have rs: "workers_ok (resize_pool cfg d5)"
    using w5 by (auto simp: resize_pool_def workers_ok_books split: prod.split)
  show ?thesis
    using False table w2 w4 w5 rs plan r4 r5
    by (auto simp: reconcile_def Let_def split: sum.split)
qed

lemma clear_heartbeats_all_frame [simp]:
  "dm_threads (clear_heartbeats_all ok as d) = dm_threads d" "dm_started (clear_heartbeats_all ok as d) = dm_started d"
  "dm_set (clear_heartbeats_all ok as d) = dm_set d" "dm_next (clear_heartbeats_all ok as d) = dm_next d"
  "dm_stop (clear_heartbeats_all ok as d) = dm_stop d" "dm_commands (clear_heartbeats_all ok as d) = dm_commands d"
  by (induction as arbitrary: d) (simp_all add: clear_heartbeats_of_def)

lemma shutdown_signals_all:
  assumes "workers_ok d"
  shows "unsignalled (shutdown_all_threads ok d) = {}" "dm_threads (shutdown_all_threads ok d) = []"
    "dm_stop (shutdown_all_threads ok d)"
proof -
  have "e \<in> dm_set d \<union> at_event ` snd ` set (dm_threads d)" if "(e, a) \<in> set (dm_started d)" for e a
  proof (cases "e \<in> dm_set d")
    case False
    with that have "(e, a) \<in> unsignalled d" by (simp add: unsignalled_def)
    then obtain b where "bundle_of d a = Some b" "at_event b = e" using workers_okD [OF assms] by blast
    then show ?thesis by (force dest: map_of_SomeD)
  qed simp
  then show "unsignalled (shutdown_all_threads ok d) = {}"
    unfolding unsignalled_def shutdown_all_threads_def by auto
qed (simp_all add: shutdown_all_threads_def)

lemma workers_ok_shutdown:
  assumes "workers_ok d"
  shows "workers_ok (shutdown_all_threads ok d)"
proof -
  have "at_event b < dm_next d" if "(a, b) \<in> set (dm_threads d)" for a b
    using assms that unfolding workers_ok_def by fast
  then show ?thesis
    using assms shutdown_signals_all [OF assms, of ok]
    unfolding workers_ok_def by (auto simp: shutdown_all_threads_def)
qed

lemma workers_ok_stop: "workers_ok d \<Longrightarrow> workers_ok (stop_daemon d)"
  unfolding workers_ok_def stop_daemon_def unsignalled_def by (auto; fastforce)

lemma run_loop_ok:
  "workers_ok d \<Longrightarrow> run_loop cfg ts d = (left, d') \<Longrightarrow>
   workers_ok d' \<and> (left \<longrightarrow> unsignalled d' = {} \<and> dm_threads d' = [] \<and> dm_stop d')"
proof (induction ts arbitrary: d)
  case (Cons t ts)
  let ?d0 = "(if tk_stop t then stop_daemon d else d)\<lparr>dm_wake := False\<rparr>"
  have w0: "workers_ok ?d0" using Cons.prems(1) by (simp add: workers_ok_books workers_ok_stop)
  obtain r d1 where rec: "reconcile cfg (tk_world t) ?d0 = (r, d1)" by fastforce
  have w1: "workers_ok d1" using workers_ok_reconcile [OF w0, of cfg "tk_world t"] rec by simp
  note out = workers_ok_shutdown shutdown_signals_all
  show ?case
  proof (cases "dm_stop ?d0")
    case True
    with Cons.prems(2) have "d' = shutdown_all_threads (tw_hb_ok (tk_world t)) ?d0" by (simp add: Let_def)
    with out [OF w0] show ?thesis by simp
  next
    case running: False
    show ?thesis
    proof (cases "\<not> is_ok r \<or> dm_stop d1")
      case True
      with running Cons.prems(2) rec have "d' = shutdown_all_threads (tw_hb_ok (tk_world t)) d1"
        by (auto simp: Let_def split: if_splits)
      with out [OF w1] show ?thesis by simp
    next
      case False
      with running Cons.prems(2) rec have "run_loop cfg ts d1 = (left, d')" by (auto simp: Let_def split: if_splits)
      with Cons.IH [OF w1] show ?thesis by blast
    qed
  qed
qed simp

lemma spawn_rows_ok:
  "workers_ok d \<Longrightarrow> distinct (map acc_id rs) \<Longrightarrow> (\<And>r. r \<in> set rs \<Longrightarrow> bundle_of d (acc_id r) = None) \<Longrightarrow>
   workers_ok (snd (spawn_rows rs d))"
proof (induction rs arbitrary: d)
  case (Cons r rs)
  obtain x d1 where sp: "spawn_account r d = (x, d1)" by fastforce
  have w1: "workers_ok d1" using workers_ok_spawn [of d r] Cons.prems sp by simp
  have "bundle_of d1 (acc_id q) = None" if "q \<in> set rs" for q
  proof -
    have "acc_id q \<in> acc_id ` set rs" using that by (rule imageI)
    then have "acc_id q \<noteq> acc_id r" using Cons.prems(2) by auto
    with spawn_bundle_other [of "acc_id q" r d] sp Cons.prems(3) that show ?thesis by simp
  qed
  with Cons.IH [OF w1] Cons.prems w1 sp show ?case by (cases x) auto
qed simp

definition new_daemon :: "command_row list \<Rightarrow> heartbeat list \<Rightarrow> int \<Rightarrow> daemon" where
  "new_daemon cs hs pool_max =
     \<lparr>dm_threads = [], dm_started = [], dm_set = {}, dm_next = 0, dm_workers_started = False, dm_stop = False,
      dm_wake = False, dm_pool_max = pool_max, dm_commands = cs, dm_heartbeats = hs\<rparr>"

lemma workers_ok_new: "workers_ok (new_daemon cs hs n)"
  by (simp add: workers_ok_def unsignalled_def new_daemon_def)

text \<open>
  C22. From construction on, whatever the ticks bring (failing reads, rows that cannot be mapped, restarts, signals), an
  account never has two pairs of worker threads that have not been told to stop; and when the loop has left, for
  whatever reason, every thread ever started has been told to stop.
\<close>

theorem no_duplicate_workers:
  assumes "distinct (map acc_id rs)" and "start_workers ok rs (new_daemon cs hs n) = (r, d)"
    and "run_loop cfg ts d = (left, d')"
  shows "(\<forall>e1 e2 a. (e1, a) \<in> unsignalled d' \<longrightarrow> (e2, a) \<in> unsignalled d' \<longrightarrow> e1 = e2) \<and>
    (left \<longrightarrow> unsignalled d' = {} \<and> dm_threads d' = [] \<and> dm_stop d')"
proof -
  have "workers_ok (snd (start_workers ok rs (new_daemon cs hs n)))"
    unfolding start_workers_def Let_def
    using assms(1) workers_ok_new by (auto intro!: spawn_rows_ok simp: workers_ok_books) (auto simp: new_daemon_def)
  with assms(2) have "workers_ok d" by simp
  from run_loop_ok [OF this assms(3)] unsignalled_unique show ?thesis by blast
qed

definition sample_account :: account where
  "sample_account = \<lparr>acc_id = 1, acc_name = ''a'', acc_email = ''a@b'', acc_auth_method = ''password'', acc_oauth_provider = None,
     acc_imap_host = Some ''h'', acc_imap_port = Some 993, acc_folder_allow = None, acc_folder_deny = None,
     acc_folder_deny_flags = None, acc_sync_enabled = True, acc_updated_at = 5\<rparr>"

definition quiet_drain :: drain_world where
  "quiet_drain = \<lparr>dw_connect = True, dw_locked = (\<lambda>_. False), dw_mark = (\<lambda>_ _. True), dw_commit = True, dw_now = 9, dw_hb_ok = True\<rparr>"

definition sample_tick :: "account list \<Rightarrow> tick_world" where
  "sample_tick table = \<lparr>tw_drain = quiet_drain, tw_accounts = Some table, tw_now = 9, tw_hb_ok = True\<rparr>"

theorem no_duplicate_workers_witness:
  "unsignalled (snd (run_loop \<lparr>dc_pool_max_size = None, dc_run_embed = True, dc_run_extract = True\<rparr>
      [\<lparr>tk_stop = True, tk_world = sample_tick []\<rparr>]
      (snd (start_workers True [sample_account] (new_daemon [] [] 4))))) = {}"
proof -
  let ?cfg = "\<lparr>dc_pool_max_size = None, dc_run_embed = True, dc_run_extract = True\<rparr>"
  let ?ts = "[\<lparr>tk_stop = True, tk_world = sample_tick []\<rparr>]"
  let ?d = "snd (start_workers True [sample_account] (new_daemon [] [] 4))"
  have left: "fst (run_loop ?cfg ?ts ?d) = True" by (simp add: Let_def stop_daemon_def)
  have "start_workers True [sample_account] (new_daemon [] [] 4) = (fst (start_workers True [sample_account] (new_daemon [] [] 4)), ?d)"
    "run_loop ?cfg ?ts ?d = (fst (run_loop ?cfg ?ts ?d), snd (run_loop ?cfg ?ts ?d))" by simp_all
  from no_duplicate_workers [OF _ this] left show ?thesis by simp
qed

subsection \<open>Convergence\<close>

lemma list_syncable_ids: "distinct (map acc_id table) \<Longrightarrow> distinct (map acc_id (list_syncable_accounts table))"
proof -
  assume "distinct (map acc_id table)"
  then have "distinct (map acc_id (filter P table))" for P by (rule distinct_map_filter)
  then show ?thesis unfolding list_syncable_accounts_def by (simp add: distinct_map)
qed

lemma map_of_keyed: "distinct (map f rs) \<Longrightarrow> map_of (map (\<lambda>r. (f r, g r)) rs) a = map_option g (find (\<lambda>r. f r = a) rs)"
  by (induction rs) auto

lemma map_of_rev_keyed: "distinct (map f rs) \<Longrightarrow> map_of (rev (map (\<lambda>r. (f r, r)) rs)) = map_of (map (\<lambda>r. (f r, r)) rs)"
  by (induction rs) (auto simp: map_add_def fun_eq_iff split: option.split, force dest!: map_of_SomeD)

text \<open>The accounts the table wants running, with the stamp of their row.\<close>

definition desired_state :: "account list \<Rightarrow> int \<Rightarrow> instant option" where
  "desired_state table = map_of (map (\<lambda>r. (acc_id r, acc_updated_at r)) (list_syncable_accounts table))"

lemma rows_spawnable:
  assumes "distinct (map acc_id table)"
    and "list_all (\<lambda>r. is_ok (account_config_from_row r)) (list_syncable_accounts table)"
    and "a \<in> acc_id ` set (list_syncable_accounts table)"
  shows "spawnable (map_of (rev (map (\<lambda>r. (acc_id r, r)) (list_syncable_accounts table)))) a \<and>
    map_option acc_updated_at (map_of (rev (map (\<lambda>r. (acc_id r, r)) (list_syncable_accounts table))) a) = desired_state table a"
proof -
  let ?ds = "list_syncable_accounts table"
  have dist: "distinct (map acc_id ?ds)" by (rule list_syncable_ids [OF assms(1)])
  obtain r where r: "r \<in> set ?ds" "acc_id r = a" using assms(3) by auto
  then have "find (\<lambda>r. acc_id r = a) ?ds \<noteq> None" by (auto simp: find_None_conv)
  then obtain q where q: "find (\<lambda>r. acc_id r = a) ?ds = Some q" by blast
  from find_SomeD [OF q] assms(2) have "acc_id q = a" "is_ok (account_config_from_row q)" by (auto simp: list_all_iff)
  then show ?thesis
    by (simp add: spawnable_def desired_state_def map_of_rev_keyed [OF dist] map_of_keyed [OF dist] q)
qed

lemma fingerprint_None: "fingerprint d a = None \<longleftrightarrow> a \<notin> dom (bundle_of d)"
  by (auto simp: fingerprint_def)

lemma plan_sets:
  assumes "plan_reconcile (running_fingerprints d) (map (\<lambda>r. (acc_id r, acc_updated_at r)) (list_syncable_accounts table)) = p"
  shows "set (to_spawn p) = {a. fingerprint d a = None \<and> desired_state table a \<noteq> None}"
    and "set (to_teardown p) = {a. fingerprint d a \<noteq> None \<and> desired_state table a = None}"
    and "set (to_respawn p) = {a. fingerprint d a \<noteq> None \<and> desired_state table a \<noteq> None \<and> fingerprint d a \<noteq> desired_state table a}"
proof -
  let ?des = "map (\<lambda>r. (acc_id r, acc_updated_at r)) (list_syncable_accounts table)"
  have keys: "fst ` set ?des = {a. desired_state table a \<noteq> None}"
    unfolding desired_state_def by (auto simp: map_of_eq_None_iff image_image)
  have run: "fst ` set (running_fingerprints d) = {a. fingerprint d a \<noteq> None}"
    using running_fingerprints_keys [of d] by (auto simp: fingerprint_None)
  note pd = plan_disjoint [OF assms, unfolded keys run running_fingerprints_map desired_state_def [symmetric]]
  from pd(1-3) show "set (to_spawn p) = {a. fingerprint d a = None \<and> desired_state table a \<noteq> None}"
    "set (to_teardown p) = {a. fingerprint d a \<noteq> None \<and> desired_state table a = None}"
    "set (to_respawn p) = {a. fingerprint d a \<noteq> None \<and> desired_state table a \<noteq> None \<and> fingerprint d a \<noteq> desired_state table a}"
    by auto
qed

text \<open>Carrying out a plan for rows that can be spawned: no error, the desired stamps, and nothing else touched.\<close>

lemma apply_plan:
  fixes rows :: "int \<Rightarrow> account option"
  assumes rows: "\<And>a. desired a \<noteq> None \<Longrightarrow> spawnable rows a \<and> map_option acc_updated_at (rows a) = desired a"
    and sets: "set (to_spawn p) = {a. fingerprint d a = None \<and> desired a \<noteq> None}"
      "set (to_teardown p) = {a. fingerprint d a \<noteq> None \<and> desired a = None}"
      "set (to_respawn p) = {a. fingerprint d a \<noteq> None \<and> desired a \<noteq> None \<and> fingerprint d a \<noteq> desired a}"
  obtains d4 d5 where "respawn_all ok rows (to_respawn p) (teardown_all ok (to_teardown p) d) = (Inr (), d4)"
    "spawn_all rows (to_spawn p) d4 = (Inr (), d5)" "fingerprint d5 = desired"
    "\<And>a. fingerprint d a = desired a \<Longrightarrow> bundle_of d5 a = bundle_of d a"
proof -
  let ?d3 = "teardown_all ok (to_teardown p) d"
  have r4: "spawned rows (to_respawn p) ?d3 (respawn_all ok rows (to_respawn p) ?d3)"
    using rows sets(3) by (intro respawn_all_spawned) (simp add: list_all_iff)
  then obtain d4 where d4: "respawn_all ok rows (to_respawn p) ?d3 = (Inr (), d4)" using spawned_ok by blast
  have r5: "spawned rows (to_spawn p) d4 (spawn_all rows (to_spawn p) d4)"
    using rows sets(1) by (intro spawn_all_spawned) (simp add: list_all_iff)
  then obtain d5 where d5: "spawn_all rows (to_spawn p) d4 = (Inr (), d5)" using spawned_ok by blast
  have f3: "fingerprint ?d3 a = (if a \<in> set (to_teardown p) then None else fingerprint d a)" for a
    by (simp add: fingerprint_def teardown_all_bundle)
  have f5: "fingerprint d5 a = (if a \<in> set (to_spawn p) \<union> set (to_respawn p) then map_option acc_updated_at (rows a)
      else fingerprint ?d3 a)" for a
    using r4 r5 d4 d5 by (auto simp: spawned_def)
  have b5: "bundle_of d5 a = bundle_of ?d3 a" if "a \<notin> set (to_spawn p)" "a \<notin> set (to_respawn p)" for a
    using r4 r5 d4 d5 that by (simp add: spawned_def)
  show thesis
  proof (rule that [OF d4 d5])
    show "fingerprint d5 = desired"
      using f5 f3 sets rows by (auto simp: fun_eq_iff)
    show "bundle_of d5 a = bundle_of d a" if "fingerprint d a = desired a" for a
      using b5 [of a] sets that by (cases "desired a") (simp_all add: teardown_all_bundle)
  qed
qed

lemma reconcile_lands:
  assumes "distinct (map acc_id table)" and "tw_accounts w = Some table"
    and "list_all (\<lambda>r. is_ok (account_config_from_row r)) (list_syncable_accounts table)"
    and "drain_commands (tw_drain w) d = d1" and "\<not> dm_stop d1"
    and "reconcile cfg w d = (r, d')"
  shows "r = Inr () \<and> fingerprint d' = desired_state table \<and>
    (\<forall>a. fingerprint d1 a = desired_state table a \<longrightarrow> bundle_of d' a = bundle_of d1 a)"
proof -
  let ?d2 = "d1\<lparr>dm_heartbeats := safe_heartbeat (tw_hb_ok w) (tw_now w) KReconcile None WIdle None None (dm_heartbeats d1)\<rparr>"
  let ?ds = "list_syncable_accounts table"
  let ?rows = "map_of (rev (map (\<lambda>r. (acc_id r, r)) ?ds))"
  obtain p where plan: "plan_reconcile (running_fingerprints ?d2) (map (\<lambda>r. (acc_id r, acc_updated_at r)) ?ds) = p" by simp
  have "a \<in> acc_id ` set ?ds" if "desired_state table a \<noteq> None" for a
    using that unfolding desired_state_def by (auto simp: map_of_eq_None_iff image_image)
  note rows = rows_spawnable [OF assms(1,3) this]
  obtain d4 d5 where d4: "respawn_all (tw_hb_ok w) ?rows (to_respawn p) (teardown_all (tw_hb_ok w) (to_teardown p) ?d2) = (Inr (), d4)"
    and d5: "spawn_all ?rows (to_spawn p) d4 = (Inr (), d5)" and f5: "fingerprint d5 = desired_state table"
    and b5: "\<And>a. fingerprint ?d2 a = desired_state table a \<Longrightarrow> bundle_of d5 a = bundle_of ?d2 a"
    using apply_plan [OF rows plan_sets [OF plan], of "tw_hb_ok w"] by blast
  show ?thesis
  proof (cases "plan_is_empty p")
    case True
    then have "fingerprint d5 = fingerprint d1"
      using d4 d5 by (auto simp: plan_is_empty_def fingerprint_def fun_eq_iff)
    moreover have "r = Inr ()" "d' = ?d2"
      using assms(2,4-6) plan True by (auto simp: reconcile_def Let_def)
    ultimately show ?thesis using f5 by (auto simp: fingerprint_def fun_eq_iff)
  next
    case False
    then have "r = Inr ()" "d' = resize_pool cfg d5"
      using assms(2,4-6) plan d4 d5 by (auto simp: reconcile_def Let_def)
    moreover have "bundle_of (resize_pool cfg d5) = bundle_of d5"
      by (simp add: resize_pool_def split: prod.split)
    ultimately show ?thesis using f5 b5 by (auto simp: fingerprint_def fun_eq_iff)
  qed
qed

text \<open>
  C21. A reconcile converges: when the accounts table can be read, its rows can be mapped and no command stopped the
  daemon, the running threads are afterwards exactly those of the syncable accounts, each with the stamp of its row, and
  every pair that was already right has been left alone.
\<close>

theorem reconcile_converges:
  assumes "distinct (map acc_id table)" and "tw_accounts w = Some table"
    and "list_all (\<lambda>r. is_ok (account_config_from_row r)) (list_syncable_accounts table)"
    and "drain_commands (tw_drain w) d = d1" and "\<not> dm_stop d1"
    and "reconcile cfg w d = (r, d')"
  shows "r = Inr () \<and> fingerprint d' = desired_state table \<and>
    (\<forall>a. fingerprint d1 a = desired_state table a \<longrightarrow> bundle_of d' a = bundle_of d1 a)"
  using assms by (rule reconcile_lands)

theorem reconcile_converges_witness:
  "fingerprint (snd (reconcile \<lparr>dc_pool_max_size = None, dc_run_embed = True, dc_run_extract = True\<rparr>
     (sample_tick [sample_account]) (new_daemon [] [] 4))) 1 = Some 5"
proof -
  let ?w = "sample_tick [sample_account]"
  have acc: "list_syncable_accounts [sample_account] = [sample_account]"
    by (simp add: list_syncable_accounts_def sample_account_def)
  have cfg: "is_ok (account_config_from_row sample_account)"
    by (simp add: account_config_from_row_def sample_account_def)
  have drain: "drain_commands (tw_drain ?w) (new_daemon [] [] 4) = new_daemon [] [] 4"
    by (simp add: drain_commands_def sample_tick_def quiet_drain_def claim_commands_def new_daemon_def)
  have "desired_state [sample_account] 1 = Some 5"
    by (simp add: desired_state_def acc) (simp add: sample_account_def)
  with reconcile_converges [where table = "[sample_account]" and w = ?w and d = "new_daemon [] [] 4"
      and cfg = "\<lparr>dc_pool_max_size = None, dc_run_embed = True, dc_run_extract = True\<rparr>", OF _ _ _ drain _ prod.collapse [symmetric]]
  show ?thesis by (simp add: acc cfg sample_tick_def new_daemon_def)
qed

subsection \<open>No command is lost\<close>

definition same_request :: "command_row \<Rightarrow> command_row \<Rightarrow> bool" where
  "same_request c c' \<longleftrightarrow> cm_id c' = cm_id c \<and> cm_command c' = cm_command c \<and> cm_account c' = cm_account c \<and>
     cm_requested_at c' = cm_requested_at c"

text \<open>A row after the loop over the claimed commands \<open>ids\<close>: marked if it was claimed, untouched if not.\<close>

definition handled :: "int set \<Rightarrow> command_row \<Rightarrow> command_row \<Rightarrow> bool" where
  "handled ids c c' \<longleftrightarrow> (if cm_id c \<in> ids then same_request c c' \<and> cm_state c' \<noteq> Queued else c' = c)"

lemma handled_mark:
  "st \<noteq> Queued \<Longrightarrow> list_all2 (handled {cid}) cs (mark_command now cid st msg cs)"
  by (induction cs) (auto simp: mark_command_def handled_def same_request_def)

lemma handled_trans:
  "list_all2 (handled A) xs ys \<Longrightarrow> list_all2 (handled B) ys zs \<Longrightarrow> list_all2 (handled (A \<union> B)) xs zs"
proof (induction xs arbitrary: ys zs)
  case (Cons x xs)
  then obtain y ys' z zs' where [simp]: "ys = y # ys'" "zs = z # zs'" by (auto simp: list_all2_Cons1)
  have "handled (A \<union> B) x z"
    using Cons.prems by (auto simp: handled_def same_request_def split: if_splits)
  with Cons.IH [of ys' zs'] Cons.prems show ?case by simp
qed simp

lemma apply_commands_handled:
  "apply_commands w cmds view d = (Some view', d') \<Longrightarrow> list_all2 (handled (cm_id ` set cmds)) view view'"
proof (induction cmds arbitrary: view d)
  case Nil
  then show ?case by (simp add: handled_def list_all2_refl)
next
  case (Cons cmd cmds)
  obtain r d1 where ap: "apply_command (dw_hb_ok w) cmd d = (r, d1)" by fastforce
  from Cons.prems obtain st msg where
    "apply_commands w cmds (mark_command (dw_now w) (cm_id cmd) st msg view) d1 = (Some view', d')" "st \<noteq> Queued"
    by (auto simp: ap split: if_splits)
  from handled_trans [OF handled_mark [OF this(2)] Cons.IH [OF this(1)]] show ?case by simp
qed

lemma apply_commands_runs:
  "(\<And>i st. dw_mark w i st) \<Longrightarrow> \<exists>view' d'. apply_commands w cmds view d = (Some view', d')"
proof (induction cmds arbitrary: view d)
  case (Cons cmd cmds)
  obtain r d1 where "apply_command (dw_hb_ok w) cmd d = (r, d1)" by fastforce
  with Cons show ?case by simp
qed simp

lemma apply_command_keeps_stop: "dm_stop d \<Longrightarrow> dm_stop (snd (apply_command ok cmd d))"
  by (auto simp: apply_command_def teardown_account_def clear_heartbeats_of_def split: option.split)

lemma apply_commands_stop:
  "apply_commands w cmds view d = (Some view', d') \<Longrightarrow>
   dm_stop d \<or> (\<exists>c \<in> set cmds. cm_command c = ''drain-stop'') \<Longrightarrow> dm_stop d'"
proof (induction cmds arbitrary: view d)
  case (Cons cmd cmds)
  obtain r d1 where ap: "apply_command (dw_hb_ok w) cmd d = (r, d1)" by fastforce
  from Cons.prems(1) obtain view1 where run: "apply_commands w cmds view1 d1 = (Some view', d')"
    by (auto simp: ap split: if_splits)
  have "dm_stop d1 \<or> (\<exists>c \<in> set cmds. cm_command c = ''drain-stop'')"
    using Cons.prems(2) ap apply_command_keeps_stop [of d "dw_hb_ok w" cmd] by (auto simp: apply_command_def)
  with Cons.IH [OF run] show ?case by blast
qed simp

lemma apply_command_commands: "dm_commands (snd (apply_command ok cmd d)) = dm_commands d"
  by (auto simp: apply_command_def teardown_account_def clear_heartbeats_of_def split: option.split)

lemma apply_commands_commands: "dm_commands (snd (apply_commands w cmds view d)) = dm_commands d"
proof (induction cmds arbitrary: view d)
  case (Cons cmd cmds)
  obtain r d1 where "apply_command (dw_hb_ok w) cmd d = (r, d1)" by fastforce
  with Cons apply_command_commands [of "dw_hb_ok w" cmd d] show ?case by simp
qed simp

lemma claim_handled:
  assumes "claim_commands now locked cs = (claimed, view)" "list_all2 (handled (cm_id ` set claimed)) view view'"
  shows "list_all2 (handled (cm_id ` set claimed)) cs view'"
proof -
  have "list_all2 (\<lambda>c c'. if cm_id c \<in> cm_id ` set claimed then same_request c c' else c' = c) cs view"
    using assms(1) by (auto simp: claim_commands_def Let_def update_where_def list_all2_conv_all_nth same_request_def)
  with assms(2) show ?thesis
    by (auto simp: list_all2_conv_all_nth handled_def same_request_def split: if_splits)
qed

definition progress :: "command_row \<Rightarrow> command_row \<Rightarrow> bool" where
  "progress c c' \<longleftrightarrow> c' = c \<or> same_request c c' \<and> cm_state c = Queued \<and> cm_state c' \<noteq> Queued"

lemma claimed_rows:
  "claim_commands now locked cs = (claimed, view) \<Longrightarrow>
   set claimed = {c \<in> set cs. cm_state c = Queued \<and> \<not> locked (cm_id c)}"
  by (auto simp: claim_commands_def Let_def)

lemma list_all2_mono_mem:
  "list_all2 P xs ys \<Longrightarrow> (\<And>x y. P x y \<Longrightarrow> x \<in> set xs \<Longrightarrow> Q x y) \<Longrightarrow> list_all2 Q xs ys"
  by (simp add: list_all2_conv_all_nth)

lemma handled_progress:
  assumes "distinct (map cm_id cs)" "claim_commands now locked cs = (claimed, view)"
    and "list_all2 (handled (cm_id ` set claimed)) cs cs'"
  shows "list_all2 progress cs cs'"
  using assms(3)
proof (rule list_all2_mono_mem)
  show "progress c c'" if h: "handled (cm_id ` set claimed) c c'" and c: "c \<in> set cs" for c c'
  proof (cases "cm_id c \<in> cm_id ` set claimed")
    case True
    then obtain q where "q \<in> set claimed" "cm_id q = cm_id c" by auto
    then have "q = c" "cm_state q = Queued"
      using assms(1) c claimed_rows [OF assms(2)] by (auto simp: distinct_map dest: inj_onD)
    with h True show ?thesis by (simp add: handled_def progress_def)
  qed (use h in \<open>simp add: handled_def progress_def\<close>)
qed

lemma handled_settles:
  assumes "claim_commands now locked cs = (claimed, view)" "list_all2 (handled (cm_id ` set claimed)) cs cs'"
  shows "list_all (\<lambda>c. cm_state c \<noteq> Queued \<or> locked (cm_id c)) cs'"
proof -
  have "cm_state c' \<noteq> Queued \<or> locked (cm_id c')" if "c' \<in> set cs'" for c'
  proof -
    from that assms(2) obtain c where "c \<in> set cs" "handled (cm_id ` set claimed) c c'"
      by (metis in_set_conv_nth list_all2_conv_all_nth)
    then show ?thesis using claimed_rows [OF assms(1)] by (auto simp: handled_def split: if_splits)
  qed
  then show ?thesis by (simp add: list_all_iff)
qed

text \<open>
  Draining loses no command: whatever fails, the table keeps its rows and each request, and a row is either as it
  was, still queued if it was queued, or marked; and when the connection holds, every queued command nobody else holds
  is marked, and a queued drain-stop stops the daemon.
\<close>

theorem drain_loses_no_command:
  assumes ids: "distinct (map cm_id (dm_commands d))" and run: "drain_commands w d = d'"
  shows "list_all2 progress (dm_commands d) (dm_commands d') \<and>
    (dw_connect w \<and> dw_commit w \<and> (\<forall>i st. dw_mark w i st) \<longrightarrow>
      list_all (\<lambda>c. cm_state c \<noteq> Queued \<or> dw_locked w (cm_id c)) (dm_commands d') \<and>
      (list_ex (\<lambda>c. cm_state c = Queued \<and> \<not> dw_locked w (cm_id c) \<and> cm_command c = ''drain-stop'') (dm_commands d) \<longrightarrow>
         dm_stop d'))"
proof -
  have refl: "list_all2 progress cs cs" for cs by (simp add: progress_def list_all2_refl)
  obtain claimed view where claim: "claim_commands (dw_now w) (dw_locked w) (dm_commands d) = (claimed, view)" by fastforce
  obtain v d1 where app: "apply_commands w claimed view d = (v, d1)" by fastforce
  have keep: "dm_commands d1 = dm_commands d" using apply_commands_commands [of w claimed view d] app by simp
  show ?thesis
  proof (cases v)
    case None
    then have "\<not> (\<forall>i st. dw_mark w i st)" using apply_commands_runs [of w claimed view d] app by fastforce
    with run claim app None keep refl show ?thesis by (auto simp: drain_commands_def)
  next
    case (Some view')
    then have h: "list_all2 (handled (cm_id ` set claimed)) (dm_commands d) view'"
      using claim_handled [OF claim apply_commands_handled] app by blast
    have stop: "dm_stop d1" if "list_ex (\<lambda>c. cm_state c = Queued \<and> \<not> dw_locked w (cm_id c) \<and> cm_command c = ''drain-stop'') (dm_commands d)"
      using apply_commands_stop [of w claimed view d view' d1] app Some that claimed_rows [OF claim] by (auto simp: list_ex_iff)
    show ?thesis
      using run claim app Some keep refl handled_progress [OF ids claim h] handled_settles [OF claim h] stop
      by (auto simp: drain_commands_def)
  qed
qed

definition stop_request :: command_row where
  "stop_request = \<lparr>cm_id = 1, cm_command = ''drain-stop'', cm_account = None, cm_state = Queued, cm_requested_at = 3,
     cm_picked_at = None, cm_done_at = None, cm_result = None\<rparr>"

theorem drain_loses_no_command_witness:
  "list_all (\<lambda>c. cm_state c \<noteq> Queued) (dm_commands (drain_commands quiet_drain (new_daemon [stop_request] [] 4))) \<and>
   dm_stop (drain_commands quiet_drain (new_daemon [stop_request] [] 4))"
proof -
  have cs: "dm_commands (new_daemon [stop_request] [] 4) = [stop_request]" by (simp add: new_daemon_def)
  have q: "dw_connect quiet_drain" "dw_commit quiet_drain" "\<forall>i st. dw_mark quiet_drain i st"
    "dw_locked quiet_drain = (\<lambda>_. False)" by (simp_all add: quiet_drain_def)
  from drain_loses_no_command [where d = "new_daemon [stop_request] [] 4" and w = quiet_drain, OF _ refl] q cs
  show ?thesis by (simp add: stop_request_def)
qed

subsection \<open>The shutdown budget\<close>

lemma join_all_bounds:
  "now \<le> deadline \<Longrightarrow> now \<le> join_all deadline ts now \<and> join_all deadline ts now \<le> deadline"
proof (induction ts arbitrary: now)
  case (Cons t ts)
  let ?n = "join t (remaining_seconds deadline now) now"
  have "now \<le> ?n" "?n \<le> deadline"
    using Cons.prems by (auto simp: join_def remaining_seconds_def split: option.split)
  with Cons.IH [of ?n] show ?case by simp
qed simp

lemma join_all_finished:
  "now \<le> deadline \<Longrightarrow> Some t \<in> set ts \<Longrightarrow> t \<le> deadline \<Longrightarrow> t \<le> join_all deadline ts now"
proof (induction ts arbitrary: now)
  case (Cons u ts)
  let ?n = "join u (remaining_seconds deadline now) now"
  have n: "?n \<le> deadline" using Cons.prems(1) by (auto simp: join_def remaining_seconds_def split: option.split)
  show ?case
  proof (cases "u = Some t")
    case True
    then have "t \<le> ?n" using Cons.prems by (simp add: join_def remaining_seconds_def)
    with join_all_bounds [OF n, of ts] show ?thesis by simp
  next
    case False
    with Cons.IH [OF n] Cons.prems show ?thesis by auto
  qed
qed simp

text \<open>
  C23. Winding down any number of threads takes at most the grace period in total; every thread that ends within it has
  ended when the last join returns; what is left over is reported exactly; and the supervisor would
  kill only later still.
\<close>

theorem wind_down_within_grace:
  assumes "0 \<le> grace" and "wind_down_threads threads grace now = (end_time, left)"
  shows "now \<le> end_time \<and> end_time \<le> now + grace \<and> left = now + grace - end_time \<and>
    end_time < now + supervisor_kill_after grace \<and>
    (\<forall>t. Some t \<in> set threads \<longrightarrow> t \<le> now + grace \<longrightarrow> t \<le> end_time)"
proof -
  have e: "end_time = join_all (now + grace) threads now" "left = remaining_seconds (now + grace) end_time"
    using assms(2) by (auto simp: wind_down_threads_def Let_def)
  have "now \<le> end_time" "end_time \<le> now + grace"
    using join_all_bounds [of now "now + grace" threads] assms(1) e(1) by simp_all
  then show ?thesis
    using join_all_finished [of now "now + grace"] assms(1) e
    by (auto simp: remaining_seconds_def supervisor_kill_after_def supervisor_kill_margin_def)
qed

theorem wind_down_within_grace_witness:
  "fst (wind_down_threads [Some 5, None, Some 8] 10 0) \<le> 10 \<and> 8 \<le> fst (wind_down_threads [Some 5, None, Some 8] 10 0)"
  using wind_down_within_grace [of 10 "[Some 5, None, Some 8]" 0, OF _ prod.collapse [symmetric]] by simp

subsection \<open>Retrying\<close>

lemma retry_succeeds:
  "op k = Inr x \<Longrightarrow> (\<And>j. i \<le> j \<Longrightarrow> j < k \<Longrightarrow> op j = Inl OtherError) \<Longrightarrow> (\<And>j. j \<le> k \<Longrightarrow> \<not> is_set j) \<Longrightarrow>
   (\<And>j s. j < k \<Longrightarrow> \<not> wait j s) \<Longrightarrow> i \<le> k \<Longrightarrow> k - i < n \<Longrightarrow> backoff \<le> bound \<Longrightarrow> max_s \<le> bound \<Longrightarrow>
   \<exists>ws. retry_with_backoff op is_set wait factor max_s n i backoff waits = Some (Inr x, waits @ ws) \<and>
     length ws = k - i \<and> list_all (\<lambda>s. s \<le> bound) ws"
proof (induction n arbitrary: i backoff waits)
  case (Suc n)
  show ?case
  proof (cases "i = k")
    case True
    with Suc.prems show ?thesis by simp
  next
    case False
    then have "i < k" using Suc.prems by simp
    then have "\<exists>ws. retry_with_backoff op is_set wait factor max_s n (Suc i) (next_backoff backoff factor max_s) (waits @ [backoff]) =
        Some (Inr x, (waits @ [backoff]) @ ws) \<and> length ws = k - Suc i \<and> list_all (\<lambda>s. s \<le> bound) ws"
      using Suc.prems by (intro Suc.IH) (auto simp: next_backoff_def)
    then obtain ws where "retry_with_backoff op is_set wait factor max_s n (Suc i) (next_backoff backoff factor max_s) (waits @ [backoff]) =
        Some (Inr x, waits @ backoff # ws)" "length ws = k - Suc i" "list_all (\<lambda>s. s \<le> bound) ws" by auto
    then show ?thesis
      using Suc.prems \<open>i < k\<close> by (intro exI [of _ "backoff # ws"]) auto
  qed
qed simp

text \<open>
  Starting up waits for the database: if the operation succeeds at some attempt and nothing stops the daemon before, the
  retry returns its result after exactly the failed attempts, and no wait is longer than the larger of the
  initial delay and the maximum.
\<close>

theorem retry_waits_for_success:
  assumes "op k = Inr x" "\<And>j. j < k \<Longrightarrow> op j = Inl OtherError" "\<And>j. j \<le> k \<Longrightarrow> \<not> is_set j" "\<And>j s. j < k \<Longrightarrow> \<not> wait j s"
  shows "\<exists>ws. retry_with_backoff op is_set wait factor max_s (Suc k) 0 initial [] = Some (Inr x, ws) \<and>
    length ws = k \<and> list_all (\<lambda>s. s \<le> max initial max_s) ws"
  using retry_succeeds [of op k x 0 is_set wait "Suc k" initial "max initial max_s" max_s factor "[]"] assms by simp

theorem retry_waits_for_success_witness:
  "\<exists>ws. retry_with_backoff (\<lambda>i. if i < 2 then Inl OtherError else Inr (7 :: int)) (\<lambda>_. False) (\<lambda>_ _. False) 2 60 (Suc 2) 0 1 [] =
     Some (Inr 7, ws) \<and> length ws = 2 \<and> list_all (\<lambda>s. s \<le> max 1 60) ws"
  by (rule retry_waits_for_success) auto

subsection \<open>IDLE is renewed in time\<close>

definition idle_inv :: "int \<Rightarrow> idle_state \<Rightarrow> bool" where
  "idle_inv renew s \<longleftrightarrow> is_renew_at s = is_issued s + renew \<and> is_issued s \<le> is_now s \<and>
     (is_now s = is_issued s \<or> is_now s \<le> is_renew_at s - renew_guard_seconds)"

definition idle_world_ok :: "int \<Rightarrow> idle_world \<Rightarrow> bool" where
  "idle_world_ok pause w \<longleftrightarrow> 0 \<le> iw_pause w \<and> iw_pause w \<le> pause \<and> 0 \<le> iw_wait w \<and> 0 \<le> iw_work w"

lemma at_check_bound:
  assumes "idle_inv renew s" "idle_world_ok pause w" "pause \<le> renew_guard_seconds - one_second"
  shows "is_now s \<le> at_check w s" "at_check w s - is_issued s \<le> max (pause + one_second) renew"
  using assms
  unfolding idle_inv_def idle_world_ok_def at_check_def idle_check_timeout_def renew_guard_seconds_def one_second_def
    heartbeat_seconds_def Let_def by (auto simp: min_def max_def split: if_splits)

lemma idle_inv_step:
  "idle_inv renew s \<Longrightarrow> idle_world_ok pause w \<Longrightarrow> pause \<le> renew_guard_seconds - one_second \<Longrightarrow> \<not> iw_stop w \<Longrightarrow>
   idle_inv renew (idle_step renew w s)"
  using at_check_bound(1) [of renew s pause w]
  by (auto simp: idle_step_def idle_inv_def Let_def)

fun idle_run :: "int \<Rightarrow> idle_world list \<Rightarrow> idle_state \<Rightarrow> idle_state" where
  "idle_run renew [] s = s"
| "idle_run renew (w # ws) s = idle_run renew ws (idle_step renew w s)"

lemma idle_run_inv:
  "idle_inv renew s \<Longrightarrow> list_all (\<lambda>w. idle_world_ok pause w \<and> \<not> iw_stop w) ws \<Longrightarrow> pause \<le> renew_guard_seconds - one_second \<Longrightarrow>
   idle_inv renew (idle_run renew ws s)"
  by (induction ws arbitrary: s) (auto intro: idle_inv_step)

text \<open>
  No IDLE outlives the server's limit: as long as a heartbeat write takes at most four seconds, every wait of
  the IDLE loop ends, and with it the chance to renew comes, within the configured renewal time (or five
  seconds, if that is longer) of the command that started it.
\<close>

theorem idle_renewed_in_time:
  assumes "list_all (\<lambda>w. idle_world_ok (renew_guard_seconds - one_second) w \<and> \<not> iw_stop w) ws"
    and "idle_world_ok (renew_guard_seconds - one_second) w"
    and "s = idle_run renew ws \<lparr>is_now = t, is_issued = t, is_renew_at = t + renew\<rparr>"
    and "renew \<le> rfc2177_idle_limit"
  shows "at_check w s - is_issued s \<le> max renew_guard_seconds renew \<and> at_check w s - is_issued s \<le> rfc2177_idle_limit"
proof -
  have "idle_inv renew \<lparr>is_now = t, is_issued = t, is_renew_at = t + renew\<rparr>" by (simp add: idle_inv_def)
  from idle_run_inv [OF this assms(1) order_refl] assms(3) have "idle_inv renew s" by simp
  from at_check_bound(2) [OF this assms(2) order_refl] assms(4) show ?thesis
    by (simp add: renew_guard_seconds_def one_second_def rfc2177_idle_limit_def)
qed

definition idle_tick :: idle_world where
  "idle_tick = \<lparr>iw_pause = 100, iw_wait = 40000000, iw_stop = False, iw_responses = False, iw_work = 0\<rparr>"

theorem idle_renewed_in_time_witness:
  "at_check idle_tick (idle_run 600000000 [idle_tick, idle_tick] \<lparr>is_now = 0, is_issued = 0, is_renew_at = 0 + 600000000\<rparr>) -
     is_issued (idle_run 600000000 [idle_tick, idle_tick] \<lparr>is_now = 0, is_issued = 0, is_renew_at = 0 + 600000000\<rparr>) \<le> rfc2177_idle_limit"
proof -
  have "idle_world_ok (renew_guard_seconds - one_second) idle_tick" "\<not> iw_stop idle_tick"
    by (simp_all add: idle_world_ok_def idle_tick_def renew_guard_seconds_def one_second_def)
  moreover have "(600000000 :: int) \<le> rfc2177_idle_limit" by (simp add: rfc2177_idle_limit_def one_second_def)
  ultimately show ?thesis using idle_renewed_in_time [of "[idle_tick, idle_tick]" idle_tick _ 600000000 0, OF _ _ refl] by simp
qed

subsection \<open>Heartbeats\<close>

definition hb_key :: "heartbeat \<Rightarrow> worker_kind \<times> int option" where
  "hb_key h = (hb_kind h, hb_account h)"

lemma record_heartbeat_keys:
  "map hb_key (record_heartbeat now k a st f e hs) = (if (k, a) \<in> hb_key ` set hs then map hb_key hs else map hb_key hs @ [(k, a)])"
proof -
  have "list_ex (\<lambda>h. hb_kind h = k \<and> hb_account h = a) hs \<longleftrightarrow> (k, a) \<in> hb_key ` set hs"
    by (force simp: list_ex_iff hb_key_def)
  moreover have "map hb_key (update_where (\<lambda>h. hb_kind h = k \<and> hb_account h = a)
      (\<lambda>h. h\<lparr>hb_state := st, hb_folder := f, hb_error := e, hb_last_at := now\<rparr>) hs) = map hb_key hs"
    by (rule map_update_where) (simp add: hb_key_def)
  ultimately show ?thesis by (simp add: record_heartbeat_def Let_def hb_key_def)
qed

datatype hb_event = Beat bool instant worker_kind "int option" worker_state "string option" "string option"
  | ClearAccount int | ClearAll

fun hb_step :: "hb_event \<Rightarrow> heartbeat list \<Rightarrow> heartbeat list" where
  "hb_step (Beat ok now k a st f e) hs = safe_heartbeat ok now k a st f e hs"
| "hb_step (ClearAccount a) hs = clear_account_heartbeats a hs"
| "hb_step ClearAll hs = clear_all_heartbeats hs"

lemma hb_step_distinct: "distinct (map hb_key hs) \<Longrightarrow> distinct (map hb_key (hb_step ev hs))"
  by (cases ev) (auto simp: safe_heartbeat_def record_heartbeat_keys clear_account_heartbeats_def clear_all_heartbeats_def
      distinct_map_filter)

lemma status_rows: "h \<in> set hs \<Longrightarrow> (h, stale_after < now - hb_last_at h) \<in> set (get_daemon_status now stale_after hs)"
  by (cases "hb_account h") (auto simp: get_daemon_status_def)

text \<open>
  Whatever the workers write and the daemon clears, there is one row per worker; a beat that is written makes its
  worker read as alive, however long the stale period, and keeps the time it started; a cleared account has no row.
\<close>

theorem heartbeats_one_row_per_worker:
  "distinct (map hb_key (fold hb_step evs [])) \<and>
   list_ex (\<lambda>(h, stale). hb_key h = (k, a) \<and> hb_state h = st \<and> \<not> stale)
     (get_daemon_status now (int n) (hb_step (Beat True now k a st f e) (fold hb_step evs []))) \<and>
   list_all (\<lambda>h. hb_account h \<noteq> Some b) (hb_step (ClearAccount b) (fold hb_step evs []))"
proof -
  let ?hs = "fold hb_step evs []"
  have d: "distinct (map hb_key (fold hb_step evs hs))" if "distinct (map hb_key hs)" for hs
    using that by (induction evs arbitrary: hs) (auto intro: hb_step_distinct)
  have "\<exists>h \<in> set (record_heartbeat now k a st f e ?hs). hb_key h = (k, a) \<and> hb_state h = st \<and> hb_last_at h = now"
  proof (cases "list_ex (\<lambda>h. hb_kind h = k \<and> hb_account h = a) ?hs")
    case True
    then obtain h where "h \<in> set ?hs" "hb_kind h = k" "hb_account h = a" by (auto simp: list_ex_iff)
    then show ?thesis
      using True by (intro bexI [of _ "h\<lparr>hb_state := st, hb_folder := f, hb_error := e, hb_last_at := now\<rparr>"])
        (auto simp: record_heartbeat_def hb_key_def set_update_where)
  qed (simp add: record_heartbeat_def hb_key_def)
  then have "\<exists>h \<in> set (hb_step (Beat True now k a st f e) ?hs). hb_key h = (k, a) \<and> hb_state h = st \<and> hb_last_at h = now"
    by (simp add: safe_heartbeat_def)
  then obtain h where "h \<in> set (hb_step (Beat True now k a st f e) ?hs)" "hb_key h = (k, a)" "hb_state h = st"
    "hb_last_at h = now" by blast
  then have "list_ex (\<lambda>(h, stale). hb_key h = (k, a) \<and> hb_state h = st \<and> \<not> stale)
      (get_daemon_status now (int n) (hb_step (Beat True now k a st f e) ?hs))"
    unfolding list_ex_iff using status_rows [where h = h and now = now and stale_after = "int n"] by (intro bexI) (auto simp del: hb_step.simps)
  with d [of "[]"] show ?thesis by (simp add: clear_account_heartbeats_def list_all_iff del: hb_step.simps(1))
qed

text \<open>The poll thread beats at most \<open>HEARTBEAT_SECONDS\<close> apart while it waits, whatever the poll interval.\<close>

lemma wait_beats_hd: "fst (wait_between_passes deadline stop now) \<noteq> [] \<and> hd (fst (wait_between_passes deadline stop now)) = now"
  by (simp add: wait_between_passes.simps [of deadline stop now] Let_def split: prod.split option.split)

fun gaps_within :: "int \<Rightarrow> int list \<Rightarrow> bool" where
  "gaps_within g (x # y # ys) \<longleftrightarrow> y - x \<le> g \<and> gaps_within g (y # ys)"
| "gaps_within g _ \<longleftrightarrow> True"

theorem poll_wait_keeps_beating:
  "gaps_within heartbeat_seconds (fst (wait_between_passes deadline stop now))"
proof (induction deadline stop now rule: wait_between_passes.induct)
  case (1 deadline stop now)
  let ?next = "now + min heartbeat_seconds (deadline - now)"
  obtain beats stopped where rec: "wait_between_passes deadline stop ?next = (beats, stopped)" by fastforce
  have hd: "beats \<noteq> []" "hd beats = ?next" using wait_beats_hd [of deadline stop ?next] rec by simp_all
  then obtain bs where bs: "beats = ?next # bs" by (cases beats) auto
  have step: "gaps_within heartbeat_seconds (now # beats)" if "gaps_within heartbeat_seconds beats"
    using that by (simp add: bs)
  show ?case
    using "1.IH" [OF refl _ refl] rec step by (subst wait_between_passes.simps) (auto simp: Let_def)
qed

subsection \<open>Pool and folders\<close>

text \<open>
  A pool sized by the daemon has a slot for every thread and the configured headroom, and its lower bound never
  exceeds its upper one, whether the operator pinned the size or not.
\<close>

theorem pool_fits_threads:
  "fst (pool_sizes cfg n) \<le> snd (pool_sizes cfg n) \<and>
   (dc_pool_max_size cfg = None \<longrightarrow>
      2 * n + (if dc_run_embed cfg then 1 else 0) + (if dc_run_extract cfg then 1 else 0) + pool_headroom \<le> snd (pool_sizes cfg n))"
  by (auto simp: pool_sizes_def Let_def compute_daemon_pool_size_def slots_per_account_def split: option.split)

lemma poll_folders_visited:
  "poll_folders env im acct stop i fs visited c = (r, visited', c') \<Longrightarrow> inbox \<notin> set visited \<Longrightarrow>
   inbox \<notin> set visited' \<and> set visited' \<subseteq> set visited \<union> fst ` set fs"
proof (induction fs arbitrary: i visited c)
  case (Cons x fs)
  obtain name delim flags where x: "x = (name, delim, flags)" by (cases x)
  obtain s c1 where sf: "sync_folder env im acct name delim flags c = (s, c1)" by fastforce
  show ?case
  proof (cases "stop i \<or> name = inbox")
    case True
    with Cons x show ?thesis by (fastforce split: if_splits)
  next
    case False
    with Cons.prems Cons.IH [of "Suc i" "visited @ [name]" c1] x sf show ?thesis by (cases s) auto
  qed
qed simp

text \<open>The poll thread never enters the INBOX, which belongs to the IDLE thread, and enters only folders the filter selects.\<close>

theorem poll_leaves_inbox:
  assumes "one_poll_pass env (Inr im) cfg acct stop c = (r, visited, c')" "im_list_folders im = Inr folders"
  shows "inbox \<notin> set visited \<and>
    set visited \<subseteq> fst ` set (folders_to_sync folders (folder_allow cfg) (folder_deny cfg) (folder_deny_flags cfg))"
  using assms poll_folders_visited [of env im acct stop 0 _ "[]" c r visited c'] by (simp add: one_poll_pass_def)

end
