(* ===== verification/Chunking.thy ===== *)
theory Chunking
  imports Extract
begin

text \<open>
  What the embedding worker does to a text before any model sees it: \<open>search/chunking.py\<close>
  (quoted replies, signatures, white space, token windows), \<open>search/lang_text.py\<close>, and the two
  pacing rules \<open>search/sweep_pacing.py\<close> and \<open>search/failure_pacing.py\<close>.

  Texts are over the characters U+0000 to U+00FF, as in \<open>PyStr\<close>. The tokenizer (tiktoken) is a
  parameter: \<open>encode\<close> may raise, as it does on a text that spells one of its special tokens.
\<close>

abbreviation newline :: char where "newline \<equiv> CHR 0x0A"

subsection \<open>The regular expressions\<close>

text \<open>
  The patterns are sequences of items over one character each, with the two anchors of
  \<open>re.MULTILINE\<close>. Whether a pattern matches at a position does not depend on greediness, so
  \<open>rx_match\<close> asks for a match of any length; its second argument says whether the position is at
  the start of a line. A dot is any character but a newline, \<open>\\s\<close> is \<open>is_space\<close>, and under
  \<open>re.IGNORECASE\<close> letters are compared in lower case.
\<close>

datatype rx_item = One "char \<Rightarrow> bool" | Plus "char \<Rightarrow> bool" | Star "char \<Rightarrow> bool" | Bol | Eol

function rx_match :: "rx_item list \<Rightarrow> bool \<Rightarrow> string \<Rightarrow> bool" where
  "rx_match [] bol s = True"
| "rx_match (One p # r) bol s =
     (case s of [] \<Rightarrow> False | c # cs \<Rightarrow> p c \<and> rx_match r (c = newline) cs)"
| "rx_match (Plus p # r) bol s =
     (case s of [] \<Rightarrow> False
      | c # cs \<Rightarrow> p c \<and> (rx_match r (c = newline) cs \<or> rx_match (Plus p # r) (c = newline) cs))"
| "rx_match (Star p # r) bol s =
     (rx_match r bol s \<or>
      (case s of [] \<Rightarrow> False | c # cs \<Rightarrow> p c \<and> rx_match (Star p # r) (c = newline) cs))"
| "rx_match (Bol # r) bol s = (bol \<and> rx_match r bol s)"
| "rx_match (Eol # r) bol s = ((s = [] \<or> hd s = newline) \<and> rx_match r bol s)"
  by pat_completeness auto
termination
  by (relation "measures [\<lambda>(r, bol, s). length s, \<lambda>(r, bol, s). length r]") auto

text \<open>\<open>pattern.search(s)\<close>: the leftmost position with a match, counted from \<open>i\<close>.\<close>

fun rx_search :: "rx_item list \<Rightarrow> bool \<Rightarrow> nat \<Rightarrow> string \<Rightarrow> nat option" where
  "rx_search r bol i s =
     (if rx_match r bol s then Some i
      else (case s of [] \<Rightarrow> None | c # cs \<Rightarrow> rx_search r (c = newline) (Suc i) cs))"

declare rx_search.simps [simp del]

definition lit :: "string \<Rightarrow> rx_item list" where
  "lit s = map (\<lambda>c. One (\<lambda>x. x = c)) s"

definition ilit :: "string \<Rightarrow> rx_item list" where
  "ilit s = map (\<lambda>c. One (\<lambda>x. lower_char x = lower_char c)) s"

definition dot :: "char \<Rightarrow> bool" where "dot c \<longleftrightarrow> c \<noteq> newline"

definition quote_header_patterns :: "rx_item list list" where
  "quote_header_patterns =
     [[Bol] @ ilit ''On '' @ [Plus dot] @ ilit '','' @ [One is_space, Plus dot, One is_space] @ ilit ''wrote:'' @
        [Star is_space, Eol],
      [Bol] @ ilit ''Am '' @ [Plus dot, One is_space] @ ilit ''schrieb'' @ [One is_space, Plus dot] @ ilit '':'' @
        [Star is_space, Eol],
      [Bol] @ ilit ''El '' @ [Plus dot] @ ilit '','' @ [One is_space, Plus dot, One is_space] @ ilit ''escribi'' @
        [One (\<lambda>x. lower_char x = CHR ''o'' \<or> lower_char x = CHR 0xF3)] @ ilit '':'' @ [Star is_space, Eol],
      [Bol] @ ilit ''-----'' @ [Star is_space] @ ilit ''Original Message'' @ [Star is_space] @ ilit ''-----'' @
        [Star is_space, Eol],
      [Bol] @ lit ''From:'' @ [Plus dot, One (\<lambda>x. x = newline)] @ lit ''Sent:'' @ [Plus dot, One (\<lambda>x. x = newline)] @
        lit ''To:'' @ [Plus dot]]"

definition signature_delim :: "rx_item list list" where
  "signature_delim = [[Bol] @ lit ''--'' @ [Eol], [Bol] @ lit ''-- '' @ [Eol]]"

text \<open>The least start over several patterns, \<open>None\<close> when none matches.\<close>

fun earliest :: "rx_item list list \<Rightarrow> string \<Rightarrow> nat option" where
  "earliest [] s = None"
| "earliest (p # ps) s =
     (case (rx_search p True 0 s, earliest ps s) of
        (None, b) \<Rightarrow> b
      | (Some a, None) \<Rightarrow> Some a
      | (Some a, Some b) \<Rightarrow> Some (min a b))"

definition cut_at :: "nat option \<Rightarrow> string \<Rightarrow> string" where
  "cut_at i s = (case i of None \<Rightarrow> s | Some n \<Rightarrow> take n s)"

text \<open>
  \<open>_ARROW_QUOTE_LINE.sub("", s)\<close>: from the start of a line, white space (line breaks included),
  an arrow, and the rest of that line. The white space before the arrow is maximal because the
  arrow is none. The position after a match is not at the start of a line.
\<close>

function sub_arrow_lines :: "bool \<Rightarrow> string \<Rightarrow> string" where
  "sub_arrow_lines bol [] = []"
| "sub_arrow_lines bol (c # cs) =
     (case dropWhile is_space (c # cs) of
        d # ds \<Rightarrow>
          if bol \<and> d = CHR ''>'' then sub_arrow_lines False (dropWhile dot ds)
          else c # sub_arrow_lines (c = newline) cs
      | [] \<Rightarrow> c # sub_arrow_lines (c = newline) cs)"
  by pat_completeness auto
termination
proof (relation "measure (\<lambda>(bol, s). length s)")
  fix bol c cs d ds
  assume "dropWhile is_space (c # cs) = d # ds"
  then have "length (d # ds) \<le> length (c # cs)"
    by (metis length_dropWhile_le)
  moreover have "length (dropWhile dot ds) \<le> length ds" by (rule length_dropWhile_le)
  ultimately show "((False, dropWhile dot ds), bol, c # cs) \<in> measure (\<lambda>(bol, s). length s)"
    by simp
qed auto

definition strip_quoted_replies :: "string \<Rightarrow> string" where
  "strip_quoted_replies body = sub_arrow_lines True (cut_at (earliest quote_header_patterns body) body)"

definition strip_signature :: "string \<Rightarrow> string" where
  "strip_signature body = cut_at (earliest signature_delim body) body"

subsection \<open>White space\<close>

text \<open>\<open>str.splitlines\<close>: a carriage return and the line feed after it are one break, and a final break ends no empty line.\<close>

definition is_line_break :: "char \<Rightarrow> bool" where
  "is_line_break c \<longleftrightarrow> ord c \<in> {10, 11, 12, 13, 28, 29, 30, 133}"

definition after_break :: "char \<Rightarrow> string \<Rightarrow> string" where
  "after_break c cs = (if ord c = 13 \<and> cs \<noteq> [] \<and> hd cs = newline then tl cs else cs)"

function splitlines :: "string \<Rightarrow> string list" where
  "splitlines s =
     (if s = [] then []
      else takeWhile (\<lambda>c. \<not> is_line_break c) s #
        (case dropWhile (\<lambda>c. \<not> is_line_break c) s of
           [] \<Rightarrow> []
         | c # cs \<Rightarrow> splitlines (after_break c cs)))"
  by pat_completeness auto
termination
proof (relation "measure length")
  fix s c and cs :: string
  assume "dropWhile (\<lambda>c. \<not> is_line_break c) s = c # cs"
  then have "length (c # cs) \<le> length s" by (metis length_dropWhile_le)
  then show "(after_break c cs, s) \<in> measure length" by (auto simp: after_break_def)
qed simp

declare splitlines.simps [simp del]

definition is_inline_space :: "char \<Rightarrow> bool" where
  "is_inline_space c \<longleftrightarrow> c = CHR '' '' \<or> ord c = 9"

text \<open>\<open>re.sub("[ \\t]+", " ", line)\<close> and \<open>re.sub("\\s+", " ", s)\<close>: each maximal run becomes one blank.\<close>

fun collapse :: "(char \<Rightarrow> bool) \<Rightarrow> bool \<Rightarrow> string \<Rightarrow> string" where
  "collapse p in_run [] = []"
| "collapse p in_run (c # cs) =
     (if p c then (if in_run then [] else '' '') @ collapse p True cs else c # collapse p False cs)"

text \<open>\<open>re.sub("\\n{3,}", "\\n\\n", s)\<close>, with the number of line feeds just written.\<close>

fun collapse_newlines :: "nat \<Rightarrow> string \<Rightarrow> string" where
  "collapse_newlines n [] = []"
| "collapse_newlines n (c # cs) =
     (if c = newline then (if n < 2 then [c] else []) @ collapse_newlines (Suc n) cs
      else c # collapse_newlines 0 cs)"

fun str_join :: "string \<Rightarrow> string list \<Rightarrow> string" where
  "str_join sep [] = []"
| "str_join sep [x] = x"
| "str_join sep (x # y # ys) = x @ sep @ str_join sep (y # ys)"

definition normalize_whitespace :: "string \<Rightarrow> string" where
  "normalize_whitespace text =
     (let lines = map (\<lambda>line. strip (collapse is_inline_space False line)) (splitlines text);
          joined = str_join [newline] lines
      in strip (collapse_newlines 0 joined))"

subsection \<open>Token windows and chunks\<close>

text \<open>An exception: the name of its type, the classes it is an instance of, and \<open>str(exc)\<close>.\<close>

datatype werr = WErr (we_name: string) (we_classes: "pyclass list") (we_message: string)

definition is_contention :: "werr \<Rightarrow> bool" where
  "is_contention e \<longleftrightarrow> list_ex (\<lambda>c. c \<in> set db_contention_errors) (we_classes e)"

definition value_error :: "string \<Rightarrow> werr" where
  "value_error msg = WErr ''ValueError'' [] msg"

record tokenizer =
  tk_encode :: "string \<Rightarrow> werr + nat list"
  tk_decode :: "nat list \<Rightarrow> string"
  tk_isoformat :: "instant \<Rightarrow> string"

record chunk_cfg =
  cc_size :: int
  cc_overlap :: int
  cc_strip_quoted_replies :: bool
  cc_strip_signatures :: bool
  cc_max_chars :: int

text \<open>
  The loop over \<open>range(0, len(tokens), step)\<close>, on the tokens from \<open>start\<close> on. A step of zero, which
  \<open>range\<close> refuses, is excluded by the caller's check.
\<close>

function windows :: "nat \<Rightarrow> nat \<Rightarrow> 'a list \<Rightarrow> 'a list list" where
  "windows sz step ts =
     (if ts = [] \<or> step = 0 then []
      else take sz ts # (if length ts \<le> sz then [] else windows sz step (drop step ts)))"
  by pat_completeness auto
termination
  by (relation "measure (\<lambda>(sz, step, ts). length ts)") auto

declare windows.simps [simp del]

definition split_by_tokens :: "tokenizer \<Rightarrow> string \<Rightarrow> int \<Rightarrow> int \<Rightarrow> werr + string list" where
  "split_by_tokens tk text sz overlap =
     (if sz \<le> 0 then Inl (value_error ''size must be > 0'')
      else if overlap < 0 \<or> sz \<le> overlap then Inl (value_error ''overlap must be in [0, size)'')
      else bindr (tk_encode tk text) (\<lambda>tokens.
        if int (length tokens) \<le> sz then Inr (if text \<noteq> [] then [text] else [])
        else Inr (map (tk_decode tk) (windows (nat sz) (nat (sz - overlap)) tokens))))"

datatype chunk_kind = HeaderChunk | BodyChunk | AttachmentChunk

record chunk_spec =
  cs_kind :: chunk_kind
  cs_idx :: nat
  cs_text :: string
  cs_token_count :: nat

record message_row =
  ck_subject :: "string option"
  ck_from_addr :: "string option"
  ck_from_name :: "string option"
  ck_to_addrs :: "string list option"
  ck_date :: "instant option"
  ck_body_text :: "string option"

definition header_body_intro_tokens :: nat where "header_body_intro_tokens = 200"

text \<open>An f-string renders \<open>None\<close> as the word.\<close>

definition fmt_opt :: "string option \<Rightarrow> string" where
  "fmt_opt s = (case s of None \<Rightarrow> ''None'' | Some t \<Rightarrow> t)"

definition header_who :: "message_row \<Rightarrow> string" where
  "header_who m =
     (if or_empty (ck_from_name m) \<noteq> []
      then fmt_opt (ck_from_name m) @ '' <'' @ fmt_opt (ck_from_addr m) @ ''>''
      else or_empty (ck_from_addr m))"

definition header_text :: "tokenizer \<Rightarrow> message_row \<Rightarrow> string \<Rightarrow> werr + string" where
  "header_text tk m body_for_intro =
     (let subject = (if or_empty (ck_subject m) \<noteq> [] then [''Subject: '' @ or_empty (ck_subject m)] else []);
          sender = (if or_empty (ck_from_name m) \<noteq> [] \<or> or_empty (ck_from_addr m) \<noteq> []
                    then [''From: '' @ strip (header_who m)] else []);
          to = (case ck_to_addrs m of None \<Rightarrow> [] | Some ts \<Rightarrow> if ts = [] then [] else [''To: '' @ str_join '', '' ts]);
          date = (case ck_date m of None \<Rightarrow> [] | Some d \<Rightarrow> [''Date: '' @ tk_isoformat tk d])
      in bindr (tk_encode tk body_for_intro) (\<lambda>tokens.
           let intro_tokens = take header_body_intro_tokens tokens;
               intro = (if intro_tokens \<noteq> [] then [tk_decode tk intro_tokens] else [])
           in Inr (str_join '' | '' (subject @ sender @ to @ date @ intro))))"

text \<open>\<open>ChunkSpec\<close>s for consecutive pieces; \<open>_ENC.encode(piece)\<close> may raise like any other.\<close>

fun specs_from :: "tokenizer \<Rightarrow> chunk_kind \<Rightarrow> nat \<Rightarrow> string list \<Rightarrow> werr + chunk_spec list" where
  "specs_from tk kind idx [] = Inr []"
| "specs_from tk kind idx (p # ps) =
     bindr (tk_encode tk p) (\<lambda>tokens. bindr (specs_from tk kind (Suc idx) ps) (\<lambda>rest.
       Inr (\<lparr>cs_kind = kind, cs_idx = idx, cs_text = p, cs_token_count = length tokens\<rparr> # rest)))"

text \<open>\<open>text[:n]\<close> for any integer.\<close>

definition prefix_slice :: "int \<Rightarrow> string \<Rightarrow> string" where
  "prefix_slice n s = take (nat (if n < 0 then int (length s) + n else n)) s"

definition chunk_attachment_text :: "tokenizer \<Rightarrow> chunk_cfg \<Rightarrow> string \<Rightarrow> werr + chunk_spec list" where
  "chunk_attachment_text tk cfg text =
     (let t = normalize_whitespace text in
      if t = [] then Inr []
      else
        (let t1 = (if cc_max_chars cfg < int (length t)
                   then prefix_slice (cc_max_chars cfg) t @ newline # ''[truncated]'' else t)
         in bindr (split_by_tokens tk t1 (cc_size cfg) (cc_overlap cfg)) (specs_from tk AttachmentChunk 0)))"

definition chunk_message :: "tokenizer \<Rightarrow> chunk_cfg \<Rightarrow> message_row \<Rightarrow> werr + chunk_spec list" where
  "chunk_message tk cfg m =
     (let raw = or_empty (ck_body_text m);
          raw1 = (if cc_strip_quoted_replies cfg then strip_quoted_replies raw else raw);
          raw2 = (if cc_strip_signatures cfg then strip_signature raw1 else raw1);
          body = normalize_whitespace raw2
      in bindr (header_text tk m body) (\<lambda>ht. bindr (specs_from tk HeaderChunk 0 [ht]) (\<lambda>header.
           bindr (if body \<noteq> [] then tk_encode tk body else Inr []) (\<lambda>body_tokens.
             if length body_tokens \<le> header_body_intro_tokens then Inr header
             else bindr (split_by_tokens tk (tk_decode tk (drop header_body_intro_tokens body_tokens))
                           (cc_size cfg) (cc_overlap cfg)) (\<lambda>pieces.
                    bindr (specs_from tk BodyChunk 0 pieces) (\<lambda>rest. Inr (header @ rest)))))))"

subsection \<open>What the language detector may see\<close>

definition istartswith :: "string \<Rightarrow> string \<Rightarrow> bool" where
  "istartswith s p \<longleftrightarrow> startswith (lower s) p"

definition url_prefix :: "string \<Rightarrow> nat option" where
  "url_prefix s =
     (if istartswith s ''https://'' then Some 8
      else if istartswith s ''http://'' then Some 7
      else if istartswith s ''www.'' then Some 4 else None)"

text \<open>\<open>_URL_RE.sub(" ", s)\<close>.\<close>

function sub_urls :: "string \<Rightarrow> string" where
  "sub_urls [] = []"
| "sub_urls (c # cs) =
     (case url_prefix (c # cs) of
        None \<Rightarrow> c # sub_urls cs
      | Some n \<Rightarrow>
          (case drop n (c # cs) of
             [] \<Rightarrow> c # sub_urls cs
           | d # ds \<Rightarrow> if is_space d then c # sub_urls cs
                      else CHR '' '' # sub_urls (dropWhile (\<lambda>x. \<not> is_space x) ds)))"
  by pat_completeness auto
termination
proof (relation "measure length")
  fix c and cs :: string and n d and ds :: string
  assume "drop n (c # cs) = d # ds"
  then have "length (d # ds) \<le> length (c # cs)" by (metis length_drop diff_le_self)
  moreover have "length (dropWhile (\<lambda>x. \<not> is_space x) ds) \<le> length ds" by (rule length_dropWhile_le)
  ultimately show "(dropWhile (\<lambda>x. \<not> is_space x) ds, c # cs) \<in> measure length" by simp
qed auto

definition normalize_for_detection :: "string \<Rightarrow> string" where
  "normalize_for_detection text = strip (collapse is_space False (sub_urls text))"

subsection \<open>Pacing\<close>

record sweep_outcome =
  so_embedded :: int
  so_lang_visited :: int

definition made_progress :: "sweep_outcome \<Rightarrow> bool" where
  "made_progress o1 \<longleftrightarrow> so_embedded o1 > 0 \<or> so_lang_visited o1 > 0"

definition next_idle_streak :: "int \<Rightarrow> bool \<Rightarrow> int \<Rightarrow> int" where
  "next_idle_streak streak progress max_steps =
     (if progress then 0 else max 0 (min (streak + 1) max_steps))"

text \<open>In the unit of the poll interval.\<close>

definition sweep_sleep_seconds :: "int \<Rightarrow> int \<Rightarrow> int" where
  "sweep_sleep_seconds streak poll_interval = poll_interval * (1 + streak)"

record reported_failure =
  rf_exc_name :: string
  rf_reported_at :: int
  rf_since_report :: nat

record failure_report =
  fr_record :: reported_failure
  fr_log_it :: bool
  fr_suppressed :: nat

definition note_failure :: "reported_failure option \<Rightarrow> string \<Rightarrow> int \<Rightarrow> int \<Rightarrow> failure_report" where
  "note_failure prev exc_name now interval =
     (let fresh = \<lparr>rf_exc_name = exc_name, rf_reported_at = now, rf_since_report = 0\<rparr> in
      case prev of
        None \<Rightarrow> \<lparr>fr_record = fresh, fr_log_it = True, fr_suppressed = 0\<rparr>
      | Some p \<Rightarrow>
          if rf_exc_name p \<noteq> exc_name then \<lparr>fr_record = fresh, fr_log_it = True, fr_suppressed = 0\<rparr>
          else if interval \<le> 0 \<or> interval \<le> now - rf_reported_at p
          then \<lparr>fr_record = fresh, fr_log_it = True, fr_suppressed = rf_since_report p\<rparr>
          else \<lparr>fr_record = p\<lparr>rf_since_report := rf_since_report p + 1\<rparr>, fr_log_it = False, fr_suppressed = 0\<rparr>)"

end
