(* ===== verification/Embed.thy ===== *)
theory Embed
  imports Chunking Daemon
begin

text \<open>
  The embedding worker: \<open>search/embed_worker.py\<close> and the language pass it runs,
  \<open>search/lang_detect.py\<close>. Each step of a sweep is one transaction: it claims rows, works on each
  inside a savepoint and commits; what it returns is the committed state. A row's fault, which rows
  other sessions hold, the backend and the detector are parameters, in an \<open>embed_world\<close> per sweep.
  Sequences are not transactional: the next id survives every rollback.
\<close>

subsection \<open>Tables\<close>

datatype chunk_table = MessageChunks | AttachmentChunks

datatype chunk_owner = OfMessage int | OfBlob bytes

type_synonym vec = "int list"

record chunk_row =
  ch_id :: int
  ch_owner :: chunk_owner
  ch_kind :: chunk_kind
  ch_idx :: nat
  ch_text :: string
  ch_tokens :: nat
  ch_embedding :: "vec option"

record embed_message =
  em_id :: int
  em_row :: message_row
  em_body_lang :: "string option"
  em_attempted_at :: "instant option"

text \<open>
  The failure tables keep the class of the last error and the retry count, whose column default is
  zero.
\<close>

record failure_row =
  fl_class :: string
  fl_retry_count :: int

record embed_db =
  ed_messages :: "embed_message list"
  ed_text :: "(bytes \<times> string) list"
  ed_chunks :: "chunk_table \<Rightarrow> chunk_row list"
  ed_seq :: "chunk_table \<Rightarrow> int"
  ed_failed_chunkings :: "int \<Rightarrow> failure_row option"
  ed_failed_embeddings :: "chunk_table \<Rightarrow> int \<Rightarrow> failure_row option"

definition rollback_to :: "embed_db \<Rightarrow> embed_db \<Rightarrow> embed_db" where
  "rollback_to saved d = saved\<lparr>ed_seq := ed_seq d\<rparr>"

record embed_cfg =
  ec_chunk :: chunk_cfg
  ec_batch_size :: int
  ec_chunk_batch_size :: int
  ec_max_chunk_retries :: int
  ec_failure_report_interval :: int
  ec_idle_backoff_max_steps :: int
  ec_poll_interval :: int
  ec_body_lang_enabled :: bool
  ec_lang_batch_size :: int

text \<open>
  What the surroundings do during one sweep. \<open>ew_insert_fault t o i\<close> is what the \<open>i\<close>-th \<open>INSERT\<close> for an owner
  raises; \<open>ew_claim_fault\<close> and \<open>ew_commit_fault\<close> are those of a whole step.
\<close>

datatype step_name = StepMessages | StepBlobs | StepEmbed chunk_table | StepLang

record embed_world =
  ew_tokenizer :: tokenizer
  ew_locked_message :: "int \<Rightarrow> bool"
  ew_locked_blob :: "bytes \<Rightarrow> bool"
  ew_locked_chunk :: "chunk_table \<Rightarrow> int \<Rightarrow> bool"
  ew_claim_fault :: "step_name \<Rightarrow> werr option"
  ew_commit_fault :: "step_name \<Rightarrow> werr option"
  ew_insert_fault :: "chunk_owner \<Rightarrow> nat \<Rightarrow> werr option"
  ew_heal_fault :: "bytes \<Rightarrow> werr option"
  ew_backend :: "chunk_table \<Rightarrow> string list \<Rightarrow> werr + vec list"
  ew_store_fault :: "chunk_table \<Rightarrow> int \<Rightarrow> werr option"
  ew_chunking_log_ok :: "int \<Rightarrow> bool"
  ew_embedding_log_ok :: "chunk_table \<Rightarrow> int \<Rightarrow> bool"
  ew_detect :: "string \<Rightarrow> werr + string option"
  ew_lang_fault :: "int \<Rightarrow> werr option"
  ew_stamp_ok :: "int \<Rightarrow> bool"
  ew_now :: instant

subsection \<open>Failure rows\<close>

definition bump :: "werr \<Rightarrow> failure_row option \<Rightarrow> failure_row" where
  "bump e prev =
     \<lparr>fl_class = we_name e,
      fl_retry_count = (case prev of None \<Rightarrow> 0 | Some f \<Rightarrow> fl_retry_count f + 1)\<rparr>"

definition record_failed_embedding :: "bool \<Rightarrow> chunk_table \<Rightarrow> int \<Rightarrow> werr \<Rightarrow> embed_db \<Rightarrow> embed_db" where
  "record_failed_embedding ok t cid e d =
     (if ok
      then d\<lparr>ed_failed_embeddings := (ed_failed_embeddings d)(t := (ed_failed_embeddings d t)(cid \<mapsto>
               bump e (ed_failed_embeddings d t cid)))\<rparr>
      else d)"

definition record_failed_chunking :: "bool \<Rightarrow> int \<Rightarrow> werr \<Rightarrow> embed_db \<Rightarrow> embed_db" where
  "record_failed_chunking ok mid e d =
     (if ok
      then d\<lparr>ed_failed_chunkings := (ed_failed_chunkings d)(mid \<mapsto> bump e (ed_failed_chunkings d mid))\<rparr>
      else d)"

definition given_up :: "embed_cfg \<Rightarrow> failure_row option \<Rightarrow> bool" where
  "given_up cfg f = (case f of None \<Rightarrow> False | Some r \<Rightarrow> ec_max_chunk_retries cfg \<le> fl_retry_count r)"

subsection \<open>Chunking\<close>

text \<open>\<open>INSERT ... ON CONFLICT DO NOTHING\<close>; the sequence advances whatever becomes of the row.\<close>

definition insert_chunk :: "chunk_table \<Rightarrow> chunk_owner \<Rightarrow> chunk_spec \<Rightarrow> embed_db \<Rightarrow> embed_db" where
  "insert_chunk t ow sp d =
     (let rows = ed_chunks d t;
          row = \<lparr>ch_id = ed_seq d t, ch_owner = ow, ch_kind = cs_kind sp, ch_idx = cs_idx sp, ch_text = cs_text sp,
                 ch_tokens = cs_token_count sp, ch_embedding = None\<rparr>;
          hit = list_ex (\<lambda>r. ch_owner r = ow \<and> ch_kind r = cs_kind sp \<and> ch_idx r = cs_idx sp) rows
      in d\<lparr>ed_chunks := (ed_chunks d)(t := if hit then rows else rows @ [row]),
           ed_seq := (ed_seq d)(t := ed_seq d t + 1)\<rparr>)"

fun insert_specs ::
  "(nat \<Rightarrow> werr option) \<Rightarrow> nat \<Rightarrow> chunk_table \<Rightarrow> chunk_owner \<Rightarrow> chunk_spec list \<Rightarrow> embed_db \<Rightarrow> (werr + unit) \<times> embed_db" where
  "insert_specs fault i t ow [] d = (case fault i of Some e \<Rightarrow> (Inl e, d) | None \<Rightarrow> (Inr (), d))"
| "insert_specs fault i t ow (sp # sps) d =
     (case fault i of
        Some e \<Rightarrow> (Inl e, d\<lparr>ed_seq := (ed_seq d)(t := ed_seq d t + 1)\<rparr>)
      | None \<Rightarrow> insert_specs fault (Suc i) t ow sps (insert_chunk t ow sp d))"

definition has_chunks :: "embed_db \<Rightarrow> chunk_table \<Rightarrow> chunk_owner \<Rightarrow> bool" where
  "has_chunks d t ow \<longleftrightarrow> list_ex (\<lambda>r. ch_owner r = ow) (ed_chunks d t)"

definition chunkable_message :: "embed_cfg \<Rightarrow> embed_db \<Rightarrow> embed_message \<Rightarrow> bool" where
  "chunkable_message cfg d m \<longleftrightarrow>
     \<not> has_chunks d MessageChunks (OfMessage (em_id m)) \<and> \<not> given_up cfg (ed_failed_chunkings d (em_id m))"

definition message_step :: "embed_cfg \<Rightarrow> embed_world \<Rightarrow> embed_message \<Rightarrow> embed_db \<Rightarrow> (werr + unit) \<times> embed_db" where
  "message_step cfg w m d =
     (let ow = OfMessage (em_id m) in
      case (case chunk_message (ew_tokenizer w) (ec_chunk cfg) (em_row m) of
              Inl e \<Rightarrow> (Inl e, d)
            | Inr specs \<Rightarrow> insert_specs (ew_insert_fault w ow) 0 MessageChunks ow specs d) of
        (Inr _, d1) \<Rightarrow> (Inr (), d1)
      | (Inl e, d1) \<Rightarrow>
          if is_contention e then (Inl e, rollback_to d d1)
          else (Inr (), record_failed_chunking (ew_chunking_log_ok w (em_id m)) (em_id m) e (rollback_to d d1)))"

fun message_steps :: "embed_cfg \<Rightarrow> embed_world \<Rightarrow> embed_message list \<Rightarrow> embed_db \<Rightarrow> (werr + unit) \<times> embed_db" where
  "message_steps cfg w [] d = (Inr (), d)"
| "message_steps cfg w (m # ms) d =
     (case message_step cfg w m d of (Inl e, d1) \<Rightarrow> (Inl e, d1) | (Inr _, d1) \<Rightarrow> message_steps cfg w ms d1)"

text \<open>The end of a step: an exception, at the commit too, undoes all of it.\<close>

definition finish :: "werr option \<Rightarrow> embed_db \<Rightarrow> 'a \<Rightarrow> (werr + unit) \<times> embed_db \<Rightarrow> (werr + 'a) \<times> embed_db" where
  "finish commit_fault d0 x r =
     (case r of
        (Inl e, d1) \<Rightarrow> (Inl e, rollback_to d0 d1)
      | (Inr _, d1) \<Rightarrow> (case commit_fault of None \<Rightarrow> (Inr x, d1) | Some e \<Rightarrow> (Inl e, rollback_to d0 d1)))"

definition claim_messages :: "embed_cfg \<Rightarrow> embed_world \<Rightarrow> nat \<Rightarrow> embed_db \<Rightarrow> embed_message list" where
  "claim_messages cfg w batch d =
     take batch (sort_key em_id (filter (\<lambda>m. chunkable_message cfg d m \<and> \<not> ew_locked_message w (em_id m)) (ed_messages d)))"

definition chunk_messages_lazily :: "embed_cfg \<Rightarrow> embed_world \<Rightarrow> nat \<Rightarrow> embed_db \<Rightarrow> (werr + nat) \<times> embed_db" where
  "chunk_messages_lazily cfg w batch d =
     (case ew_claim_fault w StepMessages of
        Some e \<Rightarrow> (Inl e, d)
      | None \<Rightarrow>
          (let rows = claim_messages cfg w batch d in
           if rows = [] then (Inr 0, d)
           else finish (ew_commit_fault w StepMessages) d (length rows) (message_steps cfg w rows d)))"

definition chunkable_text :: "embed_db \<Rightarrow> bytes \<times> string \<Rightarrow> bool" where
  "chunkable_text d t \<longleftrightarrow> snd t \<noteq> [] \<and> \<not> has_chunks d AttachmentChunks (OfBlob (fst t))"

definition heal_text :: "bytes \<Rightarrow> embed_db \<Rightarrow> embed_db" where
  "heal_text sha d = d\<lparr>ed_text := update_where (\<lambda>t. fst t = sha) (\<lambda>t. (fst t, [])) (ed_text d)\<rparr>"

text \<open>A failing blob is only logged: nothing remembers it.\<close>

definition blob_chunk_step :: "embed_cfg \<Rightarrow> embed_world \<Rightarrow> bytes \<times> string \<Rightarrow> embed_db \<Rightarrow> embed_db" where
  "blob_chunk_step cfg w t d =
     (let sha = fst t; ow = OfBlob sha in
      case chunk_attachment_text (ew_tokenizer w) (ec_chunk cfg) (snd t) of
        Inl e \<Rightarrow> d
      | Inr specs \<Rightarrow>
          (case (if specs = [] \<and> is_blank (snd t)
                 then (case ew_heal_fault w sha of Some e \<Rightarrow> (Inl e, d) | None \<Rightarrow> (Inr (), heal_text sha d))
                 else (Inr (), d)) of
             (Inl e, d1) \<Rightarrow> rollback_to d d1
           | (Inr _, d1) \<Rightarrow>
               (case insert_specs (ew_insert_fault w ow) 0 AttachmentChunks ow specs d1 of
                  (Inl e, d2) \<Rightarrow> rollback_to d d2
                | (Inr _, d2) \<Rightarrow> d2)))"

fun blob_chunk_steps :: "embed_cfg \<Rightarrow> embed_world \<Rightarrow> (bytes \<times> string) list \<Rightarrow> embed_db \<Rightarrow> embed_db" where
  "blob_chunk_steps cfg w [] d = d"
| "blob_chunk_steps cfg w (t # ts) d = blob_chunk_steps cfg w ts (blob_chunk_step cfg w t d)"

text \<open>\<open>ORDER BY sha256\<close>: \<open>bytea\<close> compares as the unsigned bytes.\<close>

definition bytes_le :: "bytes \<Rightarrow> bytes \<Rightarrow> bool" where
  "bytes_le a b \<longleftrightarrow> a = b \<or> ord_class.lexordp (map (of_char :: char \<Rightarrow> nat) a) (map of_char b)"

fun insert_by_sha :: "bytes \<times> string \<Rightarrow> (bytes \<times> string) list \<Rightarrow> (bytes \<times> string) list" where
  "insert_by_sha t [] = [t]"
| "insert_by_sha t (u # us) = (if bytes_le (fst t) (fst u) then t # u # us else u # insert_by_sha t us)"

definition sort_by_sha :: "(bytes \<times> string) list \<Rightarrow> (bytes \<times> string) list" where
  "sort_by_sha ts = foldr insert_by_sha ts []"

definition claim_texts :: "embed_world \<Rightarrow> nat \<Rightarrow> embed_db \<Rightarrow> (bytes \<times> string) list" where
  "claim_texts w batch d =
     take batch (sort_by_sha (filter (\<lambda>t. chunkable_text d t \<and> \<not> ew_locked_blob w (fst t)) (ed_text d)))"

definition chunk_attachments_lazily :: "embed_cfg \<Rightarrow> embed_world \<Rightarrow> nat \<Rightarrow> embed_db \<Rightarrow> (werr + nat) \<times> embed_db" where
  "chunk_attachments_lazily cfg w batch d =
     (case ew_claim_fault w StepBlobs of
        Some e \<Rightarrow> (Inl e, d)
      | None \<Rightarrow>
          (let rows = claim_texts w batch d
           in finish (ew_commit_fault w StepBlobs) d (length rows) (Inr (), blob_chunk_steps cfg w rows d)))"

subsection \<open>Embedding\<close>

definition embeddable :: "embed_cfg \<Rightarrow> embed_db \<Rightarrow> chunk_table \<Rightarrow> chunk_row \<Rightarrow> bool" where
  "embeddable cfg d t r \<longleftrightarrow> ch_embedding r = None \<and> \<not> given_up cfg (ed_failed_embeddings d t (ch_id r))"

definition claim_unembedded :: "embed_cfg \<Rightarrow> embed_world \<Rightarrow> chunk_table \<Rightarrow> embed_db \<Rightarrow> (int \<times> string) list" where
  "claim_unembedded cfg w t d =
     map (\<lambda>r. (ch_id r, ch_text r))
       (take (nat (ec_batch_size cfg))
         (sort_key ch_id (filter (\<lambda>r. embeddable cfg d t r \<and> \<not> ew_locked_chunk w t (ch_id r)) (ed_chunks d t))))"

definition set_embedding :: "chunk_table \<Rightarrow> int \<Rightarrow> vec \<Rightarrow> embed_db \<Rightarrow> embed_db" where
  "set_embedding t cid v d =
     d\<lparr>ed_chunks := (ed_chunks d)(t := update_where (\<lambda>r. ch_id r = cid) (\<lambda>r. r\<lparr>ch_embedding := Some v\<rparr>) (ed_chunks d t))\<rparr>"

fun store_vectors ::
  "embed_world \<Rightarrow> chunk_table \<Rightarrow> nat \<Rightarrow> (int \<times> string) list \<Rightarrow> vec list \<Rightarrow> embed_db \<Rightarrow> (werr + nat) \<times> embed_db" where
  "store_vectors w t written [] [] d = (Inr written, d)"
| "store_vectors w t written (c # cs) (v # vs) d =
     (case ew_store_fault w t (fst c) of
        None \<Rightarrow> store_vectors w t (written + 1) cs vs (set_embedding t (fst c) v d)
      | Some e \<Rightarrow>
          if is_contention e then (Inl e, d)
          else store_vectors w t written cs vs
                 (record_failed_embedding (ew_embedding_log_ok w t (fst c)) t (fst c) e d))"
| "store_vectors w t written _ _ d = (Inl (value_error ''zip() arguments differ in length''), d)"

definition embed_and_store :: "embed_world \<Rightarrow> (int \<times> string) list \<Rightarrow> chunk_table \<Rightarrow> embed_db \<Rightarrow> (werr + nat) \<times> embed_db" where
  "embed_and_store w claimed t d =
     (case ew_backend w t (map snd claimed) of
        Inl e \<Rightarrow> (Inl e, d)
      | Inr vectors \<Rightarrow>
          (case store_vectors w t 0 claimed vectors d of
             (Inl e, d1) \<Rightarrow> (Inl e, d1)
           | (Inr n, d1) \<Rightarrow> (case ew_commit_fault w (StepEmbed t) of None \<Rightarrow> (Inr n, d1) | Some e \<Rightarrow> (Inl e, d1))))"

type_synonym failure_log = "(chunk_table \<times> reported_failure) list"

definition report_batch_failure :: "embed_cfg \<Rightarrow> chunk_table \<Rightarrow> werr \<Rightarrow> int \<Rightarrow> failure_log \<Rightarrow> failure_log" where
  "report_batch_failure cfg t e now log =
     dict_set t (fr_record (note_failure (map_of log t) (we_name e) now (ec_failure_report_interval cfg))) log"

text \<open>
  The claim itself is outside the \<open>try\<close>; a claim of no rows commits an empty transaction.
\<close>

definition embed_table ::
  "embed_cfg \<Rightarrow> embed_world \<Rightarrow> chunk_table \<Rightarrow> int \<Rightarrow> failure_log \<Rightarrow> embed_db \<Rightarrow> ((werr + nat) \<times> failure_log) \<times> embed_db" where
  "embed_table cfg w t now log d =
     (case ew_claim_fault w (StepEmbed t) of
        Some e \<Rightarrow> ((Inl e, log), d)
      | None \<Rightarrow>
          (let claimed = claim_unembedded cfg w t d in
           if claimed = []
           then ((case ew_commit_fault w (StepEmbed t) of None \<Rightarrow> Inr 0 | Some e \<Rightarrow> Inl e, log), d)
           else (case embed_and_store w claimed t d of
                   (Inr n, d1) \<Rightarrow> ((Inr n, log), d1)
                 | (Inl e, d1) \<Rightarrow> ((Inr 0, report_batch_failure cfg t e now log), rollback_to d d1))))"

subsection \<open>Language detection\<close>

definition lang_claimable :: "embed_message \<Rightarrow> bool" where
  "lang_claimable m \<longleftrightarrow> em_body_lang m = None \<and> ck_body_text (em_row m) \<noteq> None \<and> em_attempted_at m = None"

definition lang_declined :: "embed_message \<Rightarrow> bool" where
  "lang_declined m \<longleftrightarrow> em_body_lang m = None \<and> ck_body_text (em_row m) \<noteq> None \<and> em_attempted_at m \<noteq> None"

definition relabelable :: "embed_message \<Rightarrow> bool" where
  "relabelable m \<longleftrightarrow> ck_body_text (em_row m) \<noteq> None"

text \<open>
  \<open>LinguaDetector.detect\<close>: \<open>lingua\<close> returns the languages by falling confidence, each with the name of its
  ISO code; \<open>Inl\<close> is an exception, of the lazy import too. Confidences are on the scale of their ordinals.
\<close>

record lingua_cfg =
  lg_min_confidence :: int
  lg_min_text_chars :: int

definition lingua_detect ::
  "lingua_cfg \<Rightarrow> (string \<Rightarrow> werr + (string \<times> int) list) \<Rightarrow> string \<Rightarrow> werr + string option" where
  "lingua_detect cfg lingua text =
     (let normalized = (if text \<noteq> [] then normalize_for_detection text else []) in
      if int (length normalized) < lg_min_text_chars cfg then Inr None
      else bindr (lingua normalized) (\<lambda>confidences.
        case confidences of
          [] \<Rightarrow> Inr None
        | best # _ \<Rightarrow> if snd best < lg_min_confidence cfg then Inr None else Inr (Some (lower (fst best)))))"

definition update_message :: "int \<Rightarrow> (embed_message \<Rightarrow> embed_message) \<Rightarrow> embed_db \<Rightarrow> embed_db" where
  "update_message mid f d = d\<lparr>ed_messages := update_where (\<lambda>m. em_id m = mid) f (ed_messages d)\<rparr>"

definition mark_attempted_safely :: "embed_world \<Rightarrow> int \<Rightarrow> embed_db \<Rightarrow> embed_db" where
  "mark_attempted_safely w mid d =
     (if ew_stamp_ok w mid then update_message mid (\<lambda>m. m\<lparr>em_attempted_at := Some (ew_now w)\<rparr>) d else d)"

fun lang_steps :: "embed_world \<Rightarrow> (int \<times> string) list \<Rightarrow> nat \<Rightarrow> embed_db \<Rightarrow> (werr + nat) \<times> embed_db" where
  "lang_steps w [] labelled d = (Inr labelled, d)"
| "lang_steps w (r # rs) labelled d =
     (case (case ew_detect w (snd r) of
              Inl e \<Rightarrow> Inl e
            | Inr code \<Rightarrow> (case ew_lang_fault w (fst r) of Some e \<Rightarrow> Inl e | None \<Rightarrow> Inr code)) of
        Inr code \<Rightarrow>
          lang_steps w rs (if code \<noteq> None then labelled + 1 else labelled)
            (update_message (fst r) (\<lambda>m. m\<lparr>em_body_lang := code, em_attempted_at := Some (ew_now w)\<rparr>) d)
      | Inl e \<Rightarrow>
          if is_contention e then (Inl e, d)
          else lang_steps w rs labelled (mark_attempted_safely w (fst r) d))"

definition claim_lang :: "embed_world \<Rightarrow> nat \<Rightarrow> embed_db \<Rightarrow> (int \<times> string) list" where
  "claim_lang w limit d =
     map (\<lambda>m. (em_id m, or_empty (ck_body_text (em_row m))))
       (take limit (sort_key em_id (filter (\<lambda>m. lang_claimable m \<and> \<not> ew_locked_message w (em_id m)) (ed_messages d))))"

record lang_pass =
  lp_visited :: nat
  lp_labelled :: nat

definition run_lang_detect_pass :: "embed_world \<Rightarrow> nat \<Rightarrow> embed_db \<Rightarrow> (werr + lang_pass) \<times> embed_db" where
  "run_lang_detect_pass w limit d =
     (case ew_claim_fault w StepLang of
        Some e \<Rightarrow> (Inl e, d)
      | None \<Rightarrow>
          (let rows = claim_lang w limit d in
           if rows = [] then (Inr \<lparr>lp_visited = 0, lp_labelled = 0\<rparr>, d)
           else (case lang_steps w rows 0 d of
                   (Inl e, d1) \<Rightarrow> (Inl e, d)
                 | (Inr n, d1) \<Rightarrow>
                     (case ew_commit_fault w StepLang of
                        Some e \<Rightarrow> (Inl e, d)
                      | None \<Rightarrow> (Inr \<lparr>lp_visited = length rows, lp_labelled = n\<rparr>, d1)))))"

definition retry_declined :: "embed_db \<Rightarrow> nat \<times> embed_db" where
  "retry_declined d =
     (length (filter lang_declined (ed_messages d)),
      d\<lparr>ed_messages := update_where lang_declined (\<lambda>m. m\<lparr>em_attempted_at := None\<rparr>) (ed_messages d)\<rparr>)"

definition reopen_all :: "embed_db \<Rightarrow> nat \<times> embed_db" where
  "reopen_all d =
     (length (filter relabelable (ed_messages d)),
      d\<lparr>ed_messages := update_where relabelable (\<lambda>m. m\<lparr>em_body_lang := None, em_attempted_at := None\<rparr>) (ed_messages d)\<rparr>)"

subsection \<open>A sweep, and the loop\<close>

definition run_embed_worker_once ::
  "embed_cfg \<Rightarrow> bool \<Rightarrow> embed_world \<Rightarrow> int \<Rightarrow> failure_log \<Rightarrow> embed_db \<Rightarrow> ((werr + sweep_outcome) \<times> failure_log) \<times> embed_db" where
  "run_embed_worker_once cfg has_detector w now log d =
     (let batch = nat (max (ec_batch_size cfg) (ec_chunk_batch_size cfg)) in
      case chunk_messages_lazily cfg w batch d of
        (Inl e, d1) \<Rightarrow> ((Inl e, log), d1)
      | (Inr _, d1) \<Rightarrow>
      (case chunk_attachments_lazily cfg w batch d1 of
        (Inl e, d2) \<Rightarrow> ((Inl e, log), d2)
      | (Inr _, d2) \<Rightarrow>
      (case embed_table cfg w MessageChunks now log d2 of
        ((Inl e, log1), d3) \<Rightarrow> ((Inl e, log1), d3)
      | ((Inr n, log1), d3) \<Rightarrow>
      (case embed_table cfg w AttachmentChunks now log1 d3 of
        ((Inl e, log2), d4) \<Rightarrow> ((Inl e, log2), d4)
      | ((Inr k, log2), d4) \<Rightarrow>
          if has_detector \<and> ec_body_lang_enabled cfg
          then (case run_lang_detect_pass w (nat (ec_lang_batch_size cfg)) d4 of
                  (Inl e, d5) \<Rightarrow> ((Inl e, log2), d5)
                | (Inr p, d5) \<Rightarrow> ((Inr \<lparr>so_embedded = int (n + k), so_lang_visited = int (lp_visited p)\<rparr>, log2), d5))
          else ((Inr \<lparr>so_embedded = int (n + k), so_lang_visited = 0\<rparr>, log2), d4)))))"

text \<open>
  One turn of \<open>run_embed_worker\<close>, with what its surroundings do: whether the two heartbeats can be written, whether
  the pool hands out a connection (\<open>Some e\<close> when it does not), and the sweep's world and clock. The loop runs over
  the turns before the stop event is set.
\<close>

record worker_turn =
  wt_beat_ok :: bool
  wt_error_beat_ok :: bool
  wt_pool_fault :: "werr option"
  wt_world :: embed_world
  wt_clock :: int

record worker_state_rec =
  wk_streak :: int
  wk_log :: failure_log
  wk_db :: embed_db
  wk_heartbeats :: "heartbeat list"
  wk_sleeps :: "int list"

definition embed_turn :: "embed_cfg \<Rightarrow> bool \<Rightarrow> worker_turn \<Rightarrow> worker_state_rec \<Rightarrow> worker_state_rec" where
  "embed_turn cfg has_detector tn s =
     (let now = ew_now (wt_world tn);
          beats = safe_heartbeat (wt_beat_ok tn) now KEmbed None WIdle None None (wk_heartbeats s);
          r = (case wt_pool_fault tn of
                 Some e \<Rightarrow> ((Inl e, wk_log s), wk_db s)
               | None \<Rightarrow> run_embed_worker_once cfg has_detector (wt_world tn) (wt_clock tn) (wk_log s) (wk_db s));
          outcome = (case fst (fst r) of Inr x \<Rightarrow> x | Inl _ \<Rightarrow> \<lparr>so_embedded = 0, so_lang_visited = 0\<rparr>);
          beats1 = (case fst (fst r) of
                      Inr _ \<Rightarrow> beats
                    | Inl e \<Rightarrow> safe_heartbeat (wt_error_beat_ok tn) now KEmbed None WError None (Some (we_message e)) beats);
          streak = next_idle_streak (wk_streak s) (made_progress outcome) (ec_idle_backoff_max_steps cfg)
      in \<lparr>wk_streak = streak, wk_log = snd (fst r), wk_db = snd r, wk_heartbeats = beats1,
          wk_sleeps = wk_sleeps s @ [sweep_sleep_seconds streak (ec_poll_interval cfg)]\<rparr>)"

fun run_embed_worker :: "embed_cfg \<Rightarrow> bool \<Rightarrow> worker_turn list \<Rightarrow> worker_state_rec \<Rightarrow> worker_state_rec" where
  "run_embed_worker cfg has_detector [] s = s"
| "run_embed_worker cfg has_detector (tn # tns) s = run_embed_worker cfg has_detector tns (embed_turn cfg has_detector tn s)"

end
