(* ===== verification/ChunkSafety.thy ===== *)
theory ChunkSafety
  imports Chunking
begin

text \<open>
  What is done to a text before it is indexed: the windows cover every token, a text is empty for
  the chunker exactly when it is blank, and no quoted line survives.
  And the pacing of the worker: sleeps stay within their bounds, and the throttle of repeated failures
  loses no count while the exception keeps its type.
\<close>

subsection \<open>Token windows\<close>

lemma windows_nonempty: "ts \<noteq> [] \<Longrightarrow> 0 < step \<Longrightarrow> windows sz step ts \<noteq> []"
  by (simp add: windows.simps [of sz step ts])

lemma windows_size: "ws \<in> set (windows sz step ts) \<Longrightarrow> length ws \<le> sz"
proof (induction sz step ts rule: windows.induct)
  case (1 sz step ts)
  then show ?case by (subst (asm) (2) windows.simps) (auto split: if_splits)
qed

lemma windows_inhabited: "ws \<in> set (windows sz step ts) \<Longrightarrow> 0 < sz \<Longrightarrow> ws \<noteq> []"
proof (induction sz step ts rule: windows.induct)
  case (1 sz step ts)
  then show ?case by (subst (asm) (2) windows.simps) (auto split: if_splits)
qed

text \<open>Every window after the first repeats \<open>sz - step\<close> tokens; without them the windows are the text.\<close>

lemma windows_cover:
  assumes "0 < step" "step \<le> sz"
  shows "windows sz step ts = w # ws \<Longrightarrow> w @ concat (map (drop (sz - step)) ws) = ts"
  using assms
proof (induction sz step ts arbitrary: w ws rule: windows.induct)
  case (1 sz step ts)
  show ?case
  proof (cases "length ts \<le> sz")
    case True
    with "1.prems" show ?thesis by (auto simp: windows.simps [of sz step ts] split: if_splits)
  next
    case False
    with "1.prems" have ts: "ts \<noteq> []" "step \<noteq> 0" by auto
    with False "1.prems" have w: "w = take sz ts" and ws: "windows sz step (drop step ts) = ws"
      by (auto simp: windows.simps [of sz step ts])
    from False "1.prems" have "drop step ts \<noteq> []" by auto
    with ws "1.prems"(2) windows_nonempty obtain v vs where v: "ws = v # vs"
      by (metis list.exhaust)
    with ws "1.IH" [OF _ False, of v vs] ts "1.prems" have tail: "v @ concat (map (drop (sz - step)) vs) = drop step ts"
      by simp
    from ws v ts have "v = take sz (drop step ts)"
      by (auto simp: windows.simps [of sz step "drop step ts"] split: if_splits)
    with False "1.prems" have len: "sz - step \<le> length v" by simp
    have "take sz ts = take step ts @ take (sz - step) (drop step ts)"
      using "1.prems"(3) by (metis le_add_diff_inverse take_add)
    moreover have "take (sz - step) (drop step ts) = take (sz - step) v"
      using tail len by (metis append_eq_conv_conj take_append take_all_iff append_Nil2 diff_is_0_eq' take0 take_eq_Nil2)
    ultimately have "w @ concat (map (drop (sz - step)) ws) =
        take step ts @ (take (sz - step) v @ drop (sz - step) v) @ concat (map (drop (sz - step)) vs)"
      by (simp add: w v)
    also have "\<dots> = take step ts @ drop step ts" using tail by simp
    finally show ?thesis by simp
  qed
qed

lemma split_by_tokens_Inr:
  "split_by_tokens tk text sz ov = Inr ps \<Longrightarrow> 0 < sz \<and> 0 \<le> ov \<and> ov < sz"
  by (auto simp: split_by_tokens_def split: if_splits)

lemma split_by_tokens_long:
  "split_by_tokens tk text sz ov = Inr ps \<Longrightarrow> tk_encode tk text = Inr toks \<Longrightarrow> sz < int (length toks) \<Longrightarrow>
   ps = map (tk_decode tk) (windows (nat sz) (nat (sz - ov)) toks)"
  by (auto simp: split_by_tokens_def split: if_splits)

lemma split_by_tokens_empty:
  assumes "split_by_tokens tk text sz ov = Inr []"
  shows "text = []"
proof -
  note bounds = split_by_tokens_Inr [OF assms]
  from assms obtain toks where toks: "tk_encode tk text = Inr toks"
    by (auto simp: split_by_tokens_def bindr_Inr_iff split: if_splits)
  have "\<not> sz < int (length toks)"
    using split_by_tokens_long [OF assms toks] windows_nonempty [of toks "nat (sz - ov)" "nat sz"] bounds by (cases toks) auto
  with assms toks bounds show ?thesis by (auto simp: split_by_tokens_def split: if_splits)
qed

text \<open>
  A text longer than one chunk is cut into windows of at most the configured number of tokens, which,
  after the overlap of each with its predecessor is removed, are the tokens of the text in order: no
  part of a body or of an attachment is left out of the index, and none is indexed more often than the
  overlap says.
\<close>

theorem windows_cover_text:
  assumes "split_by_tokens tk text sz ov = Inr ps" "tk_encode tk text = Inr toks" "sz < int (length toks)"
  shows "\<exists>w ws. ps = map (tk_decode tk) (w # ws) \<and> w @ concat (map (drop (nat ov)) ws) = toks \<and>
    list_all (\<lambda>v. v \<noteq> [] \<and> int (length v) \<le> sz) (w # ws)"
proof -
  note bounds = split_by_tokens_Inr [OF assms(1)]
  let ?W = "windows (nat sz) (nat (sz - ov)) toks"
  from bounds have step: "0 < nat (sz - ov)" "nat (sz - ov) \<le> nat sz" "nat sz - nat (sz - ov) = nat ov" "0 < nat sz"
    by auto
  from assms(3) bounds have "toks \<noteq> []" by auto
  with windows_nonempty step(1) obtain w ws where W: "?W = w # ws" by (meson neq_Nil_conv)
  have "list_all (\<lambda>v. v \<noteq> [] \<and> int (length v) \<le> sz) ?W"
    using windows_size [of _ "nat sz" "nat (sz - ov)" toks] windows_inhabited [OF _ step(4)] bounds
    by (force simp: list_all_iff)
  with W split_by_tokens_long [OF assms] windows_cover [OF step(1,2) W] step(3) show ?thesis by auto
qed

theorem windows_cover_text_witness:
  "\<exists>w ws. [''ab'', ''bc'', ''cd''] = map (\<lambda>ts. map char_of (ts :: nat list)) (w # ws) \<and> w @ concat (map (drop (nat 1)) ws) = [97, 98, 99, 100] \<and>
    list_all (\<lambda>v. v \<noteq> [] \<and> int (length v) \<le> 2) (w # ws)"
proof -
  let ?tk = "\<lparr>tk_encode = (\<lambda>s. Inr (map of_char s)), tk_decode = map char_of, tk_isoformat = (\<lambda>_. [])\<rparr>"
  have "split_by_tokens ?tk ''abcd'' 2 1 = Inr [''ab'', ''bc'', ''cd'']" by code_simp
  from windows_cover_text [OF this, of "[97, 98, 99, 100]"] show ?thesis by simp
qed

subsection \<open>White space\<close>

text \<open>The characters that are no white space, in order.\<close>

definition substance :: "string \<Rightarrow> string" where
  "substance s = filter (\<lambda>c. \<not> is_space c) s"

lemma substance_simps [simp]:
  "substance [] = []"
  "substance (c # s) = (if is_space c then substance s else c # substance s)"
  "substance (s @ t) = substance s @ substance t"
  by (simp_all add: substance_def)

lemma substance_space: "list_all is_space s \<Longrightarrow> substance s = []"
  by (simp add: substance_def list_all_iff filter_empty_conv)

lemma substance_rev: "substance (rev s) = rev (substance s)"
  by (simp add: substance_def rev_filter)

lemma substance_dropWhile [simp]: "substance (dropWhile is_space s) = substance s"
  by (induction s) auto

lemma substance_strip [simp]: "substance (strip s) = substance s"
  by (simp add: strip_def lstrip_def rstrip_def substance_rev)

lemma strip_empty_iff: "strip s = [] \<longleftrightarrow> substance s = []"
proof
  assume "strip s = []"
  then have "substance (strip s) = []" by simp
  then show "substance s = []" by simp
next
  assume "substance s = []"
  then have "\<forall>c \<in> set s. is_space c" by (auto simp: substance_def filter_empty_conv)
  then have "dropWhile is_space s = []" by (simp add: dropWhile_eq_Nil_conv)
  then show "strip s = []" by (simp only: strip_def lstrip_def rstrip_def rev.simps dropWhile.simps)
qed

lemma is_blank_substance: "is_blank s \<longleftrightarrow> substance s = []"
  by (auto simp: is_blank_def substance_def filter_empty_conv list_all_iff)

lemma substance_collapse: "(\<And>c. p c \<Longrightarrow> is_space c) \<Longrightarrow> substance (collapse p r s) = substance s"
  by (induction p r s rule: collapse.induct) (auto simp: is_space_def)

lemma is_space_newline [simp]: "is_space newline"
  by (simp add: is_space_def)

lemma substance_collapse_newlines [simp]: "substance (collapse_newlines n s) = substance s"
  by (induction n s rule: collapse_newlines.induct) auto

lemma substance_join: "list_all is_space sep \<Longrightarrow> substance (str_join sep xs) = concat (map substance xs)"
  by (induction sep xs rule: str_join.induct) (auto simp: substance_space)

lemma is_line_break_space: "is_line_break c \<Longrightarrow> is_space c"
  by (auto simp: is_line_break_def is_space_def Let_def)

lemma substance_after_break: "substance (after_break c cs) = substance cs"
  by (cases cs) (auto simp: after_break_def)

lemma substance_splitlines: "concat (map substance (splitlines s)) = substance s"
proof (induction s rule: splitlines.induct)
  case (1 s)
  show ?case
  proof (cases "dropWhile (\<lambda>c. \<not> is_line_break c) s")
    case Nil
    then have "takeWhile (\<lambda>c. \<not> is_line_break c) s = s" by (metis append_Nil2 takeWhile_dropWhile_id)
    then show ?thesis by (subst splitlines.simps) (simp only: Nil list.case, simp)
  next
    case (Cons c cs)
    then have "s \<noteq> []" by auto
    have br: "is_line_break c" using Cons by (metis dropWhile_eq_Cons_conv)
    from Cons have split: "s = takeWhile (\<lambda>c. \<not> is_line_break c) s @ c # cs" by (metis takeWhile_dropWhile_id)
    from "1.IH" [OF \<open>s \<noteq> []\<close> Cons] have "concat (map substance (splitlines (after_break c cs))) = substance cs"
      by (simp add: substance_after_break)
    then have "concat (map substance (splitlines s)) = substance (takeWhile (\<lambda>c. \<not> is_line_break c) s) @ substance (c # cs)"
      using Cons \<open>s \<noteq> []\<close> br by (simp add: splitlines.simps [of s] is_line_break_space)
    also have "\<dots> = substance s" by (simp only: substance_simps(3) [symmetric] split [symmetric])
    finally show ?thesis .
  qed
qed

lemma substance_normalize: "substance (normalize_whitespace s) = substance s"
proof -
  have "is_inline_space c \<Longrightarrow> is_space c" for c by (auto simp: is_inline_space_def is_space_def)
  then have line: "substance (strip (collapse is_inline_space False l)) = substance l" for l
    by (simp add: substance_collapse)
  have "substance (normalize_whitespace s) =
      concat (map substance (map (\<lambda>line. strip (collapse is_inline_space False line)) (splitlines s)))"
    by (simp add: normalize_whitespace_def Let_def substance_join del: map_map)
  also have "\<dots> = concat (map substance (splitlines s))"
    by (simp only: map_map comp_def line)
  finally have "substance (normalize_whitespace s) = concat (map substance (splitlines s))" .
  then show ?thesis by (simp add: substance_splitlines)
qed

lemma normalize_empty_iff: "normalize_whitespace s = [] \<longleftrightarrow> is_blank s"
proof -
  have "normalize_whitespace s = strip (collapse_newlines 0 (str_join [newline]
      (map (\<lambda>line. strip (collapse is_inline_space False line)) (splitlines s))))"
    by (simp add: normalize_whitespace_def Let_def)
  then have "normalize_whitespace s = [] \<longleftrightarrow> substance (normalize_whitespace s) = []"
    by (metis strip_empty_iff substance_strip)
  then show ?thesis by (simp add: is_blank_substance substance_normalize)
qed

lemma specs_from_length: "specs_from tk k i ps = Inr sps \<Longrightarrow> length sps = length ps"
  by (induction tk k i ps arbitrary: sps rule: specs_from.induct) (auto simp: bindr_Inr_iff)

lemma chunk_attachment_empty_iff: "chunk_attachment_text tk cfg t = Inr [] \<longleftrightarrow> is_blank t"
proof
  assume *: "chunk_attachment_text tk cfg t = Inr []"
  show "is_blank t"
  proof (rule ccontr)
    assume "\<not> is_blank t"
    then have "normalize_whitespace t \<noteq> []" by (simp add: normalize_empty_iff)
    define t1 where "t1 = (if cc_max_chars cfg < int (length (normalize_whitespace t))
      then prefix_slice (cc_max_chars cfg) (normalize_whitespace t) @ newline # ''[truncated]'' else normalize_whitespace t)"
    have "chunk_attachment_text tk cfg t =
        bindr (split_by_tokens tk t1 (cc_size cfg) (cc_overlap cfg)) (specs_from tk AttachmentChunk 0)"
      using \<open>normalize_whitespace t \<noteq> []\<close> by (simp only: chunk_attachment_text_def Let_def t1_def if_False)
    with * obtain pieces where "split_by_tokens tk t1 (cc_size cfg) (cc_overlap cfg) = Inr pieces"
        "specs_from tk AttachmentChunk 0 pieces = Inr []"
      by (auto simp: bindr_Inr_iff)
    then have "t1 = []" using specs_from_length [of tk AttachmentChunk 0 pieces] split_by_tokens_empty by fastforce
    with \<open>normalize_whitespace t \<noteq> []\<close> show False by (simp add: t1_def split: if_splits)
  qed
next
  assume "is_blank t"
  then show "chunk_attachment_text tk cfg t = Inr []"
    by (simp add: chunk_attachment_text_def Let_def normalize_empty_iff)
qed

text \<open>
  The one rule for a text with nothing to index: the chunker returns no chunk exactly for the texts
  \<open>is_blank\<close> accepts, whatever the tokenizer and the limits, and \<open>is_blank\<close> is exactly that white space
  normalisation leaves nothing. Normalisation keeps every other character, in order.
\<close>

theorem blank_rule_agrees:
  "(chunk_attachment_text tk cfg t = Inr [] \<longleftrightarrow> is_blank t) \<and>
   (normalize_whitespace t = [] \<longleftrightarrow> is_blank t) \<and>
   filter (\<lambda>c. \<not> is_space c) (normalize_whitespace t) = filter (\<lambda>c. \<not> is_space c) t"
  using chunk_attachment_empty_iff normalize_empty_iff substance_normalize by (simp add: substance_def)

subsection \<open>Pacing\<close>

text \<open>The reports of a sequence of failures of one chunk table, and the last record.\<close>

fun note_failures ::
  "int \<Rightarrow> reported_failure option \<Rightarrow> (string \<times> int) list \<Rightarrow> failure_report list" where
  "note_failures interval prev [] = []"
| "note_failures interval prev ((name, now) # fs) =
     (let r = note_failure prev name now interval
      in r # note_failures interval (Some (fr_record r)) fs)"

definition pending_count :: "reported_failure option \<Rightarrow> nat" where
  "pending_count prev = (case prev of None \<Rightarrow> 0 | Some p \<Rightarrow> rf_since_report p)"

definition told :: "failure_report \<Rightarrow> nat" where
  "told r = (if fr_log_it r then 1 + fr_suppressed r else 0)"

lemma note_failure_counts:
  "prev = None \<or> rf_exc_name (the prev) = name \<Longrightarrow>
   told (note_failure prev name now interval) + rf_since_report (fr_record (note_failure prev name now interval)) =
     Suc (pending_count prev) \<and> rf_exc_name (fr_record (note_failure prev name now interval)) = name"
  by (auto simp: note_failure_def told_def pending_count_def Let_def split: option.splits)

lemma note_failures_count:
  "\<forall>f \<in> set fs. fst f = name \<Longrightarrow> prev = None \<or> rf_exc_name (the prev) = name \<Longrightarrow>
   sum_list (map told (note_failures interval prev fs)) +
     pending_count (if fs = [] then prev else Some (fr_record (last (note_failures interval prev fs)))) =
   pending_count prev + length fs"
proof (induction fs arbitrary: prev)
  case (Cons f fs)
  obtain n now where f: "f = (n, now)" by force
  with Cons.prems have n: "n = name" by simp
  let ?r = "note_failure prev name now interval"
  have r: "told ?r + rf_since_report (fr_record ?r) = Suc (pending_count prev)" "rf_exc_name (fr_record ?r) = name"
    using note_failure_counts [OF Cons.prems(2)] by auto
  have "note_failures interval p gs = [] \<longleftrightarrow> gs = []" for p gs
    by (cases gs) (auto simp: Let_def split: prod.splits)
  then show ?case
    using Cons.IH [of "Some (fr_record ?r)"] Cons.prems(1) r
    by (cases "fs = []") (auto simp: f n Let_def pending_count_def)
qed simp

text \<open>
  A throttled failure is deferred, not lost: while the failures of a chunk table keep their exception
  type, the failures named by the reports so far, together with the count the next report will name,
  are exactly the failures there were.
\<close>

theorem throttle_loses_no_count:
  assumes "\<forall>f \<in> set fs. fst f = name" "fs \<noteq> []"
  shows "sum_list (map (\<lambda>r. if fr_log_it r then 1 + fr_suppressed r else 0) (note_failures interval None fs)) +
    rf_since_report (fr_record (last (note_failures interval None fs))) = length fs"
  using note_failures_count [OF assms(1), of None interval] assms(2)
  by (simp add: pending_count_def told_def [abs_def])

theorem throttle_loses_no_count_witness:
  "sum_list (map (\<lambda>r. if fr_log_it r then 1 + fr_suppressed r else 0)
      (note_failures 300 None [(''ConnectionError'', 0), (''ConnectionError'', 5), (''ConnectionError'', 10)])) +
    rf_since_report (fr_record (last
      (note_failures 300 None [(''ConnectionError'', 0), (''ConnectionError'', 5), (''ConnectionError'', 10)]))) = 3"
  using throttle_loses_no_count [of "[(''ConnectionError'', 0), (''ConnectionError'', 5), (''ConnectionError'', 10)]" "''ConnectionError''" 300]
  by simp

text \<open>When the type changes, the count of the old type is dropped: here three failures, of which two are ever named.\<close>

theorem type_change_drops_count:
  "sum_list (map (\<lambda>r. if fr_log_it r then 1 + fr_suppressed r else 0)
      (note_failures 300 None [(''ConnectionError'', 0), (''ConnectionError'', 5), (''TimeoutError'', 10)])) = 2 \<and>
   rf_since_report (fr_record (last
      (note_failures 300 None [(''ConnectionError'', 0), (''ConnectionError'', 5), (''TimeoutError'', 10)]))) = 0"
  by (simp add: note_failure_def)

lemma streak_bounds:
  "0 \<le> max_steps \<Longrightarrow> 0 \<le> next_idle_streak k progress max_steps \<and> next_idle_streak k progress max_steps \<le> max_steps"
  by (simp add: next_idle_streak_def)

lemma sleep_within:
  assumes "0 \<le> k" "k \<le> m" "0 \<le> p"
  shows "p \<le> sweep_sleep_seconds k p \<and> sweep_sleep_seconds k p \<le> p * (1 + m)"
proof -
  have "p * (1 + k) \<le> p * (1 + m)" using assms by (intro mult_left_mono) auto
  moreover have "p * 1 \<le> p * (1 + k)" using assms by (intro mult_left_mono) auto
  ultimately show ?thesis by (simp add: sweep_sleep_seconds_def)
qed

subsection \<open>Quoted lines\<close>

definition arrow_first :: "string \<Rightarrow> bool" where
  "arrow_first s \<longleftrightarrow> (case dropWhile is_space s of [] \<Rightarrow> False | d # _ \<Rightarrow> d = CHR ''>'')"

lemma arrow_first_simps [simp]:
  "\<not> arrow_first []"
  "arrow_first (c # cs) \<longleftrightarrow> (if is_space c then arrow_first cs else c = CHR ''>'')"
  by (simp_all add: arrow_first_def)

lemma sub_arrow_lines_Cons:
  "sub_arrow_lines bol (c # cs) =
     (if bol \<and> arrow_first (c # cs) then sub_arrow_lines False (dropWhile dot (tl (dropWhile is_space (c # cs))))
      else c # sub_arrow_lines (c = newline) cs)"
proof (cases "dropWhile is_space (c # cs)")
  case Nil
  then show ?thesis by (simp only: sub_arrow_lines.simps arrow_first_def Nil list.case simp_thms if_False)
next
  case (Cons d ds)
  then show ?thesis by (simp only: sub_arrow_lines.simps arrow_first_def Cons list.case list.sel)
qed

declare sub_arrow_lines.simps(2) [simp del]

lemma arrow_first_iff: "arrow_first s \<longleftrightarrow> (\<exists>ds. dropWhile is_space s = CHR ''>'' # ds)"
  by (cases "dropWhile is_space s") (simp_all only: arrow_first_def list.case, auto)

lemma arrow_rest_shorter: "arrow_first s \<Longrightarrow> length (dropWhile dot (tl (dropWhile is_space s))) < length s"
proof -
  assume "arrow_first s"
  then obtain ds where ds: "dropWhile is_space s = CHR ''>'' # ds" by (auto simp only: arrow_first_iff)
  have "length (CHR ''>'' # ds) \<le> length s" using length_dropWhile_le [of is_space s] by (simp only: ds)
  moreover have "length (dropWhile dot ds) \<le> length ds" by (rule length_dropWhile_le)
  ultimately show ?thesis by (simp add: ds)
qed

text \<open>At the start of a line, or where no arrow comes next, none comes next in the result.\<close>

lemma sub_arrow_first: "bol \<or> \<not> arrow_first s \<Longrightarrow> \<not> arrow_first (sub_arrow_lines bol s)"
proof (induction "length s" arbitrary: bol s rule: less_induct)
  case less
  show ?case
  proof (cases s)
    case (Cons c cs)
    show ?thesis
    proof (cases "bol \<and> arrow_first s")
      case True
      let ?rest = "dropWhile dot (tl (dropWhile is_space s))"
      have len: "length ?rest < length s" using True by (simp only: arrow_rest_shorter)
      have sub: "sub_arrow_lines bol s = sub_arrow_lines False ?rest"
        using True Cons by (simp only: sub_arrow_lines_Cons) simp
      show ?thesis
      proof (cases ?rest)
        case Nil
        show ?thesis by (simp only: sub Nil sub_arrow_lines.simps arrow_first_simps not_False_eq_True)
      next
        case (Cons d ds)
        then have "d = newline" using hd_dropWhile [of dot "tl (dropWhile is_space s)"] by (simp add: dot_def)
        moreover have "\<not> arrow_first (sub_arrow_lines True ds)" using less(1) [of ds True] len Cons by simp
        ultimately show ?thesis by (simp add: sub Cons sub_arrow_lines_Cons)
      qed
    next
      case False
      then have sub: "sub_arrow_lines bol s = c # sub_arrow_lines (c = newline) cs"
        using Cons by (simp only: sub_arrow_lines_Cons) simp
      from False less(2) have "\<not> arrow_first s" by blast
      with Cons less(1) [of cs "c = newline"] have "\<not> arrow_first (c # sub_arrow_lines (c = newline) cs)"
        by (simp split: if_splits)
      then show ?thesis by (simp only: sub not_False_eq_True)
    qed
  qed simp
qed

lemma sub_arrow_inner:
  "sub_arrow_lines bol s = p @ newline # q \<Longrightarrow> \<not> arrow_first q"
proof (induction "length s" arbitrary: bol s p rule: less_induct)
  case less
  show ?case
  proof (cases s)
    case Nil
    with less(2) show ?thesis by simp
  next
    case (Cons c cs)
    show ?thesis
    proof (cases "bol \<and> arrow_first s")
      case True
      let ?rest = "dropWhile dot (tl (dropWhile is_space s))"
      have "length ?rest < length s" using True by (simp only: arrow_rest_shorter)
      moreover have "sub_arrow_lines bol s = sub_arrow_lines False ?rest"
        using True Cons by (simp only: sub_arrow_lines_Cons) simp
      ultimately show ?thesis using less(1) [of ?rest False p] less(2) by simp
    next
      case False
      then have sub: "sub_arrow_lines bol s = c # sub_arrow_lines (c = newline) cs"
        using Cons by (simp only: sub_arrow_lines_Cons) simp
      show ?thesis
      proof (cases p)
        case Nil
        with sub less(2) have "c = newline" "q = sub_arrow_lines True cs" by auto
        then show ?thesis by (simp add: sub_arrow_first)
      next
        case (Cons a p')
        with sub less(2) have "sub_arrow_lines (c = newline) cs = p' @ newline # q" by simp
        with less(1) [of cs "c = newline" p'] \<open>s = c # cs\<close> show ?thesis by simp
      qed
    qed
  qed
qed

text \<open>
  No quoted line survives: wherever a line of the stripped body starts, its first character that is no
  white space is not the arrow of a quotation.
\<close>

theorem no_quoted_line_survives:
  assumes "strip_quoted_replies body = p @ q" "p = [] \<or> last p = newline"
  shows "\<not> startswith (lstrip q) ''>''"
proof -
  have "\<not> arrow_first q"
  proof (cases "p = []")
    case True
    with assms(1) show ?thesis by (metis append_Nil strip_quoted_replies_def sub_arrow_first)
  next
    case False
    with assms(2) have "p = butlast p @ [newline]" by (metis append_butlast_last_id)
    with assms(1) show ?thesis by (metis append.assoc append_Cons append_Nil strip_quoted_replies_def sub_arrow_inner)
  qed
  then show ?thesis
    by (cases "dropWhile is_space q") (simp_all only: arrow_first_iff startswith_def lstrip_def, simp_all)
qed

theorem no_quoted_line_survives_witness:
  "strip_quoted_replies (''yes'' @ newline # ''> no?'' @ newline # ''ok'') = (''yes'' @ [newline]) @ newline # ''ok'' \<and>
   \<not> startswith (lstrip (newline # ''ok'')) ''>''"
proof -
  have run: "strip_quoted_replies (''yes'' @ newline # ''> no?'' @ newline # ''ok'') = (''yes'' @ [newline]) @ newline # ''ok''"
    by code_simp
  from no_quoted_line_survives [OF run] run show ?thesis by simp
qed

end
