(* ===== verification/EmbedSafety.thy ===== *)
theory EmbedSafety
  imports Embed ChunkSafety ExtractSafety
begin

text \<open>
  What the embedding worker promises. Messages, chunks and languages are each a \<open>work_queue\<close>, so
  sweeps settle them; attachment texts are one only while none makes the chunker raise, because a
  failing text leaves no trace. A stored vector belongs to its chunk's text.
\<close>

subsection \<open>Pacing of the loop\<close>

lemma embed_sleeps:
  assumes "0 \<le> ec_idle_backoff_max_steps cfg" "0 \<le> ec_poll_interval cfg"
  shows "x \<in> set (wk_sleeps (run_embed_worker cfg det tns s)) \<Longrightarrow> x \<in> set (wk_sleeps s) \<or>
    ec_poll_interval cfg \<le> x \<and> x \<le> ec_poll_interval cfg * (1 + ec_idle_backoff_max_steps cfg)"
proof (induction tns arbitrary: s)
  case (Cons tn tns)
  let ?k = "wk_streak (embed_turn cfg det tn s)"
  have "0 \<le> ?k \<and> ?k \<le> ec_idle_backoff_max_steps cfg"
    using streak_bounds [OF assms(1)] by (simp add: embed_turn_def Let_def)
  moreover have "wk_sleeps (embed_turn cfg det tn s) = wk_sleeps s @ [sweep_sleep_seconds ?k (ec_poll_interval cfg)]"
    by (simp add: embed_turn_def Let_def)
  ultimately show ?case
    using Cons.IH [of "embed_turn cfg det tn s"] Cons.prems sleep_within [of ?k _ "ec_poll_interval cfg"] assms(2)
    by auto
qed simp

text \<open>
  The worker never busy-polls and never oversleeps: each sleep is at least one poll interval, and at most the
  interval times one more than the configured number of backoff steps.
\<close>

theorem embed_sleeps_bounded:
  assumes "0 \<le> ec_idle_backoff_max_steps cfg" "0 \<le> ec_poll_interval cfg" "wk_sleeps s = []"
  shows "list_all (\<lambda>x. ec_poll_interval cfg \<le> x \<and> x \<le> ec_poll_interval cfg * (1 + ec_idle_backoff_max_steps cfg))
    (wk_sleeps (run_embed_worker cfg det tns s))"
  using embed_sleeps [OF assms(1,2), of _ det tns s] assms(3) by (auto simp: list_all_iff)

subsection \<open>What a step may change\<close>

definition tries_left :: "embed_cfg \<Rightarrow> failure_row option \<Rightarrow> nat" where
  "tries_left cfg f =
     (case f of None \<Rightarrow> nat (ec_max_chunk_retries cfg) + 1
      | Some r \<Rightarrow> nat (ec_max_chunk_retries cfg - fl_retry_count r))"

lemma given_up_tries: "given_up cfg f \<longleftrightarrow> tries_left cfg f = 0"
  by (auto simp: given_up_def tries_left_def split: option.split)

lemma tries_left_bump: "tries_left cfg (Some (bump e f)) \<le> tries_left cfg f - 1"
  by (auto simp: tries_left_def bump_def split: option.split)

text \<open>
  No operation of a sweep loses a message, a text with substance, a chunk or a failure count, and none
  takes back a language verdict.
\<close>

definition kept_message :: "embed_message \<Rightarrow> embed_message \<Rightarrow> bool" where
  "kept_message m m' \<longleftrightarrow> em_id m' = em_id m \<and> em_row m' = em_row m \<and> (lang_claimable m' \<longrightarrow> lang_claimable m)"

definition kept_text :: "bytes \<times> string \<Rightarrow> bytes \<times> string \<Rightarrow> bool" where
  "kept_text t t' \<longleftrightarrow> fst t' = fst t \<and> (snd t' = snd t \<or> is_blank (snd t) \<and> snd t' = [])"

definition advances :: "embed_cfg \<Rightarrow> embed_db \<Rightarrow> embed_db \<Rightarrow> bool" where
  "advances cfg d d' \<longleftrightarrow>
     list_all2 kept_message (ed_messages d) (ed_messages d') \<and>
     list_all2 kept_text (ed_text d) (ed_text d') \<and>
     (\<forall>t ow. has_chunks d t ow \<longrightarrow> has_chunks d' t ow) \<and>
     (\<forall>mid. tries_left cfg (ed_failed_chunkings d' mid) \<le> tries_left cfg (ed_failed_chunkings d mid)) \<and>
     (\<forall>t cid. tries_left cfg (ed_failed_embeddings d' t cid) \<le> tries_left cfg (ed_failed_embeddings d t cid))"

lemma kept_message_refl [simp]: "kept_message m m"
  by (simp add: kept_message_def)

lemma kept_text_refl [simp]: "kept_text t t"
  by (simp add: kept_text_def)

lemma kept_text_trans: "kept_text t u \<Longrightarrow> kept_text u v \<Longrightarrow> kept_text t v"
  by (auto simp: kept_text_def is_blank_def)

lemma advances_refl [simp]: "advances cfg d d"
  by (simp add: advances_def list_all2_refl)

lemma advances_trans: "advances cfg d d1 \<Longrightarrow> advances cfg d1 d2 \<Longrightarrow> advances cfg d d2"
  unfolding advances_def
  by (auto intro: list_all2_trans [of kept_message kept_message kept_message] list_all2_trans [of kept_text kept_text kept_text]
      kept_text_trans simp: kept_message_def) (meson order_trans)+

lemma advances_rollback [simp]: "advances cfg d (rollback_to d d1)"
  by (simp add: advances_def rollback_to_def list_all2_refl has_chunks_def)

lemma has_chunks_insert: "has_chunks (insert_chunk t ow sp d) t' ow' \<longleftrightarrow> has_chunks d t' ow' \<or> t' = t \<and> ow' = ow"
  by (auto simp: has_chunks_def insert_chunk_def Let_def list_ex_iff)

lemma advances_insert_chunk [simp]: "advances cfg d (insert_chunk t ow sp d)"
  by (simp add: advances_def has_chunks_insert) (simp add: insert_chunk_def Let_def list_all2_refl)

lemma advances_seq [simp]: "advances cfg d (d\<lparr>ed_seq := x\<rparr>)"
  by (simp add: advances_def list_all2_refl has_chunks_def)

lemma advances_insert_specs [simp]: "advances cfg d (snd (insert_specs fault i t ow sps d))"
  by (induction fault i t ow sps d rule: insert_specs.induct)
    (auto split: option.split intro: advances_trans [OF advances_insert_chunk])

lemma advances_failed_chunking [simp]: "advances cfg d (record_failed_chunking ok mid e d)"
  using tries_left_bump [of cfg e "ed_failed_chunkings d mid"]
  by (auto simp: record_failed_chunking_def advances_def list_all2_refl has_chunks_def)

lemma advances_failed_embedding [simp]: "advances cfg d (record_failed_embedding ok t cid e d)"
  using tries_left_bump [of cfg e "ed_failed_embeddings d t cid"]
  by (auto simp: record_failed_embedding_def advances_def list_all2_refl has_chunks_def)

lemma list_ex_update_where: "(\<And>x. P x \<Longrightarrow> Q (f x) = Q x) \<Longrightarrow> list_ex Q (update_where P f xs) = list_ex Q xs"
  by (induction xs) auto

lemma has_chunks_set_embedding [simp]: "has_chunks (set_embedding t cid v d) t' ow \<longleftrightarrow> has_chunks d t' ow"
  by (auto simp: has_chunks_def set_embedding_def list_ex_update_where)

lemma advances_set_embedding [simp]: "advances cfg d (set_embedding t cid v d)"
  by (simp add: advances_def) (simp add: set_embedding_def list_all2_refl)

lemma list_all2_update_where: "(\<And>x. R x x) \<Longrightarrow> (\<And>x. P x \<Longrightarrow> R x (f x)) \<Longrightarrow> list_all2 R xs (update_where P f xs)"
  by (induction xs) auto

lemma advances_update_message:
  "(\<And>m. kept_message m (f m)) \<Longrightarrow> advances cfg d (update_message mid f d)"
  by (simp add: advances_def update_message_def list_all2_refl has_chunks_def list_all2_update_where)

lemma advances_heal: "(\<And>t. t \<in> set (ed_text d) \<Longrightarrow> fst t = sha \<Longrightarrow> is_blank (snd t)) \<Longrightarrow> advances cfg d (heal_text sha d)"
proof -
  assume blank: "\<And>t. t \<in> set (ed_text d) \<Longrightarrow> fst t = sha \<Longrightarrow> is_blank (snd t)"
  have "list_all2 kept_text (ed_text d) (update_where (\<lambda>t. fst t = sha) (\<lambda>t. (fst t, [])) (ed_text d))"
    using blank by (auto simp: list_all2_conv_all_nth update_where_def kept_text_def)
  then show ?thesis by (simp add: advances_def heal_text_def list_all2_refl has_chunks_def)
qed

text \<open>The primary key of \<open>attachment_text\<close>, which every operation keeps.\<close>

definition texts_keyed :: "embed_db \<Rightarrow> bool" where
  "texts_keyed d \<longleftrightarrow> distinct (map fst (ed_text d))"

lemma advances_keyed: "advances cfg d d' \<Longrightarrow> texts_keyed d' \<longleftrightarrow> texts_keyed d"
proof -
  assume "advances cfg d d'"
  then have "list_all2 kept_text (ed_text d) (ed_text d')" by (simp add: advances_def)
  then have "map fst (ed_text d') = map fst (ed_text d)"
    by (induction rule: list_all2_induct) (auto simp: kept_text_def)
  then show ?thesis by (simp add: texts_keyed_def)
qed

lemma message_step_advances: "advances cfg d (snd (message_step cfg w m d))"
proof -
  let ?ow = "OfMessage (em_id m)"
  show ?thesis
  proof (cases "chunk_message (ew_tokenizer w) (ec_chunk cfg) (em_row m)")
    case (Inl e)
    then show ?thesis
      by (simp add: message_step_def Let_def) (metis advances_rollback advances_failed_chunking advances_trans)
  next
    case (Inr specs)
    obtain r d1 where ins: "insert_specs (ew_insert_fault w ?ow) 0 MessageChunks ?ow specs d = (r, d1)" by force
    then have "advances cfg d d1" using advances_insert_specs [of cfg d "ew_insert_fault w ?ow" 0 MessageChunks ?ow specs] by simp
    with Inr ins show ?thesis
      by (cases r) (auto simp: message_step_def Let_def intro: advances_trans [OF advances_rollback advances_failed_chunking])
  qed
qed

lemma message_step_advancesD: "message_step cfg w m d = (r, d1) \<Longrightarrow> advances cfg d d1"
  using message_step_advances [of cfg d w m] by simp

lemma message_steps_advance: "advances cfg d (snd (message_steps cfg w ms d))"
  by (induction cfg w ms d rule: message_steps.induct)
    (auto split: prod.split sum.split intro: advances_trans message_step_advancesD)

lemma finish_advances: "advances cfg d (snd r) \<Longrightarrow> advances cfg d (snd (finish cf d x r))"
  by (auto simp: finish_def split: prod.split sum.split option.split)

lemma chunk_messages_advance: "advances cfg d (snd (chunk_messages_lazily cfg w batch d))"
  by (auto simp: chunk_messages_lazily_def Let_def message_steps_advance finish_advances split: option.split)

lemma kept_text_find:
  "list_all2 kept_text ts us \<Longrightarrow> u \<in> set us \<Longrightarrow> \<exists>t \<in> set ts. kept_text t u"
  by (induction rule: list_all2_induct) auto

lemma blank_row_stays:
  assumes "advances cfg d0 d" "texts_keyed d0" "t \<in> set (ed_text d0)" "is_blank (snd t)" "u \<in> set (ed_text d)" "fst u = fst t"
  shows "is_blank (snd u)"
proof -
  from assms(1,5) obtain t' where t': "t' \<in> set (ed_text d0)" "kept_text t' u"
    using kept_text_find [of "ed_text d0" "ed_text d" u] unfolding advances_def by blast
  with assms(6) have "fst t' = fst t" by (simp add: kept_text_def)
  with assms(2,3) t'(1) have "t' = t" by (auto simp: texts_keyed_def distinct_map dest: inj_onD)
  with t'(2) assms(4) show ?thesis by (auto simp: kept_text_def is_blank_def)
qed

lemma blob_chunk_step_advances:
  assumes "advances cfg d0 d" "texts_keyed d0" "t \<in> set (ed_text d0)"
  shows "advances cfg d (blob_chunk_step cfg w t d)"
proof (cases "chunk_attachment_text (ew_tokenizer w) (ec_chunk cfg) (snd t)")
  case (Inl e)
  then show ?thesis by (simp add: blob_chunk_step_def Let_def)
next
  case (Inr specs)
  have ins0: "advances cfg d (case insert_specs f 0 AttachmentChunks ow specs d1 of (Inl e, d2) \<Rightarrow> rollback_to d d2 | (Inr _, d2) \<Rightarrow> d2)"
    if "advances cfg d d1" for f ow d1
    using advances_trans [OF that advances_insert_specs [of cfg d1 f 0 AttachmentChunks ow specs]]
    by (auto split: prod.split sum.split)
  have "advances cfg d (heal_text (fst t) d)" if "is_blank (snd t)"
    using blank_row_stays [OF assms that] by (rule advances_heal)
  with Inr ins0 show ?thesis
    by (auto simp: blob_chunk_step_def Let_def split: option.split)
qed

lemma blob_chunk_steps_advance:
  "advances cfg d0 d \<Longrightarrow> texts_keyed d0 \<Longrightarrow> set ts \<subseteq> set (ed_text d0) \<Longrightarrow> advances cfg d (blob_chunk_steps cfg w ts d)"
proof (induction ts arbitrary: d)
  case (Cons t ts)
  then have a: "advances cfg d (blob_chunk_step cfg w t d)" by (intro blob_chunk_step_advances) auto
  moreover have "advances cfg d0 (blob_chunk_step cfg w t d)" by (rule advances_trans [OF Cons.prems(1) a])
  ultimately show ?case using Cons by (auto intro: advances_trans)
qed simp

lemma set_sort_by_sha [simp]: "set (sort_by_sha ts) = set ts"
proof -
  have "set (insert_by_sha t us) = insert t (set us)" for t us
    by (induction t us rule: insert_by_sha.induct) auto
  then show ?thesis by (induction ts) (simp_all add: sort_by_sha_def)
qed

lemma claim_texts_sub: "set (claim_texts w batch d) \<subseteq> set (ed_text d)"
  using set_take_subset [of batch] by (fastforce simp: claim_texts_def)

lemma chunk_attachments_advance: "texts_keyed d \<Longrightarrow> advances cfg d (snd (chunk_attachments_lazily cfg w batch d))"
  by (auto simp: chunk_attachments_lazily_def Let_def split: option.split
      intro!: finish_advances blob_chunk_steps_advance [OF advances_refl _ claim_texts_sub])

lemma store_vectors_advance: "advances cfg d (snd (store_vectors w t n cs vs d))"
  by (induction w t n cs vs d rule: store_vectors.induct)
    (auto split: option.split intro: advances_trans [OF advances_set_embedding] advances_trans [OF advances_failed_embedding])

lemma embed_and_store_advances: "advances cfg d (snd (embed_and_store w cs t d))"
  using store_vectors_advance [of cfg d w t 0 cs]
  by (auto simp: embed_and_store_def split: sum.split prod.split option.split) (metis snd_conv)+

lemma embed_table_advances: "advances cfg d (snd (embed_table cfg w t now log d))"
proof -
  obtain r d1 where e: "embed_and_store w (claim_unembedded cfg w t d) t d = (r, d1)" by force
  then have "advances cfg d d1" using embed_and_store_advances [of cfg d w "claim_unembedded cfg w t d" t] by simp
  with e show ?thesis by (auto simp: embed_table_def Let_def split: option.split sum.split)
qed

lemma lang_steps_advance: "advances cfg d (snd (lang_steps w rs n d))"
proof (induction w rs n d rule: lang_steps.induct)
  case (2 w r rs n d)
  have upd: "advances cfg d (update_message (fst r) (\<lambda>m. m\<lparr>em_body_lang := code, em_attempted_at := Some (ew_now w)\<rparr>) d)" for code
    by (rule advances_update_message) (simp add: kept_message_def lang_claimable_def)
  have mark: "advances cfg d (mark_attempted_safely w (fst r) d)"
    by (auto simp: mark_attempted_safely_def kept_message_def lang_claimable_def intro: advances_update_message)
  show ?case
    using 2 by (auto split: sum.split option.split intro: advances_trans [OF upd] advances_trans [OF mark])
qed simp

lemma lang_pass_advances: "advances cfg d (snd (run_lang_detect_pass w limit d))"
  using lang_steps_advance [of cfg d w "claim_lang w limit d" 0]
  by (auto simp: run_lang_detect_pass_def Let_def split: option.split sum.split prod.split)

lemma sweep_advances: "texts_keyed d \<Longrightarrow> advances cfg d (snd (run_embed_worker_once cfg det w now log d))"
proof -
  assume keyed: "texts_keyed d"
  let ?b = "nat (max (ec_batch_size cfg) (ec_chunk_batch_size cfg))"
  obtain r1 d1 where 1: "chunk_messages_lazily cfg w ?b d = (r1, d1)" by force
  obtain r2 d2 where 2: "chunk_attachments_lazily cfg w ?b d1 = (r2, d2)" by force
  obtain r3 l3 d3 where 3: "embed_table cfg w MessageChunks now log d2 = ((r3, l3), d3)" by (metis prod.exhaust)
  obtain r4 l4 d4 where 4: "embed_table cfg w AttachmentChunks now l3 d3 = ((r4, l4), d4)" by (metis prod.exhaust)
  obtain r5 d5 where 5: "run_lang_detect_pass w (nat (ec_lang_batch_size cfg)) d4 = (r5, d5)" by force
  have a1: "advances cfg d d1" using chunk_messages_advance [of cfg d w ?b] 1 by simp
  then have "texts_keyed d1" using advances_keyed keyed by blast
  then have a2: "advances cfg d d2"
    using advances_trans [OF a1] chunk_attachments_advance [of d1 cfg w ?b] 2 by simp
  have a3: "advances cfg d d3" using advances_trans [OF a2] embed_table_advances [of cfg d2 w MessageChunks now log] 3 by simp
  have a4: "advances cfg d d4" using advances_trans [OF a3] embed_table_advances [of cfg d3 w AttachmentChunks now l3] 4 by simp
  have a5: "advances cfg d d5" using advances_trans [OF a4] lang_pass_advances [of cfg d4 w "nat (ec_lang_batch_size cfg)"] 5 by simp
  show ?thesis
    using a1 a2 a3 a4 a5 by (simp add: run_embed_worker_once_def Let_def 1 2 3 4 5 split: sum.split)
qed

subsection \<open>A fair sweep\<close>

text \<open>
  Nothing outside the rows fails: no lock, no contention, every failure can be logged, the backend
  answers with one vector per text. Rows may still be poison: a tokenizer or a statement may raise for
  them.
\<close>

definition fair_world :: "tokenizer \<Rightarrow> embed_world \<Rightarrow> bool" where
  "fair_world tk w \<longleftrightarrow>
     ew_tokenizer w = tk \<and> (\<forall>s e. tk_encode tk s = Inl e \<longrightarrow> \<not> is_contention e) \<and>
     (\<forall>st. ew_claim_fault w st = None \<and> ew_commit_fault w st = None) \<and>
     (\<forall>i. \<not> ew_locked_message w i) \<and> (\<forall>b. \<not> ew_locked_blob w b) \<and> (\<forall>t i. \<not> ew_locked_chunk w t i) \<and>
     (\<forall>ow i e. ew_insert_fault w ow i = Some e \<longrightarrow> \<not> is_contention e) \<and>
     (\<forall>sha i. ew_insert_fault w (OfBlob sha) i = None) \<and> (\<forall>sha. ew_heal_fault w sha = None) \<and>
     (\<forall>t i e. ew_store_fault w t i = Some e \<longrightarrow> \<not> is_contention e) \<and>
     (\<forall>t texts. \<exists>vs. ew_backend w t texts = Inr vs \<and> length vs = length texts) \<and>
     (\<forall>i. ew_chunking_log_ok w i) \<and> (\<forall>t i. ew_embedding_log_ok w t i) \<and> (\<forall>i. ew_stamp_ok w i) \<and>
     (\<forall>s e. ew_detect w s = Inl e \<longrightarrow> \<not> is_contention e) \<and> (\<forall>i e. ew_lang_fault w i = Some e \<longrightarrow> \<not> is_contention e)"

lemma value_error_not_contention [simp]: "\<not> is_contention (value_error msg)"
  by (simp add: is_contention_def value_error_def)

lemma fair_faults:
  assumes "fair_world tk w"
  shows "ew_claim_fault w st = None" "ew_commit_fault w st = None" "ew_locked_message w mid = False"
    "ew_locked_blob w sha = False" "ew_locked_chunk w t cid = False" "ew_insert_fault w (OfBlob sha) k = None"
    "ew_heal_fault w sha = None" "ew_chunking_log_ok w mid = True" "ew_embedding_log_ok w t cid = True"
    "ew_stamp_ok w mid = True" "ew_tokenizer w = tk"
  using assms by (auto simp: fair_world_def)

lemma fair_errors:
  assumes "fair_world tk w"
  shows "tk_encode tk s = Inl e \<Longrightarrow> \<not> is_contention e" "ew_insert_fault w ow k = Some e \<Longrightarrow> \<not> is_contention e"
    "ew_store_fault w t cid = Some e \<Longrightarrow> \<not> is_contention e" "ew_detect w s = Inl e \<Longrightarrow> \<not> is_contention e"
    "ew_lang_fault w mid = Some e \<Longrightarrow> \<not> is_contention e" "\<exists>vs. ew_backend w t texts = Inr vs \<and> length vs = length texts"
  using assms by (auto simp: fair_world_def)

lemma specs_from_error:
  "(\<And>s e. tk_encode tk s = Inl e \<Longrightarrow> \<not> is_contention e) \<Longrightarrow> specs_from tk k i ps = Inl e \<Longrightarrow> \<not> is_contention e"
  by (induction tk k i ps arbitrary: e rule: specs_from.induct) (auto simp: bindr_Inl_iff)

lemma split_by_tokens_error:
  "(\<And>s e. tk_encode tk s = Inl e \<Longrightarrow> \<not> is_contention e) \<Longrightarrow> split_by_tokens tk t sz ov = Inl e \<Longrightarrow> \<not> is_contention e"
  by (auto simp: split_by_tokens_def bindr_Inl_iff split: if_splits)

lemma header_text_error:
  "(\<And>s e. tk_encode tk s = Inl e \<Longrightarrow> \<not> is_contention e) \<Longrightarrow> header_text tk m body = Inl e \<Longrightarrow> \<not> is_contention e"
  by (auto simp: header_text_def Let_def bindr_Inl_iff)

lemma chunk_message_error:
  assumes enc: "\<And>s e. tk_encode tk s = Inl e \<Longrightarrow> \<not> is_contention e" and "chunk_message tk cfg m = Inl e"
  shows "\<not> is_contention e"
  using assms(2) enc specs_from_error [OF enc] split_by_tokens_error [OF enc] header_text_error [OF enc]
  by (auto simp: chunk_message_def Let_def bindr_Inl_iff split: if_splits)

lemma chunk_message_nonempty: "chunk_message tk cfg m = Inr sps \<Longrightarrow> sps \<noteq> []"
  by (auto simp: chunk_message_def Let_def bindr_Inr_iff dest: specs_from_length split: if_splits)

lemma insert_specs_error:
  "insert_specs fault i t ow sps d = (Inl e, d') \<Longrightarrow> \<exists>k. fault k = Some e"
  by (induction fault i t ow sps d rule: insert_specs.induct) (auto split: option.splits)

lemma insert_specs_stores:
  "insert_specs fault i t ow sps d = (Inr u, d') \<Longrightarrow> sps \<noteq> [] \<or> has_chunks d t ow \<Longrightarrow> has_chunks d' t ow"
proof (induction fault i t ow sps d rule: insert_specs.induct)
  case (2 fault i t ow sp sps d)
  then show ?case by (auto simp: has_chunks_insert split: option.splits)
qed (auto split: option.splits)

subsection \<open>The messages\<close>

definition message_weight :: "embed_cfg \<Rightarrow> embed_db \<Rightarrow> int \<Rightarrow> nat" where
  "message_weight cfg d mid =
     (if has_chunks d MessageChunks (OfMessage mid) then 0 else tries_left cfg (ed_failed_chunkings d mid))"

definition message_budget :: "embed_cfg \<Rightarrow> embed_db \<Rightarrow> nat" where
  "message_budget cfg d = sum_list (map (\<lambda>m. message_weight cfg d (em_id m)) (ed_messages d))"

definition messages_idle :: "embed_cfg \<Rightarrow> embed_db \<Rightarrow> bool" where
  "messages_idle cfg d \<longleftrightarrow> (\<forall>m \<in> set (ed_messages d). \<not> chunkable_message cfg d m)"

lemma chunkable_weight: "chunkable_message cfg d m \<longleftrightarrow> message_weight cfg d (em_id m) \<noteq> 0"
  by (simp add: chunkable_message_def message_weight_def given_up_tries)

lemma message_weight_mono: "advances cfg d d' \<Longrightarrow> message_weight cfg d' mid \<le> message_weight cfg d mid"
  by (simp add: advances_def message_weight_def)

lemma advances_ids: "advances cfg d d' \<Longrightarrow> map em_id (ed_messages d') = map em_id (ed_messages d)"
proof -
  assume "advances cfg d d'"
  then have "list_all2 kept_message (ed_messages d) (ed_messages d')" by (simp add: advances_def)
  then show ?thesis by (induction rule: list_all2_induct) (auto simp: kept_message_def)
qed

lemma message_budget_ids: "message_budget cfg d = sum_list (map (message_weight cfg d) (map em_id (ed_messages d)))"
  by (simp add: message_budget_def comp_def)

lemma message_budget_mono: "advances cfg d d' \<Longrightarrow> message_budget cfg d' \<le> message_budget cfg d"
  by (simp only: message_budget_ids advances_ids) (intro sum_list_mono message_weight_mono)

lemma message_budget_less:
  assumes "advances cfg d d'" "m \<in> set (ed_messages d)" "message_weight cfg d' (em_id m) < message_weight cfg d (em_id m)"
  shows "message_budget cfg d' < message_budget cfg d"
  unfolding message_budget_ids advances_ids [OF assms(1)]
  using assms by (intro sum_list_strict_mono_ex [where x = "em_id m"] message_weight_mono) auto

lemma messages_idle_stays: "advances cfg d d' \<Longrightarrow> messages_idle cfg d \<Longrightarrow> messages_idle cfg d'"
proof -
  assume a: "advances cfg d d'" "messages_idle cfg d"
  have "message_weight cfg d' mid = 0" if "mid \<in> set (map em_id (ed_messages d'))" for mid
    using that a message_weight_mono [OF a(1), of mid] by (auto simp: advances_ids messages_idle_def chunkable_weight)
  then show ?thesis by (auto simp: messages_idle_def chunkable_weight)
qed

lemma message_step_fair:
  assumes "fair_world tk w"
  shows "\<exists>d1. message_step cfg w m d = (Inr (), d1) \<and>
    (chunkable_message cfg d m \<longrightarrow> message_weight cfg d1 (em_id m) < message_weight cfg d (em_id m))"
proof -
  let ?ow = "OfMessage (em_id m)"
  let ?r = "case chunk_message (ew_tokenizer w) (ec_chunk cfg) (em_row m) of Inl e \<Rightarrow> (Inl e, d)
      | Inr specs \<Rightarrow> insert_specs (ew_insert_fault w ?ow) 0 MessageChunks ?ow specs d"
  obtain r d1 where r: "?r = (r, d1)" by force
  show ?thesis
  proof (cases r)
    case (Inl e)
    with r have "\<not> is_contention e"
      using chunk_message_error [OF fair_errors(1) [OF assms]] fair_errors(2) [OF assms] fair_faults(11) [OF assms]
      by (auto split: sum.splits dest: insert_specs_error)
    moreover have "message_weight cfg (record_failed_chunking True (em_id m) e (rollback_to d d1)) (em_id m)
        < message_weight cfg d (em_id m)" if "chunkable_message cfg d m"
      using that tries_left_bump [of cfg e "ed_failed_chunkings d (em_id m)"]
      by (auto simp: message_weight_def chunkable_message_def given_up_tries record_failed_chunking_def rollback_to_def has_chunks_def)
    ultimately show ?thesis using r Inl fair_faults(8) [OF assms] by (simp add: message_step_def Let_def)
  next
    case (Inr u)
    with r have "has_chunks d1 MessageChunks ?ow"
      by (auto split: sum.splits dest: insert_specs_stores chunk_message_nonempty)
    with r Inr show ?thesis
      by (auto simp: message_step_def Let_def message_weight_def chunkable_weight)
  qed
qed

lemma message_steps_fair:
  assumes "fair_world tk w"
  shows "fst (message_steps cfg w ms d) = Inr ()"
proof (induction ms arbitrary: d)
  case (Cons m ms)
  with message_step_fair [OF assms, of cfg m d] show ?case by auto
qed simp

lemma messages_fair_spends:
  assumes "fair_world tk w" "0 < batch"
  shows "\<exists>n d1. chunk_messages_lazily cfg w batch d = (Inr n, d1) \<and>
    (\<not> messages_idle cfg d \<longrightarrow> message_budget cfg d1 < message_budget cfg d)"
proof (cases "claim_messages cfg w batch d")
  case Nil
  with assms(2) have "filter (\<lambda>m. chunkable_message cfg d m \<and> \<not> ew_locked_message w (em_id m)) (ed_messages d) = []"
    by (simp add: claim_messages_def sort_key_Nil_iff)
  then have "messages_idle cfg d"
    by (simp add: messages_idle_def fair_faults(3) [OF assms(1)] filter_empty_conv)
  with Nil show ?thesis by (simp add: chunk_messages_lazily_def fair_faults [OF assms(1)])
next
  case (Cons m ms)
  then have "m \<in> set (sort_key em_id (filter (\<lambda>m. chunkable_message cfg d m \<and> \<not> ew_locked_message w (em_id m)) (ed_messages d)))"
    unfolding claim_messages_def by (metis list.set_intros(1) in_set_takeD)
  then have m: "m \<in> set (ed_messages d)" "chunkable_message cfg d m" by auto
  obtain d1 where d1: "message_step cfg w m d = (Inr (), d1)" "message_weight cfg d1 (em_id m) < message_weight cfg d (em_id m)"
    using message_step_fair [OF assms(1), of cfg m d] m(2) by auto
  obtain d2 where d2: "message_steps cfg w ms d1 = (Inr (), d2)"
    using message_steps_fair [OF assms(1), of cfg ms d1] by (metis prod.collapse)
  have "advances cfg d1 d2" "advances cfg d d2"
    using message_steps_advance [of cfg d1 w ms] message_steps_advance [of cfg d w "m # ms"] d1 d2 by auto
  with message_weight_mono [of cfg d1 d2 "em_id m"] d1(2) have "message_budget cfg d2 < message_budget cfg d"
    by (intro message_budget_less [OF _ m(1)]) auto
  with Cons d1 d2 show ?thesis by (simp add: chunk_messages_lazily_def finish_def fair_faults [OF assms(1)])
qed

subsection \<open>The attachment texts\<close>

lemma count_mono2:
  "list_all2 R xs ys \<Longrightarrow> (\<And>x y. R x y \<Longrightarrow> Q y \<Longrightarrow> P x) \<Longrightarrow> length (filter Q ys) \<le> length (filter P xs)"
  by (induction rule: list_all2_induct) (auto intro: le_SucI)

lemma count_less2:
  assumes "list_all2 R xs ys" "\<And>x y. R x y \<Longrightarrow> Q y \<Longrightarrow> P x" "x \<in> set xs" "P x" "\<And>y. y \<in> set ys \<Longrightarrow> R x y \<Longrightarrow> \<not> Q y"
  shows "length (filter Q ys) < length (filter P xs)"
  using assms(1,3,5)
proof (induction rule: list_all2_induct)
  case (Cons a as b bs)
  have le: "length (filter Q bs) \<le> length (filter P as)" by (rule count_mono2 [OF Cons.hyps(2) assms(2)])
  show ?case
  proof (cases "x = a")
    case True
    with Cons.hyps Cons.prems assms(4) le show ?thesis by simp
  next
    case False
    with Cons have "length (filter Q bs) < length (filter P as)" by simp
    with Cons.hyps(1) assms(2) [of a b] show ?thesis by auto
  qed
qed simp

definition text_budget :: "embed_db \<Rightarrow> nat" where
  "text_budget d = length (filter (chunkable_text d) (ed_text d))"

definition texts_idle :: "embed_db \<Rightarrow> bool" where
  "texts_idle d \<longleftrightarrow> (\<forall>t \<in> set (ed_text d). \<not> chunkable_text d t)"

text \<open>No stored text makes the chunker raise.\<close>

definition poison_free :: "tokenizer \<Rightarrow> embed_cfg \<Rightarrow> embed_db \<Rightarrow> bool" where
  "poison_free tk cfg d \<longleftrightarrow> (\<forall>t \<in> set (ed_text d). is_ok (chunk_attachment_text tk (ec_chunk cfg) (snd t)))"

lemma advances_chunkable_text: "advances cfg d d' \<Longrightarrow> kept_text t t' \<Longrightarrow> chunkable_text d' t' \<Longrightarrow> chunkable_text d t"
  by (auto simp: advances_def kept_text_def chunkable_text_def)

lemma advances_texts: "advances cfg d d' \<Longrightarrow> list_all2 kept_text (ed_text d) (ed_text d')"
  by (simp add: advances_def)

lemma text_budget_mono: "advances cfg d d' \<Longrightarrow> text_budget d' \<le> text_budget d"
  unfolding text_budget_def
  by (rule count_mono2 [where R = kept_text]) (auto simp only: advances_texts advances_chunkable_text)

lemma texts_idle_budget: "texts_idle d \<longleftrightarrow> text_budget d = 0"
  by (auto simp: texts_idle_def text_budget_def filter_empty_conv)

lemma texts_idle_stays: "advances cfg d d' \<Longrightarrow> texts_idle d \<Longrightarrow> texts_idle d'"
  using text_budget_mono by (fastforce simp: texts_idle_budget)

lemma chunk_attachment_blank: "is_blank s \<Longrightarrow> chunk_attachment_text tk cfg s = Inr []"
  by (simp add: chunk_attachment_empty_iff)

lemma poison_free_stays: "advances cfg d d' \<Longrightarrow> poison_free tk cfg d \<Longrightarrow> poison_free tk cfg d'"
proof -
  assume a: "advances cfg d d'" "poison_free tk cfg d"
  have "is_ok (chunk_attachment_text tk (ec_chunk cfg) (snd u))" if u: "u \<in> set (ed_text d')" for u
  proof -
    obtain t where "t \<in> set (ed_text d)" "kept_text t u"
      using kept_text_find [OF advances_texts [OF a(1)] u] by blast
    with a(2) show ?thesis by (auto simp: kept_text_def poison_free_def chunk_attachment_blank is_blank_def)
  qed
  then show ?thesis by (simp add: poison_free_def)
qed

lemma insert_specs_no_fault: "(\<And>k. fault k = None) \<Longrightarrow> \<exists>d1. insert_specs fault i t ow sps d = (Inr (), d1)"
  by (induction fault i t ow sps d rule: insert_specs.induct) auto

lemma blob_step_fair:
  assumes "fair_world tk w" "is_ok (chunk_attachment_text tk (ec_chunk cfg) (snd t))" "u \<in> set (ed_text (blob_chunk_step cfg w t d))" "fst u = fst t"
  shows "\<not> chunkable_text (blob_chunk_step cfg w t d) u"
proof -
  let ?ow = "OfBlob (fst t)"
  from assms(2) obtain specs where sp: "chunk_attachment_text tk (ec_chunk cfg) (snd t) = Inr specs"
    by (cases "chunk_attachment_text tk (ec_chunk cfg) (snd t)") auto
  show ?thesis
  proof (cases "specs = []")
    case True
    with sp have "is_blank (snd t)" by (simp add: chunk_attachment_empty_iff)
    with True sp assms(3,4) show ?thesis
      by (auto simp: blob_chunk_step_def Let_def fair_faults [OF assms(1)] heal_text_def chunkable_text_def set_update_where
          split: if_splits)
  next
    case False
    obtain d1 where d1: "insert_specs (ew_insert_fault w ?ow) 0 AttachmentChunks ?ow specs d = (Inr (), d1)"
      using insert_specs_no_fault [of "ew_insert_fault w ?ow"] fair_faults(6) [OF assms(1)] by metis
    with False have "has_chunks d1 AttachmentChunks ?ow" using insert_specs_stores by blast
    moreover have "blob_chunk_step cfg w t d = d1"
      using False sp d1 by (simp add: blob_chunk_step_def Let_def fair_faults(11) [OF assms(1)])
    ultimately show ?thesis using assms(4) by (simp add: chunkable_text_def)
  qed
qed

lemma texts_fair_spends:
  assumes "fair_world tk w" "0 < batch" "texts_keyed d" "poison_free tk cfg d"
  shows "\<exists>n d1. chunk_attachments_lazily cfg w batch d = (Inr n, d1) \<and> (\<not> texts_idle d \<longrightarrow> text_budget d1 < text_budget d)"
proof -
  let ?rows = "claim_texts w batch d"
  have run: "chunk_attachments_lazily cfg w batch d = (Inr (length ?rows), blob_chunk_steps cfg w ?rows d)"
    by (simp add: chunk_attachments_lazily_def finish_def fair_faults [OF assms(1)] Let_def)
  have "text_budget (blob_chunk_steps cfg w ?rows d) < text_budget d" if idle: "\<not> texts_idle d"
  proof -
    have "sort_by_sha (filter (\<lambda>t. chunkable_text d t \<and> \<not> ew_locked_blob w (fst t)) (ed_text d)) \<noteq> []"
      unfolding set_empty [symmetric] using idle by (auto simp: texts_idle_def fair_faults [OF assms(1)] filter_empty_conv)
    with assms(2) obtain t ts where rows: "?rows = t # ts"
      by (cases ?rows) (auto simp: claim_texts_def)
    then have "t \<in> set (sort_by_sha (filter (\<lambda>t. chunkable_text d t \<and> \<not> ew_locked_blob w (fst t)) (ed_text d)))"
      unfolding claim_texts_def by (metis list.set_intros(1) in_set_takeD)
    then have t: "t \<in> set (ed_text d)" "chunkable_text d t" by auto
    let ?d1 = "blob_chunk_step cfg w t d"
    have a1: "advances cfg d ?d1" by (rule blob_chunk_step_advances [OF advances_refl assms(3) t(1)])
    have sub: "set ts \<subseteq> set (ed_text d)" using claim_texts_sub [of w batch d] rows by auto
    have a2: "advances cfg ?d1 (blob_chunk_steps cfg w ts ?d1)" by (rule blob_chunk_steps_advance [OF a1 assms(3) sub])
    have ok: "is_ok (chunk_attachment_text tk (ec_chunk cfg) (snd t))" using assms(4) t(1) by (simp add: poison_free_def)
    have "text_budget ?d1 < text_budget d"
      unfolding text_budget_def
    proof (rule count_less2 [where R = kept_text and x = t])
      show "list_all2 kept_text (ed_text d) (ed_text ?d1)" using a1 by (simp add: advances_def)
      show "\<And>x y. kept_text x y \<Longrightarrow> chunkable_text ?d1 y \<Longrightarrow> chunkable_text d x"
        using advances_chunkable_text [OF a1] by blast
      show "\<And>y. y \<in> set (ed_text ?d1) \<Longrightarrow> kept_text t y \<Longrightarrow> \<not> chunkable_text ?d1 y"
        using blob_step_fair [OF assms(1) ok] by (simp add: kept_text_def)
    qed (use t in auto)
    moreover have "text_budget (blob_chunk_steps cfg w ts ?d1) \<le> text_budget ?d1" by (rule text_budget_mono [OF a2])
    ultimately show ?thesis by (simp add: rows)
  qed
  with run show ?thesis by blast
qed

subsection \<open>The languages\<close>

definition lang_budget :: "embed_db \<Rightarrow> nat" where
  "lang_budget d = length (filter lang_claimable (ed_messages d))"

definition lang_idle :: "embed_db \<Rightarrow> bool" where
  "lang_idle d \<longleftrightarrow> (\<forall>m \<in> set (ed_messages d). \<not> lang_claimable m)"

lemma lang_idle_budget: "lang_idle d \<longleftrightarrow> lang_budget d = 0"
  by (auto simp: lang_idle_def lang_budget_def filter_empty_conv)

lemma advances_messages: "advances cfg d d' \<Longrightarrow> list_all2 kept_message (ed_messages d) (ed_messages d')"
  by (simp add: advances_def)

lemma lang_budget_mono: "advances cfg d d' \<Longrightarrow> lang_budget d' \<le> lang_budget d"
  unfolding lang_budget_def by (rule count_mono2 [where R = kept_message]) (auto simp only: advances_messages kept_message_def)

lemma lang_idle_stays: "advances cfg d d' \<Longrightarrow> lang_idle d \<Longrightarrow> lang_idle d'"
  using lang_budget_mono by (fastforce simp: lang_idle_budget)

definition id_settled :: "int \<Rightarrow> embed_db \<Rightarrow> bool" where
  "id_settled mid d \<longleftrightarrow> (\<forall>m \<in> set (ed_messages d). em_id m = mid \<longrightarrow> \<not> lang_claimable m)"

lemma kept_message_find: "list_all2 kept_message ms ns \<Longrightarrow> n \<in> set ns \<Longrightarrow> \<exists>m \<in> set ms. kept_message m n"
  by (induction rule: list_all2_induct) auto

lemma id_settled_stays: "advances cfg d d' \<Longrightarrow> id_settled mid d \<Longrightarrow> id_settled mid d'"
  by (auto simp: id_settled_def kept_message_def dest!: kept_message_find [OF advances_messages])

lemma update_settles: "(\<And>m. em_id (f m) = em_id m) \<Longrightarrow> (\<And>m. em_attempted_at (f m) \<noteq> None) \<Longrightarrow> id_settled mid (update_message mid f d)"
  by (auto simp: id_settled_def update_message_def set_update_where lang_claimable_def)

lemma lang_steps_fair:
  assumes "fair_world tk w"
  shows "\<exists>k d1. lang_steps w rs n d = (Inr k, d1) \<and> (rs \<noteq> [] \<longrightarrow> id_settled (fst (hd rs)) d1)"
proof (induction rs arbitrary: n d)
  case (Cons r rs)
  let ?label = "\<lambda>code. update_message (fst r) (\<lambda>m. m\<lparr>em_body_lang := code, em_attempted_at := Some (ew_now w)\<rparr>) d"
  let ?mark = "mark_attempted_safely w (fst r) d"
  have settled: "id_settled (fst r) (?label code)" "id_settled (fst r) ?mark" for code
    by (simp_all add: mark_attempted_safely_def fair_faults [OF assms] update_settles)
  have tail: "\<exists>k d2. lang_steps w rs n' d1 = (Inr k, d2) \<and> id_settled (fst r) d2" if "id_settled (fst r) d1" for n' d1
    using Cons.IH [of n' d1] id_settled_stays [OF lang_steps_advance [of undefined d1 w rs n'] that] by auto
  let ?out = "case ew_detect w (snd r) of Inl e \<Rightarrow> Inl e
      | Inr code \<Rightarrow> (case ew_lang_fault w (fst r) of Some e \<Rightarrow> Inl e | None \<Rightarrow> Inr code)"
  have poison: "\<not> is_contention e" if "?out = Inl e" for e
    using that fair_errors(4,5) [OF assms] by (auto split: sum.splits option.splits)
  show ?case
  proof (cases ?out)
    case (Inl e)
    with poison [OF Inl] tail [OF settled(2)] show ?thesis by simp
  next
    case (Inr code)
    with tail [OF settled(1)] show ?thesis by simp
  qed
qed simp

lemma lang_fair_spends:
  assumes "fair_world tk w" "0 < limit"
  shows "\<exists>p d1. run_lang_detect_pass w limit d = (Inr p, d1) \<and> (\<not> lang_idle d \<longrightarrow> 0 < lp_visited p \<and> lang_budget d1 < lang_budget d) \<and>
    (lp_visited p = 0 \<longrightarrow> d1 = d)"
proof -
  let ?Q = "sort_key em_id (filter (\<lambda>m. lang_claimable m \<and> \<not> ew_locked_message w (em_id m)) (ed_messages d))"
  show ?thesis
  proof (cases "take limit ?Q")
    case Nil
    with assms(2) have "lang_idle d"
      by (simp add: sort_key_Nil_iff lang_idle_def fair_faults(3) [OF assms(1)] filter_empty_conv)
    with Nil show ?thesis by (simp add: run_lang_detect_pass_def fair_faults [OF assms(1)] claim_lang_def)
  next
    case (Cons m ms)
    then have "m \<in> set ?Q" by (metis list.set_intros(1) in_set_takeD)
    then have m: "m \<in> set (ed_messages d)" "lang_claimable m" by auto
    let ?rows = "claim_lang w limit d"
    have rows: "?rows \<noteq> []" "fst (hd ?rows) = em_id m" by (simp_all add: claim_lang_def Cons)
    obtain k d1 where d1: "lang_steps w ?rows 0 d = (Inr k, d1)" "id_settled (em_id m) d1"
      using lang_steps_fair [OF assms(1), of ?rows 0 d] rows by auto
    have a: "advances undefined d d1" using lang_steps_advance [of undefined d w ?rows 0] d1 by simp
    have "lang_budget d1 < lang_budget d"
      unfolding lang_budget_def
      by (rule count_less2 [where R = kept_message and x = m])
        (use d1(2) m advances_messages [OF a] in \<open>auto simp: kept_message_def id_settled_def\<close>)
    with d1 rows show ?thesis by (simp add: run_lang_detect_pass_def fair_faults [OF assms(1)] Let_def)
  qed
qed

subsection \<open>The chunks\<close>

definition chunk_weight :: "embed_cfg \<Rightarrow> embed_db \<Rightarrow> chunk_table \<Rightarrow> chunk_row \<Rightarrow> nat" where
  "chunk_weight cfg d t r =
     (if ch_embedding r \<noteq> None then 0 else tries_left cfg (ed_failed_embeddings d t (ch_id r)))"

definition chunk_budget :: "embed_cfg \<Rightarrow> chunk_table \<Rightarrow> embed_db \<Rightarrow> nat" where
  "chunk_budget cfg t d = sum_list (map (chunk_weight cfg d t) (ed_chunks d t))"

definition chunks_idle :: "embed_cfg \<Rightarrow> chunk_table \<Rightarrow> embed_db \<Rightarrow> bool" where
  "chunks_idle cfg t d \<longleftrightarrow> (\<forall>r \<in> set (ed_chunks d t). \<not> embeddable cfg d t r)"

lemma embeddable_weight: "embeddable cfg d t r \<longleftrightarrow> chunk_weight cfg d t r \<noteq> 0"
  by (simp add: embeddable_def chunk_weight_def given_up_tries)

lemma chunks_idle_budget: "chunks_idle cfg t d \<longleftrightarrow> chunk_budget cfg t d = 0"
  by (auto simp: chunks_idle_def chunk_budget_def embeddable_weight)

text \<open>The rows stay, in place and with their texts; a vector once stored stays stored.\<close>

definition kept_chunk :: "chunk_row \<Rightarrow> chunk_row \<Rightarrow> bool" where
  "kept_chunk r r' \<longleftrightarrow> (\<exists>v. r' = r\<lparr>ch_embedding := v\<rparr> \<and> (v = None \<longrightarrow> ch_embedding r = None))"

definition chunks_kept :: "embed_cfg \<Rightarrow> embed_db \<Rightarrow> embed_db \<Rightarrow> bool" where
  "chunks_kept cfg d d' \<longleftrightarrow>
     (\<forall>t. list_all2 kept_chunk (ed_chunks d t) (ed_chunks d' t)) \<and>
     (\<forall>t cid. tries_left cfg (ed_failed_embeddings d' t cid) \<le> tries_left cfg (ed_failed_embeddings d t cid))"

lemma kept_chunk_refl [simp]: "kept_chunk r r"
  unfolding kept_chunk_def by (rule exI [of _ "ch_embedding r"]) simp

lemma chunks_kept_refl [simp]: "chunks_kept cfg d d"
  by (simp add: chunks_kept_def list_all2_refl)

lemma kept_chunk_trans: "kept_chunk a b \<Longrightarrow> kept_chunk b c \<Longrightarrow> kept_chunk a c"
  by (auto simp: kept_chunk_def)

lemma chunks_kept_trans: "chunks_kept cfg d d1 \<Longrightarrow> chunks_kept cfg d1 d2 \<Longrightarrow> chunks_kept cfg d d2"
  unfolding chunks_kept_def
  by (auto intro: list_all2_trans [of kept_chunk kept_chunk kept_chunk, OF kept_chunk_trans]) (meson order_trans)

lemma chunk_weight_mono: "chunks_kept cfg d d' \<Longrightarrow> kept_chunk r r' \<Longrightarrow> chunk_weight cfg d' t r' \<le> chunk_weight cfg d t r"
  by (auto simp: chunks_kept_def kept_chunk_def chunk_weight_def)

lemma sum_mono2:
  fixes f g :: "'a \<Rightarrow> nat"
  shows "list_all2 R xs ys \<Longrightarrow> (\<And>x y. R x y \<Longrightarrow> g y \<le> f x) \<Longrightarrow> sum_list (map g ys) \<le> sum_list (map f xs)"
  by (induction rule: list_all2_induct) (auto intro: add_mono)

lemma sum_less2:
  fixes f g :: "'a \<Rightarrow> nat"
  assumes "list_all2 R xs ys" "\<And>x y. R x y \<Longrightarrow> g y \<le> f x" "x \<in> set xs" "\<And>y. y \<in> set ys \<Longrightarrow> R x y \<Longrightarrow> g y < f x"
  shows "sum_list (map g ys) < sum_list (map f xs)"
  using assms(1,3,4)
proof (induction rule: list_all2_induct)
  case (Cons a as b bs)
  have le: "sum_list (map g bs) \<le> sum_list (map f as)" by (rule sum_mono2 [OF Cons.hyps(2) assms(2)])
  show ?case
  proof (cases "x = a")
    case True
    with Cons.hyps Cons.prems le show ?thesis by (simp add: add_less_le_mono)
  next
    case False
    with Cons have "sum_list (map g bs) < sum_list (map f as)" by simp
    with Cons.hyps(1) assms(2) [of a b] show ?thesis by (simp add: add_le_less_mono)
  qed
qed simp

lemma chunks_kept_rows: "chunks_kept cfg d d' \<Longrightarrow> list_all2 kept_chunk (ed_chunks d t) (ed_chunks d' t)"
  by (simp add: chunks_kept_def)

lemma chunk_budget_mono: "chunks_kept cfg d d' \<Longrightarrow> chunk_budget cfg t d' \<le> chunk_budget cfg t d"
  unfolding chunk_budget_def
  by (rule sum_mono2 [where R = kept_chunk]) (auto simp only: chunks_kept_rows chunk_weight_mono)

lemma chunks_idle_stays: "chunks_kept cfg d d' \<Longrightarrow> chunks_idle cfg t d \<Longrightarrow> chunks_idle cfg t d'"
  using chunk_budget_mono [of cfg d d' t] by (simp add: chunks_idle_budget)

lemma chunks_kept_set_embedding [simp]: "chunks_kept cfg d (set_embedding t cid v d)"
  by (auto simp: chunks_kept_def set_embedding_def list_all2_refl kept_chunk_def intro!: list_all2_update_where)

lemma chunks_kept_failed [simp]: "chunks_kept cfg d (record_failed_embedding ok t cid e d)"
  using tries_left_bump [of cfg e "ed_failed_embeddings d t cid"]
  by (auto simp: record_failed_embedding_def chunks_kept_def list_all2_refl)

lemma chunks_kept_rollback [simp]: "chunks_kept cfg d (rollback_to d d1)"
  by (simp add: chunks_kept_def rollback_to_def list_all2_refl)

lemma store_vectors_keep: "chunks_kept cfg d (snd (store_vectors w t n cs vs d))"
  by (induction w t n cs vs d rule: store_vectors.induct)
    (auto split: option.split intro: chunks_kept_trans [OF chunks_kept_set_embedding] chunks_kept_trans [OF chunks_kept_failed])

lemma embed_table_keeps: "chunks_kept cfg d (snd (embed_table cfg w t now log d))"
proof -
  obtain r d1 where e: "embed_and_store w (claim_unembedded cfg w t d) t d = (r, d1)" by force
  have "chunks_kept cfg d (snd (embed_and_store w (claim_unembedded cfg w t d) t d))"
    using store_vectors_keep [of cfg d w t 0 "claim_unembedded cfg w t d"]
    by (auto simp: embed_and_store_def split: sum.split prod.split option.split) (metis snd_conv)+
  with e show ?thesis by (auto simp: embed_table_def Let_def split: option.split sum.split)
qed

lemma lang_keeps_chunks: "chunks_kept cfg d (snd (run_lang_detect_pass w limit d))"
proof -
  have same: "ed_chunks (snd (lang_steps w rs n d)) = ed_chunks d \<and>
      ed_failed_embeddings (snd (lang_steps w rs n d)) = ed_failed_embeddings d" for rs n d
    by (induction w rs n d rule: lang_steps.induct)
      (auto split: sum.split option.split simp: update_message_def mark_attempted_safely_def)
  show ?thesis
    using same [of "claim_lang w limit d" 0 d]
    by (auto simp: run_lang_detect_pass_def Let_def chunks_kept_def list_all2_refl split: option.split sum.split prod.split)
qed

lemma set_embedding_spends:
  "chunk_weight cfg d t r \<noteq> 0 \<Longrightarrow> r' \<in> set (ed_chunks (set_embedding t (ch_id r) v d) t) \<Longrightarrow> kept_chunk r r' \<Longrightarrow>
   chunk_weight cfg (set_embedding t (ch_id r) v d) t r' < chunk_weight cfg d t r"
proof -
  assume w: "chunk_weight cfg d t r \<noteq> 0" and r': "r' \<in> set (ed_chunks (set_embedding t (ch_id r) v d) t)" "kept_chunk r r'"
  from r'(2) have "ch_id r' = ch_id r" by (auto simp: kept_chunk_def)
  with r'(1) have "ch_embedding r' = Some v" by (auto simp: set_embedding_def set_update_where)
  then have "chunk_weight cfg (set_embedding t (ch_id r) v d) t r' = 0" by (simp add: chunk_weight_def)
  with w show ?thesis by simp
qed

lemma failed_embedding_spends:
  "chunk_weight cfg d t r \<noteq> 0 \<Longrightarrow> kept_chunk r r' \<Longrightarrow>
   chunk_weight cfg (record_failed_embedding True t (ch_id r) e d) t r' < chunk_weight cfg d t r"
  using tries_left_bump [of cfg e "ed_failed_embeddings d t (ch_id r)"]
  by (auto simp: record_failed_embedding_def kept_chunk_def chunk_weight_def split: if_splits)

lemma store_vectors_fair:
  assumes "fair_world tk w"
  shows "length vs = length cs \<Longrightarrow> \<exists>k d1. store_vectors w t n cs vs d = (Inr k, d1)"
proof (induction cs vs arbitrary: n d rule: list_induct2')
  case (4 c cs v vs)
  then show ?case using fair_errors(3) [OF assms] by (auto split: option.split)
qed auto

lemma chunk_budget_less:
  assumes "chunks_kept cfg d d1" "chunks_kept cfg d1 d2" "r \<in> set (ed_chunks d t)"
    "\<And>r'. r' \<in> set (ed_chunks d1 t) \<Longrightarrow> kept_chunk r r' \<Longrightarrow> chunk_weight cfg d1 t r' < chunk_weight cfg d t r"
  shows "chunk_budget cfg t d2 < chunk_budget cfg t d"
proof -
  have "chunk_budget cfg t d1 < chunk_budget cfg t d"
    unfolding chunk_budget_def
    by (rule sum_less2 [where R = kept_chunk and x = r])
      (use assms(3,4) chunks_kept_rows [OF assms(1)] chunk_weight_mono [OF assms(1)] in auto)
  with chunk_budget_mono [OF assms(2), of t] show ?thesis by simp
qed

lemma embed_table_fair:
  assumes "fair_world tk w" "0 < ec_batch_size cfg"
  shows "\<exists>n l d1. embed_table cfg w t now log d = ((Inr n, l), d1) \<and>
    (\<not> chunks_idle cfg t d \<longrightarrow> chunk_budget cfg t d1 < chunk_budget cfg t d)"
proof -
  let ?Q = "sort_key ch_id (filter (\<lambda>r. embeddable cfg d t r \<and> \<not> ew_locked_chunk w t (ch_id r)) (ed_chunks d t))"
  let ?claimed = "claim_unembedded cfg w t d"
  show ?thesis
  proof (cases "take (nat (ec_batch_size cfg)) ?Q")
    case Nil
    with assms(2) have "chunks_idle cfg t d"
      by (simp add: sort_key_Nil_iff chunks_idle_def fair_faults(5) [OF assms(1)] filter_empty_conv)
    with Nil show ?thesis by (simp add: embed_table_def claim_unembedded_def fair_faults [OF assms(1)])
  next
    case (Cons r rs)
    then have "r \<in> set ?Q" by (metis list.set_intros(1) in_set_takeD)
    then have r: "r \<in> set (ed_chunks d t)" "chunk_weight cfg d t r \<noteq> 0" by (auto simp: embeddable_weight)
    obtain cs where claimed: "?claimed = (ch_id r, ch_text r) # cs" by (simp add: claim_unembedded_def Cons)
    obtain v vs where vs: "ew_backend w t (map snd ?claimed) = Inr (v # vs)" "length vs = length cs"
      using fair_errors(6) [OF assms(1), of t "map snd ?claimed"] claimed by (auto simp: length_Suc_conv)
    define d1 where "d1 = (case ew_store_fault w t (ch_id r) of None \<Rightarrow> set_embedding t (ch_id r) v d
        | Some e \<Rightarrow> record_failed_embedding True t (ch_id r) e d)"
    have "\<exists>n. store_vectors w t 0 ?claimed (v # vs) d = store_vectors w t n cs vs d1"
      using fair_errors(3) [OF assms(1), of t "ch_id r"] fair_faults(9) [OF assms(1)]
      by (cases "ew_store_fault w t (ch_id r)") (auto simp: claimed d1_def)
    then obtain n where first: "store_vectors w t 0 ?claimed (v # vs) d = store_vectors w t n cs vs d1" ..
    obtain k d2 where d2: "store_vectors w t n cs vs d1 = (Inr k, d2)"
      using store_vectors_fair [OF assms(1) vs(2)] by blast
    have "chunks_kept cfg d d1" "chunks_kept cfg d1 d2"
      using store_vectors_keep [of cfg d1 w t n cs vs] d2 by (auto simp: d1_def split: option.split)
    moreover have "chunk_weight cfg d1 t r' < chunk_weight cfg d t r" if "r' \<in> set (ed_chunks d1 t)" "kept_chunk r r'" for r'
      using that set_embedding_spends [OF r(2)] failed_embedding_spends [OF r(2)] by (simp add: d1_def split: option.splits)
    ultimately have "chunk_budget cfg t d2 < chunk_budget cfg t d" by (rule chunk_budget_less [OF _ _ r(1)])
    with vs first d2 claimed show ?thesis
      by (simp add: embed_table_def embed_and_store_def fair_faults [OF assms(1)])
  qed
qed

subsection \<open>The sweep as a work queue\<close>

lemma idle_messages_step: "messages_idle cfg d \<Longrightarrow> snd (chunk_messages_lazily cfg w batch d) = d"
proof -
  assume "messages_idle cfg d"
  then have "filter (\<lambda>m. chunkable_message cfg d m \<and> \<not> ew_locked_message w (em_id m)) (ed_messages d) = []"
    by (simp add: messages_idle_def filter_empty_conv)
  then have "claim_messages cfg w batch d = []" by (simp only: claim_messages_def) simp
  then show ?thesis by (simp add: chunk_messages_lazily_def split: option.split)
qed

lemma idle_texts_step: "texts_idle d \<Longrightarrow> snd (chunk_attachments_lazily cfg w batch d) = d"
proof -
  assume "texts_idle d"
  then have "filter (\<lambda>t. chunkable_text d t \<and> \<not> ew_locked_blob w (fst t)) (ed_text d) = []"
    by (simp add: texts_idle_def filter_empty_conv)
  then have "claim_texts w batch d = []" by (simp only: claim_texts_def) (simp add: sort_by_sha_def)
  then show ?thesis
    by (simp add: chunk_attachments_lazily_def finish_def rollback_to_def split: option.split)
qed

lemma texts_fair_ok: "fair_world tk w \<Longrightarrow> \<exists>n d1. chunk_attachments_lazily cfg w batch d = (Inr n, d1)"
  by (simp add: chunk_attachments_lazily_def finish_def fair_faults Let_def)

lemma sweep_keeps_chunks:
  assumes "messages_idle cfg d" "texts_idle d"
  shows "chunks_kept cfg d (snd (run_embed_worker_once cfg det w now log d))"
proof -
  let ?b = "nat (max (ec_batch_size cfg) (ec_chunk_batch_size cfg))"
  obtain r1 where 1: "chunk_messages_lazily cfg w ?b d = (r1, d)" using idle_messages_step [OF assms(1)] by (metis prod.collapse)
  obtain r2 where 2: "chunk_attachments_lazily cfg w ?b d = (r2, d)" using idle_texts_step [OF assms(2)] by (metis prod.collapse)
  obtain r3 l3 d3 where 3: "embed_table cfg w MessageChunks now log d = ((r3, l3), d3)" by (metis prod.exhaust)
  obtain r4 l4 d4 where 4: "embed_table cfg w AttachmentChunks now l3 d3 = ((r4, l4), d4)" by (metis prod.exhaust)
  obtain r5 d5 where 5: "run_lang_detect_pass w (nat (ec_lang_batch_size cfg)) d4 = (r5, d5)" by force
  have a3: "chunks_kept cfg d d3" using embed_table_keeps [of cfg d w MessageChunks now log] 3 by simp
  have a4: "chunks_kept cfg d d4"
    using chunks_kept_trans [OF a3] embed_table_keeps [of cfg d3 w AttachmentChunks now l3] 4 by simp
  have a5: "chunks_kept cfg d d5"
    using chunks_kept_trans [OF a4] lang_keeps_chunks [of cfg d4 w "nat (ec_lang_batch_size cfg)"] 5 by simp
  show ?thesis using a3 a4 a5 by (simp add: run_embed_worker_once_def Let_def 1 2 3 4 5 split: sum.split)
qed

lemma fair_sweep_spends_all:
  fixes now :: int and log :: failure_log
  assumes fair: "fair_world tk w" and cfg: "0 < ec_batch_size cfg" "0 < ec_lang_batch_size cfg" "ec_body_lang_enabled cfg"
    and keyed: "texts_keyed d"
  defines "d' \<equiv> snd (run_embed_worker_once cfg True w now log d)"
  shows "\<not> messages_idle cfg d \<Longrightarrow> message_budget cfg d' < message_budget cfg d"
    "poison_free tk cfg d \<Longrightarrow> \<not> texts_idle d \<Longrightarrow> text_budget d' < text_budget d"
    "\<not> lang_idle d \<Longrightarrow> lang_budget d' < lang_budget d"
    "messages_idle cfg d \<Longrightarrow> texts_idle d \<Longrightarrow> \<not> (chunks_idle cfg MessageChunks d \<and> chunks_idle cfg AttachmentChunks d) \<Longrightarrow>
       chunk_budget cfg MessageChunks d' + chunk_budget cfg AttachmentChunks d' <
       chunk_budget cfg MessageChunks d + chunk_budget cfg AttachmentChunks d"
proof -
  let ?b = "nat (max (ec_batch_size cfg) (ec_chunk_batch_size cfg))"
  let ?l = "nat (ec_lang_batch_size cfg)"
  have b: "0 < ?b" "0 < ?l" using cfg by auto
  obtain n1 d1 where 1: "chunk_messages_lazily cfg w ?b d = (Inr n1, d1)"
      "\<not> messages_idle cfg d \<Longrightarrow> message_budget cfg d1 < message_budget cfg d"
    using messages_fair_spends [OF fair b(1), of cfg d] by blast
  have a1: "advances cfg d d1" using chunk_messages_advance [of cfg d w ?b] 1(1) by simp
  have k1: "texts_keyed d1" using advances_keyed [OF a1] keyed by simp
  obtain n2 d2 where 2: "chunk_attachments_lazily cfg w ?b d1 = (Inr n2, d2)" using texts_fair_ok [OF fair] by blast
  have a2: "advances cfg d1 d2" using chunk_attachments_advance [OF k1, of cfg w ?b] 2 by simp
  obtain n3 l3 d3 where 3: "embed_table cfg w MessageChunks now log d2 = ((Inr n3, l3), d3)"
      "\<not> chunks_idle cfg MessageChunks d2 \<Longrightarrow> chunk_budget cfg MessageChunks d3 < chunk_budget cfg MessageChunks d2"
    using embed_table_fair [OF fair cfg(1), of MessageChunks now log d2] by blast
  have a3: "advances cfg d2 d3" using embed_table_advances [of cfg d2 w MessageChunks now log] 3(1) by simp
  obtain n4 l4 d4 where 4: "embed_table cfg w AttachmentChunks now l3 d3 = ((Inr n4, l4), d4)"
      "\<not> chunks_idle cfg AttachmentChunks d3 \<Longrightarrow> chunk_budget cfg AttachmentChunks d4 < chunk_budget cfg AttachmentChunks d3"
    using embed_table_fair [OF fair cfg(1), of AttachmentChunks now l3 d3] by blast
  have a4: "advances cfg d3 d4" using embed_table_advances [of cfg d3 w AttachmentChunks now l3] 4(1) by simp
  obtain p d5 where 5: "run_lang_detect_pass w ?l d4 = (Inr p, d5)" "\<not> lang_idle d4 \<Longrightarrow> lang_budget d5 < lang_budget d4"
    using lang_fair_spends [OF fair b(2), of d4] by blast
  have a5: "advances cfg d4 d5" using lang_pass_advances [of cfg d4 w ?l] 5(1) by simp
  have d': "d' = d5" using cfg(3) by (simp add: d'_def run_embed_worker_once_def Let_def 1(1) 2 3(1) 4(1) 5(1))
  have a24: "advances cfg d2 d4" by (rule advances_trans [OF a3 a4])
  have a25: "advances cfg d2 d5" by (rule advances_trans [OF a24 a5])
  have a15: "advances cfg d1 d5" by (rule advances_trans [OF a2 a25])
  have a14: "advances cfg d d4" by (rule advances_trans [OF advances_trans [OF a1 a2] a24])
  show "message_budget cfg d' < message_budget cfg d" if "\<not> messages_idle cfg d"
    using 1(2) [OF that] message_budget_mono [OF a15] by (simp add: d')
  show "text_budget d' < text_budget d" if "poison_free tk cfg d" "\<not> texts_idle d"
  proof (cases "texts_idle d1")
    case True
    with that(2) texts_idle_stays [OF a15] show ?thesis by (simp add: d' texts_idle_budget)
  next
    case False
    with texts_fair_spends [OF fair b(1) k1 poison_free_stays [OF a1 that(1)]] 2 have "text_budget d2 < text_budget d1" by auto
    with text_budget_mono [OF a25] text_budget_mono [OF a1] show ?thesis by (simp add: d')
  qed
  show "lang_budget d' < lang_budget d" if "\<not> lang_idle d"
  proof (cases "lang_idle d4")
    case True
    with that lang_idle_stays [OF a5] show ?thesis by (simp add: d' lang_idle_budget)
  next
    case False
    with 5(2) lang_budget_mono [OF a14] show ?thesis by (simp add: d')
  qed
  show "chunk_budget cfg MessageChunks d' + chunk_budget cfg AttachmentChunks d' <
       chunk_budget cfg MessageChunks d + chunk_budget cfg AttachmentChunks d"
    if idle: "messages_idle cfg d" "texts_idle d" "\<not> (chunks_idle cfg MessageChunks d \<and> chunks_idle cfg AttachmentChunks d)"
  proof -
    have "d1 = d" using idle_messages_step [OF idle(1), of w ?b] 1(1) by simp
    moreover from this have "d2 = d" using idle_texts_step [OF idle(2), of cfg w ?b] 2 by simp
    ultimately have same: "d2 = d" by simp
    have k3: "chunks_kept cfg d d3" using embed_table_keeps [of cfg d2 w MessageChunks now log] 3(1) same by simp
    have k4: "chunks_kept cfg d3 d4" using embed_table_keeps [of cfg d3 w AttachmentChunks now l3] 4(1) by simp
    have k5: "chunks_kept cfg d4 d5" using lang_keeps_chunks [of cfg d4 w ?l] 5(1) by simp
    note mono = chunk_budget_mono [OF k3] chunk_budget_mono [OF k4] chunk_budget_mono [OF k5]
    show ?thesis
    proof (cases "chunks_idle cfg MessageChunks d")
      case False
      with 3(2) same mono(1) [of AttachmentChunks] mono(2,3) [of MessageChunks] mono(2,3) [of AttachmentChunks]
      show ?thesis by (simp add: d')
    next
      case True
      with idle(3) have att: "\<not> chunks_idle cfg AttachmentChunks d" by simp
      show ?thesis
        using att 4(2) mono(1) [of AttachmentChunks] mono(1) [of MessageChunks] mono(2,3) [of MessageChunks] mono(2,3) [of AttachmentChunks]
          chunks_idle_budget [of cfg AttachmentChunks d] chunks_idle_budget [of cfg AttachmentChunks d3]
        by (cases "chunks_idle cfg AttachmentChunks d3") (auto simp: d')
    qed
  qed
qed

lemma turn_db:
  "wk_db (embed_turn cfg det tn s) =
     (case wt_pool_fault tn of Some e \<Rightarrow> wk_db s
      | None \<Rightarrow> snd (run_embed_worker_once cfg det (wt_world tn) (wt_clock tn) (wk_log s) (wk_db s)))"
  by (simp add: embed_turn_def Let_def split: option.split)

lemma turn_advances: "texts_keyed (wk_db s) \<Longrightarrow> advances cfg (wk_db s) (wk_db (embed_turn cfg det tn s))"
  by (simp add: turn_db sweep_advances split: option.split)

lemma turn_keyed: "texts_keyed (wk_db s) \<Longrightarrow> texts_keyed (wk_db (embed_turn cfg det tn s))"
  using advances_keyed [OF turn_advances] by blast

lemma turn_keeps_chunks:
  "messages_idle cfg (wk_db s) \<Longrightarrow> texts_idle (wk_db s) \<Longrightarrow> chunks_kept cfg (wk_db s) (wk_db (embed_turn cfg det tn s))"
  by (simp add: turn_db sweep_keeps_chunks split: option.split)

text \<open>A turn of a worker that is switched on, in a fair world.\<close>

definition fair_turn :: "tokenizer \<Rightarrow> embed_cfg \<Rightarrow> worker_turn \<Rightarrow> bool" where
  "fair_turn tk cfg tn \<longleftrightarrow>
     wt_pool_fault tn = None \<and> fair_world tk (wt_world tn) \<and>
     0 < ec_batch_size cfg \<and> 0 < ec_lang_batch_size cfg \<and> ec_body_lang_enabled cfg"

lemma fair_turn_spends:
  assumes "fair_turn tk cfg tn" "texts_keyed (wk_db s)"
  shows "\<not> messages_idle cfg (wk_db s) \<Longrightarrow> message_budget cfg (wk_db (embed_turn cfg True tn s)) < message_budget cfg (wk_db s)"
    "poison_free tk cfg (wk_db s) \<Longrightarrow> \<not> texts_idle (wk_db s) \<Longrightarrow> text_budget (wk_db (embed_turn cfg True tn s)) < text_budget (wk_db s)"
    "\<not> lang_idle (wk_db s) \<Longrightarrow> lang_budget (wk_db (embed_turn cfg True tn s)) < lang_budget (wk_db s)"
    "messages_idle cfg (wk_db s) \<Longrightarrow> texts_idle (wk_db s) \<Longrightarrow>
       \<not> (chunks_idle cfg MessageChunks (wk_db s) \<and> chunks_idle cfg AttachmentChunks (wk_db s)) \<Longrightarrow>
       chunk_budget cfg MessageChunks (wk_db (embed_turn cfg True tn s)) + chunk_budget cfg AttachmentChunks (wk_db (embed_turn cfg True tn s)) <
       chunk_budget cfg MessageChunks (wk_db s) + chunk_budget cfg AttachmentChunks (wk_db s)"
proof -
  have db: "wk_db (embed_turn cfg True tn s) =
      snd (run_embed_worker_once cfg True (wt_world tn) (wt_clock tn) (wk_log s) (wk_db s))"
    using assms(1) by (simp add: turn_db fair_turn_def)
  have f: "fair_world tk (wt_world tn)" "0 < ec_batch_size cfg" "0 < ec_lang_batch_size cfg" "ec_body_lang_enabled cfg"
    using assms(1) by (simp_all add: fair_turn_def)
  note all = fair_sweep_spends_all [OF f assms(2), of "wt_clock tn" "wk_log s", folded db]
  show "\<not> messages_idle cfg (wk_db s) \<Longrightarrow> message_budget cfg (wk_db (embed_turn cfg True tn s)) < message_budget cfg (wk_db s)"
    by (rule all(1))
  show "poison_free tk cfg (wk_db s) \<Longrightarrow> \<not> texts_idle (wk_db s) \<Longrightarrow> text_budget (wk_db (embed_turn cfg True tn s)) < text_budget (wk_db s)"
    by (rule all(2))
  show "\<not> lang_idle (wk_db s) \<Longrightarrow> lang_budget (wk_db (embed_turn cfg True tn s)) < lang_budget (wk_db s)"
    by (rule all(3))
  show "messages_idle cfg (wk_db s) \<Longrightarrow> texts_idle (wk_db s) \<Longrightarrow>
       \<not> (chunks_idle cfg MessageChunks (wk_db s) \<and> chunks_idle cfg AttachmentChunks (wk_db s)) \<Longrightarrow>
       chunk_budget cfg MessageChunks (wk_db (embed_turn cfg True tn s)) + chunk_budget cfg AttachmentChunks (wk_db (embed_turn cfg True tn s)) <
       chunk_budget cfg MessageChunks (wk_db s) + chunk_budget cfg AttachmentChunks (wk_db s)"
    by (rule all(4))
qed

interpretation message_queue: work_queue "embed_turn cfg True" "\<lambda>s. message_budget cfg (wk_db s)"
  "\<lambda>s. texts_keyed (wk_db s)" "fair_turn tk cfg" "\<lambda>s. messages_idle cfg (wk_db s)"
  for cfg tk
  by unfold_locales (auto simp: turn_keyed fair_turn_spends(1) intro: messages_idle_stays [OF turn_advances])

interpretation lang_queue: work_queue "embed_turn cfg True" "\<lambda>s. lang_budget (wk_db s)"
  "\<lambda>s. texts_keyed (wk_db s)" "fair_turn tk cfg" "\<lambda>s. lang_idle (wk_db s)"
  for cfg tk
  by unfold_locales (auto simp: turn_keyed fair_turn_spends(3) intro: lang_idle_stays [OF turn_advances])

interpretation text_queue: work_queue "embed_turn cfg True" "\<lambda>s. text_budget (wk_db s)"
  "\<lambda>s. texts_keyed (wk_db s) \<and> poison_free tk cfg (wk_db s)" "fair_turn tk cfg" "\<lambda>s. texts_idle (wk_db s)"
  for cfg tk
  by unfold_locales (auto simp: turn_keyed fair_turn_spends(2) intro: texts_idle_stays [OF turn_advances] poison_free_stays [OF turn_advances])

interpretation chunk_queue: work_queue "embed_turn cfg True"
  "\<lambda>s. chunk_budget cfg MessageChunks (wk_db s) + chunk_budget cfg AttachmentChunks (wk_db s)"
  "\<lambda>s. texts_keyed (wk_db s) \<and> messages_idle cfg (wk_db s) \<and> texts_idle (wk_db s)" "fair_turn tk cfg"
  "\<lambda>s. chunks_idle cfg MessageChunks (wk_db s) \<and> chunks_idle cfg AttachmentChunks (wk_db s)"
  for cfg tk
  by unfold_locales (auto simp: turn_keyed fair_turn_spends(4)
      intro: texts_idle_stays [OF turn_advances] messages_idle_stays [OF turn_advances] chunks_idle_stays [OF turn_keeps_chunks])

lemma run_embed_worker_sweeps: "run_embed_worker cfg det (map ws [0..<n]) s = run_sweeps (embed_turn cfg det) ws n s"
proof (induction n arbitrary: ws s)
  case (Suc n)
  have "map ws [0..<Suc n] = ws 0 # map (\<lambda>i. ws (Suc i)) [0..<n]"
    by (simp only: map_upt_Suc)
  with Suc [of "\<lambda>i. ws (Suc i)"] show ?case by simp
qed simp

lemma run_sweeps_add: "run_sweeps sweep ws (m + n) d = run_sweeps sweep (\<lambda>i. ws (m + i)) n (run_sweeps sweep ws m d)"
  by (induction m arbitrary: ws d) simp_all

text \<open>Every row has left its queue: worked off, or given up with its failure on record.\<close>

definition embed_settled :: "embed_cfg \<Rightarrow> embed_db \<Rightarrow> bool" where
  "embed_settled cfg d \<longleftrightarrow>
     list_all (\<lambda>m. has_chunks d MessageChunks (OfMessage (em_id m)) \<or> given_up cfg (ed_failed_chunkings d (em_id m))) (ed_messages d) \<and>
     list_all (\<lambda>t. snd t = [] \<or> has_chunks d AttachmentChunks (OfBlob (fst t))) (ed_text d) \<and>
     list_all (\<lambda>t. list_all (\<lambda>r. ch_embedding r \<noteq> None \<or> given_up cfg (ed_failed_embeddings d t (ch_id r))) (ed_chunks d t))
       [MessageChunks, AttachmentChunks] \<and>
     list_all (\<lambda>m. ck_body_text (em_row m) = None \<or> em_body_lang m \<noteq> None \<or> em_attempted_at m \<noteq> None) (ed_messages d)"

lemma embed_settled_idle:
  "embed_settled cfg d \<longleftrightarrow> messages_idle cfg d \<and> texts_idle d \<and> chunks_idle cfg MessageChunks d \<and>
     chunks_idle cfg AttachmentChunks d \<and> lang_idle d"
  by (auto simp: embed_settled_def messages_idle_def texts_idle_def chunks_idle_def lang_idle_def chunkable_message_def
      chunkable_text_def embeddable_def lang_claimable_def list_all_iff)

lemma sweeps_settle:
  assumes fair: "\<And>i. fair_turn tk cfg (ws i)" and keyed: "texts_keyed (wk_db s)" and pf: "poison_free tk cfg (wk_db s)"
  shows "\<exists>N. \<forall>n. embed_settled cfg (wk_db (run_sweeps (embed_turn cfg True) ws (N + n) s))"
proof -
  let ?run = "run_sweeps (embed_turn cfg True)"
  define A where "A = message_budget cfg (wk_db s) + text_budget (wk_db s)"
  let ?s = "?run ws A s"
  let ?B = "chunk_budget cfg MessageChunks (wk_db ?s) + chunk_budget cfg AttachmentChunks (wk_db ?s)"
  have m: "messages_idle cfg (wk_db ?s)" by (rule message_queue.sweeps_reach_idle [OF keyed fair]) (simp add: A_def)
  have t: "texts_idle (wk_db ?s)" by (rule text_queue.sweeps_reach_idle [OF conjI [OF keyed pf] fair]) (simp add: A_def)
  have k: "texts_keyed (wk_db ?s)" by (rule message_queue.sweeps_inv [OF keyed])
  note inv = conjI [OF k conjI [OF m t]]
  have "embed_settled cfg (wk_db (?run ws (A + ?B + lang_budget (wk_db s) + n) s))" for n
  proof -
    let ?n = "?B + lang_budget (wk_db s) + n"
    let ?ws = "\<lambda>i. ws (A + i)"
    have eq: "?run ws (A + ?B + lang_budget (wk_db s) + n) s = ?run ?ws ?n ?s"
      using run_sweeps_add [of "embed_turn cfg True" ws A ?n s] by (simp add: add.assoc)
    have "chunks_idle cfg MessageChunks (wk_db (?run ?ws ?n ?s)) \<and> chunks_idle cfg AttachmentChunks (wk_db (?run ?ws ?n ?s))"
      by (rule chunk_queue.sweeps_reach_idle [OF inv fair]) simp
    moreover have "texts_keyed (wk_db (?run ?ws ?n ?s)) \<and> messages_idle cfg (wk_db (?run ?ws ?n ?s)) \<and> texts_idle (wk_db (?run ?ws ?n ?s))"
      by (rule chunk_queue.sweeps_inv [OF inv])
    moreover have "lang_idle (wk_db (?run ws (A + ?B + lang_budget (wk_db s) + n) s))"
      by (rule lang_queue.sweeps_reach_idle [OF keyed fair]) simp
    ultimately show ?thesis by (simp add: embed_settled_idle eq)
  qed
  then show ?thesis by blast
qed

text \<open>
  C24. The embedding worker finishes: in fair surroundings, and if no stored attachment text makes the
  chunker raise, after some number of turns every message is chunked or given up, every text of an
  attachment is chunked or empty, every chunk is embedded or given up, and every body has had its
  language looked at; and this stays so.
\<close>

theorem embedding_settles:
  assumes "\<And>i. fair_turn tk cfg (ws i)" "distinct (map fst (ed_text (wk_db s)))" "poison_free tk cfg (wk_db s)"
  shows "\<exists>N. \<forall>n. embed_settled cfg (wk_db (run_embed_worker cfg True (map ws [0..<N + n]) s))"
  unfolding run_embed_worker_sweeps
  by (rule sweeps_settle [OF assms(1) _ assms(3)]) (use assms(2) in \<open>auto simp: texts_keyed_def\<close>)

definition char_tokenizer :: tokenizer where
  "char_tokenizer = \<lparr>tk_encode = (\<lambda>s. Inr (map of_char s)), tk_decode = map char_of, tk_isoformat = (\<lambda>_. ''2026-01-01'')\<rparr>"

definition sample_embed_cfg :: embed_cfg where
  "sample_embed_cfg = \<lparr>ec_chunk = \<lparr>cc_size = 2, cc_overlap = 0, cc_strip_quoted_replies = False, cc_strip_signatures = False,
       cc_max_chars = 100\<rparr>, ec_batch_size = 2, ec_chunk_batch_size = 2, ec_max_chunk_retries = 3, ec_failure_report_interval = 300,
     ec_idle_backoff_max_steps = 6, ec_poll_interval = 5, ec_body_lang_enabled = True, ec_lang_batch_size = 2\<rparr>"

definition sample_embed_world :: embed_world where
  "sample_embed_world = \<lparr>ew_tokenizer = char_tokenizer, ew_locked_message = (\<lambda>_. False), ew_locked_blob = (\<lambda>_. False),
     ew_locked_chunk = (\<lambda>_ _. False), ew_claim_fault = (\<lambda>_. None), ew_commit_fault = (\<lambda>_. None), ew_insert_fault = (\<lambda>_ _. None),
     ew_heal_fault = (\<lambda>_. None), ew_backend = (\<lambda>_ texts. Inr (map (\<lambda>s. [int (length s)]) texts)),
     ew_store_fault = (\<lambda>_ i. if i = 1 then Some (value_error ''dimension'') else None), ew_chunking_log_ok = (\<lambda>_. True),
     ew_embedding_log_ok = (\<lambda>_ _. True), ew_detect = (\<lambda>_. Inr (Some ''en'')), ew_lang_fault = (\<lambda>_. None), ew_stamp_ok = (\<lambda>_. True),
     ew_now = 0\<rparr>"

definition sample_embed_turn :: worker_turn where
  "sample_embed_turn = \<lparr>wt_beat_ok = True, wt_error_beat_ok = True, wt_pool_fault = None, wt_world = sample_embed_world, wt_clock = 0\<rparr>"

definition sample_worker :: worker_state_rec where
  "sample_worker = \<lparr>wk_streak = 0, wk_log = [],
     wk_db = \<lparr>ed_messages = [\<lparr>em_id = 1, em_row = \<lparr>ck_subject = None, ck_from_addr = None, ck_from_name = None,
          ck_to_addrs = None, ck_date = None, ck_body_text = Some ''hi''\<rparr>, em_body_lang = None, em_attempted_at = None\<rparr>],
       ed_text = [(''ab'', ''abc''), (''cd'', '' '')], ed_chunks = (\<lambda>_. []), ed_seq = (\<lambda>_. 1),
       ed_failed_chunkings = (\<lambda>_. None), ed_failed_embeddings = (\<lambda>_ _. None)\<rparr>,
     wk_heartbeats = [], wk_sleeps = []\<rparr>"

lemma sample_embed_fair: "fair_turn char_tokenizer sample_embed_cfg sample_embed_turn"
  by (simp add: fair_turn_def fair_world_def sample_embed_cfg_def sample_embed_turn_def sample_embed_world_def char_tokenizer_def)

theorem embedding_settles_witness:
  "\<exists>N. \<forall>n. embed_settled sample_embed_cfg
     (wk_db (run_embed_worker sample_embed_cfg True (map (\<lambda>_. sample_embed_turn) [0..<N + n]) sample_worker))"
proof (rule embedding_settles [where ws = "\<lambda>_. sample_embed_turn", OF sample_embed_fair])
  show "distinct (map fst (ed_text (wk_db sample_worker)))" by (simp add: sample_worker_def)
  show "poison_free char_tokenizer sample_embed_cfg (wk_db sample_worker)" by code_simp
qed

subsection \<open>Vectors belong to their texts\<close>

definition chunk_inv :: "(string \<Rightarrow> vec \<Rightarrow> bool) \<Rightarrow> embed_db \<Rightarrow> bool" where
  "chunk_inv R d \<longleftrightarrow>
     (\<forall>t. distinct (map ch_id (ed_chunks d t)) \<and>
        (\<forall>r \<in> set (ed_chunks d t). ch_id r < ed_seq d t \<and> (\<forall>v. ch_embedding r = Some v \<longrightarrow> R (ch_text r) v)))"

text \<open>Only the chunks and the sequence matter to it.\<close>

lemma chunk_inv_cong: "ed_chunks d' = ed_chunks d \<Longrightarrow> (\<And>t. ed_seq d t \<le> ed_seq d' t) \<Longrightarrow> chunk_inv R d \<Longrightarrow> chunk_inv R d'"
  by (auto simp: chunk_inv_def intro: order_less_le_trans)

lemma chunk_inv_insert [intro]: "chunk_inv R d \<Longrightarrow> chunk_inv R (insert_chunk t ow sp d)"
  by (fastforce simp: chunk_inv_def insert_chunk_def Let_def)

lemma insert_specs_inv:
  "chunk_inv R d \<Longrightarrow> chunk_inv R (snd (insert_specs fault i t ow sps d)) \<and>
   (\<forall>u. ed_seq d u \<le> ed_seq (snd (insert_specs fault i t ow sps d)) u)"
proof (induction fault i t ow sps d rule: insert_specs.induct)
  case (2 fault i t ow sp sps d)
  show ?case
  proof (cases "fault i")
    case None
    have "ed_seq d u \<le> ed_seq (insert_chunk t ow sp d) u" for u by (simp add: insert_chunk_def Let_def)
    with 2 None show ?thesis by (auto intro: order_trans)
  next
    case (Some e)
    with 2 show ?thesis by (auto intro: chunk_inv_cong)
  qed
qed (auto split: option.split)

lemma chunk_inv_rollback: "chunk_inv R d \<Longrightarrow> (\<And>t. ed_seq d t \<le> ed_seq d1 t) \<Longrightarrow> chunk_inv R (rollback_to d d1)"
  by (rule chunk_inv_cong) (simp_all add: rollback_to_def)

text \<open>A step keeps the invariant and never turns a sequence back.\<close>

definition step_safe :: "(string \<Rightarrow> vec \<Rightarrow> bool) \<Rightarrow> embed_db \<Rightarrow> embed_db \<Rightarrow> bool" where
  "step_safe R d d' \<longleftrightarrow> (chunk_inv R d \<longrightarrow> chunk_inv R d' \<and> (\<forall>t. ed_seq d t \<le> ed_seq d' t))"

lemma step_safe_refl [simp]: "step_safe R d d"
  by (simp add: step_safe_def)

lemma step_safe_trans: "step_safe R d d1 \<Longrightarrow> step_safe R d1 d2 \<Longrightarrow> step_safe R d d2"
  by (auto simp: step_safe_def intro: order_trans)

lemma step_safe_same: "ed_chunks d' = ed_chunks d \<Longrightarrow> ed_seq d' = ed_seq d \<Longrightarrow> step_safe R d d'"
  by (auto simp: step_safe_def intro: chunk_inv_cong)

lemma step_safe_rollback: "step_safe R d d1 \<Longrightarrow> step_safe R d (rollback_to d d1)"
  by (auto simp: step_safe_def rollback_to_def intro: chunk_inv_cong)

lemma step_safe_insert_specs: "insert_specs fault i t ow sps d = (r, d1) \<Longrightarrow> step_safe R d d1"
  using insert_specs_inv [of R d fault i t ow sps] by (simp add: step_safe_def)

lemma step_safe_failed [simp]:
  "step_safe R d (record_failed_chunking ok mid e d)" "step_safe R d (record_failed_embedding ok t cid e d)"
  by (simp_all add: record_failed_chunking_def record_failed_embedding_def step_safe_same)

lemma message_step_safe: "message_step cfg w m d = (r, d1) \<Longrightarrow> step_safe R d d1"
  by (auto simp: message_step_def Let_def split: sum.splits prod.splits if_splits
      intro: step_safe_insert_specs step_safe_rollback step_safe_trans [OF step_safe_rollback step_safe_failed(1)])

lemma message_steps_safe: "step_safe R d (snd (message_steps cfg w ms d))"
  by (induction cfg w ms d rule: message_steps.induct)
    (auto split: sum.split prod.split intro: step_safe_trans message_step_safe)

lemma finish_safe: "step_safe R d (snd r) \<Longrightarrow> step_safe R d (snd (finish cf d x r))"
  by (auto simp: finish_def split: prod.split sum.split option.split intro: step_safe_rollback)

lemma chunk_messages_safe: "step_safe R d (snd (chunk_messages_lazily cfg w batch d))"
  by (auto simp: chunk_messages_lazily_def Let_def message_steps_safe finish_safe split: option.split)

lemma heal_safe: "step_safe R d (heal_text sha d)"
  by (rule step_safe_same) (simp_all add: heal_text_def)

lemma blob_chunk_step_safe: "step_safe R d (blob_chunk_step cfg w t d)"
  by (auto simp: blob_chunk_step_def Let_def heal_safe step_safe_rollback split: sum.split prod.split option.split
      intro: step_safe_rollback step_safe_insert_specs step_safe_trans [OF heal_safe])

lemma blob_chunk_steps_safe: "step_safe R d (blob_chunk_steps cfg w ts d)"
  by (induction cfg w ts d rule: blob_chunk_steps.induct) (auto intro: step_safe_trans blob_chunk_step_safe)

lemma chunk_attachments_safe: "step_safe R d (snd (chunk_attachments_lazily cfg w batch d))"
  by (auto simp: chunk_attachments_lazily_def Let_def blob_chunk_steps_safe finish_safe split: option.split)

lemma lang_safe: "step_safe R d (snd (run_lang_detect_pass w limit d))"
proof -
  have "ed_chunks (snd (lang_steps w rs n d)) = ed_chunks d \<and> ed_seq (snd (lang_steps w rs n d)) = ed_seq d" for rs n d
    by (induction w rs n d rule: lang_steps.induct)
      (auto split: sum.split option.split simp: update_message_def mark_attempted_safely_def)
  then have "step_safe R d (snd (lang_steps w rs n d))" for rs n d by (simp add: step_safe_same)
  then show ?thesis
    by (auto simp: run_lang_detect_pass_def Let_def split: option.split sum.split prod.split) (metis snd_conv)
qed

definition text_of :: "embed_db \<Rightarrow> chunk_table \<Rightarrow> int \<times> string \<Rightarrow> bool" where
  "text_of d t c \<longleftrightarrow> (\<forall>r \<in> set (ed_chunks d t). ch_id r = fst c \<longrightarrow> ch_text r = snd c)"

lemma text_of_stays: "ed_chunks d' t = ed_chunks d t \<Longrightarrow> text_of d' t c = text_of d t c"
  by (simp add: text_of_def)

lemma ball_update_where: "(\<forall>y \<in> set (update_where P f xs). Q y) \<longleftrightarrow> (\<forall>x \<in> set xs. if P x then Q (f x) else Q x)"
  by (induction xs) auto

lemma text_of_set_embedding [simp]: "text_of (set_embedding t cid v d) t c = text_of d t c"
  by (auto simp: text_of_def set_embedding_def ball_update_where)

lemma set_embedding_safe: "R (snd c) v \<Longrightarrow> text_of d t c \<Longrightarrow> step_safe R d (set_embedding t (fst c) v d)"
  by (fastforce simp: step_safe_def chunk_inv_def set_embedding_def set_update_where text_of_def map_update_where)

lemma store_vectors_safe:
  "\<forall>p \<in> set (zip (map snd cs) vs). R (fst p) (snd p) \<Longrightarrow> \<forall>c \<in> set cs. text_of d t c \<Longrightarrow>
   step_safe R d (snd (store_vectors w t n cs vs d))"
proof (induction w t n cs vs d rule: store_vectors.induct)
  case (2 w t n c cs v vs d)
  show ?case
  proof (cases "ew_store_fault w t (fst c)")
    case None
    moreover have "step_safe R d (set_embedding t (fst c) v d)" by (rule set_embedding_safe) (use 2 in auto)
    ultimately show ?thesis using 2 by (auto intro: step_safe_trans)
  next
    case (Some e)
    have "text_of (record_failed_embedding ok t i e d) t c' = text_of d t c'" for ok i c'
      by (rule text_of_stays) (simp add: record_failed_embedding_def)
    with Some 2 show ?thesis by (auto intro: step_safe_trans [OF step_safe_failed(2)])
  qed
qed auto

lemma claimed_texts:
  assumes "chunk_inv R d" "c \<in> set (claim_unembedded cfg w t d)"
  shows "text_of d t c"
proof -
  from assms(2) obtain r where r: "r \<in> set (ed_chunks d t)" "c = (ch_id r, ch_text r)"
    by (auto simp: claim_unembedded_def dest!: in_set_takeD)
  with assms(1) show ?thesis
    by (auto simp: text_of_def chunk_inv_def distinct_map dest: inj_onD)
qed

definition aligned :: "(string \<Rightarrow> vec \<Rightarrow> bool) \<Rightarrow> embed_world \<Rightarrow> bool" where
  "aligned R w \<longleftrightarrow> (\<forall>t texts vs. ew_backend w t texts = Inr vs \<longrightarrow> (\<forall>p \<in> set (zip texts vs). R (fst p) (snd p)))"

lemma embed_table_safe:
  assumes "aligned R w"
  shows "step_safe R d (snd (embed_table cfg w t now log d))"
proof (cases "chunk_inv R d")
  case True
  let ?cs = "claim_unembedded cfg w t d"
  have "step_safe R d (snd (store_vectors w t 0 ?cs vs d))" if "ew_backend w t (map snd ?cs) = Inr vs" for vs
    using that assms claimed_texts [OF True] by (intro store_vectors_safe) (auto simp: aligned_def)
  then have "step_safe R d (snd (embed_and_store w ?cs t d))"
    by (auto simp: embed_and_store_def split: sum.split prod.split option.split)
  then show ?thesis
    by (auto simp: embed_table_def Let_def split: option.split prod.split sum.split intro: step_safe_rollback)
qed (simp add: step_safe_def)

lemma sweep_safe:
  assumes "aligned R w"
  shows "step_safe R d (snd (run_embed_worker_once cfg det w now log d))"
proof -
  let ?b = "nat (max (ec_batch_size cfg) (ec_chunk_batch_size cfg))"
  obtain r1 d1 where 1: "chunk_messages_lazily cfg w ?b d = (r1, d1)" by force
  obtain r2 d2 where 2: "chunk_attachments_lazily cfg w ?b d1 = (r2, d2)" by force
  obtain r3 l3 d3 where 3: "embed_table cfg w MessageChunks now log d2 = ((r3, l3), d3)" by (metis prod.exhaust)
  obtain r4 l4 d4 where 4: "embed_table cfg w AttachmentChunks now l3 d3 = ((r4, l4), d4)" by (metis prod.exhaust)
  obtain r5 d5 where 5: "run_lang_detect_pass w (nat (ec_lang_batch_size cfg)) d4 = (r5, d5)" by force
  have a1: "step_safe R d d1" using chunk_messages_safe [of R d cfg w ?b] 1 by simp
  have a2: "step_safe R d d2" using step_safe_trans [OF a1] chunk_attachments_safe [of R d1 cfg w ?b] 2 by simp
  have a3: "step_safe R d d3" using step_safe_trans [OF a2] embed_table_safe [OF assms, of d2 cfg MessageChunks now log] 3 by simp
  have a4: "step_safe R d d4" using step_safe_trans [OF a3] embed_table_safe [OF assms, of d3 cfg AttachmentChunks now l3] 4 by simp
  have a5: "step_safe R d d5" using step_safe_trans [OF a4] lang_safe [of R d4 w "nat (ec_lang_batch_size cfg)"] 5 by simp
  show ?thesis using a1 a2 a3 a4 a5 by (simp add: run_embed_worker_once_def Let_def 1 2 3 4 5 split: sum.split)
qed

lemma worker_safe:
  "\<forall>tn \<in> set tns. aligned R (wt_world tn) \<Longrightarrow> step_safe R (wk_db s) (wk_db (run_embed_worker cfg det tns s))"
proof (induction tns arbitrary: s)
  case (Cons tn tns)
  have "step_safe R (wk_db s) (wk_db (embed_turn cfg det tn s))"
    using Cons.prems by (simp add: turn_db sweep_safe split: option.split)
  with Cons show ?case by (auto intro: step_safe_trans)
qed simp

text \<open>
  C25. A stored vector is the vector of its chunk's text. Whatever the backend guarantees of the vectors it
  returns, position by position, holds of every chunk and the vector stored with it, however the
  batches were cut and whatever failed, was rolled back or was retried on the way.
\<close>

theorem vectors_belong_to_texts:
  assumes "\<forall>tn \<in> set tns. aligned R (wt_world tn)" "chunk_inv R (wk_db s)"
    and "r \<in> set (ed_chunks (wk_db (run_embed_worker cfg det tns s)) t)" "ch_embedding r = Some v"
  shows "R (ch_text r) v"
  using worker_safe [OF assms(1), of s cfg det] assms(2-4) by (auto simp: step_safe_def chunk_inv_def)

definition length_vector :: "string \<Rightarrow> vec \<Rightarrow> bool" where
  "length_vector s v \<longleftrightarrow> v = [int (length s)]"

lemma sample_aligned: "aligned length_vector sample_embed_world"
  by (auto simp: aligned_def sample_embed_world_def length_vector_def zip_map2 in_set_zip)

definition sample_run :: worker_state_rec where
  "sample_run = run_embed_worker sample_embed_cfg True [sample_embed_turn, sample_embed_turn] sample_worker"

theorem vectors_belong_to_texts_witness:
  "map ch_text (ed_chunks (wk_db sample_run) AttachmentChunks) = [''ab'', ''c''] \<and>
   map ch_embedding (ed_chunks (wk_db sample_run) AttachmentChunks) = [None, Some [1]] \<and>
   length_vector ''c'' [1]"
proof -
  have rows: "map ch_text (ed_chunks (wk_db sample_run) AttachmentChunks) = [''ab'', ''c'']"
      "map ch_embedding (ed_chunks (wk_db sample_run) AttachmentChunks) = [None, Some [1]]"
    by code_simp+
  then obtain r where r: "r \<in> set (ed_chunks (wk_db sample_run) AttachmentChunks)" "ch_embedding r = Some [1]" "ch_text r = ''c''"
    by (auto simp: map_eq_Cons_conv intro: that)
  have "length_vector (ch_text r) [1]"
  proof (rule vectors_belong_to_texts [where s = sample_worker and tns = "[sample_embed_turn, sample_embed_turn]"])
    show "\<forall>tn \<in> set [sample_embed_turn, sample_embed_turn]. aligned length_vector (wt_world tn)"
      by (simp add: sample_embed_turn_def sample_aligned)
    show "chunk_inv length_vector (wk_db sample_worker)" by (simp add: chunk_inv_def sample_worker_def)
    show "r \<in> set (ed_chunks (wk_db (run_embed_worker sample_embed_cfg True [sample_embed_turn, sample_embed_turn] sample_worker)) AttachmentChunks)"
      using r(1) by (simp add: sample_run_def)
  qed (rule r(2))
  with rows r(3) show ?thesis by simp
qed

subsection \<open>Reopening languages\<close>

text \<open>
  Bodied messages without a label are either claimable or declined, never both. Reopening the declined
  ones moves exactly those, as many as it reports, into the queue, and touches no label.
\<close>

theorem retry_declined_reopens:
  "fst (retry_declined d) + length (filter lang_claimable (ed_messages d)) =
     length (filter lang_claimable (ed_messages (snd (retry_declined d)))) \<and>
   filter lang_declined (ed_messages (snd (retry_declined d))) = [] \<and>
   map em_body_lang (ed_messages (snd (retry_declined d))) = map em_body_lang (ed_messages d)"
proof -
  have "length (filter lang_declined ms) + length (filter lang_claimable ms) =
      length (filter lang_claimable (update_where lang_declined (\<lambda>m. m\<lparr>em_attempted_at := None\<rparr>) ms))" for ms
    by (induction ms) (auto simp: lang_claimable_def lang_declined_def)
  moreover have "filter lang_declined (update_where lang_declined (\<lambda>m. m\<lparr>em_attempted_at := None\<rparr>) ms) = []" for ms
    by (induction ms) (auto simp: lang_declined_def)
  ultimately show ?thesis by (simp add: retry_declined_def map_update_where)
qed

subsection \<open>Poison attachments\<close>

text \<open>
  Nothing remembers that a text could not be chunked. When the chunker raises for each of the first
  texts of the queue, as many as a batch holds, the pass over the attachments changes nothing, every
  time: the texts behind them are never reached.
\<close>

theorem poison_texts_block_queue:
  assumes "\<And>t. t \<in> set (claim_texts w batch d) \<Longrightarrow> \<not> is_ok (chunk_attachment_text (ew_tokenizer w) (ec_chunk cfg) (snd t))"
  shows "((\<lambda>d. snd (chunk_attachments_lazily cfg w batch d)) ^^ n) d = d"
proof -
  have "blob_chunk_steps cfg w ts d = d"
    if "\<And>t. t \<in> set ts \<Longrightarrow> \<not> is_ok (chunk_attachment_text (ew_tokenizer w) (ec_chunk cfg) (snd t))" for ts
    using that
  proof (induction ts)
    case (Cons t ts)
    then obtain e where "chunk_attachment_text (ew_tokenizer w) (ec_chunk cfg) (snd t) = Inl e"
      by (cases "chunk_attachment_text (ew_tokenizer w) (ec_chunk cfg) (snd t)") fastforce+
    with Cons show ?case by (simp add: blob_chunk_step_def Let_def)
  qed simp
  with assms have "snd (chunk_attachments_lazily cfg w batch d) = d"
    by (simp add: chunk_attachments_lazily_def finish_def rollback_to_def Let_def split: option.split)
  then show ?thesis by (induction n) simp_all
qed

definition special_tokenizer :: tokenizer where
  "special_tokenizer = char_tokenizer\<lparr>tk_encode := (\<lambda>s. if str_in ''<|endoftext|>'' s
     then Inl (value_error ''disallowed special token'') else Inr (map of_char s))\<rparr>"

definition blocked_world :: embed_world where
  "blocked_world = sample_embed_world\<lparr>ew_tokenizer := special_tokenizer\<rparr>"

definition blocked_db :: embed_db where
  "blocked_db = (wk_db sample_worker)\<lparr>ed_text := [(''a'', ''<|endoftext|>''), (''b'', ''ok'')]\<rparr>"

theorem poison_texts_block_queue_witness:
  "((\<lambda>d. snd (chunk_attachments_lazily sample_embed_cfg blocked_world 1 d)) ^^ 1000) blocked_db = blocked_db \<and>
   is_ok (chunk_attachment_text special_tokenizer (ec_chunk sample_embed_cfg) ''ok'')"
proof
  have claim: "claim_texts blocked_world 1 blocked_db = [(''a'', ''<|endoftext|>'')]" by code_simp
  have poison: "\<not> is_ok (chunk_attachment_text (ew_tokenizer blocked_world) (ec_chunk sample_embed_cfg) ''<|endoftext|>'')"
    by code_simp
  show "((\<lambda>d. snd (chunk_attachments_lazily sample_embed_cfg blocked_world 1 d)) ^^ 1000) blocked_db = blocked_db"
    by (rule poison_texts_block_queue) (use poison in \<open>auto simp only: claim list.set singleton_iff insert_iff snd_conv empty_iff\<close>)
  show "is_ok (chunk_attachment_text special_tokenizer (ec_chunk sample_embed_cfg) ''ok'')" by code_simp
qed

end
