(* ===== verification/Admin.thy ===== *)
theory Admin
  imports Auth PyStr
begin

text \<open>
  The administration of users and API keys: \<open>api/admin/users.py\<close>, \<open>api/admin/api_keys.py\<close>,
  \<open>api/admin/auth.py\<close>, \<open>api/admin/api_key_names.py\<close> and the admission of an administrator in
  \<open>serve/admin/dependencies.py\<close>, over the tables of \<open>Auth\<close>.

  Each operation is what one transaction does, an error leaving the tables as they were. The operations that
  take administrators away hold one advisory lock from their count to their commit, so they do not
  overlap; minting a key reads and writes in separate statements, and what other sessions commit between
  them is an argument. A generated id is an argument too. Listings leave out creation times and the
  order, which is the collation of the database.
\<close>

datatype admin_error =
    UserFieldError string
  | LastAdminError
  | NoSuchUser
  | NotAnAdmin
  | SessionInvalidated
  | BadCredentials
  | ApiKeyFieldError string
  | ApiKeyNotFound
  | NotAnApiKeyPrincipal
  | ForeignKeyViolation

subsection \<open>Rows\<close>

definition update_user :: "int \<Rightarrow> (api_user \<Rightarrow> api_user) \<Rightarrow> auth_db \<Rightarrow> auth_db" where
  "update_user uid f d = d\<lparr>users := update_where (\<lambda>u. u_id u = uid) f (users d)\<rparr>"

text \<open>
  \<open>DELETE FROM api_users\<close>. The foreign keys of tokens, codes and grants cascade; the one of
  \<open>daemon_commands.requested_by\<close> does not, and \<open>requesters\<close> are the users that column names.
\<close>

definition drop_users :: "(api_user \<Rightarrow> bool) \<Rightarrow> auth_db \<Rightarrow> auth_db" where
  "drop_users P d =
     (let gone = u_id ` set (filter P (users d))
      in d\<lparr>users := filter (\<lambda>u. \<not> P u) (users d), tokens := filter (\<lambda>t. k_user t \<notin> gone) (tokens d),
           refreshes := filter (\<lambda>r. r_user r \<notin> gone) (refreshes d), codes := filter (\<lambda>c. c_user c \<notin> gone) (codes d),
           grants := filter (\<lambda>g. fst g \<notin> gone) (grants d)\<rparr>)"

text \<open>\<open>acl.grant_account\<close> with the foreign keys of \<open>user_accounts\<close>; \<open>accts\<close> are the ids of the accounts.\<close>

definition acl_grant :: "int list \<Rightarrow> int \<Rightarrow> int \<Rightarrow> auth_db \<Rightarrow> auth_db option" where
  "acl_grant accts uid acct d =
     (if (uid, acct) \<in> set (grants d) then Some d
      else if acct \<in> set accts \<and> user_of d uid \<noteq> None then Some (grant_account uid acct d)
      else None)"

subsection \<open>Users\<close>

record user_summary =
  us_id :: int
  us_username :: string
  us_is_admin :: bool
  us_disabled :: bool
  us_is_service :: bool

definition summary_of :: "api_user \<Rightarrow> user_summary" where
  "summary_of u = \<lparr>us_id = u_id u, us_username = u_username u, us_is_admin = u_is_admin u,
     us_disabled = (u_disabled_at u \<noteq> None), us_is_service = u_is_service u\<rparr>"

definition list_users :: "auth_db \<Rightarrow> user_summary list" where
  "list_users d = map summary_of (users d)"

definition get_user :: "int list \<Rightarrow> int \<Rightarrow> auth_db \<Rightarrow> admin_error + user_summary \<times> (int \<times> bool) list" where
  "get_user accts uid d =
     (case user_of d uid of
        None \<Rightarrow> Inl NoSuchUser
      | Some u \<Rightarrow> Inr (summary_of u, map (\<lambda>a. (a, user_has_account d uid a)) accts))"

definition validate_new_user :: "string \<Rightarrow> string \<Rightarrow> admin_error option" where
  "validate_new_user username password =
     (if username = [] \<or> strip username = [] then Some (UserFieldError ''username must not be blank'')
      else if password = [] then Some (UserFieldError ''password must not be blank'') else None)"

definition create_user ::
  "auth_env \<Rightarrow> int \<Rightarrow> string \<Rightarrow> string \<Rightarrow> bool \<Rightarrow> auth_db \<Rightarrow> admin_error + auth_db" where
  "create_user env new_id username password is_admin d =
     (case validate_new_user username password of
        Some e \<Rightarrow> Inl e
      | None \<Rightarrow>
          if list_ex (\<lambda>u. u_username u = strip username) (users d) then Inl (UserFieldError ''username already exists'')
          else Inr (d\<lparr>users := users d @ [\<lparr>u_id = new_id, u_username = strip username,
                 u_password_hash = hash_password env password, u_is_admin = is_admin, u_is_service = False,
                 u_disabled_at = None, u_sessions_invalidated_at = None\<rparr>]\<rparr>))"

definition reject_service_row :: "int \<Rightarrow> auth_db \<Rightarrow> admin_error option" where
  "reject_service_row uid d =
     (case user_of d uid of
        None \<Rightarrow> Some NoSuchUser
      | Some u \<Rightarrow> if u_is_service u then Some (UserFieldError ''API-key principal'') else None)"

definition set_password :: "auth_env \<Rightarrow> int \<Rightarrow> string \<Rightarrow> auth_db \<Rightarrow> admin_error + auth_db" where
  "set_password env uid new_password d =
     (case reject_service_row uid d of
        Some e \<Rightarrow> Inl e
      | None \<Rightarrow>
          if new_password = [] then Inl (UserFieldError ''password must not be blank'')
          else Inr (update_user uid (\<lambda>u. u\<lparr>u_password_hash := hash_password env new_password\<rparr>) d))"

definition would_orphan_last_admin :: "bool \<Rightarrow> nat \<Rightarrow> bool" where
  "would_orphan_last_admin target_is_active_admin count \<longleftrightarrow> target_is_active_admin \<and> count \<le> 1"

definition active_admin :: "api_user \<Rightarrow> bool" where
  "active_admin u \<longleftrightarrow> u_is_admin u \<and> u_disabled_at u = None \<and> \<not> u_is_service u"

definition active_admin_count :: "auth_db \<Rightarrow> nat" where
  "active_admin_count d = length (filter active_admin (users d))"

definition user_state :: "int \<Rightarrow> auth_db \<Rightarrow> (bool \<times> bool) option" where
  "user_state uid d = map_option (\<lambda>u. (u_is_admin u, u_disabled_at u \<noteq> None)) (user_of d uid)"

definition guard_not_last_admin :: "int \<Rightarrow> auth_db \<Rightarrow> admin_error option" where
  "guard_not_last_admin uid d =
     (case user_state uid d of
        None \<Rightarrow> Some NoSuchUser
      | Some (is_admin, disabled) \<Rightarrow>
          if would_orphan_last_admin (is_admin \<and> \<not> disabled) (active_admin_count d) then Some LastAdminError else None)"

definition set_admin :: "int \<Rightarrow> bool \<Rightarrow> auth_db \<Rightarrow> admin_error + auth_db" where
  "set_admin uid is_admin d =
     (case (if \<not> is_admin then guard_not_last_admin uid d else reject_service_row uid d) of
        Some e \<Rightarrow> Inl e
      | None \<Rightarrow> Inr (update_user uid (\<lambda>u. u\<lparr>u_is_admin := is_admin\<rparr>) d))"

definition set_disabled :: "auth_env \<Rightarrow> int \<Rightarrow> bool \<Rightarrow> auth_db \<Rightarrow> admin_error + auth_db" where
  "set_disabled env uid disabled d =
     (case (if disabled then guard_not_last_admin uid d else if user_state uid d = None then Some NoSuchUser else None) of
        Some e \<Rightarrow> Inl e
      | None \<Rightarrow> Inr (update_user uid (\<lambda>u. u\<lparr>u_disabled_at := (if disabled then Some (now env) else None)\<rparr>) d))"

definition delete_user :: "int list \<Rightarrow> int \<Rightarrow> auth_db \<Rightarrow> admin_error + auth_db" where
  "delete_user requesters uid d =
     (case guard_not_last_admin uid d of
        Some e \<Rightarrow> Inl e
      | None \<Rightarrow>
          if uid \<in> set requesters then Inl ForeignKeyViolation else Inr (drop_users (\<lambda>u. u_id u = uid) d))"

definition set_grant :: "int list \<Rightarrow> int \<Rightarrow> int \<Rightarrow> bool \<Rightarrow> auth_db \<Rightarrow> admin_error + auth_db" where
  "set_grant accts uid acct granted d =
     (if user_state uid d = None then Inl NoSuchUser
      else if granted
      then (case acl_grant accts uid acct d of None \<Rightarrow> Inl (UserFieldError ''unknown account'') | Some d1 \<Rightarrow> Inr d1)
      else Inr (snd (revoke_account uid acct d)))"

record action_flags =
  af_block_demote :: bool
  af_block_disable :: bool
  af_block_delete :: bool
  af_block_promote :: bool
  af_block_password :: bool

definition action_flags_for :: "bool \<Rightarrow> nat \<Rightarrow> bool \<Rightarrow> bool \<Rightarrow> action_flags" where
  "action_flags_for target_is_active_admin count is_self is_service =
     (let orphan = would_orphan_last_admin target_is_active_admin count
      in \<lparr>af_block_demote = (is_self \<or> orphan), af_block_disable = orphan, af_block_delete = (is_self \<or> orphan),
          af_block_promote = is_service, af_block_password = is_service\<rparr>)"

subsection \<open>API keys\<close>

definition api_key_prefix :: string where "api_key_prefix = ''lmk_''"

definition key_name_max_chars :: nat where "key_name_max_chars = 128"

definition api_key_name_error :: "string \<Rightarrow> string option" where
  "api_key_name_error name =
     (if name = [] \<or> strip name = [] then Some ''name must not be blank''
      else if key_name_max_chars < length (strip name) then Some ''name longer than 128 chars''
      else None)"

definition is_key :: "api_token \<Rightarrow> bool" where
  "is_key t \<longleftrightarrow> k_api_key_name t \<noteq> None"

definition service_user :: "auth_db \<Rightarrow> int \<Rightarrow> bool" where
  "service_user d uid \<longleftrightarrow> list_ex (\<lambda>u. u_id u = uid \<and> u_is_service u) (users d)"

text \<open>Which of the two exceptions a guarded statement that matched nothing raises.\<close>

definition key_not_found :: "int \<Rightarrow> auth_db \<Rightarrow> admin_error" where
  "key_not_found uid d =
     (if list_ex (\<lambda>u. u_id u = uid \<and> \<not> u_is_service u) (users d) then NotAnApiKeyPrincipal else ApiKeyNotFound)"

record key_summary =
  ks_user :: int
  ks_name :: string
  ks_has_key :: bool
  ks_created_at :: "instant option"
  ks_last_used_at :: "instant option"
  ks_disabled :: bool
  ks_revoked :: bool
  ks_accounts :: "int list"

definition key_summary_of :: "auth_db \<Rightarrow> api_user \<Rightarrow> api_token option \<Rightarrow> key_summary" where
  "key_summary_of d u t =
     \<lparr>ks_user = u_id u, ks_name = u_username u, ks_has_key = (t \<noteq> None), ks_created_at = map_option k_created_at t,
      ks_last_used_at = Option.bind t k_last_used_at, ks_disabled = (u_disabled_at u \<noteq> None),
      ks_revoked = (case (t, u_sessions_invalidated_at u) of (Some t', Some cutoff) \<Rightarrow> k_created_at t' < cutoff | _ \<Rightarrow> False),
      ks_accounts = map snd (filter (\<lambda>g. fst g = u_id u) (grants d))\<rparr>"

text \<open>The \<open>LEFT JOIN\<close> on the keys of a principal: one row a key, or one without.\<close>

definition list_keys :: "auth_db \<Rightarrow> key_summary list" where
  "list_keys d =
     concat (map (\<lambda>u.
       (let keys = filter (\<lambda>t. k_user t = u_id u \<and> is_key t) (tokens d)
        in if keys = [] then [key_summary_of d u None] else map (\<lambda>t. key_summary_of d u (Some t)) keys))
      (filter u_is_service (users d)))"

text \<open>\<open>random_hash\<close> is the hash of random bytes nobody keeps.\<close>

definition create_service_user :: "string \<Rightarrow> int \<Rightarrow> string \<Rightarrow> auth_db \<Rightarrow> admin_error + int \<times> auth_db" where
  "create_service_user random_hash new_id name d =
     (if list_ex (\<lambda>u. u_username u = name) (users d) then Inl (ApiKeyFieldError ''name'')
      else Inr (new_id, d\<lparr>users := users d @ [\<lparr>u_id = new_id, u_username = name, u_password_hash = random_hash,
             u_is_admin = False, u_is_service = True, u_disabled_at = None, u_sessions_invalidated_at = None\<rparr>]\<rparr>))"

text \<open>\<open>race\<close> is what other sessions commit between the look-up and the \<open>INSERT\<close>.\<close>

definition resolve_principal ::
  "string \<Rightarrow> int \<Rightarrow> (auth_db \<Rightarrow> auth_db) \<Rightarrow> string \<Rightarrow> auth_db \<Rightarrow> admin_error + int \<times> auth_db" where
  "resolve_principal random_hash new_id race name d =
     (case find (\<lambda>u. u_username u = name) (users d) of
        None \<Rightarrow> create_service_user random_hash new_id name (race d)
      | Some u \<Rightarrow>
          if \<not> u_is_service u then Inl (ApiKeyFieldError ''name'')
          else if list_ex (\<lambda>t. k_user t = u_id u \<and> is_key t) (tokens d) then Inl (ApiKeyFieldError ''name'')
          else Inr (u_id u, d))"

fun grant_all :: "int list \<Rightarrow> int \<Rightarrow> int list \<Rightarrow> auth_db \<Rightarrow> admin_error + auth_db" where
  "grant_all accts uid [] d = Inr d"
| "grant_all accts uid (a # as) d =
     (case acl_grant accts uid a d of None \<Rightarrow> Inl (ApiKeyFieldError ''_form'') | Some d1 \<Rightarrow> grant_all accts uid as d1)"

text \<open>The \<open>INSERT\<close> of a key under the primary key on the hash and the index \<open>api_tokens_one_key_per_service_user\<close>.\<close>

definition insert_key :: "auth_env \<Rightarrow> string \<Rightarrow> int \<Rightarrow> string \<Rightarrow> auth_db \<Rightarrow> admin_error + auth_db" where
  "insert_key env raw_key uid name d =
     (if list_ex (\<lambda>t. k_hash t = hash_token env raw_key \<or> k_user t = uid \<and> is_key t) (tokens d)
      then Inl (ApiKeyFieldError ''name'')
      else if user_of d uid = None then Inl ForeignKeyViolation
      else Inr (d\<lparr>tokens := tokens d @ [\<lparr>k_hash = hash_token env raw_key, k_user = uid, k_created_at = now env,
              k_expires_at = None, k_last_used_at = None, k_api_key_name = Some name, k_client = None, k_family = None,
              k_resource = None\<rparr>]\<rparr>))"

definition create_key ::
  "auth_env \<Rightarrow> string \<Rightarrow> int \<Rightarrow> (auth_db \<Rightarrow> auth_db) \<Rightarrow> (auth_db \<Rightarrow> auth_db) \<Rightarrow> int list \<Rightarrow> string \<Rightarrow> int list \<Rightarrow> auth_db \<Rightarrow>
   admin_error + (int \<times> string) \<times> auth_db" where
  "create_key env random_hash new_id race1 race2 accts name account_ids d =
     (case api_key_name_error name of
        Some e \<Rightarrow> Inl (ApiKeyFieldError ''name'')
      | None \<Rightarrow>
          bindr (resolve_principal random_hash new_id race1 (strip name) d) (\<lambda>(uid, d1).
            bindr (grant_all accts uid account_ids d1) (\<lambda>d2.
              let raw_key = api_key_prefix @ fresh_token env
              in bindr (insert_key env raw_key uid (strip name) (race2 d2)) (\<lambda>d3. Inr ((uid, raw_key), d3)))))"

definition set_key_grant :: "int list \<Rightarrow> int \<Rightarrow> int \<Rightarrow> bool \<Rightarrow> auth_db \<Rightarrow> admin_error + auth_db" where
  "set_key_grant accts uid acct granted d =
     (if \<not> service_user d uid then Inl (key_not_found uid d)
      else if granted
      then (case acl_grant accts uid acct d of None \<Rightarrow> Inl (ApiKeyFieldError ''_form'') | Some d1 \<Rightarrow> Inr d1)
      else Inr (snd (revoke_account uid acct d)))"

definition revoke_key :: "int \<Rightarrow> auth_db \<Rightarrow> admin_error + auth_db" where
  "revoke_key uid d =
     (if service_user d uid \<and> list_ex (\<lambda>t. k_user t = uid) (tokens d)
      then Inr (d\<lparr>tokens := filter (\<lambda>t. k_user t \<noteq> uid) (tokens d)\<rparr>)
      else Inl (key_not_found uid d))"

definition delete_key_principal :: "int list \<Rightarrow> int \<Rightarrow> auth_db \<Rightarrow> admin_error + auth_db" where
  "delete_key_principal requesters uid d =
     (if \<not> service_user d uid then Inl (key_not_found uid d)
      else if uid \<in> set requesters then Inl ForeignKeyViolation
      else Inr (drop_users (\<lambda>u. u_id u = uid \<and> u_is_service u) d))"

subsection \<open>Administrators\<close>

record admin_user =
  ad_id :: int
  ad_username :: string

definition authenticate_admin :: "auth_env \<Rightarrow> string \<Rightarrow> string \<Rightarrow> auth_db \<Rightarrow> admin_error + admin_user" where
  "authenticate_admin env username password d =
     (case find (\<lambda>u. u_username u = username \<and> login_eligible u) (users d) of
        None \<Rightarrow> Inl BadCredentials
      | Some u \<Rightarrow>
          if \<not> verify_password env password (u_password_hash u) then Inl BadCredentials
          else if \<not> u_is_admin u then Inl NotAnAdmin
          else Inr \<lparr>ad_id = u_id u, ad_username = username\<rparr>)"

text \<open>\<open>issued_at\<close> counts seconds, the column microseconds.\<close>

definition get_admin_user :: "int \<Rightarrow> int option \<Rightarrow> auth_db \<Rightarrow> admin_error + admin_user" where
  "get_admin_user uid issued_at d =
     (case find (\<lambda>u. u_id u = uid \<and> u_disabled_at u = None) (users d) of
        None \<Rightarrow> Inl NoSuchUser
      | Some u \<Rightarrow>
          if \<not> u_is_admin u then Inl NotAnAdmin
          else if (case (issued_at, u_sessions_invalidated_at u) of
                     (Some i, Some cutoff) \<Rightarrow> i * 1000000 < cutoff | _ \<Rightarrow> False)
          then Inl SessionInvalidated
          else Inr \<lparr>ad_id = uid, ad_username = u_username u\<rparr>)"

definition grant_admin :: "string \<Rightarrow> auth_db \<Rightarrow> admin_error + auth_db" where
  "grant_admin username d =
     (case find (\<lambda>u. u_username u = username) (users d) of
        None \<Rightarrow> Inl NoSuchUser
      | Some u \<Rightarrow>
          (case reject_service_row (u_id u) d of
             Some e \<Rightarrow> Inl e
           | None \<Rightarrow> Inr (update_user (u_id u) (\<lambda>u. u\<lparr>u_is_admin := True\<rparr>) d)))"

definition revoke_admin :: "string \<Rightarrow> auth_db \<Rightarrow> admin_error + auth_db" where
  "revoke_admin username d =
     (if list_ex (\<lambda>u. u_username u = username) (users d)
      then Inr (d\<lparr>users := update_where (\<lambda>u. u_username u = username) (\<lambda>u. u\<lparr>u_is_admin := False\<rparr>) (users d)\<rparr>)
      else Inl NoSuchUser)"

definition revoke_admin_sessions :: "auth_env \<Rightarrow> string \<Rightarrow> auth_db \<Rightarrow> admin_error + auth_db" where
  "revoke_admin_sessions env username d =
     (if list_ex (\<lambda>u. u_username u = username) (users d)
      then Inr (d\<lparr>users := update_where (\<lambda>u. u_username u = username)
             (\<lambda>u. u\<lparr>u_sessions_invalidated_at := Some (now env)\<rparr>) (users d)\<rparr>)
      else Inl NoSuchUser)"

subsection \<open>Admission\<close>

datatype refusal = RedirectToLogin | Forbidden | Unauthorized

record session_payload =
  sp_user_id :: int
  sp_issued_at :: int

text \<open>The cookie is given as what \<open>decode_session_token\<close> made of it, \<open>None\<close> when absent or refused.\<close>

definition admin_from_cookie :: "session_payload option \<Rightarrow> auth_db \<Rightarrow> refusal + admin_user" where
  "admin_from_cookie cookie d =
     (case cookie of
        None \<Rightarrow> Inl RedirectToLogin
      | Some p \<Rightarrow>
          (case get_admin_user (sp_user_id p) (Some (sp_issued_at p)) d of
             Inr a \<Rightarrow> Inr a
           | Inl NotAnAdmin \<Rightarrow> Inl Forbidden
           | Inl _ \<Rightarrow> Inl RedirectToLogin))"

definition bearer_prefix :: string where "bearer_prefix = ''Bearer ''"

definition require_admin ::
  "auth_env \<Rightarrow> string \<Rightarrow> session_payload option \<Rightarrow> auth_db \<Rightarrow> (refusal + admin_user) \<times> auth_db" where
  "require_admin env authz cookie d =
     (if startswith authz bearer_prefix
      then (case verify_token env (drop (length bearer_prefix) authz) d of
              (None, d1) \<Rightarrow> (Inl Unauthorized, d1)
            | (Some u, d1) \<Rightarrow>
                (if au_is_api_key u then Inl Forbidden
                 else if \<not> au_is_admin u then Inl Forbidden
                 else Inr \<lparr>ad_id = au_id u, ad_username = au_username u\<rparr>, d1))
      else (admin_from_cookie cookie d, d))"

end
