(* ===== verification/AdminSafety.thy ===== *)
theory AdminSafety
  imports Admin
begin

text \<open>
  What the administration of users and keys promises: an administrator is always left, a machine
  principal never becomes an interactive one, only people who administer are admitted to the admin
  routes, the listing of keys tells which of them work, and operations on keys leave people alone.
\<close>

subsection \<open>The steps\<close>

text \<open>
  Everything that changes the tables of users and tokens: the admin screens, the command line and the
  sessions themselves. \<open>revoke_admin\<close>, which only the command line offers and which has no guard, is
  kept apart: \<open>governed_step\<close> adds it, with the condition under which it does no harm.
\<close>

inductive admin_step :: "auth_db \<Rightarrow> auth_db \<Rightarrow> bool" where
  create_user: "create_user env new_id name pw is_admin d = Inr d' \<Longrightarrow> new_id \<notin> u_id ` set (users d) \<Longrightarrow> admin_step d d'"
| set_password: "set_password env uid pw d = Inr d' \<Longrightarrow> admin_step d d'"
| set_admin: "set_admin uid b d = Inr d' \<Longrightarrow> admin_step d d'"
| set_disabled: "set_disabled env uid b d = Inr d' \<Longrightarrow> admin_step d d'"
| delete_user: "delete_user requesters uid d = Inr d' \<Longrightarrow> admin_step d d'"
| set_grant: "set_grant accts uid acct b d = Inr d' \<Longrightarrow> admin_step d d'"
| revoke_sessions: "revoke_sessions env uid d = Inr d' \<Longrightarrow> admin_step d d'"
| create_key: "create_key env rh new_id id id accts name acs d = Inr (k, d') \<Longrightarrow> new_id \<notin> u_id ` set (users d) \<Longrightarrow> admin_step d d'"
| set_key_grant: "set_key_grant accts uid acct b d = Inr d' \<Longrightarrow> admin_step d d'"
| revoke_key: "revoke_key uid d = Inr d' \<Longrightarrow> admin_step d d'"
| delete_key_principal: "delete_key_principal requesters uid d = Inr d' \<Longrightarrow> admin_step d d'"
| grant_admin: "grant_admin name d = Inr d' \<Longrightarrow> admin_step d d'"
| revoke_admin_sessions: "revoke_admin_sessions env name d = Inr d' \<Longrightarrow> admin_step d d'"
| login: "login env cfg name pw ip d = (r, d') \<Longrightarrow> admin_step d d'"
| verify: "verify_token env token d = (r, d') \<Longrightarrow> admin_step d d'"
| refresh: "refresh_token env token d = (r, d') \<Longrightarrow> admin_step d d'"
| logout: "logout env token d = (r, d') \<Longrightarrow> admin_step d d'"
| change_password: "change_password env dummy uid old new d = Inr d' \<Longrightarrow> admin_step d d'"

subsection \<open>What is kept of the principals\<close>

text \<open>A token belongs to a user, and is a key exactly if that user is a machine.\<close>

definition token_owned :: "api_user list \<Rightarrow> api_token \<Rightarrow> bool" where
  "token_owned us t \<longleftrightarrow> (\<exists>u \<in> set us. u_id u = k_user t \<and> u_is_service u = is_key t)"

definition principals_ok :: "auth_db \<Rightarrow> bool" where
  "principals_ok d \<longleftrightarrow>
     distinct (map u_id (users d)) \<and>
     (\<forall>u \<in> set (users d). u_is_service u \<longrightarrow> \<not> u_is_admin u) \<and>
     (\<forall>t \<in> set (tokens d). token_owned (users d) t) \<and>
     distinct (map k_user (filter is_key (tokens d))) \<and>
     (\<forall>t \<in> set (tokens d). \<not> is_key t \<longrightarrow> k_expires_at t \<noteq> None)"

lemma find_filter_hd: "find P xs = (case filter P xs of [] \<Rightarrow> None | x # _ \<Rightarrow> Some x)"
  by (induction xs) auto

lemma in_filter_singleton: "filter P xs = [y] \<Longrightarrow> x \<in> set xs \<Longrightarrow> P x \<Longrightarrow> x = y"
  using set_filter [of P xs] by auto

lemma user_of_Some: "user_of d uid = Some u \<Longrightarrow> u \<in> set (users d) \<and> u_id u = uid"
  by (auto simp: user_of_def dest: find_SomeD)

lemma find_by_key: "distinct (map f xs) \<Longrightarrow> x \<in> set xs \<Longrightarrow> find (\<lambda>y. f y = f x) xs = Some x"
  by (induction xs) (auto simp: image_iff)

lemma user_of_unique: "distinct (map u_id (users d)) \<Longrightarrow> u \<in> set (users d) \<Longrightarrow> user_of d (u_id u) = Some u"
  by (simp add: user_of_def find_by_key)

lemma principals_same: "users d' = users d \<Longrightarrow> tokens d' = tokens d \<Longrightarrow> principals_ok d' = principals_ok d"
  by (simp add: principals_ok_def)

lemma token_owner:
  "principals_ok d \<Longrightarrow> t \<in> set (tokens d) \<Longrightarrow> \<exists>u \<in> set (users d). u_id u = k_user t \<and> u_is_service u = is_key t"
  by (simp add: principals_ok_def token_owned_def)

lemma token_owned_update:
  "(\<And>u. u_id (f u) = u_id u) \<Longrightarrow> (\<And>u. u_is_service (f u) = u_is_service u) \<Longrightarrow>
   token_owned (update_where P f us) t = token_owned us t"
  by (simp add: token_owned_def ex_update_where)

lemma principals_update:
  assumes "principals_ok d" "\<And>u. u_id (f u) = u_id u" "\<And>u. u_is_service (f u) = u_is_service u"
    and "\<And>u. u \<in> set (users d) \<Longrightarrow> P u \<Longrightarrow> u_is_service u \<Longrightarrow> \<not> u_is_admin (f u)"
  shows "principals_ok (d\<lparr>users := update_where P f (users d)\<rparr>)"
  using assms by (auto simp: principals_ok_def map_update_where token_owned_update set_update_where split: if_splits)

lemma principals_filter_tokens:
  assumes "principals_ok d"
  shows "principals_ok (d\<lparr>tokens := filter P (tokens d)\<rparr>)"
proof -
  have "distinct (map k_user (filter is_key (filter P (tokens d))))"
    using assms distinct_map_filter [of k_user "filter is_key (tokens d)" P]
    by (simp add: principals_ok_def filter_filter conj_commute)
  with assms show ?thesis by (simp add: principals_ok_def)
qed

lemma principals_map_tokens:
  assumes "principals_ok d" "\<And>t. k_user (g t) = k_user t" "\<And>t. is_key (g t) = is_key t" "\<And>t. k_expires_at (g t) = k_expires_at t"
  shows "principals_ok (d\<lparr>tokens := map g (tokens d)\<rparr>)"
proof -
  have "map k_user (filter is_key (map g ts)) = map k_user (filter is_key ts)" for ts
    by (induction ts) (auto simp: assms)
  with assms show ?thesis by (auto simp: principals_ok_def token_owned_def)
qed

lemma principals_add_token:
  assumes "principals_ok d" "token_owned (users d) t" "is_key t \<Longrightarrow> k_user t \<notin> k_user ` set (filter is_key (tokens d))"
    "\<not> is_key t \<Longrightarrow> k_expires_at t \<noteq> None"
  shows "principals_ok (d\<lparr>tokens := tokens d @ [t]\<rparr>)"
  using assms by (auto simp: principals_ok_def)

lemma principals_add_user:
  assumes "principals_ok d" "u_id u \<notin> u_id ` set (users d)" "u_is_service u \<Longrightarrow> \<not> u_is_admin u"
  shows "principals_ok (d\<lparr>users := users d @ [u]\<rparr>)"
  using assms by (auto simp: principals_ok_def token_owned_def)

lemma principals_drop:
  assumes "principals_ok d"
  shows "principals_ok (drop_users P d)"
proof -
  let ?gone = "u_id ` set (filter P (users d))"
  have owned: "token_owned (filter (\<lambda>u. \<not> P u) (users d)) t" if t: "t \<in> set (tokens d)" "k_user t \<notin> ?gone" for t
  proof -
    obtain u where u: "u \<in> set (users d)" "u_id u = k_user t" "u_is_service u = is_key t"
      using token_owner [OF assms t(1)] by blast
    with t(2) have "\<not> P u" by (auto simp: image_iff)
    with u show ?thesis by (auto simp: token_owned_def)
  qed
  have "principals_ok (d\<lparr>tokens := filter (\<lambda>t. k_user t \<notin> ?gone) (tokens d)\<rparr>)"
    by (rule principals_filter_tokens [OF assms])
  with owned show ?thesis
    by (auto simp: principals_ok_def drop_users_def Let_def distinct_map_filter)
qed

lemmas principals_intros = principals_update principals_filter_tokens principals_drop

subsection \<open>Each operation keeps them\<close>

lemma update_user_ok:
  "principals_ok d \<Longrightarrow> (\<And>u. u_id (f u) = u_id u) \<Longrightarrow> (\<And>u. u_is_service (f u) = u_is_service u) \<Longrightarrow>
   (\<And>u. u \<in> set (users d) \<Longrightarrow> u_id u = uid \<Longrightarrow> u_is_service u \<Longrightarrow> \<not> u_is_admin (f u)) \<Longrightarrow> principals_ok (update_user uid f d)"
  unfolding update_user_def by (rule principals_update)

lemma principals_not_admin: "principals_ok d \<Longrightarrow> u \<in> set (users d) \<Longrightarrow> u_is_service u \<Longrightarrow> \<not> u_is_admin u"
  by (simp add: principals_ok_def)

lemma human_target:
  assumes "principals_ok d" "reject_service_row uid d = None" "u \<in> set (users d)" "u_id u = uid"
  shows "\<not> u_is_service u"
  using assms user_of_unique [of d u] by (auto simp: reject_service_row_def principals_ok_def split: option.splits if_splits)

lemma insert_session_ok: "principals_ok d \<Longrightarrow> insert_session_token env uid e c f r d = Inr d' \<Longrightarrow> principals_ok d'"
  by (auto simp: insert_session_token_def insert_token_def token_owned_def is_key_def
      split: option.splits if_splits dest!: user_of_Some intro!: principals_add_token)

lemma issue_token_ok: "principals_ok d \<Longrightarrow> issue_token env uid d = Inr (k, d') \<Longrightarrow> principals_ok d'"
  by (auto simp: issue_token_def bindr_Inr_iff dest: insert_session_ok)

lemma verify_ok: "principals_ok d \<Longrightarrow> verify_token env token d = (r, d') \<Longrightarrow> principals_ok d'"
proof -
  assume ok: "principals_ok d" and run: "verify_token env token d = (r, d')"
  have "principals_ok (d\<lparr>tokens := update_where P (\<lambda>s. s\<lparr>k_last_used_at := x\<rparr>) (tokens d)\<rparr>)" for P x
    unfolding update_where_def by (rule principals_map_tokens [OF ok]) (simp_all add: is_key_def)
  with ok run show ?thesis by (auto simp: verify_token_def split: option.splits)
qed

lemma login_ok: "principals_ok d \<Longrightarrow> login env cfg name pw ip d = (r, d') \<Longrightarrow> principals_ok d'"
proof -
  assume ok: "principals_ok d" and run: "login env cfg name pw ip d = (r, d')"
  have same: "principals_ok (maybe_sweep env cfg (record_login_attempt env name ip out d))" for out
    using ok by (auto simp: maybe_sweep_def sweep_login_attempts_def record_login_attempt_def principals_ok_def)
  show ?thesis
    using run ok same issue_token_ok [OF same]
    by (auto simp: login_def Let_def split: sum.splits option.splits if_splits prod.splits)
qed

lemma refresh_ok: "principals_ok d \<Longrightarrow> refresh_token env token d = (r, d') \<Longrightarrow> principals_ok d'"
  by (auto simp: refresh_token_def split: option.splits prod.splits if_splits sum.splits
      intro!: principals_filter_tokens dest: verify_ok issue_token_ok)

lemma acl_grant_same: "acl_grant accts uid a d = Some d' \<Longrightarrow> users d' = users d \<and> tokens d' = tokens d"
  by (auto simp: acl_grant_def grant_account_def split: if_splits)

lemma set_grant_same: "set_grant accts uid acct b d = Inr d' \<Longrightarrow> users d' = users d \<and> tokens d' = tokens d"
  by (auto simp: set_grant_def revoke_account_def split: option.splits if_splits dest: acl_grant_same)

lemma set_key_grant_same: "set_key_grant accts uid acct b d = Inr d' \<Longrightarrow> users d' = users d \<and> tokens d' = tokens d"
  by (auto simp: set_key_grant_def revoke_account_def split: option.splits if_splits dest: acl_grant_same)

lemma grant_all_same: "grant_all accts uid as d = Inr d' \<Longrightarrow> users d' = users d \<and> tokens d' = tokens d"
  by (induction accts uid as d rule: grant_all.induct) (auto split: option.splits dest: acl_grant_same)

lemma insert_key_ok:
  assumes "principals_ok d" "service_user d uid" "insert_key env raw uid name d = Inr d'"
  shows "principals_ok d'"
proof -
  from assms(2) obtain u where "u \<in> set (users d)" "u_id u = uid" "u_is_service u"
    by (auto simp: service_user_def list_ex_iff)
  with assms(1,3) show ?thesis
    by (auto simp: insert_key_def list_ex_iff is_key_def token_owned_def split: if_splits intro!: principals_add_token)
qed

lemma resolve_ok:
  assumes "principals_ok d" "new_id \<notin> u_id ` set (users d)" "resolve_principal rh new_id id name d = Inr (uid, d')"
  shows "principals_ok d' \<and> service_user d' uid"
  using assms
  by (auto simp: resolve_principal_def create_service_user_def service_user_def list_ex_iff
      split: option.splits if_splits dest: find_SomeD intro!: principals_add_user)

lemma create_key_ok:
  assumes "principals_ok d" "new_id \<notin> u_id ` set (users d)" "create_key env rh new_id id id accts name acs d = Inr (k, d')"
  shows "principals_ok d'"
proof -
  from assms(3) obtain uid d1 d2 raw where r: "resolve_principal rh new_id id (strip name) d = Inr (uid, d1)"
      "grant_all accts uid acs d1 = Inr d2" "insert_key env raw uid (strip name) d2 = Inr d'"
    by (auto simp: create_key_def bindr_Inr_iff Let_def split: option.splits)
  note d1 = resolve_ok [OF assms(1,2) r(1)]
  with grant_all_same [OF r(2)] have "principals_ok d2" "service_user d2 uid"
    by (auto simp: principals_same [of d2 d1] service_user_def)
  then show ?thesis by (rule insert_key_ok [OF _ _ r(3)])
qed

lemma admin_step_ok: "admin_step d d' \<Longrightarrow> principals_ok d \<Longrightarrow> principals_ok d'"
proof (induction rule: admin_step.induct)
  case (create_user env new_id name pw is_admin d d')
  then show ?case by (auto simp: create_user_def split: option.splits if_splits intro!: principals_add_user)
next
  case (set_password env uid pw d d')
  then show ?case
    by (auto simp: set_password_def split: option.splits if_splits intro!: update_user_ok dest: principals_not_admin)
next
  case (set_admin uid b d d')
  then show ?case
    by (cases b) (auto simp: set_admin_def split: option.splits intro!: update_user_ok dest: human_target principals_not_admin)
next
  case (set_disabled env uid b d d')
  then show ?case
    by (auto simp: set_disabled_def split: option.splits if_splits intro!: update_user_ok dest: principals_not_admin)
next
  case (delete_user requesters uid d d')
  then show ?case by (auto simp: delete_user_def split: option.splits if_splits intro: principals_drop)
next
  case (set_grant accts uid acct b d d')
  then show ?case
    using set_grant_same principals_same by blast
next
  case (revoke_sessions env uid d d')
  then show ?case
    by (auto simp: revoke_sessions_def split: if_splits intro!: principals_update dest: principals_not_admin)
next
  case (create_key env rh new_id accts name acs d k d')
  then show ?case by (blast intro: create_key_ok)
next
  case (set_key_grant accts uid acct b d d')
  then show ?case
    using set_key_grant_same principals_same by blast
next
  case (revoke_key uid d d')
  then show ?case by (auto simp: revoke_key_def split: if_splits intro: principals_filter_tokens)
next
  case (delete_key_principal requesters uid d d')
  then show ?case by (auto simp: delete_key_principal_def split: if_splits intro: principals_drop)
next
  case (grant_admin name d d')
  then show ?case
    by (auto simp: grant_admin_def split: option.splits intro!: update_user_ok dest: human_target)
next
  case (revoke_admin_sessions env name d d')
  then show ?case
    by (auto simp: revoke_admin_sessions_def split: if_splits intro!: principals_update dest: principals_not_admin)
next
  case (logout env token d r d')
  then show ?case
    by (auto simp: logout_def Let_def split: if_splits intro: principals_filter_tokens)
next
  case (change_password env dummy uid old new d d')
  then show ?case
    by (auto simp: change_password_def Let_def split: if_splits intro!: principals_update dest: principals_not_admin)
qed (blast intro: login_ok verify_ok refresh_ok)+

lemma revoke_admin_ok: "revoke_admin name d = Inr d' \<Longrightarrow> principals_ok d \<Longrightarrow> principals_ok d'"
  by (auto simp: revoke_admin_def split: if_splits intro!: principals_update)

text \<open>
  A machine principal stays one: whatever sequence of screens, commands, logins and refreshes is run, a service
  user never is an administrator and never holds a session, only people hold sessions and all of those
  expire, and each machine has at most one key.
\<close>

theorem machines_stay_machines:
  assumes "admin_step\<^sup>*\<^sup>* d d'" "principals_ok d"
  shows "(\<forall>u \<in> set (users d'). u_is_service u \<longrightarrow> \<not> u_is_admin u \<and> \<not> login_eligible u) \<and>
    (\<forall>t \<in> set (tokens d'). \<exists>u. user_of d' (k_user t) = Some u \<and> u_is_service u = (k_api_key_name t \<noteq> None)) \<and>
    (\<forall>t \<in> set (tokens d'). k_api_key_name t = None \<longrightarrow> k_expires_at t \<noteq> None) \<and>
    distinct (map k_user (filter (\<lambda>t. k_api_key_name t \<noteq> None) (tokens d')))"
proof -
  have ok: "principals_ok d'" using assms by (induction rule: rtranclp_induct) (auto intro: admin_step_ok)
  have "\<exists>u. user_of d' (k_user t) = Some u \<and> u_is_service u = is_key t" if t: "t \<in> set (tokens d')" for t
  proof -
    obtain u where "u \<in> set (users d')" "u_id u = k_user t" "u_is_service u = is_key t"
      using token_owner [OF ok t] by blast
    with user_of_unique [of d' u] ok show ?thesis by (auto simp: principals_ok_def)
  qed
  with ok show ?thesis
    by (simp add: principals_ok_def login_eligible_def is_key_def [abs_def])
qed

subsection \<open>An administrator is left\<close>

lemma admins_exist: "0 < active_admin_count d \<longleftrightarrow> (\<exists>v \<in> set (users d). active_admin v)"
  by (auto simp: active_admin_count_def filter_empty_conv)

lemma two_admins: "distinct (map u_id us) \<Longrightarrow> 2 \<le> length (filter active_admin us) \<Longrightarrow> \<exists>v \<in> set us. active_admin v \<and> u_id v \<noteq> uid"
proof (rule ccontr)
  assume dist: "distinct (map u_id us)" and two: "2 \<le> length (filter active_admin us)"
    and none: "\<not> (\<exists>v \<in> set us. active_admin v \<and> u_id v \<noteq> uid)"
  have "set (map u_id (filter active_admin us)) \<subseteq> {uid}" using none by auto
  then have "card (set (map u_id (filter active_admin us))) \<le> 1" using card_mono [of "{uid}"] by fastforce
  moreover have "distinct (map u_id (filter active_admin us))" using dist by (rule distinct_map_filter)
  ultimately show False using two distinct_card [of "map u_id (filter active_admin us)"] by simp
qed

text \<open>Behind the guard there is an administrator other than the target.\<close>

lemma guard_leaves_one:
  assumes "guard_not_last_admin uid d = None" "principals_ok d" "0 < active_admin_count d"
  shows "\<exists>v \<in> set (users d). active_admin v \<and> u_id v \<noteq> uid"
proof -
  have dist: "distinct (map u_id (users d))" using assms(2) by (simp add: principals_ok_def)
  from assms(1) obtain u where u: "user_of d uid = Some u"
      "\<not> ((u_is_admin u \<and> u_disabled_at u = None) \<and> active_admin_count d \<le> 1)"
    by (auto simp: guard_not_last_admin_def user_state_def would_orphan_last_admin_def split: option.splits if_splits prod.splits)
  show ?thesis
  proof (cases "u_is_admin u \<and> u_disabled_at u = None")
    case True
    with u(2) have "2 \<le> length (filter active_admin (users d))" by (simp add: active_admin_count_def)
    then show ?thesis by (rule two_admins [OF dist])
  next
    case False
    obtain v where v: "v \<in> set (users d)" "active_admin v" using assms(3) by (auto simp: admins_exist)
    have "u_id v \<noteq> uid"
    proof
      assume "u_id v = uid"
      with user_of_unique [OF dist v(1)] u(1) have "v = u" by simp
      with v(2) False show False by (simp add: active_admin_def)
    qed
    with v show ?thesis by blast
  qed
qed

lemma update_other_stays:
  "v \<in> set (users d) \<Longrightarrow> active_admin v \<Longrightarrow> u_id v \<noteq> uid \<Longrightarrow> 0 < active_admin_count (update_user uid f d)"
  by (auto simp: admins_exist update_user_def set_update_where)

lemma drop_other_stays:
  "v \<in> set (users d) \<Longrightarrow> active_admin v \<Longrightarrow> \<not> P v \<Longrightarrow> 0 < active_admin_count (drop_users P d)"
  by (auto simp: admins_exist drop_users_def Let_def)

lemma update_all_stay:
  assumes "0 < active_admin_count d" "\<And>u. active_admin u \<Longrightarrow> active_admin (f u)"
  shows "0 < active_admin_count (d\<lparr>users := update_where P f (users d)\<rparr>)"
proof -
  obtain v where "v \<in> set (users d)" "active_admin v" using assms(1) by (auto simp: admins_exist)
  then have "(if P v then f v else v) \<in> set (update_where P f (users d))" "active_admin (if P v then f v else v)"
    using assms(2) by (auto simp: set_update_where)
  then show ?thesis by (auto simp: admins_exist)
qed

lemma same_users_count: "users d' = users d \<Longrightarrow> active_admin_count d' = active_admin_count d"
  by (simp add: active_admin_count_def)

lemma issue_token_users: "issue_token env uid d = Inr (k, d') \<Longrightarrow> users d' = users d"
  by (auto simp: issue_token_def bindr_Inr_iff insert_session_token_def insert_token_def split: option.splits if_splits)

lemma verify_users: "verify_token env token d = (r, d') \<Longrightarrow> users d' = users d"
  by (auto simp: verify_token_def split: option.splits)

lemma refresh_users: "refresh_token env token d = (r, d') \<Longrightarrow> users d' = users d"
  by (auto simp: refresh_token_def split: option.splits prod.splits if_splits sum.splits dest!: verify_users issue_token_users)

lemma logout_users: "logout env token d = (r, d') \<Longrightarrow> users d' = users d"
  by (auto simp: logout_def Let_def split: if_splits)

lemma login_users: "login env cfg name pw ip d = (r, d') \<Longrightarrow> users d' = users d"
proof -
  assume run: "login env cfg name pw ip d = (r, d')"
  have same: "users (maybe_sweep env cfg (record_login_attempt env name ip out d)) = users d" for out
    by (simp add: maybe_sweep_def sweep_login_attempts_def record_login_attempt_def)
  then show ?thesis
    using run by (auto simp: login_def Let_def split: sum.splits option.splits if_splits prod.splits dest!: issue_token_users)
qed

lemma create_key_admins:
  assumes "create_key env rh new_id id id accts name acs d = Inr (k, d')"
  shows "\<exists>us. users d' = users d @ us"
proof -
  from assms obtain uid d1 d2 raw where r: "resolve_principal rh new_id id (strip name) d = Inr (uid, d1)"
      "grant_all accts uid acs d1 = Inr d2" "insert_key env raw uid (strip name) d2 = Inr d'"
    by (auto simp: create_key_def bindr_Inr_iff Let_def split: option.splits)
  from r(1) have "\<exists>us. users d1 = users d @ us"
    by (auto simp: resolve_principal_def create_service_user_def split: option.splits if_splits)
  moreover from r(3) have "users d' = users d2" by (auto simp: insert_key_def split: if_splits)
  ultimately show ?thesis using grant_all_same [OF r(2)] by simp
qed

lemma admin_step_keeps_admin: "admin_step d d' \<Longrightarrow> principals_ok d \<Longrightarrow> 0 < active_admin_count d \<Longrightarrow> 0 < active_admin_count d'"
proof (induction rule: admin_step.induct)
  case (create_user env new_id name pw is_admin d d')
  then show ?case by (auto simp: create_user_def admins_exist split: option.splits if_splits)
next
  case (set_password env uid pw d d')
  then show ?case
    by (auto simp: set_password_def update_user_def split: option.splits if_splits intro!: update_all_stay simp: active_admin_def)
next
  case (set_admin uid b d d')
  show ?case
  proof (cases b)
    case True
    with set_admin show ?thesis
      by (auto simp: set_admin_def update_user_def split: option.splits intro!: update_all_stay simp: active_admin_def)
  next
    case False
    with set_admin guard_leaves_one [of uid d] show ?thesis
      by (auto simp: set_admin_def split: option.splits intro: update_other_stays)
  qed
next
  case (set_disabled env uid b d d')
  show ?case
  proof (cases b)
    case True
    with set_disabled guard_leaves_one [of uid d] show ?thesis
      by (auto simp: set_disabled_def split: option.splits intro: update_other_stays)
  next
    case False
    with set_disabled show ?thesis
      by (auto simp: set_disabled_def update_user_def split: option.splits if_splits intro!: update_all_stay simp: active_admin_def)
  qed
next
  case (delete_user requesters uid d d')
  with guard_leaves_one [of uid d] show ?case
    by (auto simp: delete_user_def split: option.splits if_splits intro: drop_other_stays)
next
  case (revoke_sessions env uid d d')
  then show ?case
    by (auto simp: revoke_sessions_def split: if_splits intro!: update_all_stay simp: active_admin_def)
next
  case (create_key env rh new_id accts name acs d k d')
  from create_key_admins [OF create_key(1)] obtain us where "users d' = users d @ us" ..
  with create_key(4) show ?case by (auto simp: admins_exist)
next
  case (revoke_key uid d d')
  then show ?case by (auto simp: revoke_key_def admins_exist split: if_splits)
next
  case (delete_key_principal requesters uid d d')
  then obtain v where "v \<in> set (users d)" "active_admin v" by (auto simp: admins_exist)
  with delete_key_principal show ?case
    by (auto simp: delete_key_principal_def active_admin_def split: if_splits intro!: drop_other_stays [of v])
next
  case (grant_admin name d d')
  then show ?case
    by (auto simp: grant_admin_def update_user_def split: option.splits intro!: update_all_stay simp: active_admin_def)
next
  case (revoke_admin_sessions env name d d')
  then show ?case
    by (auto simp: revoke_admin_sessions_def split: if_splits intro!: update_all_stay simp: active_admin_def)
next
  case (change_password env dummy uid old new d d')
  then show ?case
    by (auto simp: change_password_def Let_def split: if_splits intro!: update_all_stay simp: active_admin_def)
next
  case (set_grant accts uid acct b d d')
  then show ?case using same_users_count [of d' d] set_grant_same by simp
next
  case (set_key_grant accts uid acct b d d')
  then show ?case using same_users_count [of d' d] set_key_grant_same by simp
next
  case (login env cfg name pw ip d r d')
  then show ?case using same_users_count [of d' d] login_users by simp
next
  case (verify env token d r d')
  then show ?case using same_users_count [of d' d] verify_users by simp
next
  case (refresh env token d r d')
  then show ?case using same_users_count [of d' d] refresh_users by simp
next
  case (logout env token d r d')
  then show ?case using same_users_count [of d' d] logout_users by simp
qed

text \<open>
  The steps with the command \<open>revoke_admin\<close> among them, run on a name while somebody of another name
  is an active administrator.
\<close>

definition governed_step :: "auth_db \<Rightarrow> auth_db \<Rightarrow> bool" where
  "governed_step d d' \<longleftrightarrow> admin_step d d' \<or>
     (\<exists>name. revoke_admin name d = Inr d' \<and> (\<exists>u \<in> set (users d). active_admin u \<and> u_username u \<noteq> name))"

lemma governed_step_keeps:
  assumes "governed_step d d'" "principals_ok d" "0 < active_admin_count d"
  shows "principals_ok d' \<and> 0 < active_admin_count d'"
  using assms(1) unfolding governed_step_def
proof
  assume "admin_step d d'"
  with assms(2,3) show ?thesis by (blast intro: admin_step_ok admin_step_keeps_admin)
next
  assume "\<exists>name. revoke_admin name d = Inr d' \<and> (\<exists>u \<in> set (users d). active_admin u \<and> u_username u \<noteq> name)"
  then obtain name u where r: "revoke_admin name d = Inr d'"
    and u: "u \<in> set (users d)" "active_admin u" "u_username u \<noteq> name" by blast
  from r u have "u \<in> set (users d')" by (auto simp: revoke_admin_def set_update_where split: if_splits)
  with u(2) have "0 < active_admin_count d'" unfolding admins_exist by blast
  with revoke_admin_ok [OF r assms(2)] show ?thesis by blast
qed

lemma governed_steps: "admin_step\<^sup>*\<^sup>* d d' \<Longrightarrow> governed_step\<^sup>*\<^sup>* d d'"
  by (rule rtranclp_mono [THEN predicate2D]) (auto simp: governed_step_def)


definition sample_admin :: "int \<Rightarrow> string \<Rightarrow> api_user" where
  "sample_admin i name = \<lparr>u_id = i, u_username = name, u_password_hash = ''h'', u_is_admin = True, u_is_service = False,
     u_disabled_at = None, u_sessions_invalidated_at = None\<rparr>"

definition admin_env :: auth_env where
  "admin_env = \<lparr>hash_token = id, verify_password = (=), hash_password = id, now = 5, wall = 5, mono = 5, fresh_token = ''k'',
     audit_ok = True, sweep_lock = True\<rparr>"

definition two_admins_db :: auth_db where
  "two_admins_db = \<lparr>users = [sample_admin 1 ''ann'', sample_admin 2 ''bob''], tokens = [], refreshes = [], codes = [], clients = [],
     attempts = [], grants = [], last_sweep = 0\<rparr>"

text \<open>Demote the first of two administrators, then mint a key for a machine.\<close>

definition one_admin_db :: auth_db where
  "one_admin_db = projr (set_admin 1 False two_admins_db)"

definition keyed_db :: auth_db where
  "keyed_db = snd (projr (create_key admin_env ''x'' 3 id id [10] ''bot'' [10] one_admin_db))"

lemma sample_steps: "admin_step\<^sup>*\<^sup>* two_admins_db keyed_db"
proof -
  have "set_admin 1 False two_admins_db = Inr one_admin_db" unfolding one_admin_db_def by code_simp
  then have 1: "admin_step two_admins_db one_admin_db" by (rule admin_step.set_admin)
  have run: "create_key admin_env ''x'' 3 id id [10] ''bot'' [10] one_admin_db = Inr ((3, ''lmk_k''), keyed_db)"
    unfolding keyed_db_def by code_simp
  have "3 \<notin> u_id ` set (users one_admin_db)" by code_simp
  then have "admin_step one_admin_db keyed_db" by (rule admin_step.create_key [OF run])
  with 1 show ?thesis by (auto intro: rtranclp.rtrancl_into_rtrancl)
qed

lemma two_admins_ok: "principals_ok two_admins_db" "0 < active_admin_count two_admins_db"
  by (simp_all add: principals_ok_def two_admins_db_def sample_admin_def active_admin_count_def active_admin_def)


theorem machines_stay_machines_witness:
  "distinct (map k_user (filter (\<lambda>t. k_api_key_name t \<noteq> None) (tokens keyed_db))) \<and>
   map k_api_key_name (tokens keyed_db) = [Some ''bot''] \<and> set_admin 3 True keyed_db = Inl (UserFieldError ''API-key principal'')"
proof -
  have "map k_api_key_name (tokens keyed_db) = [Some ''bot'']" "set_admin 3 True keyed_db = Inl (UserFieldError ''API-key principal'')"
    by code_simp+
  with machines_stay_machines [OF sample_steps two_admins_ok(1)] show ?thesis by blast
qed

subsection \<open>Who is admitted\<close>

text \<open>
  C27. The admin routes admit people only: whoever \<open>require_admin\<close> lets in, by bearer token or by cookie, is a user of
  the table who is no machine, administers, is not disabled, and whose credential was issued after the last
  revocation of that user's sessions.
\<close>

theorem require_admin_admits_people:
  assumes "principals_ok d" "require_admin env authz cookie d = (Inr a, d')"
  shows "\<exists>u. user_of d (ad_id a) = Some u \<and> u_username u = ad_username a \<and> active_admin u \<and>
    (case u_sessions_invalidated_at u of
       None \<Rightarrow> True
     | Some cutoff \<Rightarrow>
         (if startswith authz ''Bearer ''
          then (\<exists>t \<in> set (tokens d). k_hash t = hash_token env (drop 7 authz) \<and> k_user t = u_id u \<and> cutoff \<le> k_created_at t)
          else (\<exists>p. cookie = Some p \<and> sp_user_id p = u_id u \<and> cutoff \<le> sp_issued_at p * 1000000)))"
proof (cases "startswith authz ''Bearer ''")
  case True
  then have pre: "startswith authz bearer_prefix" by (simp add: bearer_prefix_def)
  have len: "length bearer_prefix = 7" by (simp add: bearer_prefix_def)
  from pre obtain u0 where v: "verify_token env (drop 7 authz) d = (Some u0, d')" "\<not> au_is_api_key u0" "au_is_admin u0"
      "a = \<lparr>ad_id = au_id u0, ad_username = au_username u0\<rparr>"
    using assms(2) by (auto simp: require_admin_def len split: option.splits prod.splits if_splits)
  then obtain t u where tu: "token_row env d (drop 7 authz) = Some t" "user_of d (k_user t) = Some u"
      "u0 = \<lparr>au_id = u_id u, au_username = u_username u, au_is_admin = u_is_admin u, au_is_api_key = (k_api_key_name t \<noteq> None)\<rparr>"
    by (auto simp: verify_token_def split: option.splits)
  from tu(1) have t: "t \<in> set (tokens d)" "k_hash t = hash_token env (drop 7 authz)" "owner_valid d (k_user t) (k_created_at t)"
    by (auto simp: token_row_def split: option.splits if_splits dest: find_SomeD)
  with tu(2) have cred: "credential_valid u (k_created_at t)" by (simp add: owner_valid_def)
  have id: "u_id u = k_user t" "u \<in> set (users d)" using user_of_Some [OF tu(2)] by auto
  have "\<not> u_is_service u" using assms(1) id v(3) tu(3) by (auto simp: principals_ok_def)
  with cred v tu have "active_admin u" by (simp add: active_admin_def credential_valid_def)
  with cred t id tu v True show ?thesis
    by (auto simp: credential_valid_def split: option.splits)
next
  case False
  then obtain p where p: "cookie = Some p" "get_admin_user (sp_user_id p) (Some (sp_issued_at p)) d = Inr a"
    using assms(2) by (auto simp: require_admin_def bearer_prefix_def admin_from_cookie_def split: option.splits sum.splits admin_error.splits)
  then obtain u where u: "find (\<lambda>u. u_id u = sp_user_id p \<and> u_disabled_at u = None) (users d) = Some u" "u_is_admin u"
      "a = \<lparr>ad_id = sp_user_id p, ad_username = u_username u\<rparr>"
      "\<not> (case u_sessions_invalidated_at u of None \<Rightarrow> False | Some cutoff \<Rightarrow> sp_issued_at p * 1000000 < cutoff)"
    by (auto simp: get_admin_user_def split: option.splits if_splits)
  from find_SomeD [OF u(1)] have mem: "u \<in> set (users d)" "u_id u = sp_user_id p" "u_disabled_at u = None" by auto
  with assms(1) have "user_of d (sp_user_id p) = Some u" using user_of_unique [of d u] by (simp add: principals_ok_def)
  moreover have "active_admin u" using assms(1) mem u(2) by (auto simp: active_admin_def principals_ok_def)
  ultimately show ?thesis using u p mem False by (auto split: option.splits)
qed

theorem require_admin_admits_people_witness:
  "fst (require_admin admin_env [] (Some \<lparr>sp_user_id = 2, sp_issued_at = 1\<rparr>) keyed_db) = Inr \<lparr>ad_id = 2, ad_username = ''bob''\<rparr> \<and>
   fst (require_admin admin_env ''Bearer lmk_k'' None keyed_db) = Inl Forbidden \<and>
   (\<exists>u. user_of keyed_db 2 = Some u \<and> u_username u = ''bob'' \<and> active_admin u)"
proof -
  have run: "require_admin admin_env [] (Some \<lparr>sp_user_id = 2, sp_issued_at = 1\<rparr>) keyed_db = (Inr \<lparr>ad_id = 2, ad_username = ''bob''\<rparr>, keyed_db)"
    unfolding keyed_db_def by code_simp
  have refused: "fst (require_admin admin_env ''Bearer lmk_k'' None keyed_db) = Inl Forbidden" by code_simp
  have "principals_ok keyed_db"
    using sample_steps two_admins_ok(1) by (induction rule: rtranclp_induct) (auto intro: admin_step_ok)
  from require_admin_admits_people [OF this run] run refused show ?thesis by auto
qed

subsection \<open>Keys\<close>

text \<open>
  The listing of keys tells the truth: a key listed as neither disabled nor revoked is accepted for
  its principal, and any other is not.
\<close>

theorem key_report_matches_verification:
  assumes "principals_ok d" "distinct (map k_hash (tokens d))" "t \<in> set (tokens d)" "k_api_key_name t \<noteq> None" "k_expires_at t = None"
    and "k_hash t = hash_token env raw"
  shows "\<exists>s \<in> set (list_keys d). ks_user s = k_user t \<and> ks_has_key s \<and> ks_created_at s = Some (k_created_at t) \<and>
    ((\<exists>u. fst (verify_token env raw d) = Some u \<and> au_id u = k_user t \<and> au_is_api_key u) \<longleftrightarrow> \<not> ks_disabled s \<and> \<not> ks_revoked s)"
proof -
  obtain u where u: "u \<in> set (users d)" "u_id u = k_user t" "u_is_service u"
    using token_owner [OF assms(1,3)] assms(4) by (auto simp: is_key_def)
  have uo: "user_of d (k_user t) = Some u" using user_of_unique [of d u] assms(1) u by (simp add: principals_ok_def)
  have find: "find (\<lambda>s. k_hash s = hash_token env raw) (tokens d) = Some t"
    using find_by_key [OF assms(2,3)] assms(6) by simp
  let ?s = "key_summary_of d u (Some t)"
  have "t \<in> set (filter (\<lambda>t. k_user t = u_id u \<and> is_key t) (tokens d))" using assms(3,4) u(2) by (simp add: is_key_def)
  then have "?s \<in> set (list_keys d)" using u(1,3) by (auto simp: list_keys_def Let_def filter_empty_conv)
  moreover have "(\<exists>v. fst (verify_token env raw d) = Some v \<and> au_id v = k_user t \<and> au_is_api_key v) \<longleftrightarrow> \<not> ks_disabled ?s \<and> \<not> ks_revoked ?s"
    using assms(4,5) u(2) find uo
    by (auto simp: verify_token_def token_row_def owner_valid_def credential_valid_def key_summary_of_def split: option.splits)
  ultimately show ?thesis using u(2) by (intro bexI [of _ ?s]) (auto simp: key_summary_of_def)
qed

theorem key_report_matches_verification_witness:
  "\<exists>s \<in> set (list_keys keyed_db). ks_user s = 3 \<and> ks_has_key s \<and> ks_created_at s = Some 5 \<and>
    ((\<exists>u. fst (verify_token admin_env ''lmk_k'' keyed_db) = Some u \<and> au_id u = 3 \<and> au_is_api_key u) \<longleftrightarrow> \<not> ks_disabled s \<and> \<not> ks_revoked s)"
proof -
  have ok: "principals_ok keyed_db"
    using sample_steps two_admins_ok(1) by (induction rule: rtranclp_induct) (auto intro: admin_step_ok)
  have toks: "map (\<lambda>t. (k_hash t, k_user t, k_api_key_name t, k_expires_at t, k_created_at t)) (tokens keyed_db) =
      [(''lmk_k'', 3, Some ''bot'', None, 5)]" by code_simp
  then obtain t where t: "tokens keyed_db = [t]" "k_hash t = ''lmk_k''" "k_user t = 3" "k_api_key_name t = Some ''bot''"
      "k_expires_at t = None" "k_created_at t = 5" by auto
  from key_report_matches_verification [OF ok, of t admin_env "''lmk_k''"] t show ?thesis by (simp add: admin_env_def)
qed


lemma create_key_Inr:
  assumes "create_key env rh new_id race1 race2 accts name acs d = Inr ((uid, raw), d')"
  shows "\<exists>d1 d2. resolve_principal rh new_id race1 (strip name) d = Inr (uid, d1) \<and> grant_all accts uid acs d1 = Inr d2 \<and>
    insert_key env raw uid (strip name) (race2 d2) = Inr d' \<and> raw = api_key_prefix @ fresh_token env \<and> api_key_name_error name = None"
  using assms by (auto simp: create_key_def bindr_Inr_iff Let_def split: option.splits)

lemma find_snoc: "find P xs = None \<Longrightarrow> find P (xs @ [x]) = (if P x then Some x else None)"
  by (induction xs) (auto split: if_splits)

lemma insert_key_shape:
  assumes "insert_key env raw uid name d = Inr d'"
  shows "\<exists>k. d' = d\<lparr>tokens := tokens d @ [k]\<rparr> \<and> k_hash k = hash_token env raw \<and> k_user k = uid \<and> k_created_at k = now env \<and>
    k_expires_at k = None \<and> k_api_key_name k = Some name"
  using assms by (auto simp: insert_key_def split: if_splits)

lemma insert_key_verifies:
  assumes "insert_key env raw uid name d = Inr d'" "user_of d' uid = Some u" "credential_valid u (now env)"
  shows "\<exists>v. fst (verify_token env raw d') = Some v \<and> au_id v = uid \<and> au_is_api_key v"
proof -
  obtain k where k: "d' = d\<lparr>tokens := tokens d @ [k]\<rparr>" "k_hash k = hash_token env raw" "k_user k = uid" "k_created_at k = now env"
      "k_expires_at k = None" "k_api_key_name k = Some name"
    using insert_key_shape [OF assms(1)] by blast
  from assms(1) have "find (\<lambda>t. k_hash t = hash_token env raw) (tokens d) = None"
    by (auto simp: insert_key_def find_None_iff list_ex_iff split: if_splits)
  then have "find (\<lambda>t. k_hash t = hash_token env raw) (tokens d') = Some k" using k by (simp add: find_snoc)
  then have "token_row env d' raw = Some k"
    using assms(2,3) k by (simp add: token_row_def owner_valid_def)
  with assms(2) user_of_Some [OF assms(2)] k show ?thesis by (simp add: verify_token_def)
qed

lemma resolve_finds:
  assumes "resolve_principal rh new_id id name d = Inr (uid, d')"
  shows "\<exists>u. find (\<lambda>u. u_username u = name) (users d') = Some u \<and> u_id u = uid \<and> u_is_service u"
proof (cases "find (\<lambda>u. u_username u = name) (users d)")
  case None
  with assms show ?thesis by (auto simp: resolve_principal_def create_service_user_def find_snoc split: if_splits)
next
  case (Some u)
  with assms show ?thesis by (auto simp: resolve_principal_def split: if_splits)
qed

lemma grant_all_grants: "grant_all accts uid as d = Inr d' \<Longrightarrow> (\<forall>g \<in> set (grants d). g \<in> set (grants d')) \<and> (\<forall>a \<in> set as. (uid, a) \<in> set (grants d'))"
  by (induction accts uid as d rule: grant_all.induct)
     (auto simp: acl_grant_def grant_account_def split: option.splits if_splits)

lemma key_life:
  assumes "create_key env rh new_id id id accts name acs d = Inr ((uid, raw), d1)" "user_of d1 uid = Some u" "credential_valid u (now env)"
  shows "\<exists>v. fst (verify_token env raw d1) = Some v \<and> au_id v = uid \<and> au_is_api_key v"
    and "\<forall>a \<in> set acs. user_has_account d1 uid a"
    and "\<exists>d2. revoke_key uid d1 = Inr d2 \<and> grants d2 = grants d1 \<and>
      (\<forall>env' token v. fst (verify_token env' token d2) = Some v \<longrightarrow> au_id v \<noteq> uid) \<and>
      (\<forall>env' rh' new2. hash_token env' (''lmk_'' @ fresh_token env') \<notin> k_hash ` set (tokens d2) \<longrightarrow>
         (\<exists>d3. create_key env' rh' new2 id id accts name [] d2 = Inr ((uid, ''lmk_'' @ fresh_token env'), d3) \<and> users d3 = users d2))"
proof -
  obtain e1 e2 where run: "resolve_principal rh new_id id (strip name) d = Inr (uid, e1)" "grant_all accts uid acs e1 = Inr e2"
      "insert_key env raw uid (strip name) e2 = Inr d1" "api_key_name_error name = None"
    using create_key_Inr [OF assms(1)] by auto
  obtain k where k: "d1 = e2\<lparr>tokens := tokens e2 @ [k]\<rparr>" "k_user k = uid" using insert_key_shape [OF run(3)] by blast
  have us: "users d1 = users e1" using k(1) grant_all_same [OF run(2)] by simp
  obtain w where w: "find (\<lambda>u. u_username u = strip name) (users d1) = Some w" "u_id w = uid" "u_is_service w"
    using resolve_finds [OF run(1)] us by auto
  have serv: "service_user d1 uid" using find_SomeD [OF w(1)] w by (auto simp: service_user_def list_ex_iff)
  show "\<exists>v. fst (verify_token env raw d1) = Some v \<and> au_id v = uid \<and> au_is_api_key v"
    by (rule insert_key_verifies [OF run(3) assms(2,3)])
  show "\<forall>a \<in> set acs. user_has_account d1 uid a" using grant_all_grants [OF run(2)] k(1) by (simp add: user_has_account_def)
  let ?d2 = "d1\<lparr>tokens := filter (\<lambda>t. k_user t \<noteq> uid) (tokens d1)\<rparr>"
  have rev: "revoke_key uid d1 = Inr ?d2" using serv k by (auto simp: revoke_key_def)
  have none: "au_id v \<noteq> uid" if t: "fst (verify_token env' token ?d2) = Some v" for env' token v
  proof -
    from t obtain s o' where "token_row env' ?d2 token = Some s" "user_of ?d2 (k_user s) = Some o'" "au_id v = u_id o'"
      by (auto simp: verify_token_def split: option.splits)
    moreover have "k_user s \<noteq> uid"
      using \<open>token_row env' ?d2 token = Some s\<close> by (auto simp: token_row_def split: option.splits if_splits dest!: find_SomeD)
    ultimately show ?thesis using user_of_Some [of ?d2 "k_user s" o'] by simp
  qed
  have again: "\<exists>d3. create_key env' rh' new2 id id accts name [] ?d2 = Inr ((uid, ''lmk_'' @ fresh_token env'), d3) \<and> users d3 = users ?d2"
    if t: "hash_token env' (''lmk_'' @ fresh_token env') \<notin> k_hash ` set (tokens ?d2)" for env' rh' new2
    using t run(4) w assms(2)
    by (auto simp: create_key_def resolve_principal_def insert_key_def api_key_prefix_def list_ex_iff user_of_def image_iff Let_def)
  show "\<exists>d2. revoke_key uid d1 = Inr d2 \<and> grants d2 = grants d1 \<and>
      (\<forall>env' token v. fst (verify_token env' token d2) = Some v \<longrightarrow> au_id v \<noteq> uid) \<and>
      (\<forall>env' rh' new2. hash_token env' (''lmk_'' @ fresh_token env') \<notin> k_hash ` set (tokens d2) \<longrightarrow>
         (\<exists>d3. create_key env' rh' new2 id id accts name [] d2 = Inr ((uid, ''lmk_'' @ fresh_token env'), d3) \<and> users d3 = users d2))"
    using rev none again by (intro exI [of _ ?d2]) simp
qed

text \<open>
  The life of a key: the value returned when it is minted authenticates as a key of the principal, which
  can read the accounts it was minted for; revoking it succeeds and leaves nothing that authenticates as that
  principal, but its grants remain; and a key minted again under the same name belongs to the same
  principal.
\<close>

theorem api_key_lifecycle:
  assumes "create_key env rh new_id id id accts name acs d = Inr ((uid, raw), d1)" "user_of d1 uid = Some u" "credential_valid u (now env)"
  shows "(\<exists>v. fst (verify_token env raw d1) = Some v \<and> au_id v = uid \<and> au_is_api_key v) \<and>
    (\<forall>a \<in> set acs. user_has_account d1 uid a) \<and>
    (\<exists>d2. revoke_key uid d1 = Inr d2 \<and> grants d2 = grants d1 \<and>
      (\<forall>env' token v. fst (verify_token env' token d2) = Some v \<longrightarrow> au_id v \<noteq> uid) \<and>
      (\<forall>env' rh' new2. hash_token env' (''lmk_'' @ fresh_token env') \<notin> k_hash ` set (tokens d2) \<longrightarrow>
         (\<exists>d3. create_key env' rh' new2 id id accts name [] d2 = Inr ((uid, ''lmk_'' @ fresh_token env'), d3) \<and> users d3 = users d2)))"
  using key_life [OF assms] by blast

theorem api_key_lifecycle_witness:
  "(\<exists>v. fst (verify_token admin_env ''lmk_k'' keyed_db) = Some v \<and> au_id v = 3 \<and> au_is_api_key v) \<and>
   (\<exists>d2. revoke_key 3 keyed_db = Inr d2 \<and> grants d2 = [(3, 10)] \<and> fst (verify_token admin_env ''lmk_k'' d2) = None)"
proof -
  have run: "create_key admin_env ''x'' 3 id id [10] ''bot'' [10] one_admin_db = Inr ((3, ''lmk_k''), keyed_db)"
    unfolding keyed_db_def by code_simp
  have "case user_of keyed_db 3 of Some u \<Rightarrow> credential_valid u (now admin_env) | None \<Rightarrow> False" by code_simp
  then obtain u where u: "user_of keyed_db 3 = Some u" "credential_valid u (now admin_env)" by (auto split: option.splits)
  note life = api_key_lifecycle [OF run u]
  then obtain d2 where d2: "revoke_key 3 keyed_db = Inr d2" "grants d2 = grants keyed_db" by blast
  have "grants keyed_db = [(3, 10)]" by code_simp
  moreover have "case revoke_key 3 keyed_db of Inr d2 \<Rightarrow> fst (verify_token admin_env ''lmk_k'' d2) = None | Inl _ \<Rightarrow> False"
    by code_simp
  ultimately show ?thesis using life d2 by auto
qed

subsection \<open>Operations on keys leave people alone\<close>

inductive key_step :: "auth_db \<Rightarrow> auth_db \<Rightarrow> bool" where
  ks_create: "create_key env rh new_id id id accts name acs d = Inr (k, d') \<Longrightarrow> new_id \<notin> u_id ` set (users d) \<Longrightarrow> key_step d d'"
| ks_grant: "set_key_grant accts uid acct b d = Inr d' \<Longrightarrow> key_step d d'"
| ks_revoke: "revoke_key uid d = Inr d' \<Longrightarrow> key_step d d'"
| ks_delete: "delete_key_principal requesters uid d = Inr d' \<Longrightarrow> key_step d d'"

lemma key_step_admin: "key_step d d' \<Longrightarrow> admin_step d d'"
  by (cases rule: key_step.cases) (auto intro: admin_step.intros)

text \<open>What the tables say of one user.\<close>

definition user_rows :: "int \<Rightarrow> auth_db \<Rightarrow> api_user list \<times> api_token list \<times> (int \<times> int) list \<times> nat \<times> nat" where
  "user_rows uid d = (filter (\<lambda>u. u_id u = uid) (users d), filter (\<lambda>t. k_user t = uid) (tokens d), filter (\<lambda>g. fst g = uid) (grants d),
     length (filter (\<lambda>r. r_user r = uid) (refreshes d)), length (filter (\<lambda>c. c_user c = uid) (codes d)))"

lemma not_a_machine:
  assumes "principals_ok d" "user_of d uid = Some u" "\<not> u_is_service u" "service_user d m"
  shows "m \<noteq> uid"
  using assms user_of_unique [of d] by (fastforce simp: service_user_def list_ex_iff principals_ok_def)

lemma acl_grant_rows: "acl_grant accts m a d = Some d' \<Longrightarrow> m \<noteq> uid \<Longrightarrow> user_rows uid d' = user_rows uid d"
  by (auto simp: acl_grant_def grant_account_def user_rows_def split: if_splits)

lemma revoke_account_rows: "m \<noteq> uid \<Longrightarrow> user_rows uid (snd (revoke_account m a d)) = user_rows uid d"
  by (auto simp: revoke_account_def user_rows_def intro!: filter_cong)

lemma grant_all_rows: "grant_all accts m as d = Inr d' \<Longrightarrow> m \<noteq> uid \<Longrightarrow> user_rows uid d' = user_rows uid d"
  by (induction accts m as d rule: grant_all.induct) (auto split: option.splits dest: acl_grant_rows)

lemma drop_users_rows:
  assumes "\<And>u. u \<in> set (users d) \<Longrightarrow> P u \<Longrightarrow> u_id u \<noteq> uid"
  shows "user_rows uid (drop_users P d) = user_rows uid d"
proof -
  have "uid \<notin> u_id ` set (filter P (users d))" using assms by auto
  then show ?thesis using assms by (auto simp: user_rows_def drop_users_def Let_def intro!: filter_cong arg_cong [where f = length])
qed

lemma create_key_rows:
  assumes "create_key env rh new_id id id accts name acs d = Inr (k, d')" "new_id \<notin> u_id ` set (users d)"
    and "principals_ok d" "user_of d uid = Some u" "\<not> u_is_service u"
  shows "user_rows uid d' = user_rows uid d"
proof -
  obtain m raw where k: "k = (m, raw)" by (cases k)
  obtain e1 e2 where run: "resolve_principal rh new_id id (strip name) d = Inr (m, e1)" "grant_all accts m acs e1 = Inr e2"
      "insert_key env raw m (strip name) e2 = Inr d'"
    using create_key_Inr [OF assms(1) [unfolded k]] by auto
  have u: "u \<in> set (users d)" "u_id u = uid" using user_of_Some [OF assms(4)] by auto
  have m: "m \<noteq> uid \<and> user_rows uid e1 = user_rows uid d"
  proof (cases "find (\<lambda>u. u_username u = strip name) (users d)")
    case None
    with run(1) u assms(2) show ?thesis
      by (auto simp: resolve_principal_def create_service_user_def user_rows_def split: if_splits)
  next
    case (Some v)
    with run(1) have "service_user d m" "e1 = d"
      by (auto simp: resolve_principal_def service_user_def list_ex_iff dest: find_SomeD split: if_splits)
    with not_a_machine [OF assms(3-5)] show ?thesis by auto
  qed
  obtain t where "d' = e2\<lparr>tokens := tokens e2 @ [t]\<rparr>" "k_user t = m" using insert_key_shape [OF run(3)] by blast
  with m have "user_rows uid d' = user_rows uid e2" by (simp add: user_rows_def)
  with grant_all_rows [OF run(2)] m show ?thesis by simp
qed

lemma key_step_rows:
  assumes "key_step d d'" "principals_ok d" "user_of d uid = Some u" "\<not> u_is_service u"
  shows "user_rows uid d' = user_rows uid d"
  using assms(1)
proof (cases rule: key_step.cases)
  case (ks_create env rh new_id accts name acs k)
  then show ?thesis by (rule create_key_rows [OF _ _ assms(2-4)])
next
  case (ks_grant accts m acct b)
  then have "service_user d m" by (auto simp: set_key_grant_def split: if_splits)
  then have "m \<noteq> uid" by (rule not_a_machine [OF assms(2-4)])
  with ks_grant show ?thesis
    by (auto simp: set_key_grant_def revoke_account_rows split: if_splits option.splits dest: acl_grant_rows)
next
  case (ks_revoke m)
  then have "service_user d m" "d' = d\<lparr>tokens := filter (\<lambda>t. k_user t \<noteq> m) (tokens d)\<rparr>" by (auto simp: revoke_key_def split: if_splits)
  with not_a_machine [OF assms(2-4)] show ?thesis by (auto simp: user_rows_def intro!: filter_cong)
next
  case (ks_delete requesters m)
  then have "service_user d m" "d' = drop_users (\<lambda>u. u_id u = m \<and> u_is_service u) d" by (auto simp: delete_key_principal_def split: if_splits)
  with not_a_machine [OF assms(2-4)] show ?thesis by (auto intro!: drop_users_rows)
qed

text \<open>
  The operations on keys leave people alone: whatever keys are minted, granted, revoked and deleted, the row, the
  tokens, the grants, the refresh tokens and the codes of a person are what they were.
\<close>

theorem key_operations_spare_people:
  assumes "key_step\<^sup>*\<^sup>* d d'" "principals_ok d" "user_of d uid = Some u" "\<not> u_is_service u"
  shows "user_rows uid d' = user_rows uid d" and "user_of d' uid = Some u"
proof -
  have keep: "user_of e' uid = Some u" if rows: "user_rows uid e' = user_rows uid e" "user_of e uid = Some u" for e e'
    using rows by (simp add: user_rows_def user_of_def find_filter_hd)
  have "user_rows uid d' = user_rows uid d \<and> user_of d' uid = Some u \<and> principals_ok d'"
    using assms(1)
  proof (induction rule: rtranclp_induct)
    case (step e e')
    with assms(4) have "user_rows uid e' = user_rows uid e" by (blast intro: key_step_rows)
    moreover from this step have "user_of e' uid = Some u" using keep [of e' e] by blast
    ultimately show ?case using step by (auto intro: admin_step_ok key_step_admin)
  qed (use assms in simp)
  then show "user_rows uid d' = user_rows uid d" "user_of d' uid = Some u" by auto
qed

theorem key_operations_spare_people_witness:
  "user_rows 2 keyed_db = user_rows 2 one_admin_db \<and> length (users keyed_db) = 3 \<and> length (users one_admin_db) = 2"
proof -
  have run: "create_key admin_env ''x'' 3 id id [10] ''bot'' [10] one_admin_db = Inr ((3, ''lmk_k''), keyed_db)"
    unfolding keyed_db_def by code_simp
  have "3 \<notin> u_id ` set (users one_admin_db)" by code_simp
  then have step: "key_step\<^sup>*\<^sup>* one_admin_db keyed_db" using ks_create [OF run] by auto
  have "set_admin 1 False two_admins_db = Inr one_admin_db" unfolding one_admin_db_def by code_simp
  then have ok: "principals_ok one_admin_db" using admin_step_ok [OF admin_step.set_admin two_admins_ok(1)] by blast
  have "user_of one_admin_db 2 = Some (sample_admin 2 ''bob'')" by code_simp
  moreover have "\<not> u_is_service (sample_admin 2 ''bob'')" by (simp add: sample_admin_def)
  moreover have "length (users keyed_db) = 3" "length (users one_admin_db) = 2" by code_simp+
  ultimately show ?thesis using key_operations_spare_people [OF step ok] by blast
qed

subsection \<open>What the guards do not cover\<close>

text \<open>
  The command that takes the flag away from a user by name has no guard: it succeeds for the last administrator,
  whom the screens refuse to demote, disable or delete, and leaves no administrator.
\<close>

theorem revoke_admin_can_orphan:
  assumes "distinct (map u_username (users d))" "distinct (map u_id (users d))" "u \<in> set (users d)" "active_admin u" "active_admin_count d = 1"
  shows "set_admin (u_id u) False d = Inl LastAdminError \<and> set_disabled env (u_id u) True d = Inl LastAdminError \<and>
    delete_user rs (u_id u) d = Inl LastAdminError \<and> (\<exists>d'. revoke_admin (u_username u) d = Inr d' \<and> active_admin_count d' = 0)"
proof -
  have uo: "user_of d (u_id u) = Some u" using assms(2,3) by (rule user_of_unique)
  have guard: "guard_not_last_admin (u_id u) d = Some LastAdminError"
    using uo assms(4,5) by (simp add: guard_not_last_admin_def user_state_def would_orphan_last_admin_def active_admin_def)
  from assms(3,4,5) have only: "filter active_admin (users d) = [u]"
    by (auto simp: active_admin_count_def length_Suc_conv dest: in_filter_singleton)
  let ?us = "update_where (\<lambda>v. u_username v = u_username u) (\<lambda>v. v\<lparr>u_is_admin := False\<rparr>) (users d)"
  have "\<not> active_admin v" if v: "v \<in> set ?us" for v
  proof -
    from v obtain w where w: "w \<in> set (users d)" "v = (if u_username w = u_username u then w\<lparr>u_is_admin := False\<rparr> else w)"
      by (auto simp: set_update_where)
    then have "active_admin w \<Longrightarrow> w = u" using only by (blast dest: in_filter_singleton)
    with w show ?thesis by (cases "u_disabled_at w") (auto simp: active_admin_def split: if_splits)
  qed
  then have "filter active_admin ?us = []" by (simp add: filter_empty_conv)
  with guard assms(3) show ?thesis
    by (auto simp: set_admin_def set_disabled_def delete_user_def revoke_admin_def active_admin_count_def list_ex_iff)
qed

theorem revoke_admin_can_orphan_witness:
  "set_admin 2 False one_admin_db = Inl LastAdminError \<and>
   (\<exists>d'. revoke_admin ''bob'' one_admin_db = Inr d' \<and> active_admin_count d' = 0)"
proof -
  have us: "users one_admin_db = [(sample_admin 1 ''ann'')\<lparr>u_is_admin := False\<rparr>, sample_admin 2 ''bob'']" by code_simp
  then have "distinct (map u_username (users one_admin_db))" "distinct (map u_id (users one_admin_db))"
    "sample_admin 2 ''bob'' \<in> set (users one_admin_db)" "active_admin (sample_admin 2 ''bob'')" "active_admin_count one_admin_db = 1"
    by (simp_all add: sample_admin_def active_admin_def active_admin_count_def)
  from revoke_admin_can_orphan [OF this] show ?thesis by (simp add: sample_admin_def)
qed

text \<open>
  A user who ever queued a command for the daemon cannot be deleted: the foreign key of the command
  does not cascade, and the statement fails for every such user the guard lets through.
\<close>

theorem commander_cannot_be_deleted:
  "uid \<in> set requesters \<Longrightarrow> delete_user requesters uid d \<in> {Inl NoSuchUser, Inl LastAdminError, Inl ForeignKeyViolation}"
  by (auto simp: delete_user_def guard_not_last_admin_def split: option.splits)

theorem commander_cannot_be_deleted_witness: "delete_user [1] 1 one_admin_db = Inl ForeignKeyViolation"
proof -
  have "guard_not_last_admin 1 one_admin_db = None" by code_simp
  with commander_cannot_be_deleted [of 1 "[1]" one_admin_db] show ?thesis by (auto simp: delete_user_def)
qed

end
