(* ===== verification/Json.thy ===== *)
theory Json
  imports Prelude
begin

text \<open>
  JSON documents as \<open>json.loads\<close> returns them and PostgreSQL's \<open>jsonb\<close> holds them. An object is the
  list of its entries, a key at most once; a number is an integer or the ordinal of a double.
\<close>

datatype json =
    JNull
  | JBool bool
  | JInt int
  | JFloat int
  | JStr string
  | JArr "json list"
  | JObj "(string \<times> json) list"

text \<open>\<open>d.get(key)\<close>.\<close>

definition json_get :: "string \<Rightarrow> (string \<times> json) list \<Rightarrow> json" where
  "json_get k fs = (case map_of fs k of None \<Rightarrow> JNull | Some v \<Rightarrow> v)"

text \<open>
  Python's \<open>==\<close> between a parsed number and 1: it also holds of \<open>true\<close> and of the double 1.0, whose
  ordinal is the bit pattern of its encoding.
\<close>

definition double_one :: int where "double_one = 4607182418800017408"

definition py_eq_one :: "json \<Rightarrow> bool" where
  "py_eq_one j = (case j of JInt i \<Rightarrow> i = 1 | JBool b \<Rightarrow> b | JFloat o1 \<Rightarrow> o1 = double_one | _ \<Rightarrow> False)"

end
