(* ===== verification/Reading.thy ===== *)
theory Reading
  imports Attachments TextWindow HttpBlob Json
begin

text \<open>
  What a caller reads of the archive: one message and its raw bytes (\<open>api/messages.py\<close>), its header
  block (\<open>header_block.py\<close>), attachments by hash and by position (\<open>api/attachments.py\<close>), accounts and
  folders (\<open>api/accounts.py\<close>). Every accessor is given the accounts the caller may read.

  The \<open>attachments\<close> column is JSON without a check, so its elements are arbitrary JSON values here; that it
  is an array is what every writer of the column ensures. A number is an integer or the ordinal of a
  double. Each accessor reads one state of the tables. The HTML sanitiser, the header parser of the
  standard library, PostgreSQL's text of a JSON value and the clock are parameters; listings are in
  the order of the tables, since the collation is the database's.
\<close>

subsection \<open>Rows and results\<close>

record stored_mail =
  sm_id :: int
  sm_account :: int
  sm_subject :: "string option"
  sm_from_addr :: "string option"
  sm_from_name :: "string option"
  sm_to_addrs :: "string list"
  sm_cc_addrs :: "string list"
  sm_bcc_addrs :: "string list"
  sm_body_text :: "string option"
  sm_body_html :: "string option"
  sm_attachments :: "json list option"
  sm_date_sent :: "instant option"
  sm_raw :: bytes

record named_account =
  na_id :: int
  na_name :: string
  na_email :: string

record stored_blob =
  sb_sha256 :: bytes
  sb_mime :: "string option"
  sb_size :: int
  sb_path :: string

record archive =
  ar_messages :: "stored_mail list"
  ar_accounts :: "named_account list"
  ar_mailboxes :: "mailbox_row list"
  ar_labels :: "label_row list"
  ar_blobs :: "stored_blob list"
  ar_texts :: "(bytes \<times> string) list"
  ar_files :: "(string \<times> bytes) list"

text \<open>\<open>Uncaught\<close> is an exception none of the layers above turns into an answer.\<close>

datatype read_error = NotFound | ValidationFailed | Uncaught

record read_env =
  re_sanitize :: "string \<Rightarrow> (string \<times> json) list \<Rightarrow> bool \<Rightarrow> string"
  re_parse_headers :: "bytes \<Rightarrow> (string \<times> string) list"
  re_render :: "json \<Rightarrow> string"
  re_now :: instant

subsection \<open>JSON values\<close>

text \<open>Python's truth value, \<open>dict.get\<close>, and PostgreSQL's \<open>->>\<close>.\<close>

fun truthy :: "json \<Rightarrow> bool" where
  "truthy JNull = False"
| "truthy (JBool b) = b"
| "truthy (JInt i) = (i \<noteq> 0)"
| "truthy (JFloat i) = (i \<noteq> 0)"
| "truthy (JStr s) = (s \<noteq> [])"
| "truthy (JArr xs) = (xs \<noteq> [])"
| "truthy (JObj kvs) = (kvs \<noteq> [])"

definition dict_get :: "(string \<times> json) list \<Rightarrow> string \<Rightarrow> json" where
  "dict_get kvs k = (case map_of kvs k of None \<Rightarrow> JNull | Some v \<Rightarrow> v)"

definition arrow_text :: "(json \<Rightarrow> string) \<Rightarrow> json \<Rightarrow> string \<Rightarrow> string option" where
  "arrow_text render v k =
     (case v of
        JObj kvs \<Rightarrow> (case dict_get kvs k of JNull \<Rightarrow> None | JStr s \<Rightarrow> Some s | w \<Rightarrow> Some (render w))
      | _ \<Rightarrow> None)"

text \<open>\<open>attachments or []\<close>.\<close>

definition elements :: "stored_mail \<Rightarrow> json list" where
  "elements m = (case sm_attachments m of None \<Rightarrow> [] | Some es \<Rightarrow> es)"

text \<open>\<open>attachments @> jsonb_build_array(jsonb_build_object('sha256', sha))\<close>.\<close>

fun has_sha :: "string \<Rightarrow> json \<Rightarrow> bool" where
  "has_sha sha (JObj kvs) = (map_of kvs ''sha256'' = Some (JStr sha))"
| "has_sha sha _ = False"

definition carries :: "string \<Rightarrow> stored_mail \<Rightarrow> bool" where
  "carries sha m \<longleftrightarrow> list_ex (has_sha sha) (elements m)"

subsection \<open>Hexadecimal\<close>

definition hex_val :: "char \<Rightarrow> nat option" where
  "hex_val c =
     (let n = ord c
      in if 48 \<le> n \<and> n \<le> 57 then Some (n - 48)
         else if 97 \<le> n \<and> n \<le> 102 then Some (n - 87)
         else if 65 \<le> n \<and> n \<le> 70 then Some (n - 55) else None)"

text \<open>\<open>bytes.fromhex\<close>: pairs of digits, ASCII white space between the pairs.\<close>

definition ascii_space :: "char \<Rightarrow> bool" where
  "ascii_space c \<longleftrightarrow> ord c = 32 \<or> 9 \<le> ord c \<and> ord c \<le> 13"

fun fromhex :: "string \<Rightarrow> bytes option" where
  "fromhex [] = Some []"
| "fromhex [c] = (if ascii_space c then Some [] else None)"
| "fromhex (c # d # cs) =
     (if ascii_space c then fromhex (d # cs)
      else (case (hex_val c, hex_val d) of
              (Some a, Some b) \<Rightarrow> map_option (\<lambda>bs. char_of (16 * a + b) # bs) (fromhex cs)
            | _ \<Rightarrow> None))"

definition parse_sha256_hex :: "json \<Rightarrow> read_error + bytes" where
  "parse_sha256_hex v =
     (case v of
        JStr s \<Rightarrow>
          if length s \<noteq> 64 then Inl ValidationFailed
          else (case fromhex s of None \<Rightarrow> Inl ValidationFailed | Some bs \<Rightarrow> Inr bs)
      | _ \<Rightarrow> Inl ValidationFailed)"

subsection \<open>The header block\<close>

definition header_block_read_bytes :: nat where "header_block_read_bytes = 64 * 1024"

definition prefix_read_bytes :: nat where "prefix_read_bytes = header_block_read_bytes + 1"

definition prefix_is_truncated :: "bytes \<Rightarrow> bool" where
  "prefix_is_truncated prefix \<longleftrightarrow> header_block_read_bytes < length prefix"

definition header_mode_error :: "string \<Rightarrow> bool" where
  "header_mode_error mode \<longleftrightarrow> mode \<notin> {''compact'', ''full'', ''list''}"

abbreviation cr :: char where "cr \<equiv> CHR 0x0D"
abbreviation lf :: char where "lf \<equiv> CHR 0x0A"

text \<open>\<open>bytes.find\<close> for a pattern that is not empty.\<close>

fun find_bytes :: "bytes \<Rightarrow> bytes \<Rightarrow> nat option" where
  "find_bytes pat [] = None"
| "find_bytes pat (b # bs) =
     (if take (length pat) (b # bs) = pat then Some 0 else map_option Suc (find_bytes pat bs))"

text \<open>The smaller of the pairs \<open>(index, length of the line ending)\<close> that were found.\<close>

definition up_to_separator :: "bytes \<Rightarrow> bytes option" where
  "up_to_separator data =
     (case (find_bytes [cr, lf, cr, lf] data, find_bytes [lf, lf] data) of
        (None, None) \<Rightarrow> None
      | (Some i, None) \<Rightarrow> Some (take (i + 2) data)
      | (None, Some j) \<Rightarrow> Some (take (j + 1) data)
      | (Some i, Some j) \<Rightarrow> Some (if i < j then take (i + 2) data else take (j + 1) data))"

definition header_block :: "bytes \<Rightarrow> bool \<Rightarrow> bytes option" where
  "header_block data truncated =
     (case up_to_separator data of Some b \<Rightarrow> Some b | None \<Rightarrow> if truncated then None else Some data)"

definition header_block_of_whole :: "bytes \<Rightarrow> bytes" where
  "header_block_of_whole data = (case up_to_separator data of None \<Rightarrow> data | Some b \<Rightarrow> b)"

text \<open>\<open>out.setdefault(name, []).append(value)\<close> over the occurrences.\<close>

fun group_into :: "(string \<times> string list) list \<Rightarrow> (string \<times> string) list \<Rightarrow> (string \<times> string list) list" where
  "group_into out [] = out"
| "group_into out ((name, value) # es) =
     group_into (dict_set name ((case map_of out name of None \<Rightarrow> [] | Some vs \<Rightarrow> vs) @ [value]) out) es"

definition group_entries :: "(string \<times> string) list \<Rightarrow> (string \<times> string list) list" where
  "group_entries es = group_into [] es"

subsection \<open>One message\<close>

definition find_mail :: "int list \<Rightarrow> int \<Rightarrow> archive \<Rightarrow> stored_mail option" where
  "find_mail allowed mid d = find (\<lambda>m. sm_id m = mid \<and> sm_account m \<in> set allowed) (ar_messages d)"

definition get_message_raw :: "int list \<Rightarrow> int \<Rightarrow> archive \<Rightarrow> read_error + bytes" where
  "get_message_raw allowed mid d =
     (if allowed = [] then Inl NotFound
      else (case find_mail allowed mid d of None \<Rightarrow> Inl NotFound | Some m \<Rightarrow> Inr (sm_raw m)))"

definition header_entries ::
  "read_env \<Rightarrow> int list \<Rightarrow> int \<Rightarrow> bytes \<Rightarrow> archive \<Rightarrow> read_error + (string \<times> string) list" where
  "header_entries env allowed mid prefix d =
     (case header_block prefix (prefix_is_truncated prefix) of
        Some block \<Rightarrow> Inr (re_parse_headers env block)
      | None \<Rightarrow> bindr (get_message_raw allowed mid d) (\<lambda>raw. Inr (re_parse_headers env (header_block_of_whole raw))))"

text \<open>\<open>cid.strip("<>")\<close>, and the map of Content-IDs: an element that is no object, or a Content-ID that is no string, raises.\<close>

definition strip_angles :: "string \<Rightarrow> string" where
  "strip_angles s =
     (let angle = (\<lambda>c. c \<in> {CHR ''<'', CHR ''>''}) in rev (dropWhile angle (rev (dropWhile angle s))))"

fun build_cid_map :: "json list \<Rightarrow> (string \<times> json) list \<Rightarrow> read_error + (string \<times> json) list" where
  "build_cid_map [] out = Inr out"
| "build_cid_map (att # atts) out =
     (case att of
        JObj kvs \<Rightarrow>
          (let cid = dict_get kvs ''content_id''; sha = dict_get kvs ''sha256''
           in if truthy cid \<and> truthy sha
              then (case cid of JStr c \<Rightarrow> build_cid_map atts (dict_set (strip_angles c) sha out) | _ \<Rightarrow> Inl Uncaught)
              else build_cid_map atts out)
      | _ \<Rightarrow> Inl Uncaught)"

text \<open>
  The hashes of the elements; \<open>fromhex\<close> of what is no string raises, and only a malformed string is passed over.
\<close>

fun blob_hashes :: "json list \<Rightarrow> read_error + bytes list" where
  "blob_hashes [] = Inr []"
| "blob_hashes (att # atts) =
     (case att of
        JObj kvs \<Rightarrow>
          (let sha = dict_get kvs ''sha256''
           in if \<not> truthy sha then blob_hashes atts
              else (case sha of
                      JStr s \<Rightarrow>
                        bindr (blob_hashes atts) (\<lambda>hs. Inr (case fromhex s of None \<Rightarrow> hs | Some h \<Rightarrow> h # hs))
                    | _ \<Rightarrow> Inl Uncaught))
      | _ \<Rightarrow> Inl Uncaught)"

definition load_attachment_meta :: "json list \<Rightarrow> archive \<Rightarrow> read_error + (string \<times> string option \<times> int) list" where
  "load_attachment_meta atts d =
     bindr (blob_hashes atts) (\<lambda>hs.
       Inr (map (\<lambda>b. (hex (sb_sha256 b), sb_mime b, sb_size b)) (filter (\<lambda>b. sb_sha256 b \<in> set hs) (ar_blobs d))))"

record attachment_view =
  av_filename :: json
  av_sha256 :: json
  av_content_type :: "string option"
  av_size :: "int option"

text \<open>A list or an object cannot be looked up in a dictionary.\<close>

definition attachment_entry_view :: "(string \<times> string option \<times> int) list \<Rightarrow> json \<Rightarrow> read_error + attachment_view" where
  "attachment_entry_view meta att =
     (case att of
        JObj kvs \<Rightarrow>
          (let sha = dict_get kvs ''sha256'';
               view = (\<lambda>m. Inr \<lparr>av_filename = dict_get kvs ''filename'', av_sha256 = sha,
                  av_content_type = (case m of None \<Rightarrow> None | Some (t, _) \<Rightarrow> t), av_size = map_option snd m\<rparr>)
           in (case sha of
                 JArr _ \<Rightarrow> Inl Uncaught
               | JObj _ \<Rightarrow> Inl Uncaught
               | JStr s \<Rightarrow> view (map_of meta s)
               | _ \<Rightarrow> view None))
      | _ \<Rightarrow> Inl Uncaught)"

fun entry_views :: "(string \<times> string option \<times> int) list \<Rightarrow> json list \<Rightarrow> read_error + attachment_view list" where
  "entry_views meta [] = Inr []"
| "entry_views meta (a # as) =
     bindr (attachment_entry_view meta a) (\<lambda>v. bindr (entry_views meta as) (\<lambda>vs. Inr (v # vs)))"

datatype header_view = HeaderList "(string \<times> string) list" | HeaderGroups "(string \<times> string list) list"

record message_view =
  mv_id :: int
  mv_subject :: "string option"
  mv_from :: "string option \<times> string option"
  mv_to :: "string list"
  mv_cc :: "string list"
  mv_bcc :: "string list"
  mv_date :: "instant option"
  mv_body_text :: "string option"
  mv_body_html :: "string option"
  mv_attachments :: "attachment_view list"
  mv_account :: named_account
  mv_folders :: "(int \<times> string) list"
  mv_headers :: "header_view option"

definition message_folders :: "int \<Rightarrow> archive \<Rightarrow> (int \<times> string) list" where
  "message_folders mid d =
     concat (map (\<lambda>l. map (\<lambda>b. (mb_id b, mb_name b)) (filter (\<lambda>b. mb_id b = l_mailbox l) (ar_mailboxes d)))
       (filter (\<lambda>l. l_message l = mid) (ar_labels d)))"

definition get_message ::
  "read_env \<Rightarrow> int list \<Rightarrow> int \<Rightarrow> string \<Rightarrow> bool \<Rightarrow> archive \<Rightarrow> read_error + message_view" where
  "get_message env allowed mid headers external d =
     (if header_mode_error headers then Inl ValidationFailed
      else if allowed = [] then Inl NotFound
      else (case find_mail allowed mid d of
              None \<Rightarrow> Inl NotFound
            | Some m \<Rightarrow>
                (case find (\<lambda>a. na_id a = sm_account m) (ar_accounts d) of
                   None \<Rightarrow> Inl NotFound
                 | Some acct \<Rightarrow>
                     let atts = elements m
                     in bindr (build_cid_map atts []) (\<lambda>cids.
                          bindr (load_attachment_meta atts d) (\<lambda>meta.
                            bindr (entry_views meta atts) (\<lambda>views.
                              bindr (if headers = ''compact'' then Inr None
                                     else bindr (header_entries env allowed mid (take prefix_read_bytes (sm_raw m)) d)
                                       (\<lambda>es. Inr (Some (if headers = ''list'' then HeaderList es else HeaderGroups (group_entries es)))))
                                (\<lambda>hs. Inr \<lparr>mv_id = sm_id m, mv_subject = sm_subject m, mv_from = (sm_from_addr m, sm_from_name m),
                                   mv_to = sm_to_addrs m, mv_cc = sm_cc_addrs m, mv_bcc = sm_bcc_addrs m, mv_date = sm_date_sent m,
                                   mv_body_text = sm_body_text m,
                                   mv_body_html = (case sm_body_html m of None \<Rightarrow> None
                                     | Some h \<Rightarrow> if h = [] then None else Some (re_sanitize env h cids external)),
                                   mv_attachments = views, mv_account = acct, mv_folders = message_folders mid d,
                                   mv_headers = hs\<rparr>)))))))"

subsection \<open>Attachments\<close>

definition max_jsonb_index :: int where "max_jsonb_index = 2 ^ 31 - 1"

text \<open>The hash and the file name of one element of a message's array.\<close>

definition resolve_message_attachment ::
  "int list \<Rightarrow> int \<Rightarrow> int \<Rightarrow> archive \<Rightarrow> read_error + string \<times> string option" where
  "resolve_message_attachment allowed mid index d =
     (if index < 0 then Inl ValidationFailed
      else if max_jsonb_index < index \<or> allowed = [] then Inl NotFound
      else (case find_mail allowed mid d of
              None \<Rightarrow> Inl NotFound
            | Some m \<Rightarrow>
                let es = elements m
                in if int (length es) \<le> index then Inl NotFound
                   else (case es ! nat index of
                           JObj kvs \<Rightarrow>
                             (case parse_sha256_hex (dict_get kvs ''sha256'') of
                                Inl _ \<Rightarrow> Inl NotFound
                              | Inr bs \<Rightarrow> Inr (hex bs, case dict_get kvs ''filename'' of JStr f \<Rightarrow> Some f | _ \<Rightarrow> None))
                         | _ \<Rightarrow> Inl NotFound)))"

definition caller_can_read_blob :: "int list \<Rightarrow> string \<Rightarrow> archive \<Rightarrow> bool" where
  "caller_can_read_blob allowed sha d \<longleftrightarrow>
     allowed \<noteq> [] \<and> list_ex (\<lambda>m. sm_account m \<in> set allowed \<and> carries sha m) (ar_messages d)"

definition lookup_blob_row :: "int list \<Rightarrow> string \<Rightarrow> archive \<Rightarrow> read_error + string option \<times> int \<times> string" where
  "lookup_blob_row allowed sha d =
     bindr (parse_sha256_hex (JStr sha)) (\<lambda>bs.
       if \<not> caller_can_read_blob allowed sha d then Inl NotFound
       else (case find (\<lambda>b. sb_sha256 b = bs) (ar_blobs d) of
               None \<Rightarrow> Inl NotFound
             | Some b \<Rightarrow> Inr (sb_mime b, sb_size b, sb_path b)))"

definition get_attachment_metadata :: "int list \<Rightarrow> string \<Rightarrow> archive \<Rightarrow> read_error + string \<times> string option \<times> int" where
  "get_attachment_metadata allowed sha d = bindr (lookup_blob_row allowed sha d) (\<lambda>(mime, size, path). Inr (sha, mime, size))"

definition get_attachment_blob_info :: "int list \<Rightarrow> string \<Rightarrow> archive \<Rightarrow> read_error + string option \<times> int \<times> string" where
  "get_attachment_blob_info allowed sha d = lookup_blob_row allowed sha d"

definition open_blob_file_at :: "string \<Rightarrow> archive \<Rightarrow> read_error + bytes" where
  "open_blob_file_at path d = (case map_of (ar_files d) path of None \<Rightarrow> Inl NotFound | Some bs \<Rightarrow> Inr bs)"

definition open_attachment_bytes :: "int list \<Rightarrow> string \<Rightarrow> archive \<Rightarrow> read_error + bytes \<times> string option \<times> int" where
  "open_attachment_bytes allowed sha d =
     bindr (lookup_blob_row allowed sha d) (\<lambda>(mime, size, path).
       bindr (open_blob_file_at path d) (\<lambda>bs. Inr (bs, mime, size)))"

text \<open>The earliest message of an allowed account that carries the blob, and its first element with that hash.\<close>

definition get_attachment_filename :: "read_env \<Rightarrow> int list \<Rightarrow> string \<Rightarrow> archive \<Rightarrow> read_error + string option" where
  "get_attachment_filename env allowed sha d =
     bindr (parse_sha256_hex (JStr sha)) (\<lambda>_.
       if allowed = [] then Inr None
       else (case sort_key sm_id (filter (\<lambda>m. sm_account m \<in> set allowed \<and> carries sha m) (ar_messages d)) of
               [] \<Rightarrow> Inr None
             | m # _ \<Rightarrow>
                 (case find (\<lambda>e. arrow_text (re_render env) e ''sha256'' = Some sha)
                         (elements m) of
                    None \<Rightarrow> Inr None
                  | Some e \<Rightarrow> Inr (arrow_text (re_render env) e ''filename''))))"

definition text_window_from_query :: "string option \<Rightarrow> string option \<Rightarrow> read_error + text_window" where
  "text_window_from_query offset limit =
     (case (case offset of None \<Rightarrow> Some 0 | Some s \<Rightarrow> parse_int_id s) of
        None \<Rightarrow> Inl ValidationFailed
      | Some off \<Rightarrow>
          (case (case limit of None \<Rightarrow> Some None | Some s \<Rightarrow> map_option Some (parse_int_id s)) of
             None \<Rightarrow> Inl ValidationFailed
           | Some lim \<Rightarrow> (case make_window off lim of Inl _ \<Rightarrow> Inl ValidationFailed | Inr w \<Rightarrow> Inr w)))"

definition get_attachment_text_page :: "int list \<Rightarrow> string \<Rightarrow> text_window \<Rightarrow> archive \<Rightarrow> read_error + char text_page" where
  "get_attachment_text_page allowed sha w d =
     bindr (parse_sha256_hex (JStr sha)) (\<lambda>bs.
       if \<not> caller_can_read_blob allowed sha d then Inl NotFound
       else (case map_of (ar_texts d) bs of
               None \<Rightarrow> Inl NotFound
             | Some t \<Rightarrow>
                 (case window_page w (substring t (sql_from w) (sql_for w)) (int (length t)) of
                    Inl _ \<Rightarrow> Inl Uncaught
                  | Inr p \<Rightarrow> Inr p)))"

definition get_attachment_text :: "int list \<Rightarrow> string \<Rightarrow> archive \<Rightarrow> read_error + string" where
  "get_attachment_text allowed sha d =
     bindr (get_attachment_text_page allowed sha \<lparr>w_offset = 0, w_limit = None\<rparr> d) (\<lambda>p. Inr (pg_text p))"

subsection \<open>Accounts and folders\<close>

definition archive_staleness :: int where "archive_staleness = 30 * 24 * 3600 * 1000000"

definition is_stale :: "instant \<Rightarrow> instant \<Rightarrow> bool" where
  "is_stale now last_sync_at \<longleftrightarrow> archive_staleness < now - last_sync_at"

record account_view =
  cv_account :: named_account
  cv_last_sync_at :: "instant option"
  cv_message_count :: nat
  cv_can_sync :: bool
  cv_is_archive_only :: bool
  cv_is_shared :: bool

text \<open>\<open>max\<close> over the values that are not null.\<close>

definition sql_max :: "instant option list \<Rightarrow> instant option" where
  "sql_max xs = (let ys = List.map_filter id xs in if ys = [] then None else Some (foldr max ys (hd ys)))"

definition account_view_of :: "read_env \<Rightarrow> bool \<Rightarrow> archive \<Rightarrow> named_account \<Rightarrow> account_view" where
  "account_view_of env shared d a =
     (let last = sql_max (map mb_last_sync_at (filter (\<lambda>b. mb_account b = na_id a) (ar_mailboxes d)));
          archive_only = (case last of None \<Rightarrow> True | Some t \<Rightarrow> is_stale (re_now env) t)
      in \<lparr>cv_account = a, cv_last_sync_at = last,
          cv_message_count = length (filter (\<lambda>m. sm_account m = na_id a) (ar_messages d)),
          cv_can_sync = (\<not> archive_only), cv_is_archive_only = archive_only, cv_is_shared = shared\<rparr>)"

definition list_accounts :: "read_env \<Rightarrow> int list \<Rightarrow> archive \<Rightarrow> account_view list" where
  "list_accounts env allowed d =
     (if allowed = [] then []
      else map (account_view_of env (1 < length allowed) d) (filter (\<lambda>a. na_id a \<in> set allowed) (ar_accounts d)))"

record folder_view =
  fv_id :: int
  fv_name :: string
  fv_flags :: "string list"
  fv_last_uid :: "int option"
  fv_message_count :: nat

definition list_folders :: "int list \<Rightarrow> int \<Rightarrow> archive \<Rightarrow> folder_view list" where
  "list_folders allowed acct d =
     (if acct \<notin> set allowed then []
      else map (\<lambda>b. \<lparr>fv_id = mb_id b, fv_name = mb_name b, fv_flags = mb_flags b, fv_last_uid = mb_uidnext b,
                fv_message_count = length (filter (\<lambda>l. l_mailbox l = mb_id b) (ar_labels d))\<rparr>)
             (filter (\<lambda>b. mb_account b = acct) (ar_mailboxes d)))"

end
