(* ===== verification/ReadingSafety.thy ===== *)
theory ReadingSafety
  imports Reading
begin

text \<open>
  What reading promises: nothing outside the granted accounts reaches a caller, the bounded read of a header
  block is exact, what the sync stored of an attachment is served again, and where a stored JSON value
  breaks the message that holds it.
\<close>

subsection \<open>Searching for a separator\<close>

lemma find_bytes_Some:
  "pat \<noteq> [] \<Longrightarrow> find_bytes pat xs = Some i \<longleftrightarrow>
     i + length pat \<le> length xs \<and> take (length pat) (drop i xs) = pat \<and> (\<forall>j < i. take (length pat) (drop j xs) \<noteq> pat)"
proof (induction xs arbitrary: i)
  case Nil
  then show ?case by auto
next
  case (Cons x xs)
  show ?case
  proof (cases i)
    case 0
    then show ?thesis by (auto split: if_splits dest: arg_cong [where f = length])
  next
    case (Suc k)
    have "(\<forall>j < Suc k. take (length pat) (drop j (x # xs)) \<noteq> pat) \<longleftrightarrow>
        take (length pat) (x # xs) \<noteq> pat \<and> (\<forall>j < k. take (length pat) (drop j xs) \<noteq> pat)"
      by (auto simp: less_Suc_eq_0_disj)
    with Suc Cons show ?thesis by auto
  qed
qed

lemma all_nat_split: "(\<forall>j :: nat. P j) \<longleftrightarrow> P 0 \<and> (\<forall>j. P (Suc j))"
  by (metis nat.exhaust)

lemma find_bytes_None:
  "pat \<noteq> [] \<Longrightarrow> find_bytes pat xs = None \<longleftrightarrow> (\<forall>j. take (length pat) (drop j xs) \<noteq> pat)"
proof (induction xs)
  case (Cons x xs)
  have "(\<forall>j. take (length pat) (drop j (x # xs)) \<noteq> pat) \<longleftrightarrow>
      take (length pat) (x # xs) \<noteq> pat \<and> (\<forall>j. take (length pat) (drop j xs) \<noteq> pat)"
    by (subst all_nat_split) simp
  with Cons show ?case by simp
qed simp

lemma take_drop_take:
  "i + k \<le> n \<Longrightarrow> take k (drop i (take n xs)) = take k (drop i xs)"
  by (simp add: drop_take min_def)

lemma find_bytes_prefix:
  assumes "pat \<noteq> []" "find_bytes pat (take n xs) = Some i"
  shows "find_bytes pat xs = Some i" "i + length pat \<le> n"
proof -
  from assms have i: "i + length pat \<le> length (take n xs)" "take (length pat) (drop i (take n xs)) = pat"
    "\<forall>j < i. take (length pat) (drop j (take n xs)) \<noteq> pat" by (simp_all add: find_bytes_Some)
  then show le: "i + length pat \<le> n" by simp
  have "take (length pat) (drop j (take n xs)) = take (length pat) (drop j xs)" if "j \<le> i" for j
    using le that by (intro take_drop_take) simp
  with i assms(1) show "find_bytes pat xs = Some i" by (simp add: find_bytes_Some)
qed

lemma find_bytes_beyond:
  assumes "pat \<noteq> []" "find_bytes pat (take n xs) = None" "find_bytes pat xs = Some i"
  shows "n < i + length pat"
proof (rule ccontr)
  assume "\<not> n < i + length pat"
  then have "take (length pat) (drop i (take n xs)) = take (length pat) (drop i xs)" by (intro take_drop_take) simp
  with assms show False by (auto simp: find_bytes_Some find_bytes_None)
qed

lemma take_two: "take 2 (drop j xs) = [a, b] \<Longrightarrow> xs ! j = a \<and> xs ! Suc j = b \<and> Suc j < length xs"
proof -
  assume eq: "take 2 (drop j xs) = [a, b]"
  then have len: "Suc j < length xs" by (auto dest!: arg_cong [where f = length] simp: min_def split: if_splits)
  with eq have "drop j xs = xs ! j # xs ! Suc j # drop (Suc (Suc j)) xs" by (simp add: Cons_nth_drop_Suc)
  with eq len show ?thesis by (simp add: numeral_2_eq_2)
qed

lemma crlf_lf_apart:
  assumes "take 4 (drop i xs) = [cr, lf, cr, lf]"
  shows "take 2 (drop (Suc i) xs) \<noteq> [lf, lf]"
proof
  assume "take 2 (drop (Suc i) xs) = [lf, lf]"
  moreover have "take 2 (drop (Suc i) xs) = take 2 (drop 1 (take 4 (drop i xs)))" by (simp add: drop_take)
  ultimately show False using assms by simp
qed

lemma up_to_separator_prefix:
  assumes "up_to_separator (take n raw) = Some b"
  shows "up_to_separator raw = Some b"
proof -
  let ?c = "[cr, lf, cr, lf]" and ?l = "[lf, lf]"
  note pre = find_bytes_prefix [of ?c n raw] find_bytes_prefix [of ?l n raw]
  note beyond = find_bytes_beyond [of ?c n raw] find_bytes_beyond [of ?l n raw]
  have cut: "take k (take n raw) = take k raw" if "k \<le> n" for k using that by (simp add: min_def)
  show ?thesis
  proof (cases "find_bytes ?c (take n raw)"; cases "find_bytes ?l (take n raw)")
    fix i assume s: "find_bytes ?c (take n raw) = Some i" "find_bytes ?l (take n raw) = None"
    with pre(1,2) have i: "find_bytes ?c raw = Some i" "i + 4 \<le> n" by auto
    moreover have "i < j" if "find_bytes ?l raw = Some j" for j using beyond(2) [OF _ s(2) that] i(2) by simp
    ultimately show ?thesis using s assms cut [of "i + 2"]
      by (cases "find_bytes ?l raw") (auto simp: up_to_separator_def)
  next
    fix j assume s: "find_bytes ?c (take n raw) = None" "find_bytes ?l (take n raw) = Some j"
    with pre(3,4) have j: "find_bytes ?l raw = Some j" "j + 2 \<le> n" by auto
    have "\<not> i < j" if f: "find_bytes ?c raw = Some i" for i
    proof
      assume "i < j"
      with beyond(1) [OF _ s(1) f] j(2) have "j = Suc i" by simp
      with f j(1) show False using crlf_lf_apart [of i raw] by (simp add: find_bytes_Some numeral_eq_Suc)
    qed
    then show ?thesis using s assms cut [of "j + 1"] j
      by (cases "find_bytes ?c raw") (auto simp: up_to_separator_def)
  next
    fix i j assume s: "find_bytes ?c (take n raw) = Some i" "find_bytes ?l (take n raw) = Some j"
    with pre have "find_bytes ?c raw = Some i" "i + 4 \<le> n" "find_bytes ?l raw = Some j" "j + 2 \<le> n" by auto
    with s assms show ?thesis by (auto simp: up_to_separator_def min_def split: if_splits)
  qed (use assms in \<open>simp add: up_to_separator_def\<close>)
qed

lemma header_read_whole:
  assumes "allowed \<noteq> []" "find_mail allowed mid d = Some m"
  shows "header_entries env allowed mid (take prefix_read_bytes (sm_raw m)) d =
    Inr (re_parse_headers env (header_block_of_whole (sm_raw m)))"
proof -
  let ?p = "take prefix_read_bytes (sm_raw m)"
  have raw: "get_message_raw allowed mid d = Inr (sm_raw m)" using assms by (simp add: get_message_raw_def)
  show ?thesis
  proof (cases "prefix_is_truncated ?p")
    case True
    then show ?thesis
      using raw up_to_separator_prefix [of prefix_read_bytes "sm_raw m"]
      by (cases "up_to_separator ?p") (auto simp: header_entries_def header_block_def header_block_of_whole_def)
  next
    case False
    then have "?p = sm_raw m"
      by (auto simp: prefix_is_truncated_def prefix_read_bytes_def min_def split: if_splits)
    with False show ?thesis
      by (auto simp: header_entries_def header_block_def header_block_of_whole_def split: option.splits)
  qed
qed

text \<open>
  Reading the header block from a bounded prefix is exact: whatever the size of the message and of its block,
  the headers served are those of the whole message, also when a separator straddles the end of the
  prefix.
\<close>

theorem bounded_header_read_exact:
  assumes "allowed \<noteq> []" "find_mail allowed mid d = Some m"
  shows "header_entries env allowed mid (take prefix_read_bytes (sm_raw m)) d =
    Inr (re_parse_headers env (header_block_of_whole (sm_raw m)))"
  using assms by (rule header_read_whole)

subsection \<open>What was granted\<close>

lemma has_sha_iff: "has_sha s e \<longleftrightarrow> (\<exists>kvs. e = JObj kvs \<and> map_of kvs ''sha256'' = Some (JStr s))"
  by (cases e) auto

text \<open>The hashes the messages of the granted accounts name.\<close>

definition granted_hashes :: "int list \<Rightarrow> archive \<Rightarrow> bytes set" where
  "granted_hashes allowed d =
     {bs. \<exists>m \<in> set (ar_messages d). sm_account m \<in> set allowed \<and>
        (\<exists>kvs s. JObj kvs \<in> set (elements m) \<and> dict_get kvs ''sha256'' = JStr s \<and> fromhex s = Some bs)}"

text \<open>The part of the archive a caller was granted: the rows of the accounts, and the blobs their messages carry.\<close>

definition granted :: "int list \<Rightarrow> archive \<Rightarrow> archive" where
  "granted allowed d =
     (let hs = granted_hashes allowed d; bs = filter (\<lambda>b. sb_sha256 b \<in> hs) (ar_blobs d);
          boxes = filter (\<lambda>b. mb_account b \<in> set allowed) (ar_mailboxes d)
      in \<lparr>ar_messages = filter (\<lambda>m. sm_account m \<in> set allowed) (ar_messages d),
          ar_accounts = filter (\<lambda>a. na_id a \<in> set allowed) (ar_accounts d),
          ar_mailboxes = boxes,
          ar_labels = filter (\<lambda>l. l_mailbox l \<in> mb_id ` set boxes) (ar_labels d),
          ar_blobs = bs,
          ar_texts = filter (\<lambda>kv. fst kv \<in> hs) (ar_texts d),
          ar_files = filter (\<lambda>kv. fst kv \<in> sb_path ` set bs) (ar_files d)\<rparr>)"

text \<open>A label joins a message to a mailbox of its own account, and mailbox ids are unique.\<close>

definition labels_ok :: "archive \<Rightarrow> bool" where
  "labels_ok d \<longleftrightarrow> distinct (map mb_id (ar_mailboxes d)) \<and>
     (\<forall>l \<in> set (ar_labels d). \<forall>m \<in> set (ar_messages d). \<forall>b \<in> set (ar_mailboxes d).
        l_message l = sm_id m \<longrightarrow> l_mailbox l = mb_id b \<longrightarrow> sm_account m = mb_account b)"

lemma granted_sel [simp]:
  "ar_messages (granted allowed d) = filter (\<lambda>m. sm_account m \<in> set allowed) (ar_messages d)"
  "ar_accounts (granted allowed d) = filter (\<lambda>a. na_id a \<in> set allowed) (ar_accounts d)"
  "ar_mailboxes (granted allowed d) = filter (\<lambda>b. mb_account b \<in> set allowed) (ar_mailboxes d)"
  "ar_blobs (granted allowed d) = filter (\<lambda>b. sb_sha256 b \<in> granted_hashes allowed d) (ar_blobs d)"
  "ar_texts (granted allowed d) = filter (\<lambda>kv. fst kv \<in> granted_hashes allowed d) (ar_texts d)"
  "ar_labels (granted allowed d) =
     filter (\<lambda>l. l_mailbox l \<in> mb_id ` set (filter (\<lambda>b. mb_account b \<in> set allowed) (ar_mailboxes d))) (ar_labels d)"
  "ar_files (granted allowed d) =
     filter (\<lambda>kv. fst kv \<in> sb_path ` set (filter (\<lambda>b. sb_sha256 b \<in> granted_hashes allowed d) (ar_blobs d))) (ar_files d)"
  by (simp_all add: granted_def Let_def)

lemma find_filter: "(\<And>x. P x \<Longrightarrow> Q x) \<Longrightarrow> find P (filter Q xs) = find P xs"
  by (induction xs) auto

lemma map_of_filter_keys: "map_of (filter (\<lambda>kv. fst kv \<in> A) xs) k = (if k \<in> A then map_of xs k else None)"
  by (induction xs) auto

lemma find_mail_granted: "find_mail allowed mid (granted allowed d) = find_mail allowed mid d"
  unfolding find_mail_def granted_sel by (rule find_filter) simp

lemma find_mail_Some: "find_mail allowed mid d = Some m \<Longrightarrow> m \<in> set (ar_messages d) \<and> sm_id m = mid \<and> sm_account m \<in> set allowed"
  by (auto simp: find_mail_def dest: find_SomeD)

lemma carried_granted:
  assumes "m \<in> set (ar_messages d)" "sm_account m \<in> set allowed" "carries s m" "fromhex s = Some bs"
  shows "bs \<in> granted_hashes allowed d"
proof -
  from assms(3) obtain kvs where "JObj kvs \<in> set (elements m)" "map_of kvs ''sha256'' = Some (JStr s)"
    by (auto simp: carries_def list_ex_iff has_sha_iff)
  then have "JObj kvs \<in> set (elements m) \<and> dict_get kvs ''sha256'' = JStr s \<and> fromhex s = Some bs" using assms(4) by (simp add: dict_get_def)
  with assms(1,2) show ?thesis unfolding granted_hashes_def by blast
qed

lemma can_read_granted: "caller_can_read_blob allowed s (granted allowed d) = caller_can_read_blob allowed s d"
  by (auto simp: caller_can_read_blob_def list_ex_iff)

lemma can_read_hash:
  "caller_can_read_blob allowed s d \<Longrightarrow> fromhex s = Some bs \<Longrightarrow> bs \<in> granted_hashes allowed d"
  by (auto simp: caller_can_read_blob_def list_ex_iff intro: carried_granted)

lemma parse_sha256_hexD: "parse_sha256_hex v = Inr bs \<Longrightarrow> \<exists>s. v = JStr s \<and> fromhex s = Some bs \<and> length s = 64"
  by (auto simp: parse_sha256_hex_def split: json.splits if_splits option.splits)

lemma lookup_blob_granted: "lookup_blob_row allowed s (granted allowed d) = lookup_blob_row allowed s d"
proof -
  have "find (\<lambda>b. sb_sha256 b = bs) (filter (\<lambda>b. sb_sha256 b \<in> granted_hashes allowed d) (ar_blobs d)) =
      find (\<lambda>b. sb_sha256 b = bs) (ar_blobs d)" if "caller_can_read_blob allowed s d" "parse_sha256_hex (JStr s) = Inr bs" for bs
    using can_read_hash [OF that(1)] parse_sha256_hexD [OF that(2)] by (auto intro!: find_filter)
  then show ?thesis
    by (cases "parse_sha256_hex (JStr s)") (auto simp: lookup_blob_row_def can_read_granted)
qed

lemma lookup_blob_path:
  assumes "lookup_blob_row allowed s d = Inr (mime, sz, path)"
  shows "path \<in> sb_path ` set (filter (\<lambda>b. sb_sha256 b \<in> granted_hashes allowed d) (ar_blobs d))"
proof -
  from assms obtain bs b where "parse_sha256_hex (JStr s) = Inr bs" "caller_can_read_blob allowed s d"
      "find (\<lambda>b. sb_sha256 b = bs) (ar_blobs d) = Some b" "path = sb_path b"
    by (auto simp: lookup_blob_row_def bindr_Inr_iff split: if_splits option.splits)
  then show ?thesis
    using can_read_hash [of allowed s d bs] parse_sha256_hexD [of "JStr s" bs] find_SomeD [of _ "ar_blobs d" b] by auto
qed

lemma open_attachment_granted: "open_attachment_bytes allowed s (granted allowed d) = open_attachment_bytes allowed s d"
proof (cases "lookup_blob_row allowed s d")
  case (Inr r)
  obtain mime sz path where r: "r = (mime, sz, path)" by (cases r) auto
  from lookup_blob_path [OF Inr [unfolded r]] show ?thesis
    by (simp add: open_attachment_bytes_def lookup_blob_granted Inr r open_blob_file_at_def map_of_filter_keys del: set_filter)
qed (simp add: open_attachment_bytes_def lookup_blob_granted)

lemma text_page_granted: "get_attachment_text_page allowed s w (granted allowed d) = get_attachment_text_page allowed s w d"
proof (cases "parse_sha256_hex (JStr s)")
  case (Inr bs)
  then have "caller_can_read_blob allowed s d \<Longrightarrow> bs \<in> granted_hashes allowed d"
    using can_read_hash [of allowed s d bs] parse_sha256_hexD by auto
  then show ?thesis by (simp add: get_attachment_text_page_def can_read_granted Inr map_of_filter_keys)
qed (simp add: get_attachment_text_page_def)

lemma filename_granted: "get_attachment_filename env allowed s (granted allowed d) = get_attachment_filename env allowed s d"
  by (simp add: get_attachment_filename_def conj_commute conj_left_commute)

lemma blob_hashes_granted:
  assumes "blob_hashes es = Inr hs" "h \<in> set hs"
  shows "\<exists>kvs s. JObj kvs \<in> set es \<and> dict_get kvs ''sha256'' = JStr s \<and> fromhex s = Some h"
  using assms
proof (induction es arbitrary: hs)
  case (Cons e es)
  then obtain kvs where e: "e = JObj kvs" by (auto split: json.splits)
  show ?case
  proof (cases "truthy (dict_get kvs ''sha256'')")
    case True
    with Cons.prems e obtain s hs' where "dict_get kvs ''sha256'' = JStr s" "blob_hashes es = Inr hs'"
        "hs = (case fromhex s of None \<Rightarrow> hs' | Some h \<Rightarrow> h # hs')"
      by (auto simp: Let_def bindr_Inr_iff split: json.splits)
    with Cons e show ?thesis by (auto split: option.splits)
  next
    case False
    with Cons e show ?thesis by (auto simp: Let_def)
  qed
qed simp

lemma meta_granted:
  assumes "m \<in> set (ar_messages d)" "sm_account m \<in> set allowed"
  shows "load_attachment_meta (elements m) (granted allowed d) = load_attachment_meta (elements m) d"
proof (cases "blob_hashes (elements m)")
  case (Inr hs)
  have "set hs \<subseteq> granted_hashes allowed d"
    using blob_hashes_granted [OF Inr] assms unfolding granted_hashes_def by blast
  then have "filter (\<lambda>b. sb_sha256 b \<in> set hs) (filter (\<lambda>b. sb_sha256 b \<in> granted_hashes allowed d) (ar_blobs d)) =
      filter (\<lambda>b. sb_sha256 b \<in> set hs) (ar_blobs d)" unfolding filter_filter by (intro filter_cong) auto
  then show ?thesis by (simp add: load_attachment_meta_def Inr del: filter_filter)
qed (simp add: load_attachment_meta_def)

lemma header_entries_granted: "header_entries env allowed mid p (granted allowed d) = header_entries env allowed mid p d"
  by (simp add: header_entries_def get_message_raw_def find_mail_granted split: option.splits)

lemma folders_granted:
  assumes "labels_ok d" "m \<in> set (ar_messages d)" "sm_account m \<in> set allowed"
  shows "message_folders (sm_id m) (granted allowed d) = message_folders (sm_id m) d"
proof -
  let ?row = "\<lambda>boxes l. map (\<lambda>b. (mb_id b, mb_name b)) (filter (\<lambda>b. mb_id b = l_mailbox l) boxes)"
  let ?mine = "filter (\<lambda>b. mb_account b \<in> set allowed) (ar_mailboxes d)"
  have own: "mb_account b \<in> set allowed" if "l \<in> set (ar_labels d)" "l_message l = sm_id m" "b \<in> set (ar_mailboxes d)" "mb_id b = l_mailbox l" for l b
  proof -
    have "sm_account m = mb_account b" using assms(1,2) that unfolding labels_ok_def by metis
    with assms(3) show ?thesis by simp
  qed
  have "concat (map (?row ?mine) (filter (\<lambda>l. l_message l = sm_id m) (filter (\<lambda>l. l_mailbox l \<in> mb_id ` set ?mine) ls))) =
      concat (map (?row (ar_mailboxes d)) (filter (\<lambda>l. l_message l = sm_id m) ls))" if "set ls \<subseteq> set (ar_labels d)" for ls
    using that
  proof (induction ls)
    case (Cons l ls)
    have "?row ?mine l = ?row (ar_mailboxes d) l" if "l_message l = sm_id m"
      using own [of l] Cons.prems that by (auto intro!: arg_cong [where f = "map _"] filter_cong)
    moreover have "?row ?mine l = []" if "l_mailbox l \<notin> mb_id ` set ?mine"
      using that by (auto simp: filter_empty_conv image_iff)
    ultimately show ?case using Cons by auto
  qed simp
  from this [of "ar_labels d"] show ?thesis by (simp add: message_folders_def del: set_filter filter_filter)
qed

lemma get_message_granted:
  assumes "labels_ok d"
  shows "get_message env allowed mid headers external (granted allowed d) = get_message env allowed mid headers external d"
proof (cases "find_mail allowed mid d")
  case (Some m)
  note m = find_mail_Some [OF Some]
  have acct: "find (\<lambda>a. na_id a = sm_account m) (filter (\<lambda>a. na_id a \<in> set allowed) (ar_accounts d)) =
      find (\<lambda>a. na_id a = sm_account m) (ar_accounts d)" using m by (intro find_filter) auto
  have "message_folders mid (granted allowed d) = message_folders mid d" using folders_granted [OF assms] m by blast
  with m show ?thesis
    by (cases "find (\<lambda>a. na_id a = sm_account m) (ar_accounts d)")
       (simp_all add: get_message_def find_mail_granted Some acct meta_granted header_entries_granted Let_def)
qed (simp add: get_message_def find_mail_granted)

lemma list_accounts_granted: "list_accounts env allowed (granted allowed d) = list_accounts env allowed d"
proof -
  have "account_view_of env b (granted allowed d) a = account_view_of env b d a" if "na_id a \<in> set allowed" for a b
  proof -
    have "filter (\<lambda>x. mb_account x = na_id a) (filter (\<lambda>x. mb_account x \<in> set allowed) (ar_mailboxes d)) =
        filter (\<lambda>x. mb_account x = na_id a) (ar_mailboxes d)"
      "filter (\<lambda>x. sm_account x = na_id a) (filter (\<lambda>x. sm_account x \<in> set allowed) (ar_messages d)) =
        filter (\<lambda>x. sm_account x = na_id a) (ar_messages d)"
      using that by (auto intro!: filter_cong)
    then show ?thesis by (simp add: account_view_of_def del: filter_filter)
  qed
  then show ?thesis by (simp add: list_accounts_def)
qed

lemma list_folders_granted: "list_folders allowed acct (granted allowed d) = list_folders allowed acct d"
proof (cases "acct \<in> set allowed")
  case True
  let ?mine = "filter (\<lambda>b. mb_account b \<in> set allowed) (ar_mailboxes d)"
  have "filter (\<lambda>b. mb_account b = acct) ?mine = filter (\<lambda>b. mb_account b = acct) (ar_mailboxes d)"
    using True by (auto intro!: filter_cong)
  moreover have "filter (\<lambda>l. l_mailbox l = mb_id b) (filter (\<lambda>l. l_mailbox l \<in> mb_id ` set ?mine) (ar_labels d)) =
      filter (\<lambda>l. l_mailbox l = mb_id b) (ar_labels d)" if "b \<in> set (filter (\<lambda>b. mb_account b = acct) (ar_mailboxes d))" for b
    using True that unfolding filter_filter by (intro filter_cong) auto
  ultimately show ?thesis using True by (simp add: list_folders_def del: filter_filter set_filter)
qed (simp add: list_folders_def)

text \<open>
  Reading is confined to what was granted: whatever a caller asks for, by message, by hash, by position or by
  account, the answer is the one computed from the rows of the granted accounts and the blobs their
  messages carry alone. In particular a message of another account is answered as one that does not exist.
\<close>

theorem reading_is_confined:
  assumes "labels_ok d"
  shows "get_message env allowed mid headers external d = get_message env allowed mid headers external (granted allowed d) \<and>
    get_message_raw allowed mid d = get_message_raw allowed mid (granted allowed d) \<and>
    resolve_message_attachment allowed mid index d = resolve_message_attachment allowed mid index (granted allowed d) \<and>
    get_attachment_metadata allowed sha d = get_attachment_metadata allowed sha (granted allowed d) \<and>
    get_attachment_blob_info allowed sha d = get_attachment_blob_info allowed sha (granted allowed d) \<and>
    open_attachment_bytes allowed sha d = open_attachment_bytes allowed sha (granted allowed d) \<and>
    get_attachment_filename env allowed sha d = get_attachment_filename env allowed sha (granted allowed d) \<and>
    get_attachment_text_page allowed sha w d = get_attachment_text_page allowed sha w (granted allowed d) \<and>
    list_accounts env allowed d = list_accounts env allowed (granted allowed d) \<and>
    list_folders allowed acct d = list_folders allowed acct (granted allowed d)"
  using assms
  by (simp add: get_message_granted get_message_raw_def find_mail_granted resolve_message_attachment_def get_attachment_metadata_def
      get_attachment_blob_info_def lookup_blob_granted open_attachment_granted filename_granted text_page_granted
      list_accounts_granted list_folders_granted)

definition sample_reader :: read_env where
  "sample_reader = \<lparr>re_sanitize = (\<lambda>h cids ext. h), re_parse_headers = (\<lambda>b. [(''raw'', b)]), re_render = (\<lambda>v. []), re_now = 0\<rparr>"

definition sample_mail :: "int \<Rightarrow> int \<Rightarrow> json list option \<Rightarrow> stored_mail" where
  "sample_mail i acct atts = \<lparr>sm_id = i, sm_account = acct, sm_subject = Some ''s'', sm_from_addr = None, sm_from_name = None, sm_to_addrs = [],
     sm_cc_addrs = [], sm_bcc_addrs = [], sm_body_text = Some ''t'', sm_body_html = None, sm_attachments = atts, sm_date_sent = None,
     sm_raw = ''H: 1'' @ [lf, lf] @ ''body''\<rparr>"

text \<open>Two accounts with one message each; the second account's message has a folder.\<close>

definition two_accounts :: archive where
  "two_accounts = \<lparr>ar_messages = [sample_mail 1 10 None, sample_mail 2 20 None],
     ar_accounts = [\<lparr>na_id = 10, na_name = ''a'', na_email = ''a''\<rparr>, \<lparr>na_id = 20, na_name = ''b'', na_email = ''b''\<rparr>],
     ar_mailboxes = [\<lparr>mb_id = 5, mb_account = 20, mb_name = ''INBOX'', mb_delimiter = None, mb_flags = [], mb_uidvalidity = None,
       mb_uidnext = None, mb_last_sync_at = None\<rparr>],
     ar_labels = [\<lparr>l_message = 2, l_mailbox = 5, l_uid = 1, l_flags = []\<rparr>], ar_blobs = [], ar_texts = [], ar_files = []\<rparr>"

lemma two_accounts_ok: "labels_ok two_accounts"
  by (simp add: labels_ok_def two_accounts_def sample_mail_def)

theorem reading_is_confined_witness:
  "get_message sample_reader [10] 2 ''compact'' False two_accounts = Inl NotFound \<and>
   is_ok (get_message sample_reader [20] 2 ''compact'' False two_accounts) \<and>
   ar_messages (granted [10] two_accounts) = [sample_mail 1 10 None]"
proof -
  have "find_mail [10] 2 (granted [10] two_accounts) = None" by (simp add: find_mail_def two_accounts_def sample_mail_def)
  then have "get_message sample_reader [10] 2 ''compact'' False (granted [10] two_accounts) = Inl NotFound"
    by (simp add: get_message_def header_mode_error_def)
  with reading_is_confined [OF two_accounts_ok]
  have "get_message sample_reader [10] 2 ''compact'' False two_accounts = Inl NotFound" by metis
  moreover have "is_ok (get_message sample_reader [20] 2 ''compact'' False two_accounts)" by code_simp
  moreover have "ar_messages (granted [10] two_accounts) = [sample_mail 1 10 None]"
    by (simp add: two_accounts_def sample_mail_def)
  ultimately show ?thesis by blast
qed

theorem bounded_header_read_exact_witness:
  "header_entries sample_reader [20] 2 (take prefix_read_bytes (sm_raw (sample_mail 2 20 None))) two_accounts = Inr [(''raw'', ''H: 1'' @ [lf])]"
proof -
  have m: "find_mail [20] 2 two_accounts = Some (sample_mail 2 20 None)" by (simp add: find_mail_def two_accounts_def sample_mail_def)
  have "header_block_of_whole (sm_raw (sample_mail 2 20 None)) = ''H: 1'' @ [lf]" by code_simp
  with bounded_header_read_exact [OF _ m, of sample_reader] show ?thesis by (simp add: sample_reader_def)
qed

subsection \<open>From the sync to the reader\<close>

lemma char_of_nat_less: "ord (b :: char) < 256"
  using nat_of_char_less_256 [of b] by simp

lemma hex_val_digit: "n < 16 \<Longrightarrow> hex_val (hex_digit n) = Some n"
  by (auto simp: hex_val_def hex_digit_def Let_def)

lemma hex_digit_no_space: "n < 16 \<Longrightarrow> \<not> ascii_space (hex_digit n)"
  by (auto simp: ascii_space_def hex_digit_def)

lemma fromhex_hex: "fromhex (hex bs) = Some bs"
proof (induction bs)
  case (Cons b bs)
  have "ord b div 16 < 16" "ord b mod 16 < 16" using char_of_nat_less [of b] by (auto simp: less_mult_imp_div_less)
  moreover have "char_of (16 * (ord b div 16) + ord b mod 16) = b" by simp
  ultimately show ?case using Cons by (simp add: hex_def hex_val_digit hex_digit_no_space)
qed (simp add: hex_def)

lemma length_hex: "length (hex bs) = 2 * length bs"
  by (induction bs) (auto simp: hex_def)

text \<open>What the writer of the column stores for an attachment, and the blob row as it is read.\<close>

definition entry_json :: "attachment_entry \<Rightarrow> json" where
  "entry_json e = JObj ([(''filename'', JStr (ae_filename e)), (''sha256'', JStr (ae_sha256 e))] @
     (case ae_content_id e of None \<Rightarrow> [] | Some c \<Rightarrow> [(''content_id'', JStr c)]))"

definition blob_of_row :: "blob_row \<Rightarrow> stored_blob" where
  "blob_of_row b = \<lparr>sb_sha256 = b_sha256 b, sb_mime = Some (b_mime b), sb_size = b_size b, sb_path = b_path b\<rparr>"

definition paths_ok :: "blob_row list \<Rightarrow> bool" where
  "paths_ok rows \<longleftrightarrow> (\<forall>b \<in> set rows. b_path b = blob_path (hex (b_sha256 b)))"

lemma write_attachments_paths:
  "write_attachments sha flt atts st = (r, st') \<Longrightarrow> paths_ok (bs_rows st) \<Longrightarrow> paths_ok (bs_rows st')"
proof (induction atts arbitrary: st r st')
  case (Cons a atts)
  let ?path = "blob_path (hex (sha (att_payload a)))"
  show ?case
  proof (cases "store_file flt ?path (att_payload a) st")
    case (Inl e)
    with Cons.prems show ?thesis by simp
  next
    case (Inr st1)
    then have "bs_rows st1 = bs_rows st" by (auto simp: store_file_def split: if_splits option.splits)
    then have "paths_ok (bs_rows (insert_blob_row \<lparr>b_sha256 = sha (att_payload a), b_path = ?path, b_mime = att_mime a,
        b_size = int (length (att_payload a))\<rparr> st1))"
      using Cons.prems(2) by (auto simp: paths_ok_def insert_blob_row_def)
    with Cons Inr show ?thesis by (auto simp: Let_def split: prod.splits sum.splits)
  qed
qed simp

lemma entry_json_get:
  "dict_get kvs ''sha256'' = JStr (ae_sha256 e) \<and> dict_get kvs ''filename'' = JStr (ae_filename e) \<and>
   map_of kvs ''sha256'' = Some (JStr (ae_sha256 e))" if "entry_json e = JObj kvs"
  using that by (auto simp: entry_json_def dict_get_def)

lemma find_mail_unique:
  assumes "distinct (map sm_id (ar_messages d))" "m \<in> set (ar_messages d)" "sm_account m \<in> set allowed"
  shows "find_mail allowed (sm_id m) d = Some m"
proof (cases "find_mail allowed (sm_id m) d")
  case None
  with assms show ?thesis by (auto simp: find_mail_def find_None_iff)
next
  case (Some n)
  with find_mail_Some [OF Some] assms show ?thesis by (auto simp: distinct_map dest: inj_onD)
qed

text \<open>
  C29. What the sync stored of an attachment is served: given a message of a granted account with the entries
  \<open>write_attachments\<close> returned, over the blob tree and the rows it left, the \<open>i\<close>-th attachment resolves to its
  digest and its recorded file name, and opening that digest yields bytes with the digest of
  the attachment's, with a size and a type, also when the tree already held the content.
\<close>

theorem stored_attachments_are_served:
  assumes "write_attachments sha256 write_fault atts st = (Inr rows, st')"
    and "content_addressed sha256 (bs_tree st)" "paths_ok (bs_rows st)" "\<And>bs. length (sha256 bs) = 32"
    and "distinct (map sm_id (ar_messages d))" "m \<in> set (ar_messages d)" "sm_account m \<in> set allowed"
    and "sm_attachments m = Some (map entry_json rows)" "ar_blobs d = map blob_of_row (bs_rows st')" "ar_files d = bs_tree st'"
    and "i < length atts" "int i \<le> max_jsonb_index"
  shows "resolve_message_attachment allowed (sm_id m) (int i) d =
      Inr (hex (sha256 (att_payload (atts ! i))), Some (sanitize_filename (att_filename (atts ! i)))) \<and>
    (\<exists>payload mime sz. open_attachment_bytes allowed (hex (sha256 (att_payload (atts ! i)))) d = Inr (payload, mime, sz) \<and>
       sha256 payload = sha256 (att_payload (atts ! i)))"
proof -
  let ?h = "sha256 (att_payload (atts ! i))" and ?e = "attachment_row sha256 (atts ! i)"
  have rows: "rows = map (attachment_row sha256) atts"
    and blob: "\<exists>b \<in> set (bs_rows st'). b_sha256 b = ?h" and tree: "map_of (bs_tree st') (blob_path (hex ?h)) \<noteq> None"
    using write_attachments_stores [OF assms(1)] assms(11) by auto
  have ne: "allowed \<noteq> []" using assms(7) by auto
  have fm: "find_mail allowed (sm_id m) d = Some m" by (rule find_mail_unique [OF assms(5-7)])
  have els: "elements m = map (\<lambda>a. entry_json (attachment_row sha256 a)) atts" using assms(8) rows by (simp add: elements_def)
  obtain kvs where kvs: "entry_json ?e = JObj kvs" by (simp add: entry_json_def)
  note get = entry_json_get [OF kvs]
  have sha: "ae_sha256 ?e = hex ?h" and name: "ae_filename ?e = sanitize_filename (att_filename (atts ! i))"
    by (simp_all add: attachment_row_def)
  have parse: "parse_sha256_hex (JStr (hex ?h)) = Inr ?h"
    by (simp add: parse_sha256_hex_def length_hex assms(4) fromhex_hex)
  have "resolve_message_attachment allowed (sm_id m) (int i) d = Inr (hex ?h, Some (sanitize_filename (att_filename (atts ! i))))"
    using assms(11,12) ne fm kvs get sha name parse by (simp add: resolve_message_attachment_def els Let_def)
  moreover have "carries (hex ?h) m"
    using assms(11) kvs get sha by (auto simp: carries_def els list_ex_iff has_sha_iff intro!: bexI [of _ "atts ! i"])
  then have "caller_can_read_blob allowed (hex ?h) d" using ne assms(6,7) by (auto simp: caller_can_read_blob_def list_ex_iff)
  moreover obtain b where b: "find (\<lambda>b. sb_sha256 b = ?h) (ar_blobs d) = Some b"
    using blob assms(9) by (cases "find (\<lambda>b. sb_sha256 b = ?h) (ar_blobs d)") (auto simp: find_None_iff blob_of_row_def)
  moreover have "sb_path b = blob_path (hex ?h)"
    using find_SomeD [OF b] assms(9) write_attachments_paths [OF assms(1,3)] by (auto simp: blob_of_row_def paths_ok_def)
  moreover obtain payload where p: "map_of (bs_tree st') (blob_path (hex ?h)) = Some payload" using tree by auto
  moreover have "sha256 payload = ?h"
  proof -
    have "blob_path (hex ?h) = blob_path (hex (sha256 payload))"
      using write_attachments_addressed [OF assms(1,2)] map_of_SomeD [OF p] by (auto simp: content_addressed_def)
    moreover have "length (hex (sha256 bs)) = 64" for bs by (simp add: length_hex assms(4))
    ultimately show ?thesis by (metis blob_path_inj hex_inj)
  qed
  ultimately show ?thesis
    by (simp add: open_attachment_bytes_def lookup_blob_row_def parse open_blob_file_at_def assms(10))
qed

definition served_archive :: archive where
  "served_archive =
     (let (r, st') = write_attachments sample_digest (\<lambda>_. None) [sample_attachment] \<lparr>bs_tree = [], bs_rows = []\<rparr>
      in two_accounts\<lparr>ar_messages := [sample_mail 2 20 (Some (map entry_json (projr r)))], ar_blobs := map blob_of_row (bs_rows st'),
           ar_files := bs_tree st'\<rparr>)"

theorem stored_attachments_are_served_witness:
  "resolve_message_attachment [20] 2 0 served_archive = Inr (hex (sample_digest ''hi''), Some ''a'') \<and>
   (\<exists>payload mime sz. open_attachment_bytes [20] (hex (sample_digest ''hi'')) served_archive = Inr (payload, mime, sz) \<and>
      sample_digest payload = sample_digest ''hi'')"
proof -
  let ?st = "\<lparr>bs_tree = [], bs_rows = []\<rparr>"
  obtain rows st' where run: "write_attachments sample_digest (\<lambda>_. None) [sample_attachment] ?st = (Inr rows, st')"
    by (simp add: store_file_def Let_def)
  have d: "served_archive = two_accounts\<lparr>ar_messages := [sample_mail 2 20 (Some (map entry_json rows))],
      ar_blobs := map blob_of_row (bs_rows st'), ar_files := bs_tree st'\<rparr>"
    unfolding served_archive_def run by simp
  have len: "length (sample_digest bs) = 32" for bs by (simp add: sample_digest_def)
  have name: "sanitize_filename (att_filename sample_attachment) = ''a''" by code_simp
  from stored_attachments_are_served [OF run, of served_archive "sample_mail 2 20 (Some (map entry_json rows))" "[20]" 0] name
  show ?thesis by (simp add: content_addressed_def paths_ok_def len d sample_mail_def max_jsonb_index_def sample_attachment_def)
qed

subsection \<open>Stored values that are no strings\<close>

lemma build_cid_map_error: "build_cid_map es out = Inl e \<Longrightarrow> e = Uncaught"
  by (induction es out rule: build_cid_map.induct) (auto simp: Let_def split: json.splits if_splits)

lemma blob_hashes_error:
  "JObj kvs \<in> set es \<Longrightarrow> dict_get kvs ''sha256'' = v \<Longrightarrow> truthy v \<Longrightarrow> \<forall>s. v \<noteq> JStr s \<Longrightarrow> blob_hashes es = Inl Uncaught"
proof (induction es)
  case (Cons e es)
  have only: "x = Uncaught" if "blob_hashes ys = Inl x" for ys x
    using that by (induction ys arbitrary: x) (auto simp: Let_def bindr_Inl_iff split: json.splits if_splits)
  show ?case
  proof (cases "e = JObj kvs")
    case True
    with Cons.prems show ?thesis by (auto simp: Let_def split: json.splits)
  next
    case False
    with Cons have "blob_hashes es = Inl Uncaught" by simp
    then show ?thesis by (auto simp: Let_def split: json.splits)
  qed
qed simp

text \<open>
  A stored hash that is a number breaks the message that holds it: \<open>get_message\<close> raises past every handler,
  because only a \<open>ValueError\<close> of \<open>bytes.fromhex\<close> is caught, while the same element asked for by its position is
  answered as absent.
\<close>

theorem malformed_hash_breaks_message:
  assumes "find_mail allowed mid d = Some m" "find (\<lambda>a. na_id a = sm_account m) (ar_accounts d) \<noteq> None"
    and "i < length (elements m)" "elements m ! i = JObj kvs" "dict_get kvs ''sha256'' = JInt n" "n \<noteq> 0"
  shows "get_message env allowed mid ''compact'' external d = Inl Uncaught \<and>
    resolve_message_attachment allowed mid (int i) d = Inl NotFound"
proof -
  have "JObj kvs \<in> set (elements m)" using assms(3,4) by (metis nth_mem)
  then have "blob_hashes (elements m) = Inl Uncaught" using blob_hashes_error assms(5,6) by fastforce
  then have meta: "load_attachment_meta (elements m) d = Inl Uncaught" by (simp add: load_attachment_meta_def)
  have ne: "allowed \<noteq> []" using find_mail_Some [OF assms(1)] by auto
  obtain a where a: "find (\<lambda>a. na_id a = sm_account m) (ar_accounts d) = Some a" using assms(2) by auto
  have "get_message env allowed mid ''compact'' external d = Inl Uncaught"
    using build_cid_map_error [of "elements m" "[]"]
    by (cases "build_cid_map (elements m) []") (auto simp: get_message_def header_mode_error_def ne assms(1) a meta Let_def)
  then show ?thesis
    using ne assms by (simp add: resolve_message_attachment_def Let_def parse_sha256_hex_def)
qed

theorem malformed_hash_breaks_message_witness:
  "get_message sample_reader [20] 2 ''compact'' False
     (two_accounts\<lparr>ar_messages := [sample_mail 2 20 (Some [JObj [(''sha256'', JInt 5)]])]\<rparr>) = Inl Uncaught"
proof -
  let ?d = "two_accounts\<lparr>ar_messages := [sample_mail 2 20 (Some [JObj [(''sha256'', JInt 5)]])]\<rparr>"
  let ?m = "sample_mail 2 20 (Some [JObj [(''sha256'', JInt 5)]])"
  have "find_mail [20] 2 ?d = Some ?m" by (simp add: find_mail_def sample_mail_def)
  from malformed_hash_breaks_message [OF this, of 0 "[(''sha256'', JInt 5)]" 5 sample_reader False] show ?thesis
    by (simp add: two_accounts_def sample_mail_def elements_def dict_get_def)
qed

text \<open>
  A message of a granted account is served whenever its elements are objects whose hashes and Content-IDs are
  strings or absent.
\<close>

definition sound_element :: "json \<Rightarrow> bool" where
  "sound_element e \<longleftrightarrow> (\<exists>kvs. e = JObj kvs \<and> (\<forall>k \<in> {''sha256'', ''content_id''}. dict_get kvs k = JNull \<or> (\<exists>s. dict_get kvs k = JStr s)))"

lemma sound_cid_map: "list_all sound_element es \<Longrightarrow> \<exists>out'. build_cid_map es out = Inr out'"
  by (induction es arbitrary: out) (auto simp: sound_element_def Let_def)

lemma sound_hashes: "list_all sound_element es \<Longrightarrow> \<exists>hs. blob_hashes es = Inr hs"
  by (induction es) (auto simp: sound_element_def Let_def)

lemma sound_views: "list_all sound_element es \<Longrightarrow> \<exists>vs. entry_views meta es = Inr vs \<and> length vs = length es"
  by (induction es) (auto simp: sound_element_def attachment_entry_view_def Let_def)

theorem granted_messages_are_served:
  assumes "distinct (map sm_id (ar_messages d))" "m \<in> set (ar_messages d)" "sm_account m \<in> set allowed"
    and "\<exists>a \<in> set (ar_accounts d). na_id a = sm_account m" "list_all sound_element (elements m)" "headers \<in> {''compact'', ''full'', ''list''}"
  shows "\<exists>v. get_message env allowed (sm_id m) headers external d = Inr v \<and> mv_id v = sm_id m \<and> mv_subject v = sm_subject m \<and>
    mv_body_text v = sm_body_text m \<and> length (mv_attachments v) = length (elements m) \<and>
    mv_headers v = (let es = re_parse_headers env (header_block_of_whole (sm_raw m))
      in if headers = ''compact'' then None else if headers = ''list'' then Some (HeaderList es) else Some (HeaderGroups (group_entries es)))"
proof -
  have fm: "find_mail allowed (sm_id m) d = Some m" by (rule find_mail_unique [OF assms(1-3)])
  have ne: "allowed \<noteq> []" using assms(3) by auto
  have hdr: "header_entries env allowed (sm_id m) (take prefix_read_bytes (sm_raw m)) d =
      Inr (re_parse_headers env (header_block_of_whole (sm_raw m)))" by (rule header_read_whole [OF ne fm])
  obtain a where a: "find (\<lambda>a. na_id a = sm_account m) (ar_accounts d) = Some a"
    using assms(4) by (cases "find (\<lambda>a. na_id a = sm_account m) (ar_accounts d)") (auto simp: find_None_iff)
  obtain cids hs where "build_cid_map (elements m) [] = Inr cids" "blob_hashes (elements m) = Inr hs"
    using sound_cid_map sound_hashes assms(5) by blast
  moreover obtain meta where "load_attachment_meta (elements m) d = Inr meta" using calculation by (simp add: load_attachment_meta_def)
  moreover obtain views where "entry_views meta (elements m) = Inr views" "length views = length (elements m)"
    using sound_views assms(5) by blast
  ultimately show ?thesis
    using assms(6) ne by (auto simp: get_message_def header_mode_error_def fm a hdr Let_def)
qed

end
