(* ===== verification/LabelHomes.thy ===== *)
theory LabelHomes
  imports Importer ReadingSafety
begin

text \<open>
  Where a label may point. The schema lets a row of \<open>message_labels\<close> join any message to any
  mailbox; that the two always belong to one account is what the writers keep: the sync of an
  account, \<open>retry-failed\<close> and the importer. It is what makes the folder names of a message safe to
  show (\<open>labels_ok\<close> of \<open>ReadingSafety\<close>).
\<close>

subsection \<open>Homes\<close>

text \<open>The accounts of the mailboxes and of the messages.\<close>

definition homes :: "db \<Rightarrow> (int \<times> int) set" where
  "homes d = (\<lambda>b. (mb_id b, mb_account b)) ` set (mailboxes d)"

definition owners :: "message_row list \<Rightarrow> (int \<times> int) set" where
  "owners rows = (\<lambda>m. (m_id m, m_account m)) ` set rows"

text \<open>What is joined by a label, and where the failed messages wait.\<close>

definition joins :: "db \<Rightarrow> (int \<times> int) set" where
  "joins d = label_key ` set (labels d)"

definition waits :: "db \<Rightarrow> (int \<times> int \<times> int) set" where
  "waits d = failed_key ` set (failed d)"

text \<open>
  Every label joins a message to a mailbox of the same account, and every failed message waits
  for a mailbox of its account.
\<close>

definition placed :: "message_row list \<Rightarrow> db \<Rightarrow> bool" where
  "placed rows d \<longleftrightarrow>
     (\<forall>(k, b) \<in> joins d. \<exists>a. (k, a) \<in> owners rows \<and> (b, a) \<in> homes d) \<and>
     (\<forall>(a, b, u) \<in> waits d. (b, a) \<in> homes d)"

text \<open>Of the tables as the session sees them, and as a rollback would leave them.\<close>

definition home_ok :: "conn \<Rightarrow> bool" where
  "home_ok c \<longleftrightarrow> placed (visible_messages c) (work c) \<and> placed (messages (committed c) @ others c) (committed c)"

lemma placedD:
  "placed rows d \<Longrightarrow> (k, b) \<in> joins d \<Longrightarrow> \<exists>a. (k, a) \<in> owners rows \<and> (b, a) \<in> homes d"
  "placed rows d \<Longrightarrow> (a, b, u) \<in> waits d \<Longrightarrow> (b, a) \<in> homes d"
  unfolding placed_def by blast+

lemma owners_append: "owners (xs @ ys) = owners xs \<union> owners ys"
  by (simp add: owners_def image_Un)

lemma owners_ident: "mail_ident ` set xs \<subseteq> mail_ident ` set ys \<Longrightarrow> owners xs \<subseteq> owners ys"
proof -
  have "owners zs = (\<lambda>(i, a, p). (i, a)) ` mail_ident ` set zs" for zs
    by (simp add: owners_def image_image mail_ident_def)
  then show "mail_ident ` set xs \<subseteq> mail_ident ` set ys \<Longrightarrow> owners xs \<subseteq> owners ys" by (simp only: image_mono)
qed

lemma placed_mono:
  assumes "placed rows d" "owners rows \<subseteq> owners rows'" "homes d \<subseteq> homes d'"
    and "\<And>k b. (k, b) \<in> joins d' \<Longrightarrow> (k, b) \<in> joins d \<or>
      (\<exists>a. (k, a) \<in> owners rows' \<and> (b, a) \<in> homes d')"
    and "\<And>a b u. (a, b, u) \<in> waits d' \<Longrightarrow> (a, b, u) \<in> waits d \<or> (b, a) \<in> homes d'"
  shows "placed rows' d'"
proof -
  have "\<exists>a. (k, a) \<in> owners rows' \<and> (b, a) \<in> homes d'" if "(k, b) \<in> joins d'" for k b
    using assms(4) [OF that] placedD(1) [OF assms(1)] assms(2,3) by blast
  moreover have "(b, a) \<in> homes d'" if "(a, b, u) \<in> waits d'" for a b u
    using assms(5) [OF that] placedD(2) [OF assms(1)] assms(3) by blast
  ultimately show ?thesis unfolding placed_def by blast
qed

lemma home_step:
  assumes "home_ok c" "owners (visible_messages c) \<subseteq> owners (visible_messages c')" "homes (work c) \<subseteq> homes (work c')"
    and "\<And>k b. (k, b) \<in> joins (work c') \<Longrightarrow> (k, b) \<in> joins (work c) \<or>
      (\<exists>a. (k, a) \<in> owners (visible_messages c') \<and> (b, a) \<in> homes (work c'))"
    and "\<And>a b u. (a, b, u) \<in> waits (work c') \<Longrightarrow>
      (a, b, u) \<in> waits (work c) \<or> (b, a) \<in> homes (work c')"
    and "set (others c) \<subseteq> set (others c')" "committed c' = committed c \<or> committed c' = work c'"
  shows "home_ok c'"
proof -
  have w: "placed (visible_messages c') (work c')"
    by (rule placed_mono [OF _ assms(2,3)]) (use assms(1,4,5) in \<open>auto simp: home_ok_def\<close>)
  have "owners (messages (committed c) @ others c) \<subseteq> owners (messages (committed c) @ others c')"
    using assms(6) by (auto simp: owners_def)
  then have "placed (messages (committed c) @ others c') (committed c)"
    by (rule placed_mono [rotated]) (use assms(1) in \<open>auto simp: home_ok_def\<close>)
  with w assms(7) show ?thesis by (auto simp: home_ok_def visible_messages_def)
qed

text \<open>A session at work in the mailbox \<open>i\<close> of an account.\<close>

definition lodged :: "int \<Rightarrow> int \<Rightarrow> conn \<Rightarrow> bool" where
  "lodged acct i c \<longleftrightarrow> home_ok c \<and> (i, acct) \<in> homes (work c)"

lemma lodged_step:
  assumes "lodged acct i c" "owners (visible_messages c) \<subseteq> owners (visible_messages c')" "homes (work c) \<subseteq> homes (work c')"
    and "\<And>k b. (k, b) \<in> joins (work c') \<Longrightarrow> (k, b) \<in> joins (work c) \<or> b = i \<and> (k, acct) \<in> owners (visible_messages c')"
    and "waits (work c') \<subseteq> waits (work c) \<union> {(acct, i, u) | u. True}"
    and "set (others c) \<subseteq> set (others c')" "committed c' = committed c \<or> committed c' = work c'"
  shows "lodged acct i c'"
proof -
  have i: "(i, acct) \<in> homes (work c')" using assms(1,3) by (auto simp: lodged_def)
  have "home_ok c'"
  proof (rule home_step [OF _ assms(2,3) _ _ assms(6,7)])
    show "home_ok c" using assms(1) by (simp add: lodged_def)
    show "(k, b) \<in> joins (work c) \<or> (\<exists>a. (k, a) \<in> owners (visible_messages c') \<and> (b, a) \<in> homes (work c'))"
      if "(k, b) \<in> joins (work c')" for k b using assms(4) [OF that] i by blast
    show "(a, b, u) \<in> waits (work c) \<or> (b, a) \<in> homes (work c')" if "(a, b, u) \<in> waits (work c')" for a b u
      using assms(5) that i by blast
  qed
  with i show ?thesis by (simp add: lodged_def)
qed

lemma lodged_same:
  assumes "lodged acct i c" "messages d = messages (work c)" "homes d = homes (work c)"
    and "joins d \<subseteq> joins (work c)" "waits d \<subseteq> waits (work c)"
  shows "lodged acct i (c\<lparr>work := d\<rparr>)"
proof (rule lodged_step [OF assms(1)])
  show "owners (visible_messages c) \<subseteq> owners (visible_messages (c\<lparr>work := d\<rparr>))" by (simp add: visible_messages_def assms(2))
qed (use assms in \<open>simp_all, blast+\<close>)

lemma lodged_commit: "lodged acct i c \<Longrightarrow> lodged acct i (commit c)"
  by (simp add: lodged_def home_ok_def visible_messages_def)

subsection \<open>One message\<close>

lemma upsert_label_keys:
  "upsert_label k mb uid flags c = (res, c') \<Longrightarrow>
   joins (work c') \<subseteq> insert (k, mb) (joins (work c))"
  unfolding upsert_label_def Let_def by (auto simp: joins_def set_update_where label_key_def split: if_splits)

lemma store_attachments_labels: "store_attachments env k atts c = (res, c') \<Longrightarrow> labels (work c') = labels (work c)"
  by (auto simp: store_attachments_def set_message_attachments_def Let_def split: prod.splits sum.splits)

lemma keeps_owners: "keeps_mail c c' \<Longrightarrow> owners (visible_messages c) \<subseteq> owners (visible_messages c')"
  unfolding visible_messages_def owners_append keeps_mail_def
  by (meson Un_mono image_mono owners_ident)

lemma process_labels:
  assumes "process_one_message env acct mb uid raw flags idate c = (res, c')"
    and "(k, b) \<in> joins (work c')"
  shows "(k, b) \<in> joins (work c) \<or> b = mb \<and> (k, acct) \<in> owners (visible_messages c')"
proof (cases "e_parse env raw")
  case (Inl e)
  with assms show ?thesis by (simp add: process_one_message_def)
next
  case (Inr p)
  obtain r1 c1 where u: "upsert_message env acct uid p idate c = (r1, c1)" by fastforce
  note f1 = upsert_message_frame [OF u]
  show ?thesis
  proof (cases r1)
    case (Inl e)
    with assms Inr u f1 show ?thesis by (simp add: process_one_message_def joins_def)
  next
    case r1: (Inr ki)
    obtain j ins where ki: "ki = (j, ins)" by fastforce
    obtain r2 c2 where l: "upsert_label j mb uid flags c1 = (r2, c2)" by fastforce
    obtain r3 c3 where s: "store_attachments env j (p_attachments p) c2 = (r3, c3)" by fastforce
    have c': "c' = c2 \<or> c' = c3"
      using assms Inr u r1 ki l s
      by (auto simp: process_one_message_def split: sum.splits option.splits if_splits)
    obtain r where "r \<in> set (visible_messages c1)" "m_id r = j" "same_key acct (p_message_id p) (p_raw_sha256 p) r"
      using upsert_message_key u r1 ki by blast
    then have "(j, acct) \<in> owners (visible_messages c1)" by (force simp: owners_def same_key_def)
    moreover have "keeps_mail c1 c'"
      using c' upsert_label_frame(1) [OF l] store_attachments_frame(1) [OF s] keeps_mail_trans by blast
    ultimately have "(j, acct) \<in> owners (visible_messages c')" using keeps_owners by blast
    moreover have "joins (work c') = joins (work c2)" using c' store_attachments_labels [OF s] by (auto simp: joins_def)
    moreover have "joins (work c1) = joins (work c)" using f1(3) by (simp add: joins_def)
    ultimately show ?thesis using assms(2) upsert_label_keys [OF l] by auto
  qed
qed

lemma lodged_process:
  assumes "process_one_message env acct i uid raw flags idate c = (res, c')" "lodged acct i c"
  shows "lodged acct i c'" "lodged acct i (rollback_to (work c) c')"
proof -
  have k: "keeps_mail c c'" and b: "same_books c c'" using process_frame [OF assms(1)] by simp_all
  then have o: "set (others c) \<subseteq> set (others c')" "committed c' = committed c" "mailboxes (work c') = mailboxes (work c)"
    "waits (work c') = waits (work c)" by (simp_all add: keeps_mail_def same_books_def waits_def)
  then have h: "homes (work c') = homes (work c)" by (simp add: homes_def)
  show "lodged acct i c'"
    by (rule lodged_step [OF assms(2) keeps_owners [OF k]]) (use process_labels [OF assms(1)] o h in simp_all)
  have "owners (visible_messages c) \<subseteq> owners (visible_messages (rollback_to (work c) c'))"
    using o(1) by (auto simp: visible_messages_def owners_def)
  then show "lodged acct i (rollback_to (work c) c')"
    by (rule lodged_step [OF assms(2)]) (use o in simp_all)
qed

lemma lodged_record_failed:
  assumes "record_failed_message env acct i u raw e c = (r, c')" "lodged acct i c"
  shows "lodged acct i c'"
proof -
  have h: "homes (work c') = homes (work c)" and m: "visible_messages c' = visible_messages c" "joins (work c') = joins (work c)"
    "others c' = others c" "committed c' = committed c"
    using assms(1) by (auto simp: record_failed_message_def Let_def homes_def joins_def visible_messages_def split: option.splits if_splits)
  have "waits (work c') \<subseteq> insert (acct, i, u) (waits (work c))"
    using assms(1) by (auto simp: record_failed_message_def Let_def waits_def failed_key_def set_update_where split: option.splits if_splits)
  then show ?thesis by (intro lodged_step [OF assms(2)]) (auto simp: h m)
qed

subsection \<open>A pass over a mailbox\<close>

named_theorems lodged_intros

lemma lodged_no_body [lodged_intros]:
  assumes "lodged acct (mb_id m) c" "no_body_step env im m now u ps c = (ps', c')"
  shows "lodged acct (mb_id m) c'"
proof -
  obtain hold d where rec: "record_attempt (e_fault env (Hold u)) (e_clock env (txn c)) (mb_id m) u (work c) = (hold, d)"
    by fastforce
  then have d: "d = snd (record_attempt (e_fault env (Hold u)) (e_clock env (txn c)) (mb_id m) u (work c))" by simp
  have "lodged acct (mb_id m) (c\<lparr>work := d\<rparr>)" "lodged acct (mb_id m) (c\<lparr>work := mark_gave_up f n (mb_id m) u d\<rparr>)" for f n
    by (intro lodged_same [OF assms(1)]; simp add: d table_simps joins_def waits_def homes_def)+
  with assms rec show ?thesis by (auto simp: no_body_step_def split: if_splits)
qed

lemma lodged_clear: "lodged acct i c \<Longrightarrow> lodged acct i (with_work (clear_attempts mb u) c)"
  unfolding with_work_def by (intro lodged_same) (simp_all add: table_simps joins_def waits_def homes_def)

lemma lodged_body [lodged_intros]:
  assumes "lodged acct (mb_id m) c" "body_step env acct m u raw it ps c = (r, c')"
  shows "lodged acct (mb_id m) c'"
proof -
  define c0 where "c0 = (if u \<in> fst ` set (held_attempts ps) then with_work (clear_attempts (mb_id m) u) c else c)"
  have c0: "lodged acct (mb_id m) c0" using assms(1) by (simp add: c0_def lodged_clear)
  obtain r1 c1 where p: "process_one_message env acct (mb_id m) u raw (fi_flags it)
      (aware_internal_date (fi_internaldate it)) c0 = (r1, c1)" by fastforce
  have "c' = c \<or> c' = c1 \<or> c' = rollback_to (work c0) c1 \<or>
      (\<exists>e r. record_failed_message env acct (mb_id m) u raw e (rollback_to (work c0) c1) = (r, c'))"
    using assms(2) p unfolding body_step_def Let_def c0_def [symmetric]
    by (cases r1) (fastforce split: if_splits prod.splits option.splits)+
  then show ?thesis using assms(1) lodged_process [OF p c0] lodged_record_failed by metis
qed

lemma lodged_uid_step [lodged_intros]:
  "lodged acct (mb_id m) c \<Longrightarrow> uid_step env im acct m now fetched u ps c = (r, c') \<Longrightarrow> lodged acct (mb_id m) c'"
  by (auto simp: uid_step_def split: option.splits prod.splits intro: lodged_body lodged_no_body)

lemma lodged_sync_uids [lodged_intros]:
  "lodged acct (mb_id m) c \<Longrightarrow> sync_uids env im acct m now fetched us ps c = (r, c') \<Longrightarrow> lodged acct (mb_id m) c'"
proof (induction us arbitrary: ps c)
  case (Cons u us)
  obtain r1 c1 where s: "uid_step env im acct m now fetched u ps c = (r1, c1)" by fastforce
  with Cons lodged_uid_step [OF Cons.prems(1) s] show ?case by (cases r1) auto
qed simp

lemma homes_progress: "homes (update_mailbox_progress mb uv n t d) = homes d"
  by (simp add: homes_def update_mailbox_progress_def map_update_where flip: set_map)

lemma lodged_progress: "lodged acct i c \<Longrightarrow> lodged acct i (commit (with_work (update_mailbox_progress mb uv n t) c))"
  unfolding with_work_def
  by (intro lodged_commit lodged_same) (simp_all add: table_simps homes_progress joins_def waits_def)

lemma lodged_checkpoint [lodged_intros]:
  "lodged acct i c \<Longrightarrow> checkpoint_chunk env m uv ps c = (r, c') \<Longrightarrow> lodged acct i c'"
  unfolding checkpoint_chunk_def Let_def with_work_def
  by (auto split: option.splits intro!: lodged_commit lodged_same simp: table_simps homes_progress joins_def waits_def)
     (auto simp: homes_def table_simps intro: homes_progress [unfolded homes_def, THEN equalityD1, THEN subsetD]
        homes_progress [unfolded homes_def, THEN equalityD2, THEN subsetD])

lemma lodged_sync_chunk [lodged_intros]:
  "lodged acct (mb_id m) c \<Longrightarrow> sync_chunk env im acct m now uv chunk ps c = (r, c') \<Longrightarrow> lodged acct (mb_id m) c'"
  by (auto simp: sync_chunk_def split: sum.splits prod.splits intro: lodged_sync_uids lodged_checkpoint)

lemma lodged_sync_chunks [lodged_intros]:
  "lodged acct (mb_id m) c \<Longrightarrow> sync_chunks env im acct m now uv chunks ps c = (r, c') \<Longrightarrow> lodged acct (mb_id m) c'"
proof (induction chunks arbitrary: ps c)
  case (Cons chunk chunks)
  obtain r1 c1 where s: "sync_chunk env im acct m now uv chunk ps c = (r1, c1)" by fastforce
  with Cons lodged_sync_chunk [OF Cons.prems(1) s] show ?case by (cases r1) auto
qed simp

lemma lodged_begin_resync: "lodged acct i c \<Longrightarrow> lodged acct i (begin_resync m full c)"
  unfolding begin_resync_def with_work_def
  by (auto intro!: lodged_commit lodged_same simp: clear_mailbox_labels_def clear_mailbox_def joins_def waits_def homes_def)

lemma lodged_sync_mailbox [lodged_intros]:
  "lodged acct (mb_id m) c \<Longrightarrow> sync_mailbox env im acct m k c = (r, c') \<Longrightarrow> lodged acct (mb_id m) c'"
  by (auto simp: sync_mailbox_def Let_def split: sum.splits prod.splits if_splits
      intro: lodged_begin_resync lodged_progress lodged_sync_chunks)

lemma homes_mb_ident: "homes d = (\<lambda>(i, a, n). (i, a)) ` mb_ident ` set (mailboxes d)"
  by (simp add: homes_def mb_ident_def image_image)

lemma home_upsert_mailbox:
  assumes "home_ok c" "upsert_mailbox acct name delim flags c = (r, c')"
  shows "home_ok c'" "\<And>m. r = Inr m \<Longrightarrow> lodged acct (mb_id m) c'"
proof -
  have same: "joins (work c') = joins (work c)" "waits (work c') = waits (work c)" "visible_messages c' = visible_messages c"
    "others c' = others c" "committed c' = committed c"
    using assms(2) by (auto simp: upsert_mailbox_def Let_def joins_def waits_def visible_messages_def split: option.splits if_splits)
  have "homes (work c) \<subseteq> homes (work c')"
  proof (cases r)
    case (Inl e)
    with assms(2) show ?thesis by (auto simp: upsert_mailbox_def Let_def split: option.splits if_splits)
  next
    case (Inr m)
    with upsert_mailbox_grows(1) [of acct name delim flags c m c'] assms(2)
    have "mb_ident ` set (mailboxes (work c)) \<subseteq> mb_ident ` set (mailboxes (work c'))" by (simp add: grows_def)
    then show ?thesis unfolding homes_mb_ident by (rule image_mono)
  qed
  then show ok: "home_ok c'" by (intro home_step [OF assms(1)]) (auto simp: same)
  show "lodged acct (mb_id m) c'" if "r = Inr m" for m
    using ok upsert_mailbox_grows(2) [of acct name delim flags c m c'] assms(2) that
    unfolding lodged_def homes_mb_ident by force
qed

lemma home_sync_folders:
  "home_ok c \<Longrightarrow> sync_folders env im acct k fs results c = (r, c') \<Longrightarrow> home_ok c'"
proof (induction env im acct k fs results c rule: sync_folders.induct)
  case (2 env im acct k name delim flags fs results c)
  obtain r1 c1 where u: "upsert_mailbox acct name delim flags c = (r1, c1)" by fastforce
  note h = home_upsert_mailbox [OF "2.prems"(1) u]
  show ?case
  proof (cases r1)
    case (Inl e)
    with 2 u h(1) show ?thesis by simp
  next
    case (Inr m)
    obtain r2 c2 where s: "sync_mailbox env im acct m k (commit c1) = (r2, c2)" by fastforce
    have "home_ok c2" using lodged_sync_mailbox [OF lodged_commit [OF h(2) [OF Inr]] s] by (simp add: lodged_def)
    with "2.prems"(2) "2.IH" [OF u [symmetric] Inr s [symmetric]] u Inr s show ?thesis
      by (cases r2) auto
  qed
qed simp

lemma home_sync_account: "sync_account env im cfg acct k c = (r, c') \<Longrightarrow> home_ok c \<Longrightarrow> home_ok c'"
  by (auto simp: sync_account_def split: sum.splits intro: home_sync_folders)


subsection \<open>The other writers\<close>

lemma record_failed_mailboxes: "record_failed_message env a i u raw e c = (r, c') \<Longrightarrow> mailboxes (work c') = mailboxes (work c)"
  by (auto simp: record_failed_message_def Let_def split: option.splits if_splits)

lemma home_retry_one:
  assumes "retry_one env (f, am) counts c = (r, c')" "lodged (f_account f) (f_mailbox f) c"
  shows "home_ok c' \<and> homes (work c') = homes (work c)"
proof -
  obtain s n where counts: "counts = (s, n)" by fastforce
  define uid where "uid = (if should_reallocate_uid am
    then next_uid_after (Some (max_label_uid (work c) (f_mailbox f))) else f_uid f)"
  obtain r1 c1 where p: "process_one_message env (f_account f) (f_mailbox f) uid (f_raw f) [] None c = (r1, c1)"
    by fastforce
  note l = lodged_process [OF p assms(2)]
  have m: "mailboxes (work c1) = mailboxes (work c)" using process_frame [OF p] by (simp add: same_books_def)
  let ?drop = "\<lambda>d. d\<lparr>failed := filter (\<lambda>g. f_id g \<noteq> f_id f) (failed d)\<rparr>"
  have "lodged (f_account f) (f_mailbox f) c' \<and> mailboxes (work c') = mailboxes (work c)"
  proof (cases r1)
    case (Inr ki)
    then have "c' = commit (with_work ?drop c1)" using assms(1) p counts by (auto simp: retry_one_def Let_def simp flip: uid_def)
    moreover have "lodged (f_account f) (f_mailbox f) (commit (with_work ?drop c1))"
      unfolding with_work_def by (intro lodged_commit lodged_same [OF l(1)]) (auto simp: joins_def waits_def homes_def)
    ultimately show ?thesis by (simp add: m)
  next
    case (Inl e)
    obtain r3 c3 where rf: "record_failed_message env (f_account f) (f_mailbox f) (f_uid f) (f_raw f) e (rollback_to (work c) c1) = (r3, c3)"
      by fastforce
    have "c' = rollback_to (work c) c1 \<or> c' = c3 \<or> c' = commit c3"
      using assms(1) p Inl rf counts by (auto simp: retry_one_def Let_def simp flip: uid_def split: if_splits option.splits)
    with l(2) lodged_record_failed [OF rf l(2)] lodged_commit record_failed_mailboxes [OF rf] show ?thesis by auto
  qed
  then show ?thesis by (simp add: lodged_def homes_def)
qed

lemma home_retry_rows:
  "retry_rows env rows counts c = (r, c') \<Longrightarrow> home_ok c \<Longrightarrow>
   (\<And>f am. (f, am) \<in> set rows \<Longrightarrow> (f_mailbox f, f_account f) \<in> homes (work c)) \<Longrightarrow> home_ok c'"
proof (induction rows arbitrary: counts c)
  case (Cons row rows)
  obtain f am where row: "row = (f, am)" by fastforce
  obtain r1 c1 where one: "retry_one env (f, am) counts c = (r1, c1)" by fastforce
  have "lodged (f_account f) (f_mailbox f) c" using Cons.prems(2) Cons.prems(3) [of f am] row by (simp add: lodged_def)
  from home_retry_one [OF one this] have c1: "home_ok c1" "homes (work c1) = homes (work c)" by simp_all
  show ?case
  proof (cases r1)
    case (Inl e)
    with Cons.prems(1) row one c1 show ?thesis by simp
  next
    case (Inr counts1)
    with Cons.prems(1) row one have "retry_rows env rows counts1 c1 = (r, c')" by simp
    from Cons.IH [OF this c1(1)] Cons.prems(3) show ?thesis unfolding c1(2) by (meson list.set_intros(2))
  qed
qed simp

lemma home_retry_failed:
  assumes "retry_failed_messages env aid c = (r, c')" "home_ok c"
  shows "home_ok c'"
proof (rule home_retry_rows [OF assms(1) [unfolded retry_failed_messages_def] assms(2)])
  fix f am assume "(f, am) \<in> set (failed_scope aid (work c))"
  then have "f \<in> set (failed (work c))" by (auto simp: failed_scope_def)
  then have "(f_account f, f_mailbox f, f_uid f) \<in> waits (work c)" by (force simp: waits_def failed_key_def)
  then show "(f_mailbox f, f_account f) \<in> homes (work c)" using assms(2) placedD(2) by (auto simp: home_ok_def)
qed

text \<open>The importer: every mailbox it has entered is one of the account.\<close>

definition entered :: "int \<Rightarrow> import_state \<Rightarrow> conn \<Rightarrow> bool" where
  "entered acct st c \<longleftrightarrow> home_ok c \<and> (\<forall>name i. map_of (is_mailbox_ids st) name = Some i \<longrightarrow> (i, acct) \<in> homes (work c))"

lemma entered_enter:
  assumes "entered acct st c" "enter_mailbox env acct name st c = (r, c')"
  shows "home_ok c'" "\<And>st'. r = Inr st' \<Longrightarrow> entered acct st' c' \<and> map_of (is_mailbox_ids st') name \<noteq> None"
proof -
  obtain r1 c1 where u: "upsert_mailbox acct name None [] c = (r1, c1)" by fastforce
  have ok: "home_ok c" using assms(1) by (simp add: entered_def)
  note h = home_upsert_mailbox [OF ok u]
  show "home_ok c'"
    using assms(2) u ok h(1) by (auto simp: enter_mailbox_def Let_def home_ok_def visible_messages_def split: if_splits option.splits sum.splits)
  fix st' assume r: "r = Inr st'"
  show "entered acct st' c' \<and> map_of (is_mailbox_ids st') name \<noteq> None"
  proof (cases "map_of (is_mailbox_ids st) name")
    case (Some i)
    with assms r show ?thesis by (simp add: enter_mailbox_def)
  next
    case None
    with assms(2) r u obtain m where m: "r1 = Inr m" "c' = commit c1" "is_mailbox_ids st' = dict_set name (mb_id m) (is_mailbox_ids st)"
      by (auto simp: enter_mailbox_def Let_def split: option.splits sum.splits)
    have "mb_ident ` set (mailboxes (work c)) \<subseteq> mb_ident ` set (mailboxes (work c1))"
      using upsert_mailbox_grows(1) [OF u [unfolded m(1)]] by (simp add: grows_def)
    then have "homes (work c) \<subseteq> homes (work c1)" unfolding homes_mb_ident by (rule image_mono)
    with lodged_commit [OF h(2) [OF m(1)]] assms(1) show ?thesis
      by (auto simp: entered_def lodged_def m(2,3))
  qed
qed

lemma entered_store:
  assumes "entered acct st c" "map_of (is_mailbox_ids st) (im_mailbox_name msg) \<noteq> None" "store_message env acct msg st c = (r, c')"
  shows "home_ok c'" "\<And>st'. r = Inr st' \<Longrightarrow> entered acct st' c'"
proof -
  obtain i where i: "map_of (is_mailbox_ids st) (im_mailbox_name msg) = Some i" using assms(2) by blast
  let ?u = "the (map_of (is_uid_counters st) (im_mailbox_name msg)) + 1"
  have l: "lodged acct i c" using assms(1) i by (simp add: entered_def lodged_def)
  obtain r1 c1 where p: "process_one_message (ie_sync env) acct i ?u (im_raw msg) [] (im_received_date msg) c = (r1, c1)"
    by fastforce
  have m: "mailboxes (work c1) = mailboxes (work c)" using process_frame [OF p] by (simp add: same_books_def)
  have "c' = c1 \<or> (\<exists>w e r. record_failed_message (ie_sync env) acct i w (im_raw msg) e (rollback_to (work c) c1) = (r, c'))"
    using assms(3) p i unfolding store_message_def Let_def by (cases r1) (fastforce split: if_splits prod.splits option.splits)+
  then have "lodged acct i c' \<and> mailboxes (work c') = mailboxes (work c)"
    using lodged_process [OF p l] lodged_record_failed record_failed_mailboxes m by fastforce
  then have c': "home_ok c'" "homes (work c') = homes (work c)" by (simp_all add: lodged_def homes_def)
  then show "home_ok c'" by simp
  show "entered acct st' c'" if "r = Inr st'" for st'
    using assms(1) store_message_state [of env acct msg st c st' c'] assms(3) that c' by (simp add: entered_def)
qed

lemma entered_checkpoint:
  "checkpoint_job env cfg jid st c jobs = (r, st', c', jobs') \<Longrightarrow> entered acct st c \<Longrightarrow> entered acct st' c'"
  unfolding checkpoint_job_def Let_def
  by (auto simp: entered_def home_ok_def visible_messages_def split: if_splits option.splits)

lemma home_import_loop:
  "import_loop env cfg jid acct msgs raised st c jobs = (r, st', c', jobs') \<Longrightarrow> entered acct st c \<Longrightarrow> home_ok c'"
proof (induction msgs arbitrary: st c jobs)
  case Nil
  then show ?case by (simp add: entered_def)
next
  case (Cons msg msgs)
  obtain r1 c1 where e: "enter_mailbox env acct (im_mailbox_name msg) st c = (r1, c1)" by fastforce
  note h1 = entered_enter [OF Cons.prems(2) e]
  show ?case
  proof (cases r1)
    case (Inl x)
    with Cons.prems(1) e h1(1) show ?thesis by simp
  next
    case (Inr st1)
    note in1 = h1(2) [OF Inr]
    obtain r2 c2 where s: "store_message env acct msg st1 c1 = (r2, c2)" by fastforce
    note h2 = entered_store [OF conjunct1 [OF in1] conjunct2 [OF in1] s]
    show ?thesis
    proof (cases r2)
      case (Inl x)
      with Cons.prems(1) e Inr s h2(1) show ?thesis by simp
    next
      case r2: (Inr st2)
      obtain r3 st3 c3 jobs3 where ch: "checkpoint_job env cfg jid st2 c2 jobs = (r3, st3, c3, jobs3)"
        by (cases "checkpoint_job env cfg jid st2 c2 jobs") auto
      note in3 = entered_checkpoint [OF ch h2(2) [OF r2]]
      show ?thesis
      proof (cases "r3 = Inr False")
        case True
        with Cons.prems(1) e Inr s r2 ch have "import_loop env cfg jid acct msgs raised st3 c3 jobs3 = (r, st', c', jobs')" by simp
        from Cons.IH [OF this in3] show ?thesis .
      next
        case False
        with Cons.prems(1) e Inr s r2 ch have "c' = c3" by (cases r3; auto split: bool.splits)+
        with in3 show ?thesis by (simp add: entered_def)
      qed
    qed
  qed
qed

lemma home_ends: "home_ok c \<Longrightarrow> home_ok (commit c)" "home_ok c \<Longrightarrow> home_ok (rollback c)"
  by (simp_all add: home_ok_def visible_messages_def rollback_def)

lemma home_run_import:
  assumes "home_ok c"
  shows "home_ok (fst (snd (run_import env cfg jid c jobs)))"
proof -
  have body: "home_ok (fst (snd (snd (snd (import_body env cfg jid job (commit c) jobs1)))))" for job jobs1
  proof -
    obtain msgs raised where src: "ie_source env (j_source_kind job) (j_source_path job) = (msgs, raised)" by fastforce
    obtain r st c1 jobs2 where lp: "import_loop env cfg jid (j_account job) msgs raised (fresh_state env) (commit c) jobs1 = (r, st, c1, jobs2)"
      by (metis prod_cases4)
    have "entered (j_account job) (fresh_state env) (commit c)"
      using home_ends(1) [OF assms] by (simp add: entered_def fresh_state_def)
    from home_import_loop [OF lp this] home_ends [of c1] show ?thesis
      by (auto simp: import_body_def src lp split: sum.splits option.splits)
  qed
  have finish: "fst (snd (finish_import env cfg jid res)) = fst (snd (snd (snd res)))" for res
    by (auto simp: finish_import_def split: prod.splits)
  show ?thesis
    using assms home_ends(1) [OF assms] body
    by (auto simp: run_import_def finish split: option.splits prod.splits bool.splits)
qed

subsection \<open>The archive as it is read\<close>

text \<open>What another session commits of its mail, the end of a transaction, and the writers.\<close>

inductive mail_step :: "conn \<Rightarrow> conn \<Rightarrow> bool" where
  synced: "sync_account env im cfg acct k c = (r, c') \<Longrightarrow> mail_step c c'"
| retried: "retry_failed_messages env aid c = (r, c') \<Longrightarrow> mail_step c c'"
| imported: "run_import ienv icfg jid c jobs = (out, c', jobs') \<Longrightarrow> mail_step c c'"
| others_committed: "mail_step c (others_commit rs c)"
| committed: "mail_step c (commit c)"
| rolled_back: "mail_step c (rollback c)"

lemma home_mail_step: "mail_step c c' \<Longrightarrow> home_ok c \<Longrightarrow> home_ok c'"
proof (induction rule: mail_step.induct)
  case (imported ienv icfg jid c jobs out c' jobs')
  then show ?case using home_run_import [of c ienv icfg jid jobs] by simp
next
  case (others_committed c rs)
  have "set (others c) \<subseteq> set (others (others_commit rs c))" by (simp add: others_commit_def admit_rows_mono)
  then show ?case
    by (intro home_step [OF others_committed]) (auto simp: others_commit_def visible_messages_def owners_def)
qed (simp_all add: home_sync_account home_retry_failed home_ends)

text \<open>An archive that shows the committed tables: the readers see these mailboxes and labels, and the owners of the messages.\<close>

definition shows_tables :: "archive \<Rightarrow> conn \<Rightarrow> bool" where
  "shows_tables ar c \<longleftrightarrow> ar_mailboxes ar = mailboxes (committed c) \<and> ar_labels ar = labels (committed c) \<and>
     map (\<lambda>m. (sm_id m, sm_account m)) (ar_messages ar) = map (\<lambda>m. (m_id m, m_account m)) (messages (committed c) @ others c)"

lemma home_empty:
  "labels (work c) = [] \<Longrightarrow> failed (work c) = [] \<Longrightarrow> labels (committed c) = [] \<Longrightarrow> failed (committed c) = [] \<Longrightarrow> home_ok c"
  by (simp add: home_ok_def placed_def joins_def waits_def)

lemma map_of_distinct_eq:
  "distinct (map fst xs) \<Longrightarrow> (k, a) \<in> set xs \<Longrightarrow> (k, b) \<in> set xs \<Longrightarrow> a = b"
  by (metis map_of_is_SomeI option.inject)

text \<open>
  Whatever the writers have done since there was neither a label nor a failed message, finished or
  interrupted, the archive the readers see has no label that joins a message to a mailbox of another
  account; that ids are unique is what the primary keys ensure. Rows that are deleted, with their
  mailbox, message or account, take no such label into being, since \<open>labels_ok\<close> speaks of every
  label there is.
\<close>

theorem labels_stay_home:
  assumes "mail_step\<^sup>*\<^sup>* c0 c" "home_ok c0" "shows_tables ar c"
    and "distinct (map sm_id (ar_messages ar))" "distinct (map mb_id (ar_mailboxes ar))"
  shows "labels_ok ar"
proof -
  have "home_ok c" using assms(1,2) by (induction rule: rtranclp_induct) (auto intro: home_mail_step)
  then have placed: "placed (messages (committed c) @ others c) (committed c)" by (simp add: home_ok_def)
  have eqs: "ar_mailboxes ar = mailboxes (committed c)" "ar_labels ar = labels (committed c)"
    and rows: "owners (messages (committed c) @ others c) = set (map (\<lambda>m. (sm_id m, sm_account m)) (ar_messages ar))"
    using assms(3) unfolding shows_tables_def owners_def by (simp_all only: set_map [symmetric])
  have ids: "distinct (map fst (map (\<lambda>m. (sm_id m, sm_account m)) (ar_messages ar)))"
      "distinct (map fst (map (\<lambda>b. (mb_id b, mb_account b)) (ar_mailboxes ar)))"
    using assms(4,5) by (simp_all add: comp_def)
  have "sm_account m = mb_account b"
    if "l \<in> set (ar_labels ar)" "m \<in> set (ar_messages ar)" "b \<in> set (ar_mailboxes ar)" "l_message l = sm_id m" "l_mailbox l = mb_id b" for l m b
  proof -
    have "(sm_id m, mb_id b) \<in> joins (committed c)" using that by (force simp: joins_def label_key_def eqs)
    from placedD(1) [OF placed this] obtain a where a: "(sm_id m, a) \<in> set (map (\<lambda>m. (sm_id m, sm_account m)) (ar_messages ar))"
        "(mb_id b, a) \<in> set (map (\<lambda>b. (mb_id b, mb_account b)) (ar_mailboxes ar))"
      unfolding rows by (auto simp: homes_def eqs)
    have "(sm_id m, sm_account m) \<in> set (map (\<lambda>m. (sm_id m, sm_account m)) (ar_messages ar))"
      "(mb_id b, mb_account b) \<in> set (map (\<lambda>b. (mb_id b, mb_account b)) (ar_mailboxes ar))"
      using that(2,3) by auto
    with map_of_distinct_eq [OF ids(1) a(1)] map_of_distinct_eq [OF ids(2) a(2)] show ?thesis by simp
  qed
  with assms(5) show ?thesis by (simp add: labels_ok_def)
qed

end
