(* ===== verification/Routes.thy ===== *)
theory Routes
  imports OAuth ReadingSafety
begin

text \<open>
  The read routes over HTTP (\<open>serve/routes/messages.py\<close>, \<open>serve/routes/attachments.py\<close>,
  \<open>serve/routes/accounts.py\<close>) and the read tools over MCP (\<open>mcp/tools.py\<close>, \<open>mcp/server.py\<close>): a credential is
  verified, the accounts of its user are read, and an accessor of \<open>Reading\<close> answers.

  The verification commits before the grants are read; \<open>between\<close> is what other sessions commit in the meantime.
\<close>

subsection \<open>Callers\<close>

datatype 'a reply = NoToken | Refused Reading.read_error | Reply 'a

text \<open>\<open>get_authenticated_user\<close>: the header must start with the scheme, the token must verify.\<close>

definition bearer :: string where "bearer = ''Bearer ''"

definition get_authenticated_user :: "auth_env \<Rightarrow> string \<Rightarrow> auth_db \<Rightarrow> authenticated_user option \<times> auth_db" where
  "get_authenticated_user env authz d =
     (if \<not> startswith authz bearer then (None, d) else verify_token env (drop (length bearer) authz) d)"

definition as_caller ::
  "auth_env \<Rightarrow> (auth_db \<Rightarrow> auth_db) \<Rightarrow> string \<Rightarrow> (int list \<Rightarrow> Reading.read_error + 'a) \<Rightarrow> auth_db \<Rightarrow> 'a reply" where
  "as_caller env between authz f d =
     (case get_authenticated_user env authz d of
        (None, _) \<Rightarrow> NoToken
      | (Some u, d1) \<Rightarrow>
          (case f (allowed_account_ids (between d1) (au_id u)) of Inl e \<Rightarrow> Refused e | Inr x \<Rightarrow> Reply x))"

definition wire_id :: "string \<Rightarrow> (int \<Rightarrow> Reading.read_error + 'a) \<Rightarrow> Reading.read_error + 'a" where
  "wire_id s f = (case parse_int_id s of None \<Rightarrow> Inl Reading.ValidationFailed | Some i \<Rightarrow> f i)"

subsection \<open>HTTP\<close>

definition route_detail ::
  "auth_env \<Rightarrow> (auth_db \<Rightarrow> auth_db) \<Rightarrow> read_env \<Rightarrow> string \<Rightarrow> string \<Rightarrow> string \<Rightarrow> bool \<Rightarrow> auth_db \<Rightarrow> archive \<Rightarrow> message_view reply" where
  "route_detail env between renv authz message_id headers external_images d ar =
     as_caller env between authz
       (\<lambda>allowed. wire_id message_id (\<lambda>mid. get_message renv allowed mid headers external_images ar)) d"

definition route_raw ::
  "auth_env \<Rightarrow> (auth_db \<Rightarrow> auth_db) \<Rightarrow> string \<Rightarrow> string \<Rightarrow> auth_db \<Rightarrow> archive \<Rightarrow> bytes reply" where
  "route_raw env between authz message_id d ar =
     as_caller env between authz (\<lambda>allowed. wire_id message_id (\<lambda>mid. get_message_raw allowed mid ar)) d"

datatype file_reply = NotModified | Served response

text \<open>The conditional request is answered before the file is opened.\<close>

definition serve_file ::
  "request_headers \<Rightarrow> string \<Rightarrow> string option \<times> int \<times> string \<Rightarrow> Reading.read_error + string option \<Rightarrow> archive \<Rightarrow>
   Reading.read_error + file_reply" where
  "serve_file req sha info filename ar =
     (case info of (mime, sz, path) \<Rightarrow>
        if not_modified req sha then Inr NotModified
        else bindr filename (\<lambda>name. bindr (open_blob_file_at path ar)
               (\<lambda>file. Inr (Served (blob_response req sha mime sz file name)))))"

definition route_message_attachment ::
  "auth_env \<Rightarrow> (auth_db \<Rightarrow> auth_db) \<Rightarrow> request_headers \<Rightarrow> string \<Rightarrow> string \<Rightarrow> string \<Rightarrow> auth_db \<Rightarrow> archive \<Rightarrow> file_reply reply" where
  "route_message_attachment env between req authz message_id index d ar =
     as_caller env between authz (\<lambda>allowed. wire_id message_id (\<lambda>mid. wire_id index (\<lambda>idx.
       bindr (resolve_message_attachment allowed mid idx ar) (\<lambda>(sha, filename).
         bindr (get_attachment_blob_info allowed sha ar) (\<lambda>info. serve_file req sha info (Inr filename) ar))))) d"

definition route_message_attachment_text ::
  "auth_env \<Rightarrow> (auth_db \<Rightarrow> auth_db) \<Rightarrow> string \<Rightarrow> string \<Rightarrow> string \<Rightarrow> string option \<Rightarrow> string option \<Rightarrow> auth_db \<Rightarrow> archive \<Rightarrow>
   char text_page reply" where
  "route_message_attachment_text env between authz message_id index offset limit d ar =
     as_caller env between authz (\<lambda>allowed. wire_id message_id (\<lambda>mid. wire_id index (\<lambda>idx.
       bindr (text_window_from_query offset limit) (\<lambda>w.
         bindr (resolve_message_attachment allowed mid idx ar) (\<lambda>(sha, _). get_attachment_text_page allowed sha w ar))))) d"

definition stream_blob ::
  "auth_env \<Rightarrow> (auth_db \<Rightarrow> auth_db) \<Rightarrow> read_env \<Rightarrow> request_headers \<Rightarrow> string \<Rightarrow> string \<Rightarrow> auth_db \<Rightarrow> archive \<Rightarrow> file_reply reply" where
  "stream_blob env between renv req authz sha d ar =
     as_caller env between authz (\<lambda>allowed.
       bindr (get_attachment_blob_info allowed sha ar)
         (\<lambda>info. serve_file req sha info (get_attachment_filename renv allowed sha ar) ar)) d"

definition attachment_text ::
  "auth_env \<Rightarrow> (auth_db \<Rightarrow> auth_db) \<Rightarrow> string \<Rightarrow> string \<Rightarrow> string option \<Rightarrow> string option \<Rightarrow> auth_db \<Rightarrow> archive \<Rightarrow> char text_page reply" where
  "attachment_text env between authz sha offset limit d ar =
     as_caller env between authz (\<lambda>allowed.
       bindr (text_window_from_query offset limit) (\<lambda>w. get_attachment_text_page allowed sha w ar)) d"

definition get_accounts ::
  "auth_env \<Rightarrow> (auth_db \<Rightarrow> auth_db) \<Rightarrow> read_env \<Rightarrow> string \<Rightarrow> auth_db \<Rightarrow> archive \<Rightarrow> account_view list reply" where
  "get_accounts env between renv authz d ar = as_caller env between authz (\<lambda>allowed. Inr (list_accounts renv allowed ar)) d"

definition get_folders ::
  "auth_env \<Rightarrow> (auth_db \<Rightarrow> auth_db) \<Rightarrow> string \<Rightarrow> string \<Rightarrow> auth_db \<Rightarrow> archive \<Rightarrow> folder_view list reply" where
  "get_folders env between authz account_id d ar =
     as_caller env between authz (\<lambda>allowed. wire_id account_id (\<lambda>aid. Inr (list_folders allowed aid ar))) d"

subsection \<open>MCP\<close>

text \<open>
  The verifier of \<open>mcp/auth.py\<close> hands over the user as the subject of an access token; an empty token is refused
  without a look-up.
\<close>

definition mcp_caller ::
  "auth_env \<Rightarrow> (string \<Rightarrow> string option) \<Rightarrow> (auth_db \<Rightarrow> auth_db) \<Rightarrow> (auth_db \<Rightarrow> auth_db) \<Rightarrow> string list \<Rightarrow> string \<Rightarrow>
   (int list \<Rightarrow> Reading.read_error + 'a) \<Rightarrow> auth_db \<Rightarrow> 'a reply" where
  "mcp_caller env canon race between accepted token f d =
     (if token = [] then NoToken
      else (case load_access env canon race (Some accepted) token d of
              (None, _) \<Rightarrow> NoToken
            | (Some t, d1) \<Rightarrow>
                (case f (allowed_account_ids (between d1) (at_subject t)) of Inl e \<Rightarrow> Refused e | Inr x \<Rightarrow> Reply x)))"

datatype attachment_answer = TextAnswer string string | MetadataAnswer string "string \<times> string option \<times> int"

text \<open>Any other mode is a \<open>ValueError\<close>, which the server reports as a refusal.\<close>

definition tool_get_attachment :: "int list \<Rightarrow> string \<Rightarrow> string \<Rightarrow> archive \<Rightarrow> Reading.read_error + attachment_answer" where
  "tool_get_attachment allowed sha mode ar =
     (if mode = ''text'' then bindr (get_attachment_text allowed sha ar) (\<lambda>t. Inr (TextAnswer sha t))
      else if mode = ''metadata'' then bindr (get_attachment_metadata allowed sha ar) (\<lambda>m. Inr (MetadataAnswer sha m))
      else Inl Reading.ValidationFailed)"

definition tool_get_message :: "read_env \<Rightarrow> int list \<Rightarrow> string \<Rightarrow> string \<Rightarrow> archive \<Rightarrow> Reading.read_error + message_view" where
  "tool_get_message renv allowed message_id headers ar =
     wire_id message_id (\<lambda>mid. get_message renv allowed mid headers False ar)"

definition tool_list_accounts :: "read_env \<Rightarrow> int list \<Rightarrow> archive \<Rightarrow> Reading.read_error + account_view list" where
  "tool_list_accounts renv allowed ar = Inr (list_accounts renv allowed ar)"

subsection \<open>Confinement\<close>

text \<open>The user a request speaks for and the accounts it may read.\<close>

definition caller_accounts :: "auth_env \<Rightarrow> (auth_db \<Rightarrow> auth_db) \<Rightarrow> string \<Rightarrow> auth_db \<Rightarrow> int list" where
  "caller_accounts env between authz d =
     (case get_authenticated_user env authz d of
        (None, _) \<Rightarrow> [] | (Some u, d1) \<Rightarrow> allowed_account_ids (between d1) (au_id u))"

lemma as_caller_cong:
  assumes "f (caller_accounts env between authz d) = g (caller_accounts env between authz d)"
  shows "as_caller env between authz f d = as_caller env between authz g d"
  using assms by (auto simp: as_caller_def caller_accounts_def split: option.splits prod.splits)

lemma wire_id_cong: "(\<And>i. f i = g i) \<Longrightarrow> wire_id s f = wire_id s g"
  by (simp add: wire_id_def split: option.splits)

lemma serve_file_granted:
  assumes "lookup_blob_row allowed sha ar = Inr info"
  shows "serve_file req sha info name (granted allowed ar) = serve_file req sha info name ar"
proof -
  obtain mime sz path where info: "info = (mime, sz, path)" by (cases info) auto
  show ?thesis
    using lookup_blob_path [OF assms [unfolded info]]
    by (simp add: serve_file_def info open_blob_file_at_def map_of_filter_keys del: set_filter)
qed

lemma resolve_granted: "resolve_message_attachment allowed mid idx (granted allowed ar) = resolve_message_attachment allowed mid idx ar"
  by (simp add: resolve_message_attachment_def find_mail_granted)

lemma file_granted:
  "bindr (get_attachment_blob_info allowed sha (granted allowed ar)) (\<lambda>info. serve_file req sha info name (granted allowed ar)) =
   bindr (get_attachment_blob_info allowed sha ar) (\<lambda>info. serve_file req sha info name ar)"
  by (cases "lookup_blob_row allowed sha ar")
     (simp_all add: get_attachment_blob_info_def lookup_blob_granted serve_file_granted)

lemmas granted_reads = get_message_granted resolve_granted file_granted text_page_granted filename_granted
  list_accounts_granted list_folders_granted

lemma raw_granted: "get_message_raw allowed mid (granted allowed ar) = get_message_raw allowed mid ar"
  by (simp add: get_message_raw_def find_mail_granted)

text \<open>
  C28. On eight read routes a request sees what its bearer was granted, from the header to the response: for one message
  and for its raw bytes, for an attachment and its text by position in the message and by hash, and for the lists of
  accounts and of folders, the reply over the whole archive is the reply over the part granted to the user of
  its token, as the grants stand when they are read. The archive is one in which a label joins a message to a mailbox of
  its own account: the schema does not say so and the query for a message's folders does not check it, but the sync,
  \<open>retry-failed\<close> and the importer keep it so (\<open>labels_stay_home\<close>). The listing, the search and the feed of changes
  have other queries and are not in this statement.
\<close>

theorem routes_are_confined:
  assumes "labels_ok ar" "mine = granted (caller_accounts env between authz d) ar"
  shows "route_detail env between renv authz mid headers external d ar = route_detail env between renv authz mid headers external d mine \<and>
    route_raw env between authz mid d ar = route_raw env between authz mid d mine \<and>
    route_message_attachment env between req authz mid index d ar = route_message_attachment env between req authz mid index d mine \<and>
    route_message_attachment_text env between authz mid index offset limit d ar =
      route_message_attachment_text env between authz mid index offset limit d mine \<and>
    stream_blob env between renv req authz sha d ar = stream_blob env between renv req authz sha d mine \<and>
    attachment_text env between authz sha offset limit d ar = attachment_text env between authz sha offset limit d mine \<and>
    get_accounts env between renv authz d ar = get_accounts env between renv authz d mine \<and>
    get_folders env between authz acct d ar = get_folders env between authz acct d mine"
  unfolding assms(2) route_detail_def route_raw_def route_message_attachment_def route_message_attachment_text_def
    stream_blob_def attachment_text_def get_accounts_def get_folders_def
  by (intro conjI as_caller_cong wire_id_cong) (simp_all add: granted_reads assms(1) raw_granted)

definition reader_db :: auth_db where "reader_db = ex_db\<lparr>grants := [(1, 20)]\<rparr>"

theorem routes_are_confined_witness:
  "route_detail (ex_env ''x'') id sample_reader ''Bearer a2'' ''1'' ''compact'' False reader_db two_accounts = Refused Reading.NotFound \<and>
   (\<exists>v. route_detail (ex_env ''x'') id sample_reader ''Bearer a2'' ''2'' ''compact'' False reader_db two_accounts = Reply v \<and> mv_id v = 2)"
proof -
  let ?r = "\<lambda>mid. route_detail (ex_env ''x'') id sample_reader ''Bearer a2'' mid ''compact'' False reader_db"
  note confined = routes_are_confined [OF two_accounts_ok refl, THEN conjunct1]
  have own: "caller_accounts (ex_env ''x'') id ''Bearer a2'' reader_db = [20]" by code_simp
  have mine: "granted [20] two_accounts = two_accounts\<lparr>ar_messages := [sample_mail 2 20 None], ar_accounts := [\<lparr>na_id = 20, na_name = ''b'', na_email = ''b''\<rparr>]\<rparr>"
    by (simp add: granted_def two_accounts_def sample_mail_def Let_def)
  have "?r ''1'' (granted [20] two_accounts) = Refused Reading.NotFound"
    "case ?r ''2'' (granted [20] two_accounts) of Reply v \<Rightarrow> mv_id v = 2 | _ \<Rightarrow> False"
    unfolding mine by code_simp+
  then show ?thesis
    using confined [of "ex_env ''x''" id sample_reader "''Bearer a2''" _ "''compact''" False reader_db] own
    by (auto split: reply.splits)
qed

text \<open>The accounts the subject of an access token may read.\<close>

definition mcp_accounts ::
  "auth_env \<Rightarrow> (string \<Rightarrow> string option) \<Rightarrow> (auth_db \<Rightarrow> auth_db) \<Rightarrow> (auth_db \<Rightarrow> auth_db) \<Rightarrow> string list \<Rightarrow> string \<Rightarrow> auth_db \<Rightarrow> int list" where
  "mcp_accounts env canon race between accepted token d =
     (case load_access env canon race (Some accepted) token d of
        (None, _) \<Rightarrow> [] | (Some t, d1) \<Rightarrow> allowed_account_ids (between d1) (at_subject t))"

lemma mcp_caller_cong:
  assumes "f (mcp_accounts env canon race between accepted token d) = g (mcp_accounts env canon race between accepted token d)"
  shows "mcp_caller env canon race between accepted token f d = mcp_caller env canon race between accepted token g d"
  using assms by (auto simp: mcp_caller_def mcp_accounts_def split: option.splits prod.splits)

lemma tool_attachment_granted: "tool_get_attachment allowed sha mode (granted allowed ar) = tool_get_attachment allowed sha mode ar"
  by (simp add: tool_get_attachment_def get_attachment_text_def get_attachment_metadata_def text_page_granted lookup_blob_granted)

text \<open>
  The same over MCP: whichever reading tool an agent calls, the reply over the whole archive is the reply over the
  part granted to the subject of its access token.
\<close>

theorem tools_are_confined:
  assumes "labels_ok ar" "mine = granted (mcp_accounts env canon race between accepted token d) ar"
  shows "mcp_caller env canon race between accepted token (\<lambda>allowed. tool_get_message renv allowed mid headers ar) d =
      mcp_caller env canon race between accepted token (\<lambda>allowed. tool_get_message renv allowed mid headers mine) d \<and>
    mcp_caller env canon race between accepted token (\<lambda>allowed. tool_get_attachment allowed sha mode ar) d =
      mcp_caller env canon race between accepted token (\<lambda>allowed. tool_get_attachment allowed sha mode mine) d \<and>
    mcp_caller env canon race between accepted token (\<lambda>allowed. tool_list_accounts renv allowed ar) d =
      mcp_caller env canon race between accepted token (\<lambda>allowed. tool_list_accounts renv allowed mine) d"
  unfolding assms(2)
  by (intro conjI mcp_caller_cong)
     (simp_all add: tool_get_message_def tool_list_accounts_def granted_reads assms(1) tool_attachment_granted)

theorem tools_are_confined_witness:
  "mcp_caller (ex_env ''x'') Some id id [''res''] ''a2'' (\<lambda>allowed. tool_get_message sample_reader allowed ''1'' ''compact'' two_accounts) reader_db =
     Refused Reading.NotFound"
proof -
  have own: "mcp_accounts (ex_env ''x'') Some id id [''res''] ''a2'' reader_db = [20]" by code_simp
  have mine: "granted [20] two_accounts = two_accounts\<lparr>ar_messages := [sample_mail 2 20 None], ar_accounts := [\<lparr>na_id = 20, na_name = ''b'', na_email = ''b''\<rparr>]\<rparr>"
    by (simp add: granted_def two_accounts_def sample_mail_def Let_def)
  have "mcp_caller (ex_env ''x'') Some id id [''res''] ''a2''
      (\<lambda>allowed. tool_get_message sample_reader allowed ''1'' ''compact'' (granted [20] two_accounts)) reader_db = Refused Reading.NotFound"
    unfolding mine by code_simp
  then show ?thesis
    using tools_are_confined [OF two_accounts_ok refl, THEN conjunct1, of "ex_env ''x''" Some id id "[''res'']" "''a2''" sample_reader "''1''" "''compact''" reader_db] own
    by simp
qed

subsection \<open>Revocation reaches the reader\<close>

lemma verify_token_grants: "verify_token env token d = (r, d') \<Longrightarrow> grants d' = grants d"
  by (auto simp: verify_token_def split: option.splits)

lemma find_mail_other: "distinct (map sm_id (ar_messages ar)) \<Longrightarrow> m \<in> set (ar_messages ar) \<Longrightarrow> sm_account m \<notin> set allowed \<Longrightarrow>
    find_mail allowed (sm_id m) ar = None"
  by (auto simp: find_mail_def find_None_iff distinct_map dest: inj_onD)

text \<open>
  Revoking an account takes effect with the next request: once the grant is gone, and until another session grants
  it again, a message of the account is answered as absent, its bytes and its attachments too, and
  the account has no folders, whoever the token belongs to and however long ago it was issued.
\<close>

theorem revoked_account_is_unreadable:
  assumes "d' = snd (revoke_account uid (sm_account m) d)" "get_authenticated_user env authz d' = (Some u, d1)" "au_id u = uid"
    and "(uid, sm_account m) \<notin> set (grants d1) \<Longrightarrow> (uid, sm_account m) \<notin> set (grants (between d1))"
    and "distinct (map sm_id (ar_messages ar))" "m \<in> set (ar_messages ar)" "parse_int_id mid = Some (sm_id m)"
    and "parse_int_id acct = Some (sm_account m)" "headers \<in> {''compact'', ''full'', ''list''}" "parse_int_id index = Some (int i)"
  shows "route_detail env between renv authz mid headers external d' ar = Refused Reading.NotFound \<and>
    route_raw env between authz mid d' ar = Refused Reading.NotFound \<and>
    route_message_attachment env between req authz mid index d' ar = Refused Reading.NotFound \<and>
    get_folders env between authz acct d' ar = Reply []"
proof -
  have "grants d1 = grants d'"
    using assms(2) verify_token_grants by (auto simp: get_authenticated_user_def split: if_splits)
  moreover have "(uid, sm_account m) \<notin> set (grants d')" by (simp add: assms(1) revoke_account_def)
  ultimately have gone: "sm_account m \<notin> set (allowed_account_ids (between d1) uid)"
    using assms(4) by (auto simp: allowed_account_ids_def)
  note none = find_mail_other [OF assms(5,6) gone]
  have call: "as_caller env between authz f d' =
      (case f (allowed_account_ids (between d1) uid) of Inl e \<Rightarrow> Refused e | Inr x \<Rightarrow> Reply x)" for f :: "int list \<Rightarrow> Reading.read_error + 'x"
    using assms(2,3) by (simp add: as_caller_def)
  show ?thesis
    using none gone assms(7-10)
    by (auto simp: route_detail_def route_raw_def route_message_attachment_def get_folders_def call wire_id_def get_message_def
        get_message_raw_def resolve_message_attachment_def header_mode_error_def list_folders_def)
qed

theorem revoked_account_is_unreadable_witness:
  "route_raw (ex_env ''x'') id ''Bearer a2'' ''2'' (snd (revoke_account 1 20 reader_db)) two_accounts = Refused Reading.NotFound \<and>
   route_raw (ex_env ''x'') id ''Bearer a2'' ''2'' reader_db two_accounts = Reply (sm_raw (sample_mail 2 20 None))"
proof
  let ?d = "snd (revoke_account 1 20 reader_db)"
  have "case get_authenticated_user (ex_env ''x'') ''Bearer a2'' ?d of (Some u, d1) \<Rightarrow> au_id u = 1 | _ \<Rightarrow> False" by code_simp
  then obtain u d1 where u: "get_authenticated_user (ex_env ''x'') ''Bearer a2'' ?d = (Some u, d1)" "au_id u = 1"
    by (auto split: prod.splits option.splits)
  have ids: "distinct (map sm_id (ar_messages two_accounts))" "sample_mail 2 20 None \<in> set (ar_messages two_accounts)"
    by (simp_all add: two_accounts_def sample_mail_def)
  have p: "parse_int_id ''2'' = Some 2" "parse_int_id ''20'' = Some 20" "parse_int_id ''0'' = Some 0" by code_simp+
  from revoked_account_is_unreadable [of ?d 1 "sample_mail 2 20 None" reader_db "ex_env ''x''" "''Bearer a2''" u d1 id two_accounts "''2''" "''20''" "''compact''" "''0''" 0] u ids p
  show "route_raw (ex_env ''x'') id ''Bearer a2'' ''2'' ?d two_accounts = Refused Reading.NotFound" by (simp add: sample_mail_def)
  show "route_raw (ex_env ''x'') id ''Bearer a2'' ''2'' reader_db two_accounts = Reply (sm_raw (sample_mail 2 20 None))" by code_simp
qed

end
