(* ===== verification/Changes.thy ===== *)
theory Changes
  imports HttpBlob
begin

text \<open>
  The feed of new messages (\<open>serve/routes/changes.py\<close>): a poll returns the messages above a cursor that are older
  than a horizon, a subscription keeps the cursor on the server, an acknowledgement moves it forward.

  A message row carries its \<open>date_received\<close>, which is the start of the transaction that inserted it. Cursors travel
  as decimal text. \<open>others\<close> is what other sessions commit while a first poll makes up its mind.
\<close>

subsection \<open>Tables\<close>

record feed_row =
  fr_id :: int
  fr_account :: int
  fr_received :: instant
  fr_internal_date :: "instant option"
  fr_date_sent :: "instant option"

record feed_db =
  fd_messages :: "feed_row list"
  fd_subs :: "((int \<times> string) \<times> int) list"

record feed_env =
  fe_now :: instant
  fe_later :: instant
  fe_horizon :: int
  fe_cap :: nat

text \<open>Both refusals are a \<open>ValidationFailed\<close>.\<close>

datatype feed_error = BadRequest

definition feed_limit :: nat where "feed_limit = 200"

definition max_subscription_name :: nat where "max_subscription_name = 64"

text \<open>\<open>re.match\<close> with \<open>^[A-Za-z0-9_-]+$\<close>: the dollar also matches before a final line feed.\<close>

definition name_char :: "char \<Rightarrow> bool" where
  "name_char c \<longleftrightarrow> (let n = ord c in 65 \<le> n \<and> n \<le> 90 \<or> 97 \<le> n \<and> n \<le> 122 \<or> 48 \<le> n \<and> n \<le> 57 \<or> n = 95 \<or> n = 45)"

definition name_matches :: "string \<Rightarrow> bool" where
  "name_matches name \<longleftrightarrow>
     name \<noteq> [] \<and> list_all name_char name \<or>
     name \<noteq> [] \<and> last name = CHR 0x0A \<and> butlast name \<noteq> [] \<and> list_all name_char (butlast name)"

definition validate_subscription_name :: "string \<Rightarrow> feed_error + string" where
  "validate_subscription_name name =
     (if name = [] \<or> max_subscription_name < length name \<or> \<not> name_matches name then Inl BadRequest else Inr name)"

definition subscription_cursor :: "int \<Rightarrow> string \<Rightarrow> feed_db \<Rightarrow> int option" where
  "subscription_cursor uid name d = map_of (fd_subs d) (uid, name)"

text \<open>\<open>COALESCE(MAX(id), 0)\<close>.\<close>

definition max_id :: "feed_row list \<Rightarrow> int" where
  "max_id rows = (case rows of [] \<Rightarrow> 0 | r # rs \<Rightarrow> foldr (\<lambda>r m. max (fr_id r) m) rs (fr_id r))"

definition visible_row :: "int \<Rightarrow> instant \<Rightarrow> int list \<Rightarrow> feed_row \<Rightarrow> bool" where
  "visible_row horizon now allowed r \<longleftrightarrow> fr_received r < now - horizon \<and> fr_account r \<in> set allowed"

definition current_tip :: "int \<Rightarrow> instant \<Rightarrow> int list \<Rightarrow> feed_db \<Rightarrow> int" where
  "current_tip horizon now allowed d = max_id (filter (visible_row horizon now allowed) (fd_messages d))"

definition max_message_id :: "feed_db \<Rightarrow> int" where
  "max_message_id d = max_id (fd_messages d)"

text \<open>\<open>INSERT ... ON CONFLICT DO NOTHING RETURNING\<close>: whether this call made the row.\<close>

definition claim_subscription :: "int \<Rightarrow> string \<Rightarrow> int \<Rightarrow> feed_db \<Rightarrow> bool \<times> feed_db" where
  "claim_subscription uid name cur d =
     (if subscription_cursor uid name d = None then (True, d\<lparr>fd_subs := fd_subs d @ [((uid, name), cur)]\<rparr>) else (False, d))"

definition over_cap :: "nat \<Rightarrow> int \<Rightarrow> feed_db \<Rightarrow> bool" where
  "over_cap cap uid d \<longleftrightarrow> cap \<le> length (filter (\<lambda>s. fst (fst s) = uid) (fd_subs d))"

subsection \<open>Polling\<close>

definition initial_page :: "int \<Rightarrow> instant \<Rightarrow> int list \<Rightarrow> feed_row list \<Rightarrow> feed_row list" where
  "initial_page horizon now allowed rows =
     (let date = (\<lambda>r. case fr_internal_date r of None \<Rightarrow> fr_date_sent r | Some t \<Rightarrow> Some t);
          by_id = sort_key (\<lambda>r. - fr_id r) (filter (visible_row horizon now allowed) rows)
      in take feed_limit (sort_key (\<lambda>r. - the (date r)) (filter (\<lambda>r. date r \<noteq> None) by_id) @ filter (\<lambda>r. date r = None) by_id))"

definition newer_page :: "int \<Rightarrow> instant \<Rightarrow> int list \<Rightarrow> int \<Rightarrow> feed_row list \<Rightarrow> feed_row list" where
  "newer_page horizon now allowed since rows =
     take feed_limit (sort_key fr_id (filter (\<lambda>r. since < fr_id r \<and> visible_row horizon now allowed r) rows))"

text \<open>The page with its cursor: \<open>str(max_id) if max_id else fallback_cursor\<close>, with \<open>max_id\<close> starting from 0.\<close>

definition feed_reply :: "string \<Rightarrow> feed_row list \<Rightarrow> feed_row list \<times> string" where
  "feed_reply fallback rows =
     (let m = foldr (\<lambda>r m. max (fr_id r) m) rows 0 in (rows, if m \<noteq> 0 then int_str m else fallback))"

definition page_since ::
  "feed_env \<Rightarrow> instant \<Rightarrow> int list \<Rightarrow> string \<Rightarrow> int option \<Rightarrow> feed_db \<Rightarrow> feed_row list \<times> string" where
  "page_since env now allowed fallback since d =
     (case since of
        None \<Rightarrow> feed_reply fallback (initial_page (fe_horizon env) now allowed (fd_messages d))
      | Some s \<Rightarrow> feed_reply (int_str s) (newer_page (fe_horizon env) now allowed s (fd_messages d)))"

definition changes ::
  "feed_env \<Rightarrow> (feed_db \<Rightarrow> feed_db) \<Rightarrow> int \<Rightarrow> int list \<Rightarrow> string option \<Rightarrow> string option \<Rightarrow> feed_db \<Rightarrow>
   (feed_error + feed_row list \<times> string) \<times> feed_db" where
  "changes env others uid allowed since subscription d =
     (if subscription \<noteq> None \<and> since \<noteq> None then (Inl BadRequest, d)
      else
        (case (case subscription of None \<Rightarrow> Inr None | Some s \<Rightarrow> map_sum id Some (validate_subscription_name s)) of
           Inl e \<Rightarrow> (Inl e, d)
         | Inr name \<Rightarrow>
             (case (case since of None \<Rightarrow> Some None | Some s \<Rightarrow> map_option Some (parse_int_id s)) of
                None \<Rightarrow> (Inl BadRequest, d)
              | Some since_id \<Rightarrow>
                  let fallback = (case since of None \<Rightarrow> ''0'' | Some s \<Rightarrow> s)
                  in if allowed = [] then (Inr ([], fallback), d)
                     else (case name of
                             None \<Rightarrow> (Inr (page_since env (fe_now env) allowed fallback since_id d), d)
                           | Some n \<Rightarrow>
                               (case subscription_cursor uid n d of
                                  Some c \<Rightarrow> (Inr (page_since env (fe_now env) allowed fallback (Some c) d), d)
                                | None \<Rightarrow>
                                    if over_cap (fe_cap env) uid d then (Inl BadRequest, d)
                                    else
                                      (let tip = current_tip (fe_horizon env) (fe_now env) allowed d
                                       in (case claim_subscription uid n tip (others d) of
                                             (True, d1) \<Rightarrow> (Inr ([], int_str tip), d1)
                                           | (False, d1) \<Rightarrow>
                                               (Inr (page_since env (fe_later env) allowed fallback
                                                  (Some (case subscription_cursor uid n d1 of None \<Rightarrow> tip | Some c \<Rightarrow> c)) d1), d1))))))))"

subsection \<open>Acknowledging\<close>

text \<open>\<open>ON CONFLICT DO UPDATE SET cursor = GREATEST(...)\<close>.\<close>

definition store_ack :: "int \<Rightarrow> string \<Rightarrow> int \<Rightarrow> feed_db \<Rightarrow> feed_db" where
  "store_ack uid name cur d =
     (case subscription_cursor uid name d of
        None \<Rightarrow> d\<lparr>fd_subs := fd_subs d @ [((uid, name), cur)]\<rparr>
      | Some c \<Rightarrow> d\<lparr>fd_subs := map (\<lambda>s. if fst s = (uid, name) then (fst s, max c cur) else s) (fd_subs d)\<rparr>)"

definition ack :: "feed_env \<Rightarrow> int \<Rightarrow> string \<Rightarrow> string \<Rightarrow> feed_db \<Rightarrow> (feed_error + unit) \<times> feed_db" where
  "ack env uid subscription cursor d =
     (case validate_subscription_name subscription of
        Inl e \<Rightarrow> (Inl e, d)
      | Inr name \<Rightarrow>
          (case parse_int_id cursor of
             None \<Rightarrow> (Inl BadRequest, d)
           | Some c \<Rightarrow>
               if max_message_id d < c then (Inl BadRequest, d)
               else if subscription_cursor uid name d = None \<and> over_cap (fe_cap env) uid d then (Inl BadRequest, d)
               else (Inr (), store_ack uid name c d)))"

end
