(* ===== verification/ChangesSafety.thy ===== *)
theory ChangesSafety
  imports Changes
begin

text \<open>
  What the feed promises to a client that polls, processes and acknowledges: no granted message is skipped and none
  repeated, if messages commit within the horizon and ids follow the starts of the transactions. The second
  condition is not one the database gives, and without it a message can be lost for good.
\<close>

subsection \<open>Cursors as text\<close>

lemma parse_int_id_nat_str:
  assumes "length (nat_str n) \<le> max_str_digits"
  shows "parse_int_id (nat_str n) = Some (int n)"
proof -
  have "isascii (nat_str n)" "str_isdigit (nat_str n)"
    using nat_str_decimal [of n] nat_str_nonempty [of n]
    by (auto simp: isascii_def str_isdigit_def isdigit_char_def is_decimal_def list_all_iff)
  with assms show ?thesis by (simp add: parse_int_id_def py_int_nat_str nat_str_nonempty)
qed

text \<open>The ids of a \<open>BIGINT\<close> column.\<close>

definition bigint :: "int \<Rightarrow> bool" where
  "bigint i \<longleftrightarrow> 0 \<le> i \<and> i < 2 ^ 63"

lemma parse_cursor: "bigint i \<Longrightarrow> parse_int_id (int_str i) = Some i"
proof -
  assume b: "bigint i"
  have "nat i < 2 ^ 63" using b by (simp add: bigint_def nat_less_iff)
  also have "(2 :: nat) ^ 63 \<le> 10 ^ 19" by simp
  also have "(10 :: nat) ^ 19 \<le> 10 ^ max_str_digits" by (rule power_increasing) (simp_all add: max_str_digits_def)
  finally have "length (nat_str (nat i)) \<le> max_str_digits" by (rule length_nat_str [rotated]) (simp add: max_str_digits_def)
  with b parse_int_id_nat_str show ?thesis by (simp add: int_str_def bigint_def)
qed

subsection \<open>Pages\<close>

lemma foldr_max_upper: "r \<in> set rows \<Longrightarrow> fr_id r \<le> foldr (\<lambda>r m. max (fr_id r) m) rows z"
  by (induction rows) auto

lemma max_id_upper: "r \<in> set rows \<Longrightarrow> fr_id r \<le> max_id rows"
proof -
  have "z \<le> foldr (\<lambda>r m. max (fr_id r) m) rs z" for rs z by (induction rs) auto
  then show "r \<in> set rows \<Longrightarrow> fr_id r \<le> max_id rows"
    by (cases rows) (auto simp: max_id_def foldr_max_upper)
qed

lemma foldr_max_last:
  "rows \<noteq> [] \<Longrightarrow> sorted (map fr_id rows) \<Longrightarrow> 0 \<le> fr_id (hd rows) \<Longrightarrow> foldr (\<lambda>r m. max (fr_id r) m) rows 0 = fr_id (last rows)"
proof (induction rows)
  case (Cons r rows)
  then show ?case by (cases rows) (auto simp: max_def)
qed simp

lemma sorted_last: "sorted (map f xs) \<Longrightarrow> r \<in> set xs \<Longrightarrow> f r \<le> (f (last xs) :: int)"
  by (induction xs) auto

text \<open>A prefix of a list with increasing ids has every element up to its last id.\<close>

lemma take_upto_last:
  assumes "sorted (map fr_id P)" "distinct (map fr_id P)" "take n P \<noteq> []" "r \<in> set P" "fr_id r \<le> fr_id (last (take n P))"
  shows "r \<in> set (take n P)"
proof (rule ccontr)
  assume no: "r \<notin> set (take n P)"
  have P: "P = take n P @ drop n P" by simp
  with assms(4) no have r: "r \<in> set (drop n P)" by (metis Un_iff set_append)
  have "last (take n P) \<in> set (take n P)" using assms(3) by (rule last_in_set)
  moreover have "sorted (map fr_id (take n P) @ map fr_id (drop n P))" "distinct (map fr_id (take n P) @ map fr_id (drop n P))"
    using assms(1,2) by (simp_all flip: map_append)
  ultimately show False using r assms(5) by (fastforce simp: sorted_append)
qed

definition committed_at :: "instant \<Rightarrow> (feed_row \<times> instant) list \<Rightarrow> feed_row list" where
  "committed_at t hist = map fst (filter (\<lambda>(r, c). c \<le> t) hist)"

text \<open>The granted messages with ids in a range, in the order of their ids.\<close>

definition between_ids :: "int list \<Rightarrow> int \<Rightarrow> int \<Rightarrow> (feed_row \<times> instant) list \<Rightarrow> feed_row list" where
  "between_ids allowed lo hi hist =
     sort_key fr_id (filter (\<lambda>r. lo < fr_id r \<and> fr_id r \<le> hi \<and> fr_account r \<in> set allowed) (map fst hist))"

text \<open>
  What is assumed of the inserting transactions: ids are distinct, every message is committed within the horizon
  of the start of its transaction, and ids follow those starts.
\<close>

definition timely :: "int \<Rightarrow> (feed_row \<times> instant) list \<Rightarrow> bool" where
  "timely horizon hist \<longleftrightarrow> distinct (map (fr_id \<circ> fst) hist) \<and> (\<forall>(r, c) \<in> set hist. bigint (fr_id r) \<and> c \<le> fr_received r + horizon)"

definition ids_follow_starts :: "(feed_row \<times> instant) list \<Rightarrow> bool" where
  "ids_follow_starts hist \<longleftrightarrow> (\<forall>(r, c) \<in> set hist. \<forall>(s, e) \<in> set hist. fr_id r < fr_id s \<longrightarrow> fr_received r \<le> fr_received s)"

lemma timely_distinct: "timely horizon hist \<Longrightarrow> distinct (map fr_id (map fst hist))"
  by (simp add: timely_def)

lemma distinct_committed: "timely horizon hist \<Longrightarrow> distinct (map fr_id (committed_at t hist))"
  by (simp add: timely_def committed_at_def distinct_map_filter)

lemma between_sorted: "sorted (map fr_id (between_ids allowed lo hi hist))"
  by (simp add: between_ids_def)

lemma between_set:
  "set (between_ids allowed lo hi hist) = {r \<in> fst ` set hist. lo < fr_id r \<and> fr_id r \<le> hi \<and> fr_account r \<in> set allowed}"
  by (auto simp: between_ids_def)

lemma between_distinct: "timely horizon hist \<Longrightarrow> distinct (map fr_id (between_ids allowed lo hi hist))"
proof -
  assume "timely horizon hist"
  then have "distinct (map fr_id (filter P (map fst hist)))" for P by (intro distinct_map_filter timely_distinct)
  then show ?thesis by (simp add: between_ids_def distinct_map)
qed

lemma inj_ids: "timely horizon hist \<Longrightarrow> inj_on fr_id (fst ` set hist)"
  using timely_distinct [of horizon hist] by (simp only: distinct_map list.set_map)

lemma rows_unique:
  assumes "timely horizon hist" "set xs = set ys" "set xs \<subseteq> fst ` set hist"
    and "sorted (map fr_id xs)" "distinct (map fr_id xs)" "sorted (map fr_id ys)" "distinct (map fr_id ys)"
  shows "xs = ys"
proof -
  have "inj_on fr_id (set xs \<union> set ys)" using inj_ids [OF assms(1)] assms(2,3) by (auto intro: inj_on_subset)
  with assms show ?thesis by (intro map_sorted_distinct_set_unique [of fr_id]) auto
qed

lemma between_join:
  assumes "timely horizon hist" "lo \<le> mid" "mid \<le> hi"
  shows "between_ids allowed lo mid hist @ between_ids allowed mid hi hist = between_ids allowed lo hi hist"
proof (rule rows_unique [OF assms(1)])
  let ?a = "between_ids allowed lo mid hist" and ?b = "between_ids allowed mid hi hist"
  have le: "\<forall>r \<in> set ?a. fr_id r \<le> mid" "\<forall>r \<in> set ?b. mid < fr_id r" by (auto simp: between_set)
  show "set (?a @ ?b) = set (between_ids allowed lo hi hist)" using assms(2,3) by (auto simp: between_set)
  show "set (?a @ ?b) \<subseteq> fst ` set hist" by (auto simp: between_set)
  show "sorted (map fr_id (?a @ ?b))" using between_sorted le by (fastforce simp: sorted_append)
  show "distinct (map fr_id (?a @ ?b))" using between_distinct [OF assms(1)] le by fastforce
qed (use between_sorted between_distinct assms(1) in auto)

lemma newer_page_exact:
  assumes "timely horizon hist" "ids_follow_starts hist"
    and "page = newer_page horizon t allowed lo (committed_at t hist)" "page \<noteq> []"
  shows "page = between_ids allowed lo (fr_id (last page)) hist"
proof (rule rows_unique [OF assms(1)])
  let ?P = "sort_key fr_id (filter (\<lambda>r. lo < fr_id r \<and> visible_row horizon t allowed r) (committed_at t hist))"
  have page: "page = take feed_limit ?P" using assms(3) by (simp add: newer_page_def)
  have dist: "distinct (map fr_id ?P)"
    using distinct_map_filter [OF distinct_committed [OF assms(1)]] by (simp add: distinct_map)
  have sort: "sorted (map fr_id ?P)" by simp
  then show "sorted (map fr_id page)" unfolding page take_map [symmetric] by (rule sorted_wrt_take)
  show "distinct (map fr_id page)" using dist unfolding page take_map [symmetric] by (rule distinct_take)
  have last: "last page \<in> set page" using assms(4) by (rule last_in_set)
  then have vis: "fr_received (last page) < t - horizon" "last page \<in> fst ` set hist"
    by (auto simp: page visible_row_def committed_at_def dest!: in_set_takeD)
  show sub: "set page \<subseteq> fst ` set hist"
    by (auto simp: page committed_at_def dest!: in_set_takeD)
  show "set page = set (between_ids allowed lo (fr_id (last page)) hist)"
  proof (intro equalityI subsetI)
    fix r assume r: "r \<in> set page"
    then have "r \<in> set ?P" by (auto simp: page dest: in_set_takeD)
    moreover have "fr_id r \<le> fr_id (last page)"
      using \<open>sorted (map fr_id page)\<close> r
      by (intro sorted_last)
    ultimately show "r \<in> set (between_ids allowed lo (fr_id (last page)) hist)"
      using r sub by (auto simp: between_set visible_row_def)
  next
    fix r assume r: "r \<in> set (between_ids allowed lo (fr_id (last page)) hist)"
    then obtain c where c: "(r, c) \<in> set hist" by (auto simp: between_set)
    from vis(2) obtain e where e: "(last page, e) \<in> set hist" by auto
    have "fr_received r \<le> fr_received (last page)"
    proof (cases "fr_id r < fr_id (last page)")
      case True
      with assms(2) c e show ?thesis by (fastforce simp: ids_follow_starts_def)
    next
      case False
      with r have "fr_id r = fr_id (last page)" by (simp add: between_set)
      with c e inj_ids [OF assms(1)] have "r = last page" by (metis fst_conv image_eqI inj_onD)
      then show ?thesis by simp
    qed
    with vis have rec: "fr_received r < t - horizon" by simp
    moreover have "c \<le> fr_received r + horizon" using assms(1) c by (auto simp: timely_def)
    ultimately have "r \<in> set (committed_at t hist)" using c by (force simp: committed_at_def)
    with rec r have "r \<in> set ?P" by (simp add: between_set visible_row_def)
    moreover have "fr_id r \<le> fr_id (last (take feed_limit ?P))" using r by (simp add: between_set flip: page)
    ultimately show "r \<in> set page" using take_upto_last [OF sort dist] assms(4) by (simp add: page)
  qed
qed (use between_sorted between_distinct assms(1) in auto)

subsection \<open>The client\<close>

text \<open>
  A client keeps nothing: it polls its subscription, processes the page and acknowledges the cursor it came with.
  \<open>follow_feed\<close> does so once for each of the given moments, over the messages committed by then.
\<close>

definition poll_and_ack ::
  "feed_env \<Rightarrow> int \<Rightarrow> int list \<Rightarrow> string \<Rightarrow> feed_db \<Rightarrow> feed_row list \<times> feed_db" where
  "poll_and_ack env uid allowed name d =
     (case changes env id uid allowed None (Some name) d of
        (Inl _, d1) \<Rightarrow> ([], d1)
      | (Inr (rows, cursor), d1) \<Rightarrow> (rows, snd (ack env uid name cursor d1)))"

fun follow_feed ::
  "feed_env list \<Rightarrow> (feed_row \<times> instant) list \<Rightarrow> int \<Rightarrow> int list \<Rightarrow> string \<Rightarrow> ((int \<times> string) \<times> int) list \<Rightarrow>
   feed_row list \<times> ((int \<times> string) \<times> int) list" where
  "follow_feed [] hist uid allowed name subs = ([], subs)"
| "follow_feed (env # envs) hist uid allowed name subs =
     (let (rows, d) = poll_and_ack env uid allowed name \<lparr>fd_messages = committed_at (fe_now env) hist, fd_subs = subs\<rparr>;
          (rest, subs') = follow_feed envs hist uid allowed name (fd_subs d)
      in (rows @ rest, subs'))"

lemma cursor_store_ack:
  "subscription_cursor uid name d = Some c \<Longrightarrow> subscription_cursor uid name (store_ack uid name cur d) = Some (max c cur)"
proof -
  have "map_of xs k = Some c \<Longrightarrow> map_of (map (\<lambda>s. if fst s = k then (fst s, max c cur) else s) xs) k = Some (max c cur)" for xs :: "((int \<times> string) \<times> int) list" and k
    by (induction xs) auto
  moreover have "map (\<lambda>s. if fst s = k then (fst s, max (snd s) cur) else s) xs = map (\<lambda>s. if fst s = k then (fst s, max (snd s) cur) else s) xs" for xs :: "((int \<times> string) \<times> int) list" and k ..
  ultimately show "subscription_cursor uid name d = Some c \<Longrightarrow> ?thesis"
    by (simp add: store_ack_def subscription_cursor_def)
qed

definition cursor_after :: "int \<Rightarrow> feed_row list \<Rightarrow> int" where
  "cursor_after c page = (if page = [] then c else fr_id (last page))"

lemma poll_and_ack_exact:
  assumes "timely (fe_horizon env) hist" "validate_subscription_name name = Inr name" "allowed \<noteq> []"
    and "d = \<lparr>fd_messages = committed_at (fe_now env) hist, fd_subs = subs\<rparr>" "map_of subs (uid, name) = Some c" "bigint c"
    and "page = newer_page (fe_horizon env) (fe_now env) allowed c (committed_at (fe_now env) hist)"
  shows "\<exists>d'. poll_and_ack env uid allowed name d = (page, d') \<and> map_of (fd_subs d') (uid, name) = Some (cursor_after c page)"
proof -
  let ?m = "foldr (\<lambda>r m. max (fr_id r) m) page 0"
  have cur: "subscription_cursor uid name d = Some c" using assms(4,5) by (simp add: subscription_cursor_def)
  have mem: "set page \<subseteq> set (committed_at (fe_now env) hist)" "\<forall>r \<in> set page. c < fr_id r"
    by (auto simp: assms(7) newer_page_def dest!: in_set_takeD)
  have sort: "sorted (map fr_id page)"
    unfolding assms(7) newer_page_def take_map [symmetric] by (rule sorted_wrt_take) simp
  have pos: "0 \<le> c" using assms(6) by (simp add: bigint_def)
  have poll: "changes env id uid allowed None (Some name) d = (Inr (page, int_str (cursor_after c page)), d)"
  proof (cases "page = []")
    case True
    then show ?thesis using assms(2-4,7) cur
      by (simp add: changes_def page_since_def feed_reply_def cursor_after_def)
  next
    case False
    then have hd: "0 \<le> fr_id (hd page)" "c < fr_id (last page)" using mem pos hd_in_set [OF False] last_in_set [OF False] by fastforce+
    then have "?m = fr_id (last page)" using foldr_max_last [OF False sort] by simp
    with hd pos False assms(2-4,7) cur show ?thesis
      by (auto simp: changes_def page_since_def feed_reply_def cursor_after_def Let_def)
  qed
  have "bigint (cursor_after c page)"
  proof (cases "page = []")
    case False
    then have "last page \<in> set (committed_at (fe_now env) hist)" using mem by auto
    with assms(1) False show ?thesis by (auto simp: cursor_after_def timely_def committed_at_def)
  qed (use assms(6) in \<open>simp add: cursor_after_def\<close>)
  then have parse: "parse_int_id (int_str (cursor_after c page)) = Some (cursor_after c page)" by (rule parse_cursor)
  have grow: "c \<le> cursor_after c page" using mem by (auto simp: cursor_after_def intro: less_imp_le)
  have within: "cursor_after c page \<le> max_message_id d" if "page \<noteq> []"
    using max_id_upper [OF subsetD [OF mem(1) last_in_set [OF that]]] that
    by (simp add: cursor_after_def max_message_id_def assms(4))
  show ?thesis
  proof (cases "max_message_id d < cursor_after c page")
    case True
    then have "page = []" using within by force
    with True show ?thesis using assms(4,5) poll parse
      by (simp add: poll_and_ack_def ack_def assms(2) cursor_after_def)
  next
    case False
    then have "snd (ack env uid name (int_str (cursor_after c page)) d) = store_ack uid name (cursor_after c page) d"
      using parse cur by (simp add: ack_def assms(2))
    moreover have "subscription_cursor uid name (store_ack uid name (cursor_after c page) d) = Some (cursor_after c page)"
      using cursor_store_ack [OF cur] grow by (simp add: max_def)
    ultimately show ?thesis using poll by (simp add: poll_and_ack_def subscription_cursor_def)
  qed
qed

lemma cursor_after_big: "timely h hist \<Longrightarrow> set page \<subseteq> fst ` set hist \<Longrightarrow> bigint c \<Longrightarrow> bigint (cursor_after c page)"
  by (cases "page = []") (auto simp: cursor_after_def timely_def dest!: subsetD [of _ _ "last page"])

lemma page_step:
  assumes "timely h hist" "ids_follow_starts hist" "page = newer_page h t allowed c (committed_at t hist)"
  shows "page = between_ids allowed c (cursor_after c page) hist" "c \<le> cursor_after c page"
proof -
  show "page = between_ids allowed c (cursor_after c page) hist"
    using newer_page_exact [OF assms(1-3)] by (cases "page = []") (auto simp: cursor_after_def between_ids_def)
  have "\<forall>r \<in> set page. c < fr_id r" by (auto simp: assms(3) newer_page_def dest!: in_set_takeD)
  then show "c \<le> cursor_after c page" by (auto simp: cursor_after_def intro: less_imp_le)
qed

lemma follow_exact:
  assumes "timely h hist" "ids_follow_starts hist" "validate_subscription_name name = Inr name" "allowed \<noteq> []"
    and "\<forall>env \<in> set envs. fe_horizon env = h" "map_of subs (uid, name) = Some c" "bigint c"
    and "follow_feed envs hist uid allowed name subs = (delivered, subs')"
  shows "\<exists>c'. map_of subs' (uid, name) = Some c' \<and> c \<le> c' \<and> delivered = between_ids allowed c c' hist"
  using assms(5-)
proof (induction envs arbitrary: subs c delivered)
  case Nil
  have "between_ids allowed c c hist = []" by (auto simp: between_ids_def filter_empty_conv)
  with Nil show ?case by auto
next
  case (Cons env envs)
  let ?d = "\<lparr>fd_messages = committed_at (fe_now env) hist, fd_subs = subs\<rparr>"
  define page where "page = newer_page h (fe_now env) allowed c (committed_at (fe_now env) hist)"
  have h: "fe_horizon env = h" using Cons.prems(1) by simp
  obtain d1 where d1: "poll_and_ack env uid allowed name ?d = (page, d1)" "map_of (fd_subs d1) (uid, name) = Some (cursor_after c page)"
    using poll_and_ack_exact [of env hist name allowed ?d subs uid c page] assms(1,3,4) Cons.prems(2,3) h page_def by auto
  obtain rest where rest: "follow_feed envs hist uid allowed name (fd_subs d1) = (rest, subs')" "delivered = page @ rest"
    using Cons.prems(4) d1(1) by (auto simp: Let_def split: prod.splits)
  note step = page_step [OF assms(1,2) page_def]
  have "set page \<subseteq> fst ` set hist" by (subst step(1)) (auto simp: between_set)
  then have big: "bigint (cursor_after c page)" by (rule cursor_after_big [OF assms(1) _ Cons.prems(3)])
  obtain c' where c': "map_of subs' (uid, name) = Some c'" "cursor_after c page \<le> c'"
      "rest = between_ids allowed (cursor_after c page) c' hist"
    using Cons.IH [OF _ d1(2) big rest(1)] Cons.prems(1) by auto
  have "page @ rest = between_ids allowed c (cursor_after c page) hist @ between_ids allowed (cursor_after c page) c' hist"
    using step(1) c'(3) by (rule arg_cong2)
  then have "delivered = between_ids allowed c c' hist"
    using between_join [OF assms(1) step(2) c'(2)] rest(2) by simp
  with c'(1) order.trans [OF step(2) c'(2)] show ?case by blast
qed

text \<open>
  C38. The feed delivers every message once and in order: a client that polls its subscription and acknowledges what it
  got, at whatever moments, has been handed exactly the granted messages with ids from its first cursor up
  to its last, provided that messages commit within the horizon of the start of their transaction and ids
  follow those starts.
\<close>

theorem feed_skips_nothing:
  assumes "timely h hist" "ids_follow_starts hist" "validate_subscription_name name = Inr name" "allowed \<noteq> []"
    and "\<forall>env \<in> set envs. fe_horizon env = h" "map_of subs (uid, name) = Some c" "bigint c"
    and "follow_feed envs hist uid allowed name subs = (delivered, subs')"
  shows "\<exists>c'. map_of subs' (uid, name) = Some c' \<and> c \<le> c' \<and> sorted (map fr_id delivered) \<and> distinct delivered \<and>
    set delivered = {r \<in> fst ` set hist. c < fr_id r \<and> fr_id r \<le> c' \<and> fr_account r \<in> set allowed}"
proof -
  obtain c' where c': "map_of subs' (uid, name) = Some c'" "c \<le> c'" "delivered = between_ids allowed c c' hist"
    using follow_exact [OF assms] by blast
  moreover have "distinct delivered" using between_distinct [OF assms(1), of allowed c c'] c'(3) by (simp add: distinct_map)
  ultimately show ?thesis using between_sorted between_set by blast
qed

definition feed_message :: "int \<Rightarrow> instant \<Rightarrow> feed_row" where
  "feed_message i t = \<lparr>fr_id = i, fr_account = 10, fr_received = t, fr_internal_date = None, fr_date_sent = None\<rparr>"

definition poll_at :: "instant \<Rightarrow> feed_env" where
  "poll_at t = \<lparr>fe_now = t, fe_later = t, fe_horizon = 5, fe_cap = 32\<rparr>"

theorem feed_skips_nothing_witness:
  "set (fst (follow_feed [poll_at 6, poll_at 20] [(feed_message 5 0, 2), (feed_message 6 3, 4)] 1 [10] ''chan'' [((1, ''chan''), 4)])) =
     {feed_message 5 0, feed_message 6 3}"
proof -
  let ?hist = "[(feed_message 5 0, 2 :: instant), (feed_message 6 3, 4)]"
  obtain delivered subs' where run: "follow_feed [poll_at 6, poll_at 20] ?hist 1 [10] ''chan'' [((1, ''chan''), 4)] = (delivered, subs')"
    by (rule prod.exhaust)
  have t: "timely 5 ?hist" "ids_follow_starts ?hist"
    by (simp_all add: timely_def ids_follow_starts_def feed_message_def bigint_def)
  have v: "validate_subscription_name ''chan'' = Inr ''chan''" by code_simp
  have hz: "\<forall>env \<in> set [poll_at 6, poll_at 20]. fe_horizon env = 5" by (simp add: poll_at_def)
  have "map_of (snd (follow_feed [poll_at 6, poll_at 20] ?hist 1 [10] ''chan'' [((1, ''chan''), 4)])) (1, ''chan'') = Some 6" by code_simp
  then have cur: "map_of subs' (1, ''chan'') = Some 6" unfolding run by simp
  have sub: "map_of [((1 :: int, ''chan''), 4 :: int)] (1, ''chan'') = Some 4" "bigint 4" by (simp_all add: bigint_def)
  have ne: "[10 :: int] \<noteq> []" by simp
  have "set delivered = {r \<in> fst ` set ?hist. 4 < fr_id r \<and> fr_id r \<le> 6 \<and> fr_account r \<in> set [10]}"
    using feed_skips_nothing [OF t v ne hz sub run] cur by auto
  also have "\<dots> = {feed_message 5 0, feed_message 6 3}" by (auto simp: feed_message_def)
  finally show ?thesis unfolding run by simp
qed

text \<open>Two messages stored by transactions that overlap, each with its commit time.\<close>

definition overlapping :: "(feed_row \<times> instant) list" where
  "overlapping = [(feed_message 5 1, 2), (feed_message 6 0, 2)]"

lemma nothing_above:
  assumes "map_of subs (1, ''chan'') = Some 6"
  shows "fst (follow_feed (map poll_at later) overlapping 1 [10] ''chan'' subs) = []"
  using assms
proof (induction later arbitrary: subs)
  case (Cons t later)
  let ?d = "\<lparr>fd_messages = committed_at t overlapping, fd_subs = subs\<rparr>"
  have empty: "newer_page 5 t [10] 6 (committed_at t overlapping) = []"
    by (auto simp: newer_page_def committed_at_def overlapping_def feed_message_def filter_empty_conv)
  have t5: "timely 5 overlapping" by (simp add: timely_def overlapping_def feed_message_def bigint_def)
  have v: "validate_subscription_name ''chan'' = Inr ''chan''" by code_simp
  have "\<exists>d'. poll_and_ack (poll_at t) 1 [10] ''chan'' ?d = ([], d') \<and> map_of (fd_subs d') (1, ''chan'') = Some 6"
    using poll_and_ack_exact [of "poll_at t" overlapping "''chan''" "[10]" ?d subs 1 6 "[]"] t5 v Cons.prems empty
    by (simp add: poll_at_def bigint_def cursor_after_def)
  then obtain d' where d': "poll_and_ack (poll_at t) 1 [10] ''chan'' ?d = ([], d')" "map_of (fd_subs d') (1, ''chan'') = Some 6" by blast
  have now: "fe_now (poll_at t) = t" by (simp add: poll_at_def)
  show ?case using Cons.IH [OF d'(2)] d'(1) by (simp add: now Let_def split: prod.splits)
qed simp

text \<open>
  C40. Ids need not follow the starts of the transactions, and then the horizon does not help: two messages whose
  transactions overlap, both committed well within the horizon, and the one with the smaller id is never
  delivered, at any later poll, because its transaction started after the other's.
\<close>

theorem feed_can_skip:
  "timely 5 overlapping \<and> (feed_message 5 1, 2) \<in> set overlapping \<and>
   (\<forall>later. map fr_id (fst (follow_feed (map poll_at (6 # later)) overlapping 1 [10] ''chan'' [((1, ''chan''), 4)])) = [6])"
proof (intro conjI allI)
  show "timely 5 overlapping" by (simp add: timely_def overlapping_def feed_message_def bigint_def)
  show "(feed_message 5 1, 2) \<in> set overlapping" by (simp add: overlapping_def)
  fix later
  have first: "poll_and_ack (poll_at 6) 1 [10] ''chan'' \<lparr>fd_messages = committed_at 6 overlapping, fd_subs = [((1, ''chan''), 4)]\<rparr> =
      ([feed_message 6 0], \<lparr>fd_messages = committed_at 6 overlapping, fd_subs = [((1, ''chan''), 6)]\<rparr>)"
    by code_simp
  have now: "fe_now (poll_at 6) = 6" by (simp add: poll_at_def)
  show "map fr_id (fst (follow_feed (map poll_at (6 # later)) overlapping 1 [10] ''chan'' [((1, ''chan''), 4)])) = [6]"
    using nothing_above [of "[((1, ''chan''), 6)]" later] first
    by (auto simp: now Let_def feed_message_def split: prod.splits)
qed

subsection \<open>Delivery\<close>

lemma feed_advances:
  assumes "timely h hist" "ids_follow_starts hist" "(r, e) \<in> set hist" "fr_account r \<in> set allowed" "c < fr_id r" "fr_received r + h < t"
    and "page = newer_page h t allowed c (committed_at t hist)"
  shows "length (between_ids allowed (cursor_after c page) (fr_id r) hist) < length (between_ids allowed c (fr_id r) hist)"
proof -
  let ?P = "sort_key fr_id (filter (\<lambda>r. c < fr_id r \<and> visible_row h t allowed r) (committed_at t hist))"
  let ?B = "\<lambda>c. set (between_ids allowed c (fr_id r) hist)"
  have "e \<le> fr_received r + h" using assms(1,3) by (auto simp: timely_def)
  with assms(3-6) have r: "r \<in> set ?P" by (force simp: visible_row_def committed_at_def)
  then have "?P \<noteq> []" by (metis empty_iff list.set(1))
  then have ne: "page \<noteq> []" "hd page = hd ?P" by (auto simp: assms(7) newer_page_def feed_limit_def hd_take)
  have "\<forall>x \<in> set ?P. fr_id (hd ?P) \<le> fr_id x"
    using sorted_sort_key [of fr_id "filter (\<lambda>r. c < fr_id r \<and> visible_row h t allowed r) (committed_at t hist)"]
    by (cases ?P) auto
  with r ne have le: "fr_id (hd page) \<le> fr_id r" by auto
  have hd: "hd page \<in> set page" using ne(1) by (rule hd_in_set)
  note step = page_step [OF assms(1,2,7)]
  have mem: "hd page \<in> set (between_ids allowed c (cursor_after c page) hist)" using hd step(1) by metis
  then have "hd page \<in> ?B c" "hd page \<notin> ?B (cursor_after c page)" using le by (auto simp: between_set)
  moreover have "?B (cursor_after c page) \<subseteq> ?B c" using step(2) by (auto simp: between_set)
  ultimately have "card (?B (cursor_after c page)) < card (?B c)" by (intro psubset_card_mono) auto
  then show ?thesis
    using between_distinct [OF assms(1), of allowed] by (simp add: distinct_card distinct_map)
qed

lemma feed_cursor_reaches:
  assumes "timely h hist" "ids_follow_starts hist" "validate_subscription_name name = Inr name" "(r, e) \<in> set hist" "fr_account r \<in> set allowed"
    and "\<forall>env \<in> set envs. fe_horizon env = h \<and> fr_received r + h < fe_now env" "map_of subs (uid, name) = Some c" "bigint c"
    and "length (between_ids allowed c (fr_id r) hist) \<le> length envs"
    and "follow_feed envs hist uid allowed name subs = (delivered, subs')" "map_of subs' (uid, name) = Some c'"
  shows "fr_id r \<le> c'"
  using assms(6-)
proof (induction envs arbitrary: subs c delivered)
  case Nil
  then have "r \<notin> set (between_ids allowed c (fr_id r) hist)" "c' = c" by simp_all
  moreover have "r \<in> fst ` set hist" using assms(4) by force
  ultimately show ?case using assms(5) by (auto simp: between_set)
next
  case (Cons env envs)
  let ?d = "\<lparr>fd_messages = committed_at (fe_now env) hist, fd_subs = subs\<rparr>"
  define page where "page = newer_page h (fe_now env) allowed c (committed_at (fe_now env) hist)"
  have ne: "allowed \<noteq> []" using assms(5) by auto
  have env: "fe_horizon env = h" "fr_received r + h < fe_now env" using Cons.prems(1) by auto
  obtain d1 where d1: "poll_and_ack env uid allowed name ?d = (page, d1)" "map_of (fd_subs d1) (uid, name) = Some (cursor_after c page)"
    using poll_and_ack_exact [of env hist name allowed ?d subs uid c page] assms(1,3) ne Cons.prems(2,3) env page_def by auto
  obtain rest where rest: "follow_feed envs hist uid allowed name (fd_subs d1) = (rest, subs')"
    using Cons.prems(5) d1(1) by (auto simp: Let_def split: prod.splits)
  note step = page_step [OF assms(1,2) page_def]
  have "set page \<subseteq> fst ` set hist" by (subst step(1)) (auto simp: between_set)
  then have big: "bigint (cursor_after c page)" by (rule cursor_after_big [OF assms(1) _ Cons.prems(3)])
  show ?case
  proof (cases "c < fr_id r")
    case True
    have "length (between_ids allowed (cursor_after c page) (fr_id r) hist) \<le> length envs"
      using feed_advances [OF assms(1,2,4,5) True env(2) page_def] Cons.prems(4) by simp
    with Cons.IH [OF _ d1(2) big _ rest Cons.prems(6)] Cons.prems(1) show ?thesis by simp
  next
    case False
    obtain c2 where "map_of subs' (uid, name) = Some c2" "cursor_after c page \<le> c2"
      using follow_exact [OF assms(1-3) ne _ d1(2) big rest] Cons.prems(1) by auto
    with False step(2) Cons.prems(6) show ?thesis by simp
  qed
qed

text \<open>
  C39. And it does not wait for ever, under the same provisos (messages commit within the horizon of the start of their
  transaction, and ids follow those starts; without the second a message can be passed by, see
  \<open>feed_can_skip\<close>): a granted message above the cursor has been delivered after as many polls, each later than its
  transaction's start by the horizon, as there are granted messages up to it.
\<close>

theorem feed_delivers:
  assumes "timely h hist" "ids_follow_starts hist" "validate_subscription_name name = Inr name" "(r, e) \<in> set hist" "fr_account r \<in> set allowed"
    and "\<forall>env \<in> set envs. fe_horizon env = h \<and> fr_received r + h < fe_now env" "map_of subs (uid, name) = Some c" "bigint c" "c < fr_id r"
    and "length (between_ids allowed c (fr_id r) hist) \<le> length envs"
    and "follow_feed envs hist uid allowed name subs = (delivered, subs')"
  shows "r \<in> set delivered"
proof -
  have ne: "allowed \<noteq> []" using assms(5) by auto
  obtain c' where c': "map_of subs' (uid, name) = Some c'" "delivered = between_ids allowed c c' hist"
    using follow_exact [OF assms(1-3) ne _ assms(7,8,11)] assms(6) by auto
  have "fr_id r \<le> c'" by (rule feed_cursor_reaches [OF assms(1-8,10,11) c'(1)])
  with c'(2) assms(4,5,9) show ?thesis by (force simp: between_set)
qed

theorem feed_delivers_witness:
  "feed_message 5 0 \<in> set (fst (follow_feed [poll_at 20] [(feed_message 5 0, 2), (feed_message 6 3, 4)] 1 [10] ''chan'' [((1, ''chan''), 4)]))"
proof -
  let ?hist = "[(feed_message 5 0, 2 :: instant), (feed_message 6 3, 4)]"
  let ?run = "follow_feed [poll_at 20] ?hist 1 [10] ''chan'' [((1, ''chan''), 4)]"
  have t: "timely 5 ?hist" "ids_follow_starts ?hist"
    by (simp_all add: timely_def ids_follow_starts_def feed_message_def bigint_def)
  have v: "validate_subscription_name ''chan'' = Inr ''chan''" by code_simp
  have m: "(feed_message 5 0, 2) \<in> set ?hist" "fr_account (feed_message 5 0) \<in> set [10]" by (simp_all add: feed_message_def)
  have hz: "\<forall>env \<in> set [poll_at 20]. fe_horizon env = 5 \<and> fr_received (feed_message 5 0) + 5 < fe_now env"
    by (simp add: poll_at_def feed_message_def)
  have sub: "map_of [((1 :: int, ''chan''), 4 :: int)] (1, ''chan'') = Some 4" "bigint 4" "4 < fr_id (feed_message 5 0)"
    by (simp_all add: bigint_def feed_message_def)
  have len: "length (between_ids [10] 4 (fr_id (feed_message 5 0)) ?hist) \<le> length [poll_at 20]"
    by (simp add: between_ids_def feed_message_def)
  show ?thesis by (rule feed_delivers [OF t v m hz sub len, of "fst ?run" "snd ?run", unfolded prod.collapse, OF refl])
qed

text \<open>A name with a final line feed passes the check of the names.\<close>

lemma newline_name_accepted: "validate_subscription_name (''chan'' @ [CHR 0x0A]) = Inr (''chan'' @ [CHR 0x0A])"
  by code_simp

end
