(* ===== verification/Secrets.thy ===== *)
theory Secrets
  imports Json PyStr "HOL-Library.Char_ord" "HOL-Library.List_Lexorder"
begin

unbundle bit_operations_syntax

text \<open>
  Where IMAP passwords and OAuth refresh tokens are kept: the rules on account names
  (\<open>account_names.py\<close>), the username scheme, permission predicates and on-disk document
  (\<open>secrets_store.py\<close>), the file backend with the steps of a write and what interrupts them
  (\<open>secrets_file.py\<close>), the module that selects a backend (\<open>secrets.py\<close>, \<open>config.load_config\<close>) and the
  migration from the keyring (\<open>secrets_migrate.py\<close>, the command \<open>migrate-secrets\<close>).

  The keyring is a third-party package: its three calls are parameters. A file is its permission bits
  and its contents as a reader finds them; the directory that holds it is its permission bits. A
  write may fail with an operating-system error before any of its steps, and the process may be
  killed before any of them. An owner is never refused access to files of their own, and the removal of
  a temporary file in an exception handler succeeds. Paths are normalised.
\<close>

subsection \<open>Account names\<close>

definition name_max_chars :: nat where "name_max_chars = 128"
definition keyring_subkey_separator :: char where "keyring_subkey_separator = CHR '':''"

datatype name_error = NameBlank | NameTooLong | NameHasSeparator

definition account_name_error :: "string \<Rightarrow> name_error option" where
  "account_name_error name =
     (if name = [] \<or> strip name = [] then Some NameBlank
      else if name_max_chars < length name then Some NameTooLong
      else if keyring_subkey_separator \<in> set name then Some NameHasSeparator
      else None)"

subsection \<open>The scheme shared by the backends\<close>

definition refresh_suffix :: string where "refresh_suffix = '':refresh''"

definition refresh_username :: "string \<Rightarrow> string" where
  "refresh_username account_name = account_name @ refresh_suffix"

definition secrets_file_mode :: int where "secrets_file_mode = 0x180"
definition secrets_dir_mode :: int where "secrets_dir_mode = 0x1C0"
definition group_and_other_bits :: int where "group_and_other_bits = 0x3F"
definition group_write_bit :: int where "group_write_bit = 0x10"
definition other_write_bit :: int where "other_write_bit = 0x02"

definition mode_is_private :: "int \<Rightarrow> bool" where
  "mode_is_private mode \<longleftrightarrow> mode AND group_and_other_bits = 0"

datatype directory_exposure = DirPrivate | GroupWritable | WorldWritable

definition directory_exposure :: "int \<Rightarrow> directory_exposure" where
  "directory_exposure mode =
     (if mode AND other_write_bit \<noteq> 0 then WorldWritable
      else if mode AND group_write_bit \<noteq> 0 then GroupWritable
      else DirPrivate)"

datatype secret_error =
    InsecureDirectory
  | InsecureFile
  | UndecodableFile
  | FileCorrupt
  | StaleTemp
  | OsFailure
  | ProcessKilled
  | KeyringFailure
  | PlanWithoutValue

text \<open>What a reader finds in a file: bytes that are no UTF-8, text that is no JSON, or a document.\<close>

datatype contents = NotUtf8 | NotJson | Doc json

type_synonym secrets_dict = "(string \<times> string) list"

text \<open>The document \<open>json.dumps\<close> writes; \<open>sort_keys\<close> orders both levels.\<close>

definition serialise :: "secrets_dict \<Rightarrow> json" where
  "serialise secrets =
     JObj [(''secrets'', JObj (map (\<lambda>(k, v). (k, JStr v)) (sort_key fst secrets))), (''version'', JInt 1)]"

fun string_entries :: "(string \<times> json) list \<Rightarrow> secrets_dict option" where
  "string_entries [] = Some []"
| "string_entries ((k, JStr v) # es) = (case string_entries es of None \<Rightarrow> None | Some d \<Rightarrow> Some ((k, v) # d))"
| "string_entries (e # es) = None"

definition deserialise :: "contents \<Rightarrow> secret_error + secrets_dict" where
  "deserialise c =
     (case c of
        NotUtf8 \<Rightarrow> Inl UndecodableFile
      | NotJson \<Rightarrow> Inl FileCorrupt
      | Doc (JObj data) \<Rightarrow>
          if \<not> py_eq_one (json_get ''version'' data) then Inl FileCorrupt
          else (case json_get ''secrets'' data of
                  JObj es \<Rightarrow> (case string_entries es of None \<Rightarrow> Inl FileCorrupt | Some d \<Rightarrow> Inr d)
                | _ \<Rightarrow> Inl FileCorrupt)
      | Doc _ \<Rightarrow> Inl FileCorrupt)"

subsection \<open>The file backend\<close>

text \<open>\<open>fs_parent\<close> is \<open>None\<close> while the directory does not exist; \<open>fs_warnings\<close> counts the lines logged.\<close>

record file_store =
  fs_parent :: "int option"
  fs_file :: "(int \<times> contents) option"
  fs_temp :: "(int \<times> contents) option"
  fs_warned :: bool
  fs_warnings :: nat

definition check_parent_directory :: "file_store \<Rightarrow> (secret_error + unit) \<times> file_store" where
  "check_parent_directory s =
     (case fs_parent s of
        None \<Rightarrow> (Inr (), s)
      | Some mode \<Rightarrow>
          (case directory_exposure mode of
             WorldWritable \<Rightarrow> (Inl InsecureDirectory, s)
           | GroupWritable \<Rightarrow>
               if fs_warned s then (Inr (), s)
               else (Inr (), s\<lparr>fs_warned := True, fs_warnings := fs_warnings s + 1\<rparr>)
           | DirPrivate \<Rightarrow> (Inr (), s)))"

definition read_secrets :: "file_store \<Rightarrow> (secret_error + secrets_dict) \<times> file_store" where
  "read_secrets s =
     (case check_parent_directory s of
        (Inl e, s1) \<Rightarrow> (Inl e, s1)
      | (Inr _, s1) \<Rightarrow>
          (case fs_file s1 of
             None \<Rightarrow> (Inr [], s1)
           | Some (mode, c) \<Rightarrow>
               if \<not> mode_is_private mode then (Inl InsecureFile, s1) else (deserialise c, s1)))"

text \<open>
  The steps of a write, in order, and what interrupts one: an error raised by a step, or the end of
  the process before it. \<open>MakeDirectory\<close> and \<open>OpenTemp\<close> stand outside the block whose handler removes
  the temporary file.
\<close>

datatype write_step = MakeDirectory | OpenTemp | WriteTemp | SetMode | Replace | SyncDirectory

datatype write_fault = NoFault | RaisesAt write_step | KilledAt write_step

record write_env =
  we_umask :: int
  we_fault :: write_fault

definition drop_temp :: "file_store \<Rightarrow> file_store" where
  "drop_temp s = s\<lparr>fs_temp := None\<rparr>"

definition write_step ::
  "write_env \<Rightarrow> write_step \<Rightarrow> (file_store \<Rightarrow> file_store) \<Rightarrow> (file_store \<Rightarrow> file_store) \<Rightarrow> (file_store \<Rightarrow> (secret_error + unit) \<times> file_store) \<Rightarrow>
   file_store \<Rightarrow> (secret_error + unit) \<times> file_store" where
  "write_step env step handler act rest s =
     (if we_fault env = RaisesAt step then (Inl OsFailure, handler s)
      else if we_fault env = KilledAt step then (Inl ProcessKilled, s)
      else rest (act s))"

definition make_directory :: "int \<Rightarrow> file_store \<Rightarrow> file_store" where
  "make_directory umask s =
     (case fs_parent s of None \<Rightarrow> s\<lparr>fs_parent := Some (secrets_dir_mode AND (NOT umask))\<rparr> | Some _ \<Rightarrow> s)"

definition replace_file :: "file_store \<Rightarrow> file_store" where
  "replace_file s = s\<lparr>fs_file := fs_temp s, fs_temp := None\<rparr>"

definition write_secrets :: "write_env \<Rightarrow> secrets_dict \<Rightarrow> file_store \<Rightarrow> (secret_error + unit) \<times> file_store" where
  "write_secrets env secrets =
     write_step env MakeDirectory id (make_directory (we_umask env))
       (\<lambda>s. if fs_temp s \<noteq> None \<and> we_fault env \<notin> {RaisesAt OpenTemp, KilledAt OpenTemp} then (Inl StaleTemp, s)
            else write_step env OpenTemp id
              (\<lambda>s. s\<lparr>fs_temp := Some (secrets_file_mode AND (NOT (we_umask env)), NotJson)\<rparr>)
           (write_step env WriteTemp drop_temp
              (\<lambda>s. s\<lparr>fs_temp := map_option (\<lambda>(m, c). (m, Doc (serialise secrets))) (fs_temp s)\<rparr>)
           (write_step env SetMode drop_temp
              (\<lambda>s. s\<lparr>fs_temp := map_option (\<lambda>(m, c). (secrets_file_mode, c)) (fs_temp s)\<rparr>)
           (write_step env Replace drop_temp replace_file
           (write_step env SyncDirectory drop_temp id (\<lambda>s. (Inr (), s)))))) s)"

definition get_secret :: "string \<Rightarrow> file_store \<Rightarrow> (secret_error + string option) \<times> file_store" where
  "get_secret username s =
     (case read_secrets s of
        (Inl e, s1) \<Rightarrow> (Inl e, s1)
      | (Inr d, s1) \<Rightarrow> (Inr (map_of d username), s1))"

definition set_secret :: "write_env \<Rightarrow> string \<Rightarrow> string \<Rightarrow> file_store \<Rightarrow> (secret_error + unit) \<times> file_store" where
  "set_secret env username value s =
     (case read_secrets s of
        (Inl e, s1) \<Rightarrow> (Inl e, s1)
      | (Inr d, s1) \<Rightarrow> write_secrets env (dict_set username value d) s1)"

definition delete_secret :: "write_env \<Rightarrow> string \<Rightarrow> file_store \<Rightarrow> (secret_error + unit) \<times> file_store" where
  "delete_secret env username s =
     (case read_secrets s of
        (Inl e, s1) \<Rightarrow> (Inl e, s1)
      | (Inr d, s1) \<Rightarrow>
          if map_of d username = None then (Inr (), s1)
          else write_secrets env (dict_pop username d) s1)"

subsection \<open>The selected backend\<close>

datatype backend = KeyringBackend | FileBackend string

record secrets_config =
  sc_backend :: string
  sc_file_path :: string

datatype keyring_error = PasswordDeleteError | OtherKeyringError

text \<open>The keyring package over its own state.\<close>

record 'k keyring_calls =
  kc_get :: "string \<Rightarrow> 'k \<Rightarrow> keyring_error + string option"
  kc_set :: "string \<Rightarrow> string \<Rightarrow> 'k \<Rightarrow> (keyring_error + unit) \<times> 'k"
  kc_delete :: "string \<Rightarrow> 'k \<Rightarrow> (keyring_error + unit) \<times> 'k"

text \<open>
  The module's two globals, the files by path and the keyring. \<open>fs_warned\<close> of a file belongs to the
  store object of its path, which \<open>configure\<close> makes anew.
\<close>

record 'k secret_world =
  sw_store :: backend
  sw_pinned :: bool
  sw_files :: "string \<Rightarrow> file_store"
  sw_keyring :: 'k

definition configure :: "secrets_config \<Rightarrow> bool \<Rightarrow> 'k secret_world \<Rightarrow> 'k secret_world" where
  "configure cfg named_config w =
     (if sw_pinned w \<and> \<not> named_config then w
      else if sc_backend cfg = ''file''
      then w\<lparr>sw_store := FileBackend (sc_file_path cfg), sw_pinned := named_config,
             sw_files := (sw_files w)(sc_file_path cfg := (sw_files w (sc_file_path cfg))\<lparr>fs_warned := False\<rparr>)\<rparr>
      else w\<lparr>sw_store := KeyringBackend, sw_pinned := named_config\<rparr>)"

definition reset_to_default :: "'k secret_world \<Rightarrow> 'k secret_world" where
  "reset_to_default w = w\<lparr>sw_store := KeyringBackend, sw_pinned := False\<rparr>"

definition active_backend_name :: "'k secret_world \<Rightarrow> string" where
  "active_backend_name w = (case sw_store w of FileBackend _ \<Rightarrow> ''file'' | KeyringBackend \<Rightarrow> ''keyring'')"

definition at_file :: "string \<Rightarrow> (file_store \<Rightarrow> 'r \<times> file_store) \<Rightarrow> 'k secret_world \<Rightarrow> 'r \<times> 'k secret_world" where
  "at_file p act w = (case act (sw_files w p) of (r, s) \<Rightarrow> (r, w\<lparr>sw_files := (sw_files w)(p := s)\<rparr>))"

definition store_get ::
  "'k keyring_calls \<Rightarrow> string \<Rightarrow> 'k secret_world \<Rightarrow> (secret_error + string option) \<times> 'k secret_world" where
  "store_get kc username w =
     (case sw_store w of
        FileBackend p \<Rightarrow> at_file p (get_secret username) w
      | KeyringBackend \<Rightarrow>
          (case kc_get kc username (sw_keyring w) of
             Inl _ \<Rightarrow> (Inl KeyringFailure, w)
           | Inr v \<Rightarrow> (Inr v, w)))"

definition store_set ::
  "'k keyring_calls \<Rightarrow> write_env \<Rightarrow> string \<Rightarrow> string \<Rightarrow> 'k secret_world \<Rightarrow> (secret_error + unit) \<times> 'k secret_world" where
  "store_set kc env username value w =
     (case sw_store w of
        FileBackend p \<Rightarrow> at_file p (set_secret env username value) w
      | KeyringBackend \<Rightarrow>
          (case kc_set kc username value (sw_keyring w) of
             (Inl _, k) \<Rightarrow> (Inl KeyringFailure, w\<lparr>sw_keyring := k\<rparr>)
           | (Inr _, k) \<Rightarrow> (Inr (), w\<lparr>sw_keyring := k\<rparr>)))"

text \<open>The keyring backend swallows \<open>PasswordDeleteError\<close>, the answer for an absent entry.\<close>

definition store_delete ::
  "'k keyring_calls \<Rightarrow> write_env \<Rightarrow> string \<Rightarrow> 'k secret_world \<Rightarrow> (secret_error + unit) \<times> 'k secret_world" where
  "store_delete kc env username w =
     (case sw_store w of
        FileBackend p \<Rightarrow> at_file p (delete_secret env username) w
      | KeyringBackend \<Rightarrow>
          (case kc_delete kc username (sw_keyring w) of
             (Inl PasswordDeleteError, k) \<Rightarrow> (Inr (), w\<lparr>sw_keyring := k\<rparr>)
           | (Inl OtherKeyringError, k) \<Rightarrow> (Inl KeyringFailure, w\<lparr>sw_keyring := k\<rparr>)
           | (Inr _, k) \<Rightarrow> (Inr (), w\<lparr>sw_keyring := k\<rparr>)))"

definition get_password where "get_password kc account_name = store_get kc account_name"
definition set_password where "set_password kc env account_name password = store_set kc env account_name password"
definition delete_password where "delete_password kc env account_name = store_delete kc env account_name"
definition get_refresh_token where "get_refresh_token kc account_name = store_get kc (refresh_username account_name)"
definition set_refresh_token where
  "set_refresh_token kc env account_name token = store_set kc env (refresh_username account_name) token"
definition delete_refresh_token where
  "delete_refresh_token kc env account_name = store_delete kc env (refresh_username account_name)"

subsection \<open>Loading a configuration\<close>

text \<open>The environment variables that name a configuration, and the home directory.\<close>

record config_env =
  ce_localmail_config :: "string option"
  ce_xdg_config_home :: "string option"
  ce_home :: string

definition expanduser :: "string \<Rightarrow> string \<Rightarrow> string" where
  "expanduser home p = (if p = ''~'' \<or> startswith p ''~/'' then home @ drop 1 p else p)"

definition non_empty_or :: "string option \<Rightarrow> string \<Rightarrow> string" where
  "non_empty_or v d = (case v of None \<Rightarrow> d | Some s \<Rightarrow> if s = [] then d else s)"

definition default_config_path :: "config_env \<Rightarrow> string" where
  "default_config_path env =
     (case ce_localmail_config env of
        Some (c # cs) \<Rightarrow> expanduser (ce_home env) (c # cs)
      | _ \<Rightarrow> expanduser (ce_home env) (non_empty_or (ce_xdg_config_home env) ''~/.config'') @ ''/localmail/config.toml'')"

definition default_secrets_path :: "config_env \<Rightarrow> string" where
  "default_secrets_path env =
     expanduser (ce_home env) (non_empty_or (ce_xdg_config_home env) ''~/.config'') @ ''/localmail/secrets.json''"

text \<open>\<open>configs\<close> gives the validated secrets section of the file at a path, \<open>None\<close> when loading it raises.\<close>

definition load_config ::
  "config_env \<Rightarrow> (string \<Rightarrow> secrets_config option) \<Rightarrow> string option \<Rightarrow> 'k secret_world \<Rightarrow> secrets_config option \<times> 'k secret_world" where
  "load_config env configs path w =
     (let default_path = default_config_path env;
          p = (case path of None \<Rightarrow> default_path | Some p \<Rightarrow> p)
      in case configs p of
           None \<Rightarrow> (None, w)
         | Some cfg \<Rightarrow> (Some cfg, configure cfg (p \<noteq> default_path) w))"

subsection \<open>Migration from the keyring\<close>

datatype secret_kind = PasswordKind | RefreshKind

record migration_item =
  mi_account_name :: string
  mi_username :: string
  mi_kind :: secret_kind
  mi_value :: "string option"

definition items_of :: "(string \<times> string option) list \<Rightarrow> string \<Rightarrow> migration_item list" where
  "items_of source name =
     map (\<lambda>(kind, username). \<lparr>mi_account_name = name, mi_username = username, mi_kind = kind,
            mi_value = (case map_of source username of None \<Rightarrow> None | Some v \<Rightarrow> v)\<rparr>)
         [(PasswordKind, name), (RefreshKind, refresh_username name)]"

definition plan_secret_migration ::
  "string list \<Rightarrow> (string \<times> string option) list \<Rightarrow> migration_item list \<times> migration_item list" where
  "plan_secret_migration account_names source =
     (let items = concat (map (items_of source) account_names)
      in (filter (\<lambda>i. mi_value i \<noteq> None) items, filter (\<lambda>i. mi_value i = None) items))"

fun read_keyring :: "'k keyring_calls \<Rightarrow> 'k \<Rightarrow> string list \<Rightarrow> secret_error + (string \<times> string option) list" where
  "read_keyring kc k [] = Inr []"
| "read_keyring kc k (u # us) =
     (case kc_get kc u k of
        Inl _ \<Rightarrow> Inl KeyringFailure
      | Inr v \<Rightarrow> bindr (read_keyring kc k us) (\<lambda>d. Inr ((u, v) # d)))"

text \<open>\<open>envs\<close> gives the environment of each successive write.\<close>

fun copy_items :: "(nat \<Rightarrow> write_env) \<Rightarrow> migration_item list \<Rightarrow> file_store \<Rightarrow> (secret_error + unit) \<times> file_store" where
  "copy_items envs [] s = (Inr (), s)"
| "copy_items envs (i # is) s =
     (case mi_value i of
        None \<Rightarrow> (Inl PlanWithoutValue, s)
      | Some v \<Rightarrow>
          (case set_secret (envs 0) (mi_username i) v s of
             (Inl e, s1) \<Rightarrow> (Inl e, s1)
           | (Inr _, s1) \<Rightarrow> copy_items (\<lambda>n. envs (Suc n)) is s1))"

text \<open>The command: the number copied, or the error that ended it.\<close>

definition migrate_secrets ::
  "'k keyring_calls \<Rightarrow> (nat \<Rightarrow> write_env) \<Rightarrow> bool \<Rightarrow> string list \<Rightarrow> string \<Rightarrow> 'k secret_world \<Rightarrow> (secret_error + nat) \<times> 'k secret_world" where
  "migrate_secrets kc envs dry_run names file_path w =
     (let candidates = concat (map (\<lambda>name. [name, refresh_username name]) names)
      in case read_keyring kc (sw_keyring w) candidates of
           Inl e \<Rightarrow> (Inl e, w)
         | Inr source \<Rightarrow>
             (let to_copy = fst (plan_secret_migration names source)
              in if dry_run then (Inr (length to_copy), w)
                 else (case at_file file_path (copy_items envs to_copy) w of
                         (Inl e, w1) \<Rightarrow> (Inl e, w1)
                       | (Inr _, w1) \<Rightarrow> (Inr (length to_copy), w1))))"

end
