(* ===== verification/SecretsSafety.thy ===== *)
theory SecretsSafety
  imports Secrets
begin

text \<open>
  What the secret stores promise: a secret is only ever read from a file nobody else can read or
  replace, a write interrupted anywhere leaves the old contents or the new ones, the slots of accounts
  whose names pass the check do not overlap, and the migration copies what the keyring holds and damages
  nothing when it is cut short. The contract of a store is a locale, interpreted on the file backend
  alone and on the module with either backend selected.
\<close>

subsection \<open>The contract of a store\<close>

locale secret_store =
  fixes ok :: "'s \<Rightarrow> bool"
    and view :: "'s \<Rightarrow> string \<Rightarrow> string option"
    and read :: "string \<Rightarrow> 's \<Rightarrow> (secret_error + string option) \<times> 's"
    and put :: "string \<Rightarrow> string \<Rightarrow> 's \<Rightarrow> (secret_error + unit) \<times> 's"
    and remove :: "string \<Rightarrow> 's \<Rightarrow> (secret_error + unit) \<times> 's"
  assumes read_ok: "ok s \<Longrightarrow> \<exists>s1. read u s = (Inr (view s u), s1) \<and> ok s1 \<and> view s1 = view s"
    and put_ok: "ok s \<Longrightarrow> \<exists>s1. put u v s = (Inr (), s1) \<and> ok s1 \<and> view s1 = (view s)(u \<mapsto> v)"
    and remove_ok: "ok s \<Longrightarrow> \<exists>s1. remove u s = (Inr (), s1) \<and> ok s1 \<and> view s1 = (view s)(u := None)"
begin

lemma read_value: "ok s \<Longrightarrow> fst (read u s) = Inr (view s u)"
  using read_ok [of s u] by auto

lemma put_then_read: "ok s \<Longrightarrow> fst (read w (snd (put u v s))) = Inr (if w = u then Some v else view s w)"
  using put_ok [of s u v] read_ok by (force simp: read_value)

lemma remove_then_read: "ok s \<Longrightarrow> fst (read w (snd (remove u s))) = Inr (if w = u then None else view s w)"
  using remove_ok [of s u] by (force simp: read_value)

lemma put_elsewhere: "ok s \<Longrightarrow> w \<noteq> u \<Longrightarrow> fst (read w (snd (put u v s))) = fst (read w s)"
  by (simp add: put_then_read read_value)

lemma put_keeps: "ok s \<Longrightarrow> ok (snd (put u v s))" "ok s \<Longrightarrow> fst (put u v s) = Inr ()"
  using put_ok [of s u v] by auto

lemma remove_keeps: "ok s \<Longrightarrow> ok (snd (remove u s))" "ok s \<Longrightarrow> fst (remove u s) = Inr ()"
  using remove_ok [of s u] by auto

lemma remove_two:
  assumes "ok s"
  shows "fst (remove u s) = Inr ()" "fst (remove v (snd (remove u s))) = Inr ()"
    "fst (read w (snd (remove v (snd (remove u s))))) = (if w = u \<or> w = v then Inr None else fst (read w s))"
proof -
  note k = remove_keeps [OF assms, of u]
  show "fst (remove u s) = Inr ()" "fst (remove v (snd (remove u s))) = Inr ()" using k remove_keeps(2) by blast+
  show "fst (read w (snd (remove v (snd (remove u s))))) = (if w = u \<or> w = v then Inr None else fst (read w s))"
    using remove_then_read [OF k(1), of w v] remove_then_read [OF assms, of w u] read_value [OF k(1), of w] read_value [OF assms, of w]
    by auto
qed

end

subsection \<open>Documents and modes\<close>

lemma map_of_filter_hd: "map_of d k = (case filter (\<lambda>p. fst p = k) d of [] \<Rightarrow> None | p # _ \<Rightarrow> Some (snd p))"
  by (induction d) auto

lemma map_of_sort_key: "map_of (sort_key fst d) = map_of d"
  by (rule ext) (simp add: map_of_filter_hd [of "sort_key fst d"] map_of_filter_hd [of d] sort_key_stable)

lemma string_entries_map: "string_entries (map (\<lambda>(k, v). (k, JStr v)) d) = Some d"
  by (induction d) auto

lemma deserialise_serialise: "deserialise (Doc (serialise d)) = Inr (sort_key fst d)"
  by (simp add: deserialise_def serialise_def json_get_def py_eq_one_def string_entries_map)

lemma mode_is_private_iff: "mode_is_private m \<longleftrightarrow> 64 dvd m"
proof -
  have "m AND 0x3F = take_bit 6 m" by (simp add: take_bit_eq_mask mask_eq_exp_minus_1)
  then show ?thesis by (simp add: mode_is_private_def group_and_other_bits_def take_bit_eq_mod dvd_eq_mod_eq_0)
qed

lemma file_mode_private: "mode_is_private secrets_file_mode"
  by (simp add: mode_is_private_iff secrets_file_mode_def)

lemma created_directory: "(secrets_dir_mode AND (NOT u)) AND other_write_bit = 0"
proof -
  have "(secrets_dir_mode AND (NOT u)) AND other_write_bit = (secrets_dir_mode AND other_write_bit) AND (NOT u)"
    by (simp add: ac_simps)
  then show ?thesis by (simp add: secrets_dir_mode_def other_write_bit_def)
qed

subsection \<open>The file backend keeps the contract\<close>

text \<open>The secrets a file holds, whatever its mode.\<close>

definition secrets_view :: "file_store \<Rightarrow> string \<Rightarrow> string option" where
  "secrets_view s =
     (case fs_file s of
        None \<Rightarrow> Map.empty
      | Some (m, c) \<Rightarrow> (case deserialise c of Inl _ \<Rightarrow> Map.empty | Inr d \<Rightarrow> map_of d))"

definition file_readable :: "(int \<times> contents) option \<Rightarrow> bool" where
  "file_readable f = (case f of None \<Rightarrow> True | Some (m, c) \<Rightarrow> mode_is_private m \<and> is_ok (deserialise c))"

text \<open>A store that reads succeed on: nobody else can write the directory, and the file is private and whole.\<close>

definition readable :: "file_store \<Rightarrow> bool" where
  "readable s \<longleftrightarrow>
     (case fs_parent s of None \<Rightarrow> fs_file s = None \<and> fs_temp s = None | Some m \<Rightarrow> m AND other_write_bit = 0) \<and>
     file_readable (fs_file s)"

definition healthy :: "file_store \<Rightarrow> bool" where
  "healthy s \<longleftrightarrow> readable s \<and> fs_temp s = None"

lemma check_parent_frame:
  "fs_file (snd (check_parent_directory s)) = fs_file s" "fs_temp (snd (check_parent_directory s)) = fs_temp s"
  "fs_parent (snd (check_parent_directory s)) = fs_parent s"
  by (simp_all add: check_parent_directory_def split: option.splits directory_exposure.splits)

lemma check_parent_result:
  "readable s \<Longrightarrow> fst (check_parent_directory s) = Inr ()"
  by (auto simp: check_parent_directory_def readable_def directory_exposure_def split: option.splits directory_exposure.splits if_splits)

lemma check_parent_ok:
  assumes "readable s"
  obtains s1 where "check_parent_directory s = (Inr (), s1)" "fs_file s1 = fs_file s" "fs_temp s1 = fs_temp s"
    "fs_parent s1 = fs_parent s"
  using check_parent_result [OF assms] check_parent_frame [of s] by (metis prod.collapse)

lemma readable_cong:
  "fs_file s1 = fs_file s \<Longrightarrow> fs_temp s1 = fs_temp s \<Longrightarrow> fs_parent s1 = fs_parent s \<Longrightarrow> readable s1 = readable s"
  by (cases "fs_parent s") (simp_all add: readable_def)

lemma view_cong: "fs_file s1 = fs_file s \<Longrightarrow> secrets_view s1 = secrets_view s"
  by (simp add: secrets_view_def)

lemma read_secrets_ok:
  assumes "readable s"
  obtains d s1 where "read_secrets s = (Inr d, s1)" "map_of d = secrets_view s" "fs_file s1 = fs_file s"
    "fs_temp s1 = fs_temp s" "fs_parent s1 = fs_parent s" "readable s1"
proof (rule check_parent_ok [OF assms])
  fix s1
  assume c: "check_parent_directory s = (Inr (), s1)" "fs_file s1 = fs_file s" "fs_temp s1 = fs_temp s"
    "fs_parent s1 = fs_parent s"
  have r: "readable s1" using assms readable_cong [OF c(2-4)] by simp
  show thesis
  proof (cases "fs_file s")
    case None
    then show ?thesis using c r that [of "[]" s1] by (simp add: read_secrets_def secrets_view_def)
  next
    case (Some f)
    obtain m cc where f: "f = (m, cc)" by (cases f)
    have "mode_is_private m" "is_ok (deserialise cc)" using assms Some f by (auto simp: readable_def file_readable_def)
    then obtain d where d: "deserialise cc = Inr d" by (cases "deserialise cc") auto
    show ?thesis using c r that [of d s1] Some f d \<open>mode_is_private m\<close>
      by (simp add: read_secrets_def secrets_view_def)
  qed
qed

lemma get_readable:
  assumes "readable s"
  obtains s1 where "get_secret u s = (Inr (secrets_view s u), s1)" "readable s1" "secrets_view s1 = secrets_view s"
    "fs_file s1 = fs_file s" "fs_temp s1 = fs_temp s"
proof (rule read_secrets_ok [OF assms])
  fix d s1
  assume r: "read_secrets s = (Inr d, s1)" "map_of d = secrets_view s" "fs_file s1 = fs_file s"
    "fs_temp s1 = fs_temp s" "fs_parent s1 = fs_parent s" "readable s1"
  show thesis
    by (rule that [of s1]) (simp_all add: r get_secret_def view_cong [OF r(3)])
qed

lemma parent_of_make [simp]:
  "fs_file (make_directory u s) = fs_file s" "fs_temp (make_directory u s) = fs_temp s"
  "fs_warned (make_directory u s) = fs_warned s"
  by (simp_all add: make_directory_def split: option.splits)

lemma readable_make: "readable s \<Longrightarrow> readable (make_directory u s)"
  by (auto simp: readable_def make_directory_def created_directory split: option.splits)

lemma made_parent: "fs_parent (make_directory u s) \<noteq> None"
  by (simp add: make_directory_def split: option.splits)

lemma written_readable:
  assumes "readable s"
  shows "readable ((make_directory u s)\<lparr>fs_file := Some (secrets_file_mode, Doc (serialise d)), fs_temp := None\<rparr>)"
  using readable_make [OF assms, of u] made_parent [of u s]
  by (auto simp: readable_def file_readable_def file_mode_private deserialise_serialise)

lemma written_view: "secrets_view (s\<lparr>fs_file := Some (m, Doc (serialise d)), fs_temp := t\<rparr>) = map_of d"
  by (simp add: secrets_view_def deserialise_serialise map_of_sort_key)

text \<open>Every end of a write: the file is as it was, or the new document is in place with the private mode.\<close>

lemma write_no_fault:
  assumes "we_fault env = NoFault" "fs_temp s = None"
  shows "write_secrets env d s =
    (Inr (), (make_directory (we_umask env) s)\<lparr>fs_file := Some (secrets_file_mode, Doc (serialise d)), fs_temp := None\<rparr>)"
  using assms by (simp add: write_secrets_def write_step_def replace_file_def)

lemma write_blocked:
  assumes "we_fault env = NoFault" "fs_temp s \<noteq> None"
  shows "write_secrets env d s = (Inl StaleTemp, make_directory (we_umask env) s)"
  using assms by (simp add: write_secrets_def write_step_def)

lemma write_file:
  "fs_file (snd (write_secrets env d s)) =
     (if fs_temp s = None \<and> we_fault env \<in> {NoFault, RaisesAt SyncDirectory, KilledAt SyncDirectory}
      then Some (secrets_file_mode, Doc (serialise d)) else fs_file s)"
  by (cases "we_fault env"; cases "fs_temp s"; cases "case we_fault env of RaisesAt st \<Rightarrow> st | KilledAt st \<Rightarrow> st | NoFault \<Rightarrow> Replace")
    (simp_all add: write_secrets_def write_step_def replace_file_def drop_temp_def)

lemma write_temp:
  "fs_temp (snd (write_secrets env d s)) \<noteq> None \<Longrightarrow> fs_temp s \<noteq> None \<or> fst (write_secrets env d s) = Inl ProcessKilled"
  by (cases "we_fault env"; cases "fs_temp s"; cases "case we_fault env of RaisesAt st \<Rightarrow> st | KilledAt st \<Rightarrow> st | NoFault \<Rightarrow> Replace")
    (simp_all add: write_secrets_def write_step_def replace_file_def drop_temp_def)

lemma write_result:
  "fst (write_secrets env d s) = Inr () \<longleftrightarrow> fs_temp s = None \<and> we_fault env = NoFault"
  by (cases "we_fault env"; cases "fs_temp s"; cases "case we_fault env of RaisesAt st \<Rightarrow> st | KilledAt st \<Rightarrow> st | NoFault \<Rightarrow> Replace")
    (simp_all add: write_secrets_def write_step_def replace_file_def drop_temp_def)

lemma write_parent:
  "fs_parent (snd (write_secrets env d s)) =
     (if we_fault env \<in> {RaisesAt MakeDirectory, KilledAt MakeDirectory} then fs_parent s
      else fs_parent (make_directory (we_umask env) s))"
  by (cases "we_fault env"; cases "fs_temp s"; cases "case we_fault env of RaisesAt st \<Rightarrow> st | KilledAt st \<Rightarrow> st | NoFault \<Rightarrow> Replace")
    (simp_all add: write_secrets_def write_step_def replace_file_def drop_temp_def)

lemma write_no_directory:
  "we_fault env \<in> {RaisesAt MakeDirectory, KilledAt MakeDirectory} \<Longrightarrow> snd (write_secrets env d s) = s"
  by (auto simp: write_secrets_def write_step_def)

lemma write_readable:
  assumes "readable s" shows "readable (snd (write_secrets env d s))"
proof (cases "we_fault env \<in> {RaisesAt MakeDirectory, KilledAt MakeDirectory}")
  case True
  then show ?thesis using assms write_no_directory by simp
next
  case False
  have "file_readable (fs_file (snd (write_secrets env d s)))"
    using assms by (auto simp: write_file readable_def file_readable_def file_mode_private deserialise_serialise)
  then show ?thesis
    using False assms by (auto simp: readable_def write_parent make_directory_def created_directory split: option.splits)
qed

lemma write_view:
  "secrets_view (snd (write_secrets env d s)) = secrets_view s \<or> secrets_view (snd (write_secrets env d s)) = map_of d"
  by (auto simp: secrets_view_def write_file deserialise_serialise map_of_sort_key)

lemma write_stores:
  assumes "fst (write_secrets env d s) = Inr ()"
  shows "secrets_view (snd (write_secrets env d s)) = map_of d"
  using assms by (simp add: write_result secrets_view_def write_file deserialise_serialise map_of_sort_key)

lemma make_directory_temp: "healthy s \<Longrightarrow> fs_temp (make_directory u s) = None"
  by (simp add: healthy_def)

lemma set_readable:
  assumes "readable s"
  obtains d s1 where "set_secret env u v s = write_secrets env d s1" "map_of d = (secrets_view s)(u \<mapsto> v)"
    "readable s1" "fs_file s1 = fs_file s" "fs_temp s1 = fs_temp s"
proof (rule read_secrets_ok [OF assms])
  fix d s1
  assume r: "read_secrets s = (Inr d, s1)" "map_of d = secrets_view s" "fs_file s1 = fs_file s"
    "fs_temp s1 = fs_temp s" "fs_parent s1 = fs_parent s" "readable s1"
  show thesis
    by (rule that [of "dict_set u v d" s1]) (simp_all add: r set_secret_def)
qed

lemma delete_readable:
  assumes "readable s"
  obtains (absent) s1 where "delete_secret env u s = (Inr (), s1)" "secrets_view s u = None" "readable s1"
      "fs_file s1 = fs_file s" "fs_temp s1 = fs_temp s"
  | (present) d s1 where "delete_secret env u s = write_secrets env d s1" "map_of d = (secrets_view s)(u := None)"
      "readable s1" "fs_file s1 = fs_file s" "fs_temp s1 = fs_temp s"
proof (rule read_secrets_ok [OF assms])
  fix d s1
  assume r: "read_secrets s = (Inr d, s1)" "map_of d = secrets_view s" "fs_file s1 = fs_file s"
    "fs_temp s1 = fs_temp s" "fs_parent s1 = fs_parent s" "readable s1"
  show thesis
  proof (cases "map_of d u")
    case None
    then show ?thesis using r by (intro absent [of s1]) (auto simp: delete_secret_def)
  next
    case (Some x)
    then show ?thesis using r by (intro present [of "dict_pop u d" s1]) (auto simp: delete_secret_def)
  qed
qed

text \<open>With no fault, on a healthy store, the three calls are those of the contract.\<close>

definition undisturbed :: "int \<Rightarrow> write_env" where
  "undisturbed umask = \<lparr>we_umask = umask, we_fault = NoFault\<rparr>"

lemma undisturbed_simps [simp]: "we_fault (undisturbed m) = NoFault" "we_umask (undisturbed m) = m"
  by (simp_all add: undisturbed_def)

lemma written_healthy:
  assumes "readable s" "fs_temp s = None" "we_fault env = NoFault"
  shows "\<exists>s1. write_secrets env d s = (Inr (), s1) \<and> healthy s1 \<and> secrets_view s1 = map_of d"
proof -
  let ?s1 = "snd (write_secrets env d s)"
  have f: "fst (write_secrets env d s) = Inr ()" using assms by (simp add: write_result)
  have "readable ?s1" using assms(1) by (rule write_readable)
  moreover have "fs_temp ?s1 = None" using assms by (simp add: write_no_fault)
  ultimately show ?thesis
    using f write_stores [OF f] by (intro exI [of _ ?s1]) (simp add: healthy_def prod_eq_iff)
qed

interpretation file_backend: secret_store healthy secrets_view get_secret "set_secret (undisturbed m)" "delete_secret (undisturbed m)"
  for m
proof
  fix s :: file_store and u v :: string
  assume h: "healthy s"
  then have r: "readable s" and t: "fs_temp s = None" by (auto simp: healthy_def)
  show "\<exists>s1. get_secret u s = (Inr (secrets_view s u), s1) \<and> healthy s1 \<and> secrets_view s1 = secrets_view s"
    by (rule get_readable [OF r, of u]) (use t in \<open>auto simp: healthy_def\<close>)
  show "\<exists>s1. set_secret (undisturbed m) u v s = (Inr (), s1) \<and> healthy s1 \<and> secrets_view s1 = (secrets_view s)(u \<mapsto> v)"
    by (rule set_readable [OF r, of "undisturbed m" u v]) (use written_healthy t in \<open>metis undisturbed_simps(1)\<close>)
  show "\<exists>s1. delete_secret (undisturbed m) u s = (Inr (), s1) \<and> healthy s1 \<and> secrets_view s1 = (secrets_view s)(u := None)"
  proof (rule delete_readable [OF r, of "undisturbed m" u])
    fix s1
    assume a: "delete_secret (undisturbed m) u s = (Inr (), s1)" "secrets_view s u = None" "readable s1"
      "fs_file s1 = fs_file s" "fs_temp s1 = fs_temp s"
    then show ?thesis using t view_cong [OF a(4)] by (auto simp: healthy_def fun_upd_idem)
  qed (use written_healthy t in \<open>metis undisturbed_simps(1)\<close>)
qed

definition file_backed :: "string \<Rightarrow> 'k secret_world \<Rightarrow> bool" where
  "file_backed p w \<longleftrightarrow> sw_store w = FileBackend p \<and> healthy (sw_files w p)"

lemma at_file_unfold: "at_file p act w = (fst (act (sw_files w p)), w\<lparr>sw_files := (sw_files w)(p := snd (act (sw_files w p)))\<rparr>)"
  by (simp add: at_file_def split: prod.splits)

interpretation module_store: secret_store "file_backed p" "\<lambda>w. secrets_view (sw_files w p)"
    "store_get kc" "store_set kc (undisturbed m)" "store_delete kc (undisturbed m)"
  for kc :: "'k keyring_calls" and p m
proof
  fix w :: "'k secret_world" and u v :: string
  assume b: "file_backed p w"
  then have h: "healthy (sw_files w p)" and st: "sw_store w = FileBackend p" by (simp_all add: file_backed_def)
  show "\<exists>w1. store_get kc u w = (Inr (secrets_view (sw_files w p) u), w1) \<and> file_backed p w1 \<and>
      secrets_view (sw_files w1 p) = secrets_view (sw_files w p)"
    using file_backend.read_ok [OF h, of u] st by (auto simp: store_get_def at_file_unfold file_backed_def)
  show "\<exists>w1. store_set kc (undisturbed m) u v w = (Inr (), w1) \<and> file_backed p w1 \<and>
      secrets_view (sw_files w1 p) = (secrets_view (sw_files w p))(u \<mapsto> v)"
    using file_backend.put_ok [OF h, of m u v] st by (auto simp: store_set_def at_file_unfold file_backed_def)
  show "\<exists>w1. store_delete kc (undisturbed m) u w = (Inr (), w1) \<and> file_backed p w1 \<and>
      secrets_view (sw_files w1 p) = (secrets_view (sw_files w p))(u := None)"
    using file_backend.remove_ok [OF h, of m u] st by (auto simp: store_delete_def at_file_unfold file_backed_def)
qed

text \<open>
  The other backend. The keyring package is third-party: while it is available (\<open>good\<close>) its three
  calls read, set and delete one entry of what it \<open>holds\<close>; to delete an absent entry may be answered
  with \<open>PasswordDeleteError\<close>.
\<close>

definition keyring_laws :: "'k keyring_calls \<Rightarrow> ('k \<Rightarrow> bool) \<Rightarrow> ('k \<Rightarrow> string \<Rightarrow> string option) \<Rightarrow> bool" where
  "keyring_laws kc good holds \<longleftrightarrow> (\<forall>k u. good k \<longrightarrow>
     kc_get kc u k = Inr (holds k u) \<and>
     (\<forall>v. \<exists>k1. kc_set kc u v k = (Inr (), k1) \<and> good k1 \<and> holds k1 = (holds k)(u \<mapsto> v)) \<and>
     (\<exists>r k1. kc_delete kc u k = (r, k1) \<and> r \<in> {Inr (), Inl PasswordDeleteError} \<and> good k1 \<and> holds k1 = (holds k)(u := None)))"

definition keyring_backed ::
  "'k keyring_calls \<Rightarrow> ('k \<Rightarrow> bool) \<Rightarrow> ('k \<Rightarrow> string \<Rightarrow> string option) \<Rightarrow> 'k secret_world \<Rightarrow> bool" where
  "keyring_backed kc good holds w \<longleftrightarrow> keyring_laws kc good holds \<and> sw_store w = KeyringBackend \<and> good (sw_keyring w)"

interpretation keyring_store: secret_store "keyring_backed kc good holds" "\<lambda>w. holds (sw_keyring w)"
    "store_get kc" "store_set kc env" "store_delete kc env"
  for kc :: "'k keyring_calls" and good holds env
proof
  fix w :: "'k secret_world" and u v :: string
  assume b: "keyring_backed kc good holds w"
  then have st: "sw_store w = KeyringBackend" and g: "good (sw_keyring w)" and laws: "keyring_laws kc good holds"
    by (simp_all add: keyring_backed_def)
  note law = laws [unfolded keyring_laws_def, rule_format, OF g, of u]
  show "\<exists>w1. store_get kc u w = (Inr (holds (sw_keyring w) u), w1) \<and> keyring_backed kc good holds w1 \<and>
      holds (sw_keyring w1) = holds (sw_keyring w)"
    using law st b by (simp add: store_get_def)
  obtain k1 where "kc_set kc u v (sw_keyring w) = (Inr (), k1)" "good k1" "holds k1 = (holds (sw_keyring w))(u \<mapsto> v)"
    using law by blast
  then show "\<exists>w1. store_set kc env u v w = (Inr (), w1) \<and> keyring_backed kc good holds w1 \<and>
      holds (sw_keyring w1) = (holds (sw_keyring w))(u \<mapsto> v)"
    using st laws by (simp add: store_set_def keyring_backed_def)
  obtain r k2 where "kc_delete kc u (sw_keyring w) = (r, k2)" "r \<in> {Inr (), Inl PasswordDeleteError}" "good k2"
      "holds k2 = (holds (sw_keyring w))(u := None)" using law by blast
  then show "\<exists>w1. store_delete kc env u w = (Inr (), w1) \<and> keyring_backed kc good holds w1 \<and>
      holds (sw_keyring w1) = (holds (sw_keyring w))(u := None)"
    using st laws by (auto simp: store_delete_def keyring_backed_def)
qed

subsection \<open>Secrets come from private files\<close>

text \<open>
  A secret is returned only when the directory denies writing to others and the file grants nothing to group or
  other; whatever the calls return, a read changes neither file nor directory.
\<close>

theorem secrets_come_from_private_files:
  assumes "fst (get_secret u s) = Inr (Some v)"
  shows "(\<exists>m c. fs_file s = Some (m, c) \<and> 64 dvd m \<and> (\<exists>d. deserialise c = Inr d \<and> map_of d u = Some v)) \<and>
    (\<forall>m. fs_parent s = Some m \<longrightarrow> m AND other_write_bit = 0) \<and>
    fs_file (snd (get_secret u s)) = fs_file s \<and> fs_temp (snd (get_secret u s)) = fs_temp s"
proof (cases "check_parent_directory s")
  case (Pair r s1)
  have f: "fs_file s1 = fs_file s" "fs_temp s1 = fs_temp s" using check_parent_frame [of s] Pair by simp_all
  have r: "r = Inr ()" using assms Pair by (cases r) (simp_all add: get_secret_def read_secrets_def)
  have p: "\<forall>m. fs_parent s = Some m \<longrightarrow> m AND other_write_bit = 0"
    using Pair r by (auto simp: check_parent_directory_def directory_exposure_def split: if_splits)
  show ?thesis
  proof (cases "fs_file s")
    case None
    then show ?thesis using assms Pair r f by (simp add: get_secret_def read_secrets_def)
  next
    case (Some x)
    then show ?thesis using assms Pair r f p
      by (cases x; cases "deserialise (snd x)") (auto simp: get_secret_def read_secrets_def mode_is_private_iff split: if_splits)
  qed
qed

definition sample_store :: file_store where
  "sample_store = \<lparr>fs_parent = Some 0x1ED, fs_file = Some (secrets_file_mode, Doc (serialise [(''gmail'', ''pw'')])),
     fs_temp = None, fs_warned = False, fs_warnings = 0\<rparr>"

theorem secrets_come_from_private_files_witness:
  "\<exists>m c. fs_file sample_store = Some (m, c) \<and> 64 dvd m \<and> (\<exists>d. deserialise c = Inr d \<and> map_of d ''gmail'' = Some ''pw'')"
proof -
  have "fst (get_secret ''gmail'' sample_store) = Inr (Some ''pw'')" by code_simp
  from secrets_come_from_private_files [OF this] show ?thesis by blast
qed

subsection \<open>Interrupted writes\<close>

lemma get_value: "readable s \<Longrightarrow> fst (get_secret u s) = Inr (secrets_view s u)"
  by (rule get_readable [of s u]) simp_all

lemma set_secret_atomic:
  assumes "readable s" "set_secret env u v s = (r, s1)"
  shows "readable s1" "secrets_view s1 = secrets_view s \<or> secrets_view s1 = (secrets_view s)(u \<mapsto> v)"
    "r = Inr () \<Longrightarrow> secrets_view s1 = (secrets_view s)(u \<mapsto> v)"
    "fs_temp s = None \<Longrightarrow> r \<noteq> Inl ProcessKilled \<Longrightarrow> fs_temp s1 = None"
    "fs_temp s = None \<Longrightarrow> we_fault env = NoFault \<Longrightarrow> r = Inr ()"
proof -
  obtain d s0 where w: "set_secret env u v s = write_secrets env d s0" "map_of d = (secrets_view s)(u \<mapsto> v)"
    "readable s0" "fs_file s0 = fs_file s" "fs_temp s0 = fs_temp s"
    using set_readable [OF assms(1), of env u v] by metis
  have s1: "s1 = snd (write_secrets env d s0)" and r: "r = fst (write_secrets env d s0)" using assms(2) w(1) by simp_all
  show "readable s1" unfolding s1 by (rule write_readable [OF w(3)])
  show "secrets_view s1 = secrets_view s \<or> secrets_view s1 = (secrets_view s)(u \<mapsto> v)"
    using write_view [of env d s0] w(2) view_cong [OF w(4)] by (simp add: s1)
  show "r = Inr () \<Longrightarrow> secrets_view s1 = (secrets_view s)(u \<mapsto> v)"
    using write_stores [of env d s0] w(2) by (simp add: s1 r)
  show "fs_temp s = None \<Longrightarrow> r \<noteq> Inl ProcessKilled \<Longrightarrow> fs_temp s1 = None"
    using write_temp [of env d s0] w(5) unfolding s1 r by metis
  show "fs_temp s = None \<Longrightarrow> we_fault env = NoFault \<Longrightarrow> r = Inr ()"
    using write_result [of env d s0] w(5) by (simp add: r)
qed

text \<open>
  C30. Wherever a write of a secret is interrupted, by an error or by the end of the process, the store stays readable
  and every name reads as before, or every name but the written one does and that one reads the new value. A write
  that returns has stored the value, and a temporary file stays behind only when the process was killed.
\<close>

theorem interrupted_write_is_atomic:
  assumes "readable s"
  shows "let (r, s1) = set_secret env u v s in
    readable s1 \<and>
    ((\<forall>w. fst (get_secret w s1) = fst (get_secret w s)) \<or>
     (\<forall>w. fst (get_secret w s1) = (if w = u then Inr (Some v) else fst (get_secret w s)))) \<and>
    (r = Inr () \<longrightarrow> fst (get_secret u s1) = Inr (Some v)) \<and>
    (fs_temp s = None \<and> r \<noteq> Inl ProcessKilled \<longrightarrow> fs_temp s1 = None)"
proof -
  obtain r s1 where e: "set_secret env u v s = (r, s1)" by fastforce
  note a = set_secret_atomic [OF assms e]
  have v1: "fst (get_secret w s1) = Inr (secrets_view s1 w)" and v0: "fst (get_secret w s) = Inr (secrets_view s w)" for w
    using get_value a(1) assms by simp_all
  show ?thesis using a by (auto simp: e v1 v0)
qed

theorem interrupted_write_is_atomic_witness:
  "let (r, s1) = set_secret \<lparr>we_umask = 0x3F, we_fault = KilledAt SyncDirectory\<rparr> ''gmail'' ''new'' sample_store in
    (\<forall>w. fst (get_secret w s1) = fst (get_secret w sample_store)) \<or>
    (\<forall>w. fst (get_secret w s1) = (if w = ''gmail'' then Inr (Some ''new'') else fst (get_secret w sample_store)))"
proof -
  have "readable sample_store" by code_simp
  from interrupted_write_is_atomic [OF this, of "\<lparr>we_umask = 0x3F, we_fault = KilledAt SyncDirectory\<rparr>" "''gmail''" "''new''"]
  show ?thesis by (auto simp: Let_def split: prod.splits)
qed

text \<open>
  A write killed while its temporary file exists leaves it behind: secrets still read as before, and every later
  write, of any name, is refused until the file is removed.
\<close>

theorem killed_write_blocks_writes:
  assumes "healthy s" "we_fault env = KilledAt step" "step \<in> {WriteTemp, SetMode, Replace}" "we_fault env' = NoFault"
  shows "let s1 = snd (set_secret env u v s) in
    fst (get_secret w s1) = fst (get_secret w s) \<and> fst (set_secret env' u' v' s1) = Inl StaleTemp \<and>
    fst (get_secret w (snd (set_secret env' u' v' s1))) = fst (get_secret w s) \<and>
    fst (set_secret env' u' v' (drop_temp s1)) = Inr ()"
proof -
  have r: "readable s" and t: "fs_temp s = None" using assms(1) by (simp_all add: healthy_def)
  obtain d s0 where w: "set_secret env u v s = write_secrets env d s0"
    "readable s0" "fs_file s0 = fs_file s" "fs_temp s0 = fs_temp s"
    using set_readable [OF r, of env u v] by metis
  define s1 where "s1 = snd (set_secret env u v s)"
  have r1: "readable s1" unfolding s1_def w(1) by (rule write_readable [OF w(2)])
  have t1: "fs_temp s1 \<noteq> None" and f1: "fs_file s1 = fs_file s"
    unfolding s1_def w(1) using assms(2,3) t w(3,4) by (auto simp: write_file write_secrets_def write_step_def)
  obtain d' s0' where w': "set_secret env' u' v' s1 = write_secrets env' d' s0'"
    "readable s0'" "fs_file s0' = fs_file s1" "fs_temp s0' = fs_temp s1"
    using set_readable [OF r1, of env' u' v'] by metis
  have b: "write_secrets env' d' s0' = (Inl StaleTemp, make_directory (we_umask env') s0')"
    using write_blocked assms(4) w'(4) t1 by simp
  have "readable (make_directory (we_umask env') s0')" by (rule readable_make [OF w'(2)])
  moreover have "readable (drop_temp s1)" "fs_temp (drop_temp s1) = None"
    using r1 by (auto simp: readable_def drop_temp_def split: option.splits)
  ultimately show ?thesis
    using set_secret_atomic(5) [of "drop_temp s1" env' u' v'] assms(4) r r1 f1 w' b
      view_cong [OF f1] view_cong [of "make_directory (we_umask env') s0'" s]
    by (simp add: s1_def [symmetric] get_value) (metis prod.collapse)
qed

theorem killed_write_blocks_writes_witness:
  "fst (set_secret (undisturbed 0x3F) ''other'' ''x''
     (snd (set_secret \<lparr>we_umask = 0x3F, we_fault = KilledAt Replace\<rparr> ''gmail'' ''new'' sample_store))) = Inl StaleTemp"
proof -
  have h: "healthy sample_store" by code_simp
  show ?thesis
    using killed_write_blocks_writes [OF h, of "\<lparr>we_umask = 0x3F, we_fault = KilledAt Replace\<rparr>" Replace "undisturbed 0x3F"
        "''gmail''" "''new''" "''w''" "''other''" "''x''"]
    by (simp add: Let_def)
qed

lemma read_secrets_unchanged: "fs_file (snd (read_secrets s)) = fs_file s"
  using check_parent_frame [of s]
  by (cases "check_parent_directory s"; cases "fst (check_parent_directory s)"; cases "fs_file s")
    (auto simp: read_secrets_def)

text \<open>A file that does not read, for its mode, its directory or its contents, is never overwritten by a later write.\<close>

lemma unreadable_file_is_kept:
  assumes "fst (read_secrets s) = Inl e"
  shows "fst (set_secret env u v s) = Inl e \<and> fs_file (snd (set_secret env u v s)) = fs_file s \<and>
    fst (delete_secret env u s) = Inl e \<and> fs_file (snd (delete_secret env u s)) = fs_file s"
  using assms read_secrets_unchanged [of s] by (cases "read_secrets s") (simp add: set_secret_def delete_secret_def)

subsection \<open>Slots\<close>

lemma refresh_username_inj: "refresh_username m = refresh_username n \<longleftrightarrow> m = n"
  by (simp add: refresh_username_def)

lemma slots_apart: "account_name_error n = None \<Longrightarrow> n \<noteq> refresh_username m"
  by (auto simp: account_name_error_def refresh_username_def refresh_suffix_def keyring_subkey_separator_def split: if_splits)

lemmas slot_simps = get_password_def set_password_def get_refresh_token_def set_refresh_token_def refresh_username_inj

text \<open>
  For accounts whose names pass the check, storing a password changes no refresh token, storing a refresh token
  changes no password, and neither touches another account's slot of its own kind.
\<close>

theorem secret_slots_do_not_overlap:
  assumes "file_backed p w" "account_name_error n = None" "account_name_error m = None"
  shows "let w1 = snd (set_refresh_token kc (undisturbed um) m t w); w2 = snd (set_password kc (undisturbed um) m t w) in
    fst (get_password kc n w1) = fst (get_password kc n w) \<and>
    fst (get_refresh_token kc n w2) = fst (get_refresh_token kc n w) \<and>
    fst (get_refresh_token kc n w1) = (if n = m then Inr (Some t) else fst (get_refresh_token kc n w)) \<and>
    fst (get_password kc n w2) = (if n = m then Inr (Some t) else fst (get_password kc n w))"
  using slots_apart [OF assms(2), of m] slots_apart [OF assms(3), of n]
  by (auto simp: slot_simps module_store.put_then_read [OF assms(1)] module_store.read_value [OF assms(1)])

text \<open>A keyring that is a list of entries, and a process that uses the sample file.\<close>

definition listed_keyring :: "(string \<times> string) list keyring_calls" where
  "listed_keyring = \<lparr>kc_get = (\<lambda>u k. Inr (map_of k u)), kc_set = (\<lambda>u v k. (Inr (), dict_set u v k)),
     kc_delete = (\<lambda>u k. if map_of k u = None then (Inl PasswordDeleteError, k) else (Inr (), dict_pop u k))\<rparr>"

definition sample_world :: "(string \<times> string) list secret_world" where
  "sample_world = \<lparr>sw_store = FileBackend ''s.json'', sw_pinned = True, sw_files = (\<lambda>_. sample_store),
     sw_keyring = [(''gmail:refresh'', ''token''), (''work'', ''pw2'')]\<rparr>"

lemma sample_backed: "file_backed ''s.json'' sample_world"
  by code_simp

lemma listed_keyring_laws: "keyring_laws listed_keyring (\<lambda>_. True) map_of"
  by (auto simp: keyring_laws_def listed_keyring_def)

theorem secret_slots_do_not_overlap_witness:
  "fst (get_password listed_keyring ''gmail'' (snd (set_refresh_token listed_keyring (undisturbed 0x3F) ''gmail'' ''t'' sample_world))) =
   fst (get_password listed_keyring ''gmail'' sample_world)"
proof -
  have n: "account_name_error ''gmail'' = None" by code_simp
  show ?thesis using secret_slots_do_not_overlap [OF sample_backed n n, of listed_keyring "0x3F" "''t''"] by (simp add: Let_def)
qed

text \<open>What the check prevents: the password of an account named like another's token slot replaces the token.\<close>

theorem separator_name_takes_token:
  "account_name_error ''gmail:refresh'' = Some NameHasSeparator \<and>
   fst (get_refresh_token listed_keyring ''gmail'' (snd (set_password listed_keyring (undisturbed 0x3F) ''gmail:refresh'' ''pw'' sample_world))) =
     Inr (Some ''pw'')"
  using module_store.put_then_read [OF sample_backed] by (simp add: slot_simps refresh_username_def refresh_suffix_def, code_simp)

subsection \<open>Migration\<close>

definition slots_of :: "string list \<Rightarrow> string set" where
  "slots_of names = set names \<union> refresh_username ` set names"

lemma set_candidates: "set (concat (map (\<lambda>name. [name, refresh_username name]) names)) = slots_of names"
  by (auto simp: slots_of_def)

lemma read_keyring_total:
  "(\<And>u. kc_get kc u k = Inr (src u)) \<Longrightarrow> read_keyring kc k us = Inr (map (\<lambda>u. (u, src u)) us)"
  by (induction us) simp_all

lemma map_of_pairs: "map_of (map (\<lambda>u. (u, f u)) us) u = (if u \<in> set us then Some (f u) else None)"
  by (induction us) auto

lemma planned_items:
  assumes "source = map (\<lambda>u. (u, src u)) (concat (map (\<lambda>name. [name, refresh_username name]) names))"
  shows "\<And>i. i \<in> set (fst (plan_secret_migration names source)) \<Longrightarrow> mi_value i = src (mi_username i) \<and> mi_value i \<noteq> None"
    "mi_username ` set (fst (plan_secret_migration names source)) = {u \<in> slots_of names. src u \<noteq> None}"
proof -
  have v: "map_of source u = Some (src u)" if "u \<in> slots_of names" for u
    using that by (simp add: assms map_of_pairs set_candidates del: set_concat)
  have i: "items_of source name =
      [\<lparr>mi_account_name = name, mi_username = name, mi_kind = PasswordKind, mi_value = src name\<rparr>,
       \<lparr>mi_account_name = name, mi_username = refresh_username name, mi_kind = RefreshKind, mi_value = src (refresh_username name)\<rparr>]"
    if "name \<in> set names" for name
    using v [of name] v [of "refresh_username name"] that by (simp add: items_of_def slots_of_def)
  show "\<And>i. i \<in> set (fst (plan_secret_migration names source)) \<Longrightarrow> mi_value i = src (mi_username i) \<and> mi_value i \<noteq> None"
    by (auto simp: plan_secret_migration_def Let_def i)
  show "mi_username ` set (fst (plan_secret_migration names source)) = {u \<in> slots_of names. src u \<noteq> None}"
    by (force simp: plan_secret_migration_def Let_def i slots_of_def)
qed

lemma copy_items_safe:
  assumes "\<And>i. i \<in> set is \<Longrightarrow> mi_value i = src (mi_username i) \<and> mi_value i \<noteq> None" "readable s" "copy_items envs is s = (r, s1)"
  shows "readable s1 \<and> (\<forall>u. secrets_view s1 u = secrets_view s u \<or> u \<in> mi_username ` set is \<and> secrets_view s1 u = src u) \<and>
    (r = Inr () \<longrightarrow> (\<forall>u. secrets_view s1 u = (if u \<in> mi_username ` set is then src u else secrets_view s u)))"
  using assms
proof (induction "is" arbitrary: envs s r s1)
  case (Cons i "is")
  obtain v where v: "mi_value i = Some v" "src (mi_username i) = Some v" using Cons.prems(1) [of i] by fastforce
  obtain r0 s0 where e: "set_secret (envs 0) (mi_username i) v s = (r0, s0)" by fastforce
  note a = set_secret_atomic [OF Cons.prems(2) e]
  show ?case
  proof (cases r0)
    case (Inl x)
    then show ?thesis using Cons.prems(3) e v a(1,2) by auto
  next
    case (Inr x)
    then have "copy_items (\<lambda>n. envs (Suc n)) is s0 = (r, s1)" using Cons.prems(3) e v by simp
    moreover have "mi_value j = src (mi_username j) \<and> mi_value j \<noteq> None" if "j \<in> set is" for j
      by (rule Cons.prems(1)) (simp add: that)
    ultimately have "readable s1 \<and> (\<forall>u. secrets_view s1 u = secrets_view s0 u \<or> u \<in> mi_username ` set is \<and> secrets_view s1 u = src u) \<and>
        (r = Inr () \<longrightarrow> (\<forall>u. secrets_view s1 u = (if u \<in> mi_username ` set is then src u else secrets_view s0 u)))"
      by (intro Cons.IH [OF _ a(1)])
    then show ?thesis using a(3) Inr v(2) by (simp add: image_iff) metis
  qed
qed simp

lemma copy_items_undisturbed:
  assumes "\<And>i. i \<in> set is \<Longrightarrow> mi_value i \<noteq> None" "healthy s" "\<And>n. we_fault (envs n) = NoFault"
  shows "fst (copy_items envs is s) = Inr ()"
  using assms
proof (induction "is" arbitrary: envs s)
  case (Cons i "is")
  obtain v where v: "mi_value i = Some v" using Cons.prems(1) [of i] by fastforce
  obtain r0 s0 where e: "set_secret (envs 0) (mi_username i) v s = (r0, s0)" by fastforce
  have h: "readable s" "fs_temp s = None" using Cons.prems(2) by (simp_all add: healthy_def)
  note a = set_secret_atomic [OF h(1) e]
  have "r0 = Inr ()" using a(5) h Cons.prems(3) by simp
  moreover then have "healthy s0" using a(1,4) h by (simp add: healthy_def)
  ultimately show ?case using Cons.IH [of s0 "\<lambda>n. envs (Suc n)"] Cons.prems(1,3) e v by simp
qed simp

text \<open>
  C31. With a keyring that can be read, the migration leaves the keyring alone and every slot of the file either as it
  was or with the keyring's value, however its writes are interrupted, and the file stays readable. When it returns,
  exactly the slots the keyring holds for these accounts carry its values. On a store without a stale temporary file,
  undisturbed writes make it return. A dry run changes nothing.
\<close>

theorem migration_complete_or_harmless:
  assumes "\<And>u. kc_get kc u (sw_keyring w) = Inr (src u)" "readable (sw_files w path)"
  shows "let (r, w1) = migrate_secrets kc envs False names path w in
    sw_keyring w1 = sw_keyring w \<and> readable (sw_files w1 path) \<and>
    (\<forall>u. secrets_view (sw_files w1 path) u = secrets_view (sw_files w path) u \<or>
         u \<in> slots_of names \<and> src u \<noteq> None \<and> secrets_view (sw_files w1 path) u = src u) \<and>
    (is_ok r \<longrightarrow> (\<forall>u. secrets_view (sw_files w1 path) u =
         (if u \<in> slots_of names \<and> src u \<noteq> None then src u else secrets_view (sw_files w path) u))) \<and>
    (fs_temp (sw_files w path) = None \<and> (\<forall>n. we_fault (envs n) = NoFault) \<longrightarrow> is_ok r) \<and>
    snd (migrate_secrets kc envs True names path w) = w"
proof -
  define source where "source = map (\<lambda>u. (u, src u)) (concat (map (\<lambda>name. [name, refresh_username name]) names))"
  have k: "read_keyring kc (sw_keyring w) (concat (map (\<lambda>name. [name, refresh_username name]) names)) = Inr source"
    unfolding source_def by (rule read_keyring_total) (rule assms(1))
  define its where "its = fst (plan_secret_migration names source)"
  note p = planned_items [OF source_def, folded its_def]
  obtain r s1 where c: "copy_items envs its (sw_files w path) = (r, s1)" by fastforce
  note safe = copy_items_safe [OF p(1) assms(2) c, unfolded p(2)]
  have ok: "fs_temp (sw_files w path) = None \<Longrightarrow> (\<forall>n. we_fault (envs n) = NoFault) \<Longrightarrow> r = Inr ()"
    using copy_items_undisturbed [of its "sw_files w path" envs, OF conjunct2 [OF p(1)]] assms(2) c by (simp add: healthy_def)
  have m: "migrate_secrets kc envs False names path w =
      (case r of Inl e \<Rightarrow> Inl e | Inr _ \<Rightarrow> Inr (length its), w\<lparr>sw_files := (sw_files w)(path := s1)\<rparr>)"
    using c by (cases r) (simp_all add: migrate_secrets_def k its_def at_file_unfold)
  have dry: "snd (migrate_secrets kc envs True names path w) = w" by (simp add: migrate_secrets_def k Let_def)
  have good: "is_ok r \<longleftrightarrow> r = Inr ()" by (cases r) auto
  have res: "is_ok (case r of Inl e \<Rightarrow> Inl e | Inr _ \<Rightarrow> Inr (length its)) = is_ok r" by (cases r) auto
  show ?thesis using safe ok dry by (simp add: m Let_def res good)
qed

theorem migration_complete_or_harmless_witness:
  "let (r, w1) = migrate_secrets listed_keyring (\<lambda>n. \<lparr>we_umask = 0x3F, we_fault = if n = 1 then RaisesAt Replace else NoFault\<rparr>)
       False [''gmail'', ''work''] ''s.json'' sample_world in
    readable (sw_files w1 ''s.json'') \<and> sw_keyring w1 = sw_keyring sample_world"
proof -
  have k: "kc_get listed_keyring u (sw_keyring sample_world) = Inr (map_of (sw_keyring sample_world) u)" for u
    by (simp add: listed_keyring_def)
  have r: "readable (sw_files sample_world ''s.json'')" using sample_backed by (simp add: file_backed_def healthy_def)
  show ?thesis
    using migration_complete_or_harmless [OF k r, of "\<lambda>n. \<lparr>we_umask = 0x3F, we_fault = if n = 1 then RaisesAt Replace else NoFault\<rparr>"
        "[''gmail'', ''work'']"]
    by (simp add: Let_def split: prod.splits)
qed

subsection \<open>The selected backend\<close>

lemma default_load_keeps_pinned:
  "sw_pinned w \<Longrightarrow> snd (load_config env configs None w) = w"
  by (simp add: load_config_def configure_def Let_def split: option.splits)

text \<open>
  Once a configuration at a path other than the default is loaded, later loads that name no path leave its backend
  selected, whatever the environment and the files say then.
\<close>

theorem named_backend_survives:
  assumes "load_config env configs (Some p) w = (Some cfg, w1)" "p \<noteq> default_config_path env"
  shows "sw_store w1 = (if sc_backend cfg = ''file'' then FileBackend (sc_file_path cfg) else KeyringBackend) \<and>
    fold (\<lambda>(e, c) v. snd (load_config e c None v)) later w1 = w1"
proof -
  have p: "sw_pinned w1" and st: "sw_store w1 = (if sc_backend cfg = ''file'' then FileBackend (sc_file_path cfg) else KeyringBackend)"
    using assms by (auto simp: load_config_def Let_def configure_def split: option.splits if_splits)
  have "fold (\<lambda>(e, c) v. snd (load_config e c None v)) later w1 = w1"
    by (induction later) (auto simp: default_load_keeps_pinned [OF p])
  then show ?thesis using st by simp
qed

theorem named_backend_survives_witness:
  "fold (\<lambda>(e, c) v. snd (load_config e c None v)) [(\<lparr>ce_localmail_config = None, ce_xdg_config_home = None, ce_home = ''/home/a''\<rparr>,
      \<lambda>_. Some \<lparr>sc_backend = ''keyring'', sc_file_path = ''x''\<rparr>)]
     (snd (load_config \<lparr>ce_localmail_config = None, ce_xdg_config_home = None, ce_home = ''/home/a''\<rparr>
        (\<lambda>_. Some \<lparr>sc_backend = ''file'', sc_file_path = ''s.json''\<rparr>) (Some ''/etc/localmail.toml'') sample_world)) =
   snd (load_config \<lparr>ce_localmail_config = None, ce_xdg_config_home = None, ce_home = ''/home/a''\<rparr>
        (\<lambda>_. Some \<lparr>sc_backend = ''file'', sc_file_path = ''s.json''\<rparr>) (Some ''/etc/localmail.toml'') sample_world)"
proof -
  let ?e = "\<lparr>ce_localmail_config = None, ce_xdg_config_home = None, ce_home = ''/home/a''\<rparr>"
  let ?c = "\<lambda>_. Some \<lparr>sc_backend = ''file'', sc_file_path = ''s.json''\<rparr>"
  have l: "load_config ?e ?c (Some ''/etc/localmail.toml'') sample_world =
      (Some \<lparr>sc_backend = ''file'', sc_file_path = ''s.json''\<rparr>, snd (load_config ?e ?c (Some ''/etc/localmail.toml'') sample_world))"
    by (simp add: load_config_def Let_def)
  have n: "''/etc/localmail.toml'' \<noteq> default_config_path ?e" by code_simp
  show ?thesis using named_backend_survives [OF l n] by blast
qed

text \<open>A configuration named by the environment variable is a default one to the loader, so it is never pinned.\<close>

theorem environment_config_is_not_pinned:
  "\<not> sw_pinned w \<Longrightarrow> \<not> sw_pinned (snd (load_config (env\<lparr>ce_localmail_config := Some path\<rparr>) configs None w))"
  by (auto simp: load_config_def configure_def Let_def split: option.splits)

end
