(* ===== verification/Accounts.thy ===== *)
theory Accounts
  imports Daemon Secrets Chunking
begin

text \<open>
  The account table and everything that writes it: the service of the administration pages
  (\<open>api/admin/accounts.py\<close>), the seed from the configuration (\<open>account_seed.py\<close>, the two checks of
  \<open>config.Config\<close>), the commands that resolve, pause, equip and remove an account
  (\<open>cli_account_resolve.py\<close>, \<open>cli_sync_toggle.py\<close>, \<open>cli.py\<close>) and the forms
  (\<open>serve/admin/account_forms.py\<close>). The rows are those the daemon reads (theory \<open>Daemon\<close>); \<open>created_at\<close>,
  which nothing here reads or changes, is left out.

  Calls are given the instant \<open>now()\<close> of their transaction and, where a statement follows a read, what
  other sessions commit in between. Text holds no NUL. The IMAP server behind the connection test is a parameter.
\<close>

subsection \<open>The table\<close>

text \<open>\<open>ab_dependents\<close> are the rows of the other tables whose reference to an account cascades, by table and row.\<close>

record accounts_db =
  ab_accounts :: "account list"
  ab_next_id :: int
  ab_messages :: "(int \<times> int) list"
  ab_dependents :: "((string \<times> int) \<times> int) list"

record account_summary =
  as_id :: int
  as_name :: string
  as_email :: string
  as_auth_method :: string
  as_sync_enabled :: bool

datatype field_error =
    BadName name_error
  | EmailBlank
  | EmailNoAt
  | UnknownAuthMethod
  | ArchiveWithHost
  | HostMissing
  | HostTooLong
  | BadPort
  | BadProvider
  | NameTaken
  | UnknownFields
  | CheckFailed
  | NotApplicable
  | ProbeRefused

text \<open>\<open>DatabaseRefusal\<close> is an error of the database the service does not translate.\<close>

datatype account_api_error = FieldError field_error | NoSuchAccount | AccountInUse | DatabaseRefusal

definition list_accounts :: "accounts_db \<Rightarrow> account_summary list" where
  "list_accounts d =
     map (\<lambda>a. \<lparr>as_id = acc_id a, as_name = acc_name a, as_email = acc_email a,
               as_auth_method = acc_auth_method a, as_sync_enabled = acc_sync_enabled a\<rparr>)
         (sort_key acc_id (ab_accounts d))"

definition get_account :: "int \<Rightarrow> accounts_db \<Rightarrow> account_api_error + account" where
  "get_account aid d =
     (case find (\<lambda>a. acc_id a = aid) (ab_accounts d) of None \<Rightarrow> Inl NoSuchAccount | Some a \<Rightarrow> Inr a)"

definition get_account_by_name :: "string \<Rightarrow> accounts_db \<Rightarrow> account option" where
  "get_account_by_name name d = find (\<lambda>a. acc_name a = name) (ab_accounts d)"

definition list_accounts_full :: "accounts_db \<Rightarrow> account list" where
  "list_accounts_full d = sort_key acc_id (ab_accounts d)"

subsection \<open>Field rules\<close>

definition hostname_max :: nat where "hostname_max = 255"
definition port_min :: int where "port_min = 1"
definition port_max :: int where "port_max = 65535"

definition validate_email :: "string option \<Rightarrow> field_error + unit" where
  "validate_email email =
     (case email of
        None \<Rightarrow> Inl EmailBlank
      | Some e \<Rightarrow> if e = [] \<or> strip e = [] then Inl EmailBlank
                  else if CHR ''@'' \<notin> set e then Inl EmailNoAt else Inr ())"

definition validate_combo ::
  "string option \<Rightarrow> string option \<Rightarrow> int option \<Rightarrow> string option \<Rightarrow> field_error + unit" where
  "validate_combo auth_method imap_host imap_port oauth_provider =
     (if auth_method \<notin> {Some ''password'', Some ''oauth2'', Some ''archive''} then Inl UnknownAuthMethod
      else bindr
        (if auth_method = Some ''archive''
         then (if imap_host \<noteq> None \<or> imap_port \<noteq> None then Inl ArchiveWithHost else Inr ())
         else (case imap_host of
                 None \<Rightarrow> Inl HostMissing
               | Some h \<Rightarrow>
                   if h = [] then Inl HostMissing
                   else if hostname_max < length h then Inl HostTooLong
                   else (case imap_port of
                           None \<Rightarrow> Inl BadPort
                         | Some p \<Rightarrow> if port_min \<le> p \<and> p \<le> port_max then Inr () else Inl BadPort)))
        (\<lambda>_. if auth_method = Some ''oauth2'' \<and> oauth_provider \<noteq> Some ''gmail'' then Inl BadProvider else Inr ()))"

text \<open>The keyword arguments of \<open>create_account\<close>.\<close>

record create_args =
  ca_name :: string
  ca_email :: string
  ca_auth_method :: string
  ca_imap_host :: "string option"
  ca_imap_port :: "int option"
  ca_oauth_provider :: "string option"
  ca_folder_allow :: "string list option"
  ca_folder_deny :: "string list option"
  ca_folder_deny_flags :: "string list option"

definition validate_create_fields :: "create_args \<Rightarrow> field_error + unit" where
  "validate_create_fields c =
     (case account_name_error (ca_name c) of
        Some e \<Rightarrow> Inl (BadName e)
      | None \<Rightarrow> bindr (validate_email (Some (ca_email c)))
          (\<lambda>_. validate_combo (Some (ca_auth_method c)) (ca_imap_host c) (ca_imap_port c) (ca_oauth_provider c)))"

subsection \<open>Writes\<close>

text \<open>The table's own checks: the known methods, and a host and port exactly for the live ones.\<close>

definition row_check :: "account \<Rightarrow> bool" where
  "row_check a \<longleftrightarrow>
     (acc_auth_method a = ''archive'' \<and> acc_imap_host a = None \<and> acc_imap_port a = None \<or>
      acc_auth_method a \<in> {''password'', ''oauth2''} \<and> acc_imap_host a \<noteq> None \<and> acc_imap_port a \<noteq> None)"

definition new_row :: "instant \<Rightarrow> int \<Rightarrow> create_args \<Rightarrow> account" where
  "new_row now aid c =
     \<lparr>acc_id = aid, acc_name = ca_name c, acc_email = ca_email c, acc_auth_method = ca_auth_method c,
      acc_oauth_provider = ca_oauth_provider c, acc_imap_host = ca_imap_host c, acc_imap_port = ca_imap_port c,
      acc_folder_allow = ca_folder_allow c, acc_folder_deny = ca_folder_deny c,
      acc_folder_deny_flags = ca_folder_deny_flags c, acc_sync_enabled = True, acc_updated_at = now\<rparr>"

text \<open>A refused insert has drawn its number from the sequence all the same.\<close>

definition create_account :: "instant \<Rightarrow> create_args \<Rightarrow> accounts_db \<Rightarrow> (account_api_error + account) \<times> accounts_db" where
  "create_account now c d =
     (case validate_create_fields c of
        Inl e \<Rightarrow> (Inl (FieldError e), d)
      | Inr _ \<Rightarrow>
          (let row = new_row now (ab_next_id d) c; drawn = d\<lparr>ab_next_id := ab_next_id d + 1\<rparr>
           in if \<not> row_check row then (Inl DatabaseRefusal, drawn)
              else if list_ex (\<lambda>a. acc_name a = ca_name c) (ab_accounts d) then (Inl (FieldError NameTaken), drawn)
              else (let d1 = drawn\<lparr>ab_accounts := ab_accounts d @ [row]\<rparr> in (get_account (ab_next_id d) d1, d1))))"

text \<open>
  The keyword arguments of \<open>update_account\<close>: \<open>None\<close> is an absent one, and a present one may be Python's
  \<open>None\<close>. \<open>up_unknown\<close> says that some other name is among them.
\<close>

record update_args =
  up_unknown :: bool
  up_email :: "string option option"
  up_auth_method :: "string option option"
  up_oauth_provider :: "string option option"
  up_imap_host :: "string option option"
  up_imap_port :: "int option option"
  up_folder_allow :: "string list option option"
  up_folder_deny :: "string list option option"
  up_folder_deny_flags :: "string list option option"
  up_sync_enabled :: "bool option option"

definition no_update :: update_args where
  "no_update = \<lparr>up_unknown = False, up_email = None, up_auth_method = None, up_oauth_provider = None, up_imap_host = None,
     up_imap_port = None, up_folder_allow = None, up_folder_deny = None, up_folder_deny_flags = None, up_sync_enabled = None\<rparr>"

definition given :: "'a option \<Rightarrow> 'a \<Rightarrow> 'a" where
  "given arg current = (case arg of None \<Rightarrow> current | Some v \<Rightarrow> v)"

text \<open>The row an \<open>UPDATE\<close> makes, or \<open>None\<close> when a column that is \<open>NOT NULL\<close> would become null.\<close>

definition updated_row :: "instant \<Rightarrow> update_args \<Rightarrow> account \<Rightarrow> account option" where
  "updated_row now u a =
     (case (given (up_email u) (Some (acc_email a)), given (up_auth_method u) (Some (acc_auth_method a)),
            given (up_sync_enabled u) (Some (acc_sync_enabled a))) of
        (Some email, Some auth, Some sync) \<Rightarrow>
          Some (a\<lparr>acc_email := email, acc_auth_method := auth,
                  acc_oauth_provider := given (up_oauth_provider u) (acc_oauth_provider a),
                  acc_imap_host := given (up_imap_host u) (acc_imap_host a),
                  acc_imap_port := given (up_imap_port u) (acc_imap_port a),
                  acc_folder_allow := given (up_folder_allow u) (acc_folder_allow a),
                  acc_folder_deny := given (up_folder_deny u) (acc_folder_deny a),
                  acc_folder_deny_flags := given (up_folder_deny_flags u) (acc_folder_deny_flags a),
                  acc_sync_enabled := sync, acc_updated_at := now\<rparr>)
      | _ \<Rightarrow> None)"

definition update_row :: "instant \<Rightarrow> update_args \<Rightarrow> int \<Rightarrow> accounts_db \<Rightarrow> (account_api_error + account) \<times> accounts_db" where
  "update_row now u aid d =
     (case find (\<lambda>a. acc_id a = aid) (ab_accounts d) of
        None \<Rightarrow> (Inl NoSuchAccount, d)
      | Some a \<Rightarrow>
          (case updated_row now u a of
             None \<Rightarrow> (Inl DatabaseRefusal, d)
           | Some b \<Rightarrow>
               if \<not> row_check b then (Inl (FieldError CheckFailed), d)
               else (let d1 = d\<lparr>ab_accounts := update_where (\<lambda>a. acc_id a = aid) (\<lambda>_. b) (ab_accounts d)\<rparr>
                     in (get_account aid d1, d1))))"

text \<open>\<open>between\<close> is what other sessions commit between the validation and the statement.\<close>

definition update_account ::
  "instant \<Rightarrow> (accounts_db \<Rightarrow> accounts_db) \<Rightarrow> int \<Rightarrow> update_args \<Rightarrow> accounts_db \<Rightarrow> (account_api_error + account) \<times> accounts_db" where
  "update_account now between aid u d =
     (if up_unknown u then (Inl (FieldError UnknownFields), d)
      else if u = no_update then (get_account aid d, d)
      else (case get_account aid d of
              Inl e \<Rightarrow> (Inl e, d)
            | Inr current \<Rightarrow>
                (case bindr (case up_email u of None \<Rightarrow> Inr () | Some email \<Rightarrow> validate_email email)
                        (\<lambda>_. validate_combo (given (up_auth_method u) (Some (acc_auth_method current)))
                               (given (up_imap_host u) (acc_imap_host current))
                               (given (up_imap_port u) (acc_imap_port current))
                               (given (up_oauth_provider u) (acc_oauth_provider current))) of
                   Inl e \<Rightarrow> (Inl (FieldError e), d)
                 | Inr _ \<Rightarrow> update_row now u aid (between d))))"

definition touch_account_updated_at :: "instant \<Rightarrow> int \<Rightarrow> accounts_db \<Rightarrow> (account_api_error + unit) \<times> accounts_db" where
  "touch_account_updated_at now aid d =
     (if list_ex (\<lambda>a. acc_id a = aid) (ab_accounts d)
      then (Inr (), d\<lparr>ab_accounts := update_where (\<lambda>a. acc_id a = aid) (\<lambda>a. a\<lparr>acc_updated_at := now\<rparr>) (ab_accounts d)\<rparr>)
      else (Inl NoSuchAccount, d))"

definition drop_account :: "int \<Rightarrow> accounts_db \<Rightarrow> accounts_db" where
  "drop_account aid d =
     d\<lparr>ab_accounts := filter (\<lambda>a. acc_id a \<noteq> aid) (ab_accounts d),
       ab_messages := filter (\<lambda>m. snd m \<noteq> aid) (ab_messages d),
       ab_dependents := filter (\<lambda>r. snd r \<noteq> aid) (ab_dependents d)\<rparr>"

definition delete_account :: "int \<Rightarrow> bool \<Rightarrow> accounts_db \<Rightarrow> (account_api_error + unit) \<times> accounts_db" where
  "delete_account aid force d =
     (if \<not> list_ex (\<lambda>a. acc_id a = aid) (ab_accounts d) then (Inl NoSuchAccount, d)
      else if \<not> force \<and> list_ex (\<lambda>m. snd m = aid) (ab_messages d) then (Inl AccountInUse, d)
      else (Inr (), drop_account aid d))"

subsection \<open>Secrets and the connection test\<close>

datatype account_failure = ApiFailure account_api_error | SecretFailure secret_error

definition store_password ::
  "'k keyring_calls \<Rightarrow> write_env \<Rightarrow> account \<Rightarrow> string \<Rightarrow> 'k secret_world \<Rightarrow> (account_failure + unit) \<times> 'k secret_world" where
  "store_password kc env account password w =
     (if acc_auth_method account \<noteq> ''password'' then (Inl (ApiFailure (FieldError NotApplicable)), w)
      else (case set_password kc env (acc_name account) password w of
              (Inl e, w1) \<Rightarrow> (Inl (SecretFailure e), w1)
            | (Inr _, w1) \<Rightarrow> (Inr (), w1)))"

text \<open>Both slots of a name; the second call is not reached when the first raises.\<close>

definition clear_slots ::
  "'k keyring_calls \<Rightarrow> write_env \<Rightarrow> string \<Rightarrow> 'k secret_world \<Rightarrow> (secret_error + unit) \<times> 'k secret_world" where
  "clear_slots kc env name w =
     (case delete_password kc env name w of
        (Inl e, w1) \<Rightarrow> (Inl e, w1)
      | (Inr _, w1) \<Rightarrow> delete_refresh_token kc env name w1)"

definition clear_secret ::
  "'k keyring_calls \<Rightarrow> write_env \<Rightarrow> account \<Rightarrow> 'k secret_world \<Rightarrow> (secret_error + unit) \<times> 'k secret_world" where
  "clear_secret kc env account w = clear_slots kc env (acc_name account) w"

text \<open>
  What connecting and listing came to: \<open>ImapRuntimeError\<close> is the \<open>RuntimeError\<close> a missing secret raises,
  \<open>ImapConnectFailure\<close> any of the listed connect failures.
\<close>

datatype imap_listing = Listing "(string \<times> string list) list" | ImapRuntimeError | ImapConnectFailure

datatype probe_result =
    ProbeFolders "(string \<times> string list) list"
  | ProbeFieldError
  | ProbeConnectFailure
  | ProbeNotFound
  | ProbeInvalidConfig

definition default_imap_port :: int where "default_imap_port = 993"

definition connection_config :: "account \<Rightarrow> worker_account option" where
  "connection_config a =
     (if acc_auth_method a \<notin> {''password'', ''oauth2''} \<or> acc_oauth_provider a \<notin> {None, Some ''gmail''} then None
      else Some \<lparr>wa_name = acc_name a, wa_email = acc_email a,
                 wa_imap_host = (case acc_imap_host a of None \<Rightarrow> [] | Some h \<Rightarrow> h),
                 wa_imap_port = int_or (acc_imap_port a) default_imap_port,
                 wa_auth_method = acc_auth_method a, wa_oauth_provider = acc_oauth_provider a,
                 wa_folders = \<lparr>folder_allow = [], folder_deny = [], folder_deny_flags = []\<rparr>\<rparr>)"

definition probe_connection ::
  "(worker_account \<Rightarrow> string option \<Rightarrow> imap_listing) \<Rightarrow> int \<Rightarrow> string option \<Rightarrow> accounts_db \<Rightarrow> probe_result" where
  "probe_connection imap account_id gmail_client_secrets d =
     (case get_account account_id d of
        Inl _ \<Rightarrow> ProbeNotFound
      | Inr account \<Rightarrow>
          if acc_auth_method account = ''archive'' then ProbeFieldError
          else if acc_auth_method account = ''oauth2'' \<and> gmail_client_secrets = None then ProbeFieldError
          else (case connection_config account of
                  None \<Rightarrow> ProbeInvalidConfig
                | Some cfg \<Rightarrow>
                    (case imap cfg gmail_client_secrets of
                       Listing fs \<Rightarrow> ProbeFolders fs
                     | ImapRuntimeError \<Rightarrow> ProbeFieldError
                     | ImapConnectFailure \<Rightarrow> ProbeConnectFailure)))"

subsection \<open>The seed from the configuration\<close>

text \<open>An \<open>[[accounts]]\<close> block as \<open>AccountConfig\<close> parses it; its two closed fields are strings here, \<open>toml_types\<close> their check.\<close>

record account_toml =
  tc_name :: string
  tc_email :: string
  tc_imap_host :: string
  tc_imap_port :: int
  tc_auth_method :: string
  tc_oauth_provider :: "string option"
  tc_folder_allow :: "string list"
  tc_folder_deny :: "string list"
  tc_folder_deny_flags :: "string list"

definition toml_types :: "account_toml \<Rightarrow> bool" where
  "toml_types c \<longleftrightarrow> tc_auth_method c \<in> {''password'', ''oauth2''} \<and> tc_oauth_provider c \<in> {None, Some ''gmail''}"

definition usable_account_names :: "account_toml list \<Rightarrow> bool" where
  "usable_account_names cfgs \<longleftrightarrow> list_all (\<lambda>c. account_name_error (tc_name c) = None) cfgs"

definition distinct_account_names :: "account_toml list \<Rightarrow> bool" where
  "distinct_account_names cfgs \<longleftrightarrow> distinct (map tc_name cfgs)"

definition norm_folders :: "string list option \<Rightarrow> string set" where
  "norm_folders v = (case v of None \<Rightarrow> {} | Some xs \<Rightarrow> set xs)"

definition drifted_fields :: "account_toml \<Rightarrow> account \<Rightarrow> string list" where
  "drifted_fields c a =
     (if tc_email c \<noteq> acc_email a then [''email_address''] else []) @
     (if Some (tc_imap_host c) \<noteq> acc_imap_host a then [''imap_host''] else []) @
     (if Some (tc_imap_port c) \<noteq> acc_imap_port a then [''imap_port''] else []) @
     (if tc_auth_method c \<noteq> acc_auth_method a then [''auth_method''] else []) @
     (if tc_oauth_provider c \<noteq> acc_oauth_provider a then [''oauth_provider''] else []) @
     (if norm_folders (Some (tc_folder_allow c)) \<noteq> norm_folders (acc_folder_allow a) then [''folder_allow''] else []) @
     (if norm_folders (Some (tc_folder_deny c)) \<noteq> norm_folders (acc_folder_deny a) then [''folder_deny''] else []) @
     (if norm_folders (Some (tc_folder_deny_flags c)) \<noteq> norm_folders (acc_folder_deny_flags a) then [''folder_deny_flags''] else [])"

definition account_create_kwargs :: "account_toml \<Rightarrow> create_args" where
  "account_create_kwargs c =
     \<lparr>ca_name = tc_name c, ca_email = tc_email c, ca_auth_method = tc_auth_method c, ca_imap_host = Some (tc_imap_host c),
      ca_imap_port = Some (tc_imap_port c), ca_oauth_provider = tc_oauth_provider c,
      ca_folder_allow = Some (tc_folder_allow c), ca_folder_deny = Some (tc_folder_deny c),
      ca_folder_deny_flags = Some (tc_folder_deny_flags c)\<rparr>"

fun plan_account_seed ::
  "account_toml list \<Rightarrow> (string \<Rightarrow> account option) \<Rightarrow> account_toml list \<times> (string \<times> string list) list" where
  "plan_account_seed [] existing = ([], [])"
| "plan_account_seed (c # cs) existing =
     (case plan_account_seed cs existing of
        (to_insert, drift) \<Rightarrow>
          (case existing (tc_name c) of
             None \<Rightarrow> (c # to_insert, drift)
           | Some a \<Rightarrow> if drifted_fields c a \<noteq> [] then (to_insert, (tc_name c, drifted_fields c a) # drift)
                       else (to_insert, drift)))"

text \<open>\<open>{row.name: row for row in list_accounts_full(conn)}\<close>: a later row of the same name would win.\<close>

definition accounts_by_name :: "accounts_db \<Rightarrow> string \<Rightarrow> account option" where
  "accounts_by_name d = map_of (rev (map (\<lambda>a. (acc_name a, a)) (list_accounts_full d)))"

fun create_all :: "instant \<Rightarrow> create_args list \<Rightarrow> accounts_db \<Rightarrow> (account_api_error + unit) \<times> accounts_db" where
  "create_all now [] d = (Inr (), d)"
| "create_all now (c # cs) d =
     (case create_account now c d of
        (Inl e, d1) \<Rightarrow> (Inl e, d1)
      | (Inr _, d1) \<Rightarrow> create_all now cs d1)"

record seed_result =
  sr_inserted :: nat
  sr_skipped :: nat
  sr_drifted :: nat

definition seed_accounts :: "instant \<Rightarrow> account_toml list \<Rightarrow> accounts_db \<Rightarrow> (account_api_error + seed_result) \<times> accounts_db" where
  "seed_accounts now cfgs d =
     (case plan_account_seed cfgs (accounts_by_name d) of
        (to_insert, drift) \<Rightarrow>
          (case create_all now (map account_create_kwargs to_insert) d of
             (Inl e, d1) \<Rightarrow> (Inl e, d1)
           | (Inr _, d1) \<Rightarrow>
               (Inr \<lparr>sr_inserted = length to_insert, sr_skipped = length cfgs - length to_insert, sr_drifted = length drift\<rparr>, d1)))"

text \<open>A transaction that ends in an exception: its rows are gone, the numbers it drew are not.\<close>

definition rolled_back_accounts :: "accounts_db \<Rightarrow> accounts_db \<Rightarrow> accounts_db" where
  "rolled_back_accounts before after = before\<lparr>ab_next_id := ab_next_id after\<rparr>"

text \<open>The seeding half of \<open>init-db\<close>.\<close>

definition init_db_seed :: "instant \<Rightarrow> account_toml list \<Rightarrow> accounts_db \<Rightarrow> (account_api_error + seed_result) \<times> accounts_db" where
  "init_db_seed now cfgs d =
     (case seed_accounts now cfgs d of
        (Inl e, d1) \<Rightarrow> (Inl e, rolled_back_accounts d d1)
      | (Inr r, d1) \<Rightarrow> (Inr r, d1))"

subsection \<open>Commands\<close>

datatype cli_error =
    UnknownAccountName
  | CannotCreate account_api_error
  | UsesOauth
  | UsesOtherMethod
  | UnsupportedProvider
  | NoGmailConfig
  | ArchiveAccountRefused
  | NoSyncableAccounts
  | ForceWithoutRow
  | RefusedInUse
  | ConsentFailed
  | ApiRaised account_api_error
  | SecretRaised secret_error

datatype resolution = Found account | SeedThenUse account_toml | NotFoundAnywhere

definition plan_account_resolution ::
  "string \<Rightarrow> account_toml list \<Rightarrow> (string \<Rightarrow> account option) \<Rightarrow> resolution" where
  "plan_account_resolution name cfgs existing =
     (case existing name of
        Some row \<Rightarrow> Found row
      | None \<Rightarrow> (case find (\<lambda>c. tc_name c = name) cfgs of Some c \<Rightarrow> SeedThenUse c | None \<Rightarrow> NotFoundAnywhere))"

definition resolve_account_row ::
  "instant \<Rightarrow> account_toml list \<Rightarrow> string \<Rightarrow> accounts_db \<Rightarrow> (cli_error + account) \<times> accounts_db" where
  "resolve_account_row now cfgs name d =
     (case plan_account_resolution name cfgs (accounts_by_name d) of
        Found row \<Rightarrow> (Inr row, d)
      | NotFoundAnywhere \<Rightarrow> (Inl UnknownAccountName, d)
      | SeedThenUse c \<Rightarrow>
          (case create_account now (account_create_kwargs c) d of
             (Inl e, d1) \<Rightarrow> (Inl (CannotCreate e), d1)
           | (Inr a, d1) \<Rightarrow> (Inr a, d1)))"

text \<open>The first transaction of \<open>add-account\<close> and \<open>oauth-login\<close>: a refused command rolls the seeded row back.\<close>

definition equip_transaction ::
  "(account \<Rightarrow> cli_error option) \<Rightarrow> instant \<Rightarrow> account_toml list \<Rightarrow> string \<Rightarrow> accounts_db \<Rightarrow> (cli_error + account) \<times> accounts_db" where
  "equip_transaction refuse now cfgs name d =
     (case resolve_account_row now cfgs name d of
        (Inl e, d1) \<Rightarrow> (Inl e, rolled_back_accounts d d1)
      | (Inr a, d1) \<Rightarrow>
          (case refuse a of
             Some e \<Rightarrow> (Inl e, rolled_back_accounts d d1)
           | None \<Rightarrow> (Inr a, d1)))"

definition refuse_password :: "account \<Rightarrow> cli_error option" where
  "refuse_password a =
     (if acc_auth_method a = ''oauth2'' then Some UsesOauth
      else if acc_auth_method a \<noteq> ''password'' then Some UsesOtherMethod else None)"

definition refuse_oauth :: "account \<Rightarrow> cli_error option" where
  "refuse_oauth a =
     (if acc_auth_method a \<noteq> ''oauth2'' then Some UsesOtherMethod
      else if acc_oauth_provider a \<noteq> Some ''gmail'' then Some UnsupportedProvider else None)"

text \<open>
  \<open>between\<close> is what other sessions commit while the operator types, \<open>now2\<close> the start of the last
  transaction.
\<close>

definition touch_after ::
  "instant \<Rightarrow> (accounts_db \<Rightarrow> accounts_db) \<Rightarrow> int \<Rightarrow> (secret_error + unit) \<times> 'k secret_world \<Rightarrow> accounts_db \<Rightarrow>
   (cli_error + unit) \<times> accounts_db \<times> 'k secret_world" where
  "touch_after now2 between aid stored d =
     (case stored of
        (Inl e, w1) \<Rightarrow> (Inl (SecretRaised e), d, w1)
      | (Inr _, w1) \<Rightarrow>
          (case touch_account_updated_at now2 aid (between d) of
             (Inl e, d1) \<Rightarrow> (Inl (ApiRaised e), d1, w1)
           | (Inr _, d1) \<Rightarrow> (Inr (), d1, w1)))"

definition add_account ::
  "'k keyring_calls \<Rightarrow> write_env \<Rightarrow> instant \<Rightarrow> instant \<Rightarrow> (accounts_db \<Rightarrow> accounts_db) \<Rightarrow> account_toml list \<Rightarrow> string \<Rightarrow> string \<Rightarrow>
   accounts_db \<Rightarrow> 'k secret_world \<Rightarrow> (cli_error + unit) \<times> accounts_db \<times> 'k secret_world" where
  "add_account kc env now now2 between cfgs name password d w =
     (case equip_transaction refuse_password now cfgs name d of
        (Inl e, d1) \<Rightarrow> (Inl e, d1, w)
      | (Inr a, d1) \<Rightarrow> touch_after now2 between (acc_id a) (set_password kc env name password w) d1)"

text \<open>\<open>consent\<close> is the refresh token of the browser flow over the client secrets file, \<open>None\<close> when the flow raises.\<close>

definition oauth_login ::
  "'k keyring_calls \<Rightarrow> write_env \<Rightarrow> instant \<Rightarrow> instant \<Rightarrow> (accounts_db \<Rightarrow> accounts_db) \<Rightarrow> account_toml list \<Rightarrow> string option \<Rightarrow>
   (string \<Rightarrow> string option) \<Rightarrow> string \<Rightarrow> accounts_db \<Rightarrow> 'k secret_world \<Rightarrow> (cli_error + unit) \<times> accounts_db \<times> 'k secret_world" where
  "oauth_login kc env now now2 between cfgs client_secrets consent name d w =
     (case equip_transaction refuse_oauth now cfgs name d of
        (Inl e, d1) \<Rightarrow> (Inl e, d1, w)
      | (Inr a, d1) \<Rightarrow>
          (case client_secrets of
             None \<Rightarrow> (Inl NoGmailConfig, d1, w)
           | Some path \<Rightarrow>
               (case consent path of
                  None \<Rightarrow> (Inl ConsentFailed, d1, w)
                | Some token \<Rightarrow> touch_after now2 between (acc_id a) (set_refresh_token kc env name token w) d1)))"

datatype removal = ClearedSecrets | NoRow | DeletedRow

definition cleared_as ::
  "removal \<Rightarrow> accounts_db \<Rightarrow> (secret_error + unit) \<times> 'k secret_world \<Rightarrow> (cli_error + removal) \<times> accounts_db \<times> 'k secret_world" where
  "cleared_as what d cleared = (case cleared of (Inl e, w1) \<Rightarrow> (Inl (SecretRaised e), d, w1) | (Inr _, w1) \<Rightarrow> (Inr what, d, w1))"

definition remove_account ::
  "'k keyring_calls \<Rightarrow> write_env \<Rightarrow> string \<Rightarrow> bool \<Rightarrow> bool \<Rightarrow> accounts_db \<Rightarrow> 'k secret_world \<Rightarrow>
   (cli_error + removal) \<times> accounts_db \<times> 'k secret_world" where
  "remove_account kc env name delete_row force d w =
     (if force \<and> \<not> delete_row then (Inl ForceWithoutRow, d, w)
      else if \<not> delete_row then cleared_as ClearedSecrets d (clear_slots kc env name w)
      else (case get_account_by_name name d of
              None \<Rightarrow> cleared_as NoRow d (clear_slots kc env name w)
            | Some a \<Rightarrow>
                (case delete_account (acc_id a) force d of
                   (Inl AccountInUse, d1) \<Rightarrow> (Inl RefusedInUse, d1, w)
                 | (Inl e, d1) \<Rightarrow> (Inl (ApiRaised e), d1, w)
                 | (Inr _, d1) \<Rightarrow> cleared_as DeletedRow d1 (clear_slots kc env name w))))"

datatype toggle_action = Reject | Noop | Apply

definition plan_sync_toggle :: "string \<Rightarrow> bool \<Rightarrow> bool \<Rightarrow> toggle_action" where
  "plan_sync_toggle auth_method currently_enabled enable =
     (if auth_method = ''archive'' then Reject else if currently_enabled = enable then Noop else Apply)"

definition apply_sync_toggle ::
  "instant \<Rightarrow> (accounts_db \<Rightarrow> accounts_db) \<Rightarrow> string \<Rightarrow> bool \<Rightarrow> accounts_db \<Rightarrow> (cli_error + toggle_action) \<times> accounts_db" where
  "apply_sync_toggle now between name enable d =
     (case get_account_by_name name d of
        None \<Rightarrow> (Inl UnknownAccountName, d)
      | Some a \<Rightarrow>
          (case plan_sync_toggle (acc_auth_method a) (acc_sync_enabled a) enable of
             Reject \<Rightarrow> (Inl ArchiveAccountRefused, d)
           | Noop \<Rightarrow> (Inr Noop, d)
           | Apply \<Rightarrow>
               (case update_account now between (acc_id a) (no_update\<lparr>up_sync_enabled := Some (Some enable)\<rparr>) d of
                  (Inl e, d1) \<Rightarrow> (Inl (ApiRaised e), d1)
                | (Inr _, d1) \<Rightarrow> (Inr Apply, d1))))"

definition live_account_rows :: "string option \<Rightarrow> accounts_db \<Rightarrow> cli_error + account list" where
  "live_account_rows account_name d =
     (case account_name of
        Some (c # cs) \<Rightarrow>
          (case get_account_by_name (c # cs) d of
             None \<Rightarrow> Inl UnknownAccountName
           | Some row \<Rightarrow> if acc_auth_method row = ''archive'' then Inl ArchiveAccountRefused else Inr [row])
      | _ \<Rightarrow>
          (let rows = list_syncable_accounts (ab_accounts d)
           in if rows = [] then Inl NoSyncableAccounts else Inr rows))"

subsection \<open>Forms\<close>

definition deny_flag_choices :: "string list" where
  "deny_flag_choices =
     map (\<lambda>w. CHR 0x5C # w) [''Trash'', ''Junk'', ''All'', ''Drafts'', ''Sent'', ''Important'', ''Flagged'']"

datatype form_error = BadPortNumber | UnknownDenyFlags | MissingField

definition parse_lines :: "string \<Rightarrow> string list option" where
  "parse_lines t =
     (let items = filter (\<lambda>line. line \<noteq> []) (map strip (splitlines t)) in if items = [] then None else Some items)"

definition parse_deny_flags :: "string list \<Rightarrow> form_error + string list option" where
  "parse_deny_flags selected =
     (if list_all (\<lambda>f. f \<in> set deny_flag_choices) selected
      then Inr (if selected = [] then None else Some selected)
      else Inl UnknownDenyFlags)"

definition parse_port :: "string \<Rightarrow> string \<Rightarrow> form_error + int option" where
  "parse_port raw auth_method =
     (if auth_method = ''archive'' \<or> strip raw = [] then Inr None
      else (case py_int (strip raw) of None \<Rightarrow> Inl BadPortNumber | Some n \<Rightarrow> Inr (Some n)))"

definition none_if_blank :: "string \<Rightarrow> string option" where
  "none_if_blank v = (if strip v = [] then None else Some (strip v))"

text \<open>A submitted form as a dictionary; \<open>form_get\<close> is \<open>form.get(key, "")\<close>.\<close>

type_synonym form = "(string \<times> string) list"

definition form_get :: "form \<Rightarrow> string \<Rightarrow> string" where
  "form_get form key = (case map_of form key of None \<Rightarrow> [] | Some v \<Rightarrow> v)"

definition form_to_create_kwargs :: "form \<Rightarrow> string list \<Rightarrow> form_error + create_args" where
  "form_to_create_kwargs form deny_flags_selected =
     (case (map_of form ''auth_method'', map_of form ''name'', map_of form ''email_address'') of
        (Some auth_method, Some name, Some email) \<Rightarrow>
          bindr (parse_port (form_get form ''imap_port'') auth_method) (\<lambda>port.
          bindr (parse_deny_flags deny_flags_selected) (\<lambda>flags.
            Inr \<lparr>ca_name = strip name, ca_email = strip email, ca_auth_method = auth_method,
                 ca_imap_host = (if auth_method = ''archive'' then None else none_if_blank (form_get form ''imap_host'')),
                 ca_imap_port = port, ca_oauth_provider = none_if_blank (form_get form ''oauth_provider''),
                 ca_folder_allow = parse_lines (form_get form ''folder_allow''),
                 ca_folder_deny = parse_lines (form_get form ''folder_deny''),
                 ca_folder_deny_flags = flags\<rparr>))
      | _ \<Rightarrow> Inl MissingField)"

definition form_to_patch_fields :: "form \<Rightarrow> string list \<Rightarrow> form_error + update_args" where
  "form_to_patch_fields form deny_flags_selected =
     bindr (form_to_create_kwargs form deny_flags_selected) (\<lambda>c.
       Inr \<lparr>up_unknown = False, up_email = Some (Some (ca_email c)), up_auth_method = Some (Some (ca_auth_method c)),
            up_oauth_provider = Some (ca_oauth_provider c), up_imap_host = Some (ca_imap_host c),
            up_imap_port = Some (ca_imap_port c), up_folder_allow = Some (ca_folder_allow c),
            up_folder_deny = Some (ca_folder_deny c), up_folder_deny_flags = Some (ca_folder_deny_flags c),
            up_sync_enabled = None\<rparr>)"

text \<open>The values that prefill the edit form; the checked flags are a set.\<close>

definition join_lines :: "string list \<Rightarrow> string" where
  "join_lines xs = (case xs of [] \<Rightarrow> [] | y # ys \<Rightarrow> y @ concat (map (\<lambda>x. newline # x) ys))"

definition account_to_form_values :: "account \<Rightarrow> form \<times> string set \<times> bool" where
  "account_to_form_values a =
     ([(''name'', acc_name a), (''email_address'', acc_email a), (''auth_method'', acc_auth_method a),
       (''oauth_provider'', case acc_oauth_provider a of None \<Rightarrow> [] | Some p \<Rightarrow> p),
       (''imap_host'', case acc_imap_host a of None \<Rightarrow> [] | Some h \<Rightarrow> h),
       (''imap_port'', case acc_imap_port a of None \<Rightarrow> [] | Some p \<Rightarrow> if p = 0 then [] else int_str p),
       (''folder_allow'', join_lines (list_or_empty (acc_folder_allow a))),
       (''folder_deny'', join_lines (list_or_empty (acc_folder_deny a)))],
      norm_folders (acc_folder_deny_flags a), acc_sync_enabled a)"

end
