(* ===== verification/AccountsSafety.thy ===== *)
theory AccountsSafety
  imports Accounts SecretsSafety DaemonSafety
begin

text \<open>
  What the account table guarantees its readers: names and ids stay unique and every row passes the
  table's checks whatever sessions interleave, an update changes exactly what it was given, the seed
  adds what is missing and touches nothing else, a change of settings or credentials reaches the running
  daemon, and removal by the command leaves no rows and, when the store works, no secrets. It also holds the row the
  service accepts and the daemon cannot run, and what saving an edit form loses.
\<close>

subsection \<open>The invariant of the table\<close>

definition accounts_ok :: "accounts_db \<Rightarrow> bool" where
  "accounts_ok d \<longleftrightarrow>
     distinct (map acc_id (ab_accounts d)) \<and> distinct (map acc_name (ab_accounts d)) \<and>
     (\<forall>a \<in> set (ab_accounts d). acc_id a < ab_next_id d \<and> row_check a)"

lemma row_of_id:
  assumes "accounts_ok d" "a \<in> set (ab_accounts d)" "acc_id a = i"
  shows "find (\<lambda>a. acc_id a = i) (ab_accounts d) = Some a"
proof -
  obtain b where b: "find (\<lambda>a. acc_id a = i) (ab_accounts d) = Some b"
    using assms(2,3) find_None_conv [of "\<lambda>a. acc_id a = i" "ab_accounts d"] by (cases "find (\<lambda>a. acc_id a = i) (ab_accounts d)") auto
  moreover have "b = a"
    using find_SomeD [OF b] assms by (auto simp: accounts_ok_def distinct_map inj_on_def)
  ultimately show ?thesis by simp
qed

lemma row_of_name:
  assumes "accounts_ok d" "a \<in> set (ab_accounts d)"
  shows "get_account_by_name (acc_name a) d = Some a"
proof -
  obtain b where b: "get_account_by_name (acc_name a) d = Some b"
    using assms(2) find_None_conv [of "\<lambda>b. acc_name b = acc_name a" "ab_accounts d"]
    by (cases "get_account_by_name (acc_name a) d") (auto simp: get_account_by_name_def)
  moreover have "b = a"
    using find_SomeD [of "\<lambda>b. acc_name b = acc_name a" "ab_accounts d" b] b assms
    by (auto simp: get_account_by_name_def accounts_ok_def distinct_map inj_on_def)
  ultimately show ?thesis by simp
qed

lemma find_append_new: "find P xs = None \<Longrightarrow> find P (xs @ [x]) = (if P x then Some x else None)"
  by (induction xs) (auto split: if_splits)

lemma find_append_old: "find P xs = Some x \<Longrightarrow> find P (xs @ ys) = Some x"
  by (induction xs) (auto split: if_splits)

lemma create_account_succeeds:
  assumes "accounts_ok d" "validate_create_fields c = Inr ()" "row_check (new_row now (ab_next_id d) c)"
    "\<forall>a \<in> set (ab_accounts d). acc_name a \<noteq> ca_name c"
  shows "create_account now c d =
    (Inr (new_row now (ab_next_id d) c),
     d\<lparr>ab_next_id := ab_next_id d + 1, ab_accounts := ab_accounts d @ [new_row now (ab_next_id d) c]\<rparr>)"
proof -
  let ?row = "new_row now (ab_next_id d) c"
  have "find (\<lambda>a. acc_id a = ab_next_id d) (ab_accounts d) = None"
    using assms(1) by (auto simp: find_None_conv accounts_ok_def)
  from find_append_new [OF this, of ?row] have "find (\<lambda>a. acc_id a = ab_next_id d) (ab_accounts d @ [?row]) = Some ?row"
    by (simp add: new_row_def)
  then show ?thesis using assms(2-4) by (auto simp: create_account_def Let_def get_account_def list_ex_iff)
qed

lemma create_account_cases:
  assumes "accounts_ok d"
  obtains (refused) e where "create_account now c d = (Inl e, d\<lparr>ab_next_id := ab_next_id (snd (create_account now c d))\<rparr>)"
      "ab_next_id d \<le> ab_next_id (snd (create_account now c d))"
  | (created) row where "row = new_row now (ab_next_id d) c" "row_check row" "validate_create_fields c = Inr ()"
      "\<And>a. a \<in> set (ab_accounts d) \<Longrightarrow> acc_name a \<noteq> ca_name c"
      "create_account now c d = (Inr row, d\<lparr>ab_next_id := ab_next_id d + 1, ab_accounts := ab_accounts d @ [row]\<rparr>)"
proof (cases "validate_create_fields c")
  case (Inl e)
  then show thesis by (intro refused) (auto simp: create_account_def)
next
  case (Inr x)
  let ?row = "new_row now (ab_next_id d) c"
  show thesis
  proof (cases "row_check ?row \<and> \<not> list_ex (\<lambda>a. acc_name a = ca_name c) (ab_accounts d)")
    case True
    then show thesis using Inr create_account_succeeds [OF assms, of c now]
      by (intro created [of ?row]) (auto simp: list_ex_iff)
  next
    case False
    show thesis
    proof (cases "row_check ?row")
      case True
      then show thesis using Inr False by (intro refused [of "FieldError NameTaken"]) (simp_all add: create_account_def Let_def)
    next
      case False
      then show thesis using Inr by (intro refused [of DatabaseRefusal]) (simp_all add: create_account_def Let_def)
    qed
  qed
qed

lemma create_account_ok: "accounts_ok d \<Longrightarrow> accounts_ok (snd (create_account now c d))"
proof -
  assume ok: "accounts_ok d"
  show ?thesis
  proof (rule create_account_cases [OF ok, of now c])
    fix e
    assume "create_account now c d = (Inl e, d\<lparr>ab_next_id := ab_next_id (snd (create_account now c d))\<rparr>)"
      "ab_next_id d \<le> ab_next_id (snd (create_account now c d))"
    then show ?thesis using ok
      by (metis (no_types, lifting) accounts_ok_def accounts_db.select_convs(1,2) accounts_db.simps(6) accounts_db.surjective
          accounts_db.update_convs(2) dual_order.strict_trans1 snd_conv)
  next
    fix row
    assume "row = new_row now (ab_next_id d) c" "row_check row" "\<And>a. a \<in> set (ab_accounts d) \<Longrightarrow> acc_name a \<noteq> ca_name c"
      "create_account now c d = (Inr row, d\<lparr>ab_next_id := ab_next_id d + 1, ab_accounts := ab_accounts d @ [row]\<rparr>)"
    then show ?thesis using ok by (force simp: accounts_ok_def new_row_def)
  qed
qed

lemma updated_row_keeps: "updated_row now u a = Some b \<Longrightarrow> acc_id b = acc_id a \<and> acc_name b = acc_name a \<and> acc_updated_at b = now"
  by (auto simp: updated_row_def split: option.splits)

lemma replace_row_ok:
  assumes "accounts_ok d" "\<And>a. a \<in> set (ab_accounts d) \<Longrightarrow> P a \<Longrightarrow> acc_id (f a) = acc_id a \<and> acc_name (f a) = acc_name a \<and> row_check (f a)"
  shows "accounts_ok (d\<lparr>ab_accounts := update_where P f (ab_accounts d)\<rparr>)"
proof -
  have "map acc_id (update_where P f (ab_accounts d)) = map acc_id (ab_accounts d)"
    "map acc_name (update_where P f (ab_accounts d)) = map acc_name (ab_accounts d)"
    using assms(2) by (auto simp: update_where_def)
  then show ?thesis using assms by (auto simp: accounts_ok_def set_update_where)
qed

lemma update_row_succeeds:
  assumes "accounts_ok d" "a \<in> set (ab_accounts d)" "acc_id a = aid" "updated_row now u a = Some b" "row_check b"
  shows "update_row now u aid d = (Inr b, d\<lparr>ab_accounts := update_where (\<lambda>a. acc_id a = aid) (\<lambda>_. b) (ab_accounts d)\<rparr>)"
    "accounts_ok (d\<lparr>ab_accounts := update_where (\<lambda>a. acc_id a = aid) (\<lambda>_. b) (ab_accounts d)\<rparr>)"
proof -
  let ?d = "d\<lparr>ab_accounts := update_where (\<lambda>a. acc_id a = aid) (\<lambda>_. b) (ab_accounts d)\<rparr>"
  have f: "find (\<lambda>a. acc_id a = aid) (ab_accounts d) = Some a" by (rule row_of_id [OF assms(1-3)])
  have ub: "acc_id b = acc_id a" "acc_name b = acc_name a" using updated_row_keeps [OF assms(4)] by auto
  have only: "x = a" if "x \<in> set (ab_accounts d)" "acc_id x = aid" for x
    using row_of_id [OF assms(1) that] f by simp
  show ok: "accounts_ok ?d" by (rule replace_row_ok [OF assms(1)]) (use only ub assms(5) in auto)
  have "b \<in> set (ab_accounts ?d)" using assms(2,3) by (auto simp: set_update_where)
  then have "get_account aid ?d = Inr b" using row_of_id [OF ok, of b aid] ub assms(3) by (simp add: get_account_def)
  then show "update_row now u aid d = (Inr b, ?d)" using f assms(4,5) by (simp add: update_row_def Let_def)
qed

lemma update_row_cases:
  assumes "accounts_ok d"
  obtains (refused) e where "update_row now u aid d = (Inl e, d)"
  | (updated) a b where "a \<in> set (ab_accounts d)" "acc_id a = aid" "updated_row now u a = Some b" "row_check b"
      "update_row now u aid d = (Inr b, d\<lparr>ab_accounts := update_where (\<lambda>a. acc_id a = aid) (\<lambda>_. b) (ab_accounts d)\<rparr>)"
      "accounts_ok (d\<lparr>ab_accounts := update_where (\<lambda>a. acc_id a = aid) (\<lambda>_. b) (ab_accounts d)\<rparr>)"
proof (cases "find (\<lambda>a. acc_id a = aid) (ab_accounts d)")
  case None
  then show thesis by (intro refused) (simp add: update_row_def)
next
  case (Some a)
  note a = find_SomeD [OF Some]
  show thesis
  proof (cases "updated_row now u a")
    case None
    then show thesis using Some by (intro refused) (simp add: update_row_def)
  next
    case b: (Some b)
    show thesis
    proof (cases "row_check b")
      case False
      then show thesis using Some b by (intro refused) (simp add: update_row_def)
    next
      case True
      note u = update_row_succeeds [OF assms conjunct1 [OF a] conjunct2 [OF a] b True]
      show thesis by (rule updated [OF conjunct1 [OF a] conjunct2 [OF a] b True u])
    qed
  qed
qed

lemma update_row_ok: "accounts_ok d \<Longrightarrow> accounts_ok (snd (update_row now u aid d))"
  by (rule update_row_cases [of d now u aid]) auto

lemma update_account_ok:
  assumes "accounts_ok d" "\<And>d. accounts_ok d \<Longrightarrow> accounts_ok (between d)"
  shows "accounts_ok (snd (update_account now between aid u d))"
proof -
  have "accounts_ok (snd (update_row now u aid (between d)))"
    by (rule update_row_cases [OF assms(2) [OF assms(1)], of now u aid]) (use assms in auto)
  then show ?thesis using assms(1) by (auto simp: update_account_def split: sum.splits)
qed

lemma touch_ok: "accounts_ok d \<Longrightarrow> accounts_ok (snd (touch_account_updated_at now aid d))"
  using replace_row_ok [of d "\<lambda>a. acc_id a = aid" "\<lambda>a. a\<lparr>acc_updated_at := now\<rparr>"]
  by (auto simp: touch_account_updated_at_def accounts_ok_def row_check_def)

lemma distinct_map_filter_id: "distinct (map f xs) \<Longrightarrow> distinct (map f (filter P xs))"
  by (induction xs) auto

lemma drop_ok: "accounts_ok d \<Longrightarrow> accounts_ok (drop_account aid d)"
  by (auto simp: accounts_ok_def drop_account_def distinct_map_filter_id)

lemma delete_ok: "accounts_ok d \<Longrightarrow> accounts_ok (snd (delete_account aid force d))"
  by (simp add: delete_account_def drop_ok)

lemma create_all_ok: "accounts_ok d \<Longrightarrow> accounts_ok (snd (create_all now cs d)) \<and> ab_next_id d \<le> ab_next_id (snd (create_all now cs d))"
proof (induction cs arbitrary: d)
  case (Cons c cs)
  have ok: "accounts_ok (snd (create_account now c d))" by (rule create_account_ok [OF Cons.prems])
  have le: "ab_next_id d \<le> ab_next_id (snd (create_account now c d))"
    by (rule create_account_cases [OF Cons.prems, of now c]) auto
  show ?case using Cons.IH [OF ok] ok le by (cases "create_account now c d"; cases "fst (create_account now c d)") auto
qed simp

lemma rolled_back_ok: "accounts_ok d \<Longrightarrow> ab_next_id d \<le> ab_next_id d1 \<Longrightarrow> accounts_ok (rolled_back_accounts d d1)"
  by (auto simp: accounts_ok_def rolled_back_accounts_def)

lemma init_db_seed_ok: "accounts_ok d \<Longrightarrow> accounts_ok (snd (init_db_seed now cfgs d))"
  using create_all_ok [of d now] rolled_back_ok [of d]
  by (auto simp: init_db_seed_def seed_accounts_def split: prod.splits sum.splits) (metis snd_conv)+

lemma resolve_ok_acc:
  assumes "accounts_ok d"
  shows "accounts_ok (snd (resolve_account_row now cfgs name d)) \<and> ab_next_id d \<le> ab_next_id (snd (resolve_account_row now cfgs name d))"
proof -
  have c: "accounts_ok (snd (create_account now c d)) \<and> ab_next_id d \<le> ab_next_id (snd (create_account now c d))" for c
    using create_account_ok [OF assms] by (auto intro: create_account_cases [OF assms, of now c])
  show ?thesis using assms c
    by (auto simp: resolve_account_row_def split: resolution.splits prod.splits sum.splits) (metis snd_conv)+
qed

lemma equip_ok: "accounts_ok d \<Longrightarrow> accounts_ok (snd (equip_transaction refuse now cfgs name d))"
  using resolve_ok_acc [of d now cfgs name] rolled_back_ok [of d]
  by (auto simp: equip_transaction_def split: prod.splits sum.splits option.splits)

text \<open>The statements of one session; every other session is a sequence of them.\<close>

inductive account_step :: "accounts_db \<Rightarrow> accounts_db \<Rightarrow> bool" where
  created: "account_step d (snd (create_account now c d))"
| patched: "account_step d (snd (update_row now u aid d))"
| touched: "account_step d (snd (touch_account_updated_at now aid d))"
| deleted: "account_step d (snd (delete_account aid force d))"
| seeded: "account_step d (snd (init_db_seed now cfgs d))"
| equipped: "account_step d (snd (equip_transaction refuse now cfgs name d))"

lemma account_step_ok: "account_step d d1 \<Longrightarrow> accounts_ok d \<Longrightarrow> accounts_ok d1"
  by (induction rule: account_step.induct)
    (auto intro: create_account_ok update_row_ok touch_ok delete_ok init_db_seed_ok equip_ok)

text \<open>
  Whatever sessions create, patch, touch, delete and seed, with their statements interleaved in any order, ids and
  names stay unique, every row satisfies the table's checks, and a row is found by its id and by its name.
\<close>

theorem accounts_stay_consistent:
  assumes "account_step\<^sup>*\<^sup>* d d1" "accounts_ok d"
  shows "accounts_ok d1 \<and>
    (\<forall>a \<in> set (ab_accounts d1). get_account (acc_id a) d1 = Inr a \<and> get_account_by_name (acc_name a) d1 = Some a)"
proof -
  have "accounts_ok d1" using assms by (induction rule: rtranclp_induct) (auto intro: account_step_ok)
  then show ?thesis using row_of_id [of d1] row_of_name [of d1] by (auto simp: get_account_def)
qed

definition sample_account :: account where
  "sample_account = \<lparr>acc_id = 1, acc_name = ''gmail'', acc_email = ''a@b'', acc_auth_method = ''password'', acc_oauth_provider = None,
     acc_imap_host = Some ''imap'', acc_imap_port = Some 993, acc_folder_allow = None, acc_folder_deny = Some [''Spam''],
     acc_folder_deny_flags = Some [CHR 0x5C # ''Trash''], acc_sync_enabled = True, acc_updated_at = 5\<rparr>"

definition sample_accounts :: accounts_db where
  "sample_accounts = \<lparr>ab_accounts = [sample_account], ab_next_id = 2, ab_messages = [(7, 1)], ab_dependents = [((''mailboxes'', 3), 1)]\<rparr>"

lemma sample_accounts_ok: "accounts_ok sample_accounts"
  by (simp add: accounts_ok_def sample_accounts_def sample_account_def row_check_def)

theorem accounts_stay_consistent_witness:
  "accounts_ok (snd (touch_account_updated_at 9 1 sample_accounts))"
proof -
  have "account_step\<^sup>*\<^sup>* sample_accounts (snd (touch_account_updated_at 9 1 sample_accounts))"
    by (rule r_into_rtranclp) (rule touched)
  from accounts_stay_consistent [OF this sample_accounts_ok] show ?thesis by blast
qed

subsection \<open>The daemon can run every account with a known provider\<close>

definition providers_known :: "accounts_db \<Rightarrow> bool" where
  "providers_known d \<longleftrightarrow> (\<forall>a \<in> set (ab_accounts d). acc_oauth_provider a \<in> {None, Some ''gmail''})"

lemma syncable_config:
  assumes "accounts_ok d" "providers_known d" "a \<in> set (list_syncable_accounts (ab_accounts d))"
  shows "is_ok (account_config_from_row a)"
proof -
  have "a \<in> set (ab_accounts d)" and m: "acc_auth_method a \<in> {''password'', ''oauth2''}"
    using assms(3) by (auto simp: list_syncable_accounts_def)
  then have "row_check a" "acc_oauth_provider a \<in> {None, Some ''gmail''}"
    using assms(1,2) by (auto simp: accounts_ok_def providers_known_def)
  then show ?thesis using m by (auto simp: account_config_from_row_def row_check_def)
qed

lemma spawn_configured_rows_ok: "(\<And>a. a \<in> set rows \<Longrightarrow> is_ok (account_config_from_row a)) \<Longrightarrow>
    fst (spawn_rows rows dm) = Inr () \<and> map snd (dm_started (snd (spawn_rows rows dm))) = map snd (dm_started dm) @ map acc_id rows"
proof (induction rows arbitrary: dm)
  case (Cons a rows)
  obtain c where "account_config_from_row a = Inr c" using Cons.prems [of a] by (cases "account_config_from_row a") auto
  then show ?case using Cons by (simp add: spawn_account_def)
qed simp

text \<open>A consistent table whose providers are all known starts one pair of threads for each syncable account.\<close>

theorem consistent_accounts_all_start:
  assumes "accounts_ok d" "providers_known d" "\<not> dm_workers_started dm"
  shows "let (r, dm1) = start_workers clear_ok (list_syncable_accounts (ab_accounts d)) dm in
    r = Inr () \<and> map snd (dm_started dm1) = map snd (dm_started dm) @ map acc_id (list_syncable_accounts (ab_accounts d))"
proof -
  let ?rows = "list_syncable_accounts (ab_accounts d)"
  obtain dm0 where dm0: "start_workers clear_ok ?rows dm = spawn_rows ?rows dm0" "dm_started dm0 = dm_started dm"
    using assms(3) by (cases clear_ok) (simp_all add: start_workers_def Let_def)
  show ?thesis
    using spawn_configured_rows_ok [of ?rows dm0, OF syncable_config [OF assms(1,2)]] dm0(2)
    by (simp add: dm0(1) case_prod_beta)
qed

theorem consistent_accounts_all_start_witness:
  "let (r, dm1) = start_workers True (list_syncable_accounts (ab_accounts sample_accounts))
      \<lparr>dm_threads = [], dm_started = [], dm_set = {}, dm_next = 0, dm_workers_started = False, dm_stop = False, dm_wake = False,
       dm_pool_max = 6, dm_commands = [], dm_heartbeats = []\<rparr> in r = Inr ()"
proof -
  have "providers_known sample_accounts" by (simp add: providers_known_def sample_accounts_def sample_account_def)
  from consistent_accounts_all_start [OF sample_accounts_ok this, of "\<lparr>dm_threads = [], dm_started = [], dm_set = {}, dm_next = 0,
      dm_workers_started = False, dm_stop = False, dm_wake = False, dm_pool_max = 6, dm_commands = [], dm_heartbeats = []\<rparr>" True]
  show ?thesis by (auto split: prod.splits)
qed

lemma spawn_account_error: "\<not> is_ok (account_config_from_row a) \<Longrightarrow> \<not> is_ok (fst (spawn_account a dm))"
  by (cases "account_config_from_row a") (auto simp: spawn_account_def)

lemma spawn_rows_stops: "a \<in> set rows \<Longrightarrow> \<not> is_ok (account_config_from_row a) \<Longrightarrow> \<not> is_ok (fst (spawn_rows rows dm))"
proof (induction rows arbitrary: dm)
  case (Cons r rows)
  then show ?case using spawn_account_error [of r dm]
    by (cases "spawn_account r dm"; cases "fst (spawn_account r dm)") auto
qed simp

lemma spawn_all_stops:
  "aid \<in> set ids \<Longrightarrow> rows aid = Some a \<Longrightarrow> \<not> is_ok (account_config_from_row a) \<Longrightarrow> \<not> is_ok (fst (spawn_all rows ids dm))"
proof (induction ids arbitrary: dm)
  case (Cons i ids)
  show ?case
  proof (cases "rows i")
    case (Some r)
    then show ?thesis using Cons spawn_account_error [of r dm]
      by (cases "spawn_account r dm"; cases "fst (spawn_account r dm)") auto
  qed simp
qed simp

lemma map_of_rows:
  assumes "distinct (map acc_id rows)" "a \<in> set rows"
  shows "map_of (rev (map (\<lambda>r. (acc_id r, r)) rows)) (acc_id a) = Some a"
proof -
  have "distinct (map fst (rev (map (\<lambda>r. (acc_id r, r)) rows)))" using assms(1) by (simp add: rev_map [symmetric] comp_def)
  then show ?thesis using assms(2) by (intro map_of_is_SomeI) auto
qed

lemma syncable_distinct: "distinct (map acc_id rows) \<Longrightarrow> distinct (map acc_id (list_syncable_accounts rows))"
  by (simp add: list_syncable_accounts_def distinct_map inj_on_def)

lemma reconcile_stops:
  assumes "tw_accounts w = Some rows" "distinct (map acc_id rows)" "a \<in> set (list_syncable_accounts rows)"
    "\<not> is_ok (account_config_from_row a)" "\<not> dm_stop (drain_commands (tw_drain w) dm)"
    "acc_id a \<notin> fst ` set (dm_threads (drain_commands (tw_drain w) dm))"
  shows "\<not> is_ok (fst (reconcile cfg w dm))"
proof -
  let ?rows = "list_syncable_accounts rows"
  define d1 where "d1 = drain_commands (tw_drain w) dm"
  define d2 where "d2 = d1\<lparr>dm_heartbeats := safe_heartbeat (tw_hb_ok w) (tw_now w) KReconcile None WIdle None None (dm_heartbeats d1)\<rparr>"
  define plan where "plan = plan_reconcile (running_fingerprints d2) (map (\<lambda>r. (acc_id r, acc_updated_at r)) ?rows)"
  define ids where "ids = map_of (rev (map (\<lambda>r. (acc_id r, r)) ?rows))"
  define d3 where "d3 = teardown_all (tw_hb_ok w) (to_teardown plan) d2"
  have "acc_id a \<notin> set (map fst (running_fingerprints d2))"
    using assms(6) by (force simp: d2_def d1_def running_fingerprints_def)
  then have sp: "acc_id a \<in> set (to_spawn plan)" using assms(3) by (auto simp: plan_def plan_reconcile_def Let_def)
  then have ne: "\<not> plan_is_empty plan" by (auto simp: plan_is_empty_def)
  have ida: "ids (acc_id a) = Some a"
    unfolding ids_def by (rule map_of_rows [OF syncable_distinct [OF assms(2)] assms(3)])
  have stop: "\<not> is_ok (fst (spawn_all ids (to_spawn plan) x))" for x
    by (rule spawn_all_stops [where aid = "acc_id a" and a = a]) (use sp ida assms(4) in simp_all)
  have "fst (reconcile cfg w dm) =
      (case respawn_all (tw_hb_ok w) ids (to_respawn plan) d3 of (Inl e, d4) \<Rightarrow> Inl e
       | (Inr _, d4) \<Rightarrow> (case spawn_all ids (to_spawn plan) d4 of (Inl e, d5) \<Rightarrow> Inl e | (Inr _, d5) \<Rightarrow> Inr ()))"
    using assms(1,5) ne
    by (simp add: reconcile_def Let_def flip: d1_def d2_def plan_def ids_def d3_def split: prod.splits sum.splits)
  then show ?thesis using stop
    by (cases "respawn_all (tw_hb_ok w) ids (to_respawn plan) d3"; cases "fst (respawn_all (tw_hb_ok w) ids (to_respawn plan) d3)")
      (auto split: prod.splits sum.splits, metis fst_conv is_ok_simps(2))
qed

text \<open>
  C35. The provider is checked for OAuth accounts only, and the daemon's \<open>AccountConfig\<close> admits one provider whatever
  the method. An account with a password and another provider is therefore created, and then every tick that
  sees it ends the daemon's loop, for all accounts, and every restart fails.
\<close>

theorem unknown_provider_ends_the_daemon:
  assumes "accounts_ok d" "validate_create_fields c = Inr ()" "ca_auth_method c = ''password''"
    "ca_oauth_provider c \<notin> {None, Some ''gmail''}" "get_account_by_name (ca_name c) d = None"
  shows "\<exists>row d1. create_account now c d = (Inr row, d1) \<and>
    (\<forall>cfg t ts dm. tw_accounts (tk_world t) = Some (ab_accounts d1) \<and>
       acc_id row \<notin> fst ` set (dm_threads (drain_commands (tw_drain (tk_world t)) (dm\<lparr>dm_wake := False\<rparr>))) \<longrightarrow>
       fst (run_loop cfg (t # ts) dm)) \<and>
    (\<forall>clear_ok dm. \<not> dm_workers_started dm \<longrightarrow> \<not> is_ok (fst (start_workers clear_ok (list_syncable_accounts (ab_accounts d1)) dm)))"
proof -
  let ?row = "new_row now (ab_next_id d) c"
  have fresh: "\<forall>a \<in> set (ab_accounts d). acc_name a \<noteq> ca_name c"
    using assms(5) by (simp add: get_account_by_name_def find_None_conv)
  have chk: "row_check ?row"
    using assms(2,3) by (auto simp: validate_create_fields_def validate_combo_def row_check_def new_row_def bindr_Inr_iff
        split: option.splits if_splits)
  obtain d1 where d1: "create_account now c d = (Inr ?row, d1)" "ab_accounts d1 = ab_accounts d @ [?row]" "accounts_ok d1"
    using create_account_succeeds [OF assms(1,2) chk fresh] create_account_ok [OF assms(1), of now c] by simp
  have bad: "\<not> is_ok (account_config_from_row ?row)"
    using assms(3,4) chk by (auto simp: account_config_from_row_def new_row_def row_check_def split: option.splits)
  have mem: "?row \<in> set (list_syncable_accounts (ab_accounts d1))"
    using assms(3) by (simp add: list_syncable_accounts_def d1(2) new_row_def)
  have dist: "distinct (map acc_id (ab_accounts d1))" using d1(3) by (simp add: accounts_ok_def)
  have loop: "fst (run_loop cfg (t # ts) dm)"
    if "tw_accounts (tk_world t) = Some (ab_accounts d1)"
      "acc_id ?row \<notin> fst ` set (dm_threads (drain_commands (tw_drain (tk_world t)) (dm\<lparr>dm_wake := False\<rparr>)))" for cfg t ts dm
  proof -
    let ?d0 = "(if tk_stop t then stop_daemon dm else dm)\<lparr>dm_wake := False\<rparr>"
    show ?thesis
    proof (cases "dm_stop ?d0")
      case False
      then have d0: "?d0 = dm\<lparr>dm_wake := False\<rparr>" by (auto simp: stop_daemon_def split: if_splits)
      have "\<not> is_ok (fst (reconcile cfg (tk_world t) ?d0)) \<or> dm_stop (snd (reconcile cfg (tk_world t) ?d0))"
        using reconcile_stops [OF that(1) dist mem bad, of ?d0] that(2) d0
        by (cases "dm_stop (drain_commands (tw_drain (tk_world t)) ?d0)") (auto simp: reconcile_def Let_def)
      then show ?thesis using False by (simp add: Let_def case_prod_beta)
    qed simp
  qed
  have start: "\<not> is_ok (fst (start_workers clear_ok (list_syncable_accounts (ab_accounts d1)) dm))" if "\<not> dm_workers_started dm" for clear_ok dm
    using spawn_rows_stops [OF mem bad] that by (simp add: start_workers_def Let_def)
  show ?thesis using d1(1) loop start by blast
qed

definition outlook_form :: form where
  "outlook_form = [(''name'', ''work''), (''email_address'', ''w@b''), (''auth_method'', ''password''), (''imap_host'', ''imap''),
     (''imap_port'', ''993''), (''oauth_provider'', ''outlook'')]"

theorem unknown_provider_ends_the_daemon_witness:
  "\<exists>c row d1. form_to_create_kwargs outlook_form [] = Inr c \<and> create_account 9 c sample_accounts = (Inr row, d1) \<and>
    (\<forall>clear_ok dm. \<not> dm_workers_started dm \<longrightarrow> \<not> is_ok (fst (start_workers clear_ok (list_syncable_accounts (ab_accounts d1)) dm)))"
proof -
  define c where "c = \<lparr>ca_name = ''work'', ca_email = ''w@b'', ca_auth_method = ''password'', ca_imap_host = Some ''imap'',
      ca_imap_port = Some 993, ca_oauth_provider = Some ''outlook'', ca_folder_allow = None, ca_folder_deny = None,
      ca_folder_deny_flags = None\<rparr>"
  have f: "form_to_create_kwargs outlook_form [] = Inr c" unfolding c_def by code_simp
  have v: "validate_create_fields c = Inr ()" unfolding c_def by code_simp
  have n: "get_account_by_name (ca_name c) sample_accounts = None" unfolding c_def by code_simp
  have m: "ca_auth_method c = ''password''" "ca_oauth_provider c \<notin> {None, Some ''gmail''}" by (simp_all add: c_def)
  from unknown_provider_ends_the_daemon [OF sample_accounts_ok v m n, of 9] f show ?thesis by blast
qed

subsection \<open>Updates\<close>

text \<open>
  An update that succeeds gives the row the values it was given, keeps the others, leaves every other row,
  message and dependent alone and stamps the row; one that fails changes nothing. Its result is the stored row.
\<close>

theorem update_changes_what_it_is_given:
  assumes "accounts_ok d" "update_account now id aid u d = (r, d1)" "u \<noteq> no_update"
  shows "(case r of
      Inl e \<Rightarrow> d1 = d
    | Inr b \<Rightarrow>
        (\<exists>a. get_account aid d = Inr a \<and> updated_row now u a = Some b) \<and> get_account aid d1 = Inr b \<and>
        acc_updated_at b = now \<and> acc_name b = acc_name (the (find (\<lambda>a. acc_id a = aid) (ab_accounts d))) \<and>
        (\<forall>i. i \<noteq> aid \<longrightarrow> get_account i d1 = get_account i d) \<and>
        ab_messages d1 = ab_messages d \<and> ab_dependents d1 = ab_dependents d \<and>
        validate_combo (Some (acc_auth_method b)) (acc_imap_host b) (acc_imap_port b) (acc_oauth_provider b) = Inr ())"
proof (cases "get_account aid d")
  case (Inl e)
  have "(\<exists>e. r = Inl e) \<and> d1 = d" using assms(2,3) by (auto simp: update_account_def Inl split: if_splits)
  then show ?thesis by auto
next
  case (Inr a)
  have fa: "find (\<lambda>a. acc_id a = aid) (ab_accounts d) = Some a" using Inr by (auto simp: get_account_def split: option.splits)
  show ?thesis
  proof (cases "r")
    case (Inl e)
    have "snd (update_row now u aid d) = d" if "\<not> is_ok (fst (update_row now u aid d))"
      using that by (auto intro: update_row_cases [OF assms(1), of now u aid])
    then show ?thesis using assms(2,3) Inl Inr by (auto simp: update_account_def split: if_splits sum.splits)
  next
    case b: (Inr b)
    have combo: "validate_combo (given (up_auth_method u) (Some (acc_auth_method a))) (given (up_imap_host u) (acc_imap_host a))
        (given (up_imap_port u) (acc_imap_port a)) (given (up_oauth_provider u) (acc_oauth_provider a)) = Inr ()"
      and row: "update_row now u aid d = (Inr b, d1)"
      using assms(2,3) Inr b by (auto simp: update_account_def bindr_Inr_iff split: if_splits sum.splits)
    show ?thesis
    proof (rule update_row_cases [OF assms(1), of now u aid])
      fix e assume "update_row now u aid d = (Inl e, d)"
      then show ?thesis using row by simp
    next
      fix a' b'
      assume c: "a' \<in> set (ab_accounts d)" "acc_id a' = aid" "updated_row now u a' = Some b'" "row_check b'"
        "update_row now u aid d = (Inr b', d\<lparr>ab_accounts := update_where (\<lambda>a. acc_id a = aid) (\<lambda>_. b') (ab_accounts d)\<rparr>)"
        "accounts_ok (d\<lparr>ab_accounts := update_where (\<lambda>a. acc_id a = aid) (\<lambda>_. b') (ab_accounts d)\<rparr>)"
      have [simp]: "a' = a" "b' = b" using row_of_id [OF assms(1) c(1,2)] fa c(5) row by simp_all
      have d1: "d1 = d\<lparr>ab_accounts := update_where (\<lambda>a. acc_id a = aid) (\<lambda>_. b) (ab_accounts d)\<rparr>" using c(5) row by simp
      note k = updated_row_keeps [OF c(3)]
      have "b \<in> set (ab_accounts d1)" using c(1,2) by (auto simp: d1 set_update_where)
      then have g: "get_account aid d1 = Inr b" using row_of_id [OF c(6), of b aid] k c(2) by (simp add: get_account_def d1)
      have o: "get_account i d1 = get_account i d" if "i \<noteq> aid" for i
      proof -
        have "find (\<lambda>a. acc_id a = i) (update_where (\<lambda>a. acc_id a = aid) (\<lambda>_. b) xs) = find (\<lambda>a. acc_id a = i) xs" for xs
          using that k c(2) by (induction xs) auto
        then show ?thesis by (simp add: get_account_def d1)
      qed
      have "validate_combo (Some (acc_auth_method b)) (acc_imap_host b) (acc_imap_port b) (acc_oauth_provider b) = Inr ()"
        using combo c(3) by (auto simp: updated_row_def split: option.splits)
      then show ?thesis using b Inr c(3) k g o fa by (auto simp: d1)
    qed
  qed
qed

theorem update_changes_what_it_is_given_witness:
  "acc_sync_enabled (the (get_account_by_name ''gmail'' (snd (update_account 9 id 1 (no_update\<lparr>up_sync_enabled := Some (Some False)\<rparr>) sample_accounts)))) = False
   \<and> get_account 2 (snd (update_account 9 id 1 (no_update\<lparr>up_sync_enabled := Some (Some False)\<rparr>) sample_accounts)) = get_account 2 sample_accounts"
proof -
  let ?u = "no_update\<lparr>up_sync_enabled := Some (Some False)\<rparr>"
  obtain r d1 where e: "update_account 9 id 1 ?u sample_accounts = (r, d1)" by fastforce
  have v: "is_ok (fst (update_account 9 id 1 ?u sample_accounts)) \<and>
      acc_sync_enabled (the (get_account_by_name ''gmail'' (snd (update_account 9 id 1 ?u sample_accounts)))) = False"
    by code_simp
  then obtain b where b: "r = Inr b" using e by (cases r) auto
  have n: "?u \<noteq> no_update" by (simp add: no_update_def)
  from update_changes_what_it_is_given [OF sample_accounts_ok e n] show ?thesis using v by (simp add: e b)
qed

subsection \<open>What the daemon sees of a change\<close>

text \<open>The plan of the next tick, for running threads with the fingerprints given.\<close>

definition next_plan :: "(int \<times> instant) list \<Rightarrow> accounts_db \<Rightarrow> reconcile_plan" where
  "next_plan running d = plan_reconcile running (map (\<lambda>r. (acc_id r, acc_updated_at r)) (list_syncable_accounts (ab_accounts d)))"

lemma desired_of:
  assumes "accounts_ok d" "b \<in> set (ab_accounts d)" "acc_auth_method b \<in> {''password'', ''oauth2''}" "acc_sync_enabled b"
  shows "map_of (map (\<lambda>r. (acc_id r, acc_updated_at r)) (list_syncable_accounts (ab_accounts d))) (acc_id b) = Some (acc_updated_at b)"
proof (rule map_of_is_SomeI)
  have "distinct (map acc_id (list_syncable_accounts (ab_accounts d)))"
    using assms(1) by (intro syncable_distinct) (simp add: accounts_ok_def)
  then show "distinct (map fst (map (\<lambda>r. (acc_id r, acc_updated_at r)) (list_syncable_accounts (ab_accounts d))))"
    by (simp add: comp_def)
  show "(acc_id b, acc_updated_at b) \<in> set (map (\<lambda>r. (acc_id r, acc_updated_at r)) (list_syncable_accounts (ab_accounts d)))"
    using assms(2-4) by (auto simp: list_syncable_accounts_def)
qed

lemma respawn_when_stamped:
  assumes "accounts_ok d" "b \<in> set (ab_accounts d)" "acc_auth_method b \<in> {''password'', ''oauth2''}" "acc_sync_enabled b"
    "map_of running (acc_id b) = Some t" "t \<noteq> acc_updated_at b"
  shows "acc_id b \<in> set (to_respawn (next_plan running d))"
proof -
  note m = desired_of [OF assms(1-4)]
  have "acc_id b \<in> set (map fst running)" using assms(5) by (force dest: map_of_SomeD)
  moreover have "acc_id b \<in> set (map fst (map (\<lambda>r. (acc_id r, acc_updated_at r)) (list_syncable_accounts (ab_accounts d))))"
    using map_of_SomeD [OF m] by force
  ultimately show ?thesis using m assms(5,6) by (simp add: next_plan_def plan_reconcile_def Let_def)
qed

lemma teardown_when_gone:
  assumes "map_of running i = Some t" "i \<notin> acc_id ` set (list_syncable_accounts (ab_accounts d))"
  shows "i \<in> set (to_teardown (next_plan running d))"
proof -
  have "i \<in> set (map fst running)" using assms(1) by (force dest: map_of_SomeD)
  then show ?thesis using assms(2) by (auto simp: next_plan_def plan_reconcile_def Let_def)
qed

lemma desired_gone: "i \<notin> acc_id ` set (list_syncable_accounts t) \<Longrightarrow> desired_state t i = None"
  by (auto simp: desired_state_def map_of_eq_None_iff)

text \<open>
  A tick that goes through: it can read the accounts and map the rows it wants to run, and no pending command stops
  the daemon.
\<close>

definition full_tick :: "daemon_cfg \<Rightarrow> tick_world \<Rightarrow> accounts_db \<Rightarrow> daemon \<Rightarrow> daemon \<Rightarrow> bool" where
  "full_tick cfg w d dm dm' \<longleftrightarrow>
     tw_accounts w = Some (ab_accounts d) \<and>
     list_all (\<lambda>r. is_ok (account_config_from_row r)) (list_syncable_accounts (ab_accounts d)) \<and>
     \<not> dm_stop (drain_commands (tw_drain w) dm) \<and> snd (reconcile cfg w dm) = dm'"

lemma full_tick_lands: "full_tick cfg w d dm dm' \<Longrightarrow> accounts_ok d \<Longrightarrow> fingerprint dm' = desired_state (ab_accounts d)"
  using reconcile_lands [of "ab_accounts d" w dm "drain_commands (tw_drain w) dm" cfg "fst (reconcile cfg w dm)" dm']
  by (simp add: full_tick_def accounts_ok_def prod_eq_iff)

text \<open>
  C32. A change of an account is in the daemon's next plan. For an account whose threads run with the fingerprint of its
  row, a credential change at a later time than the row's last change, which only stamps the row, puts it among the
  accounts to restart, and a pause or a deletion among those to stop. After the next tick that goes through (it can read
  the table, every row to run can be mapped, no command has stopped the daemon) the account's threads are
  those of the new stamp, or there are none; a tick that cannot read the table, or that meets a row it cannot map, may
  leave that to a later one.
\<close>

theorem account_changes_reach_the_daemon:
  assumes "accounts_ok d" "a \<in> set (list_syncable_accounts (ab_accounts d))" "acc_updated_at a < now"
    and "touched = snd (touch_account_updated_at now (acc_id a) d)"
    and "paused = snd (update_row now (no_update\<lparr>up_sync_enabled := Some (Some False)\<rparr>) (acc_id a) d)"
    and "deleted = snd (delete_account (acc_id a) True d)"
  shows "(map_of running (acc_id a) = Some (acc_updated_at a) \<longrightarrow>
      acc_id a \<in> set (to_respawn (next_plan running touched)) \<and>
      acc_id a \<in> set (to_teardown (next_plan running paused)) \<and> acc_id a \<in> set (to_teardown (next_plan running deleted))) \<and>
    (full_tick cfg w touched dm dm' \<longrightarrow> fingerprint dm' (acc_id a) = Some now) \<and>
    (full_tick cfg w paused dm dm' \<or> full_tick cfg w deleted dm dm' \<longrightarrow> fingerprint dm' (acc_id a) = None)"
proof -
  have mem: "a \<in> set (ab_accounts d)" and m: "acc_auth_method a \<in> {''password'', ''oauth2''}" and on: "acc_sync_enabled a"
    using assms(2) by (auto simp: list_syncable_accounts_def)
  let ?u = "no_update\<lparr>up_sync_enabled := Some (Some False)\<rparr>" and ?b = "a\<lparr>acc_updated_at := now\<rparr>"
  have oks: "accounts_ok touched" "accounts_ok paused" "accounts_ok deleted"
    using touch_ok [OF assms(1)] update_row_ok [OF assms(1)] delete_ok [OF assms(1)] by (simp_all add: assms(4-6))
  have b: "?b \<in> set (ab_accounts touched)"
    using mem by (auto simp: assms(4) touch_account_updated_at_def list_ex_iff set_update_where)
  have "row_check a" using assms(1) mem by (simp add: accounts_ok_def)
  then obtain b where b': "updated_row now ?u a = Some b" "acc_sync_enabled b = False" "row_check b"
    by (simp add: updated_row_def no_update_def given_def row_check_def)
  have "find (\<lambda>x. acc_id x = acc_id a) (ab_accounts d) = Some a" by (rule row_of_id [OF assms(1) mem]) simp
  then have "ab_accounts paused = update_where (\<lambda>x. acc_id x = acc_id a) (\<lambda>_. b) (ab_accounts d)"
    using b' by (simp add: assms(5) update_row_def Let_def)
  then have gone: "acc_id a \<notin> acc_id ` set (list_syncable_accounts (ab_accounts paused))"
      "acc_id a \<notin> acc_id ` set (list_syncable_accounts (ab_accounts deleted))"
    using b'(2) mem by (auto simp: assms(6) list_syncable_accounts_def delete_account_def drop_account_def list_ex_iff
        set_update_where split: if_splits)
  have plans: "acc_id a \<in> set (to_respawn (next_plan running touched))" "acc_id a \<in> set (to_teardown (next_plan running paused))"
      "acc_id a \<in> set (to_teardown (next_plan running deleted))" if "map_of running (acc_id a) = Some (acc_updated_at a)"
    using respawn_when_stamped [OF oks(1) b] teardown_when_gone [OF that] gone that assms(3) m on by auto
  have "desired_state (ab_accounts touched) (acc_id a) = Some now"
    using desired_of [OF oks(1) b] m on by (simp add: desired_state_def)
  with plans full_tick_lands oks desired_gone gone show ?thesis by metis
qed

theorem account_changes_reach_the_daemon_witness:
  "let touched = snd (touch_account_updated_at 9 1 sample_accounts) in
    1 \<in> set (to_respawn (next_plan [(1, 5)] touched)) \<and>
    fingerprint (snd (reconcile \<lparr>dc_pool_max_size = None, dc_run_embed = True, dc_run_extract = True\<rparr>
      (sample_tick (ab_accounts touched)) (new_daemon [] [] 4))) 1 = Some 9"
proof -
  let ?t = "snd (touch_account_updated_at 9 1 sample_accounts)" and ?dm = "new_daemon [] [] 4"
  let ?cfg = "\<lparr>dc_pool_max_size = None, dc_run_embed = True, dc_run_extract = True\<rparr>"
  have i: "acc_id sample_account = 1" "acc_updated_at sample_account = 5" by (simp_all add: sample_account_def)
  have m: "sample_account \<in> set (list_syncable_accounts (ab_accounts sample_accounts))" "acc_updated_at sample_account < 9"
    by (simp_all add: list_syncable_accounts_def sample_accounts_def sample_account_def)
  have acc: "list_syncable_accounts (ab_accounts ?t) = [sample_account\<lparr>acc_updated_at := 9\<rparr>]"
    by (simp add: list_syncable_accounts_def touch_account_updated_at_def sample_accounts_def sample_account_def update_where_def)
  have drain: "drain_commands (tw_drain (sample_tick (ab_accounts ?t))) ?dm = ?dm"
    by (simp add: drain_commands_def sample_tick_def quiet_drain_def claim_commands_def new_daemon_def)
  have "full_tick ?cfg (sample_tick (ab_accounts ?t)) ?t ?dm (snd (reconcile ?cfg (sample_tick (ab_accounts ?t)) ?dm))"
    unfolding full_tick_def drain acc
    by (simp add: sample_tick_def account_config_from_row_def sample_account_def) (simp add: new_daemon_def)
  with account_changes_reach_the_daemon [OF sample_accounts_ok m refl refl refl, of "[(1, 5)]", unfolded i] show ?thesis
    by (simp add: Let_def)
qed

subsection \<open>The seed\<close>

lemma accounts_by_name_get:
  assumes "accounts_ok d" shows "accounts_by_name d n = get_account_by_name n d"
proof -
  have dist: "distinct (map acc_name (sort_key acc_id (ab_accounts d)))"
    using assms by (simp add: accounts_ok_def distinct_map)
  have dk: "distinct (map fst (rev (map (\<lambda>a. (acc_name a, a)) (list_accounts_full d))))"
    using dist by (simp add: list_accounts_full_def rev_map [symmetric] comp_def)
  show ?thesis
  proof (cases "get_account_by_name n d")
    case None
    then have "n \<notin> acc_name ` set (ab_accounts d)" by (auto simp: get_account_by_name_def find_None_conv)
    then have "accounts_by_name d n = None"
      by (auto simp: accounts_by_name_def list_accounts_full_def map_of_eq_None_iff)
    then show ?thesis using None by simp
  next
    case (Some a)
    then have "a \<in> set (ab_accounts d)" "acc_name a = n"
      using find_SomeD [of "\<lambda>a. acc_name a = n" "ab_accounts d" a] by (simp_all add: get_account_by_name_def)
    then have "(n, a) \<in> set (rev (map (\<lambda>a. (acc_name a, a)) (list_accounts_full d)))"
      by (auto simp: list_accounts_full_def)
    from map_of_is_SomeI [OF dk this] show ?thesis using Some by (simp add: accounts_by_name_def)
  qed
qed

lemma plan_account_seed_split:
  "plan_account_seed cfgs ex =
     (filter (\<lambda>c. ex (tc_name c) = None) cfgs,
      concat (map (\<lambda>c. case ex (tc_name c) of None \<Rightarrow> []
                       | Some a \<Rightarrow> if drifted_fields c a \<noteq> [] then [(tc_name c, drifted_fields c a)] else []) cfgs))"
  by (induction cfgs) (auto split: option.splits)

lemma seeded_row_has_no_drift: "drifted_fields c (new_row now i (account_create_kwargs c)) = []"
  by (simp add: drifted_fields_def new_row_def account_create_kwargs_def norm_folders_def)

lemma create_all_appends:
  assumes "accounts_ok d" "create_all now (map account_create_kwargs cs) d = (Inr (), d1)"
  shows "\<exists>new. ab_accounts d1 = ab_accounts d @ new \<and> list_all2 (\<lambda>c a. acc_name a = tc_name c \<and> drifted_fields c a = []) cs new"
  using assms
proof (induction cs arbitrary: d)
  case (Cons c cs)
  show ?case
  proof (rule create_account_cases [OF Cons.prems(1), of now "account_create_kwargs c"])
    fix e assume "create_account now (account_create_kwargs c) d =
        (Inl e, d\<lparr>ab_next_id := ab_next_id (snd (create_account now (account_create_kwargs c) d))\<rparr>)"
    then obtain x where "create_account now (account_create_kwargs c) d = (Inl e, x)" by blast
    then show ?thesis using Cons.prems(2) by simp
  next
    fix row
    assume r: "row = new_row now (ab_next_id d) (account_create_kwargs c)"
      "create_account now (account_create_kwargs c) d = (Inr row, d\<lparr>ab_next_id := ab_next_id d + 1, ab_accounts := ab_accounts d @ [row]\<rparr>)"
    let ?d = "d\<lparr>ab_next_id := ab_next_id d + 1, ab_accounts := ab_accounts d @ [row]\<rparr>"
    have ok: "accounts_ok ?d" using create_account_ok [OF Cons.prems(1), of now "account_create_kwargs c"] r(2) by simp
    have "create_all now (map account_create_kwargs cs) ?d = (Inr (), d1)" using Cons.prems(2) r(2) by simp
    from Cons.IH [OF ok this] obtain new where
      "ab_accounts d1 = ab_accounts d @ [row] @ new" "list_all2 (\<lambda>c a. acc_name a = tc_name c \<and> drifted_fields c a = []) cs new"
      by auto
    then show ?thesis using seeded_row_has_no_drift [of c now "ab_next_id d"] r(1)
      by (intro exI [of _ "row # new"]) (simp add: new_row_def account_create_kwargs_def)
  qed
qed simp

lemma list_all2_names: "list_all2 (\<lambda>c a. acc_name a = tc_name c \<and> P c a) cs new \<Longrightarrow> map acc_name new = map tc_name cs"
  by (induction rule: list_all2_induct) auto

lemma drift_of_new:
  assumes "list_all2 (\<lambda>c a. acc_name a = tc_name c \<and> drifted_fields c a = []) cs new" "distinct (map tc_name cs)"
    "c \<in> set cs" "a \<in> set new" "acc_name a = tc_name c"
  shows "drifted_fields c a = []"
  using assms
proof (induction rule: list_all2_induct)
  case (Cons c' cs a' new)
  have "acc_name ` set new = tc_name ` set cs"
    using list_all2_names [OF Cons.hyps(2)] by (metis list.set_map)
  then have "tc_name c' \<notin> acc_name ` set new" "tc_name c' \<notin> tc_name ` set cs" using Cons.prems(1) by auto
  then show ?case using Cons by (auto simp: image_iff)
qed simp

text \<open>The two halves of a plan, and what is found of them in the table once the missing rows are appended.\<close>

definition unseeded :: "account_toml list \<Rightarrow> accounts_db \<Rightarrow> account_toml list" where
  "unseeded cfgs d = filter (\<lambda>c. get_account_by_name (tc_name c) d = None) cfgs"

definition seed_drift :: "account_toml list \<Rightarrow> accounts_db \<Rightarrow> (string \<times> string list) list" where
  "seed_drift cfgs d = concat (map (\<lambda>c. case get_account_by_name (tc_name c) d of None \<Rightarrow> []
     | Some a \<Rightarrow> if drifted_fields c a \<noteq> [] then [(tc_name c, drifted_fields c a)] else []) cfgs)"

lemma seed_plan: "accounts_ok d \<Longrightarrow> plan_account_seed cfgs (accounts_by_name d) = (unseeded cfgs d, seed_drift cfgs d)"
  by (simp add: plan_account_seed_split accounts_by_name_get unseeded_def seed_drift_def cong: option.case_cong)

lemma seeded_names_found:
  assumes ok: "accounts_ok d1" and names: "distinct_account_names cfgs" and rows: "ab_accounts d1 = ab_accounts d @ new"
    and new: "list_all2 (\<lambda>c a. acc_name a = tc_name c \<and> drifted_fields c a = []) (unseeded cfgs d) new" and c: "c \<in> set cfgs"
  shows "\<exists>a. get_account_by_name (tc_name c) d1 = Some a \<and>
    (case get_account_by_name (tc_name c) d of None \<Rightarrow> drifted_fields c a = [] | Some b \<Rightarrow> b = a)"
proof (cases "get_account_by_name (tc_name c) d")
  case None
  then have cm: "c \<in> set (unseeded cfgs d)" using c by (simp add: unseeded_def)
  then have "tc_name c \<in> set (map acc_name new)" by (simp add: list_all2_names [OF new])
  then obtain a where a: "a \<in> set new" "acc_name a = tc_name c" by auto
  have "distinct (map tc_name (unseeded cfgs d))"
    using names by (simp add: distinct_account_names_def unseeded_def distinct_map_filter_id)
  moreover have "get_account_by_name (acc_name a) d1 = Some a" by (rule row_of_name [OF ok]) (simp add: rows a)
  ultimately show ?thesis using drift_of_new [OF new _ cm a] a(2) None by auto
next
  case (Some b)
  then show ?thesis using find_append_old [of "\<lambda>a. acc_name a = tc_name c" "ab_accounts d"]
    by (auto simp: get_account_by_name_def rows)
qed

lemma seeded_plan:
  assumes "accounts_ok d1" "distinct_account_names cfgs" "ab_accounts d1 = ab_accounts d @ new"
    and "list_all2 (\<lambda>c a. acc_name a = tc_name c \<and> drifted_fields c a = []) (unseeded cfgs d) new"
  shows "plan_account_seed cfgs (accounts_by_name d1) = ([], seed_drift cfgs d)"
proof -
  note found = seeded_names_found [OF assms]
  have "unseeded cfgs d1 = []" using found by (fastforce simp: unseeded_def filter_empty_conv)
  moreover have "seed_drift cfgs d1 = seed_drift cfgs d"
    unfolding seed_drift_def using found
    by (intro arg_cong [where f = concat] map_cong) (fastforce split: option.splits)+
  ultimately show ?thesis by (simp add: seed_plan [OF assms(1)])
qed

text \<open>
  C33. The seed is one transaction: an error leaves every row as it was. When it succeeds it has appended one row for
  each configured name the table did not hold, equal to its configuration in every field the seed compares, and
  changed no other row; what it reports adds up; and running it again inserts nothing and reports the same drift.
\<close>

theorem seed_adds_only_what_is_missing:
  assumes "accounts_ok d" "distinct_account_names cfgs" "init_db_seed now cfgs d = (r, d1)"
  shows "case r of
      Inl e \<Rightarrow> ab_accounts d1 = ab_accounts d
    | Inr res \<Rightarrow>
        (\<exists>new. ab_accounts d1 = ab_accounts d @ new \<and> sr_inserted res = length new \<and>
           list_all2 (\<lambda>c a. acc_name a = tc_name c \<and> drifted_fields c a = [])
             (filter (\<lambda>c. get_account_by_name (tc_name c) d = None) cfgs) new) \<and>
        sr_inserted res + sr_skipped res = length cfgs \<and>
        init_db_seed now2 cfgs d1 = (Inr \<lparr>sr_inserted = 0, sr_skipped = length cfgs, sr_drifted = sr_drifted res\<rparr>, d1)"
proof -
  obtain x d' where ca: "create_all now (map account_create_kwargs (unseeded cfgs d)) d = (x, d')" by fastforce
  show ?thesis
  proof (cases x)
    case (Inl e)
    then show ?thesis using assms(3) ca by (auto simp: init_db_seed_def seed_accounts_def seed_plan [OF assms(1)] rolled_back_accounts_def)
  next
    case (Inr y)
    have d1: "d1 = d'" "r = Inr \<lparr>sr_inserted = length (unseeded cfgs d), sr_skipped = length cfgs - length (unseeded cfgs d),
        sr_drifted = length (seed_drift cfgs d)\<rparr>"
      using assms(3) ca Inr by (auto simp: init_db_seed_def seed_accounts_def seed_plan [OF assms(1)])
    have ca': "create_all now (map account_create_kwargs (unseeded cfgs d)) d = (Inr (), d1)" using ca Inr d1 by simp
    obtain new where new: "ab_accounts d1 = ab_accounts d @ new"
      "list_all2 (\<lambda>c a. acc_name a = tc_name c \<and> drifted_fields c a = []) (unseeded cfgs d) new"
      using create_all_appends [OF assms(1) ca'] by blast
    have ok1: "accounts_ok d1" using create_all_ok [OF assms(1), of now "map account_create_kwargs (unseeded cfgs d)"] ca' by simp
    have again: "init_db_seed now2 cfgs d1 = (Inr \<lparr>sr_inserted = 0, sr_skipped = length cfgs, sr_drifted = length (seed_drift cfgs d)\<rparr>, d1)"
      by (simp add: init_db_seed_def seed_accounts_def seeded_plan [OF ok1 assms(2) new])
    have "length (unseeded cfgs d) = length new" using list_all2_lengthD [OF new(2)] .
    moreover have "length (unseeded cfgs d) \<le> length cfgs" unfolding unseeded_def by (rule length_filter_le)
    ultimately show ?thesis using new again by (auto simp: d1 unseeded_def)
  qed
qed

definition sample_toml :: account_toml where
  "sample_toml = \<lparr>tc_name = ''work'', tc_email = ''w@b'', tc_imap_host = ''imap'', tc_imap_port = 993, tc_auth_method = ''password'',
     tc_oauth_provider = None, tc_folder_allow = [], tc_folder_deny = [], tc_folder_deny_flags = []\<rparr>"

theorem seed_adds_only_what_is_missing_witness:
  "init_db_seed 20 [sample_toml] (snd (init_db_seed 9 [sample_toml] sample_accounts)) =
    (Inr \<lparr>sr_inserted = 0, sr_skipped = 1, sr_drifted = 0\<rparr>, snd (init_db_seed 9 [sample_toml] sample_accounts))"
proof -
  have d: "distinct_account_names [sample_toml]" by (simp add: distinct_account_names_def)
  obtain d1 where e: "init_db_seed 9 [sample_toml] sample_accounts = (Inr \<lparr>sr_inserted = 1, sr_skipped = 0, sr_drifted = 0\<rparr>, d1)"
  proof -
    have "fst (init_db_seed 9 [sample_toml] sample_accounts) = Inr \<lparr>sr_inserted = 1, sr_skipped = 0, sr_drifted = 0\<rparr>" by code_simp
    then show thesis using that by (metis prod.collapse)
  qed
  show ?thesis using seed_adds_only_what_is_missing [OF sample_accounts_ok d e, of 20] by (simp add: e)
qed

subsection \<open>Removal\<close>

text \<open>The secrets can be written: a healthy file and a write nothing disturbs, or a keyring that obeys its laws.\<close>

definition store_works :: "'k keyring_calls \<Rightarrow> write_env \<Rightarrow> 'k secret_world \<Rightarrow> bool" where
  "store_works kc env w \<longleftrightarrow>
     (\<exists>p um. env = undisturbed um \<and> file_backed p w) \<or> (\<exists>good holds. keyring_backed kc good holds w)"

lemma clear_slots_works:
  assumes "store_works kc env w"
  shows "\<exists>w1. clear_slots kc env name w = (Inr (), w1) \<and>
    (\<forall>u. fst (store_get kc u w1) = (if u = name \<or> u = refresh_username name then Inr None else fst (store_get kc u w)))"
proof -
  let ?w1 = "snd (store_delete kc env name w)" and ?w2 = "snd (store_delete kc env (refresh_username name) (snd (store_delete kc env name w)))"
  have two: "fst (store_delete kc env name w) = Inr () \<and> fst (store_delete kc env (refresh_username name) ?w1) = Inr () \<and>
      (\<forall>u. fst (store_get kc u ?w2) = (if u = name \<or> u = refresh_username name then Inr None else fst (store_get kc u w)))"
    using assms unfolding store_works_def
  proof (elim disjE exE conjE)
    fix p um assume "env = undisturbed um" and b: "file_backed p w"
    then show ?thesis using module_store.remove_two [OF b] by simp
  next
    fix good holds assume b: "keyring_backed kc good holds w"
    show ?thesis using keyring_store.remove_two [OF b] by simp
  qed
  then show ?thesis
    by (intro exI [of _ ?w2])
       (simp add: clear_slots_def delete_password_def delete_refresh_token_def prod_eq_iff split: prod.splits sum.splits)
qed

lemma dropped_rows:
  assumes "accounts_ok d" "a \<in> set (ab_accounts d)" "acc_name a = name"
  shows "get_account_by_name n (drop_account (acc_id a) d) = (if n = name then None else get_account_by_name n d)"
proof (cases "n = name")
  case True
  with assms show ?thesis
    by (auto simp: get_account_by_name_def drop_account_def find_None_conv accounts_ok_def distinct_map inj_on_def)
next
  case False
  have "acc_id x \<noteq> acc_id a" if "x \<in> set (ab_accounts d)" "acc_name x = n" for x
    using assms that False by (auto simp: accounts_ok_def distinct_map inj_on_def)
  then have "find (\<lambda>x. acc_name x = n) (filter (\<lambda>x. acc_id x \<noteq> acc_id a) xs) = find (\<lambda>x. acc_name x = n) xs"
    if "set xs \<subseteq> set (ab_accounts d)" for xs
    using that by (induction xs) auto
  with False show ?thesis by (simp add: get_account_by_name_def drop_account_def)
qed



subsection \<open>The edit form\<close>

text \<open>
  What a browser sends back when the rendered edit form is submitted untouched: a text area's lines end in carriage
  return and line feed, a selection without a chosen option sends its first, and only the offered flags can be ticked.
\<close>

definition crlf_lines :: "string \<Rightarrow> string" where
  "crlf_lines t = concat (map (\<lambda>c. if c = newline then [CHR 0x0D, newline] else [c]) t)"

definition submit_untouched :: "account \<Rightarrow> form \<times> string list" where
  "submit_untouched a =
     (let (values, checked, _) = account_to_form_values a in
      ([(''name'', form_get values ''name''), (''email_address'', form_get values ''email_address''),
        (''auth_method'', form_get values ''auth_method''),
        (''oauth_provider'', if form_get values ''oauth_provider'' = ''gmail'' then ''gmail'' else []),
        (''imap_host'', form_get values ''imap_host''), (''imap_port'', form_get values ''imap_port''),
        (''folder_allow'', crlf_lines (form_get values ''folder_allow'')),
        (''folder_deny'', crlf_lines (form_get values ''folder_deny''))],
       filter (\<lambda>f. f \<in> checked) deny_flag_choices))"

definition clean_line :: "string \<Rightarrow> bool" where
  "clean_line x \<longleftrightarrow> x \<noteq> [] \<and> strip x = x \<and> list_all (\<lambda>c. \<not> is_line_break c) x"

lemma line_breaks: "is_line_break (newline)" "is_line_break (CHR 0x0D)"
  by (simp_all add: is_line_break_def)

lemma splitlines_last: "x \<noteq> [] \<Longrightarrow> list_all (\<lambda>c. \<not> is_line_break c) x \<Longrightarrow> splitlines x = [x]"
  by (subst splitlines.simps) (simp add: list_all_iff takeWhile_eq_all_conv [THEN iffD2] dropWhile_eq_Nil_conv [THEN iffD2])

lemma splitlines_line:
  assumes "list_all (\<lambda>c. \<not> is_line_break c) x"
  shows "splitlines (x @ CHR 0x0D # newline # rest) = x # splitlines rest"
proof -
  have "takeWhile (\<lambda>c. \<not> is_line_break c) (x @ CHR 0x0D # newline # rest) = x"
    "dropWhile (\<lambda>c. \<not> is_line_break c) (x @ CHR 0x0D # newline # rest) = CHR 0x0D # newline # rest"
    using assms by (simp_all add: list_all_iff line_breaks)
  then show ?thesis by (subst splitlines.simps) (simp add: after_break_def)
qed

lemma crlf_plain: "list_all (\<lambda>c. \<not> is_line_break c) x \<Longrightarrow> crlf_lines (x @ t) = x @ crlf_lines t"
  by (induction x) (auto simp: crlf_lines_def is_line_break_def)

lemma splitlines_submitted:
  "x \<noteq> [] \<Longrightarrow> list_all (\<lambda>c. \<not> is_line_break c) x \<Longrightarrow> list_all clean_line xs \<Longrightarrow>
    splitlines (crlf_lines (x @ concat (map (\<lambda>x. newline # x) xs))) = x # xs"
proof (induction xs arbitrary: x)
  case Nil
  then show ?case using crlf_plain [of x "[]"] by (simp add: crlf_lines_def splitlines_last)
next
  case (Cons y ys)
  have "crlf_lines (newline # y @ concat (map (\<lambda>x. newline # x) ys)) =
      CHR 0x0D # newline # crlf_lines (y @ concat (map (\<lambda>x. newline # x) ys))"
    by (simp add: crlf_lines_def)
  then show ?case using Cons by (simp add: crlf_plain splitlines_line clean_line_def)
qed

lemma parse_lines_submitted:
  assumes "list_all clean_line xs"
  shows "parse_lines (crlf_lines (join_lines xs)) = (if xs = [] then None else Some xs)"
proof (cases xs)
  case Nil
  then show ?thesis by (simp add: join_lines_def crlf_lines_def parse_lines_def splitlines.simps)
next
  case (Cons x ys)
  have "splitlines (crlf_lines (join_lines xs)) = x # ys"
    using assms splitlines_submitted [of x ys] by (simp add: join_lines_def Cons clean_line_def)
  moreover have "map strip xs = xs" using assms by (induction xs) (simp_all add: clean_line_def)
  moreover have "filter (\<lambda>l. l \<noteq> []) xs = xs" using assms by (induction xs) (simp_all add: clean_line_def)
  ultimately show ?thesis using Cons by (simp add: parse_lines_def Let_def)
qed

text \<open>A row whose text fields hold what the service and the form would store.\<close>

definition form_clean :: "account \<Rightarrow> bool" where
  "form_clean a \<longleftrightarrow>
     strip (acc_email a) = acc_email a \<and> acc_email a \<noteq> [] \<and> CHR ''@'' \<in> set (acc_email a) \<and>
     acc_oauth_provider a \<in> {None, Some ''gmail''} \<and>
     validate_combo (Some (acc_auth_method a)) (acc_imap_host a) (acc_imap_port a) (acc_oauth_provider a) = Inr () \<and>
     (\<forall>h. acc_imap_host a = Some h \<longrightarrow> strip h = h) \<and>
     list_all clean_line (list_or_empty (acc_folder_allow a)) \<and> list_all clean_line (list_or_empty (acc_folder_deny a))"

lemma port_text:
  assumes "port_min \<le> p" "p \<le> port_max"
  shows "parse_port (int_str p) m = (if m = ''archive'' then Inr None else Inr (Some p))"
proof -
  have b: "0 < p" "nat p < 10 ^ 5" using assms by (auto simp: port_min_def port_max_def)
  have s: "int_str p = nat_str (nat p)" using b(1) by (simp add: int_str_def)
  have st: "strip (nat_str (nat p)) = nat_str (nat p)" by (rule strip_decimal [OF nat_str_decimal])
  have "length (nat_str (nat p)) \<le> 5" by (rule length_nat_str [OF _ b(2)]) simp
  then have "py_int (nat_str (nat p)) = Some p" using b(1) py_int_nat_str [of "nat p"] by (simp add: max_str_digits_def)
  then show ?thesis using nat_str_nonempty [of "nat p"] by (simp add: parse_port_def s st)
qed

lemma none_or_some: "acc = (if xs = [] then None else Some xs) \<Longrightarrow> norm_folders acc = set xs"
  by (simp add: norm_folders_def)

lemma norm_list_or_empty: "norm_folders v = set (list_or_empty v)"
  by (cases v) (simp_all add: norm_folders_def list_or_empty_def)

lemma norm_nonempty: "norm_folders (if xs = [] then None else Some xs) = set xs"
  by (simp add: norm_folders_def)

lemma strip_nil: "strip [] = []"
  by (simp add: strip_def lstrip_def rstrip_def)

text \<open>What the form sends back, field by field, and what the patch is built from.\<close>

abbreviation kept_flags :: "account \<Rightarrow> string list" where
  "kept_flags a \<equiv> filter (\<lambda>f. f \<in> norm_folders (acc_folder_deny_flags a)) deny_flag_choices"

definition resubmitted :: "account \<Rightarrow> create_args" where
  "resubmitted a = \<lparr>ca_name = strip (acc_name a), ca_email = acc_email a, ca_auth_method = acc_auth_method a,
     ca_imap_host = acc_imap_host a, ca_imap_port = acc_imap_port a, ca_oauth_provider = acc_oauth_provider a,
     ca_folder_allow = parse_lines (crlf_lines (join_lines (list_or_empty (acc_folder_allow a)))),
     ca_folder_deny = parse_lines (crlf_lines (join_lines (list_or_empty (acc_folder_deny a)))),
     ca_folder_deny_flags = (if kept_flags a = [] then None else Some (kept_flags a))\<rparr>"

lemma submitted_values:
  "map_of (fst (submit_untouched a)) ''auth_method'' = Some (acc_auth_method a)"
  "map_of (fst (submit_untouched a)) ''name'' = Some (acc_name a)"
  "map_of (fst (submit_untouched a)) ''email_address'' = Some (acc_email a)"
  "form_get (fst (submit_untouched a)) ''imap_port'' = (case acc_imap_port a of None \<Rightarrow> [] | Some p \<Rightarrow> if p = 0 then [] else int_str p)"
  "form_get (fst (submit_untouched a)) ''imap_host'' = (case acc_imap_host a of None \<Rightarrow> [] | Some h \<Rightarrow> h)"
  "form_get (fst (submit_untouched a)) ''oauth_provider'' = (if acc_oauth_provider a = Some ''gmail'' then ''gmail'' else [])"
  "form_get (fst (submit_untouched a)) ''folder_allow'' = crlf_lines (join_lines (list_or_empty (acc_folder_allow a)))"
  "form_get (fst (submit_untouched a)) ''folder_deny'' = crlf_lines (join_lines (list_or_empty (acc_folder_deny a)))"
  "snd (submit_untouched a) = kept_flags a"
  by (simp_all add: submit_untouched_def account_to_form_values_def Let_def form_get_def split: option.splits)

lemma clean_connection:
  assumes "form_clean a"
  shows "acc_auth_method a = ''archive'' \<Longrightarrow> acc_imap_host a = None \<and> acc_imap_port a = None"
    "acc_auth_method a \<noteq> ''archive'' \<Longrightarrow>
       \<exists>h p. acc_imap_host a = Some h \<and> h \<noteq> [] \<and> acc_imap_port a = Some p \<and> port_min \<le> p \<and> p \<le> port_max"
  using assms by (auto simp: form_clean_def validate_combo_def bindr_Inr_iff split: if_splits option.splits)

lemma submitted_connection:
  assumes "form_clean a"
  shows "parse_port (form_get (fst (submit_untouched a)) ''imap_port'') (acc_auth_method a) = Inr (acc_imap_port a)"
    "(if acc_auth_method a = ''archive'' then None else none_if_blank (form_get (fst (submit_untouched a)) ''imap_host'')) = acc_imap_host a"
    "none_if_blank (form_get (fst (submit_untouched a)) ''oauth_provider'') = acc_oauth_provider a"
proof -
  note live = clean_connection [OF assms] and c = assms [unfolded form_clean_def]
  show "parse_port (form_get (fst (submit_untouched a)) ''imap_port'') (acc_auth_method a) = Inr (acc_imap_port a)"
  proof (cases "acc_auth_method a = ''archive''")
    case True
    then show ?thesis using live(1) by (simp add: submitted_values parse_port_def)
  next
    case False
    then obtain p where p: "acc_imap_port a = Some p" "port_min \<le> p" "p \<le> port_max" using live(2) by blast
    moreover then have "p \<noteq> 0" by (simp add: port_min_def)
    ultimately show ?thesis using port_text [of p "acc_auth_method a"] False by (simp add: submitted_values)
  qed
  show "(if acc_auth_method a = ''archive'' then None else none_if_blank (form_get (fst (submit_untouched a)) ''imap_host'')) = acc_imap_host a"
    using live c by (cases "acc_auth_method a = ''archive''") (auto simp: submitted_values none_if_blank_def)
  have "strip ''gmail'' = ''gmail''" by code_simp
  then show "none_if_blank (form_get (fst (submit_untouched a)) ''oauth_provider'') = acc_oauth_provider a"
    using c by (auto simp: submitted_values none_if_blank_def strip_nil)
qed

lemma submitted_kwargs:
  assumes "form_clean a"
  shows "form_to_create_kwargs (fst (submit_untouched a)) (snd (submit_untouched a)) = Inr (resubmitted a)"
proof -
  have flags: "parse_deny_flags (kept_flags a) = Inr (if kept_flags a = [] then None else Some (kept_flags a))"
    by (auto simp: parse_deny_flags_def list_all_iff)
  show ?thesis
    unfolding form_to_create_kwargs_def submitted_values(1-3,7-9) option.case prod.case submitted_connection [OF assms] flags
      bindr_simps resubmitted_def
    using assms by (simp add: form_clean_def)
qed

lemma resubmitted_lists:
  assumes "form_clean a"
  shows "norm_folders (ca_folder_allow (resubmitted a)) = norm_folders (acc_folder_allow a)"
    "norm_folders (ca_folder_deny (resubmitted a)) = norm_folders (acc_folder_deny a)"
    "norm_folders (ca_folder_deny_flags (resubmitted a)) = norm_folders (acc_folder_deny_flags a) \<inter> set deny_flag_choices"
proof -
  have cl: "list_all clean_line (list_or_empty (acc_folder_allow a))" "list_all clean_line (list_or_empty (acc_folder_deny a))"
    using assms by (simp_all add: form_clean_def)
  show "norm_folders (ca_folder_allow (resubmitted a)) = norm_folders (acc_folder_allow a)"
    "norm_folders (ca_folder_deny (resubmitted a)) = norm_folders (acc_folder_deny a)"
    unfolding norm_list_or_empty [of "acc_folder_allow a"] norm_list_or_empty [of "acc_folder_deny a"]
    by (simp_all only: resubmitted_def create_args.select_convs parse_lines_submitted [OF cl(1)] parse_lines_submitted [OF cl(2)] norm_nonempty)
  have "norm_folders (ca_folder_deny_flags (resubmitted a)) = set (kept_flags a)"
    by (simp only: resubmitted_def create_args.select_convs norm_nonempty)
  then show "norm_folders (ca_folder_deny_flags (resubmitted a)) = norm_folders (acc_folder_deny_flags a) \<inter> set deny_flag_choices"
    by auto
qed

text \<open>
  C36. Saving the untouched edit form of a clean row is accepted and keeps its name, address, method, provider, endpoint and
  pause, and its folder lists as the sets they are; of the flags that exclude folders it keeps only those the form
  offers, and drops every other one.
\<close>

theorem untouched_edit_keeps_all_but_unoffered_flags:
  assumes "accounts_ok d" "a \<in> set (ab_accounts d)" "form_clean a"
  shows "\<exists>u b d1. form_to_patch_fields (fst (submit_untouched a)) (snd (submit_untouched a)) = Inr u \<and>
    update_account now id (acc_id a) u d = (Inr b, d1) \<and>
    acc_name b = acc_name a \<and> acc_email b = acc_email a \<and> acc_auth_method b = acc_auth_method a \<and>
    acc_oauth_provider b = acc_oauth_provider a \<and> acc_imap_host b = acc_imap_host a \<and> acc_imap_port b = acc_imap_port a \<and>
    acc_sync_enabled b = acc_sync_enabled a \<and>
    norm_folders (acc_folder_allow b) = norm_folders (acc_folder_allow a) \<and>
    norm_folders (acc_folder_deny b) = norm_folders (acc_folder_deny a) \<and>
    norm_folders (acc_folder_deny_flags b) = norm_folders (acc_folder_deny_flags a) \<inter> set deny_flag_choices"
proof -
  let ?args = "resubmitted a"
  note c = assms(3) [unfolded form_clean_def]
  define u where "u = \<lparr>up_unknown = False, up_email = Some (Some (acc_email a)), up_auth_method = Some (Some (acc_auth_method a)),
      up_oauth_provider = Some (acc_oauth_provider a), up_imap_host = Some (acc_imap_host a), up_imap_port = Some (acc_imap_port a),
      up_folder_allow = Some (ca_folder_allow ?args), up_folder_deny = Some (ca_folder_deny ?args),
      up_folder_deny_flags = Some (ca_folder_deny_flags ?args), up_sync_enabled = None\<rparr>"
  have patch: "form_to_patch_fields (fst (submit_untouched a)) (snd (submit_untouched a)) = Inr u"
    by (simp add: form_to_patch_fields_def submitted_kwargs [OF assms(3)] u_def) (simp add: resubmitted_def)
  define b where "b = a\<lparr>acc_folder_allow := ca_folder_allow ?args, acc_folder_deny := ca_folder_deny ?args,
      acc_folder_deny_flags := ca_folder_deny_flags ?args, acc_updated_at := now\<rparr>"
  have row: "updated_row now u a = Some b" by (simp add: updated_row_def u_def b_def given_def)
  have chk: "row_check b" using assms(1,2) by (auto simp: b_def accounts_ok_def row_check_def)
  have find: "find (\<lambda>x. acc_id x = acc_id a) (ab_accounts d) = Some a" by (rule row_of_id [OF assms(1,2)]) simp
  have "validate_email (Some (acc_email a)) = Inr ()" using c by (simp add: validate_email_def)
  then have "update_account now id (acc_id a) u d = update_row now u (acc_id a) d"
    using c find by (simp add: update_account_def get_account_def u_def no_update_def given_def)
  moreover obtain d1 where "update_row now u (acc_id a) d = (Inr b, d1)"
    using update_row_succeeds(1) [OF assms(1,2) refl row chk] by blast
  ultimately have up: "update_account now id (acc_id a) u d = (Inr b, d1)" by simp
  show ?thesis using patch up resubmitted_lists [OF assms(3)] by (intro exI [of _ u] exI [of _ b] exI [of _ d1]) (simp add: b_def)
qed

theorem untouched_edit_keeps_all_but_unoffered_flags_witness:
  "\<exists>u b d1. form_to_patch_fields (fst (submit_untouched (sample_account\<lparr>acc_folder_deny_flags := Some [''$Junk'']\<rparr>)))
       (snd (submit_untouched (sample_account\<lparr>acc_folder_deny_flags := Some [''$Junk'']\<rparr>))) = Inr u \<and>
     update_account 9 id 1 u (sample_accounts\<lparr>ab_accounts := [sample_account\<lparr>acc_folder_deny_flags := Some [''$Junk'']\<rparr>]\<rparr>) = (Inr b, d1) \<and>
     norm_folders (acc_folder_deny_flags b) = {}"
proof -
  let ?a = "sample_account\<lparr>acc_folder_deny_flags := Some [''$Junk'']\<rparr>"
  let ?d = "sample_accounts\<lparr>ab_accounts := [?a]\<rparr>"
  have ok: "accounts_ok ?d" by (simp add: accounts_ok_def sample_accounts_def sample_account_def row_check_def)
  have m: "?a \<in> set (ab_accounts ?d)" by simp
  have c: "form_clean ?a"
  proof -
    have "strip ''a@b'' = ''a@b''" "strip ''imap'' = ''imap''" "clean_line ''Spam''"
      "validate_combo (Some ''password'') (Some ''imap'') (Some 993) None = Inr ()" by code_simp+
    then show ?thesis by (simp add: form_clean_def sample_account_def list_or_empty_def)
  qed
  have i: "acc_id ?a = 1" by (simp add: sample_account_def)
  have e: "norm_folders (acc_folder_deny_flags ?a) \<inter> set deny_flag_choices = {}"
    by (simp add: norm_folders_def deny_flag_choices_def)
  from untouched_edit_keeps_all_but_unoffered_flags [OF ok m c, of 9] show ?thesis unfolding i e by blast
qed

end
