(* ===== verification/Signed.thy ===== *)
theory Signed
  imports Json PyStr
begin

text \<open>
  The signed strings the servers hand out and take back: the cookie of an administration session
  (\<open>api/admin/session_tokens.py\<close>), the tokens of its forms (\<open>api/admin/csrf.py\<close>), the state of the
  Gmail flow (\<open>api/admin/oauth_state.py\<close>) and the authorization request on its way through the consent page
  (\<open>mcp/oauth/consent_state.py\<close>).

  Base64 is modelled as \<open>binascii\<close> decodes it, junk and padding included. The message authentication code, the two
  directions of \<open>json\<close> and \<open>int\<close> of a double are parameters. An exception that the decoder's callers do not
  expect is \<open>Uncaught\<close>; a signed body whose values have other types than its encoder writes ends there too.
\<close>

subsection \<open>Base64\<close>

definition b64_char :: "nat \<Rightarrow> char" where
  "b64_char n =
     (if n < 26 then char_of (65 + n) else if n < 52 then char_of (71 + n) else if n < 62 then char_of (n - 4)
      else if n = 62 then CHR ''-'' else CHR ''_'')"

fun b64_digits :: "bytes \<Rightarrow> nat list" where
  "b64_digits [] = []"
| "b64_digits [a] = [of_char a div 4, of_char a mod 4 * 16]"
| "b64_digits [a, b] = [of_char a div 4, of_char a mod 4 * 16 + of_char b div 16, of_char b mod 16 * 4]"
| "b64_digits (a # b # c # ds) =
     [of_char a div 4, of_char a mod 4 * 16 + of_char b div 16, of_char b mod 16 * 4 + of_char c div 64, of_char c mod 64] @
     b64_digits ds"

text \<open>\<open>urlsafe_b64encode(data).rstrip(b"=")\<close>.\<close>

definition b64url_encode :: "bytes \<Rightarrow> string" where
  "b64url_encode data = map b64_char (b64_digits data)"

text \<open>The decoder's table after the translation of the URL-safe alphabet, which leaves the plain one valid.\<close>

definition b64_value :: "char \<Rightarrow> nat option" where
  "b64_value c =
     (let n = of_char c in
      if 65 \<le> n \<and> n \<le> 90 then Some (n - 65) else if 97 \<le> n \<and> n \<le> 122 then Some (n - 71)
      else if 48 \<le> n \<and> n \<le> 57 then Some (n + 4)
      else if c = CHR ''+'' \<or> c = CHR ''-'' then Some 62
      else if c = CHR ''/'' \<or> c = CHR ''_'' then Some 63 else None)"

text \<open>
  The loop of \<open>a2b_base64\<close>: the position in the group of four, the bits left over and the padding seen. A character
  outside the table is skipped, and enough padding ends the input.
\<close>

fun b64_run :: "nat \<Rightarrow> nat \<Rightarrow> nat \<Rightarrow> string \<Rightarrow> bytes option" where
  "b64_run q left pads [] = (if q = 0 then Some [] else None)"
| "b64_run q left pads (c # cs) =
     (if c = CHR ''='' then
        (if 2 \<le> q then (if 4 \<le> q + (pads + 1) then Some [] else b64_run q left (pads + 1) cs)
         else b64_run q left pads cs)
      else (case b64_value c of
              None \<Rightarrow> b64_run q left pads cs
            | Some v \<Rightarrow>
                if q = 0 then b64_run 1 v 0 cs
                else if q = 1 then map_option ((#) (char_of (left * 4 + v div 16))) (b64_run 2 (v mod 16) 0 cs)
                else if q = 2 then map_option ((#) (char_of (left * 16 + v div 4))) (b64_run 3 (v mod 4) 0 cs)
                else map_option ((#) (char_of (left * 64 + v))) (b64_run 0 0 0 cs)))"

definition b64_padding :: "nat \<Rightarrow> string" where
  "b64_padding n = replicate ((4 - n mod 4) mod 4) (CHR ''='')"

definition b64url_decode :: "string \<Rightarrow> bytes option" where
  "b64url_decode s = (if isascii s then b64_run 0 0 0 (s @ b64_padding (length s)) else None)"

subsection \<open>Signing\<close>

datatype token_fault =
    MalformedToken
  | SignatureMismatch
  | MalformedPayload
  | UnsupportedVersion
  | TokenExpired
  | ShortKey
  | Uncaught

record signer =
  sg_mac :: "bytes \<Rightarrow> bytes \<Rightarrow> bytes"
  sg_dumps :: "json \<Rightarrow> bytes"
  sg_loads :: "bytes \<Rightarrow> json option"
  sg_float_int :: "int \<Rightarrow> token_fault + int"

definition sign :: "signer \<Rightarrow> bytes \<Rightarrow> string \<Rightarrow> string" where
  "sign sg key body_b64 = b64url_encode (sg_mac sg key body_b64)"

definition encode_unsigned :: "signer \<Rightarrow> (string \<times> json) list \<Rightarrow> string" where
  "encode_unsigned sg d = b64url_encode (sg_dumps sg (JObj d))"

definition signed_token :: "signer \<Rightarrow> bytes \<Rightarrow> (string \<times> json) list \<Rightarrow> string" where
  "signed_token sg key d = (let body = encode_unsigned sg d in body @ CHR ''.'' # sign sg key body)"

definition load_body :: "signer \<Rightarrow> string \<Rightarrow> json option" where
  "load_body sg body = (case b64url_decode body of None \<Rightarrow> None | Some raw \<Rightarrow> sg_loads sg raw)"

subsection \<open>Session cookies\<close>

record session_payload_full =
  sf_user_id :: int
  sf_issued_at :: int
  sf_exp :: int

definition session_version :: int where "session_version = 1"
definition min_key_length :: nat where "min_key_length = 16"

definition session_entries :: "session_payload_full \<Rightarrow> (string \<times> json) list" where
  "session_entries p =
     [(''exp'', JInt (sf_exp p)), (''issued_at'', JInt (sf_issued_at p)), (''user_id'', JInt (sf_user_id p)), (''v'', JInt session_version)]"

definition encode_session_token :: "signer \<Rightarrow> bytes \<Rightarrow> session_payload_full \<Rightarrow> token_fault + string" where
  "encode_session_token sg key p =
     (if length key < min_key_length then Inl ShortKey else Inr (signed_token sg key (session_entries p)))"

text \<open>\<open>int(x)\<close> of a JSON value; an absent key reads as \<open>JNull\<close>, which fails in the same way.\<close>

definition json_int :: "signer \<Rightarrow> json \<Rightarrow> token_fault + int" where
  "json_int sg j =
     (case j of
        JInt i \<Rightarrow> Inr i
      | JBool b \<Rightarrow> Inr (if b then 1 else 0)
      | JFloat f \<Rightarrow> sg_float_int sg f
      | JStr s \<Rightarrow> (case py_int s of None \<Rightarrow> Inl MalformedPayload | Some i \<Rightarrow> Inr i)
      | _ \<Rightarrow> Inl MalformedPayload)"

definition decode_session_token :: "signer \<Rightarrow> bytes \<Rightarrow> int \<Rightarrow> string \<Rightarrow> token_fault + session_payload_full" where
  "decode_session_token sg key now token =
     (if count_char (CHR ''.'') token \<noteq> 1 then Inl MalformedToken
      else
        (let body = before_first (CHR ''.'') token; sig = after_first (CHR ''.'') token in
         if body = [] \<or> sig = [] then Inl MalformedToken
         else if \<not> isascii body \<or> \<not> isascii sig then Inl Uncaught
         else if sign sg key body \<noteq> sig then Inl SignatureMismatch
         else (case load_body sg body of
                 Some (JObj d) \<Rightarrow>
                   if \<not> py_eq_one (json_get ''v'' d) then Inl UnsupportedVersion
                   else bindr (json_int sg (json_get ''user_id'' d)) (\<lambda>uid.
                        bindr (json_int sg (json_get ''issued_at'' d)) (\<lambda>issued.
                        bindr (json_int sg (json_get ''exp'' d)) (\<lambda>e.
                          if e \<le> now then Inl TokenExpired
                          else Inr \<lparr>sf_user_id = uid, sf_issued_at = issued, sf_exp = e\<rparr>)))
               | _ \<Rightarrow> Inl MalformedPayload)))"

subsection \<open>Form tokens\<close>

text \<open>UTF-8 of the characters the model's strings hold.\<close>

definition utf8_char :: "char \<Rightarrow> bytes" where
  "utf8_char c = (let n = of_char c :: nat in if n < 128 then [c] else [char_of (192 + n div 64), char_of (128 + n mod 64)])"

definition utf8_encode :: "string \<Rightarrow> bytes" where
  "utf8_encode s = concat (map utf8_char s)"

definition bind_string :: "int \<Rightarrow> string \<Rightarrow> bytes" where
  "bind_string user_id action = utf8_encode (''v=1|u='' @ int_str user_id @ ''|a='' @ action)"

definition make_csrf_token :: "signer \<Rightarrow> bytes \<Rightarrow> int \<Rightarrow> string \<Rightarrow> token_fault + string" where
  "make_csrf_token sg key user_id action =
     (if length key < min_key_length then Inl ShortKey
      else Inr (b64url_encode (sg_mac sg key (bind_string user_id action))))"

definition verify_csrf_token :: "signer \<Rightarrow> bytes \<Rightarrow> int \<Rightarrow> string \<Rightarrow> string \<Rightarrow> token_fault + unit" where
  "verify_csrf_token sg key user_id action token =
     (if token = [] \<or> CHR ''.'' \<in> set token then Inl MalformedToken
      else bindr (make_csrf_token sg key user_id action) (\<lambda>expected.
        if \<not> isascii token then Inl Uncaught
        else if expected \<noteq> token then Inl SignatureMismatch else Inr ()))"

subsection \<open>State of the Gmail flow and of the consent page\<close>

text \<open>The part the two decoders share: the separator, the signature compared as bytes, the parsed body.\<close>

definition open_signed :: "signer \<Rightarrow> bytes \<Rightarrow> string \<Rightarrow> token_fault + json" where
  "open_signed sg key token =
     (if CHR ''.'' \<notin> set token then Inl MalformedToken
      else
        (let body = before_first (CHR ''.'') token; sig = after_first (CHR ''.'') token in
         if \<not> isascii body then Inl Uncaught
         else (case b64url_decode sig of
                 None \<Rightarrow> Inl MalformedToken
               | Some actual \<Rightarrow>
                   if sg_mac sg key body \<noteq> actual then Inl SignatureMismatch
                   else (case load_body sg body of None \<Rightarrow> Inl MalformedPayload | Some j \<Rightarrow> Inr j))))"

text \<open>\<open>Payload(**body)\<close>: the keys must be the fields, each required one present.\<close>

definition keys_fit :: "string list \<Rightarrow> string list \<Rightarrow> (string \<times> json) list \<Rightarrow> bool" where
  "keys_fit required allowed d \<longleftrightarrow> set (map fst d) \<subseteq> set allowed \<and> set required \<subseteq> set (map fst d)"

record state_payload =
  os_user_id :: int
  os_account_id :: int
  os_nonce :: string
  os_exp :: int

definition state_entries :: "state_payload \<Rightarrow> (string \<times> json) list" where
  "state_entries p =
     [(''account_id'', JInt (os_account_id p)), (''exp'', JInt (os_exp p)), (''nonce'', JStr (os_nonce p)), (''user_id'', JInt (os_user_id p))]"

definition encode_state :: "signer \<Rightarrow> bytes \<Rightarrow> state_payload \<Rightarrow> string" where
  "encode_state sg key p = signed_token sg key (state_entries p)"

definition decode_state :: "signer \<Rightarrow> bytes \<Rightarrow> int \<Rightarrow> string \<Rightarrow> token_fault + state_payload" where
  "decode_state sg key now token =
     bindr (open_signed sg key token) (\<lambda>j.
       case j of
         JObj d \<Rightarrow>
           if \<not> keys_fit [''user_id'', ''account_id'', ''nonce'', ''exp''] [''user_id'', ''account_id'', ''nonce'', ''exp''] d
           then Inl MalformedPayload
           else (case (json_get ''user_id'' d, json_get ''account_id'' d, json_get ''nonce'' d, json_get ''exp'' d) of
                   (JInt u, JInt a, JStr n, JInt e) \<Rightarrow>
                     if e < now then Inl TokenExpired
                     else Inr \<lparr>os_user_id = u, os_account_id = a, os_nonce = n, os_exp = e\<rparr>
                 | _ \<Rightarrow> Inl Uncaught)
       | _ \<Rightarrow> Inl MalformedPayload)"

record consent_payload =
  cp_client_id :: string
  cp_redirect_uri :: string
  cp_redirect_explicit :: bool
  cp_code_challenge :: string
  cp_scopes :: "string list"
  cp_state :: "string option"
  cp_exp :: int
  cp_resource :: "string option"

definition json_opt :: "string option \<Rightarrow> json" where
  "json_opt v = (case v of None \<Rightarrow> JNull | Some s \<Rightarrow> JStr s)"

definition consent_entries :: "consent_payload \<Rightarrow> (string \<times> json) list" where
  "consent_entries p =
     [(''client_id'', JStr (cp_client_id p)), (''code_challenge'', JStr (cp_code_challenge p)), (''exp'', JInt (cp_exp p)),
      (''redirect_uri'', JStr (cp_redirect_uri p)), (''redirect_uri_provided_explicitly'', JBool (cp_redirect_explicit p)),
      (''resource'', json_opt (cp_resource p)), (''scopes'', JArr (map JStr (cp_scopes p))), (''state'', json_opt (cp_state p))]"

definition encode_consent_state :: "signer \<Rightarrow> bytes \<Rightarrow> consent_payload \<Rightarrow> string" where
  "encode_consent_state sg key p = signed_token sg key (consent_entries p)"

fun json_strings :: "json list \<Rightarrow> string list option" where
  "json_strings [] = Some []"
| "json_strings (JStr s # js) = map_option ((#) s) (json_strings js)"
| "json_strings (j # js) = None"

definition json_opt_string :: "json \<Rightarrow> string option option" where
  "json_opt_string j = (case j of JNull \<Rightarrow> Some None | JStr s \<Rightarrow> Some (Some s) | _ \<Rightarrow> None)"

definition consent_required :: "string list" where
  "consent_required =
     [''client_id'', ''redirect_uri'', ''redirect_uri_provided_explicitly'', ''code_challenge'', ''scopes'', ''state'', ''exp'']"

definition decode_consent_state :: "signer \<Rightarrow> bytes \<Rightarrow> int \<Rightarrow> string \<Rightarrow> token_fault + consent_payload" where
  "decode_consent_state sg key now token =
     bindr (open_signed sg key token) (\<lambda>j.
       case j of
         JObj d \<Rightarrow>
           if \<not> keys_fit consent_required (consent_required @ [''resource'']) d then Inl MalformedPayload
           else (case (json_get ''client_id'' d, json_get ''redirect_uri'' d, json_get ''redirect_uri_provided_explicitly'' d,
                       json_get ''code_challenge'' d) of
                   (JStr client, JStr uri, JBool explicit, JStr challenge) \<Rightarrow>
                     (case (json_get ''scopes'' d, json_opt_string (json_get ''state'' d), json_get ''exp'' d,
                            json_opt_string (json_get ''resource'' d)) of
                        (JArr scopes, Some state, JInt e, Some resource) \<Rightarrow>
                          (case json_strings scopes of
                             None \<Rightarrow> Inl Uncaught
                           | Some ss \<Rightarrow>
                               if e < now then Inl TokenExpired
                               else Inr \<lparr>cp_client_id = client, cp_redirect_uri = uri, cp_redirect_explicit = explicit,
                                         cp_code_challenge = challenge, cp_scopes = ss, cp_state = state, cp_exp = e,
                                         cp_resource = resource\<rparr>)
                      | _ \<Rightarrow> Inl Uncaught)
                 | _ \<Rightarrow> Inl Uncaught)
       | _ \<Rightarrow> Inl MalformedPayload)"

end
