(* ===== verification/SignedSafety.thy ===== *)
theory SignedSafety
  imports Signed
begin

text \<open>
  What a signed string proves: every decoder gives back what its encoder was given until the string expires, no
  string of one kind is accepted as another kind under the same key, a form's token is good for one user and one
  action, and a cookie that is accepted is one the server issued. Where an argument needs the code's message
  authentication code to have no collision, the collision is an alternative of the conclusion.
\<close>

subsection \<open>Base64 round trip\<close>

lemma b64_value_char: "n < 64 \<Longrightarrow> b64_value (b64_char n) = Some n"
  by (auto simp: b64_value_def b64_char_def Let_def)

lemma b64_char_plain: "n < 64 \<Longrightarrow> b64_char n \<noteq> CHR ''='' \<and> b64_char n \<noteq> CHR ''.'' \<and> b64_char n \<noteq> CHR ''|'' \<and> (of_char (b64_char n) :: nat) < 128"
  by (auto simp: b64_char_def dest: arg_cong [where f = "of_char :: char \<Rightarrow> nat"])

lemma of_char_bounds:
  "(of_char c :: nat) div 4 < 64" "(of_char c :: nat) mod 4 * 16 + (of_char b :: nat) div 16 < 64"
  "(of_char c :: nat) mod 16 * 4 + (of_char b :: nat) div 64 < 64" "(of_char c :: nat) mod 64 < 64"
  "(of_char c :: nat) mod 4 * 16 < 64" "(of_char c :: nat) mod 16 * 4 < 64"
proof -
  have a: "(of_char c :: nat) < 256" "(of_char b :: nat) < 256" by (rule nat_of_char_less_256)+
  have d: "(of_char c :: nat) div 4 < 64" "(of_char b :: nat) div 16 < 16" "(of_char b :: nat) div 64 < 4"
    using a by (simp_all add: less_mult_imp_div_less)
  have m: "(of_char c :: nat) mod 4 < 4" "(of_char c :: nat) mod 16 < 16" by simp_all
  show "(of_char c :: nat) div 4 < 64" "(of_char c :: nat) mod 4 * 16 + (of_char b :: nat) div 16 < 64"
    "(of_char c :: nat) mod 16 * 4 + (of_char b :: nat) div 64 < 64" "(of_char c :: nat) mod 64 < 64"
    "(of_char c :: nat) mod 4 * 16 < 64" "(of_char c :: nat) mod 16 * 4 < 64"
    using d m by linarith+
qed

lemma b64_run_digit:
  assumes "n < 64"
  shows "b64_run 0 l p (b64_char n # cs) = b64_run 1 n 0 cs"
    "b64_run (Suc 0) l p (b64_char n # cs) = map_option ((#) (char_of (l * 4 + n div 16))) (b64_run 2 (n mod 16) 0 cs)"
    "b64_run 2 l p (b64_char n # cs) = map_option ((#) (char_of (l * 16 + n div 4))) (b64_run 3 (n mod 4) 0 cs)"
    "b64_run 3 l p (b64_char n # cs) = map_option ((#) (char_of (l * 64 + n))) (b64_run 0 0 0 cs)"
  using b64_value_char [OF assms] b64_char_plain [OF assms] by simp_all

lemma joined_digits:
  "(m :: nat) < k \<Longrightarrow> (n * k + m) div k = n" "(m :: nat) < k \<Longrightarrow> (n * k + m) mod k = m"
  by simp_all

lemma byte_parts: "(of_char c :: nat) div 16 < 16" "(of_char c :: nat) div 64 < 4"
  using nat_of_char_less_256 [of c] by (simp_all add: less_mult_imp_div_less)

lemma padding_values:
  "b64_padding 0 = []" "b64_padding (Suc (Suc 0)) = ''==''" "b64_padding (Suc (Suc (Suc 0))) = ''=''"
  "b64_padding (Suc (Suc (Suc (Suc n)))) = b64_padding n"
proof -
  have "Suc (Suc (Suc (Suc n))) = n + 4" by simp
  then have "Suc (Suc (Suc (Suc n))) mod 4 = n mod 4" using mod_add_self2 [of n 4] by presburger
  then show "b64_padding (Suc (Suc (Suc (Suc n)))) = b64_padding n" by (simp only: b64_padding_def)
qed (code_simp+)

lemma b64_run_padding: "b64_run 2 l 0 ''=='' = Some []" "b64_run 3 l 0 ''='' = Some []"
  by simp_all

lemma b64_round: "b64_run 0 0 0 (b64url_encode d @ b64_padding (length (b64url_encode d))) = Some d"
proof (induction d rule: b64_digits.induct)
  case 1
  then show ?case by (simp add: b64url_encode_def padding_values)
next
  case (2 a)
  have "of_char a div 4 * 4 + of_char a mod 4 = (of_char a :: nat)" by simp
  then show ?case using of_char_bounds [of a]
    by (simp add: b64url_encode_def b64_run_digit padding_values b64_run_padding del: b64_run.simps)
next
  case (3 a b)
  have "of_char b div 16 * 16 + of_char b mod 16 = (of_char b :: nat)" "of_char a div 4 * 4 + of_char a mod 4 = (of_char a :: nat)"
    by simp_all
  then show ?case using of_char_bounds(1) [of a] of_char_bounds(2) [of a b] of_char_bounds(6) [of b] byte_parts [of b]
    by (simp add: b64url_encode_def b64_run_digit padding_values b64_run_padding joined_digits del: b64_run.simps)
next
  case (4 a b c ds)
  have "of_char b div 16 * 16 + of_char b mod 16 = (of_char b :: nat)" "of_char a div 4 * 4 + of_char a mod 4 = (of_char a :: nat)"
    "of_char c div 64 * 64 + of_char c mod 64 = (of_char c :: nat)"
    by simp_all
  then show ?case using 4 of_char_bounds(1) [of a] of_char_bounds(2) [of a b] of_char_bounds(3) [of b c] of_char_bounds(4) [of c]
      byte_parts [of b] byte_parts [of c]
    by (simp add: b64url_encode_def b64_run_digit padding_values joined_digits del: b64_run.simps)
qed

lemma b64_digits_less: "n \<in> set (b64_digits d) \<Longrightarrow> n < 64"
  by (induction d rule: b64_digits.induct) (auto simp: of_char_bounds)

lemma b64_encode_plain:
  assumes "c \<in> set (b64url_encode d)"
  shows "c \<noteq> CHR ''.''" "c \<noteq> CHR ''|''" "(of_char c :: nat) < 128"
  using assms b64_char_plain b64_digits_less by (auto simp: b64url_encode_def)

lemma b64_encode_ascii: "isascii (b64url_encode d)"
  using b64_encode_plain(3) by (auto simp: isascii_def list_all_iff)

lemma b64_decode_encode: "b64url_decode (b64url_encode d) = Some d"
  by (simp add: b64url_decode_def b64_encode_ascii b64_round)

lemma b64_encode_inj: "b64url_encode x = b64url_encode y \<longleftrightarrow> x = y"
  by (metis b64_decode_encode option.inject)

lemma b64_encode_nonempty: "b64url_encode d = [] \<longleftrightarrow> d = []"
  by (cases d rule: b64_digits.cases) (simp_all add: b64url_encode_def)

subsection \<open>Opening what was signed\<close>

text \<open>
  What the code relies on: \<open>json.loads(json.dumps(d))\<close> is \<open>d\<close> for a document without doubles whose objects have each
  key once, no printed document is empty, and no authentication code is.
\<close>

fun dumpable :: "json \<Rightarrow> bool" where
  "dumpable (JFloat f) \<longleftrightarrow> False"
| "dumpable (JArr js) \<longleftrightarrow> (\<forall>j \<in> set js. dumpable j)"
| "dumpable (JObj fs) \<longleftrightarrow> distinct (map fst fs) \<and> (\<forall>kv \<in> set fs. dumpable (snd kv))"
| "dumpable j \<longleftrightarrow> True"

definition sound_signer :: "signer \<Rightarrow> bool" where
  "sound_signer sg \<longleftrightarrow>
     (\<forall>j. dumpable j \<longrightarrow> sg_loads sg (sg_dumps sg j) = Some j \<and> sg_dumps sg j \<noteq> []) \<and> (\<forall>k m. sg_mac sg k m \<noteq> [])"

lemma before_dot: "CHR ''.'' \<notin> set x \<Longrightarrow> before_first (CHR ''.'') (x @ CHR ''.'' # y) = x"
  by (induction x) (auto simp: before_first_def)

lemma after_dot: "CHR ''.'' \<notin> set x \<Longrightarrow> after_first (CHR ''.'') (x @ CHR ''.'' # y) = y"
  by (induction x) (auto simp: after_first_def)

lemma no_dot: "CHR ''.'' \<notin> set (b64url_encode d)"
  using b64_encode_plain(1) by blast

lemma signed_token_parts:
  "before_first (CHR ''.'') (signed_token sg key d) = encode_unsigned sg d"
  "after_first (CHR ''.'') (signed_token sg key d) = sign sg key (encode_unsigned sg d)"
  "CHR ''.'' \<in> set (signed_token sg key d)"
  "count_char (CHR ''.'') (signed_token sg key d) = 1"
proof -
  have "CHR ''.'' \<notin> set (encode_unsigned sg d)" "CHR ''.'' \<notin> set (sign sg key (encode_unsigned sg d))"
    by (simp_all add: encode_unsigned_def sign_def no_dot)
  then show "before_first (CHR ''.'') (signed_token sg key d) = encode_unsigned sg d"
    "after_first (CHR ''.'') (signed_token sg key d) = sign sg key (encode_unsigned sg d)"
    "CHR ''.'' \<in> set (signed_token sg key d)" "count_char (CHR ''.'') (signed_token sg key d) = 1"
    by (auto simp: signed_token_def Let_def before_dot after_dot count_char_def filter_empty_conv)
qed

lemma load_signed: "sound_signer sg \<Longrightarrow> dumpable (JObj d) \<Longrightarrow> load_body sg (encode_unsigned sg d) = Some (JObj d)"
  by (simp add: load_body_def encode_unsigned_def b64_decode_encode sound_signer_def del: dumpable.simps)

lemma unsigned_ascii: "isascii (encode_unsigned sg d)" "isascii (sign sg key b)"
  by (simp_all add: encode_unsigned_def sign_def b64_encode_ascii)

lemma unsigned_nonempty:
  "sound_signer sg \<Longrightarrow> dumpable (JObj d) \<Longrightarrow> encode_unsigned sg d \<noteq> []" "sound_signer sg \<Longrightarrow> sign sg key b \<noteq> []"
  by (simp_all add: encode_unsigned_def sign_def b64_encode_nonempty sound_signer_def del: dumpable.simps)

lemma decode_sign: "b64url_decode (sign sg key b) = Some (sg_mac sg key b)"
  by (simp add: sign_def b64_decode_encode)

lemma open_signed_token: "sound_signer sg \<Longrightarrow> dumpable (JObj d) \<Longrightarrow> open_signed sg key (signed_token sg key d) = Inr (JObj d)"
  by (simp add: open_signed_def signed_token_parts unsigned_ascii load_signed decode_sign Let_def del: dumpable.simps)

lemma decode_session_signed:
  assumes "sound_signer sg" "dumpable (JObj d)"
  shows "decode_session_token sg key now (signed_token sg key d) =
    (if \<not> py_eq_one (json_get ''v'' d) then Inl UnsupportedVersion
     else bindr (json_int sg (json_get ''user_id'' d)) (\<lambda>uid. bindr (json_int sg (json_get ''issued_at'' d)) (\<lambda>issued.
          bindr (json_int sg (json_get ''exp'' d)) (\<lambda>e.
            if e \<le> now then Inl TokenExpired else Inr \<lparr>sf_user_id = uid, sf_issued_at = issued, sf_exp = e\<rparr>))))"
  using assms
  by (simp add: decode_session_token_def signed_token_parts unsigned_ascii unsigned_nonempty load_signed Let_def del: dumpable.simps)

lemma entries_dumpable:
  "dumpable (JObj (session_entries p))" "dumpable (JObj (state_entries q))" "dumpable (JObj (consent_entries c))"
  by (auto simp: session_entries_def state_entries_def consent_entries_def json_opt_def split: option.splits)

subsection \<open>Round trips\<close>

lemma json_strings_map: "json_strings (map JStr xs) = Some xs"
  by (induction xs) auto

lemma json_opt_round: "json_opt_string (json_opt v) = Some v"
  by (cases v) (simp_all add: json_opt_string_def json_opt_def)

text \<open>
  C37. Each decoder returns what its encoder signed until the string expires, a cookie at its last second, the two
  others after theirs; from then on each reports the expiry.
\<close>

theorem signed_round_trips:
  assumes "sound_signer sg" "min_key_length \<le> length key"
  shows "(\<exists>t. encode_session_token sg key p = Inr t \<and>
       decode_session_token sg key now t = (if sf_exp p \<le> now then Inl TokenExpired else Inr p)) \<and>
    decode_state sg key now (encode_state sg key q) = (if os_exp q < now then Inl TokenExpired else Inr q) \<and>
    decode_consent_state sg key now (encode_consent_state sg key c) = (if cp_exp c < now then Inl TokenExpired else Inr c)"
proof (intro conjI)
  have "encode_session_token sg key p = Inr (signed_token sg key (session_entries p))"
    using assms(2) by (simp add: encode_session_token_def)
  moreover have "decode_session_token sg key now (signed_token sg key (session_entries p)) =
      (if sf_exp p \<le> now then Inl TokenExpired else Inr p)"
    by (simp add: decode_session_signed [OF assms(1) entries_dumpable(1)], simp add: session_entries_def json_get_def py_eq_one_def session_version_def json_int_def)
  ultimately show "\<exists>t. encode_session_token sg key p = Inr t \<and>
       decode_session_token sg key now t = (if sf_exp p \<le> now then Inl TokenExpired else Inr p)" by blast
  show "decode_state sg key now (encode_state sg key q) = (if os_exp q < now then Inl TokenExpired else Inr q)"
    by (simp add: decode_state_def encode_state_def open_signed_token [OF assms(1) entries_dumpable(2)], simp add: state_entries_def json_get_def keys_fit_def)
  show "decode_consent_state sg key now (encode_consent_state sg key c) = (if cp_exp c < now then Inl TokenExpired else Inr c)"
    by (simp add: decode_consent_state_def encode_consent_state_def open_signed_token [OF assms(1) entries_dumpable(3)],
        simp add: consent_entries_def json_get_def keys_fit_def consent_required_def json_strings_map json_opt_round)
qed

text \<open>No string of one kind is accepted as another, even under one key.\<close>

theorem signed_kinds_are_separate:
  assumes "sound_signer sg"
  shows "\<not> is_ok (decode_session_token sg key now (encode_state sg key q)) \<and>
    \<not> is_ok (decode_session_token sg key now (encode_consent_state sg key c)) \<and>
    \<not> is_ok (decode_state sg key now (signed_token sg key (session_entries p))) \<and>
    \<not> is_ok (decode_state sg key now (encode_consent_state sg key c)) \<and>
    \<not> is_ok (decode_consent_state sg key now (signed_token sg key (session_entries p))) \<and>
    \<not> is_ok (decode_consent_state sg key now (encode_state sg key q))"
proof (intro conjI)
  note opened = decode_session_signed [OF assms] open_signed_token [OF assms] entries_dumpable
  note keys = keys_fit_def json_get_def py_eq_one_def consent_required_def session_entries_def state_entries_def consent_entries_def
  show "\<not> is_ok (decode_session_token sg key now (encode_state sg key q))"
    unfolding encode_state_def opened(1) [OF opened(4)] by (simp add: keys)
  show "\<not> is_ok (decode_session_token sg key now (encode_consent_state sg key c))"
    unfolding encode_consent_state_def opened(1) [OF opened(5)] by (simp add: keys)
  show "\<not> is_ok (decode_state sg key now (signed_token sg key (session_entries p)))"
    unfolding decode_state_def opened(2) [OF opened(3)] by (simp add: keys)
  show "\<not> is_ok (decode_state sg key now (encode_consent_state sg key c))"
    unfolding decode_state_def encode_consent_state_def opened(2) [OF opened(5)] by (simp add: keys)
  show "\<not> is_ok (decode_consent_state sg key now (signed_token sg key (session_entries p)))"
    unfolding decode_consent_state_def opened(2) [OF opened(3)] by (simp add: keys)
  show "\<not> is_ok (decode_consent_state sg key now (encode_state sg key q))"
    unfolding decode_consent_state_def encode_state_def opened(2) [OF opened(4)] by (simp add: keys)
qed

subsection \<open>What a form's token is bound to\<close>

lemma utf8_char_head: "utf8_char c @ x = utf8_char d @ y \<Longrightarrow> c = d \<and> x = y"
proof -
  assume a: "utf8_char c @ x = utf8_char d @ y"
  have b: "(of_char c :: nat) < 256" "(of_char d :: nat) < 256" by (rule nat_of_char_less_256)+
  show ?thesis
  proof (cases "(of_char c :: nat) < 128"; cases "(of_char d :: nat) < 128")
    assume c: "(of_char c :: nat) < 128" and d: "(of_char d :: nat) < 128"
    then show ?thesis using a by (simp add: utf8_char_def Let_def)
  next
    assume c: "(of_char c :: nat) < 128" and d: "\<not> (of_char d :: nat) < 128"
    then have "c = char_of (192 + (of_char d :: nat) div 64)" using a by (simp add: utf8_char_def Let_def)
    moreover have "192 + (of_char d :: nat) div 64 < 256" using byte_parts(2) [of d] by linarith
    ultimately have "(of_char c :: nat) = 192 + of_char d div 64" by simp
    then show ?thesis using c by simp
  next
    assume c: "\<not> (of_char c :: nat) < 128" and d: "(of_char d :: nat) < 128"
    then have "d = char_of (192 + (of_char c :: nat) div 64)" using a by (simp add: utf8_char_def Let_def)
    moreover have "192 + (of_char c :: nat) div 64 < 256" using byte_parts(2) [of c] by linarith
    ultimately have "(of_char d :: nat) = 192 + of_char c div 64" by simp
    then show ?thesis using d by simp
  next
    assume c: "\<not> (of_char c :: nat) < 128" and d: "\<not> (of_char d :: nat) < 128"
    then have e: "char_of (192 + (of_char c :: nat) div 64) = (char_of (192 + (of_char d :: nat) div 64) :: char)"
      "char_of (128 + (of_char c :: nat) mod 64) = (char_of (128 + (of_char d :: nat) mod 64) :: char)" "x = y"
      using a by (simp_all add: utf8_char_def Let_def)
    have m: "(of_char c :: nat) mod 64 < 64" "(of_char d :: nat) mod 64 < 64" by simp_all
    have r: "192 + (of_char c :: nat) div 64 < 256" "192 + (of_char d :: nat) div 64 < 256"
      "128 + (of_char c :: nat) mod 64 < 256" "128 + (of_char d :: nat) mod 64 < 256"
      using byte_parts(2) [of c] byte_parts(2) [of d] m by linarith+
    have "192 + (of_char c :: nat) div 64 = 192 + of_char d div 64" "128 + (of_char c :: nat) mod 64 = 128 + of_char d mod 64"
      using arg_cong [OF e(1), of "of_char :: char \<Rightarrow> nat"] arg_cong [OF e(2), of "of_char :: char \<Rightarrow> nat"] r by simp_all
    then have "(of_char c :: nat) = of_char d" by (metis add_left_cancel div_mult_mod_eq)
    then show ?thesis using e(3) by simp
  qed
qed

lemma utf8_nonempty: "utf8_char c \<noteq> []"
  by (simp add: utf8_char_def Let_def)

lemma utf8_encode_inj: "utf8_encode x = utf8_encode y \<longleftrightarrow> x = y"
proof
  show "utf8_encode x = utf8_encode y \<Longrightarrow> x = y"
  proof (induction x arbitrary: y)
    case Nil
    then show ?case by (cases y) (simp_all add: utf8_encode_def utf8_nonempty)
  next
    case (Cons c x)
    then obtain d ys where y: "y = d # ys" by (cases y) (simp_all add: utf8_encode_def utf8_nonempty)
    then have "utf8_char c @ utf8_encode x = utf8_char d @ utf8_encode ys" using Cons.prems by (simp add: utf8_encode_def)
    from utf8_char_head [OF this] show ?case using Cons.IH [of ys] y by simp
  qed
qed simp

lemma int_str_chars: "c \<in> set (int_str i) \<Longrightarrow> is_decimal c \<or> c = CHR ''-''"
  using nat_str_decimal by (auto simp: int_str_def list_all_iff split: if_splits)

lemma nat_str_no_sign: "nat_str n \<noteq> CHR ''-'' # s"
proof
  assume "nat_str n = CHR ''-'' # s"
  moreover have "list_all is_decimal (nat_str n)" by (rule nat_str_decimal)
  ultimately have "is_decimal (CHR ''-'')" by simp
  then show False using decimal_not_sign by blast
qed

lemma nat_str_inj: "nat_str m = nat_str n \<longleftrightarrow> m = n"
  by (metis digits_val_nat_str option.inject of_nat_eq_iff)

lemma int_str_inj: "int_str i = int_str j \<longleftrightarrow> i = j"
proof
  assume e: "int_str i = int_str j"
  show "i = j"
  proof (cases "i < 0"; cases "j < 0")
    assume "i < 0" "j < 0"
    then show ?thesis using e by (simp add: int_str_def nat_str_inj)
  next
    assume "i < 0" "\<not> j < 0"
    then show ?thesis using e nat_str_no_sign by (metis int_str_def)
  next
    assume "\<not> i < 0" "j < 0"
    then show ?thesis using e nat_str_no_sign by (metis int_str_def)
  next
    assume "\<not> i < 0" "\<not> j < 0"
    then show ?thesis using e by (simp add: int_str_def nat_str_inj)
  qed
qed simp

lemma split_at_bar:
  assumes "CHR ''|'' \<notin> set x" "CHR ''|'' \<notin> set y" "x @ CHR ''|'' # u = y @ CHR ''|'' # v"
  shows "x = y \<and> u = v"
  using assms
proof (induction x arbitrary: y)
  case Nil
  then show ?case by (cases y) auto
next
  case (Cons c x)
  then show ?case by (cases y) auto
qed

lemma bind_string_inj: "bind_string u a = bind_string v b \<longleftrightarrow> u = v \<and> a = b"
proof
  assume "bind_string u a = bind_string v b"
  then have e: "int_str u @ CHR ''|'' # (''a='' @ a) = int_str v @ CHR ''|'' # (''a='' @ b)"
    unfolding bind_string_def utf8_encode_inj by simp
  have n: "CHR ''|'' \<notin> set (int_str i)" for i using int_str_chars [of "CHR ''|''" i] by (auto simp: is_decimal_def)
  from split_at_bar [OF n n e] show "u = v \<and> a = b" unfolding int_str_inj by simp
qed simp

text \<open>
  A form token passes for the user and the action it was made for, and for any other user or action only if the
  message authentication code has a collision.
\<close>

theorem form_token_is_bound:
  assumes "make_csrf_token sg key u a = Inr t" "sound_signer sg"
  shows "verify_csrf_token sg key u a t = Inr () \<and>
    (verify_csrf_token sg key v b t = Inr () \<longrightarrow> (v = u \<and> b = a) \<or> (\<exists>m m'. m \<noteq> m' \<and> sg_mac sg key m = sg_mac sg key m'))"
proof -
  have t: "t = b64url_encode (sg_mac sg key (bind_string u a))" and k: "\<not> length key < min_key_length"
    using assms(1) by (auto simp: make_csrf_token_def split: if_splits)
  have n: "t \<noteq> []" "CHR ''.'' \<notin> set t" "isascii t"
    using assms(2) by (simp_all add: t b64_encode_nonempty no_dot b64_encode_ascii sound_signer_def)
  have "verify_csrf_token sg key v b t = Inr () \<Longrightarrow> sg_mac sg key (bind_string v b) = sg_mac sg key (bind_string u a)"
    using n k by (auto simp: verify_csrf_token_def make_csrf_token_def t b64_encode_inj split: if_splits)
  then show ?thesis using n k by (auto simp: verify_csrf_token_def make_csrf_token_def t bind_string_inj) (metis bind_string_inj)+
qed


subsection \<open>A signer the theorems apply to\<close>

text \<open>
  A printer and a parser of documents without doubles, one command of a stack machine per character, under a code
  that repeats the key and the message.
\<close>

definition stack_chars :: "string \<Rightarrow> bytes" where
  "stack_chars s = concat (map (\<lambda>c. [CHR ''c'', c]) s)"

fun stack_dumps :: "json \<Rightarrow> bytes" where
  "stack_dumps JNull = ''n''"
| "stack_dumps (JBool b) = (if b then ''t'' else ''f'')"
| "stack_dumps (JInt i) = CHR ''i'' # replicate (nat i) (CHR ''+'') @ replicate (nat (- i)) (CHR ''-'')"
| "stack_dumps (JFloat f) = ''n''"
| "stack_dumps (JStr s) = CHR ''s'' # stack_chars s"
| "stack_dumps (JArr js) = CHR ''['' # concat (map (\<lambda>j. stack_dumps j @ ''a'') js)"
| "stack_dumps (JObj fs) = CHR ''{'' # concat (map (\<lambda>kv. CHR ''s'' # stack_chars (fst kv) @ stack_dumps (snd kv) @ ''o'') fs)"

definition stack_step :: "char \<Rightarrow> json list \<Rightarrow> json list option" where
  "stack_step x st =
     (if x = CHR ''n'' then Some (JNull # st) else if x = CHR ''t'' then Some (JBool True # st)
      else if x = CHR ''f'' then Some (JBool False # st) else if x = CHR ''i'' then Some (JInt 0 # st)
      else if x = CHR ''s'' then Some (JStr [] # st) else if x = CHR ''['' then Some (JArr [] # st)
      else if x = CHR ''{'' then Some (JObj [] # st)
      else (case st of
              JInt i # below \<Rightarrow>
                if x = CHR ''+'' then Some (JInt (i + 1) # below) else if x = CHR ''-'' then Some (JInt (i - 1) # below)
                else (case below of
                        JArr js # rest \<Rightarrow> if x = CHR ''a'' then Some (JArr (js @ [JInt i]) # rest) else None
                      | JStr k # JObj fs # rest \<Rightarrow> if x = CHR ''o'' then Some (JObj (fs @ [(k, JInt i)]) # rest) else None
                      | _ \<Rightarrow> None)
            | j # JArr js # rest \<Rightarrow> if x = CHR ''a'' then Some (JArr (js @ [j]) # rest) else None
            | j # JStr k # JObj fs # rest \<Rightarrow> if x = CHR ''o'' then Some (JObj (fs @ [(k, j)]) # rest) else None
            | _ \<Rightarrow> None))"

fun stack_run :: "bytes \<Rightarrow> json list \<Rightarrow> json list option" where
  "stack_run [] st = Some st"
| "stack_run [x] st = stack_step x st"
| "stack_run (x # y # r) st =
     (if x = CHR ''c'' then (case st of JStr s # below \<Rightarrow> stack_run r (JStr (s @ [y]) # below) | _ \<Rightarrow> None)
      else (case stack_step x st of None \<Rightarrow> None | Some st' \<Rightarrow> stack_run (y # r) st'))"

definition stack_loads :: "bytes \<Rightarrow> json option" where
  "stack_loads b = (case stack_run b [] of Some [j] \<Rightarrow> Some j | _ \<Rightarrow> None)"

definition stack_signer :: signer where
  "stack_signer = \<lparr>sg_mac = (\<lambda>k m. CHR ''m'' # k @ m), sg_dumps = stack_dumps, sg_loads = stack_loads, sg_float_int = (\<lambda>f. Inl MalformedPayload)\<rparr>"

lemma stack_run_step: "x \<noteq> CHR ''c'' \<Longrightarrow> stack_run (x # r) st = (case stack_step x st of None \<Rightarrow> None | Some st' \<Rightarrow> stack_run r st')"
  by (cases r) (auto split: option.splits)

lemma stack_run_chars: "stack_run (stack_chars s @ r) (JStr t # st) = stack_run r (JStr (t @ s) # st)"
  by (induction s arbitrary: t) (simp_all add: stack_chars_def)

lemma stack_run_up: "stack_run (replicate n (CHR ''+'') @ r) (JInt i # st) = stack_run r (JInt (i + int n) # st)"
  by (induction n arbitrary: i) (simp_all add: stack_run_step stack_step_def algebra_simps)

lemma stack_run_down: "stack_run (replicate n (CHR ''-'') @ r) (JInt i # st) = stack_run r (JInt (i - int n) # st)"
  by (induction n arbitrary: i) (simp_all add: stack_run_step stack_step_def algebra_simps)

lemma stack_close_arr: "stack_step (CHR ''a'') (j # JArr js # st) = Some (JArr (js @ [j]) # st)"
  by (cases j) (simp_all add: stack_step_def)

lemma stack_close_obj: "stack_step (CHR ''o'') (j # JStr k # JObj fs # st) = Some (JObj (fs @ [(k, j)]) # st)"
  by (cases j) (simp_all add: stack_step_def)

lemma stack_open:
  "stack_step (CHR ''n'') st = Some (JNull # st)" "stack_step (CHR ''t'') st = Some (JBool True # st)"
  "stack_step (CHR ''f'') st = Some (JBool False # st)" "stack_step (CHR ''i'') st = Some (JInt 0 # st)"
  "stack_step (CHR ''s'') st = Some (JStr [] # st)" "stack_step (CHR ''['') st = Some (JArr [] # st)"
  "stack_step (CHR ''{'') st = Some (JObj [] # st)"
  by (simp_all add: stack_step_def)

lemmas stack_moves = stack_run_step stack_open stack_run_chars stack_run_up stack_run_down stack_close_arr stack_close_obj

lemma stack_run_dumps: "dumpable j \<Longrightarrow> stack_run (stack_dumps j @ r) st = stack_run r (j # st)"
proof (induction j arbitrary: r st)
  case (JArr js)
  have "stack_run (concat (map (\<lambda>j. stack_dumps j @ ''a'') xs) @ r) (JArr ys # st) = stack_run r (JArr (ys @ xs) # st)"
    if "set xs \<subseteq> set js" for xs ys
    using that JArr by (induction xs arbitrary: ys) (simp_all add: stack_moves)
  from this [of js "[]"] show ?case by (simp add: stack_moves)
next
  case (JObj fs)
  have one: "dumpable (snd kv) \<Longrightarrow> stack_run (stack_dumps (snd kv) @ r') st' = stack_run r' (snd kv # st')" if "kv \<in> set fs" for kv r' st'
    using JObj.IH [of kv "snd kv"] that by (simp add: snds.intros prod_set_simps)
  have "stack_run (concat (map (\<lambda>kv. CHR ''s'' # stack_chars (fst kv) @ stack_dumps (snd kv) @ ''o'') xs) @ r) (JObj ys # st) =
      stack_run r (JObj (ys @ xs) # st)"
    if "set xs \<subseteq> set fs" for xs ys
    using that JObj.prems one by (induction xs arbitrary: ys) (simp_all add: stack_moves)
  from this [of fs "[]"] show ?case by (simp add: stack_moves)
qed (simp_all add: stack_moves)

lemma stack_signer_sound: "sound_signer stack_signer"
  by (auto simp: sound_signer_def stack_signer_def stack_loads_def stack_run_dumps [where r = "[]", simplified])
    (auto elim: stack_dumps.elims split: if_splits)


theorem signed_round_trips_witness:
  "\<exists>t. encode_session_token stack_signer ''0123456789abcdef'' \<lparr>sf_user_id = 7, sf_issued_at = 1, sf_exp = 9\<rparr> = Inr t \<and>
     decode_session_token stack_signer ''0123456789abcdef'' 5 t = Inr \<lparr>sf_user_id = 7, sf_issued_at = 1, sf_exp = 9\<rparr>"
proof -
  have "min_key_length \<le> length ''0123456789abcdef''" by code_simp
  from signed_round_trips [OF stack_signer_sound this, of "\<lparr>sf_user_id = 7, sf_issued_at = 1, sf_exp = 9\<rparr>" 5
      "\<lparr>os_user_id = 7, os_account_id = 2, os_nonce = ''n'', os_exp = 9\<rparr>"
      "\<lparr>cp_client_id = ''c'', cp_redirect_uri = ''u'', cp_redirect_explicit = True, cp_code_challenge = ''x'', cp_scopes = [''s''],
        cp_state = None, cp_exp = 9, cp_resource = None\<rparr>"]
  show ?thesis by simp
qed

theorem signed_kinds_are_separate_witness:
  "\<not> is_ok (decode_session_token stack_signer ''0123456789abcdef'' 5
       (encode_state stack_signer ''0123456789abcdef'' \<lparr>os_user_id = 7, os_account_id = 2, os_nonce = ''n'', os_exp = 9\<rparr>))"
  using signed_kinds_are_separate [OF stack_signer_sound, of "''0123456789abcdef''" 5
      "\<lparr>os_user_id = 7, os_account_id = 2, os_nonce = ''n'', os_exp = 9\<rparr>"] by blast

theorem form_token_is_bound_witness:
  "\<exists>t. make_csrf_token stack_signer ''0123456789abcdef'' 7 ''POST /admin/x'' = Inr t \<and>
     verify_csrf_token stack_signer ''0123456789abcdef'' 7 ''POST /admin/x'' t = Inr ()"
proof -
  have m: "make_csrf_token stack_signer ''0123456789abcdef'' 7 ''POST /admin/x'' =
      Inr (b64url_encode (sg_mac stack_signer ''0123456789abcdef'' (bind_string 7 ''POST /admin/x'')))"
    by (simp add: make_csrf_token_def min_key_length_def)
  from form_token_is_bound [OF m stack_signer_sound, of 7 "''POST /admin/x''"] m show ?thesis by blast
qed

subsection \<open>What a server accepts as a cookie\<close>

lemma split_at_dot: "CHR ''.'' \<in> set t \<Longrightarrow> t = before_first (CHR ''.'') t @ CHR ''.'' # after_first (CHR ''.'') t"
  by (induction t) (auto simp: before_first_def after_first_def)

text \<open>
  An accepted cookie is a body with the code's own authentication code under the server's key, it is a version 1
  document, and it has not expired.
\<close>

theorem accepted_cookie_was_signed:
  assumes "decode_session_token sg key now t = Inr p"
  shows "now < sf_exp p \<and> (\<exists>body d. t = body @ CHR ''.'' # sign sg key body \<and> load_body sg body = Some (JObj d) \<and>
    py_eq_one (json_get ''v'' d) \<and> json_int sg (json_get ''user_id'' d) = Inr (sf_user_id p))"
proof -
  let ?b = "before_first (CHR ''.'') t"
  have "count_char (CHR ''.'') t = 1" using assms by (auto simp: decode_session_token_def split: if_splits)
  then have "CHR ''.'' \<in> set t" by (induction t) (auto simp: count_char_def split: if_splits)
  from split_at_dot [OF this] have t: "t = ?b @ CHR ''.'' # after_first (CHR ''.'') t" .
  from assms obtain d where d: "sign sg key ?b = after_first (CHR ''.'') t" "load_body sg ?b = Some (JObj d)"
    "py_eq_one (json_get ''v'' d)" "json_int sg (json_get ''user_id'' d) = Inr (sf_user_id p)" "now < sf_exp p"
    by (auto simp: decode_session_token_def Let_def bindr_def split: if_splits option.splits json.splits sum.splits)
  have "t = ?b @ CHR ''.'' # sign sg key ?b" using t d(1) by simp
  with d(2-5) show ?thesis by blast
qed

theorem accepted_cookie_was_signed_witness:
  "\<exists>t body. encode_session_token stack_signer ''0123456789abcdef'' \<lparr>sf_user_id = 7, sf_issued_at = 1, sf_exp = 9\<rparr> = Inr t \<and>
     t = body @ CHR ''.'' # sign stack_signer ''0123456789abcdef'' body"
proof -
  let ?p = "\<lparr>sf_user_id = 7, sf_issued_at = 1, sf_exp = 9\<rparr>" and ?k = "''0123456789abcdef''"
  let ?t = "signed_token stack_signer ?k (session_entries ?p)"
  have e: "encode_session_token stack_signer ?k ?p = Inr ?t" by (simp add: encode_session_token_def min_key_length_def)
  have "decode_session_token stack_signer ?k 5 ?t = Inr ?p"
    unfolding decode_session_signed [OF stack_signer_sound entries_dumpable(1)]
    by (simp add: session_entries_def json_get_def py_eq_one_def session_version_def json_int_def)
  from accepted_cookie_was_signed [OF this] e show ?thesis by blast
qed

text \<open>
  A cookie or a form token with a character outside ASCII is not rejected as malformed: comparing it raises an
  exception that none of the callers expects.
\<close>

theorem foreign_characters_are_not_rejected:
  "decode_session_token sg key now (body @ CHR ''.'' # sig) = Inl Uncaught \<and>
   (min_key_length \<le> length key \<longrightarrow> verify_csrf_token sg key u a sig = Inl Uncaught)"
  if "\<not> isascii sig" "CHR ''.'' \<notin> set sig" "CHR ''.'' \<notin> set body" "body \<noteq> []"
proof -
  have s: "sig \<noteq> []" using that(1) by (auto simp: isascii_def)
  have "count_char (CHR ''.'') (body @ CHR ''.'' # sig) = 1" using that by (auto simp: count_char_def filter_empty_conv)
  then have "decode_session_token sg key now (body @ CHR ''.'' # sig) = Inl Uncaught"
    using that s by (simp add: decode_session_token_def before_dot after_dot)
  moreover have "min_key_length \<le> length key \<longrightarrow> verify_csrf_token sg key u a sig = Inl Uncaught"
    using that s by (simp add: verify_csrf_token_def make_csrf_token_def)
  ultimately show ?thesis by blast
qed

theorem foreign_characters_are_not_rejected_witness:
  "decode_session_token stack_signer ''k'' 0 (''a'' @ CHR ''.'' # [CHR 0xE9]) = Inl Uncaught"
  using foreign_characters_are_not_rejected [of "[CHR 0xE9]" "''a''" stack_signer "''k''" 0] by (simp add: isascii_def)

end
