(* ===== verification/Spec2Isabelle.thy ===== *)
theory Spec2Isabelle
  imports Importer OAuth HttpBlob TextWindow ClientIp Caches Supervisor QuerySafety RankPool ExtractSafety DaemonSafety EmbedSafety AdminSafety LabelHomes Routes ChangesSafety SecretsSafety AccountsSafety SignedSafety
begin

text \<open>
  A verification of localmail, a self-hosted mail archive: it copies mail from IMAP accounts and
  from mbox or maildir archives into PostgreSQL and a content-addressed attachment tree, and serves
  search, browsing and downloads over HTTP and MCP to users who each may see some of the accounts.
  File names below are under \<open>src/src/localmail\<close>.

  \<^bold>\<open>The parts and their theories.\<close>

  \<^item> \<open>Prelude\<close> and \<open>PyStr\<close> hold what every part shares: results of calls that may raise, SQL-style
    updates, Python dictionaries, Python's \<open>str\<close> and \<open>int\<close>.

  \<^item> The write path. \<open>SyncStore\<close> has the tables and the connection (work, committed, what other
    sessions commit). \<open>FetchRetry\<close> (\<open>fetch_retry.py\<close>, \<open>uids.py\<close>) keeps the history of bodies the
    server will not hand over; \<open>Attachments\<close> (\<open>attachments.py\<close>) the blob tree; \<open>Sync\<close> (\<open>sync.py\<close>) one
    pass over an account, built on both. \<open>SyncSafety\<close> and \<open>SyncInvariants\<close> hold its theorems.
    \<open>Importer\<close> (\<open>importer/\<close>, \<open>api/admin/imports.py\<close>) stores archives with the same
    \<open>process_one_message\<close>, under a job table.

  \<^item> Who may read. \<open>Auth\<close> (\<open>api/auth.py\<close>, \<open>api/acl.py\<close>) has users, session tokens, API keys,
    rate limits and account grants; \<open>OAuth\<close> (\<open>mcp/oauth/\<close>) codes, rotating refresh tokens and access
    tokens over the same tables; \<open>ClientIp\<close> the address the rate limits count. \<open>Admin\<close>
    (\<open>api/admin/users.py\<close>, \<open>api/admin/api_keys.py\<close>, \<open>api/admin/auth.py\<close>,
    \<open>serve/admin/dependencies.py\<close>) administers users and keys; \<open>AdminSafety\<close> has its theorems.
    \<open>Signed\<close> (\<open>api/admin/session_tokens.py\<close>, \<open>api/admin/csrf.py\<close>, \<open>api/admin/oauth_state.py\<close>,
    \<open>mcp/oauth/consent_state.py\<close>) is the signed strings the servers hand out and take back, over \<open>Json\<close>;
    \<open>SignedSafety\<close> has its theorems.

  \<^item> What is synced. \<open>Secrets\<close> (\<open>account_names.py\<close>, \<open>secrets.py\<close>, \<open>secrets_store.py\<close>,
    \<open>secrets_file.py\<close>, \<open>secrets_migrate.py\<close>) is where passwords and refresh tokens are kept, \<open>Accounts\<close>
    (\<open>api/admin/accounts.py\<close>, \<open>account_seed.py\<close>, \<open>cli_account_resolve.py\<close>, \<open>cli_sync_toggle.py\<close>, \<open>cli.py\<close>,
    \<open>serve/admin/account_forms.py\<close>) the account table the daemon reads and everything that writes it;
    \<open>SecretsSafety\<close> and \<open>AccountsSafety\<close> have their theorems.

  \<^item> The read path. \<open>QueryLang\<close> (\<open>search/query.py\<close>, \<open>api/search.py\<close>, \<open>cli_search_query.py\<close>,
    \<open>search/arms.py\<close>) is the query language, its composers and the row filter, \<open>QuerySafety\<close> its
    theorems; \<open>Keyset\<close> (\<open>api/browse.py\<close>, \<open>search/date_keyset.py\<close>, \<open>search/sort_axes.py\<close>,
    \<open>api/search_cursor.py\<close>) the date-ordered walks; \<open>RankPool\<close> (\<open>search/searcher.py\<close>,
    \<open>search/relevance_order.py\<close>) the relevance-ranked pool; \<open>Caches\<close> the two caches they use;
    \<open>TextWindow\<close> and \<open>HttpBlob\<close> the paging of texts and the serving of files; \<open>Reading\<close>
    (\<open>api/messages.py\<close>, \<open>api/attachments.py\<close>, \<open>api/accounts.py\<close>, \<open>header_block.py\<close>) one message, its
    headers, attachments and folders, and \<open>Routes\<close> (\<open>serve/routes/\<close>, \<open>mcp/tools.py\<close>) the requests that
    reach them with a credential; \<open>ReadingSafety\<close> and \<open>Routes\<close> have the theorems. \<open>LabelHomes\<close> shows what
    they take for granted of the tables, that a label stays within an account, of everything that writes labels. \<open>Changes\<close>
    (\<open>serve/routes/changes.py\<close>) is the feed of new messages, \<open>ChangesSafety\<close> its theorems.

  \<^item> Text of attachments. \<open>Extract\<close> (\<open>search/attachment_kind.py\<close>, \<open>search/extractor.py\<close>,
    \<open>search/extract_queue.py\<close>, \<open>search/extract_worker.py\<close>) decides which blobs have text, runs the
    extractors over them and keeps the queue, its failure log and its operator commands;
    \<open>ExtractSafety\<close> has its theorems.

  \<^item> The index. \<open>Chunking\<close> (\<open>search/chunking.py\<close>, \<open>search/lang_text.py\<close>, \<open>search/sweep_pacing.py\<close>,
    \<open>search/failure_pacing.py\<close>) is what is done to a text before a model sees it and the pacing of the
    worker, \<open>Embed\<close> (\<open>search/embed_worker.py\<close>, \<open>search/lang_detect.py\<close>) the worker that chunks, embeds and
    detects languages; \<open>ChunkSafety\<close> and \<open>EmbedSafety\<close> have their theorems.

  \<^item> Processes. \<open>Daemon\<close> (\<open>daemon.py\<close>, \<open>daemon_reconcile.py\<close>, \<open>daemon_accounts.py\<close>,
    \<open>heartbeat.py\<close>, \<open>retry.py\<close>, \<open>shutdown_budget.py\<close>, \<open>api/admin/daemon.py\<close>, \<open>poller.py\<close>, \<open>idle.py\<close>)
    is the sync daemon: the workers of each account, their reconciliation with the account set, the
    commands and heartbeats in its tables, its shutdown, and the two worker loops; \<open>DaemonSafety\<close> has
    its theorems. \<open>Supervisor\<close> (\<open>serve/daemon_supervisor.py\<close>) runs the daemon as a child process.

  \<^bold>\<open>How state and effects are represented.\<close> A table is the list of its rows, a statement a function on
  the tables, a transaction the difference between \<open>work\<close> and \<open>committed\<close>. Where the code runs several
  statements under READ COMMITTED, what other sessions commit in between is an explicit argument
  (\<open>e_race\<close>, \<open>others\<close>, the list of tables in \<open>follow\<close>). Exceptions are the left side of a sum. Threads
  are an inductive step relation (\<open>sup_step\<close>). Parameters stand for what is not in the repository: the IMAP
  server, the mail parser, hashing, clocks, the retrieval arms and the models, PostgreSQL's text
  matching, the Unicode database; the laws assumed of them are named (\<open>unicode_laws\<close>,
  \<open>storage_laws\<close>, \<open>keyring_laws\<close>) and satisfied in the witnesses.

  \<^bold>\<open>What the theorems show.\<close>

  \<^item> Sync: no listed message below the committed watermark is unaccounted for, whatever interrupts the
    pass, unless the very statement that should record the failure of its UID failed; deduplication per account is exact; retrying discards nothing; a hold on a missing body ends;
    tombstones can be re-driven; attachments stored are attachments read. Two theorems show how the
    watermark can pass unread mail (a limit of zero, a UIDVALIDITY change).

  \<^item> Import: a job's reported counters match what was stored, up to one counted failure for each insert of
    poison bytes that itself failed and was swallowed; it reaches a terminal status if any
    terminal write succeeds, and at most one job is active.

  \<^item> Credentials: revocation is terminal for every kind of credential, also when it arrives in the
    middle of an exchange; a code is exchanged once; a refresh family never forks, and reuse purges it
    (with one theorem on what it can miss); login attempts lock out.

  \<^item> Administration: an administrator remains as long as \<open>revoke_admin\<close>, the one command without the guard, is not
    run on the only one, and that run can end it; only people who administer are admitted; machines stay machines; the listing of keys tells which work;
    a key lives from its minting to its revocation; operations on keys leave people alone.

  \<^item> Signed strings: each decoder returns what its encoder signed until the string expires; no kind is accepted as
    another; a form token is good for one user and one action. One theorem shows the input that is not rejected
    but crashes.

  \<^item> Secrets: a write that is interrupted, by an error or by the end of the process, leaves the old store or the
    new one; a secret is read from a private file only; the migration copies everything or can be run again;
    a named configuration keeps its backend.

  \<^item> Accounts: every writer keeps the rows well formed, and a change of an account is in the daemon's next plan,
    and in its threads after the next tick that goes through; the seed adds what is missing and changes nothing; removal
    by the command clears both secrets when the store works, and has deleted the row already when it does not; saving an untouched form keeps
    all but the flags it does not offer. One theorem shows the row that is accepted and ends the daemon.

  \<^item> Search: structured filters reach the search, up to the operators the text spells itself, which replace or extend
    them; the access list is a hard bound; parsed
    queries are well formed and can be stored; following a cursor serves everything once, on either walk, and the ranked
    pool never repeats a message across growths; scores that are no numbers never reach the sort.

  \<^item> Serving: a response carries exactly the requested bytes; paging a text reads all of it; both caches
    return what was stored, within its time to live; the client address cannot be forged past the
    trusted proxies.

  \<^item> Reading: on the routes for messages, attachments, accounts and folders and in the MCP tools that read them, the
    reply is a function of the rows granted to the user of the token (no label crossing accounts, which
    every writer of labels keeps so), and a revoked grant is gone with the next request; what the sync stored of an
    attachment is served; the bounded read of a header block is exact. One theorem shows the stored value that
    breaks the message holding it.

  \<^item> The feed: a client that polls and acknowledges is handed every granted message once, in order and after
    boundedly many polls, if messages commit within the horizon and ids follow the starts of their
    transactions; one theorem shows the message that is lost where they do not.

  \<^item> Extraction: sweeping the queue settles every blob, extracted or logged as failed, within a bounded
    number of sweeps, and the drain ends, once every statement succeeds, the record of a failure included; the queue's counters partition the blobs; the allow-list in SQL and the one in Python
    agree; what was given up can be reopened. One theorem shows the sweep that repeats for ever when
    the failure cannot be logged.

  \<^item> Embedding: sweeps settle every message, chunk and language, and every attachment text unless the
    chunker raises for it, in which case such texts block those behind them; a stored vector belongs to its
    chunk's text; the token windows cover the text; the chunker, the extractor and the healing of old rows
    agree on what is blank.

  \<^item> Daemon: no account ever has two live sets of workers; reconciling reaches the configured account set;
    no command is lost; the shutdown spends its grace once; an idle connection is renewed before the
    server drops it; every worker has one heartbeat row and keeps it fresh while it waits.

  \<^item> Supervisor: no child survives \<open>close\<close>, the status is honest, closing ends, the log is of the
    current run and bounded.

  The interfaces are locales: \<open>revocable\<close> (three credential stores), \<open>secret_store\<close> (the secrets file and the
  module with either backend selected), \<open>ttl_cache\<close> (two caches),
  \<open>composer\<close> (two composers), \<open>keyset_pager\<close> (two walks) and \<open>work_queue\<close> (the
  extraction queue and the four queues of the embedding worker), each interpreted on the definitions of the
  code.

  \<^bold>\<open>Bounds and loops.\<close> Two loops of the code may run for ever and carry fuel: \<open>drain\<close>, one unit
  a sweep, for which \<open>drain_terminates\<close> shows that one more than the budget of the queue is enough, and
  \<open>retry_with_backoff\<close>, one unit an attempt, enough once it reaches the first success. Loops that end are
  total functions: \<open>grow_loop\<close> ends
  because every turn raises \<open>candidates_per_arm\<close> towards its maximum, \<open>batches\<close> because every slice shortens the
  list. A caller that follows cursors is given one page per row and one more, which is enough because every page
  but the last serves a row. Integers are unbounded as in Python; a double is its ordinal among the finite
  doubles, which keeps \<open>nextafter\<close> and comparison exact.

  \<^bold>\<open>Not modelled.\<close> The daemon's LISTEN loop and signal handlers; format decoding, tokenizer and models behind search (third-party libraries);
  snippets; the HTML sanitiser and the header parser; forms and the shapes of responses; certificates; the wire spelling of a cursor
  (prefix, base64, ISO timestamp), so cursors are passed decoded. Each page of a walk reads one snapshot:
  the code notes that its two statements are two, and a row inserted between them at the boundary of the
  undated block may be missed by that walk.
\<close>

subsection \<open>Searching within the access list\<close>

text \<open>
  C13. From the parsed query to the last page: the date-ordered search of a user with a given
  access list, its cursor followed to the end, serves exactly the rows that match the query and
  belong to an allowed account, each once and in order, whatever account tokens the query text
  contains.
\<close>

theorem scoped_search_is_exact:
  assumes "0 < page_size" "distinct (map mr_id tbl)" "\<forall>r \<in> set tbl. 0 < mr_account r"
    and "\<And>r. sr_account (view r) = mr_account r"
    and "parse_query u q = Inr p"
  shows "follow (date_keyset_search
        (\<lambda>r. matches r \<and> filter_sql fe (pq_filters (clamp_account_ids_to_acl (resolve_account_names accts p) (Some allowed))) (view r))
        (pq_free_text p) page_size order) (replicate (length tbl + 1) tbl) None =
      (sort_key (row_key order) (filter (\<lambda>r. matches r \<and> filter_sql fe (pq_filters (resolve_account_names accts p)) (view r) \<and>
         mr_account r \<in> set allowed) tbl), True)"
proof -
  have "filter (\<lambda>r. matches r \<and> filter_sql fe (pq_filters (clamp_account_ids_to_acl (resolve_account_names accts p) (Some allowed))) (view r)) tbl =
      filter (\<lambda>r. matches r \<and> filter_sql fe (pq_filters (resolve_account_names accts p)) (view r) \<and> mr_account r \<in> set allowed) tbl"
    using assms(3,4) by (intro filter_cong) (auto simp: clamp_admits)
  with walk_exhausts [OF assms(1,2)] show ?thesis by simp
qed

definition row_view :: "mail_row \<Rightarrow> search_row" where
  "row_view r = \<lparr>sr_account = mr_account r, sr_from_addr = None, sr_from_name = None, sr_to_addrs = [], sr_subject = None,
     sr_date_sent = mr_date_sent r, sr_has_attachment = False, sr_attachment_names = [], sr_labels = [], sr_body_lang = None\<rparr>"

definition no_matching :: filter_env where
  "no_matching = \<lparr>fe_ilike = (\<lambda>s p. False), fe_name_contains = (\<lambda>ns v. False), fe_midnight = (\<lambda>d. 0)\<rparr>"

theorem scoped_search_is_exact_witness:
  "map mr_id (fst (follow (date_keyset_search
      (\<lambda>r. True \<and> filter_sql no_matching (pq_filters (clamp_account_ids_to_acl (resolve_account_names []
         \<lparr>pq_free_text = [], pq_filters = empty_filters\<rparr>) (Some [1, 2]))) (row_view r))
      [] 2 Desc) (replicate (length sample_table + 1) sample_table) None)) = [3, 4, 1, 5, 2]"
proof -
  have d: "distinct (map mr_id sample_table)" "\<forall>r \<in> set sample_table. 0 < mr_account r"
    by (simp_all add: sample_table_def sample_row_def)
  have q: "parse_query ascii_unidata [] = Inr \<lparr>pq_free_text = [], pq_filters = empty_filters\<rparr>"
    by (simp add: parse_query_def tokenize_def emit_def)
  have "map mr_id (sort_key (row_key Desc) (filter (\<lambda>r. True \<and> filter_sql no_matching (pq_filters (resolve_account_names []
      \<lparr>pq_free_text = [], pq_filters = empty_filters\<rparr>)) (row_view r) \<and> mr_account r \<in> set [1, 2]) sample_table)) = [3, 4, 1, 5, 2]"
    by code_simp
  with scoped_search_is_exact [OF _ d _ q, of 2 row_view "\<lambda>r. True" no_matching "[]" "[1, 2]" Desc] show ?thesis
    by (simp add: row_view_def)
qed

end
